(* ===== verification/Carrel_Prelude.thy ===== *)
theory Carrel_Prelude
  imports Main "HOL-Library.AList"
begin

text \<open>
  The vocabulary every component of the model shares: Go's clock and durations, Go's maps,
  records found by their key in a slice, and the transition systems whose invariants the
  components prove.

  \<^item> \<open>time.Time\<close> is an \<^typ>\<open>int\<close>, nanoseconds since Go's zero time, so the zero time is 0.
    The monotonic reading of the clock is not modelled.
  \<^item> \<open>time.Duration\<close> is an \<^typ>\<open>int\<close> that an \<open>int64\<close> can hold. \<open>wrap64\<close> is two's complement
    wrap-around, written out where the code multiplies durations; \<open>time.Time.Sub\<close> saturates,
    which is \<open>sat64\<close>.
  \<^item> a Go \<open>map\<close> is an association list with distinct keys; the order of the list is one of
    the orders the runtime may iterate in.
\<close>

named_theorems gomap_simps \<open>what a lookup returns after each map operation\<close>
named_theorems frame_simps \<open>what an operation leaves unchanged\<close>
named_theorems inv_intros \<open>preservation of the components' invariants\<close>

subsection \<open>Clock and durations\<close>

type_synonym time = int
type_synonym duration = int

definition zero_time :: time where
  "zero_time = 0"

definition is_zero :: "time \<Rightarrow> bool" where
  "is_zero t \<longleftrightarrow> t = 0"

definition int64_max :: int where
  "int64_max = 9223372036854775807"

definition int64_min :: int where
  "int64_min = -9223372036854775808"

definition wrap64 :: "int \<Rightarrow> int" where
  "wrap64 x = (x + 9223372036854775808) mod 18446744073709551616 - 9223372036854775808"

definition sat64 :: "int \<Rightarrow> int" where
  "sat64 x = (if x > int64_max then int64_max else if x < int64_min then int64_min else x)"

definition time_sub :: "time \<Rightarrow> time \<Rightarrow> duration" where
  "time_sub t u = sat64 (t - u)"

definition time_add :: "time \<Rightarrow> duration \<Rightarrow> time" where
  "time_add t d = t + d"

definition nanosecond :: duration where "nanosecond = 1"
definition millisecond :: duration where "millisecond = 1000000"
definition second :: duration where "second = 1000000000"
definition minute :: duration where "minute = 60000000000"
definition hour :: duration where "hour = 3600000000000"

lemmas duration_defs = millisecond_def second_def minute_def hour_def

lemma is_zero_zero [simp]: "is_zero 0"
  by (simp add: is_zero_def)

lemma wrap64_id: "int64_min \<le> x \<Longrightarrow> x \<le> int64_max \<Longrightarrow> wrap64 x = x"
  by (simp add: wrap64_def int64_min_def int64_max_def)

lemma wrap64_range: "int64_min \<le> wrap64 x \<and> wrap64 x \<le> int64_max"
proof -
  have "0 \<le> (x + 9223372036854775808) mod 18446744073709551616"
    by simp
  moreover have "(x + 9223372036854775808) mod 18446744073709551616 < 18446744073709551616"
    by simp
  ultimately show ?thesis
    by (simp add: wrap64_def int64_min_def int64_max_def)
qed

text \<open>Comparing a saturated difference with a duration is comparing the exact difference.\<close>

lemma time_sub_ge: "d \<le> int64_max \<Longrightarrow> int64_min < d \<Longrightarrow> d \<le> time_sub t u \<longleftrightarrow> d \<le> t - u"
  by (auto simp: time_sub_def sat64_def int64_max_def int64_min_def)

lemma time_sub_le: "0 \<le> d \<Longrightarrow> t - u \<le> d \<Longrightarrow> time_sub t u \<le> d"
  by (auto simp: time_sub_def sat64_def int64_max_def int64_min_def)

lemma time_sub_self [simp]: "time_sub t t = 0"
  by (simp add: time_sub_def sat64_def int64_max_def int64_min_def)

subsection \<open>Go maps\<close>

type_synonym ('k, 'v) gomap = "('k \<times> 'v) list"

abbreviation gm_get :: "('k, 'v) gomap \<Rightarrow> 'k \<Rightarrow> 'v option" where
  "gm_get m k \<equiv> map_of m k"

definition gm_put :: "'k \<Rightarrow> 'v \<Rightarrow> ('k, 'v) gomap \<Rightarrow> ('k, 'v) gomap" where
  "gm_put k v m = AList.update k v m"

definition gm_del :: "'k \<Rightarrow> ('k, 'v) gomap \<Rightarrow> ('k, 'v) gomap" where
  "gm_del k m = filter (\<lambda>(k', _). k' \<noteq> k) m"

definition gm_wf :: "('k, 'v) gomap \<Rightarrow> bool" where
  "gm_wf m \<longleftrightarrow> distinct (map fst m)"

lemma gm_get_put [simp, gomap_simps]:
  "gm_get (gm_put k v m) k' = (if k' = k then Some v else gm_get m k')"
  by (simp add: gm_put_def update_conv')

lemma gm_get_del [simp, gomap_simps]:
  "gm_get (gm_del k m) k' = (if k' = k then None else gm_get m k')"
  by (induction m) (auto simp: gm_del_def)

lemma gm_wf_Nil [simp]: "gm_wf []"
  by (simp add: gm_wf_def)

lemma gm_wf_put [simp]: "gm_wf m \<Longrightarrow> gm_wf (gm_put k v m)"
  by (simp add: gm_wf_def gm_put_def distinct_update)

lemma gm_wf_filter [simp]: "gm_wf m \<Longrightarrow> gm_wf (filter P m)"
  by (induction m) (auto simp: gm_wf_def)

lemma gm_wf_del [simp]: "gm_wf m \<Longrightarrow> gm_wf (gm_del k m)"
  by (simp add: gm_del_def)

lemma gm_get_filter:
  "gm_wf m \<Longrightarrow> gm_get (filter (\<lambda>(k, v). P k v) m) k =
     (case gm_get m k of None \<Rightarrow> None | Some v \<Rightarrow> if P k v then Some v else None)"
  by (induction m) (auto simp: gm_wf_def map_of_eq_None_iff split: option.splits)

lemma gm_get_in: "gm_wf m \<Longrightarrow> gm_get m k = Some v \<longleftrightarrow> (k, v) \<in> set m"
  by (simp add: gm_wf_def)

lemma gm_get_mem: "gm_get m k = Some v \<Longrightarrow> (k, v) \<in> set m"
  by (rule map_of_SomeD)

lemma set_gm_del: "set (gm_del k m) = {x \<in> set m. fst x \<noteq> k}"
  by (auto simp: gm_del_def)

lemma fst_set_gm_put [simp]: "fst ` set (gm_put k v m) = insert k (fst ` set m)"
  by (simp add: gm_put_def dom_update)

lemma set_gm_put_subset: "set (gm_put k v m) \<subseteq> insert (k, v) (set m)"
  by (induction m) (auto simp: gm_put_def)

lemma set_gm_put:
  "gm_wf m \<Longrightarrow> set (gm_put k v m) = insert (k, v) {x \<in> set m. fst x \<noteq> k}"
  by (induction m) (auto simp: gm_put_def gm_wf_def image_iff)

lemma length_gm_del_le: "length (gm_del k m) \<le> length m"
  by (simp add: gm_del_def)

lemma gm_del_id: "gm_get m k = None \<Longrightarrow> gm_del k m = m"
  by (induction m) (auto simp: gm_del_def split: if_splits)

lemma length_gm_del:
  "gm_wf m \<Longrightarrow> gm_get m k = Some v \<Longrightarrow> Suc (length (gm_del k m)) = length m"
proof (induction m)
  case Nil
  then show ?case by simp
next
  case (Cons x m)
  show ?case
  proof (cases "fst x = k")
    case True
    with Cons.prems have "gm_get m k = None"
      by (auto simp: gm_wf_def map_of_eq_None_iff)
    then have "gm_del k m = m" by (rule gm_del_id)
    with True show ?thesis by (auto simp: gm_del_def case_prod_beta)
  next
    case False
    with Cons show ?thesis by (auto simp: gm_del_def gm_wf_def case_prod_beta)
  qed
qed

lemma length_gm_put: "length (gm_put k v m) = (if gm_get m k = None then Suc (length m) else length m)"
  by (induction m) (auto simp: gm_put_def)

text \<open>Counters that follow the contents of a map: the sum of a measure over its values.\<close>

definition gm_sum :: "('v \<Rightarrow> int) \<Rightarrow> ('k, 'v) gomap \<Rightarrow> int" where
  "gm_sum f m = sum_list (map (\<lambda>(_, v). f v) m)"

lemma gm_sum_Nil [simp]: "gm_sum f [] = 0"
  by (simp add: gm_sum_def)

lemma gm_sum_Cons [simp]: "gm_sum f ((k, v) # m) = f v + gm_sum f m"
  by (simp add: gm_sum_def)

lemma gm_sum_nonneg: "(\<And>v. 0 \<le> f v) \<Longrightarrow> 0 \<le> gm_sum f m"
  by (induction m) auto

lemma gm_wf_Cons: "gm_wf ((k, v) # m) \<longleftrightarrow> k \<notin> fst ` set m \<and> gm_wf m"
  by (simp add: gm_wf_def)

lemma gm_sum_zero: "\<forall>(k, v) \<in> set m. f v = 0 \<Longrightarrow> gm_sum f m = 0"
  by (induction m) auto

lemma gm_sum_put:
  "gm_wf m \<Longrightarrow> gm_sum f (gm_put k v m) =
     gm_sum f m + f v - (case gm_get m k of None \<Rightarrow> 0 | Some old \<Rightarrow> f old)"
proof (induction m)
  case (Cons x m)
  then show ?case by (cases x) (auto simp: gm_wf_Cons gm_put_def map_of_eq_None_iff split: option.splits)
qed (simp add: gm_put_def)

lemma gm_sum_del:
  "gm_wf m \<Longrightarrow> gm_sum f (gm_del k m) =
     gm_sum f m - (case gm_get m k of None \<Rightarrow> 0 | Some old \<Rightarrow> f old)"
proof (induction m)
  case Nil
  then show ?case by (simp add: gm_del_def)
next
  case (Cons x m)
  obtain k' v' where x: "x = (k', v')" by fastforce
  show ?case
  proof (cases "k' = k")
    case True
    with Cons.prems x have "gm_get m k = None" by (auto simp: gm_wf_def map_of_eq_None_iff)
    moreover then have "gm_del k m = m" by (rule gm_del_id)
    ultimately show ?thesis using True x by (simp add: gm_del_def)
  next
    case False
    with Cons x show ?thesis by (simp add: gm_del_def gm_wf_def)
  qed
qed

lemma gm_get_dom: "gm_get m k \<noteq> None \<longleftrightarrow> k \<in> fst ` set m"
  by (simp add: map_of_eq_None_iff)

lemma fst_set_gm_del [simp]: "fst ` set (gm_del k m) = fst ` set m - {k}"
  by (auto simp: set_gm_del)

subsection \<open>The first match in a slice\<close>

text \<open>
  The store finds a record by walking a slice and returning the pointer to the first match,
  then writes through the pointer: \<open>find_first\<close> and \<open>update_first\<close>.
\<close>

fun find_first :: "('a \<Rightarrow> bool) \<Rightarrow> 'a list \<Rightarrow> 'a option" where
  "find_first P [] = None"
| "find_first P (x # xs) = (if P x then Some x else find_first P xs)"

fun update_first :: "('a \<Rightarrow> bool) \<Rightarrow> 'a \<Rightarrow> 'a list \<Rightarrow> 'a list" where
  "update_first P y [] = []"
| "update_first P y (x # xs) = (if P x then y # xs else x # update_first P y xs)"

fun remove_first :: "('a \<Rightarrow> bool) \<Rightarrow> 'a list \<Rightarrow> 'a list" where
  "remove_first P [] = []"
| "remove_first P (x # xs) = (if P x then xs else x # remove_first P xs)"

lemma find_first_SomeD: "find_first P xs = Some x \<Longrightarrow> P x \<and> x \<in> set xs"
  by (induction xs) (auto split: if_splits)

lemma find_first_None: "find_first P xs = None \<longleftrightarrow> (\<forall>x \<in> set xs. \<not> P x)"
  by (induction xs) auto

lemma find_first_append:
  "find_first P (xs @ ys) = (case find_first P xs of None \<Rightarrow> find_first P ys | Some x \<Rightarrow> Some x)"
  by (induction xs) auto

lemma length_update_first [simp]: "length (update_first P y xs) = length xs"
  by (induction xs) auto

lemma map_update_first:
  "(\<And>x. x \<in> set xs \<Longrightarrow> P x \<Longrightarrow> f x = f y) \<Longrightarrow> map f (update_first P y xs) = map f xs"
  by (induction xs) auto

lemma set_update_first_subset: "set (update_first P y xs) \<subseteq> insert y (set xs)"
  by (induction xs) auto

lemma remove_first_id: "\<forall>x \<in> set xs. \<not> P x \<Longrightarrow> remove_first P xs = xs"
  by (induction xs) auto

lemma set_remove_first_subset: "set (remove_first P xs) \<subseteq> set xs"
  by (induction xs) auto

lemma find_first_update_first_key:
  "find_first (\<lambda>x. key x = k) (update_first (\<lambda>x. key x = key y) y xs) =
     (if k = key y \<and> find_first (\<lambda>x. key x = k) xs \<noteq> None then Some y
      else find_first (\<lambda>x. key x = k) xs)"
  by (induction xs) auto

lemma find_first_distinct:
  "distinct (map key xs) \<Longrightarrow> x \<in> set xs \<Longrightarrow> find_first (\<lambda>y. key y = key x) xs = Some x"
  by (induction xs) (auto simp: image_iff)

lemma set_update_first_distinct:
  "distinct (map key xs) \<Longrightarrow> key y \<in> key ` set xs \<Longrightarrow>
   set (update_first (\<lambda>x. key x = key y) y xs) = insert y {x \<in> set xs. key x \<noteq> key y}"
proof (induction xs)
  case (Cons x xs)
  show ?case
  proof (cases "key x = key y")
    case True
    with Cons.prems(1) have "key y \<notin> key ` set xs" by simp
    then have "\<And>z. z \<in> set xs \<Longrightarrow> key z \<noteq> key y" by (metis imageI)
    then have "{z \<in> set (x # xs). key z \<noteq> key y} = set xs" using True by (simp add: set_eq_iff) blast
    moreover have "set (update_first (\<lambda>x. key x = key y) y (x # xs)) = insert y (set xs)"
      using True by simp
    ultimately show ?thesis by simp
  next
    case False
    with Cons have "set (update_first (\<lambda>x. key x = key y) y xs) = insert y {x \<in> set xs. key x \<noteq> key y}"
      by auto
    with False show ?thesis by auto
  qed
qed simp

lemma set_remove_first_distinct:
  "distinct (map key xs) \<Longrightarrow> set (remove_first (\<lambda>x. key x = k) xs) = {x \<in> set xs. key x \<noteq> k}"
  by (induction xs) (auto simp: image_iff)

lemma distinct_map_remove_first:
  "distinct (map f xs) \<Longrightarrow> distinct (map f (remove_first P xs))"
proof (induction xs)
  case (Cons x xs)
  then show ?case
    by (auto dest: subsetD [OF set_remove_first_subset])
qed simp

text \<open>
  The contract of a table of records found by key, which the store's users and invites and the
  DAV accounts of a secrets blob share. \<open>replace t r\<close> writes \<open>r\<close> over the record with its key.
\<close>

locale record_table =
  fixes lookup :: "'t \<Rightarrow> 'k \<Rightarrow> 'r option"
    and replace :: "'r \<Rightarrow> 't \<Rightarrow> 't"
    and key :: "'r \<Rightarrow> 'k"
    and rows :: "'t \<Rightarrow> 'r list"
  assumes lookup_key: "lookup t k = Some r \<Longrightarrow> key r = k"
    and lookup_row: "lookup t k = Some r \<Longrightarrow> r \<in> set (rows t)"
    and lookup_absent: "lookup t k = None \<longleftrightarrow> k \<notin> key ` set (rows t)"
    and rows_replace: "rows (replace r t) = update_first (\<lambda>x. key x = key r) r (rows t)"
    and lookup_replace: "lookup (replace r t) k =
          (if k = key r \<and> lookup t k \<noteq> None then Some r else lookup t k)"
begin

lemma keys_replace: "map key (rows (replace r t)) = map key (rows t)"
  by (simp add: rows_replace map_update_first)

lemma length_replace: "length (rows (replace r t)) = length (rows t)"
  by (simp add: rows_replace)

lemma lookup_replace_other: "k \<noteq> key r \<Longrightarrow> lookup (replace r t) k = lookup t k"
  by (simp add: lookup_replace)

lemma lookup_replace_same: "lookup t (key r) \<noteq> None \<Longrightarrow> lookup (replace r t) (key r) = Some r"
  by (simp add: lookup_replace)

lemma map_replace:
  "(\<And>x. x \<in> set (rows t) \<Longrightarrow> key x = key r \<Longrightarrow> f x = f r) \<Longrightarrow>
   map f (rows (replace r t)) = map f (rows t)"
  by (simp add: rows_replace map_update_first)

lemma lookup_unique:
  assumes d: "distinct (map key (rows t))" and r: "r \<in> set (rows t)"
  shows "lookup t (key r) = Some r"
proof -
  from r have "lookup t (key r) \<noteq> None" by (auto simp: lookup_absent)
  then obtain r' where r': "lookup t (key r) = Some r'" by blast
  then have "key r' = key r" and "r' \<in> set (rows t)"
    by (auto dest: lookup_key lookup_row)
  with d r have "r' = r" by (auto simp: distinct_map inj_on_def)
  with r' show ?thesis by simp
qed

lemma set_rows_replace:
  assumes "distinct (map key (rows t))" and "lookup t (key r) \<noteq> None"
  shows "set (rows (replace r t)) = insert r {x \<in> set (rows t). key x \<noteq> key r}"
  using assms by (simp add: rows_replace set_update_first_distinct lookup_absent)

end

subsection \<open>Transition systems and their invariants\<close>

inductive reaches :: "('s \<Rightarrow> bool) \<Rightarrow> ('s \<Rightarrow> 's \<Rightarrow> bool) \<Rightarrow> 's \<Rightarrow> bool"
  for start :: "'s \<Rightarrow> bool" and step :: "'s \<Rightarrow> 's \<Rightarrow> bool" where
  reaches_start: "start s \<Longrightarrow> reaches start step s"
| reaches_step: "reaches start step s \<Longrightarrow> step s t \<Longrightarrow> reaches start step t"

text \<open>
  The contract of a component with an invariant: it holds in every start state and every step
  keeps it. What a client gets back is that it holds in every reachable state.
\<close>

locale invariant_system =
  fixes start :: "'s \<Rightarrow> bool"
    and step :: "'s \<Rightarrow> 's \<Rightarrow> bool"
    and inv :: "'s \<Rightarrow> bool"
  assumes inv_start: "start s \<Longrightarrow> inv s"
    and inv_step: "inv s \<Longrightarrow> step s t \<Longrightarrow> inv t"
begin

lemma inv_reachable: "reaches start step s \<Longrightarrow> inv s"
  by (induction rule: reaches.induct) (auto intro: inv_start inv_step)

lemma inv_steps: "step\<^sup>*\<^sup>* s t \<Longrightarrow> inv s \<Longrightarrow> inv t"
  by (induction rule: rtranclp_induct) (auto intro: inv_step)

lemma inv_reachable_steps: "reaches start step s \<Longrightarrow> step\<^sup>*\<^sup>* s t \<Longrightarrow> inv t"
  by (auto intro: inv_steps dest: inv_reachable)

end

subsection \<open>Loops that drain a state\<close>

text \<open>
  The eviction loops of the caches go on while a guard holds. Each is a fixed point of
  \<open>loop s = (if guard s then loop (step s) else Some s)\<close>; where the step keeps an invariant and
  makes a size smaller, the loop returns, with the invariant and without the guard.
\<close>

locale draining_loop =
  fixes guard :: "'s \<Rightarrow> bool" and step :: "'s \<Rightarrow> 's" and loop :: "'s \<Rightarrow> 's option"
    and inv :: "'s \<Rightarrow> bool" and size :: "'s \<Rightarrow> nat"
  assumes unfold: "loop s = (if guard s then loop (step s) else Some s)"
    and keeps: "inv s \<Longrightarrow> guard s \<Longrightarrow> inv (step s)"
    and smaller: "inv s \<Longrightarrow> guard s \<Longrightarrow> size (step s) < size s"
begin

lemma drains_with:
  assumes "inv s" and "Q s" and "\<And>s. inv s \<Longrightarrow> guard s \<Longrightarrow> Q s \<Longrightarrow> Q (step s)"
  shows "\<exists>s'. loop s = Some s' \<and> inv s' \<and> \<not> guard s' \<and> Q s'"
  using assms(1,2)
proof (induction s rule: measure_induct_rule [where f = size])
  case (less s)
  show ?case
  proof (cases "guard s")
    case True
    then have "loop s = loop (step s)" by (subst unfold) simp
    then show ?thesis
      using less.IH [OF smaller keeps] less.prems assms(3) True by simp
  next
    case False
    then have "loop s = Some s" by (subst unfold) simp
    with False less.prems show ?thesis by blast
  qed
qed

lemma drains: "inv s \<Longrightarrow> \<exists>s'. loop s = Some s' \<and> inv s' \<and> \<not> guard s'"
  using drains_with [where Q = "\<lambda>_. True"] by blast

lemma drained:
  assumes "loop s = Some s'" and "inv s" and "Q s"
    and "\<And>s. inv s \<Longrightarrow> guard s \<Longrightarrow> Q s \<Longrightarrow> Q (step s)"
  shows "inv s' \<and> \<not> guard s' \<and> Q s'"
  using drains_with [OF assms(2), where Q = Q] assms by fastforce

lemma idle: "\<not> guard s \<Longrightarrow> loop s = Some s"
  by (subst unfold) simp

end

end
