(* ===== verification/RateLimit.thy ===== *)
theory RateLimit
  imports Carrel_Prelude
begin

text \<open>
  \<open>internal/ratelimit\<close>: the limiter that slows down guessing at the login form, at invite
  links and at escrow recovery. Its state is the options and the map of entries; every
  operation takes the clock reading it would take from \<open>opts.Now\<close>. The duration arithmetic of
  \<open>delayFor\<close> is at 64 bits. The lemmas give the closed form of the delay, what \<open>Allow\<close> answers
  after a failure, and the invariant that no lockout outlasts \<open>Max\<close>.
\<close>

subsection \<open>State\<close>

record rl_options =
  rl_Free :: int
  rl_Base :: duration
  rl_Max :: duration
  rl_Forget :: duration

definition DefaultFree :: int where "DefaultFree = 3"
definition DefaultBase :: duration where "DefaultBase = 2 * second"
definition DefaultMax :: duration where "DefaultMax = 5 * minute"
definition DefaultForget :: duration where "DefaultForget = hour"

lemmas rl_default_defs = DefaultFree_def DefaultBase_def DefaultMax_def DefaultForget_def

definition rl_withDefaults :: "rl_options \<Rightarrow> rl_options" where
  "rl_withDefaults op =
     (let op = (if rl_Free op < 0 then op\<lparr>rl_Free := 0\<rparr> else op);
          op = (if rl_Free op = 0 then op\<lparr>rl_Free := DefaultFree\<rparr> else op);
          op = (if rl_Base op \<le> 0 then op\<lparr>rl_Base := DefaultBase\<rparr> else op);
          op = (if rl_Max op \<le> 0 then op\<lparr>rl_Max := DefaultMax\<rparr> else op);
          op = (if rl_Forget op \<le> 0 then op\<lparr>rl_Forget := DefaultForget\<rparr> else op)
      in op)"

record rl_entry =
  e_failures :: int
  e_retryAt :: time
  e_seen :: time

record limiter =
  l_opts :: rl_options
  l_entries :: "(string, rl_entry) gomap"

definition rl_New :: "rl_options \<Rightarrow> limiter" where
  "rl_New op = \<lparr>l_opts = rl_withDefaults op, l_entries = []\<rparr>"

subsection \<open>Operations\<close>

definition Allow :: "limiter \<Rightarrow> time \<Rightarrow> string \<Rightarrow> limiter \<times> bool \<times> duration" where
  "Allow l now k =
     (case gm_get (l_entries l) k of
        None \<Rightarrow> (l, True, 0)
      | Some e \<Rightarrow>
          if time_sub now (e_seen e) \<ge> rl_Forget (l_opts l)
          then (l\<lparr>l_entries := gm_del k (l_entries l)\<rparr>, True, 0)
          else if now < e_retryAt e then (l, False, time_sub (e_retryAt e) now)
          else (l, True, 0))"

text \<open>\<open>AllowAll\<close> reads the clock once for each key, so the keys come with their readings.\<close>

fun AllowAll_loop ::
    "limiter \<Rightarrow> (string \<times> time) list \<Rightarrow> bool \<Rightarrow> duration \<Rightarrow> limiter \<times> bool \<times> duration" where
  "AllowAll_loop l [] ok longest = (l, ok, longest)"
| "AllowAll_loop l ((k, now) # ks) ok longest =
     (case Allow l now k of (l', allowed, wait) \<Rightarrow>
        if \<not> allowed
        then AllowAll_loop l' ks False (if wait > longest then wait else longest)
        else AllowAll_loop l' ks ok longest)"

definition AllowAll :: "limiter \<Rightarrow> (string \<times> time) list \<Rightarrow> limiter \<times> bool \<times> duration" where
  "AllowAll l ks = AllowAll_loop l ks True 0"

function delay_loop :: "duration \<Rightarrow> int \<Rightarrow> int \<Rightarrow> duration \<Rightarrow> duration" where
  "delay_loop mx over i delay =
     (if i < over then
        (let delay = wrap64 (delay * 2)
         in if delay \<ge> mx then mx else delay_loop mx over (i + 1) delay)
      else if delay > mx then mx
      else delay)"
  by pat_completeness auto
termination
  by (relation "measure (\<lambda>(mx, over, i, delay). nat (over - i))") auto

declare delay_loop.simps [simp del]

definition delayFor :: "rl_options \<Rightarrow> int \<Rightarrow> duration" where
  "delayFor op failures =
     (let over = failures - rl_Free op
      in if over \<le> 0 then 0 else delay_loop (rl_Max op) over 1 (rl_Base op))"

definition Fail :: "limiter \<Rightarrow> time \<Rightarrow> string \<Rightarrow> limiter \<times> duration" where
  "Fail l now k =
     (let fresh = \<lparr>e_failures = 0, e_retryAt = zero_time, e_seen = zero_time\<rparr>;
          e = (case gm_get (l_entries l) k of
                 None \<Rightarrow> fresh
               | Some e \<Rightarrow> if time_sub now (e_seen e) \<ge> rl_Forget (l_opts l) then fresh else e);
          e = e\<lparr>e_failures := e_failures e + 1\<rparr>;
          e = e\<lparr>e_seen := now\<rparr>;
          delay = delayFor (l_opts l) (e_failures e);
          e = e\<lparr>e_retryAt := time_add now delay\<rparr>
      in (l\<lparr>l_entries := gm_put k e (l_entries l)\<rparr>, delay))"

fun FailAll :: "limiter \<Rightarrow> (string \<times> time) list \<Rightarrow> limiter" where
  "FailAll l [] = l"
| "FailAll l ((k, now) # ks) = FailAll (fst (Fail l now k)) ks"

fun rl_Reset :: "limiter \<Rightarrow> string list \<Rightarrow> limiter" where
  "rl_Reset l [] = l"
| "rl_Reset l (k # ks) = rl_Reset (l\<lparr>l_entries := gm_del k (l_entries l)\<rparr>) ks"

definition rl_Sweep :: "limiter \<Rightarrow> time \<Rightarrow> limiter \<times> nat" where
  "rl_Sweep l now =
     (let quiet = (\<lambda>(_, e). time_sub now (e_seen e) \<ge> rl_Forget (l_opts l))
      in (l\<lparr>l_entries := filter (\<lambda>x. \<not> quiet x) (l_entries l)\<rparr>,
          length (filter quiet (l_entries l))))"

definition rl_Len :: "limiter \<Rightarrow> nat" where
  "rl_Len l = length (l_entries l)"

subsection \<open>The delay\<close>

lemma rl_withDefaults_positive:
  "0 < rl_Base (rl_withDefaults op)" "0 < rl_Max (rl_withDefaults op)"
  "0 < rl_Forget (rl_withDefaults op)" "0 < rl_Free (rl_withDefaults op)"
  by (simp_all add: rl_withDefaults_def Let_def rl_default_defs duration_defs)

text \<open>The delay as \<open>ratelimit.go\<close> describes it: doubled from \<open>Base\<close>, capped by \<open>Max\<close>.\<close>

definition delay_spec :: "rl_options \<Rightarrow> int \<Rightarrow> duration" where
  "delay_spec op failures =
     (if failures \<le> rl_Free op then 0
      else min (rl_Max op) (rl_Base op * 2 ^ nat (failures - rl_Free op - 1)))"

lemma wrap64_double: "0 \<le> d \<Longrightarrow> d \<le> 4611686018427387903 \<Longrightarrow> wrap64 (d * 2) = d * 2"
  by (simp add: wrap64_id int64_min_def int64_max_def)

lemma delay_loop_closed:
  assumes "0 < d" and "d \<le> 4611686018427387903" and "mx \<le> 4611686018427387904"
  shows "delay_loop mx over i d = min mx (d * 2 ^ nat (over - i))"
  using assms
proof (induction mx over i d rule: delay_loop.induct)
  case (1 mx over i d)
  show ?case
  proof (cases "i < over")
    case True
    then have pow: "nat (over - i) = Suc (nat (over - (i + 1)))" by simp
    have ge: "d * 2 \<le> d * 2 ^ nat (over - i)"
      using "1.prems" by (simp add: pow mult_le_cancel_left)
    show ?thesis
    proof (cases "d * 2 \<ge> mx")
      case True
      then have "mx \<le> d * 2 ^ nat (over - i)" using ge by (rule order_trans)
      with True \<open>i < over\<close> "1.prems" show ?thesis
        by (simp add: delay_loop.simps [of mx over i d] wrap64_double)
    next
      case False
      with "1.prems"(3) have small: "d * 2 \<le> 4611686018427387903" by simp
      have IH: "delay_loop mx over (i + 1) (d * 2) = min mx (d * 2 * 2 ^ nat (over - (i + 1)))"
        using "1.IH" [OF \<open>i < over\<close> refl] False "1.prems" small
        by (simp add: wrap64_double)
      with False \<open>i < over\<close> "1.prems" show ?thesis
        by (simp add: delay_loop.simps [of mx over i d] wrap64_double pow mult.assoc)
    qed
  next
    case False
    then show ?thesis by (simp add: delay_loop.simps [of mx over i d] min_def)
  qed
qed

lemma delayFor_spec:
  assumes "0 < rl_Base op" and "rl_Base op \<le> 4611686018427387903"
    and "rl_Max op \<le> 4611686018427387904"
  shows "delayFor op n = delay_spec op n"
  using assms by (simp add: delayFor_def delay_spec_def delay_loop_closed)

lemma delay_loop_le: "delay_loop mx over i d \<le> mx"
proof (induction mx over i d rule: delay_loop.induct)
  case (1 mx over i d)
  then show ?case by (simp add: delay_loop.simps [of mx over i d] Let_def)
qed

lemma delayFor_le: "0 \<le> rl_Max op \<Longrightarrow> delayFor op n \<le> rl_Max op"
  by (simp add: delayFor_def Let_def delay_loop_le)

text \<open>
  C40. Once the free attempts are used up the delay doubles from \<open>Base\<close> with each further failure
  and is capped by \<open>Max\<close>: the 64-bit loop of \<open>delayFor\<close> computes exactly that, without overflow,
  for every base and cap up to about 146 years.
\<close>

theorem delayFor_closed_form:
  assumes "0 < rl_Base op" and "rl_Base op \<le> 4611686018427387903"
    and "rl_Max op \<le> 4611686018427387904"
  shows "delayFor op n =
    (if n \<le> rl_Free op then 0
     else min (rl_Max op) (rl_Base op * 2 ^ nat (n - rl_Free op - 1)))"
  using delayFor_spec [OF assms] by (simp add: delay_spec_def)

definition default_options :: rl_options where
  "default_options = rl_withDefaults \<lparr>rl_Free = 0, rl_Base = 0, rl_Max = 0, rl_Forget = 0\<rparr>"

lemma default_options_fields:
  "rl_Free default_options = 3" "rl_Base default_options = 2000000000"
  "rl_Max default_options = 300000000000" "rl_Forget default_options = 3600000000000"
  by (simp_all add: default_options_def rl_withDefaults_def Let_def rl_default_defs duration_defs)

theorem delayFor_closed_form_witness:
  "delayFor default_options 3 = 0 \<and> delayFor default_options 4 = 2 * second \<and>
   delayFor default_options 6 = 8 * second \<and> delayFor default_options 40 = 5 * minute"
proof -
  have h: "0 < rl_Base default_options" "rl_Base default_options \<le> 4611686018427387903"
    "rl_Max default_options \<le> 4611686018427387904"
    by (simp_all add: default_options_fields)
  show ?thesis
    using delayFor_closed_form [OF h, of 3] delayFor_closed_form [OF h, of 4]
      delayFor_closed_form [OF h, of 6] delayFor_closed_form [OF h, of 40]
    by (simp add: default_options_fields duration_defs)
qed

subsection \<open>What a failure does to the next attempt\<close>

lemma Fail_opts [simp, frame_simps]: "l_opts (fst (Fail l now k)) = l_opts l"
  by (simp add: Fail_def Let_def)

lemma Fail_delay: "snd (Fail l now k) = d \<Longrightarrow>
  \<exists>e. gm_get (l_entries (fst (Fail l now k))) k = Some e \<and> e_seen e = now \<and>
      e_retryAt e = now + d \<and> d = delayFor (l_opts l) (e_failures e)"
  by (auto simp: Fail_def Let_def time_add_def)

lemma Fail_other [frame_simps]:
  "k' \<noteq> k \<Longrightarrow> gm_get (l_entries (fst (Fail l now k))) k' = gm_get (l_entries l) k'"
  by (simp add: Fail_def Let_def)

text \<open>
  After a failure on a key that imposed the delay \<open>d\<close>, \<open>Allow\<close> refuses the key until \<open>d\<close> has
  passed, naming the time that is left, and lets it through from then on; the answer for every
  other key is the one it was before.
\<close>

theorem Fail_then_Allow:
  assumes "Fail l now k = (l', d)" and "now \<le> t" and "t - now < rl_Forget (l_opts l)"
    and "rl_Forget (l_opts l) \<le> int64_max"
  shows "snd (Allow l' t k) = (if t < now + d then (False, time_sub (now + d) t) else (True, 0)) \<and>
    (\<forall>k'. k' \<noteq> k \<longrightarrow> snd (Allow l' t k') = snd (Allow l t k'))"
proof -
  from assms(1) have l': "l' = fst (Fail l now k)" and d: "snd (Fail l now k) = d" by simp_all
  obtain e where e: "gm_get (l_entries l') k = Some e" "e_seen e = now" "e_retryAt e = now + d"
    using Fail_delay [OF d] l' by blast
  have "\<not> time_sub t now \<ge> rl_Forget (l_opts l)"
    using assms(2-4) by (auto simp: time_sub_ge int64_min_def)
  then have "snd (Allow l' t k) = (if t < now + d then (False, time_sub (now + d) t) else (True, 0))"
    using e l' by (simp add: Allow_def)
  moreover have "\<forall>k'. k' \<noteq> k \<longrightarrow> snd (Allow l' t k') = snd (Allow l t k')"
    using l' by (simp add: Allow_def Fail_other split: option.splits)
  ultimately show ?thesis by blast
qed

definition three_failures :: limiter where
  "three_failures = FailAll (rl_New \<lparr>rl_Free = 0, rl_Base = 0, rl_Max = 0, rl_Forget = 0\<rparr>)
     [(''login:user:ann'', 10), (''login:user:ann'', 20), (''login:user:ann'', 30)]"

theorem Fail_then_Allow_witness:
  "snd (Allow (fst (Fail three_failures 40 ''login:user:ann'')) 41 ''login:user:ann'')
     = (False, 1999999999)"
proof -
  define r where "r = Fail three_failures 40 ''login:user:ann''"
  have opts: "l_opts three_failures = default_options"
    by (simp add: three_failures_def rl_New_def default_options_def)
  have d: "snd r = 2000000000"
    by (simp add: r_def three_failures_def rl_New_def Fail_def Let_def rl_withDefaults_def
        rl_default_defs duration_defs zero_time_def time_sub_def sat64_def int64_max_def
        int64_min_def delayFor_def delay_loop.simps)
  have r: "Fail three_failures 40 ''login:user:ann'' = (fst r, 2000000000)"
    using d by (simp add: r_def prod_eq_iff)
  have "snd (Allow (fst r) 41 ''login:user:ann'') = (False, time_sub (40 + 2000000000) 41)"
    using Fail_then_Allow [OF r, of 41]
    by (simp add: opts default_options_fields int64_max_def)
  then show ?thesis
    by (simp add: r_def time_sub_def sat64_def int64_max_def int64_min_def)
qed

subsection \<open>Lockouts are bounded\<close>

text \<open>The limiter together with the last clock reading; the clock never goes back.\<close>

inductive rl_step :: "limiter \<times> time \<Rightarrow> limiter \<times> time \<Rightarrow> bool" where
  rl_allow: "now \<le> t \<Longrightarrow> rl_step (l, now) (fst (Allow l t k), t)"
| rl_fail: "now \<le> t \<Longrightarrow> rl_step (l, now) (fst (Fail l t k), t)"
| rl_reset: "rl_step (l, now) (rl_Reset l ks, now)"
| rl_sweep: "now \<le> t \<Longrightarrow> rl_step (l, now) (fst (rl_Sweep l t), t)"

definition rl_start :: "limiter \<times> time \<Rightarrow> bool" where
  "rl_start s \<longleftrightarrow> (\<exists>op. fst s = rl_New op)"

definition entry_ok :: "rl_options \<Rightarrow> time \<Rightarrow> rl_entry \<Rightarrow> bool" where
  "entry_ok op now e \<longleftrightarrow>
     1 \<le> e_failures e \<and> e_seen e \<le> now \<and> e_retryAt e = e_seen e + delayFor op (e_failures e)"

fun rl_inv :: "limiter \<times> time \<Rightarrow> bool" where
  "rl_inv (l, now) \<longleftrightarrow> 0 < rl_Max (l_opts l) \<and> gm_wf (l_entries l) \<and>
     (\<forall>(k, e) \<in> set (l_entries l). entry_ok (l_opts l) now e)"

lemma entry_ok_mono: "entry_ok op now e \<Longrightarrow> now \<le> t \<Longrightarrow> entry_ok op t e"
  by (simp add: entry_ok_def)

lemma rl_inv_mono: "rl_inv (l, now) \<Longrightarrow> now \<le> t \<Longrightarrow> rl_inv (l, t)"
  by (auto intro: entry_ok_mono)

lemma rl_inv_filter:
  "rl_inv (l, now) \<Longrightarrow> rl_inv (l\<lparr>l_entries := filter P (l_entries l)\<rparr>, now)"
  by auto

lemma rl_inv_del [inv_intros]:
  "rl_inv (l, now) \<Longrightarrow> rl_inv (l\<lparr>l_entries := gm_del k (l_entries l)\<rparr>, now)"
  unfolding gm_del_def by (rule rl_inv_filter)

lemma rl_inv_Allow [inv_intros]: "rl_inv (l, now) \<Longrightarrow> rl_inv (fst (Allow l t k), now)"
  using rl_inv_del [of l now k] by (simp add: Allow_def split: option.splits)

lemma rl_inv_Reset [inv_intros]: "rl_inv (l, now) \<Longrightarrow> rl_inv (rl_Reset l ks, now)"
proof (induction l ks rule: rl_Reset.induct)
  case (2 l k ks)
  show ?case unfolding rl_Reset.simps by (rule "2.IH" [OF rl_inv_del [OF "2.prems"]])
qed simp

lemma rl_inv_Fail [inv_intros]:
  assumes "rl_inv (l, now)" and "now \<le> t"
  shows "rl_inv (fst (Fail l t k), t)"
proof -
  obtain e where e: "fst (Fail l t k) = l\<lparr>l_entries := gm_put k e (l_entries l)\<rparr>"
    and ok: "entry_ok (l_opts l) t e"
  proof (cases "gm_get (l_entries l) k")
    case None
    then show ?thesis
      using that by (simp add: Fail_def Let_def entry_ok_def time_add_def)
  next
    case (Some old)
    then have "0 \<le> e_failures old"
      using assms(1) by (force simp: entry_ok_def dest: gm_get_mem)
    then show ?thesis
      using Some that by (simp add: Fail_def Let_def entry_ok_def time_add_def split: if_splits)
  qed
  have "\<forall>(k', e') \<in> set (l_entries l). entry_ok (l_opts l) t e'"
    using assms by (auto intro: entry_ok_mono)
  with ok have "\<forall>(k', e') \<in> set (gm_put k e (l_entries l)). entry_ok (l_opts l) t e'"
    by (auto dest!: subsetD [OF set_gm_put_subset])
  then show ?thesis using assms(1) e by simp
qed

lemma rl_inv_Sweep [inv_intros]: "rl_inv (l, now) \<Longrightarrow> rl_inv (fst (rl_Sweep l t), now)"
  by (simp add: rl_Sweep_def Let_def rl_inv_filter del: rl_inv.simps)

lemma rl_inv_start: "rl_start s \<Longrightarrow> rl_inv s"
  by (cases s) (auto simp: rl_start_def rl_New_def rl_withDefaults_positive)

interpretation rl: invariant_system rl_start rl_step rl_inv
proof
  show "rl_start s \<Longrightarrow> rl_inv s" for s by (rule rl_inv_start)
  show "rl_inv s \<Longrightarrow> rl_step s t \<Longrightarrow> rl_inv t" for s t
    by (cases s) (auto elim!: rl_step.cases simp del: rl_inv.simps
        intro: inv_intros rl_inv_mono)
qed

lemma Allow_refused:
  "Allow l t k = (l', False, w) \<Longrightarrow>
   \<exists>e. gm_get (l_entries l) k = Some e \<and> t < e_retryAt e \<and> w = time_sub (e_retryAt e) t"
  by (auto simp: Allow_def split: option.splits if_splits)

text \<open>
  Whatever sequence of attempts, failures, resets and sweeps a limiter has been through, a
  refused key is always given a positive wait no longer than \<open>Max\<close>, and a key is refused only
  when it has failed more often than the free attempts allow.
\<close>

theorem lockout_bounded:
  assumes "reaches rl_start rl_step (l, now)" and "now \<le> t" and "Allow l t k = (l', False, w)"
  shows "0 < w \<and> w \<le> rl_Max (l_opts l) \<and>
    (\<exists>e. gm_get (l_entries l) k = Some e \<and> rl_Free (l_opts l) < e_failures e)"
proof -
  have inv: "rl_inv (l, now)" using assms(1) by (rule rl.inv_reachable)
  obtain e where e: "gm_get (l_entries l) k = Some e" "t < e_retryAt e"
    and w: "w = time_sub (e_retryAt e) t"
    using Allow_refused [OF assms(3)] by blast
  have ok: "entry_ok (l_opts l) now e" and mx: "0 < rl_Max (l_opts l)"
    using inv e(1) by (auto dest: gm_get_mem)
  have le: "delayFor (l_opts l) (e_failures e) \<le> rl_Max (l_opts l)"
    using mx by (simp add: delayFor_le)
  with ok e(2) assms(2) mx have "w \<le> rl_Max (l_opts l)"
    unfolding w by (intro time_sub_le) (auto simp: entry_ok_def)
  moreover have "0 < w"
    unfolding w using e(2) by (auto simp: time_sub_def sat64_def int64_max_def int64_min_def)
  moreover have "rl_Free (l_opts l) < e_failures e"
    using ok e(2) assms(2) by (auto simp: entry_ok_def delayFor_def Let_def split: if_splits)
  ultimately show ?thesis using e(1) by blast
qed

theorem lockout_bounded_witness:
  "\<exists>l w. reaches rl_start rl_step (l, 40) \<and> snd (Allow l 41 ''k'') = (False, w) \<and>
     0 < w \<and> w \<le> rl_Max (l_opts l)"
proof -
  define l0 where "l0 = rl_New \<lparr>rl_Free = 1, rl_Base = 100, rl_Max = 500, rl_Forget = 1000\<rparr>"
  define l1 where "l1 = fst (Fail l0 10 ''k'')"
  define l2 where "l2 = fst (Fail l1 40 ''k'')"
  have "reaches rl_start rl_step (l0, 10)"
    by (rule reaches_start) (auto simp: rl_start_def l0_def)
  then have "reaches rl_start rl_step (l1, 10)"
    unfolding l1_def by (rule reaches_step) (simp add: rl_fail)
  then have r: "reaches rl_start rl_step (l2, 40)"
    unfolding l2_def by (rule reaches_step) (simp add: rl_fail)
  have a: "Allow l2 41 ''k'' = (l2, False, 99)"
    by (simp add: l2_def l1_def l0_def rl_New_def Fail_def Let_def rl_withDefaults_def
        zero_time_def time_sub_def sat64_def int64_max_def int64_min_def delayFor_def
        delay_loop.simps Allow_def time_add_def)
  have "0 < (99::int) \<and> 99 \<le> rl_Max (l_opts l2)"
    using lockout_bounded [OF r _ a] by simp
  with r a show ?thesis by (metis snd_conv)
qed

end
