(* ===== verification/SessionCache.thy ===== *)
theory SessionCache
  imports Carrel_Prelude
begin

text \<open>
  \<open>internal/session/cache.go\<close> and \<open>thumb.go\<close>: the cache one session keeps of collection tags,
  path to ETag maps, object bodies and photo thumbnails. Each operation is the section the code
  runs under \<open>c.mu\<close>; what follows the unlock, \<open>publish\<close>, belongs to the process-wide budget
  (theory \<open>SessionBudget\<close>). The sequence numbers of recency come from the budget's clock when
  the cache is bound to one, so operations that need one take and return that clock.

  The eviction loops of the code stop only because the counters agree with the contents, so they
  are \<open>partial_function (option)\<close>; \<open>cache_inv\<close> is that agreement, and under it they return.
\<close>

type_synonym bytes = string

subsection \<open>Configuration and state\<close>

record CacheConfig =
  CollectionTTL :: duration
  MaxCollections :: int
  MaxETagEntries :: int
  MaxBodyBytes :: int
  MaxProcessBytes :: int
  MaxThumbBytes :: int
  MaxThumbEntries :: int

definition cc_withDefaults :: "CacheConfig \<Rightarrow> CacheConfig" where
  "cc_withDefaults c =
     (let c = (if CollectionTTL c \<le> 0 then c\<lparr>CollectionTTL := 60 * second\<rparr> else c);
          c = (if MaxCollections c \<le> 0 then c\<lparr>MaxCollections := 256\<rparr> else c);
          c = (if MaxETagEntries c \<le> 0 then c\<lparr>MaxETagEntries := 4096\<rparr> else c);
          c = (if MaxBodyBytes c \<le> 0 then c\<lparr>MaxBodyBytes := 67108864\<rparr> else c);
          c = (if MaxProcessBytes c \<le> 0 then c\<lparr>MaxProcessBytes := 268435456\<rparr> else c);
          c = (if MaxThumbBytes c \<le> 0 then c\<lparr>MaxThumbBytes := 16777216\<rparr> else c);
          c = (if MaxThumbEntries c \<le> 0 then c\<lparr>MaxThumbEntries := 512\<rparr> else c)
      in c)"

record collectionKey =
  ck_AccountID :: string
  ck_Path :: string

record collectionEntry =
  ce_key :: collectionKey
  ce_ctag :: string
  ce_fetchedAt :: time
  ce_etags :: "(string, string) gomap"
  ce_bodies :: "(string, bytes) gomap"

record bodyRef =
  br_col :: collectionKey
  br_path :: string
  br_seq :: nat

record thumbKey =
  tk_AccountID :: string
  tk_Path :: string
  tk_ETag :: string

record thumbEntry =
  te_key :: thumbKey
  te_media :: string
  te_data :: bytes
  te_seq :: nat

record Cache =
  c_cfg :: CacheConfig
  c_bound :: bool
  c_collections :: "(collectionKey, collectionEntry) gomap"
  c_order :: "collectionKey list"
  c_etagCount :: int
  c_bodies :: "bodyRef list"
  c_bodyBytes :: int
  c_localClock :: nat
  c_thumbs :: "(thumbKey, thumbEntry) gomap"
  c_thumbOrder :: "thumbKey list"
  c_thumbBytes :: int

definition NewCache :: "CacheConfig \<Rightarrow> Cache" where
  "NewCache cfg = \<lparr>c_cfg = cc_withDefaults cfg, c_bound = False, c_collections = [],
     c_order = [], c_etagCount = 0, c_bodies = [], c_bodyBytes = 0, c_localClock = 0,
     c_thumbs = [], c_thumbOrder = [], c_thumbBytes = 0\<rparr>"

text \<open>\<open>bind\<close>: the cache reports to the process-wide budget from here on.\<close>

definition cache_bind :: "Cache \<Rightarrow> Cache" where
  "cache_bind c = c\<lparr>c_bound := True\<rparr>"

definition nextSeqLocked :: "Cache \<Rightarrow> nat \<Rightarrow> nat \<times> Cache \<times> nat" where
  "nextSeqLocked c clock =
     (if c_bound c then (Suc clock, c, Suc clock)
      else (Suc (c_localClock c), c\<lparr>c_localClock := Suc (c_localClock c)\<rparr>, clock))"

subsection \<open>Recency lists\<close>

text \<open>\<open>keyIndex\<close> and \<open>touch\<close>: find a key, move the element at an index to the front.\<close>

fun keyIndex :: "'a list \<Rightarrow> 'a \<Rightarrow> nat option" where
  "keyIndex [] key = None"
| "keyIndex (k # ks) key = (if k = key then Some 0 else map_option Suc (keyIndex ks key))"

definition move_front :: "nat \<Rightarrow> 'a list \<Rightarrow> 'a list" where
  "move_front i xs = xs ! i # take i xs @ drop (Suc i) xs"

definition remove_at :: "nat \<Rightarrow> 'a list \<Rightarrow> 'a list" where
  "remove_at i xs = take i xs @ drop (Suc i) xs"

definition touch_list :: "'a \<Rightarrow> 'a list \<Rightarrow> 'a list" where
  "touch_list key xs = (case keyIndex xs key of None \<Rightarrow> xs | Some i \<Rightarrow> move_front i xs)"

definition removeKey_list :: "'a \<Rightarrow> 'a list \<Rightarrow> 'a list" where
  "removeKey_list key xs = (case keyIndex xs key of None \<Rightarrow> xs | Some i \<Rightarrow> remove_at i xs)"

definition touch :: "collectionKey \<Rightarrow> Cache \<Rightarrow> Cache" where
  "touch key c = c\<lparr>c_order := touch_list key (c_order c)\<rparr>"

definition removeKey :: "collectionKey \<Rightarrow> Cache \<Rightarrow> Cache" where
  "removeKey key c = c\<lparr>c_order := removeKey_list key (c_order c)\<rparr>"

definition same_body :: "collectionKey \<Rightarrow> string \<Rightarrow> bodyRef \<Rightarrow> bool" where
  "same_body key path r \<longleftrightarrow> br_col r = key \<and> br_path r = path"

definition touchBody :: "collectionKey \<Rightarrow> string \<Rightarrow> Cache \<Rightarrow> nat \<Rightarrow> Cache \<times> nat" where
  "touchBody key path c clock =
     (case find_first (same_body key path) (c_bodies c) of
        None \<Rightarrow> (c, clock)
      | Some ref \<Rightarrow>
          (case nextSeqLocked c clock of (seq, c, clock) \<Rightarrow>
             (c\<lparr>c_bodies := ref\<lparr>br_seq := seq\<rparr> # remove_first (same_body key path) (c_bodies c)\<rparr>,
              clock)))"

definition removeBody :: "collectionKey \<Rightarrow> string \<Rightarrow> Cache \<Rightarrow> Cache" where
  "removeBody key path c = c\<lparr>c_bodies := remove_first (same_body key path) (c_bodies c)\<rparr>"

definition touchThumb :: "thumbKey \<Rightarrow> Cache \<Rightarrow> nat \<Rightarrow> Cache \<times> nat" where
  "touchThumb key c clock =
     (if key \<notin> set (c_thumbOrder c) then (c, clock)
      else
        (let c = c\<lparr>c_thumbOrder := touch_list key (c_thumbOrder c)\<rparr> in
         case gm_get (c_thumbs c) key of
           None \<Rightarrow> (c, clock)
         | Some ent \<Rightarrow>
             (case nextSeqLocked c clock of (seq, c, clock) \<Rightarrow>
                (c\<lparr>c_thumbs := gm_put key (ent\<lparr>te_seq := seq\<rparr>) (c_thumbs c)\<rparr>, clock))))"

definition removeThumbKey :: "thumbKey \<Rightarrow> Cache \<Rightarrow> Cache" where
  "removeThumbKey key c = c\<lparr>c_thumbOrder := removeKey_list key (c_thumbOrder c)\<rparr>"

subsection \<open>Eviction\<close>

definition bytes_of :: "(string, bytes) gomap \<Rightarrow> int" where
  "bytes_of m = gm_sum (\<lambda>b. int (length b)) m"

definition evictOldestBody :: "Cache \<Rightarrow> Cache" where
  "evictOldestBody c =
     (if c_bodies c = [] then c
      else
        (let ref = last (c_bodies c);
             c = c\<lparr>c_bodies := butlast (c_bodies c)\<rparr>
         in case gm_get (c_collections c) (br_col ref) of
              None \<Rightarrow> c
            | Some ent \<Rightarrow>
                (case gm_get (ce_bodies ent) (br_path ref) of
                   None \<Rightarrow> c
                 | Some body \<Rightarrow>
                     c\<lparr>c_bodyBytes := c_bodyBytes c - int (length body),
                       c_collections := gm_put (br_col ref)
                         (ent\<lparr>ce_bodies := gm_del (br_path ref) (ce_bodies ent)\<rparr>)
                         (c_collections c)\<rparr>)))"

definition evictOldestThumb :: "Cache \<Rightarrow> Cache" where
  "evictOldestThumb c =
     (if c_thumbOrder c = [] then c
      else
        (let key = last (c_thumbOrder c);
             c = (case gm_get (c_thumbs c) key of
                    None \<Rightarrow> c
                  | Some ent \<Rightarrow>
                      c\<lparr>c_thumbBytes := c_thumbBytes c - int (length (te_data ent)),
                        c_thumbs := gm_del key (c_thumbs c)\<rparr>)
         in c\<lparr>c_thumbOrder := butlast (c_thumbOrder c)\<rparr>))"

definition dropCollectionLocked :: "collectionKey \<Rightarrow> Cache \<Rightarrow> Cache" where
  "dropCollectionLocked key c =
     (case gm_get (c_collections c) key of
        None \<Rightarrow> c
      | Some ent \<Rightarrow>
          removeKey key
            (c\<lparr>c_etagCount := c_etagCount c - int (length (ce_etags ent)),
               c_bodyBytes := c_bodyBytes c - bytes_of (ce_bodies ent),
               c_bodies := filter (\<lambda>ref. br_col ref \<noteq> key) (c_bodies c),
               c_collections := gm_del key (c_collections c)\<rparr>))"

definition evictOldestCollection :: "Cache \<Rightarrow> Cache" where
  "evictOldestCollection c =
     (if c_order c = [] then c else dropCollectionLocked (last (c_order c)) c)"

partial_function (option) evict_bodies :: "Cache \<Rightarrow> Cache option" where
  "evict_bodies c =
     (if c_bodyBytes c > MaxBodyBytes (c_cfg c) then evict_bodies (evictOldestBody c) else Some c)"

partial_function (option) evictThumbs :: "Cache \<Rightarrow> Cache option" where
  "evictThumbs c =
     (if int (length (c_thumbs c)) > MaxThumbEntries (c_cfg c)
         \<or> c_thumbBytes c > MaxThumbBytes (c_cfg c)
      then evictThumbs (evictOldestThumb c) else Some c)"

partial_function (option) evict_collections :: "Cache \<Rightarrow> Cache option" where
  "evict_collections c =
     (if int (length (c_collections c)) > MaxCollections (c_cfg c)
      then evict_collections (evictOldestCollection c) else Some c)"

partial_function (option) evict_etags :: "Cache \<Rightarrow> Cache option" where
  "evict_etags c =
     (if c_etagCount c > MaxETagEntries (c_cfg c)
      then evict_etags (evictOldestCollection c) else Some c)"

definition evictLocked :: "Cache \<Rightarrow> Cache option" where
  "evictLocked c =
     Option.bind (evict_bodies c) (\<lambda>c. Option.bind (evictThumbs c) (\<lambda>c.
       Option.bind (evict_collections c) evict_etags))"

subsection \<open>Operations\<close>

definition Wipe :: "Cache \<Rightarrow> Cache" where
  "Wipe c = c\<lparr>c_collections := [], c_order := [], c_etagCount := 0, c_bodies := [],
     c_bodyBytes := 0, c_thumbs := [], c_thumbOrder := [], c_thumbBytes := 0\<rparr>"

definition InvalidateCollection :: "collectionKey \<Rightarrow> Cache \<Rightarrow> Cache" where
  "InvalidateCollection key c = dropCollectionLocked key c"

definition NeedsRefresh :: "Cache \<Rightarrow> time \<Rightarrow> collectionKey \<Rightarrow> string \<Rightarrow> bool" where
  "NeedsRefresh c now key serverCTag =
     (case gm_get (c_collections c) key of
        None \<Rightarrow> True
      | Some ent \<Rightarrow>
          if time_sub now (ce_fetchedAt ent) \<ge> CollectionTTL (c_cfg c) then True
          else if serverCTag \<noteq> [] \<and> ce_ctag ent \<noteq> serverCTag then True
          else False)"

definition LastFetched :: "Cache \<Rightarrow> time option" where
  "LastFetched c =
     (let latest = fold (\<lambda>(_, ent) t. if ce_fetchedAt ent > t then ce_fetchedAt ent else t)
                        (c_collections c) zero_time
      in if is_zero latest then None else Some latest)"

record CollectionMeta =
  cm_FetchedAt :: time
  cm_CTag :: string
  cm_ObjectCount :: int

definition Cache_CollectionMeta :: "Cache \<Rightarrow> collectionKey \<Rightarrow> CollectionMeta option" where
  "Cache_CollectionMeta c key =
     map_option (\<lambda>ent. \<lparr>cm_FetchedAt = ce_fetchedAt ent, cm_CTag = ce_ctag ent,
                        cm_ObjectCount = int (length (ce_etags ent))\<rparr>)
       (gm_get (c_collections c) key)"

definition Cache_CTag :: "Cache \<Rightarrow> collectionKey \<Rightarrow> string option" where
  "Cache_CTag c key = map_option ce_ctag (gm_get (c_collections c) key)"

definition GetETags :: "Cache \<Rightarrow> collectionKey \<Rightarrow> Cache \<times> (string, string) gomap option" where
  "GetETags c key =
     (case gm_get (c_collections c) key of
        None \<Rightarrow> (c, None)
      | Some ent \<Rightarrow> (touch (ce_key ent) c, Some (ce_etags ent)))"

definition new_entry :: "collectionKey \<Rightarrow> collectionEntry" where
  "new_entry key = \<lparr>ce_key = key, ce_ctag = [], ce_fetchedAt = zero_time, ce_etags = [],
     ce_bodies = []\<rparr>"

definition SetETags ::
    "Cache \<Rightarrow> time \<Rightarrow> collectionKey \<Rightarrow> string \<Rightarrow> (string, string) gomap \<Rightarrow> Cache option" where
  "SetETags c now key ctag etags =
     (let (ent, c) =
        (case gm_get (c_collections c) key of
           Some ent \<Rightarrow> (ent, c\<lparr>c_etagCount := c_etagCount c - int (length (ce_etags ent))\<rparr>)
         | None \<Rightarrow> (new_entry key, c\<lparr>c_order := c_order c @ [key]\<rparr>));
        ent = ent\<lparr>ce_ctag := ctag, ce_fetchedAt := now, ce_etags := etags\<rparr>;
        c = c\<lparr>c_collections := gm_put key ent (c_collections c),
              c_etagCount := c_etagCount c + int (length (ce_etags ent))\<rparr>
      in evictLocked (touch key c))"

definition PutBody ::
    "Cache \<Rightarrow> nat \<Rightarrow> collectionKey \<Rightarrow> string \<Rightarrow> bytes \<Rightarrow> (Cache \<times> nat) option" where
  "PutBody c clock key path body =
     (let (ent, c) =
        (case gm_get (c_collections c) key of
           Some ent \<Rightarrow> (ent, c)
         | None \<Rightarrow> (new_entry key, c\<lparr>c_order := c_order c @ [key]\<rparr>));
        c = (case gm_get (ce_bodies ent) path of
               None \<Rightarrow> c
             | Some old \<Rightarrow>
                 removeBody key path (c\<lparr>c_bodyBytes := c_bodyBytes c - int (length old)\<rparr>));
        ent = ent\<lparr>ce_bodies := gm_put path body (ce_bodies ent)\<rparr>;
        c = c\<lparr>c_collections := gm_put key ent (c_collections c),
              c_bodyBytes := c_bodyBytes c + int (length body)\<rparr>;
        (seq, c, clock) = nextSeqLocked c clock;
        c = c\<lparr>c_bodies := \<lparr>br_col = key, br_path = path, br_seq = seq\<rparr> # c_bodies c\<rparr>
      in map_option (\<lambda>c. (c, clock)) (evictLocked (touch key c)))"

definition GetBody ::
    "Cache \<Rightarrow> nat \<Rightarrow> collectionKey \<Rightarrow> string \<Rightarrow> (Cache \<times> nat) \<times> bytes option" where
  "GetBody c clock key path =
     (case gm_get (c_collections c) key of
        None \<Rightarrow> ((c, clock), None)
      | Some ent \<Rightarrow>
          (case gm_get (ce_bodies ent) path of
             None \<Rightarrow> ((c, clock), None)
           | Some body \<Rightarrow>
               (case touchBody key path c clock of (c, clock) \<Rightarrow> ((touch key c, clock), Some body))))"

definition PutThumb ::
    "Cache \<Rightarrow> nat \<Rightarrow> thumbKey \<Rightarrow> string \<Rightarrow> bytes \<Rightarrow> (Cache \<times> nat) option" where
  "PutThumb c clock key mediaType data =
     (if tk_ETag key = [] \<or> data = [] then Some (c, clock)
      else
        (let c = (case gm_get (c_thumbs c) key of
                    None \<Rightarrow> c
                  | Some ent \<Rightarrow>
                      removeThumbKey key
                        (c\<lparr>c_thumbBytes := c_thumbBytes c - int (length (te_data ent)),
                           c_thumbs := gm_del key (c_thumbs c)\<rparr>));
             (seq, c, clock) = nextSeqLocked c clock;
             c = c\<lparr>c_thumbs := gm_put key \<lparr>te_key = key, te_media = mediaType, te_data = data,
                                            te_seq = seq\<rparr> (c_thumbs c),
                   c_thumbOrder := key # c_thumbOrder c,
                   c_thumbBytes := c_thumbBytes c + int (length data)\<rparr>
         in map_option (\<lambda>c. (c, clock)) (evictLocked c)))"

definition GetThumb ::
    "Cache \<Rightarrow> nat \<Rightarrow> thumbKey \<Rightarrow> (Cache \<times> nat) \<times> (string \<times> bytes) option" where
  "GetThumb c clock key =
     (if tk_ETag key = [] then ((c, clock), None)
      else
        (case gm_get (c_thumbs c) key of
           None \<Rightarrow> ((c, clock), None)
         | Some ent \<Rightarrow> (touchThumb key c clock, Some (te_media ent, te_data ent))))"

definition BodyBytes :: "Cache \<Rightarrow> int" where "BodyBytes c = c_bodyBytes c"
definition ThumbBytes :: "Cache \<Rightarrow> int" where "ThumbBytes c = c_thumbBytes c"
definition ThumbCount :: "Cache \<Rightarrow> int" where "ThumbCount c = int (length (c_thumbs c))"

subsection \<open>Recency lists as lists\<close>

lemma keyIndex_None: "keyIndex xs k = None \<longleftrightarrow> k \<notin> set xs"
  by (induction xs) auto

lemma keyIndex_split:
  "keyIndex xs k = Some i \<Longrightarrow> i < length xs \<and> xs ! i = k \<and> take i xs @ drop (Suc i) xs = remove1 k xs"
  by (induction xs arbitrary: i) (auto split: if_splits)

lemma touch_list_eq: "touch_list k xs = (if k \<in> set xs then k # remove1 k xs else xs)"
  using keyIndex_None [of xs k] keyIndex_split [of xs k]
  by (auto simp: touch_list_def move_front_def split: option.splits)

lemma removeKey_list_eq: "removeKey_list k xs = remove1 k xs"
  using keyIndex_None [of xs k] keyIndex_split [of xs k]
  by (auto simp: removeKey_list_def remove_at_def remove1_idem split: option.splits)

lemma set_touch_list [simp]: "set (touch_list k xs) = set xs"
  by (induction xs) (auto simp: touch_list_eq)

lemma distinct_touch_list [simp]: "distinct (touch_list k xs) = distinct xs"
  by (induction xs) (auto simp: touch_list_eq)

lemma length_touch_list [simp]: "length (touch_list k xs) = length xs"
  by (auto simp: touch_list_eq length_remove1) (metis Suc_pred length_pos_if_in_set)

lemma hd_touch_list: "k \<in> set xs \<Longrightarrow> hd (touch_list k xs) = k"
  by (simp add: touch_list_eq)

subsection \<open>The invariant\<close>

definition ref_id :: "bodyRef \<Rightarrow> collectionKey \<times> string" where
  "ref_id r = (br_col r, br_path r)"

definition body_at :: "Cache \<Rightarrow> collectionKey \<Rightarrow> string \<Rightarrow> bytes option" where
  "body_at c k p = Option.bind (gm_get (c_collections c) k) (\<lambda>e. gm_get (ce_bodies e) p)"

definition stored :: "Cache \<Rightarrow> (collectionKey \<times> string) set" where
  "stored c = {(k, p). body_at c k p \<noteq> None}"

definition entry_wf :: "collectionKey \<times> collectionEntry \<Rightarrow> bool" where
  "entry_wf x = (case x of (k, e) \<Rightarrow> ce_key e = k \<and> gm_wf (ce_etags e) \<and> gm_wf (ce_bodies e))"

text \<open>The collections, their recency list and the count of ETags agree.\<close>

definition col_inv :: "Cache \<Rightarrow> bool" where
  "col_inv c \<longleftrightarrow> gm_wf (c_collections c) \<and> (\<forall>x \<in> set (c_collections c). entry_wf x) \<and>
     distinct (c_order c) \<and> set (c_order c) = fst ` set (c_collections c) \<and>
     c_etagCount c = gm_sum (\<lambda>e. int (length (ce_etags e))) (c_collections c)"

text \<open>The body references are the stored bodies, each once, and the byte counter is their size.\<close>

definition body_inv :: "Cache \<Rightarrow> bool" where
  "body_inv c \<longleftrightarrow> distinct (map ref_id (c_bodies c)) \<and>
     ref_id ` set (c_bodies c) = stored c \<and>
     c_bodyBytes c = gm_sum (\<lambda>e. bytes_of (ce_bodies e)) (c_collections c)"

definition thumb_inv :: "Cache \<Rightarrow> bool" where
  "thumb_inv c \<longleftrightarrow> gm_wf (c_thumbs c) \<and> distinct (c_thumbOrder c) \<and>
     set (c_thumbOrder c) = fst ` set (c_thumbs c) \<and>
     c_thumbBytes c = gm_sum (\<lambda>e. int (length (te_data e))) (c_thumbs c)"

definition cfg_ok :: "CacheConfig \<Rightarrow> bool" where
  "cfg_ok cfg \<longleftrightarrow> 0 < CollectionTTL cfg \<and> 0 < MaxCollections cfg \<and> 0 < MaxETagEntries cfg \<and>
     0 < MaxBodyBytes cfg \<and> 0 < MaxProcessBytes cfg \<and> 0 < MaxThumbBytes cfg \<and>
     0 < MaxThumbEntries cfg"

definition cache_inv :: "Cache \<Rightarrow> bool" where
  "cache_inv c \<longleftrightarrow> cfg_ok (c_cfg c) \<and> col_inv c \<and> body_inv c \<and> thumb_inv c"

definition within_limits :: "Cache \<Rightarrow> bool" where
  "within_limits c \<longleftrightarrow> c_bodyBytes c \<le> MaxBodyBytes (c_cfg c) \<and>
     c_thumbBytes c \<le> MaxThumbBytes (c_cfg c) \<and>
     int (length (c_thumbs c)) \<le> MaxThumbEntries (c_cfg c) \<and>
     int (length (c_collections c)) \<le> MaxCollections (c_cfg c) \<and>
     c_etagCount c \<le> MaxETagEntries (c_cfg c)"

lemmas inv_parts = col_inv_def body_inv_def thumb_inv_def

lemma bytes_of_nonneg: "0 \<le> bytes_of m"
  by (simp add: bytes_of_def gm_sum_nonneg)

lemma bytes_of_put:
  "gm_wf m \<Longrightarrow> bytes_of (gm_put p b m) =
     bytes_of m + int (length b) - (case gm_get m p of None \<Rightarrow> 0 | Some old \<Rightarrow> int (length old))"
  by (simp add: bytes_of_def gm_sum_put)

lemma bytes_of_del:
  "gm_wf m \<Longrightarrow> bytes_of (gm_del p m) =
     bytes_of m - (case gm_get m p of None \<Rightarrow> 0 | Some old \<Rightarrow> int (length old))"
  by (simp add: bytes_of_def gm_sum_del)

lemma bytes_of_Nil [simp]: "bytes_of [] = 0"
  by (simp add: bytes_of_def)

lemma entry_at:
  "col_inv c \<Longrightarrow> gm_get (c_collections c) k = Some e \<Longrightarrow>
   ce_key e = k \<and> gm_wf (ce_etags e) \<and> gm_wf (ce_bodies e)"
  by (auto simp: col_inv_def entry_wf_def dest: gm_get_mem)

lemma in_stored [simp]: "(k, p) \<in> stored c \<longleftrightarrow> body_at c k p \<noteq> None"
  by (simp add: stored_def)

lemma stored_cong: "c_collections c' = c_collections c \<Longrightarrow> stored c' = stored c"
  by (simp add: stored_def body_at_def)

lemma stored_empty [simp]: "c_collections c = [] \<Longrightarrow> stored c = {}"
  by (simp add: stored_def body_at_def)

lemma withDefaults_ok: "cfg_ok (cc_withDefaults cfg)"
  by (simp add: cfg_ok_def cc_withDefaults_def Let_def second_def)

lemma NewCache_inv [inv_intros]: "cache_inv (NewCache cfg)"
  by (simp add: cache_inv_def inv_parts NewCache_def withDefaults_ok)

lemma Wipe_inv [inv_intros]: "cache_inv c \<Longrightarrow> cache_inv (Wipe c)"
  by (simp add: cache_inv_def inv_parts Wipe_def)

lemma cache_inv_clock [simp]:
  "cache_inv (c\<lparr>c_localClock := n\<rparr>) = cache_inv c" "cache_inv (c\<lparr>c_bound := b\<rparr>) = cache_inv c"
  by (simp_all add: cache_inv_def inv_parts stored_def body_at_def)

lemma nextSeqLocked_cases:
  obtains s n clock' where "nextSeqLocked c clock = (s, c\<lparr>c_localClock := n\<rparr>, clock')"
    and "clock \<le> clock'" and "c_bound c \<longrightarrow> s = Suc clock \<and> clock' = Suc clock"
proof (cases "c_bound c")
  case True
  then have "nextSeqLocked c clock = (Suc clock, c\<lparr>c_localClock := c_localClock c\<rparr>, Suc clock)"
    by (simp add: nextSeqLocked_def)
  then show ?thesis by (rule that) simp_all
next
  case False
  then show ?thesis using that by (simp add: nextSeqLocked_def)
qed

lemma no_refs_no_bytes:
  assumes "col_inv c" and "body_inv c" and "c_bodies c = []"
  shows "c_bodyBytes c = 0"
proof -
  have none: "body_at c k p = None" for k p
    using assms(2,3) in_stored [of k p c] by (simp add: body_inv_def del: in_stored)
  have "\<forall>(k, e) \<in> set (c_collections c). bytes_of (ce_bodies e) = 0"
  proof clarify
    fix k e
    assume "(k, e) \<in> set (c_collections c)"
    then have "gm_get (c_collections c) k = Some e"
      using assms(1) by (simp add: col_inv_def gm_get_in)
    then have "gm_get (ce_bodies e) p = None" for p
      using none [of k p] by (simp add: body_at_def)
    then have "ce_bodies e = []" by (metis gm_get_dom image_is_empty ex_in_conv set_empty)
    then show "bytes_of (ce_bodies e) = 0" by simp
  qed
  then show ?thesis using assms(2) by (simp add: body_inv_def gm_sum_zero)
qed

subsection \<open>Dropping a body\<close>

lemma body_at_put [gomap_simps]:
  "gm_get cols k = Some e0 \<Longrightarrow>
   body_at (c\<lparr>c_collections := gm_put k e cols\<rparr>) k' p =
     (if k' = k then gm_get (ce_bodies e) p else body_at (c\<lparr>c_collections := cols\<rparr>) k' p)"
  by (simp add: body_at_def)

lemma body_at_cong: "c_collections c' = c_collections c \<Longrightarrow> body_at c' k p = body_at c k p"
  by (simp add: body_at_def)

lemma evictOldestBody_step:
  assumes "body_inv c" and "c_bodies c = rs @ [r]"
  obtains e b where "gm_get (c_collections c) (br_col r) = Some e"
    and "gm_get (ce_bodies e) (br_path r) = Some b"
    and "evictOldestBody c = c\<lparr>c_bodies := rs, c_bodyBytes := c_bodyBytes c - int (length b),
           c_collections := gm_put (br_col r)
             (e\<lparr>ce_bodies := gm_del (br_path r) (ce_bodies e)\<rparr>) (c_collections c)\<rparr>"
proof -
  have "(br_col r, br_path r) \<in> ref_id ` set (c_bodies c)"
    using assms(2) by (auto simp: ref_id_def)
  then have "body_at c (br_col r) (br_path r) \<noteq> None"
    using assms(1) by (simp add: body_inv_def)
  then obtain e b where "gm_get (c_collections c) (br_col r) = Some e"
    "gm_get (ce_bodies e) (br_path r) = Some b"
    by (auto simp: body_at_def bind_eq_Some_conv)
  with that assms(2) show ?thesis by (simp add: evictOldestBody_def Let_def)
qed

lemma col_inv_replace_bodies:
  assumes "col_inv c" and "gm_get (c_collections c) k = Some e" and "gm_wf m"
  shows "col_inv (c\<lparr>c_collections := gm_put k (e\<lparr>ce_bodies := m\<rparr>) (c_collections c)\<rparr>)"
proof -
  have w: "gm_wf (c_collections c)" using assms(1) by (simp add: col_inv_def)
  have e: "ce_key e = k" "gm_wf (ce_etags e)" using entry_at [OF assms(1,2)] by simp_all
  have k: "k \<in> fst ` set (c_collections c)" using assms(2) gm_get_dom [of "c_collections c" k] by simp
  have "\<forall>x \<in> set (gm_put k (e\<lparr>ce_bodies := m\<rparr>) (c_collections c)). entry_wf x"
    using assms(1,3) e w by (auto simp: set_gm_put col_inv_def entry_wf_def)
  with assms w k show ?thesis
    by (simp add: col_inv_def gm_sum_put insert_absorb)
qed

lemma col_inv_frame [simp]:
  "col_inv (c\<lparr>c_bodies := rs\<rparr>) = col_inv c" "col_inv (c\<lparr>c_bodyBytes := n\<rparr>) = col_inv c"
  "col_inv (c\<lparr>c_thumbs := ts\<rparr>) = col_inv c" "col_inv (c\<lparr>c_thumbOrder := ks\<rparr>) = col_inv c"
  "col_inv (c\<lparr>c_thumbBytes := n\<rparr>) = col_inv c" "col_inv (c\<lparr>c_localClock := m\<rparr>) = col_inv c"
  by (simp_all add: col_inv_def)

lemma body_inv_frame [simp]:
  "body_inv (c\<lparr>c_order := ks\<rparr>) = body_inv c" "body_inv (c\<lparr>c_etagCount := n\<rparr>) = body_inv c"
  "body_inv (c\<lparr>c_thumbs := ts\<rparr>) = body_inv c" "body_inv (c\<lparr>c_thumbOrder := ts'\<rparr>) = body_inv c"
  "body_inv (c\<lparr>c_thumbBytes := n\<rparr>) = body_inv c" "body_inv (c\<lparr>c_localClock := m\<rparr>) = body_inv c"
  by (simp_all add: body_inv_def stored_def body_at_def)

lemma thumb_inv_frame [simp]:
  "thumb_inv (c\<lparr>c_order := ks\<rparr>) = thumb_inv c" "thumb_inv (c\<lparr>c_etagCount := n\<rparr>) = thumb_inv c"
  "thumb_inv (c\<lparr>c_bodies := rs\<rparr>) = thumb_inv c" "thumb_inv (c\<lparr>c_bodyBytes := n\<rparr>) = thumb_inv c"
  "thumb_inv (c\<lparr>c_collections := m\<rparr>) = thumb_inv c"
  "thumb_inv (c\<lparr>c_localClock := i\<rparr>) = thumb_inv c"
  by (simp_all add: thumb_inv_def)

lemma evictOldestBody_inv [inv_intros]:
  assumes "cache_inv c"
  shows "cache_inv (evictOldestBody c)"
proof (cases "c_bodies c = []")
  case True
  with assms show ?thesis by (simp add: evictOldestBody_def)
next
  case False
  then obtain rs r where rs: "c_bodies c = rs @ [r]" by (metis rev_exhaust)
  have inv: "col_inv c" "body_inv c" "thumb_inv c" "cfg_ok (c_cfg c)"
    using assms by (simp_all add: cache_inv_def)
  obtain e b where e: "gm_get (c_collections c) (br_col r) = Some e"
    and b: "gm_get (ce_bodies e) (br_path r) = Some b"
    and c': "evictOldestBody c = c\<lparr>c_bodies := rs, c_bodyBytes := c_bodyBytes c - int (length b),
           c_collections := gm_put (br_col r)
             (e\<lparr>ce_bodies := gm_del (br_path r) (ce_bodies e)\<rparr>) (c_collections c)\<rparr>"
    by (rule evictOldestBody_step [OF inv(2) rs])
  have w: "gm_wf (c_collections c)" using inv(1) by (simp add: col_inv_def)
  have eb: "gm_wf (ce_bodies e)" using entry_at [OF inv(1) e] by simp
  have refs: "ref_id r \<notin> ref_id ` set rs" "distinct (map ref_id rs)"
    "insert (ref_id r) (ref_id ` set rs) = stored c"
    using inv(2) rs by (auto simp: body_inv_def)
  have at: "body_at (evictOldestBody c) k p \<noteq> None \<longleftrightarrow> (k, p) \<noteq> ref_id r \<and> body_at c k p \<noteq> None"
    for k p
    using e by (cases "k = br_col r") (simp_all add: c' body_at_def ref_id_def)
  have "stored (evictOldestBody c) = stored c - {ref_id r}"
    unfolding stored_def at by auto
  then have "ref_id ` set rs = stored (evictOldestBody c)"
    using refs(1) by (simp flip: refs(3))
  then have "body_inv (evictOldestBody c)"
    unfolding body_inv_def using inv(2) refs(2) w e b eb
    by (simp add: c' body_inv_def gm_sum_put bytes_of_del)
  moreover have "col_inv (evictOldestBody c)"
    using col_inv_replace_bodies [OF inv(1) e, of "gm_del (br_path r) (ce_bodies e)"] eb
    by (simp add: c' col_inv_def)
  moreover have "thumb_inv (evictOldestBody c)" "cfg_ok (c_cfg (evictOldestBody c))"
    using inv(3,4) by (simp_all add: c')
  ultimately show ?thesis by (simp add: cache_inv_def)
qed

lemma evictOldestBody_frame [simp, frame_simps]:
  "c_cfg (evictOldestBody c) = c_cfg c" "c_order (evictOldestBody c) = c_order c"
  "c_thumbs (evictOldestBody c) = c_thumbs c" "c_thumbOrder (evictOldestBody c) = c_thumbOrder c"
  "c_thumbBytes (evictOldestBody c) = c_thumbBytes c"
  "c_etagCount (evictOldestBody c) = c_etagCount c"
  "c_bound (evictOldestBody c) = c_bound c" "c_localClock (evictOldestBody c) = c_localClock c"
  "c_bodies (evictOldestBody c) = butlast (c_bodies c)"
  by (auto simp: evictOldestBody_def Let_def split: option.splits)

lemma evictOldestBody_collections:
  "map_option (\<lambda>e. (ce_ctag e, ce_fetchedAt e, ce_etags e)) (gm_get (c_collections (evictOldestBody c)) k) =
   map_option (\<lambda>e. (ce_ctag e, ce_fetchedAt e, ce_etags e)) (gm_get (c_collections c) k)"
  by (auto simp: evictOldestBody_def Let_def split: option.splits)

lemma evictOldestBody_length:
  "length (c_collections (evictOldestBody c)) = length (c_collections c)"
  by (auto simp: evictOldestBody_def Let_def length_gm_put split: option.splits)

subsection \<open>Dropping a thumbnail or a collection\<close>

lemma evictOldestThumb_frame [simp, frame_simps]:
  "c_cfg (evictOldestThumb c) = c_cfg c" "c_order (evictOldestThumb c) = c_order c"
  "c_collections (evictOldestThumb c) = c_collections c" "c_bodies (evictOldestThumb c) = c_bodies c"
  "c_bodyBytes (evictOldestThumb c) = c_bodyBytes c"
  "c_etagCount (evictOldestThumb c) = c_etagCount c"
  "c_bound (evictOldestThumb c) = c_bound c" "c_localClock (evictOldestThumb c) = c_localClock c"
  "c_thumbOrder (evictOldestThumb c) = butlast (c_thumbOrder c)"
  by (auto simp: evictOldestThumb_def Let_def split: option.splits)

lemma evictOldestThumb_step:
  assumes "thumb_inv c" and "c_thumbOrder c = ks @ [k]"
  obtains e where "gm_get (c_thumbs c) k = Some e"
    and "evictOldestThumb c = c\<lparr>c_thumbBytes := c_thumbBytes c - int (length (te_data e)),
           c_thumbs := gm_del k (c_thumbs c), c_thumbOrder := ks\<rparr>"
proof -
  have "k \<in> set (c_thumbOrder c)" using assms(2) by simp
  then have "k \<in> fst ` set (c_thumbs c)" using assms(1) by (simp only: thumb_inv_def)
  then obtain e where "gm_get (c_thumbs c) k = Some e" using gm_get_dom [of "c_thumbs c" k] by auto
  with that assms(2) show ?thesis by (simp add: evictOldestThumb_def Let_def)
qed

lemma evictOldestThumb_thumb_inv: "thumb_inv c \<Longrightarrow> thumb_inv (evictOldestThumb c)"
proof (cases "c_thumbOrder c = []")
  case False
  assume inv: "thumb_inv c"
  from False obtain ks k where ks: "c_thumbOrder c = ks @ [k]" by (metis rev_exhaust)
  obtain e where e: "gm_get (c_thumbs c) k = Some e"
    and c': "evictOldestThumb c = c\<lparr>c_thumbBytes := c_thumbBytes c - int (length (te_data e)),
           c_thumbs := gm_del k (c_thumbs c), c_thumbOrder := ks\<rparr>"
    by (rule evictOldestThumb_step [OF inv ks])
  have set: "insert k (set ks) = fst ` set (c_thumbs c)" and k: "k \<notin> set ks"
    using inv ks by (auto simp: thumb_inv_def)
  then have "set ks = fst ` set (c_thumbs c) - {k}" by blast
  with inv ks e show ?thesis by (simp add: c' thumb_inv_def gm_sum_del)
qed (simp add: evictOldestThumb_def)

lemma evictOldestThumb_inv [inv_intros]: "cache_inv c \<Longrightarrow> cache_inv (evictOldestThumb c)"
  by (simp add: cache_inv_def evictOldestThumb_thumb_inv)
    (simp add: col_inv_def body_inv_def stored_def body_at_def)

lemma dropCollection_frame [simp, frame_simps]:
  "c_cfg (dropCollectionLocked k c) = c_cfg c" "c_thumbs (dropCollectionLocked k c) = c_thumbs c"
  "c_thumbOrder (dropCollectionLocked k c) = c_thumbOrder c"
  "c_thumbBytes (dropCollectionLocked k c) = c_thumbBytes c"
  "c_bound (dropCollectionLocked k c) = c_bound c"
  "c_localClock (dropCollectionLocked k c) = c_localClock c"
  by (auto simp: dropCollectionLocked_def removeKey_def split: option.splits)

lemma dropCollection_collections:
  "c_collections (dropCollectionLocked k c) = gm_del k (c_collections c)"
  by (auto simp: dropCollectionLocked_def removeKey_def gm_del_id split: option.splits)

lemma dropCollection_step:
  "gm_get (c_collections c) k = Some e \<Longrightarrow>
   dropCollectionLocked k c = c\<lparr>c_etagCount := c_etagCount c - int (length (ce_etags e)),
     c_bodyBytes := c_bodyBytes c - bytes_of (ce_bodies e),
     c_bodies := filter (\<lambda>ref. br_col ref \<noteq> k) (c_bodies c),
     c_collections := gm_del k (c_collections c), c_order := remove1 k (c_order c)\<rparr>"
  by (simp add: dropCollectionLocked_def removeKey_def removeKey_list_eq)

lemma ref_ids_of_others:
  "ref_id ` set (filter (\<lambda>ref. br_col ref \<noteq> k) rs) = {x \<in> ref_id ` set rs. fst x \<noteq> k}"
  by (induction rs) (auto simp: ref_id_def)

lemma dropCollection_inv [inv_intros]:
  assumes "cache_inv c"
  shows "cache_inv (dropCollectionLocked k c)"
proof (cases "gm_get (c_collections c) k")
  case None
  with assms show ?thesis by (simp add: dropCollectionLocked_def)
next
  case (Some e)
  note c' = dropCollection_step [OF Some]
  have inv: "col_inv c" "body_inv c" "thumb_inv c" "cfg_ok (c_cfg c)"
    using assms by (simp_all add: cache_inv_def)
  have "col_inv (dropCollectionLocked k c)"
    using inv(1) Some by (auto simp: c' col_inv_def set_gm_del gm_sum_del)
  moreover have "stored (dropCollectionLocked k c) = {x \<in> stored c. fst x \<noteq> k}"
    by (auto simp: stored_def body_at_def dropCollection_collections split: if_splits)
  then have "ref_id ` set (filter (\<lambda>ref. br_col ref \<noteq> k) (c_bodies c)) =
      stored (dropCollectionLocked k c)"
    using inv(2) ref_ids_of_others [of k "c_bodies c"] by (simp add: body_inv_def)
  then have "body_inv (dropCollectionLocked k c)"
    unfolding body_inv_def using inv(1,2) Some
    by (simp add: c' col_inv_def body_inv_def gm_sum_del distinct_map_filter)
  ultimately show ?thesis using inv(3,4) by (simp add: cache_inv_def thumb_inv_def)
qed

lemma evictOldestCollection_inv [inv_intros]: "cache_inv c \<Longrightarrow> cache_inv (evictOldestCollection c)"
  by (simp add: evictOldestCollection_def dropCollection_inv)

lemma evictOldestCollection_frame [simp, frame_simps]:
  "c_cfg (evictOldestCollection c) = c_cfg c" "c_thumbs (evictOldestCollection c) = c_thumbs c"
  "c_thumbOrder (evictOldestCollection c) = c_thumbOrder c"
  "c_thumbBytes (evictOldestCollection c) = c_thumbBytes c"
  "c_bound (evictOldestCollection c) = c_bound c"
  "c_localClock (evictOldestCollection c) = c_localClock c"
  by (simp_all add: evictOldestCollection_def)

lemma dropCollection_bytes_le:
  "c_bodyBytes (dropCollectionLocked k c) \<le> c_bodyBytes c"
  by (auto simp: dropCollectionLocked_def removeKey_def bytes_of_nonneg split: option.splits)

lemma evictOldestCollection_bytes_le: "c_bodyBytes (evictOldestCollection c) \<le> c_bodyBytes c"
  by (simp add: evictOldestCollection_def dropCollection_bytes_le)

text \<open>With an invariant in force the recency list is as long as the map it orders.\<close>

lemma length_order:
  assumes "col_inv c"
  shows "length (c_order c) = length (c_collections c)"
proof -
  have "length (c_order c) = card (fst ` set (c_collections c))"
    using assms by (metis col_inv_def distinct_card)
  also have "\<dots> = length (c_collections c)"
    using assms distinct_card [of "map fst (c_collections c)"] by (simp add: col_inv_def gm_wf_def)
  finally show ?thesis .
qed

lemma length_thumbOrder:
  assumes "thumb_inv c"
  shows "length (c_thumbOrder c) = length (c_thumbs c)"
proof -
  have "length (c_thumbOrder c) = card (fst ` set (c_thumbs c))"
    using assms by (metis thumb_inv_def distinct_card)
  also have "\<dots> = length (c_thumbs c)"
    using assms distinct_card [of "map fst (c_thumbs c)"] by (simp add: thumb_inv_def gm_wf_def)
  finally show ?thesis .
qed

lemma evictOldestCollection_shrinks:
  assumes "col_inv c" and "c_collections c \<noteq> []"
  shows "Suc (length (c_collections (evictOldestCollection c))) = length (c_collections c)"
proof -
  have ne: "c_order c \<noteq> []" using length_order [OF assms(1)] assms(2) by fastforce
  then have "last (c_order c) \<in> fst ` set (c_collections c)"
    using assms(1) last_in_set by (auto simp: col_inv_def)
  then obtain e where "gm_get (c_collections c) (last (c_order c)) = Some e"
    using gm_get_dom [of "c_collections c"] by blast
  then show ?thesis
    using ne assms(1) length_gm_del [of "c_collections c"]
    by (simp add: evictOldestCollection_def dropCollection_collections col_inv_def)
qed

subsection \<open>The eviction loops return\<close>

lemma over_bytes_has_refs:
  "cache_inv c \<Longrightarrow> MaxBodyBytes (c_cfg c) < c_bodyBytes c \<Longrightarrow> c_bodies c \<noteq> []"
  using no_refs_no_bytes [of c] by (auto simp: cache_inv_def cfg_ok_def)

definition over_thumbs :: "Cache \<Rightarrow> bool" where
  "over_thumbs c \<longleftrightarrow> int (length (c_thumbs c)) > MaxThumbEntries (c_cfg c)
     \<or> c_thumbBytes c > MaxThumbBytes (c_cfg c)"

lemma over_thumbs_has_thumbs: "cache_inv c \<Longrightarrow> over_thumbs c \<Longrightarrow> c_thumbOrder c \<noteq> []"
  using length_thumbOrder [of c]
  by (auto simp: cache_inv_def cfg_ok_def over_thumbs_def thumb_inv_def)

lemma over_etags_has_collections:
  "cache_inv c \<Longrightarrow> MaxETagEntries (c_cfg c) < c_etagCount c \<Longrightarrow> c_collections c \<noteq> []"
  by (auto simp: cache_inv_def cfg_ok_def col_inv_def)

interpretation bodies: draining_loop "\<lambda>c. c_bodyBytes c > MaxBodyBytes (c_cfg c)"
  evictOldestBody evict_bodies cache_inv "\<lambda>c. length (c_bodies c)"
  by unfold_locales
    (auto simp: evict_bodies.simps evictOldestBody_inv dest: over_bytes_has_refs)

interpretation thumbs: draining_loop over_thumbs evictOldestThumb evictThumbs cache_inv
  "\<lambda>c. length (c_thumbOrder c)"
  by unfold_locales
    (auto simp: evictThumbs.simps evictOldestThumb_inv over_thumbs_def [symmetric]
      dest: over_thumbs_has_thumbs)

interpretation cols: draining_loop "\<lambda>c. int (length (c_collections c)) > MaxCollections (c_cfg c)"
  evictOldestCollection evict_collections cache_inv "\<lambda>c. length (c_collections c)"
proof
  fix c
  show "evict_collections c = (if MaxCollections (c_cfg c) < int (length (c_collections c))
      then evict_collections (evictOldestCollection c) else Some c)"
    by (rule evict_collections.simps)
  assume c: "cache_inv c"
  then show "cache_inv (evictOldestCollection c)" by (rule evictOldestCollection_inv)
  assume "MaxCollections (c_cfg c) < int (length (c_collections c))"
  with c have "col_inv c" "c_collections c \<noteq> []" by (auto simp: cache_inv_def cfg_ok_def)
  then show "length (c_collections (evictOldestCollection c)) < length (c_collections c)"
    using evictOldestCollection_shrinks [of c] by simp
qed

interpretation etags: draining_loop "\<lambda>c. c_etagCount c > MaxETagEntries (c_cfg c)"
  evictOldestCollection evict_etags cache_inv "\<lambda>c. length (c_collections c)"
proof
  fix c
  show "evict_etags c = (if MaxETagEntries (c_cfg c) < c_etagCount c
      then evict_etags (evictOldestCollection c) else Some c)"
    by (rule evict_etags.simps)
  assume c: "cache_inv c"
  then show "cache_inv (evictOldestCollection c)" by (rule evictOldestCollection_inv)
  assume "MaxETagEntries (c_cfg c) < c_etagCount c"
  with c have "col_inv c" "c_collections c \<noteq> []"
    using over_etags_has_collections by (auto simp: cache_inv_def)
  then show "length (c_collections (evictOldestCollection c)) < length (c_collections c)"
    using evictOldestCollection_shrinks [of c] by simp
qed

text \<open>What every eviction leaves alone.\<close>

definition same_frame :: "Cache \<Rightarrow> Cache \<Rightarrow> bool" where
  "same_frame c c' \<longleftrightarrow> c_cfg c' = c_cfg c \<and> c_bound c' = c_bound c \<and>
     c_localClock c' = c_localClock c"

lemma evict_bodies_ok:
  assumes "cache_inv c"
  shows "\<exists>c'. evict_bodies c = Some c' \<and> cache_inv c' \<and> same_frame c c' \<and>
     c_bodyBytes c' \<le> MaxBodyBytes (c_cfg c) \<and> c_thumbs c' = c_thumbs c"
  using bodies.drains_with [OF assms, where Q = "\<lambda>s. same_frame c s \<and> c_thumbs s = c_thumbs c"]
  by (auto simp: same_frame_def)

lemma evictThumbs_ok:
  assumes "cache_inv c"
  shows "\<exists>c'. evictThumbs c = Some c' \<and> cache_inv c' \<and> same_frame c c' \<and> \<not> over_thumbs c' \<and>
     c_bodyBytes c' = c_bodyBytes c \<and> c_bodies c' = c_bodies c \<and>
     c_collections c' = c_collections c \<and> c_order c' = c_order c \<and> c_etagCount c' = c_etagCount c"
  using thumbs.drains_with [OF assms, where Q = "\<lambda>s. same_frame c s \<and> c_bodyBytes s = c_bodyBytes c
     \<and> c_bodies s = c_bodies c \<and> c_collections s = c_collections c \<and> c_order s = c_order c
     \<and> c_etagCount s = c_etagCount c"]
  by (auto simp: same_frame_def)

definition collections_only :: "Cache \<Rightarrow> Cache \<Rightarrow> bool" where
  "collections_only c c' \<longleftrightarrow> same_frame c c' \<and> c_bodyBytes c' \<le> c_bodyBytes c \<and>
     c_thumbs c' = c_thumbs c \<and> c_thumbBytes c' = c_thumbBytes c \<and>
     length (c_collections c') \<le> length (c_collections c)"

lemma collections_only_refl: "collections_only c c"
  by (simp add: collections_only_def same_frame_def)

lemma evictOldestCollection_only:
  "collections_only c s \<Longrightarrow> collections_only c (evictOldestCollection s)"
  using evictOldestCollection_bytes_le [of s]
  by (auto simp: collections_only_def same_frame_def evictOldestCollection_def
      dropCollection_collections intro: order_trans [OF length_gm_del_le])

lemma evict_collections_ok:
  assumes "cache_inv c"
  shows "\<exists>c'. evict_collections c = Some c' \<and> cache_inv c' \<and> collections_only c c' \<and>
     int (length (c_collections c')) \<le> MaxCollections (c_cfg c)"
  using cols.drains_with [OF assms, where Q = "collections_only c", OF collections_only_refl]
    evictOldestCollection_only
  by (auto simp: collections_only_def same_frame_def)

lemma evict_etags_ok:
  assumes "cache_inv c"
  shows "\<exists>c'. evict_etags c = Some c' \<and> cache_inv c' \<and> collections_only c c' \<and>
     c_etagCount c' \<le> MaxETagEntries (c_cfg c)"
  using etags.drains_with [OF assms, where Q = "collections_only c", OF collections_only_refl]
    evictOldestCollection_only
  by (auto simp: collections_only_def same_frame_def)

lemma evictLocked_ok:
  assumes "cache_inv c"
  shows "\<exists>c'. evictLocked c = Some c' \<and> cache_inv c' \<and> within_limits c' \<and> same_frame c c'"
proof -
  obtain c1 where 1: "evict_bodies c = Some c1" "cache_inv c1" "same_frame c c1"
    "c_bodyBytes c1 \<le> MaxBodyBytes (c_cfg c)"
    using evict_bodies_ok [OF assms] by blast
  obtain c2 where 2: "evictThumbs c1 = Some c2" "cache_inv c2" "same_frame c1 c2"
    "\<not> over_thumbs c2" "c_bodyBytes c2 = c_bodyBytes c1"
    using evictThumbs_ok [OF 1(2)] by blast
  obtain c3 where 3: "evict_collections c2 = Some c3" "cache_inv c3" "collections_only c2 c3"
    "int (length (c_collections c3)) \<le> MaxCollections (c_cfg c2)"
    using evict_collections_ok [OF 2(2)] by blast
  obtain c4 where 4: "evict_etags c3 = Some c4" "cache_inv c4" "collections_only c3 c4"
    "c_etagCount c4 \<le> MaxETagEntries (c_cfg c3)"
    using evict_etags_ok [OF 3(2)] by blast
  have "within_limits c4" "same_frame c c4"
    using 1(3,4) 2(3-5) 3(3,4) 4(3,4)
    by (auto simp: within_limits_def same_frame_def collections_only_def over_thumbs_def)
  with 1(1) 2(1) 3(1) 4(1,2) show ?thesis by (simp add: evictLocked_def)
qed

subsection \<open>Every operation keeps the invariant and the limits\<close>

definition ent_at :: "Cache \<Rightarrow> collectionKey \<Rightarrow> collectionEntry" where
  "ent_at c key = (case gm_get (c_collections c) key of Some e \<Rightarrow> e | None \<Rightarrow> new_entry key)"

definition order_with :: "Cache \<Rightarrow> collectionKey \<Rightarrow> collectionKey list" where
  "order_with c key = (if gm_get (c_collections c) key = None then c_order c @ [key] else c_order c)"

lemma ent_at_wf:
  "col_inv c \<Longrightarrow> ce_key (ent_at c k) = k \<and> gm_wf (ce_etags (ent_at c k)) \<and> gm_wf (ce_bodies (ent_at c k))"
  by (auto simp: ent_at_def new_entry_def entry_at split: option.splits)

lemma ent_at_sum:
  assumes "col_inv c" and "f (new_entry k) = 0"
  shows "gm_sum f (gm_put k e (c_collections c)) =
    gm_sum f (c_collections c) + f e - f (ent_at c k)"
  using assms by (simp add: gm_sum_put ent_at_def col_inv_def split: option.splits)

lemma order_with_ok:
  assumes "col_inv c"
  shows "distinct (order_with c k) \<and> set (order_with c k) = insert k (fst ` set (c_collections c))"
  using assms gm_get_dom [of "c_collections c" k]
  by (auto simp: order_with_def col_inv_def)

lemma col_inv_put:
  assumes "col_inv c" and "ce_key e = k" and "gm_wf (ce_etags e)" and "gm_wf (ce_bodies e)"
  shows "col_inv (c\<lparr>c_collections := gm_put k e (c_collections c), c_order := touch_list k (order_with c k),
     c_etagCount := c_etagCount c + int (length (ce_etags e)) - int (length (ce_etags (ent_at c k)))\<rparr>)"
proof -
  have "\<forall>x \<in> set (gm_put k e (c_collections c)). entry_wf x"
    using assms by (auto simp: set_gm_put col_inv_def entry_wf_def)
  with assms order_with_ok [OF assms(1), of k] show ?thesis
    using ent_at_sum [OF assms(1), of "\<lambda>e. int (length (ce_etags e))" k e]
    by (simp add: col_inv_def new_entry_def)
qed

lemma SetETags_eq:
  "SetETags c now key ctag etags = evictLocked
     (c\<lparr>c_collections := gm_put key (ent_at c key\<lparr>ce_ctag := ctag, ce_fetchedAt := now, ce_etags := etags\<rparr>)
          (c_collections c),
        c_order := touch_list key (order_with c key),
        c_etagCount := c_etagCount c + int (length etags) - int (length (ce_etags (ent_at c key)))\<rparr>)"
  by (auto simp: SetETags_def Let_def touch_def ent_at_def order_with_def new_entry_def
      split: option.split intro!: arg_cong [where f = evictLocked] Cache.equality)

lemma ent_at_bodies:
  "gm_get (ce_bodies (ent_at c k)) p = body_at c k p"
  by (simp add: ent_at_def body_at_def new_entry_def split: option.split)

lemma stored_put:
  assumes "\<And>p. gm_get (ce_bodies e) p \<noteq> None \<longleftrightarrow> body_at c k p \<noteq> None \<or> p \<in> ps"
  shows "stored (c\<lparr>c_collections := gm_put k e (c_collections c), c_order := ks, c_etagCount := n\<rparr>)
    = stored c \<union> {k} \<times> ps"
proof -
  let ?c' = "c\<lparr>c_collections := gm_put k e (c_collections c), c_order := ks, c_etagCount := n\<rparr>"
  have "body_at ?c' k' p \<noteq> None \<longleftrightarrow> body_at c k' p \<noteq> None \<or> k' = k \<and> p \<in> ps" for k' p
    using assms [of p] by (cases "k' = k") (simp_all add: body_at_def)
  then show ?thesis by (auto simp: stored_def)
qed

lemma SetETags_pre:
  assumes "cache_inv c" and "gm_wf etags"
  shows "cache_inv (c\<lparr>c_collections := gm_put key (ent_at c key\<lparr>ce_ctag := ctag, ce_fetchedAt := now, ce_etags := etags\<rparr>)
          (c_collections c),
        c_order := touch_list key (order_with c key),
        c_etagCount := c_etagCount c + int (length etags) - int (length (ce_etags (ent_at c key)))\<rparr>)"
    (is "cache_inv ?c'")
proof -
  let ?e = "ent_at c key\<lparr>ce_ctag := ctag, ce_fetchedAt := now, ce_etags := etags\<rparr>"
  have inv: "col_inv c" "body_inv c" using assms(1) by (simp_all add: cache_inv_def)
  have "col_inv ?c'"
    using col_inv_put [OF inv(1), of ?e key] ent_at_wf [OF inv(1), of key] assms(2) by simp
  moreover have "stored ?c' = stored c \<union> {key} \<times> {}"
    by (rule stored_put) (simp add: ent_at_bodies)
  then have "body_inv ?c'"
    using inv(2) ent_at_sum [OF inv(1), of "\<lambda>e. bytes_of (ce_bodies e)" key ?e]
    by (simp add: body_inv_def new_entry_def)
  ultimately show ?thesis using assms(1) by (simp add: cache_inv_def thumb_inv_def)
qed

lemma SetETags_ok:
  assumes "cache_inv c" and "gm_wf etags"
  shows "\<exists>c'. SetETags c now key ctag etags = Some c' \<and> cache_inv c' \<and> within_limits c' \<and>
    same_frame c c'"
  using evictLocked_ok [OF SetETags_pre [OF assms]] by (simp add: SetETags_eq same_frame_def)

lemma same_body_iff: "same_body k p r \<longleftrightarrow> ref_id r = (k, p)"
  by (simp add: same_body_def ref_id_def)

lemma set_remove_body:
  "distinct (map ref_id rs) \<Longrightarrow>
   set (remove_first (same_body k p) rs) = {r \<in> set rs. ref_id r \<noteq> (k, p)}"
  using set_remove_first_distinct [of ref_id rs "(k, p)"] by (simp add: same_body_iff [abs_def])

lemma ref_ids_remove_body:
  "distinct (map ref_id rs) \<Longrightarrow>
   insert (k, p) (ref_id ` set (remove_first (same_body k p) rs)) = insert (k, p) (ref_id ` set rs)"
  by (auto simp: set_remove_body)

lemma distinct_remove_body:
  "distinct (map ref_id rs) \<Longrightarrow> distinct (map ref_id (remove_first (same_body k p) rs))"
  by (rule distinct_map_remove_first)

text \<open>The state \<open>PutBody\<close> hands to the eviction: the new reference in front, counted once.\<close>

definition put_body :: "Cache \<Rightarrow> collectionKey \<Rightarrow> string \<Rightarrow> bytes \<Rightarrow> nat \<Rightarrow> nat \<Rightarrow> Cache" where
  "put_body c key path body seq lc =
     c\<lparr>c_localClock := lc,
       c_collections := gm_put key
         (ent_at c key\<lparr>ce_bodies := gm_put path body (ce_bodies (ent_at c key))\<rparr>) (c_collections c),
       c_order := touch_list key (order_with c key),
       c_bodies := \<lparr>br_col = key, br_path = path, br_seq = seq\<rparr> #
         remove_first (same_body key path) (c_bodies c),
       c_bodyBytes := c_bodyBytes c + int (length body) -
         (case body_at c key path of None \<Rightarrow> 0 | Some old \<Rightarrow> int (length old))\<rparr>"

lemma remove_body_absent:
  assumes "body_inv c" and "body_at c k p = None"
  shows "remove_first (same_body k p) (c_bodies c) = c_bodies c"
proof (rule remove_first_id, rule ballI)
  fix r
  assume "r \<in> set (c_bodies c)"
  then have "ref_id r \<in> stored c" using assms(1) by (auto simp: body_inv_def)
  with assms(2) show "\<not> same_body k p r" by (auto simp: same_body_iff)
qed

lemma PutBody_eq:
  assumes "body_inv c"
  shows "\<exists>seq lc clock'. PutBody c clock key path body =
       map_option (\<lambda>c. (c, clock')) (evictLocked (put_body c key path body seq lc)) \<and>
     clock \<le> clock' \<and> (c_bound c \<longrightarrow> seq = Suc clock \<and> clock' = Suc clock)"
proof -
  define c1 where "c1 = c\<lparr>c_order := order_with c key,
     c_bodies := remove_first (same_body key path) (c_bodies c),
     c_bodyBytes := c_bodyBytes c -
       (case body_at c key path of None \<Rightarrow> 0 | Some old \<Rightarrow> int (length old)) + int (length body),
     c_collections := gm_put key
       (ent_at c key\<lparr>ce_bodies := gm_put path body (ce_bodies (ent_at c key))\<rparr>) (c_collections c)\<rparr>"
  obtain s n clock' where s: "nextSeqLocked c1 clock = (s, c1\<lparr>c_localClock := n\<rparr>, clock')"
    and le: "clock \<le> clock'" "c_bound c1 \<longrightarrow> s = Suc clock \<and> clock' = Suc clock"
    by (rule nextSeqLocked_cases)
  have b: "c_bound c1 = c_bound c" by (simp add: c1_def)
  have "PutBody c clock key path body = (case nextSeqLocked c1 clock of (seq, c, clock) \<Rightarrow>
      map_option (\<lambda>c. (c, clock)) (evictLocked (touch key
        (c\<lparr>c_bodies := \<lparr>br_col = key, br_path = path, br_seq = seq\<rparr> # c_bodies c\<rparr>))))"
    using remove_body_absent [OF assms, of key path] ent_at_bodies [of c key path]
    by (auto simp: PutBody_def Let_def c1_def removeBody_def order_with_def ent_at_def
        split: option.splits intro!: arg_cong [where f = "\<lambda>c. nextSeqLocked c clock"] Cache.equality
        arg_cong [where f = "case_prod _"])
  also have "\<dots> = map_option (\<lambda>c. (c, clock')) (evictLocked (put_body c key path body s n))"
    unfolding s prod.case
    by (auto simp: put_body_def touch_def c1_def
        intro!: arg_cong [where f = evictLocked] arg_cong [where f = "map_option _"] Cache.equality)
  finally show ?thesis using le b by blast
qed

lemma put_body_inv:
  assumes "cache_inv c"
  shows "cache_inv (put_body c key path body seq lc)"
proof -
  let ?e = "ent_at c key\<lparr>ce_bodies := gm_put path body (ce_bodies (ent_at c key))\<rparr>"
  let ?c' = "put_body c key path body seq lc"
  have inv: "col_inv c" "body_inv c" using assms(1) by (simp_all add: cache_inv_def)
  have wf: "ce_key ?e = key" "gm_wf (ce_etags ?e)" "gm_wf (ce_bodies (ent_at c key))"
    using ent_at_wf [OF inv(1), of key] by simp_all
  have col: "col_inv ?c'"
    using col_inv_put [OF inv(1), of ?e key] wf by (simp add: put_body_def col_inv_def)
  have "stored (c\<lparr>c_collections := gm_put key ?e (c_collections c), c_order := ks,
      c_etagCount := n\<rparr>) = stored c \<union> {key} \<times> {path}" for ks n
    by (rule stored_put) (auto simp: ent_at_bodies)
  then have "stored ?c' = insert (key, path) (stored c)"
    by (simp add: put_body_def stored_def body_at_def)
  moreover have "c_bodies ?c' = \<lparr>br_col = key, br_path = path, br_seq = seq\<rparr> #
      remove_first (same_body key path) (c_bodies c)" by (simp add: put_body_def)
  ultimately have "distinct (map ref_id (c_bodies ?c')) \<and> ref_id ` set (c_bodies ?c') = stored ?c'"
    using inv(2) ref_ids_remove_body [of "c_bodies c" key path]
    by (simp add: body_inv_def distinct_remove_body set_remove_body)
      (auto simp: ref_id_def set_remove_body image_iff)
  moreover have "c_bodyBytes ?c' = gm_sum (\<lambda>e. bytes_of (ce_bodies e)) (c_collections ?c')"
    using inv(2) ent_at_sum [OF inv(1), of "\<lambda>e. bytes_of (ce_bodies e)" key ?e] wf(3)
    by (simp add: body_inv_def put_body_def new_entry_def bytes_of_put ent_at_bodies)
  ultimately have "body_inv ?c'" by (simp add: body_inv_def)
  then show ?thesis using assms(1) col by (simp add: cache_inv_def thumb_inv_def put_body_def)
qed

lemma PutBody_ok:
  assumes "cache_inv c"
  shows "\<exists>c' clock'. PutBody c clock key path body = Some (c', clock') \<and> cache_inv c' \<and>
    within_limits c'"
proof -
  obtain seq lc clock' where p: "PutBody c clock key path body =
     map_option (\<lambda>c. (c, clock')) (evictLocked (put_body c key path body seq lc))"
    using PutBody_eq assms unfolding cache_inv_def by blast
  obtain c' where "evictLocked (put_body c key path body seq lc) = Some c'" "cache_inv c'"
    "within_limits c'"
    using evictLocked_ok [OF put_body_inv [OF assms]] by blast
  then show ?thesis by (simp add: p)
qed

text \<open>Thumbnails: the state \<open>PutThumb\<close> hands to the eviction.\<close>

definition put_thumb :: "Cache \<Rightarrow> thumbKey \<Rightarrow> string \<Rightarrow> bytes \<Rightarrow> nat \<Rightarrow> nat \<Rightarrow> Cache" where
  "put_thumb c key media data seq lc =
     c\<lparr>c_localClock := lc,
       c_thumbs := gm_put key \<lparr>te_key = key, te_media = media, te_data = data, te_seq = seq\<rparr>
         (gm_del key (c_thumbs c)),
       c_thumbOrder := key # remove1 key (c_thumbOrder c),
       c_thumbBytes := c_thumbBytes c + int (length data) -
         (case gm_get (c_thumbs c) key of None \<Rightarrow> 0 | Some old \<Rightarrow> int (length (te_data old)))\<rparr>"

lemma PutThumb_eq:
  assumes "thumb_inv c" and "tk_ETag key \<noteq> []" and "data \<noteq> []"
  shows "\<exists>seq lc clock'. PutThumb c clock key media data =
       map_option (\<lambda>c. (c, clock')) (evictLocked (put_thumb c key media data seq lc)) \<and>
     clock \<le> clock'"
proof -
  define c1 where "c1 = c\<lparr>c_thumbs := gm_del key (c_thumbs c),
     c_thumbOrder := remove1 key (c_thumbOrder c),
     c_thumbBytes := c_thumbBytes c -
       (case gm_get (c_thumbs c) key of None \<Rightarrow> 0 | Some old \<Rightarrow> int (length (te_data old)))\<rparr>"
  obtain s n clock' where s: "nextSeqLocked c1 clock = (s, c1\<lparr>c_localClock := n\<rparr>, clock')"
    and le: "clock \<le> clock'"
    by (rule nextSeqLocked_cases)
  have absent: "gm_get (c_thumbs c) key = None \<Longrightarrow> c = c1"
    using assms(1) gm_get_dom [of "c_thumbs c" key]
    by (auto simp: c1_def gm_del_id thumb_inv_def remove1_idem intro!: Cache.equality)
  have present: "gm_get (c_thumbs c) key = Some ent \<Longrightarrow>
      removeThumbKey key (c\<lparr>c_thumbBytes := c_thumbBytes c - int (length (te_data ent)),
        c_thumbs := gm_del key (c_thumbs c)\<rparr>) = c1" for ent
    by (auto simp: removeThumbKey_def removeKey_list_eq c1_def intro!: Cache.equality)
  have "(case gm_get (c_thumbs c) key of None \<Rightarrow> c
     | Some ent \<Rightarrow> removeThumbKey key (c\<lparr>c_thumbBytes := c_thumbBytes c - int (length (te_data ent)),
        c_thumbs := gm_del key (c_thumbs c)\<rparr>)) = c1"
    using absent present by (simp split: option.split)
  then have "PutThumb c clock key media data = (case nextSeqLocked c1 clock of (seq, c, clock) \<Rightarrow>
      map_option (\<lambda>c. (c, clock)) (evictLocked
        (c\<lparr>c_thumbs := gm_put key \<lparr>te_key = key, te_media = media, te_data = data, te_seq = seq\<rparr> (c_thumbs c),
           c_thumbOrder := key # c_thumbOrder c,
           c_thumbBytes := c_thumbBytes c + int (length data)\<rparr>)))"
    using assms(2,3) unfolding PutThumb_def Let_def by simp
  also have "\<dots> = map_option (\<lambda>c. (c, clock')) (evictLocked (put_thumb c key media data s n))"
    unfolding s prod.case
    by (auto simp: put_thumb_def c1_def
        intro!: arg_cong [where f = evictLocked] arg_cong [where f = "map_option _"] Cache.equality)
  finally show ?thesis using le by blast
qed

lemma put_thumb_inv: "cache_inv c \<Longrightarrow> cache_inv (put_thumb c key media data seq lc)"
proof -
  assume c: "cache_inv c"
  let ?c' = "put_thumb c key media data seq lc"
  have w: "thumb_inv c" using c by (simp add: cache_inv_def)
  have "thumb_inv ?c'"
    using w by (auto simp: thumb_inv_def put_thumb_def gm_sum_put gm_sum_del split: option.splits)
  moreover have "col_inv ?c'" "body_inv ?c'"
    using c by (simp_all add: cache_inv_def put_thumb_def)
  ultimately show ?thesis using c by (simp add: cache_inv_def put_thumb_def)
qed

lemma PutThumb_ok:
  assumes "cache_inv c" and "within_limits c"
  shows "\<exists>c' clock'. PutThumb c clock key media data = Some (c', clock') \<and> cache_inv c' \<and>
    within_limits c'"
proof (cases "tk_ETag key = [] \<or> data = []")
  case True
  with assms show ?thesis by (simp add: PutThumb_def)
next
  case False
  then obtain seq lc clock' where p: "PutThumb c clock key media data =
     map_option (\<lambda>c. (c, clock')) (evictLocked (put_thumb c key media data seq lc))"
    using PutThumb_eq assms unfolding cache_inv_def by blast
  obtain c' where "evictLocked (put_thumb c key media data seq lc) = Some c'" "cache_inv c'"
    "within_limits c'"
    using evictLocked_ok [OF put_thumb_inv [OF assms(1)]] by blast
  then show ?thesis by (simp add: p)
qed

text \<open>Reads only reorder and restamp.\<close>

lemma touch_inv [inv_intros]: "cache_inv c \<Longrightarrow> cache_inv (touch key c)"
  by (simp add: cache_inv_def touch_def thumb_inv_def col_inv_def)

lemma touch_limits [simp]: "within_limits (touch key c) = within_limits c"
  by (simp add: within_limits_def touch_def)

lemma touchBody_inv:
  assumes "cache_inv c"
  shows "cache_inv (fst (touchBody k p c clock))"
proof (cases "find_first (same_body k p) (c_bodies c)")
  case None
  with assms show ?thesis by (simp add: touchBody_def)
next
  case (Some ref)
  then have ref: "ref_id ref = (k, p)" "ref \<in> set (c_bodies c)"
    by (auto dest: find_first_SomeD simp: same_body_iff)
  obtain s n clock' where s: "nextSeqLocked c clock = (s, c\<lparr>c_localClock := n\<rparr>, clock')"
    by (rule nextSeqLocked_cases)
  let ?c' = "c\<lparr>c_localClock := n,
    c_bodies := ref\<lparr>br_seq := s\<rparr> # remove_first (same_body k p) (c_bodies c)\<rparr>"
  have eq: "fst (touchBody k p c clock) = ?c'"
    using Some by (simp add: touchBody_def s)
  have id: "ref_id (ref\<lparr>br_seq := s\<rparr>) = (k, p)" using ref(1) by (simp add: ref_id_def)
  have b: "body_inv c" using assms by (simp add: cache_inv_def)
  have "insert (k, p) (ref_id ` set (c_bodies c)) = ref_id ` set (c_bodies c)"
    using ref by (metis imageI insert_absorb)
  then have "body_inv ?c'"
    using b id ref_ids_remove_body [of "c_bodies c" k p]
    by (auto simp: body_inv_def distinct_remove_body set_remove_body stored_def body_at_def)
  then show ?thesis
    using assms by (simp add: eq cache_inv_def col_inv_def thumb_inv_def)
qed

lemma touchBody_limits: "within_limits (fst (touchBody k p c clock)) = within_limits c"
  by (cases "nextSeqLocked c clock" rule: prod_cases3)
    (auto simp: touchBody_def within_limits_def nextSeqLocked_def split: option.splits if_splits)

lemma touchThumb_inv:
  assumes "cache_inv c"
  shows "cache_inv (fst (touchThumb k c clock)) \<and>
    within_limits (fst (touchThumb k c clock)) = within_limits c"
proof (cases "k \<in> set (c_thumbOrder c)")
  case False
  with assms show ?thesis by (simp add: touchThumb_def)
next
  case True
  have w: "thumb_inv c" using assms by (simp add: cache_inv_def)
  obtain e where e: "gm_get (c_thumbs c) k = Some e"
    using True w gm_get_dom [of "c_thumbs c" k] by (auto simp: thumb_inv_def)
  let ?c1 = "c\<lparr>c_thumbOrder := touch_list k (c_thumbOrder c)\<rparr>"
  obtain s n clock' where s: "nextSeqLocked ?c1 clock = (s, ?c1\<lparr>c_localClock := n\<rparr>, clock')"
    by (rule nextSeqLocked_cases)
  have eq: "fst (touchThumb k c clock) = c\<lparr>c_thumbOrder := touch_list k (c_thumbOrder c),
      c_localClock := n, c_thumbs := gm_put k (e\<lparr>te_seq := s\<rparr>) (c_thumbs c)\<rparr>"
    using True e by (simp add: touchThumb_def Let_def s)
  show ?thesis
    using assms e w True unfolding eq
    by (auto simp: cache_inv_def thumb_inv_def gm_sum_put within_limits_def length_gm_put
        col_inv_def body_inv_def stored_def body_at_def)
qed

subsection \<open>Sessions of operations\<close>

datatype cache_op =
    OpSetETags time collectionKey string "(string, string) gomap"
  | OpPutBody collectionKey string bytes
  | OpPutThumb thumbKey string bytes
  | OpGetETags collectionKey
  | OpGetBody collectionKey string
  | OpGetThumb thumbKey
  | OpInvalidate collectionKey
  | OpWipe

fun op_wf :: "cache_op \<Rightarrow> bool" where
  "op_wf (OpSetETags _ _ _ etags) \<longleftrightarrow> gm_wf etags"
| "op_wf _ \<longleftrightarrow> True"

fun cache_do :: "Cache \<times> nat \<Rightarrow> cache_op \<Rightarrow> (Cache \<times> nat) option" where
  "cache_do (c, clock) (OpSetETags now key ctag etags) =
     map_option (\<lambda>c. (c, clock)) (SetETags c now key ctag etags)"
| "cache_do (c, clock) (OpPutBody key path body) = PutBody c clock key path body"
| "cache_do (c, clock) (OpPutThumb key media data) = PutThumb c clock key media data"
| "cache_do (c, clock) (OpGetETags key) = Some (fst (GetETags c key), clock)"
| "cache_do (c, clock) (OpGetBody key path) = Some (fst (GetBody c clock key path))"
| "cache_do (c, clock) (OpGetThumb key) = Some (fst (GetThumb c clock key))"
| "cache_do (c, clock) (OpInvalidate key) = Some (InvalidateCollection key c, clock)"
| "cache_do (c, clock) OpWipe = Some (Wipe c, clock)"

fun cache_run :: "Cache \<times> nat \<Rightarrow> cache_op list \<Rightarrow> (Cache \<times> nat) option" where
  "cache_run s [] = Some s"
| "cache_run s (p # ps) = Option.bind (cache_do s p) (\<lambda>s. cache_run s ps)"

lemma dropCollection_limits:
  assumes "cache_inv c" and "within_limits c"
  shows "within_limits (dropCollectionLocked k c)"
proof (cases "gm_get (c_collections c) k")
  case None
  with assms show ?thesis by (simp add: dropCollectionLocked_def)
next
  case (Some e)
  with assms(2) length_gm_del_le [of k "c_collections c"] bytes_of_nonneg [of "ce_bodies e"]
  show ?thesis unfolding dropCollection_step [OF Some]
    by (simp add: within_limits_def)
qed

lemma Wipe_limits: "cache_inv c \<Longrightarrow> within_limits (Wipe c)"
  by (simp add: within_limits_def Wipe_def cache_inv_def cfg_ok_def)

lemma GetBody_ok:
  assumes "cache_inv c"
  shows "cache_inv (fst (fst (GetBody c clock key path))) \<and>
    within_limits (fst (fst (GetBody c clock key path))) = within_limits c"
  using touchBody_inv [OF assms, of key path clock] touchBody_limits [of key path c clock] assms
  by (auto simp: GetBody_def touch_inv split: option.splits prod.splits)

lemma GetThumb_ok:
  assumes "cache_inv c"
  shows "cache_inv (fst (fst (GetThumb c clock key))) \<and>
    within_limits (fst (fst (GetThumb c clock key))) = within_limits c"
  using touchThumb_inv [OF assms, of key clock] assms
  by (auto simp: GetThumb_def split: option.splits prod.splits)

lemma GetETags_ok:
  "cache_inv c \<Longrightarrow> cache_inv (fst (GetETags c key)) \<and>
    within_limits (fst (GetETags c key)) = within_limits c"
  by (auto simp: GetETags_def touch_inv split: option.splits)

lemma cache_do_ok:
  assumes "cache_inv c" and "within_limits c" and "op_wf p"
  shows "\<exists>c' clock'. cache_do (c, clock) p = Some (c', clock') \<and> cache_inv c' \<and> within_limits c'"
proof (cases p)
  case (OpSetETags now key ctag etags)
  with assms(3) SetETags_ok [OF assms(1), of etags now key ctag] show ?thesis by auto
next
  case (OpPutBody key path body)
  then show ?thesis using PutBody_ok [OF assms(1)] by simp
next
  case (OpPutThumb key media data)
  then show ?thesis using PutThumb_ok [OF assms(1,2)] by simp
next
  case (OpGetETags key)
  then show ?thesis using GetETags_ok [OF assms(1)] assms(2) by simp
next
  case (OpGetBody key path)
  then show ?thesis using GetBody_ok [OF assms(1), of clock key path] assms(2)
    by (cases "fst (GetBody c clock key path)") simp
next
  case (OpGetThumb key)
  then show ?thesis using GetThumb_ok [OF assms(1), of clock key] assms(2)
    by (cases "fst (GetThumb c clock key)") simp
next
  case (OpInvalidate key)
  then show ?thesis
    using dropCollection_inv [OF assms(1)] dropCollection_limits [OF assms(1,2)]
    by (simp add: InvalidateCollection_def)
next
  case OpWipe
  then show ?thesis using Wipe_inv [OF assms(1)] Wipe_limits [OF assms(1)] by simp
qed

lemma cache_run_from:
  assumes "\<forall>p \<in> set ps. op_wf p" and "cache_inv c" and "within_limits c"
  shows "\<exists>c' clock'. cache_run (c, clock) ps = Some (c', clock') \<and> cache_inv c' \<and> within_limits c'"
  using assms
proof (induction ps arbitrary: c clock)
  case (Cons p ps)
  then have p: "op_wf p" by simp
  obtain c1 clock1 where 1: "cache_do (c, clock) p = Some (c1, clock1)" "cache_inv c1" "within_limits c1"
    using cache_do_ok [OF Cons.prems(2,3) p] by blast
  then show ?case using Cons.IH [OF _ 1(2,3)] Cons.prems(1) by simp
qed simp

lemma NewCache_limits: "within_limits (NewCache cfg)"
  using withDefaults_ok [of cfg] by (simp add: within_limits_def NewCache_def cfg_ok_def)

text \<open>
  C35. Whatever sequence of reads, writes and invalidations a session's cache has been through,
  every operation returned (no eviction loop hangs) and the cache holds no more body bytes,
  thumbnail bytes, thumbnails, collections and ETags than its configuration allows; its counters
  are exactly the contents.
\<close>

theorem cache_stays_within_limits:
  assumes "\<forall>p \<in> set ps. op_wf p"
  shows "\<exists>c clock. cache_run (NewCache cfg, 0) ps = Some (c, clock) \<and> cache_inv c \<and>
    c_bodyBytes c \<le> MaxBodyBytes (c_cfg c) \<and> c_thumbBytes c \<le> MaxThumbBytes (c_cfg c) \<and>
    int (length (c_thumbs c)) \<le> MaxThumbEntries (c_cfg c) \<and>
    int (length (c_collections c)) \<le> MaxCollections (c_cfg c) \<and>
    c_etagCount c \<le> MaxETagEntries (c_cfg c)"
proof -
  have "cache_inv (NewCache cfg)" and "within_limits (NewCache cfg)"
    by (rule NewCache_inv, rule NewCache_limits)
  from cache_run_from [OF assms this, of 0] show ?thesis by (simp add: within_limits_def)
qed

definition small_cfg :: CacheConfig where
  "small_cfg = \<lparr>CollectionTTL = 0, MaxCollections = 1, MaxETagEntries = 2, MaxBodyBytes = 5,
     MaxProcessBytes = 8, MaxThumbBytes = 3, MaxThumbEntries = 1\<rparr>"

theorem cache_stays_within_limits_witness:
  "\<exists>c clock. cache_run (NewCache small_cfg, 0)
     [OpPutBody \<lparr>ck_AccountID = ''a'', ck_Path = ''/c/''\<rparr> ''1.ics'' ''four'',
      OpPutBody \<lparr>ck_AccountID = ''a'', ck_Path = ''/c/''\<rparr> ''2.ics'' ''four'',
      OpSetETags 7 \<lparr>ck_AccountID = ''a'', ck_Path = ''/d/''\<rparr> ''t'' [(''1.ics'', ''e'')]] = Some (c, clock)
     \<and> c_bodyBytes c \<le> MaxBodyBytes (c_cfg c)"
proof -
  let ?ps = "[OpPutBody \<lparr>ck_AccountID = ''a'', ck_Path = ''/c/''\<rparr> ''1.ics'' ''four'',
      OpPutBody \<lparr>ck_AccountID = ''a'', ck_Path = ''/c/''\<rparr> ''2.ics'' ''four'',
      OpSetETags 7 \<lparr>ck_AccountID = ''a'', ck_Path = ''/d/''\<rparr> ''t'' [(''1.ics'', ''e'')]]"
  have "\<forall>p \<in> set ?ps. op_wf p" by (simp add: gm_wf_def)
  from cache_stays_within_limits [OF this, of small_cfg] show ?thesis by blast
qed

subsection \<open>What a read returns after a write\<close>

text \<open>The state of the cache while the eviction may not touch the body just stored.\<close>

definition holds_body :: "bodyRef \<Rightarrow> bytes \<Rightarrow> Cache \<Rightarrow> bool" where
  "holds_body r b c \<longleftrightarrow> (\<exists>rs. c_bodies c = r # rs) \<and> (\<exists>ks. c_order c = br_col r # ks) \<and>
     body_at c (br_col r) (br_path r) = Some b \<and> int (length b) \<le> MaxBodyBytes (c_cfg c)"

lemma holds_body_evict_body:
  assumes "cache_inv c" and "c_bodyBytes c > MaxBodyBytes (c_cfg c)" and h: "holds_body r b c"
  shows "holds_body r b (evictOldestBody c)"
proof -
  have inv: "col_inv c" "body_inv c" using assms(1) by (simp_all add: cache_inv_def)
  obtain rs where rs: "c_bodies c = r # rs" using h by (auto simp: holds_body_def)
  obtain qs q where q: "c_bodies c = qs @ [q]" using rs by (metis rev_exhaust list.distinct(1))
  obtain e b' where e: "gm_get (c_collections c) (br_col q) = Some e"
    and b': "gm_get (ce_bodies e) (br_path q) = Some b'"
    and c': "evictOldestBody c = c\<lparr>c_bodies := qs, c_bodyBytes := c_bodyBytes c - int (length b'),
           c_collections := gm_put (br_col q)
             (e\<lparr>ce_bodies := gm_del (br_path q) (ce_bodies e)\<rparr>) (c_collections c)\<rparr>"
    by (rule evictOldestBody_step [OF inv(2) q])
  have "qs \<noteq> []"
  proof
    assume "qs = []"
    then have qr: "q = r" "c_bodies (evictOldestBody c) = []" using q rs by (simp_all add: c')
    then have "c_bodyBytes (evictOldestBody c) = 0"
      using no_refs_no_bytes evictOldestBody_inv [OF assms(1)] unfolding cache_inv_def by blast
    moreover have "b' = b" using h e b' qr(1) by (simp add: holds_body_def body_at_def)
    ultimately show False using h assms(2) by (simp add: c' holds_body_def)
  qed
  then obtain rs' where rs': "qs = r # rs'" using q rs by (metis Cons_eq_append_conv)
  have "ref_id q \<notin> ref_id ` set qs" using inv(2) q by (auto simp: body_inv_def)
  then have "ref_id r \<noteq> ref_id q" using rs' by auto
  with h e rs' show ?thesis
    by (auto simp: holds_body_def c' body_at_def ref_id_def split: if_splits)
qed

text \<open>With two collections or more, the one in front of the recency list is not the victim.\<close>

lemma evict_collection_hd:
  assumes "col_inv c" and "c_order c = key # ks" and "1 < length (c_collections c)"
  obtains l e where "l \<noteq> key" and "gm_get (c_collections c) l = Some e" and "last (c_order c) = l"
    and "evictOldestCollection c = dropCollectionLocked l c"
proof -
  have ne: "ks \<noteq> []" using assms length_order [OF assms(1)] by auto
  obtain l where l: "last (c_order c) = l" by simp
  have "key \<notin> set ks" using assms(1,2) by (auto simp: col_inv_def)
  then have k: "l \<noteq> key" using assms(2) ne l by (metis last_ConsR last_in_set)
  have "l \<in> fst ` set (c_collections c)"
    using assms(1,2) last_in_set [of "c_order c"] l by (auto simp: col_inv_def)
  then obtain e where "gm_get (c_collections c) l = Some e"
    using gm_get_dom [of "c_collections c" l] by auto
  moreover have "evictOldestCollection c = dropCollectionLocked l c"
    using assms(2) l by (simp add: evictOldestCollection_def)
  ultimately show ?thesis using that k l by blast
qed

lemma holds_body_evict_collection:
  assumes "cache_inv c" and "int (length (c_collections c)) > MaxCollections (c_cfg c)"
    and h: "holds_body r b c"
  shows "holds_body r b (evictOldestCollection c)"
proof -
  have inv: "col_inv c" using assms(1) by (simp add: cache_inv_def)
  obtain ks where ks: "c_order c = br_col r # ks" using h by (auto simp: holds_body_def)
  have two: "1 < length (c_collections c)"
    using assms(1,2) by (auto simp: cache_inv_def cfg_ok_def)
  obtain l e where l: "l \<noteq> br_col r" "gm_get (c_collections c) l = Some e"
    "evictOldestCollection c = dropCollectionLocked l c"
    by (rule evict_collection_hd [OF inv ks two])
  then show ?thesis
    using h ks by (auto simp: holds_body_def dropCollection_step [OF l(2)] body_at_def)
qed

lemma holds_body_evictLocked:
  assumes "cache_inv c" and "c_etagCount c \<le> MaxETagEntries (c_cfg c)" and "holds_body r b c"
    and "evictLocked c = Some c'"
  shows "holds_body r b c'"
proof -
  let ?Q = "\<lambda>s. holds_body r b s \<and> c_etagCount s = c_etagCount c \<and> c_cfg s = c_cfg c"
  obtain c1 where 1: "evict_bodies c = Some c1" "cache_inv c1" "?Q c1"
    using bodies.drains_with [OF assms(1), where Q = ?Q] assms(3) holds_body_evict_body by auto
  have Q: "holds_body r b s = holds_body r b s'"
    if "c_bodies s = c_bodies s'" "c_collections s = c_collections s'" "c_order s = c_order s'"
      "c_cfg s = c_cfg s'" for s s'
    using that by (simp add: holds_body_def body_at_def)
  obtain c2 where 2: "evictThumbs c1 = Some c2" "cache_inv c2" "?Q c2"
  proof -
    obtain s where s: "evictThumbs c1 = Some s" "cache_inv s" "same_frame c1 s"
      "c_bodies s = c_bodies c1" "c_collections s = c_collections c1" "c_order s = c_order c1"
      "c_etagCount s = c_etagCount c1"
      using evictThumbs_ok [OF 1(2)] by blast
    moreover from s have "holds_body r b s" using 1(3) Q [of c1 s] by (simp add: same_frame_def)
    ultimately show ?thesis using that 1(3) by (simp add: same_frame_def)
  qed
  let ?R = "\<lambda>s. holds_body r b s \<and> c_etagCount s \<le> MaxETagEntries (c_cfg s)"
  have drop: "c_etagCount (evictOldestCollection s) \<le> c_etagCount s" for s
    by (auto simp: evictOldestCollection_def dropCollectionLocked_def removeKey_def split: option.splits)
  obtain c3 where 3: "evict_collections c2 = Some c3" "cache_inv c3" "?R c3"
    using cols.drains_with [OF 2(2), where Q = ?R] 2(3) assms(2) holds_body_evict_collection
      order_trans [OF drop] by auto
  have "evict_etags c3 = Some c3" using 3(3) by (intro etags.idle) simp
  then show ?thesis using assms(4) 1(1) 2(1) 3(1,3) by (simp add: evictLocked_def)
qed

text \<open>
  A body that fits the session's ceiling is what the cache returns for its path right after it
  was stored, whatever had to be evicted to make room for it.
\<close>

theorem PutBody_then_GetBody:
  assumes "cache_inv c" and "within_limits c"
    and "int (length body) \<le> MaxBodyBytes (c_cfg c)"
    and "PutBody c clock key path body = Some (c', clock')"
  shows "snd (GetBody c' clock'' key path) = Some body"
proof -
  obtain seq lc k where p: "PutBody c clock key path body =
     map_option (\<lambda>c. (c, k)) (evictLocked (put_body c key path body seq lc))"
    using PutBody_eq assms(1) unfolding cache_inv_def by blast
  then have ev: "evictLocked (put_body c key path body seq lc) = Some c'"
    using assms(4) by (auto simp: map_option_case split: option.splits)
  let ?r = "\<lparr>br_col = key, br_path = path, br_seq = seq\<rparr>"
  have "col_inv c" using assms(1) by (simp add: cache_inv_def)
  then have "key \<in> set (order_with c key)" using order_with_ok [of c key] by simp
  then have "holds_body ?r body (put_body c key path body seq lc)"
    using assms(3) by (simp add: holds_body_def put_body_def body_at_def touch_list_eq)
  moreover have "c_etagCount (put_body c key path body seq lc)
      \<le> MaxETagEntries (c_cfg (put_body c key path body seq lc))"
    using assms(2) by (simp add: put_body_def within_limits_def)
  ultimately have "holds_body ?r body c'"
    using holds_body_evictLocked [OF put_body_inv [OF assms(1)] _ _ ev] by blast
  then show ?thesis
    by (auto simp: holds_body_def body_at_def GetBody_def bind_eq_Some_conv split: prod.splits)
qed

theorem PutBody_then_GetBody_witness:
  "\<exists>c' clock'. PutBody (NewCache small_cfg) 0 \<lparr>ck_AccountID = ''a'', ck_Path = ''/c/''\<rparr> ''1.ics'' ''four''
     = Some (c', clock') \<and>
   snd (GetBody c' clock' \<lparr>ck_AccountID = ''a'', ck_Path = ''/c/''\<rparr> ''1.ics'') = Some ''four''"
proof -
  let ?k = "\<lparr>ck_AccountID = ''a'', ck_Path = ''/c/''\<rparr>"
  have i: "cache_inv (NewCache small_cfg)" by (rule NewCache_inv)
  obtain c' clock' where p: "PutBody (NewCache small_cfg) 0 ?k ''1.ics'' ''four'' = Some (c', clock')"
    using PutBody_ok [OF i] by blast
  have "int (length ''four'') \<le> MaxBodyBytes (c_cfg (NewCache small_cfg))"
    by (simp add: NewCache_def cc_withDefaults_def small_cfg_def Let_def)
  from PutBody_then_GetBody [OF i NewCache_limits this p] p show ?thesis by blast
qed

text \<open>The same for a thumbnail: nothing but older thumbnails go to make room for it.\<close>

definition holds_thumb :: "thumbKey \<Rightarrow> thumbEntry \<Rightarrow> Cache \<Rightarrow> bool" where
  "holds_thumb k e c \<longleftrightarrow> (\<exists>ks. c_thumbOrder c = k # ks) \<and> gm_get (c_thumbs c) k = Some e \<and>
     int (length (te_data e)) \<le> MaxThumbBytes (c_cfg c)"

text \<open>No thumbnail of \<open>c'\<close> is one that \<open>c\<close> did not hold.\<close>

definition fewer_thumbs :: "Cache \<Rightarrow> Cache \<Rightarrow> bool" where
  "fewer_thumbs c c' \<longleftrightarrow> (\<forall>k. gm_get (c_thumbs c') k = None \<or> gm_get (c_thumbs c') k = gm_get (c_thumbs c) k)"

lemma thumb_evict_hd:
  assumes "thumb_inv c" and "cfg_ok (c_cfg c)" and "over_thumbs c" and h: "holds_thumb k e c"
  shows "holds_thumb k e (evictOldestThumb c)"
proof -
  obtain ks where ks: "c_thumbOrder c = k # ks" using h by (auto simp: holds_thumb_def)
  have ne: "ks \<noteq> []"
  proof
    assume "ks = []"
    then have one: "c_thumbOrder c = [] @ [k]" using ks by simp
    obtain e' where "gm_get (c_thumbs c) k = Some e'"
      and c': "evictOldestThumb c = c\<lparr>c_thumbBytes := c_thumbBytes c - int (length (te_data e')),
           c_thumbs := gm_del k (c_thumbs c), c_thumbOrder := []\<rparr>"
      by (rule evictOldestThumb_step [OF assms(1) one])
    with h have e': "e' = e" by (simp add: holds_thumb_def)
    have "thumb_inv (evictOldestThumb c)" using evictOldestThumb_thumb_inv [OF assms(1)] .
    moreover from this have "gm_del k (c_thumbs c) = []"
      by (simp add: c' thumb_inv_def del: fst_set_gm_del)
    ultimately have "c_thumbBytes c = int (length (te_data e))" by (simp add: c' e' thumb_inv_def)
    moreover have "length (c_thumbs c) = 1" using length_thumbOrder [OF assms(1)] one by simp
    ultimately show False using assms(2,3) h by (simp add: over_thumbs_def cfg_ok_def holds_thumb_def)
  qed
  then obtain qs q where q: "ks = qs @ [q]" by (metis rev_exhaust)
  have "k \<noteq> q" using assms(1) ks q by (auto simp: thumb_inv_def)
  have kq: "c_thumbOrder c = (k # qs) @ [q]" using ks q by simp
  obtain e' where "gm_get (c_thumbs c) q = Some e'"
    and c': "evictOldestThumb c = c\<lparr>c_thumbBytes := c_thumbBytes c - int (length (te_data e')),
           c_thumbs := gm_del q (c_thumbs c), c_thumbOrder := k # qs\<rparr>"
    by (rule evictOldestThumb_step [OF assms(1) kq])
  with h \<open>k \<noteq> q\<close> show ?thesis by (simp add: holds_thumb_def)
qed

lemma thumb_evict_fewer: "fewer_thumbs c s \<Longrightarrow> fewer_thumbs c (evictOldestThumb s)"
  by (auto simp: fewer_thumbs_def evictOldestThumb_def Let_def split: option.splits)

lemma holds_thumb_evictLocked:
  assumes "cache_inv c" and "holds_thumb k e c" and "evictLocked c = Some c'"
  shows "holds_thumb k e c' \<and> fewer_thumbs c c'"
proof -
  let ?Q = "\<lambda>s. holds_thumb k e s \<and> fewer_thumbs c s"
  have cong: "?Q s" if "?Q s'" "c_thumbs s = c_thumbs s'" "c_thumbOrder s = c_thumbOrder s'"
    "c_cfg s = c_cfg s'" for s s'
    using that by (simp add: holds_thumb_def fewer_thumbs_def)
  have "?Q c" using assms(2) by (simp add: fewer_thumbs_def)
  then obtain c1 where 1: "evict_bodies c = Some c1" "cache_inv c1" "?Q c1"
    using bodies.drains_with [OF assms(1), where Q = ?Q] cong [where s = "evictOldestBody s" for s]
    by auto
  have step: "?Q (evictOldestThumb s)" if "cache_inv s" "over_thumbs s" "?Q s" for s
    using that thumb_evict_hd thumb_evict_fewer by (simp add: cache_inv_def)
  obtain c2 where 2: "evictThumbs c1 = Some c2" "cache_inv c2" "?Q c2"
    using thumbs.drains_with [OF 1(2), where Q = ?Q] 1(3) step by blast
  obtain c3 where 3: "evict_collections c2 = Some c3" "cache_inv c3" "?Q c3"
    using cols.drains_with [OF 2(2), where Q = ?Q] 2(3) cong [where s = "evictOldestCollection s" for s]
    by auto
  obtain c4 where 4: "evict_etags c3 = Some c4" "?Q c4"
    using etags.drains_with [OF 3(2), where Q = ?Q] 3(3) cong [where s = "evictOldestCollection s" for s]
    by auto
  show ?thesis using assms(3) 1(1) 2(1) 3(1) 4 by (simp add: evictLocked_def)
qed

text \<open>
  A thumbnail that fits the ceiling is served for the path and ETag it was stored under; under
  any other key, in particular for the same path with another ETag, storing it adds nothing: what
  was a miss before stays a miss.
\<close>

theorem PutThumb_then_GetThumb:
  assumes "cache_inv c" and "tk_ETag key \<noteq> []" and "data \<noteq> []"
    and "int (length data) \<le> MaxThumbBytes (c_cfg c)"
    and "PutThumb c clock key media data = Some (c', clock')"
  shows "snd (GetThumb c' clock'' key) = Some (media, data) \<and>
    (\<forall>k. k \<noteq> key \<longrightarrow> snd (GetThumb c' clock'' k) \<in> {None, snd (GetThumb c clock'' k)})"
proof -
  obtain seq lc k where p: "PutThumb c clock key media data =
     map_option (\<lambda>c. (c, k)) (evictLocked (put_thumb c key media data seq lc))"
    using PutThumb_eq assms(1-3) unfolding cache_inv_def by blast
  then have ev: "evictLocked (put_thumb c key media data seq lc) = Some c'"
    using assms(5) by (auto simp: map_option_case split: option.splits)
  let ?e = "\<lparr>te_key = key, te_media = media, te_data = data, te_seq = seq\<rparr>"
  have "holds_thumb key ?e (put_thumb c key media data seq lc)"
    using assms(4) by (simp add: holds_thumb_def put_thumb_def)
  then have h: "holds_thumb key ?e c'" "fewer_thumbs (put_thumb c key media data seq lc) c'"
    using holds_thumb_evictLocked [OF put_thumb_inv [OF assms(1)] _ ev] by blast+
  have "snd (GetThumb c' clock'' key) = Some (media, data)"
    using h(1) assms(2) by (simp add: GetThumb_def holds_thumb_def)
  moreover have "snd (GetThumb c' clock'' k) \<in> {None, snd (GetThumb c clock'' k)}"
    if "k \<noteq> key" for k
  proof -
    have "gm_get (c_thumbs c') k = None \<or> gm_get (c_thumbs c') k = gm_get (c_thumbs c) k"
      using h(2) that by (auto simp: fewer_thumbs_def put_thumb_def dest: spec [of _ k])
    then show ?thesis by (auto simp: GetThumb_def split: option.splits)
  qed
  ultimately show ?thesis by blast
qed

theorem PutThumb_then_GetThumb_witness:
  "\<exists>c' clock'. PutThumb (NewCache small_cfg) 0
      \<lparr>tk_AccountID = ''a'', tk_Path = ''/c/1.vcf'', tk_ETag = ''e1''\<rparr> ''image/png'' ''abc'' = Some (c', clock') \<and>
    snd (GetThumb c' 0 \<lparr>tk_AccountID = ''a'', tk_Path = ''/c/1.vcf'', tk_ETag = ''e2''\<rparr>) = None"
proof -
  let ?k = "\<lambda>e. \<lparr>tk_AccountID = ''a'', tk_Path = ''/c/1.vcf'', tk_ETag = e\<rparr>"
  have i: "cache_inv (NewCache small_cfg)" by (rule NewCache_inv)
  obtain c' clock' where p: "PutThumb (NewCache small_cfg) 0 (?k ''e1'') ''image/png'' ''abc'' = Some (c', clock')"
    using PutThumb_ok [OF i NewCache_limits] by blast
  have m: "int (length ''abc'') \<le> MaxThumbBytes (c_cfg (NewCache small_cfg))"
    by (simp add: NewCache_def cc_withDefaults_def small_cfg_def Let_def)
  have "snd (GetThumb c' 0 (?k ''e2'')) \<in> {None, snd (GetThumb (NewCache small_cfg) 0 (?k ''e2''))}"
    using PutThumb_then_GetThumb [OF i _ _ m p, of 0] by auto
  then have "snd (GetThumb c' 0 (?k ''e2'')) = None"
    by (simp add: GetThumb_def NewCache_def)
  with p show ?thesis by blast
qed

text \<open>And for the ETags of a collection.\<close>

definition holds_tags :: "collectionKey \<Rightarrow> string \<times> time \<times> (string, string) gomap \<Rightarrow> Cache \<Rightarrow> bool" where
  "holds_tags key x c \<longleftrightarrow> (\<exists>ks. c_order c = key # ks) \<and>
     map_option (\<lambda>e. (ce_ctag e, ce_fetchedAt e, ce_etags e)) (gm_get (c_collections c) key) = Some x \<and>
     int (length (snd (snd x))) \<le> MaxETagEntries (c_cfg c)"

lemma holds_tags_evict_body: "holds_tags key x c \<Longrightarrow> holds_tags key x (evictOldestBody c)"
  by (simp add: holds_tags_def evictOldestBody_collections)

lemma holds_tags_evict_collection:
  assumes "cache_inv c" and "1 < length (c_collections c)" and h: "holds_tags key x c"
  shows "holds_tags key x (evictOldestCollection c)"
proof -
  have inv: "col_inv c" using assms(1) by (simp add: cache_inv_def)
  obtain ks where ks: "c_order c = key # ks" using h by (auto simp: holds_tags_def)
  obtain l e where l: "l \<noteq> key" "gm_get (c_collections c) l = Some e"
    "evictOldestCollection c = dropCollectionLocked l c"
    by (rule evict_collection_hd [OF inv ks assms(2)])
  then show ?thesis
    using h ks by (auto simp: holds_tags_def dropCollection_step [OF l(2)])
qed

lemma over_etags_two_collections:
  assumes "cache_inv c" and "c_etagCount c > MaxETagEntries (c_cfg c)" and h: "holds_tags key x c"
  shows "1 < length (c_collections c)"
proof (rule ccontr)
  assume "\<not> 1 < length (c_collections c)"
  moreover obtain e where e: "gm_get (c_collections c) key = Some e"
    "int (length (ce_etags e)) \<le> MaxETagEntries (c_cfg c)"
    using h by (auto simp: holds_tags_def)
  ultimately have "c_collections c = [(key, e)]"
    by (cases "c_collections c") (auto split: if_splits)
  with assms(1,2) e show False by (simp add: cache_inv_def col_inv_def)
qed

lemma holds_tags_evictLocked:
  assumes "cache_inv c" and "holds_tags key x c" and "evictLocked c = Some c'"
  shows "holds_tags key x c'"
proof -
  let ?Q = "holds_tags key x"
  obtain c1 where 1: "evict_bodies c = Some c1" "cache_inv c1" "?Q c1"
    using bodies.drains_with [OF assms(1), where Q = ?Q] assms(2) holds_tags_evict_body by blast
  obtain c2 where 2: "evictThumbs c1 = Some c2" "cache_inv c2" "?Q c2"
    using thumbs.drains_with [OF 1(2), where Q = ?Q] 1(3) by (auto simp: holds_tags_def)
  have two: "1 < length (c_collections s)"
    if "cache_inv s" "int (length (c_collections s)) > MaxCollections (c_cfg s)" for s
    using that by (auto simp: cache_inv_def cfg_ok_def)
  obtain c3 where 3: "evict_collections c2 = Some c3" "cache_inv c3" "?Q c3"
    using cols.drains_with [OF 2(2), where Q = ?Q] 2(3) holds_tags_evict_collection two by blast
  obtain c4 where 4: "evict_etags c3 = Some c4" "?Q c4"
    using etags.drains_with [OF 3(2), where Q = ?Q] 3(3) holds_tags_evict_collection
      over_etags_two_collections by blast
  show ?thesis using assms(3) 1(1) 2(1) 3(1) 4 by (simp add: evictLocked_def)
qed

text \<open>
  After a collection's ETags were read at \<open>now\<close> with the tag \<open>ctag\<close>, the cache returns that
  map and asks for a fresh read exactly when the time to live has passed or the server reports
  another tag; a map larger than the ETag ceiling is the only one that is not kept.
\<close>

theorem SetETags_then_read:
  assumes "cache_inv c" and "gm_wf etags" and "int (length etags) \<le> MaxETagEntries (c_cfg c)"
    and "SetETags c now key ctag etags = Some c'" and "CollectionTTL (c_cfg c) \<le> int64_max"
  shows "snd (GetETags c' key) = Some etags \<and> Cache_CTag c' key = Some ctag \<and>
    (NeedsRefresh c' t key tag \<longleftrightarrow>
       CollectionTTL (c_cfg c) \<le> t - now \<or> tag \<noteq> [] \<and> tag \<noteq> ctag)"
proof -
  let ?c1 = "c\<lparr>c_collections := gm_put key (ent_at c key\<lparr>ce_ctag := ctag, ce_fetchedAt := now, ce_etags := etags\<rparr>)
          (c_collections c),
        c_order := touch_list key (order_with c key),
        c_etagCount := c_etagCount c + int (length etags) - int (length (ce_etags (ent_at c key)))\<rparr>"
  have ev: "evictLocked ?c1 = Some c'" using assms(4) by (simp add: SetETags_eq)
  have pre: "cache_inv ?c1" by (rule SetETags_pre [OF assms(1,2)])
  have "col_inv c" using assms(1) by (simp add: cache_inv_def)
  then have "key \<in> set (order_with c key)" using order_with_ok [of c key] by simp
  then have "holds_tags key (ctag, now, etags) ?c1"
    using assms(3) by (simp add: holds_tags_def touch_list_eq)
  then have h: "holds_tags key (ctag, now, etags) c'"
    by (rule holds_tags_evictLocked [OF pre _ ev])
  have cfg: "c_cfg c' = c_cfg c"
    using evictLocked_ok [OF pre] ev by (simp add: same_frame_def)
  have "int64_min < CollectionTTL (c_cfg c)"
    using assms(1) by (simp add: cache_inv_def cfg_ok_def int64_min_def)
  with h cfg show ?thesis
    using assms(5) by (auto simp: holds_tags_def GetETags_def Cache_CTag_def NeedsRefresh_def time_sub_ge)
qed

theorem SetETags_then_read_witness:
  "\<exists>c'. SetETags (NewCache small_cfg) 7 \<lparr>ck_AccountID = ''a'', ck_Path = ''/d/''\<rparr> ''t'' [(''1.ics'', ''e'')] = Some c' \<and>
    snd (GetETags c' \<lparr>ck_AccountID = ''a'', ck_Path = ''/d/''\<rparr>) = Some [(''1.ics'', ''e'')] \<and>
    \<not> NeedsRefresh c' 8 \<lparr>ck_AccountID = ''a'', ck_Path = ''/d/''\<rparr> ''t''"
proof -
  let ?k = "\<lparr>ck_AccountID = ''a'', ck_Path = ''/d/''\<rparr>"
  let ?m = "[(''1.ics'', ''e'')]"
  have i: "cache_inv (NewCache small_cfg)" by (rule NewCache_inv)
  have w: "gm_wf ?m" by (simp add: gm_wf_def)
  obtain c' where s: "SetETags (NewCache small_cfg) 7 ?k ''t'' ?m = Some c'"
    using SetETags_ok [OF i w] by blast
  have m: "int (length ?m) \<le> MaxETagEntries (c_cfg (NewCache small_cfg))"
    and ttl: "CollectionTTL (c_cfg (NewCache small_cfg)) = 60000000000"
    by (simp_all add: NewCache_def cc_withDefaults_def small_cfg_def Let_def second_def)
  have le: "CollectionTTL (c_cfg (NewCache small_cfg)) \<le> int64_max" by (simp add: ttl int64_max_def)
  show ?thesis
    using SetETags_then_read [OF i w m s le, of 8 "''t''"] s by (auto simp: ttl)
qed

end
