(* ===== verification/SessionBudget.thy ===== *)
theory SessionBudget
  imports SessionCache
begin

text \<open>
  \<open>internal/session/budget.go\<close>: the process-wide ceiling on cached bytes. The code keeps a map
  from cache pointers to the bytes each accounts for; here the caches of a process live in a heap
  \<open>p_caches\<close> from pointers (numbers) to caches, and the budget's map is over the same pointers.
  \<open>proc_do\<close> is one operation of one session on its cache: the locked section of
  \<open>SessionCache\<close> followed by \<open>publish\<close>, which may evict from every session's cache.
\<close>

subsection \<open>State\<close>

datatype evictKind = evictBody | evictThumb

record budget =
  b_max :: int
  b_clock :: nat
  b_total :: int
  b_used :: "(nat, int) gomap"

record process =
  p_budget :: budget
  p_caches :: "(nat, Cache) gomap"

definition newBudget :: "int \<Rightarrow> budget" where
  "newBudget maxBytes =
     \<lparr>b_max = (if maxBytes < 0 then 0 else maxBytes), b_clock = 0, b_total = 0, b_used = []\<rparr>"

definition tick :: "budget \<Rightarrow> nat \<times> budget" where
  "tick b = (Suc (b_clock b), b\<lparr>b_clock := Suc (b_clock b)\<rparr>)"

definition budget_bytes :: "budget \<Rightarrow> int" where
  "budget_bytes b = b_total b"

definition adjust :: "budget \<Rightarrow> nat \<Rightarrow> int \<Rightarrow> budget" where
  "adjust b c n =
     (let old = (case gm_get (b_used b) c of None \<Rightarrow> 0 | Some m \<Rightarrow> m);
          b = b\<lparr>b_total := b_total b + (n - old)\<rparr>
      in if n \<le> 0 then b\<lparr>b_used := gm_del c (b_used b)\<rparr>
         else b\<lparr>b_used := gm_put c n (b_used b)\<rparr>)"

subsection \<open>Choosing and dropping a victim\<close>

definition peekVictim :: "Cache \<Rightarrow> (evictKind \<times> nat) option" where
  "peekVictim c =
     (if c_bodyBytes c > 0 \<and> c_bodies c \<noteq> [] then Some (evictBody, br_seq (last (c_bodies c)))
      else if c_thumbBytes c > 0 \<and> c_thumbOrder c \<noteq> [] then
        (case gm_get (c_thumbs c) (last (c_thumbOrder c)) of
           Some ent \<Rightarrow> Some (evictThumb, te_seq ent)
         | None \<Rightarrow> Some (evictThumb, 0))
      else None)"

definition drop_from :: "evictKind \<Rightarrow> Cache \<Rightarrow> Cache" where
  "drop_from kind c = (case kind of evictBody \<Rightarrow> evictOldestBody c | evictThumb \<Rightarrow> evictOldestThumb c)"

definition cache_size :: "Cache \<Rightarrow> int" where
  "cache_size c = c_bodyBytes c + c_thumbBytes c"

definition dropVictim :: "nat \<Rightarrow> evictKind \<Rightarrow> process \<Rightarrow> process" where
  "dropVictim ptr kind p =
     (case gm_get (p_caches p) ptr of
        None \<Rightarrow> p
      | Some c \<Rightarrow>
          (let c = drop_from kind c;
               p = p\<lparr>p_caches := gm_put ptr c (p_caches p)\<rparr>
           in if c_bound c then p\<lparr>p_budget := adjust (p_budget p) ptr (cache_size c)\<rparr> else p))"

definition kind_less :: "evictKind \<Rightarrow> evictKind \<Rightarrow> bool" where
  "kind_less a b \<longleftrightarrow> a = evictBody \<and> b = evictThumb"

definition better_victim :: "evictKind \<times> nat \<Rightarrow> evictKind \<times> nat \<Rightarrow> bool" where
  "better_victim v w \<longleftrightarrow> kind_less (fst v) (fst w) \<or> fst v = fst w \<and> snd v < snd w"

text \<open>The scan over the caches the budget knows, in the order the map happens to list them.\<close>

fun scan_victims :: "(nat, Cache) gomap \<Rightarrow> nat list \<Rightarrow> (nat \<times> evictKind \<times> nat) option \<Rightarrow>
    (nat \<times> evictKind \<times> nat) option" where
  "scan_victims heap [] best = best"
| "scan_victims heap (ptr # ptrs) best =
     (case Option.bind (gm_get heap ptr) peekVictim of
        None \<Rightarrow> scan_victims heap ptrs best
      | Some v \<Rightarrow>
          scan_victims heap ptrs
            (case best of
               None \<Rightarrow> Some (ptr, v)
             | Some (ptr', w) \<Rightarrow> if better_victim v w then Some (ptr, v) else best))"

definition find_victim :: "process \<Rightarrow> (nat \<times> evictKind \<times> nat) option" where
  "find_victim p = scan_victims (p_caches p) (map fst (b_used (p_budget p))) None"

partial_function (option) evictUntilUnder :: "process \<Rightarrow> process option" where
  "evictUntilUnder p =
     (if b_max (p_budget p) \<le> 0 \<or> b_total (p_budget p) \<le> b_max (p_budget p) then Some p
      else
        (case find_victim p of
           None \<Rightarrow> Some p
         | Some (ptr, kind, _) \<Rightarrow> evictUntilUnder (dropVictim ptr kind p)))"

definition budget_set :: "process \<Rightarrow> nat \<Rightarrow> int \<Rightarrow> process option" where
  "budget_set p ptr n =
     (let p = p\<lparr>p_budget := adjust (p_budget p) ptr n\<rparr>
      in if b_max (p_budget p) > 0 \<and> budget_bytes (p_budget p) > b_max (p_budget p)
         then evictUntilUnder p else Some p)"

definition publish :: "process \<Rightarrow> nat \<Rightarrow> int \<Rightarrow> process option" where
  "publish p ptr n =
     (case gm_get (p_caches p) ptr of
        None \<Rightarrow> Some p
      | Some c \<Rightarrow> if c_bound c then budget_set p ptr n else Some p)"

subsection \<open>One operation of one session\<close>

text \<open>What an operation publishes after the unlock: nothing for reads and refused thumbnails.\<close>

fun publishes :: "cache_op \<Rightarrow> Cache \<Rightarrow> int option" where
  "publishes (OpSetETags _ _ _ _) c = Some (cache_size c)"
| "publishes (OpPutBody _ _ _) c = Some (cache_size c)"
| "publishes (OpPutThumb key _ data) c =
     (if tk_ETag key = [] \<or> data = [] then None else Some (cache_size c))"
| "publishes (OpInvalidate _) c = Some (cache_size c)"
| "publishes OpWipe c = Some 0"
| "publishes _ c = None"

definition proc_do :: "process \<Rightarrow> nat \<Rightarrow> cache_op \<Rightarrow> process option" where
  "proc_do p ptr op =
     (case gm_get (p_caches p) ptr of
        None \<Rightarrow> Some p
      | Some c \<Rightarrow>
          Option.bind (cache_do (c, b_clock (p_budget p)) op) (\<lambda>(c, clock).
            let p = p\<lparr>p_caches := gm_put ptr c (p_caches p),
                      p_budget := (p_budget p)\<lparr>b_clock := clock\<rparr>\<rparr>
            in case publishes op c of None \<Rightarrow> Some p | Some n \<Rightarrow> publish p ptr n))"

text \<open>\<open>NewCache\<close> then \<open>bind\<close>, as a new session does it; the pointer is fresh.\<close>

definition proc_new :: "process \<Rightarrow> nat \<Rightarrow> CacheConfig \<Rightarrow> process" where
  "proc_new p ptr cfg = p\<lparr>p_caches := gm_put ptr (cache_bind (NewCache cfg)) (p_caches p)\<rparr>"

definition proc_start :: "int \<Rightarrow> process" where
  "proc_start maxBytes = \<lparr>p_budget = newBudget maxBytes, p_caches = []\<rparr>"

subsection \<open>The invariant\<close>

definition bound_size :: "Cache \<Rightarrow> int" where
  "bound_size c = (if c_bound c then cache_size c else 0)"

definition accounted :: "process \<Rightarrow> nat \<Rightarrow> int option" where
  "accounted p ptr =
     (case gm_get (p_caches p) ptr of
        None \<Rightarrow> None
      | Some c \<Rightarrow> if bound_size c > 0 then Some (bound_size c) else None)"

definition proc_inv :: "process \<Rightarrow> bool" where
  "proc_inv p \<longleftrightarrow> gm_wf (p_caches p) \<and> gm_wf (b_used (p_budget p)) \<and>
     (\<forall>(ptr, c) \<in> set (p_caches p). cache_inv c \<and> within_limits c) \<and>
     (\<forall>ptr. gm_get (b_used (p_budget p)) ptr = accounted p ptr) \<and>
     b_total (p_budget p) = gm_sum bound_size (p_caches p)"

definition under_ceiling :: "process \<Rightarrow> bool" where
  "under_ceiling p \<longleftrightarrow> b_max (p_budget p) \<le> 0 \<or> b_total (p_budget p) \<le> b_max (p_budget p)"

lemma cache_sizes_nonneg:
  assumes "cache_inv c"
  shows "0 \<le> c_bodyBytes c" "0 \<le> c_thumbBytes c" "0 \<le> cache_size c" "0 \<le> bound_size c"
  using assms
  by (auto simp: cache_inv_def body_inv_def thumb_inv_def cache_size_def bound_size_def
      intro!: gm_sum_nonneg bytes_of_nonneg add_nonneg_nonneg)

lemma proc_inv_cache:
  "proc_inv p \<Longrightarrow> gm_get (p_caches p) ptr = Some c \<Longrightarrow> cache_inv c \<and> within_limits c"
  by (auto simp: proc_inv_def dest!: gm_get_mem)

lemma proc_start_inv: "proc_inv (proc_start n)" "under_ceiling (proc_start n)"
  by (simp_all add: proc_inv_def under_ceiling_def proc_start_def newBudget_def accounted_def)

lemma proc_inv_clock [simp]:
  "proc_inv (p\<lparr>p_budget := (p_budget p)\<lparr>b_clock := n\<rparr>\<rparr>) = proc_inv p"
  by (simp add: proc_inv_def accounted_def)

text \<open>Writing a cache and telling the budget its new size keeps the accounts straight.\<close>

lemma adjust_inv:
  assumes "proc_inv p" and "gm_get (p_caches p) ptr = Some c" and "c_bound c" and "c_bound c'"
    and "cache_inv c'" and "within_limits c'"
  shows "proc_inv (p\<lparr>p_caches := gm_put ptr c' (p_caches p),
      p_budget := adjust (p_budget p) ptr (cache_size c')\<rparr>)"
proof -
  have w: "gm_wf (p_caches p)" using assms(1) by (simp add: proc_inv_def)
  have size: "0 \<le> cache_size c" "0 \<le> cache_size c'"
    using proc_inv_cache [OF assms(1,2)] assms(5) cache_sizes_nonneg by blast+
  have used: "gm_get (b_used (p_budget p)) i = accounted p i" for i
    using assms(1) by (simp add: proc_inv_def)
  have old: "(case gm_get (b_used (p_budget p)) ptr of None \<Rightarrow> 0 | Some m \<Rightarrow> m) = cache_size c"
    using assms(2,3) size(1) by (simp add: used accounted_def bound_size_def)
  have "\<forall>(i, c) \<in> set (gm_put ptr c' (p_caches p)). cache_inv c \<and> within_limits c"
    using assms(1,5,6) w by (auto simp: set_gm_put proc_inv_def)
  moreover have "gm_sum bound_size (gm_put ptr c' (p_caches p)) =
      b_total (p_budget p) + (cache_size c' - cache_size c)"
    using assms(1-4) w by (simp add: proc_inv_def gm_sum_put bound_size_def)
  ultimately show ?thesis
    using assms(1-4) size w
    by (simp add: proc_inv_def adjust_def Let_def old accounted_def used bound_size_def)
qed

lemma write_unbound_inv:
  assumes "proc_inv p" and "gm_get (p_caches p) ptr = Some c" and "bound_size c' = bound_size c"
    and "cache_inv c'" and "within_limits c'"
  shows "proc_inv (p\<lparr>p_caches := gm_put ptr c' (p_caches p)\<rparr>)"
  using assms
  by (auto simp: proc_inv_def set_gm_put gm_sum_put accounted_def)

subsection \<open>The eviction across sessions returns\<close>

lemma drop_from_ok:
  assumes "cache_inv c" and "within_limits c"
  shows "cache_inv (drop_from kind c) \<and> within_limits (drop_from kind c) \<and>
    c_bound (drop_from kind c) = c_bound c"
proof (cases kind)
  case evictBody
  have "c_bodyBytes (evictOldestBody c) \<le> c_bodyBytes c"
    by (auto simp: evictOldestBody_def Let_def split: option.splits)
  then show ?thesis
    using assms evictBody
    by (auto simp: drop_from_def evictOldestBody_inv within_limits_def evictOldestBody_length)
next
  case evictThumb
  have "c_thumbBytes (evictOldestThumb c) \<le> c_thumbBytes c"
    "length (c_thumbs (evictOldestThumb c)) \<le> length (c_thumbs c)"
    by (auto simp: evictOldestThumb_def Let_def length_gm_del_le split: option.splits)
  then show ?thesis
    using assms evictThumb by (auto simp: drop_from_def evictOldestThumb_inv within_limits_def)
qed

lemma peekVictim_drops:
  assumes "peekVictim c = Some (kind, s)"
  shows "length (c_bodies (drop_from kind c)) + length (c_thumbOrder (drop_from kind c)) <
    length (c_bodies c) + length (c_thumbOrder c)"
  using assms by (auto simp: peekVictim_def drop_from_def split: if_splits option.splits)

lemma peekVictim_Some:
  assumes "cache_inv c" and "0 < cache_size c"
  shows "peekVictim c \<noteq> None"
proof -
  have "0 < c_bodyBytes c \<Longrightarrow> c_bodies c \<noteq> []"
    using assms(1) no_refs_no_bytes [of c] by (auto simp: cache_inv_def)
  moreover have "0 < c_thumbBytes c \<Longrightarrow> c_thumbOrder c \<noteq> []"
    using assms(1) by (auto simp: cache_inv_def thumb_inv_def)
  moreover have "0 < c_bodyBytes c \<or> 0 < c_thumbBytes c" using assms(2) by (auto simp: cache_size_def)
  ultimately show ?thesis by (auto simp: peekVictim_def split: option.splits)
qed

text \<open>The scan returns the best victim of the caches it was given.\<close>

definition scanned :: "(nat, Cache) gomap \<Rightarrow> nat set \<Rightarrow> (nat \<times> evictKind \<times> nat) option \<Rightarrow> bool" where
  "scanned heap ptrs best \<longleftrightarrow>
     (case best of
        None \<Rightarrow> \<forall>i \<in> ptrs. Option.bind (gm_get heap i) peekVictim = None
      | Some (ptr, v) \<Rightarrow> ptr \<in> ptrs \<and> Option.bind (gm_get heap ptr) peekVictim = Some v \<and>
          (\<forall>i \<in> ptrs. \<forall>w. Option.bind (gm_get heap i) peekVictim = Some w \<longrightarrow> \<not> better_victim w v))"

lemma kind_less_irrefl [simp]: "\<not> kind_less k k"
  by (cases k) (simp_all add: kind_less_def)

lemma better_trans: "\<not> better_victim w v \<Longrightarrow> better_victim u v \<Longrightarrow> \<not> better_victim w u"
proof -
  obtain wk ws vk vs uk us where "w = (wk, ws)" "v = (vk, vs)" "u = (uk, us)"
    by (metis surj_pair)
  then show "\<not> better_victim w v \<Longrightarrow> better_victim u v \<Longrightarrow> \<not> better_victim w u"
    by (cases wk; cases vk; cases uk) (auto simp: better_victim_def kind_less_def)
qed

lemma better_irrefl [simp]: "\<not> better_victim v v"
  by (simp add: better_victim_def)

lemma scanned_step:
  assumes "scanned heap ptrs best" and "Option.bind (gm_get heap ptr) peekVictim = Some v"
  shows "scanned heap (insert ptr ptrs)
    (case best of None \<Rightarrow> Some (ptr, v)
     | Some (ptr', w) \<Rightarrow> if better_victim v w then Some (ptr, v) else best)"
proof (cases best)
  case None
  with assms show ?thesis by (auto simp: scanned_def)
next
  case (Some b)
  then obtain ptr' w where b: "best = Some (ptr', w)" by (cases b) auto
  show ?thesis
  proof (cases "better_victim v w")
    case True
    with assms b show ?thesis by (auto simp: scanned_def dest: better_trans [OF _ True])
  next
    case False
    with assms b show ?thesis by (auto simp: scanned_def)
  qed
qed

lemma scan_victims_scanned:
  "scanned heap seen best \<Longrightarrow> scanned heap (seen \<union> set ptrs) (scan_victims heap ptrs best)"
proof (induction ptrs arbitrary: seen best)
  case (Cons ptr ptrs)
  show ?case
  proof (cases "Option.bind (gm_get heap ptr) peekVictim")
    case None
    with Cons.prems have "scanned heap (insert ptr seen) best"
      by (auto simp: scanned_def split: option.splits)
    from Cons.IH [OF this] None show ?thesis by simp
  next
    case (Some v)
    from Cons.IH [OF scanned_step [OF Cons.prems Some]] Some show ?thesis by simp
  qed
qed simp

lemma find_victim_scanned:
  "scanned (p_caches p) (fst ` set (b_used (p_budget p))) (find_victim p)"
  using scan_victims_scanned [of "p_caches p" "{}" None "map fst (b_used (p_budget p))"]
  by (simp add: find_victim_def scanned_def)

lemma gm_sum_pos:
  assumes "0 < gm_sum f m"
  obtains k v where "(k, v) \<in> set m" and "0 < f v"
proof -
  have "\<exists>(k, v) \<in> set m. 0 < f v"
    using assms by (induction m) force+
  then show ?thesis using that by blast
qed

lemma find_victim_Some:
  assumes "proc_inv p" and "0 < b_total (p_budget p)"
  shows "find_victim p \<noteq> None"
proof
  assume none: "find_victim p = None"
  obtain ptr c where c: "(ptr, c) \<in> set (p_caches p)" "0 < bound_size c"
    using assms gm_sum_pos unfolding proc_inv_def by metis
  then have get: "gm_get (p_caches p) ptr = Some c" using assms(1) by (simp add: proc_inv_def gm_get_in)
  then have "gm_get (b_used (p_budget p)) ptr = Some (bound_size c)"
    using assms(1) c(2) by (simp add: proc_inv_def accounted_def)
  then have "ptr \<in> fst ` set (b_used (p_budget p))" using gm_get_dom by fastforce
  then have "peekVictim c = None"
    using find_victim_scanned [of p] get by (force simp: none scanned_def)
  moreover have "peekVictim c \<noteq> None"
    using proc_inv_cache [OF assms(1) get] c(2)
    by (intro peekVictim_Some) (auto simp: bound_size_def split: if_splits)
  ultimately show False by blast
qed

definition refs_left :: "Cache \<Rightarrow> int" where
  "refs_left c = int (length (c_bodies c) + length (c_thumbOrder c))"

definition over_budget :: "process \<Rightarrow> bool" where
  "over_budget p \<longleftrightarrow> \<not> (b_max (p_budget p) \<le> 0 \<or> b_total (p_budget p) \<le> b_max (p_budget p)) \<and>
     find_victim p \<noteq> None"

definition drop_found :: "process \<Rightarrow> process" where
  "drop_found p = (case find_victim p of None \<Rightarrow> p | Some (ptr, kind, _) \<Rightarrow> dropVictim ptr kind p)"

lemma found_cache:
  assumes "proc_inv p" and "find_victim p = Some (ptr, kind, s)"
  obtains c where "gm_get (p_caches p) ptr = Some c" and "c_bound c"
    and "peekVictim c = Some (kind, s)"
proof -
  have ptr: "ptr \<in> fst ` set (b_used (p_budget p))"
    and v: "Option.bind (gm_get (p_caches p) ptr) peekVictim = Some (kind, s)"
    using find_victim_scanned [of p] assms(2) by (auto simp: scanned_def)
  from v obtain c where c: "gm_get (p_caches p) ptr = Some c" "peekVictim c = Some (kind, s)"
    by (auto simp: bind_eq_Some_conv)
  have "gm_get (b_used (p_budget p)) ptr \<noteq> None" using ptr gm_get_dom by metis
  then have "c_bound c"
    using assms(1) c(1) by (auto simp: proc_inv_def accounted_def bound_size_def split: if_splits)
  with c show ?thesis using that by blast
qed

lemma drop_found_eq:
  assumes "proc_inv p" and "over_budget p"
  obtains ptr kind c where "gm_get (p_caches p) ptr = Some c" and "c_bound c"
    and "length (c_bodies (drop_from kind c)) + length (c_thumbOrder (drop_from kind c)) <
      length (c_bodies c) + length (c_thumbOrder c)"
    and "drop_found p = p\<lparr>p_caches := gm_put ptr (drop_from kind c) (p_caches p),
      p_budget := adjust (p_budget p) ptr (cache_size (drop_from kind c))\<rparr>"
proof -
  obtain ptr kind s where f: "find_victim p = Some (ptr, kind, s)"
    using assms(2) by (auto simp: over_budget_def)
  obtain c where c: "gm_get (p_caches p) ptr = Some c" "c_bound c" "peekVictim c = Some (kind, s)"
    by (rule found_cache [OF assms(1) f])
  have "c_bound (drop_from kind c)"
    using drop_from_ok proc_inv_cache [OF assms(1) c(1)] c(2) by blast
  then have "drop_found p = p\<lparr>p_caches := gm_put ptr (drop_from kind c) (p_caches p),
      p_budget := adjust (p_budget p) ptr (cache_size (drop_from kind c))\<rparr>"
    using f c(1) by (simp add: drop_found_def dropVictim_def Let_def)
  with c peekVictim_drops [OF c(3)] show ?thesis using that by blast
qed

interpretation evict_all: draining_loop over_budget drop_found evictUntilUnder proc_inv
  "\<lambda>p. nat (gm_sum refs_left (p_caches p))"
proof
  fix p
  show "evictUntilUnder p = (if over_budget p then evictUntilUnder (drop_found p) else Some p)"
    by (subst evictUntilUnder.simps) (auto simp: over_budget_def drop_found_def split: option.split)
  assume p: "proc_inv p" "over_budget p"
  obtain ptr kind c where c: "gm_get (p_caches p) ptr = Some c" "c_bound c"
    and l: "length (c_bodies (drop_from kind c)) + length (c_thumbOrder (drop_from kind c)) <
      length (c_bodies c) + length (c_thumbOrder c)"
    and d: "drop_found p = p\<lparr>p_caches := gm_put ptr (drop_from kind c) (p_caches p),
      p_budget := adjust (p_budget p) ptr (cache_size (drop_from kind c))\<rparr>"
    by (rule drop_found_eq [OF p])
  have ok: "cache_inv (drop_from kind c)" "within_limits (drop_from kind c)" "c_bound (drop_from kind c)"
    using drop_from_ok proc_inv_cache [OF p(1) c(1)] c(2) by blast+
  show "proc_inv (drop_found p)" unfolding d by (rule adjust_inv [OF p(1) c ok(3,1,2)])
  have "gm_wf (p_caches p)" using p(1) by (simp add: proc_inv_def)
  then have "gm_sum refs_left (p_caches (drop_found p)) < gm_sum refs_left (p_caches p)"
    using c(1) l by (simp add: d gm_sum_put refs_left_def)
  moreover have "0 \<le> gm_sum refs_left (p_caches (drop_found p))"
    by (rule gm_sum_nonneg) (simp add: refs_left_def)
  ultimately show "nat (gm_sum refs_left (p_caches (drop_found p))) < nat (gm_sum refs_left (p_caches p))"
    by simp
qed

subsection \<open>Operations of the sessions under the budget\<close>

lemma nextSeqLocked_frame:
  "nextSeqLocked c clock = (s, c', clock') \<Longrightarrow>
   c_bound c' = c_bound c \<and> c_bodyBytes c' = c_bodyBytes c \<and> c_thumbBytes c' = c_thumbBytes c"
  by (auto simp: nextSeqLocked_def split: if_splits)

lemma evictLocked_bound: "cache_inv c \<Longrightarrow> evictLocked c = Some c' \<Longrightarrow> c_bound c' = c_bound c"
  using evictLocked_ok [of c] by (auto simp: same_frame_def)

lemma put_bound [simp]:
  "c_bound (put_body c key path body seq lc) = c_bound c"
  "c_bound (put_thumb c tkey media data seq lc) = c_bound c"
  by (simp_all add: put_body_def put_thumb_def)

lemma SetETags_bound:
  assumes "cache_inv c" and "gm_wf etags" and "SetETags c now key ctag etags = Some c'"
  shows "c_bound c' = c_bound c"
  using SetETags_ok [OF assms(1,2), of now key ctag] assms(3) by (auto simp: same_frame_def)

lemma PutBody_bound:
  assumes "cache_inv c" and "PutBody c clock key path body = Some (c', clock')"
  shows "c_bound c' = c_bound c"
proof -
  have "body_inv c" using assms(1) by (simp add: cache_inv_def)
  then obtain seq lc k where "PutBody c clock key path body =
     map_option (\<lambda>c. (c, k)) (evictLocked (put_body c key path body seq lc))"
    using PutBody_eq by blast
  then have "evictLocked (put_body c key path body seq lc) = Some c'"
    using assms(2) by (auto simp: map_option_case split: option.splits)
  from evictLocked_bound [OF put_body_inv [OF assms(1)] this] show ?thesis by simp
qed

lemma PutThumb_bound:
  assumes "cache_inv c" and "PutThumb c clock key media data = Some (c', clock')"
  shows "c_bound c' = c_bound c"
proof (cases "tk_ETag key = [] \<or> data = []")
  case True
  with assms(2) show ?thesis by (simp add: PutThumb_def)
next
  case False
  moreover have "thumb_inv c" using assms(1) by (simp add: cache_inv_def)
  ultimately obtain seq lc k where "PutThumb c clock key media data =
     map_option (\<lambda>c. (c, k)) (evictLocked (put_thumb c key media data seq lc))"
    using PutThumb_eq by blast
  then have "evictLocked (put_thumb c key media data seq lc) = Some c'"
    using assms(2) by (auto simp: map_option_case split: option.splits)
  from evictLocked_bound [OF put_thumb_inv [OF assms(1)] this] show ?thesis by simp
qed

lemma touches_frame:
  "c_bound (touch key c) = c_bound c \<and> cache_size (touch key c) = cache_size c"
  "c_bound (fst (touchBody key path c clock)) = c_bound c \<and>
     cache_size (fst (touchBody key path c clock)) = cache_size c"
  "c_bound (fst (touchThumb tkey c clock)) = c_bound c \<and>
     cache_size (fst (touchThumb tkey c clock)) = cache_size c"
  by (auto simp: touch_def touchBody_def touchThumb_def Let_def cache_size_def nextSeqLocked_def
      split: option.splits)

lemma GetBody_frame:
  "c_bound (fst (fst (GetBody c clock key path))) = c_bound c \<and>
   cache_size (fst (fst (GetBody c clock key path))) = cache_size c"
  using touches_frame(2) [of key path c clock] touches_frame(1)
  by (auto simp: GetBody_def split: option.splits prod.splits)

lemma cache_do_frame:
  assumes "cache_inv c" and "op_wf op" and "cache_do (c, clock) op = Some (c', clock')"
  shows "c_bound c' = c_bound c \<and> (publishes op c' = None \<longrightarrow> cache_size c' = cache_size c)"
proof (cases op)
  case (OpSetETags now key ctag etags)
  then show ?thesis using assms SetETags_bound by auto
next
  case (OpPutBody key path body)
  then show ?thesis using assms(3) PutBody_bound [OF assms(1)] by simp
next
  case (OpPutThumb key media data)
  then show ?thesis using assms(3) PutThumb_bound [OF assms(1)] by (auto simp: PutThumb_def)
next
  case (OpGetETags key)
  then show ?thesis
    using assms(3) touches_frame(1) by (auto simp: GetETags_def split: option.splits)
next
  case (OpGetBody key path)
  then show ?thesis using assms(3) GetBody_frame [of c clock key path] by auto
next
  case (OpGetThumb key)
  then show ?thesis
    using assms(3) touches_frame(3) [of key c clock]
    by (auto simp: GetThumb_def split: option.splits if_splits)
next
  case (OpInvalidate key)
  then show ?thesis using assms(3) by (auto simp: InvalidateCollection_def)
next
  case OpWipe
  then show ?thesis using assms(3) by (auto simp: Wipe_def)
qed

lemma publishes_size: "publishes op c = Some n \<Longrightarrow> cache_do s op = Some (c, clock) \<Longrightarrow> n = cache_size c"
  by (cases op; cases s) (auto simp: cache_size_def Wipe_def split: if_splits)

lemma b_max_adjust [simp]: "b_max (adjust b ptr n) = b_max b"
  by (simp add: adjust_def Let_def)

lemma proc_inv_adjust_clock:
  "proc_inv (p\<lparr>p_caches := cs, p_budget := adjust (b\<lparr>b_clock := k\<rparr>) ptr n\<rparr>) =
   proc_inv (p\<lparr>p_caches := cs, p_budget := adjust b ptr n\<rparr>)"
proof -
  have "adjust (b\<lparr>b_clock := k\<rparr>) ptr n = (adjust b ptr n)\<lparr>b_clock := k\<rparr>"
    by (simp add: adjust_def Let_def)
  then show ?thesis by (simp add: proc_inv_def accounted_def)
qed

lemma budget_set_ok:
  assumes "proc_inv (p\<lparr>p_budget := adjust (p_budget p) ptr n\<rparr>)"
  shows "\<exists>p'. budget_set p ptr n = Some p' \<and> proc_inv p' \<and> under_ceiling p' \<and>
    b_max (p_budget p') = b_max (p_budget p)"
proof -
  let ?p = "p\<lparr>p_budget := adjust (p_budget p) ptr n\<rparr>"
  have keep: "b_max (p_budget (drop_found s)) = b_max (p_budget s)" for s
    by (auto simp: drop_found_def dropVictim_def Let_def split: option.splits)
  obtain p' where p': "evictUntilUnder ?p = Some p'" "proc_inv p'" "\<not> over_budget p'"
    "b_max (p_budget p') = b_max (p_budget p)"
    using evict_all.drains_with [OF assms, where Q = "\<lambda>s. b_max (p_budget s) = b_max (p_budget p)"]
      keep by auto
  have "under_ceiling p'"
  proof (rule ccontr)
    assume "\<not> under_ceiling p'"
    then have "0 < b_total (p_budget p')" and "find_victim p' = None"
      using p'(3) by (cases "find_victim p'"; simp add: under_ceiling_def over_budget_def)+
    then show False using find_victim_Some [OF p'(2)] by blast
  qed
  with p' assms show ?thesis
    by (auto simp: budget_set_def Let_def under_ceiling_def budget_bytes_def)
qed

lemma proc_do_ok:
  assumes p: "proc_inv p" "under_ceiling p" and op: "op_wf op"
  shows "\<exists>p'. proc_do p ptr op = Some p' \<and> proc_inv p' \<and> under_ceiling p' \<and>
    b_max (p_budget p') = b_max (p_budget p)"
proof (cases "gm_get (p_caches p) ptr")
  case None
  with p show ?thesis by (simp add: proc_do_def)
next
  case (Some c)
  have c: "cache_inv c" "within_limits c" using proc_inv_cache [OF p(1) Some] by auto
  obtain c' clock' where d: "cache_do (c, b_clock (p_budget p)) op = Some (c', clock')"
    and c': "cache_inv c'" "within_limits c'"
    using cache_do_ok [OF c op] by blast
  have b: "c_bound c' = c_bound c" and same: "publishes op c' = None \<Longrightarrow> cache_size c' = cache_size c"
    using cache_do_frame [OF c(1) op d] by auto
  let ?p = "p\<lparr>p_caches := gm_put ptr c' (p_caches p), p_budget := (p_budget p)\<lparr>b_clock := clock'\<rparr>\<rparr>"
  have silent: "proc_inv ?p \<and> under_ceiling ?p" if "bound_size c' = bound_size c"
  proof -
    have "proc_inv (p\<lparr>p_caches := gm_put ptr c' (p_caches p)\<rparr>)"
      by (rule write_unbound_inv [OF p(1) Some that c'])
    then have "proc_inv ?p" by (simp add: proc_inv_def accounted_def)
    then show ?thesis using p(2) by (simp add: under_ceiling_def)
  qed
  show ?thesis
  proof (cases "publishes op c'")
    case None
    then have "bound_size c' = bound_size c" using b same by (simp add: bound_size_def)
    then show ?thesis using silent None Some d by (simp add: proc_do_def Let_def)
  next
    case (Some n)
    note n = publishes_size [OF Some d]
    show ?thesis
    proof (cases "c_bound c")
      case False
      then have "bound_size c' = bound_size c" using b by (simp add: bound_size_def)
      then show ?thesis
        using silent Some \<open>gm_get (p_caches p) ptr = Some c\<close> d b False
        by (simp add: proc_do_def Let_def publish_def)
    next
      case True
      have "proc_inv (p\<lparr>p_caches := gm_put ptr c' (p_caches p),
          p_budget := adjust (p_budget p) ptr (cache_size c')\<rparr>)"
        using adjust_inv [OF p(1) \<open>gm_get (p_caches p) ptr = Some c\<close> True _ c'] b True by simp
      then have "proc_inv (p\<lparr>p_caches := gm_put ptr c' (p_caches p),
          p_budget := adjust ((p_budget p)\<lparr>b_clock := clock'\<rparr>) ptr (cache_size c')\<rparr>)"
        by (simp only: proc_inv_adjust_clock)
      then have "proc_inv (?p\<lparr>p_budget := adjust (p_budget ?p) ptr n\<rparr>)" by (simp add: n)
      from budget_set_ok [OF this] Some \<open>gm_get (p_caches p) ptr = Some c\<close> d b True
      show ?thesis by (simp add: proc_do_def Let_def publish_def)
    qed
  qed
qed

lemma proc_new_ok:
  assumes "proc_inv p" and "under_ceiling p" and "gm_get (p_caches p) ptr = None"
  shows "proc_inv (proc_new p ptr cfg)" and "under_ceiling (proc_new p ptr cfg)"
proof -
  let ?c = "cache_bind (NewCache cfg)"
  have c: "cache_inv ?c" "within_limits ?c" "bound_size ?c = 0"
    using NewCache_inv [of cfg] NewCache_limits [of cfg] unfolding cache_bind_def
    by (simp_all add: within_limits_def bound_size_def cache_size_def)
      (simp add: NewCache_def)
  have "accounted (proc_new p ptr cfg) i = accounted p i" for i
    using assms(3) c(3) by (simp add: accounted_def proc_new_def)
  then show "proc_inv (proc_new p ptr cfg)"
    using assms(1,3) c by (auto simp: proc_inv_def proc_new_def set_gm_put gm_sum_put)
  show "under_ceiling (proc_new p ptr cfg)"
    using assms(2) by (simp add: under_ceiling_def proc_new_def)
qed

subsection \<open>Recency across sessions\<close>

text \<open>
  The bodies of a bound cache are listed from the most to the least recently used, and no stamp is
  ahead of the shared clock: that is what lets the budget compare sessions by their last body only.
\<close>

definition bodies_lru :: "nat \<Rightarrow> Cache \<Rightarrow> bool" where
  "bodies_lru clock c \<longleftrightarrow> sorted_wrt (\<lambda>a b. br_seq b < br_seq a) (c_bodies c) \<and>
     (\<forall>r \<in> set (c_bodies c). br_seq r \<le> clock)"

lemma bodies_lru_mono: "bodies_lru n c \<Longrightarrow> n \<le> m \<Longrightarrow> bodies_lru m c"
  by (auto simp: bodies_lru_def)

lemma sorted_wrt_butlast: "sorted_wrt P xs \<Longrightarrow> sorted_wrt P (butlast xs)"
  by (induction xs) (auto dest: in_set_butlastD)

lemma sorted_wrt_remove_first: "sorted_wrt P xs \<Longrightarrow> sorted_wrt P (remove_first Q xs)"
  by (induction xs) (auto dest: subsetD [OF set_remove_first_subset])

lemma bodies_lru_drop [intro]:
  "bodies_lru n c \<Longrightarrow> bodies_lru n (evictOldestBody c)"
  "bodies_lru n c \<Longrightarrow> bodies_lru n (evictOldestThumb c)"
  by (auto simp: bodies_lru_def sorted_wrt_butlast dest: in_set_butlastD)

lemma bodies_lru_dropCollection: "bodies_lru n c \<Longrightarrow> bodies_lru n (dropCollectionLocked k c)"
  by (auto simp: bodies_lru_def dropCollectionLocked_def removeKey_def sorted_wrt_filter
      split: option.splits)

lemma bodies_lru_evictCollection [intro]: "bodies_lru n c \<Longrightarrow> bodies_lru n (evictOldestCollection c)"
  by (simp add: evictOldestCollection_def bodies_lru_dropCollection)

lemma bodies_lru_evictLocked:
  assumes "cache_inv c" and "bodies_lru n c" and "evictLocked c = Some c'"
  shows "bodies_lru n c'"
proof -
  obtain c1 where 1: "evict_bodies c = Some c1" "cache_inv c1" "bodies_lru n c1"
    using bodies.drains_with [OF assms(1), where Q = "bodies_lru n"] assms(2) by blast
  obtain c2 where 2: "evictThumbs c1 = Some c2" "cache_inv c2" "bodies_lru n c2"
    using thumbs.drains_with [OF 1(2), where Q = "bodies_lru n"] 1(3) by blast
  obtain c3 where 3: "evict_collections c2 = Some c3" "cache_inv c3" "bodies_lru n c3"
    using cols.drains_with [OF 2(2), where Q = "bodies_lru n"] 2(3) by blast
  obtain c4 where 4: "evict_etags c3 = Some c4" "bodies_lru n c4"
    using etags.drains_with [OF 3(2), where Q = "bodies_lru n"] 3(3) by blast
  show ?thesis using assms(3) 1(1) 2(1) 3(1) 4 by (simp add: evictLocked_def)
qed

lemma bodies_lru_front:
  "bodies_lru n c \<Longrightarrow> c_bodies c' = r # remove_first P (c_bodies c) \<Longrightarrow> br_seq r = Suc n \<Longrightarrow>
   bodies_lru (Suc n) c'"
  by (auto simp: bodies_lru_def sorted_wrt_remove_first le_SucI less_Suc_eq_le
      dest: subsetD [OF set_remove_first_subset])

lemma touchBody_lru:
  assumes "bodies_lru n c" and "c_bound c" and "touchBody key path c n = (c', m)"
  shows "bodies_lru m c' \<and> n \<le> m"
proof (cases "find_first (same_body key path) (c_bodies c)")
  case None
  with assms show ?thesis by (simp add: touchBody_def)
next
  case (Some r)
  with assms have m: "m = Suc n"
    and c': "c' = c\<lparr>c_bodies := r\<lparr>br_seq := Suc n\<rparr> # remove_first (same_body key path) (c_bodies c)\<rparr>"
    by (auto simp: touchBody_def nextSeqLocked_def)
  show ?thesis
    unfolding m using bodies_lru_front [OF assms(1), of c' "r\<lparr>br_seq := Suc n\<rparr>"] c' by simp
qed

lemma touchThumb_lru:
  assumes "bodies_lru n c" and "touchThumb key c n = (c', m)"
  shows "bodies_lru m c' \<and> n \<le> m"
  using assms
  by (auto simp: touchThumb_def Let_def nextSeqLocked_def bodies_lru_def le_SucI
      split: if_splits option.splits)

lemma cache_do_lru:
  assumes c: "cache_inv c" "c_bound c" "bodies_lru n c" and "op_wf op"
    and d: "cache_do (c, n) op = Some (c', m)"
  shows "bodies_lru m c' \<and> n \<le> m"
proof (cases op)
  case (OpSetETags now key ctag etags)
  let ?c1 = "c\<lparr>c_collections := gm_put key (ent_at c key\<lparr>ce_ctag := ctag, ce_fetchedAt := now, ce_etags := etags\<rparr>)
          (c_collections c), c_order := touch_list key (order_with c key),
        c_etagCount := c_etagCount c + int (length etags) - int (length (ce_etags (ent_at c key)))\<rparr>"
  from OpSetETags d have "evictLocked ?c1 = Some c'" "m = n" by (auto simp: SetETags_eq)
  moreover have "cache_inv ?c1" using OpSetETags assms(4) by (intro SetETags_pre [OF c(1)]) simp
  moreover have "bodies_lru n ?c1" using c(3) by (simp add: bodies_lru_def)
  ultimately show ?thesis using bodies_lru_evictLocked by blast
next
  case (OpPutBody key path body)
  have "body_inv c" using c(1) by (simp add: cache_inv_def)
  then obtain seq lc k where "PutBody c n key path body =
      map_option (\<lambda>c. (c, k)) (evictLocked (put_body c key path body seq lc))"
    and k: "seq = Suc n" "k = Suc n"
    using PutBody_eq c(2) by blast
  then have e: "evictLocked (put_body c key path body seq lc) = Some c'" "m = Suc n"
    using OpPutBody d by (auto simp: map_option_case split: option.splits)
  have "bodies_lru (Suc n) (put_body c key path body seq lc)"
    by (rule bodies_lru_front [OF c(3)]) (auto simp: put_body_def k)
  with bodies_lru_evictLocked [OF put_body_inv [OF c(1)] _ e(1)] e(2) show ?thesis by simp
next
  case (OpPutThumb key media data)
  show ?thesis
  proof (cases "tk_ETag key = [] \<or> data = []")
    case True
    with OpPutThumb d c(3) show ?thesis by (simp add: PutThumb_def)
  next
    case False
    moreover have "thumb_inv c" using c(1) by (simp add: cache_inv_def)
    ultimately obtain seq lc k where "PutThumb c n key media data =
        map_option (\<lambda>c. (c, k)) (evictLocked (put_thumb c key media data seq lc))" and k: "n \<le> k"
      using PutThumb_eq by blast
    then have e: "evictLocked (put_thumb c key media data seq lc) = Some c'" "m = k"
      using OpPutThumb d by (auto simp: map_option_case split: option.splits)
    have "bodies_lru n (put_thumb c key media data seq lc)"
      using c(3) by (simp add: put_thumb_def bodies_lru_def)
    with bodies_lru_evictLocked [OF put_thumb_inv [OF c(1)] _ e(1)] e(2) k bodies_lru_mono
    show ?thesis by blast
  qed
next
  case (OpGetETags key)
  with d c(3) show ?thesis by (auto simp: GetETags_def touch_def bodies_lru_def split: option.splits)
next
  case (OpGetBody key path)
  with d c touchBody_lru [OF c(3,2), of key path] show ?thesis
    by (auto simp: GetBody_def touch_def bodies_lru_def split: option.splits prod.splits)
next
  case (OpGetThumb key)
  with d c(3) touchThumb_lru [OF c(3), of key] show ?thesis
    by (auto simp: GetThumb_def split: option.splits if_splits)
next
  case (OpInvalidate key)
  with d c(3) bodies_lru_dropCollection show ?thesis by (auto simp: InvalidateCollection_def)
next
  case OpWipe
  with d show ?thesis by (auto simp: Wipe_def bodies_lru_def)
qed

lemma cache_do_clock:
  assumes c: "cache_inv c" and op: "op_wf op" and d: "cache_do (c, n) op = Some (c', m)"
  shows "n \<le> m"
proof (cases op)
  case (OpPutBody key path body)
  have "body_inv c" using c by (simp add: cache_inv_def)
  from PutBody_eq [OF this, of n key path body] OpPutBody d show ?thesis
    by (auto simp: map_option_case split: option.splits)
next
  case (OpPutThumb key media data)
  have "thumb_inv c" using c by (simp add: cache_inv_def)
  from PutThumb_eq [OF this, of key data n media] OpPutThumb d show ?thesis
    by (cases "tk_ETag key = [] \<or> data = []")
      (auto simp: PutThumb_def map_option_case split: option.splits if_splits)
next
  case (OpGetBody key path)
  with d show ?thesis
    by (auto simp: GetBody_def touchBody_def nextSeqLocked_def split: option.splits prod.splits if_splits)
next
  case (OpGetThumb key)
  with d show ?thesis
    by (auto simp: GetThumb_def touchThumb_def Let_def nextSeqLocked_def split: option.splits if_splits)
qed (use d in auto)

definition proc_lru :: "process \<Rightarrow> bool" where
  "proc_lru p \<longleftrightarrow> (\<forall>(ptr, c) \<in> set (p_caches p). c_bound c \<longrightarrow> bodies_lru (b_clock (p_budget p)) c)"

lemma b_clock_adjust [simp]: "b_clock (adjust b ptr n) = b_clock b"
  by (simp add: adjust_def Let_def)

lemma drop_found_lru: "proc_inv p \<Longrightarrow> over_budget p \<Longrightarrow> proc_lru p \<Longrightarrow> proc_lru (drop_found p)"
proof -
  assume p: "proc_inv p" "over_budget p" and lru: "proc_lru p"
  obtain ptr kind c where c: "gm_get (p_caches p) ptr = Some c" "c_bound c"
    and d: "drop_found p = p\<lparr>p_caches := gm_put ptr (drop_from kind c) (p_caches p),
      p_budget := adjust (p_budget p) ptr (cache_size (drop_from kind c))\<rparr>"
    by (rule drop_found_eq [OF p])
  have "bodies_lru (b_clock (p_budget p)) c"
    using lru c by (auto simp: proc_lru_def dest: gm_get_mem)
  then have "bodies_lru (b_clock (p_budget p)) (drop_from kind c)"
    by (auto simp: drop_from_def split: evictKind.splits)
  with lru show ?thesis
    by (auto simp: d proc_lru_def dest!: subsetD [OF set_gm_put_subset])
qed

lemma budget_set_lru:
  assumes "proc_inv (p\<lparr>p_budget := adjust (p_budget p) ptr n\<rparr>)" and "proc_lru p"
    and "budget_set p ptr n = Some p'"
  shows "proc_lru p'"
proof -
  let ?p = "p\<lparr>p_budget := adjust (p_budget p) ptr n\<rparr>"
  have l: "proc_lru ?p" using assms(2) by (simp add: proc_lru_def)
  obtain q where "evictUntilUnder ?p = Some q" "proc_lru q"
    using evict_all.drains_with [OF assms(1), where Q = proc_lru] l drop_found_lru by blast
  with l assms(3) show ?thesis by (auto simp: budget_set_def Let_def split: if_splits)
qed

lemma proc_do_lru:
  assumes p: "proc_inv p" "proc_lru p" and op: "op_wf op" and d: "proc_do p ptr op = Some p'"
  shows "proc_lru p'"
proof (cases "gm_get (p_caches p) ptr")
  case None
  with p d show ?thesis by (simp add: proc_do_def)
next
  case (Some c)
  have c: "cache_inv c" "within_limits c" using proc_inv_cache [OF p(1) Some] by auto
  obtain c' m where cd: "cache_do (c, b_clock (p_budget p)) op = Some (c', m)"
    and c': "cache_inv c'" "within_limits c'"
    using cache_do_ok [OF c op] by blast
  let ?p = "p\<lparr>p_caches := gm_put ptr c' (p_caches p), p_budget := (p_budget p)\<lparr>b_clock := m\<rparr>\<rparr>"
  have b: "c_bound c' = c_bound c" using cache_do_frame [OF c(1) op cd] by simp
  have m: "b_clock (p_budget p) \<le> m" and lru: "c_bound c \<Longrightarrow> bodies_lru m c'"
  proof -
    show "c_bound c \<Longrightarrow> bodies_lru m c'"
      using cache_do_lru [OF c(1) _ _ op cd] Some p(2) by (auto simp: proc_lru_def dest: gm_get_mem)
    show "b_clock (p_budget p) \<le> m" using cache_do_clock [OF c(1) op cd] .
  qed
  have l: "proc_lru ?p"
    using p(2) m lru b by (auto simp: proc_lru_def intro: bodies_lru_mono dest!: subsetD [OF set_gm_put_subset])
  show ?thesis
  proof (cases "publishes op c'")
    case None
    with Some d cd l show ?thesis by (simp add: proc_do_def Let_def)
  next
    case (Some n)
    note n = publishes_size [OF Some cd]
    show ?thesis
    proof (cases "c_bound c")
      case False
      with Some \<open>gm_get (p_caches p) ptr = Some c\<close> d cd l b show ?thesis
        by (simp add: proc_do_def Let_def publish_def)
    next
      case True
      have "proc_inv (p\<lparr>p_caches := gm_put ptr c' (p_caches p),
          p_budget := adjust (p_budget p) ptr (cache_size c')\<rparr>)"
        using adjust_inv [OF p(1) \<open>gm_get (p_caches p) ptr = Some c\<close> True _ c'] b True by simp
      then have "proc_inv (p\<lparr>p_caches := gm_put ptr c' (p_caches p),
          p_budget := adjust ((p_budget p)\<lparr>b_clock := m\<rparr>) ptr (cache_size c')\<rparr>)"
        by (simp only: proc_inv_adjust_clock)
      then have "proc_inv (?p\<lparr>p_budget := adjust (p_budget ?p) ptr n\<rparr>)" by (simp add: n)
      moreover have "budget_set ?p ptr n = Some p'"
        using Some \<open>gm_get (p_caches p) ptr = Some c\<close> d cd b True
        by (simp add: proc_do_def Let_def publish_def)
      ultimately show ?thesis using budget_set_lru l by blast
    qed
  qed
qed

lemma proc_new_lru: "proc_lru p \<Longrightarrow> proc_lru (proc_new p ptr cfg)"
  by (auto simp: proc_lru_def proc_new_def cache_bind_def NewCache_def bodies_lru_def
      dest!: subsetD [OF set_gm_put_subset])

subsection \<open>Every run of a process\<close>

inductive proc_step :: "process \<Rightarrow> process \<Rightarrow> bool" where
  step_new: "gm_get (p_caches p) ptr = None \<Longrightarrow> proc_step p (proc_new p ptr cfg)"
| step_op: "op_wf op \<Longrightarrow> proc_do p ptr op = Some p' \<Longrightarrow> proc_step p p'"

inductive_cases proc_stepE: "proc_step p p'"

definition proc_ok :: "int \<Rightarrow> process \<Rightarrow> bool" where
  "proc_ok n p \<longleftrightarrow> proc_inv p \<and> under_ceiling p \<and> proc_lru p \<and> b_max (p_budget p) = max 0 n"

interpretation proc: invariant_system "\<lambda>p. p = proc_start n" proc_step "proc_ok n" for n
proof
  show "p = proc_start n \<Longrightarrow> proc_ok n p" for p
    by (auto simp: proc_ok_def proc_start_inv proc_lru_def)
      (auto simp: proc_start_def newBudget_def)
  show "proc_ok n q" if "proc_ok n p" "proc_step p q" for p q
    using that(2)
  proof (rule proc_stepE)
    fix ptr cfg
    assume "q = proc_new p ptr cfg" and "gm_get (p_caches p) ptr = None"
    with that(1) proc_new_ok [of p ptr cfg] proc_new_lru show "proc_ok n q"
      by (simp add: proc_ok_def) (simp add: proc_new_def)
  next
    fix op ptr
    assume "op_wf op" and "proc_do p ptr op = Some q"
    with that(1) proc_do_ok [of p op ptr] proc_do_lru [of p op ptr q] show "proc_ok n q"
      by (auto simp: proc_ok_def)
  qed
qed


definition two_sessions :: process where
  "two_sessions = proc_new (proc_new (proc_start 6) 1 small_cfg) 2 small_cfg"

lemma two_sessions_reached: "reaches (\<lambda>p. p = proc_start 6) proc_step two_sessions"
proof -
  have "reaches (\<lambda>p. p = proc_start 6) proc_step (proc_start 6)" by (rule reaches_start) simp
  then have "reaches (\<lambda>p. p = proc_start 6) proc_step (proc_new (proc_start 6) 1 small_cfg)"
    by (rule reaches_step) (rule step_new, simp add: proc_start_def)
  then show ?thesis
    unfolding two_sessions_def
    by (rule reaches_step) (rule step_new, simp add: proc_start_def proc_new_def)
qed


text \<open>
  The order of eviction across sessions: a thumbnail is chosen only when no live session holds
  a byte of any body, and the body chosen is the least recently used of all the bodies of all
  sessions that hold body bytes.
\<close>

theorem victim_is_least_recent_body:
  assumes "reaches (\<lambda>p. p = proc_start n) proc_step p" and "find_victim p = Some (ptr, kind, s)"
    and "gm_get (p_caches p) other = Some c" and "c_bound c"
  shows "(kind = evictThumb \<longrightarrow> c_bodyBytes c = 0) \<and>
    (kind = evictBody \<longrightarrow> 0 < c_bodyBytes c \<longrightarrow> (\<forall>r \<in> set (c_bodies c). s \<le> br_seq r))"
proof -
  have ok: "proc_inv p" "proc_lru p"
    using proc.inv_reachable [OF assms(1)] by (auto simp: proc_ok_def)
  have c: "cache_inv c" using proc_inv_cache [OF ok(1) assms(3)] by simp
  note nn = cache_sizes_nonneg [OF c]
  have best: "\<forall>i \<in> fst ` set (b_used (p_budget p)). \<forall>w. Option.bind (gm_get (p_caches p) i) peekVictim = Some w
      \<longrightarrow> \<not> better_victim w (kind, s)"
    using find_victim_scanned [of p] assms(2) by (simp add: scanned_def)
  have body: "c_bodies c \<noteq> [] \<and> \<not> better_victim (evictBody, br_seq (last (c_bodies c))) (kind, s)"
    if pos: "0 < c_bodyBytes c"
  proof -
    have ne: "c_bodies c \<noteq> []" using c no_refs_no_bytes [of c] pos by (auto simp: cache_inv_def)
    have "0 < bound_size c" using pos nn assms(4) by (simp add: bound_size_def cache_size_def)
    then have "gm_get (b_used (p_budget p)) other \<noteq> None"
      using ok(1) assms(3) by (simp add: proc_inv_def accounted_def)
    then have "other \<in> fst ` set (b_used (p_budget p))" using gm_get_dom by metis
    moreover have "peekVictim c = Some (evictBody, br_seq (last (c_bodies c)))"
      using pos ne by (simp add: peekVictim_def)
    ultimately have "\<not> better_victim (evictBody, br_seq (last (c_bodies c))) (kind, s)"
      using best assms(3) by auto
    with ne show ?thesis by blast
  qed
  have "c_bodyBytes c = 0" if "kind = evictThumb"
    using body nn(1) that by (force simp: better_victim_def kind_less_def)
  moreover have "s \<le> br_seq r" if k: "kind = evictBody" and pos: "0 < c_bodyBytes c" and r: "r \<in> set (c_bodies c)" for r
  proof -
    have "bodies_lru (b_clock (p_budget p)) c"
      using ok(2) assms(3,4) by (auto simp: proc_lru_def dest: gm_get_mem)
    moreover obtain rs l where rs: "c_bodies c = rs @ [l]" using body pos by (metis rev_exhaust)
    ultimately have "br_seq l \<le> br_seq r" using r by (auto simp: bodies_lru_def sorted_wrt_append)
    moreover have "s \<le> br_seq l" using body k pos rs by (auto simp: better_victim_def)
    ultimately show ?thesis by simp
  qed
  ultimately show ?thesis by blast
qed

theorem victim_is_least_recent_body_witness:
  "\<exists>p c s. reaches (\<lambda>p. p = proc_start 6) proc_step p \<and> gm_get (p_caches p) 1 = Some c \<and>
    find_victim p = Some (1, evictBody, s) \<and> (\<forall>r \<in> set (c_bodies c). s \<le> br_seq r)"
proof -
  let ?k = "\<lparr>ck_AccountID = ''a'', ck_Path = ''/c/''\<rparr>"
  let ?op = "OpPutBody ?k ''1.ics'' ''four''"
  obtain p where p: "proc_do two_sessions 1 ?op = Some p"
    using proc_do_ok [of two_sessions ?op 1] proc.inv_reachable [OF two_sessions_reached]
    by (auto simp: proc_ok_def)
  have r: "reaches (\<lambda>p. p = proc_start 6) proc_step p"
    by (rule reaches_step [OF two_sessions_reached]) (rule step_op [OF _ p], simp)
  obtain c where c: "gm_get (p_caches p) 1 = Some c" "c_bound c" "0 < c_bodyBytes c"
      "find_victim p = Some (1, evictBody, 1)"
    using p that
    by (auto simp: proc_do_def two_sessions_def proc_new_def proc_start_def newBudget_def
        cache_bind_def NewCache_def small_cfg_def cc_withDefaults_def Let_def PutBody_def
        new_entry_def nextSeqLocked_def touch_def touch_list_def move_front_def
        evictLocked_def evict_bodies.simps evictThumbs.simps evict_collections.simps
        evict_etags.simps gm_put_def publish_def budget_set_def adjust_def cache_size_def
        budget_bytes_def find_victim_def peekVictim_def)
  from victim_is_least_recent_body [OF r c(4,1,2)] c r show ?thesis by blast
qed

end
