(* ===== verification/SessionScratch.thy ===== *)
theory SessionScratch
  imports SessionBudget
begin

text \<open>
  The per-session state of \<open>internal/session/session.go\<close> and the drafts of
  \<open>internal/session/scratch.go\<close>: refused edits, uploaded photos and previewed imports that wait
  for the person's next request. Each method is the section it runs under \<open>s.mu\<close>.

  Pointers are numbers: \<open>s_dek\<close> points at the key's bytes (the manager's heap \<open>m_keys\<close>),
  \<open>s_cache\<close> at a cache of the process, \<open>s_losses\<close> at a property-loss registry, which is only
  allocated and handed out here. A nil map is the empty map: reading either misses. The crop
  parameters are \<open>float64\<close>s that are stored and returned, so they are kept as their bits.
  \<open>os.Remove\<close> is recorded: an operation returns the paths it asked to delete.
\<close>

type_synonym float64_bits = int

record ConflictDraft =
  cd_Key :: string
  cd_AccountID :: string
  cd_Collection :: string
  cd_Path :: string
  cd_UID :: string
  cd_Body :: bytes

record PhotoDraft =
  pd_Key :: string
  pd_AccountID :: string
  pd_Collection :: string
  pd_UID :: string
  pd_ETag :: string
  pd_Path :: string
  pd_PanX :: float64_bits
  pd_PanY :: float64_bits
  pd_Zoom :: float64_bits
  pd_Rotate :: int

record ImportCard =
  ic_Body :: bytes
  ic_Source :: string
  ic_OriginalUID :: string
  ic_DisplayName :: string
  ic_UIDCollision :: bool
  ic_ParseError :: string

record ImportDraft =
  id_Key :: string
  id_AccountID :: string
  id_Collection :: string
  id_Cards :: "ImportCard list"

record Session =
  s_ID :: string
  s_UserID :: string
  s_Login :: string
  s_Admin :: bool
  s_CSRF :: string
  s_CreatedAt :: time
  s_dek :: "nat option"
  s_lastSeen :: time
  s_deadline :: time
  s_mustChange :: bool
  s_escrowNotice :: bool
  s_dead :: bool
  s_cache :: "nat option"
  s_losses :: "nat option"
  s_conflicts :: "(string, ConflictDraft) gomap"
  s_photos :: "(string, PhotoDraft) gomap"
  s_imports :: "(string, ImportDraft) gomap"

subsection \<open>Plain accessors\<close>

definition Session_Cache :: "Session \<Rightarrow> nat option" where "Session_Cache s = s_cache s"
definition Session_DEK :: "Session \<Rightarrow> nat option" where "Session_DEK s = s_dek s"
definition MustChangePassword :: "Session \<Rightarrow> bool" where "MustChangePassword s = s_mustChange s"
definition EscrowNotice :: "Session \<Rightarrow> bool" where "EscrowNotice s = s_escrowNotice s"

definition ClearEscrowNotice :: "Session \<Rightarrow> Session" where
  "ClearEscrowNotice s = s\<lparr>s_escrowNotice := False\<rparr>"

text \<open>\<open>fresh\<close> is the address a new registry would be allocated at.\<close>

definition Losses :: "nat \<Rightarrow> Session \<Rightarrow> Session \<times> nat" where
  "Losses fresh s =
     (case s_losses s of
        None \<Rightarrow> (s\<lparr>s_losses := Some fresh\<rparr>, fresh)
      | Some l \<Rightarrow> (s, l))"

subsection \<open>Conflict drafts\<close>

definition PutConflict :: "ConflictDraft \<Rightarrow> Session \<Rightarrow> Session" where
  "PutConflict d s = s\<lparr>s_conflicts := gm_put (cd_Key d) d (s_conflicts s)\<rparr>"

definition TakeConflict :: "string \<Rightarrow> Session \<Rightarrow> Session \<times> ConflictDraft option" where
  "TakeConflict key s =
     (case gm_get (s_conflicts s) key of
        None \<Rightarrow> (s, None)
      | Some d \<Rightarrow> (s\<lparr>s_conflicts := gm_del key (s_conflicts s)\<rparr>, Some d))"

definition PeekConflict :: "string \<Rightarrow> Session \<Rightarrow> ConflictDraft option" where
  "PeekConflict key s = gm_get (s_conflicts s) key"

definition ClearConflict :: "string \<Rightarrow> Session \<Rightarrow> Session" where
  "ClearConflict key s = s\<lparr>s_conflicts := gm_del key (s_conflicts s)\<rparr>"

subsection \<open>Photo drafts\<close>

definition PutPhotoDraft :: "PhotoDraft \<Rightarrow> Session \<Rightarrow> Session \<times> string list" where
  "PutPhotoDraft d s =
     (let gone = (case gm_get (s_photos s) (pd_Key d) of
                    None \<Rightarrow> []
                  | Some old \<Rightarrow> if pd_Path old \<noteq> [] \<and> pd_Path old \<noteq> pd_Path d then [pd_Path old] else [])
      in (s\<lparr>s_photos := gm_put (pd_Key d) d (s_photos s)\<rparr>, gone))"

definition Session_PhotoDraft :: "string \<Rightarrow> Session \<Rightarrow> PhotoDraft option" where
  "Session_PhotoDraft key s = gm_get (s_photos s) key"

definition UpdatePhotoDraft ::
    "string \<Rightarrow> float64_bits \<Rightarrow> float64_bits \<Rightarrow> float64_bits \<Rightarrow> int \<Rightarrow> Session \<Rightarrow> Session \<times> PhotoDraft option" where
  "UpdatePhotoDraft key panX panY zoom rot s =
     (case gm_get (s_photos s) key of
        None \<Rightarrow> (s, None)
      | Some d \<Rightarrow>
          (let d = d\<lparr>pd_PanX := panX, pd_PanY := panY, pd_Zoom := zoom, pd_Rotate := rot\<rparr>
           in (s\<lparr>s_photos := gm_put key d (s_photos s)\<rparr>, Some d)))"

definition TakePhotoDraft :: "string \<Rightarrow> Session \<Rightarrow> Session \<times> PhotoDraft option" where
  "TakePhotoDraft key s =
     (case gm_get (s_photos s) key of
        None \<Rightarrow> (s, None)
      | Some d \<Rightarrow> (s\<lparr>s_photos := gm_del key (s_photos s)\<rparr>, Some d))"

definition ClearPhotoDraft :: "string \<Rightarrow> Session \<Rightarrow> Session \<times> string list" where
  "ClearPhotoDraft key s =
     (case gm_get (s_photos s) key of
        None \<Rightarrow> (s, [])
      | Some d \<Rightarrow>
          (s\<lparr>s_photos := gm_del key (s_photos s)\<rparr>, if pd_Path d \<noteq> [] then [pd_Path d] else []))"

subsection \<open>Import drafts\<close>

definition PutImport :: "ImportDraft \<Rightarrow> Session \<Rightarrow> Session" where
  "PutImport d s = s\<lparr>s_imports := gm_put (id_Key d) d (s_imports s)\<rparr>"

definition PeekImport :: "string \<Rightarrow> Session \<Rightarrow> ImportDraft option" where
  "PeekImport key s = gm_get (s_imports s) key"

definition TakeImport :: "string \<Rightarrow> Session \<Rightarrow> Session \<times> ImportDraft option" where
  "TakeImport key s =
     (case gm_get (s_imports s) key of
        None \<Rightarrow> (s, None)
      | Some d \<Rightarrow> (s\<lparr>s_imports := gm_del key (s_imports s)\<rparr>, Some d))"

definition ClearImport :: "string \<Rightarrow> Session \<Rightarrow> Session" where
  "ClearImport key s = s\<lparr>s_imports := gm_del key (s_imports s)\<rparr>"

text \<open>The end of a session: the drafts go, and the uploaded originals with them.\<close>

definition wipeScratch :: "Session \<Rightarrow> Session \<times> string list" where
  "wipeScratch s =
     (s\<lparr>s_photos := [], s_conflicts := [], s_imports := [], s_losses := None\<rparr>,
      concat (map (\<lambda>(_, d). if pd_Path d \<noteq> [] then [pd_Path d] else []) (s_photos s)))"

subsection \<open>The contract of a draft store\<close>

text \<open>
  What the screens rely on: a draft is there under its key until it is taken or cleared, exactly
  once, and drafts under other keys are not touched. \<open>put\<close> and \<open>clear\<close> are the state parts of the
  operations, \<open>take\<close> returns the draft too.
\<close>

locale draft_store =
  fixes put :: "'d \<Rightarrow> Session \<Rightarrow> Session" and peek :: "string \<Rightarrow> Session \<Rightarrow> 'd option"
    and take_draft :: "string \<Rightarrow> Session \<Rightarrow> Session \<times> 'd option" and clear :: "string \<Rightarrow> Session \<Rightarrow> Session"
    and key :: "'d \<Rightarrow> string"
  assumes peek_put: "peek k (put d s) = (if k = key d then Some d else peek k s)"
    and take_peek: "snd (take_draft k s) = peek k s"
    and peek_take: "peek k' (fst (take_draft k s)) = (if k' = k then None else peek k' s)"
    and peek_clear: "peek k' (clear k s) = (if k' = k then None else peek k' s)"
begin

lemma put_then_take: "snd (take_draft (key d) (put d s)) = Some d"
  by (simp add: take_peek peek_put)

lemma take_once: "snd (take_draft k (fst (take_draft k s))) = None"
  by (simp add: take_peek peek_take)

lemma put_take_restores: "peek k (fst (take_draft (key d) (put d s))) = (if k = key d then None else peek k s)"
  by (simp add: peek_take peek_put)

lemma clear_is_take: "peek k' (clear k s) = peek k' (fst (take_draft k s))"
  by (simp add: peek_clear peek_take)

end

interpretation conflict_drafts: draft_store PutConflict PeekConflict TakeConflict ClearConflict cd_Key
  by unfold_locales
    (auto simp: PutConflict_def PeekConflict_def TakeConflict_def ClearConflict_def split: option.split)

interpretation photo_drafts: draft_store "\<lambda>d s. fst (PutPhotoDraft d s)" Session_PhotoDraft TakePhotoDraft
  "\<lambda>k s. fst (ClearPhotoDraft k s)" pd_Key
  by unfold_locales
    (auto simp: PutPhotoDraft_def Session_PhotoDraft_def TakePhotoDraft_def ClearPhotoDraft_def Let_def
      split: option.split)

interpretation import_drafts: draft_store PutImport PeekImport TakeImport ClearImport id_Key
  by unfold_locales
    (auto simp: PutImport_def PeekImport_def TakeImport_def ClearImport_def split: option.split)

text \<open>Which temporary files a session still refers to.\<close>

definition photo_files :: "Session \<Rightarrow> string set" where
  "photo_files s = {pd_Path d | k d. (k, d) \<in> set (s_photos s) \<and> pd_Path d \<noteq> []}"

lemma wipeScratch_files: "set (snd (wipeScratch s)) = photo_files s"
  by (force simp: wipeScratch_def photo_files_def)

lemma photo_files_get:
  "gm_wf (s_photos s) \<Longrightarrow>
   p \<in> photo_files s \<longleftrightarrow> (\<exists>k d. gm_get (s_photos s) k = Some d \<and> pd_Path d = p \<and> p \<noteq> [])"
  by (auto simp: photo_files_def gm_get_in)

datatype photo_op =
    PhotoPut PhotoDraft
  | PhotoUpdate string float64_bits float64_bits float64_bits int
  | PhotoTake string
  | PhotoClear string
  | PhotoWipe

text \<open>The state after an operation, the files it deleted and the file it handed over.\<close>

fun photo_do :: "photo_op \<Rightarrow> Session \<Rightarrow> Session \<times> string list \<times> string list" where
  "photo_do (PhotoPut d) s = (case PutPhotoDraft d s of (s, gone) \<Rightarrow> (s, gone, []))"
| "photo_do (PhotoUpdate k x y z r) s = (fst (UpdatePhotoDraft k x y z r s), [], [])"
| "photo_do (PhotoTake k) s =
     (case TakePhotoDraft k s of (s, d) \<Rightarrow> (s, [], case d of None \<Rightarrow> [] | Some d \<Rightarrow> [pd_Path d]))"
| "photo_do (PhotoClear k) s = (case ClearPhotoDraft k s of (s, gone) \<Rightarrow> (s, gone, []))"
| "photo_do PhotoWipe s = (case wipeScratch s of (s, gone) \<Rightarrow> (s, gone, []))"

definition other_files :: "Session \<Rightarrow> string \<Rightarrow> string set" where
  "other_files s k = {p. \<exists>k' d. k' \<noteq> k \<and> gm_get (s_photos s) k' = Some d \<and> pd_Path d = p \<and> p \<noteq> []}"

definition file_of :: "PhotoDraft \<Rightarrow> string set" where
  "file_of d = (if pd_Path d = [] then {} else {pd_Path d})"

lemma photo_files_split:
  "gm_wf (s_photos s) \<Longrightarrow> photo_files s = other_files s k \<union>
     (case gm_get (s_photos s) k of None \<Rightarrow> {} | Some d \<Rightarrow> file_of d)"
proof -
  assume w: "gm_wf (s_photos s)"
  let ?r = "other_files s k \<union> (case gm_get (s_photos s) k of None \<Rightarrow> {} | Some d \<Rightarrow> file_of d)"
  have "p \<in> ?r" if "gm_get (s_photos s) k' = Some d" "pd_Path d = p" "p \<noteq> []" for p k' d
    using that by (cases "k' = k") (auto simp: other_files_def file_of_def)
  then have "photo_files s \<subseteq> ?r" unfolding photo_files_get [OF w] subset_iff by blast
  moreover have "?r \<subseteq> photo_files s"
    unfolding subset_iff photo_files_get [OF w]
    by (auto simp: other_files_def file_of_def split: option.splits if_splits)
  ultimately show ?thesis by blast
qed

lemma photo_files_put:
  "gm_wf (s_photos s) \<Longrightarrow>
   photo_files (s\<lparr>s_photos := gm_put k d (s_photos s)\<rparr>) = other_files s k \<union> file_of d"
  by (subst photo_files_split [where k = k]) (auto simp: other_files_def)

lemma photo_files_del:
  "gm_wf (s_photos s) \<Longrightarrow>
   photo_files (s\<lparr>s_photos := gm_del k (s_photos s)\<rparr>) = other_files s k"
  by (subst photo_files_split [where k = k]) (auto simp: other_files_def)

text \<open>
  An uploaded photo's temporary file is never left behind: whatever draft operation a session
  performs, each file it stops referring to is deleted by that operation or handed to its caller
  (\<open>TakePhotoDraft\<close>), and it deletes no file that was not its own.
\<close>

theorem photo_files_not_left_behind:
  assumes "gm_wf (s_photos s)" and "photo_do op s = (s', gone, handed)"
  shows "photo_files s - photo_files s' \<subseteq> set gone \<union> set handed \<and> set gone \<subseteq> photo_files s"
proof (cases op)
  case (PhotoPut d)
  with assms have s': "s' = s\<lparr>s_photos := gm_put (pd_Key d) d (s_photos s)\<rparr>"
    and "gone = (case gm_get (s_photos s) (pd_Key d) of None \<Rightarrow> []
      | Some old \<Rightarrow> if pd_Path old \<noteq> [] \<and> pd_Path old \<noteq> pd_Path d then [pd_Path old] else [])"
    by (auto simp: PutPhotoDraft_def Let_def)
  then show ?thesis
    unfolding s' photo_files_put [OF assms(1)] photo_files_split [OF assms(1), of "pd_Key d"]
    by (auto simp: file_of_def split: option.splits)
next
  case (PhotoUpdate k x y z r)
  show ?thesis
  proof (cases "gm_get (s_photos s) k")
    case None
    with PhotoUpdate assms show ?thesis by (simp add: UpdatePhotoDraft_def)
  next
    case (Some d)
    with PhotoUpdate assms
    have s': "s' = s\<lparr>s_photos := gm_put k (d\<lparr>pd_PanX := x, pd_PanY := y, pd_Zoom := z, pd_Rotate := r\<rparr>) (s_photos s)\<rparr>"
      and "gone = []"
      by (auto simp: UpdatePhotoDraft_def Let_def)
    with Some show ?thesis
      unfolding s' photo_files_put [OF assms(1)] photo_files_split [OF assms(1), of k]
      by (auto simp: file_of_def)
  qed
next
  case (PhotoTake k)
  with assms show ?thesis
    by (cases "gm_get (s_photos s) k")
      (auto simp: TakePhotoDraft_def photo_files_del photo_files_split [OF assms(1), of k] file_of_def
        split: if_splits)
next
  case (PhotoClear k)
  with assms show ?thesis
    by (cases "gm_get (s_photos s) k")
      (auto simp: ClearPhotoDraft_def photo_files_del photo_files_split [OF assms(1), of k] file_of_def
        split: if_splits)
next
  case PhotoWipe
  with assms wipeScratch_files [of s] show ?thesis by (auto split: prod.splits)
qed

definition blank_session :: Session where
  "blank_session = \<lparr>s_ID = ''id'', s_UserID = ''u'', s_Login = ''ann'', s_Admin = False, s_CSRF = ''c'',
     s_CreatedAt = 0, s_dek = None, s_lastSeen = 0, s_deadline = 0, s_mustChange = False,
     s_escrowNotice = False, s_dead = False, s_cache = None, s_losses = None, s_conflicts = [],
     s_photos = [], s_imports = []\<rparr>"

definition photo_at :: "string \<Rightarrow> string \<Rightarrow> PhotoDraft" where
  "photo_at key path = \<lparr>pd_Key = key, pd_AccountID = ''a'', pd_Collection = ''/c/'', pd_UID = ''u'',
     pd_ETag = ''e'', pd_Path = path, pd_PanX = 0, pd_PanY = 0, pd_Zoom = 0, pd_Rotate = 0\<rparr>"

theorem photo_files_not_left_behind_witness:
  "let s = fst (PutPhotoDraft (photo_at ''k'' ''/tmp/1'') blank_session);
       (s', gone, handed) = photo_do (PhotoPut (photo_at ''k'' ''/tmp/2'')) s
   in gone = [''/tmp/1''] \<and> photo_files s - photo_files s' \<subseteq> set gone \<union> set handed"
proof -
  let ?s = "fst (PutPhotoDraft (photo_at ''k'' ''/tmp/1'') blank_session)"
  obtain s' gone handed where d: "photo_do (PhotoPut (photo_at ''k'' ''/tmp/2'')) ?s = (s', gone, handed)"
    by (metis prod_cases3)
  have w: "gm_wf (s_photos ?s)"
    by (simp add: PutPhotoDraft_def Let_def blank_session_def)
  have "gone = [''/tmp/1'']"
    using d by (simp add: PutPhotoDraft_def Let_def blank_session_def photo_at_def)
  then show ?thesis using photo_files_not_left_behind [OF w d] d unfolding Let_def by simp
qed

end
