(* ===== verification/Go_Encoding.thy ===== *)
theory Go_Encoding
  imports Carrel_Prelude "HOL-Library.Char_ord"
begin

text \<open>
  The two encodings of random bytes that identifiers use: \<open>base64.RawURLEncoding\<close> and
  \<open>hex.EncodeToString\<close>, with the fact identifiers rest on: different bytes, different texts.
\<close>

subsection \<open>Hexadecimal\<close>

definition hex_digit :: "nat \<Rightarrow> char" where
  "hex_digit n = ''0123456789abcdef'' ! n"

definition hex_of_byte :: "char \<Rightarrow> string" where
  "hex_of_byte c = [hex_digit (of_char c div 16), hex_digit (of_char c mod 16)]"

definition hex_encode :: "string \<Rightarrow> string" where
  "hex_encode bs = concat (map hex_of_byte bs)"

lemma length_hex_encode: "length (hex_encode bs) = 2 * length bs"
  by (induction bs) (simp_all add: hex_encode_def hex_of_byte_def)

lemma hex_digit_inj:
  assumes "n < 16" "m < 16" "hex_digit n = hex_digit m"
  shows "n = m"
proof -
  have "distinct ''0123456789abcdef''" by simp
  then show ?thesis
    using assms nth_eq_iff_index_eq [of "''0123456789abcdef''" n m] by (simp add: hex_digit_def)
qed

lemma of_char_bound: "(of_char c :: nat) < 256"
  using nat_of_char_less_256 [of c] by simp

lemma hex_of_byte_inj: "hex_of_byte c = hex_of_byte d \<Longrightarrow> c = d"
proof -
  assume h: "hex_of_byte c = hex_of_byte d"
  let ?c = "of_char c :: nat" and ?d = "of_char d :: nat"
  have "?c div 16 = ?d div 16" "?c mod 16 = ?d mod 16"
    using h of_char_bound [of c] of_char_bound [of d]
    by (auto simp: hex_of_byte_def less_mult_imp_div_less intro!: hex_digit_inj)
  then have "?c = ?d" by (metis div_mult_mod_eq)
  then show "c = d" by (simp only: of_char_eq_iff)
qed

lemma hex_encode_inj: "hex_encode xs = hex_encode ys \<Longrightarrow> xs = ys"
proof (induction xs arbitrary: ys)
  case Nil
  then show ?case by (cases ys) (simp_all add: hex_encode_def hex_of_byte_def)
next
  case (Cons x xs)
  then obtain y ys' where ys: "ys = y # ys'"
    by (cases ys) (simp_all add: hex_encode_def hex_of_byte_def)
  with Cons.prems have "hex_of_byte x = hex_of_byte y" "hex_encode xs = hex_encode ys'"
    by (simp_all add: hex_encode_def hex_of_byte_def)
  with Cons.IH ys show ?case by (simp add: hex_of_byte_inj)
qed

subsection \<open>Base64, URL alphabet, no padding\<close>

definition b64_alphabet :: string where
  "b64_alphabet = ''ABCDEFGHIJKLMNOPQRSTUVWXYZabcdefghijklmnopqrstuvwxyz0123456789-_''"

definition b64_digit :: "nat \<Rightarrow> char" where
  "b64_digit n = b64_alphabet ! n"

fun base64url :: "string \<Rightarrow> string" where
  "base64url [] = []"
| "base64url [a] = (let x = of_char a in [b64_digit (x div 4), b64_digit (x mod 4 * 16)])"
| "base64url [a, b] =
     (let x = of_char a; y = of_char b
      in [b64_digit (x div 4), b64_digit (x mod 4 * 16 + y div 16), b64_digit (y mod 16 * 4)])"
| "base64url (a # b # c # rest) =
     (let x = of_char a; y = of_char b; z = of_char c
      in [b64_digit (x div 4), b64_digit (x mod 4 * 16 + y div 16),
          b64_digit (y mod 16 * 4 + z div 64), b64_digit (z mod 64)] @ base64url rest)"

lemma b64_digit_inj: "n < 64 \<Longrightarrow> m < 64 \<Longrightarrow> b64_digit n = b64_digit m \<Longrightarrow> n = m"
proof -
  have "distinct b64_alphabet" "length b64_alphabet = 64" by (simp_all add: b64_alphabet_def)
  then show "n < 64 \<Longrightarrow> m < 64 \<Longrightarrow> b64_digit n = b64_digit m \<Longrightarrow> n = m"
    using nth_eq_iff_index_eq [of b64_alphabet n m] by (simp add: b64_digit_def)
qed

lemma digits_eq:
  assumes "a * n + h = a' * n + h'" and "h < n" and "h' < (n :: nat)"
  shows "a = a' \<and> h = h'"
proof -
  have "(a * n + h) div n = a" "(a * n + h) mod n = h"
    and "(a' * n + h') div n = a'" "(a' * n + h') mod n = h'"
    using assms(2,3) by simp_all
  with assms(1) show ?thesis by simp
qed

lemma base64url_Nil_iff: "base64url xs = [] \<longleftrightarrow> xs = []"
  by (cases xs rule: base64url.cases) (simp_all add: Let_def)

lemma b64_first:
  assumes "b64_digit (x div 4) = b64_digit (x' div 4)" "x < 256" "x' < 256"
    and "b64_digit (x mod 4 * 16 + h) = b64_digit (x' mod 4 * 16 + h')" "h < 16" "h' < 16"
  shows "x = x' \<and> h = h'"
proof -
  have "x div 4 = x' div 4" using assms(1-3) by (intro b64_digit_inj) auto
  moreover have "x mod 4 * 16 + h = x' mod 4 * 16 + h'"
  proof (rule b64_digit_inj [OF _ _ assms(4)])
    have "x mod 4 < 4" "x' mod 4 < 4" by simp_all
    then show "x mod 4 * 16 + h < 64" "x' mod 4 * 16 + h' < 64" using assms(5,6) by linarith+
  qed
  then have "x mod 4 = x' mod 4 \<and> h = h'" using assms(5,6) by (rule digits_eq)
  ultimately show ?thesis by (metis div_mult_mod_eq)
qed

lemma b64_second:
  assumes "y div 16 = y' div 16"
    and "b64_digit (y mod 16 * 4 + h) = b64_digit (y' mod 16 * 4 + h')" "h < 4" "h' < (4 :: nat)"
  shows "y = y' \<and> h = h'"
proof -
  have "y mod 16 * 4 + h = y' mod 16 * 4 + h'"
  proof (rule b64_digit_inj [OF _ _ assms(2)])
    have "y mod 16 < 16" "y' mod 16 < 16" by simp_all
    then show "y mod 16 * 4 + h < 64" "y' mod 16 * 4 + h' < 64" using assms(3,4) by linarith+
  qed
  then have "y mod 16 = y' mod 16 \<and> h = h'" using assms(3,4) by (rule digits_eq)
  with assms(1) show ?thesis by (metis div_mult_mod_eq)
qed

text \<open>Two texts of the same number of bytes are the same text only for the same bytes.\<close>

lemma base64url_inj: "length xs = length ys \<Longrightarrow> base64url xs = base64url ys \<Longrightarrow> xs = ys"
proof (induction xs arbitrary: ys rule: base64url.induct)
  case 1
  then show ?case by simp
next
  case (2 a)
  then obtain a' where ys: "ys = [a']" by (cases ys) auto
  let ?x = "of_char a :: nat" and ?x' = "of_char a' :: nat"
  have "?x = ?x' \<and> (0::nat) = 0"
    using 2 ys of_char_bound by (intro b64_first) (simp_all add: Let_def less_mult_imp_div_less)
  with ys show ?case by simp
next
  case (3 a b)
  then obtain a' b' where ys: "ys = [a', b']" by (cases ys rule: base64url.cases) auto
  let ?x = "of_char a :: nat" and ?x' = "of_char a' :: nat"
  let ?y = "of_char b :: nat" and ?y' = "of_char b' :: nat"
  have "?x = ?x' \<and> ?y div 16 = ?y' div 16"
    using 3 ys of_char_bound [of a] of_char_bound [of a'] of_char_bound [of b] of_char_bound [of b']
    by (intro b64_first) (simp_all add: Let_def less_mult_imp_div_less)
  moreover from this have "?y = ?y' \<and> (0::nat) = 0"
    using 3 ys by (intro b64_second) (simp_all add: Let_def less_mult_imp_div_less)
  ultimately show ?case using ys by simp
next
  case (4 a b c rest)
  then obtain a' b' c' rest' where ys: "ys = a' # b' # c' # rest'"
    by (cases ys rule: base64url.cases) auto
  let ?x = "of_char a :: nat" and ?x' = "of_char a' :: nat"
  let ?y = "of_char b :: nat" and ?y' = "of_char b' :: nat"
  let ?z = "of_char c :: nat" and ?z' = "of_char c' :: nat"
  have 1: "?x = ?x' \<and> ?y div 16 = ?y' div 16"
    using "4.prems" ys of_char_bound [of a] of_char_bound [of a'] of_char_bound [of b] of_char_bound [of b']
    by (intro b64_first) (simp_all add: Let_def less_mult_imp_div_less)
  moreover from this have 2: "?y = ?y' \<and> ?z div 64 = ?z' div 64"
    using "4.prems" ys of_char_bound [of c] of_char_bound [of c']
    by (intro b64_second) (simp_all add: Let_def less_mult_imp_div_less)
  moreover have "?z mod 64 = ?z' mod 64"
    using "4.prems" ys by (intro b64_digit_inj) (simp_all add: Let_def)
  ultimately have "?x = ?x'" "?y = ?y'" "?z = ?z'" by (metis div_mult_mod_eq)+
  moreover have "rest = rest'" using "4.IH" "4.prems" ys by (simp add: Let_def)
  ultimately show ?case using ys by simp
qed

end
