(* ===== verification/SessionManager.thy ===== *)
theory SessionManager
  imports SessionScratch Go_Encoding "HOL-Library.Monad_Syntax"
begin

text \<open>
  \<open>internal/session/session.go\<close>: the in-memory session store and keyring. The manager's maps hold
  pointers, so the state has a heap of sessions (\<open>m_heap\<close>) beside the map from identifiers to
  pointers (\<open>m_sessions\<close>) and the index by user (\<open>m_byUser\<close>, a map to sets kept as lists without
  duplicates). A data key is a slice that several holders alias: \<open>m_keys\<close> maps the address of a
  key's array to its bytes, and zeroing an address zeroes it for every holder.

  Every method is the section it runs under \<open>m.mu\<close>. The clock reading and the random bytes it
  draws are arguments. A method that may evict from the caches returns an option, \<open>None\<close> meaning
  that it never returns. \<open>m_ended\<close> and \<open>m_removed\<close> record the calls of \<open>OnEnd\<close> and \<open>os.Remove\<close>.
\<close>

record User =
  u_ID :: string
  u_Login :: string
  u_Admin :: bool
  u_MustChangePassword :: bool
  u_EscrowNotice :: bool

record Session_Info =
  si_ID :: string
  si_UserID :: string
  si_Login :: string
  si_CreatedAt :: time
  si_LastSeen :: time
  si_ExpiresAt :: time

record mgr_Options =
  mo_Idle :: duration
  mo_Absolute :: duration
  mo_Cache :: CacheConfig

definition DefaultIdle :: duration where "DefaultIdle = 12 * hour"
definition DefaultAbsolute :: duration where "DefaultAbsolute = 7 * 24 * hour"

definition mgr_withDefaults :: "mgr_Options \<Rightarrow> mgr_Options" where
  "mgr_withDefaults op =
     (let op = (if mo_Idle op \<le> 0 then op\<lparr>mo_Idle := DefaultIdle\<rparr> else op);
          op = (if mo_Absolute op \<le> 0 then op\<lparr>mo_Absolute := DefaultAbsolute\<rparr> else op)
      in op\<lparr>mo_Cache := cc_withDefaults (mo_Cache op)\<rparr>)"

record Manager =
  m_opts :: mgr_Options
  m_proc :: process
  m_heap :: "(nat, Session) gomap"
  m_sessions :: "(string, nat) gomap"
  m_byUser :: "(string, string list) gomap"
  m_keys :: "(nat, bytes) gomap"
  m_ended :: "string list"
  m_removed :: "string list"
  m_next :: nat

definition mgr_New :: "mgr_Options \<Rightarrow> Manager" where
  "mgr_New op =
     (let op = mgr_withDefaults op
      in \<lparr>m_opts = op, m_proc = proc_start (MaxProcessBytes (mo_Cache op)), m_heap = [],
          m_sessions = [], m_byUser = [], m_keys = [], m_ended = [], m_removed = [], m_next = 0\<rparr>)"

definition randomID :: "bytes option \<Rightarrow> string option" where
  "randomID b = map_option base64url b"

text \<open>\<open>crypto.Key.Zero\<close> through a pointer that may be nil.\<close>

definition zero_key :: "nat option \<Rightarrow> (nat, bytes) gomap \<Rightarrow> (nat, bytes) gomap" where
  "zero_key kp keys =
     (case kp of
        None \<Rightarrow> keys
      | Some k \<Rightarrow>
          (case gm_get keys k of
             None \<Rightarrow> keys
           | Some b \<Rightarrow> gm_put k (replicate (length b) (CHR 0x00)) keys))"

definition user_ids :: "Manager \<Rightarrow> string \<Rightarrow> string list" where
  "user_ids m u = (case gm_get (m_byUser m) u of None \<Rightarrow> [] | Some sids \<Rightarrow> sids)"

definition mgr_insert :: "nat \<Rightarrow> Session \<Rightarrow> Manager \<Rightarrow> Manager" where
  "mgr_insert sp s m =
     (let sids = user_ids m (s_UserID s)
      in m\<lparr>m_sessions := gm_put (s_ID s) sp (m_sessions m),
           m_byUser := gm_put (s_UserID s) (if s_ID s \<in> set sids then sids else sids @ [s_ID s])
             (m_byUser m)\<rparr>)"

definition detach :: "Session \<Rightarrow> Manager \<Rightarrow> Manager" where
  "detach s m =
     (let m = m\<lparr>m_sessions := gm_del (s_ID s) (m_sessions m)\<rparr>
      in case gm_get (m_byUser m) (s_UserID s) of
           None \<Rightarrow> m
         | Some sids \<Rightarrow>
             (let sids = filter (\<lambda>i. i \<noteq> s_ID s) sids
              in if sids = [] then m\<lparr>m_byUser := gm_del (s_UserID s) (m_byUser m)\<rparr>
                 else m\<lparr>m_byUser := gm_put (s_UserID s) sids (m_byUser m)\<rparr>))"

text \<open>\<open>Create\<close>: the session at a fresh address, with a fresh cache bound to the budget.\<close>

definition Create ::
    "Manager \<Rightarrow> time \<Rightarrow> bytes option \<Rightarrow> bytes option \<Rightarrow> User \<Rightarrow> nat \<Rightarrow> Manager \<times> nat option" where
  "Create m now rnd1 rnd2 u dek =
     (case randomID rnd1 of
        None \<Rightarrow> (m, None)
      | Some sid \<Rightarrow>
          (case randomID rnd2 of
             None \<Rightarrow> (m, None)
           | Some csrf \<Rightarrow>
               (let sp = m_next m;
                    cp = Suc (m_next m);
                    s = \<lparr>s_ID = sid, s_UserID = u_ID u, s_Login = u_Login u, s_Admin = u_Admin u,
                         s_CSRF = csrf, s_CreatedAt = now, s_dek = Some dek, s_lastSeen = now,
                         s_deadline = time_add now (mo_Absolute (m_opts m)),
                         s_mustChange = u_MustChangePassword u, s_escrowNotice = u_EscrowNotice u,
                         s_dead = False, s_cache = Some cp, s_losses = None, s_conflicts = [],
                         s_photos = [], s_imports = []\<rparr>;
                    m = m\<lparr>m_next := m_next m + 2,
                          m_proc := proc_new (m_proc m) cp (mo_Cache (m_opts m)),
                          m_heap := gm_put sp s (m_heap m)\<rparr>
                in (mgr_insert sp s m, Some sp))))"

definition expired :: "Manager \<Rightarrow> Session \<Rightarrow> time \<Rightarrow> bool" where
  "expired m s now \<longleftrightarrow>
     s_dead s \<or> \<not> now < s_deadline s \<or> time_sub now (s_lastSeen s) \<ge> mo_Idle (m_opts m)"

definition mgr_remove :: "nat \<Rightarrow> Manager \<Rightarrow> Manager option" where
  "mgr_remove sp m =
     (case gm_get (m_heap m) sp of
        None \<Rightarrow> Some m
      | Some s \<Rightarrow> do {
          proc \<leftarrow> (case s_cache s of
                    None \<Rightarrow> Some (m_proc m)
                  | Some c \<Rightarrow> proc_do (m_proc m) c OpWipe);
          let s = s\<lparr>s_cache := None\<rparr>;
          let (s, gone) = wipeScratch s;
          let m = m\<lparr>m_proc := proc, m_removed := m_removed m @ gone,
                     m_keys := zero_key (s_dek s) (m_keys m)\<rparr>;
          let s = s\<lparr>s_dek := None, s_dead := True\<rparr>;
          let m = detach s (m\<lparr>m_heap := gm_put sp s (m_heap m)\<rparr>);
          Some (m\<lparr>m_ended := m_ended m @ [s_ID s]\<rparr>)
        })"

definition mgr_Get :: "Manager \<Rightarrow> time \<Rightarrow> string \<Rightarrow> (Manager \<times> nat option) option" where
  "mgr_Get m now sid =
     (if sid = [] then Some (m, None)
      else
        (case gm_get (m_sessions m) sid of
           None \<Rightarrow> Some (m, None)
         | Some sp \<Rightarrow>
             (case gm_get (m_heap m) sp of
                None \<Rightarrow> Some (m, None)
              | Some s \<Rightarrow>
                  if expired m s now then map_option (\<lambda>m. (m, None)) (mgr_remove sp m)
                  else Some (m\<lparr>m_heap := gm_put sp (s\<lparr>s_lastSeen := now\<rparr>) (m_heap m)\<rparr>, Some sp))))"

definition Rotate :: "Manager \<Rightarrow> time \<Rightarrow> bytes option \<Rightarrow> string \<Rightarrow> Manager \<times> nat option" where
  "Rotate m now rnd sid =
     (case randomID rnd of
        None \<Rightarrow> (m, None)
      | Some next \<Rightarrow>
          (case gm_get (m_sessions m) sid of
             None \<Rightarrow> (m, None)
           | Some old_p \<Rightarrow>
               (case gm_get (m_heap m) old_p of
                  None \<Rightarrow> (m, None)
                | Some old \<Rightarrow>
                    (let fresh = \<lparr>s_ID = next, s_UserID = s_UserID old, s_Login = s_Login old,
                           s_Admin = s_Admin old, s_CSRF = s_CSRF old, s_CreatedAt = s_CreatedAt old,
                           s_dek = s_dek old, s_lastSeen = now, s_deadline = s_deadline old,
                           s_mustChange = s_mustChange old, s_escrowNotice = s_escrowNotice old,
                           s_dead = False, s_cache = s_cache old, s_losses = s_losses old,
                           s_conflicts = s_conflicts old, s_photos = s_photos old, s_imports = []\<rparr>;
                         old = old\<lparr>s_dek := None, s_cache := None, s_losses := None,
                           s_conflicts := [], s_photos := [], s_dead := True\<rparr>;
                         sp = m_next m;
                         m = m\<lparr>m_next := Suc (m_next m),
                               m_heap := gm_put sp fresh (gm_put old_p old (m_heap m))\<rparr>
                     in (mgr_insert sp fresh (detach old m), Some sp)))))"

definition mgr_Destroy :: "Manager \<Rightarrow> string \<Rightarrow> Manager option" where
  "mgr_Destroy m sid =
     (case gm_get (m_sessions m) sid of None \<Rightarrow> Some m | Some sp \<Rightarrow> mgr_remove sp m)"

fun DestroyUser_loop :: "string list \<Rightarrow> Manager \<times> nat \<Rightarrow> (Manager \<times> nat) option" where
  "DestroyUser_loop [] (m, n) = Some (m, n)"
| "DestroyUser_loop (sid # sids) (m, n) =
     (case gm_get (m_sessions m) sid of
        None \<Rightarrow> DestroyUser_loop sids (m, n)
      | Some sp \<Rightarrow> Option.bind (mgr_remove sp m) (\<lambda>m. DestroyUser_loop sids (m, Suc n)))"

definition DestroyUser :: "Manager \<Rightarrow> string \<Rightarrow> (Manager \<times> nat) option" where
  "DestroyUser m userID = DestroyUser_loop (user_ids m userID) (m, 0)"

fun sweep_loop :: "time \<Rightarrow> nat list \<Rightarrow> Manager \<times> nat \<Rightarrow> (Manager \<times> nat) option" where
  "sweep_loop now [] (m, n) = Some (m, n)"
| "sweep_loop now (sp # sps) (m, n) =
     (case gm_get (m_heap m) sp of
        None \<Rightarrow> sweep_loop now sps (m, n)
      | Some s \<Rightarrow>
          if expired m s now
          then Option.bind (mgr_remove sp m) (\<lambda>m. sweep_loop now sps (m, Suc n))
          else sweep_loop now sps (m, n))"

definition sweepLocked :: "Manager \<Rightarrow> time \<Rightarrow> (Manager \<times> nat) option" where
  "sweepLocked m now = sweep_loop now (map snd (m_sessions m)) (m, 0)"

definition mgr_Sweep :: "Manager \<Rightarrow> time \<Rightarrow> (Manager \<times> nat) option" where
  "mgr_Sweep m now = sweepLocked m now"

definition mgr_Count :: "Manager \<Rightarrow> time \<Rightarrow> string \<Rightarrow> (Manager \<times> nat) option" where
  "mgr_Count m now userID = map_option (\<lambda>(m, _). (m, length (user_ids m userID))) (sweepLocked m now)"

definition session_info :: "Session \<Rightarrow> Session_Info" where
  "session_info s = \<lparr>si_ID = s_ID s, si_UserID = s_UserID s, si_Login = s_Login s,
     si_CreatedAt = s_CreatedAt s, si_LastSeen = s_lastSeen s, si_ExpiresAt = s_deadline s\<rparr>"

definition mgr_Sessions :: "Manager \<Rightarrow> time \<Rightarrow> string \<Rightarrow> (Manager \<times> Session_Info list) option" where
  "mgr_Sessions m now userID =
     map_option (\<lambda>(m, _). (m, List.map_filter (\<lambda>sid.
       Option.bind (gm_get (m_sessions m) sid) (\<lambda>sp. map_option session_info (gm_get (m_heap m) sp)))
         (user_ids m userID)))
       (sweepLocked m now)"

definition set_must :: "bool \<Rightarrow> nat \<Rightarrow> Manager \<Rightarrow> Manager" where
  "set_must must sp m =
     (case gm_get (m_heap m) sp of
        None \<Rightarrow> m
      | Some s \<Rightarrow> m\<lparr>m_heap := gm_put sp (s\<lparr>s_mustChange := must\<rparr>) (m_heap m)\<rparr>)"

definition mgr_SetMustChangePassword :: "Manager \<Rightarrow> string \<Rightarrow> bool \<Rightarrow> Manager" where
  "mgr_SetMustChangePassword m userID must =
     fold (\<lambda>sid m. case gm_get (m_sessions m) sid of None \<Rightarrow> m | Some sp \<Rightarrow> set_must must sp m)
       (user_ids m userID) m"

fun Close_loop :: "nat list \<Rightarrow> Manager \<Rightarrow> Manager option" where
  "Close_loop [] m = Some m"
| "Close_loop (sp # sps) m = Option.bind (mgr_remove sp m) (Close_loop sps)"

definition mgr_Close :: "Manager \<Rightarrow> Manager option" where
  "mgr_Close m = Close_loop (map snd (m_sessions m)) m"

definition mgr_Len :: "Manager \<Rightarrow> nat" where
  "mgr_Len m = length (m_sessions m)"

text \<open>\<open>CheckCSRF\<close>, on a session that is not nil; \<open>crypto.Equal\<close> compares in constant time.\<close>

definition CheckCSRF :: "Session option \<Rightarrow> string \<Rightarrow> bool" where
  "CheckCSRF s token =
     (case s of
        None \<Rightarrow> False
      | Some s \<Rightarrow> if s_CSRF s = [] \<or> token = [] then False else s_CSRF s = token)"

subsection \<open>The invariant\<close>

definition live_at :: "Manager \<Rightarrow> string \<Rightarrow> Session option" where
  "live_at m sid = Option.bind (gm_get (m_sessions m) sid) (gm_get (m_heap m))"

definition zeroed :: "bytes \<Rightarrow> bool" where
  "zeroed b \<longleftrightarrow> set b \<subseteq> {CHR 0x00}"

text \<open>What a session reachable through the map looks like, and one that is not.\<close>

definition shells_ok :: "Manager \<Rightarrow> bool" where
  "shells_ok m \<longleftrightarrow>
     (\<forall>sid sp. gm_get (m_sessions m) sid = Some sp \<longrightarrow>
        (\<exists>s. gm_get (m_heap m) sp = Some s \<and> s_ID s = sid \<and> \<not> s_dead s \<and> s_dek s \<noteq> None \<and> s_cache s \<noteq> None)) \<and>
     (\<forall>sp s. gm_get (m_heap m) sp = Some s \<longrightarrow>
        gm_get (m_sessions m) (s_ID s) = Some sp \<or> s_dead s \<and> s_dek s = None \<and> s_cache s = None)"

definition index_ok :: "Manager \<Rightarrow> bool" where
  "index_ok m \<longleftrightarrow>
     (\<forall>u sid. sid \<in> set (user_ids m u) \<longleftrightarrow> (\<exists>s. live_at m sid = Some s \<and> s_UserID s = u)) \<and>
     (\<forall>u. distinct (user_ids m u))"

text \<open>
  No key belongs to two sessions, and a key that is not all zero belongs to a live session; \<open>ks\<close>
  are the keys on their way from one holder to the next.
\<close>

definition keys_ok :: "nat set \<Rightarrow> Manager \<Rightarrow> bool" where
  "keys_ok ks m \<longleftrightarrow>
     (\<forall>a b s t. live_at m a = Some s \<longrightarrow> live_at m b = Some t \<longrightarrow> s_dek s = s_dek t \<longrightarrow> a = b) \<and>
     (\<forall>k b. gm_get (m_keys m) k = Some b \<longrightarrow>
        zeroed b \<or> k \<in> ks \<or> (\<exists>sid s. live_at m sid = Some s \<and> s_dek s = Some k))"

definition fresh_ok :: "Manager \<Rightarrow> bool" where
  "fresh_ok m \<longleftrightarrow> (\<forall>sp. gm_get (m_heap m) sp \<noteq> None \<longrightarrow> sp < m_next m) \<and>
     (\<forall>c. gm_get (p_caches (m_proc m)) c \<noteq> None \<longrightarrow> c < m_next m)"

definition mgr_inv_but :: "nat set \<Rightarrow> Manager \<Rightarrow> bool" where
  "mgr_inv_but ks m \<longleftrightarrow> gm_wf (m_sessions m) \<and> shells_ok m \<and> index_ok m \<and> keys_ok ks m \<and>
     fresh_ok m \<and> (\<exists>n. proc_ok n (m_proc m))"

abbreviation mgr_inv :: "Manager \<Rightarrow> bool" where
  "mgr_inv m \<equiv> mgr_inv_but {} m"

lemmas mgr_inv_def = mgr_inv_but_def

lemma proc_do_domain:
  assumes "proc_ok n p" and "op_wf op" and "proc_do p ptr op = Some p'"
  shows "proc_ok n p' \<and> (\<forall>c. gm_get (p_caches p') c \<noteq> None \<longrightarrow> gm_get (p_caches p) c \<noteq> None)"
proof -
  have ok: "proc_ok n p'"
    using assms proc_do_ok [of p op ptr] proc_do_lru [of p op ptr p'] by (auto simp: proc_ok_def)
  let ?Q = "\<lambda>s. \<forall>c. gm_get (p_caches s) c \<noteq> None \<longrightarrow> gm_get (p_caches p) c \<noteq> None"
  have step: "?Q (drop_found s)" if "?Q s" for s
    using that by (auto simp: drop_found_def dropVictim_def Let_def split: option.splits if_splits)
  have set: "?Q s'" if bs: "budget_set s ptr m = Some s'" and qs: "?Q s"
    and inv: "proc_inv (s\<lparr>p_budget := adjust (p_budget s) ptr m\<rparr>)" for s s' m
  proof -
    let ?s = "s\<lparr>p_budget := adjust (p_budget s) ptr m\<rparr>"
    have "?Q ?s" using qs by simp
    then obtain q where "evictUntilUnder ?s = Some q" "?Q q"
      using evict_all.drains_with [OF inv, where Q = ?Q] step by blast
    with \<open>?Q ?s\<close> bs show ?thesis by (auto simp: budget_set_def Let_def split: if_splits)
  qed
  show ?thesis
  proof (cases "gm_get (p_caches p) ptr")
    case None
    with ok assms(3) show ?thesis by (simp add: proc_do_def)
  next
    case (Some c)
    have c: "cache_inv c" "within_limits c"
      using assms(1) proc_inv_cache [OF _ Some] by (auto simp: proc_ok_def)
    obtain c' k where cd: "cache_do (c, b_clock (p_budget p)) op = Some (c', k)"
      and c': "cache_inv c'" "within_limits c'"
      using cache_do_ok [OF c assms(2)] by blast
    have b: "c_bound c' = c_bound c" using cache_do_frame [OF c(1) assms(2) cd] by simp
    let ?p = "p\<lparr>p_caches := gm_put ptr c' (p_caches p), p_budget := (p_budget p)\<lparr>b_clock := k\<rparr>\<rparr>"
    have Q: "?Q ?p" using Some by auto
    show ?thesis
    proof (cases "publishes op c'")
      case None
      with Some cd assms(3) have "p' = ?p" by (simp add: proc_do_def Let_def)
      with Q ok show ?thesis by simp
    next
      case (Some v)
      have pd: "publish ?p ptr v = Some p'"
        using assms(3) Some \<open>gm_get (p_caches p) ptr = Some c\<close> cd by (simp add: proc_do_def Let_def)
      show ?thesis
      proof (cases "c_bound c")
        case False
        with pd b have "p' = ?p" by (simp add: publish_def)
        with Q ok show ?thesis by simp
      next
        case True
        have "proc_inv (p\<lparr>p_caches := gm_put ptr c' (p_caches p),
            p_budget := adjust (p_budget p) ptr (cache_size c')\<rparr>)"
          using adjust_inv [OF _ \<open>gm_get (p_caches p) ptr = Some c\<close> True _ c'] b True assms(1)
          by (simp add: proc_ok_def)
        then have "proc_inv (p\<lparr>p_caches := gm_put ptr c' (p_caches p),
            p_budget := adjust ((p_budget p)\<lparr>b_clock := k\<rparr>) ptr (cache_size c')\<rparr>)"
          by (simp only: proc_inv_adjust_clock)
        then have "proc_inv (?p\<lparr>p_budget := adjust (p_budget ?p) ptr v\<rparr>)"
          by (simp add: publishes_size [OF Some cd])
        moreover have "budget_set ?p ptr v = Some p'" using pd b True by (simp add: publish_def)
        ultimately show ?thesis using set Q ok by blast
      qed
    qed
  qed
qed

lemma proc_ok_start: "proc_ok n (proc_start n)"
  by (rule proc.inv_reachable [OF reaches_start]) simp

lemma mgr_New_inv: "mgr_inv (mgr_New op)"
proof -
  have "p_caches (proc_start n) = []" for n by (simp add: proc_start_def)
  then show ?thesis
    using proc_ok_start
    by (auto simp: mgr_inv_def mgr_New_def Let_def shells_ok_def index_ok_def keys_ok_def fresh_ok_def
      live_at_def user_ids_def)
qed

lemma live_at_ptr:
  "mgr_inv m \<Longrightarrow> gm_get (m_sessions m) sid = Some sp \<Longrightarrow> gm_get (m_heap m) sp = Some s \<Longrightarrow>
   live_at m sid = Some s \<and> s_ID s = sid \<and> \<not> s_dead s"
  by (fastforce simp: live_at_def mgr_inv_def shells_ok_def)

lemma live_ptr:
  assumes "mgr_inv m" and "live_at m sid = Some s"
  obtains sp where "gm_get (m_sessions m) sid = Some sp" and "gm_get (m_heap m) sp = Some s"
    and "s_ID s = sid"
  using assms live_at_ptr by (auto simp: live_at_def bind_eq_Some_conv)

lemma ptr_inj:
  assumes "mgr_inv m" and "gm_get (m_sessions m) a = Some sp" and "gm_get (m_sessions m) b = Some sp"
  shows "a = b"
proof -
  have "shells_ok m" using assms(1) by (simp add: mgr_inv_def)
  with assms(2,3) show ?thesis unfolding shells_ok_def by (metis option.inject)
qed

subsection \<open>Ending one session\<close>

lemma user_ids_detach:
  "user_ids (detach s m) u =
     (if u = s_UserID s then filter (\<lambda>i. i \<noteq> s_ID s) (user_ids m u) else user_ids m u)"
  by (auto simp: detach_def Let_def user_ids_def split: option.splits)

lemma detach_frame [simp]:
  "m_sessions (detach s m) = gm_del (s_ID s) (m_sessions m)" "m_heap (detach s m) = m_heap m"
  "m_keys (detach s m) = m_keys m" "m_proc (detach s m) = m_proc m" "m_next (detach s m) = m_next m"
  "m_opts (detach s m) = m_opts m" "m_ended (detach s m) = m_ended m"
  "m_removed (detach s m) = m_removed m"
  by (auto simp: detach_def Let_def split: option.splits)

lemma user_ids_cong: "m_byUser m' = m_byUser m \<Longrightarrow> user_ids m' u = user_ids m u"
  by (simp add: user_ids_def)

lemma zero_key_get:
  "gm_get (zero_key kp keys) k =
     (if kp = Some k then map_option (\<lambda>b. replicate (length b) (CHR 0x00)) (gm_get keys k)
      else gm_get keys k)"
  by (auto simp: zero_key_def split: option.splits)

lemma zeroed_replicate [simp]: "zeroed (replicate n (CHR 0x00))"
  by (auto simp: zeroed_def)

text \<open>
  A step that takes the session \<open>sid\<close> out of the maps, leaves \<open>shell\<close> at its address and moves its
  key out of reach of every other session.
\<close>

lemma detached_inv:
  assumes m: "mgr_inv m" and sp: "gm_get (m_sessions m) sid = Some sp" "gm_get (m_heap m) sp = Some s"
    and shell: "s_ID shell = sid" "s_UserID shell = s_UserID s" "s_dead shell" "s_dek shell = None" "s_cache shell = None"
    and keys: "\<And>k b. gm_get ks k = Some b \<Longrightarrow> zeroed b \<or> k \<in> moving \<or> s_dek s \<noteq> Some k \<and> gm_get (m_keys m) k = Some b"
    and proc: "proc_ok n p" "\<And>c. gm_get (p_caches p) c \<noteq> None \<Longrightarrow> gm_get (p_caches (m_proc m)) c \<noteq> None"
  fixes rs :: "string list"
  defines "m' \<equiv> detach shell (m\<lparr>m_proc := p, m_removed := rs, m_keys := ks,
      m_heap := gm_put sp shell (m_heap m)\<rparr>)"
  shows "mgr_inv_but moving m' \<and> live_at m' = (live_at m)(sid := None)"
proof -
  let ?m1 = "m\<lparr>m_proc := p, m_removed := rs, m_keys := ks, m_heap := gm_put sp shell (m_heap m)\<rparr>"
  have inv: "gm_wf (m_sessions m)" "shells_ok m" "index_ok m" "keys_ok {} m" "fresh_ok m"
    using m by (simp_all add: mgr_inv_def)
  have other: "gm_get (m_sessions m) a = Some sp \<Longrightarrow> a = sid" for a using ptr_inj [OF m _ sp(1)] .
  have live: "live_at m' = (live_at m)(sid := None)"
    using other by (auto simp: m'_def live_at_def shell(1) fun_eq_iff split: Option.bind_splits)
  have "shells_ok m'"
    unfolding shells_ok_def
  proof (intro conjI allI impI)
    fix a sp'
    assume "gm_get (m_sessions m') a = Some sp'"
    then have a: "gm_get (m_sessions m) a = Some sp'" "a \<noteq> sid"
      by (auto simp: m'_def shell(1) split: if_splits)
    with other have "sp' \<noteq> sp" by blast
    then have "gm_get (m_heap m') sp' = gm_get (m_heap m) sp'" by (simp add: m'_def)
    with a inv(2) show "\<exists>s. gm_get (m_heap m') sp' = Some s \<and> s_ID s = a \<and> \<not> s_dead s \<and>
        s_dek s \<noteq> None \<and> s_cache s \<noteq> None" by (simp add: shells_ok_def)
  next
    fix sp' s'
    assume h: "gm_get (m_heap m') sp' = Some s'"
    show "gm_get (m_sessions m') (s_ID s') = Some sp' \<or> s_dead s' \<and> s_dek s' = None \<and> s_cache s' = None"
    proof (cases "sp' = sp")
      case True
      with h shell show ?thesis by (simp add: m'_def)
    next
      case False
      with h have "gm_get (m_heap m) sp' = Some s'" by (simp add: m'_def)
      with inv(2) have "gm_get (m_sessions m) (s_ID s') = Some sp' \<or>
          s_dead s' \<and> s_dek s' = None \<and> s_cache s' = None" unfolding shells_ok_def by blast
      with False sp(1) show ?thesis by (auto simp: m'_def shell(1))
    qed
  qed
  moreover have uids: "user_ids m' u = (if u = s_UserID s then filter (\<lambda>i. i \<noteq> sid) (user_ids m u)
      else user_ids m u)" for u
    by (simp add: m'_def user_ids_detach user_ids_cong [of ?m1 m] shell(1,2))
  have "index_ok m'"
    using inv(3) live_at_ptr [OF m sp] unfolding index_ok_def uids live by auto
  moreover have "keys_ok moving m'"
    unfolding keys_ok_def live
  proof (intro conjI allI impI)
    show "a = b" if "((live_at m)(sid := None)) a = Some s'" "((live_at m)(sid := None)) b = Some t"
      "s_dek s' = s_dek t" for a b s' t
      using that inv(4) unfolding keys_ok_def by (metis fun_upd_apply option.distinct(1))
    fix k b
    assume "gm_get (m_keys m') k = Some b"
    then have "(zeroed b \<or> k \<in> moving) \<or> s_dek s \<noteq> Some k \<and> gm_get (m_keys m) k = Some b"
      using keys by (simp add: m'_def)
    then show "zeroed b \<or> k \<in> moving \<or> (\<exists>a t. ((live_at m)(sid := None)) a = Some t \<and> s_dek t = Some k)"
    proof
      assume kb: "s_dek s \<noteq> Some k \<and> gm_get (m_keys m) k = Some b"
      then have "zeroed b \<or> (\<exists>a t. live_at m a = Some t \<and> s_dek t = Some k)"
        using inv(4) unfolding keys_ok_def by blast
      then show ?thesis
      proof
        assume "\<exists>a t. live_at m a = Some t \<and> s_dek t = Some k"
        then obtain a t where at: "live_at m a = Some t" "s_dek t = Some k" by blast
        moreover have "a \<noteq> sid" using at kb live_at_ptr [OF m sp] by auto
        ultimately have "((live_at m)(sid := None)) a = Some t \<and> s_dek t = Some k" by simp
        then show ?thesis by blast
      qed blast
    qed blast
  qed
  moreover have "fresh_ok m'"
    using inv(5) proc(2) sp(2) unfolding fresh_ok_def m'_def by auto
  ultimately have "mgr_inv_but moving m'"
    using inv(1) proc(1) by (auto simp: mgr_inv_def m'_def)
  with live show ?thesis by simp
qed

lemma wipeScratch_frame [simp]:
  "s_ID (fst (wipeScratch s)) = s_ID s" "s_UserID (fst (wipeScratch s)) = s_UserID s"
  "s_dek (fst (wipeScratch s)) = s_dek s" "s_cache (fst (wipeScratch s)) = s_cache s"
  by (simp_all add: wipeScratch_def)

lemma remove_effect:
  assumes m: "mgr_inv m" and sp: "gm_get (m_sessions m) sid = Some sp" "gm_get (m_heap m) sp = Some s"
  shows "\<exists>m'. mgr_remove sp m = Some m' \<and> mgr_inv m' \<and> live_at m' = (live_at m)(sid := None) \<and>
    m_sessions m' = gm_del sid (m_sessions m) \<and> m_keys m' = zero_key (s_dek s) (m_keys m) \<and>
    m_ended m' = m_ended m @ [sid] \<and> m_opts m' = m_opts m \<and>
    (\<forall>sp'. sp' \<noteq> sp \<longrightarrow> gm_get (m_heap m') sp' = gm_get (m_heap m) sp')"
proof -
  have s: "s_ID s = sid" using live_at_ptr [OF m sp] by simp
  obtain n where n: "proc_ok n (m_proc m)" using m by (auto simp: mgr_inv_def)
  obtain c where c: "s_cache s = Some c"
    using m sp by (fastforce simp: mgr_inv_def shells_ok_def)
  obtain p where p: "proc_do (m_proc m) c OpWipe = Some p"
    using proc_do_ok [of "m_proc m" OpWipe c] n by (auto simp: proc_ok_def)
  note pd = proc_do_domain [OF n _ p]
  let ?s = "(fst (wipeScratch (s\<lparr>s_cache := None\<rparr>)))\<lparr>s_dek := None, s_dead := True\<rparr>"
  let ?m = "m\<lparr>m_proc := p, m_removed := m_removed m @ snd (wipeScratch (s\<lparr>s_cache := None\<rparr>)),
      m_keys := zero_key (s_dek s) (m_keys m), m_heap := gm_put sp ?s (m_heap m)\<rparr>"
  have r: "mgr_remove sp m = Some ((detach ?s ?m)\<lparr>m_ended := m_ended m @ [sid]\<rparr>)"
    using sp(2) c p s by (simp add: mgr_remove_def Let_def case_prod_beta)
  have keys: "zeroed b \<or> k \<in> {} \<or> s_dek s \<noteq> Some k \<and> gm_get (m_keys m) k = Some b"
    if "gm_get (zero_key (s_dek s) (m_keys m)) k = Some b" for k b
    using that by (auto simp: zero_key_get split: if_splits)
  have "mgr_inv (detach ?s ?m) \<and> live_at (detach ?s ?m) = (live_at m)(sid := None)"
    by (rule detached_inv [OF m sp _ _ _ _ _ keys]) (use s pd in auto)
  moreover have "mgr_inv (x\<lparr>m_ended := e\<rparr>) = mgr_inv x" "live_at (x\<lparr>m_ended := e\<rparr>) = live_at x" for x e
    by (simp_all add: mgr_inv_def shells_ok_def index_ok_def keys_ok_def fresh_ok_def live_at_def
        user_ids_def fun_eq_iff)
  ultimately show ?thesis using r s by simp
qed

subsection \<open>Ending many sessions\<close>

text \<open>\<open>m'\<close> is \<open>m\<close> with the sessions of a set ended and their keys zeroed.\<close>

definition ended_all :: "string set \<Rightarrow> Manager \<Rightarrow> Manager \<Rightarrow> bool" where
  "ended_all gone m m' \<longleftrightarrow> mgr_inv m' \<and> m_opts m' = m_opts m \<and>
     (\<forall>sid. live_at m' sid = (if sid \<in> gone then None else live_at m sid)) \<and>
     (\<forall>sid. gm_get (m_sessions m') sid = (if sid \<in> gone then None else gm_get (m_sessions m) sid)) \<and>
     (\<forall>k. gm_get (m_keys m') k =
        (if \<exists>sid \<in> gone. \<exists>s. live_at m sid = Some s \<and> s_dek s = Some k
         then map_option (\<lambda>b. replicate (length b) (CHR 0x00)) (gm_get (m_keys m) k)
         else gm_get (m_keys m) k))"

lemma ended_all_keys:
  "ended_all gone m m' \<Longrightarrow> gm_get (m_keys m') k =
     (if \<exists>sid \<in> gone. \<exists>s. live_at m sid = Some s \<and> s_dek s = Some k
      then map_option (\<lambda>b. replicate (length b) (CHR 0x00)) (gm_get (m_keys m) k)
      else gm_get (m_keys m) k)"
  by (simp add: ended_all_def)

lemma ended_all_empty: "mgr_inv m \<Longrightarrow> ended_all {} m m"
  by (simp add: ended_all_def)

lemma replicate_zero_idem:
  "map_option (\<lambda>b. replicate (length b) (CHR 0x00)) (map_option (\<lambda>b. replicate (length b) (CHR 0x00)) x) =
   map_option (\<lambda>b. replicate (length b) (CHR 0x00)) x"
  by (cases x) simp_all

lemma ended_all_step:
  assumes e: "ended_all gone m m1" and sid: "sid \<notin> gone" and s: "live_at m sid = Some s"
    and m2: "mgr_inv m2" "live_at m2 = (live_at m1)(sid := None)" "m_sessions m2 = gm_del sid (m_sessions m1)"
      "m_keys m2 = zero_key (s_dek s) (m_keys m1)" "m_opts m2 = m_opts m1"
  shows "ended_all (insert sid gone) m m2"
  unfolding ended_all_def
proof (intro conjI allI)
  fix k
  show "gm_get (m_keys m2) k =
      (if \<exists>sid \<in> insert sid gone. \<exists>s. live_at m sid = Some s \<and> s_dek s = Some k
       then map_option (\<lambda>b. replicate (length b) (CHR 0x00)) (gm_get (m_keys m) k)
       else gm_get (m_keys m) k)"
    using e s unfolding ended_all_def m2(4) zero_key_get by (auto simp: replicate_zero_idem)
qed (use e m2 in \<open>auto simp: ended_all_def\<close>)

lemma ended_all_remove:
  assumes e: "ended_all gone m m1" and sid: "sid \<notin> gone" and sp: "gm_get (m_sessions m) sid = Some sp"
    and s: "live_at m sid = Some s"
  shows "\<exists>m2. mgr_remove sp m1 = Some m2 \<and> ended_all (insert sid gone) m m2 \<and>
    (\<forall>sp'. sp' \<noteq> sp \<longrightarrow> gm_get (m_heap m2) sp' = gm_get (m_heap m1) sp')"
proof -
  have inv: "mgr_inv m1" and sp1: "gm_get (m_sessions m1) sid = Some sp" and l: "live_at m1 sid = Some s"
    using e sid sp s by (auto simp: ended_all_def)
  then have h: "gm_get (m_heap m1) sp = Some s" by (simp add: live_at_def)
  obtain m2 where m2: "mgr_remove sp m1 = Some m2" "mgr_inv m2" "live_at m2 = (live_at m1)(sid := None)"
    "m_sessions m2 = gm_del sid (m_sessions m1)" "m_keys m2 = zero_key (s_dek s) (m_keys m1)"
    "m_opts m2 = m_opts m1" "\<forall>sp'. sp' \<noteq> sp \<longrightarrow> gm_get (m_heap m2) sp' = gm_get (m_heap m1) sp'"
    using remove_effect [OF inv sp1 h] by blast
  from ended_all_step [OF e sid s m2(2-6)] m2(1,7) show ?thesis by blast
qed

lemma DestroyUser_loop_effect:
  assumes "ended_all gone m m1" and "distinct sids" and "set sids \<inter> gone = {}"
    and "\<forall>sid \<in> set sids. live_at m sid \<noteq> None" and "mgr_inv m"
  shows "\<exists>m2. DestroyUser_loop sids (m1, n) = Some (m2, n + length sids) \<and>
    ended_all (gone \<union> set sids) m m2"
  using assms(1-4)
proof (induction sids arbitrary: gone m1 n)
  case (Cons sid sids)
  obtain s where s: "live_at m sid = Some s" using Cons.prems(4) by auto
  obtain sp where sp: "gm_get (m_sessions m) sid = Some sp" by (rule live_ptr [OF assms(5) s])
  have sid: "sid \<notin> gone" using Cons.prems(3) by auto
  obtain m2 where m2: "mgr_remove sp m1 = Some m2" "ended_all (insert sid gone) m m2"
    using ended_all_remove [OF Cons.prems(1) sid sp s] by blast
  have "gm_get (m_sessions m1) sid = Some sp" using Cons.prems(1) sid sp by (simp add: ended_all_def)
  moreover obtain m3 where "DestroyUser_loop sids (m2, Suc n) = Some (m3, Suc n + length sids)"
    "ended_all (insert sid gone \<union> set sids) m m3"
    using Cons.IH [OF m2(2), of "Suc n"] Cons.prems(2-4) by auto
  ultimately show ?case using m2(1) by simp
qed simp

lemma DestroyUser_effect:
  assumes "mgr_inv m"
  shows "\<exists>m'. DestroyUser m u = Some (m', length (user_ids m u)) \<and>
    ended_all {sid. \<exists>s. live_at m sid = Some s \<and> s_UserID s = u} m m'"
proof -
  have idx: "set (user_ids m u) = {sid. \<exists>s. live_at m sid = Some s \<and> s_UserID s = u}"
    "distinct (user_ids m u)"
    using assms by (auto simp: mgr_inv_def index_ok_def)
  then have "\<forall>sid \<in> set (user_ids m u). live_at m sid \<noteq> None" by auto
  from DestroyUser_loop_effect [OF ended_all_empty [OF assms] idx(2) _ this assms, of 0] idx(1)
  show ?thesis by (simp add: DestroyUser_def)
qed

text \<open>A pass over session pointers that ends those satisfying a test.\<close>

lemma sessions_ptrs:
  assumes "mgr_inv m"
  shows "distinct (map snd (m_sessions m))"
proof -
  have w: "gm_wf (m_sessions m)" using assms by (simp add: mgr_inv_def)
  have "inj_on snd (set (m_sessions m))"
  proof (rule inj_onI)
    fix x y
    assume "x \<in> set (m_sessions m)" "y \<in> set (m_sessions m)" "snd x = snd y"
    then have "gm_get (m_sessions m) (fst x) = Some (snd x)" "gm_get (m_sessions m) (fst y) = Some (snd x)"
      using w by (metis gm_get_in prod.collapse)+
    then have "fst x = fst y" by (rule ptr_inj [OF assms])
    with \<open>snd x = snd y\<close> show "x = y" by (simp add: prod_eq_iff)
  qed
  moreover have "distinct (m_sessions m)" using w by (simp add: gm_wf_def distinct_map)
  ultimately show ?thesis by (simp add: distinct_map)
qed

definition ids_of :: "Manager \<Rightarrow> nat list \<Rightarrow> string set" where
  "ids_of m sps = {sid. \<exists>sp \<in> set sps. gm_get (m_sessions m) sid = Some sp}"

lemma sweep_loop_effect:
  assumes "ended_all gone m m1" and "distinct sps"
    and "\<forall>sp \<in> set sps. \<exists>sid s. sid \<notin> gone \<and> gm_get (m_sessions m) sid = Some sp \<and>
      gm_get (m_heap m) sp = Some s \<and> gm_get (m_heap m1) sp = Some s"
    and "mgr_inv m"
  shows "\<exists>m2 k. sweep_loop now sps (m1, n) = Some (m2, k) \<and>
    ended_all (gone \<union> {sid \<in> ids_of m sps. \<exists>s. live_at m sid = Some s \<and> expired m s now}) m m2"
  using assms(1-3)
proof (induction sps arbitrary: gone m1 n)
  case Nil
  then show ?case by (simp add: ids_of_def)
next
  case (Cons sp sps)
  obtain sid s where sid: "sid \<notin> gone" "gm_get (m_sessions m) sid = Some sp" "gm_get (m_heap m) sp = Some s"
    and h1: "gm_get (m_heap m1) sp = Some s"
    using Cons.prems(3) by auto
  have s: "live_at m sid = Some s" using live_at_ptr [OF assms(4) sid(2,3)] by simp
  have opts: "expired m1 s now = expired m s now"
    using Cons.prems(1) by (simp add: expired_def ended_all_def)
  have only: "a = sid" if "gm_get (m_sessions m) a = Some sp" for a
    using ptr_inj [OF assms(4) that sid(2)] .
  have "gm_get (m_sessions m) a = Some sp \<longleftrightarrow> a = sid" for a using only sid(2) by blast
  then have ids: "ids_of m (sp # sps) = insert sid (ids_of m sps)"
    by (simp add: ids_of_def set_eq_iff)
  show ?case
  proof (cases "expired m s now")
    case False
    with s have eq: "{sid \<in> ids_of m (sp # sps). \<exists>s. live_at m sid = Some s \<and> expired m s now} =
        {sid \<in> ids_of m sps. \<exists>s. live_at m sid = Some s \<and> expired m s now}"
      using ids by auto
    have rest: "\<forall>sp \<in> set sps. \<exists>sid s. sid \<notin> gone \<and> gm_get (m_sessions m) sid = Some sp \<and>
        gm_get (m_heap m) sp = Some s \<and> gm_get (m_heap m1) sp = Some s"
      and d: "distinct sps"
      using Cons.prems(2,3) by simp_all
    have "sweep_loop now (sp # sps) (m1, n) = sweep_loop now sps (m1, n)"
      using False opts h1 by simp
    then show ?thesis
      unfolding eq using Cons.IH [OF Cons.prems(1) d rest, of n] by presburger
  next
    case True
    obtain m2 where m2: "mgr_remove sp m1 = Some m2" "ended_all (insert sid gone) m m2"
      "\<forall>sp'. sp' \<noteq> sp \<longrightarrow> gm_get (m_heap m2) sp' = gm_get (m_heap m1) sp'"
      using ended_all_remove [OF Cons.prems(1) sid(1,2) s] by blast
    have rest: "\<forall>sp' \<in> set sps. \<exists>a s. a \<notin> insert sid gone \<and> gm_get (m_sessions m) a = Some sp' \<and>
        gm_get (m_heap m) sp' = Some s \<and> gm_get (m_heap m2) sp' = Some s"
    proof
      fix sp'
      assume sp': "sp' \<in> set sps"
      then have "sp' \<noteq> sp" using Cons.prems(2) by auto
      moreover obtain a t where a: "a \<notin> gone" "gm_get (m_sessions m) a = Some sp'"
        "gm_get (m_heap m) sp' = Some t" "gm_get (m_heap m1) sp' = Some t"
        using Cons.prems(3) sp' by auto
      ultimately show "\<exists>a s. a \<notin> insert sid gone \<and> gm_get (m_sessions m) a = Some sp' \<and>
        gm_get (m_heap m) sp' = Some s \<and> gm_get (m_heap m2) sp' = Some s"
        using m2(3) sid(2) by (metis insertE option.inject)
    qed
    have eq: "gone \<union> {sid \<in> ids_of m (sp # sps). \<exists>s. live_at m sid = Some s \<and> expired m s now} =
        insert sid gone \<union> {sid \<in> ids_of m sps. \<exists>s. live_at m sid = Some s \<and> expired m s now}"
      using ids s True by auto
    have d: "distinct sps" using Cons.prems(2) by simp
    have "sweep_loop now (sp # sps) (m1, n) = sweep_loop now sps (m2, Suc n)"
      using True opts h1 m2(1) by simp
    then show ?thesis
      unfolding eq using Cons.IH [OF m2(2) d rest, of "Suc n"] by presburger
  qed
qed

lemma ids_of_all: "mgr_inv m \<Longrightarrow> live_at m sid = Some s \<Longrightarrow> sid \<in> ids_of m (map snd (m_sessions m))"
  by (force simp: ids_of_def live_at_def bind_eq_Some_conv dest: gm_get_mem)

lemma sweep_effect:
  assumes "mgr_inv m"
  shows "\<exists>m' k. sweepLocked m now = Some (m', k) \<and>
    ended_all {sid. \<exists>s. live_at m sid = Some s \<and> expired m s now} m m'"
proof -
  have ptrs: "\<forall>sp \<in> set (map snd (m_sessions m)). \<exists>sid s. sid \<notin> {} \<and> gm_get (m_sessions m) sid = Some sp \<and>
      gm_get (m_heap m) sp = Some s \<and> gm_get (m_heap m) sp = Some s"
  proof
    fix sp
    assume "sp \<in> set (map snd (m_sessions m))"
    then obtain sid where "gm_get (m_sessions m) sid = Some sp"
      using assms by (auto simp: mgr_inv_def gm_get_in)
    moreover have "shells_ok m" using assms by (simp add: mgr_inv_def)
    ultimately obtain s where "gm_get (m_sessions m) sid = Some sp" "gm_get (m_heap m) sp = Some s"
      unfolding shells_ok_def by metis
    then show "\<exists>sid s. sid \<notin> {} \<and> gm_get (m_sessions m) sid = Some sp \<and>
      gm_get (m_heap m) sp = Some s \<and> gm_get (m_heap m) sp = Some s" by blast
  qed
  have "{sid \<in> ids_of m (map snd (m_sessions m)). \<exists>s. live_at m sid = Some s \<and> expired m s now} =
      {sid. \<exists>s. live_at m sid = Some s \<and> expired m s now}"
    using ids_of_all [OF assms] by blast
  with sweep_loop_effect [OF ended_all_empty [OF assms] sessions_ptrs [OF assms] ptrs assms, of now 0]
  show ?thesis by (simp add: sweepLocked_def)
qed

lemma Close_loop_effect:
  assumes "ended_all gone m m1" and "distinct sps"
    and "\<forall>sp \<in> set sps. \<exists>sid s. sid \<notin> gone \<and> gm_get (m_sessions m) sid = Some sp \<and> live_at m sid = Some s"
    and "mgr_inv m"
  shows "\<exists>m2. Close_loop sps m1 = Some m2 \<and> ended_all (gone \<union> ids_of m sps) m m2"
  using assms(1-3)
proof (induction sps arbitrary: gone m1)
  case Nil
  then show ?case by (simp add: ids_of_def)
next
  case (Cons sp sps)
  obtain sid s where sid: "sid \<notin> gone" "gm_get (m_sessions m) sid = Some sp" "live_at m sid = Some s"
    using Cons.prems(3) by auto
  have "gm_get (m_sessions m) a = Some sp \<longleftrightarrow> a = sid" for a
    using ptr_inj [OF assms(4) _ sid(2)] sid(2) by blast
  then have ids: "gone \<union> ids_of m (sp # sps) = insert sid gone \<union> ids_of m sps"
    by (auto simp: ids_of_def)
  obtain m2 where m2: "mgr_remove sp m1 = Some m2" "ended_all (insert sid gone) m m2"
    using ended_all_remove [OF Cons.prems(1) sid] by blast
  have rest: "\<forall>sp' \<in> set sps. \<exists>a s. a \<notin> insert sid gone \<and> gm_get (m_sessions m) a = Some sp' \<and> live_at m a = Some s"
  proof
    fix sp'
    assume "sp' \<in> set sps"
    moreover from this obtain a t where "a \<notin> gone" "gm_get (m_sessions m) a = Some sp'" "live_at m a = Some t"
      using Cons.prems(3) by auto
    ultimately show "\<exists>a s. a \<notin> insert sid gone \<and> gm_get (m_sessions m) a = Some sp' \<and> live_at m a = Some s"
      using Cons.prems(2) sid(2) by (metis distinct.simps(2) insertE option.inject)
  qed
  show ?case
    unfolding ids using Cons.IH [OF m2(2) _ rest] Cons.prems(2) m2(1) by simp
qed

lemma sessions_live:
  assumes "mgr_inv m" and "gm_get (m_sessions m) sid = Some sp"
  shows "live_at m sid \<noteq> None"
proof -
  have "shells_ok m" using assms(1) by (simp add: mgr_inv_def)
  with assms(2) obtain s where "gm_get (m_heap m) sp = Some s" unfolding shells_ok_def by blast
  with assms(2) show ?thesis by (simp add: live_at_def)
qed

lemma Close_effect:
  assumes "mgr_inv m"
  shows "\<exists>m'. mgr_Close m = Some m' \<and> ended_all {sid. live_at m sid \<noteq> None} m m'"
proof -
  have ptrs: "\<forall>sp \<in> set (map snd (m_sessions m)). \<exists>sid s. sid \<notin> {} \<and>
      gm_get (m_sessions m) sid = Some sp \<and> live_at m sid = Some s"
  proof
    fix sp
    assume "sp \<in> set (map snd (m_sessions m))"
    then obtain sid where sid: "gm_get (m_sessions m) sid = Some sp"
      using assms by (auto simp: mgr_inv_def gm_get_in)
    have "shells_ok m" using assms by (simp add: mgr_inv_def)
    with sid obtain s where "gm_get (m_heap m) sp = Some s" unfolding shells_ok_def by blast
    with sid have "live_at m sid = Some s" by (simp add: live_at_def)
    with sid show "\<exists>sid s. sid \<notin> {} \<and> gm_get (m_sessions m) sid = Some sp \<and> live_at m sid = Some s"
      by blast
  qed
  obtain m' where m': "mgr_Close m = Some m'" "ended_all ({} \<union> ids_of m (map snd (m_sessions m))) m m'"
    using Close_loop_effect [OF ended_all_empty [OF assms] sessions_ptrs [OF assms] ptrs assms]
    by (auto simp: mgr_Close_def)
  have "ids_of m (map snd (m_sessions m)) = {sid. live_at m sid \<noteq> None}"
    using ids_of_all [OF assms] sessions_live [OF assms] unfolding ids_of_def by blast
  with m' show ?thesis by auto
qed

subsection \<open>Starting and rotating a session\<close>

lemma insert_frame [simp]:
  "m_sessions (mgr_insert sp s m) = gm_put (s_ID s) sp (m_sessions m)"
  "m_heap (mgr_insert sp s m) = m_heap m" "m_keys (mgr_insert sp s m) = m_keys m"
  "m_proc (mgr_insert sp s m) = m_proc m" "m_next (mgr_insert sp s m) = m_next m"
  "m_opts (mgr_insert sp s m) = m_opts m" "m_ended (mgr_insert sp s m) = m_ended m"
  by (simp_all add: mgr_insert_def Let_def)

lemma user_ids_insert:
  "set (user_ids (mgr_insert sp s m) u) =
     (if u = s_UserID s then insert (s_ID s) (set (user_ids m u)) else set (user_ids m u))"
  "distinct (user_ids m u) \<Longrightarrow> distinct (user_ids (mgr_insert sp s m) u)"
  by (auto simp: mgr_insert_def Let_def user_ids_def)

text \<open>Linking a session that holds the key on its way, at a fresh address and identifier.\<close>

lemma inserted_inv:
  assumes m: "mgr_inv_but ks m" and sid: "gm_get (m_sessions m) (s_ID s) = None"
    and sp: "gm_get (m_heap m) sp = None" "sp < n" "m_next m \<le> n"
    and s: "\<not> s_dead s" "s_dek s = Some k" "s_cache s \<noteq> None" and ks: "ks \<subseteq> {k}"
    and own: "\<And>a t. live_at m a = Some t \<Longrightarrow> s_dek t \<noteq> Some k"
    and proc: "proc_ok q p" "\<And>c. gm_get (p_caches p) c \<noteq> None \<Longrightarrow> c < n"
  shows "mgr_inv (mgr_insert sp s (m\<lparr>m_next := n, m_proc := p, m_heap := gm_put sp s (m_heap m)\<rparr>)) \<and>
    live_at (mgr_insert sp s (m\<lparr>m_next := n, m_proc := p, m_heap := gm_put sp s (m_heap m)\<rparr>)) =
      (live_at m)(s_ID s \<mapsto> s)"
    (is "mgr_inv ?m' \<and> _")
proof -
  let ?m1 = "m\<lparr>m_next := n, m_proc := p, m_heap := gm_put sp s (m_heap m)\<rparr>"
  have inv: "gm_wf (m_sessions m)" "shells_ok m" "index_ok m" "keys_ok ks m" "fresh_ok m"
    using m by (simp_all add: mgr_inv_def)
  have old: "sp' \<noteq> sp" if "gm_get (m_sessions m) a = Some sp'" for a sp'
  proof -
    have "gm_get (m_heap m) sp' \<noteq> None" using inv(2) that unfolding shells_ok_def by blast
    with sp(1) show ?thesis by auto
  qed
  have live: "live_at ?m' = (live_at m)(s_ID s \<mapsto> s)"
  proof
    fix a
    show "live_at ?m' a = ((live_at m)(s_ID s \<mapsto> s)) a"
      using old [of a] by (cases "gm_get (m_sessions m) a") (auto simp: live_at_def)
  qed
  have "shells_ok ?m'"
    unfolding shells_ok_def
  proof (intro conjI allI impI)
    fix a sp'
    assume "gm_get (m_sessions ?m') a = Some sp'"
    then have "a = s_ID s \<and> sp' = sp \<or> gm_get (m_sessions m) a = Some sp'" by (auto split: if_splits)
    then show "\<exists>s. gm_get (m_heap ?m') sp' = Some s \<and> s_ID s = a \<and> \<not> s_dead s \<and> s_dek s \<noteq> None \<and> s_cache s \<noteq> None"
    proof
      assume "gm_get (m_sessions m) a = Some sp'"
      with inv(2) old [OF this] show ?thesis unfolding shells_ok_def by simp
    qed (use s in simp)
  next
    fix sp' s'
    assume "gm_get (m_heap ?m') sp' = Some s'"
    then have "sp' = sp \<and> s' = s \<or> sp' \<noteq> sp \<and> gm_get (m_heap m) sp' = Some s'" by (auto split: if_splits)
    then show "gm_get (m_sessions ?m') (s_ID s') = Some sp' \<or> s_dead s' \<and> s_dek s' = None \<and> s_cache s' = None"
    proof
      assume h: "sp' \<noteq> sp \<and> gm_get (m_heap m) sp' = Some s'"
      then have "gm_get (m_sessions m) (s_ID s') = Some sp' \<or> s_dead s' \<and> s_dek s' = None \<and> s_cache s' = None"
        using inv(2) unfolding shells_ok_def by blast
      with sid show ?thesis by auto
    qed simp
  qed
  moreover have none: "live_at m (s_ID s) = None" using sid by (simp add: live_at_def)
  have "index_ok ?m'"
    unfolding index_ok_def live user_ids_insert(1)
  proof (intro conjI allI)
    fix u a
    have "a \<in> set (user_ids m u) \<longleftrightarrow> (\<exists>s. live_at m a = Some s \<and> s_UserID s = u)"
      using inv(3) unfolding index_ok_def by blast
    then show "(a \<in> (if u = s_UserID s then insert (s_ID s) (set (user_ids ?m1 u)) else set (user_ids ?m1 u))) =
        (\<exists>t. ((live_at m)(s_ID s \<mapsto> s)) a = Some t \<and> s_UserID t = u)"
      using none by (auto simp: user_ids_cong [of ?m1 m])
    show "distinct (user_ids ?m' u)"
      using inv(3) by (intro user_ids_insert(2)) (simp add: index_ok_def user_ids_cong [of ?m1 m])
  qed
  moreover have "keys_ok {} ?m'"
    unfolding keys_ok_def live
  proof (intro conjI allI impI)
    show "a = b" if "((live_at m)(s_ID s \<mapsto> s)) a = Some s'" "((live_at m)(s_ID s \<mapsto> s)) b = Some t"
      "s_dek s' = s_dek t" for a b s' t
      using that inv(4) own s(2) unfolding keys_ok_def by (metis fun_upd_apply option.inject)
    fix j b
    assume "gm_get (m_keys ?m') j = Some b"
    then have "zeroed b \<or> j \<in> ks \<or> (\<exists>a t. live_at m a = Some t \<and> s_dek t = Some j)"
      using inv(4) unfolding keys_ok_def by simp
    then show "zeroed b \<or> j \<in> {} \<or> (\<exists>a t. ((live_at m)(s_ID s \<mapsto> s)) a = Some t \<and> s_dek t = Some j)"
    proof (elim disjE exE conjE)
      fix a t
      assume at: "live_at m a = Some t" "s_dek t = Some j"
      then have "((live_at m)(s_ID s \<mapsto> s)) a = Some t" using none by auto
      with at(2) show ?thesis by blast
    qed (use ks s(2) in auto)
  qed
  moreover have "fresh_ok ?m'"
    using inv(5) sp(2,3) proc(2) unfolding fresh_ok_def by (auto intro: less_le_trans)
  ultimately show ?thesis using inv(1) proc(1) live by (auto simp: mgr_inv_def)
qed

lemma inv_but_keys:
  "mgr_inv m \<Longrightarrow> mgr_inv_but {k} (m\<lparr>m_keys := gm_put k b (m_keys m)\<rparr>)"
  by (auto simp: mgr_inv_def shells_ok_def index_ok_def keys_ok_def fresh_ok_def live_at_def
      user_ids_def split: if_splits)

lemma proc_new_ok':
  assumes "proc_ok n p" and "gm_get (p_caches p) c = None"
  shows "proc_ok n (proc_new p c cfg)"
  using assms proc_new_ok [of p c cfg] proc_new_lru [of p c cfg]
  by (simp add: proc_ok_def) (simp add: proc_new_def)

lemma Create_effect:
  assumes m: "mgr_inv m" and sid: "gm_get (m_sessions m) (base64url r1) = None"
    and own: "\<And>a t. live_at m a = Some t \<Longrightarrow> s_dek t \<noteq> Some dek"
  fixes b :: bytes
  defines "m0 \<equiv> m\<lparr>m_keys := gm_put dek b (m_keys m)\<rparr>"
  shows "\<exists>m' sp s. Create m0 now (Some r1) (Some r2) u dek = (m', Some sp) \<and> mgr_inv m' \<and>
    live_at m' = (live_at m)(base64url r1 \<mapsto> s) \<and> gm_get (m_heap m') sp = Some s \<and>
    s_UserID s = u_ID u \<and> s_dek s = Some dek \<and> s_CreatedAt s = now \<and> s_lastSeen s = now \<and>
    s_deadline s = now + mo_Absolute (m_opts m) \<and> \<not> s_dead s \<and> s_CSRF s = base64url r2 \<and>
    m_keys m' = m_keys m0"
proof -
  let ?sp = "m_next m" and ?cp = "Suc (m_next m)"
  let ?s = "\<lparr>s_ID = base64url r1, s_UserID = u_ID u, s_Login = u_Login u, s_Admin = u_Admin u,
     s_CSRF = base64url r2, s_CreatedAt = now, s_dek = Some dek, s_lastSeen = now,
     s_deadline = time_add now (mo_Absolute (m_opts m)),
     s_mustChange = u_MustChangePassword u, s_escrowNotice = u_EscrowNotice u,
     s_dead = False, s_cache = Some ?cp, s_losses = None, s_conflicts = [],
     s_photos = [], s_imports = []\<rparr>"
  let ?m' = "mgr_insert ?sp ?s (m0\<lparr>m_next := m_next m + 2,
      m_proc := proc_new (m_proc m) ?cp (mo_Cache (m_opts m)), m_heap := gm_put ?sp ?s (m_heap m0)\<rparr>)"
  have c: "Create m0 now (Some r1) (Some r2) u dek = (?m', Some ?sp)"
    by (simp add: Create_def randomID_def Let_def m0_def)
  have inv: "mgr_inv_but {dek} m0" unfolding m0_def by (rule inv_but_keys [OF m])
  have f: "fresh_ok m" using m by (simp add: mgr_inv_def)
  obtain q where "proc_ok q (m_proc m)" using m by (auto simp: mgr_inv_def)
  moreover have fresh: "gm_get (p_caches (m_proc m)) ?cp = None" "gm_get (m_heap m) ?sp = None"
    using f unfolding fresh_ok_def by (metis Suc_n_not_le_n less_imp_le, metis less_irrefl)
  ultimately have p: "proc_ok q (proc_new (m_proc m) ?cp (mo_Cache (m_opts m)))"
    by (intro proc_new_ok')
  have caches: "j < m_next m + 2"
    if "gm_get (p_caches (proc_new (m_proc m) ?cp (mo_Cache (m_opts m)))) j \<noteq> None" for j
    using f that by (auto simp: fresh_ok_def proc_new_def less_SucI split: if_splits)
  have live: "live_at m0 = live_at m" by (simp add: m0_def live_at_def fun_eq_iff)
  have "mgr_inv ?m' \<and> live_at ?m' = (live_at m0)(s_ID ?s \<mapsto> ?s)"
    by (rule inserted_inv [OF inv _ _ _ _ _ _ _ _ _ p caches])
      (use sid fresh own in \<open>auto simp: m0_def live_at_def\<close>)
  then show ?thesis using c live by (simp add: time_add_def)
qed

lemma Rotate_effect:
  assumes m: "mgr_inv m" and new: "gm_get (m_sessions m) (base64url r) = None"
    and s: "live_at m sid = Some s"
  shows "\<exists>m' sp t. Rotate m now (Some r) sid = (m', Some sp) \<and> mgr_inv m' \<and>
    gm_get (m_heap m') sp = Some t \<and>
    live_at m' = (live_at m)(sid := None, base64url r \<mapsto> t) \<and>
    t = s\<lparr>s_ID := base64url r, s_lastSeen := now, s_imports := []\<rparr> \<and> m_keys m' = m_keys m"
proof -
  obtain old_p where old_p: "gm_get (m_sessions m) sid = Some old_p" "gm_get (m_heap m) old_p = Some s"
    and id: "s_ID s = sid"
    by (rule live_ptr [OF m s])
  have sh: "\<not> s_dead s" "s_dek s \<noteq> None" "s_cache s \<noteq> None"
    using m old_p by (fastforce simp: mgr_inv_def shells_ok_def)+
  then obtain k where k: "s_dek s = Some k" by blast
  let ?t = "s\<lparr>s_ID := base64url r, s_lastSeen := now, s_imports := []\<rparr>"
  let ?shell = "s\<lparr>s_dek := None, s_cache := None, s_losses := None,
     s_conflicts := [], s_photos := [], s_dead := True\<rparr>"
  let ?sp = "m_next m"
  let ?d = "detach ?shell (m\<lparr>m_proc := m_proc m, m_removed := m_removed m, m_keys := m_keys m,
      m_heap := gm_put old_p ?shell (m_heap m)\<rparr>)"
  let ?m' = "mgr_insert ?sp ?t (?d\<lparr>m_next := Suc (m_next m), m_proc := m_proc m,
      m_heap := gm_put ?sp ?t (m_heap ?d)\<rparr>)"
  obtain q where q: "proc_ok q (m_proc m)" using m by (auto simp: mgr_inv_def)
  have f: "fresh_ok m" using m by (simp add: mgr_inv_def)
  have keys: "zeroed b \<or> j \<in> {k} \<or> s_dek s \<noteq> Some j \<and> gm_get (m_keys m) j = Some b"
    if "gm_get (m_keys m) j = Some b" for j b
    using that k by auto
  have d: "mgr_inv_but {k} ?d \<and> live_at ?d = (live_at m)(sid := None)"
    by (rule detached_inv [OF m old_p _ _ _ _ _ keys q]) (use id in auto)
  have own: "s_dek t \<noteq> Some k" if "live_at ?d a = Some t" for a t
  proof -
    have "a \<noteq> sid" "live_at m a = Some t" using that d by (auto split: if_splits)
    moreover have "keys_ok {} m" using m by (simp add: mgr_inv_def)
    ultimately show ?thesis using s k unfolding keys_ok_def by metis
  qed
  have fresh: "gm_get (m_heap m) ?sp = None" "?sp \<noteq> old_p"
    using f old_p(2) unfolding fresh_ok_def by (metis less_irrefl, metis less_irrefl option.distinct(1))
  have ins: "mgr_inv ?m' \<and> live_at ?m' = (live_at ?d)(s_ID ?t \<mapsto> ?t)"
    by (rule inserted_inv [OF conjunct1 [OF d] _ _ _ _ _ _ _ _ own q])
      (use new id fresh sh k f in \<open>auto simp: fresh_ok_def less_SucI\<close>)
  have t: "\<lparr>s_ID = base64url r, s_UserID = s_UserID s, s_Login = s_Login s,
      s_Admin = s_Admin s, s_CSRF = s_CSRF s, s_CreatedAt = s_CreatedAt s,
      s_dek = s_dek s, s_lastSeen = now, s_deadline = s_deadline s,
      s_mustChange = s_mustChange s, s_escrowNotice = s_escrowNotice s,
      s_dead = False, s_cache = s_cache s, s_losses = s_losses s,
      s_conflicts = s_conflicts s, s_photos = s_photos s, s_imports = []\<rparr> = ?t"
    using sh(1) by (intro Session.equality) simp_all
  have "Rotate m now (Some r) sid = (mgr_insert ?sp ?t (detach ?shell (m\<lparr>m_next := Suc (m_next m),
      m_heap := gm_put ?sp ?t (gm_put old_p ?shell (m_heap m))\<rparr>)), Some ?sp)"
    using old_p by (simp add: Rotate_def randomID_def Let_def t)
  moreover have "?d\<lparr>m_next := Suc (m_next m), m_proc := m_proc m, m_heap := gm_put ?sp ?t (m_heap ?d)\<rparr> =
      detach ?shell (m\<lparr>m_next := Suc (m_next m), m_heap := gm_put ?sp ?t (gm_put old_p ?shell (m_heap m))\<rparr>)"
    by (simp add: detach_def Let_def split: option.split)
  ultimately have "Rotate m now (Some r) sid = (?m', Some ?sp)" by simp
  with ins d show ?thesis by auto
qed

subsection \<open>Updates through a pointer\<close>

definition same_identity :: "Session \<Rightarrow> Session \<Rightarrow> bool" where
  "same_identity s t \<longleftrightarrow> s_ID t = s_ID s \<and> s_UserID t = s_UserID s \<and> s_dek t = s_dek s \<and>
     s_dead t = s_dead s \<and> s_cache t = s_cache s"

lemma heap_update_inv:
  assumes m: "mgr_inv m" and sp: "gm_get (m_heap m) sp = Some s" and t: "same_identity s t"
  shows "mgr_inv (m\<lparr>m_heap := gm_put sp t (m_heap m)\<rparr>) \<and>
    live_at (m\<lparr>m_heap := gm_put sp t (m_heap m)\<rparr>) =
      (if gm_get (m_sessions m) (s_ID s) = Some sp then (live_at m)(s_ID s \<mapsto> t) else live_at m)"
    (is "mgr_inv ?m' \<and> live_at ?m' = ?l")
proof -
  have inv: "shells_ok m" "index_ok m" "keys_ok {} m" "fresh_ok m"
    using m by (simp_all add: mgr_inv_def)
  have only: "a = s_ID s" if "gm_get (m_sessions m) a = Some sp" for a
    using live_at_ptr [OF m that sp] by simp
  have live: "live_at ?m' = ?l"
  proof
    fix a
    show "live_at ?m' a = ?l a"
      using only [of a] by (cases "gm_get (m_sessions m) a") (auto simp: live_at_def)
  qed
  have same: "\<exists>x. live_at m a = Some x \<and> same_identity x y" if "live_at ?m' a = Some y" for a y
  proof (cases "gm_get (m_sessions m) a = Some sp")
    case True
    with that sp t only [OF True] show ?thesis by (auto simp: live_at_def)
  next
    case False
    with that have "live_at m a = Some y" by (auto simp: live_at_def bind_eq_Some_conv split: if_splits)
    then show ?thesis by (auto simp: same_identity_def)
  qed
  have bwd: "\<exists>y. live_at ?m' a = Some y \<and> same_identity x y" if "live_at m a = Some x" for a x
  proof (cases "gm_get (m_sessions m) a = Some sp")
    case True
    with that sp t show ?thesis by (auto simp: live_at_def)
  next
    case False
    with that have "live_at ?m' a = Some x" by (auto simp: live_at_def bind_eq_Some_conv)
    then show ?thesis by (auto simp: same_identity_def)
  qed
  have "shells_ok ?m'"
    unfolding shells_ok_def
  proof (intro conjI allI impI)
    fix a sp'
    assume "gm_get (m_sessions ?m') a = Some sp'"
    then have "gm_get (m_sessions m) a = Some sp'" by simp
    with inv(1) obtain x where "gm_get (m_heap m) sp' = Some x" "s_ID x = a" "\<not> s_dead x" "s_dek x \<noteq> None"
      "s_cache x \<noteq> None"
      unfolding shells_ok_def by blast
    then show "\<exists>s. gm_get (m_heap ?m') sp' = Some s \<and> s_ID s = a \<and> \<not> s_dead s \<and> s_dek s \<noteq> None \<and> s_cache s \<noteq> None"
      using sp t by (cases "sp' = sp") (auto simp: same_identity_def)
  next
    fix sp' x
    assume x: "gm_get (m_heap ?m') sp' = Some x"
    show "gm_get (m_sessions ?m') (s_ID x) = Some sp' \<or> s_dead x \<and> s_dek x = None \<and> s_cache x = None"
    proof (cases "sp' = sp")
      case True
      have "gm_get (m_sessions m) (s_ID s) = Some sp \<or> s_dead s \<and> s_dek s = None \<and> s_cache s = None"
        using inv(1) sp unfolding shells_ok_def by blast
      with True x t show ?thesis by (simp add: same_identity_def)
    next
      case False
      with x inv(1) show ?thesis unfolding shells_ok_def by simp
    qed
  qed
  moreover have "(\<exists>x. live_at ?m' a = Some x \<and> s_UserID x = u) = (\<exists>x. live_at m a = Some x \<and> s_UserID x = u)"
    for a u using same bwd unfolding same_identity_def by metis
  then have "index_ok ?m'"
    using inv(2) by (simp add: index_ok_def user_ids_cong [of ?m' m])
  moreover have "keys_ok {} ?m'"
    unfolding keys_ok_def
  proof (intro conjI allI impI)
    fix a b s' t'
    assume "live_at ?m' a = Some s'" "live_at ?m' b = Some t'" and e: "s_dek s' = s_dek t'"
    then obtain x y where "live_at m a = Some x" "same_identity x s'" "live_at m b = Some y" "same_identity y t'"
      using same by meson
    with e inv(3) show "a = b" unfolding keys_ok_def same_identity_def by metis
  next
    fix k b
    assume "gm_get (m_keys ?m') k = Some b"
    then have "gm_get (m_keys m) k = Some b" by simp
    then consider "zeroed b" | a x where "live_at m a = Some x" "s_dek x = Some k"
      using inv(3) unfolding keys_ok_def by blast
    then show "zeroed b \<or> k \<in> {} \<or> (\<exists>a x. live_at ?m' a = Some x \<and> s_dek x = Some k)"
    proof cases
      case 2
      from bwd [OF 2(1)] 2(2) show ?thesis unfolding same_identity_def by metis
    qed simp
  qed
  moreover have "fresh_ok ?m'" using inv(4) sp by (auto simp: fresh_ok_def)
  ultimately show ?thesis using m live by (simp add: mgr_inv_def)
qed

lemma Get_effect:
  assumes m: "mgr_inv m" and sid: "sid \<noteq> []"
  shows "\<exists>m' r. mgr_Get m now sid = Some (m', r) \<and> mgr_inv m' \<and>
    (case live_at m sid of
       None \<Rightarrow> r = None \<and> m' = m
     | Some s \<Rightarrow>
         if expired m s now then r = None \<and> ended_all {sid} m m'
         else r = gm_get (m_sessions m) sid \<and> live_at m' = (live_at m)(sid \<mapsto> s\<lparr>s_lastSeen := now\<rparr>) \<and>
           m_keys m' = m_keys m)"
proof (cases "live_at m sid")
  case None
  then have "mgr_Get m now sid = Some (m, None)"
    using sid by (auto simp: mgr_Get_def live_at_def split: option.split)
  with None m show ?thesis by simp
next
  case (Some s)
  obtain sp where sp: "gm_get (m_sessions m) sid = Some sp" "gm_get (m_heap m) sp = Some s" "s_ID s = sid"
    by (rule live_ptr [OF m Some])
  show ?thesis
  proof (cases "expired m s now")
    case True
    obtain m2 where m2: "mgr_remove sp m = Some m2" "ended_all (insert sid {}) m m2"
      using ended_all_remove [OF ended_all_empty [OF m] _ sp(1) Some] by blast
    then have "mgr_inv m2" by (simp add: ended_all_def)
    with m2 Some True sp sid show ?thesis by (simp add: mgr_Get_def)
  next
    case False
    have "same_identity s (s\<lparr>s_lastSeen := now\<rparr>)" by (simp add: same_identity_def)
    from heap_update_inv [OF m sp(2) this] sp Some False sid show ?thesis
      by (simp add: mgr_Get_def)
  qed
qed

lemma set_must_inv: "mgr_inv m \<Longrightarrow> mgr_inv (set_must must sp m)"
  using heap_update_inv [of m sp _ "(the (gm_get (m_heap m) sp))\<lparr>s_mustChange := must\<rparr>"]
  by (auto simp: set_must_def same_identity_def split: option.split)

lemma SetMustChangePassword_inv: "mgr_inv m \<Longrightarrow> mgr_inv (mgr_SetMustChangePassword m u must)"
proof -
  have "mgr_inv m \<Longrightarrow> mgr_inv (fold (\<lambda>sid m. case gm_get (m_sessions m) sid of None \<Rightarrow> m
      | Some sp \<Rightarrow> set_must must sp m) sids m)" for sids
    by (induction sids arbitrary: m) (auto simp: set_must_inv split: option.split)
  then show "mgr_inv m \<Longrightarrow> mgr_inv (mgr_SetMustChangePassword m u must)"
    by (simp add: mgr_SetMustChangePassword_def)
qed

lemma cache_op_inv:
  assumes "mgr_inv m" and "op_wf op" and "proc_do (m_proc m) c op = Some p"
  shows "mgr_inv (m\<lparr>m_proc := p\<rparr>)"
proof -
  obtain q where q: "proc_ok q (m_proc m)" using assms(1) by (auto simp: mgr_inv_def)
  note p = proc_do_domain [OF q assms(2,3)]
  have "fresh_ok (m\<lparr>m_proc := p\<rparr>)" using assms(1) p by (auto simp: mgr_inv_def fresh_ok_def)
  with assms(1) p show ?thesis
    by (auto simp: mgr_inv_def shells_ok_def index_ok_def keys_ok_def live_at_def user_ids_def)
qed

subsection \<open>Every run of a manager\<close>

inductive mgr_step :: "Manager \<Rightarrow> Manager \<Rightarrow> bool" where
  ms_create: "gm_get (m_sessions m) (base64url r1) = None \<Longrightarrow>
    \<forall>a t. live_at m a = Some t \<longrightarrow> s_dek t \<noteq> Some dek \<Longrightarrow>
    mgr_step m (fst (Create (m\<lparr>m_keys := gm_put dek b (m_keys m)\<rparr>) now (Some r1) (Some r2) u dek))"
| ms_get: "mgr_Get m now sid = Some (m', r) \<Longrightarrow> mgr_step m m'"
| ms_rotate: "gm_get (m_sessions m) (base64url r) = None \<Longrightarrow> mgr_step m (fst (Rotate m now (Some r) sid))"
| ms_destroy: "mgr_Destroy m sid = Some m' \<Longrightarrow> mgr_step m m'"
| ms_destroy_user: "DestroyUser m u = Some (m', n) \<Longrightarrow> mgr_step m m'"
| ms_sweep: "mgr_Sweep m now = Some (m', n) \<Longrightarrow> mgr_step m m'"
| ms_must: "mgr_step m (mgr_SetMustChangePassword m u must)"
| ms_close: "mgr_Close m = Some m' \<Longrightarrow> mgr_step m m'"
| ms_cache: "op_wf op \<Longrightarrow> proc_do (m_proc m) c op = Some p \<Longrightarrow> mgr_step m (m\<lparr>m_proc := p\<rparr>)"
| ms_session: "gm_get (m_heap m) sp = Some s \<Longrightarrow> same_identity s t \<Longrightarrow>
    mgr_step m (m\<lparr>m_heap := gm_put sp t (m_heap m)\<rparr>)"

lemma Destroy_effect:
  assumes "mgr_inv m"
  shows "\<exists>m'. mgr_Destroy m sid = Some m' \<and>
    ended_all (if live_at m sid = None then {} else {sid}) m m'"
proof (cases "gm_get (m_sessions m) sid")
  case None
  then have "live_at m sid = None" by (simp add: live_at_def)
  with None assms show ?thesis by (simp add: mgr_Destroy_def ended_all_empty)
next
  case (Some sp)
  then obtain s where s: "live_at m sid = Some s" using sessions_live [OF assms] by blast
  obtain m2 where "mgr_remove sp m = Some m2" "ended_all (insert sid {}) m m2"
    using ended_all_remove [OF ended_all_empty [OF assms] _ Some s] by blast
  with Some s show ?thesis by (simp add: mgr_Destroy_def)
qed

lemma mgr_step_inv:
  assumes "mgr_inv m" and "mgr_step m m'"
  shows "mgr_inv m'"
  using assms(2)
proof (cases rule: mgr_step.cases)
  case (ms_create r1 dek b now r2 u)
  with Create_effect [OF assms(1), of r1 dek b now r2 u] show ?thesis by auto
next
  case (ms_get now sid r)
  then show ?thesis
    using Get_effect [OF assms(1), of sid now] assms(1)
    by (cases "sid = []") (auto simp: mgr_Get_def)
next
  case (ms_rotate r now sid)
  show ?thesis
  proof (cases "live_at m sid")
    case None
    then have "Rotate m now (Some r) sid = (m, None)"
      by (auto simp: Rotate_def randomID_def live_at_def split: option.split)
    with ms_rotate assms(1) show ?thesis by simp
  next
    case (Some s)
    from Rotate_effect [OF assms(1) ms_rotate(2) Some, of now] ms_rotate(1) show ?thesis by auto
  qed
next
  case (ms_destroy sid)
  with Destroy_effect [OF assms(1), of sid] show ?thesis by (auto simp: ended_all_def)
next
  case (ms_destroy_user u n)
  with DestroyUser_effect [OF assms(1), of u] show ?thesis by (auto simp: ended_all_def)
next
  case (ms_sweep now n)
  with sweep_effect [OF assms(1), of now] show ?thesis by (auto simp: ended_all_def mgr_Sweep_def)
next
  case (ms_must u must)
  with SetMustChangePassword_inv [OF assms(1)] show ?thesis by simp
next
  case ms_close
  with Close_effect [OF assms(1)] show ?thesis by (auto simp: ended_all_def)
next
  case (ms_cache op c p)
  with cache_op_inv [OF assms(1)] show ?thesis by simp
next
  case (ms_session sp s t)
  with heap_update_inv [OF assms(1)] show ?thesis by simp
qed

interpretation mgr: invariant_system "\<lambda>m. \<exists>op. m = mgr_New op" mgr_step mgr_inv
  by unfold_locales (auto simp: mgr_New_inv mgr_step_inv)

abbreviation mgr_reached :: "Manager \<Rightarrow> bool" where
  "mgr_reached \<equiv> reaches (\<lambda>m. \<exists>op. m = mgr_New op) mgr_step"

text \<open>A manager with one session, for the witnesses.\<close>

definition demo_options :: mgr_Options where
  "demo_options = \<lparr>mo_Idle = 100, mo_Absolute = 1000, mo_Cache = small_cfg\<rparr>"

definition demo_user :: User where
  "demo_user = \<lparr>u_ID = ''u1'', u_Login = ''ann'', u_Admin = False, u_MustChangePassword = False,
     u_EscrowNotice = False\<rparr>"

definition one_session :: Manager where
  "one_session =
     (let m = mgr_New demo_options
      in fst (Create (m\<lparr>m_keys := gm_put 7 ''secret'' (m_keys m)\<rparr>) 5 (Some ''abc'') (Some ''xyz'') demo_user 7))"

lemma one_session_reached: "mgr_reached one_session"
proof -
  let ?m = "mgr_New demo_options"
  have "mgr_reached ?m" by (rule reaches_start) blast
  then show ?thesis
    unfolding one_session_def Let_def
    by (rule reaches_step) (rule ms_create, simp_all add: mgr_New_def Let_def live_at_def)
qed

lemma one_session_live:
  obtains s where "live_at one_session (base64url ''abc'') = Some s" "s_UserID s = ''u1''"
    "s_dek s = Some 7" "s_deadline s = 1005" "s_lastSeen s = 5"
proof -
  let ?m = "mgr_New demo_options"
  have "mgr_inv ?m" by (rule mgr_New_inv)
  from Create_effect [OF this, of "''abc''" 7 "''secret''" 5 "''xyz''" demo_user]
  obtain m' sp s where "Create (?m\<lparr>m_keys := gm_put 7 ''secret'' (m_keys ?m)\<rparr>) 5 (Some ''abc'') (Some ''xyz'') demo_user 7
      = (m', Some sp)" "live_at m' = (live_at ?m)(base64url ''abc'' \<mapsto> s)" "s_UserID s = u_ID demo_user"
    "s_dek s = Some 7" "s_lastSeen s = 5" "s_deadline s = 5 + mo_Absolute (m_opts ?m)"
    by (auto simp: mgr_New_def Let_def live_at_def)
  then show ?thesis
    using that by (simp add: one_session_def Let_def demo_user_def mgr_New_def mgr_withDefaults_def demo_options_def)
qed

lemma one_session_key: "gm_get (m_keys one_session) 7 = Some ''secret''"
  by (simp add: one_session_def Let_def Create_def randomID_def mgr_New_def)

text \<open>
  C9. Keys do not outlive sessions: whatever logins, logouts, expiries, rotations and shutdowns a
  manager has been through, a data key whose bytes are still in memory (not all zero) is held by a
  session that is live under its identifier, and by no other one.
\<close>

theorem keys_held_by_live_sessions:
  assumes "mgr_reached m" and "gm_get (m_keys m) k = Some b" and "\<exists>c \<in> set b. c \<noteq> CHR 0x00"
  shows "\<exists>!sid. \<exists>s. live_at m sid = Some s \<and> s_dek s = Some k \<and> \<not> s_dead s"
proof -
  have inv: "mgr_inv m" using assms(1) by (rule mgr.inv_reachable)
  then have keys: "keys_ok {} m" by (simp add: mgr_inv_def)
  have "\<not> zeroed b" using assms(3) by (auto simp: zeroed_def)
  then obtain sid s where s: "live_at m sid = Some s" "s_dek s = Some k"
    using keys assms(2) unfolding keys_ok_def by blast
  obtain sp where "gm_get (m_sessions m) sid = Some sp" "gm_get (m_heap m) sp = Some s"
    by (rule live_ptr [OF inv s(1)])
  with inv have "\<not> s_dead s" using live_at_ptr by blast
  moreover have "a = sid" if "live_at m a = Some t" "s_dek t = Some k" for a t
    using keys s that unfolding keys_ok_def by metis
  ultimately show ?thesis using s by blast
qed

theorem keys_held_by_live_sessions_witness:
  "\<exists>!sid. \<exists>s. live_at one_session sid = Some s \<and> s_dek s = Some 7 \<and> \<not> s_dead s"
  by (rule keys_held_by_live_sessions [OF one_session_reached one_session_key]) simp

text \<open>
  Disabling a user takes effect at once: \<open>DestroyUser\<close> returns, every session of that user is
  gone and its key is zeroed, the number it reports is the number of sessions that went, and every
  other user's sessions and keys are as they were.
\<close>

theorem DestroyUser_ends_every_session:
  assumes "mgr_reached m"
  shows "\<exists>m' n. DestroyUser m u = Some (m', n) \<and>
    n = card {sid. \<exists>s. live_at m sid = Some s \<and> s_UserID s = u} \<and>
    (\<forall>sid s. live_at m' sid = Some s \<longleftrightarrow> live_at m sid = Some s \<and> s_UserID s \<noteq> u) \<and>
    (\<forall>sid s k b. live_at m sid = Some s \<longrightarrow> s_dek s = Some k \<longrightarrow> gm_get (m_keys m') k = Some b \<longrightarrow>
      (if s_UserID s = u then set b \<subseteq> {CHR 0x00} else gm_get (m_keys m) k = Some b))"
proof -
  have inv: "mgr_inv m" using assms by (rule mgr.inv_reachable)
  let ?gone = "{sid. \<exists>s. live_at m sid = Some s \<and> s_UserID s = u}"
  obtain m' where m': "DestroyUser m u = Some (m', length (user_ids m u))" "ended_all ?gone m m'"
    using DestroyUser_effect [OF inv] by blast
  have "set (user_ids m u) = ?gone" "distinct (user_ids m u)"
    using inv by (auto simp: mgr_inv_def index_ok_def)
  then have n: "length (user_ids m u) = card ?gone" by (metis distinct_card)
  have keys: "if s_UserID s = u then set b \<subseteq> {CHR 0x00} else gm_get (m_keys m) k = Some b"
    if s: "live_at m sid = Some s" and k: "s_dek s = Some k" and b: "gm_get (m_keys m') k = Some b" for sid s k b
  proof (cases "s_UserID s = u")
    case True
    with s k have "\<exists>sid \<in> ?gone. \<exists>s. live_at m sid = Some s \<and> s_dek s = Some k" by blast
    with b have "map_option (\<lambda>b. replicate (length b) (CHR 0x00)) (gm_get (m_keys m) k) = Some b"
      by (simp only: ended_all_keys [OF m'(2)] if_True simp_thms)
    with True show ?thesis by auto
  next
    case False
    have "keys_ok {} m" using inv by (simp add: mgr_inv_def)
    then have "a = sid" if "live_at m a = Some t" "s_dek t = Some k" for a t
      using s k that unfolding keys_ok_def by metis
    then have "\<not> (\<exists>sid \<in> ?gone. \<exists>s. live_at m sid = Some s \<and> s_dek s = Some k)"
      using s False by fastforce
    with b have "gm_get (m_keys m) k = Some b"
      by (simp only: ended_all_keys [OF m'(2)] if_False simp_thms)
    with False show ?thesis by simp
  qed
  have "live_at m' sid = Some s \<longleftrightarrow> live_at m sid = Some s \<and> s_UserID s \<noteq> u" for sid s
    using m'(2) by (auto simp: ended_all_def)
  then show ?thesis using m'(1) n keys by (intro exI [of _ m'] exI [of _ "length (user_ids m u)"]) blast
qed

theorem DestroyUser_ends_every_session_witness:
  "\<exists>m' n. DestroyUser one_session ''u1'' = Some (m', n) \<and> live_at m' (base64url ''abc'') = None"
proof -
  obtain m' n where d: "DestroyUser one_session ''u1'' = Some (m', n)"
    and l: "\<forall>sid s. live_at m' sid = Some s \<longleftrightarrow> live_at one_session sid = Some s \<and> s_UserID s \<noteq> ''u1''"
    using DestroyUser_ends_every_session [OF one_session_reached, of "''u1''"] by blast
  obtain s where "live_at one_session (base64url ''abc'') = Some s" "s_UserID s = ''u1''"
    by (rule one_session_live)
  with l have "live_at m' (base64url ''abc'') = None" by (cases "live_at m' (base64url ''abc'')") auto
  with d show ?thesis by blast
qed

text \<open>
  \<open>Get\<close> lets an identifier through exactly while its session is live and neither its idle time
  nor its absolute deadline has passed; an identifier it refuses stays refused, since an expired
  session is destroyed on the way out.
\<close>

theorem Get_iff_not_expired:
  assumes "mgr_reached m" and "sid \<noteq> []"
  shows "\<exists>m' r. mgr_Get m now sid = Some (m', r) \<and>
    (r \<noteq> None \<longleftrightarrow> (\<exists>s. live_at m sid = Some s \<and> now < s_deadline s \<and>
       time_sub now (s_lastSeen s) < mo_Idle (m_opts m))) \<and>
    (r = None \<longrightarrow> live_at m' sid = None \<and> mgr_Get m' later sid = Some (m', None))"
proof -
  have inv: "mgr_inv m" using assms(1) by (rule mgr.inv_reachable)
  obtain m' r where g: "mgr_Get m now sid = Some (m', r)" "mgr_inv m'"
    and e: "case live_at m sid of None \<Rightarrow> r = None \<and> m' = m
      | Some s \<Rightarrow> if expired m s now then r = None \<and> ended_all {sid} m m'
         else r = gm_get (m_sessions m) sid \<and> live_at m' = (live_at m)(sid \<mapsto> s\<lparr>s_lastSeen := now\<rparr>) \<and>
           m_keys m' = m_keys m"
    using Get_effect [OF inv assms(2)] by blast
  have alive: "\<not> s_dead s \<and> gm_get (m_sessions m) sid \<noteq> None" if "live_at m sid = Some s" for s
    using live_ptr [OF inv that] live_at_ptr [OF inv] by (metis option.distinct(1))
  have iff: "r \<noteq> None \<longleftrightarrow> (\<exists>s. live_at m sid = Some s \<and> now < s_deadline s \<and>
       time_sub now (s_lastSeen s) < mo_Idle (m_opts m))"
    using e alive by (cases "live_at m sid") (auto simp: expired_def split: if_splits)
  have none: "r = None \<Longrightarrow> live_at m' sid = None"
    using e alive by (cases "live_at m sid") (auto simp: ended_all_def split: if_splits)
  moreover have "live_at m' sid = None \<Longrightarrow> mgr_Get m' later sid = Some (m', None)"
    using Get_effect [OF g(2) assms(2), of later] by auto
  ultimately show ?thesis using g(1) iff by blast
qed

theorem Get_iff_not_expired_witness:
  "\<exists>m' sp. mgr_Get one_session 50 (base64url ''abc'') = Some (m', Some sp)"
proof -
  obtain s where s: "live_at one_session (base64url ''abc'') = Some s" "s_deadline s = 1005" "s_lastSeen s = 5"
    by (rule one_session_live)
  have o: "mo_Idle (m_opts one_session) = 100"
    by (simp add: one_session_def Let_def Create_def randomID_def mgr_New_def mgr_withDefaults_def demo_options_def)
  have "base64url ''abc'' \<noteq> []" by (simp add: Let_def)
  from Get_iff_not_expired [OF one_session_reached this, of 50 0] s o show ?thesis
    by (auto simp: time_sub_def sat64_def int64_max_def int64_min_def)
qed

text \<open>
  Rotating a session moves it to the new identifier: same user, same data key with its bytes
  untouched, same deadline, cache and drafts, except that import drafts do not come along; the old
  identifier stops working and no other session changes.
\<close>

theorem Rotate_moves_session:
  assumes "mgr_reached m" and "live_at m sid = Some s" and "gm_get (m_sessions m) (base64url r) = None"
  shows "\<exists>m' sp. Rotate m now (Some r) sid = (m', Some sp) \<and> m_keys m' = m_keys m \<and>
    live_at m' = (live_at m)(sid := None,
      base64url r \<mapsto> s\<lparr>s_ID := base64url r, s_lastSeen := now, s_imports := []\<rparr>)"
  using Rotate_effect [OF mgr.inv_reachable [OF assms(1)] assms(3,2), of now] by blast

theorem Rotate_moves_session_witness:
  "\<exists>m' sp. Rotate one_session 60 (Some ''new'') (base64url ''abc'') = (m', Some sp) \<and>
    gm_get (m_keys m') 7 = Some ''secret'' \<and> live_at m' (base64url ''abc'') = None"
proof -
  obtain s where s: "live_at one_session (base64url ''abc'') = Some s" by (rule one_session_live)
  have "base64url ''new'' \<noteq> base64url ''abc''" using base64url_inj [of "''new''" "''abc''"] by auto
  then have f: "gm_get (m_sessions one_session) (base64url ''new'') = None"
    by (simp add: one_session_def Let_def Create_def randomID_def mgr_New_def mgr_insert_def del: base64url.simps)
  from Rotate_moves_session [OF one_session_reached s f, of 60] one_session_key
    \<open>base64url ''new'' \<noteq> base64url ''abc''\<close>
  show ?thesis by (auto simp del: base64url.simps)
qed

end
