(* ===== verification/Go_Strings.thy ===== *)
theory Go_Strings
  imports Carrel_Prelude "HOL-Library.Char_ord" "HOL-Library.List_Lexorder" "HOL-Library.Sublist"
begin

text \<open>
  Go strings and the functions of package \<open>strings\<close>, \<open>unicode\<close> and \<open>unicode/utf8\<close> the program
  calls. A Go string is a sequence of bytes, which is the type \<^typ>\<open>string\<close>; ranging over one
  decodes UTF-8, and an invalid byte decodes to U+FFFD with width 1. \<open>unicode.IsSpace\<close> is written
  out in full. The case and category tables of package \<open>unicode\<close> beyond ASCII are data of the
  standard library, so they are a parameter, the record \<open>unicode\<close>.
\<close>

subsection \<open>UTF-8\<close>

type_synonym rune = nat

abbreviation byte :: "char \<Rightarrow> nat" where
  "byte c \<equiv> of_char c"

definition RuneError :: rune where
  "RuneError = 65533"

definition continuation :: "nat \<Rightarrow> bool" where
  "continuation b \<longleftrightarrow> 128 \<le> b \<and> b \<le> 191"

definition second_byte_ok :: "nat \<Rightarrow> nat \<Rightarrow> bool" where
  "second_byte_ok b0 b1 \<longleftrightarrow>
     (if b0 = 224 then 160 \<le> b1 \<and> b1 \<le> 191
      else if b0 = 237 then 128 \<le> b1 \<and> b1 \<le> 159
      else if b0 = 240 then 144 \<le> b1 \<and> b1 \<le> 191
      else if b0 = 244 then 128 \<le> b1 \<and> b1 \<le> 143
      else continuation b1)"

fun DecodeRune :: "string \<Rightarrow> rune \<times> nat" where
  "DecodeRune [] = (RuneError, 0)"
| "DecodeRune (c0 # cs) =
     (let b0 = byte c0 in
      if b0 < 128 then (b0, 1)
      else if 194 \<le> b0 \<and> b0 \<le> 223 then
        (case cs of
           c1 # _ \<Rightarrow> if continuation (byte c1)
                     then ((b0 - 192) * 64 + (byte c1 - 128), 2) else (RuneError, 1)
         | _ \<Rightarrow> (RuneError, 1))
      else if 224 \<le> b0 \<and> b0 \<le> 239 then
        (case cs of
           c1 # c2 # _ \<Rightarrow>
             if second_byte_ok b0 (byte c1) \<and> continuation (byte c2)
             then ((b0 - 224) * 4096 + (byte c1 - 128) * 64 + (byte c2 - 128), 3)
             else (RuneError, 1)
         | _ \<Rightarrow> (RuneError, 1))
      else if 240 \<le> b0 \<and> b0 \<le> 244 then
        (case cs of
           c1 # c2 # c3 # _ \<Rightarrow>
             if second_byte_ok b0 (byte c1) \<and> continuation (byte c2) \<and> continuation (byte c3)
             then ((b0 - 240) * 262144 + (byte c1 - 128) * 4096 + (byte c2 - 128) * 64
                   + (byte c3 - 128), 4)
             else (RuneError, 1)
         | _ \<Rightarrow> (RuneError, 1))
      else (RuneError, 1))"

declare DecodeRune.simps(2) [simp del]

lemma DecodeRune_width_pos: "s \<noteq> [] \<Longrightarrow> 0 < snd (DecodeRune s)"
  by (cases s) (auto simp: DecodeRune.simps(2) Let_def split: list.splits)

lemma DecodeRune_pair_pos: "(r, w) = DecodeRune s \<Longrightarrow> s \<noteq> [] \<Longrightarrow> 0 < w"
  using DecodeRune_width_pos [of s] by (metis snd_conv)

text \<open>Ranging over a string: each rune with the bytes it was decoded from.\<close>

function chunks :: "string \<Rightarrow> (rune \<times> string) list" where
  "chunks s =
     (if s = [] then []
      else case DecodeRune s of (r, w) \<Rightarrow> (r, take w s) # chunks (drop w s))"
  by pat_completeness auto
termination
  by (relation "measure length") (auto dest: DecodeRune_pair_pos)

declare chunks.simps [simp del]

definition runes :: "string \<Rightarrow> rune list" where
  "runes s = map fst (chunks s)"

definition chunk_bytes :: "(rune \<times> string) list \<Rightarrow> string" where
  "chunk_bytes cs = concat (map snd cs)"

lemma chunks_Nil [simp]: "chunks [] = []"
  by (simp add: chunks.simps)

lemma chunks_step:
  "s \<noteq> [] \<Longrightarrow> chunks s = (fst (DecodeRune s), take (snd (DecodeRune s)) s)
     # chunks (drop (snd (DecodeRune s)) s)"
  by (simp add: chunks.simps [of s] case_prod_beta)

lemma chunk_bytes_simps [simp]:
  "chunk_bytes [] = []" "chunk_bytes (c # cs) = snd c @ chunk_bytes cs"
  "chunk_bytes (cs @ ds) = chunk_bytes cs @ chunk_bytes ds"
  by (simp_all add: chunk_bytes_def)

lemma chunk_bytes_chunks [simp]: "chunk_bytes (chunks s) = s"
proof (induction s rule: chunks.induct)
  case (1 s)
  show ?case
  proof (cases "s = []")
    case False
    with "1.IH" [OF False] have "chunk_bytes (chunks (drop (snd (DecodeRune s)) s)) = drop (snd (DecodeRune s)) s"
      by (metis prod.collapse)
    with False show ?thesis by (simp add: chunks_step)
  qed simp
qed

text \<open>Decoding looks no further than the bytes it consumes.\<close>

lemma DecodeRune_width_le: "snd (DecodeRune s) \<le> length s"
  by (cases s) (auto simp: DecodeRune.simps(2) Let_def split: list.splits)

lemma DecodeRune_short:
  "DecodeRune [c] = (if byte c < 128 then (byte c, 1) else (RuneError, 1))"
  "224 \<le> byte c \<Longrightarrow> DecodeRune [c, d] = (RuneError, 1)"
  "240 \<le> byte c \<Longrightarrow> DecodeRune [c, d, e] = (RuneError, 1)"
  by (simp_all add: DecodeRune.simps(2) Let_def)

lemma DecodeRune_one: "snd (DecodeRune (c # cs)) \<le> 1 \<Longrightarrow> DecodeRune (c # cs) = DecodeRune [c]"
  unfolding DecodeRune.simps(2) Let_def by (auto split: list.split_asm list.split if_split_asm)

lemma DecodeRune_long:
  "DecodeRune (c # d # e # f # cs) = DecodeRune [c, d, e, f]"
  "byte c < 240 \<Longrightarrow> DecodeRune (c # d # e # cs) = DecodeRune [c, d, e]"
  "byte c < 224 \<Longrightarrow> DecodeRune (c # d # cs) = DecodeRune [c, d]"
  by (simp_all add: DecodeRune.simps(2) Let_def)

lemma DecodeRune_width:
  "224 \<le> byte c \<Longrightarrow> snd (DecodeRune (c # cs)) \<in> {1, 3, 4}"
  "240 \<le> byte c \<Longrightarrow> snd (DecodeRune (c # cs)) \<in> {1, 4}"
  by (auto simp: DecodeRune.simps(2) Let_def split: list.split)

lemma DecodeRune_cut:
  assumes "snd (DecodeRune (s @ t)) \<le> length s" and "s \<noteq> []"
  shows "DecodeRune s = DecodeRune (s @ t)"
proof -
  consider c where "s = [c]" | c d where "s = [c, d]" | c d e where "s = [c, d, e]"
    | c d e f s' where "s = c # d # e # f # s'"
    using \<open>s \<noteq> []\<close> by (metis neq_Nil_conv)
  then show ?thesis
  proof cases
    case (1 c)
    then show ?thesis using assms(1) DecodeRune_one [of c t] by simp
  next
    case (2 c d)
    show ?thesis
    proof (cases "byte c < 224")
      case False
      then have "snd (DecodeRune (c # d # t)) \<le> 1"
        using assms(1) 2 DecodeRune_width(1) [of c "d # t"] by auto
      with False 2 show ?thesis by (metis DecodeRune_one DecodeRune_short(2) append_Cons append_Nil
          linorder_not_le order_refl snd_conv)
    qed (simp add: 2 DecodeRune_long(3) [of c d t])
  next
    case (3 c d e)
    show ?thesis
    proof (cases "byte c < 240")
      case False
      then have "snd (DecodeRune (c # d # e # t)) \<le> 1"
        using assms(1) 3 DecodeRune_width(2) [of c "d # e # t"] by auto
      with False 3 show ?thesis by (metis DecodeRune_one DecodeRune_short(3) append_Cons append_Nil
          linorder_not_le order_refl snd_conv)
    qed (simp add: 3 DecodeRune_long(2) [of c d e t])
  next
    case (4 c d e f s')
    then show ?thesis
      by (simp add: DecodeRune_long(1) [of c d e f s'] DecodeRune_long(1) [of c d e f "s' @ t"])
  qed
qed

lemma chunks_suffix: "chunks s = cs @ ds \<Longrightarrow> chunks (chunk_bytes ds) = ds"
proof (induction cs arbitrary: s)
  case Nil
  then show ?case by (metis append_Nil chunk_bytes_chunks)
next
  case (Cons c cs)
  then have "s \<noteq> []" by auto
  with Cons.prems have "chunks (drop (snd (DecodeRune s)) s) = cs @ ds"
    by (simp add: chunks_step)
  then show ?case by (rule Cons.IH)
qed

lemma chunks_prefix: "chunks s = cs @ ds \<Longrightarrow> chunks (chunk_bytes cs) = cs"
proof (induction cs arbitrary: s)
  case (Cons c cs)
  then have ne: "s \<noteq> []" by auto
  let ?w = "snd (DecodeRune s)"
  have c: "c = (fst (DecodeRune s), take ?w s)" and rest: "chunks (drop ?w s) = cs @ ds"
    using Cons.prems ne by (simp_all add: chunks_step)
  have whole: "s = take ?w s @ chunk_bytes cs @ chunk_bytes ds"
    using rest by (metis append_take_drop_id chunk_bytes_chunks chunk_bytes_simps(3))
  let ?p = "take ?w s @ chunk_bytes cs"
  have len: "length (take ?w s) = ?w" by (simp add: DecodeRune_width_le)
  have pos: "0 < ?w" using ne by (rule DecodeRune_width_pos)
  have "?p \<noteq> []" using len pos by auto
  moreover have "DecodeRune ?p = DecodeRune s"
    using DecodeRune_cut [of ?p "chunk_bytes ds"] whole len \<open>?p \<noteq> []\<close>
    by (metis append.assoc le_add1 length_append)
  moreover have "chunks (chunk_bytes cs) = cs" using rest by (rule Cons.IH)
  ultimately show ?case using c len by (simp add: chunks_step)
qed simp

subsection \<open>Package unicode\<close>

record unicode =
  uc_lower :: "rune \<Rightarrow> rune"
  uc_upper :: "rune \<Rightarrow> rune"
  uc_letter :: "rune \<Rightarrow> bool"
  uc_digit :: "rune \<Rightarrow> bool"

definition IsSpace :: "rune \<Rightarrow> bool" where
  "IsSpace r \<longleftrightarrow> r \<in> {9, 10, 11, 12, 13, 32, 133, 160, 5760, 8232, 8233, 8239, 8287, 12288}
     \<or> (8192 \<le> r \<and> r \<le> 8202)"

definition rune_lower :: "unicode \<Rightarrow> rune \<Rightarrow> rune" where
  "rune_lower U r = (if r < 128 then (if 65 \<le> r \<and> r \<le> 90 then r + 32 else r) else uc_lower U r)"

definition rune_upper :: "unicode \<Rightarrow> rune \<Rightarrow> rune" where
  "rune_upper U r = (if r < 128 then (if 97 \<le> r \<and> r \<le> 122 then r - 32 else r) else uc_upper U r)"

definition IsDigit :: "unicode \<Rightarrow> rune \<Rightarrow> bool" where
  "IsDigit U r \<longleftrightarrow> (if r < 128 then 48 \<le> r \<and> r \<le> 57 else uc_digit U r)"

definition IsLetter :: "unicode \<Rightarrow> rune \<Rightarrow> bool" where
  "IsLetter U r \<longleftrightarrow>
     (if r < 128 then (65 \<le> r \<and> r \<le> 90) \<or> (97 \<le> r \<and> r \<le> 122) else uc_letter U r)"

definition encode_rune :: "rune \<Rightarrow> string" where
  "encode_rune r0 =
     (let r = (if 1114111 < r0 \<or> (55296 \<le> r0 \<and> r0 \<le> 57343) then RuneError else r0) in
      if r < 128 then [char_of r]
      else if r < 2048 then [char_of (192 + r div 64), char_of (128 + r mod 64)]
      else if r < 65536 then
        [char_of (224 + r div 4096), char_of (128 + r div 64 mod 64), char_of (128 + r mod 64)]
      else
        [char_of (240 + r div 262144), char_of (128 + r div 4096 mod 64),
         char_of (128 + r div 64 mod 64), char_of (128 + r mod 64)])"

text \<open>The ASCII tables alone: a concrete instance of the parameter for the examples.\<close>

definition ascii_unicode :: unicode where
  "ascii_unicode = \<lparr>uc_lower = (\<lambda>r. r), uc_upper = (\<lambda>r. r), uc_letter = (\<lambda>_. False),
     uc_digit = (\<lambda>_. False)\<rparr>"

subsection \<open>Package strings\<close>

definition ToLower :: "unicode \<Rightarrow> string \<Rightarrow> string" where
  "ToLower U s = concat (map (\<lambda>r. encode_rune (rune_lower U r)) (runes s))"

definition ToUpper :: "unicode \<Rightarrow> string \<Rightarrow> string" where
  "ToUpper U s = concat (map (\<lambda>r. encode_rune (rune_upper U r)) (runes s))"

text \<open>Dropping from both ends.\<close>

definition dropWhile_end :: "('a \<Rightarrow> bool) \<Rightarrow> 'a list \<Rightarrow> 'a list" where
  "dropWhile_end P xs = rev (dropWhile P (rev xs))"

definition trim_list :: "('a \<Rightarrow> bool) \<Rightarrow> 'a list \<Rightarrow> 'a list" where
  "trim_list P xs = dropWhile_end P (dropWhile P xs)"

definition TrimSpace :: "string \<Rightarrow> string" where
  "TrimSpace s = chunk_bytes (trim_list (\<lambda>(r, _). IsSpace r) (chunks s))"

definition HasPrefix :: "string \<Rightarrow> string \<Rightarrow> bool" where
  "HasPrefix s p \<longleftrightarrow> prefix p s"

definition HasSuffix :: "string \<Rightarrow> string \<Rightarrow> bool" where
  "HasSuffix s p \<longleftrightarrow> suffix p s"

definition TrimPrefix :: "string \<Rightarrow> string \<Rightarrow> string" where
  "TrimPrefix s p = (if HasPrefix s p then drop (length p) s else s)"

definition TrimSuffix :: "string \<Rightarrow> string \<Rightarrow> string" where
  "TrimSuffix s p = (if HasSuffix s p then take (length s - length p) s else s)"

fun Index_byte :: "string \<Rightarrow> char \<Rightarrow> nat option" where
  "Index_byte [] c = None"
| "Index_byte (x # s) c = (if x = c then Some 0 else map_option Suc (Index_byte s c))"

text \<open>\<open>strings.ReplaceAll\<close> of a one-byte string by the empty one.\<close>

definition delete_byte :: "char \<Rightarrow> string \<Rightarrow> string" where
  "delete_byte c s = filter (\<lambda>x. x \<noteq> c) s"

text \<open>\<open>strings.Split\<close> at a one-byte separator and \<open>strings.Join\<close>.\<close>

fun Split_byte :: "char \<Rightarrow> string \<Rightarrow> string list" where
  "Split_byte c [] = [[]]"
| "Split_byte c (x # s) =
     (if x = c then [] # Split_byte c s
      else case Split_byte c s of [] \<Rightarrow> [[x]] | w # ws \<Rightarrow> (x # w) # ws)"

fun Join :: "string \<Rightarrow> string list \<Rightarrow> string" where
  "Join sep [] = []"
| "Join sep [w] = w"
| "Join sep (w # v # ws) = w @ sep @ Join sep (v # ws)"

text \<open>\<open>strings.Fields\<close>: the maximal runs of non-space runes.\<close>

function Fields_chunks :: "(rune \<times> string) list \<Rightarrow> string list" where
  "Fields_chunks cs =
     (let cs = dropWhile (\<lambda>(r, _). IsSpace r) cs in
      if cs = [] then []
      else chunk_bytes (takeWhile (\<lambda>(r, _). \<not> IsSpace r) cs)
             # Fields_chunks (dropWhile (\<lambda>(r, _). \<not> IsSpace r) cs))"
  by pat_completeness auto
termination
proof (relation "measure length")
  fix cs xs :: "(rune \<times> string) list"
  assume xs: "xs = dropWhile (\<lambda>(r, _). IsSpace r) cs" and ne: "xs \<noteq> []"
  then obtain x ys where x: "xs = x # ys" by (metis list.exhaust)
  have "\<not> (case x of (r, _) \<Rightarrow> IsSpace r)" using xs x by (metis hd_dropWhile list.sel(1) list.discI)
  then have "length (dropWhile (\<lambda>(r, _). \<not> IsSpace r) xs) \<le> length ys"
    using x by (auto simp: length_dropWhile_le)
  also have "\<dots> < length xs" using x by simp
  also have "\<dots> \<le> length cs" unfolding xs by (rule length_dropWhile_le)
  finally show "(dropWhile (\<lambda>(r, _). \<not> IsSpace r) xs, cs) \<in> measure length" by simp
qed simp

declare Fields_chunks.simps [simp del]

definition Fields :: "string \<Rightarrow> string list" where
  "Fields s = Fields_chunks (chunks s)"

subsection \<open>ASCII bytes are runes of their own\<close>

lemma DecodeRune_ascii: "byte c < 128 \<Longrightarrow> DecodeRune (c # s) = (byte c, 1)"
  by (simp add: DecodeRune.simps(2))

lemma chunks_ascii_Cons: "byte c < 128 \<Longrightarrow> chunks (c # s) = (byte c, [c]) # chunks s"
  by (simp add: chunks_step DecodeRune_ascii)

lemma second_byte_continuation: "second_byte_ok b0 b1 \<Longrightarrow> 128 \<le> b1"
  by (auto simp: second_byte_ok_def continuation_def split: if_splits)

lemma DecodeRune_tail_high:
  assumes "0 < i" and "i < snd (DecodeRune s)"
  shows "128 \<le> byte (s ! i)"
proof (cases s)
  case (Cons c0 cs)
  then show ?thesis
    using assms unfolding Cons DecodeRune.simps(2) Let_def
    by (auto split: list.split_asm if_split_asm simp: continuation_def nth_Cons'
        dest: second_byte_continuation)
qed (use assms in simp)

lemma DecodeRune_high:
  assumes "128 \<le> byte c"
  shows "128 \<le> fst (DecodeRune (c # cs))"
proof -
  consider (two) "194 \<le> byte c \<and> byte c \<le> 223" | (three) "224 \<le> byte c \<and> byte c \<le> 239"
    | (four) "240 \<le> byte c \<and> byte c \<le> 244" | (bad) "\<not> (194 \<le> byte c \<and> byte c \<le> 244)" by linarith
  then show ?thesis
  proof cases
    case two
    then have "2 \<le> byte c - 192" by linarith
    then have "2 * 64 \<le> (byte c - 192) * 64" by (rule mult_le_mono1)
    then show ?thesis using two by (auto simp: DecodeRune.simps(2) Let_def RuneError_def split: list.split)
  next
    case three
    have big: "128 \<le> (byte c - 224) * 4096 + (byte x - 128) * 64 + (byte y - 128)"
      if "second_byte_ok (byte c) (byte x)" for x y
    proof (cases "byte c = 224")
      case True
      then have "160 \<le> byte x" using that by (simp add: second_byte_ok_def)
      then have "32 \<le> byte x - 128" by linarith
      then have "32 * 64 \<le> (byte x - 128) * 64" by (rule mult_le_mono1)
      then show ?thesis by linarith
    next
      case False
      then have "1 \<le> byte c - 224" using three by linarith
      then have "1 * 4096 \<le> (byte c - 224) * 4096" by (rule mult_le_mono1)
      then show ?thesis by linarith
    qed
    then show ?thesis using three by (auto simp: DecodeRune.simps(2) Let_def RuneError_def split: list.split)
  next
    case four
    have big: "128 \<le> (byte c - 240) * 262144 + (byte x - 128) * 4096 + (byte y - 128) * 64 + (byte z - 128)"
      if "second_byte_ok (byte c) (byte x)" for x y z
    proof (cases "byte c = 240")
      case True
      then have "144 \<le> byte x" using that by (simp add: second_byte_ok_def)
      then have "16 \<le> byte x - 128" by linarith
      then have "16 * 4096 \<le> (byte x - 128) * 4096" by (rule mult_le_mono1)
      then show ?thesis by linarith
    next
      case False
      then have "1 \<le> byte c - 240" using four by linarith
      then have "1 * 262144 \<le> (byte c - 240) * 262144" by (rule mult_le_mono1)
      then show ?thesis by linarith
    qed
    then show ?thesis using four by (auto simp: DecodeRune.simps(2) Let_def RuneError_def split: list.split)
  next
    case bad
    then show ?thesis using assms by (auto simp: DecodeRune.simps(2) Let_def RuneError_def)
  qed
qed

lemma DecodeRune_low:
  "fst (DecodeRune (c # s)) < 128 \<Longrightarrow> byte c < 128 \<and> DecodeRune (c # s) = (byte c, 1)"
  using DecodeRune_high [of c s] DecodeRune_ascii [of c s] by (metis not_le)

lemma low_runes_ascii:
  "\<forall>r \<in> set (runes s). r < 128 \<Longrightarrow> chunks s = map (\<lambda>c. (byte c, [c])) s"
proof (induction s)
  case (Cons c s)
  have "fst (DecodeRune (c # s)) < 128" using Cons.prems by (simp add: runes_def chunks_step)
  then have "byte c < 128" using DecodeRune_low by blast
  then have e: "chunks (c # s) = (byte c, [c]) # chunks s" by (rule chunks_ascii_Cons)
  have "\<forall>r \<in> set (runes s). r < 128" using Cons.prems unfolding runes_def e by simp
  then show ?case using Cons.IH e by simp
qed simp

lemma DecodeRune_bytes_high:
  assumes "128 \<le> byte c" and "x \<in> set (take (snd (DecodeRune (c # cs))) (c # cs))"
  shows "128 \<le> byte x"
proof -
  have one: "x = c" if "snd (DecodeRune (c # cs)) = 1" using assms(2) that by simp
  have cont: "128 \<le> b" if "continuation b" for b using that by (simp add: continuation_def)
  consider (two) "194 \<le> byte c \<and> byte c \<le> 223" | (three) "224 \<le> byte c \<and> byte c \<le> 239"
    | (four) "240 \<le> byte c \<and> byte c \<le> 244" | (bad) "\<not> (194 \<le> byte c \<and> byte c \<le> 244)" by linarith
  then show ?thesis
  proof cases
    case two
    show ?thesis
    proof (cases "\<exists>c1 r. cs = c1 # r \<and> continuation (byte c1)")
      case True
      then show ?thesis using two assms cont by (auto simp: DecodeRune.simps(2) Let_def)
    next
      case False
      then have "snd (DecodeRune (c # cs)) = 1" using two by (auto simp: DecodeRune.simps(2) Let_def split: list.split)
      then show ?thesis using one assms(1) by simp
    qed
  next
    case three
    show ?thesis
    proof (cases "\<exists>c1 c2 r. cs = c1 # c2 # r \<and> second_byte_ok (byte c) (byte c1) \<and> continuation (byte c2)")
      case True
      then show ?thesis using three assms cont second_byte_continuation by (auto simp: DecodeRune.simps(2) Let_def numeral_3_eq_3)
    next
      case False
      then have "snd (DecodeRune (c # cs)) = 1" using three by (auto simp: DecodeRune.simps(2) Let_def split: list.split)
      then show ?thesis using one assms(1) by simp
    qed
  next
    case four
    show ?thesis
    proof (cases "\<exists>c1 c2 c3 r. cs = c1 # c2 # c3 # r \<and> second_byte_ok (byte c) (byte c1) \<and> continuation (byte c2) \<and> continuation (byte c3)")
      case True
      then obtain c1 c2 c3 r where c: "cs = c1 # c2 # c3 # r" and k: "second_byte_ok (byte c) (byte c1)"
        "continuation (byte c2)" "continuation (byte c3)" by blast
      have "snd (DecodeRune (c # cs)) = 4" using four k by (simp add: c DecodeRune.simps(2) Let_def)
      then have "x \<in> {c, c1, c2, c3}" using assms(2) by (simp add: c)
      then show ?thesis using assms(1) cont [OF k(2)] cont [OF k(3)] second_byte_continuation [OF k(1)] by blast
    next
      case False
      then have "snd (DecodeRune (c # cs)) = 1" using four by (auto simp: DecodeRune.simps(2) Let_def split: list.split)
      then show ?thesis using one assms(1) by simp
    qed
  next
    case bad
    then have "snd (DecodeRune (c # cs)) = 1" using assms(1) by (auto simp: DecodeRune.simps(2) Let_def)
    then show ?thesis using one assms(1) by simp
  qed
qed

text \<open>A rune below 128 stands for the byte of the same value, and such a byte for that rune.\<close>

lemma runes_low: "r < 128 \<Longrightarrow> r \<in> set (runes s) \<longleftrightarrow> (\<exists>c \<in> set s. byte c = r)"
proof (induction s rule: chunks.induct)
  case (1 s)
  show ?case
  proof (cases s)
    case (Cons c cs)
    let ?w = "snd (DecodeRune s)"
    have r: "runes s = fst (DecodeRune s) # runes (drop ?w s)" using Cons by (simp add: runes_def chunks_step)
    have ih: "r \<in> set (runes (drop ?w s)) \<longleftrightarrow> (\<exists>c \<in> set (drop ?w s). byte c = r)"
      using "1.IH" [of "fst (DecodeRune s)" ?w] "1.prems" Cons by simp
    have s: "set s = set (take ?w s) \<union> set (drop ?w s)" by (metis append_take_drop_id set_append)
    show ?thesis
    proof (cases "byte c < 128")
      case True
      then have d: "DecodeRune s = (byte c, 1)" unfolding Cons by (rule DecodeRune_ascii)
      then show ?thesis using ih Cons unfolding r by auto
    next
      case False
      then have "128 \<le> fst (DecodeRune s)" "\<forall>x \<in> set (take ?w s). 128 \<le> byte x"
        using DecodeRune_high [of c cs] DecodeRune_bytes_high [of c _ cs] unfolding Cons by (simp, force)
      then show ?thesis using ih "1.prems" unfolding r s by force
    qed
  qed (simp add: runes_def)
qed

lemma DecodeRune_append_ascii:
  assumes "s \<noteq> []" and "byte c < 128"
  shows "DecodeRune (s @ c # t) = DecodeRune s"
proof -
  have "\<not> length s < snd (DecodeRune (s @ c # t))"
    using assms DecodeRune_tail_high [of "length s" "s @ c # t"] by auto
  then show ?thesis using assms(1) DecodeRune_cut [of s "c # t"] by simp
qed

lemma chunks_append_ascii:
  "byte c < 128 \<Longrightarrow> chunks (s @ c # t) = chunks s @ (byte c, [c]) # chunks t"
proof (induction s rule: chunks.induct)
  case (1 s)
  show ?case
  proof (cases "s = []")
    case True
    with "1.prems" show ?thesis by (simp add: chunks_ascii_Cons)
  next
    case False
    let ?w = "snd (DecodeRune s)"
    have D: "DecodeRune (s @ c # t) = DecodeRune s"
      using False "1.prems" by (rule DecodeRune_append_ascii)
    have "chunks (drop ?w s @ c # t) = chunks (drop ?w s) @ (byte c, [c]) # chunks t"
      using "1.IH" [OF False _ "1.prems"] by (metis prod.collapse)
    with False D DecodeRune_width_le [of s] show ?thesis
      by (simp add: chunks_step)
  qed
qed

subsection \<open>TrimSpace\<close>

lemma trim_list_prefix: "\<exists>vs. dropWhile P xs = trim_list P xs @ vs"
  unfolding trim_list_def dropWhile_end_def by (metis rev_append rev_rev_ident takeWhile_dropWhile_id)

lemma hd_trim_list:
  assumes ne: "trim_list P xs \<noteq> []"
  shows "\<not> P (hd (trim_list P xs))"
proof -
  obtain vs where eq: "dropWhile P xs = trim_list P xs @ vs"
    using trim_list_prefix by blast
  from eq ne have "dropWhile P xs \<noteq> []" by (metis append_is_Nil_conv)
  then have "\<not> P (hd (dropWhile P xs))" by (rule hd_dropWhile)
  then show ?thesis unfolding eq hd_append2 [OF ne] .
qed

lemma last_trim_list: "trim_list P xs \<noteq> [] \<Longrightarrow> \<not> P (last (trim_list P xs))"
  unfolding trim_list_def dropWhile_end_def by (metis hd_dropWhile hd_rev rev_is_Nil_conv rev_rev_ident)

lemma trim_list_id: "xs = [] \<or> (\<not> P (hd xs) \<and> \<not> P (last xs)) \<Longrightarrow> trim_list P xs = xs"
proof (cases xs)
  case (Cons y ys)
  assume "xs = [] \<or> (\<not> P (hd xs) \<and> \<not> P (last xs))"
  with Cons have "\<not> P y" and l: "\<not> P (last xs)" by auto
  then have "dropWhile P xs = xs" using Cons by simp
  moreover have "dropWhile P (rev xs) = rev xs"
    using l Cons by (cases "rev xs") (auto simp: last_rev simp flip: hd_rev)
  ultimately show ?thesis by (simp add: trim_list_def dropWhile_end_def)
qed (simp add: trim_list_def dropWhile_end_def)

lemma trim_list_idem: "trim_list P (trim_list P xs) = trim_list P xs"
  by (rule trim_list_id) (metis hd_trim_list last_trim_list)

lemma trim_list_infix: "\<exists>us vs. xs = us @ trim_list P xs @ vs"
  unfolding trim_list_def dropWhile_end_def
  by (metis rev_append rev_rev_ident takeWhile_dropWhile_id)

lemma chunks_infix: "chunks s = us @ cs @ vs \<Longrightarrow> chunks (chunk_bytes cs) = cs"
  by (metis chunks_prefix chunks_suffix)

lemma chunks_TrimSpace: "chunks (TrimSpace s) = trim_list (\<lambda>(r, _). IsSpace r) (chunks s)"
  unfolding TrimSpace_def by (metis trim_list_infix chunks_infix)

lemma TrimSpace_idem [simp]: "TrimSpace (TrimSpace s) = TrimSpace s"
  by (simp add: TrimSpace_def [of "TrimSpace s"] chunks_TrimSpace trim_list_idem) (simp add: TrimSpace_def)

lemma TrimSpace_Nil [simp]: "TrimSpace [] = []"
  by (simp add: TrimSpace_def trim_list_def dropWhile_end_def)

lemma IsSpace_ascii_delim [simp]: "\<not> IsSpace 47"
  by (simp add: IsSpace_def)

lemma TrimSpace_between_slashes: "TrimSpace (CHR ''/'' # s @ [CHR ''/'']) = CHR ''/'' # s @ [CHR ''/'']"
proof -
  have "chunks (CHR ''/'' # s @ [CHR ''/'']) = (47, ''/'') # chunks s @ [(47, ''/'')]"
    by (simp add: chunks_ascii_Cons chunks_append_ascii [where t = "[]", simplified])
  then show ?thesis
    by (simp add: TrimSpace_def trim_list_id)
qed

text \<open>A text whose first and last bytes are ASCII and no space is left as it is.\<close>

lemma TrimSpace_tight:
  assumes "s \<noteq> []" and "byte (hd s) < 128" "\<not> IsSpace (byte (hd s))"
    and "byte (last s) < 128" "\<not> IsSpace (byte (last s))"
  shows "TrimSpace s = s"
proof (cases s)
  case (Cons c t)
  show ?thesis
  proof (cases t rule: rev_cases)
    case Nil
    with Cons assms show ?thesis by (simp add: TrimSpace_def trim_list_id chunks_ascii_Cons)
  next
    case (snoc u d)
    have "chunks (c # u @ [d]) = (byte c, [c]) # chunks u @ [(byte d, [d])]"
      using Cons snoc assms by (simp add: chunks_ascii_Cons chunks_append_ascii [where t = "[]", simplified])
    with Cons snoc assms show ?thesis by (simp add: TrimSpace_def trim_list_id)
  qed
qed (use assms in simp)

lemma TrimSpace_slash [simp]: "TrimSpace ''/'' = ''/''"
  by (simp add: TrimSpace_def trim_list_id chunks_ascii_Cons)

end
