(* ===== verification/Go_Format.thy ===== *)
theory Go_Format
  imports Go_Strings
begin

text \<open>
  What the program prints of numbers and durations: decimal integers (\<open>%d\<close>, \<open>strconv.Itoa\<close>),
  \<open>time.Duration.Round\<close> and \<open>time.Duration.String\<close>, and \<open>strings.LastIndex\<close>.
\<close>

subsection \<open>Decimal integers\<close>

definition digit_char :: "nat \<Rightarrow> char" where
  "digit_char n = char_of (48 + n)"

fun dec_nat :: "nat \<Rightarrow> string" where
  "dec_nat n = (if n < 10 then [digit_char n] else dec_nat (n div 10) @ [digit_char (n mod 10)])"

declare dec_nat.simps [simp del]

definition dec_int :: "int \<Rightarrow> string" where
  "dec_int i = (if i < 0 then CHR ''-'' # dec_nat (nat (- i)) else dec_nat (nat i))"

lemma digit_char_inj: "n < 10 \<Longrightarrow> m < 10 \<Longrightarrow> digit_char n = digit_char m \<Longrightarrow> n = m"
  by (auto simp: digit_char_def char_of_eq_iff take_bit_eq_mod dest: arg_cong [where f = "of_char :: char \<Rightarrow> nat"])

lemma dec_nat_nonempty: "dec_nat n \<noteq> []"
  by (subst dec_nat.simps) simp

lemma length_dec_nat_pos: "0 < length (dec_nat n)"
  using dec_nat_nonempty by simp

lemma dec_nat_inj: "dec_nat n = dec_nat m \<Longrightarrow> n = m"
proof (induction n arbitrary: m rule: dec_nat.induct)
  case (1 n)
  show ?case
  proof (cases "n < 10")
    case True
    then have n: "dec_nat n = [digit_char n]" by (simp add: dec_nat.simps [of n])
    then have "m < 10" using "1.prems" dec_nat_nonempty [of "m div 10"]
      by (subst (asm) (2) dec_nat.simps) (auto split: if_splits)
    with n "1.prems" True show ?thesis by (simp add: dec_nat.simps [of m] digit_char_inj)
  next
    case False
    then have n: "dec_nat n = dec_nat (n div 10) @ [digit_char (n mod 10)]"
      by (simp add: dec_nat.simps [of n])
    have "\<not> m < 10" using "1.prems" n dec_nat_nonempty [of "n div 10"]
      by (auto simp: dec_nat.simps [of m])
    then have m: "dec_nat m = dec_nat (m div 10) @ [digit_char (m mod 10)]"
      by (simp add: dec_nat.simps [of m])
    have "n div 10 = m div 10" using "1.IH" [OF False] "1.prems" n m by simp
    moreover have "n mod 10 = m mod 10" using "1.prems" n m by (intro digit_char_inj) simp_all
    ultimately show ?thesis by (metis div_mult_mod_eq)
  qed
qed

subsection \<open>Durations\<close>

text \<open>Go's \<open>%\<close> truncates toward zero; \<open>Round\<close> works on the remainder's absolute value.\<close>

definition Duration_Round :: "duration \<Rightarrow> duration \<Rightarrow> duration" where
  "Duration_Round d m =
     (if m \<le> 0 then d
      else if d < 0 then
        (let r = (- d) mod m in
         if r + r < m then d + r
         else (let d1 = wrap64 (d - m + r) in if d1 < d then d1 else int64_min))
      else
        (let r = d mod m in
         if r + r < m then d - r
         else (let d1 = wrap64 (d + m - r) in if d1 > d then d1 else int64_max)))"

text \<open>\<open>fmtFrac\<close>: the fraction of \<open>v / 10^prec\<close> without trailing zeros, and the whole part.\<close>

fun fmtFrac_digits :: "nat \<Rightarrow> nat \<Rightarrow> bool \<Rightarrow> string \<Rightarrow> string" where
  "fmtFrac_digits v 0 shown acc = (if shown then CHR ''.'' # acc else acc)"
| "fmtFrac_digits v (Suc prec) shown acc =
     (let digit = v mod 10; shown = (shown \<or> digit \<noteq> 0)
      in fmtFrac_digits (v div 10) prec shown (if shown then digit_char digit # acc else acc))"

definition fmtFrac :: "nat \<Rightarrow> nat \<Rightarrow> string" where
  "fmtFrac v prec = fmtFrac_digits v prec False []"

definition micro_sign :: string where
  "micro_sign = [char_of (194 :: nat), char_of (181 :: nat)]"

definition Duration_String :: "duration \<Rightarrow> string" where
  "Duration_String d =
     (let u = nat \<bar>d\<bar>; sign = (if d < 0 then ''-'' else '''') in
      if u = 0 then ''0s''
      else if u < 1000000000 then
        sign @ (if u < 1000 then dec_nat u @ ''ns''
                else if u < 1000000 then dec_nat (u div 1000) @ fmtFrac u 3 @ micro_sign @ ''s''
                else dec_nat (u div 1000000) @ fmtFrac u 6 @ ''ms'')
      else
        (let s = u div 1000000000; frac = fmtFrac u 9; m = s div 60; h = m div 60
         in sign @ (if h > 0 then dec_nat h @ ''h'' else '''')
              @ (if m > 0 then dec_nat (m mod 60) @ ''m'' else '''')
              @ dec_nat (s mod 60) @ frac @ ''s''))"

subsection \<open>Substrings\<close>

text \<open>\<open>strings.LastIndex\<close>: the last position where \<open>sep\<close> occurs.\<close>

fun LastIndex_from :: "string \<Rightarrow> string \<Rightarrow> nat \<Rightarrow> nat option \<Rightarrow> nat option" where
  "LastIndex_from sep [] i best = (if sep = [] then Some i else best)"
| "LastIndex_from sep (c # s) i best =
     LastIndex_from sep s (Suc i) (if prefix sep (c # s) then Some i else best)"

definition LastIndex :: "string \<Rightarrow> string \<Rightarrow> nat option" where
  "LastIndex s sep = LastIndex_from sep s 0 None"

fun Contains :: "string \<Rightarrow> string \<Rightarrow> bool" where
  "Contains [] sub \<longleftrightarrow> sub = []"
| "Contains (c # s) sub \<longleftrightarrow> prefix sub (c # s) \<or> Contains s sub"

text \<open>\<open>string(runes)\<close>: the UTF-8 encoding of a rune slice.\<close>

definition string_of_runes :: "rune list \<Rightarrow> string" where
  "string_of_runes rs = concat (map encode_rune rs)"

end
