(* ===== verification/FanoutTask.thy ===== *)
theory FanoutTask
  imports Go_Format "HOL-Library.Multiset"
begin

text \<open>
  \<open>internal/fanout/fanout.go\<close>: one fan-out poll. A task is a record under a mutex that several
  goroutines work on: one per source, the one that watches the overall ceiling, and the request
  handlers that retry and cancel. The methods are the sections they run under the lock, with the
  clock reading as an argument. The goroutines are part of the state of \<open>fan_step\<close>, a step relation
  that interleaves them in any order: \<open>runs\<close> holds those that have not ended, each at the gate,
  past it, or waiting for its query.

  The contexts are \<open>t_run_err\<close> (the error of the sweep's context once it is done, the first of
  cancellation and deadline) and \<open>t_root_done\<close>. What a query answers is arbitrary; an error is
  known by what \<open>errors.Is\<close> says of it and by its text. Subscribers are channels of capacity one:
  whether a token is waiting.
\<close>

subsection \<open>States and records\<close>

datatype fan_state = StateWaiting | StateQuerying | StateDone | StateEmpty | StateError
  | StateTimeout | StateCancelled

definition Terminal :: "fan_state \<Rightarrow> bool" where
  "Terminal s = (case s of StateWaiting \<Rightarrow> False | StateQuerying \<Rightarrow> False | _ \<Rightarrow> True)"

definition Failed :: "fan_state \<Rightarrow> bool" where
  "Failed s \<longleftrightarrow> s = StateError \<or> s = StateTimeout"

record Source =
  src_ID :: string
  src_Kind :: string
  src_AccountID :: string
  src_AccountLabel :: string
  src_Collection :: string
  src_CollectionLabel :: string
  src_Color :: string
  src_ReadOnly :: bool

record 'd Item =
  it_SourceID :: string
  it_Key :: string
  it_Data :: 'd

record go_error =
  ge_canceled :: bool
  ge_deadline :: bool
  ge_text :: string

datatype ctx_err = Canceled | DeadlineExceeded

definition ctx_error :: "ctx_err \<Rightarrow> go_error" where
  "ctx_error e =
     (case e of
        Canceled \<Rightarrow> \<lparr>ge_canceled = True, ge_deadline = False, ge_text = ''context canceled''\<rparr>
      | DeadlineExceeded \<Rightarrow>
          \<lparr>ge_canceled = False, ge_deadline = True, ge_text = ''context deadline exceeded''\<rparr>)"

definition isCancellation :: "go_error \<Rightarrow> bool" where "isCancellation e = ge_canceled e"
definition isDeadline :: "go_error \<Rightarrow> bool" where "isDeadline e = ge_deadline e"

definition DefaultSourceTimeout :: duration where "DefaultSourceTimeout = 10 * second"
definition DefaultTotalTimeout :: duration where "DefaultTotalTimeout = 30 * second"
definition DefaultParallel :: int where "DefaultParallel = 6"

record fan_options =
  fo_SourceTimeout :: duration
  fo_TotalTimeout :: duration
  fo_Parallel :: int

definition fan_withDefaults :: "fan_options \<Rightarrow> fan_options" where
  "fan_withDefaults op =
     (let op = (if fo_SourceTimeout op \<le> 0 then op\<lparr>fo_SourceTimeout := DefaultSourceTimeout\<rparr> else op);
          op = (if fo_TotalTimeout op \<le> 0 then op\<lparr>fo_TotalTimeout := DefaultTotalTimeout\<rparr> else op);
          op = (if fo_Parallel op \<le> 0 then op\<lparr>fo_Parallel := DefaultParallel\<rparr> else op)
      in op)"

record 'd sourceState =
  ss_src :: Source
  ss_state :: fan_state
  ss_fromCache :: bool
  ss_reason :: string
  ss_items :: "'d Item list"
  ss_startedAt :: time
  ss_duration :: duration
  ss_attempt :: int

record 'd Task =
  t_ID :: string
  t_opts :: fan_options
  t_started :: time
  t_root_done :: bool
  t_order :: "string list"
  t_sources :: "(string, 'd sourceState) gomap"
  t_inFlight :: nat
  t_run_err :: "ctx_err option"
  t_expired :: bool
  t_cancelled :: bool
  t_settled :: bool
  t_elapsed :: duration
  t_subs :: "(nat, bool) gomap"

subsection \<open>Text\<close>

definition ellipsis :: string where
  "ellipsis = [char_of (226 :: nat), char_of (128 :: nat), char_of (166 :: nat)]"

definition reasonOf :: "string \<Rightarrow> string" where
  "reasonOf msg =
     (let msg = (case LastIndex msg '': '' of
                   None \<Rightarrow> msg
                 | Some i \<Rightarrow> if i + 2 < length msg then drop (i + 2) msg else msg);
          msg = TrimSpace msg
      in if msg = [] then ''failed''
         else if 120 < length (runes msg) then string_of_runes (take 120 (runes msg)) @ ellipsis
         else msg)"

definition interrupted :: string where "interrupted = ''poll interrupted''"
definition timed_out :: string where "timed_out = ''timed out''"

subsection \<open>Starting\<close>

definition new_source :: "Source \<Rightarrow> 'd sourceState" where
  "new_source s = \<lparr>ss_src = s, ss_state = StateWaiting, ss_fromCache = False, ss_reason = [],
     ss_items = [], ss_startedAt = zero_time, ss_duration = 0, ss_attempt = 0\<rparr>"

text \<open>The loop over the requested sources: the first of each identifier, none without one.\<close>

fun start_sources :: "Source list \<Rightarrow> (string, 'd sourceState) gomap \<times> string list \<Rightarrow>
    (string, 'd sourceState) gomap \<times> string list" where
  "start_sources [] acc = acc"
| "start_sources (s # ss) (m, order) =
     (if gm_get m (src_ID s) \<noteq> None \<or> src_ID s = [] then start_sources ss (m, order)
      else start_sources ss (gm_put (src_ID s) (new_source s) m, order @ [src_ID s]))"

datatype fan_start_error = ErrNoSources

definition fan_Start :: "string \<Rightarrow> Source list \<Rightarrow> fan_options \<Rightarrow> time \<Rightarrow> fan_start_error + 'd Task" where
  "fan_Start tid sources op now =
     (if sources = [] then Inl ErrNoSources
      else
        (case start_sources sources ([], []) of (m, order) \<Rightarrow>
           if order = [] then Inl ErrNoSources
           else Inr \<lparr>t_ID = tid, t_opts = fan_withDefaults op, t_started = now, t_root_done = False,
                     t_order = order, t_sources = m, t_inFlight = length order, t_run_err = None,
                     t_expired = False, t_cancelled = False, t_settled = False, t_elapsed = 0,
                     t_subs = []\<rparr>))"

subsection \<open>The sections under the lock\<close>

definition set_source :: "string \<Rightarrow> 'd sourceState \<Rightarrow> 'd Task \<Rightarrow> 'd Task" where
  "set_source sid st t = t\<lparr>t_sources := gm_put sid st (t_sources t)\<rparr>"

definition running :: "'d Task \<Rightarrow> nat" where
  "running t = length (filter (\<lambda>(_, st). \<not> Terminal (ss_state st)) (t_sources t))"

definition runCancel :: "'d Task \<Rightarrow> 'd Task" where
  "runCancel t = (if t_run_err t = None then t\<lparr>t_run_err := Some Canceled\<rparr> else t)"

definition settleLocked :: "time \<Rightarrow> 'd Task \<Rightarrow> 'd Task" where
  "settleLocked now t =
     (let t = t\<lparr>t_inFlight := running t\<rparr>
      in if t_inFlight t = 0 then
           (let t = (if \<not> t_settled t
                     then t\<lparr>t_settled := True, t_elapsed := time_sub now (t_started t)\<rparr> else t)
            in runCancel t)
         else t)"

definition notify :: "'d Task \<Rightarrow> 'd Task" where
  "notify t = t\<lparr>t_subs := map (\<lambda>(ch, _). (ch, True)) (t_subs t)\<rparr>"

definition Subscribe :: "nat \<Rightarrow> 'd Task \<Rightarrow> 'd Task" where
  "Subscribe ch t = t\<lparr>t_subs := gm_put ch False (t_subs t)\<rparr>"

definition Unsubscribe :: "nat \<Rightarrow> 'd Task \<Rightarrow> 'd Task" where
  "Unsubscribe ch t = t\<lparr>t_subs := gm_del ch (t_subs t)\<rparr>"

definition begin_poll :: "string \<Rightarrow> time \<Rightarrow> 'd Task \<Rightarrow> 'd Task \<times> Source option" where
  "begin_poll sid now t =
     (case gm_get (t_sources t) sid of
        None \<Rightarrow> (t, None)
      | Some st \<Rightarrow>
          if t_cancelled t then
            (notify (settleLocked now (set_source sid (st\<lparr>ss_state := StateCancelled\<rparr>) t)), None)
          else
            (notify (set_source sid (st\<lparr>ss_state := StateQuerying, ss_startedAt := now,
                                        ss_attempt := ss_attempt st + 1\<rparr>) t), Some (ss_src st)))"

definition finish_state :: "'d Task \<Rightarrow> 'd Item list \<Rightarrow> go_error option \<Rightarrow> 'd sourceState \<Rightarrow> 'd sourceState" where
  "finish_state t items err st =
     (case err of
        None \<Rightarrow>
          (let st = st\<lparr>ss_items := items, ss_reason := []\<rparr>
           in if items = [] then st\<lparr>ss_state := StateEmpty\<rparr> else st\<lparr>ss_state := StateDone\<rparr>)
      | Some e \<Rightarrow>
          if t_cancelled t \<and> isCancellation e then st\<lparr>ss_state := StateCancelled, ss_reason := interrupted\<rparr>
          else if isDeadline e \<or> (t_expired t \<and> isCancellation e)
          then st\<lparr>ss_state := StateTimeout, ss_reason := timed_out\<rparr>
          else if isCancellation e then st\<lparr>ss_state := StateCancelled, ss_reason := interrupted\<rparr>
          else st\<lparr>ss_state := StateError, ss_reason := reasonOf (ge_text e)\<rparr>)"

definition finish_poll ::
    "string \<Rightarrow> 'd Item list \<Rightarrow> bool \<Rightarrow> go_error option \<Rightarrow> time \<Rightarrow> 'd Task \<Rightarrow> 'd Task" where
  "finish_poll sid items fromCache err now t =
     (case gm_get (t_sources t) sid of
        None \<Rightarrow> t
      | Some st \<Rightarrow>
          (let st = (if \<not> is_zero (ss_startedAt st)
                     then st\<lparr>ss_duration := time_sub now (ss_startedAt st)\<rparr> else st);
               st = finish_state t items err (st\<lparr>ss_fromCache := fromCache\<rparr>)
           in notify (settleLocked now (set_source sid st t))))"

definition mark_timeout :: "time \<Rightarrow> 'd sourceState \<Rightarrow> 'd sourceState" where
  "mark_timeout now st =
     (if Terminal (ss_state st) then st
      else
        (let st = st\<lparr>ss_state := StateTimeout, ss_reason := timed_out\<rparr>
         in if \<not> is_zero (ss_startedAt st) then st\<lparr>ss_duration := time_sub now (ss_startedAt st)\<rparr>
            else st))"

text \<open>\<open>watchCeiling\<close> once its context is done with the error \<open>e\<close>.\<close>

definition watchCeiling :: "ctx_err \<Rightarrow> time \<Rightarrow> 'd Task \<Rightarrow> 'd Task" where
  "watchCeiling e now t =
     (if e \<noteq> DeadlineExceeded then t
      else
        (let changed = (0 < running t);
             t = t\<lparr>t_expired := True, t_sources := map (\<lambda>(k, st). (k, mark_timeout now st)) (t_sources t)\<rparr>
         in if changed then notify (settleLocked now t) else t))"

definition Retry :: "string \<Rightarrow> time \<Rightarrow> 'd Task \<Rightarrow> 'd Task \<times> bool" where
  "Retry sid now t =
     (case gm_get (t_sources t) sid of
        None \<Rightarrow> (t, False)
      | Some st \<Rightarrow>
          if t_cancelled t \<or> \<not> Terminal (ss_state st) then (t, False)
          else
            (let st = st\<lparr>ss_state := StateWaiting, ss_reason := [], ss_items := [], ss_duration := 0,
                        ss_startedAt := zero_time\<rparr>;
                 t = set_source sid st t;
                 t = t\<lparr>t_settled := False, t_elapsed := 0, t_started := now\<rparr>
             in (notify (settleLocked now t), True)))"

definition rootCancel :: "'d Task \<Rightarrow> 'd Task" where
  "rootCancel t = runCancel (t\<lparr>t_root_done := True\<rparr>)"

definition cancel_source :: "'d sourceState \<Rightarrow> 'd sourceState" where
  "cancel_source st =
     (if Terminal (ss_state st) then st else st\<lparr>ss_state := StateCancelled, ss_reason := interrupted\<rparr>)"

definition task_Cancel :: "time \<Rightarrow> 'd Task \<Rightarrow> 'd Task" where
  "task_Cancel now t =
     (let t = t\<lparr>t_cancelled := True, t_sources := map (\<lambda>(k, st). (k, cancel_source st)) (t_sources t)\<rparr>
      in notify (rootCancel (settleLocked now t)))"

subsection \<open>Snapshots\<close>

record SourceStatus =
  st_Source :: Source
  st_State :: fan_state
  st_Count :: nat
  st_Attempt :: int
  st_FromCache :: bool
  st_Reason :: string
  st_Duration :: duration

record 'd Snapshot =
  sn_ID :: string
  sn_Sources :: "SourceStatus list"
  sn_Items :: "'d Item list"
  sn_Total :: nat
  sn_Queried :: nat
  sn_Records :: nat
  sn_Failed :: nat
  sn_Cached :: nat
  sn_Running :: bool
  sn_Cancelled :: bool
  sn_Elapsed :: duration

definition snap_source :: "'d sourceState \<Rightarrow> 'd Snapshot \<Rightarrow> 'd Snapshot" where
  "snap_source st sn =
     (let sn = sn\<lparr>sn_Sources := sn_Sources sn @ [\<lparr>st_Source = ss_src st, st_State = ss_state st,
                  st_Count = length (ss_items st), st_Attempt = ss_attempt st,
                  st_FromCache = ss_fromCache st, st_Reason = ss_reason st,
                  st_Duration = Duration_Round (ss_duration st) millisecond\<rparr>]\<rparr>;
          sn = (if Terminal (ss_state st) then sn\<lparr>sn_Queried := Suc (sn_Queried sn)\<rparr> else sn);
          sn = (if Failed (ss_state st) then sn\<lparr>sn_Failed := Suc (sn_Failed sn)\<rparr> else sn);
          sn = (if ss_fromCache st \<and> Terminal (ss_state st) \<and> \<not> Failed (ss_state st)
                then sn\<lparr>sn_Cached := Suc (sn_Cached sn)\<rparr> else sn)
      in sn\<lparr>sn_Items := sn_Items sn @ ss_items st, sn_Records := sn_Records sn + length (ss_items st)\<rparr>)"

fun snap_loop :: "(string, 'd sourceState) gomap \<Rightarrow> string list \<Rightarrow> 'd Snapshot \<Rightarrow> 'd Snapshot" where
  "snap_loop m [] sn = sn"
| "snap_loop m (sid # sids) sn =
     (case gm_get m sid of
        None \<Rightarrow> snap_loop m sids sn
      | Some st \<Rightarrow> snap_loop m sids (snap_source st sn))"

definition task_Snapshot :: "time \<Rightarrow> 'd Task \<Rightarrow> 'd Snapshot" where
  "task_Snapshot now t =
     (let sn = snap_loop (t_sources t) (t_order t)
                 \<lparr>sn_ID = t_ID t, sn_Sources = [], sn_Items = [], sn_Total = length (t_order t),
                  sn_Queried = 0, sn_Records = 0, sn_Failed = 0, sn_Cached = 0, sn_Running = False,
                  sn_Cancelled = t_cancelled t, sn_Elapsed = t_elapsed t\<rparr>;
          sn = sn\<lparr>sn_Running := 0 < t_inFlight t\<rparr>;
          sn = (if sn_Running sn then sn\<lparr>sn_Elapsed := time_sub now (t_started t)\<rparr> else sn)
      in sn\<lparr>sn_Items := sort_key it_Key (sn_Items sn)\<rparr>)"

definition noun :: "nat \<Rightarrow> string \<Rightarrow> string \<Rightarrow> string" where
  "noun n singular plural = (if n = 1 then singular else plural)"

definition middle_dot :: string where
  "middle_dot = '' '' @ [char_of (194 :: nat), char_of (183 :: nat)] @ '' ''"

definition Summary :: "'d Snapshot \<Rightarrow> string" where
  "Summary s =
     Join middle_dot
       ([''Queried '' @ dec_nat (sn_Queried s) @ '' of '' @ dec_nat (sn_Total s) @ '' ''
           @ noun (sn_Total s) ''source'' ''sources'',
         dec_nat (sn_Records s) @ '' '' @ noun (sn_Records s) ''record'' ''records'']
        @ (if sn_Failed s > 0 then [dec_nat (sn_Failed s) @ '' unavailable''] else [])
        @ (if sn_Cached s > 0 then [dec_nat (sn_Cached s) @ '' from cache''] else [])
        @ (if \<not> sn_Running s then
             (if sn_Cancelled s then [interrupted] else [])
             @ [Duration_String (Duration_Round (sn_Elapsed s) millisecond)]
           else []))"

definition Percent :: "'d Snapshot \<Rightarrow> nat" where
  "Percent s =
     (if sn_Total s = 0 then (if sn_Running s then 0 else 100)
      else 100 * (if sn_Queried s > sn_Total s then sn_Total s else sn_Queried s) div sn_Total s)"

subsection \<open>The goroutines\<close>

datatype phase = AtGate | Acquired | Polling

text \<open>A goroutine of \<open>run\<close> that has not ended; a retry has a gate and a context of its own.\<close>

record run =
  r_id :: string
  r_retry :: bool
  r_phase :: phase

record 'd fan =
  y_task :: "'d Task"
  y_runs :: "run list"
  y_watching :: bool

definition past_gate :: "run list \<Rightarrow> nat" where
  "past_gate rs = length (filter (\<lambda>r. \<not> r_retry r \<and> r_phase r \<noteq> AtGate) rs)"

definition gate_free :: "'d fan \<Rightarrow> run \<Rightarrow> bool" where
  "gate_free y r \<longleftrightarrow> r_retry r \<or> int (past_gate (y_runs y)) < fo_Parallel (t_opts (y_task y))"

definition run_ctx :: "'d Task \<Rightarrow> run \<Rightarrow> ctx_err option" where
  "run_ctx t r = (if r_retry r then (if t_root_done t then Some Canceled else None) else t_run_err t)"

inductive fan_step :: "'d fan \<Rightarrow> 'd fan \<Rightarrow> bool" where
  fs_gate: "y_runs y = rs @ r # qs \<Longrightarrow> r_phase r = AtGate \<Longrightarrow> gate_free y r \<Longrightarrow>
    fan_step y (y\<lparr>y_runs := rs @ r\<lparr>r_phase := Acquired\<rparr> # qs\<rparr>)"
| fs_gate_ctx: "y_runs y = rs @ r # qs \<Longrightarrow> r_phase r = AtGate \<Longrightarrow> run_ctx (y_task y) r = Some e \<Longrightarrow>
    fan_step y (y\<lparr>y_runs := rs @ qs,
      y_task := finish_poll (r_id r) [] False (Some (ctx_error e)) now (y_task y)\<rparr>)"
| fs_begin: "y_runs y = rs @ r # qs \<Longrightarrow> r_phase r = Acquired \<Longrightarrow>
    begin_poll (r_id r) now (y_task y) = (t, Some src) \<Longrightarrow>
    fan_step y (y\<lparr>y_runs := rs @ r\<lparr>r_phase := Polling\<rparr> # qs, y_task := t\<rparr>)"
| fs_begin_stop: "y_runs y = rs @ r # qs \<Longrightarrow> r_phase r = Acquired \<Longrightarrow>
    begin_poll (r_id r) now (y_task y) = (t, None) \<Longrightarrow>
    fan_step y (y\<lparr>y_runs := rs @ qs, y_task := t\<rparr>)"
| fs_finish: "y_runs y = rs @ r # qs \<Longrightarrow> r_phase r = Polling \<Longrightarrow>
    fan_step y (y\<lparr>y_runs := rs @ qs, y_task := finish_poll (r_id r) items fromCache err now (y_task y)\<rparr>)"
| fs_deadline: "t_run_err (y_task y) = None \<Longrightarrow>
    fan_step y (y\<lparr>y_task := (y_task y)\<lparr>t_run_err := Some DeadlineExceeded\<rparr>\<rparr>)"
| fs_watch: "y_watching y \<Longrightarrow> t_run_err (y_task y) = Some e \<Longrightarrow>
    fan_step y (y\<lparr>y_watching := False, y_task := watchCeiling e now (y_task y)\<rparr>)"
| fs_retry: "Retry sid now (y_task y) = (t, True) \<Longrightarrow>
    fan_step y (y\<lparr>y_task := t, y_runs := y_runs y @ [\<lparr>r_id = sid, r_retry = True, r_phase = AtGate\<rparr>]\<rparr>)"
| fs_cancel: "fan_step y (y\<lparr>y_task := task_Cancel now (y_task y)\<rparr>)"
| fs_subs: "fan_step y (y\<lparr>y_task := Subscribe ch (y_task y)\<rparr>)"
| fs_unsubs: "fan_step y (y\<lparr>y_task := Unsubscribe ch (y_task y)\<rparr>)"

definition fan_started :: "'d fan \<Rightarrow> bool" where
  "fan_started y \<longleftrightarrow> (\<exists>tid sources op now t. fan_Start tid sources op now = Inr t \<and>
     y = \<lparr>y_task = t,
          y_runs = map (\<lambda>sid. \<lparr>r_id = sid, r_retry = False, r_phase = AtGate\<rparr>) (t_order t),
          y_watching = True\<rparr>)"

subsection \<open>The invariant\<close>

definition sources_ok :: "'d Task \<Rightarrow> bool" where
  "sources_ok t \<longleftrightarrow> gm_wf (t_sources t) \<and> distinct (t_order t) \<and> t_order t \<noteq> [] \<and>
     set (t_order t) = fst ` set (t_sources t) \<and> 0 < fo_Parallel (t_opts t)"

definition unsettled :: "'d Task \<Rightarrow> string set" where
  "unsettled t = {sid. \<exists>st. gm_get (t_sources t) sid = Some st \<and> \<not> Terminal (ss_state st)}"

definition fan_inv :: "'d fan \<Rightarrow> bool" where
  "fan_inv y \<longleftrightarrow> sources_ok (y_task y) \<and> unsettled (y_task y) \<subseteq> r_id ` set (y_runs y) \<and>
     (t_cancelled (y_task y) \<longrightarrow> unsettled (y_task y) = {}) \<and>
     t_inFlight (y_task y) \<le> running (y_task y) \<and>
     int (past_gate (y_runs y)) \<le> fo_Parallel (t_opts (y_task y))"

lemma running_zero: "gm_wf (t_sources t) \<Longrightarrow> running t = 0 \<longleftrightarrow> unsettled t = {}"
  by (auto simp: running_def unsettled_def filter_empty_conv gm_get_in)

lemma runCancel_frame [simp]:
  "t_sources (runCancel t) = t_sources t" "t_order (runCancel t) = t_order t"
  "t_cancelled (runCancel t) = t_cancelled t" "t_inFlight (runCancel t) = t_inFlight t"
  "t_opts (runCancel t) = t_opts t" "t_expired (runCancel t) = t_expired t"
  by (simp_all add: runCancel_def)

lemma settleLocked_frame [simp, frame_simps]:
  "t_sources (settleLocked now t) = t_sources t" "t_order (settleLocked now t) = t_order t"
  "t_cancelled (settleLocked now t) = t_cancelled t" "t_opts (settleLocked now t) = t_opts t"
  "t_inFlight (settleLocked now t) = running t" "t_expired (settleLocked now t) = t_expired t"
  by (simp_all add: settleLocked_def Let_def)

lemma notify_frame [simp, frame_simps]:
  "t_sources (notify t) = t_sources t" "t_order (notify t) = t_order t"
  "t_cancelled (notify t) = t_cancelled t" "t_opts (notify t) = t_opts t"
  "t_inFlight (notify t) = t_inFlight t" "t_run_err (notify t) = t_run_err t"
  "t_root_done (notify t) = t_root_done t"
  by (simp_all add: notify_def)

lemma rootCancel_frame [simp, frame_simps]:
  "t_sources (rootCancel t) = t_sources t" "t_order (rootCancel t) = t_order t"
  "t_cancelled (rootCancel t) = t_cancelled t" "t_opts (rootCancel t) = t_opts t"
  "t_inFlight (rootCancel t) = t_inFlight t"
  by (simp_all add: rootCancel_def)

lemma set_source_frame [simp, frame_simps]:
  "t_sources (set_source sid st t) = gm_put sid st (t_sources t)"
  "t_order (set_source sid st t) = t_order t"
  "t_cancelled (set_source sid st t) = t_cancelled t" "t_opts (set_source sid st t) = t_opts t"
  "t_inFlight (set_source sid st t) = t_inFlight t"
  by (simp_all add: set_source_def)

lemma running_cong: "t_sources t = t_sources t' \<Longrightarrow> running t = running t'"
  by (simp add: running_def)

lemma unsettled_cong: "t_sources t = t_sources t' \<Longrightarrow> unsettled t = unsettled t'"
  by (simp add: unsettled_def)

lemma finish_state_terminal: "Terminal (ss_state (finish_state t items err st))"
  by (simp add: finish_state_def Terminal_def Let_def split: option.split)

lemma sources_ok_put:
  "sources_ok t \<Longrightarrow> gm_get (t_sources t) sid \<noteq> None \<Longrightarrow> t_sources t' = gm_put sid st (t_sources t) \<Longrightarrow>
   t_order t' = t_order t \<Longrightarrow> t_opts t' = t_opts t \<Longrightarrow> sources_ok t'"
  using gm_get_dom [of "t_sources t" sid] by (auto simp: sources_ok_def)

lemma unsettled_put:
  "t_sources t' = gm_put sid st (t_sources t) \<Longrightarrow>
   unsettled t' = (if Terminal (ss_state st) then unsettled t - {sid} else insert sid (unsettled t))"
  by (auto simp: unsettled_def split: if_splits)

lemma gm_get_map: "gm_get (map (\<lambda>(k, v). (k, f v)) m) k = map_option f (gm_get m k)"
  by (induction m) auto

lemma sources_ok_map:
  "sources_ok t \<Longrightarrow> t_sources t' = map (\<lambda>(k, v). (k, f v)) (t_sources t) \<Longrightarrow> t_order t' = t_order t \<Longrightarrow>
   t_opts t' = t_opts t \<Longrightarrow> sources_ok t'"
  by (force simp: sources_ok_def gm_wf_def comp_def case_prod_beta)

lemma unsettled_map:
  "(\<And>st. Terminal (ss_state (f st))) \<Longrightarrow> t_sources t' = map (\<lambda>(k, v). (k, f v)) (t_sources t) \<Longrightarrow>
   unsettled t' = {}"
  by (auto simp: unsettled_def gm_get_map)

lemma mark_timeout_terminal: "Terminal (ss_state (mark_timeout now st))"
  by (auto simp: mark_timeout_def Let_def Terminal_def)

lemma cancel_source_terminal: "Terminal (ss_state (cancel_source st))"
  by (auto simp: cancel_source_def Terminal_def)

lemma past_gate_remove: "past_gate (rs @ qs) \<le> past_gate (rs @ r # qs)"
  by (simp add: past_gate_def)

lemma past_gate_same: "r_retry r' = r_retry r \<Longrightarrow> (r_phase r' = AtGate \<longleftrightarrow> r_phase r = AtGate) \<Longrightarrow>
  past_gate (rs @ r' # qs) = past_gate (rs @ r # qs)"
  by (simp add: past_gate_def)

lemma running_mono:
  assumes "gm_wf m" and "gm_get m k = Some old" and "Terminal (ss_state old) \<or> \<not> Terminal (ss_state st)"
  shows "length (filter (\<lambda>(_, st). \<not> Terminal (ss_state st)) m) \<le>
     length (filter (\<lambda>(_, st). \<not> Terminal (ss_state st)) (gm_put k st m))"
  using assms
proof (induction m)
  case (Cons x m)
  then show ?case by (cases x) (auto simp: gm_wf_Cons gm_put_def split: if_splits)
qed simp

subsection \<open>Every section keeps it\<close>

lemma finish_poll_inv:
  assumes "sources_ok t" and "t_cancelled t \<longrightarrow> unsettled t = {}"
    and t'_def: "t' = finish_poll sid items fc err now t"
  shows "sources_ok t' \<and> unsettled t' = unsettled t - {sid} \<and> t_cancelled t' = t_cancelled t \<and>
    (t_inFlight t \<le> running t \<longrightarrow> t_inFlight t' \<le> running t') \<and> t_opts t' = t_opts t"
proof (cases "gm_get (t_sources t) sid")
  case None
  then have "sid \<notin> unsettled t" by (simp add: unsettled_def)
  with None assms(1) show ?thesis by (simp add: t'_def finish_poll_def)
next
  case (Some st)
  define st' where "st' = finish_state t items err ((if \<not> is_zero (ss_startedAt st)
    then st\<lparr>ss_duration := time_sub now (ss_startedAt st)\<rparr> else st)\<lparr>ss_fromCache := fc\<rparr>)"
  have t': "t' = notify (settleLocked now (set_source sid st' t))"
    using Some by (simp add: t'_def finish_poll_def Let_def st'_def)
  have st': "Terminal (ss_state st')" unfolding st'_def by (rule finish_state_terminal)
  have src: "t_sources t' = gm_put sid st' (t_sources t)" by (simp add: t')
  have "sources_ok t'" by (rule sources_ok_put [OF assms(1) _ src]) (simp_all add: Some t')
  moreover have "unsettled t' = unsettled t - {sid}" using unsettled_put [OF src] st' by simp
  moreover have "t_inFlight t' = running t'" by (simp add: t' running_def)
  ultimately show ?thesis by (simp add: t')
qed

lemma begin_poll_inv:
  assumes "sources_ok t" and "t_cancelled t \<longrightarrow> unsettled t = {}" and b: "begin_poll sid now t = (t', r)"
  shows "sources_ok t' \<and> t_cancelled t' = t_cancelled t \<and> t_opts t' = t_opts t \<and>
    (t_inFlight t \<le> running t \<longrightarrow> t_inFlight t' \<le> running t') \<and>
    unsettled t' = (if r = None then unsettled t - {sid} else insert sid (unsettled t)) \<and>
    (r \<noteq> None \<longrightarrow> \<not> t_cancelled t)"
proof (cases "gm_get (t_sources t) sid")
  case None
  then have "sid \<notin> unsettled t" by (simp add: unsettled_def)
  with None assms show ?thesis by (auto simp: begin_poll_def)
next
  case (Some st)
  show ?thesis
  proof (cases "t_cancelled t")
    case True
    then have t': "t' = notify (settleLocked now (set_source sid (st\<lparr>ss_state := StateCancelled\<rparr>) t))"
      and r: "r = None" using b Some by (simp_all add: begin_poll_def)
    have src: "t_sources t' = gm_put sid (st\<lparr>ss_state := StateCancelled\<rparr>) (t_sources t)" by (simp add: t')
    have "sources_ok t'" by (rule sources_ok_put [OF assms(1) _ src]) (simp_all add: Some t')
    moreover have "unsettled t' = unsettled t - {sid}"
      using unsettled_put [OF src] by (simp add: Terminal_def)
    moreover have "t_inFlight t' = running t'" by (simp add: t' running_def)
    ultimately show ?thesis using r True by (simp add: t')
  next
    case False
    let ?st = "st\<lparr>ss_state := StateQuerying, ss_startedAt := now, ss_attempt := ss_attempt st + 1\<rparr>"
    have t': "t' = notify (set_source sid ?st t)" and r: "r = Some (ss_src st)"
      using b Some False by (simp_all add: begin_poll_def)
    have src: "t_sources t' = gm_put sid ?st (t_sources t)" by (simp add: t')
    have "sources_ok t'" by (rule sources_ok_put [OF assms(1) _ src]) (simp_all add: Some t')
    moreover have "unsettled t' = insert sid (unsettled t)"
      using unsettled_put [OF src] by (simp add: Terminal_def)
    moreover have "running t \<le> running t'"
      using running_mono [of "t_sources t" sid st ?st] assms(1) Some
      by (simp add: running_def src sources_ok_def Terminal_def)
    ultimately show ?thesis using r False by (simp add: t')
  qed
qed

lemma watchCeiling_inv:
  assumes "sources_ok t" and t': "t' = watchCeiling e now t"
  shows "sources_ok t' \<and> t_cancelled t' = t_cancelled t \<and> t_opts t' = t_opts t \<and>
    (t_inFlight t \<le> running t \<longrightarrow> t_inFlight t' \<le> running t') \<and> unsettled t' \<subseteq> unsettled t \<and>
    (e = DeadlineExceeded \<longrightarrow> unsettled t' = {})"
proof (cases "e = DeadlineExceeded")
  case False
  with assms show ?thesis by (simp add: watchCeiling_def)
next
  case True
  have src: "t_sources t' = map (\<lambda>(k, v). (k, mark_timeout now v)) (t_sources t)"
    and fr: "t_order t' = t_order t" "t_opts t' = t_opts t" "t_cancelled t' = t_cancelled t"
    using True by (simp_all add: t' watchCeiling_def Let_def)
  have "sources_ok t'" by (rule sources_ok_map [OF assms(1) src fr(1,2)])
  moreover have none: "unsettled t' = {}" using unsettled_map [OF mark_timeout_terminal src] .
  moreover have "t_inFlight t' \<le> t_inFlight t \<or> t_inFlight t' \<le> running t'"
    using True by (simp add: t' watchCeiling_def Let_def running_def)
  moreover have "t_inFlight t \<le> running t \<Longrightarrow> t_inFlight t' \<le> running t'"
    using True by (cases "0 < running t") (simp_all add: t' watchCeiling_def Let_def running_def)
  ultimately show ?thesis using fr by simp
qed

lemma Cancel_inv:
  assumes "sources_ok t" and t': "t' = task_Cancel now t"
  shows "sources_ok t' \<and> t_cancelled t' \<and> t_opts t' = t_opts t \<and> t_inFlight t' = running t' \<and>
    unsettled t' = {}"
proof -
  have src: "t_sources t' = map (\<lambda>(k, v). (k, cancel_source v)) (t_sources t)"
    and fr: "t_order t' = t_order t" "t_opts t' = t_opts t" "t_cancelled t'" "t_inFlight t' = running t'"
    by (simp_all add: t' task_Cancel_def Let_def running_def)
  with sources_ok_map [OF assms(1) src fr(1,2)] unsettled_map [OF cancel_source_terminal src]
  show ?thesis by simp
qed

lemma Retry_inv:
  assumes "sources_ok t" and "Retry sid now t = (t', True)"
  shows "sources_ok t' \<and> \<not> t_cancelled t' \<and> t_opts t' = t_opts t \<and> t_inFlight t' = running t' \<and>
    unsettled t' = insert sid (unsettled t)"
proof -
  obtain st where st: "gm_get (t_sources t) sid = Some st" "\<not> t_cancelled t"
    and t': "t' = notify (settleLocked now ((set_source sid (st\<lparr>ss_state := StateWaiting, ss_reason := [],
        ss_items := [], ss_duration := 0, ss_startedAt := zero_time\<rparr>) t)\<lparr>t_settled := False,
        t_elapsed := 0, t_started := now\<rparr>))"
    using assms(2) by (auto simp: Retry_def Let_def split: option.splits if_splits)
  have src: "t_sources t' = gm_put sid (st\<lparr>ss_state := StateWaiting, ss_reason := [],
        ss_items := [], ss_duration := 0, ss_startedAt := zero_time\<rparr>) (t_sources t)" by (simp add: t')
  have "sources_ok t'" by (rule sources_ok_put [OF assms(1) _ src]) (simp_all add: st t')
  moreover have "unsettled t' = insert sid (unsettled t)"
    using unsettled_put [OF src] by (simp add: Terminal_def)
  moreover have "t_inFlight t' = running t'" by (simp add: t' running_def)
  ultimately show ?thesis using st by (simp add: t')
qed

lemma start_sources_ok:
  assumes "start_sources ss (m, order) = (m', order')" and "gm_wf m" and "distinct order"
    and "set order = fst ` set m" and "\<forall>(k, st) \<in> set m. \<not> Terminal (ss_state st)"
  shows "gm_wf m' \<and> distinct order' \<and> set order' = fst ` set m' \<and>
    (\<forall>(k, st) \<in> set m'. \<not> Terminal (ss_state st))"
  using assms
proof (induction ss arbitrary: m order)
  case (Cons s ss)
  show ?case
  proof (cases "gm_get m (src_ID s) \<noteq> None \<or> src_ID s = []")
    case True
    with Cons.prems(1) have "start_sources ss (m, order) = (m', order')" by (auto split: if_splits)
    from Cons.IH [OF this Cons.prems(2-5)] show ?thesis .
  next
    case False
    with Cons.prems(1) have st: "start_sources ss (gm_put (src_ID s) (new_source s) m, order @ [src_ID s]) = (m', order')"
      by simp
    have new: "src_ID s \<notin> fst ` set m" using False gm_get_dom [of m "src_ID s"] by simp
    have "\<not> Terminal (ss_state (new_source s))" by (simp add: new_source_def Terminal_def)
    then have "\<forall>(k, st) \<in> set (gm_put (src_ID s) (new_source s) m). \<not> Terminal (ss_state st)"
      using Cons.prems(5) by (auto dest!: subsetD [OF set_gm_put_subset])
    from Cons.IH [OF st _ _ _ this] Cons.prems(2-4) new show ?thesis by simp
  qed
qed simp

lemma fan_Start_inv: "fan_started (y :: 'a fan) \<Longrightarrow> fan_inv y"
proof -
  assume "fan_started y"
  then obtain tid sources op now t where s: "fan_Start tid sources op now = Inr t"
    and y: "y = \<lparr>y_task = t,
          y_runs = map (\<lambda>sid. \<lparr>r_id = sid, r_retry = False, r_phase = AtGate\<rparr>) (t_order t),
          y_watching = True\<rparr>"
    by (auto simp: fan_started_def)
  obtain m :: "(string, 'a sourceState) gomap" and order
    where mo: "start_sources sources ([], []) = (m, order)" by fastforce
  have t: "t_sources t = m" "t_order t = order" "order \<noteq> []" "t_inFlight t = length order"
    "\<not> t_cancelled t" "t_opts t = fan_withDefaults op"
    using s by (auto simp: fan_Start_def mo split: if_splits)
  have ok: "gm_wf m" "distinct order" "set order = fst ` set m" "\<forall>(k, st) \<in> set m. \<not> Terminal (ss_state st)"
    using start_sources_ok [OF mo] by simp_all
  have len: "length order = length m"
    using ok(1-3) distinct_card [of order] distinct_card [of "map fst m"] by (simp add: gm_wf_def)
  have "filter (\<lambda>(_, st). \<not> Terminal (ss_state st)) m = m" using ok(4) by (auto intro!: filter_True)
  then have "t_inFlight t \<le> running t" using t len by (simp add: running_def)
  moreover have par: "0 < fo_Parallel (t_opts t)"
    by (simp add: t fan_withDefaults_def Let_def DefaultParallel_def)
  moreover have "unsettled t \<subseteq> set order"
    using ok(3) by (force simp: unsettled_def t(1) dest: gm_get_mem)
  moreover have "past_gate (y_runs y) = 0" by (simp add: y past_gate_def comp_def)
  ultimately show ?thesis using ok t by (auto simp: fan_inv_def sources_ok_def y image_image)
qed

lemma fan_step_inv:
  assumes "fan_inv y" and "fan_step y y'"
  shows "fan_inv y'"
proof -
  have inv: "sources_ok (y_task y)" "unsettled (y_task y) \<subseteq> r_id ` set (y_runs y)"
    "t_cancelled (y_task y) \<longrightarrow> unsettled (y_task y) = {}" "t_inFlight (y_task y) \<le> running (y_task y)"
    "int (past_gate (y_runs y)) \<le> fo_Parallel (t_opts (y_task y))"
    using assms(1) by (simp_all add: fan_inv_def)
  from assms(2) show ?thesis
  proof (cases rule: fan_step.cases)
    case (fs_gate rs r qs)
    have "past_gate (rs @ r\<lparr>r_phase := Acquired\<rparr> # qs) =
        (if r_retry r then past_gate (y_runs y) else Suc (past_gate (y_runs y)))"
      using fs_gate(2,3) by (simp add: past_gate_def)
    with fs_gate inv show ?thesis by (auto simp: fan_inv_def gate_free_def)
  next
    case (fs_gate_ctx rs r qs e now)
    with finish_poll_inv [OF inv(1,3) refl, of "r_id r" "[]" False "Some (ctx_error e)" now] inv
      past_gate_remove [of rs qs r]
    show ?thesis by (auto simp: fan_inv_def)
  next
    case (fs_begin rs r qs now t src)
    with begin_poll_inv [OF inv(1,3) fs_begin(4)] inv past_gate_same [of "r\<lparr>r_phase := Polling\<rparr>" r rs qs]
    show ?thesis by (auto simp: fan_inv_def)
  next
    case (fs_begin_stop rs r qs now t)
    with begin_poll_inv [OF inv(1,3) fs_begin_stop(4)] inv past_gate_remove [of rs qs r]
    show ?thesis by (auto simp: fan_inv_def)
  next
    case (fs_finish rs r qs items fc err now)
    with finish_poll_inv [OF inv(1,3) refl, of "r_id r" items fc err now] inv past_gate_remove [of rs qs r]
    show ?thesis by (auto simp: fan_inv_def)
  next
    case fs_deadline
    with inv show ?thesis by (simp add: fan_inv_def sources_ok_def unsettled_def running_def)
  next
    case (fs_watch e now)
    with watchCeiling_inv [OF inv(1) refl, of e now] inv show ?thesis by (auto simp: fan_inv_def)
  next
    case (fs_retry sid now t)
    with Retry_inv [OF inv(1) fs_retry(2)] inv show ?thesis by (auto simp: fan_inv_def past_gate_def)
  next
    case (fs_cancel now)
    with Cancel_inv [OF inv(1) refl, of now] inv show ?thesis by (auto simp: fan_inv_def)
  next
    case (fs_subs ch)
    with inv show ?thesis by (simp add: fan_inv_def sources_ok_def unsettled_def running_def Subscribe_def)
  next
    case (fs_unsubs ch)
    with inv show ?thesis by (simp add: fan_inv_def sources_ok_def unsettled_def running_def Unsubscribe_def)
  qed
qed

interpretation fan: invariant_system fan_started fan_step fan_inv
  by unfold_locales (auto intro: fan_Start_inv fan_step_inv)

subsection \<open>Progress and the end of a poll\<close>

definition found :: "'d Task \<Rightarrow> 'd sourceState list" where
  "found t = List.map_filter (gm_get (t_sources t)) (t_order t)"

lemma snap_source_fields:
  "sn_Queried (snap_source st sn) = sn_Queried sn + (if Terminal (ss_state st) then 1 else 0)"
  "sn_Failed (snap_source st sn) = sn_Failed sn + (if Failed (ss_state st) then 1 else 0)"
  "sn_Cached (snap_source st sn) = sn_Cached sn +
     (if ss_fromCache st \<and> Terminal (ss_state st) \<and> \<not> Failed (ss_state st) then 1 else 0)"
  "sn_Items (snap_source st sn) = sn_Items sn @ ss_items st"
  "sn_Records (snap_source st sn) = sn_Records sn + length (ss_items st)"
  "sn_Total (snap_source st sn) = sn_Total sn"
  by (simp_all add: snap_source_def Let_def)

lemma snap_loop_fields:
  "sn_Queried (snap_loop m sids sn) = sn_Queried sn +
     length (filter (\<lambda>st. Terminal (ss_state st)) (List.map_filter (gm_get m) sids)) \<and>
   sn_Failed (snap_loop m sids sn) = sn_Failed sn +
     length (filter (\<lambda>st. Failed (ss_state st)) (List.map_filter (gm_get m) sids)) \<and>
   sn_Cached (snap_loop m sids sn) = sn_Cached sn +
     length (filter (\<lambda>st. ss_fromCache st \<and> Terminal (ss_state st) \<and> \<not> Failed (ss_state st))
       (List.map_filter (gm_get m) sids)) \<and>
   sn_Items (snap_loop m sids sn) = sn_Items sn @ concat (map ss_items (List.map_filter (gm_get m) sids)) \<and>
   sn_Records (snap_loop m sids sn) = sn_Records sn +
     length (concat (map ss_items (List.map_filter (gm_get m) sids))) \<and>
   sn_Total (snap_loop m sids sn) = sn_Total sn"
  by (induction m sids sn rule: snap_loop.induct)
    (auto simp: snap_source_fields split: option.split)

lemma Snapshot_fields:
  "sn_Queried (task_Snapshot now t) = length (filter (\<lambda>st. Terminal (ss_state st)) (found t))"
  "sn_Failed (task_Snapshot now t) = length (filter (\<lambda>st. Failed (ss_state st)) (found t))"
  "sn_Cached (task_Snapshot now t) =
     length (filter (\<lambda>st. ss_fromCache st \<and> Terminal (ss_state st) \<and> \<not> Failed (ss_state st)) (found t))"
  "sn_Items (task_Snapshot now t) = sort_key it_Key (concat (map ss_items (found t)))"
  "sn_Records (task_Snapshot now t) = length (concat (map ss_items (found t)))"
  "sn_Total (task_Snapshot now t) = length (t_order t)"
  "sn_Running (task_Snapshot now t) \<longleftrightarrow> 0 < t_inFlight t"
  by (simp_all add: task_Snapshot_def Let_def snap_loop_fields found_def)

lemma found_eq:
  assumes "sources_ok t"
  shows "found t = map (\<lambda>sid. the (gm_get (t_sources t) sid)) (t_order t)"
proof -
  have "\<forall>sid \<in> set (t_order t). gm_get (t_sources t) sid \<noteq> None"
    using assms gm_get_dom [of "t_sources t"] by (auto simp: sources_ok_def)
  then show ?thesis by (simp add: found_def List.map_filter_def)
qed

lemma found_all:
  assumes "sources_ok t"
  shows "length (found t) = length (t_order t)"
    and "st \<in> set (found t) \<Longrightarrow> \<exists>sid. gm_get (t_sources t) sid = Some st"
proof -
  show "length (found t) = length (t_order t)" using found_eq [OF assms] by simp
  show "st \<in> set (found t) \<Longrightarrow> \<exists>sid. gm_get (t_sources t) sid = Some st"
    by (auto simp: found_def List.map_filter_def)
qed

lemma found_mset:
  assumes "sources_ok t"
  shows "mset (found t) = image_mset snd (mset (t_sources t))"
proof -
  have w: "gm_wf (t_sources t)" "distinct (t_order t)" "set (t_order t) = fst ` set (t_sources t)"
    using assms by (simp_all add: sources_ok_def)
  then have "mset (t_order t) = mset (map fst (t_sources t))"
    by (intro set_eq_iff_mset_eq_distinct [THEN iffD1]) (auto simp: gm_wf_def)
  then have "mset (map (\<lambda>sid. the (gm_get (t_sources t) sid)) (t_order t)) =
      image_mset (\<lambda>sid. the (gm_get (t_sources t) sid)) (image_mset fst (mset (t_sources t)))"
    by simp
  also have "\<dots> = image_mset snd (mset (t_sources t))"
  proof -
    have "the (gm_get (t_sources t) (fst x)) = snd x" if "x \<in> set (t_sources t)" for x
      using gm_get_in [OF w(1), of "fst x" "snd x"] that by simp
    then show ?thesis by (auto simp: multiset.map_comp comp_def intro!: image_mset_cong)
  qed
  finally show ?thesis using found_eq [OF assms] by simp
qed

lemma mset_concat_map: "mset (concat (map f xs)) = (\<Sum>x \<in># mset xs. mset (f x))"
  by (induction xs) simp_all

text \<open>
  C23. A poll always settles: once no goroutine of the task is left, whatever was retried,
  cancelled or timed out on the way and in whatever order, every source is in a final state and
  the snapshot says so: not running, everything queried, the bar at 100 percent.
\<close>

theorem poll_settles:
  assumes "reaches fan_started fan_step y" and "y_runs y = []"
  shows "(\<forall>sid st. gm_get (t_sources (y_task y)) sid = Some st \<longrightarrow> Terminal (ss_state st)) \<and>
    \<not> sn_Running (task_Snapshot now (y_task y)) \<and>
    sn_Queried (task_Snapshot now (y_task y)) = sn_Total (task_Snapshot now (y_task y)) \<and>
    Percent (task_Snapshot now (y_task y)) = 100"
proof -
  have inv: "fan_inv y" using assms(1) by (rule fan.inv_reachable)
  then have ok: "sources_ok (y_task y)" and none: "unsettled (y_task y) = {}"
    and fl: "t_inFlight (y_task y) \<le> running (y_task y)"
    using assms(2) by (auto simp: fan_inv_def)
  have ended: "Terminal (ss_state st)" if "gm_get (t_sources (y_task y)) sid = Some st" for sid st
    using none that by (auto simp: unsettled_def)
  then have "\<forall>st \<in> set (found (y_task y)). Terminal (ss_state st)" using found_all(2) [OF ok] by blast
  then have q: "sn_Queried (task_Snapshot now (y_task y)) = sn_Total (task_Snapshot now (y_task y))"
    by (simp add: Snapshot_fields found_all(1) [OF ok])
  have "gm_wf (t_sources (y_task y))" using ok by (simp add: sources_ok_def)
  then have "running (y_task y) = 0" using none by (simp add: running_zero)
  then have r: "\<not> sn_Running (task_Snapshot now (y_task y))" using fl by (simp add: Snapshot_fields)
  have "0 < sn_Total (task_Snapshot now (y_task y))"
    using ok by (simp add: Snapshot_fields sources_ok_def)
  then have "Percent (task_Snapshot now (y_task y)) = 100" using q by (simp add: Percent_def)
  with ended q r show ?thesis by blast
qed

definition one_source :: Source where
  "one_source = \<lparr>src_ID = ''s1'', src_Kind = ''calendar'', src_AccountID = ''a'', src_AccountLabel = ''A'',
     src_Collection = ''/c/'', src_CollectionLabel = ''C'', src_Color = [], src_ReadOnly = False\<rparr>"

definition demo_fan_options :: fan_options where
  "demo_fan_options = \<lparr>fo_SourceTimeout = 0, fo_TotalTimeout = 0, fo_Parallel = 1\<rparr>"

definition one_task :: "nat Task" where
  "one_task = (case fan_Start ''t'' [one_source] demo_fan_options 5 of Inr t \<Rightarrow> t | Inl _ \<Rightarrow> undefined)"

definition one_fan :: "nat fan" where
  "one_fan = \<lparr>y_task = one_task, y_runs = [\<lparr>r_id = ''s1'', r_retry = False, r_phase = AtGate\<rparr>],
     y_watching = True\<rparr>"

lemma one_task_started: "fan_Start ''t'' [one_source] demo_fan_options 5 = Inr one_task"
  by (simp add: one_task_def fan_Start_def one_source_def)

lemma one_task_fields: "t_order one_task = [''s1'']" "t_opts one_task = fan_withDefaults demo_fan_options"
  "t_sources one_task = [(''s1'', new_source one_source)]" "t_run_err one_task = None" "\<not> t_cancelled one_task"
  by (simp_all add: one_task_def fan_Start_def one_source_def gm_put_def)

lemma one_fan_reached: "reaches fan_started fan_step one_fan"
  by (rule reaches_start) (use one_task_started in \<open>auto simp: fan_started_def one_fan_def one_task_fields\<close>)

lemma one_fan_cancelled:
  "reaches fan_started fan_step
     (one_fan\<lparr>y_task := task_Cancel 9 one_task\<rparr>)"
  using reaches_step [OF one_fan_reached fs_cancel [of one_fan 9]] by (simp add: one_fan_def)

theorem poll_settles_witness:
  "\<exists>y :: nat fan. reaches fan_started fan_step y \<and> y_runs y = [] \<and>
     \<not> sn_Running (task_Snapshot 12 (y_task y)) \<and> Percent (task_Snapshot 12 (y_task y)) = 100"
proof -
  let ?y = "one_fan\<lparr>y_task := task_Cancel 9 one_task\<rparr>"
  let ?t = "finish_poll ''s1'' [] False (Some (ctx_error Canceled)) 11 (task_Cancel 9 one_task)"
  have e: "t_run_err (task_Cancel 9 one_task) = Some Canceled"
    by (simp add: task_Cancel_def Let_def rootCancel_def runCancel_def settleLocked_def one_task_fields)
  have "fan_step ?y (?y\<lparr>y_runs := [] @ [], y_task := ?t\<rparr>)"
    using fs_gate_ctx [of ?y "[]" "\<lparr>r_id = ''s1'', r_retry = False, r_phase = AtGate\<rparr>" "[]" Canceled 11] e
    by (simp add: one_fan_def run_ctx_def)
  then have r: "reaches fan_started fan_step (?y\<lparr>y_runs := [] @ [], y_task := ?t\<rparr>)"
    by (rule reaches_step [OF one_fan_cancelled])
  from poll_settles [OF r, of 12] r show ?thesis
    by (intro exI [of _ "?y\<lparr>y_runs := [] @ [], y_task := ?t\<rparr>"]) simp
qed

text \<open>How much work the goroutines have left: steps to the end of each.\<close>

definition phase_weight :: "phase \<Rightarrow> nat" where
  "phase_weight p = (case p of AtGate \<Rightarrow> 3 | Acquired \<Rightarrow> 2 | Polling \<Rightarrow> 1)"

definition work_left :: "'d fan \<Rightarrow> nat" where
  "work_left y = sum_list (map (\<lambda>r. phase_weight (r_phase r)) (y_runs y))"

lemma run_can_move:
  assumes "y_runs y = rs @ r # qs" and "r_phase r \<noteq> AtGate"
  shows "\<exists>y'. fan_step y y' \<and> work_left y' < work_left y"
proof (cases "r_phase r")
  case Acquired
  obtain t so where b: "begin_poll (r_id r) 0 (y_task y) = (t, so)" by fastforce
  show ?thesis
  proof (cases so)
    case None
    with fs_begin_stop [OF assms(1) Acquired] b assms(1) Acquired show ?thesis
      by (intro exI conjI) (auto simp: work_left_def phase_weight_def)
  next
    case (Some src)
    with fs_begin [OF assms(1) Acquired] b assms(1) Acquired show ?thesis
      by (intro exI conjI) (auto simp: work_left_def phase_weight_def)
  qed
next
  case Polling
  have "fan_step y (y\<lparr>y_runs := rs @ qs, y_task := finish_poll (r_id r) [] False None 0 (y_task y)\<rparr>)"
    by (rule fs_finish [OF assms(1) Polling])
  moreover have "work_left (y\<lparr>y_runs := rs @ qs, y_task := finish_poll (r_id r) [] False None 0 (y_task y)\<rparr>)
      < work_left y"
    using assms(1) Polling by (simp add: work_left_def phase_weight_def)
  ultimately show ?thesis by blast
qed (use assms in simp)

text \<open>
  C24. The gate neither jams nor lets too many through: at no time are more sources of a sweep past
  the gate than \<open>Parallel\<close> allows, and while any goroutine is left, one of them can take a step that
  brings the poll nearer to its end (a query that answers counts as such a step).
\<close>

theorem gate_is_safe_and_live:
  assumes "reaches fan_started fan_step y"
  shows "int (past_gate (y_runs y)) \<le> fo_Parallel (t_opts (y_task y)) \<and>
    (y_runs y \<noteq> [] \<longrightarrow> (\<exists>y'. fan_step y y' \<and> work_left y' < work_left y))"
proof -
  have inv: "fan_inv y" using assms by (rule fan.inv_reachable)
  have "\<exists>y'. fan_step y y' \<and> work_left y' < work_left y" if ne: "y_runs y \<noteq> []"
  proof (cases "\<exists>r \<in> set (y_runs y). r_phase r \<noteq> AtGate")
    case True
    then obtain r rs qs where "y_runs y = rs @ r # qs" "r_phase r \<noteq> AtGate"
      by (meson split_list)
    then show ?thesis by (rule run_can_move)
  next
    case False
    obtain r qs where r: "y_runs y = [] @ r # qs" using ne by (cases "y_runs y") auto
    have "past_gate (y_runs y) = 0" using False by (simp add: past_gate_def filter_empty_conv)
    moreover have "0 < fo_Parallel (t_opts (y_task y))"
      using inv by (simp add: fan_inv_def sources_ok_def)
    ultimately have "gate_free y r" by (simp add: gate_free_def)
    moreover have "r_phase r = AtGate" using False r by simp
    ultimately have "fan_step y (y\<lparr>y_runs := [] @ r\<lparr>r_phase := Acquired\<rparr> # qs\<rparr>)"
      using fs_gate [OF r] by blast
    moreover have "work_left (y\<lparr>y_runs := [] @ r\<lparr>r_phase := Acquired\<rparr> # qs\<rparr>) < work_left y"
      using r \<open>r_phase r = AtGate\<close> by (simp add: work_left_def phase_weight_def)
    ultimately show ?thesis by blast
  qed
  with inv show ?thesis by (auto simp: fan_inv_def)
qed

theorem gate_is_safe_and_live_witness: "\<exists>y'. fan_step one_fan y' \<and> work_left y' < work_left one_fan"
  using gate_is_safe_and_live [OF one_fan_reached] by (simp add: one_fan_def)

lemma steps_cancelled:
  "fan_step\<^sup>*\<^sup>* y y' \<Longrightarrow> t_cancelled (y_task y) \<Longrightarrow> fan_inv y \<Longrightarrow> t_cancelled (y_task y') \<and> fan_inv y'"
proof (induction rule: rtranclp_induct)
  case (step u v)
  then have u: "t_cancelled (y_task u)" "fan_inv u" by simp_all
  then have inv: "sources_ok (y_task u)" "t_cancelled (y_task u) \<longrightarrow> unsettled (y_task u) = {}"
    by (simp_all add: fan_inv_def)
  have "t_cancelled (y_task v)"
    using step.hyps(2)
  proof (cases rule: fan_step.cases)
    case (fs_gate_ctx rs r qs e now)
    with finish_poll_inv [OF inv refl, of "r_id r" "[]" False "Some (ctx_error e)" now] u show ?thesis by simp
  next
    case (fs_finish rs r qs items fc err now)
    with finish_poll_inv [OF inv refl, of "r_id r" items fc err now] u show ?thesis by simp
  next
    case (fs_begin rs r qs now t src)
    with begin_poll_inv [OF inv fs_begin(4)] u show ?thesis by simp
  next
    case (fs_begin_stop rs r qs now t)
    with begin_poll_inv [OF inv fs_begin_stop(4)] u show ?thesis by simp
  next
    case (fs_watch e now)
    with watchCeiling_inv [OF inv(1) refl, of e now] u show ?thesis by simp
  next
    case (fs_retry sid now t)
    with u show ?thesis by (auto simp: Retry_def split: option.splits)
  next
    case (fs_cancel now)
    with Cancel_inv [OF inv(1) refl, of now] show ?thesis by simp
  qed (use u in \<open>auto simp: Subscribe_def Unsubscribe_def\<close>)
  with fan_step_inv [OF u(2) step.hyps(2)] show ?case by simp
qed simp

text \<open>
  C25. Cancelling is final: from the moment \<open>Cancel\<close> has run, in every state the task can still
  reach, every source is in a final state, no retry is accepted and no goroutine begins a query:
  nothing opens a connection any more.
\<close>

theorem cancel_is_final:
  assumes "reaches fan_started fan_step y" and "t_cancelled (y_task y)" and "fan_step\<^sup>*\<^sup>* y y'"
  shows "(\<forall>sid st. gm_get (t_sources (y_task y')) sid = Some st \<longrightarrow> Terminal (ss_state st)) \<and>
    (\<forall>sid now. \<not> snd (Retry sid now (y_task y')) \<and> snd (begin_poll sid now (y_task y')) = None)"
proof -
  have c: "t_cancelled (y_task y')" "fan_inv y'"
    using steps_cancelled [OF assms(3,2) fan.inv_reachable [OF assms(1)]] by simp_all
  then have "unsettled (y_task y') = {}" by (simp add: fan_inv_def)
  then have "Terminal (ss_state st)" if "gm_get (t_sources (y_task y')) sid = Some st" for sid st
    using that by (auto simp: unsettled_def)
  moreover have "\<not> snd (Retry sid now (y_task y')) \<and> snd (begin_poll sid now (y_task y')) = None" for sid now
    using c(1) by (simp add: Retry_def begin_poll_def split: option.split)
  ultimately show ?thesis by blast
qed

theorem cancel_is_final_witness:
  "\<not> snd (Retry ''s1'' 20 (task_Cancel 9 one_task))"
proof -
  let ?y = "one_fan\<lparr>y_task := task_Cancel 9 one_task\<rparr>"
  have "t_cancelled (y_task ?y)" by (simp add: task_Cancel_def Let_def)
  from cancel_is_final [OF one_fan_cancelled this rtranclp.rtrancl_refl] show ?thesis by simp
qed

text \<open>
  A snapshot is the poll's records merged in order: its items are exactly the items of all the
  sources, sorted by key, those with equal keys in the order of the sources; its counts agree, and
  what failed or came from the cache is counted among what was queried.
\<close>

theorem snapshot_merges_sources:
  assumes "reaches fan_started fan_step y"
  shows "sorted (map it_Key (sn_Items (task_Snapshot now (y_task y)))) \<and>
    mset (sn_Items (task_Snapshot now (y_task y))) =
      (\<Sum>(sid, st) \<in># mset (t_sources (y_task y)). mset (ss_items st)) \<and>
    (\<forall>k. filter (\<lambda>i. it_Key i = k) (sn_Items (task_Snapshot now (y_task y))) =
      filter (\<lambda>i. it_Key i = k) (concat (map ss_items (found (y_task y))))) \<and>
    sn_Records (task_Snapshot now (y_task y)) = length (sn_Items (task_Snapshot now (y_task y))) \<and>
    sn_Failed (task_Snapshot now (y_task y)) + sn_Cached (task_Snapshot now (y_task y))
      \<le> sn_Queried (task_Snapshot now (y_task y)) \<and>
    sn_Queried (task_Snapshot now (y_task y)) \<le> sn_Total (task_Snapshot now (y_task y))"
proof -
  have ok: "sources_ok (y_task y)"
    using fan.inv_reachable [OF assms] by (simp add: fan_inv_def)
  have perm: "mset (concat (map ss_items (found (y_task y)))) =
      (\<Sum>(sid, st) \<in># mset (t_sources (y_task y)). mset (ss_items st))"
    using found_mset [OF ok]
    by (simp add: mset_concat_map multiset.map_comp comp_def case_prod_beta)
      (simp add: case_prod_unfold)
  have counts: "length (filter (\<lambda>st. Failed (ss_state st)) sts) +
      length (filter (\<lambda>st. ss_fromCache st \<and> Terminal (ss_state st) \<and> \<not> Failed (ss_state st)) sts) \<le>
      length (filter (\<lambda>st. Terminal (ss_state st)) sts)" for sts :: "'a sourceState list"
    by (induction sts) (auto simp: Failed_def Terminal_def)
  show ?thesis
    using perm counts [of "found (y_task y)"] found_all(1) [OF ok]
      length_filter_le [of "\<lambda>st. Terminal (ss_state st)" "found (y_task y)"]
    by (simp add: Snapshot_fields sort_key_stable)
qed

theorem snapshot_merges_sources_witness:
  "sn_Queried (task_Snapshot 7 one_task) \<le> 1"
  using snapshot_merges_sources [OF one_fan_reached, of 7]
  by (simp add: one_fan_def Snapshot_fields one_task_fields)

subsection \<open>A race at the ceiling\<close>

text \<open>
  A goroutine that is past the gate when the ceiling marks its source as timed out still moves the
  source back to querying: the task then reads as finished while a source is being polled.
\<close>

lemma poll_begins_after_ceiling:
  "\<exists>y :: nat fan. reaches fan_started fan_step y \<and> \<not> sn_Running (task_Snapshot 12 (y_task y)) \<and>
     (\<exists>st. gm_get (t_sources (y_task y)) ''s1'' = Some st \<and> ss_state st = StateQuerying)"
proof -
  let ?r = "\<lparr>r_id = ''s1'', r_retry = False, r_phase = Acquired\<rparr>"
  let ?y1 = "one_fan\<lparr>y_runs := [?r]\<rparr>"
  let ?y2 = "?y1\<lparr>y_task := one_task\<lparr>t_run_err := Some DeadlineExceeded\<rparr>\<rparr>"
  let ?t3 = "watchCeiling DeadlineExceeded 10 (one_task\<lparr>t_run_err := Some DeadlineExceeded\<rparr>)"
  let ?y3 = "?y2\<lparr>y_watching := False, y_task := ?t3\<rparr>"
  let ?t4 = "fst (begin_poll ''s1'' 11 ?t3)"
  let ?y4 = "?y3\<lparr>y_runs := [?r\<lparr>r_phase := Polling\<rparr>], y_task := ?t4\<rparr>"
  have gate: "gate_free one_fan \<lparr>r_id = ''s1'', r_retry = False, r_phase = AtGate\<rparr>"
    by (simp add: gate_free_def one_fan_def past_gate_def one_task_fields fan_withDefaults_def
        Let_def DefaultParallel_def demo_fan_options_def)
  have "fan_step one_fan ?y1"
    using fs_gate [of one_fan "[]" "\<lparr>r_id = ''s1'', r_retry = False, r_phase = AtGate\<rparr>" "[]"] gate
    by (simp add: one_fan_def)
  then have 1: "reaches fan_started fan_step ?y1" by (rule reaches_step [OF one_fan_reached])
  have "fan_step ?y1 ?y2" using fs_deadline [of ?y1] by (simp add: one_fan_def one_task_fields)
  then have 2: "reaches fan_started fan_step ?y2" by (rule reaches_step [OF 1])
  have "fan_step ?y2 ?y3" using fs_watch [of ?y2 DeadlineExceeded 10] by (simp add: one_fan_def)
  then have 3: "reaches fan_started fan_step ?y3" by (rule reaches_step [OF 2])
  have src: "t_sources ?t3 = [(''s1'', mark_timeout 10 (new_source one_source))]"
    by (simp add: watchCeiling_def Let_def one_task_fields)
  have c: "\<not> t_cancelled ?t3" by (simp add: watchCeiling_def Let_def one_task_fields)
  have fl: "t_inFlight ?t3 = 0"
    by (simp add: watchCeiling_def Let_def running_def one_task_fields mark_timeout_terminal)
      (simp add: new_source_def Terminal_def)
  have b: "begin_poll ''s1'' 11 ?t3 = (?t4, Some one_source)"
    using src c by (simp add: begin_poll_def mark_timeout_def new_source_def Let_def Terminal_def)
  have "fan_step ?y3 ?y4"
    using fs_begin [of ?y3 "[]" ?r "[]" 11 ?t4 one_source] b by simp
  then have "reaches fan_started fan_step ?y4" by (rule reaches_step [OF 3])
  moreover have "t_inFlight ?t4 = 0" using src c fl by (simp add: begin_poll_def)
  moreover have "\<exists>st. gm_get (t_sources ?t4) ''s1'' = Some st \<and> ss_state st = StateQuerying"
    using src c by (simp add: begin_poll_def)
  ultimately show ?thesis by (intro exI [of _ ?y4]) (simp add: Snapshot_fields)
qed

end
