(* ===== verification/FanoutRegistry.thy ===== *)
theory FanoutRegistry
  imports FanoutTask Go_Encoding
begin

text \<open>
  \<open>internal/fanout/registry.go\<close>: the tasks of every session. A \<open>*Task\<close> is a pointer into a pool
  of running polls, and the pool goes on by \<open>fan_step\<close> whatever the registry does; cancelling what
  the pointers of a list name is \<open>cancelAll\<close>. Each method is the section it runs under the lock
  followed by the cancellations it makes after releasing it. The clock readings and the random bytes
  of an identifier are arguments: \<open>clk p\<close> is the reading made when the task \<open>p\<close> is cancelled.
\<close>

subsection \<open>The registry\<close>

definition MaxPerSession :: nat where "MaxPerSession = 4"
definition TaskTTL :: duration where "TaskTTL = 10 * minute"

datatype reg_error = RandomFailed | StartFailed fan_start_error | ErrNoTask

record reg_entry =
  re_task :: nat
  re_sessionID :: string
  re_touched :: time

record registry =
  rg_byID :: "(string, reg_entry) gomap"
  rg_bySess :: "(string, string list) gomap"

type_synonym 'd pool = "'d fan list"

definition NewRegistry :: registry where
  "NewRegistry = \<lparr>rg_byID = [], rg_bySess = []\<rparr>"

text \<open>Reading a slice out of a map: nil where there is none.\<close>

definition sess_ids :: "registry \<Rightarrow> string \<Rightarrow> string list" where
  "sess_ids r s = (case gm_get (rg_bySess r) s of None \<Rightarrow> [] | Some ids \<Rightarrow> ids)"

definition newTaskID :: "string option \<Rightarrow> reg_error + string" where
  "newTaskID random = (case random of None \<Rightarrow> Inl RandomFailed | Some b \<Rightarrow> Inr (base64url b))"

definition cancel_ptr :: "(nat \<Rightarrow> time) \<Rightarrow> nat \<Rightarrow> 'd pool \<Rightarrow> 'd pool" where
  "cancel_ptr clk p pool =
     pool[p := (pool ! p)\<lparr>y_task := task_Cancel (clk p) (y_task (pool ! p))\<rparr>]"

definition cancelAll :: "(nat \<Rightarrow> time) \<Rightarrow> nat list \<Rightarrow> 'd pool \<Rightarrow> 'd pool" where
  "cancelAll clk ps pool = fold (cancel_ptr clk) ps pool"

definition dropLocked :: "string \<Rightarrow> registry \<Rightarrow> registry" where
  "dropLocked tid r =
     (case gm_get (rg_byID r) tid of
        None \<Rightarrow> r
      | Some e \<Rightarrow>
          (let r = r\<lparr>rg_byID := gm_del tid (rg_byID r)\<rparr>;
               ids = remove1 tid (sess_ids r (re_sessionID e))
           in if ids = [] then r\<lparr>rg_bySess := gm_del (re_sessionID e) (rg_bySess r)\<rparr>
              else r\<lparr>rg_bySess := gm_put (re_sessionID e) ids (rg_bySess r)\<rparr>))"

fun reg_sweep_loop :: "time \<Rightarrow> (string \<times> reg_entry) list \<Rightarrow> registry \<times> nat list \<Rightarrow> registry \<times> nat list" where
  "reg_sweep_loop cutoff [] (r, stale) = (r, stale)"
| "reg_sweep_loop cutoff ((tid, e) # es) (r, stale) =
     (if re_touched e < cutoff then reg_sweep_loop cutoff es (dropLocked tid r, stale @ [re_task e])
      else reg_sweep_loop cutoff es (r, stale))"

definition reg_sweepLocked :: "time \<Rightarrow> registry \<Rightarrow> registry \<times> nat list" where
  "reg_sweepLocked now r = reg_sweep_loop (time_add now (- TaskTTL)) (rg_byID r) (r, [])"

fun trim_loop :: "string list \<Rightarrow> registry \<times> nat list \<Rightarrow> registry \<times> nat list" where
  "trim_loop [] (r, stale) = (r, stale)"
| "trim_loop (tid # ids) (r, stale) =
     (case gm_get (rg_byID r) tid of
        None \<Rightarrow> trim_loop ids (r, stale)
      | Some e \<Rightarrow> trim_loop ids (r\<lparr>rg_byID := gm_del tid (rg_byID r)\<rparr>, stale @ [re_task e]))"

definition trimLocked :: "string \<Rightarrow> registry \<Rightarrow> registry \<times> nat list" where
  "trimLocked s r =
     (let ids = sess_ids r s
      in if length ids \<le> MaxPerSession then (r, [])
         else
           (case trim_loop (take (length ids - MaxPerSession) ids) (r, []) of (r, stale) \<Rightarrow>
              (r\<lparr>rg_bySess := gm_put s (drop (length ids - MaxPerSession) ids) (rg_bySess r)\<rparr>, stale)))"

text \<open>The goroutines a task starts with: one for each source, and the one that watches the ceiling.\<close>

definition fan_of :: "'d Task \<Rightarrow> 'd fan" where
  "fan_of t = \<lparr>y_task = t,
     y_runs = map (\<lambda>sid. \<lparr>r_id = sid, r_retry = False, r_phase = AtGate\<rparr>) (t_order t),
     y_watching = True\<rparr>"

text \<open>\<open>now1\<close> is the reading \<open>fanout.Start\<close> makes, \<open>now2\<close> that of the sweep, \<open>now3\<close> that of the entry.\<close>

definition reg_Start ::
    "string \<Rightarrow> Source list \<Rightarrow> fan_options \<Rightarrow> string option \<Rightarrow> time \<Rightarrow> time \<Rightarrow> time \<Rightarrow> (nat \<Rightarrow> time) \<Rightarrow>
     registry \<times> 'd pool \<Rightarrow> (registry \<times> 'd pool) \<times> (reg_error + nat)" where
  "reg_Start s sources op random now1 now2 now3 clk rp =
     (case rp of (r, pool) \<Rightarrow>
        (case newTaskID random of
           Inl e \<Rightarrow> (rp, Inl e)
         | Inr tid \<Rightarrow>
             (case fan_Start tid sources op now1 of
                Inl e \<Rightarrow> (rp, Inl (StartFailed e))
              | Inr task \<Rightarrow>
                  (let p = length pool; pool = pool @ [fan_of task];
                       (r, dropped) = reg_sweepLocked now2 r;
                       r = r\<lparr>rg_byID := gm_put tid \<lparr>re_task = p, re_sessionID = s, re_touched = now3\<rparr>
                                          (rg_byID r)\<rparr>;
                       r = r\<lparr>rg_bySess := gm_put s (sess_ids r s @ [tid]) (rg_bySess r)\<rparr>;
                       (r, stale) = trimLocked s r
                   in ((r, cancelAll clk stale pool), Inr p)))))"

definition reg_Get :: "string \<Rightarrow> string \<Rightarrow> time \<Rightarrow> registry \<Rightarrow> registry \<times> (reg_error + nat)" where
  "reg_Get s tid now r =
     (case gm_get (rg_byID r) tid of
        None \<Rightarrow> (r, Inl ErrNoTask)
      | Some e \<Rightarrow>
          if re_sessionID e \<noteq> s then (r, Inl ErrNoTask)
          else (r\<lparr>rg_byID := gm_put tid (e\<lparr>re_touched := now\<rparr>) (rg_byID r)\<rparr>, Inr (re_task e)))"

definition reg_Cancel ::
    "string \<Rightarrow> string \<Rightarrow> (nat \<Rightarrow> time) \<Rightarrow> registry \<times> 'd pool \<Rightarrow> registry \<times> 'd pool" where
  "reg_Cancel s tid clk rp =
     (case rp of (r, pool) \<Rightarrow>
        (case gm_get (rg_byID r) tid of
           None \<Rightarrow> rp
         | Some e \<Rightarrow>
             if re_sessionID e \<noteq> s then rp
             else (dropLocked tid r, cancel_ptr clk (re_task e) pool)))"

fun session_loop :: "string list \<Rightarrow> (string, reg_entry) gomap \<Rightarrow> (string, reg_entry) gomap \<times> nat list" where
  "session_loop [] m = (m, [])"
| "session_loop (tid # ids) m =
     (case session_loop ids (gm_del tid m) of (m', tasks) \<Rightarrow>
        (m', (case gm_get m tid of None \<Rightarrow> tasks | Some e \<Rightarrow> re_task e # tasks)))"

definition CancelSession :: "string \<Rightarrow> (nat \<Rightarrow> time) \<Rightarrow> registry \<times> 'd pool \<Rightarrow> registry \<times> 'd pool" where
  "CancelSession s clk rp =
     (case rp of (r, pool) \<Rightarrow>
        (case session_loop (sess_ids r s) (rg_byID r) of (m, tasks) \<Rightarrow>
           (\<lparr>rg_byID = m, rg_bySess = gm_del s (rg_bySess r)\<rparr>, cancelAll clk tasks pool)))"

definition reg_Close :: "(nat \<Rightarrow> time) \<Rightarrow> registry \<times> 'd pool \<Rightarrow> registry \<times> 'd pool" where
  "reg_Close clk rp =
     (case rp of (r, pool) \<Rightarrow>
        (NewRegistry, cancelAll clk (map (\<lambda>(_, e). re_task e) (rg_byID r)) pool))"

definition reg_Len :: "registry \<Rightarrow> nat" where
  "reg_Len r = length (rg_byID r)"

definition reg_Sweep :: "time \<Rightarrow> (nat \<Rightarrow> time) \<Rightarrow> registry \<times> 'd pool \<Rightarrow> (registry \<times> 'd pool) \<times> nat" where
  "reg_Sweep now clk rp =
     (case rp of (r, pool) \<Rightarrow>
        (case reg_sweepLocked now r of (r, stale) \<Rightarrow>
           ((r, cancelAll clk stale pool), length stale)))"

text \<open>
  The registry and its tasks as one system. A new identifier is not that of a registered task
  (\<open>crypto.Random\<close> yields 16 bytes no one has drawn before).
\<close>

inductive reg_step :: "registry \<times> 'd pool \<Rightarrow> registry \<times> 'd pool \<Rightarrow> bool" where
  gs_start: "gm_get (rg_byID (fst rp)) (base64url b) = None \<Longrightarrow>
    reg_Start s sources op (Some b) now1 now2 now3 clk rp = (rp', res) \<Longrightarrow> reg_step rp rp'"
| gs_get: "reg_step (r, pool) (fst (reg_Get s tid now r), pool)"
| gs_cancel: "reg_step rp (reg_Cancel s tid clk rp)"
| gs_session: "reg_step rp (CancelSession s clk rp)"
| gs_sweep: "reg_step rp (fst (reg_Sweep now clk rp))"
| gs_close: "reg_step rp (reg_Close clk rp)"
| gs_task: "p < length pool \<Longrightarrow> fan_step (pool ! p) y \<Longrightarrow> reg_step (r, pool) (r, pool[p := y])"

definition reg_start :: "registry \<times> 'd pool \<Rightarrow> bool" where
  "reg_start rp \<longleftrightarrow> rp = (NewRegistry, [])"

subsection \<open>What the operations do to the maps\<close>

definition tasks_of :: "registry \<Rightarrow> string \<Rightarrow> string set" where
  "tasks_of r s = {tid. \<exists>e. gm_get (rg_byID r) tid = Some e \<and> re_sessionID e = s}"

definition reg_ok :: "registry \<Rightarrow> bool" where
  "reg_ok r \<longleftrightarrow> gm_wf (rg_byID r) \<and>
     (\<forall>s. distinct (sess_ids r s) \<and> set (sess_ids r s) = tasks_of r s \<and>
          gm_get (rg_bySess r) s \<noteq> Some [])"

definition bounded :: "registry \<Rightarrow> bool" where
  "bounded r \<longleftrightarrow> (\<forall>s. length (sess_ids r s) \<le> MaxPerSession)"

definition pool_ok :: "registry \<Rightarrow> 'd pool \<Rightarrow> bool" where
  "pool_ok r pool \<longleftrightarrow> (\<forall>y \<in> set pool. reaches fan_started fan_step y) \<and>
     (\<forall>tid e. gm_get (rg_byID r) tid = Some e \<longrightarrow>
        re_task e < length pool \<and> t_ID (y_task (pool ! re_task e)) = tid)"

definition reg_inv :: "registry \<times> 'd pool \<Rightarrow> bool" where
  "reg_inv rp \<longleftrightarrow> reg_ok (fst rp) \<and> bounded (fst rp) \<and> pool_ok (fst rp) (snd rp)"

lemma byID_dropLocked [simp]: "rg_byID (dropLocked tid r) = gm_del tid (rg_byID r)"
  by (auto simp: dropLocked_def Let_def gm_del_id split: option.split)

lemma sess_ids_dropLocked:
  assumes "reg_ok r"
  shows "sess_ids (dropLocked tid r) s = filter (\<lambda>k. k \<noteq> tid) (sess_ids r s)"
proof -
  have ok: "distinct (sess_ids r s)" "set (sess_ids r s) = tasks_of r s" for s
    using assms by (simp_all add: reg_ok_def)
  have rem: "remove1 tid (sess_ids r s) = filter (\<lambda>k. k \<noteq> tid) (sess_ids r s)" for s
    using ok(1) [of s] by (simp add: distinct_remove1_removeAll removeAll_filter_not_eq)
      (rule filter_cong, auto)
  show ?thesis
  proof (cases "gm_get (rg_byID r) tid")
    case None
    then have "tid \<notin> set (sess_ids r s)" using ok(2) by (simp add: tasks_of_def)
    then have "filter (\<lambda>k. k \<noteq> tid) (sess_ids r s) = sess_ids r s" by (simp add: filter_id_conv) auto
    with None show ?thesis by (simp add: dropLocked_def)
  next
    case (Some e)
    have other: "filter (\<lambda>k. k \<noteq> tid) (sess_ids r s) = sess_ids r s" if "s \<noteq> re_sessionID e"
    proof -
      have "tid \<notin> set (sess_ids r s)" using that Some ok(2) by (simp add: tasks_of_def)
      then show ?thesis by (simp add: filter_id_conv) auto
    qed
    show ?thesis
    proof (cases "s = re_sessionID e")
      case True
      then show ?thesis
        using Some rem [of s] by (simp add: dropLocked_def Let_def sess_ids_def)
    next
      case False
      then show ?thesis
        using Some other by (simp add: dropLocked_def Let_def sess_ids_def)
    qed
  qed
qed

lemma bySess_dropLocked:
  "gm_get (rg_bySess r) s \<noteq> Some [] \<Longrightarrow> gm_get (rg_bySess (dropLocked tid r)) s \<noteq> Some []"
  by (auto simp: dropLocked_def Let_def split: option.split)

lemma dropLocked_ok: "reg_ok r \<Longrightarrow> reg_ok (dropLocked tid r)"
  unfolding reg_ok_def
  using sess_ids_dropLocked [of r tid] bySess_dropLocked [of r _ tid]
  by (auto simp: reg_ok_def tasks_of_def)

lemma reg_sweep_loop_spec:
  assumes "reg_ok r" and "reg_sweep_loop cutoff es (r, stale) = (r', stale')"
  shows "reg_ok r' \<and>
    rg_byID r' = filter (\<lambda>(k, _). \<forall>(k', e) \<in> set es. re_touched e < cutoff \<longrightarrow> k' \<noteq> k) (rg_byID r) \<and>
    sess_ids r' s = filter (\<lambda>k. \<forall>(k', e) \<in> set es. re_touched e < cutoff \<longrightarrow> k' \<noteq> k) (sess_ids r s) \<and>
    stale' = stale @ map (\<lambda>(_, e). re_task e) (filter (\<lambda>(_, e). re_touched e < cutoff) es)"
  using assms
proof (induction cutoff es "(r, stale)" arbitrary: r stale rule: reg_sweep_loop.induct)
  case (2 cutoff tid e es r stale)
  show ?case
  proof (cases "re_touched e < cutoff")
    case True
    with 2 have "reg_sweep_loop cutoff es (dropLocked tid r, stale @ [re_task e]) = (r', stale')" by simp
    from 2(1) [OF True dropLocked_ok [OF 2(3)] this] True 2(3) show ?thesis
      by (auto simp: sess_ids_dropLocked gm_del_def intro!: filter_cong)
  next
    case False
    with 2 have "reg_sweep_loop cutoff es (r, stale) = (r', stale')" by simp
    from 2(2) [OF False 2(3) this] False show ?thesis by (auto intro!: filter_cong)
  qed
qed (auto simp: case_prod_beta)

lemma sweepLocked_spec:
  assumes ok: "reg_ok r" and sw: "reg_sweepLocked now r = (r', stale)"
  shows "reg_ok r'"
    and "gm_get (rg_byID r') tid =
      (case gm_get (rg_byID r) tid of None \<Rightarrow> None
       | Some e \<Rightarrow> if re_touched e < now - TaskTTL then None else Some e)"
    and "sess_ids r' s = filter (\<lambda>k. gm_get (rg_byID r') k \<noteq> None) (sess_ids r s)"
    and "stale = map (\<lambda>(_, e). re_task e) (filter (\<lambda>(_, e). re_touched e < now - TaskTTL) (rg_byID r))"
proof -
  let ?old = "\<lambda>k. \<exists>e. (k, e) \<in> set (rg_byID r) \<and> re_touched e < now - TaskTTL"
  have wf: "gm_wf (rg_byID r)" using ok by (simp add: reg_ok_def)
  note spec = reg_sweep_loop_spec [OF ok sw [unfolded reg_sweepLocked_def time_add_def]]
  show "reg_ok r'" using spec by simp
  show st: "stale = map (\<lambda>(_, e). re_task e) (filter (\<lambda>(_, e). re_touched e < now - TaskTTL) (rg_byID r))"
    using spec by simp
  have byID: "rg_byID r' = filter (\<lambda>(k, _). \<not> ?old k) (rg_byID r)"
    using spec by (auto intro!: filter_cong)
  show g: "gm_get (rg_byID r') tid =
      (case gm_get (rg_byID r) tid of None \<Rightarrow> None
       | Some e \<Rightarrow> if re_touched e < now - TaskTTL then None else Some e)" for tid
  proof -
    have f: "gm_get (rg_byID r') tid =
        (case gm_get (rg_byID r) tid of None \<Rightarrow> None | Some v \<Rightarrow> if \<not> ?old tid then Some v else None)"
      unfolding byID using gm_get_filter [OF wf, of "\<lambda>k _. \<not> ?old k" tid] by simp
    show ?thesis
    proof (cases "gm_get (rg_byID r) tid")
      case (Some e)
      then have "?old tid \<longleftrightarrow> re_touched e < now - TaskTTL"
        by (auto simp flip: gm_get_in [OF wf])
      with f Some show ?thesis by simp
    qed (simp add: f)
  qed
  have "sess_ids r' s = filter (\<lambda>k. \<not> ?old k) (sess_ids r s)"
    using spec [of s] by (auto intro!: filter_cong)
  moreover have "\<not> ?old k \<longleftrightarrow> gm_get (rg_byID r') k \<noteq> None" if "k \<in> set (sess_ids r s)" for k
  proof -
    have "k \<in> tasks_of r s" using that ok by (simp add: reg_ok_def)
    then obtain e where "gm_get (rg_byID r) k = Some e" by (auto simp: tasks_of_def)
    moreover then have "?old k \<longleftrightarrow> re_touched e < now - TaskTTL"
      by (auto simp flip: gm_get_in [OF wf])
    ultimately show ?thesis using g [of k] by simp
  qed
  ultimately show "sess_ids r' s = filter (\<lambda>k. gm_get (rg_byID r') k \<noteq> None) (sess_ids r s)"
    by (simp cong: filter_cong)
qed

lemma set_map_filter: "set (map f (List.map_filter g xs)) = {f e |k e. k \<in> set xs \<and> g k = Some e}"
proof (induction xs)
  case (Cons x xs)
  have "{f e |k e. k \<in> set (x # xs) \<and> g k = Some e} =
      {f e |e. g x = Some e} \<union> {f e |k e. k \<in> set xs \<and> g k = Some e}" by auto
  with Cons show ?case by (cases "g x") simp_all
qed simp

lemma in_take_or_drop: "x \<in> set xs \<Longrightarrow> x \<in> set (take n xs) \<or> x \<in> set (drop n xs)"
  by (simp flip: Un_iff set_append)

lemma map_filter_del:
  "tid \<notin> set ids \<Longrightarrow> List.map_filter (gm_get (filter (\<lambda>(k, _). k \<noteq> tid) m)) ids = List.map_filter (gm_get m) ids"
proof (induction ids)
  case (Cons a ids)
  then have "gm_get (filter (\<lambda>(k, _). k \<noteq> tid) m) a = gm_get m a"
    using gm_get_del [of tid m a] by (auto simp: gm_del_def)
  with Cons show ?case by (auto split: option.split)
qed simp

lemma trim_loop_spec:
  "trim_loop ids (r, stale) = (r', stale') \<Longrightarrow>
   rg_byID r' = filter (\<lambda>(k, _). k \<notin> set ids) (rg_byID r) \<and> rg_bySess r' = rg_bySess r \<and>
   (distinct ids \<longrightarrow> stale' = stale @ map re_task (List.map_filter (gm_get (rg_byID r)) ids))"
proof (induction ids "(r, stale)" arbitrary: r stale rule: trim_loop.induct)
  case (2 tid ids r stale)
  show ?case
  proof (cases "gm_get (rg_byID r) tid")
    case None
    with 2 have "rg_byID r' = filter (\<lambda>(k, _). k \<notin> set ids) (gm_del tid (rg_byID r)) \<and>
        rg_bySess r' = rg_bySess r \<and>
        (distinct ids \<longrightarrow> stale' = stale @ map re_task (List.map_filter (gm_get (rg_byID r)) ids))"
      by (simp add: gm_del_id)
    with None show ?thesis by (auto simp: gm_del_def map_filter_del intro!: filter_cong)
  next
    case (Some e)
    let ?r = "r\<lparr>rg_byID := gm_del tid (rg_byID r)\<rparr>"
    have "trim_loop ids (?r, stale @ [re_task e]) = (r', stale')" using 2(3) Some by simp
    from 2(2) [OF Some this] Some show ?thesis
      by (auto simp: gm_del_def map_filter_del intro!: filter_cong)
  qed
qed (auto simp: case_prod_beta)

lemma trimLocked_spec:
  assumes ok: "reg_ok r" and tr: "trimLocked s r = (r', stale)"
    and le: "\<forall>s'. s' \<noteq> s \<longrightarrow> length (sess_ids r s') \<le> MaxPerSession"
  shows "reg_ok r' \<and> bounded r'"
    and "sess_ids r' s' = (if s' = s then drop (length (sess_ids r s) - MaxPerSession) (sess_ids r s)
           else sess_ids r s')"
    and "gm_get (rg_byID r') k =
      (if k \<in> set (take (length (sess_ids r s) - MaxPerSession) (sess_ids r s)) then None
       else gm_get (rg_byID r) k)"
    and "stale = map re_task (List.map_filter (gm_get (rg_byID r))
           (take (length (sess_ids r s) - MaxPerSession) (sess_ids r s)))"
proof -
  let ?n = "length (sess_ids r s) - MaxPerSession"
  let ?old = "take ?n (sess_ids r s)"
  have d: "distinct (sess_ids r x)" "set (sess_ids r x) = tasks_of r x" "gm_wf (rg_byID r)"
    "gm_get (rg_bySess r) x \<noteq> Some []" for x
    using ok by (simp_all add: reg_ok_def)
  have all: "rg_byID r' = filter (\<lambda>(k, _). k \<notin> set ?old) (rg_byID r) \<and>
      (\<forall>x. sess_ids r' x = (if x = s then drop ?n (sess_ids r s) else sess_ids r x)) \<and>
      (\<forall>x. gm_get (rg_bySess r') x \<noteq> Some []) \<and>
      stale = map re_task (List.map_filter (gm_get (rg_byID r)) ?old)"
  proof (cases "length (sess_ids r s) \<le> MaxPerSession")
    case True
    with tr d(4) show ?thesis
      by (simp add: trimLocked_def Let_def)
  next
    case False
    obtain r1 where t: "trim_loop ?old (r, []) = (r1, stale)"
      and r': "r' = r1\<lparr>rg_bySess := gm_put s (drop ?n (sess_ids r s)) (rg_bySess r1)\<rparr>"
      using tr False by (auto simp: trimLocked_def Let_def split: prod.splits)
    have ne: "drop ?n (sess_ids r s) \<noteq> []" using False by (simp add: MaxPerSession_def)
    from trim_loop_spec [OF t] r' d ne show ?thesis
      by (auto simp: sess_ids_def)
  qed
  show s': "sess_ids r' s' = (if s' = s then drop ?n (sess_ids r s) else sess_ids r s')" for s'
    using all by blast
  show g: "gm_get (rg_byID r') k = (if k \<in> set ?old then None else gm_get (rg_byID r) k)" for k
    using all gm_get_filter [OF d(3), of "\<lambda>k _. k \<notin> set ?old" k] by (auto split: option.split)
  show "stale = map re_task (List.map_filter (gm_get (rg_byID r)) ?old)" using all by blast
  have split: "sess_ids r s = ?old @ drop ?n (sess_ids r s)" by simp
  have dis: "set ?old \<inter> set (drop ?n (sess_ids r s)) = {}"
    using d(1) [of s] by (metis append_take_drop_id distinct_append)
  have mem: "set (sess_ids r' x) = tasks_of r' x" for x
  proof (cases "x = s")
    case True
    have "set (drop ?n (sess_ids r s)) = tasks_of r s - set ?old"
      using d(2) [of s] dis split by (metis Diff_cancel Int_commute Un_Diff Un_Diff_Int Diff_triv set_append sup_bot_left)
    then show ?thesis using True s' by (auto simp: tasks_of_def g)
  next
    case False
    have "set ?old \<subseteq> tasks_of r s" using d(2) [of s] set_take_subset by fast
    then have "k \<notin> set ?old" if "k \<in> tasks_of r x" for k
      using that False by (auto simp: tasks_of_def)
    then show ?thesis using False s' d(2) [of x] by (auto simp: tasks_of_def g)
  qed
  have "gm_wf (rg_byID r')" using all d(3) by simp
  moreover have "distinct (sess_ids r' x)" for x using s' d(1) by simp
  ultimately have "reg_ok r'" using mem all by (simp add: reg_ok_def)
  moreover have "bounded r'" using s' le by (auto simp: bounded_def)
  ultimately show "reg_ok r' \<and> bounded r'" by blast
qed

lemma session_loop_spec:
  "session_loop ids m = (m', tasks) \<Longrightarrow>
   m' = filter (\<lambda>(k, _). k \<notin> set ids) m \<and>
   (distinct ids \<longrightarrow> tasks = map re_task (List.map_filter (gm_get m) ids))"
proof (induction ids arbitrary: m m' tasks)
  case (Cons tid ids)
  obtain ts where l: "session_loop ids (gm_del tid m) = (m', ts)"
    and tasks: "tasks = (case gm_get m tid of None \<Rightarrow> ts | Some e \<Rightarrow> re_task e # ts)"
    using Cons.prems by (auto split: prod.splits)
  with Cons.IH [OF l] show ?case
    by (auto simp: gm_del_def map_filter_del split: option.splits intro!: filter_cong)
qed (auto simp: case_prod_beta)

subsection \<open>Cancelling what the pointers name\<close>

lemma length_cancelAll [simp]: "length (cancelAll clk ps pool) = length pool"
  by (induction ps arbitrary: pool) (simp_all add: cancelAll_def cancel_ptr_def)

lemma cancelAll_other: "p \<notin> set ps \<Longrightarrow> cancelAll clk ps pool ! p = pool ! p"
  by (induction ps arbitrary: pool) (simp_all add: cancelAll_def cancel_ptr_def)

lemma nth_update_self: "xs[p := x] ! p = (if p < length xs then x else xs ! p)"
  by (simp add: list_update_beyond)

lemma task_Cancel_ID: "t_ID (task_Cancel now t) = t_ID t"
  by (simp add: task_Cancel_def Let_def notify_def rootCancel_def runCancel_def settleLocked_def)

lemma cancelAll_frame: "t_ID (y_task (cancelAll clk ps pool ! p)) = t_ID (y_task (pool ! p))"
proof (induction ps arbitrary: pool)
  case (Cons q ps)
  have "t_ID (y_task (cancel_ptr clk q pool ! p)) = t_ID (y_task (pool ! p))"
    by (cases "q = p") (simp_all add: cancel_ptr_def task_Cancel_ID nth_update_self)
  with Cons.IH [of "cancel_ptr clk q pool"] show ?case by (simp add: cancelAll_def)
qed (simp add: cancelAll_def)

lemma cancelAll_cancelled:
  "p < length pool \<Longrightarrow> p \<in> set ps \<or> t_cancelled (y_task (pool ! p)) \<Longrightarrow>
   t_cancelled (y_task (cancelAll clk ps pool ! p))"
proof (induction ps arbitrary: pool)
  case (Cons q ps)
  have "p < length (cancel_ptr clk q pool)" using Cons.prems by (simp add: cancel_ptr_def)
  moreover have "p \<in> set ps \<or> t_cancelled (y_task (cancel_ptr clk q pool ! p))"
    using Cons.prems
    by (cases "q = p") (auto simp: cancel_ptr_def nth_update_self task_Cancel_def Let_def)
  ultimately show ?case using Cons.IH by (simp add: cancelAll_def)
qed (simp add: cancelAll_def)

lemma cancelAll_reaches:
  "\<forall>y \<in> set pool. reaches fan_started fan_step y \<Longrightarrow>
   \<forall>y \<in> set (cancelAll clk ps pool). reaches fan_started fan_step y"
proof (induction ps arbitrary: pool)
  case (Cons q ps)
  have "\<forall>y \<in> set (cancel_ptr clk q pool). reaches fan_started fan_step y"
  proof (cases "q < length pool")
    case True
    then have "reaches fan_started fan_step (pool ! q)" using Cons.prems by simp
    then have "reaches fan_started fan_step ((pool ! q)\<lparr>y_task := task_Cancel (clk q) (y_task (pool ! q))\<rparr>)"
      by (rule reaches_step) (rule fs_cancel)
    with Cons.prems show ?thesis
      by (auto simp: cancel_ptr_def dest: set_update_subset_insert [THEN subsetD])
  qed (use Cons.prems in \<open>simp add: cancel_ptr_def list_update_beyond\<close>)
  with Cons.IH show ?case by (simp add: cancelAll_def)
qed (simp add: cancelAll_def)

lemma pool_ok_cancelAll: "pool_ok r pool \<Longrightarrow> pool_ok r (cancelAll clk ps pool)"
  using cancelAll_reaches [of pool clk ps] by (simp add: pool_ok_def cancelAll_frame)

lemma pool_ok_mono:
  "pool_ok r pool \<Longrightarrow> (\<And>k e. gm_get (rg_byID r') k = Some e \<Longrightarrow> gm_get (rg_byID r) k = Some e) \<Longrightarrow>
   pool_ok r' pool"
  unfolding pool_ok_def by blast

lemma task_ID_frame [frame_simps]:
  "t_ID (runCancel t) = t_ID t" "t_ID (notify t) = t_ID t" "t_ID (settleLocked now t) = t_ID t"
  "t_ID (set_source sid st t) = t_ID t" "t_ID (Subscribe ch t) = t_ID t" "t_ID (Unsubscribe ch t) = t_ID t"
  by (simp_all add: runCancel_def notify_def settleLocked_def set_source_def Subscribe_def Unsubscribe_def
      Let_def)

lemma operation_ID:
  "t_ID (finish_poll sid items fc err now t) = t_ID t" "t_ID (fst (begin_poll sid now t)) = t_ID t"
  "t_ID (watchCeiling e now t) = t_ID t" "t_ID (fst (Retry sid now t)) = t_ID t"
  by (simp_all add: finish_poll_def begin_poll_def watchCeiling_def Retry_def task_ID_frame Let_def
      split: option.split)

lemma pool_ok_append: "pool_ok r pool \<Longrightarrow> reaches fan_started fan_step y \<Longrightarrow> pool_ok r (pool @ [y])"
  by (simp add: pool_ok_def nth_append less_Suc_eq)

lemma pool_ok_inj:
  assumes "pool_ok r pool" and "gm_get (rg_byID r) k = Some e" and "gm_get (rg_byID r) k' = Some e'"
    and "re_task e = re_task e'"
  shows "k = k'"
proof -
  have "t_ID (y_task (pool ! re_task e)) = k" "t_ID (y_task (pool ! re_task e')) = k'"
    using assms(1-3) by (simp_all add: pool_ok_def)
  with assms(4) show ?thesis by simp
qed

lemma fan_step_ID:
  assumes "fan_step y y'"
  shows "t_ID (y_task y') = t_ID (y_task y)"
  using assms
proof (cases rule: fan_step.cases)
  case (fs_begin rs r qs now t src)
  with operation_ID(2) [of "r_id r" now "y_task y"] show ?thesis by simp
next
  case (fs_begin_stop rs r qs now t)
  with operation_ID(2) [of "r_id r" now "y_task y"] show ?thesis by simp
next
  case (fs_retry sid now t)
  with operation_ID(4) [of sid now "y_task y"] show ?thesis by simp
qed (simp_all add: operation_ID task_ID_frame task_Cancel_ID)

subsection \<open>The invariant of the registry\<close>

lemma tasks_of_put_same:
  "gm_get (rg_byID r) tid = Some e \<Longrightarrow> re_sessionID e' = re_sessionID e \<Longrightarrow>
   tasks_of (r\<lparr>rg_byID := gm_put tid e' (rg_byID r)\<rparr>) s = tasks_of r s"
  by (auto simp: tasks_of_def)

lemma reg_Get_inv:
  assumes "reg_inv (r, pool)"
  shows "reg_inv (fst (reg_Get s tid now r), pool)"
proof (cases "\<exists>e. gm_get (rg_byID r) tid = Some e \<and> re_sessionID e = s")
  case True
  then obtain e where e: "gm_get (rg_byID r) tid = Some e" "re_sessionID e = s" by blast
  let ?r = "r\<lparr>rg_byID := gm_put tid (e\<lparr>re_touched := now\<rparr>) (rg_byID r)\<rparr>"
  have "fst (reg_Get s tid now r) = ?r" using e by (simp add: reg_Get_def)
  moreover have "sess_ids ?r s' = sess_ids r s'" for s' by (simp add: sess_ids_def)
  moreover have "tasks_of ?r s' = tasks_of r s'" for s' using tasks_of_put_same [OF e(1)] by simp
  moreover have "pool_ok ?r pool" using assms e by (auto simp: reg_inv_def pool_ok_def)
  ultimately show ?thesis using assms by (simp add: reg_inv_def reg_ok_def bounded_def)
next
  case False
  then have "fst (reg_Get s tid now r) = r" by (auto simp: reg_Get_def split: option.split)
  with assms show ?thesis by simp
qed

lemma dropLocked_inv: "reg_inv (r, pool) \<Longrightarrow> reg_inv (dropLocked tid r, cancelAll clk ps pool)"
proof -
  assume inv: "reg_inv (r, pool)"
  then have ok: "reg_ok r" "bounded r" "pool_ok r pool" by (simp_all add: reg_inv_def)
  have "pool_ok (dropLocked tid r) pool"
    by (rule pool_ok_mono [OF ok(3)]) (simp split: if_splits)
  moreover have "bounded (dropLocked tid r)"
    using ok(2) by (auto simp: bounded_def sess_ids_dropLocked [OF ok(1)] intro: order_trans [OF length_filter_le])
  ultimately show ?thesis using dropLocked_ok [OF ok(1)] by (simp add: reg_inv_def pool_ok_cancelAll)
qed

lemma reg_Cancel_inv: "reg_inv rp \<Longrightarrow> reg_inv (reg_Cancel s tid clk rp)"
proof -
  assume inv: "reg_inv rp"
  obtain r pool where rp: "rp = (r, pool)" by fastforce
  have "reg_inv (dropLocked tid r, cancel_ptr clk p pool)" for p
    using dropLocked_inv [of r pool tid clk "[p]"] inv rp by (simp add: cancelAll_def)
  with inv rp show ?thesis by (auto simp: reg_Cancel_def split: option.split)
qed

lemma swept_inv:
  assumes inv: "reg_inv (r, pool)" and sw: "reg_sweepLocked now r = (r', stale)"
  shows "reg_inv (r', pool)"
proof -
  have ok: "reg_ok r" "bounded r" "pool_ok r pool" using inv by (simp_all add: reg_inv_def)
  have "pool_ok r' pool"
    by (rule pool_ok_mono [OF ok(3)])
      (auto simp: sweepLocked_spec(2) [OF ok(1) sw] split: option.splits if_splits)
  moreover have "bounded r'"
    using ok(2) by (auto simp: bounded_def sweepLocked_spec(3) [OF ok(1) sw] intro: order_trans [OF length_filter_le])
  ultimately show ?thesis using sweepLocked_spec(1) [OF ok(1) sw] by (simp add: reg_inv_def)
qed

lemma reg_Sweep_inv: "reg_inv rp \<Longrightarrow> reg_inv (fst (reg_Sweep now clk rp))"
proof -
  assume inv: "reg_inv rp"
  obtain r pool where rp: "rp = (r, pool)" by fastforce
  obtain r' stale where sw: "reg_sweepLocked now r = (r', stale)" by fastforce
  from inv rp have "reg_inv (r', pool)" by (simp add: swept_inv [OF _ sw])
  with rp show ?thesis by (simp add: reg_Sweep_def sw reg_inv_def pool_ok_cancelAll)
qed

lemma CancelSession_spec:
  assumes ok: "reg_ok r" and c: "CancelSession s clk (r, pool) = (r', pool')"
  shows "reg_ok r'"
    and "sess_ids r' s' = (if s' = s then [] else sess_ids r s')"
    and "gm_get (rg_byID r') k =
      (case gm_get (rg_byID r) k of None \<Rightarrow> None | Some e \<Rightarrow> if re_sessionID e = s then None else Some e)"
    and "\<exists>ps. pool' = cancelAll clk ps pool \<and>
      set ps = {re_task e |k e. gm_get (rg_byID r) k = Some e \<and> re_sessionID e = s}"
proof -
  obtain m tasks where l: "session_loop (sess_ids r s) (rg_byID r) = (m, tasks)" by fastforce
  have r': "r' = \<lparr>rg_byID = m, rg_bySess = gm_del s (rg_bySess r)\<rparr>" and p': "pool' = cancelAll clk tasks pool"
    using c l by (simp_all add: CancelSession_def)
  have d: "distinct (sess_ids r x)" "set (sess_ids r x) = tasks_of r x" "gm_wf (rg_byID r)"
    "gm_get (rg_bySess r) x \<noteq> Some []" for x
    using ok by (simp_all add: reg_ok_def)
  have m: "m = filter (\<lambda>(k, _). k \<notin> tasks_of r s) (rg_byID r)"
    and t: "tasks = map re_task (List.map_filter (gm_get (rg_byID r)) (sess_ids r s))"
    using session_loop_spec [OF l] d by simp_all
  show g: "gm_get (rg_byID r') k =
      (case gm_get (rg_byID r) k of None \<Rightarrow> None | Some e \<Rightarrow> if re_sessionID e = s then None else Some e)" for k
    using gm_get_filter [OF d(3), of "\<lambda>k _. k \<notin> tasks_of r s" k] r' m
    by (auto simp: tasks_of_def split: option.split)
  show s': "sess_ids r' s' = (if s' = s then [] else sess_ids r s')" for s'
    using r' by (simp add: sess_ids_def)
  have "set (sess_ids r' x) = tasks_of r' x" for x
    using s' [of x] d(2) [of x] by (auto simp: tasks_of_def g split: option.splits if_splits)
  then show "reg_ok r'" using s' d m r' by (simp add: reg_ok_def)
  have "set tasks = {re_task e |k e. k \<in> tasks_of r s \<and> gm_get (rg_byID r) k = Some e}"
    unfolding t d(2) [symmetric] by (rule set_map_filter)
  also have "\<dots> = {re_task e |k e. gm_get (rg_byID r) k = Some e \<and> re_sessionID e = s}"
    by (intro Collect_cong) (auto simp: tasks_of_def, blast)
  finally show "\<exists>ps. pool' = cancelAll clk ps pool \<and>
      set ps = {re_task e |k e. gm_get (rg_byID r) k = Some e \<and> re_sessionID e = s}"
    using p' by blast
qed

lemma CancelSession_inv: "reg_inv rp \<Longrightarrow> reg_inv (CancelSession s clk rp)"
proof -
  assume inv: "reg_inv rp"
  obtain r pool where rp: "rp = (r, pool)" by fastforce
  obtain r' pool' where c: "CancelSession s clk (r, pool) = (r', pool')" by fastforce
  have ok: "reg_ok r" "bounded r" "pool_ok r pool" using inv rp by (simp_all add: reg_inv_def)
  note spec = CancelSession_spec [OF ok(1) c]
  have "pool_ok r' pool"
    by (rule pool_ok_mono [OF ok(3)]) (auto simp: spec(3) split: option.splits if_splits)
  moreover have "bounded r'" using ok(2) by (simp add: bounded_def spec(2))
  ultimately show ?thesis using spec(1,4) c rp by (auto simp: reg_inv_def pool_ok_cancelAll)
qed

lemma reg_Close_inv: "reg_inv rp \<Longrightarrow> reg_inv (reg_Close clk rp)"
proof -
  assume inv: "reg_inv rp"
  obtain r pool where rp: "rp = (r, pool)" by fastforce
  have "\<forall>y \<in> set pool. reaches fan_started fan_step y" using inv rp by (simp add: reg_inv_def pool_ok_def)
  then have "\<forall>y \<in> set (cancelAll clk ps pool). reaches fan_started fan_step y" for ps
    by (rule cancelAll_reaches)
  then show ?thesis
    using rp by (simp add: reg_Close_def reg_inv_def reg_ok_def bounded_def pool_ok_def NewRegistry_def
        tasks_of_def sess_ids_def)
qed

text \<open>The parts of a successful \<open>Start\<close>: the swept registry, the new entry, and the trimming.\<close>

lemma reg_Start_parts:
  fixes pool :: "'d pool"
  assumes "reg_Start s sources op (Some b) now1 now2 now3 clk (r, pool) = (rp', res)"
  obtains (refused) err where "(fan_Start (base64url b) sources op now1 :: _ + 'd Task) = Inl err"
      and "rp' = (r, pool)" and "res = Inl (StartFailed err)"
    | (started) task r1 dropped r3 stale where "fan_Start (base64url b) sources op now1 = Inr task"
      and "reg_sweepLocked now2 r = (r1, dropped)"
      and "trimLocked s (r1\<lparr>rg_byID := gm_put (base64url b)
             \<lparr>re_task = length pool, re_sessionID = s, re_touched = now3\<rparr> (rg_byID r1),
             rg_bySess := gm_put s (sess_ids r1 s @ [base64url b]) (rg_bySess r1)\<rparr>) = (r3, stale)"
      and "rp' = (r3, cancelAll clk stale (pool @ [fan_of task]))" and "res = Inr (length pool)"
proof (cases "fan_Start (base64url b) sources op now1 :: _ + 'd Task")
  case (Inl err)
  with assms show ?thesis using refused by (simp add: reg_Start_def newTaskID_def)
next
  case (Inr task)
  obtain r1 dropped where sw: "reg_sweepLocked now2 r = (r1, dropped)" by fastforce
  let ?r2 = "r1\<lparr>rg_byID := gm_put (base64url b)
             \<lparr>re_task = length pool, re_sessionID = s, re_touched = now3\<rparr> (rg_byID r1)\<rparr>"
  have same: "sess_ids ?r2 s = sess_ids r1 s" by (simp add: sess_ids_def)
  obtain r3 stale where tr: "trimLocked s (?r2\<lparr>rg_bySess :=
      gm_put s (sess_ids r1 s @ [base64url b]) (rg_bySess ?r2)\<rparr>) = (r3, stale)" by fastforce
  show ?thesis
    by (rule started [OF Inr sw, of r3 stale])
      (use assms Inr sw tr same in \<open>simp_all add: reg_Start_def newTaskID_def Let_def\<close>)
qed

lemma reg_Start_spec:
  fixes pool :: "'d pool"
  assumes inv: "reg_inv (r, pool)" and fresh: "gm_get (rg_byID r) tid = None"
    and task: "(fan_Start tid sources op now1 :: _ + 'd Task) = Inr task"
    and sw: "reg_sweepLocked now2 r = (r1, dropped)"
    and tr: "trimLocked s (r1\<lparr>rg_byID := gm_put tid
             \<lparr>re_task = length pool, re_sessionID = s, re_touched = now3\<rparr> (rg_byID r1),
             rg_bySess := gm_put s (sess_ids r1 s @ [tid]) (rg_bySess r1)\<rparr>) = (r3, stale)"
  shows "reg_inv (r3, cancelAll clk stale (pool @ [fan_of task]))"
    and "sess_ids r3 s = drop (Suc (length (sess_ids r1 s)) - MaxPerSession) (sess_ids r1 s) @ [tid]"
    and "gm_get (rg_byID r3) tid = Some \<lparr>re_task = length pool, re_sessionID = s, re_touched = now3\<rparr>"
    and "set stale = {re_task e |k e. k \<in> set (take (Suc (length (sess_ids r1 s)) - MaxPerSession) (sess_ids r1 s)) \<and>
           gm_get (rg_byID r1) k = Some e}"
proof -
  let ?e = "\<lparr>re_task = length pool, re_sessionID = s, re_touched = now3\<rparr>"
  let ?r2 = "r1\<lparr>rg_byID := gm_put tid ?e (rg_byID r1), rg_bySess := gm_put s (sess_ids r1 s @ [tid]) (rg_bySess r1)\<rparr>"
  have r: "reg_ok r" "bounded r" "pool_ok r pool" using inv by (simp_all add: reg_inv_def)
  have r1: "reg_ok r1" "bounded r1" "pool_ok r1 pool" using swept_inv [OF inv sw] by (simp_all add: reg_inv_def)
  have f1: "gm_get (rg_byID r1) tid = None" using sweepLocked_spec(2) [OF r(1) sw, of tid] fresh by simp
  have s2: "sess_ids ?r2 x = (if x = s then sess_ids r1 s @ [tid] else sess_ids r1 x)" for x
    by (simp add: sess_ids_def)
  have notin: "tid \<notin> set (sess_ids r1 x)" for x
    using r1(1) f1 by (simp add: reg_ok_def tasks_of_def)
  have t2: "tasks_of ?r2 x = (if x = s then insert tid (tasks_of r1 s) else tasks_of r1 x)" for x
    using f1 by (auto simp: tasks_of_def)
  have ok2: "reg_ok ?r2" using r1(1) notin by (simp add: reg_ok_def s2 t2)
  have le: "\<forall>x. x \<noteq> s \<longrightarrow> length (sess_ids ?r2 x) \<le> MaxPerSession"
    using r1(2) by (simp add: s2 bounded_def)
  have len: "length (sess_ids r1 s) \<le> MaxPerSession" using r1(2) by (simp add: bounded_def)
  note spec = trimLocked_spec [OF ok2 tr le]
  let ?n = "Suc (length (sess_ids r1 s)) - MaxPerSession"
  have n: "?n \<le> length (sess_ids r1 s)" using len by (simp add: MaxPerSession_def)
  have old: "take (length (sess_ids ?r2 s) - MaxPerSession) (sess_ids ?r2 s) = take ?n (sess_ids r1 s)"
    using n by (simp add: s2)
  show "sess_ids r3 s = drop ?n (sess_ids r1 s) @ [tid]" using spec(2) [of s] n by (simp add: s2)
  have nt: "tid \<notin> set (take ?n (sess_ids r1 s))" using notin in_set_takeD by fast
  then show g: "gm_get (rg_byID r3) tid = Some ?e" using spec(3) [of tid] old by simp
  have "pool_ok r1 (pool @ [fan_of task])"
  proof -
    have "fan_started (fan_of task)" using task by (auto simp: fan_started_def fan_of_def)
    then show ?thesis by (intro pool_ok_append r1(3) reaches_start)
  qed
  moreover have "t_ID task = tid"
    using task by (auto simp: fan_Start_def split: if_splits prod.splits)
  ultimately have "pool_ok ?r2 (pool @ [fan_of task])" by (auto simp: pool_ok_def fan_of_def)
  then have "pool_ok r3 (pool @ [fan_of task])" by (rule pool_ok_mono) (simp add: spec(3) split: if_splits)
  then show "reg_inv (r3, cancelAll clk stale (pool @ [fan_of task]))"
    using spec(1) by (simp add: reg_inv_def pool_ok_cancelAll)
  have "set stale = {re_task e |k e. k \<in> set (take ?n (sess_ids r1 s)) \<and> gm_get (rg_byID ?r2) k = Some e}"
    unfolding spec(4) old by (rule set_map_filter)
  also have "\<dots> = {re_task e |k e. k \<in> set (take ?n (sess_ids r1 s)) \<and> gm_get (rg_byID r1) k = Some e}"
    using nt by (intro Collect_cong) auto
  finally show "set stale = \<dots>" .
qed

lemma reg_step_inv: "reg_inv rp \<Longrightarrow> reg_step rp rp' \<Longrightarrow> reg_inv rp'"
proof -
  assume inv: "reg_inv rp" and step: "reg_step rp rp'"
  from step inv show "reg_inv rp'"
  proof (cases rule: reg_step.cases)
    case (gs_start b s sources op now1 now2 now3 clk res)
    obtain r pool where rp: "rp = (r, pool)" by fastforce
    from gs_start(2) [unfolded rp] show ?thesis
    proof (cases rule: reg_Start_parts)
      case refused
      with inv rp show ?thesis by simp
    next
      case (started task r1 dropped r3 stale)
      with reg_Start_spec(1) [of r pool "base64url b"] inv rp gs_start(1) show ?thesis by simp
    qed
  next
    case (gs_task p pool y r)
    have "pool_ok r (pool[p := y])"
    proof -
      have pk: "pool_ok r pool" using inv gs_task(1) by (simp add: reg_inv_def)
      then have "reaches fan_started fan_step y"
        using gs_task(3,4) by (auto simp: pool_ok_def intro: reaches_step)
      then have "\<forall>z \<in> set (pool[p := y]). reaches fan_started fan_step z"
        using pk set_update_subset_insert [of pool p y] by (auto simp: pool_ok_def)
      moreover have "t_ID (y_task (pool[p := y] ! q)) = t_ID (y_task (pool ! q))" for q
        using fan_step_ID [OF gs_task(4)] gs_task(3) by (cases "q = p") simp_all
      ultimately show ?thesis using pk by (simp add: pool_ok_def)
    qed
    with inv gs_task show ?thesis by (simp add: reg_inv_def)
  qed (auto intro: reg_Get_inv reg_Cancel_inv CancelSession_inv reg_Sweep_inv reg_Close_inv)
qed

interpretation reg: invariant_system reg_start reg_step reg_inv
proof
  show "reg_start s \<Longrightarrow> reg_inv s" for s :: "registry \<times> 'a pool"
    by (simp add: reg_start_def reg_inv_def reg_ok_def bounded_def pool_ok_def NewRegistry_def tasks_of_def
        sess_ids_def)
qed (rule reg_step_inv)

subsection \<open>Properties\<close>

lemma reg_Get_Inr: "snd (reg_Get s tid now r) = Inr p \<longleftrightarrow>
    (\<exists>e. gm_get (rg_byID r) tid = Some e \<and> re_sessionID e = s \<and> re_task e = p)"
  by (simp add: reg_Get_def split: option.split)

lemma reg_Get_Inl: "snd (reg_Get s tid now r) = Inl e \<longleftrightarrow> e = ErrNoTask \<and> tid \<notin> tasks_of r s"
  by (auto simp: reg_Get_def tasks_of_def split: option.split)

text \<open>
  C26. The registry keeps its promise of at most four tasks for a session: in every state it can
  reach, whatever the polls and the other sessions do, the identifiers listed for a session are
  distinct, at most four, and exactly those its owner can get; a task belongs to one session under
  one identifier, and every task handed out exists.
\<close>

theorem registry_stays_bounded:
  assumes "reaches reg_start reg_step (r, pool)"
  shows "distinct (sess_ids r s) \<and> length (sess_ids r s) \<le> 4 \<and>
    (\<forall>tid. tid \<in> set (sess_ids r s) \<longleftrightarrow> (\<exists>p. snd (reg_Get s tid now r) = Inr p)) \<and>
    (\<forall>tid s' tid' p. snd (reg_Get s tid now r) = Inr p \<and> snd (reg_Get s' tid' now r) = Inr p \<longrightarrow>
       s' = s \<and> tid' = tid) \<and>
    (\<forall>tid p. snd (reg_Get s tid now r) = Inr p \<longrightarrow> p < length pool)"
proof -
  have inv: "reg_ok r" "bounded r" "pool_ok r pool"
    using reg.inv_reachable [OF assms] by (simp_all add: reg_inv_def)
  have "s' = s \<and> tid' = tid"
    if "snd (reg_Get s tid now r) = Inr p" "snd (reg_Get s' tid' now r) = Inr p" for tid s' tid' p
  proof -
    from that obtain e e' where e: "gm_get (rg_byID r) tid = Some e" "re_sessionID e = s" "re_task e = p"
      and e': "gm_get (rg_byID r) tid' = Some e'" "re_sessionID e' = s'" "re_task e' = p"
      by (auto simp: reg_Get_Inr)
    then have "tid' = tid" using pool_ok_inj [OF inv(3) e'(1) e(1)] by simp
    with e e' show ?thesis by simp
  qed
  then have one: "\<forall>tid s' tid' p. snd (reg_Get s tid now r) = Inr p \<and> snd (reg_Get s' tid' now r) = Inr p \<longrightarrow>
       s' = s \<and> tid' = tid" by blast
  have "distinct (sess_ids r s)" "set (sess_ids r s) = tasks_of r s"
    using inv(1) by (simp_all add: reg_ok_def)
  moreover have "length (sess_ids r s) \<le> 4" using inv(2) by (simp add: bounded_def MaxPerSession_def)
  moreover have "tid \<in> tasks_of r s \<longleftrightarrow> (\<exists>p. snd (reg_Get s tid now r) = Inr p)" for tid
    by (simp add: tasks_of_def reg_Get_Inr)
  moreover have "p < length pool" if "snd (reg_Get s tid now r) = Inr p" for tid p
    using that inv(3) unfolding reg_Get_Inr pool_ok_def by blast
  ultimately show ?thesis using one by simp
qed

definition demo_reg :: "registry \<times> nat pool" where
  "demo_reg = fst (reg_Start ''u'' [one_source] demo_fan_options (Some ''a'') 5 5 5 (\<lambda>_. 6) (NewRegistry, []))"

lemma demo_reg_reached: "reaches reg_start reg_step demo_reg"
proof -
  have "reg_step (NewRegistry, []) demo_reg"
    by (rule gs_start [of "(NewRegistry, [])" "''a''" "''u''" "[one_source]" demo_fan_options 5 5 5 "\<lambda>_. 6"])
      (simp_all add: NewRegistry_def demo_reg_def prod_eq_iff)
  then show ?thesis by (rule reaches_step [OF reaches_start, rotated]) (simp add: reg_start_def)
qed

lemma demo_reg_eq: "demo_reg =
    (\<lparr>rg_byID = [(base64url ''a'', \<lparr>re_task = 0, re_sessionID = ''u'', re_touched = 5\<rparr>)],
      rg_bySess = [(''u'', [base64url ''a''])]\<rparr>,
     [fan_of (one_task\<lparr>t_ID := base64url ''a''\<rparr>)])"
  by (simp add: demo_reg_def reg_Start_def newTaskID_def fan_Start_def one_source_def reg_sweepLocked_def
      NewRegistry_def gm_put_def sess_ids_def trimLocked_def MaxPerSession_def cancelAll_def one_task_def)

theorem registry_stays_bounded_witness:
  "length (sess_ids (fst demo_reg) ''u'') \<le> 4"
  using registry_stays_bounded [of "fst demo_reg" "snd demo_reg" "''u''" 7] demo_reg_reached by simp

text \<open>
  Ending a session leaves none of its polls running: after \<open>CancelSession\<close> no identifier of the
  session is known, every task it could get before is cancelled, with all sources final now and in
  every state it can still reach, none of its goroutines begins a query again, and the tasks of
  every other session are untouched.
\<close>

theorem CancelSession_stops_its_polls:
  assumes "reaches reg_start reg_step (r, pool)" and "CancelSession s clk (r, pool) = (r', pool')"
  shows "snd (reg_Get s tid now r') = Inl ErrNoTask \<and>
    (\<forall>p y. snd (reg_Get s tid now r) = Inr p \<and> fan_step\<^sup>*\<^sup>* (pool' ! p) y \<longrightarrow>
       t_cancelled (y_task (pool' ! p)) \<and> unsettled (y_task y) = {} \<and>
       (\<forall>sid t. snd (begin_poll sid t (y_task y)) = None)) \<and>
    (\<forall>s'. s' \<noteq> s \<longrightarrow> snd (reg_Get s' tid now r') = snd (reg_Get s' tid now r) \<and>
       (\<forall>p. snd (reg_Get s' tid now r) = Inr p \<longrightarrow> pool' ! p = pool ! p))"
proof -
  have inv: "reg_ok r" "bounded r" "pool_ok r pool"
    using reg.inv_reachable [OF assms(1)] by (simp_all add: reg_inv_def)
  note spec = CancelSession_spec [OF inv(1) assms(2)]
  obtain ps where p': "pool' = cancelAll clk ps pool"
    and ps: "set ps = {re_task e |k e. gm_get (rg_byID r) k = Some e \<and> re_sessionID e = s}"
    using spec(4) by blast
  have mine: "t_cancelled (y_task (pool' ! p)) \<and> unsettled (y_task y) = {} \<and>
       (\<forall>sid t. snd (begin_poll sid t (y_task y)) = None)"
    if g: "snd (reg_Get s tid now r) = Inr p" and st: "fan_step\<^sup>*\<^sup>* (pool' ! p) y" for p y
  proof -
    from g obtain e where e: "gm_get (rg_byID r) tid = Some e" "re_sessionID e = s" "re_task e = p"
      by (auto simp: reg_Get_Inr)
    then have p: "p \<in> set ps" "p < length pool" using ps inv(3) by (auto simp: pool_ok_def)
    have c: "t_cancelled (y_task (pool' ! p))" unfolding p' using cancelAll_cancelled p by blast
    have "reaches fan_started fan_step (pool' ! p)"
      using cancelAll_reaches [of pool clk ps] inv(3) p(2) p' by (simp add: pool_ok_def)
    then have "t_cancelled (y_task y) \<and> fan_inv y"
      using steps_cancelled [OF st c] fan.inv_reachable by blast
    then show ?thesis using c by (auto simp: fan_inv_def begin_poll_def split: option.split)
  qed
  have other: "pool' ! p = pool ! p" if "s' \<noteq> s" "snd (reg_Get s' tid now r) = Inr p" for s' p
  proof -
    from that obtain e where e: "gm_get (rg_byID r) tid = Some e" "re_sessionID e = s'" "re_task e = p"
      by (auto simp: reg_Get_Inr)
    have "p \<notin> set ps"
    proof
      assume "p \<in> set ps"
      then obtain k e' where e': "gm_get (rg_byID r) k = Some e'" "re_sessionID e' = s" "re_task e' = p"
        using ps by auto
      then have "k = tid" using pool_ok_inj [OF inv(3) e'(1) e(1)] e by simp
      with e e' that(1) show False by simp
    qed
    then show ?thesis by (simp add: p' cancelAll_other)
  qed
  have "snd (reg_Get s' tid now r') = (if s' = s then Inl ErrNoTask else snd (reg_Get s' tid now r))" for s'
    by (auto simp: reg_Get_def spec(3) split: option.split)
  then have "\<forall>s'. s' \<noteq> s \<longrightarrow> snd (reg_Get s' tid now r') = snd (reg_Get s' tid now r) \<and>
       (\<forall>p. snd (reg_Get s' tid now r) = Inr p \<longrightarrow> pool' ! p = pool ! p)"
    and "snd (reg_Get s tid now r') = Inl ErrNoTask"
    using other by simp_all
  with mine show ?thesis by blast
qed

theorem CancelSession_stops_its_polls_witness:
  "t_cancelled (y_task (snd (CancelSession ''u'' (\<lambda>_. 9) demo_reg) ! 0))"
proof -
  obtain r pool where rp: "demo_reg = (r, pool)" by fastforce
  obtain r' pool' where c: "CancelSession ''u'' (\<lambda>_. 9) (r, pool) = (r', pool')" by fastforce
  have "snd (reg_Get ''u'' (base64url ''a'') 7 r) = Inr 0"
    using rp unfolding demo_reg_eq by (auto simp: reg_Get_def)
  with CancelSession_stops_its_polls [OF _ c, of "base64url ''a''" 7] demo_reg_reached rp c
  show ?thesis by auto
qed

text \<open>
  Starting a poll registers it and makes room for it: the new task is the one its session gets
  under the new identifier, before it are listed the last three of the session's tasks that someone
  has asked about within \<open>TaskTTL\<close>, and those of them that had to make room are cancelled.
\<close>

theorem Start_registers_and_trims:
  fixes pool :: "'d pool"
  assumes "reaches reg_start reg_step (r, pool)" and "gm_get (rg_byID r) (base64url b) = None"
    and "reg_Start s sources op (Some b) now1 now2 now3 clk (r, pool) = ((r', pool'), Inr p)"
  shows "let fresh = filter (\<lambda>k. \<exists>e. gm_get (rg_byID r) k = Some e \<and> now2 - TaskTTL \<le> re_touched e) (sess_ids r s)
    in p = length pool \<and> length pool' = Suc (length pool) \<and>
       snd (reg_Get s (base64url b) now r') = Inr p \<and>
       sess_ids r' s = drop (length fresh - 3) fresh @ [base64url b] \<and>
       (\<forall>k q. k \<in> set fresh \<and> k \<notin> set (sess_ids r' s) \<and> snd (reg_Get s k now r) = Inr q \<longrightarrow>
          t_cancelled (y_task (pool' ! q)))"
proof -
  have inv: "reg_inv (r, pool)" by (rule reg.inv_reachable [OF assms(1)])
  then have ok: "reg_ok r" "pool_ok r pool" by (simp_all add: reg_inv_def)
  from assms(3) obtain task :: "'d Task" and r1 dropped stale where
    t: "(fan_Start (base64url b) sources op now1 :: _ + 'd Task) = Inr task"
    and sw: "reg_sweepLocked now2 r = (r1, dropped)"
    and tr: "trimLocked s (r1\<lparr>rg_byID := gm_put (base64url b)
             \<lparr>re_task = length pool, re_sessionID = s, re_touched = now3\<rparr> (rg_byID r1),
             rg_bySess := gm_put s (sess_ids r1 s @ [base64url b]) (rg_bySess r1)\<rparr>) = (r', stale)"
    and p': "pool' = cancelAll clk stale (pool @ [fan_of task])" and p: "p = length pool"
    by (cases rule: reg_Start_parts) auto
  note spec = reg_Start_spec [OF inv assms(2) t sw tr]
  let ?fresh = "filter (\<lambda>k. \<exists>e. gm_get (rg_byID r) k = Some e \<and> now2 - TaskTTL \<le> re_touched e) (sess_ids r s)"
  have live: "gm_get (rg_byID r1) k \<noteq> None \<longleftrightarrow>
      (\<exists>e. gm_get (rg_byID r) k = Some e \<and> now2 - TaskTTL \<le> re_touched e)" for k
    by (auto simp: sweepLocked_spec(2) [OF ok(1) sw] split: option.split)
  have r1: "sess_ids r1 s = ?fresh"
    unfolding sweepLocked_spec(3) [OF ok(1) sw] by (rule filter_cong [OF refl live])
  have n: "Suc (length ?fresh) - MaxPerSession = length ?fresh - 3" by (simp add: MaxPerSession_def)
  have ids: "sess_ids r' s = drop (length ?fresh - 3) ?fresh @ [base64url b]"
    using spec(2) by (simp only: r1 n)
  have stopped: "t_cancelled (y_task (pool' ! q))"
    if k: "k \<in> set ?fresh" "k \<notin> set (sess_ids r' s)" "snd (reg_Get s k now r) = Inr q" for k q
  proof -
    from k(3) obtain e where e: "gm_get (rg_byID r) k = Some e" "re_task e = q" by (auto simp: reg_Get_Inr)
    have old: "k \<in> set (take (length ?fresh - 3) ?fresh)"
      using in_take_or_drop [OF k(1), of "length ?fresh - 3"] k(2) unfolding ids by simp
    have "gm_get (rg_byID r1) k = Some e"
    proof -
      have "now2 - TaskTTL \<le> re_touched e" using k(1) e(1) by simp
      then show ?thesis by (simp add: sweepLocked_spec(2) [OF ok(1) sw] e(1))
    qed
    with old e(2) have "q \<in> set stale" unfolding spec(4) r1 n by blast
    moreover have "q < length pool" using ok(2) e by (auto simp: pool_ok_def)
    ultimately show ?thesis unfolding p' by (intro cancelAll_cancelled) auto
  qed
  then have cancelled: "\<forall>k q. k \<in> set ?fresh \<and> k \<notin> set (sess_ids r' s) \<and> snd (reg_Get s k now r) = Inr q \<longrightarrow>
      t_cancelled (y_task (pool' ! q))" by blast
  have "length pool' = Suc (length pool)" using p' by simp
  moreover have "snd (reg_Get s (base64url b) now r') = Inr p" using spec(3) p by (simp add: reg_Get_Inr)
  ultimately show ?thesis unfolding Let_def using p ids cancelled by (intro conjI)
qed

theorem Start_registers_and_trims_witness:
  "\<exists>r' pool'. reg_Start ''v'' [one_source] demo_fan_options (Some ''b'') 7 7 7 (\<lambda>_. 9) demo_reg =
     ((r', pool'), Inr 1) \<and> sess_ids r' ''v'' = [base64url ''b'']"
proof -
  obtain r pool where rp: "demo_reg = (r, pool)" by fastforce
  obtain r' pool' res where s: "reg_Start ''v'' [one_source] demo_fan_options (Some ''b'') 7 7 7 (\<lambda>_. 9) (r, pool) =
      ((r', pool'), res)" by (metis prod.exhaust)
  have f: "gm_get (rg_byID r) (base64url ''b'') = None"
    using rp unfolding demo_reg_eq by (auto simp: b64_digit_def b64_alphabet_def)
  have l: "length pool = 1" "sess_ids r ''v'' = []" using rp unfolding demo_reg_eq by (auto simp: sess_ids_def)
  have "res = Inr 1"
    using s l(1) by (auto simp: reg_Start_def newTaskID_def fan_Start_def one_source_def Let_def split: prod.splits)
  with Start_registers_and_trims [of r pool "''b''" "''v''" "[one_source]" demo_fan_options 7 7 7 "\<lambda>_. 9" r' pool' 1]
    demo_reg_reached rp f s l show ?thesis by (auto simp: Let_def)
qed

text \<open>
  What \<open>Start\<close> sweeps away it does not cancel: a task that went quiet for longer than \<open>TaskTTL\<close> is
  forgotten by the next \<open>Start\<close> of any session while it is neither cancelled nor known any more, so
  that ending its session does not reach it.
\<close>

lemma Start_forgets_without_cancelling:
  "\<exists>r pool. reaches reg_start reg_step (r, pool :: nat pool) \<and> gm_get (rg_byID r) (base64url ''a'') = None \<and>
     \<not> t_cancelled (y_task (pool ! 0)) \<and> unsettled (y_task (pool ! 0)) \<noteq> {} \<and>
     snd (CancelSession ''u'' clk (r, pool)) ! 0 = pool ! 0"
proof -
  let ?now = "600000000006"
  let ?rp = "fst (reg_Start ''v'' [one_source] demo_fan_options (Some ''b'') ?now ?now ?now (\<lambda>_. 9) demo_reg)"
  have f: "base64url ''b'' \<noteq> base64url ''a''" by (simp add: b64_digit_def b64_alphabet_def)
  have "reg_step demo_reg ?rp"
    by (rule gs_start [of demo_reg "''b''" "''v''" "[one_source]" demo_fan_options ?now ?now ?now "\<lambda>_. 9"])
      (use f in \<open>simp_all add: demo_reg_eq prod_eq_iff\<close>)
  then have reach: "reaches reg_start reg_step ?rp" by (rule reaches_step [OF demo_reg_reached])
  let ?r = "\<lparr>rg_byID = [(base64url ''b'', \<lparr>re_task = 1, re_sessionID = ''v'', re_touched = ?now\<rparr>)],
      rg_bySess = [(''v'', [base64url ''b''])]\<rparr>"
  let ?pool = "[fan_of (one_task\<lparr>t_ID := base64url ''a''\<rparr>),
      fan_of (one_task\<lparr>t_ID := base64url ''b'', t_started := ?now\<rparr>)]"
  have eq: "?rp = (?r, ?pool)"
    by (simp add: demo_reg_eq reg_Start_def newTaskID_def fan_Start_def one_source_def reg_sweepLocked_def
        time_add_def TaskTTL_def minute_def dropLocked_def gm_del_def Let_def
        gm_put_def sess_ids_def trimLocked_def MaxPerSession_def cancelAll_def one_task_def)
  have "reaches reg_start reg_step (?r, ?pool)" using reach by (simp only: eq)
  moreover have "unsettled (one_task\<lparr>t_ID := i\<rparr>) \<noteq> {}" for i
    by (auto simp: unsettled_def one_task_fields new_source_def Terminal_def)
  moreover have "gm_get (rg_byID ?r) (base64url ''a'') = None" using f by simp
  moreover have "snd (CancelSession ''u'' clk (?r, ?pool)) ! 0 = ?pool ! 0"
    by (simp add: CancelSession_def sess_ids_def cancelAll_def)
  moreover have "\<not> t_cancelled (y_task (?pool ! 0)) \<and> unsettled (y_task (?pool ! 0)) = unsettled (one_task\<lparr>t_ID := base64url ''a''\<rparr>)"
    by (simp add: fan_of_def one_task_fields)
  ultimately show ?thesis by metis
qed

end
