(* ===== verification/AccountViews.thy ===== *)
theory AccountViews
  imports Go_Strings
begin

text \<open>
  \<open>internal/account/views.go\<close>: which collections each screen shows and where new records go. Both
  choices are Go maps that may be nil (\<open>None\<close>); a view that is absent from the map was never chosen,
  a view with an empty list was chosen to show nothing.
\<close>

subsection \<open>References to collections\<close>

record SourceRef =
  sr_AccountID :: string
  sr_Collection :: string

definition normalizePath :: "string \<Rightarrow> string" where
  "normalizePath path =
     (let path = TrimSpace path
      in if path = [] then []
         else
           (let path = (if \<not> HasPrefix path ''/'' then ''/'' @ path else path);
                path = (if \<not> HasSuffix path ''/'' then path @ ''/'' else path)
            in path))"

definition sr_Key :: "SourceRef \<Rightarrow> string" where
  "sr_Key r = sr_AccountID r @ ''|'' @ normalizePath (sr_Collection r)"

record Views =
  vw_Selected :: "(string, SourceRef list) gomap option"
  vw_Defaults :: "(string, SourceRef) gomap option"

definition no_views :: Views where
  "no_views = \<lparr>vw_Selected = None, vw_Defaults = None\<rparr>"

text \<open>A lookup in a map that may be nil.\<close>

definition nil_get :: "('k, 'v) gomap option \<Rightarrow> 'k \<Rightarrow> 'v option" where
  "nil_get m k = (case m of None \<Rightarrow> None | Some m \<Rightarrow> gm_get m k)"

definition made :: "('k, 'v) gomap option \<Rightarrow> ('k, 'v) gomap" where
  "made m = (case m of None \<Rightarrow> [] | Some m \<Rightarrow> m)"

subsection \<open>Operations\<close>

definition vw_Selection :: "Views \<Rightarrow> string \<Rightarrow> SourceRef list \<times> bool" where
  "vw_Selection v view =
     (case nil_get (vw_Selected v) view of None \<Rightarrow> ([], False) | Some refs \<Rightarrow> (refs, True))"

fun select_loop :: "SourceRef list \<Rightarrow> string list \<Rightarrow> SourceRef list \<Rightarrow> SourceRef list" where
  "select_loop [] seen normalised = normalised"
| "select_loop (ref # refs) seen normalised =
     (let ref = ref\<lparr>sr_Collection := normalizePath (sr_Collection ref)\<rparr>
      in if sr_AccountID ref = [] \<or> sr_Collection ref = [] \<or> sr_Key ref \<in> set seen
         then select_loop refs seen normalised
         else select_loop refs (sr_Key ref # seen) (normalised @ [ref]))"

definition vw_Select :: "string \<Rightarrow> SourceRef list \<Rightarrow> Views \<Rightarrow> Views" where
  "vw_Select view refs v =
     v\<lparr>vw_Selected := Some (gm_put view (select_loop refs [] []) (made (vw_Selected v)))\<rparr>"

definition vw_Default :: "Views \<Rightarrow> string \<Rightarrow> SourceRef \<times> bool" where
  "vw_Default v view =
     (case nil_get (vw_Defaults v) view of
        None \<Rightarrow> (\<lparr>sr_AccountID = [], sr_Collection = []\<rparr>, False)
      | Some ref \<Rightarrow> (ref, sr_AccountID ref \<noteq> [] \<and> sr_Collection ref \<noteq> []))"

definition vw_SetDefault :: "string \<Rightarrow> SourceRef \<Rightarrow> Views \<Rightarrow> Views" where
  "vw_SetDefault view ref v =
     (let ref = ref\<lparr>sr_Collection := normalizePath (sr_Collection ref)\<rparr>
      in if sr_AccountID ref = [] \<or> sr_Collection ref = [] then v
         else v\<lparr>vw_Defaults := Some (gm_put view ref (made (vw_Defaults v)))\<rparr>)"

text \<open>A deep copy is the value itself here; only the order of the maps may differ.\<close>

definition vw_Clone :: "Views \<Rightarrow> Views" where
  "vw_Clone v = \<lparr>vw_Selected = map_option (map (\<lambda>(view, refs). (view, refs))) (vw_Selected v),
     vw_Defaults = map_option (map (\<lambda>(view, ref). (view, ref))) (vw_Defaults v)\<rparr>"

definition ref_matches :: "SourceRef \<Rightarrow> SourceRef \<Rightarrow> bool" where
  "ref_matches ref r \<longleftrightarrow> sr_AccountID r = sr_AccountID ref \<and>
     normalizePath (sr_Collection r) = sr_Collection ref"

definition vw_PurgeCollection :: "SourceRef \<Rightarrow> Views \<Rightarrow> Views" where
  "vw_PurgeCollection ref v =
     (let ref = ref\<lparr>sr_Collection := normalizePath (sr_Collection ref)\<rparr>
      in \<lparr>vw_Selected = map_option (map (\<lambda>(view, refs).
              let out = filter (\<lambda>r. \<not> ref_matches ref r) refs
              in (view, if length out \<noteq> length refs then out else refs))) (vw_Selected v),
          vw_Defaults = map_option (filter (\<lambda>(view, def). \<not> ref_matches ref def)) (vw_Defaults v)\<rparr>)"

subsection \<open>Lemmas\<close>

lemma HasPrefix_slash: "HasPrefix p ''/'' \<longleftrightarrow> p \<noteq> [] \<and> hd p = CHR ''/''"
  by (cases p) (auto simp: HasPrefix_def)

lemma HasSuffix_slash: "HasSuffix p ''/'' \<longleftrightarrow> p \<noteq> [] \<and> last p = CHR ''/''"
  by (cases p rule: rev_cases) (auto simp: HasSuffix_def suffix_def)

lemma TrimSpace_slashes:
  assumes "p \<noteq> []" and "hd p = CHR ''/''" and "last p = CHR ''/''"
  shows "TrimSpace p = p"
proof (cases p)
  case (Cons c q)
  then have c: "c = CHR ''/''" using assms by simp
  show ?thesis
  proof (cases q rule: rev_cases)
    case Nil
    then show ?thesis using Cons c by simp
  next
    case (snoc s d)
    then show ?thesis using Cons c assms(3) TrimSpace_between_slashes [of s] by simp
  qed
qed (use assms in simp)

text \<open>A normalised path is empty or begins and ends with a slash, and is normalised for good.\<close>

lemma normalizePath_shape:
  "normalizePath p = [] \<or> (hd (normalizePath p) = CHR ''/'' \<and> last (normalizePath p) = CHR ''/'')"
proof (cases "TrimSpace p")
  case (Cons c q)
  let ?w = "TrimSpace p"
  let ?a = "if \<not> HasPrefix ?w ''/'' then ''/'' @ ?w else ?w"
  let ?b = "if \<not> HasSuffix ?a ''/'' then ?a @ ''/'' else ?a"
  have a: "?a \<noteq> []" "hd ?a = CHR ''/''" using Cons by (simp_all add: HasPrefix_slash)
  have "hd ?b = CHR ''/''" using a by (simp add: hd_append)
  moreover have "last ?b = CHR ''/''" using a(1) HasSuffix_slash [of ?a] by auto
  moreover have "normalizePath p = ?b" using Cons by (simp add: normalizePath_def Let_def)
  ultimately show ?thesis by simp
qed (simp add: normalizePath_def)

lemma normalizePath_idem [simp]: "normalizePath (normalizePath p) = normalizePath p"
proof (cases "normalizePath p = []")
  case True
  then show ?thesis by (simp add: normalizePath_def)
next
  case False
  with normalizePath_shape [of p] have s: "hd (normalizePath p) = CHR ''/''" "last (normalizePath p) = CHR ''/''"
    by simp_all
  with False have "TrimSpace (normalizePath p) = normalizePath p" by (intro TrimSpace_slashes)
  with False s show ?thesis
    by (subst normalizePath_def) (simp add: Let_def HasPrefix_slash HasSuffix_slash)
qed

lemma nil_get_made: "nil_get m k = gm_get (made m) k"
  by (simp add: nil_get_def made_def split: option.split)

lemma select_loop_spec:
  assumes "set seen = sr_Key ` set acc" and "distinct (map sr_Key acc)"
    and "\<forall>r \<in> set acc. sr_AccountID r \<noteq> [] \<and> sr_Collection r \<noteq> [] \<and> normalizePath (sr_Collection r) = sr_Collection r"
  shows "distinct (map sr_Key (select_loop refs seen acc)) \<and>
    (\<forall>r \<in> set (select_loop refs seen acc). sr_AccountID r \<noteq> [] \<and> sr_Collection r \<noteq> [] \<and>
       normalizePath (sr_Collection r) = sr_Collection r) \<and>
    sr_Key ` set (select_loop refs seen acc) = sr_Key ` set acc \<union>
      sr_Key ` {r \<in> set refs. sr_AccountID r \<noteq> [] \<and> normalizePath (sr_Collection r) \<noteq> []}"
  using assms
proof (induction refs seen acc rule: select_loop.induct)
  case (2 ref refs seen acc)
  let ?ref = "ref\<lparr>sr_Collection := normalizePath (sr_Collection ref)\<rparr>"
  have k: "sr_Key ?ref = sr_Key ref" by (simp add: sr_Key_def)
  let ?keys = "\<lambda>rs. sr_Key ` {r \<in> set rs. sr_AccountID r \<noteq> [] \<and> normalizePath (sr_Collection r) \<noteq> []}"
  have keys: "?keys (ref # refs) =
      (if sr_AccountID ref \<noteq> [] \<and> normalizePath (sr_Collection ref) \<noteq> []
       then insert (sr_Key ref) (?keys refs) else ?keys refs)" by auto
  show ?case
  proof (cases "sr_AccountID ?ref = [] \<or> sr_Collection ?ref = [] \<or> sr_Key ?ref \<in> set seen")
    case True
    then have step: "select_loop (ref # refs) seen acc = select_loop refs seen acc" by (simp add: Let_def)
    have "sr_Key ` set acc \<union> ?keys (ref # refs) = sr_Key ` set acc \<union> ?keys refs"
      using True k 2(3) unfolding keys by auto
    then show ?thesis unfolding step using 2(1) [OF refl True 2(3-5)] by (simp only:) blast
  next
    case False
    have "set (sr_Key ?ref # seen) = sr_Key ` set (acc @ [?ref])" using 2(3) by simp
    moreover have "distinct (map sr_Key (acc @ [?ref]))" using False 2(3,4) by simp
    moreover have "\<forall>r \<in> set (acc @ [?ref]). sr_AccountID r \<noteq> [] \<and> sr_Collection r \<noteq> [] \<and>
        normalizePath (sr_Collection r) = sr_Collection r" using False 2(5) by auto
    ultimately have ih: "distinct (map sr_Key (select_loop refs (sr_Key ?ref # seen) (acc @ [?ref]))) \<and>
        (\<forall>r \<in> set (select_loop refs (sr_Key ?ref # seen) (acc @ [?ref])). sr_AccountID r \<noteq> [] \<and>
           sr_Collection r \<noteq> [] \<and> normalizePath (sr_Collection r) = sr_Collection r) \<and>
        sr_Key ` set (select_loop refs (sr_Key ?ref # seen) (acc @ [?ref])) =
          sr_Key ` set (acc @ [?ref]) \<union> ?keys refs"
      by (rule 2(2) [OF refl False])
    have step: "select_loop (ref # refs) seen acc = select_loop refs (sr_Key ?ref # seen) (acc @ [?ref])"
      using False by (simp add: Let_def)
    have "sr_Key ` set acc \<union> ?keys (ref # refs) = sr_Key ` set (acc @ [?ref]) \<union> ?keys refs"
      using False k unfolding keys by auto
    then show ?thesis unfolding step using ih by (metis (no_types, lifting))
  qed
qed simp

lemma shrink_or_keep: "(if length (filter P xs) \<noteq> length xs then filter P xs else xs) = filter P xs"
proof (cases "\<forall>x \<in> set xs. P x")
  case False
  then obtain x where "x \<in> set xs" "\<not> P x" by blast
  then have "length (filter P xs) < length xs" by (rule length_filter_less)
  then show ?thesis by simp
qed simp

lemma gm_get_map_val: "gm_get (map (\<lambda>(k, x). (k, f x)) m) k = map_option f (gm_get m k)"
  by (induction m) auto

lemma purged_selected:
  "nil_get (vw_Selected (vw_PurgeCollection ref v)) view =
     map_option (filter (\<lambda>r. \<not> ref_matches (ref\<lparr>sr_Collection := normalizePath (sr_Collection ref)\<rparr>) r))
       (nil_get (vw_Selected v) view)"
  unfolding vw_PurgeCollection_def Let_def shrink_or_keep nil_get_def
  by (cases "vw_Selected v") (simp_all add: gm_get_map_val)

lemma purged_defaults:
  assumes "gm_wf (made (vw_Defaults v))"
  shows "nil_get (vw_Defaults (vw_PurgeCollection ref v)) view =
    (case nil_get (vw_Defaults v) view of
       None \<Rightarrow> None
     | Some d \<Rightarrow> if ref_matches (ref\<lparr>sr_Collection := normalizePath (sr_Collection ref)\<rparr>) d then None else Some d)"
  using assms gm_get_filter [of "made (vw_Defaults v)" "\<lambda>_ d. \<not> ref_matches (ref\<lparr>sr_Collection := normalizePath (sr_Collection ref)\<rparr>) d" view]
  by (auto simp: vw_PurgeCollection_def nil_get_def made_def Let_def split: option.splits)

subsection \<open>Properties\<close>

text \<open>
  What a person chose for a screen is what is stored: after \<open>Select\<close> the view reads as chosen,
  even with nothing ticked; each usable reference is there once, with its path normalised, and
  nothing else; what every other view shows is unchanged.
\<close>

theorem Select_then_Selection:
  "snd (vw_Selection (vw_Select view refs v) view) \<and>
   distinct (map sr_Key (fst (vw_Selection (vw_Select view refs v) view))) \<and>
   sr_Key ` set (fst (vw_Selection (vw_Select view refs v) view)) =
     sr_Key ` {r \<in> set refs. sr_AccountID r \<noteq> [] \<and> normalizePath (sr_Collection r) \<noteq> []} \<and>
   fst (vw_Selection (vw_Select view refs v) view) =
     map (\<lambda>r. r\<lparr>sr_Collection := normalizePath (sr_Collection r)\<rparr>)
       (fst (vw_Selection (vw_Select view refs v) view)) \<and>
   (\<forall>other. other \<noteq> view \<longrightarrow> vw_Selection (vw_Select view refs v) other = vw_Selection v other)"
proof -
  have sel: "fst (vw_Selection (vw_Select view refs v) view) = select_loop refs [] []"
    and other: "\<forall>other. other \<noteq> view \<longrightarrow> vw_Selection (vw_Select view refs v) other = vw_Selection v other"
    by (simp_all add: vw_Selection_def vw_Select_def nil_get_made made_def)
  have chosen: "snd (vw_Selection (vw_Select view refs v) view)"
    by (simp add: vw_Selection_def vw_Select_def nil_get_made made_def)
  note spec = select_loop_spec [of "[]" "[]" refs]
  have "map (\<lambda>r. r\<lparr>sr_Collection := normalizePath (sr_Collection r)\<rparr>) (select_loop refs [] []) =
      select_loop refs [] []"
    using spec by (intro map_idI) simp
  with spec chosen other sel show ?thesis by (intro conjI) simp_all
qed

theorem Select_then_Selection_witness:
  "vw_Selection (vw_Select ''agenda'' [] no_views) ''agenda'' = ([], True) \<and>
   vw_Selection no_views ''agenda'' = ([], False)"
proof -
  have "snd (vw_Selection (vw_Select ''agenda'' [] no_views) ''agenda'')"
    "sr_Key ` set (fst (vw_Selection (vw_Select ''agenda'' [] no_views) ''agenda'')) = {}"
    using Select_then_Selection [of "''agenda''" "[]" no_views] by simp_all
  then have "vw_Selection (vw_Select ''agenda'' [] no_views) ''agenda'' = ([], True)"
    by (simp add: prod_eq_iff)
  then show ?thesis by (simp add: vw_Selection_def nil_get_def no_views_def)
qed

text \<open>
  A removed collection is forgotten everywhere and nothing else is: after \<open>PurgeCollection\<close> no
  view shows it or writes to it, however its path was spelled, every other reference keeps its place,
  and no view changes between chosen and never chosen.
\<close>

theorem PurgeCollection_forgets:
  assumes "gm_wf (made (vw_Defaults v))"
  shows "snd (vw_Selection (vw_PurgeCollection ref v) view) = snd (vw_Selection v view) \<and>
    fst (vw_Selection (vw_PurgeCollection ref v) view) =
      filter (\<lambda>r. \<not> (sr_AccountID r = sr_AccountID ref \<and>
        normalizePath (sr_Collection r) = normalizePath (sr_Collection ref))) (fst (vw_Selection v view)) \<and>
    (\<forall>d. nil_get (vw_Defaults (vw_PurgeCollection ref v)) view = Some d \<longleftrightarrow>
       nil_get (vw_Defaults v) view = Some d \<and> \<not> (sr_AccountID d = sr_AccountID ref \<and>
         normalizePath (sr_Collection d) = normalizePath (sr_Collection ref)))"
  using purged_defaults [OF assms, of ref view]
  by (auto simp: vw_Selection_def purged_selected ref_matches_def split: option.splits)

theorem PurgeCollection_forgets_witness:
  "fst (vw_Selection (vw_PurgeCollection \<lparr>sr_AccountID = ''a'', sr_Collection = ''/c''\<rparr>
     \<lparr>vw_Selected = Some [(''agenda'', [\<lparr>sr_AccountID = ''a'', sr_Collection = ''/c''\<rparr>])], vw_Defaults = None\<rparr>)
     ''agenda'') = []"
  using PurgeCollection_forgets [of "\<lparr>vw_Selected = Some [(''agenda'', [\<lparr>sr_AccountID = ''a'', sr_Collection = ''/c''\<rparr>])],
      vw_Defaults = None\<rparr>" "\<lparr>sr_AccountID = ''a'', sr_Collection = ''/c''\<rparr>" "''agenda''"]
  by (simp add: made_def vw_Selection_def nil_get_def)

end
