(* ===== verification/Crypto.thy ===== *)
theory Crypto
  imports Go_Strings Go_Encoding "HOL-Library.Word"
begin

text \<open>
  \<open>internal/crypto\<close>: sealing under a key, password verifiers, key wrapping, the escrow scheme, bearer
  tokens and the server key file.

  The primitives come from Go's crypto packages and \<open>golang.org/x/crypto\<close>: AES-GCM, Argon2id, X25519,
  HKDF and SHA-256 are the fields of the record \<open>primitives\<close>, an argument of every definition that
  calls one. \<open>primitives_ok\<close> says what their documentation promises: opening undoes sealing, a GCM
  tag has 16 bytes, the two sides of a key agreement arrive at one secret, outputs have the length
  asked for. Randomness is an argument too: \<open>None\<close> when the system's source fails, else the bytes it
  yields. The overwriting of temporaries by \<open>Zero\<close> has no effect on values and is left out.
\<close>

subsection \<open>Keys and random bytes\<close>

type_synonym bytes = string
type_synonym entropy = "(nat \<Rightarrow> char) option"

datatype crypto_error = ErrDecrypt | ErrKeySize | ErrRandom | ErrRandomLength | ErrParams | ErrSalt
  | ErrMasterPasswordTooShort | ErrWrongMasterPassword | ErrNotConfigured | ErrPublicKey | ErrAgreement
  | ErrServerKeyCorrupt | ErrNotExist | ErrExist | ErrIO

type_synonym 'a cresult = "crypto_error + 'a"

definition KeyLen :: nat where "KeyLen = 32"
definition SaltLen :: nat where "SaltLen = 16"
definition NonceLen :: nat where "NonceLen = 12"
definition TokenLen :: nat where "TokenLen = 32"
definition gcm_overhead :: nat where "gcm_overhead = 16"

lemmas length_defs = KeyLen_def SaltLen_def NonceLen_def TokenLen_def gcm_overhead_def

definition rand_Read :: "entropy \<Rightarrow> nat \<Rightarrow> bytes option" where
  "rand_Read e n = map_option (\<lambda>f. map f [0..<n]) e"

definition Random :: "entropy \<Rightarrow> int \<Rightarrow> bytes cresult" where
  "Random e n =
     (if n \<le> 0 then Inl ErrRandomLength
      else case rand_Read e (nat n) of None \<Rightarrow> Inl ErrRandom | Some b \<Rightarrow> Inr b)"

definition NewSalt :: "entropy \<Rightarrow> bytes cresult" where "NewSalt e = Random e (int SaltLen)"
definition NewDEK :: "entropy \<Rightarrow> bytes cresult" where "NewDEK e = Random e (int KeyLen)"

text \<open>\<open>Zero\<close> on a slice, and the copy that survives it.\<close>

definition Zero :: "bytes \<Rightarrow> bytes" where "Zero b = replicate (length b) (CHR 0x00)"
definition key_Clone :: "bytes option \<Rightarrow> bytes option" where "key_Clone k = k"

record primitives =
  p_gcm_seal :: "bytes \<Rightarrow> bytes \<Rightarrow> bytes \<Rightarrow> bytes \<Rightarrow> bytes"
  p_gcm_open :: "bytes \<Rightarrow> bytes \<Rightarrow> bytes \<Rightarrow> bytes \<Rightarrow> bytes option"
  p_argon2 :: "bytes \<Rightarrow> bytes \<Rightarrow> 32 word \<Rightarrow> 32 word \<Rightarrow> 8 word \<Rightarrow> 32 word \<Rightarrow> bytes"
  p_x_public :: "bytes \<Rightarrow> bytes"
  p_x_dh :: "bytes \<Rightarrow> bytes \<Rightarrow> bytes option"
  p_hkdf :: "bytes \<Rightarrow> bytes \<Rightarrow> bytes \<Rightarrow> nat \<Rightarrow> bytes option"
  p_sha256 :: "bytes \<Rightarrow> bytes"

definition primitives_ok :: "primitives \<Rightarrow> bool" where
  "primitives_ok P \<longleftrightarrow>
     (\<forall>k n m a. p_gcm_open P k n (p_gcm_seal P k n m a) a = Some m) \<and>
     (\<forall>k n m a. length (p_gcm_seal P k n m a) = length m + gcm_overhead) \<and>
     (\<forall>w s t m p l. length (p_argon2 P w s t m p l) = unat l) \<and>
     (\<forall>s. length s = 32 \<longrightarrow> length (p_x_public P s) = 32) \<and>
     (\<forall>s t. length s = 32 \<and> length t = 32 \<longrightarrow>
        p_x_dh P s (p_x_public P t) = p_x_dh P t (p_x_public P s) \<and> p_x_dh P s (p_x_public P t) \<noteq> None) \<and>
     (\<forall>s t i n. n \<le> 8160 \<longrightarrow> (\<exists>k. p_hkdf P s t i n = Some k \<and> length k = n))"

subsection \<open>Sealing\<close>

definition aadDEK :: bytes where "aadDEK = ''carrel:dek:v1''"
definition aadState :: bytes where "aadState = ''carrel:state:v1''"
definition aadEscrowP :: bytes where "aadEscrowP = ''carrel:escrow-private:v1''"
definition aadEscrowD :: bytes where "aadEscrowD = ''carrel:escrow-dek:v1''"

definition newAEAD :: "bytes \<Rightarrow> bytes cresult" where
  "newAEAD key = (if length key \<noteq> KeyLen then Inl ErrKeySize else Inr key)"

definition Seal :: "primitives \<Rightarrow> entropy \<Rightarrow> bytes \<Rightarrow> bytes \<Rightarrow> bytes \<Rightarrow> bytes cresult" where
  "Seal P e key plaintext aad =
     (case newAEAD key of
        Inl err \<Rightarrow> Inl err
      | Inr k \<Rightarrow>
          (case rand_Read e NonceLen of
             None \<Rightarrow> Inl ErrRandom
           | Some nonce \<Rightarrow> Inr (nonce @ p_gcm_seal P k nonce plaintext aad)))"

definition Open :: "primitives \<Rightarrow> bytes \<Rightarrow> bytes \<Rightarrow> bytes \<Rightarrow> bytes cresult" where
  "Open P key ciphertext aad =
     (case newAEAD key of
        Inl err \<Rightarrow> Inl err
      | Inr k \<Rightarrow>
          if length ciphertext < NonceLen + gcm_overhead then Inl ErrDecrypt
          else
            (case p_gcm_open P k (take NonceLen ciphertext) (drop NonceLen ciphertext) aad of
               None \<Rightarrow> Inl ErrDecrypt
             | Some plaintext \<Rightarrow> Inr plaintext))"

definition WrapDEK :: "primitives \<Rightarrow> entropy \<Rightarrow> bytes \<Rightarrow> bytes \<Rightarrow> bytes cresult" where
  "WrapDEK P e kek dek = (if length dek \<noteq> KeyLen then Inl ErrKeySize else Seal P e kek dek aadDEK)"

definition UnwrapDEK :: "primitives \<Rightarrow> bytes \<Rightarrow> bytes \<Rightarrow> bytes cresult" where
  "UnwrapDEK P kek wrapped =
     (case Open P kek wrapped aadDEK of
        Inl err \<Rightarrow> Inl err
      | Inr plaintext \<Rightarrow> if length plaintext \<noteq> KeyLen then Inl ErrDecrypt else Inr plaintext)"

definition SealState :: "primitives \<Rightarrow> entropy \<Rightarrow> bytes \<Rightarrow> bytes \<Rightarrow> bytes cresult" where
  "SealState P e serverKey plaintext = Seal P e serverKey plaintext aadState"

definition OpenState :: "primitives \<Rightarrow> bytes \<Rightarrow> bytes \<Rightarrow> bytes cresult" where
  "OpenState P serverKey ciphertext = Open P serverKey ciphertext aadState"

subsection \<open>Tokens\<close>

definition NewToken :: "entropy \<Rightarrow> string cresult" where
  "NewToken e = (case Random e (int TokenLen) of Inl err \<Rightarrow> Inl err | Inr b \<Rightarrow> Inr (base64url b))"

definition HashToken :: "primitives \<Rightarrow> string \<Rightarrow> bytes" where
  "HashToken P token = p_sha256 P token"

text \<open>\<open>subtle.ConstantTimeCompare\<close> is 1 exactly for equal slices.\<close>

definition Equal :: "bytes \<Rightarrow> bytes \<Rightarrow> bool" where "Equal a b \<longleftrightarrow> a = b"

subsection \<open>Passwords\<close>

definition MinPasswordLength :: nat where "MinPasswordLength = 10"
definition MinMasterPasswordLength :: nat where "MinMasterPasswordLength = 16"

record Params =
  pa_Time :: "32 word"
  pa_Memory :: "32 word"
  pa_Threads :: "8 word"
  pa_KeyLen :: "32 word"

definition AuthParams :: Params where
  "AuthParams = \<lparr>pa_Time = 3, pa_Memory = 64 * 1024, pa_Threads = 4, pa_KeyLen = 32\<rparr>"

definition KEKParams :: Params where
  "KEKParams = \<lparr>pa_Time = 3, pa_Memory = 64 * 1024, pa_Threads = 4, pa_KeyLen = 32\<rparr>"

definition MasterParams :: Params where
  "MasterParams = \<lparr>pa_Time = 6, pa_Memory = 256 * 1024, pa_Threads = 4, pa_KeyLen = 32\<rparr>"

definition params_Validate :: "Params \<Rightarrow> bool" where
  "params_Validate p \<longleftrightarrow> \<not> pa_Time p < 1 \<and> \<not> pa_Threads p < 1 \<and>
     \<not> pa_Memory p < 8 * ucast (pa_Threads p) \<and> \<not> pa_KeyLen p < 16"

definition DeriveKey :: "primitives \<Rightarrow> string \<Rightarrow> bytes \<Rightarrow> Params \<Rightarrow> bytes cresult" where
  "DeriveKey P password salt p =
     (if \<not> params_Validate p then Inl ErrParams
      else if length salt < 8 then Inl ErrSalt
      else Inr (p_argon2 P password salt (pa_Time p) (pa_Memory p) (pa_Threads p) (pa_KeyLen p)))"

definition DeriveKEK :: "primitives \<Rightarrow> string \<Rightarrow> bytes \<Rightarrow> bytes cresult" where
  "DeriveKEK P password salt = DeriveKey P password salt KEKParams"

record PasswordHash =
  ph_Params :: Params
  ph_Salt :: bytes
  ph_Hash :: bytes

definition HashPassword :: "primitives \<Rightarrow> entropy \<Rightarrow> string \<Rightarrow> Params \<Rightarrow> PasswordHash cresult" where
  "HashPassword P e password p =
     (case NewSalt e of
        Inl err \<Rightarrow> Inl err
      | Inr salt \<Rightarrow>
          (case DeriveKey P password salt p of
             Inl err \<Rightarrow> Inl err
           | Inr key \<Rightarrow> Inr \<lparr>ph_Params = p, ph_Salt = salt, ph_Hash = key\<rparr>))"

definition HashAuth :: "primitives \<Rightarrow> entropy \<Rightarrow> string \<Rightarrow> PasswordHash cresult" where
  "HashAuth P e password = HashPassword P e password AuthParams"

definition ph_Verify :: "primitives \<Rightarrow> PasswordHash option \<Rightarrow> string \<Rightarrow> bool" where
  "ph_Verify P h password =
     (case h of
        None \<Rightarrow> False
      | Some h \<Rightarrow>
          if ph_Salt h = [] \<or> ph_Hash h = [] then False
          else
            (case DeriveKey P password (ph_Salt h) (ph_Params h) of
               Inl _ \<Rightarrow> False
             | Inr got \<Rightarrow> Equal got (ph_Hash h)))"

definition VerifyAuth :: "primitives \<Rightarrow> string \<Rightarrow> bytes \<Rightarrow> bytes \<Rightarrow> bool" where
  "VerifyAuth P password salt hash =
     ph_Verify P (Some \<lparr>ph_Params = AuthParams, ph_Salt = salt, ph_Hash = hash\<rparr>) password"

subsection \<open>Escrow\<close>

definition escrowHKDFInfo :: bytes where "escrowHKDFInfo = ''carrel:escrow:x25519:v1''"

record Escrow =
  es_PublicKey :: bytes
  es_SealedKey :: bytes
  es_MasterSalt :: bytes
  es_MasterParams :: Params

text \<open>X25519 keys of the standard library: a private or public key is any 32 bytes.\<close>

definition x_GenerateKey :: "entropy \<Rightarrow> bytes cresult" where
  "x_GenerateKey e = (case rand_Read e 32 of None \<Rightarrow> Inl ErrRandom | Some b \<Rightarrow> Inr b)"

definition x_NewPrivateKey :: "bytes \<Rightarrow> bytes option" where
  "x_NewPrivateKey b = (if length b = 32 then Some b else None)"

definition x_NewPublicKey :: "bytes \<Rightarrow> bytes option" where
  "x_NewPublicKey b = (if length b = 32 then Some b else None)"

definition escrowAAD :: "bytes \<Rightarrow> bytes" where
  "escrowAAD ephPub = aadEscrowD @ ephPub"

definition agree :: "primitives \<Rightarrow> bytes \<Rightarrow> bytes \<Rightarrow> bytes \<Rightarrow> bytes cresult" where
  "agree P priv pub ephPub =
     (case p_x_dh P priv pub of
        None \<Rightarrow> Inl ErrAgreement
      | Some shared \<Rightarrow>
          (case p_hkdf P shared ephPub escrowHKDFInfo KeyLen of
             None \<Rightarrow> Inl ErrAgreement
           | Some key \<Rightarrow> Inr key))"

text \<open>\<open>e1\<close> is the entropy of the ephemeral key, \<open>e2\<close> that of the nonce.\<close>

definition sealToPublic :: "primitives \<Rightarrow> entropy \<Rightarrow> entropy \<Rightarrow> bytes \<Rightarrow> bytes \<Rightarrow> bytes cresult" where
  "sealToPublic P e1 e2 pub plaintext =
     (case x_GenerateKey e1 of
        Inl err \<Rightarrow> Inl err
      | Inr eph \<Rightarrow>
          (let ephPub = p_x_public P eph
           in case agree P eph pub ephPub of
                Inl err \<Rightarrow> Inl err
              | Inr key \<Rightarrow>
                  (case Seal P e2 key plaintext (escrowAAD ephPub) of
                     Inl err \<Rightarrow> Inl err
                   | Inr ciphertext \<Rightarrow> Inr (ephPub @ ciphertext))))"

definition openWithPrivate :: "primitives \<Rightarrow> bytes \<Rightarrow> bytes \<Rightarrow> bytes cresult" where
  "openWithPrivate P priv blob =
     (if length blob < 32 then Inl ErrDecrypt
      else
        (let ephPub = take 32 blob
         in case x_NewPublicKey ephPub of
              None \<Rightarrow> Inl ErrDecrypt
            | Some pub \<Rightarrow>
                (case agree P priv pub ephPub of
                   Inl _ \<Rightarrow> Inl ErrDecrypt
                 | Inr key \<Rightarrow> Open P key (drop 32 blob) (escrowAAD ephPub))))"

definition sealPrivate ::
    "primitives \<Rightarrow> entropy \<Rightarrow> bytes \<Rightarrow> string \<Rightarrow> bytes \<Rightarrow> Params \<Rightarrow> bytes cresult" where
  "sealPrivate P e priv masterPassword salt p =
     (case DeriveKey P masterPassword salt p of
        Inl err \<Rightarrow> Inl err
      | Inr kek \<Rightarrow> Seal P e kek priv aadEscrowP)"

definition unwrapPrivate :: "primitives \<Rightarrow> Escrow option \<Rightarrow> string \<Rightarrow> bytes cresult" where
  "unwrapPrivate P e masterPassword =
     (case e of
        None \<Rightarrow> Inl ErrNotConfigured
      | Some e \<Rightarrow>
          if es_SealedKey e = [] \<or> es_MasterSalt e = [] then Inl ErrNotConfigured
          else
            (case DeriveKey P masterPassword (es_MasterSalt e) (es_MasterParams e) of
               Inl err \<Rightarrow> Inl err
             | Inr kek \<Rightarrow>
                 (case Open P kek (es_SealedKey e) aadEscrowP of
                    Inl _ \<Rightarrow> Inl ErrWrongMasterPassword
                  | Inr raw \<Rightarrow>
                      (case x_NewPrivateKey raw of
                         None \<Rightarrow> Inl ErrWrongMasterPassword
                       | Some priv \<Rightarrow> Inr priv))))"

definition CheckMasterPassword :: "primitives \<Rightarrow> Escrow option \<Rightarrow> string \<Rightarrow> bool" where
  "CheckMasterPassword P e masterPassword =
     (case unwrapPrivate P e masterPassword of Inl _ \<Rightarrow> False | Inr _ \<Rightarrow> True)"

text \<open>The entropy of the key pair, of the salt and of the nonce, in the order they are drawn.\<close>

definition NewEscrowWithParams ::
    "primitives \<Rightarrow> entropy \<Rightarrow> entropy \<Rightarrow> entropy \<Rightarrow> string \<Rightarrow> Params \<Rightarrow> Escrow cresult" where
  "NewEscrowWithParams P e1 e2 e3 masterPassword p =
     (if length (runes masterPassword) < MinMasterPasswordLength then Inl ErrMasterPasswordTooShort
      else
        (case x_GenerateKey e1 of
           Inl err \<Rightarrow> Inl err
         | Inr priv \<Rightarrow>
             (case NewSalt e2 of
                Inl err \<Rightarrow> Inl err
              | Inr salt \<Rightarrow>
                  (case sealPrivate P e3 priv masterPassword salt p of
                     Inl err \<Rightarrow> Inl err
                   | Inr sealed \<Rightarrow>
                       Inr \<lparr>es_PublicKey = p_x_public P priv, es_SealedKey = sealed,
                            es_MasterSalt = salt, es_MasterParams = p\<rparr>))))"

definition NewEscrow :: "primitives \<Rightarrow> entropy \<Rightarrow> entropy \<Rightarrow> entropy \<Rightarrow> string \<Rightarrow> Escrow cresult" where
  "NewEscrow P e1 e2 e3 masterPassword = NewEscrowWithParams P e1 e2 e3 masterPassword MasterParams"

text \<open>The scheme as the method leaves it, and its error.\<close>

definition ChangeMasterPassword ::
    "primitives \<Rightarrow> entropy \<Rightarrow> entropy \<Rightarrow> string \<Rightarrow> string \<Rightarrow> Escrow option \<Rightarrow>
     Escrow option \<times> crypto_error option" where
  "ChangeMasterPassword P e1 e2 oldPassword newPassword e =
     (if length (runes newPassword) < MinMasterPasswordLength then (e, Some ErrMasterPasswordTooShort)
      else
        (case unwrapPrivate P e oldPassword of
           Inl err \<Rightarrow> (e, Some err)
         | Inr priv \<Rightarrow>
             (case NewSalt e1 of
                Inl err \<Rightarrow> (e, Some err)
              | Inr salt \<Rightarrow>
                  (case sealPrivate P e2 priv newPassword salt (es_MasterParams (the e)) of
                     Inl err \<Rightarrow> (e, Some err)
                   | Inr sealed \<Rightarrow>
                       (map_option (\<lambda>e. e\<lparr>es_SealedKey := sealed, es_MasterSalt := salt\<rparr>) e, None)))))"

definition SealDEK :: "primitives \<Rightarrow> entropy \<Rightarrow> entropy \<Rightarrow> Escrow option \<Rightarrow> bytes \<Rightarrow> bytes cresult" where
  "SealDEK P e1 e2 e dek =
     (case e of
        None \<Rightarrow> Inl ErrNotConfigured
      | Some e \<Rightarrow>
          if es_PublicKey e = [] then Inl ErrNotConfigured
          else if length dek \<noteq> KeyLen then Inl ErrKeySize
          else
            (case x_NewPublicKey (es_PublicKey e) of
               None \<Rightarrow> Inl ErrPublicKey
             | Some pub \<Rightarrow> sealToPublic P e1 e2 pub dek))"

definition RecoverDEK :: "primitives \<Rightarrow> Escrow option \<Rightarrow> string \<Rightarrow> bytes \<Rightarrow> bytes cresult" where
  "RecoverDEK P e masterPassword sealedDEK =
     (case unwrapPrivate P e masterPassword of
        Inl err \<Rightarrow> Inl err
      | Inr priv \<Rightarrow>
          (case openWithPrivate P priv sealedDEK of
             Inl err \<Rightarrow> Inl err
           | Inr plaintext \<Rightarrow> if length plaintext \<noteq> KeyLen then Inl ErrDecrypt else Inr plaintext))"

subsection \<open>The server key file\<close>

text \<open>
  What the operating system answers during one call: whether each operation succeeds, what another
  process has written to the file between the first look and the creation, and how many bytes of a
  failing write reach the file. The file is its content, \<open>None\<close> where there is none.
\<close>

record key_io =
  io_mkdir :: bool
  io_read :: bool
  io_between :: "bytes option"
  io_create :: bool
  io_write :: bool
  io_written :: nat
  io_sync :: bool
  io_close :: bool
  io_reread :: bool

definition loadServerKey :: "bool \<Rightarrow> bytes option \<Rightarrow> bytes cresult" where
  "loadServerKey readable file =
     (case file of
        None \<Rightarrow> Inl ErrNotExist
      | Some raw \<Rightarrow>
          if \<not> readable then Inl ErrIO
          else if length raw \<noteq> KeyLen then Inl ErrServerKeyCorrupt
          else Inr raw)"

definition createServerKey :: "key_io \<Rightarrow> entropy \<Rightarrow> bytes option \<Rightarrow> bytes option \<times> bytes cresult" where
  "createServerKey io e file =
     (case Random e (int KeyLen) of
        Inl err \<Rightarrow> (file, Inl err)
      | Inr key \<Rightarrow>
          (case file of
             Some _ \<Rightarrow> (file, Inl ErrExist)
           | None \<Rightarrow>
               if \<not> io_create io then (None, Inl ErrIO)
               else if \<not> io_write io then (Some (take (io_written io) key), Inl ErrIO)
               else if \<not> io_sync io then (Some key, Inl ErrIO)
               else if \<not> io_close io then (Some key, Inl ErrIO)
               else (Some key, Inr key)))"

definition LoadOrCreateServerKey :: "key_io \<Rightarrow> entropy \<Rightarrow> bytes option \<Rightarrow> bytes option \<times> bytes cresult" where
  "LoadOrCreateServerKey io e file =
     (if \<not> io_mkdir io then (file, Inl ErrIO)
      else
        (case loadServerKey (io_read io) file of
           Inr key \<Rightarrow> (file, Inr key)
         | Inl err \<Rightarrow>
             if err \<noteq> ErrNotExist then (file, Inl err)
             else
               (case createServerKey io e (io_between io) of (file, res) \<Rightarrow>
                  if res = Inl ErrExist then (file, loadServerKey (io_reread io) file)
                  else (file, res))))"

subsection \<open>Lemmas\<close>

lemma length_rand_Read: "rand_Read e n = Some b \<Longrightarrow> length b = n"
  by (auto simp: rand_Read_def)

lemma rand_Read_Some: "rand_Read (Some f) n = Some (map f [0..<n])"
  by (simp add: rand_Read_def)

lemma length_Random: "Random e n = Inr b \<Longrightarrow> length b = nat n \<and> 0 < n"
  by (auto simp: Random_def length_rand_Read split: if_splits option.splits)

lemma Random_Some: "0 < n \<Longrightarrow> Random (Some f) n = Inr (map f [0..<nat n])"
  by (simp add: Random_def rand_Read_Some)

named_theorems primitive_laws \<open>what the documentation of the primitives promises\<close>

lemma primitives_okD [primitive_laws]:
  assumes "primitives_ok P"
  shows "p_gcm_open P k n (p_gcm_seal P k n m a) a = Some m"
    and "length (p_gcm_seal P k n m a) = length m + gcm_overhead"
    and "length (p_argon2 P w s t mem par l) = unat l"
  using assms by (simp_all add: primitives_ok_def)

lemma x25519_okD:
  assumes "primitives_ok P" and "length s = 32" and "length t = 32"
  shows "length (p_x_public P s) = 32"
    and "p_x_dh P s (p_x_public P t) = p_x_dh P t (p_x_public P s)"
    and "\<exists>z. p_x_dh P s (p_x_public P t) = Some z"
  using assms by (simp_all add: primitives_ok_def)

lemma hkdf_okD: "primitives_ok P \<Longrightarrow> \<exists>k. p_hkdf P s t i KeyLen = Some k \<and> length k = 32"
  by (simp add: primitives_ok_def KeyLen_def)

lemma Seal_Inr: "Seal P e key m aad = Inr c \<Longrightarrow>
    length key = 32 \<and> (\<exists>nonce. length nonce = 12 \<and> c = nonce @ p_gcm_seal P key nonce m aad)"
  by (auto simp: Seal_def newAEAD_def length_defs dest!: length_rand_Read split: if_splits option.splits)

lemma Open_Seal:
  assumes "primitives_ok P" and "Seal P e key m aad = Inr c"
  shows "Open P key c aad = Inr m"
    and "length c = length m + 28"
proof -
  obtain nonce where n: "length key = 32" "length nonce = 12" "c = nonce @ p_gcm_seal P key nonce m aad"
    using Seal_Inr [OF assms(2)] by blast
  with primitives_okD [OF assms(1)] show "Open P key c aad = Inr m" and "length c = length m + 28"
    by (simp_all add: Open_def newAEAD_def length_defs)
qed

lemma Seal_works: "length key = 32 \<Longrightarrow> \<exists>c. Seal P (Some f) key m aad = Inr c"
  by (simp add: Seal_def newAEAD_def rand_Read_Some KeyLen_def)

lemma Open_errors: "Open P key c aad = Inl err \<Longrightarrow> err = ErrDecrypt \<or> (err = ErrKeySize \<and> length key \<noteq> 32)"
  by (auto simp: Open_def newAEAD_def KeyLen_def split: if_splits option.splits)

lemma profiles_valid:
  "params_Validate AuthParams" "params_Validate KEKParams" "params_Validate MasterParams"
  by (simp_all add: params_Validate_def AuthParams_def KEKParams_def MasterParams_def word_less_nat_alt)

lemma DeriveKey_Inr:
  "DeriveKey P w s p = Inr k \<longleftrightarrow> params_Validate p \<and> 8 \<le> length s \<and>
     k = p_argon2 P w s (pa_Time p) (pa_Memory p) (pa_Threads p) (pa_KeyLen p)"
  by (auto simp: DeriveKey_def)

text \<open>
  A scheme whose private key is \<open>priv\<close> and opens with the master password \<open>mp\<close>.
\<close>

definition escrow_opens :: "primitives \<Rightarrow> Escrow \<Rightarrow> string \<Rightarrow> bytes \<Rightarrow> bool" where
  "escrow_opens P es mp priv \<longleftrightarrow> length priv = 32 \<and> es_PublicKey es = p_x_public P priv \<and>
     unwrapPrivate P (Some es) mp = Inr priv"

lemma unwrap_sealed:
  assumes P: "primitives_ok P" and s: "sealPrivate P e priv mp salt p = Inr sealed"
    and priv: "length priv = 32"
    and es: "es_SealedKey es = sealed" "es_MasterSalt es = salt" "es_MasterParams es = p"
  shows "unwrapPrivate P (Some es) mp = Inr priv"
proof -
  obtain kek where kek: "DeriveKey P mp salt p = Inr kek" and se: "Seal P e kek priv aadEscrowP = Inr sealed"
    using s by (auto simp: sealPrivate_def split: sum.splits)
  have ne: "sealed \<noteq> []" "salt \<noteq> []"
    using Open_Seal(2) [OF P se] priv kek by (auto simp: DeriveKey_Inr)
  with es kek priv Open_Seal(1) [OF P se] show ?thesis
    by (simp add: unwrapPrivate_def x_NewPrivateKey_def)
qed

lemma NewEscrow_opens:
  assumes P: "primitives_ok P" and n: "NewEscrowWithParams P e1 e2 e3 mp p = Inr es"
  shows "\<exists>priv. escrow_opens P es mp priv"
proof -
  obtain priv salt sealed where g: "x_GenerateKey e1 = Inr priv"
    and s: "sealPrivate P e3 priv mp salt p = Inr sealed"
    and es: "es = \<lparr>es_PublicKey = p_x_public P priv, es_SealedKey = sealed, es_MasterSalt = salt,
      es_MasterParams = p\<rparr>"
    using n by (auto simp: NewEscrowWithParams_def split: if_splits sum.splits)
  have "length priv = 32"
    using g by (auto simp: x_GenerateKey_def length_rand_Read split: option.splits)
  with unwrap_sealed [OF P s this] es show ?thesis by (auto simp: escrow_opens_def)
qed

lemma ChangeMasterPassword_opens:
  assumes P: "primitives_ok P" and o: "escrow_opens P es mp priv"
    and c: "ChangeMasterPassword P e1 e2 mp mp' (Some es) = (Some es', None)"
  shows "escrow_opens P es' mp' priv"
proof -
  have u: "unwrapPrivate P (Some es) mp = Inr priv" "length priv = 32" using o by (simp_all add: escrow_opens_def)
  obtain salt sealed where s: "sealPrivate P e2 priv mp' salt (es_MasterParams es) = Inr sealed"
    and es': "es' = es\<lparr>es_SealedKey := sealed, es_MasterSalt := salt\<rparr>"
    using c u(1) by (auto simp: ChangeMasterPassword_def split: if_splits sum.splits)
  from unwrap_sealed [OF P s u(2), of es'] es' o show ?thesis by (simp add: escrow_opens_def)
qed

lemma agree_symmetric:
  assumes P: "primitives_ok P" and l: "length s = 32" "length t = 32"
  shows "\<exists>k. agree P s (p_x_public P t) x = Inr k \<and> agree P t (p_x_public P s) x = Inr k \<and> length k = 32"
proof -
  obtain z where z: "p_x_dh P s (p_x_public P t) = Some z" "p_x_dh P t (p_x_public P s) = Some z"
    using x25519_okD(2,3) [OF P l] by auto
  obtain k where "p_hkdf P z x escrowHKDFInfo KeyLen = Some k" "length k = 32"
    using hkdf_okD [OF P, of z x escrowHKDFInfo] by blast
  with z show ?thesis by (simp add: agree_def)
qed

lemma RecoverDEK_SealDEK:
  assumes P: "primitives_ok P" and o: "escrow_opens P es mp priv"
    and d: "SealDEK P e1 e2 (Some es) dek = Inr deposit"
    and o': "escrow_opens P es' mp' priv"
  shows "RecoverDEK P (Some es') mp' deposit = Inr dek"
proof -
  have pl: "length priv = 32" "es_PublicKey es = p_x_public P priv" using o by (simp_all add: escrow_opens_def)
  have dl: "length dek = 32" and st: "sealToPublic P e1 e2 (p_x_public P priv) dek = Inr deposit"
    using d pl by (auto simp: SealDEK_def x_NewPublicKey_def KeyLen_def split: if_splits)
  obtain eph where g: "x_GenerateKey e1 = Inr eph" using st by (auto simp: sealToPublic_def split: sum.splits)
  have el: "length eph = 32" using g by (auto simp: x_GenerateKey_def length_rand_Read split: option.splits)
  let ?pub = "p_x_public P eph"
  obtain k where k: "agree P eph (p_x_public P priv) ?pub = Inr k" "agree P priv ?pub ?pub = Inr k"
    using agree_symmetric [OF P el pl(1)] by blast
  obtain c where c: "Seal P e2 k dek (escrowAAD ?pub) = Inr c" "deposit = ?pub @ c"
    using st g k(1) by (auto simp: sealToPublic_def Let_def split: sum.splits)
  have "length ?pub = 32" using x25519_okD(1) [OF P el el] .
  with c k(2) Open_Seal(1) [OF P c(1)] have "openWithPrivate P priv deposit = Inr dek"
    by (simp add: openWithPrivate_def x_NewPublicKey_def)
  with o' dl show ?thesis by (simp add: RecoverDEK_def escrow_opens_def KeyLen_def)
qed

text \<open>Primitives that satisfy the laws: sealing appends a tag, the rest pads to the length asked for.\<close>

definition demo_primitives :: primitives where
  "demo_primitives =
     \<lparr>p_gcm_seal = (\<lambda>k n m a. m @ replicate 16 (CHR ''t'')),
      p_gcm_open = (\<lambda>k n c a. if 16 \<le> length c then Some (take (length c - 16) c) else None),
      p_argon2 = (\<lambda>w s t m p l. take (unat l) (w @ s @ replicate (unat l) (CHR ''0''))),
      p_x_public = (\<lambda>s. s), p_x_dh = (\<lambda>s t. Some (replicate 32 (CHR ''z''))),
      p_hkdf = (\<lambda>s t i n. Some (take n (s @ replicate n (CHR ''0'')))),
      p_sha256 = (\<lambda>s. take 32 (s @ replicate 32 (CHR ''0'')))\<rparr>"

lemma demo_primitives_ok: "primitives_ok demo_primitives"
  by (simp add: primitives_ok_def demo_primitives_def gcm_overhead_def) (auto simp: min_def)

subsection \<open>Properties\<close>

text \<open>
  C37. A wrapped data key comes back: unwrapping under the same key-encryption key returns exactly
  the key that was wrapped, whatever nonce was drawn, and whatever is unwrapped under any key, the
  result is a key of 32 bytes or an error that does not tell a wrong key from a damaged record.
\<close>

theorem wrapped_key_comes_back:
  assumes "primitives_ok P" and "length kek = 32" and "length dek = 32"
  shows "(\<exists>w. WrapDEK P (Some f) kek dek = Inr w \<and> length w = 60 \<and> UnwrapDEK P kek w = Inr dek) \<and>
    (\<forall>k w. length k = 32 \<longrightarrow>
       UnwrapDEK P k w = Inl ErrDecrypt \<or> (\<exists>d. UnwrapDEK P k w = Inr d \<and> length d = 32))"
proof -
  obtain w where w: "Seal P (Some f) kek dek aadDEK = Inr w" using Seal_works [OF assms(2)] by blast
  have "UnwrapDEK P k w = Inl ErrDecrypt \<or> (\<exists>d. UnwrapDEK P k w = Inr d \<and> length d = 32)"
    if "length k = 32" for k w
    using Open_errors [of P k w aadDEK] that by (auto simp: UnwrapDEK_def KeyLen_def split: sum.split)
  with w Open_Seal [OF assms(1) w] assms(3) show ?thesis
    by (auto simp: WrapDEK_def UnwrapDEK_def KeyLen_def)
qed

definition demo_entropy :: entropy where "demo_entropy = Some (\<lambda>_. CHR ''r'')"
definition demo_key :: bytes where "demo_key = replicate 32 (CHR ''k'')"

theorem wrapped_key_comes_back_witness:
  "\<exists>w. WrapDEK demo_primitives demo_entropy demo_key demo_key = Inr w \<and>
     UnwrapDEK demo_primitives demo_key w = Inr demo_key"
  using wrapped_key_comes_back [OF demo_primitives_ok, of demo_key demo_key "\<lambda>_. CHR ''r''"]
  by (auto simp: demo_key_def demo_entropy_def)

text \<open>One change of the master password, as a step between a scheme with its password.\<close>

definition master_changed :: "primitives \<Rightarrow> Escrow \<times> string \<Rightarrow> Escrow \<times> string \<Rightarrow> bool" where
  "master_changed P = (\<lambda>(es, mp) (es', mp').
     \<exists>e1 e2. ChangeMasterPassword P e1 e2 mp mp' (Some es) = (Some es', None))"

lemma master_changes_open:
  assumes "primitives_ok P" and "(master_changed P)\<^sup>*\<^sup>* x y" and "escrow_opens P (fst x) (snd x) priv"
  shows "escrow_opens P (fst y) (snd y) priv"
  using assms(2,3)
proof (induction rule: rtranclp_induct)
  case (step y z)
  then obtain e1 e2 where "ChangeMasterPassword P e1 e2 (snd y) (snd z) (Some (fst y)) = (Some (fst z), None)"
    by (auto simp: master_changed_def case_prod_beta)
  from ChangeMasterPassword_opens [OF assms(1) _ this] step show ?case by blast
qed

text \<open>
  C38. A deposited key can be recovered for as long as the scheme lives: a data key sealed to the
  recovery key, at any time, is returned by \<open>RecoverDEK\<close> under the master password in force after any
  number of changes of that password, none of which touches the deposit or the public key.
\<close>

theorem deposited_key_recovers:
  assumes P: "primitives_ok P" and new: "NewEscrowWithParams P e1 e2 e3 mp p = Inr es"
    and c1: "(master_changed P)\<^sup>*\<^sup>* (es, mp) (es1, mp1)"
    and d: "SealDEK P d1 d2 (Some es1) dek = Inr deposit"
    and c2: "(master_changed P)\<^sup>*\<^sup>* (es1, mp1) (es2, mp2)"
  shows "RecoverDEK P (Some es2) mp2 deposit = Inr dek \<and> CheckMasterPassword P (Some es2) mp2 \<and>
    es_PublicKey es2 = es_PublicKey es"
proof -
  obtain priv where o: "escrow_opens P es mp priv" using NewEscrow_opens [OF P new] by blast
  have o1: "escrow_opens P es1 mp1 priv" using master_changes_open [OF P c1] o by simp
  have o2: "escrow_opens P es2 mp2 priv" using master_changes_open [OF P c2] o1 by simp
  from RecoverDEK_SealDEK [OF P o1 d o2] o o2 show ?thesis
    by (simp add: escrow_opens_def CheckMasterPassword_def)
qed

definition demo_master :: string where "demo_master = replicate 16 (CHR ''m'')"

definition demo_escrow :: Escrow where
  "demo_escrow = (case NewEscrow demo_primitives demo_entropy demo_entropy demo_entropy demo_master of
     Inr es \<Rightarrow> es | Inl _ \<Rightarrow> undefined)"

definition demo_deposit :: bytes where
  "demo_deposit = (case SealDEK demo_primitives demo_entropy demo_entropy (Some demo_escrow) demo_key of
     Inr d \<Rightarrow> d | Inl _ \<Rightarrow> undefined)"

lemma demo_escrow_new:
  "NewEscrowWithParams demo_primitives demo_entropy demo_entropy demo_entropy demo_master MasterParams =
     Inr demo_escrow"
  "SealDEK demo_primitives demo_entropy demo_entropy (Some demo_escrow) demo_key = Inr demo_deposit"
proof -
  have m: "length (runes demo_master) = 16" by (code_simp)
  let ?n = "NewEscrowWithParams demo_primitives demo_entropy demo_entropy demo_entropy demo_master MasterParams"
  have "\<exists>es. ?n = Inr es \<and> length (es_PublicKey es) = 32"
    using m by (simp add: NewEscrowWithParams_def MinMasterPasswordLength_def x_GenerateKey_def
        rand_Read_def demo_entropy_def NewSalt_def Random_def SaltLen_def sealPrivate_def DeriveKey_def
        profiles_valid Seal_def newAEAD_def KeyLen_def primitives_okD(3) [OF demo_primitives_ok]
        MasterParams_def [THEN arg_cong [where f = pa_KeyLen]])
      (simp add: demo_primitives_def)
  then show new: "?n = Inr demo_escrow" by (auto simp: demo_escrow_def NewEscrow_def)
  with \<open>\<exists>es. ?n = Inr es \<and> length (es_PublicKey es) = 32\<close> have l: "length (es_PublicKey demo_escrow) = 32" by simp
  obtain priv where priv: "escrow_opens demo_primitives demo_escrow demo_master priv"
    using NewEscrow_opens [OF demo_primitives_ok new] by blast
  let ?eph = "replicate 32 (CHR ''r'')"
  have g: "x_GenerateKey demo_entropy = Inr ?eph"
    by (simp add: x_GenerateKey_def rand_Read_def demo_entropy_def map_replicate_const)
  obtain k where k: "agree demo_primitives ?eph (es_PublicKey demo_escrow) (p_x_public demo_primitives ?eph) = Inr k"
    "length k = 32"
    using agree_symmetric [OF demo_primitives_ok, of ?eph priv] priv by (auto simp: escrow_opens_def)
  obtain c where "Seal demo_primitives demo_entropy k demo_key (escrowAAD (p_x_public demo_primitives ?eph)) = Inr c"
    using Seal_works [OF k(2)] unfolding demo_entropy_def by blast
  with k l g have "\<exists>d. SealDEK demo_primitives demo_entropy demo_entropy (Some demo_escrow) demo_key = Inr d"
    by (auto simp: SealDEK_def demo_key_def KeyLen_def x_NewPublicKey_def sealToPublic_def Let_def)
  then show "SealDEK demo_primitives demo_entropy demo_entropy (Some demo_escrow) demo_key = Inr demo_deposit"
    by (auto simp: demo_deposit_def)
qed

theorem deposited_key_recovers_witness:
  "RecoverDEK demo_primitives (Some demo_escrow) demo_master demo_deposit = Inr demo_key"
  using deposited_key_recovers [OF demo_primitives_ok demo_escrow_new(1) rtranclp.rtrancl_refl
      demo_escrow_new(2) rtranclp.rtrancl_refl] by simp

text \<open>
  A stored verifier accepts the password it was made from, and another password only if
  Argon2id maps the two to one digest; making it with the login profile never fails while the
  system has randomness.
\<close>

theorem verifier_accepts_its_password:
  assumes "primitives_ok P"
  shows "\<exists>h. HashAuth P (Some f) pw = Inr h \<and> ph_Verify P (Some h) pw \<and> VerifyAuth P pw (ph_Salt h) (ph_Hash h) \<and>
    (\<forall>pw'. ph_Verify P (Some h) pw' \<longleftrightarrow>
       p_argon2 P pw' (ph_Salt h) 3 65536 4 32 = p_argon2 P pw (ph_Salt h) 3 65536 4 32)"
proof -
  have l: "length (p_argon2 P pw s 3 65536 4 32) = 32" for s
    using primitives_okD(3) [OF assms, of pw s 3 65536 4 32] by simp
  then have ne: "p_argon2 P pw s 3 65536 4 32 \<noteq> []" for s by (metis list.size(3) zero_neq_numeral)
  have salt: "NewSalt (Some f) = Inr (map f [0..<16])" by (simp add: NewSalt_def Random_Some SaltLen_def)
  have v: "\<exists>x y. [0..<16] = x # (y :: nat list)" by (simp add: upt_rec)
  show ?thesis
    using ne salt v profiles_valid(1)
    by (auto simp: HashAuth_def HashPassword_def DeriveKey_def ph_Verify_def VerifyAuth_def Equal_def
        AuthParams_def)
qed

theorem verifier_accepts_its_password_witness:
  "\<exists>h. HashAuth demo_primitives demo_entropy ''correct horse'' = Inr h \<and>
     ph_Verify demo_primitives (Some h) ''correct horse''"
  using verifier_accepts_its_password [OF demo_primitives_ok, of "\<lambda>_. CHR ''r''" "''correct horse''"]
  by (auto simp: demo_entropy_def)

text \<open>
  C39. The server key is never replaced: a key file that exists is left as it is whatever fails, a
  file of the wrong size is reported as corrupt and kept, a key that another process wrote in the
  meantime wins, and a key that is returned is the content of the file, so that the next start
  returns it again.
\<close>

theorem server_key_never_replaced:
  assumes call: "LoadOrCreateServerKey io e file = (file', res)"
  shows "(file \<noteq> None \<longrightarrow> file' = file) \<and>
    (file \<noteq> None \<and> length (the file) \<noteq> 32 \<and> io_mkdir io \<and> io_read io \<longrightarrow> res = Inl ErrServerKeyCorrupt) \<and>
    (file = None \<and> io_between io \<noteq> None \<and> io_mkdir io \<longrightarrow> file' = io_between io) \<and>
    (\<forall>k. res = Inr k \<longrightarrow> file' = Some k \<and> length k = 32 \<and>
       (\<forall>io' e'. io_mkdir io' \<and> io_read io' \<longrightarrow> LoadOrCreateServerKey io' e' file' = (file', Inr k)))"
proof -
  have load: "fl = Some k \<and> length k = 32" if "loadServerKey b fl = Inr k" for b k fl
    using that by (auto simp: loadServerKey_def KeyLen_def split: option.splits if_splits)
  have good: "file' = Some k \<and> length k = 32" if "res = Inr k" for k
    using call that load
    by (auto simp: LoadOrCreateServerKey_def createServerKey_def KeyLen_def dest!: length_Random
        split: if_splits sum.splits option.splits prod.splits)
  have kept: "file' = file" if "file \<noteq> None"
    using call that by (auto simp: LoadOrCreateServerKey_def loadServerKey_def split: if_splits)
  have raced: "file' = io_between io" if "file = None" "io_between io \<noteq> None" "io_mkdir io"
    using call that by (auto simp: LoadOrCreateServerKey_def loadServerKey_def createServerKey_def
        split: if_splits sum.splits prod.splits)
  have corrupt: "res = Inl ErrServerKeyCorrupt"
    if "file \<noteq> None" "length (the file) \<noteq> 32" "io_mkdir io" "io_read io"
    using call that by (auto simp: LoadOrCreateServerKey_def loadServerKey_def KeyLen_def)
  have again: "LoadOrCreateServerKey io' e' file' = (file', Inr k)"
    if "res = Inr k" "io_mkdir io'" "io_read io'" for k io' e'
    using good [OF that(1)] that by (simp add: LoadOrCreateServerKey_def loadServerKey_def KeyLen_def)
  from good kept raced corrupt again show ?thesis by blast
qed

definition demo_io :: key_io where
  "demo_io = \<lparr>io_mkdir = True, io_read = True, io_between = None, io_create = True, io_write = True,
     io_written = 0, io_sync = True, io_close = True, io_reread = True\<rparr>"

theorem server_key_never_replaced_witness:
  "LoadOrCreateServerKey demo_io None (fst (LoadOrCreateServerKey demo_io demo_entropy None)) =
     (Some (replicate 32 (CHR ''r'')), Inr (replicate 32 (CHR ''r'')))"
proof -
  have c: "LoadOrCreateServerKey demo_io demo_entropy None =
      (Some (replicate 32 (CHR ''r'')), Inr (replicate 32 (CHR ''r'')))"
    by (simp add: LoadOrCreateServerKey_def loadServerKey_def createServerKey_def demo_io_def demo_entropy_def
        Random_Some KeyLen_def map_replicate_const)
  have "io_mkdir demo_io" "io_read demo_io" by (simp_all add: demo_io_def)
  with server_key_never_replaced [OF c] c show ?thesis by auto
qed

end
