(* ===== verification/AccountDuplicates.thy ===== *)
theory AccountDuplicates
  imports AccountViews Crypto "HOL-Library.Multiset"
begin

text \<open>
  \<open>internal/account/duplicates.go\<close>: what a person decided about records that look like one thing. The
  operations change the slice of groups in place; here they return it. A \<open>map\<close> of fields may be nil.
\<close>

subsection \<open>Members and groups\<close>

definition VerdictLinked :: string where "VerdictLinked = ''linked''"
definition VerdictIgnored :: string where "VerdictIgnored = ''ignored''"

definition Verdict_Valid :: "string \<Rightarrow> bool" where
  "Verdict_Valid v \<longleftrightarrow> v = VerdictLinked \<or> v = VerdictIgnored"

definition KindContact :: string where "KindContact = ''contact''"
definition KindEvent :: string where "KindEvent = ''event''"
definition KindTodo :: string where "KindTodo = ''todo''"
definition KindNote :: string where "KindNote = ''note''"

record Member =
  mb_AccountID :: string
  mb_Collection :: string
  mb_UID :: string

definition mb_Key :: "Member \<Rightarrow> string" where
  "mb_Key m = mb_AccountID m @ ''|'' @ normalizePath (mb_Collection m) @ ''|'' @ TrimSpace (mb_UID m)"

definition mb_Source :: "Member \<Rightarrow> SourceRef" where
  "mb_Source m = \<lparr>sr_AccountID = mb_AccountID m, sr_Collection = mb_Collection m\<rparr>"

definition mb_normalized :: "Member \<Rightarrow> Member" where
  "mb_normalized m = \<lparr>mb_AccountID = TrimSpace (mb_AccountID m),
     mb_Collection = normalizePath (mb_Collection m), mb_UID = TrimSpace (mb_UID m)\<rparr>"

definition mb_valid :: "Member \<Rightarrow> bool" where
  "mb_valid m = (let n = mb_normalized m in mb_AccountID n \<noteq> [] \<and> mb_Collection n \<noteq> [] \<and> mb_UID n \<noteq> [])"

record Group =
  gr_ID :: string
  gr_Kind :: string
  gr_Verdict :: string
  gr_Members :: "Member list"
  gr_Fields :: "(string, string) gomap option"
  gr_DecidedAt :: time

definition gr_Has :: "Group \<Rightarrow> Member \<Rightarrow> bool" where
  "gr_Has g member = list_ex (\<lambda>m. mb_Key m = mb_Key member) (gr_Members g)"

definition MemberKeys :: "Group \<Rightarrow> string list" where
  "MemberKeys g = sort (map mb_Key (gr_Members g))"

definition Signature :: "Group \<Rightarrow> string" where
  "Signature g = Join [CHR 0x00] (MemberKeys g)"

text \<open>A deep copy is the value itself.\<close>

definition gr_clone :: "Group \<Rightarrow> Group" where
  "gr_clone g = g\<lparr>gr_Fields := map_option (map (\<lambda>(name, value). (name, value))) (gr_Fields g)\<rparr>"

fun normalize_loop :: "Member list \<Rightarrow> string list \<Rightarrow> Member list \<Rightarrow> Member list" where
  "normalize_loop [] seen out = out"
| "normalize_loop (m # ms) seen out =
     (if \<not> mb_valid m then normalize_loop ms seen out
      else
        (let n = mb_normalized m
         in if mb_Key n \<in> set seen then normalize_loop ms seen out
            else normalize_loop ms (mb_Key n # seen) (out @ [n])))"

definition normalizeMembers :: "Member list \<Rightarrow> Member list" where
  "normalizeMembers members = sort_key mb_Key (normalize_loop members [] [])"

definition gr_setField :: "unicode \<Rightarrow> string \<Rightarrow> string \<Rightarrow> Group \<Rightarrow> Group" where
  "gr_setField U name value g =
     (let name = ToUpper U (TrimSpace name); value = TrimSpace value
      in if name = [] then g
         else if value = [] then g\<lparr>gr_Fields := map_option (gm_del name) (gr_Fields g)\<rparr>
         else g\<lparr>gr_Fields := Some (gm_put name value (made (gr_Fields g)))\<rparr>)"

subsection \<open>The decision store\<close>

record Duplicates =
  du_Groups :: "Group list"
  du_Threshold :: int

datatype dup_error = ErrBadThreshold | ErrVerdict | ErrTooFew | ErrKind | ErrID crypto_error

definition no_duplicates :: Duplicates where
  "no_duplicates = \<lparr>du_Groups = [], du_Threshold = 0\<rparr>"

definition EffectiveThreshold :: "Duplicates \<Rightarrow> int \<Rightarrow> int" where
  "EffectiveThreshold d instanceDefault =
     (if du_Threshold d > 0 then du_Threshold d
      else if instanceDefault > 0 then instanceDefault else 0)"

definition SetThreshold :: "int \<Rightarrow> Duplicates \<Rightarrow> Duplicates \<times> dup_error option" where
  "SetThreshold n d = (if n \<le> 0 then (d, Some ErrBadThreshold) else (d\<lparr>du_Threshold := n\<rparr>, None))"

definition du_Clone :: "Duplicates \<Rightarrow> Duplicates" where
  "du_Clone d =
     (let out = \<lparr>du_Groups = [], du_Threshold = du_Threshold d\<rparr>
      in if du_Groups d = [] then out else out\<lparr>du_Groups := map gr_clone (du_Groups d)\<rparr>)"

definition du_Find :: "Duplicates \<Rightarrow> Member \<Rightarrow> Group option" where
  "du_Find d member = map_option gr_clone (find_first (\<lambda>g. gr_Has g (mb_normalized member)) (du_Groups d))"

definition FindID :: "Duplicates \<Rightarrow> string \<Rightarrow> Group option" where
  "FindID d gid =
     (let gid = TrimSpace gid
      in if gid = [] then None
         else map_option gr_clone (find_first (\<lambda>g. gr_ID g = gid) (du_Groups d)))"

definition du_Verdict :: "Duplicates \<Rightarrow> Member list \<Rightarrow> Group option" where
  "du_Verdict d members =
     (let want = Signature \<lparr>gr_ID = [], gr_Kind = [], gr_Verdict = [], gr_Members = normalizeMembers members,
                   gr_Fields = None, gr_DecidedAt = zero_time\<rparr>
      in if want = [] then None
         else map_option gr_clone (find_first (\<lambda>g. Signature g = want) (du_Groups d)))"

definition Ignored :: "Duplicates \<Rightarrow> Member \<Rightarrow> Member \<Rightarrow> bool" where
  "Ignored d a b =
     (let a = mb_normalized a; b = mb_normalized b
      in list_ex (\<lambda>g. gr_Verdict g = VerdictIgnored \<and> gr_Has g a \<and> gr_Has g b) (du_Groups d))"

fun release_loop :: "string set \<Rightarrow> Group list \<Rightarrow> Group list" where
  "release_loop wanted [] = []"
| "release_loop wanted (g # gs) =
     (let remaining = filter (\<lambda>m. mb_Key m \<notin> wanted) (gr_Members g)
      in if length remaining = length (gr_Members g) then g # release_loop wanted gs
         else if length remaining < 2 then release_loop wanted gs
         else g\<lparr>gr_Members := remaining\<rparr> # release_loop wanted gs)"

definition release :: "Member list \<Rightarrow> Duplicates \<Rightarrow> Duplicates" where
  "release members d = d\<lparr>du_Groups := release_loop (set (map mb_Key members)) (du_Groups d)\<rparr>"

definition NewID :: "entropy \<Rightarrow> string cresult" where
  "NewID e = (case Random e 16 of Inl err \<Rightarrow> Inl err | Inr b \<Rightarrow> Inr (hex_encode b))"

definition new_group_id :: "entropy \<Rightarrow> string \<Rightarrow> string cresult" where
  "new_group_id e gid = (let gid = TrimSpace gid in if gid = [] then NewID e else Inr gid)"

text \<open>The store after the call, which keeps what \<open>release\<close> took out even where no identifier is had.\<close>

definition Decide ::
    "unicode \<Rightarrow> entropy \<Rightarrow> string \<Rightarrow> string \<Rightarrow> string \<Rightarrow> Member list \<Rightarrow> (string \<times> string) list \<Rightarrow> time \<Rightarrow>
     Duplicates \<Rightarrow> Duplicates \<times> (dup_error + Group)" where
  "Decide U e gid kind verdict members flds now d =
     (if \<not> Verdict_Valid verdict then (d, Inl ErrVerdict)
      else
        (let normalised = normalizeMembers members
         in if length normalised < 2 then (d, Inl ErrTooFew)
            else
              (let kind = TrimSpace kind
               in if kind \<noteq> KindContact \<and> kind \<noteq> KindEvent \<and> kind \<noteq> KindTodo \<and> kind \<noteq> KindNote
                  then (d, Inl ErrKind)
                  else
                    (let d = release normalised d
                     in case new_group_id e gid of
                          Inl err \<Rightarrow> (d, Inl (ErrID err))
                        | Inr gid \<Rightarrow>
                            (let group = \<lparr>gr_ID = gid, gr_Kind = kind, gr_Verdict = verdict,
                                          gr_Members = normalised, gr_Fields = None, gr_DecidedAt = now\<rparr>;
                                 group = fold (\<lambda>(name, value). gr_setField U name value) flds group
                             in (d\<lparr>du_Groups := du_Groups d @ [group]\<rparr>, Inr (gr_clone group)))))))"

definition SetField :: "unicode \<Rightarrow> string \<Rightarrow> string \<Rightarrow> string \<Rightarrow> Duplicates \<Rightarrow> Duplicates \<times> bool" where
  "SetField U gid name value d =
     (let gid = TrimSpace gid
      in case find_first (\<lambda>g. gr_ID g = gid) (du_Groups d) of
           None \<Rightarrow> (d, False)
         | Some g \<Rightarrow>
             (d\<lparr>du_Groups := update_first (\<lambda>g. gr_ID g = gid) (gr_setField U name value g) (du_Groups d)\<rparr>, True))"

definition du_Remove :: "string \<Rightarrow> Duplicates \<Rightarrow> Duplicates \<times> bool" where
  "du_Remove gid d =
     (let gid = TrimSpace gid
      in case find_first (\<lambda>g. gr_ID g = gid) (du_Groups d) of
           None \<Rightarrow> (d, False)
         | Some _ \<Rightarrow> (d\<lparr>du_Groups := remove_first (\<lambda>g. gr_ID g = gid) (du_Groups d)\<rparr>, True))"

fun prune_loop :: "(Member \<Rightarrow> bool) \<Rightarrow> Group list \<Rightarrow> bool \<Rightarrow> Group list \<Rightarrow> Group list \<times> bool" where
  "prune_loop gone [] changed kept = (kept, changed)"
| "prune_loop gone (g # gs) changed kept =
     (let remaining = filter (\<lambda>m. \<not> gone m) (gr_Members g);
          changed = (changed \<or> list_ex gone (gr_Members g))
      in if length remaining < 2
         then prune_loop gone gs (changed \<or> length remaining \<noteq> length (gr_Members g)) kept
         else prune_loop gone gs changed (kept @ [g\<lparr>gr_Members := remaining\<rparr>]))"

definition Prune :: "(Member \<Rightarrow> bool) option \<Rightarrow> Duplicates \<Rightarrow> Duplicates \<times> bool" where
  "Prune gone d =
     (case gone of
        None \<Rightarrow> (d, False)
      | Some gone \<Rightarrow>
          (case prune_loop gone (du_Groups d) False [] of (kept, changed) \<Rightarrow>
             (if changed then d\<lparr>du_Groups := kept\<rparr> else d, changed)))"

definition du_PurgeCollection :: "SourceRef \<Rightarrow> Duplicates \<Rightarrow> Duplicates" where
  "du_PurgeCollection ref d =
     (let ref = ref\<lparr>sr_Collection := normalizePath (sr_Collection ref)\<rparr>
      in fst (Prune (Some (\<lambda>m. mb_AccountID m = sr_AccountID ref \<and>
                normalizePath (mb_Collection m) = sr_Collection ref)) d))"

subsection \<open>Lemmas\<close>

lemma gr_clone_id [simp]: "gr_clone g = g"
  by (cases "gr_Fields g") (simp_all add: gr_clone_def case_prod_beta)

lemma mb_normalized_idem [simp]: "mb_normalized (mb_normalized m) = mb_normalized m"
  by (simp add: mb_normalized_def)

lemma mb_valid_normalized [simp]: "mb_valid (mb_normalized m) = mb_valid m"
  by (simp add: mb_valid_def)

lemma normalize_loop_spec:
  assumes "set seen = mb_Key ` set out" and "distinct (map mb_Key out)"
    and "\<forall>m \<in> set out. mb_normalized m = m \<and> mb_valid m"
  shows "distinct (map mb_Key (normalize_loop ms seen out)) \<and>
    (\<forall>m \<in> set (normalize_loop ms seen out). mb_normalized m = m \<and> mb_valid m) \<and>
    mb_Key ` set (normalize_loop ms seen out) =
      mb_Key ` set out \<union> mb_Key ` mb_normalized ` {m \<in> set ms. mb_valid m}"
  using assms
proof (induction ms seen out rule: normalize_loop.induct)
  case (2 m ms seen out)
  let ?n = "mb_normalized m"
  have keys: "mb_Key ` mb_normalized ` {x \<in> set (m # ms). mb_valid x} =
      (if mb_valid m then insert (mb_Key ?n) (mb_Key ` mb_normalized ` {x \<in> set ms. mb_valid x})
       else mb_Key ` mb_normalized ` {x \<in> set ms. mb_valid x})" by auto
  show ?case
  proof (cases "mb_valid m")
    case False
    with 2(1) [OF False 2(4-6)] show ?thesis unfolding keys by simp
  next
    case valid: True
    show ?thesis
    proof (cases "mb_Key ?n \<in> set seen")
      case True
      have "normalize_loop (m # ms) seen out = normalize_loop ms seen out"
        using valid True by (simp add: Let_def)
      moreover have "mb_Key ` set out \<union> mb_Key ` mb_normalized ` {x \<in> set (m # ms). mb_valid x} =
          mb_Key ` set out \<union> mb_Key ` mb_normalized ` {x \<in> set ms. mb_valid x}"
        using valid True 2(4) unfolding keys by auto
      ultimately show ?thesis using 2(2) [OF _ refl True 2(4-6)] valid by (metis (no_types, lifting))
    next
      case False
      have step: "normalize_loop (m # ms) seen out = normalize_loop ms (mb_Key ?n # seen) (out @ [?n])"
        using valid False by (simp add: Let_def)
      have "set (mb_Key ?n # seen) = mb_Key ` set (out @ [?n])" using 2(4) by simp
      moreover have "distinct (map mb_Key (out @ [?n]))" using False 2(4,5) by simp
      moreover have "\<forall>x \<in> set (out @ [?n]). mb_normalized x = x \<and> mb_valid x" using valid 2(6) by auto
      moreover have "mb_Key ` set out \<union> mb_Key ` mb_normalized ` {x \<in> set (m # ms). mb_valid x} =
          mb_Key ` set (out @ [?n]) \<union> mb_Key ` mb_normalized ` {x \<in> set ms. mb_valid x}"
        using valid unfolding keys by auto
      ultimately show ?thesis using 2(3) [OF _ refl False] valid step by (metis (no_types, lifting))
    qed
  qed
qed simp

lemma normalizeMembers_spec:
  "distinct (map mb_Key (normalizeMembers ms))"
  "m \<in> set (normalizeMembers ms) \<Longrightarrow> mb_normalized m = m \<and> mb_valid m"
  "mb_Key ` set (normalizeMembers ms) = mb_Key ` mb_normalized ` {m \<in> set ms. mb_valid m}"
proof -
  note spec = normalize_loop_spec [of "[]" "[]" ms]
  have "mset (map mb_Key (normalizeMembers ms)) = mset (map mb_Key (normalize_loop ms [] []))"
    by (simp add: normalizeMembers_def)
  moreover have "distinct (map mb_Key (normalize_loop ms [] []))" using spec by simp
  ultimately show "distinct (map mb_Key (normalizeMembers ms))" by (metis mset_eq_imp_distinct_iff)
  show "m \<in> set (normalizeMembers ms) \<Longrightarrow> mb_normalized m = m \<and> mb_valid m"
    using spec by (simp add: normalizeMembers_def)
  show "mb_Key ` set (normalizeMembers ms) = mb_Key ` mb_normalized ` {m \<in> set ms. mb_valid m}"
    using spec by (simp add: normalizeMembers_def)
qed

text \<open>
  What taking records out of all groups leaves, which both \<open>release\<close> and \<open>Prune\<close> compute.
\<close>

definition pruned :: "(Member \<Rightarrow> bool) \<Rightarrow> Group list \<Rightarrow> Group list" where
  "pruned gone gs = map (\<lambda>g. g\<lparr>gr_Members := filter (\<lambda>m. \<not> gone m) (gr_Members g)\<rparr>)
     (filter (\<lambda>g. 2 \<le> length (filter (\<lambda>m. \<not> gone m) (gr_Members g))) gs)"

lemma prune_loop_pruned:
  "prune_loop gone gs changed kept =
     (kept @ pruned gone gs, changed \<or> (\<exists>g \<in> set gs. \<exists>m \<in> set (gr_Members g). gone m))"
proof (induction gone gs changed kept rule: prune_loop.induct)
  case (2 gone g gs changed kept)
  have "length (filter (\<lambda>m. \<not> gone m) (gr_Members g)) \<noteq> length (gr_Members g) \<Longrightarrow> \<exists>m \<in> set (gr_Members g). gone m"
    by (metis filter_True)
  with 2 show ?case by (auto simp: Let_def pruned_def list_ex_iff)
qed (simp add: pruned_def)

lemma Group_same_members: "ms = gr_Members g \<Longrightarrow> g\<lparr>gr_Members := ms\<rparr> = g"
  by simp

lemma release_loop_pruned:
  "\<forall>g \<in> set gs. 2 \<le> length (gr_Members g) \<Longrightarrow> release_loop W gs = pruned (\<lambda>m. mb_Key m \<in> W) gs"
proof (induction W gs rule: release_loop.induct)
  case (2 W g gs)
  let ?r = "filter (\<lambda>m. mb_Key m \<notin> W) (gr_Members g)"
  have "?r = gr_Members g" if "length ?r = length (gr_Members g)"
    using that shrink_or_keep [of "\<lambda>m. mb_Key m \<notin> W" "gr_Members g"] by simp
  with 2 show ?case by (auto simp: Let_def pruned_def)
qed (simp add: pruned_def)

definition all_keys :: "Group list \<Rightarrow> string list" where
  "all_keys gs = concat (map (\<lambda>g. map mb_Key (gr_Members g)) gs)"

definition group_ok :: "Group \<Rightarrow> bool" where
  "group_ok g \<longleftrightarrow> 2 \<le> length (gr_Members g) \<and> Verdict_Valid (gr_Verdict g) \<and>
     gr_Kind g \<in> {KindContact, KindEvent, KindTodo, KindNote} \<and>
     (\<forall>m \<in> set (gr_Members g). mb_normalized m = m \<and> mb_valid m)"

definition dup_inv :: "Duplicates \<Rightarrow> bool" where
  "dup_inv d \<longleftrightarrow> (\<forall>g \<in> set (du_Groups d). group_ok g) \<and> distinct (all_keys (du_Groups d))"

lemma set_all_keys: "k \<in> set (all_keys gs) \<longleftrightarrow> (\<exists>g \<in> set gs. \<exists>m \<in> set (gr_Members g). mb_Key m = k)"
  by (auto simp: all_keys_def)

lemma all_keys_pruned: "set (all_keys (pruned gone gs)) \<subseteq> set (all_keys gs)"
proof
  fix k assume "k \<in> set (all_keys (pruned gone gs))"
  then obtain g m where "g \<in> set gs" "m \<in> set (gr_Members g)" "mb_Key m = k"
    by (auto simp: set_all_keys pruned_def)
  then show "k \<in> set (all_keys gs)" unfolding set_all_keys by blast
qed

lemma distinct_pruned: "distinct (all_keys gs) \<Longrightarrow> distinct (all_keys (pruned gone gs))"
proof (induction gs)
  case (Cons g gs)
  let ?r = "map mb_Key (filter (\<lambda>m. \<not> gone m) (gr_Members g))"
  have split: "all_keys (g # gs) = map mb_Key (gr_Members g) @ all_keys gs" by (simp add: all_keys_def)
  have "distinct (map mb_Key (gr_Members g))" using Cons.prems split by simp
  then have "distinct ?r" by (rule distinct_map_filter)
  moreover have "set ?r \<inter> set (all_keys (pruned gone gs)) = {}"
    using Cons.prems split all_keys_pruned [of gone gs] by auto
  moreover have "all_keys (pruned gone (g # gs)) = (if 2 \<le> length ?r then ?r @ all_keys (pruned gone gs)
      else all_keys (pruned gone gs))" by (simp add: all_keys_def pruned_def)
  ultimately show ?case using Cons split by simp
qed (simp add: all_keys_def pruned_def)

lemma pruned_ok: "\<forall>g \<in> set gs. group_ok g \<Longrightarrow> \<forall>g \<in> set (pruned gone gs). group_ok g"
  by (auto simp: pruned_def group_ok_def)

lemma pruned_inv:
  "dup_inv d \<Longrightarrow> dup_inv (d\<lparr>du_Groups := pruned gone (du_Groups d)\<rparr>)"
  using pruned_ok [of "du_Groups d" gone] distinct_pruned [of "du_Groups d" gone] by (simp add: dup_inv_def)

lemma setField_frame [simp]:
  "gr_Members (gr_setField U name value g) = gr_Members g" "gr_ID (gr_setField U name value g) = gr_ID g"
  "gr_Kind (gr_setField U name value g) = gr_Kind g" "gr_Verdict (gr_setField U name value g) = gr_Verdict g"
  by (simp_all add: gr_setField_def Let_def)

lemma setFields_frame [simp]:
  "gr_Members (fold (\<lambda>(name, value). gr_setField U name value) fs g) = gr_Members g"
  "gr_ID (fold (\<lambda>(name, value). gr_setField U name value) fs g) = gr_ID g"
  "gr_Kind (fold (\<lambda>(name, value). gr_setField U name value) fs g) = gr_Kind g"
  "gr_Verdict (fold (\<lambda>(name, value). gr_setField U name value) fs g) = gr_Verdict g"
  by (induction fs arbitrary: g) auto

lemma one_group_for_key:
  "distinct (all_keys gs) \<Longrightarrow> g \<in> set gs \<Longrightarrow> g' \<in> set gs \<Longrightarrow> m \<in> set (gr_Members g) \<Longrightarrow>
   m' \<in> set (gr_Members g') \<Longrightarrow> mb_Key m = mb_Key m' \<Longrightarrow> g = g'"
proof (induction gs)
  case (Cons a gs)
  have split: "all_keys (a # gs) = map mb_Key (gr_Members a) @ all_keys gs" by (simp add: all_keys_def)
  have disj: "k \<notin> set (all_keys gs)" if "k \<in> set (map mb_Key (gr_Members a))" for k
    using Cons.prems(1) that unfolding split distinct_append disjoint_iff by (elim conjE allE impE)
  have apart: "mb_Key x \<noteq> mb_Key y" if "x \<in> set (gr_Members a)" "h \<in> set gs" "y \<in> set (gr_Members h)" for x y h
  proof
    assume eq: "mb_Key x = mb_Key y"
    have "mb_Key y \<in> set (all_keys gs)" unfolding set_all_keys using that(2,3) by (intro bexI) (rule refl)
    moreover have "mb_Key x \<in> set (map mb_Key (gr_Members a))" using that(1) by simp
    ultimately show False using disj [of "mb_Key x"] eq by simp
  qed
  have d: "distinct (all_keys gs)" using Cons.prems(1) unfolding split distinct_append by blast
  consider "g = a" "g' = a" | "g = a" "g' \<in> set gs" | "g \<in> set gs" "g' = a" | "g \<in> set gs" "g' \<in> set gs"
    using Cons.prems(2,3) by auto
  then show ?case
  proof cases
    case 2
    then have False using apart [of m g' m'] Cons.prems(4-6) by simp
    then show ?thesis ..
  next
    case 3
    then have False using apart [of m' g m] Cons.prems(4-6) by simp
    then show ?thesis ..
  next
    case 4
    then show ?thesis using Cons.IH [OF d] Cons.prems(4-6) by blast
  qed simp
qed simp

subsection \<open>The store as a system\<close>

inductive dup_step :: "Duplicates \<Rightarrow> Duplicates \<Rightarrow> bool" where
  ds_decide: "dup_step d (fst (Decide U e gid kind verdict members flds now d))"
| ds_field: "dup_step d (fst (SetField U gid name value d))"
| ds_remove: "dup_step d (fst (du_Remove gid d))"
| ds_prune: "dup_step d (fst (Prune gone d))"
| ds_purge: "dup_step d (du_PurgeCollection ref d)"
| ds_threshold: "dup_step d (fst (SetThreshold n d))"

definition dup_start :: "Duplicates \<Rightarrow> bool" where
  "dup_start d \<longleftrightarrow> d = no_duplicates"

lemma release_pruned:
  "dup_inv d \<Longrightarrow> release ms d = d\<lparr>du_Groups := pruned (\<lambda>m. mb_Key m \<in> mb_Key ` set ms) (du_Groups d)\<rparr>"
  by (simp add: release_def release_loop_pruned dup_inv_def group_ok_def)

lemma released_keys: "mb_Key m \<in> mb_Key ` set ms \<Longrightarrow>
    mb_Key m \<notin> set (all_keys (pruned (\<lambda>m. mb_Key m \<in> mb_Key ` set ms) gs))"
  unfolding set_all_keys pruned_def by auto

text \<open>A decision that is accepted: the group it adds, after the members were taken out of the others.\<close>

lemma Decide_Inr:
  assumes inv: "dup_inv d" and dec: "Decide U e gid kind verdict members flds now d = (d', Inr g)"
  shows "d' = d\<lparr>du_Groups := pruned (\<lambda>m. mb_Key m \<in> mb_Key ` set (normalizeMembers members)) (du_Groups d) @ [g]\<rparr>"
    and "group_ok g" and "gr_Members g = normalizeMembers members" and "gr_Verdict g = verdict"
    and "gr_DecidedAt g = now"
proof -
  have at: "gr_DecidedAt (fold (\<lambda>(name, value). gr_setField U name value) fs g) = gr_DecidedAt g" for fs g
    by (induction fs arbitrary: g) (auto simp: gr_setField_def Let_def)
  from dec show "d' = d\<lparr>du_Groups := pruned (\<lambda>m. mb_Key m \<in> mb_Key ` set (normalizeMembers members)) (du_Groups d) @ [g]\<rparr>"
    and "group_ok g" and "gr_Members g = normalizeMembers members" and "gr_Verdict g = verdict"
    and "gr_DecidedAt g = now"
    using normalizeMembers_spec(2) [of _ members] at
    by (auto simp: Decide_def Let_def release_pruned [OF inv] group_ok_def split: if_splits sum.splits)
qed

lemma Decide_inv: "dup_inv d \<Longrightarrow> dup_inv (fst (Decide U e gid kind verdict members flds now d))"
proof -
  assume inv: "dup_inv d"
  obtain d' res where dec: "Decide U e gid kind verdict members flds now d = (d', res)" by fastforce
  show ?thesis
  proof (cases res)
    case (Inl err)
    then have "d' = d \<or> d' = release (normalizeMembers members) d"
      using dec by (auto simp: Decide_def Let_def split: if_splits sum.splits)
    with inv dec show ?thesis by (auto simp: release_pruned pruned_inv)
  next
    case (Inr g)
    note g = Decide_Inr [OF inv dec [unfolded Inr]]
    let ?gs = "pruned (\<lambda>m. mb_Key m \<in> mb_Key ` set (normalizeMembers members)) (du_Groups d)"
    have "dup_inv (d\<lparr>du_Groups := ?gs\<rparr>)" by (rule pruned_inv [OF inv])
    moreover have "set (all_keys ?gs) \<inter> mb_Key ` set (gr_Members g) = {}"
      using released_keys [of _ "normalizeMembers members" "du_Groups d"] g(3) by auto
    moreover have "distinct (map mb_Key (gr_Members g))" using normalizeMembers_spec(1) g(3) by simp
    ultimately show ?thesis using g(1,2) dec by (auto simp: dup_inv_def all_keys_def)
  qed
qed

lemma all_keys_update: "gr_Members (f g) = gr_Members g \<Longrightarrow> find_first P gs = Some g \<Longrightarrow>
    all_keys (update_first P (f g) gs) = all_keys gs"
  by (induction gs) (auto simp: all_keys_def split: if_splits)

lemma SetField_inv: "dup_inv d \<Longrightarrow> dup_inv (fst (SetField U gid name value d))"
proof -
  assume inv: "dup_inv d"
  show ?thesis
  proof (cases "find_first (\<lambda>g. gr_ID g = TrimSpace gid) (du_Groups d)")
    case (Some g)
    then have "group_ok g" using inv find_first_SomeD [OF Some] by (simp add: dup_inv_def)
    then have "group_ok (gr_setField U name value g)" by (simp add: group_ok_def)
    with inv show ?thesis
      using Some set_update_first_subset [of "\<lambda>g. gr_ID g = TrimSpace gid" "gr_setField U name value g" "du_Groups d"]
        all_keys_update [of "gr_setField U name value" g "\<lambda>g. gr_ID g = TrimSpace gid" "du_Groups d"]
      by (auto simp: SetField_def Let_def dup_inv_def)
  qed (use inv in \<open>simp add: SetField_def\<close>)
qed

lemma all_keys_remove_first: "distinct (all_keys gs) \<Longrightarrow>
    distinct (all_keys (remove_first P gs)) \<and> set (all_keys (remove_first P gs)) \<subseteq> set (all_keys gs)"
  by (induction gs) (auto simp: all_keys_def)

lemma Remove_inv: "dup_inv d \<Longrightarrow> dup_inv (fst (du_Remove gid d))"
  using all_keys_remove_first [of "du_Groups d" "\<lambda>g. gr_ID g = TrimSpace gid"]
    set_remove_first_subset [of "\<lambda>g. gr_ID g = TrimSpace gid" "du_Groups d"]
  by (auto simp: du_Remove_def Let_def dup_inv_def split: option.split)

lemma Prune_pruned:
  "Prune (Some gone) d =
     (if \<exists>g \<in> set (du_Groups d). \<exists>m \<in> set (gr_Members g). gone m
      then (d\<lparr>du_Groups := pruned gone (du_Groups d)\<rparr>, True) else (d, False))"
  by (simp add: Prune_def prune_loop_pruned)

lemma Prune_inv: "dup_inv d \<Longrightarrow> dup_inv (fst (Prune gone d))"
  by (cases gone) (simp_all add: Prune_pruned pruned_inv Prune_def [of None])

interpretation dup: invariant_system dup_start dup_step dup_inv
proof
  show "dup_start d \<Longrightarrow> dup_inv d" for d by (simp add: dup_start_def no_duplicates_def dup_inv_def all_keys_def)
  show "dup_inv d \<Longrightarrow> dup_step d d' \<Longrightarrow> dup_inv d'" for d d'
    by (erule dup_step.cases)
      (auto simp: Decide_inv SetField_inv Remove_inv Prune_inv du_PurgeCollection_def Let_def
        SetThreshold_def dup_inv_def [of "_\<lparr>du_Threshold := _\<rparr>"] dest: dup_inv_def [THEN iffD1])
qed

subsection \<open>Properties\<close>

lemma find_first_unique:
  assumes "g \<in> set gs" and "P g" and "\<And>h. h \<in> set gs \<Longrightarrow> P h \<Longrightarrow> h = g"
  shows "find_first P gs = Some g"
proof -
  have "find_first P gs \<noteq> None" using assms(1,2) by (auto simp: find_first_None)
  then obtain h where h: "find_first P gs = Some h" by blast
  then have "h = g" using assms(3) find_first_SomeD [OF h] by blast
  with h show ?thesis by simp
qed

lemma has_unique:
  assumes "dup_inv d" and "h \<in> set (du_Groups d)" and "h' \<in> set (du_Groups d)" and "gr_Has h m" and "gr_Has h' m"
  shows "h = h'"
proof -
  from assms(4,5) obtain x y where xy: "x \<in> set (gr_Members h)" "y \<in> set (gr_Members h')" "mb_Key x = mb_Key y"
    unfolding gr_Has_def list_ex_iff by metis
  have "distinct (all_keys (du_Groups d))" using assms(1) by (simp add: dup_inv_def)
  then show ?thesis by (rule one_group_for_key [OF _ assms(2,3) xy])
qed

lemma Find_iff:
  assumes "dup_inv d"
  shows "du_Find d m = Some g \<longleftrightarrow> g \<in> set (du_Groups d) \<and> gr_Has g (mb_normalized m)"
proof
  show "du_Find d m = Some g \<Longrightarrow> g \<in> set (du_Groups d) \<and> gr_Has g (mb_normalized m)"
    by (auto simp: du_Find_def dest: find_first_SomeD)
  assume g: "g \<in> set (du_Groups d) \<and> gr_Has g (mb_normalized m)"
  have "find_first (\<lambda>g. gr_Has g (mb_normalized m)) (du_Groups d) = Some g"
    by (rule find_first_unique) (use g has_unique [OF assms] in blast)+
  then show "du_Find d m = Some g" by (simp add: du_Find_def)
qed

text \<open>
  C33. A record has at most one decision: in every state the store can reach, whatever was decided,
  changed, pruned or purged, \<open>Find\<close> answers with the only group that holds the record, that group has
  at least two records, all distinct and spelled in normal form, and its verdict is one of the two.
\<close>

theorem one_decision_per_record:
  assumes "reaches dup_start dup_step d"
  shows "(du_Find d m = Some g \<longleftrightarrow> g \<in> set (du_Groups d) \<and> gr_Has g (mb_normalized m)) \<and>
    (\<forall>h h'. h \<in> set (du_Groups d) \<and> h' \<in> set (du_Groups d) \<and> gr_Has h m \<and> gr_Has h' m \<longrightarrow> h = h') \<and>
    (g \<in> set (du_Groups d) \<longrightarrow> 2 \<le> length (gr_Members g) \<and> distinct (map mb_Key (gr_Members g)) \<and>
       map mb_normalized (gr_Members g) = gr_Members g \<and> Verdict_Valid (gr_Verdict g))"
proof -
  have inv: "dup_inv d" by (rule dup.inv_reachable [OF assms])
  have "\<forall>h h'. h \<in> set (du_Groups d) \<and> h' \<in> set (du_Groups d) \<and> gr_Has h m \<and> gr_Has h' m \<longrightarrow> h = h'"
    using has_unique [OF inv] by blast
  moreover have "distinct (map mb_Key (gr_Members g))" if "g \<in> set (du_Groups d)"
  proof -
    have "map mb_Key (gr_Members g) \<in> set (map (\<lambda>g. map mb_Key (gr_Members g)) (du_Groups d))" using that by simp
    then show ?thesis using inv unfolding dup_inv_def all_keys_def by (metis distinct_concat_iff)
  qed
  moreover have "map mb_normalized (gr_Members g) = gr_Members g" if "g \<in> set (du_Groups d)"
    using inv that by (intro map_idI) (simp add: dup_inv_def group_ok_def)
  ultimately show ?thesis using Find_iff [OF inv, of m g] inv by (auto simp: dup_inv_def group_ok_def)
qed

definition demo_members :: "Member list" where
  "demo_members = [\<lparr>mb_AccountID = ''a'', mb_Collection = ''/c'', mb_UID = ''1''\<rparr>,
     \<lparr>mb_AccountID = ''b'', mb_Collection = ''/d/'', mb_UID = ''2''\<rparr>]"

definition demo_decided :: "Duplicates \<times> (dup_error + Group)" where
  "demo_decided = Decide ascii_unicode demo_entropy ''g'' ''contact'' ''ignored'' demo_members [] 7 no_duplicates"

lemma demo_trim:
  "TrimSpace [c] = [c]" if "byte c < 128" "\<not> IsSpace (byte c)" for c
  using that by (intro TrimSpace_tight) simp_all

lemma demo_members_normal:
  "map mb_normalized demo_members = [\<lparr>mb_AccountID = ''a'', mb_Collection = ''/c/'', mb_UID = ''1''\<rparr>,
     \<lparr>mb_AccountID = ''b'', mb_Collection = ''/d/'', mb_UID = ''2''\<rparr>]"
  "list_all mb_valid demo_members" "2 \<le> length (normalizeMembers demo_members)"
proof -
  have tr: "TrimSpace ''/c'' = ''/c''" "TrimSpace ''/d/'' = ''/d/''" "TrimSpace ''/c/'' = ''/c/''"
    by (rule TrimSpace_tight; simp add: IsSpace_def)+
  have np: "normalizePath ''/c'' = ''/c/''" "normalizePath ''/d/'' = ''/d/''"
    by (simp_all add: normalizePath_def tr HasPrefix_slash HasSuffix_slash)
  show m: "map mb_normalized demo_members = [\<lparr>mb_AccountID = ''a'', mb_Collection = ''/c/'', mb_UID = ''1''\<rparr>,
     \<lparr>mb_AccountID = ''b'', mb_Collection = ''/d/'', mb_UID = ''2''\<rparr>]"
    by (simp add: demo_members_def mb_normalized_def np demo_trim IsSpace_def)
  then have n: "mb_normalized (demo_members ! 0) = \<lparr>mb_AccountID = ''a'', mb_Collection = ''/c/'', mb_UID = ''1''\<rparr>"
    "mb_normalized (demo_members ! 1) = \<lparr>mb_AccountID = ''b'', mb_Collection = ''/d/'', mb_UID = ''2''\<rparr>"
    by (simp_all add: demo_members_def)
  then show v: "list_all mb_valid demo_members" by (simp add: mb_valid_def demo_members_def)
  have "mb_Key (mb_normalized (demo_members ! 0)) \<noteq> mb_Key (mb_normalized (demo_members ! 1))"
    unfolding n by (simp add: mb_Key_def)
  then show "2 \<le> length (normalizeMembers demo_members)"
    using v by (simp add: normalizeMembers_def demo_members_def Let_def)
qed

lemma demo_decided_Inr: "\<exists>d g. demo_decided = (d, Inr g)"
proof -
  have "TrimSpace ''contact'' = ''contact''" by (rule TrimSpace_tight; simp add: IsSpace_def)
  moreover have "TrimSpace ''g'' = ''g''" by (rule demo_trim) (simp_all add: IsSpace_def)
  ultimately show ?thesis
    using demo_members_normal(3)
    by (simp add: demo_decided_def Decide_def Verdict_Valid_def VerdictIgnored_def KindContact_def
        new_group_id_def Let_def)
qed

lemma demo_decided_reached: "reaches dup_start dup_step (fst demo_decided)"
proof -
  have "reaches dup_start dup_step no_duplicates" by (rule reaches_start) (simp add: dup_start_def)
  then show ?thesis unfolding demo_decided_def by (rule reaches_step) (rule ds_decide)
qed

theorem one_decision_per_record_witness:
  "\<exists>d g. demo_decided = (d, Inr g) \<and> (g \<in> set (du_Groups d) \<longrightarrow> 2 \<le> length (gr_Members g))"
proof -
  obtain d g where d: "demo_decided = (d, Inr g)" using demo_decided_Inr by blast
  have r: "reaches dup_start dup_step d" using demo_decided_reached unfolding d by simp
  from one_decision_per_record [OF r, of "hd demo_members" g]
  have "g \<in> set (du_Groups d) \<longrightarrow> 2 \<le> length (gr_Members g)" by blast
  with d show ?thesis by blast
qed

lemma append_sep_eq: "c \<notin> set w \<Longrightarrow> c \<notin> set v \<Longrightarrow> w @ c # r = v @ c # r' \<longleftrightarrow> w = v \<and> r = r'"
proof (induction w arbitrary: v)
  case Nil
  then show ?case by (cases v) auto
next
  case (Cons x w)
  then show ?case by (cases v) auto
qed

lemma Join_inj:
  "Join [c] ws = Join [c] vs \<Longrightarrow> ws \<noteq> [] \<Longrightarrow> vs \<noteq> [] \<Longrightarrow> \<forall>w \<in> set ws. c \<notin> set w \<Longrightarrow> \<forall>v \<in> set vs. c \<notin> set v \<Longrightarrow> ws = vs"
proof (induction ws arbitrary: vs)
  case (Cons w ws)
  obtain v vs' where vs: "vs = v # vs'" using Cons.prems(3) by (cases vs) auto
  have tail: "Join [c] (x # xs) = (if xs = [] then x else x @ c # Join [c] xs)" for x xs
    by (cases xs) auto
  have clean: "c \<notin> set w" "c \<notin> set v" using Cons.prems(4,5) vs by simp_all
  have eq: "Join [c] (w # ws) = Join [c] (v # vs')" using Cons.prems(1) vs by simp
  show ?case
  proof (cases "ws = [] \<or> vs' = []")
    case True
    then have "ws = [] \<and> vs' = []"
    proof
      assume ws: "ws = []"
      then have "w = (if vs' = [] then v else v @ c # Join [c] vs')" using eq tail [of v vs'] by simp
      with clean ws show ?thesis by (auto split: if_splits)
    next
      assume vs': "vs' = []"
      then have "v = (if ws = [] then w else w @ c # Join [c] ws)" using eq tail [of w ws] by simp
      with clean vs' show ?thesis by (auto split: if_splits)
    qed
    then show ?thesis using Cons.prems(1) vs by simp
  next
    case False
    then have "w @ c # Join [c] ws = v @ c # Join [c] vs'" using Cons.prems(1) vs by (simp add: tail)
    then have "w = v \<and> Join [c] ws = Join [c] vs'" using Cons.prems(4,5) vs by (simp add: append_sep_eq)
    then show ?thesis using Cons.IH [of vs'] Cons.prems(4,5) False vs by simp
  qed
qed simp

text \<open>
  The last decision counts: once \<open>Decide\<close> has accepted a set of records, each of them is found in
  the new group and only there, a pair of them counts as rejected exactly if the verdict says so, the
  same set asked about again in any order and spelling gets this decision (identifiers holding no NUL
  byte), and a group that shares no record with the set is untouched.
\<close>

theorem Decide_is_current:
  assumes "reaches dup_start dup_step d"
    and "Decide U e gid kind verdict members flds now d = (d', Inr g)"
  shows "(\<forall>m \<in> set members. mb_valid m \<longrightarrow> du_Find d' m = Some g) \<and>
    (\<forall>a \<in> set members. \<forall>b \<in> set members. mb_valid a \<and> mb_valid b \<longrightarrow>
       (Ignored d' a b \<longleftrightarrow> verdict = VerdictIgnored)) \<and>
    ((\<forall>k \<in> set (all_keys (du_Groups d')). CHR 0x00 \<notin> set k) \<longrightarrow>
       (\<forall>ms. normalizeMembers ms = normalizeMembers members \<longrightarrow> du_Verdict d' ms = Some g)) \<and>
    (\<forall>h \<in> set (du_Groups d). (\<forall>m \<in> set members. \<not> gr_Has h (mb_normalized m)) \<longrightarrow> h \<in> set (du_Groups d'))"
proof -
  have inv: "dup_inv d" by (rule dup.inv_reachable [OF assms(1)])
  note g = Decide_Inr [OF inv assms(2)]
  have inv': "dup_inv d'" using Decide_inv [OF inv, of U e gid kind verdict members flds now] assms(2) by simp
  have mem: "g \<in> set (du_Groups d')" using g(1) by simp
  have has: "gr_Has g (mb_normalized m)" if "m \<in> set members" "mb_valid m" for m
  proof -
    have "mb_Key (mb_normalized m) \<in> mb_Key ` set (gr_Members g)"
      unfolding g(3) normalizeMembers_spec(3) using that by simp
    then show ?thesis by (auto simp: gr_Has_def list_ex_iff)
  qed
  have only: "h = g" if "h \<in> set (du_Groups d')" "gr_Has h (mb_normalized m)" "m \<in> set members" "mb_valid m" for h m
    by (rule has_unique [OF inv' that(1) mem that(2) has [OF that(3,4)]])
  have find: "\<forall>m \<in> set members. mb_valid m \<longrightarrow> du_Find d' m = Some g"
    using Find_iff [OF inv'] has mem by blast
  have ign: "Ignored d' a b \<longleftrightarrow> verdict = VerdictIgnored"
    if "a \<in> set members" "b \<in> set members" "mb_valid a" "mb_valid b" for a b
    using only has mem that g(4) by (auto simp: Ignored_def Let_def list_ex_iff)
  have verd: "du_Verdict d' ms = Some g"
    if nul: "\<forall>k \<in> set (all_keys (du_Groups d')). CHR 0x00 \<notin> set k"
      and ms: "normalizeMembers ms = normalizeMembers members" for ms
  proof -
    have clean: "\<forall>k \<in> set (MemberKeys h). CHR 0x00 \<notin> set k" if "h \<in> set (du_Groups d')" for h
    proof
      fix k assume "k \<in> set (MemberKeys h)"
      then have "k \<in> set (all_keys (du_Groups d'))"
        using that unfolding set_all_keys by (auto simp: MemberKeys_def)
      with nul show "CHR 0x00 \<notin> set k" by blast
    qed
    have ne: "MemberKeys h \<noteq> []" if "h \<in> set (du_Groups d')" for h
    proof -
      have "2 \<le> length (MemberKeys h)" using inv' that by (simp add: dup_inv_def group_ok_def MemberKeys_def)
      then show ?thesis by auto
    qed
    have uniq: "h = g" if hm: "h \<in> set (du_Groups d')" and sg: "Signature h = Signature g" for h
    proof -
      have "MemberKeys h = MemberKeys g"
        using Join_inj [OF sg [unfolded Signature_def] ne [OF hm] ne [OF mem] clean [OF hm] clean [OF mem]] .
      then have keys: "set (map mb_Key (gr_Members h)) = set (map mb_Key (gr_Members g))"
        unfolding MemberKeys_def by (metis set_sort)
      obtain x where x: "x \<in> set (gr_Members h)"
        using ne [OF hm] by (cases "gr_Members h") (auto simp: MemberKeys_def)
      with keys obtain y where "y \<in> set (gr_Members g)" "mb_Key x = mb_Key y" by auto
      then show ?thesis
        using one_group_for_key [of "du_Groups d'", OF _ hm mem x] inv' by (simp add: dup_inv_def)
    qed
    have "Signature g \<noteq> []"
    proof -
      obtain k ks where ks: "MemberKeys g = k # ks" using ne [OF mem] by (cases "MemberKeys g") auto
      then have "k \<in> set (MemberKeys g)" by simp
      then have "k \<noteq> []" by (auto simp: MemberKeys_def mb_Key_def)
      with ks show ?thesis by (cases ks) (simp_all add: Signature_def)
    qed
    moreover have "Signature \<lparr>gr_ID = [], gr_Kind = [], gr_Verdict = [], gr_Members = normalizeMembers ms,
        gr_Fields = None, gr_DecidedAt = zero_time\<rparr> = Signature g"
      using ms g(3) by (simp add: Signature_def MemberKeys_def)
    ultimately show ?thesis
      using find_first_unique [OF mem, of "\<lambda>h. Signature h = Signature g"] uniq by (simp add: du_Verdict_def Let_def)
  qed
  have keep: "h \<in> set (du_Groups d')"
    if h: "h \<in> set (du_Groups d)" and no: "\<forall>m \<in> set members. \<not> gr_Has h (mb_normalized m)" for h
  proof -
    have "mb_Key x \<notin> mb_Key ` set (normalizeMembers members)" if "x \<in> set (gr_Members h)" for x
      unfolding normalizeMembers_spec(3) using no that by (fastforce simp: gr_Has_def list_ex_iff)
    then have f: "filter (\<lambda>m. mb_Key m \<notin> mb_Key ` set (normalizeMembers members)) (gr_Members h) = gr_Members h"
      by (simp add: filter_id_conv)
    have "2 \<le> length (gr_Members h)" using inv h by (simp add: dup_inv_def group_ok_def)
    then have "h \<in> set (pruned (\<lambda>m. mb_Key m \<in> mb_Key ` set (normalizeMembers members)) (du_Groups d))"
      unfolding pruned_def set_map by (intro image_eqI [where x = h]) (simp_all only: f set_filter mem_Collect_eq h simp_thms Group_same_members)
    then show ?thesis using g(1) by simp
  qed
  show ?thesis using find ign verd keep by blast
qed

theorem Decide_is_current_witness:
  "\<exists>d g. demo_decided = (d, Inr g) \<and> du_Find d (hd demo_members) = Some g"
proof -
  obtain d g where d: "demo_decided = (d, Inr g)" using demo_decided_Inr by blast
  have s: "reaches dup_start dup_step no_duplicates" by (rule reaches_start) (simp add: dup_start_def)
  have "hd demo_members \<in> set demo_members \<and> mb_valid (hd demo_members)"
    using demo_members_normal(2) by (simp add: demo_members_def)
  with Decide_is_current [OF s d [unfolded demo_decided_def]] d show ?thesis by blast
qed

text \<open>
  Records that are gone leave quietly and alone: after \<open>Prune\<close> no group names one of them, a
  group that still has two records keeps them in order with its verdict and choices, every other
  group dissolves, and the answer says exactly whether the store changed.
\<close>

theorem Prune_exact:
  assumes "reaches dup_start dup_step d" and "Prune (Some gone) d = (d', changed)"
  shows "(changed \<longleftrightarrow> d' \<noteq> d) \<and> (\<forall>h \<in> set (du_Groups d'). \<forall>m \<in> set (gr_Members h). \<not> gone m) \<and>
    du_Groups d' = map (\<lambda>h. h\<lparr>gr_Members := filter (\<lambda>m. \<not> gone m) (gr_Members h)\<rparr>)
      (filter (\<lambda>h. 2 \<le> length (filter (\<lambda>m. \<not> gone m) (gr_Members h))) (du_Groups d)) \<and>
    du_Threshold d' = du_Threshold d"
proof (cases "\<exists>h \<in> set (du_Groups d). \<exists>m \<in> set (gr_Members h). gone m")
  case True
  then have d': "d' = d\<lparr>du_Groups := pruned gone (du_Groups d)\<rparr>" "changed"
    using assms(2) by (simp_all add: Prune_pruned)
  have none: "\<forall>h \<in> set (du_Groups d'). \<forall>m \<in> set (gr_Members h). \<not> gone m" using d'(1) by (auto simp: pruned_def)
  then have "d' \<noteq> d" using True by blast
  with none d' show ?thesis by (simp add: pruned_def)
next
  case False
  then have d': "d' = d" "\<not> changed" using assms(2) by (simp_all add: Prune_pruned split: if_splits)
  have inv: "dup_inv d" by (rule dup.inv_reachable [OF assms(1)])
  have f: "filter (\<lambda>m. \<not> gone m) (gr_Members h) = gr_Members h" if "h \<in> set (du_Groups d)" for h
    using False that by (intro filter_True) blast
  have "filter (\<lambda>h. 2 \<le> length (filter (\<lambda>m. \<not> gone m) (gr_Members h))) (du_Groups d) = du_Groups d"
    using inv f by (intro filter_True) (simp add: dup_inv_def group_ok_def)
  moreover have "map (\<lambda>h. h\<lparr>gr_Members := filter (\<lambda>m. \<not> gone m) (gr_Members h)\<rparr>) (du_Groups d) = du_Groups d"
    using f by (intro map_idI) simp
  ultimately show ?thesis using d' False by simp
qed

theorem Prune_exact_witness:
  "Prune (Some (\<lambda>m. mb_UID m = ''1'')) no_duplicates = (no_duplicates, False)"
proof -
  have s: "reaches dup_start dup_step no_duplicates" by (rule reaches_start) (simp add: dup_start_def)
  obtain d changed where p: "Prune (Some (\<lambda>m. mb_UID m = ''1'')) no_duplicates = (d, changed)" by fastforce
  from Prune_exact [OF s p] have "du_Groups d = []" "du_Threshold d = 0" "changed \<longleftrightarrow> d \<noteq> no_duplicates"
    by (simp_all add: no_duplicates_def)
  with p show ?thesis by (simp add: no_duplicates_def)
qed

end
