(* ===== verification/Account.thy ===== *)
theory Account
  imports AccountDuplicates
begin

text \<open>
  \<open>internal/account/blob.go\<close>: the secrets of a user, sealed under the user's data key. \<open>encoding/json\<close>
  is the parameter \<open>json_codec\<close>; that it reads back what it wrote is a hypothesis on the blob in
  question where a property needs it. A \<open>*Blob\<close> receiver that the code checks for nil is an option.
\<close>

subsection \<open>The blob\<close>

definition blobVersion :: int where "blobVersion = 1"
definition aadSecrets :: bytes where "aadSecrets = ''carrel:secrets:v1''"

record Collection =
  co_Path :: string
  co_DisplayName :: string
  co_Kind :: string
  co_Color :: string
  co_SupportedComponents :: "string list"
  co_Privileges :: "string list"
  co_CTag :: string
  co_ReadOnly :: bool

record Account =
  ac_ID :: string
  ac_Label :: string
  ac_BaseURL :: string
  ac_Username :: string
  ac_Password :: string
  ac_Principal :: string
  ac_Enabled :: bool
  ac_Collections :: "Collection list"
  ac_DiscoveredAt :: time

record Blob =
  bl_Version :: int
  bl_Accounts :: "Account list"
  bl_Views :: Views
  bl_Duplicates :: Duplicates

record json_codec =
  jc_encode :: "Blob \<Rightarrow> bytes option"
  jc_decode :: "bytes \<Rightarrow> Blob option"

datatype blob_error = ErrJSON | ErrCrypto crypto_error | ErrAccountNotFound

definition empty_blob :: Blob where
  "empty_blob = \<lparr>bl_Version = blobVersion, bl_Accounts = [], bl_Views = no_views, bl_Duplicates = no_duplicates\<rparr>"

definition versioned :: "Blob \<Rightarrow> Blob" where
  "versioned b = (if bl_Version b = 0 then b\<lparr>bl_Version := blobVersion\<rparr> else b)"

definition blob_Open :: "json_codec \<Rightarrow> primitives \<Rightarrow> bytes \<Rightarrow> bytes \<Rightarrow> blob_error + Blob" where
  "blob_Open J P dek sealed =
     (if sealed = [] then Inr empty_blob
      else
        (case Open P dek sealed aadSecrets of
           Inl err \<Rightarrow> Inl (ErrCrypto err)
         | Inr raw \<Rightarrow>
             (case jc_decode J raw of
                None \<Rightarrow> Inl ErrJSON
              | Some blob \<Rightarrow> Inr (versioned blob))))"

definition blob_Seal :: "json_codec \<Rightarrow> primitives \<Rightarrow> entropy \<Rightarrow> bytes \<Rightarrow> Blob option \<Rightarrow> blob_error + bytes" where
  "blob_Seal J P e dek blob =
     (let blob = versioned (case blob of None \<Rightarrow> empty_blob | Some b \<Rightarrow> b)
      in case jc_encode J blob of
           None \<Rightarrow> Inl ErrJSON
         | Some raw \<Rightarrow>
             (case Seal P e dek raw aadSecrets of
                Inl err \<Rightarrow> Inl (ErrCrypto err)
              | Inr c \<Rightarrow> Inr c))"

definition CountEnabled :: "Blob option \<Rightarrow> nat" where
  "CountEnabled b = (case b of None \<Rightarrow> 0 | Some b \<Rightarrow> length (filter ac_Enabled (bl_Accounts b)))"

definition blob_Find :: "Blob option \<Rightarrow> string \<Rightarrow> blob_error + Account" where
  "blob_Find b aid =
     (case b of
        None \<Rightarrow> Inl ErrAccountNotFound
      | Some b \<Rightarrow>
          (case find_first (\<lambda>a. ac_ID a = aid) (bl_Accounts b) of
             None \<Rightarrow> Inl ErrAccountNotFound
           | Some a \<Rightarrow> Inr a))"

definition replace_account :: "Account \<Rightarrow> Blob \<Rightarrow> Blob" where
  "replace_account acc b = b\<lparr>bl_Accounts := update_first (\<lambda>a. ac_ID a = ac_ID acc) acc (bl_Accounts b)\<rparr>"

definition Upsert :: "Account \<Rightarrow> Blob option \<Rightarrow> Blob option" where
  "Upsert acc b =
     (case b of
        None \<Rightarrow> None
      | Some b \<Rightarrow>
          if find_first (\<lambda>a. ac_ID a = ac_ID acc) (bl_Accounts b) \<noteq> None then Some (replace_account acc b)
          else Some (b\<lparr>bl_Accounts := bl_Accounts b @ [acc]\<rparr>))"

definition blob_Remove :: "string \<Rightarrow> Blob option \<Rightarrow> Blob option \<times> bool" where
  "blob_Remove aid b =
     (case b of
        None \<Rightarrow> (None, False)
      | Some b \<Rightarrow>
          if find_first (\<lambda>a. ac_ID a = aid) (bl_Accounts b) \<noteq> None
          then (Some (b\<lparr>bl_Accounts := remove_first (\<lambda>a. ac_ID a = aid) (bl_Accounts b)\<rparr>), True)
          else (Some b, False))"

subsection \<open>The accounts as a table\<close>

interpretation accounts: record_table
  "\<lambda>b aid. find_first (\<lambda>a. ac_ID a = aid) (bl_Accounts b)" replace_account ac_ID bl_Accounts
  by unfold_locales
    (auto simp: replace_account_def find_first_update_first_key find_first_None dest: find_first_SomeD)

lemma find_first_remove_first:
  "distinct (map key xs) \<Longrightarrow> find_first (\<lambda>x. key x = k) (remove_first (\<lambda>x. key x = j) xs) =
     (if k = j then None else find_first (\<lambda>x. key x = k) xs)"
  by (induction xs) (auto simp: find_first_None image_iff)

lemma find_first_snoc:
  "find_first P (xs @ [x]) = (case find_first P xs of None \<Rightarrow> if P x then Some x else None | Some y \<Rightarrow> Some y)"
  by (simp add: find_first_append split: option.split)

subsection \<open>Properties\<close>

text \<open>
  C34. What is sealed is what is opened: a blob that the codec reads back is returned by \<open>Open\<close> under
  the same data key with its version set, a nil blob comes back as the empty one, and a user who has
  stored nothing yet has an empty blob.
\<close>

theorem sealed_blob_comes_back:
  assumes "primitives_ok P" and "length dek = 32"
    and "jc_encode J (versioned (case blob of None \<Rightarrow> empty_blob | Some b \<Rightarrow> b)) = Some raw"
    and "jc_decode J raw = Some (versioned (case blob of None \<Rightarrow> empty_blob | Some b \<Rightarrow> b))"
  shows "\<exists>sealed. blob_Seal J P (Some f) dek blob = Inr sealed \<and>
      blob_Open J P dek sealed = Inr (versioned (case blob of None \<Rightarrow> empty_blob | Some b \<Rightarrow> b)) \<and>
      bl_Version (versioned (case blob of None \<Rightarrow> empty_blob | Some b \<Rightarrow> b)) \<noteq> 0 \<and>
      blob_Open J P dek [] = Inr empty_blob"
proof -
  obtain c where c: "Seal P (Some f) dek raw aadSecrets = Inr c" using Seal_works [OF assms(2)] by blast
  have "c \<noteq> []" using Open_Seal(2) [OF assms(1) c] by auto
  moreover have "versioned (versioned b) = versioned b" "bl_Version (versioned b) \<noteq> 0" for b
    by (simp_all add: versioned_def blobVersion_def)
  ultimately show ?thesis
    using c assms(3,4) Open_Seal(1) [OF assms(1) c] by (simp add: blob_Seal_def blob_Open_def)
qed

definition demo_codec :: json_codec where
  "demo_codec = \<lparr>jc_encode = (\<lambda>b. if b = empty_blob then Some ''{}'' else None),
     jc_decode = (\<lambda>raw. if raw = ''{}'' then Some empty_blob else None)\<rparr>"

theorem sealed_blob_comes_back_witness:
  "\<exists>sealed. blob_Seal demo_codec demo_primitives demo_entropy demo_key None = Inr sealed \<and>
     blob_Open demo_codec demo_primitives demo_key sealed = Inr empty_blob"
proof -
  have v: "versioned empty_blob = empty_blob" by (simp add: versioned_def empty_blob_def blobVersion_def)
  show ?thesis
    using sealed_blob_comes_back [OF demo_primitives_ok, of demo_key demo_codec None "''{}''" "\<lambda>_. CHR ''r''"] v
    by (auto simp: demo_key_def demo_codec_def demo_entropy_def)
qed

text \<open>
  The accounts of a blob are a table by identifier: after \<open>Upsert\<close> the account is found as it was
  given, after \<open>Remove\<close> it is not found and the answer says whether there was one, and both leave
  every other account as it was, with identifiers still distinct.
\<close>

theorem accounts_are_a_table:
  assumes "distinct (map ac_ID (bl_Accounts b))"
  shows "\<exists>u r. Upsert acc (Some b) = Some u \<and> blob_Remove aid (Some b) = (Some r, \<exists>a. blob_Find (Some b) aid = Inr a) \<and>
    blob_Find (Some u) (ac_ID acc) = Inr acc \<and>
    (\<forall>other. other \<noteq> ac_ID acc \<longrightarrow> blob_Find (Some u) other = blob_Find (Some b) other) \<and>
    (\<forall>other. blob_Find (Some r) other = (if other = aid then Inl ErrAccountNotFound else blob_Find (Some b) other)) \<and>
    distinct (map ac_ID (bl_Accounts u)) \<and> distinct (map ac_ID (bl_Accounts r))"
proof -
  let ?find = "\<lambda>k. find_first (\<lambda>a. ac_ID a = k) (bl_Accounts b)"
  let ?r = "if ?find aid \<noteq> None then b\<lparr>bl_Accounts := remove_first (\<lambda>a. ac_ID a = aid) (bl_Accounts b)\<rparr> else b"
  let ?u = "if ?find (ac_ID acc) \<noteq> None then replace_account acc b else b\<lparr>bl_Accounts := bl_Accounts b @ [acc]\<rparr>"
  have u: "Upsert acc (Some b) = Some ?u" by (simp add: Upsert_def)
  have r: "blob_Remove aid (Some b) = (Some ?r, \<exists>a. blob_Find (Some b) aid = Inr a)"
    by (auto simp: blob_Remove_def blob_Find_def split: option.splits)
  have fu: "find_first (\<lambda>a. ac_ID a = k) (bl_Accounts ?u) = (if k = ac_ID acc then Some acc else ?find k)" for k
    using accounts.lookup_replace [where r = acc and t = b and k = k] by (auto simp: find_first_snoc split: option.splits)
  have fr: "find_first (\<lambda>a. ac_ID a = k) (bl_Accounts ?r) = (if k = aid then None else ?find k)" for k
    using find_first_remove_first [OF assms, of k aid] by (cases "k = aid") simp_all
  have du: "distinct (map ac_ID (bl_Accounts ?u))"
    using assms accounts.keys_replace [where r = acc and t = b] by (auto simp: find_first_None)
  have dr: "distinct (map ac_ID (bl_Accounts ?r))" using distinct_map_remove_first [OF assms] assms by simp
  show ?thesis
    by (intro exI [of _ ?u] exI [of _ ?r])
      (use u r fu fr du dr in \<open>simp add: blob_Find_def split: option.split\<close>)
qed

definition demo_account :: Account where
  "demo_account = \<lparr>ac_ID = ''x'', ac_Label = [], ac_BaseURL = ''https://dav.example/'', ac_Username = ''u'',
     ac_Password = ''p'', ac_Principal = ''/p/'', ac_Enabled = True, ac_Collections = [], ac_DiscoveredAt = 0\<rparr>"

theorem accounts_are_a_table_witness:
  "\<exists>u. Upsert demo_account (Some empty_blob) = Some u \<and> blob_Find (Some u) ''x'' = Inr demo_account"
  using accounts_are_a_table [of empty_blob demo_account "''x''"]
  by (auto simp: empty_blob_def demo_account_def)

end

