(* ===== verification/StoreModel.thy ===== *)
theory StoreModel
  imports Account
begin

text \<open>
  \<open>internal/store/model.go\<close>, \<open>validate.go\<close> and \<open>audit.go\<close>: the users, invites, settings and the audit log
  that make up the state of the service, the checks on names and passwords, and the log.

  A named string type of the code (\<open>Role\<close>, \<open>TLSMode\<close>, \<open>SendStatus\<close>, ...) stays a string, because any
  string may reach the code in it. Pointers to users and invites are the records themselves, found by
  key; a deep copy is the value. \<open>mail.ParseAddress\<close> of the standard library is the field
  \<open>en_ParseAddress\<close> of the environment. The sequence number of the log is an unbounded integer: it
  would take 2^63 entries to wrap.
\<close>

subsection \<open>Roles and modes\<close>

definition StateVersion :: int where "StateVersion = 1"
definition RoleUser :: string where "RoleUser = ''user''"
definition RoleAdmin :: string where "RoleAdmin = ''admin''"

definition Role_Valid :: "string \<Rightarrow> bool" where "Role_Valid r \<longleftrightarrow> r = RoleUser \<or> r = RoleAdmin"

definition TLSStartTLS :: string where "TLSStartTLS = ''starttls''"
definition TLSImplicit :: string where "TLSImplicit = ''implicit''"
definition TLSNone :: string where "TLSNone = ''none''"

definition TLSMode_Valid :: "string \<Rightarrow> bool" where
  "TLSMode_Valid m \<longleftrightarrow> m = TLSStartTLS \<or> m = TLSImplicit \<or> m = TLSNone"

subsection \<open>Users\<close>

record StoreUser =
  us_ID :: string
  us_Login :: string
  us_Email :: string
  us_DisplayName :: string
  us_EmailConfirmed :: bool
  us_Role :: string
  us_Disabled :: bool
  us_CreatedAt :: time
  us_CreatedBy :: string
  us_LastLoginAt :: time
  us_MustChangePassword :: bool
  us_Unconfirmed :: bool
  us_Auth :: "PasswordHash option"
  us_KEKSalt :: bytes
  us_KEKParams :: Params
  us_WrappedDEK :: bytes
  us_EscrowDEK :: bytes
  us_EscrowNoticeSeen :: bool
  us_EscrowRecoveredAt :: time
  us_Secrets :: bytes
  us_DAVAccountCount :: nat
  us_PendingEmail :: string
  us_EmailChangeTokenHash :: bytes
  us_EmailChangeExpires :: time
  us_WeekStart :: string
  us_ContactSort :: string
  us_NoteSort :: string

definition Activated :: "StoreUser option \<Rightarrow> bool" where
  "Activated u = (case u of None \<Rightarrow> False | Some u \<Rightarrow> us_Auth u \<noteq> None)"

definition IsAdmin :: "StoreUser option \<Rightarrow> bool" where
  "IsAdmin u = (case u of None \<Rightarrow> False | Some u \<Rightarrow> us_Role u = RoleAdmin)"

definition SenderName :: "StoreUser option \<Rightarrow> string" where
  "SenderName u =
     (case u of
        None \<Rightarrow> []
      | Some u \<Rightarrow> (let name = TrimSpace (us_DisplayName u) in if name \<noteq> [] then name else us_Login u))"

definition ReplyAddress :: "StoreUser option \<Rightarrow> string" where
  "ReplyAddress u =
     (case u of None \<Rightarrow> [] | Some u \<Rightarrow> if \<not> us_EmailConfirmed u then [] else us_Email u)"

subsection \<open>Invites\<close>

definition InvitePending :: string where "InvitePending = ''pending''"
definition InviteAccepted :: string where "InviteAccepted = ''accepted''"
definition InviteRevoked :: string where "InviteRevoked = ''revoked''"
definition InviteExpired :: string where "InviteExpired = ''expired''"

definition SendNotConfigured :: string where "SendNotConfigured = ''not_configured''"
definition SendPending :: string where "SendPending = ''pending''"
definition SendOK :: string where "SendOK = ''sent''"
definition SendFailed :: string where "SendFailed = ''failed''"

definition InviteDeliveryLink :: string where "InviteDeliveryLink = ''link''"
definition InviteDeliveryEmail :: string where "InviteDeliveryEmail = ''email''"

definition InviteDelivery_Valid :: "string \<Rightarrow> bool" where
  "InviteDelivery_Valid d \<longleftrightarrow> d = InviteDeliveryLink \<or> d = InviteDeliveryEmail"

record Invite =
  iv_ID :: string
  iv_Login :: string
  iv_Email :: string
  iv_Role :: string
  iv_Delivery :: string
  iv_TokenHash :: bytes
  iv_CreatedAt :: time
  iv_CreatedBy :: string
  iv_ExpiresAt :: time
  iv_AcceptedAt :: time
  iv_RevokedAt :: time
  iv_LastSentAt :: time
  iv_SendStatus :: string
  iv_SendError :: string

definition invite_Status :: "Invite \<Rightarrow> time \<Rightarrow> string" where
  "invite_Status i now =
     (if \<not> is_zero (iv_AcceptedAt i) then InviteAccepted
      else if \<not> is_zero (iv_RevokedAt i) then InviteRevoked
      else if \<not> now < iv_ExpiresAt i then InviteExpired
      else InvitePending)"

definition Usable :: "Invite \<Rightarrow> time \<Rightarrow> bool" where
  "Usable i now \<longleftrightarrow> invite_Status i now = InvitePending"

subsection \<open>Settings\<close>

record SMTP =
  sm_Host :: string
  sm_Port :: int
  sm_TLS :: string
  sm_Username :: string
  sm_Password :: bytes
  sm_FromAddress :: string
  sm_FromName :: string

definition SMTP_Configured :: "SMTP \<Rightarrow> bool" where
  "SMTP_Configured s \<longleftrightarrow> sm_Host s \<noteq> [] \<and> sm_Port s > 0 \<and> sm_FromAddress s \<noteq> []"

record EscrowSettings =
  eg_Enabled :: bool
  eg_ForbidOptOut :: bool
  eg_Config :: "Escrow option"

definition Escrow_Active :: "EscrowSettings \<Rightarrow> bool" where
  "Escrow_Active e \<longleftrightarrow> eg_Enabled e \<and> eg_Config e \<noteq> None"

definition DefaultInviteTTL :: duration where "DefaultInviteTTL = 72 * hour"
definition DefaultSessionIdle :: duration where "DefaultSessionIdle = 12 * hour"
definition DefaultSessionAbsolute :: duration where "DefaultSessionAbsolute = 7 * 24 * hour"

record Settings =
  sg_SelfRegistration :: bool
  sg_InviteTTLSeconds :: int
  sg_SessionIdleSeconds :: int
  sg_SessionAbsoluteSeconds :: int
  sg_SMTP :: SMTP
  sg_Escrow :: EscrowSettings

definition secondsOr :: "int \<Rightarrow> duration \<Rightarrow> duration" where
  "secondsOr v fallback = (if v \<le> 0 then fallback else wrap64 (v * second))"

definition InviteTTL :: "Settings \<Rightarrow> duration" where
  "InviteTTL s = secondsOr (sg_InviteTTLSeconds s) DefaultInviteTTL"

definition SessionIdle :: "Settings \<Rightarrow> duration" where
  "SessionIdle s = secondsOr (sg_SessionIdleSeconds s) DefaultSessionIdle"

definition SessionAbsolute :: "Settings \<Rightarrow> duration" where
  "SessionAbsolute s = secondsOr (sg_SessionAbsoluteSeconds s) DefaultSessionAbsolute"

definition defaultSettings :: Settings where
  "defaultSettings = \<lparr>sg_SelfRegistration = False,
     sg_InviteTTLSeconds = DefaultInviteTTL div second,
     sg_SessionIdleSeconds = DefaultSessionIdle div second,
     sg_SessionAbsoluteSeconds = DefaultSessionAbsolute div second,
     sg_SMTP = \<lparr>sm_Host = [], sm_Port = 0, sm_TLS = [], sm_Username = [], sm_Password = [],
                sm_FromAddress = [], sm_FromName = []\<rparr>,
     sg_Escrow = \<lparr>eg_Enabled = False, eg_ForbidOptOut = False, eg_Config = None\<rparr>\<rparr>"

subsection \<open>The log and the state\<close>

record Actor =
  at_ID :: string
  at_Login :: string
  at_IP :: string

record AuditEntry =
  ae_Seq :: int
  ae_At :: time
  ae_Action :: string
  ae_ActorID :: string
  ae_ActorLogin :: string
  ae_TargetID :: string
  ae_TargetLogin :: string
  ae_IP :: string
  ae_Detail :: string

record AuditFilter =
  af_Action :: string
  af_ActorID :: string
  af_TargetID :: string
  af_Since :: time
  af_Categories :: "string list"
  af_Limit :: int

definition MaxAuditEntries :: nat where "MaxAuditEntries = 10000"

record State =
  sa_Version :: int
  sa_CreatedAt :: time
  sa_Users :: "StoreUser list"
  sa_Invites :: "Invite list"
  sa_Settings :: Settings
  sa_Audit :: "AuditEntry list"
  sa_AuditSeq :: int

definition newState :: "time \<Rightarrow> State" where
  "newState now = \<lparr>sa_Version = StateVersion, sa_CreatedAt = now, sa_Users = [], sa_Invites = [],
     sa_Settings = defaultSettings, sa_Audit = [], sa_AuditSeq = 0\<rparr>"

text \<open>An entry with the fields a caller leaves out set to their zero values.\<close>

definition blank_entry :: AuditEntry where
  "blank_entry = \<lparr>ae_Seq = 0, ae_At = zero_time, ae_Action = [], ae_ActorID = [], ae_ActorLogin = [],
     ae_TargetID = [], ae_TargetLogin = [], ae_IP = [], ae_Detail = []\<rparr>"

definition appendAudit :: "time \<Rightarrow> AuditEntry \<Rightarrow> State \<Rightarrow> State" where
  "appendAudit now e st =
     (let st = st\<lparr>sa_AuditSeq := sa_AuditSeq st + 1\<rparr>;
          e = e\<lparr>ae_Seq := sa_AuditSeq st\<rparr>;
          e = (if is_zero (ae_At e) then e\<lparr>ae_At := now\<rparr> else e);
          st = st\<lparr>sa_Audit := sa_Audit st @ [e]\<rparr>
      in if length (sa_Audit st) > MaxAuditEntries
         then st\<lparr>sa_Audit := drop (length (sa_Audit st) - MaxAuditEntries) (sa_Audit st)\<rparr> else st)"

definition audit_matches :: "AuditEntry \<Rightarrow> AuditFilter \<Rightarrow> bool" where
  "audit_matches e f =
     (if af_Action f \<noteq> [] \<and> ae_Action e \<noteq> af_Action f then False
      else if af_ActorID f \<noteq> [] \<and> ae_ActorID e \<noteq> af_ActorID f then False
      else if af_TargetID f \<noteq> [] \<and> ae_TargetID e \<noteq> af_TargetID f then False
      else if \<not> is_zero (af_Since f) \<and> ae_At e < af_Since f then False
      else if 0 < length (af_Categories f) \<and> \<not> List.member (af_Categories f) (ae_Action e) then False
      else True)"

fun audit_loop :: "AuditFilter \<Rightarrow> AuditEntry list \<Rightarrow> AuditEntry list \<Rightarrow> AuditEntry list" where
  "audit_loop f [] out = out"
| "audit_loop f (e # es) out =
     (if \<not> audit_matches e f then audit_loop f es out
      else
        (let out = out @ [e]
         in if af_Limit f > 0 \<and> int (length out) \<ge> af_Limit f then out else audit_loop f es out))"

definition Audit :: "AuditFilter \<Rightarrow> State \<Rightarrow> AuditEntry list" where
  "Audit f st = audit_loop f (rev (sa_Audit st)) []"

end
