(* ===== verification/StoreCore.thy ===== *)
theory StoreCore
  imports StoreModel
begin

text \<open>
  \<open>internal/store/store.go\<close> and \<open>validate.go\<close>: the store as a state in memory with its encrypted
  file. Every change runs on a copy, which replaces the state only once it is on disk; the write goes
  through a temporary file and a rename. What the file system answers is an argument, and a write is
  the list of states the directory goes through, so that a crash between two of them is a prefix of it.

  \<open>encoding/json\<close> on the whole state is the pair \<open>en_encode\<close>, \<open>en_decode\<close> of the environment. The clock
  readings and the random bytes of one call are \<open>wd_clk\<close> and \<open>wd_ent\<close>, numbered by their place in the
  text of the method.
\<close>

subsection \<open>Environment and errors\<close>

record store_env =
  en_P :: primitives
  en_U :: unicode
  en_J :: json_codec
  en_ParseAddress :: "string \<Rightarrow> bool"
  en_encode :: "State \<Rightarrow> bytes option"
  en_decode :: "bytes \<Rightarrow> State option"
  en_Auth :: Params
  en_KEK :: Params
  en_Master :: Params

record file_io =
  fi_create :: bool
  fi_chmod :: bool
  fi_write :: bool
  fi_written :: nat
  fi_sync :: bool
  fi_close :: bool
  fi_rename :: bool

record world =
  wd_clk :: "nat \<Rightarrow> time"
  wd_ent :: "nat \<Rightarrow> entropy"
  wd_nonce :: entropy
  wd_io :: file_io

datatype serror = ErrNotFound | ErrLoginTaken | ErrLastAdmin | ErrNotBootstrap | ErrAuth | ErrUserDisabled
  | ErrUserUnconfirmed | ErrRegistrationClosed | ErrInviteInvalid | ErrInviteNotByEmail | ErrEscrowActive
  | ErrUnsupportedVersion | ErrEscrowNotConfigured | ErrEscrowConfigured | ErrEscrowNotDeposited
  | ErrEscrowDeposited | ErrLogin | ErrEmail | ErrPassword | ErrDisplayName | ErrUnknownRole
  | ErrUnknownDelivery | ErrLinkEmail | ErrEmailRequired | ErrEmailUnchanged | ErrWeekStart | ErrTLSMode
  | ErrPort | ErrBaseURL | ErrUsername | ErrDiscovery | ErrEncode | ErrDecode | ErrFile
  | ErrCryptoIn crypto_error | ErrBlobIn blob_error

definition zero_params :: Params where
  "zero_params = \<lparr>pa_Time = 0, pa_Memory = 0, pa_Threads = 0, pa_KeyLen = 0\<rparr>"

definition store_withDefaults :: "store_env \<Rightarrow> store_env" where
  "store_withDefaults E =
     (let E = (if en_Auth E = zero_params then E\<lparr>en_Auth := AuthParams\<rparr> else E);
          E = (if en_KEK E = zero_params then E\<lparr>en_KEK := KEKParams\<rparr> else E);
          E = (if en_Master E = zero_params then E\<lparr>en_Master := MasterParams\<rparr> else E)
      in E)"

subsection \<open>Checks\<close>

definition MaxLoginLength :: nat where "MaxLoginLength = 64"
definition ForbiddenLogin :: string where "ForbiddenLogin = ''noreply''"
definition MaxDisplayNameLength :: nat where "MaxDisplayNameLength = 200"

definition NormalizeLogin :: "store_env \<Rightarrow> string \<Rightarrow> string" where
  "NormalizeLogin E login = ToLower (en_U E) (TrimSpace login)"

text \<open>The loop over the runes of a login of \<open>n\<close> bytes, the next one at byte \<open>i\<close>.\<close>

fun login_runes_ok :: "nat \<Rightarrow> nat \<Rightarrow> (rune \<times> string) list \<Rightarrow> bool" where
  "login_runes_ok n i [] = True"
| "login_runes_ok n i ((r, bs) # rs) =
     (if (97 \<le> r \<and> r \<le> 122) \<or> (48 \<le> r \<and> r \<le> 57) then login_runes_ok n (i + length bs) rs
      else if (r = 46 \<or> r = 95 \<or> r = 45) \<and> 0 < i \<and> int i < int n - 1 then login_runes_ok n (i + length bs) rs
      else False)"

definition ValidateLogin :: "string \<Rightarrow> serror option" where
  "ValidateLogin login =
     (if login = [] \<or> login = ForbiddenLogin \<or> length login > MaxLoginLength then Some ErrLogin
      else if login_runes_ok (length login) 0 (chunks login) then None else Some ErrLogin)"

definition NormalizeEmail :: "string \<Rightarrow> string" where "NormalizeEmail email = TrimSpace email"

definition ValidateEmail :: "store_env \<Rightarrow> string \<Rightarrow> serror option" where
  "ValidateEmail E email = (if email = [] then None else if en_ParseAddress E email then None else Some ErrEmail)"

definition ValidatePassword :: "string \<Rightarrow> serror option" where
  "ValidatePassword password = (if length (runes password) < MinPasswordLength then Some ErrPassword else None)"

definition NormalizeDisplayName :: "string \<Rightarrow> string" where
  "NormalizeDisplayName name = delete_byte (CHR 0x0A) (delete_byte (CHR 0x0D) (TrimSpace name))"

definition ValidateDisplayName :: "string \<Rightarrow> serror option" where
  "ValidateDisplayName name =
     (if length (runes (NormalizeDisplayName name)) > MaxDisplayNameLength then Some ErrDisplayName else None)"

definition validateNewUser :: "store_env \<Rightarrow> string \<Rightarrow> string \<Rightarrow> string \<Rightarrow> serror option" where
  "validateNewUser E login email password =
     (case ValidateLogin login of
        Some e \<Rightarrow> Some e
      | None \<Rightarrow>
          (case ValidateEmail E email of
             Some e \<Rightarrow> Some e
           | None \<Rightarrow> ValidatePassword password))"

subsection \<open>The file\<close>

text \<open>
  The states of the directory a write goes through, each the temporary file and the state file, and
  whether the write succeeded. A write that fails has put \<open>fi_written\<close> bytes into the temporary file.
\<close>

definition writeAtomic ::
    "file_io \<Rightarrow> bytes \<Rightarrow> bytes option \<Rightarrow> (bytes option \<times> bytes option) list \<times> bool" where
  "writeAtomic io data file =
     (if \<not> fi_create io then ([(None, file)], False)
      else if \<not> fi_chmod io then ([(Some [], file), (None, file)], False)
      else if \<not> fi_write io
      then ([(Some [], file), (Some (take (fi_written io) data), file), (None, file)], False)
      else if \<not> fi_sync io \<or> \<not> fi_close io \<or> \<not> fi_rename io
      then ([(Some [], file), (Some (take (fi_written io) data), file), (Some data, file), (None, file)], False)
      else ([(Some [], file), (Some (take (fi_written io) data), file), (Some data, file), (None, Some data)], True))"

definition persist ::
    "store_env \<Rightarrow> world \<Rightarrow> bytes \<Rightarrow> State \<Rightarrow> bytes option \<Rightarrow> bytes option list \<times> serror option" where
  "persist E w key st file =
     (case en_encode E st of
        None \<Rightarrow> ([file], Some ErrEncode)
      | Some plaintext \<Rightarrow>
          (case SealState (en_P E) (wd_nonce w) key plaintext of
             Inl err \<Rightarrow> ([file], Some (ErrCryptoIn err))
           | Inr ciphertext \<Rightarrow>
               (case writeAtomic (wd_io w) ciphertext file of (trace, good) \<Rightarrow>
                  (map snd trace, if good then None else Some ErrFile))))"

subsection \<open>The store\<close>

record Store =
  sr_key :: bytes
  sr_state :: State
  sr_file :: "bytes option"

definition cloneState :: "store_env \<Rightarrow> State \<Rightarrow> serror + State" where
  "cloneState E st =
     (case en_encode E st of
        None \<Rightarrow> Inl ErrEncode
      | Some raw \<Rightarrow> (case en_decode E raw of None \<Rightarrow> Inl ErrDecode | Some out \<Rightarrow> Inr out))"

text \<open>
  \<open>update\<close> with the states of the file on the way; what the change computes besides the next state is
  the value of the call.
\<close>

definition update_trace ::
    "store_env \<Rightarrow> world \<Rightarrow> (State \<Rightarrow> serror + State \<times> 'a) \<Rightarrow> Store \<Rightarrow>
     Store \<times> (serror + 'a) \<times> bytes option list" where
  "update_trace E w f s =
     (case cloneState E (sr_state s) of
        Inl err \<Rightarrow> (s, Inl err, [sr_file s])
      | Inr next \<Rightarrow>
          (case f next of
             Inl err \<Rightarrow> (s, Inl err, [sr_file s])
           | Inr (next, a) \<Rightarrow>
               (case persist E w (sr_key s) next (sr_file s) of (files, res) \<Rightarrow>
                  (case res of
                     Some err \<Rightarrow> (s\<lparr>sr_file := last files\<rparr>, Inl err, files)
                   | None \<Rightarrow> (s\<lparr>sr_state := next, sr_file := last files\<rparr>, Inr a, files)))))"

definition store_update ::
    "store_env \<Rightarrow> world \<Rightarrow> (State \<Rightarrow> serror + State \<times> 'a) \<Rightarrow> Store \<Rightarrow> Store \<times> (serror + 'a)" where
  "store_update E w f s = (case update_trace E w f s of (s', res, _) \<Rightarrow> (s', res))"

definition migrate :: "State \<Rightarrow> State" where
  "migrate st = st\<lparr>sa_Version := StateVersion\<rparr>"

definition store_load :: "store_env \<Rightarrow> time \<Rightarrow> bool \<Rightarrow> bytes \<Rightarrow> bytes option \<Rightarrow> serror + State" where
  "store_load E now readable key file =
     (case file of
        None \<Rightarrow> Inr (newState now)
      | Some raw \<Rightarrow>
          if \<not> readable then Inl ErrFile
          else
            (case OpenState (en_P E) key raw of
               Inl err \<Rightarrow> Inl (ErrCryptoIn err)
             | Inr plaintext \<Rightarrow>
                 (case en_decode E plaintext of
                    None \<Rightarrow> Inl ErrDecode
                  | Some st \<Rightarrow>
                      if sa_Version st > StateVersion then Inl ErrUnsupportedVersion
                      else if sa_Version st < StateVersion then Inr (migrate st)
                      else Inr st)))"

text \<open>\<open>OpenWith\<close> on a data directory: the key file with what its creation does, then the state file.\<close>

definition OpenWith ::
    "store_env \<Rightarrow> key_io \<Rightarrow> entropy \<Rightarrow> time \<Rightarrow> bool \<Rightarrow> bytes option \<Rightarrow> bytes option \<Rightarrow>
     bytes option \<times> (serror + Store)" where
  "OpenWith E io e now readable keyfile file =
     (case LoadOrCreateServerKey io e keyfile of
        (keyfile, Inl err) \<Rightarrow> (keyfile, Inl (ErrCryptoIn err))
      | (keyfile, Inr key) \<Rightarrow>
          (case store_load (store_withDefaults E) now readable key file of
             Inl err \<Rightarrow> (keyfile, Inl err)
           | Inr st \<Rightarrow> (keyfile, Inr \<lparr>sr_key = key, sr_state = st, sr_file = file\<rparr>)))"

definition store_Close :: "Store \<Rightarrow> Store" where
  "store_Close s = s\<lparr>sr_key := Zero (sr_key s)\<rparr>"

definition NeedsBootstrap :: "State \<Rightarrow> bool" where
  "NeedsBootstrap st \<longleftrightarrow> \<not> list_ex (\<lambda>u. us_Role u = RoleAdmin) (sa_Users st)"

definition store_newID :: "entropy \<Rightarrow> serror + string" where
  "store_newID e =
     (case Random e 16 of Inl err \<Rightarrow> Inl (ErrCryptoIn err) | Inr b \<Rightarrow> Inr (hex_encode b))"

subsection \<open>Lemmas\<close>

text \<open>What \<open>json_reads_back E st\<close> says of a state is what the codec is relied on for.\<close>

definition json_reads_back :: "store_env \<Rightarrow> State \<Rightarrow> bool" where
  "json_reads_back E st \<longleftrightarrow> (case en_encode E st of None \<Rightarrow> False | Some raw \<Rightarrow> en_decode E raw = Some st)"

lemma cloneState_reads_back: "json_reads_back E st \<Longrightarrow> cloneState E st = Inr st"
  by (auto simp: json_reads_back_def cloneState_def split: option.splits)

lemma writeAtomic_states:
  assumes "writeAtomic io data file = (trace, good)"
  shows "trace \<noteq> []" and "snd (last trace) = (if good then Some data else file)"
    and "\<forall>x \<in> set trace. snd x = file \<or> snd x = Some data" and "good \<Longrightarrow> fst (last trace) = None"
  using assms by (auto simp: writeAtomic_def split: if_splits)

lemma persist_states:
  assumes "persist E w key st file = (files, res)"
  shows "files \<noteq> []" and "res \<noteq> None \<Longrightarrow> last files = file"
    and "res = None \<Longrightarrow> \<exists>raw c. en_encode E st = Some raw \<and>
      SealState (en_P E) (wd_nonce w) key raw = Inr c \<and> last files = Some c"
    and "x \<in> set files \<Longrightarrow> x = file \<or> (\<exists>raw c. en_encode E st = Some raw \<and>
      SealState (en_P E) (wd_nonce w) key raw = Inr c \<and> x = Some c)"
  using assms
  by (auto simp: persist_def writeAtomic_def split: option.splits sum.splits if_splits)

lemma store_update_Inr:
  assumes "store_update E w f s = (s', Inr a)"
  shows "\<exists>st st'. cloneState E (sr_state s) = Inr st \<and> f st = Inr (st', a) \<and> sr_state s' = st' \<and> sr_key s' = sr_key s"
  using assms by (auto simp: store_update_def update_trace_def split: sum.splits prod.splits option.splits)

lemma store_update_Inl:
  assumes "store_update E w f s = (s', Inl e)"
  shows "s' = s"
  using assms by (auto simp: store_update_def update_trace_def dest!: persist_states(2)
      split: sum.splits prod.splits option.splits)

text \<open>
  C1. A change happens on disk and in memory or not at all: if \<open>update\<close> reports an error, the state
  and the file are as before, and if it succeeds, both are the next state; at whatever point the
  process dies, the file holds the old content or the complete new one, and what is loaded from it
  at the next start is the state before or the state after.
\<close>

theorem update_is_atomic:
  assumes P: "primitives_ok (en_P E)" and rb: "json_reads_back E (sr_state s)"
    and rb': "\<And>st a. f (sr_state s) = Inr (st, a) \<Longrightarrow> json_reads_back E st \<and> sa_Version st = StateVersion"
    and synced: "store_load E now True (sr_key s) (sr_file s) = Inr (sr_state s)"
    and up: "update_trace E w f s = (s', res, files)"
  shows "(\<forall>e. res = Inl e \<longrightarrow> s' = s) \<and>
    (\<forall>a. res = Inr a \<longrightarrow> f (sr_state s) = Inr (sr_state s', a)) \<and>
    sr_file s' = last files \<and> store_load E now True (sr_key s) (sr_file s') = Inr (sr_state s') \<and>
    (\<forall>file \<in> set files. store_load E now True (sr_key s) file = Inr (sr_state s) \<or>
       (\<exists>st a. f (sr_state s) = Inr (st, a) \<and> store_load E now True (sr_key s) file = Inr st))"
proof (cases "f (sr_state s)")
  case (Inl err)
  then show ?thesis using up synced by (auto simp: update_trace_def cloneState_reads_back [OF rb])
next
  case (Inr r)
  obtain st a where r: "r = (st, a)" by fastforce
  have f: "f (sr_state s) = Inr (st, a)" using Inr r by simp
  obtain fs pres where p: "persist E w (sr_key s) st (sr_file s) = (fs, pres)" by fastforce
  have loads: "store_load E now True (sr_key s) (Some c) = Inr st"
    if "en_encode E st = Some raw" "SealState (en_P E) (wd_nonce w) (sr_key s) raw = Inr c" for raw c
    using Open_Seal(1) [OF P that(2) [unfolded SealState_def]] rb' [OF f] that(1)
    by (auto simp: store_load_def OpenState_def json_reads_back_def)
  have each: "store_load E now True (sr_key s) fl = Inr (sr_state s) \<or>
      store_load E now True (sr_key s) fl = Inr st" if "fl \<in> set fs" for fl
    using persist_states(4) [OF p that] synced loads by auto
  show ?thesis
  proof (cases pres)
    case None
    obtain raw c where c: "en_encode E st = Some raw" "SealState (en_P E) (wd_nonce w) (sr_key s) raw = Inr c"
      "last fs = Some c" using persist_states(3) [OF p None] by blast
    then show ?thesis
      using up f p None each loads [OF c(1,2)] by (auto simp: update_trace_def cloneState_reads_back [OF rb])
  next
    case (Some err)
    then have "last fs = sr_file s" using persist_states(2) [OF p] by simp
    then show ?thesis
      using up f p Some each synced by (auto simp: update_trace_def cloneState_reads_back [OF rb])
  qed
qed

definition demo_io_ok :: file_io where
  "demo_io_ok = \<lparr>fi_create = True, fi_chmod = True, fi_write = True, fi_written = 0, fi_sync = True,
     fi_close = True, fi_rename = True\<rparr>"

definition demo_world :: world where
  "demo_world = \<lparr>wd_clk = (\<lambda>_. 1), wd_ent = (\<lambda>_. demo_entropy), wd_nonce = demo_entropy, wd_io = demo_io_ok\<rparr>"

text \<open>A codec for the states a run goes through, given as a list: a state is written as its position.\<close>

definition list_codec :: "State list \<Rightarrow> store_env" where
  "list_codec sts = \<lparr>en_P = demo_primitives, en_U = ascii_unicode, en_J = demo_codec,
     en_ParseAddress = (\<lambda>_. True),
     en_encode = (\<lambda>st. if st \<in> set sts then Some (replicate (length (takeWhile (\<lambda>x. x \<noteq> st) sts)) (CHR ''x'')) else None),
     en_decode = (\<lambda>raw. if length raw < length sts then Some (sts ! length raw) else None),
     en_Auth = AuthParams, en_KEK = KEKParams, en_Master = MasterParams\<rparr>"

lemma length_takeWhile_less: "x \<in> set xs \<Longrightarrow> \<not> P x \<Longrightarrow> length (takeWhile P xs) < length xs"
  by (induction xs) auto

lemma list_codec_reads_back:
  assumes "st \<in> set sts"
  shows "json_reads_back (list_codec sts) st"
proof -
  have "length (takeWhile (\<lambda>x. x \<noteq> st) sts) < length sts" using assms by (rule length_takeWhile_less) simp
  moreover from this have "sts ! length (takeWhile (\<lambda>x. x \<noteq> st) sts) = st"
    using nth_length_takeWhile [of "\<lambda>x. x \<noteq> st" sts] by simp
  ultimately show ?thesis using assms by (simp add: json_reads_back_def list_codec_def)
qed

text \<open>In a world where every call succeeds, a change whose states the codec knows is made.\<close>

lemma update_works:
  assumes r: "json_reads_back E (sr_state s)" "json_reads_back E st"
    and f: "f (sr_state s) = Inr (st, a)" and k: "length (sr_key s) = 32"
  shows "\<exists>files. update_trace E (w\<lparr>wd_nonce := demo_entropy, wd_io := demo_io_ok\<rparr>) f s =
    (s\<lparr>sr_state := st, sr_file := last files\<rparr>, Inr a, files)"
proof -
  let ?w = "w\<lparr>wd_nonce := demo_entropy, wd_io := demo_io_ok\<rparr>"
  obtain raw where raw: "en_encode E st = Some raw" using r(2) by (auto simp: json_reads_back_def split: option.splits)
  obtain c where c: "SealState (en_P E) (wd_nonce ?w) (sr_key s) raw = Inr c"
    using Seal_works [OF k] unfolding SealState_def demo_entropy_def by force
  obtain files where "persist E ?w (sr_key s) st (sr_file s) = (files, None)"
    using raw c by (simp add: persist_def writeAtomic_def demo_io_ok_def)
  then show ?thesis using f by (intro exI [of _ files]) (simp add: update_trace_def cloneState_reads_back [OF r(1)])
qed

lemma demo_world_same [simp]: "demo_world\<lparr>wd_nonce := demo_entropy, wd_io := demo_io_ok\<rparr> = demo_world"
  by (simp add: demo_world_def)

definition demo_store :: Store where
  "demo_store = \<lparr>sr_key = demo_key, sr_state = newState 1, sr_file = None\<rparr>"

lemma demo_store_state [simp]: "sr_state demo_store = newState 1"
  by (simp add: demo_store_def)

lemma demo_store_key [simp]: "length (sr_key demo_store) = 32"
  by (simp add: demo_store_def demo_key_def)

theorem update_is_atomic_witness:
  "\<exists>s' files. update_trace (list_codec [newState 1, newState 2]) demo_world
     (\<lambda>st. Inr (newState 2, ())) demo_store = (s', Inr (), files) \<and> sr_state s' = newState 2 \<and> sr_file s' = last files"
proof -
  let ?E = "list_codec [newState 1, newState 2]"
  have P: "primitives_ok (en_P ?E)" by (simp add: list_codec_def demo_primitives_ok)
  have r: "json_reads_back ?E (sr_state demo_store)" "json_reads_back ?E (newState 2)"
    by (rule list_codec_reads_back; simp add: demo_store_def)+
  have l: "store_load ?E 1 True (sr_key demo_store) (sr_file demo_store) = Inr (sr_state demo_store)"
    by (simp add: store_load_def demo_store_def)
  obtain s' files where up: "update_trace ?E demo_world (\<lambda>st. Inr (newState 2, ())) demo_store = (s', Inr (), files)"
    using update_works [OF r, of "\<lambda>st. Inr (newState 2, ())" "()" demo_world] by auto
  have "(Inr (newState 2, ()) :: serror + State \<times> unit) = Inr (sr_state s', ())" "sr_file s' = last files"
    using update_is_atomic [OF P r(1) _ l up] r(2) by (simp_all add: newState_def)
  with up show ?thesis by simp
qed

end
