(* ===== verification/StoreUsers.thy ===== *)
theory StoreUsers
  imports StoreCore
begin

text \<open>
  \<open>internal/store/users.go\<close>, \<open>register.go\<close> and \<open>email_change.go\<close>. A method of the store that changes
  state is a check of its arguments followed by \<open>store_update\<close> of a function on the state; that
  function has the name of the method with the suffix \<open>_fn\<close>. \<open>w\<close> holds the clock readings and the
  random bytes of the call.
\<close>

subsection \<open>Finding users\<close>

definition findUser :: "State \<Rightarrow> string \<Rightarrow> StoreUser option" where
  "findUser st uid = find_first (\<lambda>u. us_ID u = uid) (sa_Users st)"

definition findUserByLogin :: "State \<Rightarrow> string \<Rightarrow> StoreUser option" where
  "findUserByLogin st login = find_first (\<lambda>u. us_Login u = login) (sa_Users st)"

text \<open>Writing through the pointer that \<open>findUser\<close> returns.\<close>

definition putUser :: "StoreUser \<Rightarrow> State \<Rightarrow> State" where
  "putUser u st = st\<lparr>sa_Users := update_first (\<lambda>x. us_ID x = us_ID u) u (sa_Users st)\<rparr>"

definition addUser :: "StoreUser \<Rightarrow> State \<Rightarrow> State" where
  "addUser u st = st\<lparr>sa_Users := sa_Users st @ [u]\<rparr>"

definition isLastActiveAdmin :: "State \<Rightarrow> StoreUser \<Rightarrow> bool" where
  "isLastActiveAdmin st u =
     (if us_Role u \<noteq> RoleAdmin \<or> us_Disabled u \<or> us_Unconfirmed u then False
      else list_all (\<lambda>x. us_ID x = us_ID u \<or> us_Role x \<noteq> RoleAdmin \<or> us_Disabled x \<or> us_Unconfirmed x)
             (sa_Users st))"

definition checkLoginFree :: "State \<Rightarrow> string \<Rightarrow> serror option" where
  "checkLoginFree st login = (if findUserByLogin st login \<noteq> None then Some ErrLoginTaken else None)"

definition store_Users :: "State \<Rightarrow> StoreUser list" where
  "store_Users st = sort_key us_Login (sa_Users st)"

definition store_User :: "State \<Rightarrow> string \<Rightarrow> serror + StoreUser" where
  "store_User st uid = (case findUser st uid of None \<Rightarrow> Inl ErrNotFound | Some u \<Rightarrow> Inr u)"

definition UserByLogin :: "store_env \<Rightarrow> State \<Rightarrow> string \<Rightarrow> serror + StoreUser" where
  "UserByLogin E st login =
     (case findUserByLogin st (NormalizeLogin E login) of None \<Rightarrow> Inl ErrNotFound | Some u \<Rightarrow> Inr u)"

subsection \<open>Credentials\<close>

text \<open>
  The entropies: the salt of the verifier, the salt of the key, the data key, the nonce of the wrapping,
  and for a deposit the ephemeral key and its nonce.
\<close>

definition setCredentials ::
    "store_env \<Rightarrow> (nat \<Rightarrow> entropy) \<Rightarrow> string \<Rightarrow> EscrowSettings \<Rightarrow> StoreUser \<Rightarrow> serror + StoreUser" where
  "setCredentials E ent password esc u =
     (case HashPassword (en_P E) (ent 0) password (en_Auth E) of
        Inl err \<Rightarrow> Inl (ErrCryptoIn err)
      | Inr auth \<Rightarrow>
     (case NewSalt (ent 1) of
        Inl err \<Rightarrow> Inl (ErrCryptoIn err)
      | Inr kekSalt \<Rightarrow>
     (case DeriveKey (en_P E) password kekSalt (en_KEK E) of
        Inl err \<Rightarrow> Inl (ErrCryptoIn err)
      | Inr kek \<Rightarrow>
     (case NewDEK (ent 2) of
        Inl err \<Rightarrow> Inl (ErrCryptoIn err)
      | Inr dek \<Rightarrow>
     (case WrapDEK (en_P E) (ent 3) kek dek of
        Inl err \<Rightarrow> Inl (ErrCryptoIn err)
      | Inr wrapped \<Rightarrow>
     (case (if Escrow_Active esc then SealDEK (en_P E) (ent 4) (ent 5) (eg_Config esc) dek else Inr []) of
        Inl err \<Rightarrow> Inl (ErrCryptoIn err)
      | Inr escrowed \<Rightarrow>
          Inr (u\<lparr>us_Auth := Some auth, us_KEKSalt := kekSalt, us_KEKParams := en_KEK E,
                 us_WrappedDEK := wrapped, us_EscrowDEK := escrowed\<rparr>)))))))"

definition blank_user :: StoreUser where
  "blank_user = \<lparr>us_ID = [], us_Login = [], us_Email = [], us_DisplayName = [], us_EmailConfirmed = False,
     us_Role = [], us_Disabled = False, us_CreatedAt = zero_time, us_CreatedBy = [],
     us_LastLoginAt = zero_time, us_MustChangePassword = False, us_Unconfirmed = False, us_Auth = None,
     us_KEKSalt = [], us_KEKParams = zero_params, us_WrappedDEK = [], us_EscrowDEK = [],
     us_EscrowNoticeSeen = False, us_EscrowRecoveredAt = zero_time, us_Secrets = [],
     us_DAVAccountCount = 0, us_PendingEmail = [], us_EmailChangeTokenHash = [],
     us_EmailChangeExpires = zero_time, us_WeekStart = [], us_ContactSort = [], us_NoteSort = []\<rparr>"

definition newUser ::
    "store_env \<Rightarrow> world \<Rightarrow> State \<Rightarrow> string \<Rightarrow> string \<Rightarrow> string \<Rightarrow> string \<Rightarrow> string \<Rightarrow> serror + StoreUser" where
  "newUser E w st login email role password createdBy =
     (case store_newID (wd_ent w 0) of
        Inl err \<Rightarrow> Inl err
      | Inr uid \<Rightarrow>
          setCredentials E (\<lambda>i. wd_ent w (Suc i)) password (sg_Escrow (sa_Settings st))
            (blank_user\<lparr>us_ID := uid, us_Login := login, us_Email := email, us_Role := role,
                        us_CreatedAt := wd_clk w 0, us_CreatedBy := createdBy\<rparr>))"

definition unwrap_user_DEK :: "store_env \<Rightarrow> StoreUser \<Rightarrow> string \<Rightarrow> serror + bytes" where
  "unwrap_user_DEK E u password =
     (case DeriveKey (en_P E) password (us_KEKSalt u) (us_KEKParams u) of
        Inl err \<Rightarrow> Inl (ErrCryptoIn err)
      | Inr kek \<Rightarrow>
          (case UnwrapDEK (en_P E) kek (us_WrappedDEK u) of Inl _ \<Rightarrow> Inl ErrAuth | Inr dek \<Rightarrow> Inr dek))"

definition rewrapDEK ::
    "store_env \<Rightarrow> (nat \<Rightarrow> entropy) \<Rightarrow> string \<Rightarrow> bytes \<Rightarrow> StoreUser \<Rightarrow> serror + StoreUser" where
  "rewrapDEK E ent password dek u =
     (case HashPassword (en_P E) (ent 0) password (en_Auth E) of
        Inl err \<Rightarrow> Inl (ErrCryptoIn err)
      | Inr auth \<Rightarrow>
     (case NewSalt (ent 1) of
        Inl err \<Rightarrow> Inl (ErrCryptoIn err)
      | Inr salt \<Rightarrow>
     (case DeriveKey (en_P E) password salt (en_KEK E) of
        Inl err \<Rightarrow> Inl (ErrCryptoIn err)
      | Inr kek \<Rightarrow>
     (case WrapDEK (en_P E) (ent 2) kek dek of
        Inl err \<Rightarrow> Inl (ErrCryptoIn err)
      | Inr wrapped \<Rightarrow>
          Inr (u\<lparr>us_Auth := Some auth, us_KEKSalt := salt, us_KEKParams := en_KEK E,
                 us_WrappedDEK := wrapped\<rparr>)))))"

text \<open>\<open>decoyVerify\<close> only spends time, so the branch without an account is the error alone.\<close>

definition Authenticate :: "store_env \<Rightarrow> State \<Rightarrow> string \<Rightarrow> string \<Rightarrow> serror + StoreUser \<times> bytes" where
  "Authenticate E st login password =
     (case findUserByLogin st (NormalizeLogin E login) of
        None \<Rightarrow> Inl ErrAuth
      | Some stored \<Rightarrow>
          if \<not> Activated (Some stored) then Inl ErrAuth
          else if \<not> ph_Verify (en_P E) (us_Auth stored) password then Inl ErrAuth
          else if us_Disabled stored then Inl ErrUserDisabled
          else if us_Unconfirmed stored then Inl ErrUserUnconfirmed
          else
            (case DeriveKey (en_P E) password (us_KEKSalt stored) (us_KEKParams stored) of
               Inl err \<Rightarrow> Inl (ErrCryptoIn err)
             | Inr kek \<Rightarrow>
                 (case UnwrapDEK (en_P E) kek (us_WrappedDEK stored) of
                    Inl _ \<Rightarrow> Inl ErrAuth
                  | Inr dek \<Rightarrow> Inr (stored, dek))))"

subsection \<open>Log entries\<close>

definition entry_by :: "Actor \<Rightarrow> string \<Rightarrow> string \<Rightarrow> AuditEntry" where
  "entry_by actor action detail = blank_entry\<lparr>ae_Action := action, ae_ActorID := at_ID actor,
     ae_ActorLogin := at_Login actor, ae_IP := at_IP actor, ae_Detail := detail\<rparr>"

definition entry_on :: "Actor \<Rightarrow> StoreUser \<Rightarrow> string \<Rightarrow> string \<Rightarrow> AuditEntry" where
  "entry_on actor u action detail =
     (entry_by actor action detail)\<lparr>ae_TargetID := us_ID u, ae_TargetLogin := us_Login u\<rparr>"

text \<open>An entry in which the user is the actor as well as the target.\<close>

definition entry_self :: "StoreUser \<Rightarrow> string \<Rightarrow> string \<Rightarrow> string \<Rightarrow> AuditEntry" where
  "entry_self u action ip detail =
     entry_on \<lparr>at_ID = us_ID u, at_Login = us_Login u, at_IP = ip\<rparr> u action detail"

subsection \<open>The operations on users\<close>

definition with_user :: "State \<Rightarrow> string \<Rightarrow> (StoreUser \<Rightarrow> serror + 'b) \<Rightarrow> serror + 'b" where
  "with_user st uid f = (case findUser st uid of None \<Rightarrow> Inl ErrNotFound | Some u \<Rightarrow> f u)"

definition checked :: "serror option \<Rightarrow> Store \<Rightarrow> Store \<times> (serror + 'a) \<Rightarrow> Store \<times> (serror + 'a)" where
  "checked err s r = (case err of Some e \<Rightarrow> (s, Inl e) | None \<Rightarrow> r)"

text \<open>A world whose next random bytes are those from number \<open>n\<close> on, and the same for the clock.\<close>

definition drawn :: "nat \<Rightarrow> world \<Rightarrow> world" where
  "drawn n w = w\<lparr>wd_ent := (\<lambda>i. wd_ent w (i + n))\<rparr>"

definition ticked :: "nat \<Rightarrow> world \<Rightarrow> world" where
  "ticked n w = w\<lparr>wd_clk := (\<lambda>i. wd_clk w (i + n))\<rparr>"

definition CreateFirstAdmin_fn ::
    "store_env \<Rightarrow> world \<Rightarrow> string \<Rightarrow> string \<Rightarrow> string \<Rightarrow> string \<Rightarrow> State \<Rightarrow> serror + State \<times> StoreUser" where
  "CreateFirstAdmin_fn E w login email password ip st =
     (if list_ex (\<lambda>u. us_Role u = RoleAdmin) (sa_Users st) then Inl ErrNotBootstrap
      else
        (case checkLoginFree st login of
           Some e \<Rightarrow> Inl e
         | None \<Rightarrow>
             (case newUser E w st login email RoleAdmin password [] of
                Inl e \<Rightarrow> Inl e
              | Inr u \<Rightarrow>
                  (let u = u\<lparr>us_MustChangePassword := False, us_EmailConfirmed := email \<noteq> []\<rparr>;
                       e = entry_on \<lparr>at_ID = us_ID u, at_Login = login, at_IP = ip\<rparr> u ''bootstrap'' []
                   in Inr (appendAudit (wd_clk w 1) e (addUser u st), u)))))"

definition CreateFirstAdmin ::
    "store_env \<Rightarrow> world \<Rightarrow> string \<Rightarrow> string \<Rightarrow> string \<Rightarrow> string \<Rightarrow> Store \<Rightarrow> Store \<times> (serror + StoreUser)" where
  "CreateFirstAdmin E w login email password ip s =
     (let login = NormalizeLogin E login; email = NormalizeEmail email
      in checked (validateNewUser E login email password) s
           (store_update E w (CreateFirstAdmin_fn E w login email password ip) s))"

definition CreateUserWithPassword_fn ::
    "store_env \<Rightarrow> world \<Rightarrow> Actor \<Rightarrow> string \<Rightarrow> string \<Rightarrow> string \<Rightarrow> string \<Rightarrow> State \<Rightarrow> serror + State \<times> StoreUser" where
  "CreateUserWithPassword_fn E w actor login email role tempPassword st =
     (case checkLoginFree st login of
        Some e \<Rightarrow> Inl e
      | None \<Rightarrow>
          (case newUser E w st login email role tempPassword (at_ID actor) of
             Inl e \<Rightarrow> Inl e
           | Inr u \<Rightarrow>
               (let u = u\<lparr>us_MustChangePassword := True, us_EmailConfirmed := email \<noteq> []\<rparr>
                in Inr (appendAudit (wd_clk w 1) (entry_on actor u ''user_create'' ''temporary password'')
                          (addUser u st), u))))"

definition CreateUserWithPassword ::
    "store_env \<Rightarrow> world \<Rightarrow> Actor \<Rightarrow> string \<Rightarrow> string \<Rightarrow> string \<Rightarrow> string \<Rightarrow> Store \<Rightarrow> Store \<times> (serror + StoreUser)" where
  "CreateUserWithPassword E w actor login email role tempPassword s =
     (let login = NormalizeLogin E login; email = NormalizeEmail email
      in checked (validateNewUser E login email tempPassword) s
           (checked (if Role_Valid role then None else Some ErrUnknownRole) s
             (store_update E w (CreateUserWithPassword_fn E w actor login email role tempPassword) s)))"

definition RecordLogin_fn :: "world \<Rightarrow> Actor \<Rightarrow> State \<Rightarrow> serror + State \<times> unit" where
  "RecordLogin_fn w actor st =
     with_user st (at_ID actor) (\<lambda>u.
       let u = u\<lparr>us_LastLoginAt := wd_clk w 0\<rparr>
       in Inr (appendAudit (wd_clk w 1) (entry_self u ''login'' (at_IP actor) []) (putUser u st), ()))"

definition RecordLogin :: "store_env \<Rightarrow> world \<Rightarrow> Actor \<Rightarrow> Store \<Rightarrow> Store \<times> (serror + unit)" where
  "RecordLogin E w actor s = store_update E w (RecordLogin_fn w actor) s"

definition ChangePassword_fn ::
    "store_env \<Rightarrow> world \<Rightarrow> string \<Rightarrow> string \<Rightarrow> string \<Rightarrow> State \<Rightarrow> serror + State \<times> unit" where
  "ChangePassword_fn E w userID current new st =
     with_user st userID (\<lambda>u.
       if \<not> Activated (Some u) \<or> \<not> ph_Verify (en_P E) (us_Auth u) current then Inl ErrAuth
       else
         (case unwrap_user_DEK E u current of
            Inl e \<Rightarrow> Inl e
          | Inr dek \<Rightarrow>
              (case rewrapDEK E (wd_ent w) new dek u of
                 Inl e \<Rightarrow> Inl e
               | Inr u \<Rightarrow>
                   (let u = u\<lparr>us_MustChangePassword := False\<rparr>
                    in Inr (appendAudit (wd_clk w 0) (entry_self u ''password_change'' [] []) (putUser u st), ())))))"

definition ChangePassword ::
    "store_env \<Rightarrow> world \<Rightarrow> string \<Rightarrow> string \<Rightarrow> string \<Rightarrow> Store \<Rightarrow> Store \<times> (serror + unit)" where
  "ChangePassword E w userID current new s =
     checked (ValidatePassword new) s (store_update E w (ChangePassword_fn E w userID current new) s)"

definition ResetPassword_fn ::
    "store_env \<Rightarrow> world \<Rightarrow> Actor \<Rightarrow> string \<Rightarrow> string \<Rightarrow> State \<Rightarrow> serror + State \<times> unit" where
  "ResetPassword_fn E w actor userID tempPassword st =
     with_user st userID (\<lambda>u.
       if us_EscrowDEK u \<noteq> [] \<and> eg_Config (sg_Escrow (sa_Settings st)) \<noteq> None then Inl ErrEscrowActive
       else
         (case setCredentials E (wd_ent w) tempPassword (sg_Escrow (sa_Settings st)) u of
            Inl e \<Rightarrow> Inl e
          | Inr u \<Rightarrow>
              (let u = u\<lparr>us_Secrets := [], us_MustChangePassword := True\<rparr>
               in Inr (appendAudit (wd_clk w 0) (entry_on actor u ''password_reset'' ''connections destroyed'')
                         (putUser u st), ()))))"

definition ResetPassword ::
    "store_env \<Rightarrow> world \<Rightarrow> Actor \<Rightarrow> string \<Rightarrow> string \<Rightarrow> Store \<Rightarrow> Store \<times> (serror + unit)" where
  "ResetPassword E w actor userID tempPassword s =
     checked (ValidatePassword tempPassword) s (store_update E w (ResetPassword_fn E w actor userID tempPassword) s)"

definition SetDisabled_fn :: "world \<Rightarrow> Actor \<Rightarrow> string \<Rightarrow> bool \<Rightarrow> State \<Rightarrow> serror + State \<times> unit" where
  "SetDisabled_fn w actor userID disabled st =
     with_user st userID (\<lambda>u.
       if us_Disabled u = disabled then Inr (st, ())
       else if disabled \<and> isLastActiveAdmin st u then Inl ErrLastAdmin
       else
         (let u = u\<lparr>us_Disabled := disabled\<rparr>;
              action = (if disabled then ''user_disable'' else ''user_enable'')
          in Inr (appendAudit (wd_clk w 0) (entry_on actor u action []) (putUser u st), ())))"

definition SetDisabled :: "store_env \<Rightarrow> world \<Rightarrow> Actor \<Rightarrow> string \<Rightarrow> bool \<Rightarrow> Store \<Rightarrow> Store \<times> (serror + unit)" where
  "SetDisabled E w actor userID disabled s = store_update E w (SetDisabled_fn w actor userID disabled) s"

definition SetRole_fn :: "world \<Rightarrow> Actor \<Rightarrow> string \<Rightarrow> string \<Rightarrow> State \<Rightarrow> serror + State \<times> unit" where
  "SetRole_fn w actor userID role st =
     with_user st userID (\<lambda>u.
       if us_Role u = role then Inr (st, ())
       else if role \<noteq> RoleAdmin \<and> isLastActiveAdmin st u then Inl ErrLastAdmin
       else
         (let u = u\<lparr>us_Role := role\<rparr>
          in Inr (appendAudit (wd_clk w 0) (entry_on actor u ''user_role_change'' role) (putUser u st), ())))"

definition SetRole :: "store_env \<Rightarrow> world \<Rightarrow> Actor \<Rightarrow> string \<Rightarrow> string \<Rightarrow> Store \<Rightarrow> Store \<times> (serror + unit)" where
  "SetRole E w actor userID role s =
     checked (if Role_Valid role then None else Some ErrUnknownRole) s
       (store_update E w (SetRole_fn w actor userID role) s)"

text \<open>The setters of one field.\<close>

definition set_user_field :: "string \<Rightarrow> (StoreUser \<Rightarrow> StoreUser) \<Rightarrow> State \<Rightarrow> serror + State \<times> unit" where
  "set_user_field userID f st = with_user st userID (\<lambda>u. Inr (putUser (f u) st, ()))"

definition SetDisplayName :: "store_env \<Rightarrow> world \<Rightarrow> string \<Rightarrow> string \<Rightarrow> Store \<Rightarrow> Store \<times> (serror + unit)" where
  "SetDisplayName E w userID name s =
     (let name = NormalizeDisplayName name
      in checked (ValidateDisplayName name) s
           (store_update E w (set_user_field userID (\<lambda>u. u\<lparr>us_DisplayName := name\<rparr>)) s))"

definition SetEmail_fn :: "world \<Rightarrow> Actor \<Rightarrow> string \<Rightarrow> string \<Rightarrow> State \<Rightarrow> serror + State \<times> unit" where
  "SetEmail_fn w actor userID email st =
     with_user st userID (\<lambda>u.
       let u = u\<lparr>us_Email := email, us_EmailConfirmed := email \<noteq> []\<rparr>
       in Inr (appendAudit (wd_clk w 0) (entry_on actor u ''user_email_change'' []) (putUser u st), ()))"

definition SetEmail :: "store_env \<Rightarrow> world \<Rightarrow> Actor \<Rightarrow> string \<Rightarrow> string \<Rightarrow> Store \<Rightarrow> Store \<times> (serror + unit)" where
  "SetEmail E w actor userID email s =
     (let email = NormalizeEmail email
      in checked (ValidateEmail E email) s (store_update E w (SetEmail_fn w actor userID email) s))"

definition DeleteUser_fn :: "world \<Rightarrow> Actor \<Rightarrow> string \<Rightarrow> State \<Rightarrow> serror + State \<times> unit" where
  "DeleteUser_fn w actor userID st =
     with_user st userID (\<lambda>u.
       if isLastActiveAdmin st u then Inl ErrLastAdmin
       else Inr (appendAudit (wd_clk w 0) (entry_on actor u ''user_delete'' [])
                   (st\<lparr>sa_Users := remove_first (\<lambda>x. us_ID x = userID) (sa_Users st)\<rparr>), ()))"

definition DeleteUser :: "store_env \<Rightarrow> world \<Rightarrow> Actor \<Rightarrow> string \<Rightarrow> Store \<Rightarrow> Store \<times> (serror + unit)" where
  "DeleteUser E w actor userID s = store_update E w (DeleteUser_fn w actor userID) s"

definition SetWeekStart :: "store_env \<Rightarrow> world \<Rightarrow> string \<Rightarrow> string \<Rightarrow> Store \<Rightarrow> Store \<times> (serror + unit)" where
  "SetWeekStart E w userID start s =
     checked (if start \<noteq> ''monday'' \<and> start \<noteq> ''sunday'' then Some ErrWeekStart else None) s
       (store_update E w (set_user_field userID (\<lambda>u. u\<lparr>us_WeekStart := start\<rparr>)) s)"

definition SetContactSort :: "store_env \<Rightarrow> world \<Rightarrow> string \<Rightarrow> string \<Rightarrow> Store \<Rightarrow> Store \<times> (serror + unit)" where
  "SetContactSort E w userID value s =
     store_update E w (set_user_field userID (\<lambda>u. u\<lparr>us_ContactSort := value\<rparr>)) s"

definition SetNoteSort :: "store_env \<Rightarrow> world \<Rightarrow> string \<Rightarrow> string \<Rightarrow> Store \<Rightarrow> Store \<times> (serror + unit)" where
  "SetNoteSort E w userID value s =
     store_update E w (set_user_field userID (\<lambda>u. u\<lparr>us_NoteSort := value\<rparr>)) s"

definition MarkEscrowNoticeSeen :: "store_env \<Rightarrow> world \<Rightarrow> string \<Rightarrow> Store \<Rightarrow> Store \<times> (serror + unit)" where
  "MarkEscrowNoticeSeen E w userID s =
     store_update E w (set_user_field userID (\<lambda>u. u\<lparr>us_EscrowNoticeSeen := True\<rparr>)) s"

subsection \<open>Self-registration and the confirmation of addresses\<close>

definition DefaultEmailChangeTTL :: duration where "DefaultEmailChangeTTL = 24 * hour"

definition stampRegistration :: "store_env \<Rightarrow> string \<Rightarrow> string \<Rightarrow> time \<Rightarrow> StoreUser \<Rightarrow> StoreUser" where
  "stampRegistration E email token expires u =
     u\<lparr>us_Unconfirmed := True, us_Email := email, us_PendingEmail := email,
       us_EmailChangeTokenHash := HashToken (en_P E) token, us_EmailChangeExpires := expires\<rparr>"

definition store_NewToken :: "entropy \<Rightarrow> serror + string" where
  "store_NewToken e = (case NewToken e of Inl err \<Rightarrow> Inl (ErrCryptoIn err) | Inr t \<Rightarrow> Inr t)"

definition Register_fn ::
    "store_env \<Rightarrow> world \<Rightarrow> string \<Rightarrow> string \<Rightarrow> string \<Rightarrow> string \<Rightarrow> string \<Rightarrow> State \<Rightarrow> serror + State \<times> StoreUser" where
  "Register_fn E w login email password ip token st =
     (if \<not> sg_SelfRegistration (sa_Settings st) then Inl ErrRegistrationClosed
      else
        (case findUserByLogin st login of
           Some existing \<Rightarrow>
             if \<not> us_Unconfirmed existing \<or> us_Email existing \<noteq> email then Inl ErrLoginTaken
             else
               (case setCredentials E (wd_ent w) password (sg_Escrow (sa_Settings st)) existing of
                  Inl e \<Rightarrow> Inl e
                | Inr u \<Rightarrow>
                    (let u = stampRegistration E email token (time_add (wd_clk w 0) DefaultEmailChangeTTL) u;
                         e = entry_on \<lparr>at_ID = [], at_Login = login, at_IP = ip\<rparr> u ''user_create''
                               ''self-registration resent''
                     in Inr (appendAudit (wd_clk w 1) e (putUser u st), u)))
         | None \<Rightarrow>
             (case newUser E w st login email RoleUser password [] of
                Inl e \<Rightarrow> Inl e
              | Inr u \<Rightarrow>
                  (let u = stampRegistration E email token (time_add (wd_clk w 1) DefaultEmailChangeTTL) u;
                       e = entry_on \<lparr>at_ID = [], at_Login = login, at_IP = ip\<rparr> u ''user_create''
                             ''self-registration''
                   in Inr (appendAudit (wd_clk w 2) e (addUser u st), u)))))"

definition Register ::
    "store_env \<Rightarrow> world \<Rightarrow> string \<Rightarrow> string \<Rightarrow> string \<Rightarrow> string \<Rightarrow> Store \<Rightarrow> Store \<times> (serror + StoreUser \<times> string)" where
  "Register E w login email password ip s =
     (let login = NormalizeLogin E login; email = NormalizeEmail email
      in if email = [] then (s, Inl ErrEmailRequired)
         else
           checked (validateNewUser E login email password) s
             (case store_NewToken (wd_ent w 0) of
                Inl e \<Rightarrow> (s, Inl e)
              | Inr token \<Rightarrow>
                  (case store_update E w (Register_fn E (drawn 1 w) login email password ip token) s of
                     (s, Inl e) \<Rightarrow> (s, Inl e)
                   | (s, Inr u) \<Rightarrow> (s, Inr (u, token)))))"

definition RequestEmailChange_fn ::
    "store_env \<Rightarrow> world \<Rightarrow> Actor \<Rightarrow> string \<Rightarrow> string \<Rightarrow> duration \<Rightarrow> string \<Rightarrow> State \<Rightarrow> serror + State \<times> unit" where
  "RequestEmailChange_fn E w actor userID newEmail ttl token st =
     with_user st userID (\<lambda>u.
       if us_Email u = newEmail \<and> us_EmailConfirmed u then Inl ErrEmailUnchanged
       else
         (let u = u\<lparr>us_PendingEmail := newEmail, us_EmailChangeTokenHash := HashToken (en_P E) token,
                    us_EmailChangeExpires := time_add (wd_clk w 0) ttl\<rparr>
          in Inr (appendAudit (wd_clk w 1) (entry_on actor u ''user_email_change'' ''confirmation requested'')
                    (putUser u st), ())))"

definition RequestEmailChange ::
    "store_env \<Rightarrow> world \<Rightarrow> Actor \<Rightarrow> string \<Rightarrow> string \<Rightarrow> duration \<Rightarrow> Store \<Rightarrow> Store \<times> (serror + string)" where
  "RequestEmailChange E w actor userID newEmail ttl s =
     (let newEmail = NormalizeEmail newEmail
      in checked (ValidateEmail E newEmail) s
           (if newEmail = [] then (s, Inl ErrNotFound)
            else
              (case store_NewToken (wd_ent w 0) of
                 Inl e \<Rightarrow> (s, Inl e)
               | Inr token \<Rightarrow>
                   (let ttl = (if ttl \<le> 0 then DefaultEmailChangeTTL else ttl)
                    in case store_update E w (RequestEmailChange_fn E w actor userID newEmail ttl token) s of
                         (s, Inl e) \<Rightarrow> (s, Inl e)
                       | (s, Inr _) \<Rightarrow> (s, Inr token)))))"

text \<open>The loops that compare digests go on to the end, so the last match counts.\<close>

definition find_last :: "('a \<Rightarrow> bool) \<Rightarrow> 'a list \<Rightarrow> 'a option" where
  "find_last P xs = find_first P (rev xs)"

definition ConfirmEmailChange_fn :: "world \<Rightarrow> bytes \<Rightarrow> State \<Rightarrow> serror + State \<times> (StoreUser \<times> bool)" where
  "ConfirmEmailChange_fn w digest st =
     (let now = wd_clk w 0
      in case find_last (\<lambda>c. us_EmailChangeTokenHash c \<noteq> [] \<and> Equal (us_EmailChangeTokenHash c) digest)
                (sa_Users st) of
           None \<Rightarrow> Inl ErrInviteInvalid
         | Some u \<Rightarrow>
             if us_PendingEmail u = [] \<or> \<not> now < us_EmailChangeExpires u then Inl ErrInviteInvalid
             else
               (let registration = us_Unconfirmed u;
                    u = u\<lparr>us_Unconfirmed := False, us_Email := us_PendingEmail u, us_EmailConfirmed := True,
                          us_PendingEmail := [], us_EmailChangeTokenHash := [],
                          us_EmailChangeExpires := zero_time\<rparr>
                in Inr (appendAudit now (entry_self u ''email_confirm'' [] (us_Email u)) (putUser u st),
                        (u, registration))))"

definition ConfirmEmailChange ::
    "store_env \<Rightarrow> world \<Rightarrow> string \<Rightarrow> Store \<Rightarrow> Store \<times> (serror + StoreUser \<times> bool)" where
  "ConfirmEmailChange E w token s =
     (if token = [] then (s, Inl ErrInviteInvalid)
      else store_update E w (ConfirmEmailChange_fn w (HashToken (en_P E) token)) s)"

end
