(* ===== verification/StoreInvites.thy ===== *)
theory StoreInvites
  imports StoreUsers
begin

text \<open>
  \<open>internal/store/invites.go\<close>, \<open>audit.go\<close>, \<open>settings.go\<close> and \<open>escrow.go\<close>: invitations, the log's own
  operations, the global settings and the deposit of keys. The conventions are those of the users:
  a function on the state with the suffix \<open>_fn\<close> under \<open>store_update\<close>. A callback that changes
  settings is a function.
\<close>

subsection \<open>Invites\<close>

definition findInvite :: "State \<Rightarrow> string \<Rightarrow> Invite option" where
  "findInvite st iid = find_first (\<lambda>i. iv_ID i = iid) (sa_Invites st)"

definition putInvite :: "Invite \<Rightarrow> State \<Rightarrow> State" where
  "putInvite i st = st\<lparr>sa_Invites := update_first (\<lambda>x. iv_ID x = iv_ID i) i (sa_Invites st)\<rparr>"

definition with_invite :: "State \<Rightarrow> string \<Rightarrow> (Invite \<Rightarrow> serror + 'b) \<Rightarrow> serror + 'b" where
  "with_invite st iid f = (case findInvite st iid of None \<Rightarrow> Inl ErrNotFound | Some i \<Rightarrow> f i)"

definition Invites :: "State \<Rightarrow> Invite list" where
  "Invites st = sort_key (\<lambda>i. - iv_CreatedAt i) (sa_Invites st)"

definition store_Invite :: "State \<Rightarrow> string \<Rightarrow> serror + Invite" where
  "store_Invite st iid = (case findInvite st iid of None \<Rightarrow> Inl ErrNotFound | Some i \<Rightarrow> Inr i)"

definition send_status :: "State \<Rightarrow> string" where
  "send_status st = (if SMTP_Configured (sg_SMTP (sa_Settings st)) then SendPending else SendNotConfigured)"

definition CreateInvite_fn ::
    "store_env \<Rightarrow> world \<Rightarrow> Actor \<Rightarrow> string \<Rightarrow> string \<Rightarrow> string \<Rightarrow> duration \<Rightarrow> string \<Rightarrow> string \<Rightarrow>
     State \<Rightarrow> serror + State \<times> Invite" where
  "CreateInvite_fn E w actor role delivery email ttl token iid st =
     (let ttl = (if ttl \<le> 0 then InviteTTL (sa_Settings st) else ttl);
          now = wd_clk w 0;
          status = (if delivery = InviteDeliveryEmail then send_status st else SendNotConfigured);
          iv = \<lparr>iv_ID = iid, iv_Login = [], iv_Email = email, iv_Role = role, iv_Delivery = delivery,
                 iv_TokenHash = HashToken (en_P E) token, iv_CreatedAt = now, iv_CreatedBy = at_ID actor,
                 iv_ExpiresAt = time_add now ttl, iv_AcceptedAt = zero_time, iv_RevokedAt = zero_time,
                 iv_LastSentAt = zero_time, iv_SendStatus = status, iv_SendError = []\<rparr>;
          entry = entry_by actor ''invite_create'' (if delivery = InviteDeliveryEmail then email else [])
      in Inr (appendAudit now entry (st\<lparr>sa_Invites := sa_Invites st @ [iv]\<rparr>), iv))"

definition CreateInvite ::
    "store_env \<Rightarrow> world \<Rightarrow> Actor \<Rightarrow> string \<Rightarrow> string \<Rightarrow> string \<Rightarrow> duration \<Rightarrow> Store \<Rightarrow>
     Store \<times> (serror + Invite \<times> string)" where
  "CreateInvite E w actor role delivery email ttl s =
     checked (if Role_Valid role then None else Some ErrUnknownRole) s
       (checked (if InviteDelivery_Valid delivery then None else Some ErrUnknownDelivery) s
         (let email = NormalizeEmail email
          in checked (if delivery = InviteDeliveryLink then (if email \<noteq> [] then Some ErrLinkEmail else None)
                      else ValidateEmail E email) s
               (case store_NewToken (wd_ent w 0) of
                  Inl e \<Rightarrow> (s, Inl e)
                | Inr token \<Rightarrow>
                    (case store_newID (wd_ent w 1) of
                       Inl e \<Rightarrow> (s, Inl e)
                     | Inr iid \<Rightarrow>
                         (case store_update E w (CreateInvite_fn E w actor role delivery email ttl token iid) s of
                            (s, Inl e) \<Rightarrow> (s, Inl e)
                          | (s, Inr iv) \<Rightarrow> (s, Inr (iv, token)))))))"

definition LookupInvite :: "store_env \<Rightarrow> time \<Rightarrow> string \<Rightarrow> State \<Rightarrow> serror + Invite" where
  "LookupInvite E now token st =
     (if token = [] then Inl ErrInviteInvalid
      else
        (case find_last (\<lambda>i. Equal (iv_TokenHash i) (HashToken (en_P E) token)) (sa_Invites st) of
           None \<Rightarrow> Inl ErrInviteInvalid
         | Some i \<Rightarrow> if \<not> Usable i now then Inl ErrInviteInvalid else Inr i))"

definition AcceptInvite_fn ::
    "store_env \<Rightarrow> world \<Rightarrow> bytes \<Rightarrow> string \<Rightarrow> string \<Rightarrow> string \<Rightarrow> string \<Rightarrow> State \<Rightarrow> serror + State \<times> StoreUser" where
  "AcceptInvite_fn E w digest login email password ip st =
     (let now = wd_clk w 0
      in case find_last (\<lambda>i. Equal (iv_TokenHash i) digest) (sa_Invites st) of
           None \<Rightarrow> Inl ErrInviteInvalid
         | Some iv \<Rightarrow>
             if \<not> Usable iv now then Inl ErrInviteInvalid
             else
               (case checkLoginFree st login of
                  Some e \<Rightarrow> Inl e
                | None \<Rightarrow>
                    (let accountEmail = (if iv_Delivery iv = InviteDeliveryEmail then iv_Email iv
                                         else NormalizeEmail email)
                     in case (if iv_Delivery iv = InviteDeliveryEmail then None
                              else ValidateEmail E accountEmail) of
                          Some e \<Rightarrow> Inl e
                        | None \<Rightarrow>
                            (let iv = iv\<lparr>iv_AcceptedAt := now, iv_Login := login, iv_Email := accountEmail\<rparr>;
                                 st = putInvite iv st
                             in case newUser E (ticked 1 w) st login accountEmail (iv_Role iv) password
                                       (iv_CreatedBy iv) of
                                  Inl e \<Rightarrow> Inl e
                                | Inr u \<Rightarrow>
                                    (let u = u\<lparr>us_EmailConfirmed := iv_Delivery iv = InviteDeliveryEmail\<rparr>
                                     in Inr (appendAudit now (entry_self u ''invite_accept'' ip []) (addUser u st), u))))))"

definition AcceptInvite ::
    "store_env \<Rightarrow> world \<Rightarrow> string \<Rightarrow> string \<Rightarrow> string \<Rightarrow> string \<Rightarrow> string \<Rightarrow> Store \<Rightarrow> Store \<times> (serror + StoreUser)" where
  "AcceptInvite E w token login email password ip s =
     (let login = NormalizeLogin E login
      in checked (ValidateLogin login) s
           (checked (ValidatePassword password) s
             (if token = [] then (s, Inl ErrInviteInvalid)
              else store_update E w
                     (AcceptInvite_fn E w (HashToken (en_P E) token) login email password ip) s)))"

definition entry_invite :: "Actor \<Rightarrow> Invite \<Rightarrow> string \<Rightarrow> string \<Rightarrow> AuditEntry" where
  "entry_invite actor iv action detail = (entry_by actor action detail)\<lparr>ae_TargetLogin := iv_Login iv\<rparr>"

definition RevokeInvite_fn :: "world \<Rightarrow> Actor \<Rightarrow> string \<Rightarrow> State \<Rightarrow> serror + State \<times> unit" where
  "RevokeInvite_fn w actor iid st =
     with_invite st iid (\<lambda>iv.
       if \<not> Usable iv (wd_clk w 0) then Inl ErrInviteInvalid
       else
         (let iv = iv\<lparr>iv_RevokedAt := wd_clk w 1\<rparr>
          in Inr (appendAudit (wd_clk w 2) (entry_invite actor iv ''invite_revoke'' []) (putInvite iv st), ())))"

definition RevokeInvite :: "store_env \<Rightarrow> world \<Rightarrow> Actor \<Rightarrow> string \<Rightarrow> Store \<Rightarrow> Store \<times> (serror + unit)" where
  "RevokeInvite E w actor iid s = store_update E w (RevokeInvite_fn w actor iid) s"

definition ExtendInvite_fn :: "world \<Rightarrow> Actor \<Rightarrow> string \<Rightarrow> duration \<Rightarrow> State \<Rightarrow> serror + State \<times> unit" where
  "ExtendInvite_fn w actor iid ttl st =
     with_invite st iid (\<lambda>iv.
       if \<not> is_zero (iv_AcceptedAt iv) \<or> \<not> is_zero (iv_RevokedAt iv) then Inl ErrInviteInvalid
       else
         (let ttl = (if ttl \<le> 0 then InviteTTL (sa_Settings st) else ttl);
              iv = iv\<lparr>iv_ExpiresAt := time_add (wd_clk w 0) ttl\<rparr>
          in Inr (appendAudit (wd_clk w 1) (entry_invite actor iv ''invite_extend'' []) (putInvite iv st), ())))"

definition ExtendInvite ::
    "store_env \<Rightarrow> world \<Rightarrow> Actor \<Rightarrow> string \<Rightarrow> duration \<Rightarrow> Store \<Rightarrow> Store \<times> (serror + unit)" where
  "ExtendInvite E w actor iid ttl s = store_update E w (ExtendInvite_fn w actor iid ttl) s"

definition ResendInvite_fn ::
    "store_env \<Rightarrow> world \<Rightarrow> Actor \<Rightarrow> string \<Rightarrow> string \<Rightarrow> State \<Rightarrow> serror + State \<times> unit" where
  "ResendInvite_fn E w actor iid token st =
     with_invite st iid (\<lambda>iv.
       if \<not> Usable iv (wd_clk w 0) then Inl ErrInviteInvalid
       else if iv_Delivery iv \<noteq> InviteDeliveryEmail then Inl ErrInviteNotByEmail
       else
         (let iv = iv\<lparr>iv_TokenHash := HashToken (en_P E) token, iv_SendStatus := send_status st,
                        iv_SendError := []\<rparr>
          in Inr (appendAudit (wd_clk w 1) (entry_invite actor iv ''invite_resend'' (iv_Email iv))
                    (putInvite iv st), ())))"

definition ResendInvite :: "store_env \<Rightarrow> world \<Rightarrow> Actor \<Rightarrow> string \<Rightarrow> Store \<Rightarrow> Store \<times> (serror + string)" where
  "ResendInvite E w actor iid s =
     (case store_NewToken (wd_ent w 0) of
        Inl e \<Rightarrow> (s, Inl e)
      | Inr token \<Rightarrow>
          (case store_update E w (ResendInvite_fn E w actor iid token) s of
             (s, Inl e) \<Rightarrow> (s, Inl e)
           | (s, Inr _) \<Rightarrow> (s, Inr token)))"

definition RecordInviteSend_fn :: "world \<Rightarrow> string \<Rightarrow> string \<Rightarrow> string \<Rightarrow> State \<Rightarrow> serror + State \<times> unit" where
  "RecordInviteSend_fn w iid status sendErr st =
     with_invite st iid (\<lambda>iv.
       let iv = iv\<lparr>iv_SendStatus := status, iv_SendError := sendErr\<rparr>;
           iv = (if status = SendOK then iv\<lparr>iv_LastSentAt := wd_clk w 0, iv_SendError := []\<rparr> else iv);
           e = blank_entry\<lparr>ae_Action := ''invite_send'', ae_TargetLogin := iv_Login iv, ae_Detail := status\<rparr>
       in Inr (appendAudit (wd_clk w 1) e (putInvite iv st), ()))"

definition RecordInviteSend ::
    "store_env \<Rightarrow> world \<Rightarrow> string \<Rightarrow> string \<Rightarrow> string \<Rightarrow> Store \<Rightarrow> Store \<times> (serror + unit)" where
  "RecordInviteSend E w iid status sendErr s = store_update E w (RecordInviteSend_fn w iid status sendErr) s"

subsection \<open>The log\<close>

definition Log_fn :: "world \<Rightarrow> AuditEntry \<Rightarrow> State \<Rightarrow> serror + State \<times> unit" where
  "Log_fn w entry st = Inr (appendAudit (wd_clk w 0) entry st, ())"

definition store_Log :: "store_env \<Rightarrow> world \<Rightarrow> AuditEntry \<Rightarrow> Store \<Rightarrow> Store \<times> (serror + unit)" where
  "store_Log E w entry s = store_update E w (Log_fn w entry) s"

definition LogLoginFailure ::
    "store_env \<Rightarrow> world \<Rightarrow> string \<Rightarrow> string \<Rightarrow> string \<Rightarrow> Store \<Rightarrow> Store \<times> (serror + unit)" where
  "LogLoginFailure E w login ip detail s =
     store_Log E w (blank_entry\<lparr>ae_Action := ''login_failed'', ae_TargetLogin := NormalizeLogin E login,
                                ae_IP := ip, ae_Detail := detail\<rparr>) s"

subsection \<open>Settings\<close>

definition validateSettings :: "store_env \<Rightarrow> Settings \<Rightarrow> serror option" where
  "validateSettings E sg =
     (if sm_Host (sg_SMTP sg) \<noteq> [] then
        (if \<not> TLSMode_Valid (sm_TLS (sg_SMTP sg)) then Some ErrTLSMode
         else if sm_Port (sg_SMTP sg) < 1 \<or> sm_Port (sg_SMTP sg) > 65535 then Some ErrPort
         else ValidateEmail E (sm_FromAddress (sg_SMTP sg)))
      else None)"

definition UpdateSettings_fn ::
    "store_env \<Rightarrow> world \<Rightarrow> Actor \<Rightarrow> (Settings \<Rightarrow> Settings) \<Rightarrow> State \<Rightarrow> serror + State \<times> unit" where
  "UpdateSettings_fn E w actor fn st =
     (let new = fn (sa_Settings st)
      in case validateSettings E new of
           Some e \<Rightarrow> Inl e
         | None \<Rightarrow>
             (let new = new\<lparr>sg_Escrow := (sg_Escrow new)\<lparr>eg_Config := eg_Config (sg_Escrow (sa_Settings st))\<rparr>\<rparr>;
                  new = new\<lparr>sg_SMTP := (sg_SMTP new)\<lparr>sm_Password := sm_Password (sg_SMTP (sa_Settings st))\<rparr>\<rparr>
              in Inr (appendAudit (wd_clk w 0) (entry_by actor ''settings_update'' []) (st\<lparr>sa_Settings := new\<rparr>), ())))"

definition UpdateSettings ::
    "store_env \<Rightarrow> world \<Rightarrow> Actor \<Rightarrow> (Settings \<Rightarrow> Settings) \<Rightarrow> Store \<Rightarrow> Store \<times> (serror + unit)" where
  "UpdateSettings E w actor fn s = store_update E w (UpdateSettings_fn E w actor fn) s"

definition set_smtp_password :: "bytes \<Rightarrow> State \<Rightarrow> State" where
  "set_smtp_password sealed st =
     st\<lparr>sa_Settings := (sa_Settings st)\<lparr>sg_SMTP := (sg_SMTP (sa_Settings st))\<lparr>sm_Password := sealed\<rparr>\<rparr>\<rparr>"

definition SetSMTPPassword_fn ::
    "store_env \<Rightarrow> world \<Rightarrow> bytes \<Rightarrow> Actor \<Rightarrow> string \<Rightarrow> State \<Rightarrow> serror + State \<times> unit" where
  "SetSMTPPassword_fn E w key actor password st =
     (if password = [] then Inr (set_smtp_password [] st, ())
      else
        (case SealState (en_P E) (wd_ent w 0) key password of
           Inl err \<Rightarrow> Inl (ErrCryptoIn err)
         | Inr sealed \<Rightarrow>
             Inr (appendAudit (wd_clk w 0) (entry_by actor ''settings_update'' ''smtp password'')
                    (set_smtp_password sealed st), ())))"

definition SetSMTPPassword :: "store_env \<Rightarrow> world \<Rightarrow> Actor \<Rightarrow> string \<Rightarrow> Store \<Rightarrow> Store \<times> (serror + unit)" where
  "SetSMTPPassword E w actor password s = store_update E w (SetSMTPPassword_fn E w (sr_key s) actor password) s"

definition SMTPPassword :: "store_env \<Rightarrow> Store \<Rightarrow> serror + string" where
  "SMTPPassword E s =
     (let sealed = sm_Password (sg_SMTP (sa_Settings (sr_state s)))
      in if sealed = [] then Inr []
         else (case OpenState (en_P E) (sr_key s) sealed of
                 Inl err \<Rightarrow> Inl (ErrCryptoIn err) | Inr plaintext \<Rightarrow> Inr plaintext))"

subsection \<open>Escrow\<close>

definition set_escrow :: "(EscrowSettings \<Rightarrow> EscrowSettings) \<Rightarrow> State \<Rightarrow> State" where
  "set_escrow f st = st\<lparr>sa_Settings := (sa_Settings st)\<lparr>sg_Escrow := f (sg_Escrow (sa_Settings st))\<rparr>\<rparr>"

definition EnableEscrow_fn :: "world \<Rightarrow> Actor \<Rightarrow> Escrow \<Rightarrow> State \<Rightarrow> serror + State \<times> unit" where
  "EnableEscrow_fn w actor esc st =
     (if eg_Config (sg_Escrow (sa_Settings st)) \<noteq> None then Inl ErrEscrowConfigured
      else Inr (appendAudit (wd_clk w 0) (entry_by actor ''escrow_enable'' [])
                  (set_escrow (\<lambda>g. g\<lparr>eg_Enabled := True, eg_Config := Some esc\<rparr>) st), ()))"

definition EnableEscrow :: "store_env \<Rightarrow> world \<Rightarrow> Actor \<Rightarrow> string \<Rightarrow> Store \<Rightarrow> Store \<times> (serror + unit)" where
  "EnableEscrow E w actor masterPassword s =
     (case NewEscrowWithParams (en_P E) (wd_ent w 0) (wd_ent w 1) (wd_ent w 2) masterPassword (en_Master E) of
        Inl err \<Rightarrow> (s, Inl (ErrCryptoIn err))
      | Inr esc \<Rightarrow> store_update E w (EnableEscrow_fn w actor esc) s)"

definition ResumeEscrow_fn :: "store_env \<Rightarrow> world \<Rightarrow> Actor \<Rightarrow> string \<Rightarrow> State \<Rightarrow> serror + State \<times> unit" where
  "ResumeEscrow_fn E w actor masterPassword st =
     (case eg_Config (sg_Escrow (sa_Settings st)) of
        None \<Rightarrow> Inl ErrEscrowNotConfigured
      | Some esc \<Rightarrow>
          if \<not> CheckMasterPassword (en_P E) (Some esc) masterPassword then Inl (ErrCryptoIn ErrWrongMasterPassword)
          else if eg_Enabled (sg_Escrow (sa_Settings st)) then Inr (st, ())
          else Inr (appendAudit (wd_clk w 0) (entry_by actor ''escrow_enable'' ''existing key pair'')
                      (set_escrow (\<lambda>g. g\<lparr>eg_Enabled := True\<rparr>) st), ()))"

definition ResumeEscrow :: "store_env \<Rightarrow> world \<Rightarrow> Actor \<Rightarrow> string \<Rightarrow> Store \<Rightarrow> Store \<times> (serror + unit)" where
  "ResumeEscrow E w actor masterPassword s = store_update E w (ResumeEscrow_fn E w actor masterPassword) s"

definition DisableEscrow_fn :: "world \<Rightarrow> Actor \<Rightarrow> State \<Rightarrow> serror + State \<times> unit" where
  "DisableEscrow_fn w actor st =
     Inr (appendAudit (wd_clk w 0) (entry_by actor ''escrow_disable'' []) (set_escrow (\<lambda>g. g\<lparr>eg_Enabled := False\<rparr>) st), ())"

definition DisableEscrow :: "store_env \<Rightarrow> world \<Rightarrow> Actor \<Rightarrow> Store \<Rightarrow> Store \<times> (serror + unit)" where
  "DisableEscrow E w actor s = store_update E w (DisableEscrow_fn w actor) s"

definition ChangeEscrowMasterPassword_fn ::
    "store_env \<Rightarrow> world \<Rightarrow> Actor \<Rightarrow> string \<Rightarrow> string \<Rightarrow> State \<Rightarrow> serror + State \<times> unit" where
  "ChangeEscrowMasterPassword_fn E w actor current new st =
     (case eg_Config (sg_Escrow (sa_Settings st)) of
        None \<Rightarrow> Inl ErrEscrowNotConfigured
      | Some esc \<Rightarrow>
          (case ChangeMasterPassword (en_P E) (wd_ent w 0) (wd_ent w 1) current new (Some esc) of
             (_, Some err) \<Rightarrow> Inl (ErrCryptoIn err)
           | (esc, None) \<Rightarrow>
               Inr (appendAudit (wd_clk w 0) (entry_by actor ''settings_update'' ''escrow master password'')
                      (set_escrow (\<lambda>g. g\<lparr>eg_Config := esc\<rparr>) st), ())))"

definition ChangeEscrowMasterPassword ::
    "store_env \<Rightarrow> world \<Rightarrow> Actor \<Rightarrow> string \<Rightarrow> string \<Rightarrow> Store \<Rightarrow> Store \<times> (serror + unit)" where
  "ChangeEscrowMasterPassword E w actor current new s =
     store_update E w (ChangeEscrowMasterPassword_fn E w actor current new) s"

definition EscrowOptIn_fn :: "store_env \<Rightarrow> world \<Rightarrow> Actor \<Rightarrow> string \<Rightarrow> string \<Rightarrow> State \<Rightarrow> serror + State \<times> unit" where
  "EscrowOptIn_fn E w actor userID password st =
     (if \<not> Escrow_Active (sg_Escrow (sa_Settings st)) then Inl ErrEscrowNotConfigured
      else
        with_user st userID (\<lambda>u.
          if us_EscrowDEK u \<noteq> [] then Inl ErrEscrowDeposited
          else if \<not> Activated (Some u) \<or> \<not> ph_Verify (en_P E) (us_Auth u) password then Inl ErrAuth
          else
            (case unwrap_user_DEK E u password of
               Inl e \<Rightarrow> Inl e
             | Inr dek \<Rightarrow>
                 (case SealDEK (en_P E) (wd_ent w 0) (wd_ent w 1) (eg_Config (sg_Escrow (sa_Settings st))) dek of
                    Inl err \<Rightarrow> Inl (ErrCryptoIn err)
                  | Inr sealed \<Rightarrow>
                      (let u = u\<lparr>us_EscrowDEK := sealed, us_EscrowNoticeSeen := True\<rparr>
                       in Inr (appendAudit (wd_clk w 0) (entry_on actor u ''escrow_opt_in'' []) (putUser u st), ()))))))"

definition EscrowOptIn :: "store_env \<Rightarrow> world \<Rightarrow> Actor \<Rightarrow> string \<Rightarrow> string \<Rightarrow> Store \<Rightarrow> Store \<times> (serror + unit)" where
  "EscrowOptIn E w actor userID password s = store_update E w (EscrowOptIn_fn E w actor userID password) s"

definition EscrowOptOut_fn :: "world \<Rightarrow> Actor \<Rightarrow> string \<Rightarrow> State \<Rightarrow> serror + State \<times> unit" where
  "EscrowOptOut_fn w actor userID st =
     with_user st userID (\<lambda>u.
       if us_EscrowDEK u = [] then Inl ErrEscrowNotDeposited
       else
         (let u = u\<lparr>us_EscrowDEK := []\<rparr>
          in Inr (appendAudit (wd_clk w 0) (entry_on actor u ''escrow_opt_out'' []) (putUser u st), ())))"

definition EscrowOptOut :: "store_env \<Rightarrow> world \<Rightarrow> Actor \<Rightarrow> string \<Rightarrow> Store \<Rightarrow> Store \<times> (serror + unit)" where
  "EscrowOptOut E w actor userID s = store_update E w (EscrowOptOut_fn w actor userID) s"

definition RecoverUser_fn ::
    "store_env \<Rightarrow> world \<Rightarrow> Actor \<Rightarrow> string \<Rightarrow> string \<Rightarrow> string \<Rightarrow> State \<Rightarrow> serror + State \<times> StoreUser" where
  "RecoverUser_fn E w actor userID masterPassword tempPassword st =
     (case eg_Config (sg_Escrow (sa_Settings st)) of
        None \<Rightarrow> Inl ErrEscrowNotConfigured
      | Some esc \<Rightarrow>
          with_user st userID (\<lambda>u.
            if us_EscrowDEK u = [] then Inl ErrEscrowNotDeposited
            else
              (case RecoverDEK (en_P E) (Some esc) masterPassword (us_EscrowDEK u) of
                 Inl err \<Rightarrow> Inl (ErrCryptoIn err)
               | Inr dek \<Rightarrow>
                   (case rewrapDEK E (wd_ent w) tempPassword dek u of
                      Inl e \<Rightarrow> Inl e
                    | Inr u \<Rightarrow>
                        (let u = u\<lparr>us_MustChangePassword := True, us_EscrowRecoveredAt := wd_clk w 0\<rparr>
                         in Inr (appendAudit (wd_clk w 1) (entry_on actor u ''escrow_recover'' []) (putUser u st), u))))))"

definition RecoverUser ::
    "store_env \<Rightarrow> world \<Rightarrow> Actor \<Rightarrow> string \<Rightarrow> string \<Rightarrow> string \<Rightarrow> Store \<Rightarrow> Store \<times> (serror + StoreUser)" where
  "RecoverUser E w actor userID masterPassword tempPassword s =
     checked (ValidatePassword tempPassword) s
       (store_update E w (RecoverUser_fn E w actor userID masterPassword tempPassword) s)"

definition EscrowCoverage :: "State \<Rightarrow> nat" where
  "EscrowCoverage st = length (filter (\<lambda>u. us_EscrowDEK u \<noteq> []) (sa_Users st))"

end
