(* ===== verification/StoreAccounts.thy ===== *)
theory StoreAccounts
  imports StoreInvites
begin

text \<open>
  \<open>internal/store/accounts.go\<close>, \<open>collections.go\<close> and \<open>duplicates.go\<close>: the operations on the sealed
  secrets of one user. Each opens the blob with the user's data key, changes it and seals it again
  inside one \<open>store_update\<close>. A callback is a function; a nil callback is \<open>None\<close>. The entropies and
  clock readings of a call are numbered by their place in its text: \<open>wd_ent w 0\<close> is the new identifier
  where there is one, and \<open>wd_ent w 1\<close> the nonce of the sealing.
\<close>

subsection \<open>The sealed secrets\<close>

definition open_blob :: "store_env \<Rightarrow> bytes \<Rightarrow> bytes \<Rightarrow> serror + Blob" where
  "open_blob E dek sealed =
     (case blob_Open (en_J E) (en_P E) dek sealed of Inl err \<Rightarrow> Inl (ErrBlobIn err) | Inr b \<Rightarrow> Inr b)"

definition seal_blob :: "store_env \<Rightarrow> entropy \<Rightarrow> bytes \<Rightarrow> Blob option \<Rightarrow> serror + bytes" where
  "seal_blob E e dek b =
     (case blob_Seal (en_J E) (en_P E) e dek b of Inl err \<Rightarrow> Inl (ErrBlobIn err) | Inr c \<Rightarrow> Inr c)"

definition openSecrets :: "store_env \<Rightarrow> State \<Rightarrow> string \<Rightarrow> bytes \<Rightarrow> serror + Blob" where
  "openSecrets E st userID dek =
     (case findUser st userID of None \<Rightarrow> Inl ErrNotFound | Some u \<Rightarrow> open_blob E dek (us_Secrets u))"

definition DAVAccountCount :: "store_env \<Rightarrow> State \<Rightarrow> string \<Rightarrow> bytes \<Rightarrow> serror + nat" where
  "DAVAccountCount E st userID dek =
     (case openSecrets E st userID dek of Inl e \<Rightarrow> Inl e | Inr b \<Rightarrow> Inr (CountEnabled (Some b)))"

definition ListDAVAccounts :: "store_env \<Rightarrow> State \<Rightarrow> string \<Rightarrow> bytes \<Rightarrow> serror + Account list" where
  "ListDAVAccounts E st userID dek =
     (case openSecrets E st userID dek of Inl e \<Rightarrow> Inl e | Inr b \<Rightarrow> Inr (bl_Accounts b))"

definition GetDAVAccount :: "store_env \<Rightarrow> State \<Rightarrow> string \<Rightarrow> string \<Rightarrow> bytes \<Rightarrow> serror + Account" where
  "GetDAVAccount E st userID accountID dek =
     (case openSecrets E st userID dek of
        Inl e \<Rightarrow> Inl e
      | Inr b \<Rightarrow> (case blob_Find (Some b) accountID of Inl _ \<Rightarrow> Inl ErrNotFound | Inr acc \<Rightarrow> Inr acc))"

definition store_Views :: "store_env \<Rightarrow> State \<Rightarrow> string \<Rightarrow> bytes \<Rightarrow> serror + Views" where
  "store_Views E st userID dek =
     (case openSecrets E st userID dek of Inl e \<Rightarrow> Inl e | Inr b \<Rightarrow> Inr (vw_Clone (bl_Views b)))"

definition store_Duplicates :: "store_env \<Rightarrow> State \<Rightarrow> string \<Rightarrow> bytes \<Rightarrow> serror + Duplicates" where
  "store_Duplicates E st userID dek =
     (case openSecrets E st userID dek of Inl e \<Rightarrow> Inl e | Inr b \<Rightarrow> Inr (du_Clone (bl_Duplicates b)))"

text \<open>
  What the changes share: the user is looked up, the blob opened, changed and sealed again with the
  entropy \<open>e\<close>. What \<open>f\<close> computes besides the blob goes to \<open>after\<close>, with the user whose secrets are the
  new ones.
\<close>

definition with_blob ::
    "store_env \<Rightarrow> entropy \<Rightarrow> bytes \<Rightarrow> string \<Rightarrow> (Blob \<Rightarrow> serror + Blob \<times> 'a) \<Rightarrow>
     (StoreUser \<Rightarrow> Blob \<Rightarrow> 'a \<Rightarrow> State \<times> unit) \<Rightarrow> State \<Rightarrow> serror + State \<times> unit" where
  "with_blob E e dek userID f after st =
     with_user st userID (\<lambda>u.
       case open_blob E dek (us_Secrets u) of
         Inl err \<Rightarrow> Inl err
       | Inr blob \<Rightarrow>
           (case f blob of
              Inl err \<Rightarrow> Inl err
            | Inr (blob, a) \<Rightarrow>
                (case seal_blob E e dek (Some blob) of
                   Inl err \<Rightarrow> Inl err
                 | Inr sealed \<Rightarrow> Inr (after (u\<lparr>us_Secrets := sealed\<rparr>) blob a))))"

definition counted :: "Blob \<Rightarrow> StoreUser \<Rightarrow> StoreUser" where
  "counted b u = u\<lparr>us_DAVAccountCount := CountEnabled (Some b)\<rparr>"

definition upsert_in :: "Account \<Rightarrow> Blob \<Rightarrow> Blob" where
  "upsert_in acc b = (case Upsert acc (Some b) of None \<Rightarrow> b | Some b \<Rightarrow> b)"

subsection \<open>Accounts\<close>

definition PutDAVAccount_fn ::
    "store_env \<Rightarrow> world \<Rightarrow> Actor \<Rightarrow> string \<Rightarrow> bytes \<Rightarrow> Account \<Rightarrow> State \<Rightarrow> serror + State \<times> unit" where
  "PutDAVAccount_fn E w actor userID dek acc st =
     with_blob E (wd_ent w 1) dek userID
       (\<lambda>blob. Inr (upsert_in acc blob, blob_Find (Some blob) (ac_ID acc)))
       (\<lambda>u blob found.
          let u = counted blob u;
              action = (case found of Inl _ \<Rightarrow> ''dav_account_add'' | Inr _ \<Rightarrow> ''dav_account_update'')
          in (appendAudit (wd_clk w 1) (entry_on actor u action (ac_ID acc)) (putUser u st), ())) st"

definition PutDAVAccount ::
    "store_env \<Rightarrow> world \<Rightarrow> Actor \<Rightarrow> string \<Rightarrow> bytes \<Rightarrow> Account \<Rightarrow> Store \<Rightarrow> Store \<times> (serror + unit)" where
  "PutDAVAccount E w actor userID dek acc s =
     (if TrimSpace (ac_BaseURL acc) = [] then (s, Inl ErrBaseURL)
      else if TrimSpace (ac_Username acc) = [] then (s, Inl ErrUsername)
      else
        (case (if ac_ID acc = [] then NewID (wd_ent w 0) else Inr (ac_ID acc)) of
           Inl err \<Rightarrow> (s, Inl (ErrCryptoIn err))
         | Inr aid \<Rightarrow>
             (let acc = acc\<lparr>ac_ID := aid\<rparr>;
                  acc = (if is_zero (ac_DiscoveredAt acc) then acc\<lparr>ac_DiscoveredAt := wd_clk w 0\<rparr> else acc);
                  acc = (if \<not> ac_Enabled acc then acc\<lparr>ac_Enabled := True\<rparr> else acc)
              in store_update E w (PutDAVAccount_fn E w actor userID dek acc) s)))"

record Credentials =
  cr_BaseURL :: string
  cr_Username :: string
  cr_Password :: string

record DiscoveryResult =
  dr_BaseURL :: string
  dr_Principal :: string
  dr_Collections :: "Collection list"

definition PutDAVAccountFromDiscovery ::
    "store_env \<Rightarrow> world \<Rightarrow> Actor \<Rightarrow> string \<Rightarrow> bytes \<Rightarrow> string \<Rightarrow> Credentials \<Rightarrow>
     DiscoveryResult option \<Rightarrow> Store \<Rightarrow> Store \<times> (serror + Account)" where
  "PutDAVAccountFromDiscovery E w actor userID dek label creds result s =
     (case result of
        None \<Rightarrow> (s, Inl ErrDiscovery)
      | Some result \<Rightarrow>
          (case NewID (wd_ent w 0) of
             Inl err \<Rightarrow> (s, Inl (ErrCryptoIn err))
           | Inr aid \<Rightarrow>
               (let acc = \<lparr>ac_ID = aid, ac_Label = label, ac_BaseURL = dr_BaseURL result,
                           ac_Username = cr_Username creds, ac_Password = cr_Password creds,
                           ac_Principal = dr_Principal result, ac_Enabled = True,
                           ac_Collections = dr_Collections result, ac_DiscoveredAt = wd_clk w 0\<rparr>
                in case PutDAVAccount E (drawn 1 (ticked 1 w)) actor userID dek acc s of
                     (s, Inl err) \<Rightarrow> (s, Inl err)
                   | (s, Inr _) \<Rightarrow> (s, Inr acc))))"

definition DeleteDAVAccount_fn ::
    "store_env \<Rightarrow> world \<Rightarrow> Actor \<Rightarrow> string \<Rightarrow> string \<Rightarrow> bytes \<Rightarrow> State \<Rightarrow> serror + State \<times> unit" where
  "DeleteDAVAccount_fn E w actor userID accountID dek st =
     with_blob E (wd_ent w 1) dek userID
       (\<lambda>blob. case blob_Remove accountID (Some blob) of
                 (Some blob, True) \<Rightarrow> Inr (blob, ()) | _ \<Rightarrow> Inl ErrNotFound)
       (\<lambda>u blob _.
          let u = counted blob u
          in (appendAudit (wd_clk w 0) (entry_on actor u ''dav_account_delete'' accountID) (putUser u st), ())) st"

definition DeleteDAVAccount ::
    "store_env \<Rightarrow> world \<Rightarrow> Actor \<Rightarrow> string \<Rightarrow> string \<Rightarrow> bytes \<Rightarrow> Store \<Rightarrow> Store \<times> (serror + unit)" where
  "DeleteDAVAccount E w actor userID accountID dek s =
     store_update E w (DeleteDAVAccount_fn E w actor userID accountID dek) s"

definition SetDAVAccountEnabled_fn ::
    "store_env \<Rightarrow> world \<Rightarrow> string \<Rightarrow> string \<Rightarrow> bytes \<Rightarrow> bool \<Rightarrow> State \<Rightarrow> serror + State \<times> unit" where
  "SetDAVAccountEnabled_fn E w userID accountID dek enabled st =
     with_blob E (wd_ent w 1) dek userID
       (\<lambda>blob. case blob_Find (Some blob) accountID of
                 Inl _ \<Rightarrow> Inl ErrNotFound
               | Inr acc \<Rightarrow> Inr (upsert_in (acc\<lparr>ac_Enabled := enabled\<rparr>) blob, ()))
       (\<lambda>u blob _. (putUser (counted blob u) st, ())) st"

definition SetDAVAccountEnabled ::
    "store_env \<Rightarrow> world \<Rightarrow> Actor \<Rightarrow> string \<Rightarrow> string \<Rightarrow> bytes \<Rightarrow> bool \<Rightarrow> Store \<Rightarrow> Store \<times> (serror + unit)" where
  "SetDAVAccountEnabled E w actor userID accountID dek enabled s =
     store_update E w (SetDAVAccountEnabled_fn E w userID accountID dek enabled) s"

definition UpdateViews_fn ::
    "store_env \<Rightarrow> world \<Rightarrow> string \<Rightarrow> bytes \<Rightarrow> (Views \<Rightarrow> Views) \<Rightarrow> State \<Rightarrow> serror + State \<times> unit" where
  "UpdateViews_fn E w userID dek fn st =
     with_blob E (wd_ent w 1) dek userID
       (\<lambda>blob. Inr (blob\<lparr>bl_Views := fn (vw_Clone (bl_Views blob))\<rparr>, ()))
       (\<lambda>u _ _. (putUser u st, ())) st"

definition UpdateViews ::
    "store_env \<Rightarrow> world \<Rightarrow> string \<Rightarrow> bytes \<Rightarrow> (Views \<Rightarrow> Views) option \<Rightarrow> Store \<Rightarrow> Store \<times> (serror + unit)" where
  "UpdateViews E w userID dek fn s =
     (case fn of None \<Rightarrow> (s, Inr ()) | Some fn \<Rightarrow> store_update E w (UpdateViews_fn E w userID dek fn) s)"

text \<open>The callback of \<open>UpdateDuplicates\<close> may fail, with an error of its own.\<close>

definition UpdateDuplicates_fn ::
    "store_env \<Rightarrow> world \<Rightarrow> string \<Rightarrow> bytes \<Rightarrow> (Duplicates \<Rightarrow> serror + Duplicates) \<Rightarrow> State \<Rightarrow>
     serror + State \<times> unit" where
  "UpdateDuplicates_fn E w userID dek fn st =
     with_blob E (wd_ent w 1) dek userID
       (\<lambda>blob. case fn (du_Clone (bl_Duplicates blob)) of
                 Inl err \<Rightarrow> Inl err
               | Inr decisions \<Rightarrow> Inr (blob\<lparr>bl_Duplicates := decisions\<rparr>, ()))
       (\<lambda>u _ _. (putUser u st, ())) st"

definition UpdateDuplicates ::
    "store_env \<Rightarrow> world \<Rightarrow> string \<Rightarrow> bytes \<Rightarrow> (Duplicates \<Rightarrow> serror + Duplicates) option \<Rightarrow>
     Store \<Rightarrow> Store \<times> (serror + unit)" where
  "UpdateDuplicates E w userID dek fn s =
     (case fn of None \<Rightarrow> (s, Inr ()) | Some fn \<Rightarrow> store_update E w (UpdateDuplicates_fn E w userID dek fn) s)"

subsection \<open>Collections\<close>

definition normalizeStorePath :: "string \<Rightarrow> string" where
  "normalizeStorePath p =
     (let p = TrimSpace p
      in if p = [] then ''/''
         else
           (let p = (if \<not> HasPrefix p ''/'' then ''/'' @ p else p);
                p = (if \<not> HasSuffix p ''/'' then p @ ''/'' else p)
            in p))"

definition same_path :: "string \<Rightarrow> Collection \<Rightarrow> bool" where
  "same_path path c \<longleftrightarrow> normalizeStorePath (co_Path c) = normalizeStorePath path"

definition put_collection :: "Collection \<Rightarrow> Collection list \<Rightarrow> Collection list" where
  "put_collection col cs =
     (if find_first (same_path (co_Path col)) cs \<noteq> None
      then update_first (same_path (co_Path col)) col cs
      else cs @ [col])"

definition collection_detail :: "string \<Rightarrow> Collection \<Rightarrow> string" where
  "collection_detail accountID col =
     accountID @ '':'' @ (if co_DisplayName col = [] then co_Path col else co_DisplayName col)"

definition UpsertCollection_fn ::
    "store_env \<Rightarrow> world \<Rightarrow> Actor \<Rightarrow> string \<Rightarrow> bytes \<Rightarrow> string \<Rightarrow> Collection \<Rightarrow> string \<Rightarrow> State \<Rightarrow>
     serror + State \<times> unit" where
  "UpsertCollection_fn E w actor userID dek accountID col auditAction st =
     with_blob E (wd_ent w 1) dek userID
       (\<lambda>blob. case blob_Find (Some blob) accountID of
                 Inl _ \<Rightarrow> Inl ErrNotFound
               | Inr acc \<Rightarrow>
                   Inr (upsert_in (acc\<lparr>ac_Collections := put_collection col (ac_Collections acc)\<rparr>) blob, ()))
       (\<lambda>u _ _.
          (if auditAction = [] then putUser u st
           else appendAudit (wd_clk w 0) (entry_on actor u auditAction (collection_detail accountID col)) (putUser u st),
           ())) st"

definition UpsertCollection ::
    "store_env \<Rightarrow> world \<Rightarrow> Actor \<Rightarrow> string \<Rightarrow> bytes \<Rightarrow> string \<Rightarrow> Collection \<Rightarrow> string \<Rightarrow> Store \<Rightarrow>
     Store \<times> (serror + unit)" where
  "UpsertCollection E w actor userID dek accountID col auditAction s =
     store_update E w (UpsertCollection_fn E w actor userID dek accountID col auditAction) s"

text \<open>The change \<open>RemoveCollection\<close> makes to the blob, with the collection it removed (the last match).\<close>

definition remove_collection :: "string \<Rightarrow> string \<Rightarrow> Blob \<Rightarrow> serror + Blob \<times> Collection" where
  "remove_collection accountID colPath blob =
     (case blob_Find (Some blob) accountID of
        Inl _ \<Rightarrow> Inl ErrNotFound
      | Inr acc \<Rightarrow>
          (case find_last (same_path colPath) (ac_Collections acc) of
             None \<Rightarrow> Inl ErrNotFound
           | Some removed \<Rightarrow>
               (let acc = acc\<lparr>ac_Collections := filter (\<lambda>c. \<not> same_path colPath c) (ac_Collections acc)\<rparr>;
                    ref = \<lparr>sr_AccountID = accountID, sr_Collection = colPath\<rparr>;
                    blob = blob\<lparr>bl_Views := vw_PurgeCollection ref (bl_Views blob)\<rparr>;
                    blob = blob\<lparr>bl_Duplicates := du_PurgeCollection ref (bl_Duplicates blob)\<rparr>
                in Inr (upsert_in acc blob, removed))))"

definition RemoveCollection_fn ::
    "store_env \<Rightarrow> world \<Rightarrow> Actor \<Rightarrow> string \<Rightarrow> bytes \<Rightarrow> string \<Rightarrow> string \<Rightarrow> State \<Rightarrow> serror + State \<times> unit" where
  "RemoveCollection_fn E w actor userID dek accountID colPath st =
     with_blob E (wd_ent w 1) dek userID (remove_collection accountID colPath)
       (\<lambda>u _ removed.
          (appendAudit (wd_clk w 0)
             (entry_on actor u ''collection_delete'' (collection_detail accountID removed)) (putUser u st), ())) st"

definition RemoveCollection ::
    "store_env \<Rightarrow> world \<Rightarrow> Actor \<Rightarrow> string \<Rightarrow> bytes \<Rightarrow> string \<Rightarrow> string \<Rightarrow> Store \<Rightarrow> Store \<times> (serror + unit)" where
  "RemoveCollection E w actor userID dek accountID colPath s =
     store_update E w (RemoveCollection_fn E w actor userID dek accountID colPath) s"

end
