(* ===== verification/StoreInvariant.thy ===== *)
theory StoreInvariant
  imports StoreAccounts
begin

text \<open>
  The contract of the store. \<open>store_step\<close> is one call of any method that changes the store, in any
  order and with any arguments; \<open>state_change\<close> is what a call may do to the state, in seven abstract
  changes. Every call is a sequence of those, so the invariants are proved on the abstract changes.
  Users and invites are tables in the sense of \<open>record_table\<close>.
\<close>

subsection \<open>Users and invites as tables\<close>

interpretation users: record_table findUser putUser us_ID sa_Users
  by unfold_locales
    (auto simp: findUser_def putUser_def find_first_update_first_key find_first_None dest: find_first_SomeD)

interpretation invites: record_table findInvite putInvite iv_ID sa_Invites
  by unfold_locales
    (auto simp: findInvite_def putInvite_def find_first_update_first_key find_first_None dest: find_first_SomeD)

lemma putUser_frame [simp]:
  "sa_Invites (putUser u st) = sa_Invites st" "sa_Settings (putUser u st) = sa_Settings st"
  "sa_Audit (putUser u st) = sa_Audit st" "sa_AuditSeq (putUser u st) = sa_AuditSeq st"
  by (simp_all add: putUser_def)

lemma addUser_frame [simp]:
  "sa_Users (addUser u st) = sa_Users st @ [u]" "sa_Invites (addUser u st) = sa_Invites st"
  "sa_Settings (addUser u st) = sa_Settings st"
  "sa_Audit (addUser u st) = sa_Audit st" "sa_AuditSeq (addUser u st) = sa_AuditSeq st"
  by (simp_all add: addUser_def)

lemma putInvite_frame [simp]:
  "sa_Users (putInvite i st) = sa_Users st" "sa_Settings (putInvite i st) = sa_Settings st"
  "sa_Audit (putInvite i st) = sa_Audit st" "sa_AuditSeq (putInvite i st) = sa_AuditSeq st"
  "findUser (putInvite i st) = findUser st"
  by (simp_all add: putInvite_def findUser_def fun_eq_iff)

lemma appendAudit_frame [simp]:
  "sa_Users (appendAudit now e st) = sa_Users st" "sa_Invites (appendAudit now e st) = sa_Invites st"
  "sa_Settings (appendAudit now e st) = sa_Settings st"
  "sa_AuditSeq (appendAudit now e st) = sa_AuditSeq st + 1"
  "findUser (appendAudit now e st) = findUser st" "findInvite (appendAudit now e st) = findInvite st"
  by (simp_all add: appendAudit_def findUser_def findInvite_def fun_eq_iff Let_def)

subsection \<open>The abstract changes\<close>

definition active_admin :: "StoreUser \<Rightarrow> bool" where
  "active_admin u \<longleftrightarrow> us_Role u = RoleAdmin \<and> \<not> us_Disabled u \<and> \<not> us_Unconfirmed u"

definition keeps_user :: "State \<Rightarrow> StoreUser \<Rightarrow> StoreUser \<Rightarrow> bool" where
  "keeps_user st u v \<longleftrightarrow> us_ID v = us_ID u \<and> us_Login v = us_Login u \<and>
     (us_Role v = us_Role u \<or> Role_Valid (us_Role v)) \<and> (us_Auth v = None \<longrightarrow> us_Auth u = None) \<and>
     (active_admin v \<or> \<not> isLastActiveAdmin st u)"

text \<open>An invite that was accepted or revoked.\<close>

definition invite_closed :: "Invite \<Rightarrow> bool" where
  "invite_closed i \<longleftrightarrow> \<not> is_zero (iv_AcceptedAt i) \<or> \<not> is_zero (iv_RevokedAt i)"

definition keeps_invite :: "Invite \<Rightarrow> Invite \<Rightarrow> bool" where
  "keeps_invite i j \<longleftrightarrow> iv_ID j = iv_ID i \<and> iv_Role j = iv_Role i \<and> iv_Delivery j = iv_Delivery i \<and>
     (invite_closed i \<longrightarrow> iv_AcceptedAt j = iv_AcceptedAt i \<and> iv_RevokedAt j = iv_RevokedAt i \<and>
        iv_TokenHash j = iv_TokenHash i \<and> iv_Login j = iv_Login i)"

inductive state_change :: "State \<Rightarrow> State \<Rightarrow> bool" where
  change_settings: "state_change st (st\<lparr>sa_Settings := g\<rparr>)"
| change_user: "findUser st (us_ID u) = Some u \<Longrightarrow> keeps_user st u v \<Longrightarrow> state_change st (putUser v st)"
| add_user: "findUser st (us_ID u) = None \<Longrightarrow> findUserByLogin st (us_Login u) = None \<Longrightarrow>
    ValidateLogin (us_Login u) = None \<Longrightarrow> Role_Valid (us_Role u) \<Longrightarrow> us_Auth u \<noteq> None \<Longrightarrow>
    state_change st (addUser u st)"
| remove_user: "findUser st uid = Some u \<Longrightarrow> \<not> isLastActiveAdmin st u \<Longrightarrow>
    state_change st (st\<lparr>sa_Users := remove_first (\<lambda>x. us_ID x = uid) (sa_Users st)\<rparr>)"
| add_invite: "findInvite st (iv_ID i) = None \<Longrightarrow> Role_Valid (iv_Role i) \<Longrightarrow> InviteDelivery_Valid (iv_Delivery i) \<Longrightarrow>
    state_change st (st\<lparr>sa_Invites := sa_Invites st @ [i]\<rparr>)"
| change_invite: "findInvite st (iv_ID i) = Some i \<Longrightarrow> keeps_invite i j \<Longrightarrow> state_change st (putInvite j st)"
| log_entry: "state_change st (appendAudit now e st)"

abbreviation changes :: "State \<Rightarrow> State \<Rightarrow> bool" where
  "changes \<equiv> state_change\<^sup>*\<^sup>*"

lemma changes_logged: "changes st st' \<Longrightarrow> changes st (appendAudit now e st')"
  by (blast intro: rtranclp.rtrancl_into_rtrancl log_entry)

lemma changes_put:
  "findUser st (us_ID u) = Some u \<Longrightarrow> keeps_user st u v \<Longrightarrow> changes st (putUser v st)"
  by (blast intro: change_user)

lemma changes_add:
  "findUser st (us_ID u) = None \<Longrightarrow> findUserByLogin st (us_Login u) = None \<Longrightarrow> ValidateLogin (us_Login u) = None \<Longrightarrow>
   Role_Valid (us_Role u) \<Longrightarrow> us_Auth u \<noteq> None \<Longrightarrow> changes st (addUser u st)"
  by (blast intro: add_user)

lemma changes_put_invite:
  "findInvite st (iv_ID i) = Some i \<Longrightarrow> keeps_invite i j \<Longrightarrow> changes st (putInvite j st)"
  by (blast intro: change_invite)

lemma changes_settings: "changes st (st\<lparr>sa_Settings := g\<rparr>)"
  by (blast intro: change_settings)

lemma findUser_own: "findUser st uid = Some u \<Longrightarrow> findUser st (us_ID u) = Some u"
  using users.lookup_key by metis

lemma findInvite_own: "findInvite st iid = Some i \<Longrightarrow> findInvite st (iv_ID i) = Some i"
  using invites.lookup_key by metis

lemma keeps_same_core:
  assumes "us_ID v = us_ID u" "us_Login v = us_Login u" "us_Role v = us_Role u" "us_Disabled v = us_Disabled u"
    "us_Unconfirmed v = us_Unconfirmed u" "us_Auth v = us_Auth u \<or> us_Auth v \<noteq> None"
  shows "keeps_user st u v"
  using assms by (auto simp: keeps_user_def active_admin_def isLastActiveAdmin_def split: if_splits)

text \<open>Credentials are replaced without touching what the contract watches.\<close>

lemma setCredentials_core:
  assumes "setCredentials E ent pw esc u = Inr v"
  shows "us_ID v = us_ID u \<and> us_Login v = us_Login u \<and> us_Role v = us_Role u \<and> us_Disabled v = us_Disabled u \<and>
    us_Unconfirmed v = us_Unconfirmed u \<and> us_Email v = us_Email u \<and> us_CreatedBy v = us_CreatedBy u \<and> us_Auth v \<noteq> None"
  using assms by (auto simp: setCredentials_def split: sum.splits)

lemma rewrapDEK_core:
  assumes "rewrapDEK E ent pw dek u = Inr v"
  shows "us_ID v = us_ID u \<and> us_Login v = us_Login u \<and> us_Role v = us_Role u \<and> us_Disabled v = us_Disabled u \<and>
    us_Unconfirmed v = us_Unconfirmed u \<and> us_Email v = us_Email u \<and> us_Auth v \<noteq> None"
  using assms by (auto simp: rewrapDEK_def split: sum.splits)

lemma newUser_core:
  assumes "newUser E w st login email role pw by = Inr u"
  shows "store_newID (wd_ent w 0) = Inr (us_ID u) \<and> us_Login u = login \<and> us_Role u = role \<and>
    us_Auth u \<noteq> None \<and> \<not> us_Disabled u \<and> \<not> us_Unconfirmed u \<and> us_Email u = email"
  using assms by (auto simp: newUser_def blank_user_def split: sum.splits dest!: setCredentials_core)

subsection \<open>The invariant\<close>

definition audit_ok :: "State \<Rightarrow> bool" where
  "audit_ok st \<longleftrightarrow> 0 \<le> sa_AuditSeq st \<and> length (sa_Audit st) = min (nat (sa_AuditSeq st)) MaxAuditEntries \<and>
     map ae_Seq (sa_Audit st) = map int [Suc (nat (sa_AuditSeq st)) - length (sa_Audit st)..<Suc (nat (sa_AuditSeq st))]"

definition user_ok :: "StoreUser \<Rightarrow> bool" where
  "user_ok u \<longleftrightarrow> ValidateLogin (us_Login u) = None \<and> Role_Valid (us_Role u) \<and> us_Auth u \<noteq> None"

definition invite_ok :: "Invite \<Rightarrow> bool" where
  "invite_ok i \<longleftrightarrow> Role_Valid (iv_Role i) \<and> InviteDelivery_Valid (iv_Delivery i)"

definition store_wf :: "State \<Rightarrow> bool" where
  "store_wf st \<longleftrightarrow> distinct (map us_ID (sa_Users st)) \<and> distinct (map us_Login (sa_Users st)) \<and>
     distinct (map iv_ID (sa_Invites st)) \<and> (\<forall>u \<in> set (sa_Users st). user_ok u) \<and>
     (\<forall>i \<in> set (sa_Invites st). invite_ok i) \<and> audit_ok st"

lemma appendAudit_entries:
  "\<exists>e'. ae_Seq e' = sa_AuditSeq st + 1 \<and> sa_Audit (appendAudit now e st) =
     drop (Suc (length (sa_Audit st)) - MaxAuditEntries) (sa_Audit st @ [e'])"
proof -
  let ?e = "e\<lparr>ae_Seq := sa_AuditSeq st + 1\<rparr>"
  show ?thesis
    by (intro exI [of _ "if is_zero (ae_At e) then ?e\<lparr>ae_At := now\<rparr> else ?e"])
      (simp add: appendAudit_def Let_def del: drop_append)
qed

lemma audit_ok_append:
  assumes a: "audit_ok st"
  shows "audit_ok (appendAudit now e st)"
proof -
  obtain n where n: "sa_AuditSeq st = int n" using a by (auto simp: audit_ok_def intro: nonneg_int_cases)
  let ?l = "length (sa_Audit st)" and ?l' = "length (sa_Audit (appendAudit now e st))"
  have l: "?l = min n MaxAuditEntries" and m: "map ae_Seq (sa_Audit st) = map int [Suc n - ?l..<Suc n]"
    using a n by (auto simp: audit_ok_def)
  obtain e' where s: "ae_Seq e' = sa_AuditSeq st + 1" and
    e': "sa_Audit (appendAudit now e st) = drop (Suc ?l - MaxAuditEntries) (sa_Audit st @ [e'])"
    using appendAudit_entries [of st now e] by blast
  have l': "?l' = min (Suc n) MaxAuditEntries"
    using l unfolding e' by (auto simp: min_def MaxAuditEntries_def)
  have "map ae_Seq (sa_Audit (appendAudit now e st)) =
      drop (Suc ?l - MaxAuditEntries) (map int ([Suc n - ?l..<Suc n] @ [Suc n]))"
    unfolding e' drop_map [symmetric] map_append m by (simp add: s n add.commute del: drop_append upt_Suc)
  also have "[Suc n - ?l..<Suc n] @ [Suc n] = [Suc n - ?l..<Suc (Suc n)]" using l by simp
  also have "drop (Suc ?l - MaxAuditEntries) (map int [Suc n - ?l..<Suc (Suc n)]) =
      map int [Suc n - ?l + (Suc ?l - MaxAuditEntries)..<Suc (Suc n)]"
    by (simp add: drop_map del: upt_Suc)
  also have "Suc n - ?l + (Suc ?l - MaxAuditEntries) = Suc (Suc n) - ?l'"
    using l unfolding l' by (auto simp: min_def MaxAuditEntries_def)
  finally show ?thesis using n l' by (simp add: audit_ok_def nat_add_distrib)
qed

lemma findUserByLogin_None: "findUserByLogin st login = None \<longleftrightarrow> login \<notin> us_Login ` set (sa_Users st)"
  by (auto simp: findUserByLogin_def find_first_None)

lemma wf_put_user:
  assumes wf: "store_wf st" and f: "findUser st (us_ID u) = Some u" and k: "keeps_user st u v"
  shows "store_wf (putUser v st)"
proof -
  have i: "us_ID v = us_ID u" "us_Login v = us_Login u" using k by (auto simp: keeps_user_def)
  have d: "distinct (map us_ID (sa_Users st))" and u: "u \<in> set (sa_Users st)"
    using wf users.lookup_row [OF f] by (auto simp: store_wf_def)
  have logins: "map us_Login (sa_Users (putUser v st)) = map us_Login (sa_Users st)"
  proof (rule users.map_replace)
    fix x assume "x \<in> set (sa_Users st)" "us_ID x = us_ID v"
    then have "x = u" using users.lookup_unique [OF d] f i by fastforce
    then show "us_Login x = us_Login v" using i by simp
  qed
  have "set (sa_Users (putUser v st)) \<subseteq> insert v (set (sa_Users st))"
    by (simp add: users.rows_replace set_update_first_subset)
  moreover have "user_ok v" using k u wf by (auto simp: user_ok_def keeps_user_def store_wf_def)
  ultimately show ?thesis
    using wf logins users.keys_replace [of v st] by (auto simp: store_wf_def audit_ok_def)
qed

lemma wf_put_invite:
  assumes wf: "store_wf st" and f: "findInvite st (iv_ID i) = Some i" and k: "keeps_invite i j"
  shows "store_wf (putInvite j st)"
proof -
  have "set (sa_Invites (putInvite j st)) \<subseteq> insert j (set (sa_Invites st))"
    by (simp add: invites.rows_replace set_update_first_subset)
  moreover have "invite_ok j"
    using k wf invites.lookup_row [OF f] by (auto simp: invite_ok_def keeps_invite_def store_wf_def)
  ultimately show ?thesis
    using wf invites.keys_replace [of j st] by (auto simp: store_wf_def audit_ok_def)
qed

lemma wf_change: "state_change st st' \<Longrightarrow> store_wf st \<Longrightarrow> store_wf st'"
proof (induction rule: state_change.induct)
  case (change_settings st g)
  then show ?case by (auto simp: store_wf_def audit_ok_def)
next
  case (change_user st u v)
  then show ?case by (blast intro: wf_put_user)
next
  case (add_user st u)
  then show ?case
    by (auto simp: store_wf_def audit_ok_def user_ok_def findUserByLogin_None users.lookup_absent)
next
  case (remove_user st uid u)
  then show ?case
    using set_remove_first_subset [of "\<lambda>x. us_ID x = uid" "sa_Users st"]
    by (auto simp: store_wf_def audit_ok_def distinct_map_remove_first)
next
  case (add_invite st i)
  then show ?case by (auto simp: store_wf_def audit_ok_def invite_ok_def invites.lookup_absent)
next
  case (change_invite st i j)
  then show ?case by (blast intro: wf_put_invite)
next
  case (log_entry st now e)
  then show ?case by (auto simp: store_wf_def audit_ok_append)
qed

lemma wf_changes: "changes st st' \<Longrightarrow> store_wf st \<Longrightarrow> store_wf st'"
  by (induction rule: rtranclp_induct) (auto intro: wf_change)

lemma wf_new: "store_wf (newState now)"
  by (simp add: store_wf_def newState_def audit_ok_def)

subsection \<open>The calls\<close>

text \<open>
  What a call relies on: the codec reads the state back, no identifier drawn at random is in use, and
  the clock never shows the zero time.
\<close>

definition good_call :: "store_env \<Rightarrow> world \<Rightarrow> State \<Rightarrow> bool" where
  "good_call E w st \<longleftrightarrow> json_reads_back E st \<and> (\<forall>i. \<not> is_zero (wd_clk w i)) \<and>
     (\<forall>i uid. store_newID (wd_ent w i) = Inr uid \<longrightarrow> findUser st uid = None \<and> findInvite st uid = None)"

inductive store_step :: "store_env \<Rightarrow> Store \<Rightarrow> Store \<Rightarrow> bool" for E where
  "good_call E w (sr_state s) \<Longrightarrow> store_step E s (fst (CreateFirstAdmin E w login email password ip s))"
| "good_call E w (sr_state s) \<Longrightarrow> store_step E s (fst (CreateUserWithPassword E w actor login email role password s))"
| "good_call E w (sr_state s) \<Longrightarrow> store_step E s (fst (RecordLogin E w actor s))"
| "good_call E w (sr_state s) \<Longrightarrow> store_step E s (fst (ChangePassword E w uid current new s))"
| "good_call E w (sr_state s) \<Longrightarrow> store_step E s (fst (ResetPassword E w actor uid password s))"
| "good_call E w (sr_state s) \<Longrightarrow> store_step E s (fst (SetDisabled E w actor uid disabled s))"
| "good_call E w (sr_state s) \<Longrightarrow> store_step E s (fst (SetRole E w actor uid role s))"
| "good_call E w (sr_state s) \<Longrightarrow> store_step E s (fst (SetDisplayName E w uid name s))"
| "good_call E w (sr_state s) \<Longrightarrow> store_step E s (fst (SetEmail E w actor uid email s))"
| "good_call E w (sr_state s) \<Longrightarrow> store_step E s (fst (DeleteUser E w actor uid s))"
| "good_call E w (sr_state s) \<Longrightarrow> store_step E s (fst (SetWeekStart E w uid value s))"
| "good_call E w (sr_state s) \<Longrightarrow> store_step E s (fst (SetContactSort E w uid value s))"
| "good_call E w (sr_state s) \<Longrightarrow> store_step E s (fst (SetNoteSort E w uid value s))"
| "good_call E w (sr_state s) \<Longrightarrow> store_step E s (fst (MarkEscrowNoticeSeen E w uid s))"
| "good_call E w (sr_state s) \<Longrightarrow> store_step E s (fst (Register E w login email password ip s))"
| "good_call E w (sr_state s) \<Longrightarrow> store_step E s (fst (RequestEmailChange E w actor uid email ttl s))"
| "good_call E w (sr_state s) \<Longrightarrow> store_step E s (fst (ConfirmEmailChange E w token s))"
| "good_call E w (sr_state s) \<Longrightarrow> store_step E s (fst (CreateInvite E w actor role delivery email ttl s))"
| "good_call E w (sr_state s) \<Longrightarrow> store_step E s (fst (AcceptInvite E w token login email password ip s))"
| "good_call E w (sr_state s) \<Longrightarrow> store_step E s (fst (RevokeInvite E w actor iid s))"
| "good_call E w (sr_state s) \<Longrightarrow> store_step E s (fst (ExtendInvite E w actor iid ttl s))"
| "good_call E w (sr_state s) \<Longrightarrow> store_step E s (fst (ResendInvite E w actor iid s))"
| "good_call E w (sr_state s) \<Longrightarrow> store_step E s (fst (RecordInviteSend E w iid status sendErr s))"
| "good_call E w (sr_state s) \<Longrightarrow> store_step E s (fst (store_Log E w entry s))"
| "good_call E w (sr_state s) \<Longrightarrow> store_step E s (fst (UpdateSettings E w actor fn s))"
| "good_call E w (sr_state s) \<Longrightarrow> store_step E s (fst (SetSMTPPassword E w actor password s))"
| "good_call E w (sr_state s) \<Longrightarrow> store_step E s (fst (EnableEscrow E w actor masterPassword s))"
| "good_call E w (sr_state s) \<Longrightarrow> store_step E s (fst (ResumeEscrow E w actor masterPassword s))"
| "good_call E w (sr_state s) \<Longrightarrow> store_step E s (fst (DisableEscrow E w actor s))"
| "good_call E w (sr_state s) \<Longrightarrow> store_step E s (fst (ChangeEscrowMasterPassword E w actor current new s))"
| "good_call E w (sr_state s) \<Longrightarrow> store_step E s (fst (EscrowOptIn E w actor uid password s))"
| "good_call E w (sr_state s) \<Longrightarrow> store_step E s (fst (EscrowOptOut E w actor uid s))"
| "good_call E w (sr_state s) \<Longrightarrow> store_step E s (fst (RecoverUser E w actor uid masterPassword password s))"
| "good_call E w (sr_state s) \<Longrightarrow> store_step E s (fst (PutDAVAccount E w actor uid dek acc s))"
| "good_call E w (sr_state s) \<Longrightarrow> store_step E s (fst (PutDAVAccountFromDiscovery E w actor uid dek label creds result s))"
| "good_call E w (sr_state s) \<Longrightarrow> store_step E s (fst (DeleteDAVAccount E w actor uid aid dek s))"
| "good_call E w (sr_state s) \<Longrightarrow> store_step E s (fst (SetDAVAccountEnabled E w actor uid aid dek enabled s))"
| "good_call E w (sr_state s) \<Longrightarrow> store_step E s (fst (UpdateViews E w uid dek vfn s))"
| "good_call E w (sr_state s) \<Longrightarrow> store_step E s (fst (UpdateDuplicates E w uid dek dfn s))"
| "good_call E w (sr_state s) \<Longrightarrow> store_step E s (fst (UpsertCollection E w actor uid dek aid col action s))"
| "good_call E w (sr_state s) \<Longrightarrow> store_step E s (fst (RemoveCollection E w actor uid dek aid path s))"

definition store_start :: "Store \<Rightarrow> bool" where
  "store_start s \<longleftrightarrow> (\<exists>now. sr_state s = newState now)"

text \<open>A call changes the state by a sequence of abstract changes, given a state that is well formed.\<close>

definition ok_call :: "store_env \<Rightarrow> world \<Rightarrow> Store \<Rightarrow> bool" where
  "ok_call E w s \<longleftrightarrow> good_call E w (sr_state s) \<and> store_wf (sr_state s)"

definition conforms :: "Store \<Rightarrow> Store \<times> 'a \<Rightarrow> bool" where
  "conforms s r \<longleftrightarrow> changes (sr_state s) (sr_state (fst r))"

named_theorems conform

lemma conforms_same [simp]: "conforms s (s, x)"
  by (simp add: conforms_def)

lemma conforms_checked [conform]: "(e = None \<Longrightarrow> conforms s r) \<Longrightarrow> conforms s (checked e s r)"
  by (auto simp: conforms_def checked_def split: option.splits)

lemma conforms_update:
  assumes "ok_call E w s" and "\<And>st a. f (sr_state s) = Inr (st, a) \<Longrightarrow> changes (sr_state s) st"
  shows "conforms s (store_update E w' f s)"
proof -
  have c: "cloneState E (sr_state s) = Inr (sr_state s)"
    using assms(1) by (auto simp: ok_call_def good_call_def intro: cloneState_reads_back)
  obtain s' res where u: "store_update E w' f s = (s', res)" by fastforce
  show ?thesis
  proof (cases res)
    case (Inl e)
    then show ?thesis using store_update_Inl u by (fastforce simp: conforms_def)
  next
    case (Inr a)
    then show ?thesis using store_update_Inr [OF u [unfolded Inr]] c assms(2) u by (auto simp: conforms_def)
  qed
qed

lemma conforms_case [conform]:
  "conforms s r \<Longrightarrow>
   conforms s (case r of (s', Inl e) \<Rightarrow> (s', Inl e) | (s', Inr a) \<Rightarrow> (s', Inr (g a)))"
  by (cases r; cases "snd r") (auto simp: conforms_def)

lemma with_user_Inr [simp]: "with_user st uid f = Inr r \<longleftrightarrow> (\<exists>u. findUser st uid = Some u \<and> f u = Inr r)"
  by (auto simp: with_user_def split: option.splits)

lemma with_invite_Inr [simp]: "with_invite st iid f = Inr r \<longleftrightarrow> (\<exists>i. findInvite st iid = Some i \<and> f i = Inr r)"
  by (auto simp: with_invite_def split: option.splits)

lemma changes_put_core:
  assumes "findUser st uid = Some u" "us_ID v = us_ID u" "us_Login v = us_Login u" "us_Role v = us_Role u"
    "us_Disabled v = us_Disabled u" "us_Unconfirmed v = us_Unconfirmed u" "us_Auth v = us_Auth u \<or> us_Auth v \<noteq> None"
  shows "changes st (putUser v st)"
  using assms by (blast intro: changes_put findUser_own keeps_same_core)

text \<open>Changes that only touch what the contract does not watch.\<close>

lemma conform_fields [conform]:
  assumes "ok_call E w s"
    and "\<And>u. us_ID (f u) = us_ID u \<and> us_Login (f u) = us_Login u \<and> us_Role (f u) = us_Role u \<and>
      us_Disabled (f u) = us_Disabled u \<and> us_Unconfirmed (f u) = us_Unconfirmed u \<and> us_Auth (f u) = us_Auth u"
  shows "conforms s (store_update E w (set_user_field uid f) s)"
  using assms by (intro conforms_update) (auto simp: set_user_field_def intro: changes_put_core)

lemma conform_setters [conform]:
  assumes "ok_call E w s"
  shows "conforms s (SetDisplayName E w uid name s)" "conforms s (SetWeekStart E w uid value s)"
    "conforms s (SetContactSort E w uid value s)" "conforms s (SetNoteSort E w uid value s)"
    "conforms s (MarkEscrowNoticeSeen E w uid s)"
  by (simp_all add: SetDisplayName_def SetWeekStart_def SetContactSort_def SetNoteSort_def
      MarkEscrowNoticeSeen_def Let_def conforms_checked conform_fields [OF assms])

lemma conform_RecordLogin [conform]: "ok_call E w s \<Longrightarrow> conforms s (RecordLogin E w actor s)"
  unfolding RecordLogin_def
  by (rule conforms_update) (auto simp: RecordLogin_fn_def Let_def intro!: changes_logged intro: changes_put_core)

lemma conform_ChangePassword [conform]: "ok_call E w s \<Longrightarrow> conforms s (ChangePassword E w uid current new s)"
  unfolding ChangePassword_def
  by (intro conforms_checked conforms_update)
    (auto simp: ChangePassword_fn_def Let_def split: if_splits sum.splits dest!: rewrapDEK_core
      intro!: changes_logged intro: changes_put_core)

lemma conform_ResetPassword [conform]: "ok_call E w s \<Longrightarrow> conforms s (ResetPassword E w actor uid password s)"
  unfolding ResetPassword_def
  by (intro conforms_checked conforms_update)
    (auto simp: ResetPassword_fn_def Let_def split: if_splits sum.splits dest!: setCredentials_core
      intro!: changes_logged intro: changes_put_core)

lemma conform_RecoverUser [conform]: "ok_call E w s \<Longrightarrow> conforms s (RecoverUser E w actor uid master password s)"
  unfolding RecoverUser_def
  by (intro conforms_checked conforms_update)
    (auto simp: RecoverUser_fn_def Let_def split: if_splits sum.splits option.splits dest!: rewrapDEK_core
      intro!: changes_logged intro: changes_put_core)

lemma conform_SetDisabled [conform]: "ok_call E w s \<Longrightarrow> conforms s (SetDisabled E w actor uid disabled s)"
  unfolding SetDisabled_def
  by (rule conforms_update)
    (auto simp: SetDisabled_fn_def Let_def keeps_user_def active_admin_def isLastActiveAdmin_def
      split: if_splits intro!: changes_logged changes_put [OF findUser_own])

lemma conform_SetRole [conform]: "ok_call E w s \<Longrightarrow> conforms s (SetRole E w actor uid role s)"
  unfolding SetRole_def
  by (intro conforms_checked conforms_update)
    (auto simp: SetRole_fn_def Let_def keeps_user_def active_admin_def isLastActiveAdmin_def
      split: if_splits intro!: changes_logged changes_put [OF findUser_own])

lemma conform_SetEmail [conform]: "ok_call E w s \<Longrightarrow> conforms s (SetEmail E w actor uid email s)"
  unfolding SetEmail_def Let_def
  by (intro conforms_checked conforms_update)
    (auto simp: SetEmail_fn_def Let_def intro!: changes_logged intro: changes_put_core)

lemma conform_DeleteUser [conform]: "ok_call E w s \<Longrightarrow> conforms s (DeleteUser E w actor uid s)"
  unfolding DeleteUser_def
  by (rule conforms_update)
    (auto simp: DeleteUser_fn_def split: if_splits intro!: changes_logged intro: remove_user)

lemma conform_RequestEmailChange [conform]:
  "ok_call E w s \<Longrightarrow> conforms s (RequestEmailChange E w actor uid email ttl s)"
  unfolding RequestEmailChange_def Let_def
  by (auto split: sum.split intro!: conforms_checked conforms_case conforms_update)
    (auto simp: RequestEmailChange_fn_def Let_def split: if_splits intro!: changes_logged intro: changes_put_core)

text \<open>New users, with an identifier that is not in use.\<close>

lemma drawn_simps [simp]: "wd_ent (drawn n w) i = wd_ent w (i + n)" "wd_clk (drawn n w) = wd_clk w"
  "wd_ent (ticked n w) = wd_ent w" "wd_clk (ticked n w) i = wd_clk w (i + n)"
  by (simp_all add: drawn_def ticked_def)

lemma ok_call_drawn: "ok_call E w s \<Longrightarrow> ok_call E (drawn n w) s"
  by (auto simp: ok_call_def good_call_def)

lemma ok_call_ticked: "ok_call E w s \<Longrightarrow> ok_call E (ticked n w) s"
  by (auto simp: ok_call_def good_call_def)

lemma newUser_fresh:
  assumes "newUser E w' st login email role pw by = Inr u" and "ok_call E w s" and "\<exists>i. wd_ent w' 0 = wd_ent w i"
  shows "findUser (sr_state s) (us_ID u) = None"
  using newUser_core [OF assms(1)] assms(2,3) by (auto simp: ok_call_def good_call_def)

lemma changes_new_user:
  assumes n: "newUser E w' st0 login email role pw by = Inr u" and ok: "ok_call E w s"
    and e: "\<exists>i. wd_ent w' 0 = wd_ent w i" and st: "sa_Users st = sa_Users (sr_state s)"
    and l: "checkLoginFree (sr_state s) login = None" "ValidateLogin login = None" and r: "Role_Valid role"
    and v: "us_ID v = us_ID u" "us_Login v = us_Login u" "us_Role v = us_Role u" "us_Auth v = us_Auth u"
  shows "changes st (addUser v st)"
proof (rule changes_add)
  have f: "findUser st = findUser (sr_state s)" by (simp add: findUser_def st fun_eq_iff)
  show "findUser st (us_ID v) = None" using newUser_fresh [OF n ok e] v f by simp
  show "findUserByLogin st (us_Login v) = None"
    using l(1) newUser_core [OF n] v st by (auto simp: checkLoginFree_def findUserByLogin_def split: if_splits)
qed (use newUser_core [OF n] l r v in auto)

lemma validateNewUser_None: "validateNewUser E login email pw = None \<Longrightarrow> ValidateLogin login = None"
  by (auto simp: validateNewUser_def split: option.splits)

lemma checked_roles [simp]: "(if Role_Valid r then None else Some e) = None \<longleftrightarrow> Role_Valid r"
  by simp

lemma conform_CreateFirstAdmin [conform]: "ok_call E w s \<Longrightarrow> conforms s (CreateFirstAdmin E w login email password ip s)"
  unfolding CreateFirstAdmin_def Let_def
  by (intro conforms_checked conforms_update)
    (auto simp: CreateFirstAdmin_fn_def Let_def Role_Valid_def dest: validateNewUser_None split: if_splits sum.splits option.splits
      intro!: changes_logged intro: changes_new_user)

lemma conform_CreateUserWithPassword [conform]:
  "ok_call E w s \<Longrightarrow> conforms s (CreateUserWithPassword E w actor login email role password s)"
  unfolding CreateUserWithPassword_def Let_def
  by (intro conforms_checked conforms_update)
    (auto simp: CreateUserWithPassword_fn_def Let_def dest: validateNewUser_None split: if_splits sum.splits option.splits
      intro!: changes_logged intro: changes_new_user)

lemma changes_register:
  assumes ok: "ok_call E w s" and v: "ValidateLogin login = None"
    and f: "Register_fn E (drawn 1 w) login email password ip token (sr_state s) = Inr (st, u)"
  shows "changes (sr_state s) st"
proof (cases "findUserByLogin (sr_state s) login")
  case None
  then show ?thesis using f v
    by (auto simp: Register_fn_def Let_def stampRegistration_def Role_Valid_def checkLoginFree_def
        split: if_splits sum.splits intro!: changes_logged changes_new_user [OF _ ok])
next
  case (Some x)
  have "distinct (map us_ID (sa_Users (sr_state s)))" using ok by (simp add: ok_call_def store_wf_def)
  then have "findUser (sr_state s) (us_ID x) = Some x"
    using users.lookup_unique find_first_SomeD [OF Some [unfolded findUserByLogin_def]] by blast
  moreover have "\<not> isLastActiveAdmin (sr_state s) x" if "us_Unconfirmed x" using that by (simp add: isLastActiveAdmin_def)
  ultimately show ?thesis using f Some
    by (auto simp: Register_fn_def Let_def stampRegistration_def keeps_user_def split: if_splits sum.splits
        dest!: setCredentials_core intro!: changes_logged changes_put)
qed

lemma conform_Register [conform]: "ok_call E w s \<Longrightarrow> conforms s (Register E w login email password ip s)"
  unfolding Register_def Let_def
  by (auto split: sum.split intro!: conforms_checked conforms_case conforms_update
      intro: changes_register dest: validateNewUser_None)

lemma find_last_in: "find_last P xs = Some x \<Longrightarrow> P x \<and> x \<in> set xs"
  unfolding find_last_def by (drule find_first_SomeD) simp

lemma conform_ConfirmEmailChange [conform]:
  assumes ok: "ok_call E w s"
  shows "conforms s (ConfirmEmailChange E w token s)"
proof -
  have d: "distinct (map us_ID (sa_Users (sr_state s)))" using ok by (simp add: ok_call_def store_wf_def)
  have "changes (sr_state s) st" if c: "ConfirmEmailChange_fn w digest (sr_state s) = Inr (st, a)" for digest st a
  proof -
    obtain u where u: "find_last (\<lambda>c. us_EmailChangeTokenHash c \<noteq> [] \<and> Equal (us_EmailChangeTokenHash c) digest)
        (sa_Users (sr_state s)) = Some u"
      using c by (auto simp: ConfirmEmailChange_fn_def Let_def split: option.splits)
    have "findUser (sr_state s) (us_ID u) = Some u" using users.lookup_unique [OF d] find_last_in [OF u] by blast
    then show ?thesis using c u
      by (auto simp: ConfirmEmailChange_fn_def Let_def keeps_user_def active_admin_def isLastActiveAdmin_def
          split: if_splits intro!: changes_logged changes_put)
  qed
  then show ?thesis unfolding ConfirmEmailChange_def by (auto intro!: conforms_update [OF ok])
qed

text \<open>Invites.\<close>

lemma ok_call_clock: "ok_call E w s \<Longrightarrow> \<not> is_zero (wd_clk w i)"
  by (simp add: ok_call_def good_call_def)

lemma changes_add_invite:
  "findInvite st (iv_ID i) = None \<Longrightarrow> Role_Valid (iv_Role i) \<Longrightarrow> InviteDelivery_Valid (iv_Delivery i) \<Longrightarrow>
   changes st (st\<lparr>sa_Invites := sa_Invites st @ [i]\<rparr>)"
  by (blast intro: add_invite)

lemma conform_CreateInvite [conform]:
  assumes ok: "ok_call E w s"
  shows "conforms s (CreateInvite E w actor role delivery email ttl s)"
proof -
  have "changes (sr_state s) st"
    if "CreateInvite_fn E w actor role delivery em ttl token iid (sr_state s) = Inr (st, i)"
      "store_newID (wd_ent w 1) = Inr iid" "Role_Valid role" "InviteDelivery_Valid delivery" for em token iid st i
    using that ok
    by (auto simp: CreateInvite_fn_def Let_def ok_call_def good_call_def
        intro!: changes_logged changes_add_invite)
  then show ?thesis unfolding CreateInvite_def Let_def
    by (auto split: sum.split intro!: conforms_checked conforms_case conforms_update [OF ok])
qed

lemma conform_AcceptInvite [conform]:
  assumes ok: "ok_call E w s"
  shows "conforms s (AcceptInvite E w token login email password ip s)"
proof -
  have d: "distinct (map iv_ID (sa_Invites (sr_state s)))" using ok by (simp add: ok_call_def store_wf_def)
  have "changes (sr_state s) st"
    if c: "AcceptInvite_fn E w digest login email password ip (sr_state s) = Inr (st, a)"
      and l: "ValidateLogin login = None" for digest login st a
  proof -
    obtain i where i: "find_last (\<lambda>i. Equal (iv_TokenHash i) digest) (sa_Invites (sr_state s)) = Some i"
      "Usable i (wd_clk w 0)" "checkLoginFree (sr_state s) login = None"
      using c by (auto simp: AcceptInvite_fn_def Let_def split: option.splits if_splits)
    define mail where "mail = (if iv_Delivery i = InviteDeliveryEmail then iv_Email i else NormalizeEmail email)"
    let ?i = "i\<lparr>iv_AcceptedAt := wd_clk w 0, iv_Login := login, iv_Email := mail\<rparr>"
    obtain u where u: "newUser E (ticked 1 w) (putInvite ?i (sr_state s)) login mail (iv_Role i) password (iv_CreatedBy i) = Inr u"
      and st: "st = appendAudit (wd_clk w 0) (entry_self (u\<lparr>us_EmailConfirmed := iv_Delivery i = InviteDeliveryEmail\<rparr>) ''invite_accept'' ip [])
         (addUser (u\<lparr>us_EmailConfirmed := iv_Delivery i = InviteDeliveryEmail\<rparr>) (putInvite ?i (sr_state s)))"
      using c i unfolding mail_def
      by (auto simp: AcceptInvite_fn_def Let_def split: option.splits if_splits sum.splits)
    have inv: "i \<in> set (sa_Invites (sr_state s))" using find_last_in [OF i(1)] by blast
    have "changes (sr_state s) (putInvite ?i (sr_state s))"
      using invites.lookup_unique [OF d inv] i(2)
      by (intro changes_put_invite [of _ i]) (auto simp: keeps_invite_def invite_closed_def Usable_def invite_Status_def
          InvitePending_def InviteAccepted_def InviteRevoked_def split: if_splits)
    moreover have "Role_Valid (iv_Role i)" using ok inv by (auto simp: ok_call_def store_wf_def invite_ok_def)
    then have "changes (putInvite ?i (sr_state s)) st"
      unfolding st by (intro changes_logged changes_new_user [OF u ok]) (use i(3) l in auto)
    ultimately show ?thesis by simp
  qed
  then show ?thesis unfolding AcceptInvite_def Let_def
    by (auto intro!: conforms_checked conforms_update [OF ok])
qed

lemma changes_invite_core:
  assumes "findInvite st iid = Some i" "keeps_invite i j"
  shows "changes st (putInvite j st)"
  using assms by (blast intro: changes_put_invite findInvite_own)

lemma usable_open: "Usable i now \<Longrightarrow> \<not> invite_closed i"
  by (auto simp: invite_closed_def Usable_def invite_Status_def InvitePending_def InviteAccepted_def
      InviteRevoked_def split: if_splits)

lemma changes_usable_invite:
  assumes "findInvite st iid = Some i" "Usable i now" "iv_ID j = iv_ID i" "iv_Role j = iv_Role i"
    "iv_Delivery j = iv_Delivery i"
  shows "changes st (putInvite j st)"
  using assms by (intro changes_invite_core) (auto simp: keeps_invite_def dest: usable_open)

lemma conform_RevokeInvite [conform]: "ok_call E w s \<Longrightarrow> conforms s (RevokeInvite E w actor iid s)"
  unfolding RevokeInvite_def
  by (rule conforms_update)
    (auto simp: RevokeInvite_fn_def Let_def split: if_splits intro!: changes_logged intro: changes_usable_invite)

lemma conform_ExtendInvite [conform]: "ok_call E w s \<Longrightarrow> conforms s (ExtendInvite E w actor iid ttl s)"
  unfolding ExtendInvite_def
  by (rule conforms_update)
    (auto simp: ExtendInvite_fn_def Let_def keeps_invite_def split: if_splits
      intro!: changes_logged intro: changes_invite_core)

lemma conform_ResendInvite [conform]: "ok_call E w s \<Longrightarrow> conforms s (ResendInvite E w actor iid s)"
  unfolding ResendInvite_def
  by (auto split: sum.split intro!: conforms_case conforms_update)
    (auto simp: ResendInvite_fn_def Let_def split: if_splits intro!: changes_logged intro: changes_usable_invite)

lemma conform_RecordInviteSend [conform]: "ok_call E w s \<Longrightarrow> conforms s (RecordInviteSend E w iid status sendErr s)"
  unfolding RecordInviteSend_def
  by (rule conforms_update)
    (auto simp: RecordInviteSend_fn_def Let_def keeps_invite_def intro!: changes_logged intro: changes_invite_core)

text \<open>The log, the settings and the deposit.\<close>

lemma conform_Log [conform]: "ok_call E w s \<Longrightarrow> conforms s (store_Log E w entry s)"
  unfolding store_Log_def
  by (rule conforms_update) (auto simp: Log_fn_def intro!: changes_logged)

lemma conform_UpdateSettings [conform]: "ok_call E w s \<Longrightarrow> conforms s (UpdateSettings E w actor fn s)"
  unfolding UpdateSettings_def
  by (rule conforms_update)
    (auto simp: UpdateSettings_fn_def Let_def split: option.splits intro!: changes_logged changes_settings)

lemma conform_SetSMTPPassword [conform]: "ok_call E w s \<Longrightarrow> conforms s (SetSMTPPassword E w actor password s)"
  unfolding SetSMTPPassword_def
  by (rule conforms_update)
    (auto simp: SetSMTPPassword_fn_def set_smtp_password_def split: if_splits sum.splits
      intro!: changes_logged changes_settings)

lemma changes_set_escrow: "changes st (set_escrow f st)"
  unfolding set_escrow_def by (rule changes_settings)

lemma conform_escrow_settings [conform]:
  assumes "ok_call E w s"
  shows "conforms s (EnableEscrow E w actor master s)" "conforms s (ResumeEscrow E w actor master s)"
    "conforms s (DisableEscrow E w actor s)" "conforms s (ChangeEscrowMasterPassword E w actor current new s)"
  unfolding EnableEscrow_def ResumeEscrow_def DisableEscrow_def ChangeEscrowMasterPassword_def
  by (auto simp: EnableEscrow_fn_def ResumeEscrow_fn_def DisableEscrow_fn_def ChangeEscrowMasterPassword_fn_def
      split: sum.split if_splits option.splits prod.splits
      intro!: conforms_update [OF assms] changes_logged changes_set_escrow)

lemma conform_EscrowOptIn [conform]: "ok_call E w s \<Longrightarrow> conforms s (EscrowOptIn E w actor uid password s)"
  unfolding EscrowOptIn_def
  by (rule conforms_update)
    (auto simp: EscrowOptIn_fn_def Let_def split: if_splits sum.splits intro!: changes_logged intro: changes_put_core)

lemma conform_EscrowOptOut [conform]: "ok_call E w s \<Longrightarrow> conforms s (EscrowOptOut E w actor uid s)"
  unfolding EscrowOptOut_def
  by (rule conforms_update)
    (auto simp: EscrowOptOut_fn_def Let_def split: if_splits intro!: changes_logged intro: changes_put_core)

text \<open>The operations on sealed secrets.\<close>

lemma with_blob_InrD:
  assumes "with_blob E e dek uid f after st = Inr r"
  shows "\<exists>u blob blob' a sealed. findUser st uid = Some u \<and> open_blob E dek (us_Secrets u) = Inr blob \<and>
        f blob = Inr (blob', a) \<and> seal_blob E e dek (Some blob') = Inr sealed \<and>
        r = after (u\<lparr>us_Secrets := sealed\<rparr>) blob' a"
proof -
  obtain u where u: "findUser st uid = Some u" using assms by (auto simp: with_blob_def)
  obtain blob where o: "open_blob E dek (us_Secrets u) = Inr blob"
    using assms u by (cases "open_blob E dek (us_Secrets u)") (auto simp: with_blob_def)
  obtain blob' a where f: "f blob = Inr (blob', a)"
    using assms u o by (cases "f blob") (auto simp: with_blob_def)
  obtain sealed where "seal_blob E e dek (Some blob') = Inr sealed"
    using assms u o f by (cases "seal_blob E e dek (Some blob')") (auto simp: with_blob_def)
  then show ?thesis using assms u o f by (auto simp: with_blob_def)
qed

lemma changes_secrets:
  assumes "findUser st uid = Some u"
  shows "changes st (putUser (u\<lparr>us_Secrets := x\<rparr>) st)" and "changes st (putUser (counted b (u\<lparr>us_Secrets := x\<rparr>)) st)"
  using changes_put_core [OF assms] by (simp_all add: counted_def)

lemma conform_secrets [conform]:
  assumes "ok_call E w s"
  shows "conforms s (UpdateViews E w uid dek vfn s)" "conforms s (UpdateDuplicates E w uid dek dfn s)"
    "conforms s (DeleteDAVAccount E w actor uid aid dek s)"
    "conforms s (SetDAVAccountEnabled E w actor uid aid dek enabled s)"
    "conforms s (UpsertCollection E w actor uid dek aid col action s)"
    "conforms s (RemoveCollection E w actor uid dek aid path s)"
  unfolding UpdateViews_def UpdateDuplicates_def DeleteDAVAccount_def SetDAVAccountEnabled_def
    UpsertCollection_def RemoveCollection_def UpdateViews_fn_def UpdateDuplicates_fn_def DeleteDAVAccount_fn_def
    SetDAVAccountEnabled_fn_def UpsertCollection_fn_def RemoveCollection_fn_def Let_def
  by (auto split: option.split if_splits dest!: with_blob_InrD
      intro!: conforms_update [OF assms] changes_logged changes_secrets)

lemma conform_PutDAVAccount:
  assumes "ok_call E w s"
  shows "conforms s (PutDAVAccount E w' actor uid dek acc s)"
  unfolding PutDAVAccount_def PutDAVAccount_fn_def Let_def
  by (auto split: sum.split dest!: with_blob_InrD
      intro!: conforms_update [OF assms] changes_logged changes_secrets)

lemma conform_PutDAVAccountFromDiscovery [conform]:
  assumes "ok_call E w s"
  shows "conforms s (PutDAVAccountFromDiscovery E w actor uid dek label creds result s)"
  unfolding PutDAVAccountFromDiscovery_def Let_def
  by (auto split: sum.split option.split intro!: conforms_case conform_PutDAVAccount [OF assms])

lemma step_conforms:
  assumes "store_step E s t" and "store_wf (sr_state s)"
  shows "changes (sr_state s) (sr_state t)"
  using assms
proof (induction rule: store_step.induct)
qed (simp_all add: conforms_def [symmetric] ok_call_def conform conform_PutDAVAccount)

end
