(* ===== verification/StoreCredentials.thy ===== *)
theory StoreCredentials
  imports StoreInvariant
begin

text \<open>
  What a user's stored credentials are worth: which password opens which data key, what the operations
  on passwords do to that, and a bootstrapped store to evaluate the properties on.
\<close>

subsection \<open>Credentials\<close>

definition opens_with :: "store_env \<Rightarrow> StoreUser \<Rightarrow> string \<Rightarrow> bytes \<Rightarrow> bool" where
  "opens_with E u password dek \<longleftrightarrow> ph_Verify (en_P E) (us_Auth u) password \<and>
     (\<exists>kek. DeriveKey (en_P E) password (us_KEKSalt u) (us_KEKParams u) = Inr kek \<and>
            UnwrapDEK (en_P E) kek (us_WrappedDEK u) = Inr dek)"

lemma opens_with_unique: "opens_with E u pw dek \<Longrightarrow> opens_with E u pw dek' \<Longrightarrow> dek' = dek"
  by (auto simp: opens_with_def)

lemma Authenticate_iff:
  "Authenticate E st login pw = Inr (u, dek) \<longleftrightarrow>
     findUserByLogin st (NormalizeLogin E login) = Some u \<and> \<not> us_Disabled u \<and> \<not> us_Unconfirmed u \<and>
     opens_with E u pw dek"
  by (auto simp: Authenticate_def opens_with_def Activated_def ph_Verify_def split: option.splits sum.splits if_splits)

lemma unwrap_user_DEK_opens:
  "ph_Verify (en_P E) (us_Auth u) pw \<Longrightarrow> unwrap_user_DEK E u pw = Inr dek \<longleftrightarrow> opens_with E u pw dek"
  by (auto simp: unwrap_user_DEK_def opens_with_def split: sum.splits)

lemma HashPassword_verifies:
  assumes P: "primitives_ok P" and h: "HashPassword P e pw p = Inr h"
  shows "ph_Verify P (Some h) pw"
proof -
  obtain salt where s: "NewSalt e = Inr salt" "DeriveKey P pw salt p = Inr (ph_Hash h)" "ph_Salt h = salt" "ph_Params h = p"
    using h by (auto simp: HashPassword_def split: sum.splits)
  have "salt \<noteq> []" using s(2) by (auto simp: DeriveKey_Inr)
  moreover have "ph_Hash h \<noteq> []"
  proof -
    have "length (ph_Hash h) = unat (pa_KeyLen p)" "\<not> pa_KeyLen p < 16"
      using s(2) primitives_okD(3) [OF P] by (auto simp: DeriveKey_Inr params_Validate_def)
    then show ?thesis by (auto simp: word_less_nat_alt)
  qed
  ultimately show ?thesis using s by (simp add: ph_Verify_def Equal_def)
qed

lemma UnwrapDEK_WrapDEK:
  assumes P: "primitives_ok P" and w: "WrapDEK P e kek dek = Inr wrapped"
  shows "UnwrapDEK P kek wrapped = Inr dek"
proof -
  have l: "length dek = KeyLen" and s: "Seal P e kek dek aadDEK = Inr wrapped"
    using w by (auto simp: WrapDEK_def split: if_splits)
  show ?thesis using Open_Seal(1) [OF P s] l by (simp add: UnwrapDEK_def)
qed

lemma rewrapDEK_opens:
  assumes P: "primitives_ok (en_P E)" and r: "rewrapDEK E ent pw dek u = Inr v"
  shows "opens_with E v pw dek" and "us_Secrets v = us_Secrets u" and "us_EscrowDEK v = us_EscrowDEK u"
proof -
  obtain auth salt kek wrapped where s: "HashPassword (en_P E) (ent 0) pw (en_Auth E) = Inr auth"
    "DeriveKey (en_P E) pw salt (en_KEK E) = Inr kek" "WrapDEK (en_P E) (ent 2) kek dek = Inr wrapped"
    and v: "v = u\<lparr>us_Auth := Some auth, us_KEKSalt := salt, us_KEKParams := en_KEK E, us_WrappedDEK := wrapped\<rparr>"
    using r by (auto simp: rewrapDEK_def split: sum.splits)
  show "opens_with E v pw dek"
    using HashPassword_verifies [OF P s(1)] s(2) UnwrapDEK_WrapDEK [OF P s(3)] by (simp add: opens_with_def v)
  show "us_Secrets v = us_Secrets u" "us_EscrowDEK v = us_EscrowDEK u" by (simp_all add: v)
qed

lemma setCredentials_opens:
  assumes P: "primitives_ok (en_P E)" and r: "setCredentials E ent pw esc u = Inr v"
  shows "\<exists>dek. NewDEK (ent 2) = Inr dek \<and> opens_with E v pw dek \<and>
    (if Escrow_Active esc then SealDEK (en_P E) (ent 4) (ent 5) (eg_Config esc) dek = Inr (us_EscrowDEK v)
     else us_EscrowDEK v = [])"
proof -
  obtain auth salt kek dek wrapped escrowed where s: "HashPassword (en_P E) (ent 0) pw (en_Auth E) = Inr auth"
    "DeriveKey (en_P E) pw salt (en_KEK E) = Inr kek" "NewDEK (ent 2) = Inr dek" "WrapDEK (en_P E) (ent 3) kek dek = Inr wrapped"
    "(if Escrow_Active esc then SealDEK (en_P E) (ent 4) (ent 5) (eg_Config esc) dek else Inr []) = Inr escrowed"
    and v: "v = u\<lparr>us_Auth := Some auth, us_KEKSalt := salt, us_KEKParams := en_KEK E, us_WrappedDEK := wrapped, us_EscrowDEK := escrowed\<rparr>"
    using r by (auto simp: setCredentials_def split: sum.splits)
  show ?thesis
    using HashPassword_verifies [OF P s(1)] s(2,3,5) UnwrapDEK_WrapDEK [OF P s(4)]
    by (auto simp: opens_with_def v split: if_splits)
qed

text \<open>
  A user is replaced by one with the same login and identifier: the others are found as before, and
  the user is found under the login with the new record.
\<close>

lemma findUserByLogin_put:
  assumes wf: "store_wf st" and u: "findUser st uid = Some u" and v: "us_ID v = us_ID u" "us_Login v = us_Login u"
  shows "findUserByLogin (putUser v st) login = (if login = us_Login u then Some v else findUserByLogin st login)"
proof -
  have di: "distinct (map us_ID (sa_Users st))" and dl: "distinct (map us_Login (sa_Users st))"
    using wf by (auto simp: store_wf_def)
  have iu: "us_ID u = uid" and uu: "u \<in> set (sa_Users st)" using users.lookup_key [OF u] users.lookup_row [OF u] by auto
  have "findUserByLogin (putUser v st) login =
      find_first (\<lambda>x. us_Login x = login) (update_first (\<lambda>x. us_ID x = uid) v (sa_Users st))"
    by (simp add: findUserByLogin_def putUser_def v iu)
  moreover have "find_first (\<lambda>x. us_Login x = login) (update_first (\<lambda>x. us_ID x = uid) v xs) =
      (if login = us_Login u then Some v else find_first (\<lambda>x. us_Login x = login) xs)"
    if "distinct (map us_ID xs)" "distinct (map us_Login xs)" "u \<in> set xs" for xs
    using that
  proof (induction xs)
    case (Cons x xs)
    show ?case
    proof (cases "x = u")
      case True
      then show ?thesis using Cons.prems iu v by (auto simp: find_first_None)
    next
      case False
      then have "us_ID x \<noteq> us_ID u" "us_Login x \<noteq> us_Login u" using Cons.prems by auto
      then show ?thesis using False Cons iu by auto
    qed
  qed simp
  ultimately show ?thesis using di dl uu by (simp add: findUserByLogin_def)
qed

lemma findUserByLogin_frame [simp]: "findUserByLogin (appendAudit now e st) login = findUserByLogin st login"
  by (simp add: findUserByLogin_def)

lemma findUserByLogin_findUser:
  assumes "store_wf st" and "findUserByLogin st login = Some u"
  shows "findUser st (us_ID u) = Some u" and "us_Login u = login"
  using assms users.lookup_unique [of st u] find_first_SomeD [of _ "sa_Users st" u]
  by (auto simp: store_wf_def findUserByLogin_def)

text \<open>The store after the first administrator was created in the demonstration world.\<close>

definition booted :: "State \<times> StoreUser" where
  "booted = (case CreateFirstAdmin_fn (list_codec []) demo_world ''admin'' [] ''long password'' [] (newState 1) of
     Inr r \<Rightarrow> r | Inl _ \<Rightarrow> (newState 1, blank_user))"

lemma newUser_works:
  assumes P: "primitives_ok (en_P E)" and e: "\<And>i. \<exists>f. wd_ent w i = Some f"
    and p: "en_Auth E = AuthParams" "en_KEK E = KEKParams" and n: "\<not> Escrow_Active (sg_Escrow (sa_Settings st))"
  shows "\<exists>u. newUser E w st login email role pw by = Inr u"
proof -
  have s: "\<exists>b. Random (wd_ent w i) k = Inr b \<and> length b = nat k" if "0 < k" for i k
    using e [of i] that by (auto simp: Random_Some)
  have d: "\<exists>k. DeriveKey (en_P E) pw b AuthParams = Inr k \<and> length k = 32"
    "\<exists>k. DeriveKey (en_P E) pw b KEKParams = Inr k \<and> length k = 32" if "length b = 16" for b
    using that profiles_valid primitives_okD(3) [OF P] by (auto simp: DeriveKey_Inr AuthParams_def KEKParams_def)
  obtain uid where "store_newID (wd_ent w 0) = Inr uid" using s [of 16 0] by (auto simp: store_newID_def)
  moreover obtain salt1 where s1: "NewSalt (wd_ent w 1) = Inr salt1" "length salt1 = 16"
    using s [of 16 1] by (auto simp: NewSalt_def SaltLen_def)
  moreover obtain salt2 where s2: "NewSalt (wd_ent w 2) = Inr salt2" "length salt2 = 16"
    using s [of 16 2] by (auto simp: NewSalt_def SaltLen_def)
  moreover obtain dek where k: "NewDEK (wd_ent w 3) = Inr dek" "length dek = 32"
    using s [of 32 3] by (auto simp: NewDEK_def KeyLen_def)
  moreover obtain k1 where "DeriveKey (en_P E) pw salt1 AuthParams = Inr k1" using d(1) [OF s1(2)] by blast
  moreover obtain k2 where k2: "DeriveKey (en_P E) pw salt2 KEKParams = Inr k2" "length k2 = 32" using d(2) [OF s2(2)] by blast
  moreover obtain f where f: "wd_ent w 4 = Some f" using e [of 4] by blast
  moreover obtain c where "WrapDEK (en_P E) (wd_ent w 4) k2 dek = Inr c"
    using Seal_works [OF k2(2), of "en_P E" f dek aadDEK] k(2) f by (auto simp: WrapDEK_def KeyLen_def)
  ultimately show ?thesis
    using n by (simp add: newUser_def setCredentials_def p HashPassword_def numeral_eq_Suc)
qed

lemma list_codec_simps [simp]:
  "en_P (list_codec sts) = demo_primitives" "en_U (list_codec sts) = ascii_unicode" "en_J (list_codec sts) = demo_codec"
  "en_ParseAddress (list_codec sts) = (\<lambda>_. True)"
  "en_Auth (list_codec sts) = AuthParams" "en_KEK (list_codec sts) = KEKParams" "en_Master (list_codec sts) = MasterParams"
  by (simp_all add: list_codec_def)

lemma demo_login: "NormalizeLogin (list_codec sts) ''admin'' = ''admin''"
proof -
  have "TrimSpace ''admin'' = ''admin''" by (rule TrimSpace_tight; simp add: IsSpace_def)
  then show ?thesis
    by (simp add: NormalizeLogin_def ToLower_def runes_def chunks_ascii_Cons rune_lower_def encode_rune_def char_of_def bit_iff_odd)
qed

lemma demo_checks: "validateNewUser (list_codec sts) ''admin'' [] ''long password'' = None" "NormalizeEmail [] = []"
  by (simp_all add: validateNewUser_def ValidateLogin_def ValidateEmail_def ValidatePassword_def ForbiddenLogin_def
      MaxLoginLength_def MinPasswordLength_def chunks_ascii_Cons runes_def NormalizeEmail_def)

lemma newUser_codec: "newUser (list_codec sts) = newUser (list_codec [])"
  unfolding newUser_def setCredentials_def list_codec_simps by (rule refl)

lemma CreateFirstAdmin_booted:
  "CreateFirstAdmin_fn (list_codec sts) demo_world ''admin'' [] ''long password'' [] (newState 1) = Inr booted"
proof -
  obtain u where u: "newUser (list_codec []) demo_world (newState 1) ''admin'' [] RoleAdmin ''long password'' [] = Inr u"
  proof -
    have "\<exists>f. wd_ent demo_world i = Some f" for i by (simp add: demo_world_def demo_entropy_def)
    moreover have "\<not> Escrow_Active (sg_Escrow (sa_Settings (newState 1)))"
      by (simp add: newState_def defaultSettings_def Escrow_Active_def)
    ultimately show ?thesis using newUser_works [of "list_codec []" demo_world "newState 1"] demo_primitives_ok that by force
  qed
  show ?thesis
    using u newUser_codec [of sts]
    by (simp add: booted_def CreateFirstAdmin_fn_def checkLoginFree_def findUserByLogin_def newState_def Let_def)
qed

text \<open>The store that writes what it needs to for one call from \<open>st\<close> to \<open>st'\<close>.\<close>

lemma demo_boot:
  assumes "fst booted \<in> set sts" and "newState 1 \<in> set sts"
  shows "\<exists>files. CreateFirstAdmin (list_codec sts) demo_world ''admin'' [] ''long password'' [] demo_store =
      (demo_store\<lparr>sr_state := fst booted, sr_file := last files\<rparr>, Inr (snd booted))"
proof -
  have r: "json_reads_back (list_codec sts) (sr_state demo_store)" "json_reads_back (list_codec sts) (fst booted)"
    using assms list_codec_reads_back by (auto simp: demo_store_def)
  have f: "CreateFirstAdmin_fn (list_codec sts) demo_world ''admin'' [] ''long password'' [] (sr_state demo_store) =
      Inr (fst booted, snd booted)" using CreateFirstAdmin_booted by (simp add: demo_store_def)
  obtain files where "update_trace (list_codec sts) demo_world
      (CreateFirstAdmin_fn (list_codec sts) demo_world ''admin'' [] ''long password'' []) demo_store =
      (demo_store\<lparr>sr_state := fst booted, sr_file := last files\<rparr>, Inr (snd booted), files)"
    using update_works [where E = "list_codec sts" and s = demo_store and st = "fst booted" and a = "snd booted"
        and f = "CreateFirstAdmin_fn (list_codec sts) demo_world ''admin'' [] ''long password'' []" and w = demo_world, OF r f]
    by auto
  then show ?thesis
    by (intro exI [of _ files]) (simp add: CreateFirstAdmin_def demo_login demo_checks checked_def store_update_def)
qed

lemma demo_good: "newState 1 \<in> set sts \<Longrightarrow> good_call (list_codec sts) demo_world (sr_state demo_store)"
  using list_codec_reads_back [of "newState 1" sts]
  by (auto simp: good_call_def demo_store_def demo_world_def is_zero_def zero_time_def newState_def findUser_def findInvite_def)

end
