(* ===== verification/StoreProperties.thy ===== *)
theory StoreProperties
  imports StoreCredentials
begin

text \<open>
  The properties of the store as a whole, over every sequence of calls: the invariant of its state, the
  contract every call refines, that an administrator always remains, that a used invitation stays
  used, and what the operations on passwords do to the data keys.
\<close>

subsection \<open>The invariant\<close>

interpretation store: invariant_system store_start "store_step E" "\<lambda>s. store_wf (sr_state s)" for E
proof
  show "store_start s \<Longrightarrow> store_wf (sr_state s)" for s by (auto simp: store_start_def wf_new)
  show "store_wf (sr_state s) \<Longrightarrow> store_step E s t \<Longrightarrow> store_wf (sr_state t)" for s t
    using step_conforms wf_changes by blast
qed

lemma store_steps_wf: "(store_step E)\<^sup>*\<^sup>* s t \<Longrightarrow> store_wf (sr_state s) \<Longrightarrow> store_wf (sr_state t)"
  by (rule store.inv_steps)

lemma steps_conform:
  "(store_step E)\<^sup>*\<^sup>* s t \<Longrightarrow> store_wf (sr_state s) \<Longrightarrow> changes (sr_state s) (sr_state t)"
  by (induction rule: rtranclp_induct) (auto intro: rtranclp_trans step_conforms store_steps_wf)

text \<open>
  C2. Whatever calls are made, users have distinct identifiers and logins, every login passed the
  check, every role is a known one, every user has a password, and the log has no gaps: it holds
  the entries numbered consecutively up to the counter, all of them or the last 10000.
\<close>

theorem store_stays_well_formed:
  assumes "reaches store_start (store_step E) s"
  shows "distinct (map us_ID (sa_Users (sr_state s))) \<and> distinct (map us_Login (sa_Users (sr_state s))) \<and>
    distinct (map iv_ID (sa_Invites (sr_state s))) \<and>
    (\<forall>u \<in> set (sa_Users (sr_state s)). ValidateLogin (us_Login u) = None \<and> Role_Valid (us_Role u) \<and>
       Activated (Some u) \<and> findUserByLogin (sr_state s) (us_Login u) = Some u \<and> findUser (sr_state s) (us_ID u) = Some u) \<and>
    length (sa_Audit (sr_state s)) = min (nat (sa_AuditSeq (sr_state s))) 10000 \<and>
    (\<forall>k < length (sa_Audit (sr_state s)). ae_Seq (sa_Audit (sr_state s) ! k) =
       sa_AuditSeq (sr_state s) - int (length (sa_Audit (sr_state s))) + 1 + int k)"
proof -
  let ?st = "sr_state s"
  have wf: "store_wf ?st" using assms by (rule store.inv_reachable)
  have login: "findUserByLogin ?st (us_Login u) = Some u" if "u \<in> set (sa_Users ?st)" for u
    using that wf find_first_distinct [of us_Login "sa_Users ?st" u]
    by (auto simp: store_wf_def findUserByLogin_def)
  have seq: "ae_Seq (sa_Audit ?st ! k) = sa_AuditSeq ?st - int (length (sa_Audit ?st)) + 1 + int k"
    if k: "k < length (sa_Audit ?st)" for k
  proof -
    let ?n = "nat (sa_AuditSeq ?st)" and ?l = "length (sa_Audit ?st)"
    have a: "0 \<le> sa_AuditSeq ?st" "?l \<le> ?n" "map ae_Seq (sa_Audit ?st) = map int [Suc ?n - ?l..<Suc ?n]"
      using wf by (auto simp: store_wf_def audit_ok_def)
    have "ae_Seq (sa_Audit ?st ! k) = map int [Suc ?n - ?l..<Suc ?n] ! k" using a(3) k by (metis nth_map)
    also have "\<dots> = int (Suc ?n - ?l + k)" using k a(2) by (simp del: upt_Suc)
    finally show ?thesis using a(1,2) by auto
  qed
  have sz: "length (sa_Audit ?st) = min (nat (sa_AuditSeq ?st)) 10000"
    using wf by (simp add: store_wf_def audit_ok_def MaxAuditEntries_def)
  have each: "\<forall>u \<in> set (sa_Users ?st). ValidateLogin (us_Login u) = None \<and> Role_Valid (us_Role u) \<and>
       Activated (Some u) \<and> findUserByLogin ?st (us_Login u) = Some u \<and> findUser ?st (us_ID u) = Some u"
    using wf login users.lookup_unique [of ?st] by (auto simp: store_wf_def user_ok_def Activated_def)
  show ?thesis using wf sz seq each by (auto simp: store_wf_def)
qed

lemma demo_boot_reached:
  assumes "fst booted \<in> set sts" and "newState 1 \<in> set sts"
  shows "\<exists>s. reaches store_start (store_step (list_codec sts)) s \<and> sr_state s = fst booted \<and> sr_key s = demo_key"
proof -
  obtain files where b: "CreateFirstAdmin (list_codec sts) demo_world ''admin'' [] ''long password'' [] demo_store =
      (demo_store\<lparr>sr_state := fst booted, sr_file := last files\<rparr>, Inr (snd booted))"
    using demo_boot [OF assms] by blast
  have r: "reaches store_start (store_step (list_codec sts)) demo_store"
    by (rule reaches_start) (auto simp: store_start_def demo_store_def)
  have st: "store_step (list_codec sts) demo_store
      (fst (CreateFirstAdmin (list_codec sts) demo_world ''admin'' [] ''long password'' [] demo_store))"
    by (rule store_step.intros(1)) (rule demo_good [OF assms(2)])
  have e: "fst (CreateFirstAdmin (list_codec sts) demo_world ''admin'' [] ''long password'' [] demo_store) =
      demo_store\<lparr>sr_state := fst booted, sr_file := last files\<rparr>" using arg_cong [OF b, of fst] by (simp only: fst_conv)
  have "reaches store_start (store_step (list_codec sts))
      (fst (CreateFirstAdmin (list_codec sts) demo_world ''admin'' [] ''long password'' [] demo_store))"
    by (rule reaches_step) (rule r, rule st)
  then have "reaches store_start (store_step (list_codec sts)) (demo_store\<lparr>sr_state := fst booted, sr_file := last files\<rparr>)"
    by (simp only: e)
  moreover have "sr_key demo_store = demo_key" by (simp add: demo_store_def)
  ultimately show ?thesis
    by (intro exI [of _ "demo_store\<lparr>sr_state := fst booted, sr_file := last files\<rparr>"] conjI) simp_all
qed

lemma booted_shape:
  "sa_Users (fst booted) = [snd booted]" "us_Login (snd booted) = ''admin''" "us_Role (snd booted) = RoleAdmin"
  "\<not> us_Disabled (snd booted)" "\<not> us_Unconfirmed (snd booted)" "sa_AuditSeq (fst booted) = 1"
  "opens_with (list_codec sts) (snd booted) ''long password'' (replicate 32 (CHR ''r''))"
proof -
  obtain u where u: "newUser (list_codec []) demo_world (newState 1) ''admin'' [] RoleAdmin ''long password'' [] = Inr u"
    and b: "booted = (appendAudit 1 (entry_on \<lparr>at_ID = us_ID u, at_Login = ''admin'', at_IP = []\<rparr>
        (u\<lparr>us_MustChangePassword := False, us_EmailConfirmed := False\<rparr>) ''bootstrap'' [])
        (addUser (u\<lparr>us_MustChangePassword := False, us_EmailConfirmed := False\<rparr>) (newState 1)),
        u\<lparr>us_MustChangePassword := False, us_EmailConfirmed := False\<rparr>)"
    using CreateFirstAdmin_booted [of "[]"]
    by (auto simp: CreateFirstAdmin_fn_def Let_def demo_world_def split: if_splits option.splits sum.splits)
  show "sa_Users (fst booted) = [snd booted]" "us_Login (snd booted) = ''admin''" "us_Role (snd booted) = RoleAdmin"
    "\<not> us_Disabled (snd booted)" "\<not> us_Unconfirmed (snd booted)" "sa_AuditSeq (fst booted) = 1"
    using newUser_core [OF u] by (auto simp: b newState_def)
  obtain x where x: "setCredentials (list_codec []) (\<lambda>i. wd_ent demo_world (Suc i)) ''long password''
      (sg_Escrow (sa_Settings (newState 1))) x = Inr u"
    using u by (auto simp: newUser_def split: sum.splits)
  have P: "primitives_ok (en_P (list_codec []))" using demo_primitives_ok by simp
  obtain dek where "NewDEK (wd_ent demo_world 3) = Inr dek" "opens_with (list_codec []) u ''long password'' dek"
    using setCredentials_opens [OF P x] by (auto simp: numeral_eq_Suc)
  moreover have "NewDEK (wd_ent demo_world 3) = Inr (replicate 32 (CHR ''r''))"
    by (simp add: NewDEK_def demo_world_def demo_entropy_def Random_Some KeyLen_def map_replicate_const)
  ultimately show "opens_with (list_codec sts) (snd booted) ''long password'' (replicate 32 (CHR ''r''))"
    by (auto simp: opens_with_def b)
qed

theorem store_stays_well_formed_witness:
  "findUserByLogin (fst booted) ''admin'' = Some (snd booted) \<and> ae_Seq (sa_Audit (fst booted) ! 0) = 1"
proof -
  obtain s where s: "reaches store_start (store_step (list_codec [newState 1, fst booted])) s" "sr_state s = fst booted"
    using demo_boot_reached [of "[newState 1, fst booted]"] by auto
  show ?thesis using store_stays_well_formed [OF s(1)] by (simp add: s(2) booted_shape)
qed

subsection \<open>The contract\<close>

text \<open>
  C5. Every call refines the contract of the store: in a reachable state, each method of the store,
  with any arguments and whether or not it succeeds, changes the state by a sequence of the seven
  abstract changes; none of them changes a login or reopens an invitation.
\<close>

theorem calls_refine_contract:
  assumes "reaches store_start (store_step E) s" and "store_step E s t"
  shows "state_change\<^sup>*\<^sup>* (sr_state s) (sr_state t)"
  using step_conforms [OF assms(2) store.inv_reachable [OF assms(1)]] .

theorem calls_refine_contract_witness:
  "state_change\<^sup>*\<^sup>* (newState 1) (fst booted)"
proof -
  let ?E = "list_codec [newState 1, fst booted]"
  obtain files where b: "CreateFirstAdmin ?E demo_world ''admin'' [] ''long password'' [] demo_store =
      (demo_store\<lparr>sr_state := fst booted, sr_file := last files\<rparr>, Inr (snd booted))"
    using demo_boot [of "[newState 1, fst booted]"] by auto
  have r: "reaches store_start (store_step ?E) demo_store"
    by (rule reaches_start) (auto simp: store_start_def demo_store_def)
  have st: "store_step ?E demo_store (fst (CreateFirstAdmin ?E demo_world ''admin'' [] ''long password'' [] demo_store))"
    by (rule store_step.intros(1)) (rule demo_good, simp)
  show ?thesis using calls_refine_contract [OF r st] by (simp add: b)
qed

subsection \<open>Administrators\<close>

lemma other_admin:
  assumes "\<not> isLastActiveAdmin st u" and "\<exists>a \<in> set (sa_Users st). active_admin a"
    and "findUser st (us_ID u) = Some u" and "distinct (map us_ID (sa_Users st))"
  shows "\<exists>a \<in> set (sa_Users st). active_admin a \<and> us_ID a \<noteq> us_ID u"
proof (cases "active_admin u")
  case True
  then show ?thesis using assms(1) by (auto simp: isLastActiveAdmin_def active_admin_def list_all_iff split: if_splits)
next
  case False
  obtain a where a: "a \<in> set (sa_Users st)" "active_admin a" using assms(2) by (elim bexE)
  have "us_ID a \<noteq> us_ID u"
  proof
    assume e: "us_ID a = us_ID u"
    have "findUser st (us_ID u) = Some a" using users.lookup_unique [OF assms(4) a(1)] unfolding e .
    then have "a = u" using assms(3) by simp
    then show False using a False by blast
  qed
  then show ?thesis using a by blast
qed

lemma change_keeps_admin:
  assumes "state_change st st'" and "store_wf st" and "\<exists>a \<in> set (sa_Users st). active_admin a"
  shows "\<exists>a \<in> set (sa_Users st'). active_admin a"
  using assms
proof (induction rule: state_change.induct)
  case (change_user st u v)
  have d: "distinct (map us_ID (sa_Users st))" using change_user.prems by (simp add: store_wf_def)
  have i: "us_ID v = us_ID u" using change_user.hyps by (simp add: keeps_user_def)
  have s: "set (sa_Users (putUser v st)) = insert v {x \<in> set (sa_Users st). us_ID x \<noteq> us_ID u}"
    using users.set_rows_replace [OF d, of v] change_user.hyps i by simp
  show ?case
  proof (cases "active_admin v")
    case True
    then show ?thesis unfolding s by blast
  next
    case False
    then have "\<not> isLastActiveAdmin st u" using change_user.hyps by (simp add: keeps_user_def)
    from other_admin [OF this change_user.prems(2) change_user.hyps(1) d] show ?thesis unfolding s by blast
  qed
next
  case (remove_user st uid u)
  have d: "distinct (map us_ID (sa_Users st))" using remove_user.prems by (simp add: store_wf_def)
  have i: "us_ID u = uid" using users.lookup_key [OF remove_user.hyps(1)] .
  obtain a where "a \<in> set (sa_Users st)" "active_admin a" "us_ID a \<noteq> uid"
    using other_admin [OF remove_user.hyps(2) remove_user.prems(2) findUser_own [OF remove_user.hyps(1)] d] i by auto
  then have "a \<in> set (remove_first (\<lambda>x. us_ID x = uid) (sa_Users st))"
    using set_remove_first_distinct [OF d, of uid] by simp
  with \<open>active_admin a\<close> show ?case by auto
qed auto

lemma changes_keep_admin:
  assumes "changes st st'" and "store_wf st" and "\<exists>a \<in> set (sa_Users st). active_admin a"
  shows "\<exists>a \<in> set (sa_Users st'). active_admin a"
  using assms by (induction rule: rtranclp_induct) (auto dest: wf_changes intro: change_keeps_admin)

lemma CreateFirstAdmin_fn_admin:
  "CreateFirstAdmin_fn E w login email password ip st = Inr (st', u) \<Longrightarrow> active_admin u \<and> u \<in> set (sa_Users st')"
  by (auto simp: CreateFirstAdmin_fn_def Let_def active_admin_def split: if_splits option.splits sum.splits
      dest!: newUser_core)

text \<open>
  C3. Once the first administrator was created, some administrator who is enabled and confirmed
  remains, whatever is called: the last one can be neither disabled, demoted nor deleted. The
  bootstrap is over for good: a second attempt changes nothing and fails.
\<close>

theorem an_admin_always_remains:
  assumes "reaches store_start (store_step E) s" and "good_call E w (sr_state s)"
    and boot: "CreateFirstAdmin E w login email password ip s = (s1, Inr u)"
    and later: "(store_step E)\<^sup>*\<^sup>* s1 t" and rb: "json_reads_back E (sr_state t)"
  shows "(\<exists>a \<in> set (sa_Users (sr_state t)). us_Role a = RoleAdmin \<and> \<not> us_Disabled a \<and> \<not> us_Unconfirmed a) \<and>
    \<not> NeedsBootstrap (sr_state t) \<and>
    (\<exists>e. CreateFirstAdmin E w' login' email' password' ip' t = (t, Inl e))"
proof -
  have st: "store_step E s s1" using store_step.intros(1) [OF assms(2), of login email password ip] boot by simp
  have wf: "store_wf (sr_state s1)" using store.inv_reachable [OF reaches_step [OF assms(1) st]] .
  have "store_update E w (CreateFirstAdmin_fn E w (NormalizeLogin E login) (NormalizeEmail email) password ip) s = (s1, Inr u)"
    using boot by (auto simp: CreateFirstAdmin_def Let_def checked_def split: option.splits)
  from store_update_Inr [OF this] obtain st0 where
    f: "CreateFirstAdmin_fn E w (NormalizeLogin E login) (NormalizeEmail email) password ip st0 = Inr (sr_state s1, u)" by auto
  have "\<exists>a \<in> set (sa_Users (sr_state s1)). active_admin a" using CreateFirstAdmin_fn_admin [OF f] by blast
  then have a: "\<exists>a \<in> set (sa_Users (sr_state t)). active_admin a"
    using changes_keep_admin [OF steps_conform [OF later wf] wf] by blast
  then have ex: "list_ex (\<lambda>u. us_Role u = RoleAdmin) (sa_Users (sr_state t))"
    by (auto simp: active_admin_def list_ex_iff)
  have "\<exists>e. CreateFirstAdmin E w' login' email' password' ip' t = (t, Inl e)"
    using ex cloneState_reads_back [OF rb]
    by (auto simp: CreateFirstAdmin_def Let_def checked_def store_update_def update_trace_def CreateFirstAdmin_fn_def
        split: option.split)
  then show ?thesis using a ex by (auto simp: active_admin_def NeedsBootstrap_def)
qed

theorem an_admin_always_remains_witness:
  "\<exists>a \<in> set (sa_Users (fst booted)). us_Role a = RoleAdmin \<and> \<not> us_Disabled a \<and> \<not> us_Unconfirmed a"
proof -
  let ?E = "list_codec [newState 1, fst booted]"
  obtain files where b: "CreateFirstAdmin ?E demo_world ''admin'' [] ''long password'' [] demo_store =
      (demo_store\<lparr>sr_state := fst booted, sr_file := last files\<rparr>, Inr (snd booted))"
    using demo_boot [of "[newState 1, fst booted]"] by auto
  have r: "reaches store_start (store_step ?E) demo_store"
    by (rule reaches_start) (auto simp: store_start_def demo_store_def)
  have rb: "json_reads_back ?E (sr_state (demo_store\<lparr>sr_state := fst booted, sr_file := last files\<rparr>))"
    by (simp add: list_codec_reads_back)
  show ?thesis
    using an_admin_always_remains [OF r demo_good b rtranclp.rtrancl_refl rb] by simp
qed

subsection \<open>Invitations\<close>

lemma findInvite_cong: "sa_Invites st = sa_Invites st' \<Longrightarrow> findInvite st = findInvite st'"
  by (simp add: findInvite_def fun_eq_iff)

definition same_use :: "Invite \<Rightarrow> Invite \<Rightarrow> bool" where
  "same_use i j \<longleftrightarrow> iv_TokenHash j = iv_TokenHash i \<and> iv_Login j = iv_Login i \<and>
     iv_AcceptedAt j = iv_AcceptedAt i \<and> iv_RevokedAt j = iv_RevokedAt i"

lemma change_keeps_closed:
  assumes "state_change st st'" and "findInvite st iid = Some i" and "invite_closed i"
  shows "\<exists>j. findInvite st' iid = Some j \<and> same_use i j"
  using assms
proof (induction rule: state_change.induct)
  case (change_invite st k j)
  have ids: "iv_ID j = iv_ID k" using change_invite.hyps by (simp add: keeps_invite_def)
  show ?case
  proof (cases "iid = iv_ID j")
    case True
    then have "k = i" using change_invite.hyps(1) change_invite.prems(1) ids by simp
    then show ?thesis using change_invite.hyps(2) change_invite.prems True ids
      by (auto simp: invites.lookup_replace keeps_invite_def same_use_def)
  next
    case False
    then show ?thesis using change_invite.prems by (simp add: invites.lookup_replace same_use_def)
  qed
next
  case (change_settings st g)
  then show ?case by (simp add: same_use_def findInvite_def)
next
  case (remove_user st uid u)
  then show ?case by (simp add: same_use_def findInvite_def)
next
  case (change_user st u v)
  then show ?case by (simp add: same_use_def findInvite_def)
next
  case (add_user st u)
  then show ?case by (simp add: same_use_def findInvite_def)
next
  case (add_invite st k)
  then show ?case by (simp add: same_use_def findInvite_def find_first_append)
next
  case (log_entry st now e)
  then show ?case by (simp add: same_use_def)
qed

lemma changes_keep_closed:
  assumes "changes st st'" and "findInvite st iid = Some i" and "invite_closed i"
  shows "\<exists>j. findInvite st' iid = Some j \<and> same_use i j"
  using assms
proof (induction rule: rtranclp_induct)
  case base
  then show ?case by (auto simp: same_use_def)
next
  case (step y z)
  then obtain j where j: "findInvite y iid = Some j" "same_use i j" by blast
  then have "invite_closed j" using step.prems(2) by (auto simp: same_use_def invite_closed_def)
  then show ?case using change_keeps_closed [OF step.hyps(2) j(1)] j(2) by (auto simp: same_use_def)
qed

text \<open>What a successful acceptance leaves in the state.\<close>

lemma AcceptInvite_fn_closes:
  assumes a: "AcceptInvite_fn E w digest login email password ip st = Inr (st', u)"
    and d: "distinct (map iv_ID (sa_Invites st))" and c: "\<not> is_zero (wd_clk w 0)"
  shows "\<exists>i. findInvite st' (iv_ID i) = Some i \<and> iv_TokenHash i = digest \<and> iv_Login i = login \<and>
    iv_AcceptedAt i = wd_clk w 0 \<and> invite_closed i \<and> us_Login u = login \<and> u \<in> set (sa_Users st')"
proof -
  obtain i where i: "find_last (\<lambda>i. Equal (iv_TokenHash i) digest) (sa_Invites st) = Some i"
    using a by (auto simp: AcceptInvite_fn_def Let_def split: option.splits)
  define mail where "mail = (if iv_Delivery i = InviteDeliveryEmail then iv_Email i else NormalizeEmail email)"
  let ?i = "i\<lparr>iv_AcceptedAt := wd_clk w 0, iv_Login := login, iv_Email := mail\<rparr>"
  obtain v e where v: "newUser E (ticked 1 w) (putInvite ?i st) login mail (iv_Role i) password (iv_CreatedBy i) = Inr v"
    and u: "u = v\<lparr>us_EmailConfirmed := iv_Delivery i = InviteDeliveryEmail\<rparr>"
    and st': "st' = appendAudit (wd_clk w 0) e (addUser u (putInvite ?i st))"
    using a i unfolding mail_def by (auto simp: AcceptInvite_fn_def Let_def split: option.splits if_splits sum.splits)
  have "findInvite st (iv_ID i) = Some i" using invites.lookup_unique [OF d] find_last_in [OF i] by blast
  then have "findInvite (putInvite ?i st) (iv_ID i) = Some ?i" using invites.lookup_replace_same [of st ?i] by simp
  moreover have "findInvite st' = findInvite (putInvite ?i st)" by (rule findInvite_cong) (simp add: st')
  moreover have "iv_TokenHash i = digest" using find_last_in [OF i] by (simp add: Equal_def)
  ultimately show ?thesis using c newUser_core [OF v]
    by (intro exI [of _ ?i]) (auto simp: invite_closed_def u st')
qed

lemma closed_not_Usable: "invite_closed i \<Longrightarrow> \<not> Usable i now"
  using usable_open by blast

text \<open>
  C8. An invitation is used once: after it was accepted, its record keeps the digest, the login and
  the time of the acceptance through every later call, and, as long as no other invitation has the
  digest of its token, the token is refused from then on: looking it up fails, and accepting it again
  under any login fails and changes nothing.
\<close>

theorem invitation_used_once:
  assumes "reaches store_start (store_step E) s" and "good_call E w (sr_state s)"
    and acc: "AcceptInvite E w token login email password ip s = (s1, Inr u)"
    and later: "(store_step E)\<^sup>*\<^sup>* s1 t" and rb: "json_reads_back E (sr_state t)"
    and one: "\<forall>i \<in> set (sa_Invites (sr_state t)). \<forall>j \<in> set (sa_Invites (sr_state t)).
      iv_TokenHash i = HashToken (en_P E) token \<longrightarrow> iv_TokenHash j = HashToken (en_P E) token \<longrightarrow> i = j"
  shows "(\<exists>i \<in> set (sa_Invites (sr_state t)). iv_TokenHash i = HashToken (en_P E) token \<and>
      iv_Login i = us_Login u \<and> iv_AcceptedAt i = wd_clk w 0) \<and>
    LookupInvite E now token (sr_state t) = Inl ErrInviteInvalid \<and>
    (\<exists>e. AcceptInvite E w' token login' email' password' ip' t = (t, Inl e))"
proof -
  let ?H = "HashToken (en_P E) token"
  have st: "store_step E s s1" using store_step.intros(19) [OF assms(2), of token login email password ip] acc by simp
  have wf: "store_wf (sr_state s)" "store_wf (sr_state s1)"
    using store.inv_reachable [OF assms(1)] store.inv_reachable [OF reaches_step [OF assms(1) st]] by auto
  have "store_update E w (AcceptInvite_fn E w ?H (NormalizeLogin E login) email password ip) s = (s1, Inr u)"
    using acc by (auto simp: AcceptInvite_def Let_def checked_def split: option.splits if_splits)
  from store_update_Inr [OF this] have "AcceptInvite_fn E w ?H (NormalizeLogin E login) email password ip (sr_state s) = Inr (sr_state s1, u)"
    using assms(2) by (auto simp: good_call_def cloneState_reads_back)
  moreover have "distinct (map iv_ID (sa_Invites (sr_state s)))" using wf(1) by (simp add: store_wf_def)
  moreover have "\<not> is_zero (wd_clk w 0)" using assms(2) by (simp add: good_call_def)
  ultimately obtain i where "findInvite (sr_state s1) (iv_ID i) = Some i \<and> iv_TokenHash i = ?H \<and>
      iv_Login i = NormalizeLogin E login \<and> iv_AcceptedAt i = wd_clk w 0 \<and> invite_closed i \<and>
      us_Login u = NormalizeLogin E login \<and> u \<in> set (sa_Users (sr_state s1))"
    using AcceptInvite_fn_closes by blast
  then have i: "findInvite (sr_state s1) (iv_ID i) = Some i" "iv_TokenHash i = ?H"
    "iv_Login i = us_Login u" "iv_AcceptedAt i = wd_clk w 0" "invite_closed i" by simp_all
  obtain j where j: "findInvite (sr_state t) (iv_ID i) = Some j" "same_use i j"
    using changes_keep_closed [OF steps_conform [OF later wf(2)] i(1,5)] by blast
  have jc: "invite_closed j" and jh: "iv_TokenHash j = ?H" using j(2) i(2,5) by (auto simp: same_use_def invite_closed_def)
  have jin: "j \<in> set (sa_Invites (sr_state t))" using invites.lookup_row [OF j(1)] .
  have dead: "find_last (\<lambda>i. Equal (iv_TokenHash i) ?H) (sa_Invites (sr_state t)) = Some k \<Longrightarrow> \<not> Usable k n" for k n
  proof -
    assume k: "find_last (\<lambda>i. Equal (iv_TokenHash i) ?H) (sa_Invites (sr_state t)) = Some k"
    have "k = j" using find_last_in [OF k] jin jh one by (auto simp: Equal_def)
    then show "\<not> Usable k n" using closed_not_Usable [OF jc] by simp
  qed
  have "LookupInvite E now token (sr_state t) = Inl ErrInviteInvalid"
    using dead by (auto simp: LookupInvite_def split: option.split)
  moreover have "\<exists>e. AcceptInvite E w' token login' email' password' ip' t = (t, Inl e)"
    using dead cloneState_reads_back [OF rb]
    by (auto simp: AcceptInvite_def AcceptInvite_fn_def Let_def checked_def store_update_def update_trace_def
        split: option.split)
  ultimately show ?thesis using jin jh j(2) i(3,4) by (auto simp: same_use_def)
qed

text \<open>An invitation by link, and its acceptance in a second call with other random bytes.\<close>

lemma demo_update:
  assumes "f (sr_state s) = Inr (st, a)" and "sr_state s \<in> set sts" and "st \<in> set sts" and "length (sr_key s) = 32"
    and "wd_nonce w = demo_entropy" and "wd_io w = demo_io_ok"
  shows "\<exists>files. store_update (list_codec sts) w f s = (s\<lparr>sr_state := st, sr_file := last files\<rparr>, Inr a)"
proof -
  have w: "w\<lparr>wd_nonce := demo_entropy, wd_io := demo_io_ok\<rparr> = w" using assms(5,6) by simp
  show ?thesis
    using update_works [where w = w and f = f and s = s, OF list_codec_reads_back [OF assms(2)]
        list_codec_reads_back [OF assms(3)] assms(1,4)] w
    by (auto simp: store_update_def)
qed

definition demo_world2 :: world where
  "demo_world2 = demo_world\<lparr>wd_ent := (\<lambda>_. Some (\<lambda>_. CHR ''s'')), wd_clk := (\<lambda>_. 2)\<rparr>"

definition demo_token :: string where
  "demo_token = base64url (replicate 32 (CHR ''r''))"

definition demo_iid :: string where
  "demo_iid = hex_encode (replicate 16 (CHR ''r''))"

definition demo_actor :: Actor where
  "demo_actor = \<lparr>at_ID = ''i'', at_Login = ''root'', at_IP = []\<rparr>"

definition invited :: State where
  "invited = (case CreateInvite_fn (list_codec []) demo_world demo_actor RoleUser InviteDeliveryLink [] 0 demo_token demo_iid
     (newState 1) of Inr (st, _) \<Rightarrow> st | Inl _ \<Rightarrow> newState 1)"

definition accepted :: "State \<times> StoreUser" where
  "accepted = (case AcceptInvite_fn (list_codec []) demo_world2 (HashToken demo_primitives demo_token) ''admin''
     [] ''long password'' [] invited of Inr r \<Rightarrow> r | Inl _ \<Rightarrow> (newState 1, blank_user))"

lemma invited_works:
  "\<exists>i. CreateInvite_fn (list_codec sts) demo_world demo_actor RoleUser InviteDeliveryLink [] 0 demo_token demo_iid
     (newState 1) = Inr (invited, i)"
  by (simp add: invited_def CreateInvite_fn_def Let_def)

lemma invited_shape:
  "\<exists>i. sa_Invites invited = [i] \<and> iv_TokenHash i = HashToken demo_primitives demo_token \<and> iv_Delivery i = InviteDeliveryLink \<and>
     Usable i 2 \<and> iv_ID i = demo_iid"
  "sa_Users invited = []" "sg_Escrow (sa_Settings invited) = sg_Escrow defaultSettings"
  by (simp_all add: invited_def CreateInvite_fn_def newState_def Usable_def invite_Status_def is_zero_def time_add_def
      InviteTTL_def secondsOr_def defaultSettings_def DefaultInviteTTL_def duration_defs Let_def wrap64_def zero_time_def demo_world_def)

lemma AcceptInvite_codec: "AcceptInvite_fn (list_codec sts) = AcceptInvite_fn (list_codec [])"
  unfolding AcceptInvite_fn_def newUser_codec [of sts] ValidateEmail_def list_codec_simps by (rule refl)

lemma accepted_works:
  "AcceptInvite_fn (list_codec sts) demo_world2 (HashToken demo_primitives demo_token) ''admin'' [] ''long password'' []
     invited = Inr accepted"
proof -
  obtain i where i: "sa_Invites invited = [i]" "iv_TokenHash i = HashToken demo_primitives demo_token"
    "iv_Delivery i = InviteDeliveryLink" "Usable i 2"
    using invited_shape(1) by blast
  let ?i = "i\<lparr>iv_AcceptedAt := 2, iv_Login := ''admin'', iv_Email := []\<rparr>"
  have "\<exists>f. wd_ent (ticked 1 demo_world2) k = Some f" for k by (simp add: demo_world2_def)
  moreover have "\<not> Escrow_Active (sg_Escrow (sa_Settings (putInvite ?i invited)))"
    by (simp add: invited_shape(3) defaultSettings_def Escrow_Active_def)
  ultimately obtain u where u: "newUser (list_codec []) (ticked 1 demo_world2) (putInvite ?i invited) ''admin'' [] (iv_Role i)
      ''long password'' (iv_CreatedBy i) = Inr u"
    using newUser_works [of "list_codec []" "ticked 1 demo_world2" "putInvite ?i invited"] demo_primitives_ok by force
  have "\<exists>r. AcceptInvite_fn (list_codec []) demo_world2 (HashToken demo_primitives demo_token) ''admin'' [] ''long password'' []
     invited = Inr r"
    using u i by (simp add: AcceptInvite_fn_def demo_world2_def find_last_def Equal_def checkLoginFree_def
        findUserByLogin_def invited_shape(2) InviteDeliveryLink_def InviteDeliveryEmail_def ValidateEmail_def
        demo_checks(2) Let_def)
  then show ?thesis unfolding AcceptInvite_codec [of sts] by (auto simp: accepted_def)
qed

lemma AcceptInvite_fn_length:
  "AcceptInvite_fn E w digest login email password ip st = Inr (st', u) \<Longrightarrow> length (sa_Invites st') = length (sa_Invites st)"
  by (auto simp: AcceptInvite_fn_def Let_def invites.length_replace split: option.splits if_splits sum.splits)

lemma demo_good2:
  assumes "invited \<in> set sts"
  shows "good_call (list_codec sts) demo_world2 invited"
proof -
  have "store_newID (wd_ent demo_world2 i) = Inr (hex_encode (replicate 16 (CHR ''s'')))" for i
    by (simp add: demo_world2_def store_newID_def Random_Some map_replicate_const)
  moreover have "hex_encode (replicate 16 (CHR ''s'')) \<noteq> demo_iid"
    unfolding demo_iid_def
  proof
    assume "hex_encode (replicate 16 (CHR ''s'')) = hex_encode (replicate 16 (CHR ''r''))"
    then have "replicate 16 (CHR ''s'') = replicate 16 (CHR ''r'')" by (rule hex_encode_inj)
    then have "hd (replicate 16 (CHR ''s'')) = hd (replicate 16 (CHR ''r''))" by simp
    then show False by simp
  qed
  ultimately show ?thesis
    using invited_shape list_codec_reads_back [OF assms]
    by (auto simp: good_call_def findInvite_def findUser_def demo_world2_def is_zero_def zero_time_def)
qed

theorem invitation_used_once_witness:
  "LookupInvite (list_codec [newState 1, invited, fst accepted]) 3 demo_token (fst accepted) = Inl ErrInviteInvalid"
proof -
  let ?E = "list_codec [newState 1, invited, fst accepted]"
  have tk: "store_NewToken demo_entropy = Inr demo_token" "store_newID demo_entropy = Inr demo_iid"
    by (simp_all add: store_NewToken_def NewToken_def store_newID_def Random_Some demo_entropy_def TokenLen_def
        demo_token_def demo_iid_def map_replicate_const)
  obtain iv where iv: "CreateInvite_fn ?E demo_world demo_actor RoleUser InviteDeliveryLink [] 0 demo_token demo_iid
     (newState 1) = Inr (invited, iv)" using invited_works by blast
  have w: "wd_nonce demo_world = demo_entropy" "wd_io demo_world = demo_io_ok" "\<And>k. wd_ent demo_world k = demo_entropy"
    "wd_nonce demo_world2 = demo_entropy" "wd_io demo_world2 = demo_io_ok"
    by (simp_all add: demo_world_def demo_world2_def)
  obtain files where up: "store_update ?E demo_world
      (CreateInvite_fn ?E demo_world demo_actor RoleUser InviteDeliveryLink [] 0 demo_token demo_iid) demo_store =
      (demo_store\<lparr>sr_state := invited, sr_file := last files\<rparr>, Inr iv)"
    using demo_update [where s = demo_store and st = invited and sts = "[newState 1, invited, fst accepted]"
        and w = demo_world and a = iv
        and f = "CreateInvite_fn ?E demo_world demo_actor RoleUser InviteDeliveryLink [] 0 demo_token demo_iid"] iv w by auto
  have c: "CreateInvite ?E demo_world demo_actor RoleUser InviteDeliveryLink [] 0 demo_store =
      (demo_store\<lparr>sr_state := invited, sr_file := last files\<rparr>, Inr (iv, demo_token))"
    using up tk w by (simp add: CreateInvite_def checked_def Role_Valid_def InviteDelivery_Valid_def demo_checks(2))
  let ?s = "demo_store\<lparr>sr_state := invited, sr_file := last files\<rparr>"
  have r: "reaches store_start (store_step ?E) demo_store"
    by (rule reaches_start) (auto simp: store_start_def demo_store_def)
  have "store_step ?E demo_store (fst (CreateInvite ?E demo_world demo_actor RoleUser InviteDeliveryLink [] 0 demo_store))"
    by (rule store_step.intros(18)) (rule demo_good, simp)
  then have r1: "reaches store_start (store_step ?E) ?s" using r unfolding c fst_conv by (blast intro: reaches_step)
  have tne: "demo_token \<noteq> []" by (simp add: demo_token_def base64url_Nil_iff)
  have len: "length (sr_key ?s) = 32" by simp
  obtain files' where up2: "store_update ?E demo_world2 (AcceptInvite_fn ?E demo_world2 (HashToken demo_primitives demo_token)
      ''admin'' [] ''long password'' []) ?s = (?s\<lparr>sr_state := fst accepted, sr_file := last files'\<rparr>, Inr (snd accepted))"
    using demo_update [where s = ?s and st = "fst accepted" and sts = "[newState 1, invited, fst accepted]"
        and w = demo_world2 and a = "snd accepted"
        and f = "AcceptInvite_fn ?E demo_world2 (HashToken demo_primitives demo_token) ''admin'' [] ''long password'' []",
        OF _ _ _ len w(4,5)] accepted_works by auto
  have "ValidateLogin ''admin'' = None" "ValidatePassword ''long password'' = None"
    using demo_checks(1) [of "[]"] by (auto simp: validateNewUser_def split: option.splits)
  then have acc: "AcceptInvite ?E demo_world2 demo_token ''admin'' [] ''long password'' [] ?s =
      (?s\<lparr>sr_state := fst accepted, sr_file := last files'\<rparr>, Inr (snd accepted))"
    using up2 tne by (simp add: AcceptInvite_def checked_def demo_login)
  have rb: "json_reads_back ?E (sr_state (?s\<lparr>sr_state := fst accepted, sr_file := last files'\<rparr>))"
    by (simp add: list_codec_reads_back)
  have "length (sa_Invites (fst accepted)) = 1"
    using AcceptInvite_fn_length [of ?E demo_world2 _ _ _ _ _ invited "fst accepted" "snd accepted"] accepted_works
      invited_shape(1) by force
  then obtain i where "sa_Invites (fst accepted) = [i]" by (auto simp: length_Suc_conv)
  then have one: "\<forall>i \<in> set (sa_Invites (sr_state (?s\<lparr>sr_state := fst accepted, sr_file := last files'\<rparr>))).
      \<forall>j \<in> set (sa_Invites (sr_state (?s\<lparr>sr_state := fst accepted, sr_file := last files'\<rparr>))).
      iv_TokenHash i = HashToken (en_P ?E) demo_token \<longrightarrow> iv_TokenHash j = HashToken (en_P ?E) demo_token \<longrightarrow> i = j"
    by simp
  have g: "good_call ?E demo_world2 (sr_state ?s)" using demo_good2 [of "[newState 1, invited, fst accepted]"] by simp
  show ?thesis
    using invitation_used_once [OF r1 g acc rtranclp.rtrancl_refl rb one] by simp
qed

end
