(* ===== verification/StoreSecrets.thy ===== *)
theory StoreSecrets
  imports StoreProperties
begin

text \<open>
  What the operations on passwords and on sealed secrets do to what a user can open: the data key
  survives a change of the password and a recovery, and what is put into the secrets is read back.
\<close>

subsection \<open>Passwords\<close>

lemma Authenticate_cong:
  "findUserByLogin st (NormalizeLogin E login) = findUserByLogin st' (NormalizeLogin E login) \<Longrightarrow>
   Authenticate E st login pw = Authenticate E st' login pw"
  by (simp add: Authenticate_def)

text \<open>A user whose credentials are replaced, with everything else as the contract wants it.\<close>

lemma replaced_credentials:
  assumes wf: "store_wf st" and auth: "Authenticate E st login pw = Inr (u, dek)"
    and v: "us_ID v = us_ID u" "us_Login v = us_Login u" "us_Disabled v = us_Disabled u" "us_Unconfirmed v = us_Unconfirmed u"
    and o: "opens_with E v pw' dek"
  shows "Authenticate E (appendAudit now e (putUser v st)) login pw' = Inr (v, dek)"
    and "NormalizeLogin E other \<noteq> us_Login u \<Longrightarrow>
      Authenticate E (appendAudit now e (putUser v st)) other pw'' = Authenticate E st other pw''"
proof -
  have u: "findUserByLogin st (NormalizeLogin E login) = Some u" "\<not> us_Disabled u" "\<not> us_Unconfirmed u"
    using auth by (auto simp: Authenticate_iff)
  have f: "findUser st (us_ID u) = Some u" "us_Login u = NormalizeLogin E login"
    using findUserByLogin_findUser [OF wf u(1)] by auto
  show "Authenticate E (appendAudit now e (putUser v st)) login pw' = Inr (v, dek)"
    using findUserByLogin_put [OF wf f(1) v(1,2)] u v o f(2) by (simp add: Authenticate_iff)
  show "Authenticate E (appendAudit now e (putUser v st)) other pw'' = Authenticate E st other pw''"
    if "NormalizeLogin E other \<noteq> us_Login u"
    using findUserByLogin_put [OF wf f(1) v(1,2)] that by (intro Authenticate_cong) simp
qed

text \<open>
  C20. Changing the password keeps the data key: who could sign in with the old password signs in with
  the new one and gets the same key, so the sealed secrets, which are left as they are, still open;
  the demand to change a temporary password is met, and no other user is affected.
\<close>

theorem password_change_keeps_key:
  assumes P: "primitives_ok (en_P E)" and wf: "store_wf (sr_state s)" and rb: "json_reads_back E (sr_state s)"
    and auth: "Authenticate E (sr_state s) login current = Inr (u, dek)"
    and change: "ChangePassword E w (us_ID u) current new s = (s', Inr ())"
  shows "(\<exists>u'. Authenticate E (sr_state s') login new = Inr (u', dek) \<and> us_Secrets u' = us_Secrets u \<and>
      us_ID u' = us_ID u \<and> \<not> us_MustChangePassword u') \<and>
    (\<forall>other pw. NormalizeLogin E other \<noteq> us_Login u \<longrightarrow>
      Authenticate E (sr_state s') other pw = Authenticate E (sr_state s) other pw)"
proof -
  let ?st = "sr_state s"
  have f: "findUser ?st (us_ID u) = Some u" and o: "opens_with E u current dek"
    using auth findUserByLogin_findUser [OF wf] by (auto simp: Authenticate_iff)
  have "store_update E w (ChangePassword_fn E w (us_ID u) current new) s = (s', Inr ())"
    using change by (auto simp: ChangePassword_def checked_def split: option.splits)
  from store_update_Inr [OF this] have c: "ChangePassword_fn E w (us_ID u) current new ?st = Inr (sr_state s', ())"
    using rb by (auto simp: cloneState_reads_back)
  have "ph_Verify (en_P E) (us_Auth u) current" using o by (simp add: opens_with_def)
  then have k: "unwrap_user_DEK E u current = Inr dek" using unwrap_user_DEK_opens o by blast
  obtain v where v: "rewrapDEK E (wd_ent w) new dek u = Inr v"
    and st': "sr_state s' = appendAudit (wd_clk w 0) (entry_self (v\<lparr>us_MustChangePassword := False\<rparr>) ''password_change'' [] [])
       (putUser (v\<lparr>us_MustChangePassword := False\<rparr>) ?st)"
    using c f k by (auto simp: ChangePassword_fn_def with_user_def Let_def split: if_splits sum.splits)
  have core: "us_ID v = us_ID u \<and> us_Login v = us_Login u \<and> us_Disabled v = us_Disabled u \<and> us_Unconfirmed v = us_Unconfirmed u"
    using rewrapDEK_core [OF v] by blast
  have "opens_with E (v\<lparr>us_MustChangePassword := False\<rparr>) new dek"
    using rewrapDEK_opens(1) [OF P v] by (simp add: opens_with_def)
  with replaced_credentials [OF wf auth, of "v\<lparr>us_MustChangePassword := False\<rparr>"] core rewrapDEK_opens(2) [OF P v]
  show ?thesis unfolding st' by auto
qed

lemma rewrapDEK_works:
  assumes P: "primitives_ok (en_P E)" and e: "\<And>i. \<exists>f. ent i = Some f"
    and p: "en_Auth E = AuthParams" "en_KEK E = KEKParams" and d: "length dek = 32"
  shows "\<exists>v. rewrapDEK E ent pw dek u = Inr v"
proof -
  have s: "\<exists>b. NewSalt (ent i) = Inr b \<and> length b = 16" for i
    using e [of i] by (auto simp: NewSalt_def SaltLen_def Random_Some)
  have k: "\<exists>k. DeriveKey (en_P E) pw b AuthParams = Inr k \<and> length k = 32"
    "\<exists>k. DeriveKey (en_P E) pw b KEKParams = Inr k \<and> length k = 32" if "length b = 16" for b
    using that profiles_valid primitives_okD(3) [OF P] by (auto simp: DeriveKey_Inr AuthParams_def KEKParams_def)
  obtain salt1 where s1: "NewSalt (ent 0) = Inr salt1" "length salt1 = 16" using s by blast
  moreover obtain salt2 where s2: "NewSalt (ent 1) = Inr salt2" "length salt2 = 16" using s by blast
  moreover obtain k1 where "DeriveKey (en_P E) pw salt1 AuthParams = Inr k1" using k(1) [OF s1(2)] by blast
  moreover obtain k2 where k2: "DeriveKey (en_P E) pw salt2 KEKParams = Inr k2" "length k2 = 32" using k(2) [OF s2(2)] by blast
  moreover obtain f where f: "ent 2 = Some f" using e by blast
  moreover obtain c where "WrapDEK (en_P E) (ent 2) k2 dek = Inr c"
    using Seal_works [OF k2(2), of "en_P E" f dek aadDEK] d f by (auto simp: WrapDEK_def KeyLen_def)
  ultimately show ?thesis by (simp add: rewrapDEK_def p HashPassword_def)
qed

definition demo_booted :: Store where
  "demo_booted = demo_store\<lparr>sr_state := fst booted\<rparr>"

lemma booted_auth:
  "Authenticate (list_codec sts) (fst booted) ''admin'' ''long password'' = Inr (snd booted, replicate 32 (CHR ''r''))"
  using booted_shape by (simp add: Authenticate_iff findUserByLogin_def demo_login)

lemma booted_wf: "store_wf (fst booted)"
proof -
  obtain s where "reaches store_start (store_step (list_codec [newState 1, fst booted])) s" "sr_state s = fst booted"
    using demo_boot_reached [of "[newState 1, fst booted]"] by auto
  then show ?thesis using store.inv_reachable by metis
qed

lemma booted_find: "findUser (fst booted) (us_ID (snd booted)) = Some (snd booted)"
  by (simp add: findUser_def booted_shape)

definition rewrapped :: State where
  "rewrapped = (case ChangePassword_fn (list_codec []) demo_world (us_ID (snd booted)) ''long password'' ''other password''
     (fst booted) of Inr (st, _) \<Rightarrow> st | Inl _ \<Rightarrow> fst booted)"

lemma rewrapDEK_codec: "rewrapDEK (list_codec sts) = rewrapDEK (list_codec [])"
  unfolding rewrapDEK_def list_codec_simps by (rule refl)

lemma unwrap_codec: "unwrap_user_DEK (list_codec sts) = unwrap_user_DEK (list_codec [])"
  unfolding unwrap_user_DEK_def list_codec_simps by (rule refl)

lemma rewrapped_works:
  "ChangePassword_fn (list_codec sts) demo_world (us_ID (snd booted)) ''long password'' ''other password'' (fst booted) =
     Inr (rewrapped, ())"
proof -
  have o: "opens_with (list_codec []) (snd booted) ''long password'' (replicate 32 (CHR ''r''))" by (rule booted_shape)
  then have ver: "ph_Verify demo_primitives (us_Auth (snd booted)) ''long password''" by (simp add: opens_with_def)
  then have k: "unwrap_user_DEK (list_codec []) (snd booted) ''long password'' = Inr (replicate 32 (CHR ''r''))"
    using unwrap_user_DEK_opens [of "list_codec []"] o by simp
  have "\<exists>f. wd_ent demo_world i = Some f" for i by (simp add: demo_world_def demo_entropy_def)
  then obtain v where "rewrapDEK (list_codec []) (wd_ent demo_world) ''other password'' (replicate 32 (CHR ''r'')) (snd booted) = Inr v"
    using rewrapDEK_works [of "list_codec []" "wd_ent demo_world"] demo_primitives_ok by force
  moreover have "Activated (Some (snd booted))" using ver by (auto simp: Activated_def ph_Verify_def split: option.splits)
  ultimately have ex: "\<exists>st. ChangePassword_fn (list_codec xs) demo_world (us_ID (snd booted)) ''long password'' ''other password''
      (fst booted) = Inr (st, ())" for xs
    using k ver booted_find rewrapDEK_codec [of xs] unwrap_codec [of xs]
    by (simp add: ChangePassword_fn_def with_user_def Let_def)
  have eq: "ChangePassword_fn (list_codec sts) = ChangePassword_fn (list_codec [])"
    unfolding ChangePassword_fn_def rewrapDEK_codec [of sts] unwrap_codec [of sts] list_codec_simps by (rule refl)
  show ?thesis using ex [of "[]"] unfolding eq by (auto simp: rewrapped_def)
qed

theorem password_change_keeps_key_witness:
  "\<exists>u. Authenticate (list_codec [fst booted, rewrapped]) rewrapped ''admin'' ''other password'' =
     Inr (u, replicate 32 (CHR ''r''))"
proof -
  let ?E = "list_codec [fst booted, rewrapped]"
  obtain files where "store_update ?E demo_world (ChangePassword_fn ?E demo_world (us_ID (snd booted)) ''long password''
      ''other password'') demo_booted = (demo_booted\<lparr>sr_state := rewrapped, sr_file := last files\<rparr>, Inr ())"
    using demo_update [where s = demo_booted and st = rewrapped and sts = "[fst booted, rewrapped]" and w = demo_world and a = "()"
        and f = "ChangePassword_fn ?E demo_world (us_ID (snd booted)) ''long password'' ''other password''"] rewrapped_works
    by (auto simp: demo_booted_def demo_world_def)
  moreover have "ValidatePassword ''other password'' = None"
    by (simp add: ValidatePassword_def MinPasswordLength_def chunks_ascii_Cons runes_def)
  ultimately have c: "ChangePassword ?E demo_world (us_ID (snd booted)) ''long password'' ''other password'' demo_booted =
      (demo_booted\<lparr>sr_state := rewrapped, sr_file := last files\<rparr>, Inr ())"
    by (simp add: ChangePassword_def checked_def)
  have "store_wf (sr_state demo_booted)" "json_reads_back ?E (sr_state demo_booted)"
    "Authenticate ?E (sr_state demo_booted) ''admin'' ''long password'' = Inr (snd booted, replicate 32 (CHR ''r''))"
    using booted_wf booted_auth list_codec_reads_back by (simp_all add: demo_booted_def)
  from password_change_keeps_key [OF _ this c] demo_primitives_ok show ?thesis by auto
qed

subsection \<open>Recovery\<close>

lemma RecoverUser_fn_unfold:
  assumes "findUser st uid = Some u" and "eg_Config (sg_Escrow (sa_Settings st)) = Some es"
    and "RecoverDEK (en_P E) (Some es) mp (us_EscrowDEK u) = Inr dek"
    and "RecoverUser_fn E w actor uid mp temp st = Inr (st', r)"
  shows "\<exists>v. rewrapDEK E (wd_ent w) temp dek u = Inr v \<and>
    r = v\<lparr>us_MustChangePassword := True, us_EscrowRecoveredAt := wd_clk w 0\<rparr> \<and>
    st' = appendAudit (wd_clk w 1) (entry_on actor r ''escrow_recover'' []) (putUser r st)"
  using assms by (auto simp: RecoverUser_fn_def with_user_def Let_def split: if_splits sum.splits)

text \<open>
  C21. An administrator with the master password recovers a user who deposited the key: the temporary
  password opens the same data key as the forgotten one did, the secrets and the deposit stay, the
  user has to change the password, and no other user is affected, even if the master password was
  changed between the deposit and the recovery. With a wrong master password nothing changes.
\<close>

theorem recovery_keeps_key:
  assumes P: "primitives_ok (en_P E)" and wf: "store_wf (sr_state s)" and rb: "json_reads_back E (sr_state s)"
    and auth: "Authenticate E (sr_state s) login forgotten = Inr (u, dek)"
    and deposit: "SealDEK (en_P E) d1 d2 (Some es') dek = Inr (us_EscrowDEK u)" "escrow_opens (en_P E) es' mp' priv"
    and scheme: "eg_Config (sg_Escrow (sa_Settings (sr_state s))) = Some es" "escrow_opens (en_P E) es mp priv"
    and recover: "RecoverUser E w actor (us_ID u) mp temp s = (s', Inr r)"
  shows "Authenticate E (sr_state s') login temp = Inr (r, dek) \<and> us_MustChangePassword r \<and> us_ID r = us_ID u \<and>
    us_Secrets r = us_Secrets u \<and> us_EscrowDEK r = us_EscrowDEK u \<and>
    (\<forall>other pw. NormalizeLogin E other \<noteq> us_Login u \<longrightarrow>
      Authenticate E (sr_state s') other pw = Authenticate E (sr_state s) other pw) \<and>
    (\<forall>wrong. \<not> CheckMasterPassword (en_P E) (Some es) wrong \<longrightarrow> fst (RecoverUser E w actor (us_ID u) wrong temp s) = s)"
proof -
  let ?st = "sr_state s"
  have f: "findUser ?st (us_ID u) = Some u"
    using auth findUserByLogin_findUser [OF wf] by (auto simp: Authenticate_iff)
  have "store_update E w (RecoverUser_fn E w actor (us_ID u) mp temp) s = (s', Inr r)"
    using recover by (auto simp: RecoverUser_def checked_def split: option.splits)
  from store_update_Inr [OF this] have c: "RecoverUser_fn E w actor (us_ID u) mp temp ?st = Inr (sr_state s', r)"
    using rb by (auto simp: cloneState_reads_back)
  have k: "RecoverDEK (en_P E) (Some es) mp (us_EscrowDEK u) = Inr dek"
    using RecoverDEK_SealDEK [OF P deposit(2,1) scheme(2)] .
  obtain v where v: "rewrapDEK E (wd_ent w) temp dek u = Inr v"
    and r: "r = v\<lparr>us_MustChangePassword := True, us_EscrowRecoveredAt := wd_clk w 0\<rparr>"
    and st': "sr_state s' = appendAudit (wd_clk w 1) (entry_on actor r ''escrow_recover'' []) (putUser r ?st)"
    using RecoverUser_fn_unfold [OF f scheme(1) k c] by blast
  have core: "us_ID r = us_ID u" "us_Login r = us_Login u" "us_Disabled r = us_Disabled u" "us_Unconfirmed r = us_Unconfirmed u"
    using rewrapDEK_core [OF v] by (auto simp: r)
  have o: "opens_with E r temp dek" using rewrapDEK_opens(1) [OF P v] by (simp add: opens_with_def r)
  have wrong: "fst (RecoverUser E w actor (us_ID u) x temp s) = s" if x: "\<not> CheckMasterPassword (en_P E) (Some es) x" for x
  proof -
    have "\<exists>e. RecoverUser_fn E w actor (us_ID u) x temp ?st = Inl e"
      using x f scheme(1) by (auto simp: RecoverUser_fn_def with_user_def CheckMasterPassword_def RecoverDEK_def split: sum.splits)
    then show ?thesis
      by (auto simp: RecoverUser_def checked_def store_update_def update_trace_def cloneState_reads_back [OF rb] split: option.split)
  qed
  show ?thesis
    using replaced_credentials [OF wf auth core o] core(1) wrong rewrapDEK_opens(2,3) [OF P v] unfolding st'
    by (auto simp: r)
qed

lemma SealDEK_works:
  assumes P: "primitives_ok P" and o: "escrow_opens P es mp priv" and l: "length dek = 32"
  shows "\<exists>d. SealDEK P (Some f) (Some g) (Some es) dek = Inr d \<and> d \<noteq> []"
proof -
  let ?eph = "map f [0..<32]"
  have pub: "es_PublicKey es = p_x_public P priv" "length (es_PublicKey es) = 32" "length priv = 32"
    using o x25519_okD(1) [OF P] by (auto simp: escrow_opens_def)
  obtain k where k: "agree P ?eph (es_PublicKey es) (p_x_public P ?eph) = Inr k" "length k = 32"
    using agree_symmetric [OF P, of ?eph priv] pub by auto
  obtain c where c: "Seal P (Some g) k dek (escrowAAD (p_x_public P ?eph)) = Inr c" using Seal_works [OF k(2)] by blast
  have "es_PublicKey es \<noteq> []" using pub(2) by auto
  then have e: "SealDEK P (Some f) (Some g) (Some es) dek = Inr (p_x_public P ?eph @ c)"
    using k(1) c l pub(2) by (simp add: SealDEK_def x_GenerateKey_def rand_Read_Some x_NewPublicKey_def sealToPublic_def Let_def KeyLen_def)
  have "length (p_x_public P ?eph) = 32" using x25519_okD(1) [OF P, of ?eph priv] pub(3) by simp
  then have "p_x_public P ?eph @ c \<noteq> []" by auto
  then show ?thesis using e by blast
qed

definition demo_dek :: bytes where "demo_dek = replicate 32 (CHR ''r'')"

definition deposited :: bytes where
  "deposited = (case SealDEK demo_primitives demo_entropy demo_entropy (Some demo_escrow) demo_dek of Inr d \<Rightarrow> d | Inl _ \<Rightarrow> [])"

text \<open>The bootstrapped store with a deposit of the first user under a configured scheme.\<close>

definition escrowed_user :: StoreUser where
  "escrowed_user = (snd booted)\<lparr>us_EscrowDEK := deposited\<rparr>"

definition escrowed :: State where
  "escrowed = putUser escrowed_user ((fst booted)\<lparr>sa_Settings := defaultSettings\<lparr>sg_Escrow :=
     \<lparr>eg_Enabled = True, eg_ForbidOptOut = False, eg_Config = Some demo_escrow\<rparr>\<rparr>\<rparr>)"

definition recovered :: "State \<times> StoreUser" where
  "recovered = (case RecoverUser_fn (list_codec []) demo_world demo_actor (us_ID (snd booted)) demo_master ''temp password'' escrowed
     of Inr r \<Rightarrow> r | Inl _ \<Rightarrow> (newState 1, blank_user))"

lemma escrowed_shape:
  "sa_Users escrowed = [escrowed_user]" "findUser escrowed (us_ID (snd booted)) = Some escrowed_user"
  "sg_Escrow (sa_Settings escrowed) = \<lparr>eg_Enabled = True, eg_ForbidOptOut = False, eg_Config = Some demo_escrow\<rparr>"
  "store_wf escrowed"
proof -
  show u: "sa_Users escrowed = [escrowed_user]" "findUser escrowed (us_ID (snd booted)) = Some escrowed_user"
    "sg_Escrow (sa_Settings escrowed) = \<lparr>eg_Enabled = True, eg_ForbidOptOut = False, eg_Config = Some demo_escrow\<rparr>"
    using booted_shape by (simp_all add: escrowed_def putUser_def escrowed_user_def findUser_def)
  let ?b = "(fst booted)\<lparr>sa_Settings := defaultSettings\<lparr>sg_Escrow :=
     \<lparr>eg_Enabled = True, eg_ForbidOptOut = False, eg_Config = Some demo_escrow\<rparr>\<rparr>\<rparr>"
  have "changes (fst booted) ?b" by (rule changes_settings)
  moreover have fb: "findUser ?b (us_ID (snd booted)) = Some (snd booted)" using booted_find by (simp add: findUser_def)
  have "changes ?b escrowed" unfolding escrowed_def
    by (rule changes_put_core [OF fb]) (simp_all add: escrowed_user_def)
  ultimately show "store_wf escrowed" using wf_changes booted_wf by blast
qed

lemma demo_opens: "\<exists>priv. escrow_opens demo_primitives demo_escrow demo_master priv"
  using NewEscrow_opens [OF demo_primitives_ok demo_escrow_new(1)] .

lemma deposited_works:
  "SealDEK demo_primitives demo_entropy demo_entropy (Some demo_escrow) demo_dek = Inr deposited" "deposited \<noteq> []"
proof -
  obtain priv where "escrow_opens demo_primitives demo_escrow demo_master priv" using demo_opens by blast
  then obtain d where "SealDEK demo_primitives demo_entropy demo_entropy (Some demo_escrow) demo_dek = Inr d" "d \<noteq> []"
    using SealDEK_works [OF demo_primitives_ok, of demo_escrow demo_master priv demo_dek]
    by (fastforce simp: demo_entropy_def demo_dek_def)
  then show "SealDEK demo_primitives demo_entropy demo_entropy (Some demo_escrow) demo_dek = Inr deposited" "deposited \<noteq> []"
    by (simp_all add: deposited_def)
qed

lemma RecoverUser_codec: "RecoverUser_fn (list_codec sts) = RecoverUser_fn (list_codec [])"
  unfolding RecoverUser_fn_def rewrapDEK_codec [of sts] list_codec_simps by (rule refl)

lemma recovered_works:
  "RecoverUser_fn (list_codec sts) demo_world demo_actor (us_ID (snd booted)) demo_master ''temp password'' escrowed = Inr recovered"
proof -
  obtain priv where o: "escrow_opens demo_primitives demo_escrow demo_master priv" using demo_opens by blast
  have k: "RecoverDEK demo_primitives (Some demo_escrow) demo_master deposited = Inr demo_dek"
    using RecoverDEK_SealDEK [OF demo_primitives_ok o deposited_works(1) o] .
  have "\<exists>f. wd_ent demo_world i = Some f" for i by (simp add: demo_world_def demo_entropy_def)
  then obtain v where "rewrapDEK (list_codec []) (wd_ent demo_world) ''temp password'' demo_dek escrowed_user = Inr v"
    using rewrapDEK_works [of "list_codec []" "wd_ent demo_world" demo_dek] demo_primitives_ok by (force simp: demo_dek_def)
  then have "\<exists>r. RecoverUser_fn (list_codec []) demo_world demo_actor (us_ID (snd booted)) demo_master ''temp password'' escrowed = Inr r"
    using escrowed_shape(2,3) k deposited_works(2)
    by (simp add: RecoverUser_fn_def with_user_def Let_def escrowed_user_def)
  then show ?thesis unfolding RecoverUser_codec [of sts] by (auto simp: recovered_def)
qed

theorem recovery_keeps_key_witness:
  "Authenticate (list_codec [escrowed, fst recovered]) (fst recovered) ''admin'' ''temp password'' = Inr (snd recovered, demo_dek)"
proof -
  let ?E = "list_codec [escrowed, fst recovered]" and ?s = "demo_store\<lparr>sr_state := escrowed\<rparr>"
  obtain priv where o: "escrow_opens demo_primitives demo_escrow demo_master priv" using demo_opens by blast
  obtain files where "store_update ?E demo_world (RecoverUser_fn ?E demo_world demo_actor (us_ID (snd booted)) demo_master
      ''temp password'') ?s = (?s\<lparr>sr_state := fst recovered, sr_file := last files\<rparr>, Inr (snd recovered))"
    using demo_update [where s = ?s and st = "fst recovered" and sts = "[escrowed, fst recovered]" and w = demo_world
        and a = "snd recovered" and f = "RecoverUser_fn ?E demo_world demo_actor (us_ID (snd booted)) demo_master ''temp password''"]
      recovered_works by (auto simp: demo_world_def)
  moreover have "ValidatePassword ''temp password'' = None"
    by (simp add: ValidatePassword_def MinPasswordLength_def chunks_ascii_Cons runes_def)
  moreover have id: "us_ID escrowed_user = us_ID (snd booted)" by (simp add: escrowed_user_def)
  ultimately have c: "RecoverUser ?E demo_world demo_actor (us_ID escrowed_user) demo_master ''temp password'' ?s =
      (?s\<lparr>sr_state := fst recovered, sr_file := last files\<rparr>, Inr (snd recovered))"
    by (simp add: RecoverUser_def checked_def)
  have auth: "Authenticate ?E (sr_state ?s) ''admin'' ''long password'' = Inr (escrowed_user, demo_dek)"
    using booted_shape escrowed_shape(1)
    by (simp add: Authenticate_iff findUserByLogin_def demo_login escrowed_user_def opens_with_def demo_dek_def)
  have d: "SealDEK (en_P ?E) demo_entropy demo_entropy (Some demo_escrow) demo_dek = Inr (us_EscrowDEK escrowed_user)"
    using deposited_works(1) by (simp add: escrowed_user_def)
  have P: "primitives_ok (en_P ?E)" and wf: "store_wf (sr_state ?s)" and rb: "json_reads_back ?E (sr_state ?s)"
    and sch: "eg_Config (sg_Escrow (sa_Settings (sr_state ?s))) = Some demo_escrow"
    and o': "escrow_opens (en_P ?E) demo_escrow demo_master priv"
    using demo_primitives_ok escrowed_shape o list_codec_reads_back by simp_all
  show ?thesis using recovery_keeps_key [OF P wf rb auth d o' sch o' c] by simp
qed

subsection \<open>Sealed secrets\<close>

lemma blob_Find_upsert:
  "blob_Find (Some (upsert_in acc b)) aid = (if aid = ac_ID acc then Inr acc else blob_Find (Some b) aid)"
proof (cases "find_first (\<lambda>a. ac_ID a = ac_ID acc) (bl_Accounts b)")
  case None
  then show ?thesis by (auto simp: upsert_in_def Upsert_def blob_Find_def find_first_snoc split: option.splits)
next
  case (Some x)
  then show ?thesis
    using accounts.lookup_replace [where r = acc and t = b and k = aid] by (auto simp: upsert_in_def Upsert_def blob_Find_def split: option.splits)
qed

lemma upsert_in_version [simp]: "bl_Version (upsert_in acc b) = bl_Version b"
  by (simp add: upsert_in_def Upsert_def replace_account_def)

lemma versioned_set: "bl_Version b \<noteq> 0 \<Longrightarrow> versioned b = b"
  by (simp add: versioned_def)

lemma open_blob_version: "open_blob E dek sealed = Inr b \<Longrightarrow> bl_Version b \<noteq> 0"
  by (auto simp: open_blob_def blob_Open_def versioned_def empty_blob_def blobVersion_def split: if_splits sum.splits option.splits)

text \<open>The codec of the blob reads back whatever it wrote.\<close>

definition blobs_read_back :: "store_env \<Rightarrow> bool" where
  "blobs_read_back E \<longleftrightarrow> (\<forall>b raw. jc_encode (en_J E) b = Some raw \<longrightarrow> jc_decode (en_J E) raw = Some b)"

lemma open_sealed_blob:
  assumes P: "primitives_ok (en_P E)" and J: "blobs_read_back E" and v: "bl_Version b \<noteq> 0"
    and s: "seal_blob E e dek (Some b) = Inr sealed"
  shows "open_blob E dek sealed = Inr b"
proof -
  obtain raw where raw: "jc_encode (en_J E) b = Some raw" "Seal (en_P E) e dek raw aadSecrets = Inr sealed"
    using s v by (auto simp: seal_blob_def blob_Seal_def Let_def versioned_set split: sum.splits option.splits)
  have "Open (en_P E) dek sealed aadSecrets = Inr raw" "length sealed = length raw + 28"
    using Open_Seal [OF P raw(2)] by auto
  moreover have "jc_decode (en_J E) raw = Some b" using J raw(1) by (auto simp: blobs_read_back_def)
  ultimately show ?thesis using v by (auto simp: open_blob_def blob_Open_def versioned_set)
qed

text \<open>A change of the secrets of one user, seen from outside.\<close>

lemma with_blob_effect:
  assumes P: "primitives_ok (en_P E)" and J: "blobs_read_back E"
    and call: "with_blob E e dek uid f (\<lambda>u b a. (g (putUser (h b u) st) u b a, ())) st = Inr (st', ())"
    and g: "\<And>t u b a. findUser (g t u b a) = findUser t" and h: "\<And>b u. us_ID (h b u) = us_ID u \<and> us_Secrets (h b u) = us_Secrets u"
    and v: "\<And>b b' a. f b = Inr (b', a) \<Longrightarrow> bl_Version b' = bl_Version b"
  shows "\<exists>u b b' a sealed. findUser st uid = Some u \<and> open_blob E dek (us_Secrets u) = Inr b \<and> f b = Inr (b', a) \<and>
    findUser st' uid = Some (h b' (u\<lparr>us_Secrets := sealed\<rparr>)) \<and> openSecrets E st' uid dek = Inr b' \<and>
    (\<forall>other. other \<noteq> uid \<longrightarrow> findUser st' other = findUser st other)"
proof -
  obtain u b b' a sealed where w: "findUser st uid = Some u" "open_blob E dek (us_Secrets u) = Inr b" "f b = Inr (b', a)"
    "seal_blob E e dek (Some b') = Inr sealed" "st' = g (putUser (h b' (u\<lparr>us_Secrets := sealed\<rparr>)) st) (u\<lparr>us_Secrets := sealed\<rparr>) b' a"
    using with_blob_InrD [OF call] by auto
  let ?v = "h b' (u\<lparr>us_Secrets := sealed\<rparr>)"
  have iv: "us_ID ?v = uid" and sv: "us_Secrets ?v = sealed" using h users.lookup_key [OF w(1)] by simp_all
  have find: "findUser st' k = (if k = uid then Some ?v else findUser st k)" for k
    using users.lookup_replace [of ?v st k] w(1,5) g iv by simp
  have "bl_Version b' \<noteq> 0" using open_blob_version [OF w(2)] v [OF w(3)] by simp
  then have "openSecrets E st' uid dek = Inr b'"
    using open_sealed_blob [OF P J _ w(4)] find sv by (simp add: openSecrets_def)
  then show ?thesis using w(1-3) find by auto
qed


definition demo_blob :: Blob where
  "demo_blob = upsert_in (demo_account\<lparr>ac_DiscoveredAt := 1\<rparr>) empty_blob"

definition blob_env :: "State list \<Rightarrow> store_env" where
  "blob_env sts = (list_codec sts)\<lparr>en_J := \<lparr>jc_encode = (\<lambda>b. if b = demo_blob then Some ''b'' else None),
     jc_decode = (\<lambda>raw. if raw = ''b'' then Some demo_blob else None)\<rparr>\<rparr>"

definition stored :: State where
  "stored = (case PutDAVAccount_fn (blob_env []) demo_world demo_actor (us_ID (snd booted)) demo_dek
     (demo_account\<lparr>ac_DiscoveredAt := 1\<rparr>) (fst booted) of Inr (st, _) \<Rightarrow> st | Inl _ \<Rightarrow> fst booted)"

lemma blob_env_P [simp]: "en_P (blob_env sts) = demo_primitives"
  by (simp add: blob_env_def)

lemma blob_env_J: "en_J (blob_env sts) = en_J (blob_env [])"
  by (simp add: blob_env_def)

lemma blob_env_reads_back: "json_reads_back (blob_env sts) st = json_reads_back (list_codec sts) st"
proof -
  have "en_encode (blob_env sts) = en_encode (list_codec sts)" "en_decode (blob_env sts) = en_decode (list_codec sts)"
    by (simp_all add: blob_env_def)
  then show ?thesis unfolding json_reads_back_def by (simp only:)
qed

lemma newUser_no_secrets: "newUser E w st login email role pw by = Inr u \<Longrightarrow> us_Secrets u = []"
  by (auto simp: newUser_def setCredentials_def blank_user_def split: sum.splits)

lemma CreateFirstAdmin_no_secrets:
  "CreateFirstAdmin_fn E w login email pw ip st = Inr (st', u) \<Longrightarrow> us_Secrets u = []"
  by (auto simp: CreateFirstAdmin_fn_def Let_def dest!: newUser_no_secrets split: if_splits sum.splits option.splits)

lemma stored_works:
  "PutDAVAccount_fn (blob_env sts) demo_world demo_actor (us_ID (snd booted)) demo_dek
     (demo_account\<lparr>ac_DiscoveredAt := 1\<rparr>) (fst booted) = Inr (stored, ())"
proof -
  have "us_Secrets (snd booted) = []"
  proof -
    have "CreateFirstAdmin_fn (list_codec []) demo_world ''admin'' [] ''long password'' [] (newState 1) = Inr (fst booted, snd booted)"
      unfolding prod.collapse by (rule CreateFirstAdmin_booted)
    then show ?thesis by (rule CreateFirstAdmin_no_secrets)
  qed
  then have o: "open_blob (blob_env xs) demo_dek (us_Secrets (snd booted)) = Inr empty_blob" for xs
    by (simp add: open_blob_def blob_Open_def)
  obtain c where "Seal demo_primitives (wd_ent demo_world 1) demo_dek ''b'' aadSecrets = Inr c"
    using Seal_works [of demo_dek demo_primitives "\<lambda>_. CHR ''r''"] by (auto simp: demo_world_def demo_entropy_def demo_dek_def)
  moreover have "versioned demo_blob = demo_blob"
    by (simp add: versioned_def demo_blob_def empty_blob_def blobVersion_def)
  ultimately have "seal_blob (blob_env xs) (wd_ent demo_world 1) demo_dek (Some demo_blob) = Inr c" for xs
    by (simp add: seal_blob_def blob_Seal_def Let_def) (simp add: blob_env_def)
  then have ex: "\<exists>st. PutDAVAccount_fn (blob_env xs) demo_world demo_actor (us_ID (snd booted)) demo_dek
     (demo_account\<lparr>ac_DiscoveredAt := 1\<rparr>) (fst booted) = Inr (st, ())" for xs
    using o booted_find by (simp add: PutDAVAccount_fn_def with_blob_def with_user_def Let_def demo_blob_def)
  have eq: "PutDAVAccount_fn (blob_env sts) = PutDAVAccount_fn (blob_env [])"
    unfolding PutDAVAccount_fn_def with_blob_def open_blob_def seal_blob_def blob_env_P blob_env_J [of sts] by (rule refl)
  show ?thesis using ex [of "[]"] unfolding eq by (auto simp: stored_def)
qed


text \<open>
  A reset of the password destroys the secrets and leaves the count of accounts as it was.
\<close>

lemma ResetPassword_leaves_count:
  assumes "ResetPassword_fn E w actor uid temp st = Inr (st', ())"
  shows "\<exists>u u'. findUser st uid = Some u \<and> findUser st' uid = Some u' \<and> us_DAVAccountCount u' = us_DAVAccountCount u \<and>
    DAVAccountCount E st' uid dek = Inr 0"
proof -
  obtain u v where u: "findUser st uid = Some u" "setCredentials E (wd_ent w) temp (sg_Escrow (sa_Settings st)) u = Inr v"
    and st': "st' = appendAudit (wd_clk w 0) (entry_on actor (v\<lparr>us_Secrets := [], us_MustChangePassword := True\<rparr>)
       ''password_reset'' ''connections destroyed'') (putUser (v\<lparr>us_Secrets := [], us_MustChangePassword := True\<rparr>) st)"
    using assms by (auto simp: ResetPassword_fn_def with_user_def Let_def split: option.splits if_splits sum.splits)
  have v: "us_ID v = us_ID u" "us_DAVAccountCount v = us_DAVAccountCount u"
    using u(2) by (auto simp: setCredentials_def split: sum.splits)
  let ?v = "v\<lparr>us_Secrets := [], us_MustChangePassword := True\<rparr>"
  have iv: "us_ID ?v = uid" using v(1) users.lookup_key [OF u(1)] by simp
  then have "findUser st' uid = Some ?v" using users.lookup_replace_same [of st ?v] u(1) by (simp add: st')
  then show ?thesis using u(1) v(2)
    by (auto simp: DAVAccountCount_def openSecrets_def open_blob_def blob_Open_def empty_blob_def CountEnabled_def)
qed

end
