(* ===== verification/ModelFold.thy ===== *)
theory ModelFold
  imports Go_Strings
begin

text \<open>
  \<open>internal/model/fold.go\<close>: the folding of content lines to 75 octets. A line is cut at the start of a
  UTF-8 sequence; a continuation starts with one space, which the reader strips.
\<close>

subsection \<open>The code\<close>

definition foldLimit :: nat where "foldLimit = 75"

definition crlf :: string where "crlf = [CHR 0x0D, CHR 0x0A]"

definition RuneStart :: "char \<Rightarrow> bool" where
  "RuneStart c \<longleftrightarrow> \<not> continuation (byte c)"

fun cut_back :: "string \<Rightarrow> nat \<Rightarrow> nat" where
  "cut_back line 0 = 0"
| "cut_back line (Suc n) = (if RuneStart (line ! Suc n) then Suc n else cut_back line n)"

definition runeBoundary :: "string \<Rightarrow> nat \<Rightarrow> nat" where
  "runeBoundary line limit = (if limit \<ge> length line then length line else cut_back line limit)"

function fold_loop :: "nat \<Rightarrow> string \<Rightarrow> string" where
  "fold_loop limit line =
     (if length line > limit then
        (let cut = runeBoundary line limit
         in if cut = 0 then line
            else take cut line @ crlf @ [CHR '' ''] @ fold_loop (foldLimit - 1) (drop cut line))
      else line)"
  by pat_completeness auto
termination by (relation "measure (\<lambda>(_, line). length line)") auto

declare fold_loop.simps [simp del]

definition writeFolded :: "string \<Rightarrow> string" where
  "writeFolded line = fold_loop foldLimit line"

text \<open>\<open>bytes.Split\<close> at CRLF.\<close>

fun Split_crlf :: "string \<Rightarrow> string list" where
  "Split_crlf [] = [[]]"
| "Split_crlf [c] = [[c]]"
| "Split_crlf (c # d # s) =
     (if [c, d] = crlf then [] # Split_crlf s
      else case Split_crlf (d # s) of [] \<Rightarrow> [[c]] | w # ws \<Rightarrow> (c # w) # ws)"

fun fold_lines_loop :: "string list \<Rightarrow> string" where
  "fold_lines_loop [] = []"
| "fold_lines_loop [line] = (if line = [] then [] else writeFolded line @ crlf)"
| "fold_lines_loop (line # l # lines) = writeFolded line @ crlf @ fold_lines_loop (l # lines)"

definition foldLines :: "string \<Rightarrow> string" where
  "foldLines src = fold_lines_loop (Split_crlf src)"

subsection \<open>What a reader does\<close>

text \<open>RFC 6350, section 3.2: a CRLF immediately followed by a space is removed.\<close>

fun unfold_lines :: "string \<Rightarrow> string" where
  "unfold_lines (a # b # c # s) =
     (if [a, b, c] = crlf @ [CHR '' ''] then unfold_lines s else a # unfold_lines (b # c # s))"
| "unfold_lines [a, b] = [a, b]"
| "unfold_lines [a] = [a]"
| "unfold_lines [] = []"

lemma unfold_append_fold:
  "unfold_lines (xs @ crlf @ CHR '' '' # ys) = unfold_lines xs @ unfold_lines ys"
proof (induction xs rule: unfold_lines.induct)
  case (1 a b c s)
  then show ?case by (auto simp: crlf_def)
next
  case 4
  then show ?case by (simp add: crlf_def)
next
  case (3 v)
  then show ?case by (cases ys) (auto simp: crlf_def)
next
  case (2 v va)
  then show ?case by (auto simp: crlf_def)
qed

text \<open>A line without CRLF, and the CRLF that ends it, in front of something that is no continuation.\<close>

definition no_crlf :: "string \<Rightarrow> bool" where
  "no_crlf line \<longleftrightarrow> Split_crlf line = [line]"

lemma Split_crlf_ne [simp]: "Split_crlf s \<noteq> []"
  by (induction s rule: Split_crlf.induct) (auto split: list.splits)

lemma no_crlf_Cons: "no_crlf (c # d # s) \<longleftrightarrow> [c, d] \<noteq> crlf \<and> no_crlf (d # s)"
  by (auto simp: no_crlf_def split: list.splits)

lemma no_crlf_tl: "no_crlf (c # s) \<Longrightarrow> no_crlf s"
  by (cases s) (auto simp: no_crlf_Cons, simp add: no_crlf_def)

lemma unfold_no_crlf: "no_crlf line \<Longrightarrow> unfold_lines line = line"
proof (induction line rule: unfold_lines.induct)
  case (1 a b c s)
  then show ?case by (auto simp: no_crlf_Cons crlf_def)
qed simp_all

lemma unfold_line_end:
  assumes "no_crlf xs" and "\<And>z zs. ys = z # zs \<Longrightarrow> z \<noteq> CHR '' ''"
  shows "unfold_lines (xs @ crlf @ ys) = xs @ crlf @ unfold_lines ys"
  using assms(1)
proof (induction xs rule: unfold_lines.induct)
  case (1 a b c s)
  then show ?case by (auto simp: crlf_def no_crlf_Cons)
next
  case 4
  then show ?case using assms(2) by (cases ys; cases "tl ys") (auto simp: crlf_def)
next
  case (3 v)
  then show ?case using assms(2) by (cases ys; cases "tl ys") (auto simp: crlf_def)
next
  case (2 v va)
  then show ?case using assms(2) by (cases ys; cases "tl ys") (auto simp: crlf_def no_crlf_Cons)
qed

lemma no_crlf_appendD: "no_crlf (xs @ ys) \<Longrightarrow> no_crlf xs \<and> no_crlf ys"
proof (induction xs)
  case Nil
  then show ?case by (simp add: no_crlf_def)
next
  case (Cons x xs)
  then have "no_crlf xs" "no_crlf ys" using no_crlf_tl by (fastforce, fastforce)
  moreover have "no_crlf (x # xs)"
  proof (cases xs)
    case Nil
    then show ?thesis by (simp add: no_crlf_def)
  next
    case (Cons z zs)
    then show ?thesis using Cons.prems \<open>no_crlf xs\<close> by (auto simp: no_crlf_Cons)
  qed
  ultimately show ?case by simp
qed

lemma no_crlf_take_drop: "no_crlf line \<Longrightarrow> no_crlf (take n line) \<and> no_crlf (drop n line)"
  using no_crlf_appendD [of "take n line" "drop n line"] by simp

lemma unfold_fold_loop:
  assumes "no_crlf line" and "\<And>z zs. ys = z # zs \<Longrightarrow> z \<noteq> CHR '' ''"
  shows "unfold_lines (fold_loop limit line @ crlf @ ys) = line @ crlf @ unfold_lines ys"
  using assms(1)
proof (induction limit line rule: fold_loop.induct)
  case (1 limit line)
  let ?cut = "runeBoundary line limit"
  show ?case
  proof (cases "length line > limit \<and> ?cut \<noteq> 0")
    case True
    have nc: "no_crlf (take ?cut line)" "no_crlf (drop ?cut line)" using no_crlf_take_drop [OF "1.prems"] by auto
    have "unfold_lines (fold_loop limit line @ crlf @ ys) =
        unfold_lines (take ?cut line @ crlf @ CHR '' '' # (fold_loop (foldLimit - 1) (drop ?cut line) @ crlf @ ys))"
      using True by (simp add: fold_loop.simps [of limit line] Let_def)
    also have "\<dots> = take ?cut line @ drop ?cut line @ crlf @ unfold_lines ys"
      unfolding unfold_append_fold unfold_no_crlf [OF nc(1)] using "1.IH" [OF _ refl _ nc(2)] True by simp
    finally show ?thesis by simp
  next
    case False
    then have "fold_loop limit line = line" by (auto simp: fold_loop.simps [of limit line] Let_def)
    then show ?thesis using unfold_line_end [OF "1.prems" assms(2)] by simp
  qed
qed

lemma Split_line: "no_crlf l \<Longrightarrow> Split_crlf (l @ crlf @ s) = l # Split_crlf s"
proof (induction l rule: Split_crlf.induct)
  case 1
  then show ?case by (simp add: crlf_def)
next
  case (2 c)
  then show ?case by (auto simp: crlf_def)
next
  case (3 c d s')
  then show ?case by (auto simp: crlf_def no_crlf_Cons split: list.splits)
qed

text \<open>Every byte is at most three after the start of its UTF-8 sequence.\<close>

definition utf8_line :: "string \<Rightarrow> bool" where
  "utf8_line line \<longleftrightarrow> (\<forall>n < length line. \<exists>k \<le> n. n < k + 4 \<and> RuneStart (line ! k))"

lemma cut_back_props:
  "cut_back line n \<le> n" "cut_back line n = 0 \<or> RuneStart (line ! cut_back line n)"
  by (induction n) auto

lemma cut_back_ge: "RuneStart (line ! k) \<Longrightarrow> k \<le> n \<Longrightarrow> k \<le> cut_back line n"
  by (induction n) (auto simp: le_Suc_eq)

lemma runeBoundary_props:
  assumes "utf8_line line" and "limit < length line" and "4 \<le> limit"
  shows "0 < runeBoundary line limit" and "runeBoundary line limit \<le> limit"
    and "utf8_line (drop (runeBoundary line limit) line)"
proof -
  let ?cut = "cut_back line limit"
  have c: "runeBoundary line limit = ?cut" using assms(2) by (simp add: runeBoundary_def)
  obtain k where k: "k \<le> limit" "limit < k + 4" "RuneStart (line ! k)" using assms(1,2) by (auto simp: utf8_line_def)
  then show pos: "0 < runeBoundary line limit" using cut_back_ge [OF k(3,1)] assms(3) c by linarith
  show "runeBoundary line limit \<le> limit" using c cut_back_props(1) by simp
  have r: "RuneStart (line ! ?cut)" using cut_back_props(2) [of line limit] pos c by auto
  show "utf8_line (drop (runeBoundary line limit) line)"
    unfolding utf8_line_def c
  proof (intro allI impI)
    fix n assume n: "n < length (drop ?cut line)"
    then have "?cut + n < length line" by simp
    then obtain j where j: "j \<le> ?cut + n" "?cut + n < j + 4" "RuneStart (line ! j)" using assms(1) by (auto simp: utf8_line_def)
    let ?k = "if ?cut \<le> j then j - ?cut else 0"
    have "?k \<le> n" "n < ?k + 4" using j(1,2) by auto
    moreover have "RuneStart (drop ?cut line ! ?k)" using n j(3) r by auto
    ultimately show "\<exists>k \<le> n. n < k + 4 \<and> RuneStart (drop ?cut line ! k)" by blast
  qed
qed

lemma Split_folded:
  assumes "no_crlf line" and "utf8_line line" and "length pre + limit = foldLimit" and "pre = [] \<or> pre = [CHR '' '']"
  shows "\<exists>ps. Split_crlf (pre @ fold_loop limit line @ crlf @ ys) = ps @ Split_crlf ys \<and> (\<forall>p \<in> set ps. length p \<le> foldLimit)"
  using assms
proof (induction limit line arbitrary: pre rule: fold_loop.induct)
  case (1 limit line)
  let ?cut = "runeBoundary line limit"
  have pre: "no_crlf (pre @ l)" if "no_crlf l" for l
    using that "1.prems"(4) by (cases l) (auto simp: no_crlf_Cons, auto simp: no_crlf_def crlf_def)
  show ?case
  proof (cases "length line > limit")
    case True
    have "4 \<le> limit" using "1.prems"(3,4) by (auto simp: foldLimit_def)
    then have cut: "0 < ?cut" "?cut \<le> limit" "utf8_line (drop ?cut line)"
      using runeBoundary_props [OF "1.prems"(2) True] by auto
    have nc: "no_crlf (take ?cut line)" "no_crlf (drop ?cut line)" using no_crlf_take_drop [OF "1.prems"(1)] by auto
    have len: "length [CHR '' ''] + (foldLimit - 1) = foldLimit" by (simp add: foldLimit_def)
    obtain ps where ps: "Split_crlf ([CHR '' ''] @ fold_loop (foldLimit - 1) (drop ?cut line) @ crlf @ ys) = ps @ Split_crlf ys"
      "\<forall>p \<in> set ps. length p \<le> foldLimit"
      using "1.IH" [OF True refl _ nc(2) cut(3) len] cut(1) by auto
    have "Split_crlf (pre @ fold_loop limit line @ crlf @ ys) =
        (pre @ take ?cut line) # Split_crlf ([CHR '' ''] @ fold_loop (foldLimit - 1) (drop ?cut line) @ crlf @ ys)"
      using Split_line [OF pre [OF nc(1)]] True cut(1) by (simp add: fold_loop.simps [of limit line] Let_def)
    moreover have "length (pre @ take ?cut line) \<le> foldLimit" using cut(2) "1.prems"(3) by simp
    ultimately show ?thesis using ps by (intro exI [of _ "(pre @ take ?cut line) # ps"]) simp
  next
    case False
    then have "fold_loop limit line = line" by (simp add: fold_loop.simps [of limit line])
    then have "Split_crlf (pre @ fold_loop limit line @ crlf @ ys) = [pre @ line] @ Split_crlf ys"
      using Split_line [OF pre [OF "1.prems"(1)]] by simp
    then show ?thesis using False "1.prems"(3) by (intro exI [of _ "[pre @ line]"]) simp
  qed
qed

subsection \<open>Properties\<close>

definition card_lines :: "string list \<Rightarrow> string" where
  "card_lines ls = concat (map (\<lambda>l. l @ crlf) ls)"

lemma Split_card_lines: "\<forall>l \<in> set ls. no_crlf l \<Longrightarrow> Split_crlf (card_lines ls) = ls @ [[]]"
  by (induction ls) (simp_all add: card_lines_def Split_line)

lemma fold_lines_loop_Nil: "fold_lines_loop (ls @ [[]]) = concat (map (\<lambda>l. writeFolded l @ crlf) ls)"
proof (induction ls)
  case (Cons l ls)
  then show ?case by (cases "ls @ [[]]") auto
qed simp

lemma foldLines_card_lines:
  "\<forall>l \<in> set ls. no_crlf l \<Longrightarrow> foldLines (card_lines ls) = concat (map (\<lambda>l. writeFolded l @ crlf) ls)"
  by (simp add: foldLines_def Split_card_lines fold_lines_loop_Nil)



end
