(* ===== verification/ModelObject.thy ===== *)
theory ModelObject
  imports ModelFold Crypto
begin

text \<open>
  \<open>internal/model/object.go\<close>, \<open>patch.go\<close>, \<open>uid.go\<close> and the identity operations of \<open>vcards.go\<close>: a DAV
  resource with its parsed payload, and the patch that is the only way to change it. The payload types
  belong to third-party packages; their fields are the ones the code uses: a card is a map from names to
  lists of pointers to fields, a component has properties and children. The functions of those packages
  that the code calls are the record \<open>dav_lib\<close>; a location is its name, \<open>None\<close> for \<open>time.Local\<close>;
  a recurrence set is its method \<open>Between\<close> with both ends included, the field \<open>lb_url_path\<close> the path
  \<open>url.Parse\<close> finds. \<open>strings.ToUpper\<close> needs the tables of the package unicode.

  A map of parameters that is nil is the empty map: the code tells them apart nowhere but in copies.
\<close>

subsection \<open>Payloads\<close>

type_synonym params = "(string, string list) gomap"

record Value =
  va_Text :: string
  va_Params :: params
  va_Group :: string

record Field =
  fd_Value :: string
  fd_Params :: params
  fd_Group :: string

type_synonym Card = "(string, Field option list) gomap"

record Prop =
  pr_Name :: string
  pr_Value :: string
  pr_Params :: params

datatype Component = Component (cm_Name: string) (cm_Props: "(string, Prop list) gomap")
  (cm_Children: "Component option list")

datatype ObjKind = KindVCard | KindICal

record Object =
  ob_Path :: string
  ob_ETag :: string
  ob_kind :: ObjKind
  ob_card :: "Card option"
  ob_cal :: "Component option"

record dav_lib =
  lb_U :: unicode
  lb_decode_card :: "string \<Rightarrow> Card option"
  lb_decode_cal :: "string \<Rightarrow> Component option option"
  lb_encode_card :: "Card \<Rightarrow> string option"
  lb_encode_cal :: "Component \<Rightarrow> string option"
  lb_card_Value :: "Card \<Rightarrow> string \<Rightarrow> string"
  lb_SetValue :: "string \<Rightarrow> string \<Rightarrow> Card \<Rightarrow> Card"
  lb_props_Get :: "(string, Prop list) gomap \<Rightarrow> string \<Rightarrow> Prop option"
  lb_props_Del :: "string \<Rightarrow> (string, Prop list) gomap \<Rightarrow> (string, Prop list) gomap"
  lb_SetText :: "string \<Rightarrow> string \<Rightarrow> (string, Prop list) gomap \<Rightarrow> (string, Prop list) gomap"
  lb_SetDateTime :: "string \<Rightarrow> time \<Rightarrow> (string, Prop list) gomap \<Rightarrow> (string, Prop list) gomap"
  lb_Revision :: "Card \<Rightarrow> time option"
  lb_params_Get :: "params \<Rightarrow> string \<Rightarrow> string"
  lb_DateTime :: "string option \<Rightarrow> Prop \<Rightarrow> time option"
  lb_DateTimeStart :: "string option \<Rightarrow> Component \<Rightarrow> time option"
  lb_DateTimeEnd :: "string option \<Rightarrow> Component \<Rightarrow> time option"
  lb_is_date :: "Prop \<Rightarrow> bool"
  lb_Events :: "Component \<Rightarrow> Component list"
  lb_RecurrenceSet :: "string option \<Rightarrow> Component \<Rightarrow> (time \<Rightarrow> time \<Rightarrow> time list) option option"
  lb_url_path :: "string \<Rightarrow> string option"

datatype model_error = ErrNotVCard | ErrNotICal | ErrEmptyBody | ErrParse | ErrNoVersion | ErrVCardVersion
  | ErrUID | ErrNoPayload | ErrNoComponent | ErrPropertyName | ErrProtected string | ErrNoValue string
  | ErrNotTodo | ErrDTSTART | ErrDTEND | ErrRRULE | ErrNotJournal | ErrEncoding | ErrMissingObject | ErrKindMismatch | ErrNewUID crypto_error

definition DefaultVCardVersion :: string where "DefaultVCardVersion = ''3.0''"
definition DefaultICalProductID :: string where "DefaultICalProductID = ''-//Carrel//Carrel//EN''"

definition writableVCardVersions :: "string list" where "writableVCardVersions = [''3.0'', ''4.0'']"

subsection \<open>Values\<close>

definition Text :: "string \<Rightarrow> Value" where "Text s = \<lparr>va_Text = s, va_Params = [], va_Group = []\<rparr>"

text \<open>The appended map of a missing key starts from nil.\<close>

definition gm_get0 :: "params \<Rightarrow> string \<Rightarrow> string list" where
  "gm_get0 m k = (case gm_get m k of None \<Rightarrow> [] | Some xs \<Rightarrow> xs)"

definition param_key :: "unicode \<Rightarrow> string \<Rightarrow> string" where
  "param_key U name = ToUpper U (TrimSpace name)"

definition WithParam :: "unicode \<Rightarrow> Value \<Rightarrow> string \<Rightarrow> string list \<Rightarrow> Value" where
  "WithParam U v name values =
     (let key = param_key U name
      in v\<lparr>va_Params := gm_put key (gm_get0 (va_Params v) key @ values) (va_Params v)\<rparr>)"

definition Param :: "unicode \<Rightarrow> Value \<Rightarrow> string \<Rightarrow> string" where
  "Param U v name = (case gm_get0 (va_Params v) (param_key U name) of [] \<Rightarrow> [] | x # _ \<Rightarrow> x)"

text \<open>\<open>strings.EqualFold\<close>: equality of the runes up to case folding, which is a function of the tables.\<close>

definition EqualFold :: "unicode \<Rightarrow> string \<Rightarrow> string \<Rightarrow> bool" where
  "EqualFold U s t \<longleftrightarrow> map (rune_lower U) (runes s) = map (rune_lower U) (runes t)"

definition HasParamValue :: "unicode \<Rightarrow> Value \<Rightarrow> string \<Rightarrow> string \<Rightarrow> bool" where
  "HasParamValue U v name want = list_ex (\<lambda>got. EqualFold U got want) (gm_get0 (va_Params v) (param_key U name))"

definition rekey :: "(string \<Rightarrow> string) \<Rightarrow> params \<Rightarrow> params" where
  "rekey f m = fold (\<lambda>(k, vs) out. gm_put (f k) vs out) m []"

definition va_field :: "unicode \<Rightarrow> Value \<Rightarrow> Field" where
  "va_field U v = \<lparr>fd_Value = va_Text v, fd_Params = rekey (param_key U) (va_Params v), fd_Group = va_Group v\<rparr>"

definition va_prop :: "unicode \<Rightarrow> string \<Rightarrow> Value \<Rightarrow> Prop" where
  "va_prop U name v = \<lparr>pr_Name = name, pr_Value = va_Text v, pr_Params = rekey (param_key U) (va_Params v)\<rparr>"

definition valueFromField :: "unicode \<Rightarrow> Field option \<Rightarrow> Value" where
  "valueFromField U f =
     (case f of
        None \<Rightarrow> Text []
      | Some f \<Rightarrow> \<lparr>va_Text = fd_Value f, va_Params = rekey (ToUpper U) (fd_Params f), va_Group = fd_Group f\<rparr>)"

definition valueFromProp :: "unicode \<Rightarrow> Prop \<Rightarrow> Value" where
  "valueFromProp U p = \<lparr>va_Text = pr_Value p, va_Params = rekey (ToUpper U) (pr_Params p), va_Group = []\<rparr>"

subsection \<open>Reading\<close>

definition canonicalName :: "unicode \<Rightarrow> string \<Rightarrow> model_error + string" where
  "canonicalName U name =
     (let trimmed = ToUpper U (TrimSpace name)
      in if trimmed = [] then Inl ErrPropertyName
         else if trimmed = ''BEGIN'' \<or> trimmed = ''END'' then Inl ErrPropertyName
         else if list_all (\<lambda>r. (65 \<le> r \<and> r \<le> 90) \<or> (48 \<le> r \<and> r \<le> 57) \<or> r = 45) (runes trimmed) then Inr trimmed
         else Inl ErrPropertyName)"

definition is_primary :: "unicode \<Rightarrow> Component option \<Rightarrow> bool" where
  "is_primary U child =
     (case child of None \<Rightarrow> False
      | Some c \<Rightarrow> ToUpper U (cm_Name c) = ''VEVENT'' \<or> ToUpper U (cm_Name c) = ''VTODO'' \<or> ToUpper U (cm_Name c) = ''VJOURNAL'')"

definition primaryComponent :: "unicode \<Rightarrow> Object option \<Rightarrow> Component option" where
  "primaryComponent U o' =
     (case o' of None \<Rightarrow> None
      | Some ob \<Rightarrow> (case ob_cal ob of None \<Rightarrow> None
                   | Some cal \<Rightarrow> (case find_first (is_primary U) (cm_Children cal) of None \<Rightarrow> None | Some c \<Rightarrow> c)))"

definition ob_Component :: "unicode \<Rightarrow> Object option \<Rightarrow> string" where
  "ob_Component U o' = (case primaryComponent U o' of None \<Rightarrow> [] | Some c \<Rightarrow> ToUpper U (cm_Name c))"

definition icalPropRaw :: "dav_lib \<Rightarrow> (string, Prop list) gomap \<Rightarrow> string \<Rightarrow> string" where
  "icalPropRaw L props name = (case lb_props_Get L props name of None \<Rightarrow> [] | Some p \<Rightarrow> pr_Value p)"

fun unescape_loop :: "string \<Rightarrow> string" where
  "unescape_loop [] = []"
| "unescape_loop [c] = [c]"
| "unescape_loop (c # d # s) =
     (if c \<noteq> CHR 0x5C then c # unescape_loop (d # s)
      else if d = CHR ''n'' \<or> d = CHR ''N'' then CHR 0x0A # unescape_loop s
      else if d = CHR 0x5C \<or> d = CHR '','' \<or> d = CHR '';'' then d # unescape_loop s
      else CHR 0x5C # d # unescape_loop s)"

definition unescapeICalText :: "string \<Rightarrow> string" where
  "unescapeICalText value = (if CHR 0x5C \<notin> set value then value else unescape_loop value)"

definition icalPropText :: "dav_lib \<Rightarrow> (string, Prop list) gomap \<Rightarrow> string \<Rightarrow> string" where
  "icalPropText L props name = (case lb_props_Get L props name of None \<Rightarrow> [] | Some p \<Rightarrow> unescapeICalText (pr_Value p))"

definition ob_Version :: "dav_lib \<Rightarrow> Object option \<Rightarrow> string" where
  "ob_Version L o' =
     (case o' of None \<Rightarrow> []
      | Some ob \<Rightarrow>
          (case ob_kind ob of
             KindVCard \<Rightarrow> (case ob_card ob of None \<Rightarrow> [] | Some c \<Rightarrow> lb_card_Value L c ''VERSION'')
           | KindICal \<Rightarrow> (case ob_cal ob of None \<Rightarrow> [] | Some c \<Rightarrow> icalPropRaw L (cm_Props c) ''VERSION'')))"

definition ob_UID :: "dav_lib \<Rightarrow> Object option \<Rightarrow> string" where
  "ob_UID L o' =
     (case o' of None \<Rightarrow> []
      | Some ob \<Rightarrow>
          (case ob_kind ob of
             KindVCard \<Rightarrow> (case ob_card ob of None \<Rightarrow> [] | Some c \<Rightarrow> lb_card_Value L c ''UID'')
           | KindICal \<Rightarrow> (case primaryComponent (lb_U L) (Some ob) of None \<Rightarrow> [] | Some c \<Rightarrow> icalPropRaw L (cm_Props c) ''UID'')))"

definition sort_strings :: "string list \<Rightarrow> string list" where
  "sort_strings ss = sort ss"

definition Names :: "unicode \<Rightarrow> Object option \<Rightarrow> string list" where
  "Names U o' =
     (case o' of None \<Rightarrow> []
      | Some ob \<Rightarrow>
          (case ob_kind ob of
             KindVCard \<Rightarrow> (case ob_card ob of None \<Rightarrow> [] | Some c \<Rightarrow> sort_strings (map fst c))
           | KindICal \<Rightarrow> (case primaryComponent U (Some ob) of None \<Rightarrow> [] | Some c \<Rightarrow> sort_strings (map fst (cm_Props c)))))"

definition Property :: "unicode \<Rightarrow> Object option \<Rightarrow> string \<Rightarrow> Value list" where
  "Property U o' name =
     (case o' of None \<Rightarrow> []
      | Some ob \<Rightarrow>
          (case canonicalName U name of
             Inl _ \<Rightarrow> []
           | Inr canonical \<Rightarrow>
               (case ob_kind ob of
                  KindVCard \<Rightarrow>
                    (case ob_card ob of None \<Rightarrow> []
                     | Some c \<Rightarrow> (case gm_get c canonical of None \<Rightarrow> [] | Some fs \<Rightarrow> map (valueFromField U) fs))
                | KindICal \<Rightarrow>
                    (case primaryComponent U (Some ob) of None \<Rightarrow> []
                     | Some c \<Rightarrow> (case gm_get (cm_Props c) canonical of None \<Rightarrow> [] | Some ps \<Rightarrow> map (valueFromProp U) ps)))))"

definition Has :: "unicode \<Rightarrow> Object option \<Rightarrow> string \<Rightarrow> bool" where
  "Has U o' name \<longleftrightarrow> 0 < length (Property U o' name)"

record NamedProperty =
  np_Name :: string
  np_Values :: "Value list"

definition Properties :: "unicode \<Rightarrow> Object option \<Rightarrow> NamedProperty list" where
  "Properties U o' = map (\<lambda>name. \<lparr>np_Name = name, np_Values = Property U o' name\<rparr>) (Names U o')"

subsection \<open>Parsing, creating, writing\<close>

definition ParseVCard :: "dav_lib \<Rightarrow> string \<Rightarrow> string \<Rightarrow> string \<Rightarrow> model_error + Object" where
  "ParseVCard L path etag body =
     (if TrimSpace body = [] then Inl ErrEmptyBody
      else
        (case lb_decode_card L body of
           None \<Rightarrow> Inl ErrParse
         | Some cd \<Rightarrow>
             if TrimSpace (lb_card_Value L cd ''VERSION'') = [] then Inl ErrNoVersion
             else Inr \<lparr>ob_Path = path, ob_ETag = etag, ob_kind = KindVCard, ob_card = Some cd, ob_cal = None\<rparr>))"

definition ParseICal :: "dav_lib \<Rightarrow> string \<Rightarrow> string \<Rightarrow> string \<Rightarrow> model_error + Object" where
  "ParseICal L path etag body =
     (if TrimSpace body = [] then Inl ErrEmptyBody
      else
        (case lb_decode_cal L body of
           None \<Rightarrow> Inl ErrParse
         | Some None \<Rightarrow> Inl ErrParse
         | Some (Some cal) \<Rightarrow> Inr \<lparr>ob_Path = path, ob_ETag = etag, ob_kind = KindICal, ob_card = None, ob_cal = Some cal\<rparr>))"

definition NewVCard :: "dav_lib \<Rightarrow> string \<Rightarrow> string \<Rightarrow> model_error + Object" where
  "NewVCard L version uid =
     (let version = TrimSpace version;
          version = (if version = [] then DefaultVCardVersion else version)
      in if version \<notin> set writableVCardVersions then Inl ErrVCardVersion
         else
           (let uid = TrimSpace uid
            in if uid = [] then Inl ErrUID
               else Inr \<lparr>ob_Path = [], ob_ETag = [], ob_kind = KindVCard,
                         ob_card = Some (lb_SetValue L ''UID'' uid (lb_SetValue L ''VERSION'' version [])), ob_cal = None\<rparr>))"

definition newCalendarObject :: "dav_lib \<Rightarrow> time \<Rightarrow> string \<Rightarrow> string \<Rightarrow> model_error + Object" where
  "newCalendarObject L now component uid =
     (let uid = TrimSpace uid
      in if uid = [] then Inl ErrUID
         else
           (let props = lb_SetText L ''PRODID'' DefaultICalProductID (lb_SetText L ''VERSION'' ''2.0'' []);
                comp = Component component (lb_SetDateTime L ''DTSTAMP'' now (lb_SetText L ''UID'' uid [])) []
            in Inr \<lparr>ob_Path = [], ob_ETag = [], ob_kind = KindICal, ob_card = None,
                    ob_cal = Some (Component ''VCALENDAR'' props [Some comp])\<rparr>))"

definition NewEvent :: "dav_lib \<Rightarrow> time \<Rightarrow> string \<Rightarrow> model_error + Object" where
  "NewEvent L now uid = newCalendarObject L now ''VEVENT'' uid"

definition NewTodo :: "dav_lib \<Rightarrow> time \<Rightarrow> string \<Rightarrow> model_error + Object" where
  "NewTodo L now uid = newCalendarObject L now ''VTODO'' uid"

definition NewJournal :: "dav_lib \<Rightarrow> time \<Rightarrow> string \<Rightarrow> model_error + Object" where
  "NewJournal L now uid = newCalendarObject L now ''VJOURNAL'' uid"

definition Marshal :: "dav_lib \<Rightarrow> Object option \<Rightarrow> model_error + string" where
  "Marshal L o' =
     (case o' of None \<Rightarrow> Inl ErrNoPayload
      | Some ob \<Rightarrow>
          (case ob_kind ob of
             KindVCard \<Rightarrow>
               (case ob_card ob of None \<Rightarrow> Inl ErrNoPayload
                | Some c \<Rightarrow> (case lb_encode_card L c of None \<Rightarrow> Inl ErrEncoding | Some s \<Rightarrow> Inr (foldLines s)))
           | KindICal \<Rightarrow>
               (case ob_cal ob of None \<Rightarrow> Inl ErrNoPayload
                | Some c \<Rightarrow> (case lb_encode_cal L c of None \<Rightarrow> Inl ErrEncoding | Some s \<Rightarrow> Inr s))))"

text \<open>Deep copies: a nil pointer to a field is left out.\<close>

definition cloneCard :: "Card \<Rightarrow> Card" where
  "cloneCard cd = map (\<lambda>(name, fs). (name, filter (\<lambda>f. f \<noteq> None) fs)) cd"

definition ob_Clone :: "Object \<Rightarrow> Object" where
  "ob_Clone ob =
     (case ob_kind ob of
        KindVCard \<Rightarrow> ob\<lparr>ob_card := map_option cloneCard (ob_card ob), ob_cal := None\<rparr>
      | KindICal \<Rightarrow> ob\<lparr>ob_card := None\<rparr>)"

subsection \<open>Patches\<close>

record patchOp =
  po_name :: string
  po_remove :: bool
  po_values :: "Value list"

type_synonym Patch = "patchOp list"

definition patch_Set :: "string \<Rightarrow> Value list \<Rightarrow> Patch \<Rightarrow> Patch" where
  "patch_Set name values p = p @ [\<lparr>po_name = name, po_remove = False, po_values = values\<rparr>]"

definition patch_SetText :: "string \<Rightarrow> string \<Rightarrow> Patch \<Rightarrow> Patch" where
  "patch_SetText name text p = patch_Set name [Text text] p"

definition patch_Remove :: "string \<Rightarrow> Patch \<Rightarrow> Patch" where
  "patch_Remove name p = p @ [\<lparr>po_name = name, po_remove = True, po_values = []\<rparr>]"

definition patch_IsEmpty :: "Patch option \<Rightarrow> bool" where
  "patch_IsEmpty p = (case p of None \<Rightarrow> True | Some ops \<Rightarrow> length ops = 0)"

text \<open>The loop of a function that lists keys without repetition.\<close>

fun distinct_loop :: "'a list \<Rightarrow> 'a list \<Rightarrow> 'a list \<Rightarrow> 'a list" where
  "distinct_loop [] seen out = out"
| "distinct_loop (x # xs) seen out =
     (if x \<in> set seen then distinct_loop xs seen out else distinct_loop xs (x # seen) (out @ [x]))"

definition patch_Names :: "unicode \<Rightarrow> Patch option \<Rightarrow> string list" where
  "patch_Names U p =
     (case p of None \<Rightarrow> []
      | Some ops \<Rightarrow>
          sort_strings (distinct_loop
            (map (\<lambda>op. case canonicalName U (po_name op) of Inl _ \<Rightarrow> ToUpper U (TrimSpace (po_name op)) | Inr n \<Rightarrow> n) ops) [] []))"

definition protectedProperties :: "string list" where "protectedProperties = [''VERSION'', ''UID'']"

fun check_ops :: "unicode \<Rightarrow> Patch \<Rightarrow> model_error + string list" where
  "check_ops U [] = Inr []"
| "check_ops U (op # ops) =
     (case canonicalName U (po_name op) of
        Inl e \<Rightarrow> Inl e
      | Inr name \<Rightarrow>
          if name \<in> set protectedProperties then Inl (ErrProtected name)
          else if \<not> po_remove op \<and> length (po_values op) = 0 then Inl (ErrNoValue name)
          else (case check_ops U ops of Inl e \<Rightarrow> Inl e | Inr names \<Rightarrow> Inr (name # names)))"

definition apply_card_op :: "unicode \<Rightarrow> string \<times> patchOp \<Rightarrow> Card \<Rightarrow> Card" where
  "apply_card_op U = (\<lambda>(name, op) cd.
     if po_remove op then gm_del name cd
     else gm_put name (map (\<lambda>v. Some (va_field U v)) (po_values op)) cd)"

definition apply_prop_op ::
    "dav_lib \<Rightarrow> string \<times> patchOp \<Rightarrow> (string, Prop list) gomap \<Rightarrow> (string, Prop list) gomap" where
  "apply_prop_op L = (\<lambda>(name, op) props.
     if po_remove op then lb_props_Del L name props
     else gm_put name (map (va_prop (lb_U L) name) (po_values op)) props)"

text \<open>Writing through the pointer that \<open>primaryComponent\<close> returns.\<close>

definition with_primary :: "unicode \<Rightarrow> ((string, Prop list) gomap \<Rightarrow> (string, Prop list) gomap) \<Rightarrow> Component \<Rightarrow> Component" where
  "with_primary U f cal =
     (case find_first (is_primary U) (cm_Children cal) of
        None \<Rightarrow> cal
      | Some None \<Rightarrow> cal
      | Some (Some c) \<Rightarrow>
          Component (cm_Name cal) (cm_Props cal)
            (update_first (is_primary U) (Some (Component (cm_Name c) (f (cm_Props c)) (cm_Children c))) (cm_Children cal)))"

definition Apply :: "dav_lib \<Rightarrow> Patch option \<Rightarrow> Object option \<Rightarrow> Object option \<times> model_error option" where
  "Apply L p o' =
     (case o' of
        None \<Rightarrow> (None, Some ErrNoPayload)
      | Some ob \<Rightarrow>
          if patch_IsEmpty p then (Some ob, None)
          else
            (case check_ops (lb_U L) (the p) of
               Inl e \<Rightarrow> (Some ob, Some e)
             | Inr names \<Rightarrow>
                 (case ob_kind ob of
                    KindVCard \<Rightarrow>
                      (case ob_card ob of
                         None \<Rightarrow> (Some ob, Some ErrNoPayload)
                       | Some cd \<Rightarrow>
                           (Some (ob\<lparr>ob_card := Some (fold (apply_card_op (lb_U L)) (zip names (the p)) cd)\<rparr>), None))
                  | KindICal \<Rightarrow>
                      (case primaryComponent (lb_U L) (Some ob) of
                         None \<Rightarrow> (Some ob, Some ErrNoComponent)
                       | Some _ \<Rightarrow>
                           (Some (ob\<lparr>ob_cal := map_option
                              (with_primary (lb_U L) (fold (apply_prop_op L) (zip names (the p)))) (ob_cal ob)\<rparr>), None)))))"

subsection \<open>Identity\<close>

definition NewUID :: "entropy \<Rightarrow> crypto_error + string" where
  "NewUID e =
     (case Random e 16 of
        Inl err \<Rightarrow> Inl err
      | Inr b \<Rightarrow>
          (let b = b[6 := char_of (byte (b ! 6) mod 16 + 64)];
               b = b[8 := char_of (byte (b ! 8) mod 64 + 128)]
           in Inr (hex_encode (take 4 b) @ ''-'' @ hex_encode (take 2 (drop 4 b)) @ ''-'' @
                   hex_encode (take 2 (drop 6 b)) @ ''-'' @ hex_encode (take 2 (drop 8 b)) @ ''-'' @
                   hex_encode (take 6 (drop 10 b)))))"

definition AssignUID :: "dav_lib \<Rightarrow> string \<Rightarrow> Object option \<Rightarrow> Object option \<times> model_error option" where
  "AssignUID L uid o' =
     (case o' of
        None \<Rightarrow> (None, Some ErrNoPayload)
      | Some ob \<Rightarrow>
          (let uid = TrimSpace uid
           in if uid = [] then (Some ob, Some ErrUID)
              else
                (case ob_kind ob of
                   KindVCard \<Rightarrow>
                     (case ob_card ob of None \<Rightarrow> (Some ob, Some ErrNoPayload)
                      | Some cd \<Rightarrow> (Some (ob\<lparr>ob_card := Some (lb_SetValue L ''UID'' uid cd)\<rparr>), None))
                 | KindICal \<Rightarrow>
                     (case primaryComponent (lb_U L) (Some ob) of
                        None \<Rightarrow> (Some ob, Some ErrNoComponent)
                      | Some _ \<Rightarrow>
                          (Some (ob\<lparr>ob_cal := map_option (with_primary (lb_U L) (lb_SetText L ''UID'' uid)) (ob_cal ob)\<rparr>), None)))))"

definition EnsureUID :: "dav_lib \<Rightarrow> entropy \<Rightarrow> Object option \<Rightarrow> Object option \<times> (model_error + string)" where
  "EnsureUID L e o' =
     (case o' of
        None \<Rightarrow> (None, Inl ErrNoPayload)
      | Some ob \<Rightarrow>
          (let uid = TrimSpace (ob_UID L (Some ob))
           in if uid \<noteq> [] then (Some ob, Inr uid)
              else
                (case NewUID e of
                   Inl err \<Rightarrow> (Some ob, Inl (ErrNewUID err))
                 | Inr uid \<Rightarrow>
                     (case AssignUID L uid (Some ob) of
                        (o', Some err) \<Rightarrow> (o', Inl err)
                      | (o', None) \<Rightarrow> (o', Inr uid)))))"

subsection \<open>Lemmas\<close>

text \<open>
  What is relied on of the libraries: a value is read from the fields of its own canonical key, and \<open>Del\<close> of a
  canonical name deletes that key and no other.
\<close>

definition lib_ok :: "dav_lib \<Rightarrow> bool" where
  "lib_ok L \<longleftrightarrow>
     (\<forall>c c' k. gm_get c k = gm_get c' k \<longrightarrow> lb_card_Value L c k = lb_card_Value L c' k) \<and>
     (\<forall>c c' k. canonicalName (lb_U L) k = Inr k \<and> gm_get c k = gm_get c' k \<longrightarrow> lb_props_Get L c k = lb_props_Get L c' k) \<and>
     (\<forall>c n k. canonicalName (lb_U L) n = Inr n \<longrightarrow> gm_get (lb_props_Del L n c) k = (if k = n then None else gm_get c k))"

text \<open>What an operation of a patch writes under its name.\<close>

definition op_fields :: "unicode \<Rightarrow> patchOp \<Rightarrow> Field option list option" where
  "op_fields U op = (if po_remove op then None else Some (map (\<lambda>v. Some (va_field U v)) (po_values op)))"

definition op_props :: "unicode \<Rightarrow> string \<Rightarrow> patchOp \<Rightarrow> Prop list option" where
  "op_props U name op = (if po_remove op then None else Some (map (va_prop U name) (po_values op)))"

lemma get_card_op:
  "gm_get (apply_card_op U (name, op) cd) k = (if k = name then op_fields U op else gm_get cd k)"
  by (simp add: apply_card_op_def op_fields_def)

lemma get_card_ops_other:
  "k \<notin> fst ` set nops \<Longrightarrow> gm_get (fold (apply_card_op U) nops cd) k = gm_get cd k"
  by (induction nops arbitrary: cd) (auto simp: get_card_op)

lemma get_card_ops_last:
  "k \<notin> fst ` set ys \<Longrightarrow> gm_get (fold (apply_card_op U) (xs @ (k, op) # ys) cd) k = op_fields U op"
  by (simp add: get_card_ops_other get_card_op)

lemma canonical_idem:
  assumes "canonicalName U n = Inr m" and "ToUpper U (TrimSpace m) = m"
  shows "canonicalName U m = Inr m"
  using assms by (auto simp: canonicalName_def Let_def split: if_splits)

lemma check_ops_names:
  "check_ops U ops = Inr names \<Longrightarrow> length names = length ops \<and>
     (\<forall>i < length ops. canonicalName U (po_name (ops ! i)) = Inr (names ! i) \<and> names ! i \<notin> set protectedProperties \<and>
        (po_remove (ops ! i) \<or> po_values (ops ! i) \<noteq> []))"
proof (induction ops arbitrary: names)
  case (Cons op ops)
  obtain n ns where n: "canonicalName U (po_name op) = Inr n" "n \<notin> set protectedProperties"
    "po_remove op \<or> po_values op \<noteq> []" "check_ops U ops = Inr ns" "names = n # ns"
    using Cons.prems by (auto split: sum.splits if_splits)
  then show ?case using Cons.IH [OF n(4)] by (auto simp: nth_Cons split: nat.split)
qed simp

lemma distinct_loop_set: "set (distinct_loop xs seen out) = set out \<union> (set xs - set seen)"
  by (induction xs seen out rule: distinct_loop.induct) auto

lemma distinct_loop_distinct: "distinct out \<Longrightarrow> set seen = set out \<Longrightarrow> distinct (distinct_loop xs seen out)"
  by (induction xs seen out rule: distinct_loop.induct) auto

lemma patch_Names_checked:
  assumes "check_ops U ops = Inr names"
  shows "set (patch_Names U (Some ops)) = set names"
proof -
  have "map (\<lambda>op. case canonicalName U (po_name op) of Inl _ \<Rightarrow> ToUpper U (TrimSpace (po_name op)) | Inr n \<Rightarrow> n) ops = names"
    using check_ops_names [OF assms] by (auto intro: nth_equalityI)
  then show ?thesis by (simp add: patch_Names_def sort_strings_def distinct_loop_set)
qed

text \<open>A canonical name is ASCII, so it is its own canonical form.\<close>

lemma encode_rune_byte: "byte c < 128 \<Longrightarrow> encode_rune (byte c) = [c]"
  by (simp add: encode_rune_def Let_def)

lemma ToUpper_plain:
  assumes "list_all (\<lambda>c. byte c < 97) s"
  shows "ToUpper U s = s"
proof -
  have "chunks s = map (\<lambda>c. (byte c, [c])) s" using assms by (induction s) (auto simp: chunks_ascii_Cons)
  then have "ToUpper U s = concat (map (\<lambda>c. encode_rune (rune_upper U (byte c))) s)" by (simp add: ToUpper_def runes_def o_def)
  also have "\<dots> = concat (map (\<lambda>c. [c]) s)"
  proof (intro arg_cong [of _ _ concat] map_cong refl)
    fix c assume "c \<in> set s"
    then have "byte c < 97" using assms by (simp add: list_all_iff)
    then show "encode_rune (rune_upper U (byte c)) = [c]" by (simp add: rune_upper_def encode_rune_byte)
  qed
  finally show ?thesis by simp
qed

lemma ToLower_plain:
  assumes "list_all (\<lambda>c. byte c < 128 \<and> \<not> (65 \<le> byte c \<and> byte c \<le> 90)) s"
  shows "ToLower U s = s"
proof -
  have "chunks s = map (\<lambda>c. (byte c, [c])) s" using assms by (induction s) (auto simp: chunks_ascii_Cons)
  then have "ToLower U s = concat (map (\<lambda>c. encode_rune (rune_lower U (byte c))) s)" by (simp add: ToLower_def runes_def o_def)
  also have "\<dots> = concat (map (\<lambda>c. [c]) s)"
  proof (intro arg_cong [of _ _ concat] map_cong refl)
    fix c assume "c \<in> set s"
    then have "byte c < 128 \<and> \<not> (65 \<le> byte c \<and> byte c \<le> 90)" using assms by (simp add: list_all_iff)
    then show "encode_rune (rune_lower U (byte c)) = [c]" by (auto simp: rune_lower_def encode_rune_byte)
  qed
  finally show ?thesis by simp
qed

definition name_byte :: "char \<Rightarrow> bool" where
  "name_byte c \<longleftrightarrow> (65 \<le> byte c \<and> byte c \<le> 90) \<or> (48 \<le> byte c \<and> byte c \<le> 57) \<or> byte c = 45"

lemma canonical_plain:
  assumes "n \<noteq> []" and "n \<noteq> ''BEGIN''" and "n \<noteq> ''END''" and b: "\<forall>c \<in> set n. name_byte c"
  shows "canonicalName U n = Inr n"
proof -
  have "chunks n = map (\<lambda>c. (byte c, [c])) n"
    using b by (induction n) (auto simp: chunks_ascii_Cons name_byte_def)
  then have r: "runes n = map byte n" by (simp add: runes_def)
  have "TrimSpace n = n"
    using assms(1) b [THEN bspec, of "hd n"] b [THEN bspec, of "last n"]
    by (intro TrimSpace_tight) (auto simp: IsSpace_def name_byte_def)
  moreover have "ToUpper U n = n"
  proof -
    have "encode_rune (rune_upper U (byte c)) = [c]" if "c \<in> set n" for c
    proof -
      have "rune_upper U (byte c) = byte c" "byte c < 128" using b that by (auto simp: rune_upper_def name_byte_def)
      then show ?thesis by (simp add: encode_rune_byte)
    qed
    then have e: "map (\<lambda>c. encode_rune (rune_upper U (byte c))) n = map (\<lambda>c. [c]) n" by (intro map_cong) auto
    have "ToUpper U n = concat (map (\<lambda>c. encode_rune (rune_upper U (byte c))) n)" by (simp add: ToUpper_def r comp_def)
    then show ?thesis unfolding e by simp
  qed
  moreover have "list_all (\<lambda>r. (65 \<le> r \<and> r \<le> 90) \<or> (48 \<le> r \<and> r \<le> 57) \<or> r = 45) (runes n)"
    using b by (simp add: r list_all_iff name_byte_def)
  ultimately show ?thesis using assms(1-3) by (simp add: canonicalName_def Let_def)
qed

lemma canonical_form:
  assumes "canonicalName U x = Inr n"
  shows "n \<noteq> []" and "n \<noteq> ''BEGIN''" and "n \<noteq> ''END''" and "\<forall>c \<in> set n. name_byte c"
proof -
  let ?ok = "\<lambda>r::nat. (65 \<le> r \<and> r \<le> 90) \<or> (48 \<le> r \<and> r \<le> 57) \<or> r = 45"
  show n: "n \<noteq> []" "n \<noteq> ''BEGIN''" "n \<noteq> ''END''"
    using assms by (auto simp: canonicalName_def Let_def split: if_splits)
  have k: "list_all ?ok (runes n)" using assms by (auto simp: canonicalName_def Let_def split: if_splits)
  then have "chunks n = map (\<lambda>c. (byte c, [c])) n" by (intro low_runes_ascii) (auto simp: list_all_iff)
  then have "runes n = map byte n" by (simp add: runes_def)
  then show "\<forall>c \<in> set n. name_byte c" using k by (simp add: list_all_iff name_byte_def)
qed

lemma canonical_own: "canonicalName U x = Inr n \<Longrightarrow> canonicalName U n = Inr n"
  by (rule canonical_plain) (rule canonical_form, assumption)+

lemma canonical_UID: "canonicalName U ''UID'' = Inr ''UID''"
  by (rule canonical_plain) (simp_all add: name_byte_def)

lemma get_prop_op:
  assumes "lib_ok L" "canonicalName (lb_U L) x = Inr name"
  shows "gm_get (apply_prop_op L (name, op) props) k = (if k = name then op_props (lb_U L) name op else gm_get props k)"
  using assms canonical_own [OF assms(2)] by (simp add: apply_prop_op_def op_props_def lib_ok_def)

lemma get_prop_ops_other:
  assumes "lib_ok L" "\<forall>(n, op) \<in> set nops. canonicalName (lb_U L) n = Inr n" "k \<notin> fst ` set nops"
  shows "gm_get (fold (apply_prop_op L) nops props) k = gm_get props k"
  using assms(2,3)
proof (induction nops arbitrary: props)
  case (Cons x xs)
  obtain n op where x: "x = (n, op)" by fastforce
  then show ?case using Cons get_prop_op [OF assms(1), of n n] by auto
qed simp

lemma get_prop_ops_last:
  assumes "lib_ok L" "\<forall>(n, op) \<in> set (xs @ (k, op) # ys). canonicalName (lb_U L) n = Inr n" "k \<notin> fst ` set ys"
  shows "gm_get (fold (apply_prop_op L) (xs @ (k, op) # ys) props) k = op_props (lb_U L) k op"
  using assms get_prop_ops_other [of L ys k] get_prop_op [OF assms(1), of k k] by auto

text \<open>The primary component after a write through its pointer.\<close>

lemma find_first_update_first: "find_first P xs = Some x \<Longrightarrow> P y \<Longrightarrow> find_first P (update_first P y xs) = Some y"
  by (induction xs) auto

lemma primary_with_primary:
  assumes "primaryComponent U (Some ob) = Some c"
  shows "primaryComponent U (Some (ob\<lparr>ob_cal := map_option (with_primary U f) (ob_cal ob)\<rparr>)) =
     Some (Component (cm_Name c) (f (cm_Props c)) (cm_Children c))"
    and "\<exists>cal. ob_cal ob = Some cal \<and> find_first (is_primary U) (cm_Children cal) = Some (Some c)"
proof -
  obtain cal where cal: "ob_cal ob = Some cal" "find_first (is_primary U) (cm_Children cal) = Some (Some c)"
    using assms by (auto simp: primaryComponent_def split: option.splits)
  then show "\<exists>cal. ob_cal ob = Some cal \<and> find_first (is_primary U) (cm_Children cal) = Some (Some c)" by blast
  let ?c = "Component (cm_Name c) (f (cm_Props c)) (cm_Children c)"
  have "is_primary U (Some ?c)" using find_first_SomeD [OF cal(2)] by (simp add: is_primary_def)
  then show "primaryComponent U (Some (ob\<lparr>ob_cal := map_option (with_primary U f) (ob_cal ob)\<rparr>)) = Some ?c"
    using cal find_first_update_first [OF cal(2)] by (simp add: primaryComponent_def with_primary_def)
qed

text \<open>The values of a property as a patch writes them.\<close>

definition written :: "unicode \<Rightarrow> ObjKind \<Rightarrow> string \<Rightarrow> patchOp \<Rightarrow> Value list" where
  "written U kind name op =
     (if po_remove op then []
      else map (\<lambda>v. case kind of KindVCard \<Rightarrow> valueFromField U (Some (va_field U v))
                     | KindICal \<Rightarrow> valueFromProp U (va_prop U name v)) (po_values op))"

lemma Apply_ok:
  assumes "Apply L (Some p) (Some ob) = (o', None)" and "p \<noteq> []"
  shows "\<exists>names. check_ops (lb_U L) p = Inr names \<and>
    ((\<exists>c. ob_kind ob = KindVCard \<and> ob_card ob = Some c \<and>
        o' = Some (ob\<lparr>ob_card := Some (fold (apply_card_op (lb_U L)) (zip names p) c)\<rparr>)) \<or>
     (\<exists>c. ob_kind ob = KindICal \<and> primaryComponent (lb_U L) (Some ob) = Some c \<and>
        o' = Some (ob\<lparr>ob_cal := map_option (with_primary (lb_U L) (fold (apply_prop_op L) (zip names p))) (ob_cal ob)\<rparr>)))"
  using assms by (cases "ob_kind ob") (auto simp: Apply_def patch_IsEmpty_def split: sum.splits option.splits)

subsection \<open>Properties\<close>

text \<open>
  The properties of an object after its payload was patched: those of the card or of the primary
  component, each key on its own.
\<close>

lemma Property_card:
  "ob_kind ob = KindVCard \<Longrightarrow> ob_card ob = Some c \<Longrightarrow> canonicalName U name = Inr n \<Longrightarrow>
   Property U (Some ob) name = (case gm_get c n of None \<Rightarrow> [] | Some fs \<Rightarrow> map (valueFromField U) fs)"
  by (simp add: Property_def)

lemma Property_ical:
  "ob_kind ob = KindICal \<Longrightarrow> primaryComponent U (Some ob) = Some c \<Longrightarrow> canonicalName U name = Inr n \<Longrightarrow>
   Property U (Some ob) name = (case gm_get (cm_Props c) n of None \<Rightarrow> [] | Some ps \<Rightarrow> map (valueFromProp U) ps)"
  by (simp add: Property_def)

lemma zip_at:
  assumes "length names = length ops" and "i < length ops" and "\<forall>j. i < j \<and> j < length ops \<longrightarrow> names ! j \<noteq> names ! i"
  shows "\<exists>xs ys. zip names ops = xs @ (names ! i, ops ! i) # ys \<and> names ! i \<notin> fst ` set ys"
proof -
  let ?z = "zip names ops"
  have li: "i < length ?z" using assms(1,2) by simp
  have z: "?z = take i ?z @ ?z ! i # drop (Suc i) ?z" by (rule id_take_nth_drop [OF li])
  have at: "?z ! i = (names ! i, ops ! i)" using assms(1,2) by simp
  have "names ! i \<notin> fst ` set (drop (Suc i) ?z)"
  proof
    assume "names ! i \<in> fst ` set (drop (Suc i) ?z)"
    then obtain k where k: "k < length (drop (Suc i) ?z)" "names ! i = fst (drop (Suc i) ?z ! k)"
      by (auto simp: in_set_conv_nth)
    then have "names ! i = names ! (Suc i + k)" "Suc i + k < length ops" using assms(1) by auto
    then show False using assms(3) [rule_format, of "Suc i + k"] by simp
  qed
  then show ?thesis using z [unfolded at] by blast
qed

text \<open>The names of a checked patch, and the last operation under a name.\<close>

lemma ops_zip:
  assumes "check_ops U p = Inr names"
  shows "fst ` set (zip names p) = set names" and "\<forall>(n, op) \<in> set (zip names p). canonicalName U n = Inr n"
    and "n = ''UID'' \<or> n = ''VERSION'' \<Longrightarrow> n \<notin> set names"
proof -
  note c = check_ops_names [OF assms]
  show "fst ` set (zip names p) = set names" using c by (metis map_fst_zip set_map)
  have own: "canonicalName U (names ! i) = Inr (names ! i)" if "i < length p" for i using c that canonical_own by blast
  then show "\<forall>(n, op) \<in> set (zip names p). canonicalName U n = Inr n" using c by (auto simp: set_zip)
  show "n = ''UID'' \<or> n = ''VERSION'' \<Longrightarrow> n \<notin> set names"
    using c by (fastforce simp: in_set_conv_nth protectedProperties_def)
qed

lemma op_last:
  assumes "check_ops U p = Inr names" and "i < length p" and "canonicalName U (po_name (p ! i)) = Inr n"
    and "\<forall>j. i < j \<and> j < length p \<longrightarrow> canonicalName U (po_name (p ! j)) \<noteq> Inr n"
  shows "\<exists>xs ys. zip names p = xs @ (n, p ! i) # ys \<and> n \<notin> fst ` set ys"
proof -
  note c = check_ops_names [OF assms(1)]
  have ln: "length names = length p" using c by blast
  have n: "n = names ! i" using c assms(2,3) by fastforce
  have "\<forall>j. i < j \<and> j < length p \<longrightarrow> names ! j \<noteq> names ! i" using assms(4) c n by metis
  then show ?thesis using zip_at [OF ln assms(2)] n by blast
qed

lemma card_patched:
  assumes L: "lib_ok L" and ck: "check_ops (lb_U L) p = Inr names"
    and k: "ob_kind ob = KindVCard" "ob_card ob = Some c"
    and ob': "ob' = ob\<lparr>ob_card := Some (fold (apply_card_op (lb_U L)) (zip names p) c)\<rparr>"
  shows "ob_UID L (Some ob') = ob_UID L (Some ob)" and "ob_Version L (Some ob') = ob_Version L (Some ob)"
    and "canonicalName (lb_U L) name = Inr n \<Longrightarrow> n \<notin> set names \<Longrightarrow>
      Property (lb_U L) (Some ob') name = Property (lb_U L) (Some ob) name"
    and "i < length p \<Longrightarrow> canonicalName (lb_U L) (po_name (p ! i)) = Inr n \<Longrightarrow>
      \<forall>j. i < j \<and> j < length p \<longrightarrow> canonicalName (lb_U L) (po_name (p ! j)) \<noteq> Inr n \<Longrightarrow>
      Property (lb_U L) (Some ob') n = written (lb_U L) (ob_kind ob) n (p ! i)"
proof -
  let ?c = "fold (apply_card_op (lb_U L)) (zip names p) c"
  have other: "gm_get ?c m = gm_get c m" if "m \<notin> set names" for m
    using get_card_ops_other [of m "zip names p"] that ops_zip(1) [OF ck] by simp
  have kb: "ob_kind ob' = KindVCard" "ob_card ob' = Some ?c" using k ob' by simp_all
  have same: "lb_card_Value L ?c m = lb_card_Value L c m" if "m = ''UID'' \<or> m = ''VERSION''" for m
    using L other [OF ops_zip(3) [OF ck that]] unfolding lib_ok_def by blast
  show "ob_UID L (Some ob') = ob_UID L (Some ob)" "ob_Version L (Some ob') = ob_Version L (Some ob)"
    using k kb same by (simp_all add: ob_UID_def ob_Version_def)
  show "Property (lb_U L) (Some ob') name = Property (lb_U L) (Some ob) name"
    if "canonicalName (lb_U L) name = Inr n" "n \<notin> set names"
    using Property_card [OF kb that(1)] Property_card [OF k that(1)] other [OF that(2)] by simp
  show "Property (lb_U L) (Some ob') n = written (lb_U L) (ob_kind ob) n (p ! i)"
    if i: "i < length p" "canonicalName (lb_U L) (po_name (p ! i)) = Inr n"
      "\<forall>j. i < j \<and> j < length p \<longrightarrow> canonicalName (lb_U L) (po_name (p ! j)) \<noteq> Inr n"
  proof -
    obtain xs ys where z: "zip names p = xs @ (n, p ! i) # ys" "n \<notin> fst ` set ys"
      using op_last [OF ck i] by blast
    have "canonicalName (lb_U L) n = Inr n" using ops_zip(2) [OF ck] z(1) by auto
    moreover have "gm_get ?c n = op_fields (lb_U L) (p ! i)" unfolding z(1) by (rule get_card_ops_last [OF z(2)])
    ultimately show ?thesis using Property_card [OF kb] k by (simp add: op_fields_def written_def comp_def)
  qed
qed

lemma ical_patched:
  assumes L: "lib_ok L" and ck: "check_ops (lb_U L) p = Inr names"
    and k: "ob_kind ob = KindICal" "primaryComponent (lb_U L) (Some ob) = Some c"
    and ob': "ob' = ob\<lparr>ob_cal := map_option (with_primary (lb_U L) (fold (apply_prop_op L) (zip names p))) (ob_cal ob)\<rparr>"
  shows "ob_UID L (Some ob') = ob_UID L (Some ob)" and "ob_Version L (Some ob') = ob_Version L (Some ob)"
    and "canonicalName (lb_U L) name = Inr n \<Longrightarrow> n \<notin> set names \<Longrightarrow>
      Property (lb_U L) (Some ob') name = Property (lb_U L) (Some ob) name"
    and "i < length p \<Longrightarrow> canonicalName (lb_U L) (po_name (p ! i)) = Inr n \<Longrightarrow>
      \<forall>j. i < j \<and> j < length p \<longrightarrow> canonicalName (lb_U L) (po_name (p ! j)) \<noteq> Inr n \<Longrightarrow>
      Property (lb_U L) (Some ob') n = written (lb_U L) (ob_kind ob) n (p ! i)"
proof -
  let ?ps = "fold (apply_prop_op L) (zip names p) (cm_Props c)"
  have kb: "ob_kind ob' = KindICal" "primaryComponent (lb_U L) (Some ob') = Some (Component (cm_Name c) ?ps (cm_Children c))"
    using k primary_with_primary(1) [OF k(2)] ob' by simp_all
  have other: "gm_get ?ps m = gm_get (cm_Props c) m" if "m \<notin> set names" for m
    by (rule get_prop_ops_other [OF L ops_zip(2) [OF ck]]) (simp add: that ops_zip(1) [OF ck])
  have "''UID'' \<notin> set names" using ops_zip(3) [OF ck] by blast
  moreover have "canonicalName (lb_U L) ''UID'' = Inr ''UID''" by (rule canonical_UID)
  ultimately have "lb_props_Get L ?ps ''UID'' = lb_props_Get L (cm_Props c) ''UID''"
    using L other unfolding lib_ok_def by blast
  then show "ob_UID L (Some ob') = ob_UID L (Some ob)"
    using k kb by (simp add: ob_UID_def icalPropRaw_def)
  show "ob_Version L (Some ob') = ob_Version L (Some ob)"
    using k ob' by (auto simp: ob_Version_def with_primary_def split: option.split)
  show "Property (lb_U L) (Some ob') name = Property (lb_U L) (Some ob) name"
    if "canonicalName (lb_U L) name = Inr n" "n \<notin> set names"
    using Property_ical [OF kb that(1)] Property_ical [OF k that(1)] other [OF that(2)] by simp
  show "Property (lb_U L) (Some ob') n = written (lb_U L) (ob_kind ob) n (p ! i)"
    if i: "i < length p" "canonicalName (lb_U L) (po_name (p ! i)) = Inr n"
      "\<forall>j. i < j \<and> j < length p \<longrightarrow> canonicalName (lb_U L) (po_name (p ! j)) \<noteq> Inr n"
  proof -
    obtain xs ys where z: "zip names p = xs @ (n, p ! i) # ys" "n \<notin> fst ` set ys"
      using op_last [OF ck i] by blast
    have "canonicalName (lb_U L) n = Inr n" using ops_zip(2) [OF ck] z(1) by auto
    moreover have "gm_get ?ps n = op_props (lb_U L) n (p ! i)"
      unfolding z(1) by (rule get_prop_ops_last [OF L ops_zip(2) [OF ck, unfolded z(1)] z(2)])
    ultimately show ?thesis using Property_ical [OF kb] k by (simp add: op_props_def written_def comp_def)
  qed
qed

text \<open>
  C7. A patch touches what it names and nothing else: a patch that is rejected leaves the object as it
  was; one that is applied keeps the path, the ETag, the identity, the version and every property it
  does not name exactly as the server sent them, whether this build knows them or not, and for a
  property it names the last operation of the patch decides what the object carries.
\<close>

theorem patch_touches_only_named:
  assumes L: "lib_ok L" and ap: "Apply L (Some p) (Some ob) = (o', err)"
  shows "(\<forall>e. err = Some e \<longrightarrow> o' = Some ob) \<and>
    (err = None \<longrightarrow> (\<exists>ob'. o' = Some ob' \<and> ob_Path ob' = ob_Path ob \<and> ob_ETag ob' = ob_ETag ob \<and> ob_kind ob' = ob_kind ob \<and>
       ob_UID L (Some ob') = ob_UID L (Some ob) \<and> ob_Version L (Some ob') = ob_Version L (Some ob) \<and>
       (\<forall>name n. canonicalName (lb_U L) name = Inr n \<and> n \<notin> set (patch_Names (lb_U L) (Some p)) \<longrightarrow>
          Property (lb_U L) (Some ob') name = Property (lb_U L) (Some ob) name) \<and>
       (\<forall>i < length p. \<forall>n. canonicalName (lb_U L) (po_name (p ! i)) = Inr n \<and>
          (\<forall>j. i < j \<and> j < length p \<longrightarrow> canonicalName (lb_U L) (po_name (p ! j)) \<noteq> Inr n) \<longrightarrow>
          Property (lb_U L) (Some ob') n = written (lb_U L) (ob_kind ob) n (p ! i))))"
proof (cases "err = None")
  case False
  then show ?thesis using ap
    by (auto simp: Apply_def split: if_splits sum.splits option.splits ObjKind.splits)
next
  case err: True
  show ?thesis
  proof (cases "p = []")
    case True
    then have "o' = Some ob" using ap err by (simp add: Apply_def patch_IsEmpty_def)
    then show ?thesis using True err by auto
  next
    case False
    let ?U = "lb_U L"
    obtain names where names: "check_ops ?U p = Inr names" and
      how: "(\<exists>c. ob_kind ob = KindVCard \<and> ob_card ob = Some c \<and>
          o' = Some (ob\<lparr>ob_card := Some (fold (apply_card_op ?U) (zip names p) c)\<rparr>)) \<or>
        (\<exists>c. ob_kind ob = KindICal \<and> primaryComponent ?U (Some ob) = Some c \<and>
          o' = Some (ob\<lparr>ob_cal := map_option (with_primary ?U (fold (apply_prop_op L) (zip names p))) (ob_cal ob)\<rparr>))"
      using Apply_ok [OF ap [unfolded err] False] by blast
    have pn: "set (patch_Names ?U (Some p)) = set names" using patch_Names_checked [OF names] .
    from how show ?thesis
    proof (elim disjE exE conjE)
      fix c assume k: "ob_kind ob = KindVCard" "ob_card ob = Some c"
        and o': "o' = Some (ob\<lparr>ob_card := Some (fold (apply_card_op ?U) (zip names p) c)\<rparr>)"
      obtain ob' where ob': "o' = Some ob'" using o' by blast
      note pd = card_patched [OF L names k, of ob', OF o' [unfolded ob', THEN option.inject [THEN iffD1]]]
      have "ob_Path ob' = ob_Path ob" "ob_ETag ob' = ob_ETag ob" "ob_kind ob' = ob_kind ob" using o' ob' by simp_all
      then show ?thesis unfolding pn using err ob' pd by blast
    next
      fix c assume k: "ob_kind ob = KindICal" "primaryComponent ?U (Some ob) = Some c"
        and o': "o' = Some (ob\<lparr>ob_cal := map_option (with_primary ?U (fold (apply_prop_op L) (zip names p))) (ob_cal ob)\<rparr>)"
      obtain ob' where ob': "o' = Some ob'" using o' by blast
      note pd = ical_patched [OF L names k, of ob', OF o' [unfolded ob', THEN option.inject [THEN iffD1]]]
      have "ob_Path ob' = ob_Path ob" "ob_ETag ob' = ob_ETag ob" "ob_kind ob' = ob_kind ob" using o' ob' by simp_all
      then show ?thesis unfolding pn using err ob' pd by blast
    qed
  qed
qed

text \<open>A library of one card, on which the hypotheses hold.\<close>

definition demo_lib :: dav_lib where
  "demo_lib = \<lparr>lb_U = ascii_unicode, lb_decode_card = (\<lambda>_. None), lb_decode_cal = (\<lambda>_. None),
     lb_encode_card = (\<lambda>_. None), lb_encode_cal = (\<lambda>_. None),
     lb_card_Value = (\<lambda>c k. case gm_get c k of Some (Some f # _) \<Rightarrow> fd_Value f | _ \<Rightarrow> []),
     lb_SetValue = (\<lambda>k v c. gm_put k [Some \<lparr>fd_Value = v, fd_Params = [], fd_Group = []\<rparr>] c),
     lb_props_Get = (\<lambda>c k. case gm_get c k of Some (p # _) \<Rightarrow> Some p | _ \<Rightarrow> None),
     lb_props_Del = gm_del,
     lb_SetText = (\<lambda>k v c. gm_put k [\<lparr>pr_Name = k, pr_Value = v, pr_Params = []\<rparr>] c),
     lb_SetDateTime = (\<lambda>k v c. c), lb_Revision = (\<lambda>_. None),
     lb_params_Get = (\<lambda>m k. case gm_get m k of Some (x # _) \<Rightarrow> x | _ \<Rightarrow> []), lb_DateTime = (\<lambda>_ _. None),
     lb_DateTimeStart = (\<lambda>_ _. None), lb_DateTimeEnd = (\<lambda>_ _. None), lb_is_date = (\<lambda>_. False),
     lb_Events = (\<lambda>_. []), lb_RecurrenceSet = (\<lambda>_ _. None), lb_url_path = (\<lambda>_. None)\<rparr>"

lemma demo_lib_ok: "lib_ok demo_lib"
  by (simp add: lib_ok_def demo_lib_def)

definition demo_field :: "string \<Rightarrow> Field option" where
  "demo_field v = Some \<lparr>fd_Value = v, fd_Params = [], fd_Group = []\<rparr>"

definition demo_card :: Object where
  "demo_card = \<lparr>ob_Path = ''/a.vcf'', ob_ETag = ''1'', ob_kind = KindVCard,
     ob_card = Some [(''VERSION'', [demo_field ''3.0'']), (''UID'', [demo_field ''u1'']),
       (''X-KEEP'', [demo_field ''kept''])], ob_cal = None\<rparr>"

definition demo_patch :: "patchOp list" where
  "demo_patch = [\<lparr>po_name = ''NOTE'', po_remove = False, po_values = [Text ''hi'']\<rparr>]"

theorem patch_touches_only_named_witness:
  "\<exists>ob'. Apply demo_lib (Some demo_patch) (Some demo_card) = (Some ob', None) \<and>
     ob_UID demo_lib (Some ob') = ''u1'' \<and> Property ascii_unicode (Some ob') ''NOTE'' = [Text ''hi''] \<and>
     map va_Text (Property ascii_unicode (Some ob') ''X-KEEP'') = [''kept'']"
proof -
  have n: "canonicalName ascii_unicode ''NOTE'' = Inr ''NOTE''" "canonicalName ascii_unicode ''X-KEEP'' = Inr ''X-KEEP''"
    by (rule canonical_plain; simp add: name_byte_def)+
  have U: "lb_U demo_lib = ascii_unicode" by (simp add: demo_lib_def)
  have ck: "check_ops ascii_unicode demo_patch = Inr [''NOTE'']"
    by (simp add: demo_patch_def n(1) protectedProperties_def)
  have pn: "set (patch_Names ascii_unicode (Some demo_patch)) = {''NOTE''}" using patch_Names_checked [OF ck] by simp
  have ne: "demo_patch \<noteq> []" by (simp add: demo_patch_def)
  have k: "ob_kind demo_card = KindVCard" "ob_card demo_card = Some [(''VERSION'', [demo_field ''3.0'']),
    (''UID'', [demo_field ''u1'']), (''X-KEEP'', [demo_field ''kept''])]" by (simp_all add: demo_card_def)
  obtain ob' where a: "Apply demo_lib (Some demo_patch) (Some demo_card) = (Some ob', None)"
    using ne by (simp add: Apply_def patch_IsEmpty_def U k ck)
  have "ob_UID demo_lib (Some ob') = ob_UID demo_lib (Some demo_card) \<and>
    Property ascii_unicode (Some ob') ''X-KEEP'' = Property ascii_unicode (Some demo_card) ''X-KEEP'' \<and>
    Property ascii_unicode (Some ob') ''NOTE'' = written ascii_unicode KindVCard ''NOTE'' (demo_patch ! 0)"
    using patch_touches_only_named [OF demo_lib_ok a] n pn unfolding U k(1) by (auto simp: demo_patch_def)
  moreover have "ob_UID demo_lib (Some demo_card) = ''u1''"
    by (simp add: ob_UID_def k demo_lib_def demo_field_def)
  moreover have "map va_Text (Property ascii_unicode (Some demo_card) ''X-KEEP'') = [''kept'']"
    unfolding Property_card [OF k n(2)] by (simp add: demo_field_def valueFromField_def)
  moreover have "written ascii_unicode KindVCard ''NOTE'' (demo_patch ! 0) = [Text ''hi'']"
    by (simp add: written_def demo_patch_def valueFromField_def va_field_def Text_def rekey_def)
  ultimately show ?thesis using a by auto
qed

end
