(* ===== verification/ModelLoss.thy ===== *)
theory ModelLoss
  imports ModelObject Go_Format "HOL-Library.Product_Lexorder" "HOL-Library.Multiset"
begin

text \<open>
  \<open>internal/model/loss.go\<close> and \<open>diff.go\<close>: what a server did to an object that was not asked for, the
  registry that counts it per account, and the difference shown on the conflict screen. The clock of
  the registry is an argument of \<open>Record\<close>; the map of accounts holds the records their pointers
  point to, under the mutex the registry holds in every method.
\<close>

subsection \<open>Comparing what was sent with what was stored\<close>

definition volatileProperties :: "string list" where
  "volatileProperties = [''REV'', ''PRODID'', ''DTSTAMP'', ''LAST-MODIFIED'', ''SEQUENCE'']"

record PropertyLoss =
  Missing :: "string list"
  Reduced :: "string list"
  Changed :: "string list"

definition no_loss :: PropertyLoss where "no_loss = \<lparr>Missing = [], Reduced = [], Changed = []\<rparr>"

definition pl_Empty :: "PropertyLoss \<Rightarrow> bool" where
  "pl_Empty l \<longleftrightarrow> length (Missing l) = 0 \<and> length (Reduced l) = 0 \<and> length (Changed l) = 0"

definition pl_Names :: "PropertyLoss \<Rightarrow> string list" where
  "pl_Names l = sort_strings (distinct_loop (concat [Missing l, Reduced l, Changed l]) [] [])"

definition pl_String :: "PropertyLoss \<Rightarrow> string" where
  "pl_String l =
     (if pl_Empty l then []
      else ''the server returned the object '' @ Join '', ''
        ((if 0 < length (Missing l) then [''without '' @ Join '', '' (Missing l)] else []) @
         (if 0 < length (Reduced l) then [''with fewer '' @ Join '', '' (Reduced l)] else []) @
         (if 0 < length (Changed l) then [''with '' @ Join '', '' (Changed l) @ '' changed''] else [])))"

definition signature :: "Value \<Rightarrow> string" where
  "signature v =
     va_Group v @ ''|'' @
     concat (map (\<lambda>k. k @ ''='' @ Join '','' (sort_strings (gm_get0 (va_Params v) k)) @ '';'')
       (sort_strings (map fst (va_Params v)))) @
     ''|'' @ va_Text v"

definition signatures :: "Value list \<Rightarrow> string list" where
  "signatures values = sort_strings (map signature values)"

fun same_from :: "string list \<Rightarrow> string list \<Rightarrow> bool" where
  "same_from (w # ws) (g # gs) = (if w \<noteq> g then False else same_from ws gs)"
| "same_from _ _ = True"

definition sameSignatures :: "string list \<Rightarrow> string list \<Rightarrow> bool" where
  "sameSignatures want got = (if length want \<noteq> length got then False else same_from want got)"

definition compare_name :: "unicode \<Rightarrow> Object \<Rightarrow> Object \<Rightarrow> PropertyLoss \<Rightarrow> string \<Rightarrow> PropertyLoss" where
  "compare_name U sent stored loss name =
     (if name \<in> set volatileProperties then loss
      else
        (let want = signatures (Property U (Some sent) name);
             got = signatures (Property U (Some stored) name)
         in if length got = 0 then loss\<lparr>Missing := Missing loss @ [name]\<rparr>
            else if length got < length want then loss\<lparr>Reduced := Reduced loss @ [name]\<rparr>
            else if \<not> sameSignatures want got then loss\<lparr>Changed := Changed loss @ [name]\<rparr>
            else loss))"

definition Compare :: "unicode \<Rightarrow> Object option \<Rightarrow> Object option \<Rightarrow> model_error + PropertyLoss" where
  "Compare U sent stored =
     (case (sent, stored) of
        (Some a, Some b) \<Rightarrow>
          if ob_kind a \<noteq> ob_kind b then Inl ErrKindMismatch
          else Inr (foldl (compare_name U a b) no_loss (Names U (Some a)))
      | _ \<Rightarrow> Inl ErrMissingObject)"

subsection \<open>The registry of losses\<close>

definition systematicThreshold :: nat where "systematicThreshold = 2"

record lossState =
  ls_writes :: nat
  ls_lossyWrites :: nat
  ls_names :: "(string, nat) gomap"
  ls_firstSeen :: time
  ls_lastSeen :: time

type_synonym LossRegistry = "(string, lossState) gomap"

definition NewLossRegistry :: LossRegistry where "NewLossRegistry = []"

definition new_lossState :: lossState where
  "new_lossState = \<lparr>ls_writes = 0, ls_lossyWrites = 0, ls_names = [], ls_firstSeen = 0, ls_lastSeen = 0\<rparr>"

definition gm_count :: "(string, nat) gomap \<Rightarrow> string \<Rightarrow> nat" where
  "gm_count m k = (case gm_get m k of None \<Rightarrow> 0 | Some n \<Rightarrow> n)"

fun count_names :: "string list \<Rightarrow> (string, nat) gomap \<Rightarrow> bool \<Rightarrow> (string, nat) gomap \<times> bool" where
  "count_names [] m novel = (m, novel)"
| "count_names (name # names) m novel =
     (let novel = (if gm_count m name = 0 then True else novel)
      in count_names names (gm_put name (gm_count m name + 1) m) novel)"

definition Record :: "string \<Rightarrow> PropertyLoss \<Rightarrow> time \<Rightarrow> LossRegistry option \<Rightarrow> LossRegistry option \<times> bool" where
  "Record accountID loss now reg =
     (case reg of
        None \<Rightarrow> (None, False)
      | Some r \<Rightarrow>
          (let st = (case gm_get r accountID of None \<Rightarrow> new_lossState | Some st \<Rightarrow> st);
               st = st\<lparr>ls_writes := ls_writes st + 1\<rparr>
           in if pl_Empty loss then (Some (gm_put accountID st r), False)
              else
                (let st = (if is_zero (ls_firstSeen st) then st\<lparr>ls_firstSeen := now\<rparr> else st);
                     st = st\<lparr>ls_lastSeen := now, ls_lossyWrites := ls_lossyWrites st + 1\<rparr>;
                     (names, novel) = count_names (pl_Names loss) (ls_names st) False
                 in (Some (gm_put accountID (st\<lparr>ls_names := names\<rparr>) r), novel))))"

record LossCount =
  lc_Name :: string
  lc_Writes :: nat
  lc_Systematic :: bool

record LossReport =
  lr_Writes :: nat
  lr_LossyWrites :: nat
  lr_Properties :: "LossCount list"
  lr_FirstSeen :: time
  lr_LastSeen :: time

definition no_report :: LossReport where
  "no_report = \<lparr>lr_Writes = 0, lr_LossyWrites = 0, lr_Properties = [], lr_FirstSeen = 0, lr_LastSeen = 0\<rparr>"

text \<open>
  \<open>sort.Slice\<close> by more writes first and then by name: the names of a report are distinct, so there is
  one sorted order, whatever order the map was ranged over in.
\<close>

definition count_key :: "LossCount \<Rightarrow> int \<times> string" where
  "count_key c = (- int (lc_Writes c), lc_Name c)"

definition Report :: "string \<Rightarrow> LossRegistry option \<Rightarrow> LossReport" where
  "Report accountID reg =
     (case reg of
        None \<Rightarrow> no_report
      | Some r \<Rightarrow>
          (case gm_get r accountID of
             None \<Rightarrow> no_report
           | Some st \<Rightarrow>
               \<lparr>lr_Writes = ls_writes st, lr_LossyWrites = ls_lossyWrites st,
                lr_Properties = sort_key count_key (map (\<lambda>(name, count).
                   \<lparr>lc_Name = name, lc_Writes = count, lc_Systematic = systematicThreshold \<le> count\<rparr>) (ls_names st)),
                lr_FirstSeen = ls_firstSeen st, lr_LastSeen = ls_lastSeen st\<rparr>))"

definition Forget :: "string \<Rightarrow> LossRegistry option \<Rightarrow> LossRegistry option" where
  "Forget accountID reg = map_option (gm_del accountID) reg"

definition lr_Empty :: "LossReport \<Rightarrow> bool" where "lr_Empty r \<longleftrightarrow> length (lr_Properties r) = 0"

definition lr_Summary :: "LossReport \<Rightarrow> string" where
  "lr_Summary r =
     (if lr_Empty r then []
      else
        (let names = map lc_Name (lr_Properties r);
             systematic = map lc_Name (filter lc_Systematic (lr_Properties r));
             msg = ''this server dropped '' @ Join '', '' names @ '' on '' @ dec_nat (lr_LossyWrites r) @
               '' of '' @ dec_nat (lr_Writes r) @ '' saves''
         in if 0 < length systematic then msg @ ''; '' @ Join '', '' systematic @ '' go every time'' else msg))"

subsection \<open>The difference of two versions\<close>

datatype DiffKind = DiffOnlyLocal | DiffOnlyRemote | DiffChanged

record DiffLine =
  dl_Name :: string
  dl_Kind :: DiffKind
  dl_Local :: string
  dl_Remote :: string

text \<open>The bytes of the ellipsis and of the separator of values.\<close>

definition ellipsis :: string where "ellipsis = [CHR 0xE2, CHR 0x80, CHR 0xA6]"
definition middle_dot :: string where "middle_dot = [CHR '' '', CHR 0xC2, CHR 0xB7, CHR '' '']"

definition truncatePhoto :: "string \<Rightarrow> string" where
  "truncatePhoto txt =
     (if txt = [] then ''(empty)''
      else if HasPrefix txt ''http://'' \<or> HasPrefix txt ''https://'' then txt
      else if HasPrefix txt ''data:'' then
        (case Index_byte txt CHR '','' of
           Some i \<Rightarrow>
             if 0 < i \<and> i < 40 then take i txt @ '','' @ ellipsis @ ''('' @ dec_nat (length txt - i - 1) @ '' bytes'' @ '')''
             else ''data:'' @ ellipsis @ ''('' @ dec_nat (length txt) @ '' bytes'' @ '')''
         | None \<Rightarrow> ''data:'' @ ellipsis @ ''('' @ dec_nat (length txt) @ '' bytes'' @ '')'')
      else ''inline'' @ ellipsis @ ''('' @ dec_nat (length txt) @ '' bytes'' @ '')'')"

definition displayValue :: "string \<Rightarrow> Value \<Rightarrow> string" where
  "displayValue name v =
     (let txt = TrimSpace (va_Text v)
      in if name = ''PHOTO'' then truncatePhoto txt
         else if 200 < length txt then take 197 txt @ ellipsis
         else txt)"

definition displayValues :: "string \<Rightarrow> Value list \<Rightarrow> string" where
  "displayValues name values =
     (if length values = 0 then [] else Join middle_dot (map (displayValue name) values))"

definition diff_line :: "unicode \<Rightarrow> Object option \<Rightarrow> Object option \<Rightarrow> string \<Rightarrow> DiffLine list" where
  "diff_line U local remote name =
     (let localVals = Property U local name;
          remoteVals = Property U remote name
      in if sameSignatures (signatures localVals) (signatures remoteVals) then []
         else [\<lparr>dl_Name = name,
                dl_Kind = (if length localVals = 0 then DiffOnlyRemote
                           else if length remoteVals = 0 then DiffOnlyLocal else DiffChanged),
                dl_Local = displayValues name localVals, dl_Remote = displayValues name remoteVals\<rparr>])"

definition Diff :: "unicode \<Rightarrow> Object option \<Rightarrow> Object option \<Rightarrow> model_error + DiffLine list" where
  "Diff U local remote =
     (if local = None \<and> remote = None then Inl ErrMissingObject
      else
        (let ordered = sort_strings (remdups (filter (\<lambda>n. n \<notin> set volatileProperties) (Names U local @ Names U remote)))
         in Inr (concat (map (diff_line U local remote) ordered))))"

subsection \<open>Lemmas\<close>

lemma same_from_eq: "length ws = length gs \<Longrightarrow> same_from ws gs \<longleftrightarrow> ws = gs"
  by (induction ws gs rule: list_induct2) auto

lemma sameSignatures_eq [simp]: "sameSignatures ws gs \<longleftrightarrow> ws = gs"
  by (auto simp: sameSignatures_def same_from_eq)

lemma signatures_mset: "signatures vs = signatures ws \<longleftrightarrow> mset (map signature vs) = mset (map signature ws)"
  by (metis signatures_def sort_strings_def mset_sort properties_for_sort sorted_sort)

lemma length_signatures [simp]: "length (signatures vs) = length vs"
  by (simp add: signatures_def sort_strings_def)

lemma signatures_Nil [simp]: "signatures vs = [] \<longleftrightarrow> vs = []"
  by (metis length_0_conv length_signatures)

text \<open>How a property of the sent object came back.\<close>

definition gone :: "unicode \<Rightarrow> Object \<Rightarrow> Object \<Rightarrow> string \<Rightarrow> bool" where
  "gone U a b n \<longleftrightarrow> n \<notin> set volatileProperties \<and> Property U (Some b) n = []"

definition fewer :: "unicode \<Rightarrow> Object \<Rightarrow> Object \<Rightarrow> string \<Rightarrow> bool" where
  "fewer U a b n \<longleftrightarrow> n \<notin> set volatileProperties \<and> Property U (Some b) n \<noteq> [] \<and>
     length (Property U (Some b) n) < length (Property U (Some a) n)"

definition differs :: "unicode \<Rightarrow> Object \<Rightarrow> Object \<Rightarrow> string \<Rightarrow> bool" where
  "differs U a b n \<longleftrightarrow> n \<notin> set volatileProperties \<and> Property U (Some b) n \<noteq> [] \<and>
     length (Property U (Some a) n) \<le> length (Property U (Some b) n) \<and>
     mset (map signature (Property U (Some a) n)) \<noteq> mset (map signature (Property U (Some b) n))"

lemma compare_loop:
  "foldl (compare_name U a b) l names =
     \<lparr>Missing = Missing l @ filter (gone U a b) names, Reduced = Reduced l @ filter (fewer U a b) names,
      Changed = Changed l @ filter (differs U a b) names\<rparr>"
  by (induction names arbitrary: l)
     (auto simp: compare_name_def Let_def gone_def fewer_def differs_def signatures_mset)

lemma distinct_sort_key: "distinct (map f xs) \<Longrightarrow> distinct (map f (sort_key k xs))"
proof -
  have "mset (map f (sort_key k xs)) = mset (map f xs)" by (simp only: mset_map mset_sort)
  then show "distinct (map f xs) \<Longrightarrow> distinct (map f (sort_key k xs))" using mset_eq_imp_distinct_iff by blast
qed

lemma no_counts: "{g n k |n k. k = (f n :: nat) \<and> 0 < k} = {} \<longleftrightarrow> (\<forall>n. \<not> 0 < f n)"
  by auto

lemma Compare_Inr:
  "Compare U (Some a) (Some b) = Inr loss \<longleftrightarrow> ob_kind a = ob_kind b \<and>
     loss = \<lparr>Missing = filter (gone U a b) (Names U (Some a)), Reduced = filter (fewer U a b) (Names U (Some a)),
       Changed = filter (differs U a b) (Names U (Some a))\<rparr>"
  by (auto simp: Compare_def compare_loop no_loss_def)

lemma set_pl_Names: "set (pl_Names l) = set (Missing l) \<union> set (Reduced l) \<union> set (Changed l)"
  by (auto simp: pl_Names_def sort_strings_def distinct_loop_set)

lemma distinct_pl_Names [simp]: "distinct (pl_Names l)"
  by (simp add: pl_Names_def sort_strings_def distinct_loop_distinct)

lemma pl_Empty_Names: "pl_Empty l \<longleftrightarrow> pl_Names l = []"
proof -
  have "pl_Empty l \<longleftrightarrow> set (pl_Names l) = {}" by (simp add: pl_Empty_def set_pl_Names)
  then show ?thesis by (simp only: set_empty)
qed

text \<open>One write counted, name by name.\<close>

lemma count_names:
  "distinct ns \<Longrightarrow> count_names ns m novel = (m', novel') \<Longrightarrow>
     (\<forall>n. gm_get m' n = (if n \<in> set ns then Some (gm_count m n + 1) else gm_get m n)) \<and>
     (novel' \<longleftrightarrow> novel \<or> (\<exists>n \<in> set ns. gm_count m n = 0)) \<and> (gm_wf m \<longrightarrow> gm_wf m')"
proof (induction ns arbitrary: m novel)
  case (Cons n ns)
  let ?m = "gm_put n (gm_count m n + 1) m"
  have same: "gm_count ?m k = gm_count m k" if "k \<in> set ns" for k
    using Cons.prems(1) that by (auto simp: gm_count_def)
  have "count_names ns ?m (if gm_count m n = 0 then True else novel) = (m', novel')"
    using Cons.prems(2) by (simp add: Let_def)
  note ih = Cons.IH [OF _ this]
  show ?case using ih Cons.prems(1) same by (auto simp: split: if_splits)
qed auto

text \<open>What was recorded for an account since it was last forgotten.\<close>

datatype loss_event = EvRecord string PropertyLoss time | EvForget string

fun run_event :: "LossRegistry option \<Rightarrow> loss_event \<Rightarrow> LossRegistry option" where
  "run_event r (EvRecord a l t) = fst (Record a l t r)"
| "run_event r (EvForget a) = Forget a r"

definition run_events :: "loss_event list \<Rightarrow> LossRegistry option" where
  "run_events evs = foldl run_event (Some NewLossRegistry) evs"

fun history_step :: "string \<Rightarrow> PropertyLoss list \<Rightarrow> loss_event \<Rightarrow> PropertyLoss list" where
  "history_step acct h (EvRecord a l t) = (if a = acct then h @ [l] else h)"
| "history_step acct h (EvForget a) = (if a = acct then [] else h)"

definition history :: "string \<Rightarrow> loss_event list \<Rightarrow> PropertyLoss list" where
  "history acct evs = foldl (history_step acct) [] evs"

definition times_lost :: "string \<Rightarrow> PropertyLoss list \<Rightarrow> nat" where
  "times_lost n h = length (filter (\<lambda>l. n \<in> set (pl_Names l)) h)"

definition state_counts :: "lossState option \<Rightarrow> PropertyLoss list \<Rightarrow> bool" where
  "state_counts st h \<longleftrightarrow>
     (case st of
        None \<Rightarrow> h = []
      | Some st \<Rightarrow> ls_writes st = length h \<and> ls_lossyWrites st = length (filter (\<lambda>l. \<not> pl_Empty l) h) \<and>
          gm_wf (ls_names st) \<and>
          (\<forall>n. gm_get (ls_names st) n = (if times_lost n h = 0 then None else Some (times_lost n h))))"

lemma times_lost_snoc: "times_lost n (h @ [l]) = times_lost n h + (if n \<in> set (pl_Names l) then 1 else 0)"
  by (simp add: times_lost_def)

lemma Record_step:
  assumes "state_counts (gm_get r acct) h" and "Record acct l t (Some r) = (r', novel)"
  shows "\<exists>rr. r' = Some rr \<and> state_counts (gm_get rr acct) (h @ [l]) \<and> (\<forall>a. a \<noteq> acct \<longrightarrow> gm_get rr a = gm_get r a) \<and>
    (novel \<longleftrightarrow> (\<exists>n \<in> set (pl_Names l). times_lost n h = 0))"
proof -
  define st where "st = (case gm_get r acct of None \<Rightarrow> new_lossState | Some st \<Rightarrow> st)"
  have st: "ls_writes st = length h" "ls_lossyWrites st = length (filter (\<lambda>l. \<not> pl_Empty l) h)" "gm_wf (ls_names st)"
    "\<And>n. gm_get (ls_names st) n = (if times_lost n h = 0 then None else Some (times_lost n h))"
    using assms(1) by (auto simp: state_counts_def st_def new_lossState_def times_lost_def split: option.splits)
  have c: "gm_count (ls_names st) n = times_lost n h" for n by (simp add: gm_count_def st(4))
  show ?thesis
  proof (cases "pl_Empty l")
    case True
    then have "pl_Names l = []" by (simp add: pl_Empty_Names)
    then show ?thesis using assms(2) st True
      by (auto simp: Record_def Let_def st_def [symmetric] state_counts_def times_lost_def)
  next
    case False
    obtain names nov where cn: "count_names (pl_Names l) (ls_names st) False = (names, nov)" by fastforce
    note k = count_names [OF distinct_pl_Names cn]
    let ?t = "\<lambda>f. st\<lparr>ls_writes := ls_writes st + 1, ls_firstSeen := f, ls_lastSeen := t,
      ls_lossyWrites := ls_lossyWrites st + 1, ls_names := names\<rparr>"
    have ok: "state_counts (Some (?t f)) (h @ [l])" for f
      using st k c False by (auto simp: state_counts_def times_lost_snoc)
    have "\<exists>f. (r', novel) = (Some (gm_put acct (?t f) r), nov)"
      using assms(2) False cn
      by (cases "is_zero (ls_firstSeen st)") (auto simp: Record_def Let_def st_def [symmetric] intro: exI [of _ "ls_firstSeen st"])
    then obtain f where f: "r' = Some (gm_put acct (?t f) r)" "novel = nov" by blast
    show ?thesis using ok k c by (intro exI [of _ "gm_put acct (?t f) r"]) (simp add: f)
  qed
qed

lemma run_events_counts:
  "\<exists>r. run_events evs = Some r \<and> (\<forall>acct. state_counts (gm_get r acct) (history acct evs))"
proof (induction evs rule: rev_induct)
  case Nil
  then show ?case by (simp add: run_events_def history_def NewLossRegistry_def state_counts_def)
next
  case (snoc e evs)
  then obtain r where r: "run_events evs = Some r" "\<And>acct. state_counts (gm_get r acct) (history acct evs)" by blast
  have run: "run_events (evs @ [e]) = run_event (Some r) e" using r(1) by (simp add: run_events_def)
  have hist: "history acct (evs @ [e]) = history_step acct (history acct evs) e" for acct by (simp add: history_def)
  show ?case
  proof (cases e)
    case (EvRecord a l t)
    obtain r' nov where R: "Record a l t (Some r) = (r', nov)" by fastforce
    obtain rr where rr: "r' = Some rr" "state_counts (gm_get rr a) (history a evs @ [l])" "\<And>x. x \<noteq> a \<Longrightarrow> gm_get rr x = gm_get r x"
      using Record_step [OF r(2) R] by blast
    have "state_counts (gm_get rr x) (history x (evs @ [e]))" for x
      using rr(2,3) r(2) EvRecord by (cases "x = a") (simp_all add: hist [unfolded EvRecord])
    then show ?thesis using rr(1) R by (simp add: run) (simp add: EvRecord)
  next
    case (EvForget a)
    have "state_counts (gm_get (gm_del a r) x) (history x (evs @ [e]))" for x
      using r(2) by (simp add: hist [unfolded EvForget] EvForget state_counts_def)
    moreover have "run_events (evs @ [e]) = Some (gm_del a r)" unfolding run by (simp add: EvForget Forget_def)
    ultimately show ?thesis by blast
  qed
qed

subsection \<open>Properties\<close>


text \<open>
  A property whose name the readers reject is listed, but no instance of it is ever read, so it is
  reported as missing even when the server returned the very same object.
\<close>

lemma odd_name_always_lost:
  assumes "n \<in> set (Names U (Some a))" and "canonicalName U n = Inl e" and "n \<notin> set volatileProperties"
  shows "\<exists>loss. Compare U (Some a) (Some a) = Inr loss \<and> n \<in> set (Missing loss)"
  using assms by (auto simp: Compare_Inr gone_def Property_def)

text \<open>Two parameter values and one value with a comma in it have the same signature.\<close>

lemma signature_joins_values:
  "signature \<lparr>va_Text = s, va_Params = [(''TYPE'', [''home'', ''work''])], va_Group = []\<rparr> =
   signature \<lparr>va_Text = s, va_Params = [(''TYPE'', [''home,work''])], va_Group = []\<rparr>"
  by (simp add: signature_def sort_strings_def gm_get0_def)

text \<open>
  C28. The registry of losses is the history of the account: whatever was recorded and forgotten
  before, for this and for other accounts, the report counts the writes recorded since the account was
  last forgotten, how many of them lost something, and for each property how many of them lost it, a
  property being called systematic from the second time on; and a write is announced then and there
  exactly when it loses a property none of those writes had lost.
\<close>

theorem registry_is_the_history:
  "\<exists>r. run_events evs = Some r \<and>
     (let h = history acct evs; report = Report acct (Some r) in
      lr_Writes report = length h \<and> lr_LossyWrites report = length (filter (\<lambda>l. \<not> pl_Empty l) h) \<and>
      set (lr_Properties report) = {\<lparr>lc_Name = n, lc_Writes = k, lc_Systematic = (2 \<le> k)\<rparr> |n k. k = times_lost n h \<and> 0 < k} \<and>
      distinct (map lc_Name (lr_Properties report)) \<and> sorted (map count_key (lr_Properties report)) \<and>
      (lr_Empty report \<longleftrightarrow> list_all pl_Empty h) \<and>
      (\<forall>loss t. snd (Record acct loss t (Some r)) \<longleftrightarrow> (\<exists>n \<in> set (pl_Names loss). times_lost n h = 0)))"
proof -
  obtain r where r: "run_events evs = Some r" "state_counts (gm_get r acct) (history acct evs)"
    using run_events_counts by blast
  let ?h = "history acct evs" and ?report = "Report acct (Some r)"
  have novel: "snd (Record acct loss t (Some r)) \<longleftrightarrow> (\<exists>n \<in> set (pl_Names loss). times_lost n ?h = 0)" for loss t
    using Record_step [OF r(2), of loss t] by (metis prod.collapse)
  have some_lost: "(\<forall>l \<in> set ?h. pl_Empty l) \<longleftrightarrow> (\<forall>n. times_lost n ?h = 0)"
  proof -
    have "pl_Empty l \<longleftrightarrow> (\<forall>n. n \<notin> set (pl_Names l))" for l unfolding pl_Empty_Names by (cases "pl_Names l") auto
    then have "(\<forall>l \<in> set ?h. pl_Empty l) \<longleftrightarrow> (\<forall>l \<in> set ?h. \<forall>n. n \<notin> set (pl_Names l))" by blast
    then show ?thesis unfolding times_lost_def length_0_conv filter_empty_conv by blast
  qed
  have main: "lr_Writes ?report = length ?h \<and> lr_LossyWrites ?report = length (filter (\<lambda>l. \<not> pl_Empty l) ?h) \<and>
      set (lr_Properties ?report) = {\<lparr>lc_Name = n, lc_Writes = k, lc_Systematic = (2 \<le> k)\<rparr> |n k. k = times_lost n ?h \<and> 0 < k} \<and>
      distinct (map lc_Name (lr_Properties ?report)) \<and> sorted (map count_key (lr_Properties ?report))"
  proof (cases "gm_get r acct")
    case None
    then show ?thesis using r(2) by (simp add: Report_def no_report_def state_counts_def times_lost_def)
  next
    case (Some st)
    have st: "ls_writes st = length ?h" "ls_lossyWrites st = length (filter (\<lambda>l. \<not> pl_Empty l) ?h)" "gm_wf (ls_names st)"
      "\<And>n. gm_get (ls_names st) n = (if times_lost n ?h = 0 then None else Some (times_lost n ?h))"
      using r(2) Some by (simp_all add: state_counts_def)
    let ?f = "\<lambda>(name, count). \<lparr>lc_Name = name, lc_Writes = count, lc_Systematic = systematicThreshold \<le> count\<rparr>"
    have rep: "?report = \<lparr>lr_Writes = ls_writes st, lr_LossyWrites = ls_lossyWrites st,
      lr_Properties = sort_key count_key (map ?f (ls_names st)), lr_FirstSeen = ls_firstSeen st, lr_LastSeen = ls_lastSeen st\<rparr>"
      using Some by (simp add: Report_def)
    have mem: "(n, k) \<in> set (ls_names st) \<longleftrightarrow> k = times_lost n ?h \<and> 0 < k" for n k
      using gm_get_in [OF st(3), of n k] st(4) [of n] by (auto split: if_splits)
    let ?ps = "sort_key count_key (map ?f (ls_names st))"
    have set: "set ?ps = {\<lparr>lc_Name = n, lc_Writes = k, lc_Systematic = (2 \<le> k)\<rparr> |n k. k = times_lost n ?h \<and> 0 < k}"
      unfolding mem [symmetric] by (auto simp: systematicThreshold_def image_iff split: prod.splits)
    have names: "distinct (map lc_Name ?ps)"
    proof (rule distinct_sort_key)
      have "map lc_Name (map ?f (ls_names st)) = map fst (ls_names st)" by (simp add: case_prod_beta)
      then show "distinct (map lc_Name (map ?f (ls_names st)))" using st(3) by (simp only: gm_wf_def)
    qed
    have "sorted (map count_key ?ps)" by (rule sorted_sort_key)
    with set names show ?thesis unfolding rep LossReport.simps st(1,2) by (intro conjI) (assumption | rule refl)+
  qed
  have "lr_Empty ?report \<longleftrightarrow> (\<forall>l \<in> set ?h. pl_Empty l)"
  proof -
    have "lr_Empty ?report \<longleftrightarrow> set (lr_Properties ?report) = {}" by (simp add: lr_Empty_def)
    also have "\<dots> \<longleftrightarrow> (\<forall>n. \<not> 0 < times_lost n ?h)"
      unfolding main [THEN conjunct2, THEN conjunct2, THEN conjunct1] by (rule no_counts)
    finally show ?thesis using some_lost by simp
  qed
  then show ?thesis unfolding Let_def list_all_iff using r(1) main novel
    by (intro exI [of _ r] conjI allI) (assumption | rule novel | (elim conjE, assumption))+
qed


end
