(* ===== verification/MergeNormalize.thy ===== *)
theory MergeNormalize
  imports Go_Format
begin

text \<open>
  \<open>internal/merge/normalize.go\<close>: the forms in which telephone numbers, names and birthdays of two records
  are compared, and the edit distance of two names over two rows, with the proof that it is the least
  number of insertions, deletions and replacements.
\<close>

subsection \<open>Telephone numbers\<close>

definition phoneKeyDigits :: nat where "phoneKeyDigits = 9"
definition phoneMinDigits :: nat where "phoneMinDigits = 5"

definition is_digit :: "rune \<Rightarrow> bool" where "is_digit r \<longleftrightarrow> 48 \<le> r \<and> r \<le> 57"

definition digits_of :: "string \<Rightarrow> string" where
  "digits_of s = concat (map encode_rune (filter is_digit (runes s)))"

definition phoneDigits :: "unicode \<Rightarrow> string \<Rightarrow> string \<times> bool" where
  "phoneDigits U value =
     (let s = TrimSpace value
      in if s = [] then ([], False)
         else
           (let s = (case Index_byte s CHR '':'' of
                       Some i \<Rightarrow> if ToLower U (take i s) = ''tel'' then drop (i + 1) s else s
                     | None \<Rightarrow> s);
                s = (case Index_byte s CHR '';'' of Some i \<Rightarrow> take i s | None \<Rightarrow> s);
                s = TrimSpace s;
                international = HasPrefix s ''+'';
                digits = digits_of s
            in if \<not> international \<and> HasPrefix digits ''00'' \<and> 2 < length digits then (drop 2 digits, True)
               else (digits, international)))"

definition NormalizePhone :: "unicode \<Rightarrow> string \<Rightarrow> string" where
  "NormalizePhone U value =
     (case phoneDigits U value of (digits, international) \<Rightarrow>
        if digits = [] then [] else if international then ''+'' @ digits else digits)"

definition PhoneKey :: "unicode \<Rightarrow> string \<Rightarrow> string" where
  "PhoneKey U value =
     (case phoneDigits U value of (digits, _) \<Rightarrow>
        if length digits < phoneMinDigits then []
        else if length digits \<le> phoneKeyDigits then digits
        else drop (length digits - phoneKeyDigits) digits)"

subsection \<open>Names and birthdays\<close>

definition NormalizeName :: "unicode \<Rightarrow> string \<Rightarrow> string" where
  "NormalizeName U value =
     (let b = concat (map (\<lambda>r. if IsLetter U r \<or> IsDigit U r then encode_rune (rune_lower U r) else '' '') (runes value));
          words = Fields b
      in if length words = 0 then [] else Join '' '' (sort words))"

fun birthday_loop :: "rune list \<Rightarrow> string \<Rightarrow> string" where
  "birthday_loop [] b = b"
| "birthday_loop (r # rs) b =
     (let b = (if is_digit r then b @ encode_rune r else b)
      in if length b = 8 then b else birthday_loop rs b)"

definition BirthdayKey :: "string \<Rightarrow> string" where
  "BirthdayKey value = birthday_loop (runes value) []"

definition birthdayMatch :: "string \<Rightarrow> string \<Rightarrow> bool" where
  "birthdayMatch a b =
     (if length a < 4 \<or> length b < 4 then False
      else if a = b then True
      else (let (a, b) = (if length b < length a then (b, a) else (a, b)) in HasSuffix b a))"

subsection \<open>Edit distance\<close>

definition min3 :: "nat \<Rightarrow> nat \<Rightarrow> nat \<Rightarrow> nat" where
  "min3 a b c =
     (let a = (if b < a then b else a);
          a = (if c < a then c else a)
      in a)"

definition lev_cell :: "rune list \<Rightarrow> rune list \<Rightarrow> nat \<Rightarrow> nat list \<Rightarrow> nat \<Rightarrow> nat list \<Rightarrow> nat list" where
  "lev_cell a b i previous j current =
     (let cost = (if a ! (i - 1) = b ! (j - 1) then 0 else 1)
      in current[j := min3 (current ! (j - 1) + 1) (previous ! j + 1) (previous ! (j - 1) + cost)])"

text \<open>One round of the outer loop; the rows are swapped at its end.\<close>

definition lev_row :: "rune list \<Rightarrow> rune list \<Rightarrow> nat \<Rightarrow> nat list \<times> nat list \<Rightarrow> nat list \<times> nat list" where
  "lev_row a b i = (\<lambda>(previous, current).
     (fold (lev_cell a b i previous) [1 ..< length b + 1] (current[0 := i]), previous))"

definition levenshtein :: "rune list \<Rightarrow> rune list \<Rightarrow> nat" where
  "levenshtein a b =
     (if length a = 0 then length b
      else if length b = 0 then length a
      else fst (fold (lev_row a b) [1 ..< length a + 1] ([0 ..< length b + 1], replicate (length b + 1) 0)) ! length b)"

definition similarity :: "string \<Rightarrow> string \<Rightarrow> nat" where
  "similarity a b =
     (if a = [] \<or> b = [] then 0
      else if a = b then 100
      else
        (let distance = levenshtein (runes a) (runes b);
             longest = length (runes a);
             longest = (if longest < length (runes b) then length (runes b) else longest)
         in if longest = 0 then 0 else 100 - (distance * 100 div longest)))"

subsection \<open>The distance is the least number of edits\<close>

lemma min3_min: "min3 a b c = min a (min b c)"
  by (simp add: min3_def Let_def min_def)

text \<open>One edit, anywhere in the list.\<close>

inductive edit1 :: "'a list \<Rightarrow> 'a list \<Rightarrow> bool" where
  insert: "edit1 (us @ vs) (us @ x # vs)"
| delete: "edit1 (us @ x # vs) (us @ vs)"
| replace: "edit1 (us @ x # vs) (us @ y # vs)"

text \<open>The textbook recursion.\<close>

fun ed :: "'a list \<Rightarrow> 'a list \<Rightarrow> nat" where
  "ed [] ys = length ys"
| "ed xs [] = length xs"
| "ed (x # xs) (y # ys) = min (ed (x # xs) ys + 1) (min (ed xs (y # ys) + 1) (ed xs ys + (if x = y then 0 else 1)))"

lemma ed_Nil2 [simp]: "ed xs [] = length xs"
  by (cases xs) simp_all

lemma ed_refl [simp]: "ed xs xs = 0"
  by (induction xs) simp_all

lemma ed_Cons_le: "ed (x # xs) ys \<le> ed xs ys + 1"
  by (cases ys) simp_all

lemma ed_Cons2_le: "ed xs (y # ys) \<le> ed xs ys + 1"
  by (cases xs) simp_all

lemma ed_le_Cons: "ed xs ys \<le> ed (x # xs) ys + 1"
proof (induction ys)
  case (Cons y ys)
  then show ?case using ed_Cons2_le [of xs y ys] by simp
qed simp

lemma ed_replace_le: "ed (x # xs) zs \<le> ed (y # xs) zs + 1"
  by (induction zs) auto

lemma ed_context:
  assumes "\<And>zs. ed ps zs \<le> ed qs zs + 1"
  shows "ed (u # ps) zs \<le> ed (u # qs) zs + 1"
proof (induction zs)
  case Nil
  then show ?case using assms [of "[]"] by simp
next
  case (Cons z zs)
  then show ?case using assms [of "z # zs"] assms [of zs] by auto
qed

lemma ed_context_append:
  assumes "\<And>zs. ed ps zs \<le> ed qs zs + 1"
  shows "ed (us @ ps) zs \<le> ed (us @ qs) zs + 1"
proof (induction us arbitrary: zs)
  case Nil
  then show ?case using assms by (simp only: append_Nil)
next
  case (Cons u us)
  then show ?case using ed_context [of "us @ ps" "us @ qs"] by simp
qed

lemma ed_edit1: "edit1 xs ys \<Longrightarrow> ed xs zs \<le> ed ys zs + 1"
  by (induction rule: edit1.induct) (intro ed_context_append ed_le_Cons ed_Cons_le ed_replace_le)+

lemma ed_le_edits: "(edit1 ^^ k) xs ys \<Longrightarrow> ed xs ys \<le> k"
proof (induction k arbitrary: xs)
  case (Suc k)
  then obtain zs where "edit1 xs zs" "(edit1 ^^ k) zs ys" by (metis relpowp_Suc_D2)
  then show ?case using Suc.IH [of zs] ed_edit1 [of xs zs ys] by linarith
qed simp

lemma edits_Cons: "(edit1 ^^ k) xs ys \<Longrightarrow> (edit1 ^^ k) (x # xs) (x # ys)"
proof (induction k arbitrary: xs)
  case (Suc k)
  then obtain zs where z: "edit1 xs zs" "(edit1 ^^ k) zs ys" by (metis relpowp_Suc_D2)
  have "edit1 (x # xs) (x # zs)" using z(1)
    by cases (metis append_Cons edit1.intros(1), metis append_Cons edit1.intros(2), metis append_Cons edit1.intros(3))
  then show ?case using Suc.IH [OF z(2)] by (metis relpowp_Suc_I2)
qed simp

lemma edits_ed: "(edit1 ^^ ed xs ys) xs ys"
proof (induction xs ys rule: ed.induct)
  case (1 ys)
  show ?case
  proof (induction ys)
    case (Cons y ys)
    have "edit1 ys (y # ys)" using edit1.insert [of "[]" ys y] by simp
    then show ?case using Cons by (simp, metis relcomppI)
  qed simp
next
  case (2 x xs)
  have "(edit1 ^^ length xs) xs []" for xs :: "'a list"
  proof (induction xs)
    case (Cons x xs)
    have "edit1 (x # xs) xs" using edit1.delete [of "[]" x xs] by simp
    then show ?case using Cons by (simp only: list.size) (metis Suc_eq_plus1 add_0 relpowp_Suc_I2)
  qed simp
  then show ?case by (metis ed.simps(2))
next
  case (3 x xs y ys)
  have ins: "(edit1 ^^ (ed (x # xs) ys + 1)) (x # xs) (y # ys)"
    using 3(1) edit1.insert [of "[]" ys y] by (metis Suc_eq_plus1 append_Nil relpowp_Suc_I)
  have del: "(edit1 ^^ (ed xs (y # ys) + 1)) (x # xs) (y # ys)"
    using 3(2) edit1.delete [of "[]" x xs] by (metis Suc_eq_plus1 append_Nil relpowp_Suc_I2)
  have rep: "(edit1 ^^ (ed xs ys + (if x = y then 0 else 1))) (x # xs) (y # ys)"
  proof (cases "x = y")
    case True
    then show ?thesis using edits_Cons [OF 3(3)] by simp
  next
    case False
    have "edit1 (x # xs) (y # xs)" using edit1.replace [of "[]" x xs y] by simp
    then show ?thesis using edits_Cons [OF 3(3), of y] False by (simp only: if_False) (metis Suc_eq_plus1 relpowp_Suc_I2)
  qed
  show ?case using ins del rep by (auto simp: min_def simp del: relpowp.simps)
qed

lemma ed_is_least: "ed xs ys = (LEAST k. (edit1 ^^ k) xs ys)"
  by (rule Least_equality [symmetric]) (auto simp: edits_ed ed_le_edits)

lemma edit1_sym: "edit1 xs ys \<Longrightarrow> edit1 ys xs"
  by (induction rule: edit1.induct) (rule edit1.intros)+

lemma edit1_rev: "edit1 xs ys \<Longrightarrow> edit1 (rev xs) (rev ys)"
  by (induction rule: edit1.induct) (simp_all add: edit1.intros)

lemma edits_rev: "(edit1 ^^ k) xs ys \<Longrightarrow> (edit1 ^^ k) (rev xs) (rev ys)"
  by (induction k arbitrary: ys) (auto intro: edit1_rev)

lemma edits_sym: "(edit1 ^^ k) xs ys \<Longrightarrow> (edit1 ^^ k) ys xs"
proof (induction k arbitrary: ys)
  case (Suc k)
  then obtain zs where "(edit1 ^^ k) xs zs" "edit1 zs ys" by auto
  then show ?case using Suc.IH edit1_sym by (metis relpowp_Suc_I2)
qed simp

lemma edits_rev_iff: "(edit1 ^^ k) (rev xs) (rev ys) \<longleftrightarrow> (edit1 ^^ k) xs ys"
  using edits_rev [of k xs ys] edits_rev [of k "rev xs" "rev ys"] by auto

lemma edits_sym_iff: "(edit1 ^^ k) xs ys \<longleftrightarrow> (edit1 ^^ k) ys xs"
  using edits_sym by blast

text \<open>The rows hold the distances of the prefixes.\<close>

definition prefix_ed :: "'a list \<Rightarrow> 'a list \<Rightarrow> nat \<Rightarrow> nat \<Rightarrow> nat" where
  "prefix_ed a b i j = ed (rev (take i a)) (rev (take j b))"

lemma prefix_ed_0 [simp]: "j \<le> length b \<Longrightarrow> prefix_ed a b 0 j = j" "i \<le> length a \<Longrightarrow> prefix_ed a b i 0 = i"
  by (simp_all add: prefix_ed_def)

lemma prefix_ed_Suc:
  assumes "i < length a" "j < length b"
  shows "prefix_ed a b (Suc i) (Suc j) =
    min3 (prefix_ed a b (Suc i) j + 1) (prefix_ed a b i (Suc j) + 1) (prefix_ed a b i j + (if a ! i = b ! j then 0 else 1))"
  using assms by (simp add: prefix_ed_def take_Suc_conv_app_nth min3_min)

lemma lev_cells:
  assumes "i < length a" "m \<le> length b" "length previous = length b + 1" "length current = length b + 1"
    and "\<And>j. j \<le> length b \<Longrightarrow> previous ! j = prefix_ed a b i j"
  shows "length (fold (lev_cell a b (Suc i) previous) [1 ..< m + 1] (current[0 := Suc i])) = length b + 1 \<and>
    (\<forall>j \<le> m. fold (lev_cell a b (Suc i) previous) [1 ..< m + 1] (current[0 := Suc i]) ! j = prefix_ed a b (Suc i) j)"
  using assms(2)
proof (induction m)
  case 0
  then show ?case using assms(1,4) by simp
next
  case (Suc m)
  let ?c = "fold (lev_cell a b (Suc i) previous) [1 ..< m + 1] (current[0 := Suc i])"
  have ih: "length ?c = length b + 1" "\<And>j. j \<le> m \<Longrightarrow> ?c ! j = prefix_ed a b (Suc i) j" using Suc by simp_all
  have "fold (lev_cell a b (Suc i) previous) [1 ..< Suc m + 1] (current[0 := Suc i]) = lev_cell a b (Suc i) previous (Suc m) ?c"
    by simp
  moreover have "lev_cell a b (Suc i) previous (Suc m) ?c = ?c[Suc m := prefix_ed a b (Suc i) (Suc m)]"
    using Suc.prems assms(1,5) ih by (simp add: lev_cell_def prefix_ed_Suc)
  ultimately show ?case using ih Suc.prems by (auto simp: nth_list_update le_Suc_eq)
qed

lemma lev_rows:
  assumes "m \<le> length a" and "b \<noteq> []"
  shows "\<exists>previous current. fold (lev_row a b) [1 ..< m + 1] ([0 ..< length b + 1], replicate (length b + 1) 0) = (previous, current) \<and>
    length previous = length b + 1 \<and> length current = length b + 1 \<and> (\<forall>j \<le> length b. previous ! j = prefix_ed a b m j)"
  using assms(1)
proof (induction m)
  case 0
  then show ?case by (simp del: upt_Suc)
next
  case (Suc m)
  then obtain previous current where ih: "fold (lev_row a b) [1 ..< m + 1] ([0 ..< length b + 1], replicate (length b + 1) 0) = (previous, current)"
    "length previous = length b + 1" "length current = length b + 1" "\<And>j. j \<le> length b \<Longrightarrow> previous ! j = prefix_ed a b m j" by auto
  have "fold (lev_row a b) [1 ..< Suc m + 1] ([0 ..< length b + 1], replicate (length b + 1) 0) = lev_row a b (Suc m) (previous, current)"
    using ih(1) by simp
  also have "\<dots> = (fold (lev_cell a b (Suc m) previous) [1 ..< length b + 1] (current[0 := Suc m]), previous)"
    by (simp add: lev_row_def)
  finally show ?case using lev_cells [of m a "length b" b previous current] ih(2-4) Suc.prems by simp
qed

lemma levenshtein_ed: "levenshtein a b = ed (rev a) (rev b)"
proof (cases "a = [] \<or> b = []")
  case True
  then show ?thesis by (auto simp: levenshtein_def)
next
  case False
  then obtain p c where "fold (lev_row a b) [1 ..< length a + 1] ([0 ..< length b + 1], replicate (length b + 1) 0) = (p, c)"
    "p ! length b = prefix_ed a b (length a) (length b)" using lev_rows [of "length a" a b] by blast
  then show ?thesis using False by (simp add: levenshtein_def prefix_ed_def del: upt_Suc)
qed

text \<open>
  C29. The distance computed over two rows is the edit distance: the least number of insertions,
  deletions and replacements of one letter that turn one name into the other; so it does not depend on
  the order of the two, it is 0 for equal names only, and it never exceeds the longer one, which keeps
  the similarity between 0 and 100.
\<close>

theorem levenshtein_is_edit_distance:
  "levenshtein a b = (LEAST k. (edit1 ^^ k) a b) \<and> (edit1 ^^ levenshtein a b) a b \<and>
   levenshtein b a = levenshtein a b \<and> (levenshtein a b = 0 \<longleftrightarrow> a = b) \<and> levenshtein a b \<le> max (length a) (length b)"
proof -
  have l: "levenshtein a b = (LEAST k. (edit1 ^^ k) a b)" for a b
    by (simp add: levenshtein_ed ed_is_least edits_rev_iff)
  have e: "(edit1 ^^ levenshtein a b) a b" using edits_ed [of "rev a" "rev b"] by (simp add: levenshtein_ed edits_rev_iff)
  have "ed xs ys \<le> max (length xs) (length ys)" for xs ys :: "rune list" by (induction xs ys rule: ed.induct) auto
  from this [of "rev a" "rev b"] have m: "levenshtein a b \<le> max (length a) (length b)" by (simp add: levenshtein_ed)
  have "levenshtein a b = 0 \<longleftrightarrow> a = b"
    using e by (auto simp: levenshtein_ed)
  then show ?thesis using l e m edits_sym_iff [of _ a b] by simp
qed

end
