(* ===== verification/ModelContact.thy ===== *)
theory ModelContact
  imports ModelObject Go_Format
begin

text \<open>
  \<open>internal/model/contact.go\<close> and the addresses of \<open>email.go\<close>: the display view of a card, and the form an
  electronic address is compared in.
\<close>

subsection \<open>The view\<close>

record ContactName =
  cn_Family :: string
  cn_Given :: string
  cn_Additional :: string
  cn_Prefix :: string
  cn_Suffix :: string

record LabeledValue =
  lv_Label :: string
  lv_Value :: string
  lv_Preferred :: bool

record Address =
  ad_Label :: string
  ad_Preferred :: bool
  ad_POBox :: string
  ad_Extended :: string
  ad_Street :: string
  ad_Locality :: string
  ad_Region :: string
  ad_PostalCode :: string
  ad_Country :: string

record Photo =
  ph_Present :: bool
  ph_MediaType :: string
  ph_URI :: string
  ph_Editable :: bool

record Contact =
  ct_UID :: string
  ct_Version :: string
  ct_FormattedName :: string
  ct_Name :: ContactName
  ct_Nickname :: string
  ct_Organization :: "string list"
  ct_Title :: string
  ct_Role :: string
  ct_Birthday :: string
  ct_Note :: string
  ct_Categories :: "string list"
  ct_Phones :: "LabeledValue list"
  ct_Emails :: "LabeledValue list"
  ct_URLs :: "LabeledValue list"
  ct_IMs :: "LabeledValue list"
  ct_Addresses :: "Address list"
  ct_Photo :: Photo
  ct_Modified :: time
  ct_Other :: "NamedProperty list"

definition contactProperties :: "string list" where
  "contactProperties =
     [''VERSION'', ''UID'', ''PRODID'', ''REV'', ''FN'', ''N'', ''NICKNAME'', ''ORG'', ''TITLE'', ''ROLE'', ''BDAY'',
      ''NOTE'', ''CATEGORIES'', ''TEL'', ''EMAIL'', ''URL'', ''IMPP'', ''ADR'', ''PHOTO'']"

subsection \<open>Reading a value\<close>

definition firstText :: "Value list \<Rightarrow> string" where
  "firstText values = (case values of [] \<Rightarrow> [] | v # _ \<Rightarrow> va_Text v)"

definition component :: "string list \<Rightarrow> nat \<Rightarrow> string" where
  "component parts i = (if length parts \<le> i then [] else TrimSpace (parts ! i))"

fun split_loop :: "rune list \<Rightarrow> string \<Rightarrow> bool \<Rightarrow> string list \<Rightarrow> string list" where
  "split_loop [] cur esc out = out @ [if esc then cur @ [CHR 0x5C] else cur]"
| "split_loop (r # rs) cur esc out =
     (if esc then split_loop rs ((if r \<noteq> 59 then cur @ [CHR 0x5C] else cur) @ encode_rune r) False out
      else if r = 92 then split_loop rs cur True out
      else if r = 59 then split_loop rs [] False (out @ [cur])
      else split_loop rs (cur @ encode_rune r) False out)"

definition splitStructured :: "string \<Rightarrow> string list" where
  "splitStructured s = split_loop (runes s) [] False []"

definition cutPrefix :: "string \<Rightarrow> string \<Rightarrow> string \<times> bool" where
  "cutPrefix s p = (if HasPrefix s p then (drop (length p) s, True) else ([], False))"

text \<open>\<open>strings.IndexAny\<close> for a set of ASCII bytes.\<close>

fun IndexAny :: "string \<Rightarrow> string \<Rightarrow> nat option" where
  "IndexAny [] cs = None"
| "IndexAny (x # s) cs = (if x \<in> set cs then Some 0 else map_option Suc (IndexAny s cs))"

definition mediaTypeOf :: "unicode \<Rightarrow> Value \<Rightarrow> string" where
  "mediaTypeOf U v =
     (let mt = Param U v ''MEDIATYPE'';
          t = Param U v ''TYPE''
      in if mt \<noteq> [] then ToLower U mt
         else if t \<noteq> [] \<and> Contains t ''/'' then ToLower U t
         else if t \<noteq> [] then ''image/'' @ ToLower U t
         else (case cutPrefix (TrimSpace (va_Text v)) ''data:'' of
                 (rest, True) \<Rightarrow>
                   (case IndexAny rest '';,'' of
                      Some i \<Rightarrow> if 0 < i then ToLower U (take i rest) else []
                    | None \<Rightarrow> [])
               | (_, False) \<Rightarrow> []))"

definition no_photo :: Photo where
  "no_photo = \<lparr>ph_Present = False, ph_MediaType = [], ph_URI = [], ph_Editable = False\<rparr>"

definition describePhoto :: "unicode \<Rightarrow> Value list \<Rightarrow> Photo" where
  "describePhoto U values =
     (case values of
        [] \<Rightarrow> no_photo
      | v # _ \<Rightarrow>
          (let photo = no_photo\<lparr>ph_Present := True, ph_MediaType := mediaTypeOf U v\<rparr>;
               txt = TrimSpace (va_Text v)
           in if EqualFold U (Param U v ''VALUE'') ''uri'' \<and> \<not> HasPrefix txt ''data:'' then photo\<lparr>ph_URI := txt\<rparr>
              else if HasPrefix txt ''http://'' \<or> HasPrefix txt ''https://'' then photo\<lparr>ph_URI := txt\<rparr>
              else photo\<lparr>ph_Editable := True\<rparr>))"

definition label :: "unicode \<Rightarrow> Value \<Rightarrow> string" where
  "label U v =
     Join '', '' (filter (\<lambda>t. \<not> (t = [] \<or> t = ''pref'' \<or> t = ''internet'' \<or> t = ''voice''))
       (map (\<lambda>t. ToLower U (TrimSpace t)) (gm_get0 (va_Params v) ''TYPE'')))"

definition preferred :: "unicode \<Rightarrow> Value \<Rightarrow> bool" where
  "preferred U v =
     (let p = Param U v ''PREF'' in if p \<noteq> [] then p = ''1'' else HasParamValue U v ''TYPE'' ''pref'')"

definition labeled :: "unicode \<Rightarrow> Value list \<Rightarrow> LabeledValue list" where
  "labeled U values = map (\<lambda>v. \<lparr>lv_Label = label U v, lv_Value = va_Text v, lv_Preferred = preferred U v\<rparr>) values"

definition nonblank :: "string list \<Rightarrow> string list" where
  "nonblank parts = filter (\<lambda>p. p \<noteq> []) (map TrimSpace parts)"

definition address_of :: "unicode \<Rightarrow> Value \<Rightarrow> Address" where
  "address_of U v =
     (let parts = splitStructured (va_Text v)
      in \<lparr>ad_Label = label U v, ad_Preferred = preferred U v, ad_POBox = component parts 0,
          ad_Extended = component parts 1, ad_Street = component parts 2, ad_Locality = component parts 3,
          ad_Region = component parts 4, ad_PostalCode = component parts 5, ad_Country = component parts 6\<rparr>)"

definition name_of :: "Value list \<Rightarrow> ContactName" where
  "name_of values =
     (case values of
        [] \<Rightarrow> \<lparr>cn_Family = [], cn_Given = [], cn_Additional = [], cn_Prefix = [], cn_Suffix = []\<rparr>
      | v # _ \<Rightarrow>
          (let parts = splitStructured (va_Text v)
           in \<lparr>cn_Family = component parts 0, cn_Given = component parts 1, cn_Additional = component parts 2,
               cn_Prefix = component parts 3, cn_Suffix = component parts 4\<rparr>))"

definition ob_Contact :: "dav_lib \<Rightarrow> Object option \<Rightarrow> model_error + Contact" where
  "ob_Contact L o' =
     (case o' of
        None \<Rightarrow> Inl ErrNotVCard
      | Some ob \<Rightarrow>
          (case ob_card ob of
             None \<Rightarrow> Inl ErrNotVCard
           | Some cd \<Rightarrow>
               if ob_kind ob \<noteq> KindVCard then Inl ErrNotVCard
               else
                 (let U = lb_U L;
                      prop = (\<lambda>name. Property U (Some ob) name)
                  in Inr \<lparr>ct_UID = ob_UID L (Some ob), ct_Version = ob_Version L (Some ob),
                          ct_FormattedName = firstText (prop ''FN''), ct_Name = name_of (prop ''N''),
                          ct_Nickname = firstText (prop ''NICKNAME''),
                          ct_Organization = (case prop ''ORG'' of [] \<Rightarrow> [] | v # _ \<Rightarrow> nonblank (splitStructured (va_Text v))),
                          ct_Title = firstText (prop ''TITLE''), ct_Role = firstText (prop ''ROLE''),
                          ct_Birthday = firstText (prop ''BDAY''), ct_Note = firstText (prop ''NOTE''),
                          ct_Categories = concat (map (\<lambda>v. nonblank (Split_byte CHR '','' (va_Text v))) (prop ''CATEGORIES'')),
                          ct_Phones = labeled U (prop ''TEL''), ct_Emails = labeled U (prop ''EMAIL''),
                          ct_URLs = labeled U (prop ''URL''), ct_IMs = labeled U (prop ''IMPP''),
                          ct_Addresses = map (address_of U) (prop ''ADR''), ct_Photo = describePhoto U (prop ''PHOTO''),
                          ct_Modified = (case lb_Revision L cd of None \<Rightarrow> 0 | Some t \<Rightarrow> t),
                          ct_Other = filter (\<lambda>p. np_Name p \<notin> set contactProperties) (Properties U (Some ob))\<rparr>)))"

definition ct_DisplayName :: "Contact \<Rightarrow> string" where
  "ct_DisplayName c =
     (let name = TrimSpace (ct_FormattedName c);
          parts = (if cn_Given (ct_Name c) \<noteq> [] then [cn_Given (ct_Name c)] else []) @
                  (if cn_Family (ct_Name c) \<noteq> [] then [cn_Family (ct_Name c)] else [])
      in if name \<noteq> [] then name
         else if 0 < length parts then Join '' '' parts
         else (case ct_Organization c of org # _ \<Rightarrow> org | [] \<Rightarrow> ct_UID c))"

definition ct_SortKey :: "unicode \<Rightarrow> Contact \<Rightarrow> string" where
  "ct_SortKey U c =
     (let parts = (if cn_Family (ct_Name c) \<noteq> [] then [cn_Family (ct_Name c)] else []) @
                  (if cn_Given (ct_Name c) \<noteq> [] then [cn_Given (ct_Name c)] else [])
      in if length parts = 0 then ToLower U (ct_DisplayName c) else ToLower U (Join '' '' parts))"

subsection \<open>Electronic addresses\<close>

definition gmailDomains :: "string list" where "gmailDomains = [''gmail.com'', ''googlemail.com'']"

definition model_NormalizeEmail :: "unicode \<Rightarrow> string \<Rightarrow> string" where
  "model_NormalizeEmail U value =
     (let s = TrimSuffix (TrimPrefix (TrimSpace value) ''<'') ''>'';
          s = (case Index_byte s CHR '':'' of
                 Some i \<Rightarrow> if ToLower U (take i s) = ''mailto'' then drop (i + 1) s else s
               | None \<Rightarrow> s);
          s = (case Index_byte s CHR ''?'' of Some i \<Rightarrow> take i s | None \<Rightarrow> s);
          s = ToLower U (TrimSpace s)
      in (case Index_byte s CHR ''@'' of
            None \<Rightarrow> s
          | Some i \<Rightarrow>
              (let local = take i s;
                   domain = drop (i + 1) s;
                   local = (if domain \<in> set gmailDomains
                            then (let local = delete_byte CHR ''.'' local
                                  in (case Index_byte local CHR ''+'' of
                                        Some at \<Rightarrow> if 0 < at then take at local else local
                                      | None \<Rightarrow> local))
                            else local)
               in if local = [] then [] else local @ ''@'' @ domain)))"

definition NormalizedEmails :: "unicode \<Rightarrow> Contact \<Rightarrow> string list" where
  "NormalizedEmails U c =
     distinct_loop (filter (\<lambda>n. n \<noteq> []) (map (\<lambda>e. model_NormalizeEmail U (lv_Value e)) (ct_Emails c))) [] []"

end
