(* ===== verification/ModelCalendar.thy ===== *)
theory ModelCalendar
  imports ModelObject Go_Format
begin

text \<open>
  The views of calendar objects: \<open>internal/model/related.go\<close>, \<open>attach.go\<close>, \<open>event.go\<close>, \<open>todo.go\<close>,
  \<open>note.go\<close> and the occurrences of \<open>expand.go\<close>. Dates are read by the library. The label of a
  foreign time zone (\<open>sourceTZLabel\<close>) and the size in words (\<open>ByteSize\<close>) are left out: the first reads the
  zone database, the second formats floating point numbers.
\<close>

subsection \<open>Helpers of the standard library\<close>

fun Split_any :: "string \<Rightarrow> string \<Rightarrow> string list" where
  "Split_any cs [] = [[]]"
| "Split_any cs (x # s) =
     (if x \<in> set cs then [] # Split_any cs s
      else case Split_any cs s of [] \<Rightarrow> [[x]] | w # ws \<Rightarrow> (x # w) # ws)"

definition FieldsFunc :: "string \<Rightarrow> string \<Rightarrow> string list" where
  "FieldsFunc cs s = filter (\<lambda>w. w \<noteq> []) (Split_any cs s)"

definition Cut :: "string \<Rightarrow> char \<Rightarrow> string \<times> string \<times> bool" where
  "Cut s c = (case Index_byte s c of Some i \<Rightarrow> (take i s, drop (i + 1) s, True) | None \<Rightarrow> (s, [], False))"

definition dec_value :: "string \<Rightarrow> nat" where
  "dec_value s = foldl (\<lambda>n c. 10 * n + (byte c - 48)) 0 s"

definition ParseInt :: "string \<Rightarrow> int option" where
  "ParseInt s =
     (let (negative, digits) = (case s of [] \<Rightarrow> (False, []) | c # cs \<Rightarrow>
            if c = CHR ''-'' then (True, cs) else if c = CHR ''+'' then (False, cs) else (False, s));
          n = int (dec_value digits)
      in if digits = [] \<or> \<not> list_all (\<lambda>c. 48 \<le> byte c \<and> byte c \<le> 57) digits then None
         else if negative then (if n \<le> 9223372036854775808 then Some (- n) else None)
         else (if n \<le> int64_max then Some n else None))"

definition path_Base :: "string \<Rightarrow> string" where
  "path_Base p =
     (if p = [] then ''.''
      else (let p = rev (dropWhile (\<lambda>c. c = CHR ''/'') (rev p));
                p = rev (takeWhile (\<lambda>c. c \<noteq> CHR ''/'') (rev p))
            in if p = [] then ''/'' else p))"

definition path_Ext :: "string \<Rightarrow> string" where
  "path_Ext p =
     (let last = rev (takeWhile (\<lambda>c. c \<noteq> CHR ''/'') (rev p))
      in if CHR ''.'' \<in> set last then CHR ''.'' # rev (takeWhile (\<lambda>c. c \<noteq> CHR ''.'') (rev last)) else [])"

definition unhex :: "char \<Rightarrow> nat option" where
  "unhex c = (let b = byte c in if 48 \<le> b \<and> b \<le> 57 then Some (b - 48)
     else if 97 \<le> b \<and> b \<le> 102 then Some (b - 87) else if 65 \<le> b \<and> b \<le> 70 then Some (b - 55) else None)"

fun PathUnescape :: "string \<Rightarrow> string option" where
  "PathUnescape [] = Some []"
| "PathUnescape (c # s) =
     (if c \<noteq> CHR ''%'' then map_option (\<lambda>r. c # r) (PathUnescape s)
      else (case s of
              a # b # r \<Rightarrow>
                (case (unhex a, unhex b) of
                   (Some x, Some y) \<Rightarrow> map_option (\<lambda>r. char_of (16 * x + y) # r) (PathUnescape r)
                 | _ \<Rightarrow> None)
            | _ \<Rightarrow> None))"

definition truncateRunes :: "string \<Rightarrow> int \<Rightarrow> string" where
  "truncateRunes s limit =
     (if limit \<le> 0 then s
      else if int (length (runes s)) \<le> limit then s
      else TrimSpace (string_of_runes (take (nat limit) (runes s))) @ [CHR 0xE2, CHR 0x80, CHR 0xA6])"

definition firstLine :: "string \<Rightarrow> string" where
  "firstLine s = (case Cut (TrimSpace s) CHR 0x0A of (line, _, _) \<Rightarrow> truncateRunes (TrimSpace line) 120)"

definition collapseSpace :: "string \<Rightarrow> string" where
  "collapseSpace s = Join '' '' (Fields s)"

definition splitComma :: "string \<Rightarrow> string list" where
  "splitComma s = filter (\<lambda>p. p \<noteq> []) (map TrimSpace (Split_byte CHR '','' s))"

definition atoiOr :: "string \<Rightarrow> int \<Rightarrow> int" where
  "atoiOr t fallback = (case ParseInt (TrimSpace t) of None \<Rightarrow> fallback | Some n \<Rightarrow> n)"

subsection \<open>Relations\<close>

record Relation =
  rl_UID :: string
  rl_RelType :: string

definition RelTypeParent :: string where "RelTypeParent = ''PARENT''"
definition RelTypeChild :: string where "RelTypeChild = ''CHILD''"
definition RelTypeSibling :: string where "RelTypeSibling = ''SIBLING''"

definition relation_of :: "dav_lib \<Rightarrow> Prop \<Rightarrow> Relation option" where
  "relation_of L p =
     (let uid = TrimSpace (pr_Value p);
          relType = ToUpper (lb_U L) (TrimSpace (lb_params_Get L (pr_Params p) ''RELTYPE''))
      in if uid = [] then None
         else Some \<lparr>rl_UID = uid, rl_RelType = (if relType = [] then RelTypeParent else relType)\<rparr>)"

definition relationsFrom :: "dav_lib \<Rightarrow> (string, Prop list) gomap \<Rightarrow> Relation list" where
  "relationsFrom L props =
     (case gm_get props ''RELATED-TO'' of None \<Rightarrow> [] | Some values \<Rightarrow> List.map_filter (relation_of L) values)"

definition ob_Relations :: "dav_lib \<Rightarrow> Object option \<Rightarrow> Relation list" where
  "ob_Relations L o' = (case primaryComponent (lb_U L) o' of None \<Rightarrow> [] | Some c \<Rightarrow> relationsFrom L (cm_Props c))"

definition relation_value :: "unicode \<Rightarrow> Relation \<Rightarrow> Value option" where
  "relation_value U rel =
     (let uid = TrimSpace (rl_UID rel);
          relType = ToUpper U (TrimSpace (rl_RelType rel))
      in if uid = [] then None
         else Some (if relType \<noteq> [] \<and> relType \<noteq> RelTypeParent then WithParam U (Text uid) ''RELTYPE'' [relType] else Text uid))"

definition RelationValues :: "unicode \<Rightarrow> Relation list \<Rightarrow> Value list" where
  "RelationValues U relations = List.map_filter (relation_value U) relations"

definition ParseRelations :: "string \<Rightarrow> Relation list" where
  "ParseRelations t =
     (let found = filter (\<lambda>f. f \<noteq> []) (map TrimSpace (FieldsFunc ('','' @ [CHR 0x0A, CHR 0x0D, CHR '' '', CHR 0x09]) t))
      in map (\<lambda>f. \<lparr>rl_UID = f, rl_RelType = RelTypeParent\<rparr>) (distinct_loop found [] []))"

definition RelationUIDs :: "Relation list \<Rightarrow> string list" where
  "RelationUIDs relations = map rl_UID relations"

subsection \<open>Attachments\<close>

record Attachment =
  at_URI :: string
  at_Inline :: bool
  at_FmtType :: string
  at_Filename :: string
  at_Size :: int
  at_HasSize :: bool
  at_Value :: Value

definition attachmentFilename :: "dav_lib \<Rightarrow> Value \<Rightarrow> string \<Rightarrow> string" where
  "attachmentFilename L v uri =
     (let given = filter (\<lambda>n. n \<noteq> []) (map (\<lambda>p. TrimSpace (Param (lb_U L) v p)) [''FILENAME'', ''X-FILENAME''])
      in case given of
           name # _ \<Rightarrow> name
         | [] \<Rightarrow>
             if uri = [] then []
             else
               (let target = (case lb_url_path L uri of Some p \<Rightarrow> if p \<noteq> [] then p else uri | None \<Rightarrow> uri);
                    name = path_Base (TrimSuffix target ''/'')
                in if name = ''.'' \<or> name = ''/'' then []
                   else (case PathUnescape name of Some decoded \<Rightarrow> decoded | None \<Rightarrow> name)))"

definition attachmentFrom :: "dav_lib \<Rightarrow> Value \<Rightarrow> Attachment" where
  "attachmentFrom L v =
     (let U = lb_U L;
          inline = (HasParamValue U v ''VALUE'' ''BINARY'' \<or> HasParamValue U v ''ENCODING'' ''BASE64'');
          uri = (if inline then [] else TrimSpace (va_Text v));
          raw = TrimSpace (Param U v ''SIZE'');
          size = (if raw = [] then None else (case ParseInt raw of Some n \<Rightarrow> if 0 \<le> n then Some n else None | None \<Rightarrow> None))
      in \<lparr>at_URI = uri, at_Inline = inline, at_FmtType = TrimSpace (Param U v ''FMTTYPE''),
          at_Filename = attachmentFilename L v uri, at_Size = (case size of Some n \<Rightarrow> n | None \<Rightarrow> 0),
          at_HasSize = (size \<noteq> None), at_Value = v\<rparr>)"

definition attachmentsFrom :: "dav_lib \<Rightarrow> (string, Prop list) gomap \<Rightarrow> Attachment list" where
  "attachmentsFrom L props =
     (case gm_get props ''ATTACH'' of None \<Rightarrow> [] | Some values \<Rightarrow> map (\<lambda>p. attachmentFrom L (valueFromProp (lb_U L) p)) values)"

definition ob_Attachments :: "dav_lib \<Rightarrow> Object option \<Rightarrow> Attachment list" where
  "ob_Attachments L o' =
     (case o' of None \<Rightarrow> []
      | Some ob \<Rightarrow> if ob_kind ob \<noteq> KindICal then []
          else (case primaryComponent (lb_U L) (Some ob) of None \<Rightarrow> [] | Some c \<Rightarrow> attachmentsFrom L (cm_Props c)))"

definition at_DisplayName :: "Attachment \<Rightarrow> string" where
  "at_DisplayName a =
     (let name = TrimSpace (at_Filename a)
      in if name \<noteq> [] then name else if at_URI a \<noteq> [] then at_URI a else ''(attached file)'')"

definition AttachmentValue :: "unicode \<Rightarrow> string \<Rightarrow> string \<Rightarrow> string \<Rightarrow> int \<Rightarrow> Value" where
  "AttachmentValue U uri fmtType filename sz =
     (let v = Text (TrimSpace uri);
          v = (if TrimSpace fmtType \<noteq> [] then WithParam U v ''FMTTYPE'' [TrimSpace fmtType] else v);
          v = (if TrimSpace filename \<noteq> [] then WithParam U v ''FILENAME'' [TrimSpace filename] else v)
      in if 0 < sz then WithParam U v ''SIZE'' [dec_int sz] else v)"

definition AttachmentValues :: "Attachment list \<Rightarrow> Value list" where
  "AttachmentValues atts = filter (\<lambda>v. va_Text v \<noteq> []) (map at_Value atts)"

definition AttachmentLinks :: "Attachment list \<Rightarrow> string list" where
  "AttachmentLinks atts = filter (\<lambda>u. u \<noteq> []) (map (\<lambda>a. TrimSpace (at_URI a)) atts)"

definition mediaTypeForName :: "unicode \<Rightarrow> string \<Rightarrow> string" where
  "mediaTypeForName U name =
     (let ext = ToLower U (path_Ext name)
      in if ext = ''.png'' then ''image/png''
         else if ext = ''.jpg'' \<or> ext = ''.jpeg'' then ''image/jpeg''
         else if ext = ''.gif'' then ''image/gif''
         else if ext = ''.webp'' then ''image/webp''
         else if ext = ''.svg'' then ''image/svg+xml''
         else if ext = ''.pdf'' then ''application/pdf''
         else if ext = ''.txt'' then ''text/plain''
         else if ext = ''.md'' \<or> ext = ''.markdown'' then ''text/markdown''
         else if ext = ''.ics'' then ''text/calendar''
         else if ext = ''.vcf'' then ''text/vcard''
         else if ext = ''.zip'' then ''application/zip''
         else [])"

definition AttachmentLinkValues :: "dav_lib \<Rightarrow> string list \<Rightarrow> Value list" where
  "AttachmentLinkValues L uris =
     map (\<lambda>uri. (let name = attachmentFilename L (Text uri) uri
                 in AttachmentValue (lb_U L) uri (mediaTypeForName (lb_U L) name) name 0))
       (distinct_loop (filter (\<lambda>u. u \<noteq> []) (map TrimSpace uris)) [] [])"

definition AttachPatch :: "Attachment list \<Rightarrow> Patch \<Rightarrow> Patch" where
  "AttachPatch atts p =
     (let values = AttachmentValues atts
      in if 0 < length values then patch_Set ''ATTACH'' values p else patch_Remove ''ATTACH'' p)"

subsection \<open>Events\<close>

record Attendee =
  ae_URI :: string
  ae_CN :: string
  ae_Role :: string
  ae_PartStat :: string
  ae_RSVP :: string

record Event =
  ev_UID :: string
  ev_Summary :: string
  ev_Description :: string
  ev_Location :: string
  ev_Status :: string
  ev_Categories :: "string list"
  ev_Start :: time
  ev_End :: time
  ev_StartTZID :: string
  ev_AllDay :: bool
  ev_RRule :: string
  ev_Attendees :: "Attendee list"
  ev_Related :: "Relation list"
  ev_Attachments :: "Attachment list"
  ev_Other :: "NamedProperty list"

definition knownEventProps :: "string list" where
  "knownEventProps =
     [''UID'', ''SUMMARY'', ''DESCRIPTION'', ''LOCATION'', ''STATUS'', ''CATEGORIES'', ''DTSTART'', ''DTEND'',
      ''DURATION'', ''DTSTAMP'', ''CREATED'', ''LAST-MODIFIED'', ''SEQUENCE'', ''RRULE'', ''EXDATE'', ''RDATE'',
      ''ATTENDEE'', ''ORGANIZER'', ''TRANSP'', ''CLASS'', ''PRIORITY'', ''URL'', ''RELATED-TO'', ''ATTACH'']"

definition primaryEvent :: "dav_lib \<Rightarrow> Object option \<Rightarrow> Component option" where
  "primaryEvent L o' =
     (case o' of None \<Rightarrow> None
      | Some ob \<Rightarrow> (case ob_cal ob of None \<Rightarrow> None
          | Some cal \<Rightarrow> (case lb_Events L cal of [] \<Rightarrow> None | e # _ \<Rightarrow> Some e)))"

definition others :: "unicode \<Rightarrow> string list \<Rightarrow> Object \<Rightarrow> NamedProperty list" where
  "others U known ob = map (\<lambda>n. \<lparr>np_Name = n, np_Values = Property U (Some ob) n\<rparr>)
     (filter (\<lambda>n. n \<notin> set known) (Names U (Some ob)))"

definition categories_of :: "dav_lib \<Rightarrow> (string, Prop list) gomap \<Rightarrow> string list" where
  "categories_of L props = (case lb_props_Get L props ''CATEGORIES'' of None \<Rightarrow> [] | Some p \<Rightarrow> splitComma (pr_Value p))"

definition or_zero :: "time option \<Rightarrow> time" where "or_zero t = (case t of None \<Rightarrow> 0 | Some t \<Rightarrow> t)"

definition prop_time :: "dav_lib \<Rightarrow> string option \<Rightarrow> (string, Prop list) gomap \<Rightarrow> string \<Rightarrow> time" where
  "prop_time L loc props name = (case lb_props_Get L props name of None \<Rightarrow> 0 | Some p \<Rightarrow> or_zero (lb_DateTime L loc p))"

definition ob_Event :: "dav_lib \<Rightarrow> string option \<Rightarrow> Object option \<Rightarrow> model_error + Event" where
  "ob_Event L loc o' =
     (case o' of None \<Rightarrow> Inl ErrNotICal
      | Some ob \<Rightarrow>
          if ob_kind ob \<noteq> KindICal then Inl ErrNotICal
          else
            (case primaryEvent L (Some ob) of
               None \<Rightarrow> Inl ErrNotICal
             | Some c \<Rightarrow>
                 (let props = cm_Props c;
                      start = lb_props_Get L props ''DTSTART''
                  in Inr \<lparr>ev_UID = ob_UID L (Some ob), ev_Summary = icalPropText L props ''SUMMARY'',
                          ev_Description = icalPropText L props ''DESCRIPTION'', ev_Location = icalPropText L props ''LOCATION'',
                          ev_Status = icalPropRaw L props ''STATUS'', ev_Categories = categories_of L props,
                          ev_Start = or_zero (lb_DateTimeStart L loc c), ev_End = or_zero (lb_DateTimeEnd L loc c),
                          ev_StartTZID = (case start of None \<Rightarrow> [] | Some p \<Rightarrow> TrimSpace (lb_params_Get L (pr_Params p) ''TZID'')),
                          ev_AllDay = (case start of None \<Rightarrow> False | Some p \<Rightarrow> lb_is_date L p),
                          ev_RRule = icalPropRaw L props ''RRULE'',
                          ev_Attendees = (case gm_get props ''ATTENDEE'' of None \<Rightarrow> []
                            | Some ps \<Rightarrow> map (\<lambda>p. \<lparr>ae_URI = pr_Value p, ae_CN = lb_params_Get L (pr_Params p) ''CN'',
                                ae_Role = lb_params_Get L (pr_Params p) ''ROLE'', ae_PartStat = lb_params_Get L (pr_Params p) ''PARTSTAT'',
                                ae_RSVP = lb_params_Get L (pr_Params p) ''RSVP''\<rparr>) ps),
                          ev_Related = relationsFrom L props, ev_Attachments = attachmentsFrom L props,
                          ev_Other = others (lb_U L) knownEventProps ob\<rparr>)))"

definition ev_DisplayTitle :: "Event \<Rightarrow> string" where
  "ev_DisplayTitle e =
     (let s = TrimSpace (ev_Summary e)
      in if s \<noteq> [] then s else if ev_UID e \<noteq> [] then ev_UID e else ''(untitled event)'')"

subsection \<open>Tasks\<close>

definition TaskNeedsAction :: string where "TaskNeedsAction = ''NEEDS-ACTION''"
definition TaskInProcess :: string where "TaskInProcess = ''IN-PROCESS''"
definition TaskCompleted :: string where "TaskCompleted = ''COMPLETED''"
definition TaskCancelled :: string where "TaskCancelled = ''CANCELLED''"

record Todo =
  td_UID :: string
  td_Summary :: string
  td_Description :: string
  td_Location :: string
  td_Status :: string
  td_Categories :: "string list"
  td_Start :: time
  td_Due :: time
  td_Completed :: time
  td_DueDateOnly :: bool
  td_Priority :: int
  td_PercentComplete :: int
  td_Modified :: time
  td_Related :: "Relation list"
  td_Attachments :: "Attachment list"
  td_Other :: "NamedProperty list"

definition knownTodoProps :: "string list" where
  "knownTodoProps =
     [''UID'', ''SUMMARY'', ''DESCRIPTION'', ''LOCATION'', ''STATUS'', ''CATEGORIES'', ''DTSTART'', ''DUE'', ''COMPLETED'',
      ''PERCENT-COMPLETE'', ''PRIORITY'', ''DTSTAMP'', ''CREATED'', ''LAST-MODIFIED'', ''SEQUENCE'', ''CLASS'',
      ''RELATED-TO'', ''ATTACH'']"

definition ob_Todo :: "dav_lib \<Rightarrow> string option \<Rightarrow> Object option \<Rightarrow> model_error + Todo" where
  "ob_Todo L loc o' =
     (case o' of None \<Rightarrow> Inl ErrNotICal
      | Some ob \<Rightarrow>
          if ob_kind ob \<noteq> KindICal then Inl ErrNotICal
          else
            (case primaryComponent (lb_U L) (Some ob) of
               None \<Rightarrow> Inl ErrNotTodo
             | Some c \<Rightarrow>
                 if ToUpper (lb_U L) (cm_Name c) \<noteq> ''VTODO'' then Inl ErrNotTodo
                 else
                   (let props = cm_Props c
                    in Inr \<lparr>td_UID = ob_UID L (Some ob), td_Summary = icalPropText L props ''SUMMARY'',
                            td_Description = icalPropText L props ''DESCRIPTION'', td_Location = icalPropText L props ''LOCATION'',
                            td_Status = ToUpper (lb_U L) (icalPropRaw L props ''STATUS''), td_Categories = categories_of L props,
                            td_Start = prop_time L loc props ''DTSTART'', td_Due = prop_time L loc props ''DUE'',
                            td_Completed = prop_time L loc props ''COMPLETED'',
                            td_DueDateOnly = (case lb_props_Get L props ''DUE'' of None \<Rightarrow> False | Some p \<Rightarrow> lb_is_date L p),
                            td_Priority = atoiOr (icalPropRaw L props ''PRIORITY'') 0,
                            td_PercentComplete = atoiOr (icalPropRaw L props ''PERCENT-COMPLETE'') 0,
                            td_Modified = prop_time L loc props ''LAST-MODIFIED'',
                            td_Related = relationsFrom L props, td_Attachments = attachmentsFrom L props,
                            td_Other = others (lb_U L) knownTodoProps ob\<rparr>)))"

definition td_DisplayTitle :: "Todo \<Rightarrow> string" where
  "td_DisplayTitle t =
     (let s = TrimSpace (td_Summary t);
          line = firstLine (td_Description t)
      in if s \<noteq> [] then s
         else if line \<noteq> [] then line
         else if td_UID t \<noteq> [] then td_UID t else ''(untitled task)'')"

definition td_Done :: "Todo \<Rightarrow> bool" where
  "td_Done t \<longleftrightarrow> td_Status t = TaskCompleted \<or> (\<not> is_zero (td_Completed t) \<and> td_Status t = [])"

definition td_Open :: "Todo \<Rightarrow> bool" where
  "td_Open t \<longleftrightarrow> \<not> td_Done t \<and> td_Status t \<noteq> TaskCancelled"

definition td_Overdue :: "Todo \<Rightarrow> time \<Rightarrow> bool" where
  "td_Overdue t now \<longleftrightarrow> td_Open t \<and> \<not> is_zero (td_Due t) \<and> td_Due t < now"

definition td_SortKey :: "Todo \<Rightarrow> nat \<times> time" where
  "td_SortKey t =
     ((if td_Done t then 3 else if td_Status t = TaskCancelled then 2 else if is_zero (td_Due t) then 1 else 0), td_Due t)"

subsection \<open>Notes\<close>

record Note =
  nt_UID :: string
  nt_Summary :: string
  nt_Description :: string
  nt_Categories :: "string list"
  nt_Date :: time
  nt_DateOnly :: bool
  nt_Related :: "Relation list"
  nt_Attachments :: "Attachment list"
  nt_Other :: "NamedProperty list"

definition knownNoteProps :: "string list" where
  "knownNoteProps =
     [''UID'', ''SUMMARY'', ''DESCRIPTION'', ''CATEGORIES'', ''DTSTART'', ''DTSTAMP'', ''CREATED'', ''LAST-MODIFIED'',
      ''SEQUENCE'', ''STATUS'', ''CLASS'', ''RELATED-TO'', ''ATTACH'']"

definition ob_Note :: "dav_lib \<Rightarrow> string option \<Rightarrow> Object option \<Rightarrow> model_error + Note" where
  "ob_Note L loc o' =
     (case o' of None \<Rightarrow> Inl ErrNotICal
      | Some ob \<Rightarrow>
          if ob_kind ob \<noteq> KindICal then Inl ErrNotICal
          else
            (case primaryComponent (lb_U L) (Some ob) of
               None \<Rightarrow> Inl ErrNotJournal
             | Some c \<Rightarrow>
                 if ToUpper (lb_U L) (cm_Name c) \<noteq> ''VJOURNAL'' then Inl ErrNotJournal
                 else
                   (let props = cm_Props c
                    in Inr \<lparr>nt_UID = ob_UID L (Some ob), nt_Summary = icalPropText L props ''SUMMARY'',
                            nt_Description = icalPropText L props ''DESCRIPTION'', nt_Categories = categories_of L props,
                            nt_Date = prop_time L loc props ''DTSTART'',
                            nt_DateOnly = (case lb_props_Get L props ''DTSTART'' of None \<Rightarrow> False | Some p \<Rightarrow> lb_is_date L p),
                            nt_Related = relationsFrom L props, nt_Attachments = attachmentsFrom L props,
                            nt_Other = others (lb_U L) knownNoteProps ob\<rparr>)))"

definition nt_DisplayTitle :: "Note \<Rightarrow> string" where
  "nt_DisplayTitle n =
     (let s = TrimSpace (nt_Summary n);
          line = firstLine (nt_Description n)
      in if s \<noteq> [] then s
         else if line \<noteq> [] then line
         else if nt_UID n \<noteq> [] then nt_UID n else ''(empty note)'')"

definition nt_Excerpt :: "Note \<Rightarrow> int \<Rightarrow> string" where
  "nt_Excerpt n limit =
     (let body = TrimSpace (nt_Description n)
      in if TrimSpace (nt_Summary n) = []
         then (case Cut body CHR 0x0A of
                 (_, rest, True) \<Rightarrow> truncateRunes (collapseSpace (TrimSpace rest)) limit
               | (_, _, False) \<Rightarrow> [])
         else truncateRunes (collapseSpace body) limit)"

subsection \<open>Occurrences\<close>

record Occurrence =
  oc_UID :: string
  oc_Path :: string
  oc_ETag :: string
  oc_Summary :: string
  oc_Location :: string
  oc_Start :: time
  oc_End :: time
  oc_StartTZID :: string
  oc_AllDay :: bool
  oc_Recurring :: bool

definition overlaps :: "time \<Rightarrow> time \<Rightarrow> time \<Rightarrow> time \<Rightarrow> bool" where
  "overlaps start stop f t =
     (if is_zero start then False
      else
        (let stop = (if is_zero stop \<or> \<not> start < stop then time_add start minute else stop)
         in start < t \<and> f < stop))"

definition ExpandOccurrences :: "dav_lib \<Rightarrow> time \<Rightarrow> time \<Rightarrow> string option \<Rightarrow> Object option \<Rightarrow> model_error + Occurrence list" where
  "ExpandOccurrences L f t loc o' =
     (case o' of None \<Rightarrow> Inl ErrNotICal
      | Some ob \<Rightarrow>
          if ob_kind ob \<noteq> KindICal then Inl ErrNotICal
          else
            (case primaryEvent L (Some ob) of
               None \<Rightarrow> Inr []
             | Some c \<Rightarrow>
                 (case lb_DateTimeStart L loc c of
                    None \<Rightarrow> Inl ErrDTSTART
                  | Some start \<Rightarrow>
                      (case lb_DateTimeEnd L loc c of
                         None \<Rightarrow> Inl ErrDTEND
                       | Some stop \<Rightarrow>
                           (let props = cm_Props c;
                                p = lb_props_Get L props ''DTSTART'';
                                dur = time_sub stop start;
                                dur = (if dur < 0 then 0 else dur);
                                occurrence = (\<lambda>s e recurring.
                                  \<lparr>oc_UID = ob_UID L (Some ob), oc_Path = ob_Path ob, oc_ETag = ob_ETag ob,
                                   oc_Summary = icalPropText L props ''SUMMARY'', oc_Location = icalPropText L props ''LOCATION'',
                                   oc_Start = s, oc_End = e,
                                   oc_StartTZID = (case p of None \<Rightarrow> [] | Some p \<Rightarrow> TrimSpace (lb_params_Get L (pr_Params p) ''TZID'')),
                                   oc_AllDay = (case p of None \<Rightarrow> False | Some p \<Rightarrow> lb_is_date L p),
                                   oc_Recurring = recurring\<rparr>)
                            in (case lb_RecurrenceSet L loc c of
                                  None \<Rightarrow> Inl ErrRRULE
                                | Some None \<Rightarrow>
                                    if overlaps start stop f t then Inr [occurrence start stop False] else Inr []
                                | Some (Some between) \<Rightarrow>
                                    (let windowStart = time_add f (- dur);
                                         windowStart = (if f < windowStart then f else windowStart)
                                     in Inr (map (\<lambda>s. occurrence s (time_add s dur) True)
                                          (filter (\<lambda>s. overlaps s (time_add s dur) f t) (between windowStart t))))))))))"

subsection \<open>Properties\<close>

text \<open>A task is open, done or cancelled, never two of them, and only an open one is overdue.\<close>

lemma task_states:
  "td_Done t \<longleftrightarrow> \<not> td_Open t \<and> td_Status t \<noteq> TaskCancelled" "td_Overdue t now \<Longrightarrow> td_Open t"
  by (auto simp: td_Open_def td_Done_def td_Overdue_def TaskCompleted_def TaskCancelled_def)


definition demo_cal :: Object where
  "demo_cal = \<lparr>ob_Path = ''/e.ics'', ob_ETag = ''1'', ob_kind = KindICal, ob_card = None, ob_cal = Some (Component ''VCALENDAR'' [] [])\<rparr>"

definition demo_cal_lib :: "duration \<Rightarrow> dav_lib" where
  "demo_cal_lib d = demo_lib\<lparr>lb_DateTimeStart := \<lambda>_ _. Some (10 * hour), lb_DateTimeEnd := \<lambda>_ _. Some (10 * hour + d),
     lb_Events := \<lambda>c. [c],
     lb_RecurrenceSet := \<lambda>_ _. Some (Some (\<lambda>x y. filter (\<lambda>s. x \<le> s \<and> s \<le> y) [10 * hour, 34 * hour, 58 * hour]))\<rparr>"


text \<open>
  An event without length counts as a minute long when the overlap is tested, but the window is not
  padded by that minute: an occurrence half a minute before the window is shown of a single event and
  not of a recurring one.
\<close>

lemma instant_occurrence_missed:
  "ExpandOccurrences (demo_cal_lib 0) (34 * hour + 30 * second) (40 * hour) None (Some demo_cal) = Inr []"
  "overlaps (34 * hour) (34 * hour) (34 * hour + 30 * second) (40 * hour)"
  by (simp_all add: ExpandOccurrences_def primaryEvent_def demo_cal_def demo_cal_lib_def overlaps_def time_add_def
      time_sub_def sat64_def is_zero_def duration_defs int64_min_def int64_max_def Let_def)

end
