(* ===== verification/MergeScore.thy ===== *)
theory MergeScore
  imports MergeNormalize ModelContact ModelCalendar
begin

text \<open>
  \<open>internal/merge/fingerprint.go\<close> and \<open>score.go\<close>: the comparable shape of a record and how strongly two of
  them look like the same thing. Times are in UTC; \<open>Format(time.RFC3339)\<close> of a UTC time is written out.
\<close>

subsection \<open>Times as text\<close>

definition pad :: "nat \<Rightarrow> nat \<Rightarrow> string" where
  "pad w n = (let s = dec_nat n in replicate (w - length s) CHR ''0'' @ s)"

text \<open>Year, month and day of a day counted from 1 January of the year 1.\<close>

definition civil :: "int \<Rightarrow> int \<times> int \<times> int" where
  "civil days =
     (let z = days + 306;
          era = z div 146097;
          doe = z mod 146097;
          yoe = (doe - doe div 1460 + doe div 36524 - doe div 146096) div 365;
          doy = doe - (365 * yoe + yoe div 4 - yoe div 100);
          mp = (5 * doy + 2) div 153;
          d = doy - (153 * mp + 2) div 5 + 1;
          m = (if mp < 10 then mp + 3 else mp - 9)
      in (yoe + era * 400 + (if m \<le> 2 then 1 else 0), m, d))"

definition RFC3339 :: "time \<Rightarrow> string" where
  "RFC3339 t =
     (let s = t div second;
          (y, m, d) = civil (s div 86400);
          r = s mod 86400
      in (if y < 0 then ''-'' @ pad 4 (nat (- y)) else pad 4 (nat y)) @ ''-'' @ pad 2 (nat m) @ ''-'' @ pad 2 (nat d) @ ''T'' @
         pad 2 (nat (r div 3600)) @ '':'' @ pad 2 (nat (r mod 3600 div 60)) @ '':'' @ pad 2 (nat (r mod 60)) @ ''Z'')"

subsection \<open>Fingerprints\<close>

datatype Kind = KindContact | KindEvent | KindTodo | KindNote

record Fingerprint =
  fp_Kind :: Kind
  fp_UID :: string
  fp_Name :: string
  fp_Emails :: "string list"
  fp_Phones :: "string list"
  fp_Birthday :: string
  fp_Start :: time

definition FingerprintContact :: "unicode \<Rightarrow> Contact \<Rightarrow> Fingerprint" where
  "FingerprintContact U c =
     \<lparr>fp_Kind = KindContact, fp_UID = TrimSpace (ct_UID c), fp_Name = NormalizeName U (ct_DisplayName c),
      fp_Emails = NormalizedEmails U c,
      fp_Phones = distinct_loop (filter (\<lambda>k. k \<noteq> []) (map (\<lambda>p. PhoneKey U (lv_Value p)) (ct_Phones c))) [] [],
      fp_Birthday = BirthdayKey (ct_Birthday c), fp_Start = 0\<rparr>"

definition FingerprintEvent :: "unicode \<Rightarrow> Event \<Rightarrow> Fingerprint" where
  "FingerprintEvent U e =
     \<lparr>fp_Kind = KindEvent, fp_UID = TrimSpace (ev_UID e), fp_Name = NormalizeName U (ev_Summary e),
      fp_Emails = [], fp_Phones = [], fp_Birthday = [],
      fp_Start = (if \<not> is_zero (ev_Start e) then ev_Start e else 0)\<rparr>"

definition FingerprintTodo :: "unicode \<Rightarrow> Todo \<Rightarrow> Fingerprint" where
  "FingerprintTodo U t =
     \<lparr>fp_Kind = KindTodo, fp_UID = TrimSpace (td_UID t), fp_Name = NormalizeName U (td_Summary t),
      fp_Emails = [], fp_Phones = [], fp_Birthday = [], fp_Start = 0\<rparr>"

definition FingerprintNote :: "unicode \<Rightarrow> Note \<Rightarrow> Fingerprint" where
  "FingerprintNote U n =
     \<lparr>fp_Kind = KindNote, fp_UID = TrimSpace (nt_UID n), fp_Name = NormalizeName U (nt_Summary n),
      fp_Emails = [], fp_Phones = [], fp_Birthday = [],
      fp_Start = (if \<not> is_zero (nt_Date n) then nt_Date n else 0)\<rparr>"

definition fp_Empty :: "Fingerprint \<Rightarrow> bool" where
  "fp_Empty f \<longleftrightarrow> fp_UID f = [] \<and> fp_Name f = [] \<and> length (fp_Emails f) = 0 \<and> length (fp_Phones f) = 0 \<and> is_zero (fp_Start f)"

definition namePrefixLen :: nat where "namePrefixLen = 4"

text \<open>The loop keeps letters until there are four of them.\<close>

fun prefix_loop :: "rune list \<Rightarrow> rune list \<Rightarrow> rune list" where
  "prefix_loop [] letters = letters"
| "prefix_loop (r # rs) letters =
     (let letters = letters @ [r]
      in if length letters = namePrefixLen then letters else prefix_loop rs letters)"

definition namePrefix :: "string \<Rightarrow> string" where
  "namePrefix name = string_of_runes (prefix_loop (runes (delete_byte CHR '' '' name)) [])"

definition buckets :: "Fingerprint \<Rightarrow> string list" where
  "buckets f =
     (if fp_UID f \<noteq> [] then [''u:'' @ fp_UID f] else []) @
     map (\<lambda>e. ''e:'' @ e) (fp_Emails f) @
     map (\<lambda>p. ''p:'' @ p) (fp_Phones f) @
     (if namePrefix (fp_Name f) \<noteq> [] then [''n:'' @ namePrefix (fp_Name f)] else []) @
     (if \<not> is_zero (fp_Start f) then [''t:'' @ RFC3339 (fp_Start f)] else [])"

subsection \<open>Scores\<close>

definition WeightEmail :: int where "WeightEmail = 60"
definition WeightPhone :: int where "WeightPhone = 60"
definition WeightUID :: int where "WeightUID = 60"
definition WeightName :: int where "WeightName = 30"
definition WeightNameClose :: int where "WeightNameClose = 20"
definition WeightNameLoose :: int where "WeightNameLoose = 10"
definition WeightBirthday :: int where "WeightBirthday = 20"
definition WeightStartSummary :: int where "WeightStartSummary = 60"
definition similarityClose :: nat where "similarityClose = 90"
definition similarityLoose :: nat where "similarityLoose = 80"
definition DefaultThreshold :: int where "DefaultThreshold = 60"

lemmas weight_defs = WeightEmail_def WeightPhone_def WeightUID_def WeightName_def WeightNameClose_def
  WeightNameLoose_def WeightBirthday_def WeightStartSummary_def

definition SignalEmail :: string where "SignalEmail = ''address''"
definition SignalPhone :: string where "SignalPhone = ''phone''"
definition SignalUID :: string where "SignalUID = ''uid''"
definition SignalName :: string where "SignalName = ''name''"
definition SignalBirthday :: string where "SignalBirthday = ''birthday''"
definition SignalStart :: string where "SignalStart = ''start''"

definition nameWeight :: "string \<Rightarrow> string \<Rightarrow> int" where
  "nameWeight a b =
     (if a = [] \<or> b = [] then 0
      else (let ratio = similarity a b
            in if 100 \<le> ratio then WeightName
               else if similarityClose \<le> ratio then WeightNameClose
               else if similarityLoose \<le> ratio then WeightNameLoose
               else 0))"

definition sharesAny :: "string list \<Rightarrow> string list \<Rightarrow> bool" where
  "sharesAny a b =
     (if length a = 0 \<or> length b = 0 then False
      else list_ex (\<lambda>left. list_ex (\<lambda>right. left \<noteq> [] \<and> left = right) b) a)"

definition scoreContact :: "Fingerprint \<Rightarrow> Fingerprint \<Rightarrow> int \<times> string list" where
  "scoreContact a b =
     (let (score, signals) = (0, []);
          (score, signals) = (if fp_UID a \<noteq> [] \<and> fp_UID a = fp_UID b then (score + WeightUID, signals @ [SignalUID]) else (score, signals));
          (score, signals) = (if sharesAny (fp_Emails a) (fp_Emails b) then (score + WeightEmail, signals @ [SignalEmail]) else (score, signals));
          (score, signals) = (if sharesAny (fp_Phones a) (fp_Phones b) then (score + WeightPhone, signals @ [SignalPhone]) else (score, signals));
          weight = nameWeight (fp_Name a) (fp_Name b);
          (score, signals) = (if 0 < weight then (score + weight, signals @ [SignalName]) else (score, signals))
      in if 0 < score \<and> birthdayMatch (fp_Birthday a) (fp_Birthday b) then (score + WeightBirthday, signals @ [SignalBirthday])
         else (score, signals))"

definition scoreEvent :: "Fingerprint \<Rightarrow> Fingerprint \<Rightarrow> int \<times> string list" where
  "scoreEvent a b =
     (if fp_UID a \<noteq> [] \<and> fp_UID a = fp_UID b then (WeightUID, [SignalUID])
      else if \<not> is_zero (fp_Start a) \<and> fp_Start a = fp_Start b \<and> fp_Name a \<noteq> [] \<and> fp_Name a = fp_Name b
      then (WeightStartSummary, [SignalStart, SignalName])
      else (0, []))"

definition Score :: "Fingerprint \<Rightarrow> Fingerprint \<Rightarrow> int \<times> string list" where
  "Score a b =
     (if fp_Kind a \<noteq> fp_Kind b \<or> fp_Empty a \<or> fp_Empty b then (0, [])
      else if fp_Kind a = KindEvent then scoreEvent a b
      else scoreContact a b)"

subsection \<open>Lemmas\<close>

definition shares :: "string list \<Rightarrow> string list \<Rightarrow> bool" where
  "shares xs ys \<longleftrightarrow> (\<exists>x \<in> set xs \<inter> set ys. x \<noteq> [])"

lemma sharesAny_shares: "sharesAny a b = shares a b"
  by (auto simp: sharesAny_def shares_def list_ex_iff)

lemma shares_sym: "shares a b = shares b a"
  by (auto simp: shares_def)

lemma birthdayMatch_sym: "birthdayMatch a b = birthdayMatch b a"
proof (cases "length a" "length b" rule: linorder_cases)
  case equal
  show ?thesis
  proof (cases "a = b")
    case False
    have "suffix x y \<Longrightarrow> length x = length y \<Longrightarrow> x = y" for x y :: string by (auto elim: suffixE)
    then have "\<not> HasSuffix b a" "\<not> HasSuffix a b" using equal False unfolding HasSuffix_def by metis+
    then show ?thesis using equal False by (simp add: birthdayMatch_def)
  qed simp
qed (auto simp: birthdayMatch_def)

lemma similarity_sym: "similarity a b = similarity b a"
proof -
  have "levenshtein (runes a) (runes b) = levenshtein (runes b) (runes a)"
    by (simp add: levenshtein_ed ed_is_least edits_rev_iff edits_sym_iff [of _ "runes a"])
  then show ?thesis by (auto simp: similarity_def Let_def)
qed

lemma nameWeight_sym: "nameWeight a b = nameWeight b a"
  by (auto simp: nameWeight_def similarity_sym [of a b])

lemma nameWeight_range: "0 \<le> nameWeight a b \<and> nameWeight a b \<le> 30"
  by (auto simp: nameWeight_def weight_defs Let_def)

lemma nameWeight_exact: "a \<noteq> [] \<Longrightarrow> nameWeight a a = 30"
  by (simp add: nameWeight_def similarity_def weight_defs)

text \<open>The signals that identify on their own.\<close>

definition strong :: "Fingerprint \<Rightarrow> Fingerprint \<Rightarrow> bool" where
  "strong a b \<longleftrightarrow> (fp_UID a \<noteq> [] \<and> fp_UID a = fp_UID b) \<or>
     (if fp_Kind a = KindEvent then fp_Start a \<noteq> 0 \<and> fp_Start a = fp_Start b \<and> fp_Name a \<noteq> [] \<and> fp_Name a = fp_Name b
      else shares (fp_Emails a) (fp_Emails b) \<or> shares (fp_Phones a) (fp_Phones b))"

lemma strong_not_empty: "strong a b \<Longrightarrow> fp_Kind a = fp_Kind b \<Longrightarrow> \<not> fp_Empty a \<and> \<not> fp_Empty b"
  by (auto simp: strong_def fp_Empty_def shares_def is_zero_def zero_time_def split: if_splits)

lemma fst_scoreContact:
  "fst (scoreContact a b) =
     (let base = (if fp_UID a \<noteq> [] \<and> fp_UID a = fp_UID b then 60 else 0) + (if shares (fp_Emails a) (fp_Emails b) then 60 else 0) +
        (if shares (fp_Phones a) (fp_Phones b) then 60 else 0) + nameWeight (fp_Name a) (fp_Name b)
      in base + (if 0 < base \<and> birthdayMatch (fp_Birthday a) (fp_Birthday b) then 20 else 0))"
proof -
  have e: "(if c then (x + k, xs @ ys) else (x, xs)) = (x + (if c then k else 0), xs @ (if c then ys else []))"
    for c and x k :: int and xs ys :: "string list" by simp
  have w: "(if 0 < nameWeight m n then nameWeight m n else 0) = nameWeight m n" for m n using nameWeight_range [of m n] by simp
  show ?thesis unfolding scoreContact_def Let_def prod.case e sharesAny_shares w weight_defs by simp
qed

lemma scoreContact_sym: "scoreContact a b = scoreContact b a"
proof -
  have u: "(fp_UID b \<noteq> [] \<and> fp_UID b = fp_UID a) = (fp_UID a \<noteq> [] \<and> fp_UID a = fp_UID b)" by auto
  show ?thesis
    unfolding scoreContact_def sharesAny_shares u shares_sym [of "fp_Emails b" "fp_Emails a"]
      shares_sym [of "fp_Phones b" "fp_Phones a"] nameWeight_sym [of "fp_Name b" "fp_Name a"]
      birthdayMatch_sym [of "fp_Birthday b" "fp_Birthday a"] by (rule refl)
qed

lemma Score_sym: "Score a b = Score b a"
  by (auto simp: Score_def scoreContact_sym [of b a] scoreEvent_def)

lemma score_strong: "DefaultThreshold \<le> fst (Score a b) \<longleftrightarrow> fp_Kind a = fp_Kind b \<and> strong a b"
proof (cases "fp_Kind a = fp_Kind b \<and> \<not> fp_Empty a \<and> \<not> fp_Empty b")
  case False
  then show ?thesis using strong_not_empty [of a b] by (auto simp: Score_def DefaultThreshold_def)
next
  case True
  have r: "0 \<le> nameWeight (fp_Name a) (fp_Name b)" "nameWeight (fp_Name a) (fp_Name b) \<le> 30" using nameWeight_range by blast+
  then show ?thesis using True
    by (cases "fp_Kind a = KindEvent")
       (auto simp: Score_def DefaultThreshold_def fst_scoreContact scoreEvent_def strong_def is_zero_def weight_defs Let_def)
qed


definition demo_contact_print :: "string \<Rightarrow> string \<Rightarrow> Fingerprint" where
  "demo_contact_print name mail = \<lparr>fp_Kind = KindContact, fp_UID = [], fp_Name = name, fp_Emails = [mail], fp_Phones = [],
     fp_Birthday = ''2000'', fp_Start = 0\<rparr>"


text \<open>The date of a note is put in its fingerprint and never scored.\<close>

lemma note_date_not_scored:
  "Score (FingerprintNote U (n\<lparr>nt_Date := d\<rparr>)) (FingerprintNote U m) =
   (if TrimSpace (nt_UID n) = [] \<and> NormalizeName U (nt_Summary n) = [] then (0, [])
    else if fp_Empty (FingerprintNote U m) then (0, [])
    else scoreContact (FingerprintNote U (n\<lparr>nt_Date := 0\<rparr>)) (FingerprintNote U m))"
  by (auto simp: Score_def FingerprintNote_def fp_Empty_def scoreContact_def sharesAny_def nameWeight_def birthdayMatch_def Let_def)

end
