(* ===== verification/MergeCluster.thy ===== *)
theory MergeCluster
  imports MergeScore "HOL-Library.Product_Lexorder"
begin

text \<open>
  \<open>internal/merge/cluster.go\<close>: the pairs that score are joined by a union-find with path halving, and the
  sets of two or more are the groups a person is offered. \<open>find\<close> loops until it meets a root, so it is a
  \<open>partial_function\<close>; that it returns on every forest the code builds is proved. The order in which a Go
  map is ranged over is an argument of the definitions that range over one and are sensitive to it.
\<close>

subsection \<open>Union-find\<close>

record unionFind =
  uf_parent :: "nat list"
  uf_score :: "int list"
  uf_signals :: "string list list"

definition newUnionFind :: "nat \<Rightarrow> unionFind" where
  "newUnionFind n = \<lparr>uf_parent = [0 ..< n], uf_score = replicate n 0, uf_signals = replicate n []\<rparr>"

partial_function (option) uf_find :: "nat list \<Rightarrow> nat \<Rightarrow> (nat list \<times> nat) option" where
  "uf_find parent i =
     (if parent ! i = i then Some (parent, i)
      else (let parent = parent[i := parent ! (parent ! i)] in uf_find parent (parent ! i)))"

definition addSignal :: "nat \<Rightarrow> string \<Rightarrow> unionFind \<Rightarrow> unionFind" where
  "addSignal root signal u =
     (let s = uf_signals u ! root
      in u\<lparr>uf_signals := (uf_signals u)[root := (if signal \<in> set s then s else s @ [signal])]\<rparr>)"

definition attach_root :: "nat \<Rightarrow> nat \<Rightarrow> unionFind \<Rightarrow> unionFind" where
  "attach_root rootA rootB u =
     (if rootA \<noteq> rootB
      then (let u = u\<lparr>uf_parent := (uf_parent u)[rootB := rootA]\<rparr>;
                u = (if uf_score u ! rootA < uf_score u ! rootB
                     then u\<lparr>uf_score := (uf_score u)[rootA := uf_score u ! rootB]\<rparr> else u);
                u = fold (addSignal rootA) (uf_signals u ! rootB) u
            in u\<lparr>uf_signals := (uf_signals u)[rootB := []]\<rparr>)
      else u)"

definition raise_root :: "nat \<Rightarrow> int \<Rightarrow> string list \<Rightarrow> unionFind \<Rightarrow> unionFind" where
  "raise_root rootA score signals u =
     (let u = (if uf_score u ! rootA < score then u\<lparr>uf_score := (uf_score u)[rootA := score]\<rparr> else u)
      in fold (addSignal rootA) signals u)"

definition uf_union :: "nat \<Rightarrow> nat \<Rightarrow> int \<Rightarrow> string list \<Rightarrow> unionFind \<Rightarrow> unionFind option" where
  "uf_union a b score signals u =
     (case uf_find (uf_parent u) a of
        None \<Rightarrow> None
      | Some (p, rootA) \<Rightarrow>
          (case uf_find p b of
             None \<Rightarrow> None
           | Some (p, rootB) \<Rightarrow> Some (raise_root rootA score signals (attach_root rootA rootB (u\<lparr>uf_parent := p\<rparr>)))))"

fun group_loop :: "nat list \<Rightarrow> nat list \<Rightarrow> (nat, nat list) gomap \<Rightarrow> (nat, nat list) gomap option" where
  "group_loop p [] members = Some members"
| "group_loop p (i # is) members =
     (case uf_find p i of
        None \<Rightarrow> None
      | Some (p, root) \<Rightarrow>
          group_loop p is (gm_put root ((case gm_get members root of None \<Rightarrow> [] | Some l \<Rightarrow> l) @ [i]) members))"

subsection \<open>Clusters\<close>

record Options =
  op_Threshold :: int
  op_Skip :: "(nat \<Rightarrow> nat \<Rightarrow> bool) option"

definition op_threshold :: "Options \<Rightarrow> int" where
  "op_threshold o' = (if op_Threshold o' \<le> 0 then DefaultThreshold else op_Threshold o')"

definition op_skips :: "Options \<Rightarrow> nat \<Rightarrow> nat \<Rightarrow> bool" where
  "op_skips o' a b = (case op_Skip o' of None \<Rightarrow> False | Some skip \<Rightarrow> skip a b)"

record Cluster =
  cl_Indexes :: "nat list"
  cl_Score :: int
  cl_Signals :: "string list"

definition uf_clusters :: "unionFind \<Rightarrow> Cluster list option" where
  "uf_clusters u =
     (case group_loop (uf_parent u) [0 ..< length (uf_parent u)] [] of
        None \<Rightarrow> None
      | Some members \<Rightarrow>
          Some (sort_key (\<lambda>c. hd (cl_Indexes c))
            (map (\<lambda>(root, indexes). \<lparr>cl_Indexes = sort indexes, cl_Score = uf_score u ! root, cl_Signals = sort (uf_signals u ! root)\<rparr>)
              (filter (\<lambda>(root, indexes). \<not> length indexes < 2) members))))"

definition put_bucket :: "nat \<Rightarrow> string \<Rightarrow> (string, nat list) gomap \<Rightarrow> (string, nat list) gomap" where
  "put_bucket i key m = gm_put key ((case gm_get m key of None \<Rightarrow> [] | Some l \<Rightarrow> l) @ [i]) m"

definition bucket_map :: "Fingerprint list \<Rightarrow> (string, nat list) gomap" where
  "bucket_map prints =
     fold (\<lambda>i m. if fp_Empty (prints ! i) then m else fold (put_bucket i) (buckets (prints ! i)) m) [0 ..< length prints] []"

fun pairs_of :: "'a list \<Rightarrow> ('a \<times> 'a) list" where
  "pairs_of [] = []"
| "pairs_of (x # xs) = map (Pair x) xs @ pairs_of xs"

definition score_pair ::
    "Fingerprint list \<Rightarrow> Options \<Rightarrow> nat \<times> nat \<Rightarrow> (nat \<times> nat) list \<times> unionFind option \<Rightarrow> (nat \<times> nat) list \<times> unionFind option" where
  "score_pair prints opts = (\<lambda>(x, y) (scored, sets).
     (let (a, b) = (if y < x then (y, x) else (x, y))
      in if (a, b) \<in> set scored then (scored, sets)
         else
           (let scored = (a, b) # scored
            in if op_skips opts a b then (scored, sets)
               else
                 (let (score, signals) = Score (prints ! a) (prints ! b)
                  in if score < op_threshold opts then (scored, sets)
                     else (scored, Option.bind sets (uf_union a b score signals))))))"

definition Clusters ::
    "((string \<times> nat list) list \<Rightarrow> (string \<times> nat list) list) \<Rightarrow> Fingerprint list \<Rightarrow> Options \<Rightarrow> Cluster list option" where
  "Clusters ranged prints opts =
     (let pairs = concat (map (\<lambda>(key, members). pairs_of members) (ranged (bucket_map prints)));
          (scored, sets) = fold (score_pair prints opts) pairs ([], Some (newUnionFind (length prints)))
      in Option.bind sets uf_clusters)"

fun sets_loop :: "nat \<Rightarrow> (int \<times> int) list \<Rightarrow> unionFind \<Rightarrow> unionFind option" where
  "sets_loop n [] u = Some u"
| "sets_loop n ((x, y) # pairs) u =
     (if x < 0 \<or> y < 0 \<or> int n \<le> x \<or> int n \<le> y then sets_loop n pairs u
      else Option.bind (uf_union (nat x) (nat y) 0 [] u) (sets_loop n pairs))"

definition Sets :: "nat \<Rightarrow> (int \<times> int) list \<Rightarrow> nat list list option" where
  "Sets n pairs =
     (case sets_loop n pairs (newUnionFind n) of
        None \<Rightarrow> None
      | Some u \<Rightarrow>
          (case group_loop (uf_parent u) [0 ..< n] [] of
             None \<Rightarrow> None
           | Some members \<Rightarrow> Some (sort_key hd (map (\<lambda>(root, indexes). sort indexes) members))))"

subsection \<open>Candidates\<close>

record Record =
  rc_AccountID :: string
  rc_Collection :: string
  rc_AccountLabel :: string
  rc_CollectionLabel :: string
  rc_Color :: string
  rc_ReadOnly :: bool
  rc_Object :: "Object option"

definition rc_UID :: "dav_lib \<Rightarrow> Record \<Rightarrow> string" where "rc_UID L r = ob_UID L (rc_Object r)"

definition rc_Key :: "dav_lib \<Rightarrow> Record \<Rightarrow> string" where
  "rc_Key L r = rc_AccountID r @ ''|'' @ rc_Collection r @ ''|'' @ rc_UID L r"

record Candidate =
  cd_Kind :: Kind
  cd_Members :: "Record list"
  cd_Score :: int
  cd_Signals :: "string list"

definition candidates ::
    "dav_lib \<Rightarrow> ((string \<times> nat list) list \<Rightarrow> (string \<times> nat list) list) \<Rightarrow> Kind \<Rightarrow> Record list \<Rightarrow> Fingerprint list \<Rightarrow> Options \<Rightarrow>
     Candidate list option" where
  "candidates L ranged kind records prints opts =
     map_option (\<lambda>clusters. sort_key (\<lambda>g. (- cd_Score g, rc_Key L (hd (cd_Members g))))
       (map (\<lambda>c. \<lparr>cd_Kind = kind, cd_Members = sort_key (rc_Key L) (map (\<lambda>at. records ! at) (cl_Indexes c)),
                  cd_Score = cl_Score c, cd_Signals = cl_Signals c\<rparr>) clusters))
     (Clusters ranged prints opts)"

definition contact_print :: "dav_lib \<Rightarrow> Record \<Rightarrow> (Record \<times> Fingerprint) option" where
  "contact_print L r =
     (case rc_Object r of
        None \<Rightarrow> None
      | Some ob \<Rightarrow>
          if ob_kind ob \<noteq> KindVCard then None
          else (case ob_Contact L (Some ob) of Inl _ \<Rightarrow> None | Inr c \<Rightarrow> Some (r, FingerprintContact (lb_U L) c)))"

definition event_print :: "dav_lib \<Rightarrow> string option \<Rightarrow> Record \<Rightarrow> (Record \<times> Fingerprint) option" where
  "event_print L loc r =
     (if rc_Object r = None \<or> ob_Component (lb_U L) (rc_Object r) \<noteq> ''VEVENT'' then None
      else (case ob_Event L loc (rc_Object r) of Inl _ \<Rightarrow> None | Inr e \<Rightarrow> Some (r, FingerprintEvent (lb_U L) e)))"

definition todo_print :: "dav_lib \<Rightarrow> string option \<Rightarrow> Record \<Rightarrow> (Record \<times> Fingerprint) option" where
  "todo_print L loc r =
     (if rc_Object r = None \<or> ob_Component (lb_U L) (rc_Object r) \<noteq> ''VTODO'' then None
      else (case ob_Todo L loc (rc_Object r) of Inl _ \<Rightarrow> None | Inr t \<Rightarrow> Some (r, FingerprintTodo (lb_U L) t)))"

definition note_print :: "dav_lib \<Rightarrow> string option \<Rightarrow> Record \<Rightarrow> (Record \<times> Fingerprint) option" where
  "note_print L loc r =
     (if rc_Object r = None \<or> ob_Component (lb_U L) (rc_Object r) \<noteq> ''VJOURNAL'' then None
      else (case ob_Note L loc (rc_Object r) of Inl _ \<Rightarrow> None | Inr n \<Rightarrow> Some (r, FingerprintNote (lb_U L) n)))"

definition DetectContacts where
  "DetectContacts L ranged records opts =
     (let kept = List.map_filter (contact_print L) records
      in candidates L ranged KindContact (map fst kept) (map snd kept) opts)"

text \<open>A nil location is UTC in the three functions of calendar objects.\<close>

definition utc :: "string option \<Rightarrow> string option" where
  "utc loc = (case loc of None \<Rightarrow> Some ''UTC'' | Some l \<Rightarrow> Some l)"

definition DetectEvents where
  "DetectEvents L ranged records loc opts =
     (let kept = List.map_filter (event_print L (utc loc)) records
      in candidates L ranged KindEvent (map fst kept) (map snd kept) opts)"

definition DetectTodos where
  "DetectTodos L ranged records loc opts =
     (let kept = List.map_filter (todo_print L (utc loc)) records
      in candidates L ranged KindTodo (map fst kept) (map snd kept) opts)"

definition DetectNotes where
  "DetectNotes L ranged records loc opts =
     (let kept = List.map_filter (note_print L (utc loc)) records
      in candidates L ranged KindNote (map fst kept) (map snd kept) opts)"

subsection \<open>The forest\<close>

text \<open>
  A forest over \<open>n\<close> positions, described by the root of each position and by a rank that falls on the way
  to it.
\<close>

definition forest :: "nat \<Rightarrow> (nat \<Rightarrow> nat) \<Rightarrow> (nat \<Rightarrow> nat) \<Rightarrow> nat list \<Rightarrow> bool" where
  "forest n rep rank p \<longleftrightarrow> length p = n \<and>
     (\<forall>i < n. p ! i < n \<and> rep (p ! i) = rep i \<and> (p ! i = i \<longleftrightarrow> rep i = i) \<and> (p ! i \<noteq> i \<longrightarrow> rank (p ! i) < rank i))"

lemma forest_rep:
  "forest n rep rank p \<Longrightarrow> i < n \<Longrightarrow> rep i < n \<and> rep (rep i) = rep i"
proof (induction "rank i" arbitrary: i rule: less_induct)
  case less
  then have i: "p ! i < n" "rep (p ! i) = rep i" "p ! i = i \<longleftrightarrow> rep i = i" "p ! i \<noteq> i \<longrightarrow> rank (p ! i) < rank i"
    by (auto simp: forest_def)
  show ?case
  proof (cases "p ! i = i")
    case True
    then show ?thesis using i less.prems by simp
  next
    case False
    then show ?thesis using less.hyps [of "p ! i"] i less.prems by simp
  qed
qed

lemma forest_new: "forest n (\<lambda>i. i) (\<lambda>_. 0) [0 ..< n]"
  by (simp add: forest_def)

lemma forest_halve:
  assumes f: "forest n rep rank p" and i: "i < n" and ne: "p ! i \<noteq> i"
  shows "forest n rep rank (p[i := p ! (p ! i)])"
proof -
  let ?j = "p ! i" and ?k = "p ! (p ! i)"
  have j: "?j < n" "rep ?j = rep i" "rank ?j < rank i" "rep i \<noteq> i" using f i ne by (auto simp: forest_def)
  have k: "?k < n" "rep ?k = rep ?j" "?k = ?j \<or> rank ?k < rank ?j" using f j(1) by (auto simp: forest_def)
  have ki: "?k \<noteq> i" "rank ?k < rank i" "rep ?k = rep i" using k(2,3) j(2,3) ne by auto
  have "p[i := ?k] ! x < n \<and> rep (p[i := ?k] ! x) = rep x \<and> (p[i := ?k] ! x = x \<longleftrightarrow> rep x = x) \<and>
      (p[i := ?k] ! x \<noteq> x \<longrightarrow> rank (p[i := ?k] ! x) < rank x)" if x: "x < n" for x
  proof (cases "x = i")
    case True
    have "p[i := ?k] ! x = ?k" using True i f by (simp add: forest_def)
    then show ?thesis using True ki k(1) j(4) by simp
  next
    case False
    then have "p[i := ?k] ! x = p ! x" by simp
    then show ?thesis using f x unfolding forest_def by simp
  qed
  moreover have "length (p[i := ?k]) = n" using f by (simp add: forest_def)
  ultimately show ?thesis unfolding forest_def by blast
qed

lemma uf_find_forest:
  "forest n rep rank p \<Longrightarrow> i < n \<Longrightarrow> \<exists>p'. uf_find p i = Some (p', rep i) \<and> forest n rep rank p'"
proof (induction "rank i" arbitrary: i p rule: less_induct)
  case less
  show ?case
  proof (cases "p ! i = i")
    case True
    then have "rep i = i" using less.prems unfolding forest_def by blast
    moreover have "uf_find p i = Some (p, i)" using True by (subst uf_find.simps) simp
    ultimately show ?thesis using less.prems by simp
  next
    case False
    let ?p = "p[i := p ! (p ! i)]" and ?k = "p ! (p ! i)"
    have len: "length p = n" using less.prems by (simp add: forest_def)
    have f: "forest n rep rank ?p" using forest_halve less.prems False by blast
    have at: "?p ! i = ?k" using less.prems(2) len by simp
    have k: "?k < n" "rep ?k = rep i" "?k \<noteq> i" "rank ?k < rank i"
    proof -
      have "p ! i < n" "rep (p ! i) = rep i" "rank (p ! i) < rank i" "rep i \<noteq> i" using less.prems False by (auto simp: forest_def)
      moreover from this have "?k < n" "rep ?k = rep (p ! i)" "?k = p ! i \<or> rank ?k < rank (p ! i)"
        using less.prems(1) by (auto simp: forest_def)
      ultimately show "?k < n" "rep ?k = rep i" "?k \<noteq> i" "rank ?k < rank i" using False by auto
    qed
    have "uf_find p i = uf_find ?p ?k" using False at by (subst uf_find.simps) (simp add: Let_def)
    then show ?thesis using less.hyps [OF k(4) f k(1)] k(2) by simp
  qed
qed

lemma forest_link:
  assumes f: "forest n rep rank p" and a: "a < n" "rep a = a" and b: "b < n" "rep b = b" and ne: "a \<noteq> b"
  shows "forest n (\<lambda>i. if rep i = b then a else rep i) (\<lambda>i. if rep i = b then rank i + rank a + 1 else rank i) (p[b := a])"
  unfolding forest_def
proof (intro conjI allI impI)
  show "length (p[b := a]) = n" using f by (simp add: forest_def)
  fix i assume i: "i < n"
  have p: "length p = n" "p ! i < n" "rep (p ! i) = rep i" "p ! i = i \<longleftrightarrow> rep i = i" "p ! i \<noteq> i \<longrightarrow> rank (p ! i) < rank i"
    using f i by (auto simp: forest_def)
  have at: "p[b := a] ! i = (if i = b then a else p ! i)" using p(1) b(1) by simp
  show "p[b := a] ! i < n" using p a(1) at by simp
  show "(if rep (p[b := a] ! i) = b then a else rep (p[b := a] ! i)) = (if rep i = b then a else rep i)"
    using p a b ne at by auto
  show "(p[b := a] ! i = i) = ((if rep i = b then a else rep i) = i)" using p a b ne at by auto
  assume "p[b := a] ! i \<noteq> i"
  then show "(if rep (p[b := a] ! i) = b then rank (p[b := a] ! i) + rank a + 1 else rank (p[b := a] ! i)) <
    (if rep i = b then rank i + rank a + 1 else rank i)"
    using p a b ne at by auto
qed

subsection \<open>Connected positions\<close>

definition conn :: "('a \<times> 'a) set \<Rightarrow> ('a \<times> 'a) set" where "conn E = (E \<union> E\<inverse>)\<^sup>*"

lemma conn_refl [simp]: "(x, x) \<in> conn E"
  by (simp add: conn_def)

lemma conn_edge: "(x, y) \<in> E \<Longrightarrow> (x, y) \<in> conn E"
  by (auto simp: conn_def)

lemma conn_trans: "(x, y) \<in> conn E \<Longrightarrow> (y, z) \<in> conn E \<Longrightarrow> (x, z) \<in> conn E"
  by (auto simp: conn_def)

lemma conn_sym: "(x, y) \<in> conn E \<Longrightarrow> (y, x) \<in> conn E"
proof -
  have "sym ((E \<union> E\<inverse>)\<^sup>*)" by (rule sym_rtrancl) (auto simp: sym_def)
  then show "(x, y) \<in> conn E \<Longrightarrow> (y, x) \<in> conn E" by (auto simp: conn_def sym_def)
qed

lemma conn_mono: "E \<subseteq> F \<Longrightarrow> conn E \<subseteq> conn F"
  unfolding conn_def by (rule rtrancl_mono) auto

lemma conn_empty [simp]: "(x, y) \<in> conn {} \<longleftrightarrow> x = y"
  by (simp add: conn_def)

lemma conn_insert:
  "(x, y) \<in> conn (insert (a, b) E) \<longleftrightarrow> (x, y) \<in> conn E \<or> ((x, a) \<in> conn E \<and> (b, y) \<in> conn E) \<or> ((x, b) \<in> conn E \<and> (a, y) \<in> conn E)"
proof
  have up: "conn E \<subseteq> conn (insert (a, b) E)" by (rule conn_mono) auto
  have ab: "(a, b) \<in> conn (insert (a, b) E)" by (rule conn_edge) simp
  show "(x, y) \<in> conn E \<or> ((x, a) \<in> conn E \<and> (b, y) \<in> conn E) \<or> ((x, b) \<in> conn E \<and> (a, y) \<in> conn E) \<Longrightarrow> (x, y) \<in> conn (insert (a, b) E)"
    using up conn_trans [OF conn_trans [OF _ ab], of x y] conn_trans [OF conn_trans [OF _ conn_sym [OF ab]], of x y] by blast
  assume "(x, y) \<in> conn (insert (a, b) E)"
  then have "(x, y) \<in> (insert (a, b) E \<union> (insert (a, b) E)\<inverse>)\<^sup>*" by (simp add: conn_def)
  then show "(x, y) \<in> conn E \<or> ((x, a) \<in> conn E \<and> (b, y) \<in> conn E) \<or> ((x, b) \<in> conn E \<and> (a, y) \<in> conn E)"
  proof (induction rule: rtrancl_induct)
    case (step y z)
    consider "(y, z) \<in> E \<union> E\<inverse>" | "y = a \<and> z = b" | "y = b \<and> z = a" using step.hyps(2) by auto
    then show ?case
    proof cases
      case 1
      then have "(y, z) \<in> conn E" by (auto simp: conn_def)
      then show ?thesis using step.IH conn_trans by metis
    next
      case 2
      then show ?thesis using step.IH conn_refl conn_trans conn_sym by metis
    next
      case 3
      then show ?thesis using step.IH conn_refl conn_trans conn_sym by metis
    qed
  qed simp
qed

subsection \<open>What a union-find holds\<close>

text \<open>A joined pair with its score and its reasons.\<close>

type_synonym join = "nat \<times> nat \<times> int \<times> string list"

definition edges :: "join set \<Rightarrow> (nat \<times> nat) set" where "edges E = {(a, b). \<exists>s g. (a, b, s, g) \<in> E}"

definition scores_at :: "(nat \<Rightarrow> nat) \<Rightarrow> join set \<Rightarrow> nat \<Rightarrow> int set" where
  "scores_at rep E i = {s. \<exists>a b g. (a, b, s, g) \<in> E \<and> rep a = i}"

definition signals_at :: "(nat \<Rightarrow> nat) \<Rightarrow> join set \<Rightarrow> nat \<Rightarrow> string set" where
  "signals_at rep E i = {x. \<exists>a b s g. (a, b, s, g) \<in> E \<and> rep a = i \<and> x \<in> set g}"

definition is_best :: "int \<Rightarrow> int set \<Rightarrow> bool" where
  "is_best m S \<longleftrightarrow> 0 \<le> m \<and> (\<forall>s \<in> S. s \<le> m) \<and> (m = 0 \<or> m \<in> S)"

definition joined :: "nat \<Rightarrow> join set \<Rightarrow> (nat \<Rightarrow> nat) \<Rightarrow> unionFind \<Rightarrow> bool" where
  "joined n E rep u \<longleftrightarrow> (\<exists>rank. forest n rep rank (uf_parent u)) \<and> length (uf_score u) = n \<and> length (uf_signals u) = n \<and>
     (\<forall>(a, b, s, g) \<in> E. a < n \<and> b < n) \<and>
     (\<forall>i < n. \<forall>j < n. rep i = rep j \<longleftrightarrow> (i, j) \<in> conn (edges E)) \<and>
     (\<forall>i < n. rep i = i \<longrightarrow> is_best (uf_score u ! i) (scores_at rep E i) \<and>
        set (uf_signals u ! i) = signals_at rep E i \<and> distinct (uf_signals u ! i))"

lemma joined_new: "joined n {} (\<lambda>i. i) (newUnionFind n)"
proof -
  have "\<exists>rank. forest n (\<lambda>i. i) rank [0 ..< n]" using forest_new by blast
  then show ?thesis
    by (simp add: joined_def newUnionFind_def edges_def scores_at_def signals_at_def is_best_def)
qed

lemma fold_addSignal:
  "r < length (uf_signals u) \<Longrightarrow> distinct (uf_signals u ! r) \<Longrightarrow>
     \<exists>X. fold (addSignal r) gs u = u\<lparr>uf_signals := (uf_signals u)[r := X]\<rparr> \<and> set X = set (uf_signals u ! r) \<union> set gs \<and> distinct X"
proof (induction gs arbitrary: u)
  case Nil
  then show ?case by (intro exI [of _ "uf_signals u ! r"]) simp
next
  case (Cons g gs)
  let ?u = "addSignal r g u"
  have "r < length (uf_signals ?u)" "distinct (uf_signals ?u ! r)" "set (uf_signals ?u ! r) = insert g (set (uf_signals u ! r))"
    using Cons.prems by (auto simp: addSignal_def Let_def)
  then obtain X where "fold (addSignal r) gs ?u = ?u\<lparr>uf_signals := (uf_signals ?u)[r := X]\<rparr>"
    "set X = insert g (set (uf_signals u ! r)) \<union> set gs" "distinct X" using Cons.IH [of ?u] by auto
  moreover have "?u\<lparr>uf_signals := (uf_signals ?u)[r := X]\<rparr> = u\<lparr>uf_signals := (uf_signals u)[r := X]\<rparr>" for X
    by (simp add: addSignal_def Let_def)
  ultimately show ?case by (intro exI [of _ X]) simp
qed

lemma raise_root_eq:
  assumes "r < length (uf_signals u)" "r < length (uf_score u)" "distinct (uf_signals u ! r)"
  shows "\<exists>X. raise_root r s g u = u\<lparr>uf_score := (uf_score u)[r := max (uf_score u ! r) s], uf_signals := (uf_signals u)[r := X]\<rparr> \<and>
    set X = set (uf_signals u ! r) \<union> set g \<and> distinct X"
proof -
  define v where "v = u\<lparr>uf_score := (uf_score u)[r := max (uf_score u ! r) s]\<rparr>"
  have v: "(if uf_score u ! r < s then u\<lparr>uf_score := (uf_score u)[r := s]\<rparr> else u) = v" by (simp add: v_def max_def)
  have "uf_signals v = uf_signals u" by (simp add: v_def)
  then obtain X where X: "fold (addSignal r) g v = v\<lparr>uf_signals := (uf_signals u)[r := X]\<rparr>"
    "set X = set (uf_signals u ! r) \<union> set g" "distinct X"
    using fold_addSignal [of r v g] assms by auto
  have "raise_root r s g u = v\<lparr>uf_signals := (uf_signals u)[r := X]\<rparr>" unfolding raise_root_def Let_def v X(1) by (rule refl)
  then show ?thesis using X(2,3) unfolding v_def by auto
qed

lemma attach_root_eq:
  assumes "x < length (uf_signals u)" "x < length (uf_score u)" "distinct (uf_signals u ! x)" "x \<noteq> y"
  shows "\<exists>X. attach_root x y u = u\<lparr>uf_parent := (uf_parent u)[y := x],
      uf_score := (uf_score u)[x := max (uf_score u ! x) (uf_score u ! y)], uf_signals := (uf_signals u)[x := X, y := []]\<rparr> \<and>
    set X = set (uf_signals u ! x) \<union> set (uf_signals u ! y) \<and> distinct X"
proof -
  define v where "v = u\<lparr>uf_parent := (uf_parent u)[y := x]\<rparr>"
  define w where "w = v\<lparr>uf_score := (uf_score v)[x := max (uf_score v ! x) (uf_score v ! y)]\<rparr>"
  have w: "(if uf_score v ! x < uf_score v ! y then v\<lparr>uf_score := (uf_score v)[x := uf_score v ! y]\<rparr> else v) = w"
    by (simp add: w_def max_def)
  have s: "uf_signals w = uf_signals u" by (simp add: w_def v_def)
  then obtain X where X: "fold (addSignal x) (uf_signals w ! y) w = w\<lparr>uf_signals := (uf_signals u)[x := X]\<rparr>"
    "set X = set (uf_signals u ! x) \<union> set (uf_signals u ! y)" "distinct X"
    using fold_addSignal [of x w "uf_signals w ! y"] assms by auto
  have "attach_root x y u = (let z = fold (addSignal x) (uf_signals w ! y) w in z\<lparr>uf_signals := (uf_signals z)[y := []]\<rparr>)"
    using assms(4) unfolding attach_root_def Let_def v_def [symmetric] w by simp
  then have "attach_root x y u = w\<lparr>uf_signals := (uf_signals u)[x := X, y := []]\<rparr>" unfolding X(1) by simp
  then show ?thesis using X(2,3) unfolding w_def v_def by auto
qed

lemma is_best_union: "is_best m S \<Longrightarrow> is_best k T \<Longrightarrow> is_best (max m k) (S \<union> T)"
  by (auto simp: is_best_def max_def)

lemma is_best_insert: "is_best m S \<Longrightarrow> is_best (max m s) (insert s S)"
  by (auto simp: is_best_def max_def)

lemma edges_insert: "edges (insert (a, b, s, g) E) = insert (a, b) (edges E)"
  by (auto simp: edges_def)

lemma union_joined:
  assumes J: "joined n E rep u" and a: "a < n" and b: "b < n"
  shows "\<exists>u' rep'. uf_union a b s g u = Some u' \<and> joined n (insert (a, b, s, g) E) rep' u'"
proof -
  obtain rank where f: "forest n rep rank (uf_parent u)" using J by (auto simp: joined_def)
  note j = J [unfolded joined_def]
  obtain p1 where p1: "uf_find (uf_parent u) a = Some (p1, rep a)" "forest n rep rank p1" using uf_find_forest [OF f a] by blast
  obtain p2 where p2: "uf_find p1 b = Some (p2, rep b)" "forest n rep rank p2" using uf_find_forest [OF p1(2) b] by blast
  let ?A = "rep a" and ?B = "rep b" and ?E = "insert (a, b, s, g) E" and ?u = "u\<lparr>uf_parent := p2\<rparr>"
  have A: "?A < n" "rep ?A = ?A" and B: "?B < n" "rep ?B = ?B" using forest_rep [OF f] a b by auto
  have len: "length (uf_score u) = n" "length (uf_signals u) = n" using j by auto
  have at: "is_best (uf_score u ! i) (scores_at rep E i)" "set (uf_signals u ! i) = signals_at rep E i" "distinct (uf_signals u ! i)"
    if "i < n" "rep i = i" for i using j that by blast+
  have un: "uf_union a b s g u = Some (raise_root ?A s g (attach_root ?A ?B ?u))" using p1(1) p2(1) by (simp add: uf_union_def)
  define rep' where "rep' = (\<lambda>i. if rep i = ?B then ?A else rep i)"
  have conn: "rep' i = rep' k \<longleftrightarrow> (i, k) \<in> conn (edges ?E)" if "i < n" "k < n" for i k
  proof -
    have "(x, y) \<in> conn (edges E) \<longleftrightarrow> rep x = rep y" if "x < n" "y < n" for x y using j that by blast
    then show ?thesis using that a b unfolding edges_insert conn_insert rep'_def by auto
  qed
  have E': "\<forall>(x, y, s', g') \<in> ?E. x < n \<and> y < n" using j a b by auto
  have sc: "scores_at rep' ?E i = (if i = ?A then insert s (scores_at rep E ?A \<union> scores_at rep E ?B) else if i = ?B then {} else scores_at rep E i)" for i
    by (auto simp: scores_at_def rep'_def)
  have sg: "signals_at rep' ?E i = (if i = ?A then set g \<union> signals_at rep E ?A \<union> signals_at rep E ?B else if i = ?B then {} else signals_at rep E i)" for i
    by (auto simp: signals_at_def rep'_def)
  show ?thesis
  proof (cases "?A = ?B")
    case True
    then have "rep' = rep" by (auto simp: rep'_def)
    have ua: "attach_root ?A ?B ?u = ?u" using True by (simp add: attach_root_def)
    define w where "w = raise_root ?A s g ?u"
    obtain X where X: "w = ?u\<lparr>uf_score := (uf_score u)[?A := max (uf_score u ! ?A) s], uf_signals := (uf_signals u)[?A := X]\<rparr>"
      "set X = set (uf_signals u ! ?A) \<union> set g" "distinct X"
      using raise_root_eq [of ?A ?u s g] A len at(3) [OF A] by (auto simp: w_def)
    have w: "uf_parent w = p2" "uf_score w = (uf_score u)[?A := max (uf_score u ! ?A) s]" "uf_signals w = (uf_signals u)[?A := X]"
      unfolding X(1) by simp_all
    have roots: "is_best (uf_score w ! i) (scores_at rep' ?E i) \<and> set (uf_signals w ! i) = signals_at rep' ?E i \<and> distinct (uf_signals w ! i)"
      if i: "i < n" "rep i = i" for i
    proof (cases "i = ?A")
      case iA: True
      have "scores_at rep' ?E ?A = insert s (scores_at rep E ?A)" "signals_at rep' ?E ?A = set g \<union> signals_at rep E ?A"
        using True by (simp_all add: sc sg)
      moreover have "uf_score w ! ?A = max (uf_score u ! ?A) s" "uf_signals w ! ?A = X" using A(1) len w by simp_all
      ultimately show ?thesis unfolding iA using is_best_insert [OF at(1) [OF A], of s] X(2,3) at(2) [OF A] by auto
    next
      case False
      then show ?thesis using at [OF i] True by (simp add: w sc sg)
    qed
    have "joined n ?E rep' w" unfolding joined_def
      using p2(2) conn E' roots len unfolding \<open>rep' = rep\<close> by (auto simp: w)
    then have "joined n ?E rep' (raise_root ?A s g (attach_root ?A ?B ?u))" unfolding ua w_def .
    then show ?thesis using un ua by auto
  next
    case False
    define v w where "v = attach_root ?A ?B ?u" and "w = raise_root ?A s g v"
    obtain X where X: "v = u\<lparr>uf_parent := p2[?B := ?A],
        uf_score := (uf_score u)[?A := max (uf_score u ! ?A) (uf_score u ! ?B)], uf_signals := (uf_signals u)[?A := X, ?B := []]\<rparr>"
      "set X = set (uf_signals u ! ?A) \<union> set (uf_signals u ! ?B)" "distinct X"
      using attach_root_eq [of ?A ?u ?B] A len at(3) [OF A] False by (auto simp: v_def)
    have v: "uf_parent v = p2[?B := ?A]" "uf_score v = (uf_score u)[?A := max (uf_score u ! ?A) (uf_score u ! ?B)]"
      "uf_signals v = (uf_signals u)[?A := X, ?B := []]" unfolding X(1) by simp_all
    have vA: "uf_signals v ! ?A = X" "uf_score v ! ?A = max (uf_score u ! ?A) (uf_score u ! ?B)" using v A(1) len False by simp_all
    obtain Y where Y: "w = v\<lparr>uf_score := (uf_score v)[?A := max (uf_score v ! ?A) s], uf_signals := (uf_signals v)[?A := Y]\<rparr>"
      "set Y = set X \<union> set g" "distinct Y"
      using raise_root_eq [of ?A v s g] A len X(3) v vA by (auto simp: w_def)
    have w: "uf_parent w = p2[?B := ?A]" "uf_score w = (uf_score v)[?A := max (max (uf_score u ! ?A) (uf_score u ! ?B)) s]"
      "uf_signals w = (uf_signals v)[?A := Y]" unfolding Y(1) by (simp_all add: v(1) vA(2))
    have roots: "is_best (uf_score w ! i) (scores_at rep' ?E i) \<and> set (uf_signals w ! i) = signals_at rep' ?E i \<and> distinct (uf_signals w ! i)"
      if i: "i < n" "rep' i = i" for i
    proof (cases "i = ?A")
      case True
      have "is_best (max (max (uf_score u ! ?A) (uf_score u ! ?B)) s) (insert s (scores_at rep E ?A \<union> scores_at rep E ?B))"
        by (intro is_best_insert is_best_union at A B)
      moreover have "uf_score w ! ?A = max (max (uf_score u ! ?A) (uf_score u ! ?B)) s" "uf_signals w ! ?A = Y"
        using A(1) len w v by simp_all
      moreover have "set Y = set g \<union> signals_at rep E ?A \<union> signals_at rep E ?B"
        using Y(2) X(2) at(2) [OF A] at(2) [OF B] by auto
      ultimately show ?thesis unfolding True sc sg using Y(3) by simp
    next
      case iA: False
      then have r: "rep i = i" "i \<noteq> ?B" using i(2) B(2) False by (auto simp: rep'_def split: if_splits)
      then have "uf_score w ! i = uf_score u ! i" "uf_signals w ! i = uf_signals u ! i" using iA w v by simp_all
      then show ?thesis unfolding sc sg using at [OF i(1) r(1)] iA r(2) by simp
    qed
    have "\<exists>rank. forest n rep' rank (uf_parent w)"
      using forest_link [OF p2(2) A B False] unfolding rep'_def w(1) by blast
    then have "joined n ?E rep' w" unfolding joined_def
      using conn E' roots len w v by auto
    then have "joined n ?E rep' (raise_root ?A s g (attach_root ?A ?B ?u))" unfolding w_def v_def .
    then show ?thesis using un by auto
  qed
qed

subsection \<open>Reading the groups\<close>

definition gm_list :: "('k, 'v list) gomap \<Rightarrow> 'k \<Rightarrow> 'v list" where
  "gm_list m k = (case gm_get m k of None \<Rightarrow> [] | Some l \<Rightarrow> l)"

lemma group_loop_ok:
  assumes "forest n rep rank p" and "\<forall>i \<in> set is. i < n"
  shows "\<exists>m'. group_loop p is m = Some m' \<and> (gm_wf m \<longrightarrow> gm_wf m') \<and>
    (\<forall>r. gm_list m' r = gm_list m r @ filter (\<lambda>i. rep i = r) is) \<and>
    ((\<forall>(r, l) \<in> set m. l \<noteq> []) \<longrightarrow> (\<forall>(r, l) \<in> set m'. l \<noteq> []))"
  using assms
proof (induction "is" arbitrary: p m)
  case (Cons i xs)
  obtain p' where p': "uf_find p i = Some (p', rep i)" "forest n rep rank p'"
    using uf_find_forest [of n rep rank p i] Cons.prems by auto
  let ?m = "gm_put (rep i) (gm_list m (rep i) @ [i]) m"
  have ih: "\<exists>m'. group_loop p' xs ?m = Some m' \<and> (gm_wf ?m \<longrightarrow> gm_wf m') \<and> (\<forall>r. gm_list m' r = gm_list ?m r @ filter (\<lambda>i. rep i = r) xs) \<and>
    ((\<forall>(r, l) \<in> set ?m. l \<noteq> []) \<longrightarrow> (\<forall>(r, l) \<in> set m'. l \<noteq> []))"
    using Cons.IH [OF p'(2), of ?m] Cons.prems by auto
  have "group_loop p (i # xs) m = group_loop p' xs ?m" by (simp add: p'(1) gm_list_def)
  moreover have "gm_list ?m r = gm_list m r @ (if rep i = r then [i] else [])" for r by (simp add: gm_list_def)
  moreover have "(\<forall>(r, l) \<in> set m. l \<noteq> []) \<longrightarrow> (\<forall>(r, l) \<in> set ?m. l \<noteq> [])"
    using set_gm_put_subset [of "rep i" "gm_list m (rep i) @ [i]" m] by auto
  moreover have "gm_wf m \<longrightarrow> gm_wf ?m" by simp
  ultimately show ?case using ih by auto
qed auto

lemma groups_of:
  assumes "forest n rep rank p"
  obtains m where "group_loop p [0 ..< n] [] = Some m" and "distinct (map fst m)"
    and "\<And>r l. (r, l) \<in> set m \<longleftrightarrow> l \<noteq> [] \<and> l = filter (\<lambda>i. rep i = r) [0 ..< n]"
proof -
  obtain m where m: "group_loop p [0 ..< n] [] = Some m" "gm_wf m" "\<And>r. gm_list m r = filter (\<lambda>i. rep i = r) [0 ..< n]"
    "\<And>r l. (r, l) \<in> set m \<Longrightarrow> l \<noteq> []"
    using group_loop_ok [OF assms, of "[0 ..< n]" "[]"] by (fastforce simp: gm_list_def)
  have "(r, l) \<in> set m \<longleftrightarrow> l \<noteq> [] \<and> l = filter (\<lambda>i. rep i = r) [0 ..< n]" for r l
  proof
    assume "(r, l) \<in> set m"
    then show "l \<noteq> [] \<and> l = filter (\<lambda>i. rep i = r) [0 ..< n]"
      using m(3) [of r] m(4) gm_get_in [OF m(2), of r l] by (auto simp: gm_list_def)
  next
    assume l: "l \<noteq> [] \<and> l = filter (\<lambda>i. rep i = r) [0 ..< n]"
    then have "gm_get m r = Some l" using m(3) [of r] by (auto simp: gm_list_def split: option.splits)
    then show "(r, l) \<in> set m" using gm_get_in [OF m(2)] by blast
  qed
  then show thesis using that m(1,2) by (simp add: gm_wf_def)
qed

text \<open>The positions connected with one, and the list of those sets in the order of their first member.\<close>

definition class_of :: "nat \<Rightarrow> (nat \<times> nat) set \<Rightarrow> nat \<Rightarrow> nat set" where
  "class_of n G i = {j. j < n \<and> (i, j) \<in> conn G}"

definition partition_listed :: "nat \<Rightarrow> (nat \<times> nat) set \<Rightarrow> nat \<Rightarrow> nat list list \<Rightarrow> bool" where
  "partition_listed n G k ls \<longleftrightarrow> set (map set ls) = {class_of n G i |i. i < n \<and> k \<le> card (class_of n G i)} \<and>
     (\<forall>l \<in> set ls. sorted_wrt (<) l \<and> l \<noteq> []) \<and> sorted_wrt (<) (map hd ls)"

lemma sorted_heads:
  assumes m: "\<And>r l. (r, l) \<in> set m \<longleftrightarrow> l \<noteq> [] \<and> P l \<and> l = filter (\<lambda>i. rep i = r) [0 ..< n]" and d: "distinct (map fst m)"
  shows "sorted_wrt (<) (map hd (sort_key hd (map snd m)))"
proof -
  have "distinct (map (hd \<circ> snd) m)"
  proof -
    have "inj_on (hd \<circ> snd) (set m)"
    proof (rule inj_onI, clarify)
      fix r l r' l' assume a: "(r, l) \<in> set m" "(r', l') \<in> set m" "(hd \<circ> snd) (r, l) = (hd \<circ> snd) (r', l')"
      have l: "l \<noteq> []" "l = filter (\<lambda>i. rep i = r) [0 ..< n]" "l' \<noteq> []" "l' = filter (\<lambda>i. rep i = r') [0 ..< n]"
        using a(1,2) m by blast+
      have "\<forall>x \<in> set l. rep x = r" by (subst l(2)) simp
      moreover have "\<forall>x \<in> set l'. rep x = r'" by (subst l(4)) simp
      ultimately have "rep (hd l) = r" "rep (hd l') = r'" using hd_in_set [OF l(1)] hd_in_set [OF l(3)] by blast+
      then have "r = r'" using a(3) by simp
      then show "r = r' \<and> l = l'" using l(2,4) by simp
    qed
    moreover have "distinct m" using d by (simp add: distinct_map)
    ultimately show ?thesis unfolding distinct_map by blast
  qed
  then have "distinct (map hd (map snd m))" by (simp only: map_map)
  then have "distinct (map hd (sort_key hd (map snd m)))" by (simp only: distinct_map distinct_sort set_sort)
  moreover have "sorted (map hd (sort_key hd (map snd m)))" by (rule sorted_sort_key)
  ultimately show ?thesis by (simp add: strict_sorted_iff)
qed

lemma class_rep:
  assumes "joined n E rep u" and "i < n"
  shows "class_of n (edges E) i = {j. j < n \<and> rep j = rep i}"
proof -
  have "rep i = rep j \<longleftrightarrow> (i, j) \<in> conn (edges E)" if "j < n" for j using assms that unfolding joined_def by blast
  then show ?thesis unfolding class_of_def by (intro Collect_cong) metis
qed

lemma rep_lt: "joined n E rep u \<Longrightarrow> i < n \<Longrightarrow> rep i < n \<and> rep (rep i) = rep i"
  unfolding joined_def using forest_rep by blast

lemma partition_groups:
  assumes J: "joined n E rep u" and d: "distinct (map fst m)" and k: "0 < k"
    and m: "\<And>r l. (r, l) \<in> set m \<longleftrightarrow> l \<noteq> [] \<and> k \<le> length l \<and> l = filter (\<lambda>i. rep i = r) [0 ..< n]"
  shows "partition_listed n (edges E) k (sort_key hd (map snd m))"
proof -
  have c: "card (class_of n (edges E) i) = length (filter (\<lambda>j. rep j = rep i) [0 ..< n])"
    "class_of n (edges E) i = set (filter (\<lambda>j. rep j = rep i) [0 ..< n])" if "i < n" for i
  proof -
    show e: "class_of n (edges E) i = set (filter (\<lambda>j. rep j = rep i) [0 ..< n])" using class_rep [OF J that] by auto
    show "card (class_of n (edges E) i) = length (filter (\<lambda>j. rep j = rep i) [0 ..< n])"
      unfolding e by (rule distinct_card) simp
  qed
  have "set (map set (sort_key hd (map snd m))) = {class_of n (edges E) i |i. i < n \<and> k \<le> card (class_of n (edges E) i)}"
  proof (intro equalityI subsetI)
    fix C assume "C \<in> set (map set (sort_key hd (map snd m)))"
    then obtain r l where rl: "(r, l) \<in> set m" "C = set l" by auto
    then have l: "l \<noteq> []" "k \<le> length l" "l = filter (\<lambda>i. rep i = r) [0 ..< n]" using m by blast+
    obtain i where "i \<in> set l" using hd_in_set [OF l(1)] by blast
    moreover have "\<forall>x \<in> set l. x < n \<and> rep x = r" by (subst l(3)) simp
    ultimately have i: "i < n" "rep i = r" by blast+
    then show "C \<in> {class_of n (edges E) i |i. i < n \<and> k \<le> card (class_of n (edges E) i)}" using c [OF i(1)] l rl(2) by auto
  next
    fix C assume "C \<in> {class_of n (edges E) i |i. i < n \<and> k \<le> card (class_of n (edges E) i)}"
    then obtain i where i: "C = class_of n (edges E) i" "i < n" "k \<le> card (class_of n (edges E) i)" by auto
    let ?l = "filter (\<lambda>j. rep j = rep i) [0 ..< n]"
    have "(rep i, ?l) \<in> set m" using m c [OF i(2)] i k by auto
    then show "C \<in> set (map set (sort_key hd (map snd m)))" using c(2) [OF i(2)] i(1) by force
  qed
  moreover have "\<forall>l \<in> set (sort_key hd (map snd m)). sorted_wrt (<) l \<and> l \<noteq> []"
    using m by (auto simp: sorted_wrt_filter)
  moreover have "sorted_wrt (<) (map hd (sort_key hd (map snd m)))"
    by (rule sorted_heads [where P = "\<lambda>l. k \<le> length l", OF m d])
  ultimately show ?thesis by (simp add: partition_listed_def)
qed

lemma map_insort_key: "map f (insort_key (\<lambda>c. k (f c)) x xs) = insort_key k (f x) (map f xs)"
  by (induction xs) simp_all

lemma map_sort_key_comp: "map f (sort_key (\<lambda>c. k (f c)) xs) = sort_key k (map f xs)"
  by (induction xs) (simp_all add: map_insort_key)

lemma sort_strict: "sorted_wrt (<) (l :: nat list) \<Longrightarrow> sort l = l"
  by (simp add: strict_sorted_iff sorted_sort_id)

text \<open>The groups of a union-find, with the best score and the reasons of the pairs inside each.\<close>

definition in_group :: "join set \<Rightarrow> Cluster \<Rightarrow> join set" where
  "in_group E c = {(a, b, s, g) \<in> E. a \<in> set (cl_Indexes c)}"

definition cluster_of :: "join set \<Rightarrow> Cluster \<Rightarrow> bool" where
  "cluster_of E c \<longleftrightarrow> is_best (cl_Score c) {s. \<exists>a b g. (a, b, s, g) \<in> in_group E c} \<and>
     sorted (cl_Signals c) \<and> distinct (cl_Signals c) \<and> set (cl_Signals c) = {x. \<exists>a b s g. (a, b, s, g) \<in> in_group E c \<and> x \<in> set g}"

lemma uf_clusters_ok:
  assumes J: "joined n E rep u"
  shows "\<exists>cs. uf_clusters u = Some cs \<and> partition_listed n (edges E) 2 (map cl_Indexes cs) \<and> (\<forall>c \<in> set cs. cluster_of E c)"
proof -
  obtain rank where f: "forest n rep rank (uf_parent u)" using J by (auto simp: joined_def)
  obtain m where m: "group_loop (uf_parent u) [0 ..< n] [] = Some m" "distinct (map fst m)"
    "\<And>r l. (r, l) \<in> set m \<longleftrightarrow> l \<noteq> [] \<and> l = filter (\<lambda>i. rep i = r) [0 ..< n]" by (rule groups_of [OF f]) (rule that; assumption)
  have len: "length (uf_parent u) = n" using f by (simp add: forest_def)
  let ?m = "filter (\<lambda>(r, l). \<not> length l < 2) m"
  let ?c = "\<lambda>(r, l). \<lparr>cl_Indexes = sort l, cl_Score = uf_score u ! r, cl_Signals = sort (uf_signals u ! r)\<rparr>"
  let ?cs = "sort_key (\<lambda>c. hd (cl_Indexes c)) (map ?c ?m)"
  have u: "uf_clusters u = Some ?cs" using m(1) len by (simp add: uf_clusters_def)
  have mm: "(r, l) \<in> set ?m \<longleftrightarrow> l \<noteq> [] \<and> 2 \<le> length l \<and> l = filter (\<lambda>i. rep i = r) [0 ..< n]" for r l using m(3) by auto
  have dm: "distinct (map fst ?m)" using m(2) by (simp add: distinct_map_filter)
  have srt: "sort l = l" if "(r, l) \<in> set ?m" for r l
  proof -
    have "l = filter (\<lambda>i. rep i = r) [0 ..< n]" using that mm by blast
    then have "sorted_wrt (<) l" by (metis sorted_wrt_filter sorted_wrt_upt)
    then show ?thesis by (rule sort_strict)
  qed
  have idx: "map cl_Indexes (map ?c ?m) = map snd ?m" using srt by (auto simp del: filter.simps)
  have "map cl_Indexes ?cs = sort_key hd (map cl_Indexes (map ?c ?m))" by (rule map_sort_key_comp)
  then have "partition_listed n (edges E) 2 (map cl_Indexes ?cs)"
    unfolding idx using partition_groups [OF J dm _ mm] by simp
  moreover have "cluster_of E c" if cs: "c \<in> set ?cs" for c
  proof -
    obtain r l where rl: "(r, l) \<in> set ?m" "c = \<lparr>cl_Indexes = l, cl_Score = uf_score u ! r, cl_Signals = sort (uf_signals u ! r)\<rparr>"
    proof -
      have "c \<in> ?c ` set ?m" using cs by (simp only: set_sort set_map)
      then obtain x where x: "x \<in> set ?m" "c = ?c x" by (elim imageE)
      obtain r l where rl: "x = (r, l)" by (rule prod.exhaust)
      show thesis using that [OF x(1) [unfolded rl]] x(2) srt [OF x(1) [unfolded rl]] unfolding rl prod.case by simp
    qed
    have l: "l \<noteq> []" "l = filter (\<lambda>i. rep i = r) [0 ..< n]" using rl(1) mm by blast+
    have "\<forall>x \<in> set l. x < n \<and> rep x = r" by (subst l(2)) simp
    then have r: "r < n" "rep r = r" using rep_lt [OF J, of "hd l"] hd_in_set [OF l(1)] by auto
    have g: "in_group E c = {(a, b, s, g) \<in> E. rep a = r}"
    proof -
      have "a < n" if "(a, b, s, g) \<in> E" for a b s g using J that by (auto simp: joined_def)
      moreover have "a \<in> set l \<longleftrightarrow> a < n \<and> rep a = r" for a by (subst l(2)) auto
      ultimately show ?thesis unfolding in_group_def rl(2) by auto
    qed
    have "is_best (uf_score u ! r) (scores_at rep E r) \<and> set (uf_signals u ! r) = signals_at rep E r \<and> distinct (uf_signals u ! r)"
      using J r unfolding joined_def by blast
    then show ?thesis unfolding cluster_of_def g unfolding rl(2) by (simp add: scores_at_def signals_at_def)
  qed
  ultimately show ?thesis using u by blast
qed

subsection \<open>The pairs that are compared\<close>

text \<open>The pairs that make a group: of one kind, not rejected, and reaching the threshold.\<close>

definition match :: "Fingerprint list \<Rightarrow> Options \<Rightarrow> nat \<times> nat \<Rightarrow> bool" where
  "match prints opts = (\<lambda>(a, b). \<not> op_skips opts a b \<and> op_threshold opts \<le> fst (Score (prints ! a) (prints ! b)))"

definition join_of :: "Fingerprint list \<Rightarrow> nat \<times> nat \<Rightarrow> join" where
  "join_of prints = (\<lambda>(a, b). (a, b, fst (Score (prints ! a) (prints ! b)), snd (Score (prints ! a) (prints ! b))))"

definition ordered_pair :: "nat \<times> nat \<Rightarrow> nat \<times> nat" where
  "ordered_pair = (\<lambda>(x, y). if y < x then (y, x) else (x, y))"

lemma score_pairs:
  assumes "joined n (join_of prints ` {e \<in> set scored. match prints opts e}) rep u"
    and "\<forall>(x, y) \<in> set ps. x < n \<and> y < n"
  shows "\<exists>scored' u' rep'. fold (score_pair prints opts) ps (scored, Some u) = (scored', Some u') \<and>
    set scored' = set scored \<union> ordered_pair ` set ps \<and>
    joined n (join_of prints ` {e \<in> set scored'. match prints opts e}) rep' u'"
  using assms
proof (induction ps arbitrary: scored u rep)
  case (Cons p ps)
  obtain x y where p: "p = (x, y)" by fastforce
  obtain a b where ab: "ordered_pair (x, y) = (a, b)" by fastforce
  have lt: "a < n" "b < n" using Cons.prems(2) ab by (auto simp: p ordered_pair_def split: if_splits)
  have step: "score_pair prints opts p (scored, Some u) =
    (if (a, b) \<in> set scored then (scored, Some u)
     else if match prints opts (a, b) then ((a, b) # scored, uf_union a b (fst (Score (prints ! a) (prints ! b))) (snd (Score (prints ! a) (prints ! b))) u)
     else ((a, b) # scored, Some u))"
    using ab by (auto simp: score_pair_def p ordered_pair_def match_def Let_def split: prod.splits if_splits)
  obtain scored1 u1 rep1 where s: "score_pair prints opts p (scored, Some u) = (scored1, Some u1)"
    "set scored1 = insert (a, b) (set scored)" "joined n (join_of prints ` {e \<in> set scored1. match prints opts e}) rep1 u1"
  proof (cases "(a, b) \<notin> set scored \<and> match prints opts (a, b)")
    case True
    obtain u1 rep1 where u1: "uf_union a b (fst (Score (prints ! a) (prints ! b))) (snd (Score (prints ! a) (prints ! b))) u = Some u1"
      "joined n (insert (join_of prints (a, b)) (join_of prints ` {e \<in> set scored. match prints opts e})) rep1 u1"
      using union_joined [OF Cons.prems(1) lt, of "fst (Score (prints ! a) (prints ! b))" "snd (Score (prints ! a) (prints ! b))"]
      unfolding join_of_def prod.case by blast
    have "insert (join_of prints (a, b)) (join_of prints ` {e \<in> set scored. match prints opts e}) =
      join_of prints ` {e \<in> set ((a, b) # scored). match prints opts e}" using True by auto
    then show thesis using that [of "(a, b) # scored" u1 rep1] step True u1 by simp
  next
    case False
    have "{e \<in> set scored1. match prints opts e} = {e \<in> set scored. match prints opts e}" if "set scored1 = insert (a, b) (set scored)" for scored1
      using False that by auto
    then show thesis using that [of "if (a, b) \<in> set scored then scored else (a, b) # scored" u rep] step False Cons.prems(1)
      by (auto simp: insert_absorb)
  qed
  show ?case using Cons.IH [OF s(3)] Cons.prems(2) s(1,2) ab by (auto simp: p)
qed auto

lemma pairs_of_sorted: "sorted_wrt (<) (xs :: nat list) \<Longrightarrow> set (pairs_of xs) = {(a, b). a \<in> set xs \<and> b \<in> set xs \<and> a < b}"
  by (induction xs) auto

lemma put_buckets:
  "distinct keys \<Longrightarrow> gm_list (fold (put_bucket i) keys m) k = gm_list m k @ (if k \<in> set keys then [i] else [])"
proof (induction keys arbitrary: m)
  case (Cons key keys)
  have "gm_list (put_bucket i key m) k = gm_list m k @ (if k = key then [i] else [])"
    by (simp add: put_bucket_def gm_list_def)
  then show ?case using Cons by auto
qed simp

lemma put_buckets_wf: "gm_wf m \<Longrightarrow> gm_wf (fold (put_bucket i) keys m)"
  by (induction keys arbitrary: m) (simp_all add: put_bucket_def)

lemma bucket_map_ok:
  assumes "\<forall>p \<in> set prints. distinct (buckets p)"
  shows "gm_wf (bucket_map prints)" and
    "gm_list (bucket_map prints) k = filter (\<lambda>i. \<not> fp_Empty (prints ! i) \<and> k \<in> set (buckets (prints ! i))) [0 ..< length prints]"
proof -
  let ?f = "\<lambda>i m. if fp_Empty (prints ! i) then m else fold (put_bucket i) (buckets (prints ! i)) m"
  have "gm_wf (fold ?f is m)" if "gm_wf m" for m and "is" :: "nat list"
    using that by (induction "is" arbitrary: m) (simp_all add: put_buckets_wf)
  then show "gm_wf (bucket_map prints)" by (simp add: bucket_map_def)
  have "gm_list (fold ?f is m) k = gm_list m k @ filter (\<lambda>i. \<not> fp_Empty (prints ! i) \<and> k \<in> set (buckets (prints ! i))) is"
    if "\<forall>i \<in> set is. i < length prints" for m and "is" :: "nat list"
    using that assms by (induction "is" arbitrary: m) (auto simp: put_buckets)
  from this [of "[0 ..< length prints]" "[]"]
  show "gm_list (bucket_map prints) k = filter (\<lambda>i. \<not> fp_Empty (prints ! i) \<and> k \<in> set (buckets (prints ! i))) [0 ..< length prints]"
    by (simp add: bucket_map_def gm_list_def)
qed

text \<open>Two records that reach the default threshold share a bucket, so none of their pairs is missed.\<close>

lemma strong_share_bucket:
  assumes "fp_Kind a = fp_Kind b" and "strong a b"
  shows "set (buckets a) \<inter> set (buckets b) \<noteq> {}"
proof -
  consider "fp_UID a \<noteq> [] \<and> fp_UID a = fp_UID b" | e where "e \<in> set (fp_Emails a) \<inter> set (fp_Emails b)"
    | p where "p \<in> set (fp_Phones a) \<inter> set (fp_Phones b)" | "fp_Start a \<noteq> 0 \<and> fp_Start a = fp_Start b"
    using assms by (auto simp: strong_def shares_def split: if_splits)
  then show ?thesis
  proof cases
    case 1
    then have "''u:'' @ fp_UID a \<in> set (buckets a) \<inter> set (buckets b)" by (auto simp: buckets_def)
    then show ?thesis by blast
  next
    case (2 e)
    then have "''e:'' @ e \<in> set (buckets a) \<inter> set (buckets b)" by (simp add: buckets_def)
    then show ?thesis by blast
  next
    case (3 p)
    then have "''p:'' @ p \<in> set (buckets a) \<inter> set (buckets b)" by (simp add: buckets_def)
    then show ?thesis by blast
  next
    case 4
    then have "''t:'' @ RFC3339 (fp_Start a) \<in> set (buckets a) \<inter> set (buckets b)" by (simp add: buckets_def is_zero_def)
    then show ?thesis by blast
  qed
qed

lemma distinct_buckets:
  assumes "distinct (fp_Emails f)" and "distinct (fp_Phones f)"
  shows "distinct (buckets f)"
  using assms by (auto simp: buckets_def distinct_map inj_on_def)

text \<open>The fingerprints of records name no address and no number twice.\<close>

lemma fingerprints_distinct:
  "distinct (fp_Emails (FingerprintContact U c))" "distinct (fp_Phones (FingerprintContact U c))"
  "distinct (fp_Emails (FingerprintEvent U e))" "distinct (fp_Phones (FingerprintEvent U e))"
  "distinct (fp_Emails (FingerprintTodo U t))" "distinct (fp_Phones (FingerprintTodo U t))"
  "distinct (fp_Emails (FingerprintNote U n))" "distinct (fp_Phones (FingerprintNote U n))"
  by (simp_all add: FingerprintContact_def NormalizedEmails_def FingerprintEvent_def FingerprintTodo_def FingerprintNote_def
      distinct_loop_distinct)

subsection \<open>Properties\<close>

text \<open>The graph of all pairs that match, whatever buckets they are in.\<close>

definition matches :: "Fingerprint list \<Rightarrow> Options \<Rightarrow> (nat \<times> nat) set" where
  "matches prints opts = {(a, b). a < b \<and> b < length prints \<and> match prints opts (a, b)}"

lemma clusters_components:
  assumes thr: "DefaultThreshold \<le> op_threshold opts" and rng: "\<And>m. set (ranged m) = set m"
    and db: "\<forall>p \<in> set prints. distinct (buckets p)"
  shows "\<exists>cs. Clusters ranged prints opts = Some cs \<and>
    partition_listed (length prints) (matches prints opts) 2 (map cl_Indexes cs) \<and>
    (\<forall>c \<in> set cs. cluster_of (join_of prints ` matches prints opts) c)"
proof -
  let ?n = "length prints"
  let ?ps = "concat (map (\<lambda>(key, members). pairs_of members) (ranged (bucket_map prints)))"
  have ps: "set ?ps = {(a, b). a < b \<and> b < ?n \<and> \<not> fp_Empty (prints ! a) \<and> \<not> fp_Empty (prints ! b) \<and>
      set (buckets (prints ! a)) \<inter> set (buckets (prints ! b)) \<noteq> {}}"
  proof -
    have "set ?ps = (\<Union>(key, members) \<in> set (bucket_map prints). set (pairs_of members))" using rng by auto
    also have "\<dots> = (\<Union>key. set (pairs_of (gm_list (bucket_map prints) key)))"
    proof (intro equalityI subsetI)
      fix e assume "e \<in> (\<Union>(key, members) \<in> set (bucket_map prints). set (pairs_of members))"
      then obtain key members where k: "(key, members) \<in> set (bucket_map prints)" "e \<in> set (pairs_of members)" by blast
      have "gm_get (bucket_map prints) key = Some members" using gm_get_in [OF bucket_map_ok(1) [OF db]] k(1) by blast
      then have "gm_list (bucket_map prints) key = members" by (simp add: gm_list_def)
      then show "e \<in> (\<Union>key. set (pairs_of (gm_list (bucket_map prints) key)))" using k(2) by blast
    next
      fix e assume "e \<in> (\<Union>key. set (pairs_of (gm_list (bucket_map prints) key)))"
      then obtain key where k: "e \<in> set (pairs_of (gm_list (bucket_map prints) key))" by blast
      then obtain members where "gm_get (bucket_map prints) key = Some members" "e \<in> set (pairs_of members)"
        by (cases "gm_get (bucket_map prints) key") (simp_all add: gm_list_def)
      then show "e \<in> (\<Union>(key, members) \<in> set (bucket_map prints). set (pairs_of members))" using gm_get_mem by fastforce
    qed
    also have "\<dots> = {(a, b). a < b \<and> b < ?n \<and> \<not> fp_Empty (prints ! a) \<and> \<not> fp_Empty (prints ! b) \<and>
      set (buckets (prints ! a)) \<inter> set (buckets (prints ! b)) \<noteq> {}}"
    proof -
      have "set (pairs_of (gm_list (bucket_map prints) key)) = {(a, b). a < b \<and> b < ?n \<and> \<not> fp_Empty (prints ! a) \<and>
        \<not> fp_Empty (prints ! b) \<and> key \<in> set (buckets (prints ! a)) \<inter> set (buckets (prints ! b))}" for key
        unfolding bucket_map_ok(2) [OF db] by (subst pairs_of_sorted) (auto simp: sorted_wrt_filter)
      then show ?thesis by auto
    qed
    finally show ?thesis .
  qed
  have lt: "\<forall>(x, y) \<in> set ?ps. x < ?n \<and> y < ?n" unfolding ps by auto
  have J0: "joined ?n (join_of prints ` {e \<in> set []. match prints opts e}) (\<lambda>i. i) (newUnionFind ?n)"
    using joined_new by simp
  obtain scored u rep where run: "fold (score_pair prints opts) ?ps ([], Some (newUnionFind ?n)) = (scored, Some u)"
    "set scored = ordered_pair ` set ?ps" "joined ?n (join_of prints ` {e \<in> set scored. match prints opts e}) rep u"
    using score_pairs [OF J0 lt] by auto
  have E: "{e \<in> set scored. match prints opts e} = matches prints opts"
  proof -
    have "ordered_pair e = e" if "e \<in> set ?ps" for e using that unfolding ps by (auto simp: ordered_pair_def)
    then have "ordered_pair ` set ?ps = (\<lambda>e. e) ` set ?ps" by (intro image_cong) simp_all
    then have "set scored = set ?ps" using run(2) by simp
    moreover have "\<not> fp_Empty (prints ! a) \<and> \<not> fp_Empty (prints ! b) \<and> set (buckets (prints ! a)) \<inter> set (buckets (prints ! b)) \<noteq> {}"
      if "match prints opts (a, b)" for a b
    proof -
      have "fp_Kind (prints ! a) = fp_Kind (prints ! b) \<and> strong (prints ! a) (prints ! b)"
        using that thr score_strong [of "prints ! a" "prints ! b"] by (simp add: match_def)
      then show ?thesis using strong_share_bucket strong_not_empty by blast
    qed
    ultimately show ?thesis unfolding matches_def ps by blast
  qed
  have ed: "edges (join_of prints ` matches prints opts) = matches prints opts"
  proof (intro equalityI subsetI)
    fix e assume e: "e \<in> matches prints opts"
    obtain a b where ab: "e = (a, b)" by (rule prod.exhaust)
    have "join_of prints (a, b) \<in> join_of prints ` matches prints opts" using e ab by blast
    then show "e \<in> edges (join_of prints ` matches prints opts)" unfolding edges_def ab join_of_def prod.case by blast
  qed (auto simp: edges_def join_of_def)
  obtain cs where cs: "uf_clusters u = Some cs" "partition_listed ?n (matches prints opts) 2 (map cl_Indexes cs)"
    "\<forall>c \<in> set cs. cluster_of (join_of prints ` matches prints opts) c"
    using uf_clusters_ok [OF run(3)] unfolding E ed by blast
  have "Clusters ranged prints opts = uf_clusters u" by (simp add: Clusters_def run(1))
  then show ?thesis using cs by auto
qed


definition demo_print :: "string \<Rightarrow> Fingerprint" where
  "demo_print uid = \<lparr>fp_Kind = KindContact, fp_UID = uid, fp_Name = [], fp_Emails = [], fp_Phones = [], fp_Birthday = [], fp_Start = 0\<rparr>"

lemma demo_score: "60 \<le> fst (Score (demo_print x) (demo_print y)) \<longleftrightarrow> x = y \<and> x \<noteq> []"
  using score_strong [of "demo_print x" "demo_print y"] by (auto simp: DefaultThreshold_def strong_def demo_print_def shares_def)


text \<open>
  A rejected pair is kept apart only while nothing else links the two: with a third record like both,
  the pair that must never be grouped is in one group.
\<close>

lemma rejected_pair_grouped:
  "\<exists>cs c. Clusters (\<lambda>m. m) [demo_print ''a'', demo_print ''a'', demo_print ''a'']
       \<lparr>op_Threshold = 0, op_Skip = Some (\<lambda>a b. a = 0 \<and> b = 1)\<rparr> = Some cs \<and> c \<in> set cs \<and> {0, 1} \<subseteq> set (cl_Indexes c)"
proof -
  let ?p = "[demo_print ''a'', demo_print ''a'', demo_print ''a'']" and ?o = "\<lparr>op_Threshold = 0, op_Skip = Some (\<lambda>a b. a = 0 \<and> b = 1)\<rparr>"
  let ?G = "{(0 :: nat, 2 :: nat), (1, 2)}"
  have thr: "op_threshold \<lparr>op_Threshold = 0, op_Skip = s\<rparr> = 60" for s by (simp add: op_threshold_def DefaultThreshold_def)
  have pr: "\<forall>p \<in> set ?p. distinct (buckets p)" by (simp add: distinct_buckets demo_print_def)
  have "matches ?p ?o = ?G"
    by (auto simp: matches_def match_def op_skips_def thr demo_score less_Suc_eq numeral_2_eq_2)
  then obtain cs where cs: "Clusters (\<lambda>m. m) ?p ?o = Some cs" "partition_listed 3 ?G 2 (map cl_Indexes cs)"
    using clusters_components [of ?o "\<lambda>m. m" ?p, OF _ refl pr] by (auto simp: thr DefaultThreshold_def numeral_3_eq_3)
  have "(0, 2) \<in> conn ?G" "(2, 1) \<in> conn ?G" by (rule conn_edge, simp) (rule conn_sym, rule conn_edge, simp)
  then have c01: "{0, 1} \<subseteq> class_of 3 ?G 0" using conn_trans [of 0 2 ?G 1] by (simp add: class_of_def)
  moreover have "finite (class_of 3 ?G 0)" by (simp add: class_of_def)
  ultimately have "2 \<le> card (class_of 3 ?G 0)" using card_mono [of "class_of 3 ?G 0" "{0, 1}"] by simp
  then have "class_of 3 ?G 0 \<in> set (map set (map cl_Indexes cs))" using cs(2) unfolding partition_listed_def by fastforce
  then obtain c where "c \<in> set cs" "set (cl_Indexes c) = class_of 3 ?G 0" by auto
  then show ?thesis using cs(1) c01 by blast
qed

text \<open>The given pairs whose positions exist.\<close>

definition in_range :: "nat \<Rightarrow> (int \<times> int) list \<Rightarrow> (nat \<times> nat) set" where
  "in_range n pairs = (\<lambda>(x, y). (nat x, nat y)) ` {(x, y) \<in> set pairs. 0 \<le> x \<and> x < int n \<and> 0 \<le> y \<and> y < int n}"

definition bare_joins :: "(nat \<times> nat) set \<Rightarrow> join set" where "bare_joins G = (\<lambda>(a, b). (a, b, 0, [])) ` G"

lemma in_range_Cons:
  "in_range n ((x, y) # pairs) =
     (if 0 \<le> x \<and> x < int n \<and> 0 \<le> y \<and> y < int n then insert (nat x, nat y) (in_range n pairs) else in_range n pairs)"
  by (auto simp: in_range_def)

lemma edges_bare_joins: "edges (bare_joins G) = G"
  by (force simp: edges_def bare_joins_def image_iff)

lemma sets_loop_ok:
  "joined n (bare_joins G) rep u \<Longrightarrow>
     \<exists>u' rep'. sets_loop n pairs u = Some u' \<and> joined n (bare_joins (G \<union> in_range n pairs)) rep' u'"
proof (induction pairs arbitrary: G rep u)
  case Nil
  then show ?case by (auto simp: in_range_def)
next
  case (Cons p pairs)
  obtain x y where p: "p = (x, y)" by fastforce
  show ?case
  proof (cases "0 \<le> x \<and> x < int n \<and> 0 \<le> y \<and> y < int n")
    case True
    have lt: "nat x < n" "nat y < n" using True by auto
    obtain u1 rep1 where u1: "uf_union (nat x) (nat y) 0 [] u = Some u1" "joined n (insert (nat x, nat y, 0, []) (bare_joins G)) rep1 u1"
      using union_joined [OF Cons.prems lt, of 0 "[]"] by blast
    have "insert (nat x, nat y, 0, []) (bare_joins G) = bare_joins (insert (nat x, nat y) G)" by (simp add: bare_joins_def)
    then show ?thesis using Cons.IH [of "insert (nat x, nat y) G" rep1 u1] True u1 by (simp add: p in_range_Cons)
  next
    case False
    then have "sets_loop n (p # pairs) u = sets_loop n pairs u" "in_range n (p # pairs) = in_range n pairs"
      by (auto simp: p in_range_Cons)
    then show ?thesis using Cons.IH [OF Cons.prems] by (simp only:)
  qed
qed

text \<open>
  Sets puts every position in exactly one set, two positions in the same set when a chain of the
  given pairs links them and in no other case, lists the sets in the order of their first members, and
  ignores a pair that names a position out of range.
\<close>

theorem Sets_partition:
  "\<exists>ls. Sets n pairs = Some ls \<and> (\<Union>l \<in> set ls. set l) = {..<n} \<and>
     partition_listed n (in_range n pairs) 1 ls"
proof -
  let ?E = "bare_joins (in_range n pairs)"
  have J0: "joined n (bare_joins {}) (\<lambda>i. i) (newUnionFind n)" using joined_new by (simp add: bare_joins_def)
  obtain u rep where u: "sets_loop n pairs (newUnionFind n) = Some u" "joined n ?E rep u"
    using sets_loop_ok [OF J0, of pairs] by auto
  obtain rank where f: "forest n rep rank (uf_parent u)" using u(2) by (auto simp: joined_def)
  obtain m where m: "group_loop (uf_parent u) [0 ..< n] [] = Some m" "distinct (map fst m)"
    "\<And>r l. (r, l) \<in> set m \<longleftrightarrow> l \<noteq> [] \<and> l = filter (\<lambda>i. rep i = r) [0 ..< n]" by (rule groups_of [OF f]) (rule that; assumption)
  have mm: "(r, l) \<in> set m \<longleftrightarrow> l \<noteq> [] \<and> 1 \<le> length l \<and> l = filter (\<lambda>i. rep i = r) [0 ..< n]" for r l
    using m(3) [of r l] by (cases l) auto
  have srt: "map (\<lambda>(root, indexes). sort indexes) m = map snd m"
  proof (rule map_cong [OF refl])
    fix x assume x: "x \<in> set m"
    obtain r l where rl: "x = (r, l)" by (rule prod.exhaust)
    have "l = filter (\<lambda>i. rep i = r) [0 ..< n]" using x m(3) unfolding rl by blast
    then have "sorted_wrt (<) l" by (metis sorted_wrt_filter sorted_wrt_upt)
    then show "(\<lambda>(root, indexes). sort indexes) x = snd x" by (simp add: rl sort_strict)
  qed
  let ?ls = "sort_key hd (map snd m)"
  have s: "Sets n pairs = Some ?ls" by (simp only: Sets_def u(1) m(1) option.case srt)
  have ed: "edges ?E = in_range n pairs" by (rule edges_bare_joins)
  have p: "partition_listed n (edges ?E) 1 ?ls" by (rule partition_groups [OF u(2) m(2) _ mm]) simp
  have "(\<Union>l \<in> set ?ls. set l) = (\<Union> (set (map set ?ls)))" by simp
  also have "\<dots> = \<Union> {class_of n (edges ?E) i |i. i < n \<and> 1 \<le> card (class_of n (edges ?E) i)}"
    using p unfolding partition_listed_def by simp
  also have "\<dots> = {..<n}"
  proof -
    have "i \<in> class_of n (edges ?E) i \<and> 1 \<le> card (class_of n (edges ?E) i)" if "i < n" for i
    proof -
      have i: "i \<in> class_of n (edges ?E) i" "finite (class_of n (edges ?E) i)" using that by (simp_all add: class_of_def)
      then have "card (class_of n (edges ?E) i) \<noteq> 0" by (metis card_0_eq empty_iff)
      then show ?thesis using i(1) by linarith
    qed
    moreover have "class_of n (edges ?E) i \<subseteq> {..<n}" for i by (auto simp: class_of_def)
    ultimately show ?thesis by blast
  qed
  finally have "(\<Union>l \<in> set ?ls. set l) = {..<n}" .
  with s p show ?thesis unfolding ed by (intro exI conjI)
qed

end
