(* ===== verification/MergeCards.thy ===== *)
theory MergeCards
  imports MergeCluster
begin

text \<open>
  \<open>internal/merge/vcard.go\<close> and \<open>fields.go\<close>: the write that combines a group of cards into one, and the one
  row a linked group is shown as.
\<close>

subsection \<open>The write\<close>

datatype merge_error = ErrMergeTarget | ErrMergeSource

definition repeatableProperties :: "string list" where
  "repeatableProperties = [''TEL'', ''EMAIL'', ''ADR'', ''URL'', ''IMPP'', ''RELATED'', ''MEMBER'', ''LANG'']"

definition serverProperties :: "string list" where
  "serverProperties = [''VERSION'', ''UID'', ''PRODID'', ''REV'']"

definition foldText :: "unicode \<Rightarrow> string \<Rightarrow> string" where
  "foldText U t = ToLower U (Join '' '' (Fields t))"

definition valueKey :: "unicode \<Rightarrow> string \<Rightarrow> string \<Rightarrow> string" where
  "valueKey U name t =
     (if name = ''TEL'' then (let key = PhoneKey U t in if key \<noteq> [] then key else foldText U t)
      else if name = ''EMAIL'' then (let key = model_NormalizeEmail U t in if key \<noteq> [] then key else foldText U t)
      else foldText U t)"

fun dedupe_loop :: "(string \<Rightarrow> string) \<Rightarrow> Value list \<Rightarrow> string list \<Rightarrow> Value list \<Rightarrow> Value list" where
  "dedupe_loop key [] seen out = out"
| "dedupe_loop key (v # vs) seen out =
     (let t = TrimSpace (va_Text v);
          folded = key t
      in if t = [] then dedupe_loop key vs seen out
         else if folded = [] \<or> folded \<in> set seen then dedupe_loop key vs seen out
         else dedupe_loop key vs (folded # seen) (out @ [v]))"

definition dedupeValues :: "unicode \<Rightarrow> string \<Rightarrow> Value list \<Rightarrow> Value list \<Rightarrow> Value list" where
  "dedupeValues U name base incoming = dedupe_loop (valueKey U name) (base @ incoming) [] []"

definition collect_values :: "unicode \<Rightarrow> Object list \<Rightarrow> string \<Rightarrow> Value list" where
  "collect_values U objects name = concat (map (\<lambda>ob. Property U (Some ob) name) objects)"

fun name_loop :: "unicode \<Rightarrow> Object option list \<Rightarrow> string list \<Rightarrow> merge_error + string list" where
  "name_loop U [] names = Inr names"
| "name_loop U (source # sources) names =
     (case source of
        None \<Rightarrow> Inl ErrMergeSource
      | Some ob \<Rightarrow>
          if ob_kind ob \<noteq> KindVCard then Inl ErrMergeSource
          else name_loop U sources
            (distinct_loop (filter (\<lambda>n. n \<notin> set serverProperties) (Names U (Some ob))) names names))"

definition merge_name :: "unicode \<Rightarrow> Object \<Rightarrow> Object list \<Rightarrow> string \<Rightarrow> Patch \<times> string list \<Rightarrow> Patch \<times> string list" where
  "merge_name U target sources name = (\<lambda>(patch, added).
     (let existing = Property U (Some target) name
      in if length existing = 0
         then (let values = dedupeValues U name [] (collect_values U sources name)
               in if length values = 0 then (patch, added) else (patch_Set name values patch, added @ [name]))
         else if name \<in> set repeatableProperties
         then (let values = dedupeValues U name existing (collect_values U sources name)
               in if length values = length existing then (patch, added) else (patch_Set name values patch, added @ [name]))
         else (patch, added)))"

definition MergedPatch :: "unicode \<Rightarrow> Object option \<Rightarrow> Object option list \<Rightarrow> merge_error + Patch \<times> string list" where
  "MergedPatch U target sources =
     (case target of
        None \<Rightarrow> Inl ErrMergeTarget
      | Some t \<Rightarrow>
          if ob_kind t \<noteq> KindVCard then Inl ErrMergeTarget
          else
            (case name_loop U sources [] of
               Inl e \<Rightarrow> Inl e
             | Inr names \<Rightarrow> Inr (fold (merge_name U t (map the sources)) (sort_strings names) ([], []))))"

subsection \<open>The row\<close>

record MergedField =
  mf_Name :: string
  mf_Label :: string
  mf_Multi :: bool
  mf_Values :: "string list"
  mf_Options :: "string list"
  mf_Chosen :: string
  mf_Conflict :: bool
  mf_Remembered :: bool

record Merged =
  mg_Title :: string
  mg_Fields :: "MergedField list"

definition mg_Field :: "Merged \<Rightarrow> string \<Rightarrow> MergedField option" where
  "mg_Field m name = find_first (\<lambda>f. mf_Name f = name) (mg_Fields m)"

definition mg_Values :: "Merged \<Rightarrow> string \<Rightarrow> string list" where
  "mg_Values m name = (case mg_Field m name of None \<Rightarrow> [] | Some f \<Rightarrow> mf_Values f)"

definition mg_Conflicts :: "Merged \<Rightarrow> MergedField list" where
  "mg_Conflicts m = filter mf_Conflict (mg_Fields m)"

record contactField =
  cf_Name :: string
  cf_Label :: string
  cf_Multi :: bool
  cf_key :: "(string \<Rightarrow> string) option"
  cf_read :: "Contact \<Rightarrow> string list"

definition single :: "string \<Rightarrow> string list" where
  "single value = (if TrimSpace value = [] then [] else [value])"

definition labeledValues :: "LabeledValue list \<Rightarrow> string list" where
  "labeledValues values = filter (\<lambda>v. TrimSpace v \<noteq> []) (map lv_Value values)"

definition formatAddress :: "Address \<Rightarrow> string" where
  "formatAddress a =
     Join '', '' (nonblank [ad_Street a, ad_Extended a, ad_Locality a, ad_Region a, ad_PostalCode a, ad_Country a])"

definition plain_field :: "string \<Rightarrow> string \<Rightarrow> (Contact \<Rightarrow> string) \<Rightarrow> contactField" where
  "plain_field name lab f = \<lparr>cf_Name = name, cf_Label = lab, cf_Multi = False, cf_key = None, cf_read = (\<lambda>c. single (f c))\<rparr>"

definition contactFields :: "unicode \<Rightarrow> contactField list" where
  "contactFields U =
     [plain_field ''FN'' ''Name'' ct_DisplayName,
      plain_field ''NICKNAME'' ''Nickname'' ct_Nickname,
      plain_field ''ORG'' ''Organisation'' (\<lambda>c. Join '', '' (ct_Organization c)),
      plain_field ''TITLE'' ''Title'' ct_Title,
      plain_field ''ROLE'' ''Role'' ct_Role,
      plain_field ''BDAY'' ''Birthday'' ct_Birthday,
      \<lparr>cf_Name = ''TEL'', cf_Label = ''Phone'', cf_Multi = True, cf_key = Some (PhoneKey U), cf_read = (\<lambda>c. labeledValues (ct_Phones c))\<rparr>,
      \<lparr>cf_Name = ''EMAIL'', cf_Label = ''Email'', cf_Multi = True, cf_key = Some (model_NormalizeEmail U),
       cf_read = (\<lambda>c. labeledValues (ct_Emails c))\<rparr>,
      \<lparr>cf_Name = ''ADR'', cf_Label = ''Address'', cf_Multi = True, cf_key = None,
       cf_read = (\<lambda>c. filter (\<lambda>t. t \<noteq> []) (map formatAddress (ct_Addresses c)))\<rparr>,
      \<lparr>cf_Name = ''URL'', cf_Label = ''Link'', cf_Multi = True, cf_key = None, cf_read = (\<lambda>c. labeledValues (ct_URLs c))\<rparr>,
      \<lparr>cf_Name = ''IMPP'', cf_Label = ''Chat'', cf_Multi = True, cf_key = None, cf_read = (\<lambda>c. labeledValues (ct_IMs c))\<rparr>,
      \<lparr>cf_Name = ''CATEGORIES'', cf_Label = ''Tags'', cf_Multi = True, cf_key = None, cf_read = ct_Categories\<rparr>,
      plain_field ''NOTE'' ''Note'' ct_Note]"

definition foldKey :: "unicode \<Rightarrow> contactField \<Rightarrow> string \<Rightarrow> string" where
  "foldKey U f value =
     (case cf_key f of
        Some key \<Rightarrow> if key value \<noteq> [] then key value else ToLower U (Join '' '' (Fields value))
      | None \<Rightarrow> ToLower U (Join '' '' (Fields value)))"

fun value_loop :: "(string \<Rightarrow> string) \<Rightarrow> string list \<Rightarrow> string list \<Rightarrow> string list \<Rightarrow> string list" where
  "value_loop key [] seen values = values"
| "value_loop key (v # vs) seen values =
     (let value = TrimSpace v
      in if value = [] then value_loop key vs seen values
         else if key value = [] \<or> key value \<in> set seen then value_loop key vs seen values
         else value_loop key vs (key value # seen) (values @ [value]))"

definition merged_values :: "unicode \<Rightarrow> Contact list \<Rightarrow> contactField \<Rightarrow> string list" where
  "merged_values U views f = value_loop (foldKey U f) (concat (map (cf_read f) views)) [] []"

definition merged_field :: "unicode \<Rightarrow> (string, string) gomap \<Rightarrow> Contact list \<Rightarrow> contactField \<Rightarrow> MergedField option" where
  "merged_field U prefs views f =
     (let values = merged_values U views f
      in if length values = 0 then None
         else
           (let out = \<lparr>mf_Name = cf_Name f, mf_Label = cf_Label f, mf_Multi = cf_Multi f, mf_Values = values, mf_Options = [],
                       mf_Chosen = [], mf_Conflict = False, mf_Remembered = False\<rparr>
            in if cf_Multi f then Some out
               else
                 (let out = out\<lparr>mf_Chosen := hd values\<rparr>;
                      want = TrimSpace (case gm_get prefs (cf_Name f) of None \<Rightarrow> [] | Some w \<Rightarrow> w);
                      out = (if 1 < length values
                             then (let out = out\<lparr>mf_Conflict := True, mf_Options := values\<rparr>
                                   in if want \<noteq> [] \<and> want \<in> set values then out\<lparr>mf_Chosen := want, mf_Remembered := True\<rparr> else out)
                             else out)
                  in Some (out\<lparr>mf_Values := [mf_Chosen out]\<rparr>))))"

definition view_of :: "dav_lib \<Rightarrow> Record \<Rightarrow> Contact option" where
  "view_of L r = (case rc_Object r of None \<Rightarrow> None | Some ob \<Rightarrow> (case ob_Contact L (Some ob) of Inl _ \<Rightarrow> None | Inr c \<Rightarrow> Some c))"

definition MergeContacts :: "dav_lib \<Rightarrow> Record list \<Rightarrow> (string, string) gomap \<Rightarrow> Merged" where
  "MergeContacts L records prefs =
     (let U = lb_U L;
          views = List.map_filter (view_of L) records;
          merged = \<lparr>mg_Title = [], mg_Fields = List.map_filter (merged_field U prefs views) (contactFields U)\<rparr>
      in (case mg_Field merged ''FN'' of Some name \<Rightarrow> merged\<lparr>mg_Title := mf_Chosen name\<rparr> | None \<Rightarrow> merged))"

subsection \<open>Lemmas\<close>

text \<open>
  A value is represented in a list when the list has one that folds to the same; blank values and those
  that fold to nothing are not compared.
\<close>

definition represented :: "(string \<Rightarrow> string) \<Rightarrow> Value list \<Rightarrow> Value \<Rightarrow> bool" where
  "represented key vs v \<longleftrightarrow> TrimSpace (va_Text v) = [] \<or> key (TrimSpace (va_Text v)) = [] \<or>
     (\<exists>w \<in> set vs. key (TrimSpace (va_Text w)) = key (TrimSpace (va_Text v)))"

lemma dedupe_loop_ok:
  assumes "seen \<subseteq> set s" "set s \<subseteq> (\<lambda>w. key (TrimSpace (va_Text w))) ` set out" "seen = set s"
  shows "(\<forall>v \<in> set out \<union> set vs. represented key (dedupe_loop key vs s out) v) \<and>
     set out \<subseteq> set (dedupe_loop key vs s out) \<and> set (dedupe_loop key vs s out) \<subseteq> set out \<union> set vs \<and>
     (\<exists>r. dedupe_loop key vs s out = out @ r)"
  using assms
proof (induction vs arbitrary: s out seen)
  case Nil
  then show ?case by (auto simp: represented_def)
next
  case (Cons v vs)
  let ?t = "TrimSpace (va_Text v)"
  show ?case
  proof (cases "?t = [] \<or> key ?t = [] \<or> key ?t \<in> set s")
    case True
    then have e: "dedupe_loop key (v # vs) s out = dedupe_loop key vs s out" by (auto simp: Let_def)
    note ih = Cons.IH [OF Cons.prems]
    have "represented key (dedupe_loop key vs s out) v"
    proof (cases "?t = [] \<or> key ?t = []")
      case False
      then have "key ?t \<in> (\<lambda>w. key (TrimSpace (va_Text w))) ` set out" using True Cons.prems by auto
      then obtain w where "w \<in> set out" "key (TrimSpace (va_Text w)) = key ?t" by auto
      then show ?thesis using ih by (auto simp: represented_def)
    qed (auto simp: represented_def)
    then show ?thesis using ih unfolding e by auto
  next
    case False
    then have e: "dedupe_loop key (v # vs) s out = dedupe_loop key vs (key ?t # s) (out @ [v])" by (auto simp: Let_def)
    have "set (key ?t # s) \<subseteq> (\<lambda>w. key (TrimSpace (va_Text w))) ` set (out @ [v])" using Cons.prems by auto
    note ih = Cons.IH [OF subset_refl this refl]
    show ?thesis unfolding e using ih by auto
  qed
qed

lemma dedupeValues_ok:
  "v \<in> set base \<union> set incoming \<Longrightarrow> represented (valueKey U name) (dedupeValues U name base incoming) v"
  "set (dedupeValues U name base incoming) \<subseteq> set base \<union> set incoming"
  using dedupe_loop_ok [of "{}" "[]" "valueKey U name" "[]" "base @ incoming"] by (auto simp: dedupeValues_def)

lemma represented_mono: "represented key vs v \<Longrightarrow> set vs \<subseteq> set ws \<Longrightarrow> represented key ws v"
  by (auto simp: represented_def)

lemma represented_self: "v \<in> set vs \<Longrightarrow> represented key vs v"
  by (auto simp: represented_def)

lemma dedupe_loop_append: "\<exists>s'. dedupe_loop key (vs @ ws) s out = dedupe_loop key ws s' (dedupe_loop key vs s out)"
  by (induction vs arbitrary: s out) (auto simp: Let_def)

lemma dedupe_loop_extends: "\<exists>r. dedupe_loop key vs s out = out @ r"
proof (induction vs arbitrary: s out)
  case (Cons v vs)
  then show ?case using Cons.IH [of "key (TrimSpace (va_Text v)) # s" "out @ [v]"] by (auto simp: Let_def)
qed simp

lemma dedupeValues_same_length:
  assumes "length (dedupeValues U name base incoming) = length base" and "length (dedupeValues U name base []) = length base"
  shows "dedupeValues U name base incoming = dedupeValues U name base []"
proof -
  obtain s where "dedupe_loop (valueKey U name) (base @ incoming) [] [] = dedupe_loop (valueKey U name) incoming s (dedupeValues U name base [])"
    using dedupe_loop_append [of "valueKey U name" base incoming "[]" "[]"] by (auto simp: dedupeValues_def)
  then obtain r where "dedupeValues U name base incoming = dedupeValues U name base [] @ r"
    using dedupe_loop_extends [of "valueKey U name" incoming s] by (auto simp: dedupeValues_def)
  then show ?thesis using assms by simp
qed

lemma name_loop_ok:
  "name_loop U sources names = Inr ns \<Longrightarrow> distinct names \<Longrightarrow>
     distinct ns \<and> list_all (\<lambda>s. s \<noteq> None) sources \<and>
     set ns = set names \<union> ((\<Union>ob \<in> set (map the sources). set (Names U (Some ob))) - set serverProperties)"
proof (induction sources arbitrary: names)
  case (Cons s sources)
  then obtain ob where ob: "s = Some ob" "name_loop U sources
    (distinct_loop (filter (\<lambda>n. n \<notin> set serverProperties) (Names U (Some ob))) names names) = Inr ns"
    by (auto split: option.splits if_splits)
  show ?case using Cons.IH [OF ob(2) distinct_loop_distinct [OF Cons.prems(2) refl]] ob(1)
    by (auto simp: distinct_loop_set)
qed auto

text \<open>What the patch sets for one name, if anything.\<close>

definition merge_value :: "unicode \<Rightarrow> Object \<Rightarrow> Object list \<Rightarrow> string \<Rightarrow> Value list option" where
  "merge_value U t srcs name =
     (let ex = Property U (Some t) name;
          vs = dedupeValues U name ex (collect_values U srcs name)
      in if ex = [] then (if vs = [] then None else Some vs)
         else if name \<in> set repeatableProperties \<and> length vs \<noteq> length ex then Some vs
         else None)"

definition merge_op :: "unicode \<Rightarrow> Object \<Rightarrow> Object list \<Rightarrow> string \<Rightarrow> patchOp option" where
  "merge_op U t srcs name =
     map_option (\<lambda>vs. \<lparr>po_name = name, po_remove = False, po_values = vs\<rparr>) (merge_value U t srcs name)"

lemma merge_name_value:
  "merge_name U t srcs name (patch, added) =
     (case merge_value U t srcs name of None \<Rightarrow> (patch, added) | Some vs \<Rightarrow> (patch_Set name vs patch, added @ [name]))"
  by (auto simp: merge_name_def merge_value_def Let_def)

lemma merge_names:
  "fold (merge_name U t srcs) names (patch, added) =
     (patch @ List.map_filter (merge_op U t srcs) names, added @ filter (\<lambda>n. merge_value U t srcs n \<noteq> None) names)"
proof (induction names arbitrary: patch added)
  case (Cons n names)
  then show ?case
    by (cases "merge_value U t srcs n") (simp_all add: merge_name_value merge_op_def patch_Set_def)
qed simp

lemma find_merge_op:
  "find_first (\<lambda>op. po_name op = n) (List.map_filter (merge_op U t srcs) names) =
     (if n \<in> set names then merge_op U t srcs n else None)"
proof (induction names)
  case (Cons m names)
  show ?case
  proof (cases "merge_value U t srcs m")
    case None
    then show ?thesis using Cons.IH by (auto simp: merge_op_def)
  next
    case (Some vs)
    then have "merge_op U t srcs m = Some \<lparr>po_name = m, po_remove = False, po_values = vs\<rparr>" by (simp add: merge_op_def)
    then show ?thesis using Cons.IH by (auto simp:)
  qed
qed simp

text \<open>The values of a property of the target once the patch is applied.\<close>

definition after_patch :: "unicode \<Rightarrow> Object \<Rightarrow> Patch \<Rightarrow> string \<Rightarrow> Value list" where
  "after_patch U t patch n =
     (case find_first (\<lambda>op. po_name op = n) patch of None \<Rightarrow> Property U (Some t) n | Some op \<Rightarrow> po_values op)"

lemma merge_value_Some:
  "merge_value U t srcs n = Some vs \<Longrightarrow> vs = dedupeValues U n (Property U (Some t) n) (collect_values U srcs n)"
  by (auto simp: merge_value_def Let_def split: if_splits)

lemma merge_value_covers:
  assumes "Property U (Some t) n = [] \<or>
      n \<in> set repeatableProperties \<and> length (dedupeValues U n (Property U (Some t) n) []) = length (Property U (Some t) n)"
    and "v \<in> set (collect_values U srcs n)"
  shows "represented (valueKey U n) (case merge_value U t srcs n of None \<Rightarrow> Property U (Some t) n | Some vs \<Rightarrow> vs) v"
proof -
  let ?ex = "Property U (Some t) n" and ?vs = "dedupeValues U n (Property U (Some t) n) (collect_values U srcs n)"
  have r: "represented (valueKey U n) ?vs v" using dedupeValues_ok(1) assms(2) by blast
  show ?thesis
  proof (cases "merge_value U t srcs n")
    case None
    then have "set ?vs \<subseteq> set ?ex"
    proof (cases "?ex = []")
      case True
      then show ?thesis using None by (auto simp: merge_value_def Let_def split: if_splits)
    next
      case False
      then have "length ?vs = length ?ex" using None assms(1) by (auto simp: merge_value_def Let_def split: if_splits)
      then have "?vs = dedupeValues U n ?ex []" using dedupeValues_same_length assms(1) False by blast
      then show ?thesis using dedupeValues_ok(2) [of U n ?ex "[]"] by simp
    qed
    then show ?thesis using represented_mono [OF r] None by simp
  next
    case (Some vs)
    then show ?thesis using r merge_value_Some [OF Some] by simp
  qed
qed

lemma in_map_filter: "set (List.map_filter f xs) = {y. \<exists>x \<in> set xs. f x = Some y}"
  by (induction xs) (auto simp: split: option.splits)

lemma map_po_name:
  "map po_name (List.map_filter (merge_op U t srcs) names) = filter (\<lambda>n. merge_value U t srcs n \<noteq> None) names"
  by (induction names) (auto simp: merge_op_def split: option.splits)

subsection \<open>Properties\<close>

text \<open>
  C4. Merging cards only adds. The patch removes nothing and leaves the properties of the server alone;
  every value of the target is still there afterwards, up to the spelling it is compared in, and nothing
  is there that no card carried; a property the cards disagree about stays as the target has it; and
  what the other cards carry and the target lacks altogether, or of a repeatable property whose values
  on the target are pairwise different, is all there.
\<close>

theorem merging_only_adds:
  assumes "MergedPatch U (Some t) sources = Inr (patch, added)"
  shows "(\<forall>op \<in> set patch. \<not> po_remove op \<and> po_name op \<notin> set serverProperties) \<and>
    map po_name patch = added \<and> distinct added \<and> sorted added \<and>
    (\<forall>n. (\<forall>v \<in> set (Property U (Some t) n). represented (valueKey U n) (after_patch U t patch n) v) \<and>
       set (after_patch U t patch n) \<subseteq> set (Property U (Some t) n) \<union> (\<Union>ob \<in> set (map the sources). set (Property U (Some ob) n)) \<and>
       (Property U (Some t) n \<noteq> [] \<and> n \<notin> set repeatableProperties \<longrightarrow> after_patch U t patch n = Property U (Some t) n) \<and>
       (n \<notin> set serverProperties \<and>
          (Property U (Some t) n = [] \<or>
           n \<in> set repeatableProperties \<and> length (dedupeValues U n (Property U (Some t) n) []) = length (Property U (Some t) n)) \<longrightarrow>
          (\<forall>ob \<in> set (map the sources). n \<in> set (Names U (Some ob)) \<longrightarrow>
             (\<forall>v \<in> set (Property U (Some ob) n). represented (valueKey U n) (after_patch U t patch n) v))))"
proof -
  let ?srcs = "map the sources"
  obtain ns where ns: "name_loop U sources [] = Inr ns" and
    f: "fold (merge_name U t ?srcs) (sort_strings ns) ([], []) = (patch, added)"
    using assms by (auto simp: MergedPatch_def split: if_splits sum.splits)
  have nl: "distinct ns" "set ns = (\<Union>ob \<in> set ?srcs. set (Names U (Some ob))) - set serverProperties"
    using name_loop_ok [OF ns] by simp_all
  have pa: "patch = List.map_filter (merge_op U t ?srcs) (sort_strings ns)"
    "added = filter (\<lambda>n. merge_value U t ?srcs n \<noteq> None) (sort_strings ns)" using f by (simp_all add: merge_names)
  have mem: "set (sort_strings ns) = (\<Union>ob \<in> set ?srcs. set (Names U (Some ob))) - set serverProperties"
    unfolding sort_strings_def set_sort by (rule nl(2))
  have after: "after_patch U t patch n = (case (if n \<in> set (sort_strings ns) then merge_value U t ?srcs n else None) of
      None \<Rightarrow> Property U (Some t) n | Some vs \<Rightarrow> vs)" for n
    by (simp add: after_patch_def pa(1) find_merge_op merge_op_def split: option.split)
  have "(\<forall>op \<in> set patch. \<not> po_remove op \<and> po_name op \<notin> set serverProperties) \<and> map po_name patch = added"
    using mem by (auto simp: pa merge_op_def in_map_filter map_po_name)
  moreover have "distinct added \<and> sorted added"
    using nl(1) unfolding pa(2) sort_strings_def by (simp add: sorted_wrt_filter)
  moreover have "\<forall>v \<in> set (Property U (Some t) n). represented (valueKey U n) (after_patch U t patch n) v" for n
  proof -
    have "\<forall>v \<in> set (Property U (Some t) n). represented (valueKey U n) vs v" if "merge_value U t ?srcs n = Some vs" for vs
      using merge_value_Some [OF that] dedupeValues_ok(1) by blast
    then show ?thesis unfolding after by (auto split: option.split simp: represented_self)
  qed
  moreover have "set (after_patch U t patch n) \<subseteq> set (Property U (Some t) n) \<union> (\<Union>ob \<in> set ?srcs. set (Property U (Some ob) n))" for n
  proof -
    have "set vs \<subseteq> set (Property U (Some t) n) \<union> (\<Union>ob \<in> set ?srcs. set (Property U (Some ob) n))" if "merge_value U t ?srcs n = Some vs" for vs
      using merge_value_Some [OF that] dedupeValues_ok(2) [of U n "Property U (Some t) n" "collect_values U ?srcs n"]
      by (simp add: collect_values_def)
    then show ?thesis unfolding after by (auto split: option.split)
  qed
  moreover have "after_patch U t patch n = Property U (Some t) n" if "Property U (Some t) n \<noteq> []" "n \<notin> set repeatableProperties" for n
    using that by (simp add: after merge_value_def)
  moreover have "represented (valueKey U n) (after_patch U t patch n) v"
    if n: "n \<notin> set serverProperties" and c: "Property U (Some t) n = [] \<or>
         n \<in> set repeatableProperties \<and> length (dedupeValues U n (Property U (Some t) n) []) = length (Property U (Some t) n)"
      and ob: "ob \<in> set ?srcs" "n \<in> set (Names U (Some ob))" and v: "v \<in> set (Property U (Some ob) n)" for n ob v
  proof -
    have "n \<in> set (sort_strings ns)" using mem n ob by blast
    moreover have "v \<in> set (collect_values U ?srcs n)" using ob(1) v by (auto simp: collect_values_def)
    ultimately show ?thesis using merge_value_covers [OF c] unfolding after by simp
  qed
  ultimately show ?thesis by blast
qed

definition demo_note :: Object where
  "demo_note = \<lparr>ob_Path = ''/b.vcf'', ob_ETag = ''1'', ob_kind = KindVCard,
     ob_card = Some [(''UID'', [demo_field ''u2'']), (''NOTE'', [demo_field ''hi''])], ob_cal = None\<rparr>"

theorem merging_only_adds_witness:
  "\<exists>patch added. MergedPatch ascii_unicode (Some demo_card) [Some demo_note] = Inr (patch, added) \<and>
     list_all (\<lambda>op. \<not> po_remove op) patch \<and>
     list_all (represented (valueKey ascii_unicode ''NOTE'') (after_patch ascii_unicode demo_card patch ''NOTE''))
       (Property ascii_unicode (Some demo_note) ''NOTE'')"
proof -
  have n: "canonicalName ascii_unicode ''NOTE'' = Inr ''NOTE''" by (rule canonical_plain) (simp_all add: name_byte_def)
  have none: "Property ascii_unicode (Some demo_card) ''NOTE'' = []" using n by (simp add: Property_def demo_card_def)
  have names: "''NOTE'' \<in> set (Names ascii_unicode (Some demo_note))" by (simp add: Names_def demo_note_def sort_strings_def)
  obtain patch added where m: "MergedPatch ascii_unicode (Some demo_card) [Some demo_note] = Inr (patch, added)"
    by (simp add: MergedPatch_def demo_card_def demo_note_def) (metis surj_pair)
  have "''NOTE'' \<notin> set serverProperties" by (simp add: serverProperties_def)
  then show ?thesis using m merging_only_adds [OF m] none names by (auto simp: list_all_iff)
qed

text \<open>
  The shortcut "as many values as before, so nothing to add" is wrong when the target writes one number
  twice: the union drops the repetition, takes in a new number, and has as many values as before. The
  patch leaves the property alone and the new number is not on the merged card.
\<close>

lemma new_value_lost:
  assumes ex: "Property U (Some t) n = [v, v']" and new: "collect_values U srcs n = [w]"
    and nb: "TrimSpace (va_Text v) \<noteq> []" "TrimSpace (va_Text v') \<noteq> []" "TrimSpace (va_Text w) \<noteq> []"
    and same: "valueKey U n (TrimSpace (va_Text v')) = valueKey U n (TrimSpace (va_Text v))"
    and keys: "valueKey U n (TrimSpace (va_Text v)) \<noteq> []" "valueKey U n (TrimSpace (va_Text w)) \<noteq> []"
      "valueKey U n (TrimSpace (va_Text w)) \<noteq> valueKey U n (TrimSpace (va_Text v))"
  shows "merge_name U t srcs n (patch, added) = (patch, added)" and "\<not> represented (valueKey U n) (Property U (Some t) n) w"
proof -
  have "dedupeValues U n [v, v'] [w] = [v, w]" using nb same keys by (simp add: dedupeValues_def Let_def)
  then show "merge_name U t srcs n (patch, added) = (patch, added)"
    by (simp add: merge_name_value merge_value_def ex new)
  show "\<not> represented (valueKey U n) (Property U (Some t) n) w" using nb same keys by (simp add: represented_def ex)
qed

text \<open>
  When every value of a repeatable property of the target and of the others is blank, the patch sets the
  property to no value at all, which \<open>Apply\<close> refuses: the whole merge fails.
\<close>

lemma blank_values_refused:
  assumes "n \<in> set repeatableProperties" and "Property U (Some t) n \<noteq> []"
    and "\<forall>v \<in> set (Property U (Some t) n @ collect_values U srcs n). TrimSpace (va_Text v) = []"
  shows "merge_value U t srcs n = Some []"
    and "canonicalName U n = Inr n \<Longrightarrow> n \<notin> set protectedProperties \<Longrightarrow> check_ops U (patch_Set n [] []) = Inl (ErrNoValue n)"
proof -
  have "dedupe_loop key vs s [] = []" if "\<forall>v \<in> set vs. TrimSpace (va_Text v) = []" for key vs s
    using that by (induction vs) auto
  then have "dedupeValues U n (Property U (Some t) n) (collect_values U srcs n) = []" using assms(3) by (simp add: dedupeValues_def)
  then show "merge_value U t srcs n = Some []" using assms(1,2) by (simp add: merge_value_def)
qed (simp add: patch_Set_def)

subsection \<open>Properties of the row\<close>

lemma value_loop_ok:
  assumes "set s = key ` set out" "distinct (map key out)"
  shows "set s \<union> key ` {TrimSpace v |v. v \<in> set vs \<and> TrimSpace v \<noteq> [] \<and> key (TrimSpace v) \<noteq> []} = key ` set (value_loop key vs s out) \<and>
     set (value_loop key vs s out) \<subseteq> set out \<union> {TrimSpace v |v. v \<in> set vs \<and> TrimSpace v \<noteq> []} \<and>
     distinct (map key (value_loop key vs s out))"
  using assms
proof (induction vs arbitrary: s out)
  case (Cons v vs)
  show ?case
  proof (cases "TrimSpace v = [] \<or> key (TrimSpace v) = [] \<or> key (TrimSpace v) \<in> set s")
    case True
    then have e: "value_loop key (v # vs) s out = value_loop key vs s out" by (auto simp: Let_def)
    show ?thesis unfolding e using Cons.IH [OF Cons.prems] True by auto
  next
    case False
    then have e: "value_loop key (v # vs) s out = value_loop key vs (key (TrimSpace v) # s) (out @ [TrimSpace v])" by (auto simp: Let_def)
    have p: "set (key (TrimSpace v) # s) = key ` set (out @ [TrimSpace v])" "distinct (map key (out @ [TrimSpace v]))"
      using Cons.prems False by auto
    show ?thesis unfolding e using Cons.IH [OF p] False by auto
  qed
qed auto

lemma merged_field_name: "merged_field U prefs views f = Some x \<Longrightarrow> mf_Name x = cf_Name f"
  by (auto simp: merged_field_def Let_def split: if_splits)

lemma find_merged_field:
  "distinct (map cf_Name fs) \<Longrightarrow> f \<in> set fs \<Longrightarrow>
     find_first (\<lambda>x. mf_Name x = cf_Name f) (List.map_filter (merged_field U prefs views) fs) = merged_field U prefs views f"
proof (induction fs)
  case (Cons g fs)
  have other: "find_first (\<lambda>x. mf_Name x = cf_Name g) (List.map_filter (merged_field U prefs views) fs) = None"
    unfolding find_first_None in_map_filter
  proof clarify
    fix x h assume h: "h \<in> set fs" "merged_field U prefs views h = Some x" "mf_Name x = cf_Name g"
    then have "cf_Name h = cf_Name g" using merged_field_name by metis
    then show False using h(1) Cons.prems(1) by (auto simp: image_iff)
  qed
  show ?case
  proof (cases "f = g")
    case True
    then show ?thesis using other merged_field_name by (auto split: option.split)
  next
    case False
    then have "cf_Name g \<noteq> cf_Name f" "f \<in> set fs" using Cons.prems by auto
    then show ?thesis using Cons merged_field_name by (auto split: option.split)
  qed
qed simp

lemma fields_distinct: "distinct (map cf_Name (contactFields U))"
  by (simp add: contactFields_def plain_field_def)

lemma MergeContacts_field:
  assumes "f \<in> set (contactFields (lb_U L))"
  shows "mg_Field (MergeContacts L records prefs) (cf_Name f) =
    merged_field (lb_U L) prefs (List.map_filter (view_of L) records) f"
proof -
  let ?fs = "List.map_filter (merged_field (lb_U L) prefs (List.map_filter (view_of L) records)) (contactFields (lb_U L))"
  have "mg_Fields (MergeContacts L records prefs) = ?fs" by (simp add: MergeContacts_def Let_def split: option.split)
  then show ?thesis unfolding mg_Field_def using find_merged_field [OF fields_distinct assms] by simp
qed

text \<open>
  A linked group is shown as one row that hides nothing: a field is shown exactly when some card
  carries it; a repeatable field shows every value of every card once, where two spellings of a number
  or an address count as one; a single field shows a value some card carries, the remembered choice when
  a card still offers it and the first one otherwise, and is marked as a conflict with all the offers
  exactly when the cards disagree.
\<close>

theorem merged_row_hides_nothing:
  assumes "f \<in> set (contactFields (lb_U L))"
  shows "let views = List.map_filter (view_of L) records; vs = merged_values (lb_U L) views f; key = foldKey (lb_U L) f;
      want = TrimSpace (case gm_get prefs (cf_Name f) of None \<Rightarrow> [] | Some w \<Rightarrow> w);
      field = mg_Field (MergeContacts L records prefs) (cf_Name f)
    in (\<forall>c \<in> set views. \<forall>v \<in> set (cf_read f c). TrimSpace v \<noteq> [] \<and> key (TrimSpace v) \<noteq> [] \<longrightarrow> (\<exists>w \<in> set vs. key w = key (TrimSpace v))) \<and>
       (\<forall>w \<in> set vs. \<exists>c \<in> set views. \<exists>v \<in> set (cf_read f c). w = TrimSpace v) \<and> distinct (map key vs) \<and>
       (field = None \<longleftrightarrow> vs = []) \<and>
       (\<forall>x. field = Some x \<longrightarrow>
          (if cf_Multi f then mf_Values x = vs
           else mf_Values x = [mf_Chosen x] \<and> mf_Chosen x \<in> set vs \<and> (mf_Conflict x \<longleftrightarrow> 1 < length vs) \<and>
             (mf_Conflict x \<longrightarrow> mf_Options x = vs) \<and> (mf_Remembered x \<longleftrightarrow> 1 < length vs \<and> want \<noteq> [] \<and> want \<in> set vs) \<and>
             mf_Chosen x = (if mf_Remembered x then want else hd vs)))"
proof -
  let ?U = "lb_U L" and ?views = "List.map_filter (view_of L) records"
  let ?raw = "concat (map (cf_read f) ?views)" and ?key = "foldKey (lb_U L) f"
  have vs: "?key ` {TrimSpace v |v. v \<in> set ?raw \<and> TrimSpace v \<noteq> [] \<and> ?key (TrimSpace v) \<noteq> []} = ?key ` set (merged_values ?U ?views f)"
    "set (merged_values ?U ?views f) \<subseteq> {TrimSpace v |v. v \<in> set ?raw \<and> TrimSpace v \<noteq> []}" "distinct (map ?key (merged_values ?U ?views f))"
    using value_loop_ok [of "[]" ?key "[]" ?raw] by (simp_all add: merged_values_def)
  have all: "\<exists>w \<in> set (merged_values ?U ?views f). ?key w = ?key (TrimSpace v)"
    if "c \<in> set ?views" "v \<in> set (cf_read f c)" "TrimSpace v \<noteq> []" "?key (TrimSpace v) \<noteq> []" for c v
  proof -
    have "?key (TrimSpace v) \<in> ?key ` {TrimSpace v |v. v \<in> set ?raw \<and> TrimSpace v \<noteq> [] \<and> ?key (TrimSpace v) \<noteq> []}"
      using that by (intro imageI) auto
    then show ?thesis unfolding vs(1) by force
  qed
  have from_card: "\<exists>c \<in> set ?views. \<exists>v \<in> set (cf_read f c). w = TrimSpace v" if "w \<in> set (merged_values ?U ?views f)" for w
    using subsetD [OF vs(2) that] by auto
  show ?thesis unfolding Let_def MergeContacts_field [OF assms]
    using all from_card vs(3)
    by (intro conjI; (blast | auto simp: merged_field_def Let_def split: if_splits))
qed

definition demo_row :: Record where
  "demo_row = \<lparr>rc_AccountID = ''a'', rc_Collection = ''/c/'', rc_AccountLabel = [], rc_CollectionLabel = [], rc_Color = [],
     rc_ReadOnly = False, rc_Object = Some demo_note\<rparr>"

theorem merged_row_hides_nothing_witness:
  "\<exists>x. mg_Field (MergeContacts demo_lib [demo_row] []) ''NOTE'' = Some x \<and> mf_Values x = [''hi''] \<and> \<not> mf_Conflict x"
proof -
  let ?U = "ascii_unicode" and ?f = "plain_field ''NOTE'' ''Note'' ct_Note"
  have U: "lb_U demo_lib = ?U" by (simp add: demo_lib_def)
  have f: "?f \<in> set (contactFields (lb_U demo_lib))" by (simp add: contactFields_def)
  have n: "canonicalName ?U ''NOTE'' = Inr ''NOTE''" by (rule canonical_plain) (simp_all add: name_byte_def)
  have pr: "map va_Text (Property ?U (Some demo_note) ''NOTE'') = [''hi'']"
    using n by (simp add: Property_def demo_note_def demo_field_def valueFromField_def)
  have trim: "TrimSpace ''hi'' = ''hi''" by (rule TrimSpace_tight) (simp_all add: IsSpace_def)
  obtain c where c: "ob_Contact demo_lib (Some demo_note) = Inr c" "ct_Note c = firstText (Property ?U (Some demo_note) ''NOTE'')"
    by (simp add: ob_Contact_def demo_note_def Let_def U)
  have nt: "ct_Note c = ''hi''" using c(2) pr trim by (auto simp: firstText_def)
  have ch: "chunks ''hi'' = [(104, ''h''), (105, ''i'')]" by (simp add: chunks_ascii_Cons)
  have "Fields ''hi'' = [''hi'']" by (simp add: Fields_def ch IsSpace_def Fields_chunks.simps chunk_bytes_def Let_def)
  then have fold_ne: "ToLower ?U (Join '' '' (Fields ''hi'')) \<noteq> []"
    by (simp add: ToLower_def runes_def ch encode_rune_def rune_lower_def)
  have v: "List.map_filter (view_of demo_lib) [demo_row] = [c]" by (simp add: view_of_def demo_row_def c(1))
  have vs: "merged_values ?U [c] ?f = [''hi'']"
    by (simp add: merged_values_def plain_field_def single_def nt trim foldKey_def Let_def fold_ne)
  show ?thesis
    using merged_row_hides_nothing [OF f, of "[demo_row]" "[]"] unfolding Let_def v U vs
    by (auto simp: plain_field_def)
qed

end
