(* ===== verification/FilesPath.thy ===== *)
theory FilesPath
  imports Go_Format AccountViews
begin

text \<open>
  \<open>internal/provider/files/path.go\<close>: how a path from a request is resolved against the collection it must
  stay in, and the way back. \<open>path.Clean\<close> of the standard library is modelled; the runes a name is checked
  for are bytes below 128, so \<open>checkChars\<close> looks at the runes of the string as the code does.
\<close>

subsection \<open>Package path\<close>

fun clean_loop :: "bool \<Rightarrow> string list \<Rightarrow> string list \<Rightarrow> string list" where
  "clean_loop rooted [] out = rev out"
| "clean_loop rooted (s # ss) out =
     (if s = [] \<or> s = ''.'' then clean_loop rooted ss out
      else if s = ''..''
      then (case out of
              t # ts \<Rightarrow> if t \<noteq> ''..'' then clean_loop rooted ss ts else clean_loop rooted ss (s # out)
            | [] \<Rightarrow> if rooted then clean_loop rooted ss [] else clean_loop rooted ss [s])
      else clean_loop rooted ss (s # out))"

definition path_Clean :: "string \<Rightarrow> string" where
  "path_Clean p =
     (let rooted = HasPrefix p ''/'';
          segments = clean_loop rooted (Split_byte CHR ''/'' p) []
      in if rooted then ''/'' @ Join ''/'' segments
         else if segments = [] then ''.'' else Join ''/'' segments)"

subsection \<open>Paths inside a collection\<close>

datatype path_error = ErrOutsideCollection | ErrBadName | ErrPathRequired

definition NormalizeDir :: "string \<Rightarrow> string" where
  "NormalizeDir p =
     (let p = TrimSpace p
      in if p = [] then []
         else
           (let p = (if \<not> HasPrefix p ''/'' then ''/'' @ p else p);
                p = (if \<not> HasSuffix p ''/'' then p @ ''/'' else p)
            in p))"

definition checkChars :: "string \<Rightarrow> path_error option" where
  "checkChars s =
     (if 92 \<in> set (runes s) then Some ErrBadName
      else if list_ex (\<lambda>r. r < 0x20 \<or> r = 0x7f) (runes s) then Some ErrBadName
      else None)"

fun segment_loop :: "string list \<Rightarrow> string list \<Rightarrow> path_error + string list" where
  "segment_loop [] out = Inr out"
| "segment_loop (s # ss) out =
     (if s = [] \<or> s = ''.'' then segment_loop ss out
      else if s = ''..'' then Inl ErrOutsideCollection
      else segment_loop ss (out @ [s]))"

definition CleanRelative :: "string \<Rightarrow> path_error + string" where
  "CleanRelative rel =
     (let rel = TrimSpace rel
      in if rel = [] then Inr []
         else
           (case checkChars rel of
              Some e \<Rightarrow> Inl e
            | None \<Rightarrow>
                (case segment_loop (Split_byte CHR ''/'' rel) [] of
                   Inl e \<Rightarrow> Inl e
                 | Inr out \<Rightarrow> Inr (Join ''/'' out))))"

definition Resolve :: "string \<Rightarrow> string \<Rightarrow> path_error + string" where
  "Resolve root rel =
     (let root = NormalizeDir root
      in if root = [] then Inl ErrPathRequired
         else
           (case CleanRelative rel of
              Inl e \<Rightarrow> Inl e
            | Inr clean \<Rightarrow>
                if clean = [] then Inr root
                else
                  (let joined = path_Clean (root @ clean)
                   in if joined \<noteq> root \<and> \<not> HasPrefix joined root then Inl ErrOutsideCollection
                      else Inr joined)))"

definition Relative :: "string \<Rightarrow> string \<Rightarrow> path_error + string" where
  "Relative root target =
     (let root = NormalizeDir root;
          trimmed = TrimSuffix target ''/''
      in if trimmed @ ''/'' = root then Inr []
         else if \<not> HasPrefix target root then Inl ErrOutsideCollection
         else CleanRelative (TrimPrefix trimmed root))"

definition CleanName :: "string \<Rightarrow> path_error + string" where
  "CleanName name =
     (let name = TrimSpace name
      in if name = [] \<or> name = ''.'' \<or> name = ''..'' then Inl ErrBadName
         else if CHR ''/'' \<in> set name \<or> CHR 0x5C \<in> set name then Inl ErrBadName
         else (case checkChars name of Some e \<Rightarrow> Inl e | None \<Rightarrow> Inr name))"

definition Parent :: "string \<Rightarrow> string \<times> bool" where
  "Parent rel =
     (case CleanRelative rel of
        Inl e \<Rightarrow> ([], False)
      | Inr clean \<Rightarrow>
          if clean = [] then ([], False)
          else (case LastIndex clean ''/'' of None \<Rightarrow> ([], True) | Some i \<Rightarrow> (take i clean, True)))"

definition Base :: "string \<Rightarrow> string" where
  "Base rel =
     (case CleanRelative rel of
        Inl e \<Rightarrow> []
      | Inr clean \<Rightarrow>
          if clean = [] then []
          else (case LastIndex clean ''/'' of Some i \<Rightarrow> drop (i + 1) clean | None \<Rightarrow> clean))"

definition files_Join :: "string \<Rightarrow> string \<Rightarrow> string" where
  "files_Join dir name =
     (let dir = trim_list (\<lambda>c. c = CHR ''/'') dir;
          name = trim_list (\<lambda>c. c = CHR ''/'') name
      in if dir = [] then name else if name = [] then dir else dir @ ''/'' @ name)"

subsection \<open>Segments\<close>

definition seg_ok :: "string \<Rightarrow> bool" where
  "seg_ok s \<longleftrightarrow> s \<noteq> [] \<and> s \<noteq> ''.'' \<and> s \<noteq> ''..'' \<and> CHR ''/'' \<notin> set s"

lemma Split_byte_ne [simp]: "Split_byte c s \<noteq> []"
  by (induction s) (auto split: list.splits)

lemma Split_byte_append: "Split_byte c (xs @ c # ys) = Split_byte c xs @ Split_byte c ys"
proof (induction xs)
  case (Cons x xs)
  obtain w ws where "Split_byte c xs = w # ws" by (cases "Split_byte c xs") auto
  then show ?case using Cons by simp
qed simp

lemma Split_byte_plain: "c \<notin> set s \<Longrightarrow> Split_byte c s = [s]"
  by (induction s) auto

lemma Split_byte_parts: "w \<in> set (Split_byte c s) \<Longrightarrow> c \<notin> set w \<and> set w \<subseteq> set s"
proof (induction s arbitrary: w)
  case (Cons x s)
  obtain v vs where v: "Split_byte c s = v # vs" by (cases "Split_byte c s") auto
  show ?case using Cons v by (cases "x = c") force+
qed simp

lemma Join_Cons: "Join sep (w # ws) = (if ws = [] then w else w @ sep @ Join sep ws)"
  by (cases ws) auto

lemma Join_append: "xs \<noteq> [] \<Longrightarrow> ys \<noteq> [] \<Longrightarrow> Join sep (xs @ ys) = Join sep xs @ sep @ Join sep ys"
  by (induction xs) (auto simp: Join_Cons)

lemma Split_Join: "ws \<noteq> [] \<Longrightarrow> \<forall>w \<in> set ws. c \<notin> set w \<Longrightarrow> Split_byte c (Join [c] ws) = ws"
proof (induction ws)
  case (Cons w ws)
  then show ?case by (cases "ws = []") (simp_all add: Join_Cons Split_byte_plain Split_byte_append)
qed simp

lemma Join_Split: "Join [c] (Split_byte c s) = s"
proof (induction s)
  case (Cons x s)
  obtain w ws where w: "Split_byte c s = w # ws" by (cases "Split_byte c s") auto
  then show ?case using Cons by (cases ws) (auto simp: Join_Cons)
qed simp

lemma segment_loop_ok:
  "segment_loop ss out = (if ''..'' \<in> set ss then Inl ErrOutsideCollection
     else Inr (out @ filter (\<lambda>s. s \<noteq> [] \<and> s \<noteq> ''.'') ss))"
  by (induction ss arbitrary: out) auto

lemma clean_loop_ok: "\<forall>s \<in> set ss. seg_ok s \<Longrightarrow> clean_loop rooted (rs @ ss) out = clean_loop rooted rs out @ ss"
proof (induction rs arbitrary: out)
  case Nil
  then show ?case by (induction ss arbitrary: out) (auto simp: seg_ok_def)
qed (auto split: list.splits)

lemma clean_loop_segs:
  assumes "\<forall>s \<in> set out. seg_ok s" and "\<forall>s \<in> set ss. CHR ''/'' \<notin> set s"
  shows "\<forall>s \<in> set (clean_loop True ss out). seg_ok s"
  using assms
proof (induction ss arbitrary: out)
  case (Cons s ss)
  have rest: "\<forall>s \<in> set ss. CHR ''/'' \<notin> set s" "CHR ''/'' \<notin> set s" using Cons.prems(2) by auto
  consider "s = [] \<or> s = ''.''" | "s = ''..''" | "seg_ok s" using rest(2) unfolding seg_ok_def by blast
  then show ?case
  proof cases
    case 2
    show ?thesis
    proof (cases out)
      case Nil
      then show ?thesis using 2 Cons.IH [OF _ rest(1), of "[]"] by simp
    next
      case (Cons t ts)
      then have "t \<noteq> ''..''" "\<forall>s \<in> set ts. seg_ok s" using Cons.prems(1) by (auto simp: seg_ok_def)
      then show ?thesis using 2 Cons Cons.IH [OF _ rest(1), of ts] by simp
    qed
  next
    case 3
    then have "clean_loop True (s # ss) out = clean_loop True ss (s # out)" unfolding seg_ok_def by simp
    then show ?thesis using Cons.IH [OF _ rest(1), of "s # out"] Cons.prems(1) 3 by simp
  qed (use Cons.IH [OF Cons.prems(1) rest(1)] in auto)
qed simp

text \<open>What \<open>CleanRelative\<close> accepts and what it returns.\<close>

definition rel_segments :: "string \<Rightarrow> string list" where
  "rel_segments rel = filter (\<lambda>s. s \<noteq> [] \<and> s \<noteq> ''.'') (Split_byte CHR ''/'' (TrimSpace rel))"

lemma CleanRelative_segments:
  "CleanRelative rel =
     (case checkChars (TrimSpace rel) of
        Some e \<Rightarrow> Inl e
      | None \<Rightarrow> if ''..'' \<in> set (rel_segments rel) then Inl ErrOutsideCollection else Inr (Join ''/'' (rel_segments rel)))"
proof (cases "TrimSpace rel = []")
  case True
  then show ?thesis by (simp add: CleanRelative_def rel_segments_def checkChars_def runes_def)
next
  case False
  then show ?thesis by (auto simp: CleanRelative_def rel_segments_def segment_loop_ok split: option.split)
qed

lemma rel_segments_ok:
  assumes "CleanRelative rel = Inr clean"
  shows "\<forall>s \<in> set (rel_segments rel). seg_ok s" "clean = Join ''/'' (rel_segments rel)"
    "clean = [] \<longleftrightarrow> rel_segments rel = []" "checkChars (TrimSpace rel) = None" "''..'' \<notin> set (rel_segments rel)"
proof -
  show c: "clean = Join ''/'' (rel_segments rel)" "checkChars (TrimSpace rel) = None" "''..'' \<notin> set (rel_segments rel)"
    using assms by (auto simp: CleanRelative_segments split: option.splits if_splits)
  show s: "\<forall>s \<in> set (rel_segments rel). seg_ok s"
    using c(3) Split_byte_parts by (auto simp: rel_segments_def seg_ok_def)
  show "clean = [] \<longleftrightarrow> rel_segments rel = []"
    using s unfolding c(1) by (cases "rel_segments rel") (auto simp: Join_Cons seg_ok_def)
qed

definition plain_byte :: "char \<Rightarrow> bool" where
  "plain_byte c \<longleftrightarrow> 32 \<le> byte c \<and> byte c \<noteq> 127 \<and> byte c \<noteq> 92"

lemma checkChars_plain: "checkChars s = None \<longleftrightarrow> list_all plain_byte s"
proof -
  have "checkChars s = None \<longleftrightarrow> (\<forall>r \<in> set (runes s). 32 \<le> r \<and> r \<noteq> 127 \<and> r \<noteq> 92)"
    by (simp add: checkChars_def list_ex_iff) (metis not_le)
  also have "\<dots> \<longleftrightarrow> (\<forall>c \<in> set s. plain_byte c)"
  proof (intro iffI ballI)
    fix c assume "\<forall>r \<in> set (runes s). 32 \<le> r \<and> r \<noteq> 127 \<and> r \<noteq> 92" "c \<in> set s"
    then show "plain_byte c" using runes_low [of "byte c" s] by (cases "byte c < 128") (auto simp: plain_byte_def)
  next
    fix r assume "\<forall>c \<in> set s. plain_byte c" "r \<in> set (runes s)"
    then show "32 \<le> r \<and> r \<noteq> 127 \<and> r \<noteq> 92" using runes_low [of r s] by (cases "r < 128") (auto simp: plain_byte_def)
  qed
  finally show ?thesis by (simp add: list_all_iff)
qed

lemma set_Join: "set (Join sep ws) \<subseteq> set sep \<union> (\<Union>w \<in> set ws. set w)"
  by (induction ws) (auto simp: Join_Cons)

lemma NormalizeDir_normal: "NormalizeDir p = normalizePath p"
  by (simp add: NormalizeDir_def normalizePath_def)

text \<open>A clean root: its segments are neither empty nor dots.\<close>

definition clean_root :: "string \<Rightarrow> bool" where
  "clean_root r \<longleftrightarrow> (\<exists>ss. list_all seg_ok ss \<and> r = ''/'' @ concat (map (\<lambda>s. s @ ''/'') ss))"

lemma Join_slashes: "concat (map (\<lambda>s. s @ ''/'') ss) @ Join ''/'' ws = (if ws = [] then concat (map (\<lambda>s. s @ ''/'') ss) else Join ''/'' (ss @ ws))"
  by (induction ss) (auto simp: Join_Cons)

lemma joined_path:
  assumes r: "r \<noteq> []" "hd r = CHR ''/''" "last r = CHR ''/''" and ss: "ss \<noteq> []" "\<forall>s \<in> set ss. seg_ok s"
  shows "HasPrefix (path_Clean (r @ Join ''/'' ss)) r \<longleftrightarrow> clean_root r"
    and "clean_root r \<Longrightarrow> path_Clean (r @ Join ''/'' ss) = r @ Join ''/'' ss"
    and "path_Clean (r @ Join ''/'' ss) \<noteq> r"
proof -
  obtain q where q: "r = q @ ''/''" using r by (metis append_butlast_last_id)
  have slash: "\<forall>s \<in> set ss. CHR ''/'' \<notin> set s" using ss(2) by (simp add: seg_ok_def)
  let ?cs = "clean_loop True (Split_byte CHR ''/'' q) []"
  have "Split_byte CHR ''/'' (r @ Join ''/'' ss) = Split_byte CHR ''/'' q @ ss"
    using Split_byte_append [of "CHR ''/''" q "Join ''/'' ss"] Split_Join [OF ss(1) slash] by (simp add: q)
  moreover have "HasPrefix (r @ Join ''/'' ss) ''/''" using r by (cases r) (simp_all add: HasPrefix_def)
  ultimately have joined: "path_Clean (r @ Join ''/'' ss) = ''/'' @ Join ''/'' (?cs @ ss)"
    by (simp add: path_Clean_def clean_loop_ok [OF ss(2)])
  have "\<forall>s \<in> set ?cs. seg_ok s"
    using clean_loop_segs [of "[]" "Split_byte CHR ''/'' q"] Split_byte_parts by (metis empty_iff empty_set)
  then have cs: "\<forall>s \<in> set (?cs @ ss). seg_ok s" using ss(2) by auto
  have split_joined: "Split_byte CHR ''/'' (path_Clean (r @ Join ''/'' ss)) = [] # ?cs @ ss"
    unfolding joined using Split_byte_append [of "CHR ''/''" "[]" "Join ''/'' (?cs @ ss)"] Split_Join [of "?cs @ ss" "CHR ''/''"] ss(1) cs
    by (simp add: seg_ok_def)
  show "path_Clean (r @ Join ''/'' ss) \<noteq> r"
  proof
    assume "path_Clean (r @ Join ''/'' ss) = r"
    then have "[] # ?cs @ ss = Split_byte CHR ''/'' q @ [[]]"
      using split_joined Split_byte_append [of "CHR ''/''" q "[]"] by (simp add: q)
    then have "last ss = []" using ss(1) by (metis append_is_Nil_conv last.simps last_appendR last_snoc)
    then show False using ss by (metis last_in_set seg_ok_def)
  qed
  have root: "clean_root r \<Longrightarrow> path_Clean (r @ Join ''/'' ss) = r @ Join ''/'' ss"
  proof -
    assume "clean_root r"
    then obtain rs where rs: "list_all seg_ok rs" "r = ''/'' @ concat (map (\<lambda>s. s @ ''/'') rs)" by (auto simp: clean_root_def)
    have e: "r @ Join ''/'' ss = ''/'' @ Join ''/'' (rs @ ss)" using Join_slashes [of rs ss] ss(1) by (simp add: rs(2))
    have ok: "\<forall>s \<in> set (rs @ ss). seg_ok s" using rs(1) ss(2) by (auto simp: list_all_iff)
    have "Split_byte CHR ''/'' (''/'' @ Join ''/'' (rs @ ss)) = [] # rs @ ss"
      using Split_byte_append [of "CHR ''/''" "[]" "Join ''/'' (rs @ ss)"] Split_Join [of "rs @ ss" "CHR ''/''"] ss(1) ok by (simp add: seg_ok_def)
    moreover have "clean_loop True ([[]] @ rs @ ss) [] = rs @ ss" unfolding clean_loop_ok [OF ok] by simp
    ultimately show ?thesis unfolding e by (simp add: path_Clean_def HasPrefix_def)
  qed
  then show "clean_root r \<Longrightarrow> path_Clean (r @ Join ''/'' ss) = r @ Join ''/'' ss" .
  show "HasPrefix (path_Clean (r @ Join ''/'' ss)) r \<longleftrightarrow> clean_root r"
  proof
    assume "HasPrefix (path_Clean (r @ Join ''/'' ss)) r"
    then obtain z where z: "path_Clean (r @ Join ''/'' ss) = q @ ''/'' @ z" by (auto simp: HasPrefix_def prefix_def q)
    have parts: "Split_byte CHR ''/'' q @ Split_byte CHR ''/'' z = [] # ?cs @ ss"
      using split_joined Split_byte_append [of "CHR ''/''" q z] by (simp add: z)
    then obtain rs where rs: "Split_byte CHR ''/'' q = [] # rs" by (cases "Split_byte CHR ''/'' q") auto
    have "\<forall>s \<in> set rs. seg_ok s" using parts cs unfolding rs by (metis Un_iff append_Cons list.inject set_append)
    moreover have "r = ''/'' @ concat (map (\<lambda>s. s @ ''/'') rs)"
    proof -
      have "q = Join ''/'' ([] # rs)" using Join_Split [of "CHR ''/''" q] by (simp add: rs)
      moreover have "Join ''/'' rs @ ''/'' = concat (map (\<lambda>s. s @ ''/'') rs)" if "rs \<noteq> []" using that by (induction rs) (auto simp: Join_Cons)
      ultimately show ?thesis unfolding q by (auto simp: Join_Cons)
    qed
    ultimately show "clean_root r" unfolding clean_root_def list_all_iff by blast
  next
    assume "clean_root r"
    then show "HasPrefix (path_Clean (r @ Join ''/'' ss)) r" using root by (simp add: HasPrefix_def)
  qed
qed

lemma Join_last: "ss \<noteq> [] \<Longrightarrow> list_all seg_ok ss \<Longrightarrow> Join ''/'' ss \<noteq> [] \<and> last (Join ''/'' ss) \<noteq> CHR ''/''"
proof (induction ss)
  case (Cons s ss)
  then have s: "s \<noteq> []" "CHR ''/'' \<notin> set s" by (simp_all add: seg_ok_def)
  then have "last s \<noteq> CHR ''/''" by (metis last_in_set)
  then show ?case using Cons s by (cases "ss = []") (simp_all add: Join_Cons)
qed simp

lemma rel_segments_Join:
  "list_all seg_ok ss \<Longrightarrow> TrimSpace (Join ''/'' ss) = Join ''/'' ss \<Longrightarrow> ss \<noteq> [] \<Longrightarrow> rel_segments (Join ''/'' ss) = ss"
  using Split_Join [of ss "CHR ''/''"] by (simp add: rel_segments_def list_all_iff seg_ok_def filter_id_conv)

lemma NormalizeDir_slashes: "NormalizeDir root \<noteq> [] \<Longrightarrow> hd (NormalizeDir root) = CHR ''/'' \<and> last (NormalizeDir root) = CHR ''/''"
  using normalizePath_shape [of root] by (simp add: NormalizeDir_normal)

lemma Resolve_cases:
  assumes "NormalizeDir root = r" "r \<noteq> []"
  shows "Resolve root rel =
      (if \<not> list_all plain_byte (TrimSpace rel) then Inl ErrBadName
       else if ''..'' \<in> set (rel_segments rel) then Inl ErrOutsideCollection
       else if rel_segments rel = [] \<or> clean_root r then Inr (r @ Join ''/'' (rel_segments rel)) else Inl ErrOutsideCollection)"
proof (cases "CleanRelative rel")
  case (Inl e)
  then show ?thesis using assms checkChars_plain [of "TrimSpace rel"]
    by (auto simp: Resolve_def CleanRelative_segments checkChars_def split: option.splits if_splits)
next
  case (Inr clean)
  note ok = rel_segments_ok [OF Inr]
  have p: "list_all plain_byte (TrimSpace rel)" using ok(4) by (simp add: checkChars_plain)
  show ?thesis
  proof (cases "rel_segments rel = []")
    case True
    then show ?thesis using assms ok p by (simp add: Resolve_def Inr)
  next
    case False
    have r: "hd r = CHR ''/''" "last r = CHR ''/''" using NormalizeDir_slashes [of root] assms by auto
    note j = joined_path [OF assms(2) r False ok(1)]
    show ?thesis using assms ok(3,5) p False j unfolding ok(2) by (simp add: Resolve_def Inr ok(2) Let_def)
  qed
qed

lemma rel_segments_plain:
  assumes "list_all plain_byte (TrimSpace rel)"
  shows "list_all plain_byte (Join ''/'' (rel_segments rel))"
proof -
  have "plain_byte CHR ''/''" by (simp add: plain_byte_def)
  moreover have "set w \<subseteq> set (TrimSpace rel)" if "w \<in> set (rel_segments rel)" for w
    using that Split_byte_parts by (auto simp: rel_segments_def)
  ultimately show ?thesis using assms set_Join [of "''/''" "rel_segments rel"] unfolding list_all_iff by fastforce
qed

lemma Relative_below:
  assumes "NormalizeDir root = r" "r \<noteq> []" "list_all seg_ok ss" "TrimSpace (Join ''/'' ss) = Join ''/'' ss" "list_all plain_byte (Join ''/'' ss)"
  shows "Relative root (r @ Join ''/'' ss) = Inr (Join ''/'' ss)"
proof (cases "ss = []")
  case True
  obtain q where "r = q @ ''/''" using NormalizeDir_slashes [of root] assms(1,2) by (metis append_butlast_last_id)
  then show ?thesis using True assms(1) by (simp add: Relative_def TrimSuffix_def HasSuffix_def)
next
  case False
  have l: "Join ''/'' ss \<noteq> []" "last (Join ''/'' ss) \<noteq> CHR ''/''" using Join_last [OF False assms(3)] by auto
  have "\<not> HasSuffix (r @ Join ''/'' ss) ''/''" using l by (simp add: HasSuffix_slash)
  then have t: "TrimSuffix (r @ Join ''/'' ss) ''/'' = r @ Join ''/'' ss" by (simp add: TrimSuffix_def)
  have "CleanRelative (Join ''/'' ss) = Inr (Join ''/'' ss)"
    using assms(3,5) rel_segments_Join [OF assms(3,4) False] checkChars_plain [of "Join ''/'' ss"]
    by (auto simp: CleanRelative_segments assms(4) list_all_iff seg_ok_def)
  then show ?thesis using l by (simp add: Relative_def assms(1) Let_def t HasPrefix_def TrimPrefix_def)
qed


lemma demo_root: "NormalizeDir ''/dav/files/'' = ''/dav/files/''"
  by (simp add: NormalizeDir_def TrimSpace_slashes HasPrefix_def HasSuffix_def suffix_def)


text \<open>
  \<open>Relative\<close> trims the rest of the path before it splits it, so a name that begins with a space is read as
  another name, and resolving that name leads to another file.
\<close>

lemma padded_name_misread:
  "Relative ''/dav/files/'' ''/dav/files/ x'' = Inr ''x'' \<and> Resolve ''/dav/files/'' ''x'' = Inr ''/dav/files/x''"
proof -
  have ch: "chunks '' x'' = [(32, '' ''), (120, ''x'')]" "chunks ''x'' = [(120, ''x'')]" by (simp_all add: chunks_ascii_Cons)
  have t: "TrimSpace '' x'' = ''x''" "TrimSpace ''x'' = ''x''" by (simp_all add: TrimSpace_def ch trim_list_def dropWhile_end_def IsSpace_def)
  have s: "rel_segments '' x'' = [''x'']" "rel_segments ''x'' = [''x'']" by (simp_all add: rel_segments_def t)
  have c: "clean_root ''/dav/files/''"
    unfolding clean_root_def by (rule exI [of _ "[''dav'', ''files'']"]) (simp add: seg_ok_def)
  have "CleanRelative '' x'' = Inr ''x''"
    using checkChars_plain [of "''x''"] by (simp add: CleanRelative_segments t s plain_byte_def)
  then show ?thesis
    using Resolve_cases [OF demo_root, of "''x''"] c
    by (simp add: Relative_def demo_root Let_def TrimSuffix_def HasSuffix_def HasPrefix_def TrimPrefix_def suffix_def t s plain_byte_def)
qed

text \<open>The directory of a path and its last segment put together again are the path.\<close>

lemma LastIndex_slash:
  "LastIndex_from ''/'' s i best = (if CHR ''/'' \<in> set s then Some (i + length s - Suc (length (takeWhile (\<lambda>c. c \<noteq> CHR ''/'') (rev s)))) else best)"
proof (induction s arbitrary: i best)
  case (Cons c s)
  then show ?case
    by (cases "CHR ''/'' \<in> set s") (auto simp: takeWhile_append)
qed simp

lemma parent_and_base:
  assumes "CleanRelative rel = Inr clean" and "clean \<noteq> []"
  shows "\<exists>d. Parent rel = (d, True) \<and> clean = (if CHR ''/'' \<in> set clean then d @ ''/'' else []) @ Base rel \<and>
    CHR ''/'' \<notin> set (Base rel)"
proof (cases "CHR ''/'' \<in> set clean")
  case False
  then have "LastIndex clean ''/'' = None" by (simp add: LastIndex_def LastIndex_slash)
  then show ?thesis using False assms by (simp add: Parent_def Base_def)
next
  case True
  let ?w = "takeWhile (\<lambda>c. c \<noteq> CHR ''/'') (rev clean)"
  have ne: "dropWhile (\<lambda>c. c \<noteq> CHR ''/'') (rev clean) \<noteq> []" using True by simp
  then obtain b r where d: "dropWhile (\<lambda>c. c \<noteq> CHR ''/'') (rev clean) = b # r" by (cases "dropWhile (\<lambda>c. c \<noteq> CHR ''/'') (rev clean)") simp_all
  from hd_dropWhile [OF ne] have b: "b = CHR ''/''" by (simp add: d)
  have "rev clean = ?w @ CHR ''/'' # r" using takeWhile_dropWhile_id [of "\<lambda>c. c \<noteq> CHR ''/''" "rev clean"] unfolding d b by (rule sym)
  from arg_cong [OF this, of rev] have c: "clean = rev r @ CHR ''/'' # rev ?w" by simp
  have "length clean = length r + Suc (length ?w)" by (subst c) simp
  then have i: "LastIndex clean ''/'' = Some (length r)" using True by (simp add: LastIndex_def LastIndex_slash)
  have bd: "Base rel = rev ?w" using assms i by (simp add: Base_def) (subst c, simp)
  moreover have "Parent rel = (rev r, True)" using assms i by (simp add: Parent_def) (subst c, simp)
  moreover have "CHR ''/'' \<notin> set ?w" by (metis (mono_tags, lifting) set_takeWhileD)
  ultimately show ?thesis using True c by simp
qed

end
