(* ===== verification/ModelImport.thy ===== *)
theory ModelImport
  imports ModelCalendar "HOL-Library.Multiset"
begin

text \<open>
  Imported files: the splitting of streams of cards and calendars (\<open>internal/model/vcards.go\<close>,
  \<open>icals.go\<close>) and the reading of an upload (\<open>import.go\<close>). A zip archive is what the reader of the archive
  answers: whether it opens, and for each entry its name, whether it is a directory, and its bytes or the
  failure to open or read them; an entry is read up to eight megabytes. Copies of components are the
  components themselves.
\<close>

subsection \<open>Streams\<close>

datatype import_error = ErrModel model_error | ErrZipOpen | ErrZipRead | ErrNothingFound | ErrTruncated int

record ParsedObject =
  pd_Object :: "Object option"
  pd_Source :: string
  pd_Error :: "import_error option"

text \<open>\<open>splitKeepNL\<close>: the lines with their newlines.\<close>

fun keep_loop :: "string \<Rightarrow> string \<Rightarrow> string list" where
  "keep_loop [] cur = (if cur = [] then [] else [cur])"
| "keep_loop (c # s) cur =
     (if c = CHR 0x0A then (cur @ [c]) # keep_loop s [] else keep_loop s (cur @ [c]))"

definition splitKeepNL :: "string \<Rightarrow> string list" where
  "splitKeepNL body = keep_loop body []"

text \<open>The loop of \<open>SplitVCards\<close> and \<open>SplitVCalendars\<close>, which differ in the name of the block.\<close>

fun block_loop :: "unicode \<Rightarrow> string \<Rightarrow> string list \<Rightarrow> bool \<Rightarrow> string list \<Rightarrow> string list \<Rightarrow> string list" where
  "block_loop U name [] inside cur out =
     (if inside \<and> 0 < length cur then out @ [concat cur] else out)"
| "block_loop U name (line # lines) inside cur out =
     (let upper = ToUpper U (TrimSpace line)
      in if HasPrefix upper (''BEGIN:'' @ name)
         then block_loop U name lines True [line] (if inside \<and> 0 < length cur then out @ [concat cur] else out)
         else if \<not> inside then block_loop U name lines inside cur out
         else if HasPrefix upper (''END:'' @ name) then block_loop U name lines False [] (out @ [concat (cur @ [line])])
         else block_loop U name lines inside (cur @ [line]) out)"

definition SplitVCards :: "unicode \<Rightarrow> string \<Rightarrow> string list" where
  "SplitVCards U body = block_loop U ''VCARD'' (splitKeepNL body) False [] []"

definition SplitVCalendars :: "unicode \<Rightarrow> string \<Rightarrow> string list" where
  "SplitVCalendars U body = block_loop U ''VCALENDAR'' (splitKeepNL body) False [] []"

definition parsed_card :: "dav_lib \<Rightarrow> nat \<Rightarrow> string \<Rightarrow> ParsedObject" where
  "parsed_card L i chunk =
     (case ParseVCard L (''card-'' @ dec_nat (i + 1)) [] chunk of
        Inl e \<Rightarrow> \<lparr>pd_Object = None, pd_Source = [], pd_Error = Some (ErrModel e)\<rparr>
      | Inr ob \<Rightarrow> \<lparr>pd_Object = Some ob, pd_Source = [], pd_Error = None\<rparr>)"

definition ParseVCards :: "dav_lib \<Rightarrow> string \<Rightarrow> ParsedObject list" where
  "ParseVCards L body =
     (let chunks = SplitVCards (lb_U L) body
      in map (\<lambda>(i, chunk). parsed_card L i chunk) (zip [0 ..< length chunks] chunks))"

subsection \<open>Objects of a calendar\<close>

text \<open>The identifiers of time zones a list of components names, children included, each once.\<close>

definition add_id :: "string \<Rightarrow> string list \<Rightarrow> string list" where
  "add_id i out = (if i = [] \<or> i \<in> set out then out else out @ [i])"

fun used_in :: "dav_lib \<Rightarrow> Component \<Rightarrow> string list \<Rightarrow> string list" where
  "used_in L (Component name props children) out =
     fold (\<lambda>child out. case child of None \<Rightarrow> out | Some c \<Rightarrow> fold add_id (used_in L c []) out) children
       (fold (\<lambda>(key, ps) out. fold (\<lambda>p. add_id (lb_params_Get L (pr_Params p) ''TZID'')) ps out) props out)"

definition timezonesUsedBy :: "dav_lib \<Rightarrow> Component list \<Rightarrow> string list" where
  "timezonesUsedBy L comps = fold (used_in L) comps []"

record grouping =
  gp_order :: "string list"
  gp_groups :: "(string, Component list) gomap"
  gp_zones :: "(string, Component) gomap"

definition is_zone :: "unicode \<Rightarrow> Component \<Rightarrow> bool" where
  "is_zone U c \<longleftrightarrow> ToUpper U (cm_Name c) = ''VTIMEZONE''"

definition is_entry :: "unicode \<Rightarrow> Component \<Rightarrow> bool" where
  "is_entry U c \<longleftrightarrow> ToUpper U (cm_Name c) \<in> {''VEVENT'', ''VTODO'', ''VJOURNAL''}"

definition cm_UID :: "dav_lib \<Rightarrow> Component \<Rightarrow> string" where
  "cm_UID L c = icalPropRaw L (cm_Props c) ''UID''"

definition group_step :: "dav_lib \<Rightarrow> Component option \<Rightarrow> grouping \<Rightarrow> grouping" where
  "group_step L child g =
     (case child of
        None \<Rightarrow> g
      | Some c \<Rightarrow>
          if is_zone (lb_U L) c then g\<lparr>gp_zones := gm_put (icalPropRaw L (cm_Props c) ''TZID'') c (gp_zones g)\<rparr>
          else if is_entry (lb_U L) c
          then (let key = cm_UID L c;
                    key = (if key = [] then CHR 0x00 # ''no-uid-'' @ dec_nat (length (gp_order g)) else key);
                    g = (if gm_get (gp_groups g) key = None then g\<lparr>gp_order := gp_order g @ [key]\<rparr> else g);
                    old = (case gm_get (gp_groups g) key of None \<Rightarrow> [] | Some cs \<Rightarrow> cs)
                in g\<lparr>gp_groups := gm_put key (old @ [c]) (gp_groups g)\<rparr>)
          else g)"

definition group_children :: "dav_lib \<Rightarrow> Component option list \<Rightarrow> grouping" where
  "group_children L children = fold (group_step L) children \<lparr>gp_order = [], gp_groups = [], gp_zones = []\<rparr>"

definition part_of :: "dav_lib \<Rightarrow> Component \<Rightarrow> grouping \<Rightarrow> string \<Rightarrow> Object" where
  "part_of L cal g key =
     (let comps = (case gm_get (gp_groups g) key of None \<Rightarrow> [] | Some cs \<Rightarrow> cs);
          zones = List.map_filter (\<lambda>tzid. gm_get (gp_zones g) tzid) (timezonesUsedBy L comps)
      in \<lparr>ob_Path = [], ob_ETag = [], ob_kind = KindICal, ob_card = None,
          ob_cal = Some (Component (cm_Name cal) (cm_Props cal) (map Some zones @ map Some comps))\<rparr>)"

definition SplitByComponent :: "dav_lib \<Rightarrow> Object option \<Rightarrow> Object list" where
  "SplitByComponent L o' =
     (case o' of
        None \<Rightarrow> []
      | Some ob \<Rightarrow>
          (case ob_cal ob of
             None \<Rightarrow> []
           | Some cal \<Rightarrow>
               if ob_kind ob \<noteq> KindICal then []
               else
                 (let g = group_children L (cm_Children cal)
                  in if length (gp_order g) \<le> 1 then [ob] else map (part_of L cal g) (gp_order g))))"

definition parsed_cal :: "dav_lib \<Rightarrow> nat \<Rightarrow> string \<Rightarrow> ParsedObject list" where
  "parsed_cal L i chunk =
     (case ParseICal L (''cal-'' @ dec_nat (i + 1)) [] chunk of
        Inl e \<Rightarrow> [\<lparr>pd_Object = None, pd_Source = [], pd_Error = Some (ErrModel e)\<rparr>]
      | Inr ob \<Rightarrow> map (\<lambda>part. \<lparr>pd_Object = Some part, pd_Source = [], pd_Error = None\<rparr>) (SplitByComponent L (Some ob)))"

definition ParseICals :: "dav_lib \<Rightarrow> string \<Rightarrow> ParsedObject list" where
  "ParseICals L body =
     (let chunks = SplitVCalendars (lb_U L) body
      in concat (map (\<lambda>(i, chunk). parsed_cal L i chunk) (zip [0 ..< length chunks] chunks)))"

subsection \<open>Uploads\<close>

datatype zip_body = ZipOpenFails | ZipReadFails | ZipBytes string

record zip_entry =
  ze_Name :: string
  ze_IsDir :: bool
  ze_Body :: zip_body

definition with_source :: "string \<Rightarrow> ParsedObject \<Rightarrow> ParsedObject" where
  "with_source source p = (if pd_Source p = [] then p\<lparr>pd_Source := source\<rparr> else p)"

definition failed_entry :: "zip_entry \<Rightarrow> import_error \<Rightarrow> ParsedObject" where
  "failed_entry f e = \<lparr>pd_Object = None, pd_Source = ze_Name f, pd_Error = Some e\<rparr>"

text \<open>The loop over the records of one file: it stops when the list has grown to the limit.\<close>

fun take_records :: "int \<Rightarrow> 'a list \<Rightarrow> 'a list \<Rightarrow> 'a list \<times> bool" where
  "take_records m [] out = (out, False)"
| "take_records m (p # ps) out =
     (let out = out @ [p]
      in if 0 < m \<and> m \<le> int (length out) then (out, True) else take_records m ps out)"

text \<open>The loop over the entries of an archive, given which names count and how a file is parsed.\<close>

fun zip_loop :: "(string \<Rightarrow> bool) \<Rightarrow> (string \<Rightarrow> ParsedObject list) \<Rightarrow> int \<Rightarrow> zip_entry list \<Rightarrow> ParsedObject list \<Rightarrow>
    ParsedObject list \<times> bool" where
  "zip_loop wanted parse m [] out = (out, False)"
| "zip_loop wanted parse m (f # fs) out =
     (if ze_IsDir f \<or> \<not> wanted (ze_Name f) then zip_loop wanted parse m fs out
      else
        (case ze_Body f of
           ZipOpenFails \<Rightarrow> zip_loop wanted parse m fs (out @ [failed_entry f ErrZipOpen])
         | ZipReadFails \<Rightarrow> zip_loop wanted parse m fs (out @ [failed_entry f ErrZipRead])
         | ZipBytes bytes \<Rightarrow>
             (let ps = parse (take 8388608 bytes)
              in if length ps = 0 then zip_loop wanted parse m fs (out @ [failed_entry f ErrNothingFound])
                 else
                   (case take_records m (map (with_source (ze_Name f)) ps) out of
                      (out, truncated) \<Rightarrow> if truncated then (out, True) else zip_loop wanted parse m fs out))))"

definition card_file :: "unicode \<Rightarrow> string \<Rightarrow> bool" where
  "card_file U name =
     (let base = path_Base name in \<not> HasPrefix base ''.'' \<and> EqualFold U (path_Ext base) ''.vcf'')"

definition cal_file :: "unicode \<Rightarrow> string \<Rightarrow> bool" where
  "cal_file U name =
     (let base = path_Base name; ext = ToLower U (path_Ext base)
      in \<not> HasPrefix base ''.'' \<and> \<not> (ext \<noteq> ''.ics'' \<and> ext \<noteq> ''.ical''))"

definition read_zip :: "(string \<Rightarrow> bool) \<Rightarrow> (string \<Rightarrow> ParsedObject list) \<Rightarrow> zip_entry list option \<Rightarrow> int \<Rightarrow>
    ParsedObject list \<times> import_error option" where
  "read_zip wanted parse archive m =
     (case archive of
        None \<Rightarrow> ([], Some ErrZipOpen)
      | Some fs \<Rightarrow>
          (case zip_loop wanted parse m fs [] of
             (out, truncated) \<Rightarrow> (out, if truncated then Some (ErrTruncated m) else None)))"

definition readZipVCards :: "dav_lib \<Rightarrow> zip_entry list option \<Rightarrow> int \<Rightarrow> ParsedObject list \<times> import_error option" where
  "readZipVCards L archive m = read_zip (card_file (lb_U L)) (ParseVCards L) archive m"

definition readZipICals :: "dav_lib \<Rightarrow> zip_entry list option \<Rightarrow> int \<Rightarrow> ParsedObject list \<times> import_error option" where
  "readZipICals L archive m = read_zip (cal_file (lb_U L)) (ParseICals L) archive m"

definition read_plain :: "string \<Rightarrow> string \<Rightarrow> ParsedObject list \<Rightarrow> int \<Rightarrow> ParsedObject list \<times> import_error option" where
  "read_plain filename fallback ps m =
     (let ps = map (with_source (if filename = [] then fallback else filename)) ps
      in if 0 < m \<and> m < int (length ps) then (take (nat m) ps, Some (ErrTruncated m)) else (ps, None))"

definition is_zip :: "unicode \<Rightarrow> string \<Rightarrow> bool" where
  "is_zip U filename = HasSuffix (ToLower U (TrimSpace filename)) ''.zip''"

definition ReadImportPayload ::
    "dav_lib \<Rightarrow> (string \<Rightarrow> zip_entry list option) \<Rightarrow> string \<Rightarrow> string \<Rightarrow> int \<Rightarrow> ParsedObject list \<times> import_error option" where
  "ReadImportPayload L unzip filename body m =
     (if is_zip (lb_U L) filename then readZipVCards L (unzip body) m
      else read_plain filename ''upload.vcf'' (ParseVCards L body) m)"

definition ReadICSImportPayload ::
    "dav_lib \<Rightarrow> (string \<Rightarrow> zip_entry list option) \<Rightarrow> string \<Rightarrow> string \<Rightarrow> int \<Rightarrow> ParsedObject list \<times> import_error option" where
  "ReadICSImportPayload L unzip filename body m =
     (if is_zip (lb_U L) filename then readZipICals L (unzip body) m
      else read_plain filename ''upload.ics'' (ParseICals L body) m)"

subsection \<open>Lemmas on streams\<close>

lemma keep_loop_append:
  "xs \<noteq> [] \<Longrightarrow> last xs = CHR 0x0A \<Longrightarrow> keep_loop (xs @ ys) cur = keep_loop xs cur @ keep_loop ys []"
proof (induction xs arbitrary: cur)
  case (Cons x xs)
  then show ?case by (cases "xs = []") auto
qed simp

lemma concat_keep_loop: "concat (keep_loop s cur) = cur @ s"
  by (induction s arbitrary: cur) auto

definition begins :: "unicode \<Rightarrow> string \<Rightarrow> string \<Rightarrow> bool" where
  "begins U name line \<longleftrightarrow> HasPrefix (ToUpper U (TrimSpace line)) (''BEGIN:'' @ name)"

definition ends :: "unicode \<Rightarrow> string \<Rightarrow> string \<Rightarrow> bool" where
  "ends U name line \<longleftrightarrow> HasPrefix (ToUpper U (TrimSpace line)) (''END:'' @ name)"

text \<open>A block: a line that begins it, lines that neither begin nor end one, a line that ends it.\<close>

definition a_block :: "unicode \<Rightarrow> string \<Rightarrow> string \<Rightarrow> bool" where
  "a_block U name b \<longleftrightarrow> b \<noteq> [] \<and> last b = CHR 0x0A \<and>
     (\<exists>l ls m. splitKeepNL b = l # ls @ [m] \<and> begins U name l \<and>
        list_all (\<lambda>x. \<not> begins U name x \<and> \<not> ends U name x) ls \<and> \<not> begins U name m \<and> ends U name m)"

definition between :: "unicode \<Rightarrow> string \<Rightarrow> string \<Rightarrow> bool" where
  "between U name j \<longleftrightarrow> (j = [] \<or> last j = CHR 0x0A) \<and> list_all (\<lambda>x. \<not> begins U name x) (splitKeepNL j)"

lemma block_loop_between:
  "list_all (\<lambda>x. \<not> begins U name x) ls \<Longrightarrow> block_loop U name (ls @ rest) False [] out = block_loop U name rest False [] out"
  by (induction ls) (auto simp: begins_def)

lemma block_loop_inner:
  "list_all (\<lambda>x. \<not> begins U name x \<and> \<not> ends U name x) ls \<Longrightarrow>
     block_loop U name (ls @ rest) True cur out = block_loop U name rest True (cur @ ls) out"
  by (induction ls arbitrary: cur) (auto simp: begins_def ends_def)

lemma block_loop_block:
  assumes "a_block U name b"
  shows "block_loop U name (splitKeepNL b @ rest) False [] out = block_loop U name rest False [] (out @ [b])"
proof -
  obtain l ls m where b: "splitKeepNL b = l # ls @ [m]" "begins U name l"
    "list_all (\<lambda>x. \<not> begins U name x \<and> \<not> ends U name x) ls" "\<not> begins U name m" "ends U name m"
    using assms by (auto simp: a_block_def)
  have c: "concat (l # ls @ [m]) = b" using concat_keep_loop [of b "[]"] b(1) by (simp add: splitKeepNL_def)
  have "block_loop U name (splitKeepNL b @ rest) False [] out = block_loop U name (ls @ m # rest) True [l] out"
    using b(2) by (simp add: b(1) begins_def)
  also have "\<dots> = block_loop U name (m # rest) True (l # ls) out" using block_loop_inner [OF b(3)] by simp
  also have "\<dots> = block_loop U name rest False [] (out @ [b])" using b(4,5) c by (simp add: begins_def ends_def)
  finally show ?thesis .
qed

lemma splitKeepNL_append:
  "xs = [] \<or> last xs = CHR 0x0A \<Longrightarrow> splitKeepNL (xs @ ys) = splitKeepNL xs @ splitKeepNL ys"
  using keep_loop_append [of xs ys "[]"] by (cases "xs = []") (auto simp: splitKeepNL_def)

lemma block_loop_stream:
  assumes "list_all (\<lambda>(j, b). between U name j \<and> a_block U name b) bs" and "between U name junk"
  shows "block_loop U name (splitKeepNL (concat (map (\<lambda>(j, b). j @ b) bs) @ junk)) False [] out = out @ map snd bs"
  using assms(1)
proof (induction bs arbitrary: out)
  case Nil
  then show ?case using block_loop_between [of U name "splitKeepNL junk" "[]" out] assms(2) by (simp add: between_def)
next
  case (Cons x bs)
  obtain j b where x: "x = (j, b)" by (rule prod.exhaust)
  have jb: "between U name j" "a_block U name b" and rest: "list_all (\<lambda>(j, b). between U name j \<and> a_block U name b) bs"
    using Cons.prems by (simp_all add: x)
  have s: "splitKeepNL (concat (map (\<lambda>(j, b). j @ b) (x # bs)) @ junk) =
      splitKeepNL j @ splitKeepNL b @ splitKeepNL (concat (map (\<lambda>(j, b). j @ b) bs) @ junk)"
    using jb by (simp add: x splitKeepNL_append between_def a_block_def)
  show ?case unfolding s
    using jb(1) Cons.IH [OF rest] by (simp add: block_loop_between between_def block_loop_block [OF jb(2)] x)
qed

subsection \<open>Lemmas on groups\<close>

definition cal_entries :: "dav_lib \<Rightarrow> Object \<Rightarrow> Component list" where
  "cal_entries L ob = (case ob_cal ob of None \<Rightarrow> [] | Some cal \<Rightarrow>
     filter (is_entry (lb_U L)) (List.map_filter (\<lambda>c. c) (cm_Children cal)))"

definition no_uid_key :: "nat \<Rightarrow> string" where
  "no_uid_key n = CHR 0x00 # ''no-uid-'' @ dec_nat n"

definition group_list :: "grouping \<Rightarrow> string \<Rightarrow> Component list" where
  "group_list g k = (case gm_get (gp_groups g) k of None \<Rightarrow> [] | Some cs \<Rightarrow> cs)"

text \<open>Identifiers that hold no NUL byte in front, as those of a text file do not.\<close>

definition plain_uid :: "dav_lib \<Rightarrow> Component \<Rightarrow> bool" where
  "plain_uid L c \<longleftrightarrow> cm_UID L c = [] \<or> hd (cm_UID L c) \<noteq> CHR 0x00"

definition grouped :: "dav_lib \<Rightarrow> Component list \<Rightarrow> grouping \<Rightarrow> bool" where
  "grouped L es g \<longleftrightarrow>
     distinct (gp_order g) \<and> (\<forall>k. k \<in> set (gp_order g) \<longleftrightarrow> gm_get (gp_groups g) k \<noteq> None) \<and>
     (\<forall>c \<in> set es. cm_UID L c \<noteq> [] \<longrightarrow> cm_UID L c \<in> set (gp_order g)) \<and>
     (\<forall>k \<in> set (gp_order g).
        (\<exists>n c. n < length (gp_order g) \<and> k = no_uid_key n \<and> group_list g k = [c] \<and> cm_UID L c = []) \<or>
        (k \<noteq> [] \<and> hd k \<noteq> CHR 0x00 \<and> group_list g k \<noteq> [] \<and> group_list g k = filter (\<lambda>c. cm_UID L c = k) es)) \<and>
     mset (concat (map (group_list g) (gp_order g))) = mset es"

definition zones_known :: "dav_lib \<Rightarrow> Component option list \<Rightarrow> grouping \<Rightarrow> bool" where
  "zones_known L cs g \<longleftrightarrow>
     (\<forall>tz z. gm_get (gp_zones g) tz = Some z \<longrightarrow> Some z \<in> set cs \<and> is_zone (lb_U L) z \<and> icalPropRaw L (cm_Props z) ''TZID'' = tz) \<and>
     (\<forall>z. Some z \<in> set cs \<and> is_zone (lb_U L) z \<longrightarrow> gm_get (gp_zones g) (icalPropRaw L (cm_Props z) ''TZID'') \<noteq> None)"

lemma entry_no_zone: "is_entry U c \<Longrightarrow> \<not> is_zone U c"
  by (auto simp: is_entry_def is_zone_def)

lemma no_uid_key_inj: "no_uid_key n = no_uid_key m \<longleftrightarrow> n = m"
  using dec_nat_inj by (auto simp: no_uid_key_def)

lemma mset_concat_put:
  assumes "distinct order" "k \<in> set order" "f' k = f k @ [c]" "\<And>x. x \<noteq> k \<Longrightarrow> f' x = f x"
  shows "mset (concat (map f' order)) = mset (concat (map f order)) + {#c#}"
  using assms
proof (induction order)
  case (Cons x order)
  show ?case
  proof (cases "x = k")
    case True
    then have "k \<notin> set order" using Cons.prems(1) by simp
    then have "f' y = f y" if "y \<in> set order" for y using that Cons.prems(4) [of y] by (cases "y = k") auto
    then have e: "map f' order = map f order" by (intro map_cong refl)
    show ?thesis unfolding list.map concat.simps True e Cons.prems(3) by simp
  next
    case False
    then show ?thesis using Cons by simp
  qed
qed simp

lemma group_step_new:
  assumes "is_entry (lb_U L) c" and key: "key = (if cm_UID L c = [] then no_uid_key (length (gp_order g)) else cm_UID L c)"
  shows "gp_zones (group_step L (Some c) g) = gp_zones g"
    "gp_order (group_step L (Some c) g) = (if gm_get (gp_groups g) key = None then gp_order g @ [key] else gp_order g)"
    "gm_get (gp_groups (group_step L (Some c) g)) k = (if k = key then Some (group_list g key @ [c]) else gm_get (gp_groups g) k)"
    "group_list (group_step L (Some c) g) k = (if k = key then group_list g key @ [c] else group_list g k)"
proof -
  have e: "group_step L (Some c) g =
     (let g = (if gm_get (gp_groups g) key = None then g\<lparr>gp_order := gp_order g @ [key]\<rparr> else g)
      in g\<lparr>gp_groups := gm_put key (group_list g key @ [c]) (gp_groups g)\<rparr>)"
    using assms(1) entry_no_zone [OF assms(1)]
    by (simp add: group_step_def Let_def key group_list_def no_uid_key_def)
  show "gp_zones (group_step L (Some c) g) = gp_zones g"
    "gp_order (group_step L (Some c) g) = (if gm_get (gp_groups g) key = None then gp_order g @ [key] else gp_order g)"
    "gm_get (gp_groups (group_step L (Some c) g)) k = (if k = key then Some (group_list g key @ [c]) else gm_get (gp_groups g) k)"
    by (simp_all add: e Let_def group_list_def)
  then show "group_list (group_step L (Some c) g) k = (if k = key then group_list g key @ [c] else group_list g k)"
    by (simp add: group_list_def)
qed

lemma group_step_grouped:
  assumes g: "grouped L es g" and c: "is_entry (lb_U L) c" "plain_uid L c" and es: "\<forall>x \<in> set es. plain_uid L x"
  shows "grouped L (es @ [c]) (group_step L (Some c) g)"
proof -
  let ?key = "if cm_UID L c = [] then no_uid_key (length (gp_order g)) else cm_UID L c" and ?g = "group_step L (Some c) g"
  note s = group_step_new [OF c(1) refl, of g]
  have d: "distinct (gp_order g)" "\<And>k. k \<in> set (gp_order g) \<longleftrightarrow> gm_get (gp_groups g) k \<noteq> None"
    "\<And>x. x \<in> set es \<Longrightarrow> cm_UID L x \<noteq> [] \<Longrightarrow> cm_UID L x \<in> set (gp_order g)"
    "mset (concat (map (group_list g) (gp_order g))) = mset es"
    using g unfolding grouped_def by blast+
  have k: "(\<exists>n c. n < length (gp_order g) \<and> k = no_uid_key n \<and> group_list g k = [c] \<and> cm_UID L c = []) \<or>
        (k \<noteq> [] \<and> hd k \<noteq> CHR 0x00 \<and> group_list g k \<noteq> [] \<and> group_list g k = filter (\<lambda>c. cm_UID L c = k) es)"
    if "k \<in> set (gp_order g)" for k using g that unfolding grouped_def by blast
  have fresh: "no_uid_key (length (gp_order g)) \<notin> set (gp_order g)"
  proof
    assume "no_uid_key (length (gp_order g)) \<in> set (gp_order g)"
    from k [OF this] show False by (auto simp: no_uid_key_inj) (simp add: no_uid_key_def)
  qed
  have old: "group_list g ?key = filter (\<lambda>x. cm_UID L x = ?key) es" if "cm_UID L c \<noteq> []"
  proof (cases "?key \<in> set (gp_order g)")
    case True
    have "hd ?key \<noteq> CHR 0x00" using that c(2) by (simp add: plain_uid_def)
    then show ?thesis using k [OF True] by (auto simp: no_uid_key_def)
  next
    case False
    then have "group_list g ?key = []" using d(2) [of ?key] by (simp add: group_list_def)
    moreover have "filter (\<lambda>x. cm_UID L x = ?key) es = []" using False that d(3) unfolding filter_empty_conv by (metis (full_types))
    ultimately show ?thesis by simp
  qed
  have ord: "gp_order ?g = (if ?key \<in> set (gp_order g) then gp_order g else gp_order g @ [?key])"
    using d(2) [of ?key] by (simp add: s(2))
  have grow: "length (gp_order g) \<le> length (gp_order ?g)" by (simp add: ord)
  have "distinct (gp_order ?g)" using d(1) by (simp add: ord)
  moreover have "\<forall>k. k \<in> set (gp_order ?g) \<longleftrightarrow> gm_get (gp_groups ?g) k \<noteq> None" using d(2) by (auto simp: ord s(3))
  moreover have "\<forall>x \<in> set (es @ [c]). cm_UID L x \<noteq> [] \<longrightarrow> cm_UID L x \<in> set (gp_order ?g)" using d(3) by (auto simp: ord)
  moreover have "(\<exists>n x. n < length (gp_order ?g) \<and> q = no_uid_key n \<and> group_list ?g q = [x] \<and> cm_UID L x = []) \<or>
        (q \<noteq> [] \<and> hd q \<noteq> CHR 0x00 \<and> group_list ?g q \<noteq> [] \<and> group_list ?g q = filter (\<lambda>x. cm_UID L x = q) (es @ [c]))"
    if q: "q \<in> set (gp_order ?g)" for q
  proof (cases "q = ?key")
    case key: True
    show ?thesis
    proof (cases "cm_UID L c = []")
      case True
      then have "group_list g ?key = []" using fresh d(2) [of ?key] by (simp add: group_list_def)
      then show ?thesis using key True fresh by (auto simp: s(4) ord)
    next
      case False
      then show ?thesis using key old c(2) by (simp add: s(4) plain_uid_def)
    qed
  next
    case False
    then have q': "q \<in> set (gp_order g)" using q by (auto simp: ord split: if_splits)
    have "filter (\<lambda>x. cm_UID L x = q) (es @ [c]) = filter (\<lambda>x. cm_UID L x = q) es" if "q \<noteq> []" using that False by auto
    moreover have l: "group_list ?g q = group_list g q" using False by (simp add: s(4))
    ultimately show ?thesis using k [OF q'] grow unfolding l by (metis less_le_trans)
  qed
  moreover have "mset (concat (map (group_list ?g) (gp_order ?g))) = mset (es @ [c])"
  proof (cases "?key \<in> set (gp_order g)")
    case True
    then have "mset (concat (map (group_list ?g) (gp_order g))) = mset (concat (map (group_list g) (gp_order g))) + {#c#}"
      using d(1) by (intro mset_concat_put) (simp_all add: s(4))
    then show ?thesis using True d(4) by (simp add: ord)
  next
    case False
    then have e: "map (group_list ?g) (gp_order g) = map (group_list g) (gp_order g)" by (intro map_cong) (auto simp: s(4))
    have "group_list g ?key = []" using False d(2) [of ?key] by (simp add: group_list_def)
    then have "group_list ?g ?key = [c]" by (simp add: s(4))
    then have "concat (map (group_list ?g) (gp_order ?g)) = concat (map (group_list g) (gp_order g)) @ [c]"
      unfolding ord using False by (simp only: if_False map_append concat_append e list.map concat.simps append_Nil2)
    then show ?thesis using d(4) by simp
  qed
  ultimately show ?thesis unfolding grouped_def by blast
qed

lemma grouped_zones: "grouped L es (g\<lparr>gp_zones := z\<rparr>) = grouped L es g"
proof -
  have "group_list (g\<lparr>gp_zones := z\<rparr>) = group_list g" by (rule ext) (simp add: group_list_def)
  then show ?thesis by (simp add: grouped_def)
qed

lemma group_children_ok:
  assumes "\<forall>x \<in> set (filter (is_entry (lb_U L)) (List.map_filter (\<lambda>c. c) cs)). plain_uid L x"
  shows "grouped L (filter (is_entry (lb_U L)) (List.map_filter (\<lambda>c. c) cs)) (group_children L cs) \<and> zones_known L cs (group_children L cs)"
  using assms
proof (induction cs rule: rev_induct)
  case Nil
  then show ?case by (simp add: group_children_def grouped_def zones_known_def)
next
  case (snoc x cs)
  let ?es = "filter (is_entry (lb_U L)) (List.map_filter (\<lambda>c. c) cs)" and ?g = "group_children L cs"
  have step: "group_children L (cs @ [x]) = group_step L x ?g" by (simp add: group_children_def)
  have mf: "List.map_filter (\<lambda>c. c) (cs @ [x]) = List.map_filter (\<lambda>c. c) cs @ (case x of None \<Rightarrow> [] | Some c \<Rightarrow> [c])"
    by (induction cs) (auto split: option.split)
  have ih: "grouped L ?es ?g" "zones_known L cs ?g" and pl: "\<forall>x \<in> set ?es. plain_uid L x" using snoc by (simp_all add: mf)
  show ?case
  proof (cases x)
    case None
    then show ?thesis unfolding step mf using ih by (simp add: group_step_def zones_known_def)
  next
    case (Some c)
    consider "is_zone (lb_U L) c" | "is_entry (lb_U L) c" "\<not> is_zone (lb_U L) c" | "\<not> is_zone (lb_U L) c" "\<not> is_entry (lb_U L) c"
      using entry_no_zone by blast
    then show ?thesis
    proof cases
      case 1
      then have ne: "\<not> is_entry (lb_U L) c" using entry_no_zone by blast
      have gs: "group_step L x ?g = ?g\<lparr>gp_zones := gm_put (icalPropRaw L (cm_Props c) ''TZID'') c (gp_zones ?g)\<rparr>"
        using 1 by (simp add: Some group_step_def)
      have "zones_known L (cs @ [x]) (?g\<lparr>gp_zones := gm_put (icalPropRaw L (cm_Props c) ''TZID'') c (gp_zones ?g)\<rparr>)"
        using ih(2) 1 by (auto simp: Some zones_known_def)
      then show ?thesis using ih(1) ne unfolding step gs mf grouped_zones by (simp add: Some)
    next
      case 2
      then have "plain_uid L c" using snoc.prems unfolding mf by (simp add: Some)
      from group_step_grouped [OF ih(1) 2(1) this pl] have "grouped L (?es @ [c]) (group_step L (Some c) ?g)" .
      moreover have "zones_known L (cs @ [x]) (group_step L (Some c) ?g)"
        using ih(2) 2(2) unfolding zones_known_def group_step_new(1) [OF 2(1) refl] Some by auto
      ultimately show ?thesis using 2 unfolding step mf by (simp add: Some)
    next
      case 3
      then show ?thesis unfolding step mf using ih by (auto simp: Some group_step_def zones_known_def)
    qed
  qed
qed

subsection \<open>Properties\<close>

text \<open>
  A stream of cards or calendars is cut at the right places: whatever lines stand between the blocks,
  each block comes out whole and unchanged, in order, and nothing else does.
\<close>

theorem streams_are_cut_into_blocks:
  assumes "list_all (\<lambda>(j, b). between U ''VCARD'' j \<and> a_block U ''VCARD'' b) bs" and "between U ''VCARD'' junk"
    and "list_all (\<lambda>(j, b). between U ''VCALENDAR'' j \<and> a_block U ''VCALENDAR'' b) cs" and "between U ''VCALENDAR'' junk'"
  shows "SplitVCards U (concat (map (\<lambda>(j, b). j @ b) bs) @ junk) = map snd bs \<and>
    SplitVCalendars U (concat (map (\<lambda>(j, b). j @ b) cs) @ junk') = map snd cs"
  using block_loop_stream [OF assms(1,2), of "[]"] block_loop_stream [OF assms(3,4), of "[]"]
  by (simp add: SplitVCards_def SplitVCalendars_def)

definition defines_zone :: "dav_lib \<Rightarrow> Object \<Rightarrow> string \<Rightarrow> bool" where
  "defines_zone L ob tz \<longleftrightarrow> (\<exists>cal z. ob_cal ob = Some cal \<and> Some z \<in> set (cm_Children cal) \<and> is_zone (lb_U L) z \<and>
     icalPropRaw L (cm_Props z) ''TZID'' = tz)"

definition same_envelope :: "Object \<Rightarrow> Object \<Rightarrow> bool" where
  "same_envelope ob ob' \<longleftrightarrow> map_option (\<lambda>c. (cm_Name c, cm_Props c)) (ob_cal ob) = map_option (\<lambda>c. (cm_Name c, cm_Props c)) (ob_cal ob')"

lemma map_filter_Some: "List.map_filter (\<lambda>c. c) (map Some xs @ ys) = xs @ List.map_filter (\<lambda>c. c) ys"
  by (induction xs) auto

lemma set_map_filter_eq: "set (List.map_filter f xs) = {y. \<exists>x \<in> set xs. f x = Some y}"
  by (induction xs) (auto split: option.splits)

lemma part_entries:
  assumes "grouped L es g" "zones_known L cs g" "\<forall>x \<in> set es. is_entry (lb_U L) x" "k \<in> set (gp_order g)"
  shows "cal_entries L (part_of L cal g k) = group_list g k"
proof -
  let ?zs = "List.map_filter (\<lambda>tzid. gm_get (gp_zones g) tzid) (timezonesUsedBy L (group_list g k))"
  have "\<not> is_entry (lb_U L) z" if "z \<in> set ?zs" for z
    using that assms(2) entry_no_zone by (fastforce simp: set_map_filter_eq zones_known_def)
  then have z: "filter (is_entry (lb_U L)) ?zs = []" by (simp add: filter_empty_conv)
  have "mset (concat (map (group_list g) (gp_order g))) = mset es" using assms(1) by (simp add: grouped_def)
  then have "set (concat (map (group_list g) (gp_order g))) = set es" by (metis set_mset_mset)
  then have "filter (is_entry (lb_U L)) (group_list g k) = group_list g k" using assms(3,4) by (auto simp: filter_id_conv)
  then show ?thesis using z map_filter_Some [of "group_list g k" "[]"]
    by (simp add: cal_entries_def part_of_def Let_def group_list_def [symmetric] map_filter_Some)
qed

lemma part_zones:
  assumes g: "zones_known L (cm_Children cal) g" and tz: "tz \<in> set (timezonesUsedBy L (group_list g k))" and d: "ob_cal ob = Some cal" "defines_zone L ob tz"
  shows "defines_zone L (part_of L cal g k) tz"
proof -
  obtain z where z: "Some z \<in> set (cm_Children cal)" "is_zone (lb_U L) z" "icalPropRaw L (cm_Props z) ''TZID'' = tz"
    using d by (auto simp: defines_zone_def)
  then obtain y where y: "gm_get (gp_zones g) tz = Some y" using g unfolding zones_known_def by blast
  then have "is_zone (lb_U L) y" "icalPropRaw L (cm_Props y) ''TZID'' = tz" using g unfolding zones_known_def by blast+
  moreover have "y \<in> set (List.map_filter (\<lambda>tzid. gm_get (gp_zones g) tzid) (timezonesUsedBy L (group_list g k)))"
    using y tz by (auto simp: set_map_filter_eq)
  ultimately show ?thesis by (auto simp: defines_zone_def part_of_def Let_def group_list_def)
qed

text \<open>
  C17. Splitting an export loses no entry: the entries of the parts together are those of the calendar; a
  part holds all entries with one identifier, so the changed occurrences of a series stay with it, or a
  single entry that has none; it has the properties of the calendar and every time zone its entries name
  and the calendar defines.
\<close>

theorem every_entry_is_imported:
  assumes ob: "ob_cal ob = Some cal" "ob_kind ob = KindICal" and uid: "\<forall>c \<in> set (cal_entries L ob). plain_uid L c"
  shows "let parts = SplitByComponent L (Some ob) in
    mset (concat (map (cal_entries L) parts)) = mset (cal_entries L ob) \<and>
    (\<forall>p \<in> set parts. same_envelope p ob \<and>
       (parts = [ob] \<or> (\<exists>c. cal_entries L p = [c] \<and> cm_UID L c = []) \<or>
          (\<exists>u. u \<noteq> [] \<and> cal_entries L p \<noteq> [] \<and> cal_entries L p = filter (\<lambda>c. cm_UID L c = u) (cal_entries L ob))) \<and>
       (\<forall>tz \<in> set (timezonesUsedBy L (cal_entries L p)). defines_zone L ob tz \<longrightarrow> defines_zone L p tz))"
proof -
  let ?g = "group_children L (cm_Children cal)" and ?es = "cal_entries L ob" and ?parts = "SplitByComponent L (Some ob)"
  have es: "?es = filter (is_entry (lb_U L)) (List.map_filter (\<lambda>c. c) (cm_Children cal))" by (simp add: cal_entries_def ob)
  have g: "grouped L ?es ?g" "zones_known L (cm_Children cal) ?g" using group_children_ok [of L "cm_Children cal"] uid by (simp_all add: es)
  have en: "\<forall>x \<in> set ?es. is_entry (lb_U L) x" by (simp add: es)
  show ?thesis
  proof (cases "length (gp_order ?g) \<le> 1")
    case True
    then have "?parts = [ob]" by (simp add: SplitByComponent_def ob Let_def)
    then show ?thesis by (simp add: same_envelope_def)
  next
    case False
    then have p: "?parts = map (part_of L cal ?g) (gp_order ?g)" by (simp add: SplitByComponent_def ob Let_def)
    have pe: "cal_entries L (part_of L cal ?g k) = group_list ?g k" if "k \<in> set (gp_order ?g)" for k
      by (rule part_entries [OF g en that])
    have "map (cal_entries L) ?parts = map (group_list ?g) (gp_order ?g)" unfolding p by (simp add: pe)
    then have m: "mset (concat (map (cal_entries L) ?parts)) = mset ?es" using g(1) by (simp add: grouped_def)
    have "same_envelope (part_of L cal ?g k) ob \<and>
       ((\<exists>c. group_list ?g k = [c] \<and> cm_UID L c = []) \<or>
          (\<exists>u. u \<noteq> [] \<and> group_list ?g k \<noteq> [] \<and> group_list ?g k = filter (\<lambda>c. cm_UID L c = u) ?es)) \<and>
       (\<forall>tz \<in> set (timezonesUsedBy L (group_list ?g k)). defines_zone L ob tz \<longrightarrow> defines_zone L (part_of L cal ?g k) tz)"
      if k: "k \<in> set (gp_order ?g)" for k
    proof (intro conjI ballI impI)
      show "same_envelope (part_of L cal ?g k) ob" by (simp add: same_envelope_def part_of_def Let_def ob)
      have "(\<exists>n c. n < length (gp_order ?g) \<and> k = no_uid_key n \<and> group_list ?g k = [c] \<and> cm_UID L c = []) \<or>
        (k \<noteq> [] \<and> hd k \<noteq> CHR 0x00 \<and> group_list ?g k \<noteq> [] \<and> group_list ?g k = filter (\<lambda>c. cm_UID L c = k) ?es)"
        using g(1) k unfolding grouped_def by blast
      then show "(\<exists>c. group_list ?g k = [c] \<and> cm_UID L c = []) \<or>
          (\<exists>u. u \<noteq> [] \<and> group_list ?g k \<noteq> [] \<and> group_list ?g k = filter (\<lambda>c. cm_UID L c = u) ?es)" by blast
    qed (rule part_zones [OF g(2) _ ob(1)])
    then show ?thesis using m unfolding Let_def p by (simp add: pe)
  qed
qed

definition demo_entry :: "string \<Rightarrow> string \<Rightarrow> Component" where
  "demo_entry u s = Component ''VEVENT'' [(''UID'', [\<lparr>pr_Name = ''UID'', pr_Value = u, pr_Params = []\<rparr>]),
     (''SUMMARY'', [\<lparr>pr_Name = ''SUMMARY'', pr_Value = s, pr_Params = []\<rparr>])] []"

definition demo_export :: Object where
  "demo_export = \<lparr>ob_Path = [], ob_ETag = [], ob_kind = KindICal, ob_card = None,
     ob_cal = Some (Component ''VCALENDAR'' [] [Some (demo_entry ''a'' ''one''), Some (demo_entry ''b'' ''two''), Some (demo_entry ''a'' ''moved'')])\<rparr>"

theorem every_entry_is_imported_witness:
  "\<exists>parts. SplitByComponent demo_lib (Some demo_export) = parts \<and> length parts = 2 \<and>
     mset (concat (map (cal_entries demo_lib) parts)) = {#demo_entry ''a'' ''one'', demo_entry ''b'' ''two'', demo_entry ''a'' ''moved''#}"
proof -
  have u: "ToUpper (lb_U demo_lib) ''VEVENT'' = ''VEVENT''" by (rule ToUpper_plain) simp
  have e: "is_entry (lb_U demo_lib) (demo_entry x y)" "\<not> is_zone (lb_U demo_lib) (demo_entry x y)" "cm_UID demo_lib (demo_entry x y) = x" for x y
    using u by (simp_all add: is_entry_def is_zone_def demo_entry_def cm_UID_def icalPropRaw_def demo_lib_def)
  have ob: "ob_kind demo_export = KindICal" and cal: "ob_cal demo_export = Some (Component ''VCALENDAR'' []
      [Some (demo_entry ''a'' ''one''), Some (demo_entry ''b'' ''two''), Some (demo_entry ''a'' ''moved'')])"
    by (simp_all add: demo_export_def)
  have es: "cal_entries demo_lib demo_export = [demo_entry ''a'' ''one'', demo_entry ''b'' ''two'', demo_entry ''a'' ''moved'']"
    by (simp add: cal_entries_def demo_export_def e(1))
  have "\<forall>c \<in> set (cal_entries demo_lib demo_export). plain_uid demo_lib c" by (simp add: es plain_uid_def e(3))
  from every_entry_is_imported [OF cal ob this]
  have "mset (concat (map (cal_entries demo_lib) (SplitByComponent demo_lib (Some demo_export)))) = mset (cal_entries demo_lib demo_export)"
    by (simp add: Let_def)
  moreover have "length (SplitByComponent demo_lib (Some demo_export)) = 2"
    by (simp add: SplitByComponent_def ob cal group_children_def group_step_def e Let_def)
  ultimately show ?thesis unfolding es by simp
qed

text \<open>What an archive holds when no limit cuts it short.\<close>

definition entry_results :: "(string \<Rightarrow> bool) \<Rightarrow> (string \<Rightarrow> ParsedObject list) \<Rightarrow> zip_entry \<Rightarrow> ParsedObject list" where
  "entry_results wanted parse f =
     (if ze_IsDir f \<or> \<not> wanted (ze_Name f) then []
      else
        (case ze_Body f of
           ZipOpenFails \<Rightarrow> [failed_entry f ErrZipOpen]
         | ZipReadFails \<Rightarrow> [failed_entry f ErrZipRead]
         | ZipBytes bytes \<Rightarrow>
             (if parse (take 8388608 bytes) = [] then [failed_entry f ErrNothingFound]
              else map (with_source (ze_Name f)) (parse (take 8388608 bytes)))))"

abbreviation objects_in :: "ParsedObject list \<Rightarrow> nat" where
  "objects_in ps \<equiv> length (filter (\<lambda>p. pd_Object p \<noteq> None) ps)"

lemma take_records_ok:
  assumes "take_records m ps out = (out', tr)"
  shows "prefix out' (out @ ps) \<and> prefix out out' \<and> (\<not> tr \<longrightarrow> out' = out @ ps) \<and> (tr \<longrightarrow> 0 < m \<and> m \<le> int (length out')) \<and>
    (0 < m \<and> int (objects_in out) < m \<longrightarrow> int (objects_in out') \<le> m \<and> (\<not> tr \<longrightarrow> int (objects_in out') < m))"
  using assms
proof (induction ps arbitrary: out)
  case (Cons p ps)
  show ?case
  proof (cases "0 < m \<and> m \<le> int (length (out @ [p]))")
    case True
    then have r: "out' = out @ [p]" "tr" using Cons.prems by auto
    then show ?thesis using True by (auto simp: prefix_def)
  next
    case False
    then have t: "take_records m ps (out @ [p]) = (out', tr)" using Cons.prems by (auto simp: Let_def)
    have le: "objects_in (out @ [p]) \<le> length (out @ [p])" by (rule length_filter_le)
    have "0 < m \<Longrightarrow> int (objects_in (out @ [p])) < m" using False le by linarith
    then show ?thesis using Cons.IH [OF t] by (auto simp: prefix_def)
  qed
qed auto

lemma zip_loop_ok:
  assumes "zip_loop wanted parse m fs out = (out', tr)"
  shows "prefix out' (out @ concat (map (entry_results wanted parse) fs)) \<and>
    (\<not> tr \<longrightarrow> out' = out @ concat (map (entry_results wanted parse) fs)) \<and> (tr \<longrightarrow> 0 < m \<and> m \<le> int (length out')) \<and>
    (0 < m \<and> int (objects_in out) < m \<longrightarrow> int (objects_in out') \<le> m)"
  using assms
proof (induction fs arbitrary: out)
  case (Cons f fs)
  have fail: ?case if "entry_results wanted parse f = [failed_entry f e]"
    "zip_loop wanted parse m (f # fs) out = zip_loop wanted parse m fs (out @ [failed_entry f e])" for e
  proof -
    have "zip_loop wanted parse m fs (out @ [failed_entry f e]) = (out', tr)" using Cons.prems that(2) by simp
    from Cons.IH [OF this] show ?thesis using that(1) by (simp add: failed_entry_def)
  qed
  show ?case
  proof (cases "ze_IsDir f \<or> \<not> wanted (ze_Name f)")
    case True
    then have "zip_loop wanted parse m fs out = (out', tr)" using Cons.prems by auto
    from Cons.IH [OF this] show ?thesis using True by (simp add: entry_results_def)
  next
    case wanted: False
    show ?thesis
    proof (cases "ze_Body f")
      case ZipOpenFails
      then show ?thesis using wanted fail [of ErrZipOpen] by (simp add: entry_results_def)
    next
      case ZipReadFails
      then show ?thesis using wanted fail [of ErrZipRead] by (simp add: entry_results_def)
    next
      case (ZipBytes bytes)
      let ?ps = "parse (take 8388608 bytes)"
      show ?thesis
      proof (cases "?ps = []")
        case True
        then show ?thesis using wanted ZipBytes fail [of ErrNothingFound] by (simp add: entry_results_def)
      next
        case False
        have er: "entry_results wanted parse f = map (with_source (ze_Name f)) ?ps" using False wanted ZipBytes by (simp add: entry_results_def)
        obtain o1 t1 where t: "take_records m (map (with_source (ze_Name f)) ?ps) out = (o1, t1)" by fastforce
        note ok = take_records_ok [OF t]
        show ?thesis
        proof (cases t1)
          case True
          then have "out' = o1" "tr" using Cons.prems t False wanted ZipBytes by (auto simp: Let_def)
          then show ?thesis using ok True by (auto simp: er prefix_def)
        next
          case f: False
          then have "zip_loop wanted parse m fs o1 = (out', tr)" using Cons.prems t False wanted ZipBytes by (auto simp: Let_def)
          from Cons.IH [OF this] show ?thesis using ok f by (auto simp: er)
        qed
      qed
    qed
  qed
qed auto

definition import_all :: "unicode \<Rightarrow> (string \<Rightarrow> bool) \<Rightarrow> (string \<Rightarrow> ParsedObject list) \<Rightarrow> string \<Rightarrow>
    (string \<Rightarrow> zip_entry list option) \<Rightarrow> string \<Rightarrow> string \<Rightarrow> ParsedObject list" where
  "import_all U wanted parse fallback unzip filename body =
     (if is_zip U filename then (case unzip body of None \<Rightarrow> [] | Some fs \<Rightarrow> concat (map (entry_results wanted parse) fs))
      else map (with_source (if filename = [] then fallback else filename)) (parse body))"

definition import_fits :: "int \<Rightarrow> ParsedObject list \<Rightarrow> ParsedObject list \<times> import_error option \<Rightarrow> bool" where
  "import_fits m all r \<longleftrightarrow> prefix (fst r) all \<and> (snd r = None \<longrightarrow> fst r = all) \<and>
     (snd r \<noteq> None \<longrightarrow> snd r = Some ErrZipOpen \<or> snd r = Some (ErrTruncated m) \<and> 0 < m \<and> m \<le> int (length (fst r))) \<and>
     (0 < m \<longrightarrow> int (objects_in (fst r)) \<le> m)"

lemma read_zip_fits:
  "import_fits m (case archive of None \<Rightarrow> [] | Some fs \<Rightarrow> concat (map (entry_results wanted parse) fs)) (read_zip wanted parse archive m)"
proof (cases archive)
  case (Some fs)
  obtain out tr where z: "zip_loop wanted parse m fs [] = (out, tr)" by fastforce
  show ?thesis using zip_loop_ok [OF z] by (auto simp: import_fits_def read_zip_def Some z)
qed (simp add: import_fits_def read_zip_def)

lemma plain_fits: "import_fits m ps (if 0 < m \<and> m < int (length ps) then (take (nat m) ps, Some (ErrTruncated m)) else (ps, None))"
proof (cases "0 < m \<and> m < int (length ps)")
  case True
  have "objects_in (take (nat m) ps) \<le> nat m"
    using length_filter_le [of "\<lambda>p. pd_Object p \<noteq> None" "take (nat m) ps"] by simp
  then show ?thesis using True by (auto simp: import_fits_def take_is_prefix)
next
  case False
  have "objects_in ps \<le> length ps" by (rule length_filter_le)
  then have "0 < m \<Longrightarrow> int (objects_in ps) \<le> m" using False by linarith
  then show ?thesis using False by (auto simp: import_fits_def)
qed

lemma read_plain_fits:
  "import_fits m (map (with_source (if filename = [] then fallback else filename)) ps) (read_plain filename fallback ps m)"
  unfolding read_plain_def Let_def by (rule plain_fits)

text \<open>
  An import says when it leaves something out: what it returns is the beginning of what the upload
  holds, and all of it when no error is reported; with a limit it returns no more objects than the limit,
  and reports the truncation only when that many results were reached; a file that cannot be opened, read
  or parsed has an entry of its own and does not stop the others.
\<close>

theorem import_reports_what_it_drops:
  "import_fits m (import_all (lb_U L) (card_file (lb_U L)) (ParseVCards L) ''upload.vcf'' unzip filename body)
     (ReadImportPayload L unzip filename body m) \<and>
   import_fits m (import_all (lb_U L) (cal_file (lb_U L)) (ParseICals L) ''upload.ics'' unzip filename body)
     (ReadICSImportPayload L unzip filename body m)"
  unfolding ReadImportPayload_def ReadICSImportPayload_def readZipVCards_def readZipICals_def import_all_def
  using read_zip_fits read_plain_fits by simp

text \<open>
  An archive that holds exactly as many cards as the limit allows is reported as truncated, although
  nothing is missing; the same cards in a plain file are not.
\<close>

lemma exact_archive_called_truncated:
  assumes "card_file U name" and "ParseVCards L (take 8388608 bytes) = ps" "length ps = n" "0 < n" and "U = lb_U L"
  shows "readZipVCards L (Some [\<lparr>ze_Name = name, ze_IsDir = False, ze_Body = ZipBytes bytes\<rparr>]) (int n) =
      (map (with_source name) ps, Some (ErrTruncated (int n)))"
    and "read_plain name ''upload.vcf'' ps (int n) = (map (with_source (if name = [] then ''upload.vcf'' else name)) ps, None)"
proof -
  have "take_records (int n) qs out = (out @ qs, True)" if "length out + length qs = n" "qs \<noteq> []" for qs out :: "ParsedObject list"
    using that
  proof (induction qs arbitrary: out)
    case (Cons q qs)
    then show ?case by (cases "qs = []") auto
  qed simp
  from this [of "[]" "map (with_source name) ps"] assms
  show "readZipVCards L (Some [\<lparr>ze_Name = name, ze_IsDir = False, ze_Body = ZipBytes bytes\<rparr>]) (int n) =
      (map (with_source name) ps, Some (ErrTruncated (int n)))"
    by (auto simp: readZipVCards_def read_zip_def Let_def)
qed (simp add: read_plain_def assms)

end
