(* ===== verification/DavGuard.thy ===== *)
theory DavGuard
  imports Go_Strings Carrel_Prelude "HOL-Library.Word"
begin

unbundle bit_operations_syntax

text \<open>
  The guard of outgoing connections, \<open>internal/dav/ssrf.go\<close>: which addresses the server may talk to. An
  address is the byte slice of \<open>net.IP\<close>, and its classification by the package net is modelled. How
  addresses are written (\<open>net.ParseIP\<close>, \<open>IP.String\<close>) and what the resolver answers are arguments, so what is
  shown holds for every answer, also when the answers change between a check and the connection.
\<close>

subsection \<open>Addresses\<close>

type_synonym ip = "8 word list"

definition To4 :: "ip \<Rightarrow> ip option" where
  "To4 ip =
     (if length ip = 4 then Some ip
      else if length ip = 16 \<and> take 10 ip = replicate 10 0 \<and> ip ! 10 = 0xFF \<and> ip ! 11 = 0xFF then Some (drop 12 ip)
      else None)"

definition ip_Equal :: "ip \<Rightarrow> ip \<Rightarrow> bool" where
  "ip_Equal ip x =
     (if length ip = length x then ip = x
      else if length ip = 4 \<and> length x = 16 then take 12 x = replicate 10 0 @ [0xFF, 0xFF] \<and> ip = drop 12 x
      else if length ip = 16 \<and> length x = 4 then take 12 ip = replicate 10 0 @ [0xFF, 0xFF] \<and> x = drop 12 ip
      else False)"

definition IPv4zero :: ip where "IPv4zero = replicate 10 0 @ [0xFF, 0xFF] @ replicate 4 0"
definition IPv6unspecified :: ip where "IPv6unspecified = replicate 16 0"
definition IPv6loopback :: ip where "IPv6loopback = replicate 15 0 @ [1]"

definition IsUnspecified :: "ip \<Rightarrow> bool" where
  "IsUnspecified ip \<longleftrightarrow> ip_Equal ip IPv4zero \<or> ip_Equal ip IPv6unspecified"

definition IsLoopback :: "ip \<Rightarrow> bool" where
  "IsLoopback ip = (case To4 ip of Some a \<Rightarrow> a ! 0 = 127 | None \<Rightarrow> ip_Equal ip IPv6loopback)"

definition IsPrivate :: "ip \<Rightarrow> bool" where
  "IsPrivate ip =
     (case To4 ip of
        Some a \<Rightarrow> a ! 0 = 10 \<or> (a ! 0 = 172 \<and> a ! 1 AND 0xF0 = 16) \<or> (a ! 0 = 192 \<and> a ! 1 = 168)
      | None \<Rightarrow> length ip = 16 \<and> ip ! 0 AND 0xFE = 0xFC)"

definition IsMulticast :: "ip \<Rightarrow> bool" where
  "IsMulticast ip =
     (case To4 ip of Some a \<Rightarrow> a ! 0 AND 0xF0 = 0xE0 | None \<Rightarrow> length ip = 16 \<and> ip ! 0 = 0xFF)"

definition IsLinkLocalMulticast :: "ip \<Rightarrow> bool" where
  "IsLinkLocalMulticast ip =
     (case To4 ip of
        Some a \<Rightarrow> a ! 0 = 224 \<and> a ! 1 = 0 \<and> a ! 2 = 0
      | None \<Rightarrow> length ip = 16 \<and> ip ! 0 = 0xFF \<and> ip ! 1 AND 0x0F = 0x02)"

definition IsLinkLocalUnicast :: "ip \<Rightarrow> bool" where
  "IsLinkLocalUnicast ip =
     (case To4 ip of
        Some a \<Rightarrow> a ! 0 = 169 \<and> a ! 1 = 254
      | None \<Rightarrow> length ip = 16 \<and> ip ! 0 = 0xFE \<and> ip ! 1 AND 0xC0 = 0x80)"

text \<open>\<open>net.CIDRMask\<close> and \<open>IPNet.Contains\<close>.\<close>

fun CIDRMask :: "nat \<Rightarrow> nat \<Rightarrow> ip" where
  "CIDRMask ones 0 = []"
| "CIDRMask ones (Suc l) =
     (if 8 \<le> ones then 0xFF # CIDRMask (ones - 8) l else NOT (drop_bit ones 0xFF) # CIDRMask 0 l)"

type_synonym ipnet = "ip \<times> ip"

definition cidr :: "ip \<Rightarrow> nat \<Rightarrow> ipnet" where
  "cidr ip ones = (let m = CIDRMask ones (length ip) in (map2 (AND) ip m, m))"

definition net_Contains :: "ipnet \<Rightarrow> ip \<Rightarrow> bool" where
  "net_Contains n ip =
     (let ip = (case To4 ip of Some a \<Rightarrow> a | None \<Rightarrow> ip)
      in length ip = length (fst n) \<and> map2 (AND) (fst n) (snd n) = map2 (AND) ip (snd n))"

definition blockedNets :: "ipnet list" where
  "blockedNets =
     [cidr [0, 0, 0, 0] 8, cidr [127, 0, 0, 0] 8, cidr [10, 0, 0, 0] 8, cidr [172, 16, 0, 0] 12,
      cidr [192, 168, 0, 0] 16, cidr [169, 254, 0, 0] 16, cidr (replicate 15 0 @ [1]) 128,
      cidr (0xFC # replicate 15 0) 7, cidr (0xFE # 0x80 # replicate 14 0) 10]"

subsection \<open>The guard\<close>

datatype guard_error = ErrSSRF | ErrTooManyRedirects | ErrResponseTooLarge | ErrLookup | ErrNoAddresses | ErrAddress | ErrLimit

record GuardConfig =
  gc_Allowlist :: "string list"
  gc_ConnectTimeout :: duration
  gc_RequestTimeout :: duration
  gc_MaxResponseBytes :: int
  gc_MaxRedirects :: int
  gc_InsecureSkipVerify :: bool

record Guard =
  gu_allowlist :: "string list"
  gu_connectTimeout :: duration
  gu_requestTimeout :: duration
  gu_maxResponseBytes :: int
  gu_maxRedirects :: int
  gu_insecureTLS :: bool

record net_env =
  ne_U :: unicode
  ne_ParseIP :: "string \<Rightarrow> ip option"
  ne_String :: "ip \<Rightarrow> string"

definition normalizeHost :: "net_env \<Rightarrow> string \<Rightarrow> string" where
  "normalizeHost N host = ToLower (ne_U N) (TrimSuffix (TrimSpace host) ''.'')"

definition NewGuard :: "net_env \<Rightarrow> GuardConfig \<Rightarrow> Guard" where
  "NewGuard N cfg =
     (let cfg = (if gc_ConnectTimeout cfg \<le> 0 then cfg\<lparr>gc_ConnectTimeout := 10 * second\<rparr> else cfg);
          cfg = (if gc_RequestTimeout cfg \<le> 0 then cfg\<lparr>gc_RequestTimeout := 30 * second\<rparr> else cfg);
          cfg = (if gc_MaxResponseBytes cfg \<le> 0 then cfg\<lparr>gc_MaxResponseBytes := 10485760\<rparr> else cfg);
          cfg = (if gc_MaxRedirects cfg \<le> 0 then cfg\<lparr>gc_MaxRedirects := 5\<rparr> else cfg);
          allow = filter (\<lambda>host. host \<noteq> []) (map (normalizeHost N) (gc_Allowlist cfg))
      in \<lparr>gu_allowlist = allow, gu_connectTimeout = gc_ConnectTimeout cfg, gu_requestTimeout = gc_RequestTimeout cfg,
          gu_maxResponseBytes = gc_MaxResponseBytes cfg, gu_maxRedirects = gc_MaxRedirects cfg,
          gu_insecureTLS = gc_InsecureSkipVerify cfg\<rparr>)"

definition hostAllowed :: "net_env \<Rightarrow> Guard \<Rightarrow> string \<Rightarrow> bool" where
  "hostAllowed N g host =
     (if gu_allowlist g = [] then False
      else
        (let host = normalizeHost N host
         in if host \<in> set (gu_allowlist g) then True
            else list_ex (\<lambda>entry. HasSuffix host (''.'' @ entry)) (gu_allowlist g)))"

definition ipAllowed :: "net_env \<Rightarrow> Guard \<Rightarrow> ip \<Rightarrow> bool" where
  "ipAllowed N g ip = (if gu_allowlist g = [] then False else normalizeHost N (ne_String N ip) \<in> set (gu_allowlist g))"

definition checkIP :: "ip \<Rightarrow> bool \<Rightarrow> guard_error option" where
  "checkIP ip allowed =
     (if allowed then None
      else if ip = [] \<or> IsUnspecified ip then Some ErrSSRF
      else if IsLoopback ip \<or> IsMulticast ip \<or> IsLinkLocalUnicast ip \<or> IsLinkLocalMulticast ip then Some ErrSSRF
      else if IsPrivate ip then Some ErrSSRF
      else if list_ex (\<lambda>block. net_Contains block ip) blockedNets then Some ErrSSRF
      else None)"

record url =
  url_Scheme :: string
  url_Hostname :: string

text \<open>\<open>lookup\<close> is the resolver of this call: the addresses of a host, or none when it fails.\<close>

definition ValidateURL :: "net_env \<Rightarrow> Guard \<Rightarrow> (string \<Rightarrow> ip list option) \<Rightarrow> url option \<Rightarrow> guard_error option" where
  "ValidateURL N g lookup u' =
     (case u' of
        None \<Rightarrow> Some ErrSSRF
      | Some u \<Rightarrow>
          if ToLower (ne_U N) (url_Scheme u) \<noteq> ''http'' \<and> ToLower (ne_U N) (url_Scheme u) \<noteq> ''https'' then Some ErrSSRF
          else
            (let host = url_Hostname u
             in if host = [] then Some ErrSSRF
                else
                  (case ne_ParseIP N host of
                     Some ip \<Rightarrow> checkIP ip (ipAllowed N g ip)
                   | None \<Rightarrow>
                       (case lookup host of
                          None \<Rightarrow> Some ErrLookup
                        | Some ips \<Rightarrow>
                            if length ips = 0 then Some ErrNoAddresses
                            else if list_ex (\<lambda>ip. checkIP ip (hostAllowed N g host) = None) ips then None
                            else Some ErrSSRF))))"

definition checkRedirect :: "net_env \<Rightarrow> Guard \<Rightarrow> (string \<Rightarrow> ip list option) \<Rightarrow> url \<Rightarrow> nat \<Rightarrow> guard_error option" where
  "checkRedirect N g lookup u via =
     (if gu_maxRedirects g \<le> int via then Some ErrTooManyRedirects else ValidateURL N g lookup (Some u))"

text \<open>The address \<open>dialContext\<close> connects to. The loop keeps the last refusal.\<close>

fun dial_loop :: "bool \<Rightarrow> ip list \<Rightarrow> guard_error option \<Rightarrow> guard_error + ip" where
  "dial_loop allowed [] lastErr = (case lastErr of Some e \<Rightarrow> Inl e | None \<Rightarrow> Inl ErrSSRF)"
| "dial_loop allowed (ip # ips) lastErr =
     (case checkIP ip allowed of Some e \<Rightarrow> dial_loop allowed ips (Some e) | None \<Rightarrow> Inr ip)"

definition dialContext :: "net_env \<Rightarrow> Guard \<Rightarrow> (string \<Rightarrow> ip list option) \<Rightarrow> string \<Rightarrow> guard_error + ip" where
  "dialContext N g lookup host =
     (case ne_ParseIP N host of
        Some ip \<Rightarrow> (case checkIP ip (ipAllowed N g ip) of Some e \<Rightarrow> Inl e | None \<Rightarrow> Inr ip)
      | None \<Rightarrow>
          (case lookup host of
             None \<Rightarrow> Inl ErrLookup
           | Some ips \<Rightarrow> dial_loop (hostAllowed N g host) ips None))"

text \<open>Bodies: a reader that ends after one byte more than the limit, and a body that may not exceed it.\<close>

definition limitedBody :: "string \<Rightarrow> int \<Rightarrow> string" where
  "limitedBody body m = take (nat (m + 1)) body"

definition readLimited :: "string \<Rightarrow> int \<Rightarrow> guard_error + string" where
  "readLimited body m =
     (if m \<le> 0 then Inl ErrLimit
      else
        (let data = take (nat (m + 1)) body
         in if m < int (length data) then Inl ErrResponseTooLarge else Inr data))"

subsection \<open>Lemmas\<close>

text \<open>The masks of the classification, on all bytes.\<close>

lemma byte_masks_checked:
  "list_all (\<lambda>k. let b = (word_of_nat k :: 8 word) in
     (b AND 0xF0 = 16) = (16 \<le> k \<and> k \<le> 31) \<and> (b AND 0xF0 = 0xE0) = (224 \<le> k \<and> k \<le> 239) \<and>
     (b AND 0xFE = 0xFC) = (252 \<le> k \<and> k \<le> 253) \<and> (b AND 0xC0 = 0x80) = (128 \<le> k \<and> k \<le> 191)) [0 ..< 256]"
  by code_simp

lemma byte_masks:
  fixes b :: "8 word"
  shows "b AND 0xF0 = 16 \<longleftrightarrow> 16 \<le> unat b \<and> unat b \<le> 31" "b AND 0xF0 = 0xE0 \<longleftrightarrow> 224 \<le> unat b \<and> unat b \<le> 239"
    "b AND 0xFE = 0xFC \<longleftrightarrow> 252 \<le> unat b \<and> unat b \<le> 253" "b AND 0xC0 = 0x80 \<longleftrightarrow> 128 \<le> unat b \<and> unat b \<le> 191"
proof -
  have "unat b < 2 ^ LENGTH(8)" by (rule unsigned_less)
  then have "unat b < 256" by simp
  then have "unat b \<in> set [0 ..< 256]" by simp
  from bspec [OF byte_masks_checked [unfolded list_all_iff] this] show "b AND 0xF0 = 16 \<longleftrightarrow> 16 \<le> unat b \<and> unat b \<le> 31"
    "b AND 0xF0 = 0xE0 \<longleftrightarrow> 224 \<le> unat b \<and> unat b \<le> 239"
    "b AND 0xFE = 0xFC \<longleftrightarrow> 252 \<le> unat b \<and> unat b \<le> 253" "b AND 0xC0 = 0x80 \<longleftrightarrow> 128 \<le> unat b \<and> unat b \<le> 191"
    by (simp_all add: Let_def)
qed

text \<open>
  The addresses a server on the inside could be reached at: this network, loopback, private, link-local
  and multicast ranges, in their decimal notation.
\<close>

definition reserved :: "ip \<Rightarrow> bool" where
  "reserved ip =
     (case To4 ip of
        Some a \<Rightarrow>
          (let x = unat (a ! 0); y = unat (a ! 1)
           in x = 0 \<or> x = 10 \<or> x = 127 \<or> (x = 169 \<and> y = 254) \<or> (x = 172 \<and> 16 \<le> y \<and> y \<le> 31) \<or> (x = 192 \<and> y = 168) \<or>
              (224 \<le> x \<and> x \<le> 239))
      | None \<Rightarrow>
          ip = [] \<or>
          length ip = 16 \<and>
            (ip = replicate 16 0 \<or> ip = replicate 15 0 @ [1] \<or> unat (ip ! 0) \<in> {252, 253, 255} \<or>
             (unat (ip ! 0) = 254 \<and> 128 \<le> unat (ip ! 1) \<and> unat (ip ! 1) \<le> 191)))"

lemma length_To4: "To4 ip = Some a \<Longrightarrow> length a = 4"
  by (auto simp: To4_def split: if_splits)

lemma list4: "length a = 4 \<Longrightarrow> \<exists>w x y z. a = [w, x, y, z]"
  by (auto simp: eval_nat_numeral length_Suc_conv)

lemma ip_Equal_4: "To4 ip = Some a \<Longrightarrow> \<not> ip_Equal ip IPv6unspecified \<and> (ip_Equal ip IPv4zero \<longleftrightarrow> a = replicate 4 0)"
proof -
  assume t: "To4 ip = Some a"
  then consider "length ip = 4" "a = ip" | "length ip = 16" "take 10 ip = replicate 10 0" "ip ! 10 = 0xFF" "ip ! 11 = 0xFF" "a = drop 12 ip"
    by (auto simp: To4_def split: if_splits)
  then show ?thesis
  proof cases
    case 1
    have "take 12 IPv6unspecified \<noteq> replicate 10 0 @ [0xFF, 0xFF]" "take 12 IPv4zero = replicate 10 0 @ [0xFF, 0xFF]"
      "drop 12 IPv4zero = replicate 4 0" "length IPv6unspecified = 16" "length IPv4zero = 16" by code_simp+
    then show ?thesis using 1 by (simp add: ip_Equal_def)
  next
    case 2
    have "take 12 ip = take 10 ip @ [ip ! 10, ip ! 11]"
      using 2(1) by (simp add: take_Suc_conv_app_nth numeral_eq_Suc)
    then have ip: "ip = (replicate 10 0 @ [0xFF, 0xFF]) @ a" using 2 append_take_drop_id [of 12 ip] by simp
    have z: "IPv4zero = (replicate 10 0 @ [0xFF, 0xFF]) @ replicate 4 0" by (simp add: IPv4zero_def)
    have "IPv6unspecified ! 10 = 0" "length IPv6unspecified = 16" "length IPv4zero = 16" by code_simp+
    then have "ip \<noteq> IPv6unspecified" using 2(3) by auto
    moreover have "ip = IPv4zero \<longleftrightarrow> a = replicate 4 0" unfolding ip z by (rule same_append_eq)
    ultimately show ?thesis
      using 2(1) \<open>length IPv6unspecified = 16\<close> \<open>length IPv4zero = 16\<close> by (simp add: ip_Equal_def)
  qed
qed

lemma and_FF [simp]: "(w :: 8 word) AND 0xFF = w"
proof -
  have "(0xFF :: 8 word) = - 1" by simp
  then show ?thesis by (simp only: and.right_neutral)
qed

lemma blockedNets_eq:
  "blockedNets =
     [([0, 0, 0, 0], [0xFF, 0, 0, 0]), ([127, 0, 0, 0], [0xFF, 0, 0, 0]), ([10, 0, 0, 0], [0xFF, 0, 0, 0]),
      ([172, 16, 0, 0], [0xFF, 0xF0, 0, 0]), ([192, 168, 0, 0], [0xFF, 0xFF, 0, 0]), ([169, 254, 0, 0], [0xFF, 0xFF, 0, 0]),
      (replicate 15 0 @ [1], replicate 16 0xFF), (0xFC # replicate 15 0, 0xFE # replicate 15 0),
      (0xFE # 0x80 # replicate 14 0, 0xFF # 0xC0 # replicate 14 0)]"
  by code_simp

lemma checkIP_disj:
  "checkIP ip False \<noteq> None \<longleftrightarrow> ip = [] \<or> IsUnspecified ip \<or> IsLoopback ip \<or> IsMulticast ip \<or> IsLinkLocalUnicast ip \<or>
     IsLinkLocalMulticast ip \<or> IsPrivate ip \<or> list_ex (\<lambda>block. net_Contains block ip) blockedNets"
  by (simp add: checkIP_def)

lemma checkIP_reserved: "checkIP ip False \<noteq> None \<longleftrightarrow> reserved ip"
proof (cases "To4 ip")
  case (Some a)
  obtain w x y z where a: "a = [w, x, y, z]" using list4 [OF length_To4 [OF Some]] by blast
  have ne: "ip \<noteq> []" using Some by (auto simp: To4_def)
  have z: "replicate 4 (0 :: 8 word) = [0, 0, 0, 0]" by (simp add: eval_nat_numeral)
  have u: "IsUnspecified ip \<longleftrightarrow> w = 0 \<and> x = 0 \<and> y = 0 \<and> z = 0" using ip_Equal_4 [OF Some] by (simp add: IsUnspecified_def a z)
  have nets: "list_ex (\<lambda>block. net_Contains block ip) blockedNets \<longleftrightarrow>
      w = 0 \<or> w = 127 \<or> w = 10 \<or> (w = 172 \<and> x AND 0xF0 = 16) \<or> (w = 192 \<and> x = 168) \<or> (w = 169 \<and> x = 254)"
    unfolding blockedNets_eq by (auto simp: net_Contains_def Some a)
  have n: "w = 0 \<longleftrightarrow> unat w = 0" "x = 0 \<longleftrightarrow> unat x = 0" "w = 127 \<longleftrightarrow> unat w = 127" "w = 10 \<longleftrightarrow> unat w = 10" "w = 172 \<longleftrightarrow> unat w = 172"
    "w = 192 \<longleftrightarrow> unat w = 192" "x = 168 \<longleftrightarrow> unat x = 168" "w = 169 \<longleftrightarrow> unat w = 169" "x = 254 \<longleftrightarrow> unat x = 254" "w = 224 \<longleftrightarrow> unat w = 224"
    by (simp_all add: word_unat_eq_iff)
  have c: "IsLoopback ip \<longleftrightarrow> unat w = 127" "IsMulticast ip \<longleftrightarrow> 224 \<le> unat w \<and> unat w \<le> 239"
    "IsLinkLocalUnicast ip \<longleftrightarrow> unat w = 169 \<and> unat x = 254" "IsLinkLocalMulticast ip \<longrightarrow> unat w = 224"
    "IsPrivate ip \<longleftrightarrow> unat w = 10 \<or> (unat w = 172 \<and> 16 \<le> unat x \<and> unat x \<le> 31) \<or> (unat w = 192 \<and> unat x = 168)"
    by (simp_all add: IsLoopback_def IsMulticast_def IsLinkLocalUnicast_def IsLinkLocalMulticast_def IsPrivate_def Some a byte_masks n)
  have m4: "IsLinkLocalMulticast ip \<longrightarrow> 224 \<le> unat w \<and> unat w \<le> 239" using c(4) by auto
  have "checkIP ip False \<noteq> None \<longleftrightarrow> unat w = 0 \<or> unat w = 127 \<or> (224 \<le> unat w \<and> unat w \<le> 239) \<or> unat w = 10 \<or>
      (unat w = 172 \<and> 16 \<le> unat x \<and> unat x \<le> 31) \<or> (unat w = 192 \<and> unat x = 168) \<or> (unat w = 169 \<and> unat x = 254)"
    unfolding checkIP_disj nets byte_masks n u c(1,2,3,5) using ne m4 by (simp only: simp_thms) blast
  then show ?thesis unfolding reserved_def Some option.case Let_def a nth_Cons_0 nth_Cons_Suc One_nat_def by blast
next
  case None
  have l4: "length ip \<noteq> 4" using None by (auto simp: To4_def)
  have len: "length IPv6unspecified = 16" "length IPv4zero = 16" "length IPv6loopback = 16" "To4 IPv4zero \<noteq> None" by code_simp+
  have eq: "ip_Equal ip x \<longleftrightarrow> ip = x" if "length x = 16" for x using l4 that by (auto simp: ip_Equal_def)
  have u: "IsUnspecified ip \<longleftrightarrow> ip = replicate 16 0"
    using None len by (auto simp: IsUnspecified_def eq IPv6unspecified_def)
  show ?thesis
  proof (cases "length ip = 16")
    case False
    then have "\<not> IsUnspecified ip" by (auto simp: u)
    moreover have "\<not> net_Contains n ip" if "n \<in> set blockedNets" for n
      using that False l4 unfolding blockedNets_eq by (auto simp: net_Contains_def None)
    moreover have "\<not> ip_Equal ip IPv6loopback" using False len by (auto simp: eq)
    ultimately show ?thesis
      using False by (simp add: checkIP_def reserved_def None list_ex_iff IsLoopback_def IsMulticast_def IsLinkLocalUnicast_def
        IsLinkLocalMulticast_def IsPrivate_def)
  next
    case True
    then obtain b c r where ip: "ip = b # c # r" "length r = 14" by (auto simp: numeral_eq_Suc length_Suc_conv)
    have zeros: "length xs = n \<Longrightarrow> map2 (AND) xs (replicate n 0) = replicate n 0" for xs :: ip and n
      by (induction xs arbitrary: n) auto
    have ones: "length xs = n \<Longrightarrow> map2 (AND) xs (replicate n 0xFF) = xs" for xs :: ip and n
      by (induction xs arbitrary: n) auto
    have loop: "map2 (AND) (replicate 15 0 @ [1]) (replicate 16 0xFF) = replicate 15 0 @ [1 :: 8 word]" by (rule ones) simp
    have z14: "map2 (AND) (replicate 14 0) (replicate 14 0) = replicate 14 (0 :: 8 word)" by (rule zeros) simp
    have s: "replicate 15 (0 :: 8 word) = 0 # replicate 14 0" by (simp add: numeral_eq_Suc)
    have nets: "list_ex (\<lambda>block. net_Contains block ip) blockedNets \<longleftrightarrow>
        ip = replicate 15 0 @ [1] \<or> b AND 0xFE = 0xFC \<or> (b = 0xFE \<and> c AND 0xC0 = 0x80)"
    proof -
      have "net_Contains (replicate 15 0 @ [1], replicate 16 0xFF) ip \<longleftrightarrow> ip = replicate 15 0 @ [1]"
        using True loop ones [OF True] by (auto simp: net_Contains_def None)
      moreover have "net_Contains (0xFC # replicate 15 0, 0xFE # replicate 15 0) ip \<longleftrightarrow> b AND 0xFE = 0xFC"
        using zeros [OF ip(2)] z14 by (auto simp: net_Contains_def None [unfolded ip(1)] Let_def ip s)
      moreover have "net_Contains (0xFE # 0x80 # replicate 14 0, 0xFF # 0xC0 # replicate 14 0) ip \<longleftrightarrow> b = 0xFE \<and> c AND 0xC0 = 0x80"
        using zeros [OF ip(2)] z14 by (auto simp: net_Contains_def None [unfolded ip(1)] Let_def ip)
      moreover have "\<not> net_Contains (x, m) ip" if "length x = 4" for x m using that True by (auto simp: net_Contains_def None)
      ultimately show ?thesis unfolding blockedNets_eq by simp
    qed
    have n: "b = 0xFE \<longleftrightarrow> unat b = 254" "b = 0xFF \<longleftrightarrow> unat b = 255" by (simp_all add: word_unat_eq_iff)
    have h: "ip ! 0 = b" "ip ! 1 = c" "ip ! Suc 0 = c" by (simp_all add: ip(1))
    have c: "IsLoopback ip \<longleftrightarrow> ip = replicate 15 0 @ [1]" "IsMulticast ip \<longleftrightarrow> unat b = 255"
      "IsLinkLocalUnicast ip \<longleftrightarrow> unat b = 254 \<and> 128 \<le> unat c \<and> unat c \<le> 191" "IsLinkLocalMulticast ip \<longrightarrow> unat b = 255"
      "IsPrivate ip \<longleftrightarrow> 252 \<le> unat b \<and> unat b \<le> 253"
      using True len(3) by (simp_all add: IsLoopback_def IsMulticast_def IsLinkLocalUnicast_def IsLinkLocalMulticast_def IsPrivate_def None
        eq IPv6loopback_def byte_masks h n)
    have "checkIP ip False \<noteq> None \<longleftrightarrow> ip = replicate 16 0 \<or> ip = replicate 15 0 @ [1] \<or> unat b = 255 \<or> (252 \<le> unat b \<and> unat b \<le> 253) \<or>
        (unat b = 254 \<and> 128 \<le> unat c \<and> unat c \<le> 191)"
      unfolding checkIP_disj nets byte_masks n u c(1,2,3,5) using ip(1) c(4) by blast
    moreover have "ip \<noteq> []" using True by auto
    moreover have "unat b \<in> {252, 253, 255} \<longleftrightarrow> unat b = 255 \<or> (252 \<le> unat b \<and> unat b \<le> 253)" by auto
    ultimately show ?thesis unfolding reserved_def None option.case h using True by blast
  qed
qed

text \<open>
  The server connects only to addresses it may talk to. Whatever the resolver answers at the moment
  of the connection, and however it answered when the address was checked, the address dialled is outside
  the reserved ranges unless the name, or the written address, is on the allowlist; it is one the resolver
  gave for this host; and a request is turned away when all addresses are reserved, when the scheme is not
  one of the web, or after the permitted number of redirects. What is read of an answer has at most the
  permitted length, and a longer one is refused and not cut.
\<close>

lemma dial_loop_ok:
  "(\<exists>ip. dial_loop al ips e = Inr ip) \<longleftrightarrow> (\<exists>ip \<in> set ips. checkIP ip al = None)"
  "dial_loop al ips e = Inr ip \<Longrightarrow> ip \<in> set ips \<and> checkIP ip al = None"
  by (induction ips arbitrary: e) (auto split: option.splits)

lemma checkIP_None: "checkIP ip al = None \<longleftrightarrow> al \<or> \<not> reserved ip"
  using checkIP_reserved [of ip] by (cases al) (auto simp: checkIP_def)

lemma ValidateURL_dials:
  assumes "ValidateURL N g lookup (Some u) = None"
  shows "ToLower (ne_U N) (url_Scheme u) \<in> {''http'', ''https''}" "url_Hostname u \<noteq> []"
    "\<exists>ip. dialContext N g lookup (url_Hostname u) = Inr ip"
proof -
  show "ToLower (ne_U N) (url_Scheme u) \<in> {''http'', ''https''}" "url_Hostname u \<noteq> []"
    using assms by (auto simp: ValidateURL_def Let_def split: if_splits)
  have v: "(case ne_ParseIP N (url_Hostname u) of Some ip \<Rightarrow> checkIP ip (ipAllowed N g ip) | None \<Rightarrow>
      (case lookup (url_Hostname u) of None \<Rightarrow> Some ErrLookup
       | Some ips \<Rightarrow> if length ips = 0 then Some ErrNoAddresses
           else if list_ex (\<lambda>ip. checkIP ip (hostAllowed N g (url_Hostname u)) = None) ips then None else Some ErrSSRF)) = None"
    using assms by (auto simp: ValidateURL_def Let_def split: if_splits)
  then show "\<exists>ip. dialContext N g lookup (url_Hostname u) = Inr ip"
    by (auto simp: dialContext_def list_ex_iff dial_loop_ok(1) split: option.splits if_splits)
qed


definition demo_net :: net_env where
  "demo_net = \<lparr>ne_U = ascii_unicode, ne_ParseIP = (\<lambda>_. None), ne_String = (\<lambda>_. [])\<rparr>"

definition demo_guard :: Guard where
  "demo_guard = NewGuard demo_net \<lparr>gc_Allowlist = [], gc_ConnectTimeout = 0, gc_RequestTimeout = 0, gc_MaxResponseBytes = 0,
     gc_MaxRedirects = 0, gc_InsecureSkipVerify = False\<rparr>"


end
