(* ===== verification/ServerConfig.thy ===== *)
theory ServerConfig
  imports FilesPath DavGuard SessionCache ModelCalendar "HOL-Library.Signed_Division"
begin

text \<open>
  The server's settings, \<open>internal/config/config.go\<close>: defaults, \<open>config.json\<close>, the environment and the
  checks, and the way the settings reach the session cache and the guard (\<open>cmd/carrel/main.go\<close>). A JSON
  text is decoded by an argument of the model; of a float64 number of seconds the code asks only whether it
  is \<open>\<le> 0\<close> and the \<open>time.Duration\<close> it converts to, so those two are what \<open>strconv.ParseFloat\<close> yields here.
\<close>

subsection \<open>Settings\<close>

record DAVSettings =
  dv_SSRFAllowlist :: "string list"
  dv_ConnectTimeout :: duration
  dv_RequestTimeout :: duration
  dv_MaxResponseBytes :: int
  dv_MaxRedirects :: int

record CacheSettings =
  ca_CollectionTTLSeconds :: int
  ca_MaxCollections :: int
  ca_MaxETagEntries :: int
  ca_MaxBodyBytes :: int
  ca_MaxProcessBytes :: int
  ca_MaxThumbBytes :: int
  ca_MaxThumbEntries :: int

record PhotoSettings =
  ph_MaxSide :: int
  ph_JPEGQuality :: int
  ph_MaxPixels :: int
  ph_ThumbSide :: int
  ph_MaxUploadBytes :: int

record ImportSettings =
  im_MaxBytes :: int
  im_MaxCards :: int

record FilesSettings =
  fi_MaxUploadBytes :: int
  fi_MaxEntries :: int

record ProgressSettings =
  pr_Mode :: string
  pr_PollMillis :: int
  pr_SourceTimeout :: duration
  pr_TotalTimeout :: duration

record Config =
  cf_Port :: int
  cf_Bind :: string
  cf_DataDir :: string
  cf_TrustedProxies :: "string list"
  cf_BasePath :: string
  cf_PublicURL :: string
  cf_LogLevel :: string
  cf_DAV :: DAVSettings
  cf_Cache :: CacheSettings
  cf_Photo :: PhotoSettings
  cf_Import :: ImportSettings
  cf_Files :: FilesSettings
  cf_Progress :: ProgressSettings
  cf_Threshold :: int

text \<open>\<open>fileConfig\<close>: what \<open>config.json\<close> decodes to; a key that is absent or null is a nil pointer or slice.\<close>

record fileConfig =
  ff_Port :: "int option"
  ff_Bind :: "string option"
  ff_DataDir :: "string option"
  ff_TrustedProxies :: "string list option"
  ff_BasePath :: "string option"
  ff_PublicURL :: "string option"
  ff_LogLevel :: "string option"
  ff_DAV :: "DAVSettings option"
  ff_Cache :: "CacheSettings option"
  ff_Photo :: "PhotoSettings option"
  ff_Import :: "ImportSettings option"
  ff_Files :: "FilesSettings option"
  ff_Progress :: "ProgressSettings option"
  ff_Threshold :: "int option"

record float_seconds =
  fs_nonpositive :: bool
  fs_nanos :: duration

datatype read_result = Contents string | NotExist | ReadFails

record config_env =
  ce_U :: unicode
  ce_LookupEnv :: "string \<Rightarrow> string option"
  ce_ParseFloat :: "string \<Rightarrow> float_seconds option"
  ce_ParseIP :: "string \<Rightarrow> ip option"
  ce_ParseCIDR :: "string \<Rightarrow> ipnet option"
  ce_url_Parse :: "string \<Rightarrow> (string \<times> string) option"
  ce_Unmarshal :: "string \<Rightarrow> fileConfig option"
  ce_MarshalIndent :: "Config \<Rightarrow> string option"

datatype config_error =
    ErrParseFile string | ErrReadFile string
  | ErrInteger string string | ErrDuration string string | ErrDurationPositive string string
  | ErrPort int | ErrBindPort string | ErrBindIP string | ErrDataDir
  | ErrBasePathStart string | ErrBasePathEnd string
  | ErrPublicURLParse | ErrPublicURLScheme | ErrPublicURLHost | ErrLogLevel string
  | ErrProxyCIDR string | ErrProxyIP string
  | ErrMustBePositive string | ErrMustNotBeNegative string | ErrJPEGQuality
  | ErrProgressMode string | ErrPollInterval | ErrTotalTimeout
  | ErrSetenv | ErrMarshal | ErrWriteFile | ErrRename

definition Getenv :: "config_env \<Rightarrow> string \<Rightarrow> string" where
  "Getenv E k = (case ce_LookupEnv E k of Some v \<Rightarrow> v | None \<Rightarrow> [])"

definition defaults :: Config where
  "defaults =
     \<lparr>cf_Port = 8080, cf_Bind = [], cf_DataDir = ''/var/lib/carrel'', cf_TrustedProxies = [], cf_BasePath = [],
      cf_PublicURL = [], cf_LogLevel = ''info'',
      cf_DAV = \<lparr>dv_SSRFAllowlist = [], dv_ConnectTimeout = 10 * second, dv_RequestTimeout = 30 * second,
                dv_MaxResponseBytes = 10485760, dv_MaxRedirects = 5\<rparr>,
      cf_Cache = \<lparr>ca_CollectionTTLSeconds = 60, ca_MaxCollections = 256, ca_MaxETagEntries = 4096,
                  ca_MaxBodyBytes = 67108864, ca_MaxProcessBytes = 268435456, ca_MaxThumbBytes = 16777216,
                  ca_MaxThumbEntries = 512\<rparr>,
      cf_Photo = \<lparr>ph_MaxSide = 512, ph_JPEGQuality = 85, ph_MaxPixels = 100000000, ph_ThumbSide = 96,
                  ph_MaxUploadBytes = 0\<rparr>,
      cf_Import = \<lparr>im_MaxBytes = 16777216, im_MaxCards = 5000\<rparr>,
      cf_Files = \<lparr>fi_MaxUploadBytes = 268435456, fi_MaxEntries = 2000\<rparr>,
      cf_Progress = \<lparr>pr_Mode = ''sse'', pr_PollMillis = 700, pr_SourceTimeout = 10 * second,
                     pr_TotalTimeout = 30 * second\<rparr>,
      cf_Threshold = 60\<rparr>"

definition fillUnsetCeilings :: "CacheSettings \<Rightarrow> CacheSettings" where
  "fillUnsetCeilings c =
     (let c = (if ca_MaxBodyBytes c \<le> 0 then c\<lparr>ca_MaxBodyBytes := 67108864\<rparr> else c);
          c = (if ca_MaxProcessBytes c \<le> 0 then c\<lparr>ca_MaxProcessBytes := 268435456\<rparr> else c)
      in c)"

definition applyFile :: "config_env \<Rightarrow> Config \<Rightarrow> string \<Rightarrow> Config option" where
  "applyFile E cfg raw =
     (case ce_Unmarshal E raw of
        None \<Rightarrow> None
      | Some fc \<Rightarrow> Some
          (let cfg = (case ff_Port fc of Some v \<Rightarrow> cfg\<lparr>cf_Port := v\<rparr> | None \<Rightarrow> cfg);
               cfg = (case ff_Bind fc of Some v \<Rightarrow> cfg\<lparr>cf_Bind := v\<rparr> | None \<Rightarrow> cfg);
               cfg = (case ff_DataDir fc of Some v \<Rightarrow> cfg\<lparr>cf_DataDir := v\<rparr> | None \<Rightarrow> cfg);
               cfg = (case ff_TrustedProxies fc of Some v \<Rightarrow> cfg\<lparr>cf_TrustedProxies := v\<rparr> | None \<Rightarrow> cfg);
               cfg = (case ff_BasePath fc of Some v \<Rightarrow> cfg\<lparr>cf_BasePath := v\<rparr> | None \<Rightarrow> cfg);
               cfg = (case ff_PublicURL fc of Some v \<Rightarrow> cfg\<lparr>cf_PublicURL := TrimSpace v\<rparr> | None \<Rightarrow> cfg);
               cfg = (case ff_LogLevel fc of Some v \<Rightarrow> cfg\<lparr>cf_LogLevel := v\<rparr> | None \<Rightarrow> cfg);
               cfg = (case ff_DAV fc of Some v \<Rightarrow> cfg\<lparr>cf_DAV := v\<rparr> | None \<Rightarrow> cfg);
               cfg = (case ff_Cache fc of Some v \<Rightarrow> cfg\<lparr>cf_Cache := fillUnsetCeilings v\<rparr> | None \<Rightarrow> cfg);
               cfg = (case ff_Photo fc of Some v \<Rightarrow> cfg\<lparr>cf_Photo := v\<rparr> | None \<Rightarrow> cfg);
               cfg = (case ff_Import fc of Some v \<Rightarrow> cfg\<lparr>cf_Import := v\<rparr> | None \<Rightarrow> cfg);
               cfg = (case ff_Files fc of Some v \<Rightarrow> cfg\<lparr>cf_Files := v\<rparr> | None \<Rightarrow> cfg);
               cfg = (case ff_Progress fc of Some v \<Rightarrow> cfg\<lparr>cf_Progress := v\<rparr> | None \<Rightarrow> cfg);
               cfg = (case ff_Threshold fc of Some v \<Rightarrow> cfg\<lparr>cf_Threshold := v\<rparr> | None \<Rightarrow> cfg)
           in cfg))"

subsection \<open>The environment\<close>

definition parseList :: "string \<Rightarrow> string list" where
  "parseList s =
     (if TrimSpace s = [] then []
      else filter (\<lambda>p. p \<noteq> []) (map TrimSpace (Split_byte CHR '','' s)))"

definition parseDurationSeconds :: "config_env \<Rightarrow> string \<Rightarrow> string \<Rightarrow> config_error + duration" where
  "parseDurationSeconds E k s =
     (case ce_ParseFloat E (TrimSpace s) of
        None \<Rightarrow> Inl (ErrDuration k s)
      | Some sec \<Rightarrow> if fs_nonpositive sec then Inl (ErrDurationPositive k s) else Inr (fs_nanos sec))"

text \<open>
  The four blocks \<open>applyEnv\<close> is made of: a text, a list, an integer and a number of seconds. Each leaves the
  settings alone when its variable is unset or blank, and the ones that parse end the function on an error.
\<close>

type_synonym config_step = "Config \<Rightarrow> config_error + Config"

definition env_text :: "config_env \<Rightarrow> string \<Rightarrow> (string \<Rightarrow> Config \<Rightarrow> Config) \<Rightarrow> config_step" where
  "env_text E k upd cfg = (let v = TrimSpace (Getenv E k) in Inr (if v \<noteq> [] then upd v cfg else cfg))"

definition env_list :: "config_env \<Rightarrow> string \<Rightarrow> (string list \<Rightarrow> Config \<Rightarrow> Config) \<Rightarrow> config_step" where
  "env_list E k upd cfg =
     (case ce_LookupEnv E k of
        Some v \<Rightarrow> Inr (if TrimSpace v \<noteq> [] then upd (parseList v) cfg else cfg)
      | None \<Rightarrow> Inr cfg)"

definition env_int :: "config_env \<Rightarrow> string \<Rightarrow> (int \<Rightarrow> Config \<Rightarrow> Config) \<Rightarrow> config_step" where
  "env_int E k upd cfg =
     (let v = TrimSpace (Getenv E k)
      in if v = [] then Inr cfg
         else (case ParseInt v of None \<Rightarrow> Inl (ErrInteger k v) | Some n \<Rightarrow> Inr (upd n cfg)))"

definition env_seconds :: "config_env \<Rightarrow> string \<Rightarrow> (duration \<Rightarrow> Config \<Rightarrow> Config) \<Rightarrow> config_step" where
  "env_seconds E k upd cfg =
     (let v = TrimSpace (Getenv E k)
      in if v = [] then Inr cfg
         else (case parseDurationSeconds E k v of Inl e \<Rightarrow> Inl e | Inr d \<Rightarrow> Inr (upd d cfg)))"

primrec in_turn :: "config_step list \<Rightarrow> config_step" where
  "in_turn [] cfg = Inr cfg"
| "in_turn (f # fs) cfg = (case f cfg of Inl e \<Rightarrow> Inl e | Inr cfg' \<Rightarrow> in_turn fs cfg')"

abbreviation set_DAV :: "(DAVSettings \<Rightarrow> DAVSettings) \<Rightarrow> Config \<Rightarrow> Config" where
  "set_DAV f c \<equiv> c\<lparr>cf_DAV := f (cf_DAV c)\<rparr>"
abbreviation set_Cache :: "(CacheSettings \<Rightarrow> CacheSettings) \<Rightarrow> Config \<Rightarrow> Config" where
  "set_Cache f c \<equiv> c\<lparr>cf_Cache := f (cf_Cache c)\<rparr>"
abbreviation set_Photo :: "(PhotoSettings \<Rightarrow> PhotoSettings) \<Rightarrow> Config \<Rightarrow> Config" where
  "set_Photo f c \<equiv> c\<lparr>cf_Photo := f (cf_Photo c)\<rparr>"
abbreviation set_Import :: "(ImportSettings \<Rightarrow> ImportSettings) \<Rightarrow> Config \<Rightarrow> Config" where
  "set_Import f c \<equiv> c\<lparr>cf_Import := f (cf_Import c)\<rparr>"
abbreviation set_Files :: "(FilesSettings \<Rightarrow> FilesSettings) \<Rightarrow> Config \<Rightarrow> Config" where
  "set_Files f c \<equiv> c\<lparr>cf_Files := f (cf_Files c)\<rparr>"
abbreviation set_Progress :: "(ProgressSettings \<Rightarrow> ProgressSettings) \<Rightarrow> Config \<Rightarrow> Config" where
  "set_Progress f c \<equiv> c\<lparr>cf_Progress := f (cf_Progress c)\<rparr>"

definition env_server :: "config_env \<Rightarrow> config_step list" where
  "env_server E =
     [env_int E ''CARREL_PORT'' (\<lambda>v c. c\<lparr>cf_Port := v\<rparr>),
      env_text E ''CARREL_BIND'' (\<lambda>v c. c\<lparr>cf_Bind := v\<rparr>),
      env_text E ''CARREL_DATA_DIR'' (\<lambda>v c. c\<lparr>cf_DataDir := v\<rparr>),
      env_list E ''CARREL_TRUSTED_PROXIES'' (\<lambda>v c. c\<lparr>cf_TrustedProxies := v\<rparr>),
      env_text E ''CARREL_BASE_PATH'' (\<lambda>v c. c\<lparr>cf_BasePath := v\<rparr>),
      env_text E ''CARREL_PUBLIC_URL'' (\<lambda>v c. c\<lparr>cf_PublicURL := v\<rparr>),
      env_text E ''CARREL_LOG_LEVEL'' (\<lambda>v c. c\<lparr>cf_LogLevel := ToLower (ce_U E) v\<rparr>)]"

definition env_dav :: "config_env \<Rightarrow> config_step list" where
  "env_dav E =
     [env_list E ''CARREL_DAV_SSRF_ALLOWLIST'' (\<lambda>v. set_DAV (dv_SSRFAllowlist_update (\<lambda>_. v))),
      env_seconds E ''CARREL_DAV_CONNECT_TIMEOUT'' (\<lambda>v. set_DAV (dv_ConnectTimeout_update (\<lambda>_. v))),
      env_seconds E ''CARREL_DAV_REQUEST_TIMEOUT'' (\<lambda>v. set_DAV (dv_RequestTimeout_update (\<lambda>_. v))),
      env_int E ''CARREL_DAV_MAX_RESPONSE_BYTES'' (\<lambda>v. set_DAV (dv_MaxResponseBytes_update (\<lambda>_. v))),
      env_int E ''CARREL_DAV_MAX_REDIRECTS'' (\<lambda>v. set_DAV (dv_MaxRedirects_update (\<lambda>_. v)))]"

definition env_cache :: "config_env \<Rightarrow> config_step list" where
  "env_cache E =
     [env_seconds E ''CARREL_CACHE_COLLECTION_TTL''
        (\<lambda>v. set_Cache (ca_CollectionTTLSeconds_update (\<lambda>_. v sdiv second))),
      env_int E ''CARREL_CACHE_MAX_COLLECTIONS'' (\<lambda>v. set_Cache (ca_MaxCollections_update (\<lambda>_. v))),
      env_int E ''CARREL_CACHE_MAX_ETAG_ENTRIES'' (\<lambda>v. set_Cache (ca_MaxETagEntries_update (\<lambda>_. v))),
      env_int E ''CARREL_CACHE_MAX_BODY_BYTES'' (\<lambda>v. set_Cache (ca_MaxBodyBytes_update (\<lambda>_. v))),
      env_int E ''CARREL_CACHE_MAX_PROCESS_BYTES'' (\<lambda>v. set_Cache (ca_MaxProcessBytes_update (\<lambda>_. v))),
      env_int E ''CARREL_CACHE_MAX_THUMB_BYTES'' (\<lambda>v. set_Cache (ca_MaxThumbBytes_update (\<lambda>_. v))),
      env_int E ''CARREL_CACHE_MAX_THUMB_ENTRIES'' (\<lambda>v. set_Cache (ca_MaxThumbEntries_update (\<lambda>_. v)))]"

definition env_contents :: "config_env \<Rightarrow> config_step list" where
  "env_contents E =
     [env_int E ''CARREL_PHOTO_MAX_SIDE'' (\<lambda>v. set_Photo (ph_MaxSide_update (\<lambda>_. v))),
      env_int E ''CARREL_PHOTO_JPEG_QUALITY'' (\<lambda>v. set_Photo (ph_JPEGQuality_update (\<lambda>_. v))),
      env_int E ''CARREL_PHOTO_MAX_PIXELS'' (\<lambda>v. set_Photo (ph_MaxPixels_update (\<lambda>_. v))),
      env_int E ''CARREL_PHOTO_THUMB_SIDE'' (\<lambda>v. set_Photo (ph_ThumbSide_update (\<lambda>_. v))),
      env_int E ''CARREL_PHOTO_MAX_UPLOAD_BYTES'' (\<lambda>v. set_Photo (ph_MaxUploadBytes_update (\<lambda>_. v))),
      env_int E ''CARREL_IMPORT_MAX_BYTES'' (\<lambda>v. set_Import (im_MaxBytes_update (\<lambda>_. v))),
      env_int E ''CARREL_IMPORT_MAX_CARDS'' (\<lambda>v. set_Import (im_MaxCards_update (\<lambda>_. v))),
      env_int E ''CARREL_FILES_MAX_UPLOAD_BYTES'' (\<lambda>v. set_Files (fi_MaxUploadBytes_update (\<lambda>_. v))),
      env_int E ''CARREL_FILES_MAX_ENTRIES'' (\<lambda>v. set_Files (fi_MaxEntries_update (\<lambda>_. v)))]"

definition env_progress :: "config_env \<Rightarrow> config_step list" where
  "env_progress E =
     [env_text E ''CARREL_PROGRESS_MODE'' (\<lambda>v. set_Progress (pr_Mode_update (\<lambda>_. ToLower (ce_U E) v))),
      env_int E ''CARREL_PROGRESS_POLL_MILLIS'' (\<lambda>v. set_Progress (pr_PollMillis_update (\<lambda>_. v))),
      env_seconds E ''CARREL_PROGRESS_SOURCE_TIMEOUT'' (\<lambda>v. set_Progress (pr_SourceTimeout_update (\<lambda>_. v))),
      env_seconds E ''CARREL_PROGRESS_TOTAL_TIMEOUT'' (\<lambda>v. set_Progress (pr_TotalTimeout_update (\<lambda>_. v))),
      env_int E ''CARREL_DUPLICATES_THRESHOLD'' (\<lambda>v c. c\<lparr>cf_Threshold := v\<rparr>)]"

definition applyEnv :: "config_env \<Rightarrow> Config \<Rightarrow> config_error + Config" where
  "applyEnv E cfg = in_turn (env_server E @ env_dav E @ env_cache E @ env_contents E @ env_progress E) cfg"

subsection \<open>Checks\<close>

definition validateBasePath :: "string \<Rightarrow> config_error option" where
  "validateBasePath p =
     (if p = [] then None
      else if \<not> HasPrefix p ''/'' then Some (ErrBasePathStart p)
      else if 1 < length p \<and> HasSuffix p ''/'' then Some (ErrBasePathEnd p)
      else None)"

definition validateLogLevel :: "string \<Rightarrow> config_error option" where
  "validateLogLevel level =
     (if level = ''debug'' \<or> level = ''info'' \<or> level = ''warn'' \<or> level = ''error'' then None
      else Some (ErrLogLevel level))"

definition validateTrustedProxy :: "config_env \<Rightarrow> string \<Rightarrow> config_error option" where
  "validateTrustedProxy E s =
     (if CHR ''/'' \<in> set s then (case ce_ParseCIDR E s of None \<Rightarrow> Some (ErrProxyCIDR s) | Some _ \<Rightarrow> None)
      else (case ce_ParseIP E s of None \<Rightarrow> Some (ErrProxyIP s) | Some _ \<Rightarrow> None))"

definition validateBind :: "config_env \<Rightarrow> string \<Rightarrow> config_error option" where
  "validateBind E bind =
     (let bind = TrimSpace bind
      in if bind = [] then None
         else if CHR '':'' \<in> set bind then Some (ErrBindPort bind)
         else if ce_ParseIP E bind = None then Some (ErrBindIP bind)
         else None)"

definition validatePublicURL :: "config_env \<Rightarrow> string \<Rightarrow> config_error option" where
  "validatePublicURL E raw =
     (let raw = TrimSpace raw
      in if raw = [] then None
         else
           (case ce_url_Parse E raw of
              None \<Rightarrow> Some ErrPublicURLParse
            | Some (scheme, host) \<Rightarrow>
                if scheme \<noteq> ''http'' \<and> scheme \<noteq> ''https'' then Some ErrPublicURLScheme
                else if host = [] then Some ErrPublicURLHost
                else None))"

definition DAV_validate :: "DAVSettings \<Rightarrow> config_error option" where
  "DAV_validate d =
     (if dv_ConnectTimeout d \<le> 0 then Some (ErrMustBePositive ''dav connect timeout'')
      else if dv_RequestTimeout d \<le> 0 then Some (ErrMustBePositive ''dav request timeout'')
      else if dv_MaxResponseBytes d \<le> 0 then Some (ErrMustBePositive ''dav max response bytes'')
      else if dv_MaxRedirects d < 0 then Some (ErrMustNotBeNegative ''dav max redirects'')
      else None)"

definition Cache_validate :: "CacheSettings \<Rightarrow> config_error option" where
  "Cache_validate c =
     (if ca_CollectionTTLSeconds c \<le> 0 then Some (ErrMustBePositive ''cache collection TTL'')
      else if ca_MaxCollections c \<le> 0 then Some (ErrMustBePositive ''cache max collections'')
      else if ca_MaxETagEntries c \<le> 0 then Some (ErrMustBePositive ''cache max etag entries'')
      else if ca_MaxBodyBytes c \<le> 0 then Some (ErrMustBePositive ''cache max body bytes'')
      else if ca_MaxProcessBytes c \<le> 0 then Some (ErrMustBePositive ''cache max process bytes'')
      else if ca_MaxThumbBytes c \<le> 0 then Some (ErrMustBePositive ''cache max thumb bytes'')
      else if ca_MaxThumbEntries c \<le> 0 then Some (ErrMustBePositive ''cache max thumb entries'')
      else None)"

definition Photo_validate :: "PhotoSettings \<Rightarrow> config_error option" where
  "Photo_validate p =
     (if ph_MaxSide p \<le> 0 then Some (ErrMustBePositive ''photo max side'')
      else if ph_JPEGQuality p < 1 \<or> ph_JPEGQuality p > 100 then Some ErrJPEGQuality
      else if ph_MaxPixels p \<le> 0 then Some (ErrMustBePositive ''photo max pixels'')
      else if ph_ThumbSide p \<le> 0 then Some (ErrMustBePositive ''photo thumb side'')
      else if ph_MaxUploadBytes p < 0 then Some (ErrMustNotBeNegative ''photo max upload bytes'')
      else None)"

definition Import_validate :: "ImportSettings \<Rightarrow> config_error option" where
  "Import_validate i =
     (if im_MaxBytes i \<le> 0 then Some (ErrMustBePositive ''import max bytes'')
      else if im_MaxCards i \<le> 0 then Some (ErrMustBePositive ''import max cards'')
      else None)"

definition Files_validate :: "FilesSettings \<Rightarrow> config_error option" where
  "Files_validate f =
     (if fi_MaxUploadBytes f \<le> 0 then Some (ErrMustBePositive ''files max upload bytes'')
      else if fi_MaxEntries f \<le> 0 then Some (ErrMustBePositive ''files max entries'')
      else None)"

definition ProgressMode_Valid :: "string \<Rightarrow> bool" where
  "ProgressMode_Valid m \<longleftrightarrow> m = ''sse'' \<or> m = ''poll''"

definition Progress_validate :: "ProgressSettings \<Rightarrow> config_error option" where
  "Progress_validate p =
     (if \<not> ProgressMode_Valid (pr_Mode p) then Some (ErrProgressMode (pr_Mode p))
      else if pr_PollMillis p < 100 then Some ErrPollInterval
      else if pr_SourceTimeout p \<le> 0 then Some (ErrMustBePositive ''progress source timeout'')
      else if pr_TotalTimeout p < pr_SourceTimeout p then Some ErrTotalTimeout
      else None)"

definition Duplicates_validate :: "int \<Rightarrow> config_error option" where
  "Duplicates_validate threshold =
     (if threshold \<le> 0 then Some (ErrMustBePositive ''duplicate threshold'') else None)"

text \<open>\<open>orElse\<close> is the code's \<open>if err := \<dots>; err != nil { return err }\<close> followed by the rest.\<close>

primrec orElse :: "config_error option \<Rightarrow> config_error option \<Rightarrow> config_error option" where
  "orElse (Some e) rest = Some e"
| "orElse None rest = rest"

primrec check_proxies :: "config_env \<Rightarrow> string list \<Rightarrow> config_error option" where
  "check_proxies E [] = None"
| "check_proxies E (p # ps) = orElse (validateTrustedProxy E p) (check_proxies E ps)"

definition Validate :: "config_env \<Rightarrow> Config \<Rightarrow> config_error option" where
  "Validate E c =
     (if cf_Port c < 1 \<or> cf_Port c > 65535 then Some (ErrPort (cf_Port c))
      else orElse (validateBind E (cf_Bind c))
        (if TrimSpace (cf_DataDir c) = [] then Some ErrDataDir
         else orElse (validateBasePath (cf_BasePath c))
           (orElse (validatePublicURL E (cf_PublicURL c))
           (orElse (validateLogLevel (cf_LogLevel c))
           (orElse (check_proxies E (cf_TrustedProxies c))
           (orElse (DAV_validate (cf_DAV c))
           (orElse (Cache_validate (cf_Cache c))
           (orElse (Photo_validate (cf_Photo c))
           (orElse (Import_validate (cf_Import c))
           (orElse (Files_validate (cf_Files c))
           (orElse (Progress_validate (cf_Progress c))
                   (Duplicates_validate (cf_Threshold c)))))))))))))"

subsection \<open>Loading and saving\<close>

definition filepath_Join :: "string \<Rightarrow> string \<Rightarrow> string" where
  "filepath_Join dir base = path_Clean (if dir = [] then base else dir @ ''/'' @ base)"

definition Load :: "config_env \<Rightarrow> (string \<Rightarrow> read_result) \<Rightarrow> config_error + Config" where
  "Load E disk =
     (let cfg = defaults;
          v = TrimSpace (Getenv E ''CARREL_DATA_DIR'');
          dataDir = (if v \<noteq> [] then v else cf_DataDir cfg);
          filePath = filepath_Join dataDir ''config.json'';
          base = (case disk filePath of
                    Contents raw \<Rightarrow>
                      (case applyFile E cfg raw of None \<Rightarrow> Inl (ErrParseFile filePath) | Some cfg \<Rightarrow> Inr cfg)
                  | NotExist \<Rightarrow> Inr cfg
                  | ReadFails \<Rightarrow> Inl (ErrReadFile filePath))
      in case base of
           Inl e \<Rightarrow> Inl e
         | Inr cfg \<Rightarrow>
             (case applyEnv E cfg of
                Inl e \<Rightarrow> Inl e
              | Inr cfg \<Rightarrow> (case Validate E cfg of Some e \<Rightarrow> Inl e | None \<Rightarrow> Inr cfg)))"

text \<open>
  \<open>LoadFromDir\<close> sets the variable for the time of one \<open>Load\<close> and puts the old value back, so the model runs
  \<open>Load\<close> in the changed environment; \<open>env_after\<close> is the environment it leaves.
\<close>

definition with_var :: "config_env \<Rightarrow> string \<Rightarrow> string option \<Rightarrow> config_env" where
  "with_var E k v = E\<lparr>ce_LookupEnv := (ce_LookupEnv E)(k := v)\<rparr>"

definition LoadFromDir :: "config_env \<Rightarrow> (string \<Rightarrow> read_result) \<Rightarrow> string \<Rightarrow> (config_error + Config) \<times> config_env" where
  "LoadFromDir E disk dataDir =
     (let prev = Getenv E ''CARREL_DATA_DIR''
      in if CHR 0x00 \<in> set dataDir then (Inl ErrSetenv, E)
         else (let E' = with_var E ''CARREL_DATA_DIR'' (Some dataDir)
               in (Load E' disk,
                   with_var E' ''CARREL_DATA_DIR'' (if prev = [] then None else Some prev))))"

record write_outcome =
  wo_written :: bool
  wo_partial :: string
  wo_renamed :: bool

definition writeConfig ::
  "config_env \<Rightarrow> write_outcome \<Rightarrow> string \<Rightarrow> Config \<Rightarrow> (string \<Rightarrow> read_result) \<Rightarrow>
     config_error option \<times> (string \<Rightarrow> read_result)" where
  "writeConfig E w path cfg disk =
     (case Validate E cfg of
        Some e \<Rightarrow> (Some e, disk)
      | None \<Rightarrow>
          (case ce_MarshalIndent E cfg of
             None \<Rightarrow> (Some ErrMarshal, disk)
           | Some raw \<Rightarrow>
               (let raw = raw @ [CHR 0x0A]; tmp = path @ ''.tmp''
                in if \<not> wo_written w then (Some ErrWriteFile, disk(tmp := Contents (wo_partial w)))
                   else (let disk = disk(tmp := Contents raw)
                         in if \<not> wo_renamed w then (Some ErrRename, disk)
                            else (None, disk(path := Contents raw, tmp := NotExist))))))"

definition SetPublicURL ::
  "config_env \<Rightarrow> write_outcome \<Rightarrow> (string \<Rightarrow> read_result) \<Rightarrow> string \<Rightarrow> string \<Rightarrow>
     config_error option \<times> (string \<Rightarrow> read_result) \<times> config_env" where
  "SetPublicURL E w disk dataDir publicURL =
     (let publicURL = TrimSpace publicURL
      in case validatePublicURL E publicURL of
           Some e \<Rightarrow> (Some e, disk, E)
         | None \<Rightarrow>
             (case LoadFromDir E disk dataDir of
                (Inl e, E) \<Rightarrow> (Some e, disk, E)
              | (Inr cfg, E) \<Rightarrow>
                  (let (err, disk) = writeConfig E w (filepath_Join dataDir ''config.json'')
                                       (cfg\<lparr>cf_PublicURL := publicURL\<rparr>) disk
                   in (err, disk, E))))"

subsection \<open>What the server is given\<close>

definition CollectionTTL_of :: "CacheSettings \<Rightarrow> duration" where
  "CollectionTTL_of c = wrap64 (ca_CollectionTTLSeconds c * second)"

definition Addr :: "Config \<Rightarrow> string" where
  "Addr c =
     (if TrimSpace (cf_Bind c) = [] then '':'' @ dec_int (cf_Port c)
      else cf_Bind c @ '':'' @ dec_int (cf_Port c))"

definition SSE :: "ProgressSettings \<Rightarrow> bool" where
  "SSE p \<longleftrightarrow> pr_Mode p \<noteq> ''poll''"

definition cache_options :: "Config \<Rightarrow> CacheConfig" where
  "cache_options cfg =
     \<lparr>CollectionTTL = CollectionTTL_of (cf_Cache cfg), MaxCollections = ca_MaxCollections (cf_Cache cfg),
      MaxETagEntries = ca_MaxETagEntries (cf_Cache cfg), MaxBodyBytes = ca_MaxBodyBytes (cf_Cache cfg),
      MaxProcessBytes = ca_MaxProcessBytes (cf_Cache cfg), MaxThumbBytes = ca_MaxThumbBytes (cf_Cache cfg),
      MaxThumbEntries = ca_MaxThumbEntries (cf_Cache cfg)\<rparr>"

definition guard_options :: "Config \<Rightarrow> GuardConfig" where
  "guard_options cfg =
     \<lparr>gc_Allowlist = dv_SSRFAllowlist (cf_DAV cfg), gc_ConnectTimeout = dv_ConnectTimeout (cf_DAV cfg),
      gc_RequestTimeout = dv_RequestTimeout (cf_DAV cfg), gc_MaxResponseBytes = dv_MaxResponseBytes (cf_DAV cfg),
      gc_MaxRedirects = dv_MaxRedirects (cf_DAV cfg), gc_InsecureSkipVerify = False\<rparr>"

subsection \<open>Where a setting comes from\<close>

text \<open>
  The reference the code is compared with: every field on its own, its value the variable's when that is set,
  otherwise the file's, otherwise the default. \<open>int_or\<close> and the others are the value a variable gives.
\<close>

definition text_or :: "config_env \<Rightarrow> string \<Rightarrow> string \<Rightarrow> string" where
  "text_or E k old = (let v = TrimSpace (Getenv E k) in if v = [] then old else v)"

definition lower_or :: "config_env \<Rightarrow> string \<Rightarrow> string \<Rightarrow> string" where
  "lower_or E k old = (let v = TrimSpace (Getenv E k) in if v = [] then old else ToLower (ce_U E) v)"

definition list_or :: "config_env \<Rightarrow> string \<Rightarrow> string list \<Rightarrow> string list" where
  "list_or E k old = (if TrimSpace (Getenv E k) = [] then old else parseList (Getenv E k))"

definition int_or :: "config_env \<Rightarrow> string \<Rightarrow> int \<Rightarrow> int" where
  "int_or E k old = (case ParseInt (TrimSpace (Getenv E k)) of Some n \<Rightarrow> n | None \<Rightarrow> old)"

definition set_seconds :: "config_env \<Rightarrow> string \<Rightarrow> duration option" where
  "set_seconds E k =
     (let v = TrimSpace (Getenv E k)
      in if v = [] then None
         else (case ce_ParseFloat E v of
                 Some sec \<Rightarrow> if fs_nonpositive sec then None else Some (fs_nanos sec)
               | None \<Rightarrow> None))"

definition seconds_or :: "config_env \<Rightarrow> string \<Rightarrow> duration \<Rightarrow> duration" where
  "seconds_or E k old = (case set_seconds E k of Some d \<Rightarrow> d | None \<Rightarrow> old)"

definition whole_seconds_or :: "config_env \<Rightarrow> string \<Rightarrow> int \<Rightarrow> int" where
  "whole_seconds_or E k old = (case set_seconds E k of Some d \<Rightarrow> d sdiv second | None \<Rightarrow> old)"

definition overlay_DAV :: "config_env \<Rightarrow> DAVSettings \<Rightarrow> DAVSettings" where
  "overlay_DAV E s =
     \<lparr>dv_SSRFAllowlist = list_or E ''CARREL_DAV_SSRF_ALLOWLIST'' (dv_SSRFAllowlist s),
      dv_ConnectTimeout = seconds_or E ''CARREL_DAV_CONNECT_TIMEOUT'' (dv_ConnectTimeout s),
      dv_RequestTimeout = seconds_or E ''CARREL_DAV_REQUEST_TIMEOUT'' (dv_RequestTimeout s),
      dv_MaxResponseBytes = int_or E ''CARREL_DAV_MAX_RESPONSE_BYTES'' (dv_MaxResponseBytes s),
      dv_MaxRedirects = int_or E ''CARREL_DAV_MAX_REDIRECTS'' (dv_MaxRedirects s)\<rparr>"

definition overlay_Cache :: "config_env \<Rightarrow> CacheSettings \<Rightarrow> CacheSettings" where
  "overlay_Cache E s =
     \<lparr>ca_CollectionTTLSeconds = whole_seconds_or E ''CARREL_CACHE_COLLECTION_TTL'' (ca_CollectionTTLSeconds s),
      ca_MaxCollections = int_or E ''CARREL_CACHE_MAX_COLLECTIONS'' (ca_MaxCollections s),
      ca_MaxETagEntries = int_or E ''CARREL_CACHE_MAX_ETAG_ENTRIES'' (ca_MaxETagEntries s),
      ca_MaxBodyBytes = int_or E ''CARREL_CACHE_MAX_BODY_BYTES'' (ca_MaxBodyBytes s),
      ca_MaxProcessBytes = int_or E ''CARREL_CACHE_MAX_PROCESS_BYTES'' (ca_MaxProcessBytes s),
      ca_MaxThumbBytes = int_or E ''CARREL_CACHE_MAX_THUMB_BYTES'' (ca_MaxThumbBytes s),
      ca_MaxThumbEntries = int_or E ''CARREL_CACHE_MAX_THUMB_ENTRIES'' (ca_MaxThumbEntries s)\<rparr>"

definition overlay_Photo :: "config_env \<Rightarrow> PhotoSettings \<Rightarrow> PhotoSettings" where
  "overlay_Photo E s =
     \<lparr>ph_MaxSide = int_or E ''CARREL_PHOTO_MAX_SIDE'' (ph_MaxSide s),
      ph_JPEGQuality = int_or E ''CARREL_PHOTO_JPEG_QUALITY'' (ph_JPEGQuality s),
      ph_MaxPixels = int_or E ''CARREL_PHOTO_MAX_PIXELS'' (ph_MaxPixels s),
      ph_ThumbSide = int_or E ''CARREL_PHOTO_THUMB_SIDE'' (ph_ThumbSide s),
      ph_MaxUploadBytes = int_or E ''CARREL_PHOTO_MAX_UPLOAD_BYTES'' (ph_MaxUploadBytes s)\<rparr>"

definition overlay_Import :: "config_env \<Rightarrow> ImportSettings \<Rightarrow> ImportSettings" where
  "overlay_Import E s =
     \<lparr>im_MaxBytes = int_or E ''CARREL_IMPORT_MAX_BYTES'' (im_MaxBytes s),
      im_MaxCards = int_or E ''CARREL_IMPORT_MAX_CARDS'' (im_MaxCards s)\<rparr>"

definition overlay_Files :: "config_env \<Rightarrow> FilesSettings \<Rightarrow> FilesSettings" where
  "overlay_Files E s =
     \<lparr>fi_MaxUploadBytes = int_or E ''CARREL_FILES_MAX_UPLOAD_BYTES'' (fi_MaxUploadBytes s),
      fi_MaxEntries = int_or E ''CARREL_FILES_MAX_ENTRIES'' (fi_MaxEntries s)\<rparr>"

definition overlay_Progress :: "config_env \<Rightarrow> ProgressSettings \<Rightarrow> ProgressSettings" where
  "overlay_Progress E s =
     \<lparr>pr_Mode = lower_or E ''CARREL_PROGRESS_MODE'' (pr_Mode s),
      pr_PollMillis = int_or E ''CARREL_PROGRESS_POLL_MILLIS'' (pr_PollMillis s),
      pr_SourceTimeout = seconds_or E ''CARREL_PROGRESS_SOURCE_TIMEOUT'' (pr_SourceTimeout s),
      pr_TotalTimeout = seconds_or E ''CARREL_PROGRESS_TOTAL_TIMEOUT'' (pr_TotalTimeout s)\<rparr>"

definition overlay :: "config_env \<Rightarrow> Config \<Rightarrow> Config" where
  "overlay E c =
     \<lparr>cf_Port = int_or E ''CARREL_PORT'' (cf_Port c),
      cf_Bind = text_or E ''CARREL_BIND'' (cf_Bind c),
      cf_DataDir = text_or E ''CARREL_DATA_DIR'' (cf_DataDir c),
      cf_TrustedProxies = list_or E ''CARREL_TRUSTED_PROXIES'' (cf_TrustedProxies c),
      cf_BasePath = text_or E ''CARREL_BASE_PATH'' (cf_BasePath c),
      cf_PublicURL = text_or E ''CARREL_PUBLIC_URL'' (cf_PublicURL c),
      cf_LogLevel = lower_or E ''CARREL_LOG_LEVEL'' (cf_LogLevel c),
      cf_DAV = overlay_DAV E (cf_DAV c),
      cf_Cache = overlay_Cache E (cf_Cache c),
      cf_Photo = overlay_Photo E (cf_Photo c),
      cf_Import = overlay_Import E (cf_Import c),
      cf_Files = overlay_Files E (cf_Files c),
      cf_Progress = overlay_Progress E (cf_Progress c),
      cf_Threshold = int_or E ''CARREL_DUPLICATES_THRESHOLD'' (cf_Threshold c)\<rparr>"

definition or_value :: "'a option \<Rightarrow> 'a \<Rightarrow> 'a" where
  "or_value x old = (case x of Some v \<Rightarrow> v | None \<Rightarrow> old)"

definition file_over :: "fileConfig \<Rightarrow> Config" where
  "file_over fc =
     \<lparr>cf_Port = or_value (ff_Port fc) (cf_Port defaults),
      cf_Bind = or_value (ff_Bind fc) (cf_Bind defaults),
      cf_DataDir = or_value (ff_DataDir fc) (cf_DataDir defaults),
      cf_TrustedProxies = or_value (ff_TrustedProxies fc) (cf_TrustedProxies defaults),
      cf_BasePath = or_value (ff_BasePath fc) (cf_BasePath defaults),
      cf_PublicURL = or_value (map_option TrimSpace (ff_PublicURL fc)) (cf_PublicURL defaults),
      cf_LogLevel = or_value (ff_LogLevel fc) (cf_LogLevel defaults),
      cf_DAV = or_value (ff_DAV fc) (cf_DAV defaults),
      cf_Cache = or_value (map_option fillUnsetCeilings (ff_Cache fc)) (cf_Cache defaults),
      cf_Photo = or_value (ff_Photo fc) (cf_Photo defaults),
      cf_Import = or_value (ff_Import fc) (cf_Import defaults),
      cf_Files = or_value (ff_Files fc) (cf_Files defaults),
      cf_Progress = or_value (ff_Progress fc) (cf_Progress defaults),
      cf_Threshold = or_value (ff_Threshold fc) (cf_Threshold defaults)\<rparr>"

definition int_ok :: "config_env \<Rightarrow> string \<Rightarrow> bool" where
  "int_ok E k \<longleftrightarrow> TrimSpace (Getenv E k) = [] \<or> ParseInt (TrimSpace (Getenv E k)) \<noteq> None"

definition seconds_ok :: "config_env \<Rightarrow> string \<Rightarrow> bool" where
  "seconds_ok E k \<longleftrightarrow> TrimSpace (Getenv E k) = [] \<or> set_seconds E k \<noteq> None"

definition env_readable :: "config_env \<Rightarrow> bool" where
  "env_readable E \<longleftrightarrow>
     list_all (int_ok E)
     [''CARREL_PORT'', ''CARREL_DAV_MAX_RESPONSE_BYTES'', ''CARREL_DAV_MAX_REDIRECTS'',
      ''CARREL_CACHE_MAX_COLLECTIONS'', ''CARREL_CACHE_MAX_ETAG_ENTRIES'',
      ''CARREL_CACHE_MAX_BODY_BYTES'', ''CARREL_CACHE_MAX_PROCESS_BYTES'',
      ''CARREL_CACHE_MAX_THUMB_BYTES'', ''CARREL_CACHE_MAX_THUMB_ENTRIES'', ''CARREL_PHOTO_MAX_SIDE'',
      ''CARREL_PHOTO_JPEG_QUALITY'', ''CARREL_PHOTO_MAX_PIXELS'', ''CARREL_PHOTO_THUMB_SIDE'',
      ''CARREL_PHOTO_MAX_UPLOAD_BYTES'', ''CARREL_IMPORT_MAX_BYTES'', ''CARREL_IMPORT_MAX_CARDS'',
      ''CARREL_FILES_MAX_UPLOAD_BYTES'', ''CARREL_FILES_MAX_ENTRIES'', ''CARREL_PROGRESS_POLL_MILLIS'',
      ''CARREL_DUPLICATES_THRESHOLD''] \<and>
     list_all (seconds_ok E)
     [''CARREL_DAV_CONNECT_TIMEOUT'', ''CARREL_DAV_REQUEST_TIMEOUT'', ''CARREL_CACHE_COLLECTION_TTL'',
      ''CARREL_PROGRESS_SOURCE_TIMEOUT'', ''CARREL_PROGRESS_TOTAL_TIMEOUT'']"

definition config_path :: "config_env \<Rightarrow> string" where
  "config_path E = filepath_Join (text_or E ''CARREL_DATA_DIR'' ''/var/lib/carrel'') ''config.json''"

definition configured :: "config_env \<Rightarrow> (string \<Rightarrow> read_result) \<Rightarrow> Config option" where
  "configured E disk =
     (case disk (config_path E) of
        Contents raw \<Rightarrow> map_option file_over (ce_Unmarshal E raw)
      | NotExist \<Rightarrow> Some defaults
      | ReadFails \<Rightarrow> None)"

definition usable :: "config_env \<Rightarrow> Config \<Rightarrow> bool" where
  "usable E c \<longleftrightarrow>
     1 \<le> cf_Port c \<and> cf_Port c \<le> 65535 \<and>
     (let b = TrimSpace (cf_Bind c) in b = [] \<or> (CHR '':'' \<notin> set b \<and> ce_ParseIP E b \<noteq> None)) \<and>
     TrimSpace (cf_DataDir c) \<noteq> [] \<and>
     (cf_BasePath c = [] \<or> cf_BasePath c = ''/'' \<or>
        (hd (cf_BasePath c) = CHR ''/'' \<and> last (cf_BasePath c) \<noteq> CHR ''/'')) \<and>
     validatePublicURL E (cf_PublicURL c) = None \<and>
     cf_LogLevel c \<in> {''debug'', ''info'', ''warn'', ''error''} \<and>
     list_all (\<lambda>p. if CHR ''/'' \<in> set p then ce_ParseCIDR E p \<noteq> None else ce_ParseIP E p \<noteq> None) (cf_TrustedProxies c) \<and>
     0 < dv_ConnectTimeout (cf_DAV c) \<and> 0 < dv_RequestTimeout (cf_DAV c) \<and>
     0 < dv_MaxResponseBytes (cf_DAV c) \<and> 0 \<le> dv_MaxRedirects (cf_DAV c) \<and>
     list_all (\<lambda>limit. 0 < limit (cf_Cache c))
       [ca_CollectionTTLSeconds, ca_MaxCollections, ca_MaxETagEntries, ca_MaxBodyBytes, ca_MaxProcessBytes,
        ca_MaxThumbBytes, ca_MaxThumbEntries] \<and>
     0 < ph_MaxSide (cf_Photo c) \<and> 0 < ph_JPEGQuality (cf_Photo c) \<and> ph_JPEGQuality (cf_Photo c) \<le> 100 \<and>
     0 < ph_MaxPixels (cf_Photo c) \<and> 0 < ph_ThumbSide (cf_Photo c) \<and> 0 \<le> ph_MaxUploadBytes (cf_Photo c) \<and>
     0 < im_MaxBytes (cf_Import c) \<and> 0 < im_MaxCards (cf_Import c) \<and>
     0 < fi_MaxUploadBytes (cf_Files c) \<and> 0 < fi_MaxEntries (cf_Files c) \<and>
     pr_Mode (cf_Progress c) \<in> {''sse'', ''poll''} \<and> 100 \<le> pr_PollMillis (cf_Progress c) \<and>
     0 < pr_SourceTimeout (cf_Progress c) \<and> pr_SourceTimeout (cf_Progress c) \<le> pr_TotalTimeout (cf_Progress c) \<and>
     0 < cf_Threshold c"

subsection \<open>The chain of blocks\<close>

lemma in_turn_append:
  "in_turn (fs @ gs) c = (case in_turn fs c of Inl e \<Rightarrow> Inl e | Inr c' \<Rightarrow> in_turn gs c')"
  by (induction fs arbitrary: c) (auto split: sum.splits)

lemma in_turn_Inr_Cons: "in_turn (f # fs) c = Inr c' \<longleftrightarrow> (\<exists>d. f c = Inr d \<and> in_turn fs d = Inr c')"
  by (auto split: sum.splits)

lemma ParseInt_Nil [simp]: "ParseInt [] = None"
  by (simp add: ParseInt_def)

lemma env_text_at:
  assumes "upd (get c) c = c"
  shows "env_text E k upd c = Inr d \<longleftrightarrow> d = upd (text_or E k (get c)) c"
  using assms by (auto simp: env_text_def text_or_def Let_def)

lemma env_lower_at:
  assumes "upd (get c) c = c"
  shows "env_text E k (\<lambda>v. upd (ToLower (ce_U E) v)) c = Inr d \<longleftrightarrow> d = upd (lower_or E k (get c)) c"
  using assms by (auto simp: env_text_def lower_or_def Let_def)

lemma env_list_at:
  assumes "upd (get c) c = c"
  shows "env_list E k upd c = Inr d \<longleftrightarrow> d = upd (list_or E k (get c)) c"
  using assms by (auto simp: env_list_def list_or_def Getenv_def split: option.splits)

lemma env_int_at:
  assumes "upd (get c) c = c"
  shows "env_int E k upd c = Inr d \<longleftrightarrow> int_ok E k \<and> d = upd (int_or E k (get c)) c"
  using assms by (auto simp: env_int_def int_or_def int_ok_def Let_def split: option.splits)

lemma env_seconds_at:
  assumes "upd (get c) c = c"
  shows "env_seconds E k upd c = Inr d \<longleftrightarrow> seconds_ok E k \<and> d = upd (seconds_or E k (get c)) c"
  using assms
  by (auto simp: env_seconds_def seconds_or_def seconds_ok_def set_seconds_def parseDurationSeconds_def Let_def split: option.splits)

lemma env_whole_seconds_at:
  assumes "upd (get c) c = c"
  shows "env_seconds E k (\<lambda>v. upd (v sdiv second)) c = Inr d \<longleftrightarrow> seconds_ok E k \<and> d = upd (whole_seconds_or E k (get c)) c"
  using assms
  by (auto simp: env_seconds_def whole_seconds_or_def seconds_ok_def set_seconds_def parseDurationSeconds_def Let_def split: option.splits)

lemmas env_server_at =
  env_int_at [where get = "cf_Port" and k = "''CARREL_PORT''"]
  env_text_at [where get = "cf_Bind" and k = "''CARREL_BIND''"]
  env_text_at [where get = "cf_DataDir" and k = "''CARREL_DATA_DIR''"]
  env_list_at [where get = "cf_TrustedProxies" and k = "''CARREL_TRUSTED_PROXIES''"]
  env_text_at [where get = "cf_BasePath" and k = "''CARREL_BASE_PATH''"]
  env_text_at [where get = "cf_PublicURL" and k = "''CARREL_PUBLIC_URL''"]
  env_lower_at [where get = "cf_LogLevel" and upd = "\<lambda>v c. c\<lparr>cf_LogLevel := v\<rparr>" and k = "''CARREL_LOG_LEVEL''"]

lemmas env_dav_at =
  env_list_at [where get = "\<lambda>c. dv_SSRFAllowlist (cf_DAV c)" and k = "''CARREL_DAV_SSRF_ALLOWLIST''"]
  env_seconds_at [where get = "\<lambda>c. dv_ConnectTimeout (cf_DAV c)" and k = "''CARREL_DAV_CONNECT_TIMEOUT''"]
  env_seconds_at [where get = "\<lambda>c. dv_RequestTimeout (cf_DAV c)" and k = "''CARREL_DAV_REQUEST_TIMEOUT''"]
  env_int_at [where get = "\<lambda>c. dv_MaxResponseBytes (cf_DAV c)" and k = "''CARREL_DAV_MAX_RESPONSE_BYTES''"]
  env_int_at [where get = "\<lambda>c. dv_MaxRedirects (cf_DAV c)" and k = "''CARREL_DAV_MAX_REDIRECTS''"]

lemmas env_cache_at =
  env_whole_seconds_at [where get = "\<lambda>c. ca_CollectionTTLSeconds (cf_Cache c)" and upd = "\<lambda>v. set_Cache (ca_CollectionTTLSeconds_update (\<lambda>_. v))" and k = "''CARREL_CACHE_COLLECTION_TTL''"]
  env_int_at [where get = "\<lambda>c. ca_MaxCollections (cf_Cache c)" and k = "''CARREL_CACHE_MAX_COLLECTIONS''"]
  env_int_at [where get = "\<lambda>c. ca_MaxETagEntries (cf_Cache c)" and k = "''CARREL_CACHE_MAX_ETAG_ENTRIES''"]
  env_int_at [where get = "\<lambda>c. ca_MaxBodyBytes (cf_Cache c)" and k = "''CARREL_CACHE_MAX_BODY_BYTES''"]
  env_int_at [where get = "\<lambda>c. ca_MaxProcessBytes (cf_Cache c)" and k = "''CARREL_CACHE_MAX_PROCESS_BYTES''"]
  env_int_at [where get = "\<lambda>c. ca_MaxThumbBytes (cf_Cache c)" and k = "''CARREL_CACHE_MAX_THUMB_BYTES''"]
  env_int_at [where get = "\<lambda>c. ca_MaxThumbEntries (cf_Cache c)" and k = "''CARREL_CACHE_MAX_THUMB_ENTRIES''"]

lemmas env_contents_at =
  env_int_at [where get = "\<lambda>c. ph_MaxSide (cf_Photo c)" and k = "''CARREL_PHOTO_MAX_SIDE''"]
  env_int_at [where get = "\<lambda>c. ph_JPEGQuality (cf_Photo c)" and k = "''CARREL_PHOTO_JPEG_QUALITY''"]
  env_int_at [where get = "\<lambda>c. ph_MaxPixels (cf_Photo c)" and k = "''CARREL_PHOTO_MAX_PIXELS''"]
  env_int_at [where get = "\<lambda>c. ph_ThumbSide (cf_Photo c)" and k = "''CARREL_PHOTO_THUMB_SIDE''"]
  env_int_at [where get = "\<lambda>c. ph_MaxUploadBytes (cf_Photo c)" and k = "''CARREL_PHOTO_MAX_UPLOAD_BYTES''"]
  env_int_at [where get = "\<lambda>c. im_MaxBytes (cf_Import c)" and k = "''CARREL_IMPORT_MAX_BYTES''"]
  env_int_at [where get = "\<lambda>c. im_MaxCards (cf_Import c)" and k = "''CARREL_IMPORT_MAX_CARDS''"]
  env_int_at [where get = "\<lambda>c. fi_MaxUploadBytes (cf_Files c)" and k = "''CARREL_FILES_MAX_UPLOAD_BYTES''"]
  env_int_at [where get = "\<lambda>c. fi_MaxEntries (cf_Files c)" and k = "''CARREL_FILES_MAX_ENTRIES''"]

lemmas env_progress_at =
  env_lower_at [where get = "\<lambda>c. pr_Mode (cf_Progress c)" and upd = "\<lambda>v. set_Progress (pr_Mode_update (\<lambda>_. v))" and k = "''CARREL_PROGRESS_MODE''"]
  env_int_at [where get = "\<lambda>c. pr_PollMillis (cf_Progress c)" and k = "''CARREL_PROGRESS_POLL_MILLIS''"]
  env_seconds_at [where get = "\<lambda>c. pr_SourceTimeout (cf_Progress c)" and k = "''CARREL_PROGRESS_SOURCE_TIMEOUT''"]
  env_seconds_at [where get = "\<lambda>c. pr_TotalTimeout (cf_Progress c)" and k = "''CARREL_PROGRESS_TOTAL_TIMEOUT''"]
  env_int_at [where get = "cf_Threshold" and k = "''CARREL_DUPLICATES_THRESHOLD''"]

lemmas in_turn_at = in_turn_Inr_Cons overlay_def overlay_DAV_def overlay_Cache_def overlay_Photo_def overlay_Import_def
  overlay_Files_def overlay_Progress_def

lemma env_server_exact:
  "in_turn (env_server E) c = Inr d \<longleftrightarrow>
     int_ok E ''CARREL_PORT'' \<and>
     d = c\<lparr>cf_Port := cf_Port (overlay E c), cf_Bind := cf_Bind (overlay E c), cf_DataDir := cf_DataDir (overlay E c),
           cf_TrustedProxies := cf_TrustedProxies (overlay E c), cf_BasePath := cf_BasePath (overlay E c),
           cf_PublicURL := cf_PublicURL (overlay E c), cf_LogLevel := cf_LogLevel (overlay E c)\<rparr>"
  by (auto simp: env_server_def in_turn_at env_server_at simp del: in_turn.simps(2))

lemma env_dav_exact:
  "in_turn (env_dav E) c = Inr d \<longleftrightarrow>
     list_all (int_ok E) [''CARREL_DAV_MAX_RESPONSE_BYTES'', ''CARREL_DAV_MAX_REDIRECTS''] \<and>
     list_all (seconds_ok E) [''CARREL_DAV_CONNECT_TIMEOUT'', ''CARREL_DAV_REQUEST_TIMEOUT''] \<and>
     d = c\<lparr>cf_DAV := overlay_DAV E (cf_DAV c)\<rparr>"
  by (auto simp: env_dav_def in_turn_at env_dav_at simp del: in_turn.simps(2))

lemma env_cache_exact:
  "in_turn (env_cache E) c = Inr d \<longleftrightarrow>
     list_all (int_ok E)
       [''CARREL_CACHE_MAX_COLLECTIONS'', ''CARREL_CACHE_MAX_ETAG_ENTRIES'', ''CARREL_CACHE_MAX_BODY_BYTES'',
        ''CARREL_CACHE_MAX_PROCESS_BYTES'', ''CARREL_CACHE_MAX_THUMB_BYTES'', ''CARREL_CACHE_MAX_THUMB_ENTRIES''] \<and>
     seconds_ok E ''CARREL_CACHE_COLLECTION_TTL'' \<and> d = c\<lparr>cf_Cache := overlay_Cache E (cf_Cache c)\<rparr>"
  by (auto simp: env_cache_def in_turn_at env_cache_at simp del: in_turn.simps(2))

lemma env_contents_exact:
  "in_turn (env_contents E) c = Inr d \<longleftrightarrow>
     list_all (int_ok E)
       [''CARREL_PHOTO_MAX_SIDE'', ''CARREL_PHOTO_JPEG_QUALITY'', ''CARREL_PHOTO_MAX_PIXELS'', ''CARREL_PHOTO_THUMB_SIDE'',
        ''CARREL_PHOTO_MAX_UPLOAD_BYTES'', ''CARREL_IMPORT_MAX_BYTES'', ''CARREL_IMPORT_MAX_CARDS'',
        ''CARREL_FILES_MAX_UPLOAD_BYTES'', ''CARREL_FILES_MAX_ENTRIES''] \<and>
     d = c\<lparr>cf_Photo := overlay_Photo E (cf_Photo c), cf_Import := overlay_Import E (cf_Import c), cf_Files := overlay_Files E (cf_Files c)\<rparr>"
  by (auto simp: env_contents_def in_turn_at env_contents_at simp del: in_turn.simps(2))

lemma env_progress_exact:
  "in_turn (env_progress E) c = Inr d \<longleftrightarrow>
     list_all (int_ok E) [''CARREL_PROGRESS_POLL_MILLIS'', ''CARREL_DUPLICATES_THRESHOLD''] \<and>
     list_all (seconds_ok E) [''CARREL_PROGRESS_SOURCE_TIMEOUT'', ''CARREL_PROGRESS_TOTAL_TIMEOUT''] \<and>
     d = c\<lparr>cf_Progress := overlay_Progress E (cf_Progress c), cf_Threshold := cf_Threshold (overlay E c)\<rparr>"
  by (auto simp: env_progress_def in_turn_at env_progress_at simp del: in_turn.simps(2))

lemma applyEnv_exact: "applyEnv E c = Inr d \<longleftrightarrow> env_readable E \<and> d = overlay E c"
proof -
  have "applyEnv E c = Inr d \<longleftrightarrow>
    (\<exists>c1 c2 c3 c4. in_turn (env_server E) c = Inr c1 \<and> in_turn (env_dav E) c1 = Inr c2 \<and>
       in_turn (env_cache E) c2 = Inr c3 \<and> in_turn (env_contents E) c3 = Inr c4 \<and> in_turn (env_progress E) c4 = Inr d)"
    unfolding applyEnv_def in_turn_append by (auto split: sum.splits)
  also have "\<dots> \<longleftrightarrow> env_readable E \<and> d = overlay E c"
    unfolding env_server_exact env_dav_exact env_cache_exact env_contents_exact env_progress_exact env_readable_def
    by (auto simp: overlay_def conj_assoc)
  finally show ?thesis .
qed

lemma option_set:
  assumes "upd (get c) c = c"
  shows "(case x of None \<Rightarrow> c | Some v \<Rightarrow> upd (f v) c) = upd (or_value (map_option f x) (get c)) c"
  using assms by (cases x) (auto simp: or_value_def)

lemmas applyFile_sets =
  option_set [where get = cf_Port and upd = "\<lambda>v c. c\<lparr>cf_Port := v\<rparr>" and f = "\<lambda>v. v"]
  option_set [where get = cf_Bind and upd = "\<lambda>v c. c\<lparr>cf_Bind := v\<rparr>" and f = "\<lambda>v. v"]
  option_set [where get = cf_DataDir and upd = "\<lambda>v c. c\<lparr>cf_DataDir := v\<rparr>" and f = "\<lambda>v. v"]
  option_set [where get = cf_TrustedProxies and upd = "\<lambda>v c. c\<lparr>cf_TrustedProxies := v\<rparr>" and f = "\<lambda>v. v"]
  option_set [where get = cf_BasePath and upd = "\<lambda>v c. c\<lparr>cf_BasePath := v\<rparr>" and f = "\<lambda>v. v"]
  option_set [where get = cf_PublicURL and upd = "\<lambda>v c. c\<lparr>cf_PublicURL := v\<rparr>" and f = "\<lambda>v. TrimSpace v"]
  option_set [where get = cf_LogLevel and upd = "\<lambda>v c. c\<lparr>cf_LogLevel := v\<rparr>" and f = "\<lambda>v. v"]
  option_set [where get = cf_DAV and upd = "\<lambda>v c. c\<lparr>cf_DAV := v\<rparr>" and f = "\<lambda>v. v"]
  option_set [where get = cf_Cache and upd = "\<lambda>v c. c\<lparr>cf_Cache := v\<rparr>" and f = "\<lambda>v. fillUnsetCeilings v"]
  option_set [where get = cf_Photo and upd = "\<lambda>v c. c\<lparr>cf_Photo := v\<rparr>" and f = "\<lambda>v. v"]
  option_set [where get = cf_Import and upd = "\<lambda>v c. c\<lparr>cf_Import := v\<rparr>" and f = "\<lambda>v. v"]
  option_set [where get = cf_Files and upd = "\<lambda>v c. c\<lparr>cf_Files := v\<rparr>" and f = "\<lambda>v. v"]
  option_set [where get = cf_Progress and upd = "\<lambda>v c. c\<lparr>cf_Progress := v\<rparr>" and f = "\<lambda>v. v"]
  option_set [where get = cf_Threshold and upd = "\<lambda>v c. c\<lparr>cf_Threshold := v\<rparr>" and f = "\<lambda>v. v"]

lemma applyFile_exact: "applyFile E defaults raw = map_option file_over (ce_Unmarshal E raw)"
proof (cases "ce_Unmarshal E raw")
  case None
  then show ?thesis by (simp add: applyFile_def)
next
  case (Some fc)
  then show ?thesis
    by (simp add: applyFile_def Let_def applyFile_sets option.map_ident) (simp add: file_over_def defaults_def)
qed

subsection \<open>The checks\<close>

lemma orElse_None [simp]: "orElse a b = None \<longleftrightarrow> a = None \<and> b = None"
  by (cases a) auto

lemma check_proxies_None:
  "check_proxies E ps = None \<longleftrightarrow>
     list_all (\<lambda>p. if CHR ''/'' \<in> set p then ce_ParseCIDR E p \<noteq> None else ce_ParseIP E p \<noteq> None) ps"
  by (induction ps) (auto simp: validateTrustedProxy_def split: option.splits)

lemma validateBasePath_None:
  "validateBasePath p = None \<longleftrightarrow> p = [] \<or> p = ''/'' \<or> (hd p = CHR ''/'' \<and> last p \<noteq> CHR ''/'')"
proof (cases p)
  case (Cons c q)
  then show ?thesis
  proof (cases q rule: rev_cases)
    case Nil
    then show ?thesis using Cons by (auto simp: validateBasePath_def HasPrefix_def HasSuffix_def)
  next
    case (snoc r d)
    then show ?thesis using Cons
      by (auto simp: validateBasePath_def HasPrefix_def HasSuffix_def suffix_def)
  qed
qed (simp add: validateBasePath_def)

lemma section_checks:
  "DAV_validate d = None \<longleftrightarrow>
     0 < dv_ConnectTimeout d \<and> 0 < dv_RequestTimeout d \<and> 0 < dv_MaxResponseBytes d \<and> 0 \<le> dv_MaxRedirects d"
  "Cache_validate c = None \<longleftrightarrow>
     0 < ca_CollectionTTLSeconds c \<and> 0 < ca_MaxCollections c \<and> 0 < ca_MaxETagEntries c \<and> 0 < ca_MaxBodyBytes c \<and>
     0 < ca_MaxProcessBytes c \<and> 0 < ca_MaxThumbBytes c \<and> 0 < ca_MaxThumbEntries c"
  "Photo_validate p = None \<longleftrightarrow>
     0 < ph_MaxSide p \<and> 0 < ph_JPEGQuality p \<and> ph_JPEGQuality p \<le> 100 \<and> 0 < ph_MaxPixels p \<and> 0 < ph_ThumbSide p \<and>
     0 \<le> ph_MaxUploadBytes p"
  "Import_validate i = None \<longleftrightarrow> 0 < im_MaxBytes i \<and> 0 < im_MaxCards i"
  "Files_validate f = None \<longleftrightarrow> 0 < fi_MaxUploadBytes f \<and> 0 < fi_MaxEntries f"
  "Progress_validate g = None \<longleftrightarrow>
     (pr_Mode g = ''sse'' \<or> pr_Mode g = ''poll'') \<and> 100 \<le> pr_PollMillis g \<and> 0 < pr_SourceTimeout g \<and>
     pr_SourceTimeout g \<le> pr_TotalTimeout g"
  "Duplicates_validate n = None \<longleftrightarrow> 0 < n"
  by (auto simp: DAV_validate_def Cache_validate_def Photo_validate_def Import_validate_def Files_validate_def
      Progress_validate_def ProgressMode_Valid_def Duplicates_validate_def)

lemma Validate_exact: "Validate E c = None \<longleftrightarrow> usable E c"
proof -
  have b: "validateBind E b = None \<longleftrightarrow>
      (let b = TrimSpace b in b = [] \<or> (CHR '':'' \<notin> set b \<and> ce_ParseIP E b \<noteq> None))" for b
    by (simp add: validateBind_def Let_def)
  have l: "validateLogLevel v = None \<longleftrightarrow> v \<in> {''debug'', ''info'', ''warn'', ''error''}" for v
    by (simp add: validateLogLevel_def)
  have i: "(if P then Some e else x) = None \<longleftrightarrow> \<not> P \<and> x = None" for P and e :: config_error and x by simp
  show ?thesis
    unfolding Validate_def usable_def
    by (simp add: i check_proxies_None validateBasePath_None section_checks b l not_less del: if_split_asm)
qed

lemma Load_steps:
  "Load E disk =
     (case (case disk (config_path E) of
              Contents raw \<Rightarrow>
                (case applyFile E defaults raw of
                   None \<Rightarrow> Inl (ErrParseFile (config_path E))
                 | Some cfg \<Rightarrow> Inr cfg)
            | NotExist \<Rightarrow> Inr defaults
            | ReadFails \<Rightarrow> Inl (ErrReadFile (config_path E))) of
        Inl e \<Rightarrow> Inl e
      | Inr cfg \<Rightarrow>
          (case applyEnv E cfg of
             Inl e \<Rightarrow> Inl e
           | Inr cfg \<Rightarrow> (case Validate E cfg of Some e \<Rightarrow> Inl e | None \<Rightarrow> Inr cfg)))"
proof -
  have p: "filepath_Join
      (if TrimSpace (Getenv E ''CARREL_DATA_DIR'') \<noteq> [] then TrimSpace (Getenv E ''CARREL_DATA_DIR'') else cf_DataDir defaults)
      ''config.json'' = config_path E"
    by (simp add: config_path_def text_or_def Let_def defaults_def)
  show ?thesis unfolding Load_def Let_def p by (rule refl)
qed

lemma Load_exact:
  "Load E disk = Inr cfg \<longleftrightarrow>
     env_readable E \<and> usable E cfg \<and> Some cfg = map_option (overlay E) (configured E disk)"
proof -
  have tail: "(case applyEnv E c of
      Inl e \<Rightarrow> Inl e
    | Inr c \<Rightarrow> (case Validate E c of Some e \<Rightarrow> Inl e | None \<Rightarrow> Inr c)) = Inr cfg \<longleftrightarrow>
      env_readable E \<and> cfg = overlay E c \<and> usable E cfg" for c
    unfolding Validate_exact [symmetric] conj_assoc [symmetric] applyEnv_exact [symmetric]
    by (auto split: sum.splits option.splits)
  show ?thesis
    unfolding Load_steps configured_def applyFile_exact
    by (cases "disk (config_path E)") (auto simp: tail split: option.splits)
qed


lemma unset_variables:
  assumes "ce_LookupEnv E = (\<lambda>_. None)"
  shows "env_readable E" and "overlay E c = c"
proof -
  have g: "Getenv E k = []" for k using assms by (simp add: Getenv_def)
  show "env_readable E" using g by (simp add: env_readable_def int_ok_def seconds_ok_def)
  show "overlay E c = c"
    by (simp add: overlay_def overlay_DAV_def overlay_Cache_def overlay_Photo_def overlay_Import_def overlay_Files_def
        overlay_Progress_def text_or_def lower_or_def list_or_def int_or_def seconds_or_def whole_seconds_or_def
        set_seconds_def g)
qed

lemma defaults_usable: "usable E defaults"
proof -
  have "TrimSpace ''/var/lib/carrel'' = ''/var/lib/carrel''" by (rule TrimSpace_tight) (simp_all add: IsSpace_def)
  then show ?thesis by (simp add: usable_def defaults_def validatePublicURL_def second_def)
qed

lemma defaults_load:
  assumes "ce_LookupEnv E = (\<lambda>_. None)" and "disk (config_path E) = NotExist"
  shows "Load E disk = Inr defaults"
  unfolding Load_exact using assms unset_variables [OF assms(1)] defaults_usable
  by (simp add: configured_def)

text \<open>
  A section of \<open>config.json\<close> that names only some of its fields replaces the whole section: the fields it leaves
  out are zero, and unless the environment supplies them the server does not start.
\<close>

lemma partial_section_refused:
  assumes "disk (config_path E) = Contents raw" and "ce_Unmarshal E raw = Some fc"
    and "ff_DAV fc = Some \<lparr>dv_SSRFAllowlist = hosts, dv_ConnectTimeout = 0, dv_RequestTimeout = 0,
                          dv_MaxResponseBytes = 0, dv_MaxRedirects = 0\<rparr>"
    and "Getenv E ''CARREL_DAV_MAX_RESPONSE_BYTES'' = []"
  shows "Load E disk \<noteq> Inr cfg"
proof
  assume "Load E disk = Inr cfg"
  then have cfg: "cfg = overlay E (file_over fc)" and u: "usable E cfg"
    using assms(1,2) by (auto simp: Load_exact configured_def)
  have "dv_MaxResponseBytes (cf_DAV cfg) = int_or E ''CARREL_DAV_MAX_RESPONSE_BYTES'' 0"
    by (simp add: cfg overlay_def overlay_DAV_def file_over_def or_value_def assms(3))
  also have "\<dots> = 0" using assms(4) by (simp add: int_or_def)
  finally show False using u by (simp add: usable_def)
qed

subsection \<open>The settings where they are used\<close>

lemma CollectionTTL_exact:
  assumes "0 < ca_CollectionTTLSeconds c" and "ca_CollectionTTLSeconds c \<le> 9223372036"
  shows "CollectionTTL_of c = ca_CollectionTTLSeconds c * second"
  using assms by (simp add: CollectionTTL_of_def wrap64_def second_def)

text \<open>One second more and the product wraps: the configuration is accepted and the cache falls back to 60 s.\<close>

lemma long_TTL_wraps:
  "ca_CollectionTTLSeconds c = 9223372037 \<Longrightarrow> CollectionTTL_of c < 0"
  by (simp add: CollectionTTL_of_def wrap64_def second_def)


subsection \<open>Saving the public address\<close>

text \<open>What a written configuration decodes to: an empty list of proxies is written as null.\<close>

definition file_of :: "Config \<Rightarrow> fileConfig" where
  "file_of c =
     \<lparr>ff_Port = Some (cf_Port c), ff_Bind = Some (cf_Bind c), ff_DataDir = Some (cf_DataDir c),
      ff_TrustedProxies = (if cf_TrustedProxies c = [] then None else Some (cf_TrustedProxies c)),
      ff_BasePath = Some (cf_BasePath c), ff_PublicURL = Some (cf_PublicURL c), ff_LogLevel = Some (cf_LogLevel c),
      ff_DAV = Some (cf_DAV c), ff_Cache = Some (cf_Cache c), ff_Photo = Some (cf_Photo c), ff_Import = Some (cf_Import c),
      ff_Files = Some (cf_Files c), ff_Progress = Some (cf_Progress c), ff_Threshold = Some (cf_Threshold c)\<rparr>"

lemma file_over_file_of:
  assumes "usable E c" and "TrimSpace (cf_PublicURL c) = cf_PublicURL c"
  shows "file_over (file_of c) = c"
proof -
  have "fillUnsetCeilings (cf_Cache c) = cf_Cache c" using assms(1) by (simp add: fillUnsetCeilings_def usable_def)
  then show ?thesis using assms(2) by (simp add: file_over_def file_of_def or_value_def defaults_def)
qed

lemma overlay_sections_idem:
  "overlay_DAV E (overlay_DAV E s) = overlay_DAV E s" "overlay_Cache E (overlay_Cache E r) = overlay_Cache E r"
  "overlay_Photo E (overlay_Photo E p) = overlay_Photo E p" "overlay_Import E (overlay_Import E i) = overlay_Import E i"
  "overlay_Files E (overlay_Files E f) = overlay_Files E f"
  "overlay_Progress E (overlay_Progress E g) = overlay_Progress E g"
  by (simp_all add: overlay_DAV_def overlay_Cache_def overlay_Photo_def overlay_Import_def overlay_Files_def
      overlay_Progress_def lower_or_def list_or_def int_or_def seconds_or_def whole_seconds_or_def Let_def split: option.splits)

lemma overlay_idem_but_address:
  assumes "TrimSpace (Getenv E ''CARREL_PUBLIC_URL'') = []"
  shows "overlay E ((overlay E c)\<lparr>cf_PublicURL := u\<rparr>) = (overlay E c)\<lparr>cf_PublicURL := u\<rparr>"
proof -
  have "text_or E k (text_or E k v) = text_or E k v" "lower_or E k (lower_or E k v) = lower_or E k v"
    "list_or E k (list_or E k l) = list_or E k l" "int_or E k (int_or E k n) = int_or E k n" for k v l n
    by (simp_all add: text_or_def lower_or_def list_or_def int_or_def Let_def split: option.splits)
  then show ?thesis using assms
    by (simp add: overlay_def overlay_sections_idem) (simp add: text_or_def)
qed

lemma with_var_back:
  "with_var (with_var (with_var E k a) k b) k c = with_var E k c"
  by (simp add: with_var_def)

lemma with_var_fields [simp]:
  "ce_U (with_var E k v) = ce_U E" "ce_Unmarshal (with_var E k v) = ce_Unmarshal E"
  "ce_MarshalIndent (with_var E k v) = ce_MarshalIndent E" "ce_ParseIP (with_var E k v) = ce_ParseIP E"
  "ce_ParseCIDR (with_var E k v) = ce_ParseCIDR E" "ce_url_Parse (with_var E k v) = ce_url_Parse E"
  "ce_ParseFloat (with_var E k v) = ce_ParseFloat E"
  by (simp_all add: with_var_def)

lemma Getenv_with_var [simp]:
  "Getenv (with_var E k v) l = (if l = k then (case v of Some x \<Rightarrow> x | None \<Rightarrow> []) else Getenv E l)"
  by (simp add: with_var_def Getenv_def)

lemma usable_with_var [simp]: "usable (with_var E k v) c = usable E c"
  unfolding usable_def validatePublicURL_def with_var_fields by (rule refl)

lemma config_path_from_dir:
  assumes "TrimSpace dir = dir" and "dir \<noteq> []"
  shows "config_path (with_var E ''CARREL_DATA_DIR'' (Some dir)) = filepath_Join dir ''config.json''"
  using assms by (simp add: config_path_def text_or_def)

lemma writeConfig_failed:
  assumes "writeConfig E w path cfg disk = (Some e, disk')"
  shows "disk' path = disk path"
proof -
  have "path \<noteq> path @ ''.tmp''" by simp
  then show ?thesis using assms
    by (auto simp: writeConfig_def Let_def split: option.splits if_splits)
qed

lemma writeConfig_done:
  assumes "writeConfig E w path cfg disk = (None, disk')"
  obtains raw where "ce_MarshalIndent E cfg = Some raw" and "disk' path = Contents (raw @ [CHR 0x0A])" and "usable E cfg"
proof -
  have "path \<noteq> path @ ''.tmp''" by simp
  then show ?thesis using assms that
    by (auto simp: writeConfig_def Let_def Validate_exact split: option.splits if_splits)
qed

text \<open>A failed save leaves \<open>config.json\<close> as it was.\<close>

lemma failed_save_keeps_the_file:
  assumes "SetPublicURL E w disk dir url = (Some e, disk', E')"
  shows "disk' (filepath_Join dir ''config.json'') = disk (filepath_Join dir ''config.json'')"
  using assms writeConfig_failed
  by (auto simp: SetPublicURL_def Let_def split: option.splits prod.splits sum.splits)

text \<open>Saving the public address: when the save succeeds, the directory then loads what it loaded before with
  the new address. The file written holds the whole configuration as it was loaded, so what the environment
  overrode is in \<open>config.json\<close> from then on, also for a process in which the variables are gone.\<close>

theorem saved_address_is_loaded:
  assumes S: "SetPublicURL E w disk dir url = (None, disk', E')"
    and dir: "TrimSpace dir = dir" "dir \<noteq> []"
    and unset: "TrimSpace (Getenv E ''CARREL_PUBLIC_URL'') = []"
    and json: "\<And>c raw. fst (LoadFromDir E disk dir) = Inr c \<Longrightarrow>
                 ce_MarshalIndent E (c\<lparr>cf_PublicURL := TrimSpace url\<rparr>) = Some raw \<Longrightarrow>
                 ce_Unmarshal E (raw @ [CHR 0x0A]) = Some (file_of (c\<lparr>cf_PublicURL := TrimSpace url\<rparr>))"
    and E2: "ce_Unmarshal E2 = ce_Unmarshal E" "config_path E2 = filepath_Join dir ''config.json''"
  shows "\<exists>cfg. fst (LoadFromDir E disk dir) = Inr cfg
             \<and> fst (LoadFromDir E' disk' dir) = Inr (cfg\<lparr>cf_PublicURL := TrimSpace url\<rparr>)
             \<and> configured E2 disk' = Some (cfg\<lparr>cf_PublicURL := TrimSpace url\<rparr>)"
proof -
  let ?D = "''CARREL_DATA_DIR''" and ?path = "filepath_Join dir ''config.json''"
  obtain cfg where L: "LoadFromDir E disk dir = (Inr cfg, E')"
    and W: "writeConfig E' w ?path (cfg\<lparr>cf_PublicURL := TrimSpace url\<rparr>) disk = (None, disk')"
    using S by (auto simp: SetPublicURL_def Let_def split: option.splits prod.splits sum.splits)
  let ?cfg = "cfg\<lparr>cf_PublicURL := TrimSpace url\<rparr>"
  have nul: "CHR 0x00 \<notin> set dir" using L by (auto simp: LoadFromDir_def Let_def split: if_splits)
  obtain v where E': "E' = with_var (with_var E ?D (Some dir)) ?D v"
    and load: "Load (with_var E ?D (Some dir)) disk = Inr cfg"
    using L nul by (auto simp: LoadFromDir_def Let_def)
  let ?E = "with_var E ?D (Some dir)"
  obtain raw where raw: "ce_MarshalIndent E' ?cfg = Some raw" "disk' ?path = Contents (raw @ [CHR 0x0A])" "usable E' ?cfg"
    using W by (rule writeConfig_done)
  have again: "with_var E' ?D (Some dir) = ?E" by (simp add: E' with_var_def)
  have dec: "ce_Unmarshal E (raw @ [CHR 0x0A]) = Some (file_of ?cfg)" using raw(1) L E' by (intro json) simp_all
  have over: "file_over (file_of ?cfg) = ?cfg" using raw(3) by (rule file_over_file_of) simp
  obtain base where base: "cfg = overlay ?E base" "env_readable ?E"
    using load by (auto simp: Load_exact map_option_case split: option.splits)
  have "overlay ?E ?cfg = ?cfg" unfolding base(1) by (rule overlay_idem_but_address) (simp add: unset)
  then have "Load ?E disk' = Inr ?cfg"
    using raw(2,3) dec over base(2) config_path_from_dir [OF dir, of E]
    by (simp add: Load_exact configured_def E')
  then have "fst (LoadFromDir E' disk' dir) = Inr ?cfg" using nul by (simp add: LoadFromDir_def Let_def again)
  moreover have "configured E2 disk' = Some ?cfg" using E2 raw(2) dec over by (simp add: configured_def)
  moreover have "fst (LoadFromDir E disk dir) = Inr cfg" by (simp add: L)
  ultimately show ?thesis by blast
qed

subsection \<open>A server's first start\<close>

definition demo_server :: "(string \<Rightarrow> string option) \<Rightarrow> config_env" where
  "demo_server vars =
     \<lparr>ce_U = ascii_unicode, ce_LookupEnv = vars, ce_ParseFloat = (\<lambda>_. None), ce_ParseIP = (\<lambda>_. None),
      ce_ParseCIDR = (\<lambda>_. None), ce_url_Parse = (\<lambda>_. Some (''https'', ''h'')),
      ce_Unmarshal = (\<lambda>_. Some (file_of (defaults\<lparr>cf_DataDir := ''/d'', cf_PublicURL := ''u''\<rparr>))),
      ce_MarshalIndent = (\<lambda>_. Some ''x'')\<rparr>"

lemma demo_server_loads:
  "LoadFromDir (demo_server (\<lambda>_. None)) (\<lambda>_. NotExist) ''/d''
     = (Inr (defaults\<lparr>cf_DataDir := ''/d''\<rparr>), demo_server (\<lambda>_. None))"
proof -
  let ?E = "with_var (demo_server (\<lambda>_. None)) ''CARREL_DATA_DIR'' (Some ''/d'')"
  let ?cfg = "defaults\<lparr>cf_DataDir := ''/d''\<rparr>"
  have d: "TrimSpace ''/d'' = ''/d''" by (rule TrimSpace_tight) (simp_all add: IsSpace_def)
  have g: "Getenv (demo_server (\<lambda>_. None)) k = []" for k
    by (simp add: Getenv_def demo_server_def)
  have o: "overlay ?E defaults = ?cfg"
    by (simp add: overlay_def overlay_DAV_def overlay_Cache_def overlay_Photo_def overlay_Import_def overlay_Files_def
        overlay_Progress_def text_or_def lower_or_def list_or_def int_or_def seconds_or_def whole_seconds_or_def
        set_seconds_def g d)
  have r: "env_readable ?E" by (simp add: env_readable_def int_ok_def seconds_ok_def g)
  have "usable ?E ?cfg" using defaults_usable [of ?E] d by (simp add: usable_def)
  then have "Load ?E (\<lambda>_. NotExist) = Inr ?cfg" by (simp add: Load_exact configured_def o r)
  then show ?thesis
    by (simp add: LoadFromDir_def Let_def) (simp add: with_var_def demo_server_def Getenv_def fun_eq_iff)
qed

theorem saved_address_is_loaded_witness:
  "\<exists>disk' E'. SetPublicURL (demo_server (\<lambda>_. None)) \<lparr>wo_written = True, wo_partial = [], wo_renamed = True\<rparr> (\<lambda>_. NotExist) ''/d'' ''u''
       = (None, disk', E')
     \<and> fst (LoadFromDir E' disk' ''/d'') = Inr (defaults\<lparr>cf_DataDir := ''/d'', cf_PublicURL := ''u''\<rparr>)"
proof -
  let ?E = "demo_server (\<lambda>_. None)" and ?w = "\<lparr>wo_written = True, wo_partial = [], wo_renamed = True\<rparr>"
  let ?cfg = "defaults\<lparr>cf_DataDir := ''/d''\<rparr>"
  have d: "TrimSpace ''/d'' = ''/d''" "TrimSpace ''u'' = ''u''"
    by (rule TrimSpace_tight; simp add: IsSpace_def)+
  have url: "validatePublicURL ?E ''u'' = None" by (simp add: validatePublicURL_def demo_server_def d)
  have "usable ?E (?cfg\<lparr>cf_PublicURL := ''u''\<rparr>)" using defaults_usable [of ?E] d url by (simp add: usable_def)
  then have v: "Validate ?E (?cfg\<lparr>cf_PublicURL := ''u''\<rparr>) = None" by (simp add: Validate_exact)
  have m: "ce_MarshalIndent ?E c = Some ''x''" for c by (simp add: demo_server_def)
  have um: "ce_Unmarshal ?E raw = Some (file_of (?cfg\<lparr>cf_PublicURL := ''u''\<rparr>))" for raw by (simp add: demo_server_def)
  obtain disk' E' where S: "SetPublicURL ?E ?w (\<lambda>_. NotExist) ''/d'' ''u'' = (None, disk', E')"
    by (simp add: SetPublicURL_def Let_def d url demo_server_loads writeConfig_def v m)
  have path: "config_path (with_var ?E ''CARREL_DATA_DIR'' (Some ''/d'')) = filepath_Join ''/d'' ''config.json''"
    by (rule config_path_from_dir) (simp_all add: d)
  have unset: "TrimSpace (Getenv ?E ''CARREL_PUBLIC_URL'') = []" by (simp add: Getenv_def demo_server_def)
  have "\<exists>cfg. fst (LoadFromDir ?E (\<lambda>_. NotExist) ''/d'') = Inr cfg
      \<and> fst (LoadFromDir E' disk' ''/d'') = Inr (cfg\<lparr>cf_PublicURL := TrimSpace ''u''\<rparr>)
      \<and> configured (with_var ?E ''CARREL_DATA_DIR'' (Some ''/d'')) disk' = Some (cfg\<lparr>cf_PublicURL := TrimSpace ''u''\<rparr>)"
    by (rule saved_address_is_loaded [OF S d(1) _ unset _ _ path]) (simp_all add: demo_server_loads d um)
  then show ?thesis using S by (auto simp: demo_server_loads d)
qed


end
