(* ===== verification/ProviderCache.thy ===== *)
theory ProviderCache
  imports SessionCache
begin

text \<open>
  The interface between the providers and the session cache: the type \<open>Cache\<close> of
  \<open>internal/provider/contacts/provider.go\<close> as a record of operations, what its callers may rely on as the
  locale \<open>provider_cache\<close>, and the cache of \<open>internal/session\<close> as its instance. A cache may forget anything
  at any time; what it does answer was put there.
\<close>

record 'c cache_ops =
  co_NeedsRefresh :: "'c \<Rightarrow> time \<Rightarrow> collectionKey \<Rightarrow> string \<Rightarrow> bool"
  co_CTag :: "'c \<Rightarrow> collectionKey \<Rightarrow> string option"
  co_GetETags :: "'c \<Rightarrow> collectionKey \<Rightarrow> 'c \<times> (string, string) gomap option"
  co_SetETags :: "'c \<Rightarrow> time \<Rightarrow> collectionKey \<Rightarrow> string \<Rightarrow> (string, string) gomap \<Rightarrow> 'c"
  co_GetBody :: "'c \<Rightarrow> collectionKey \<Rightarrow> string \<Rightarrow> 'c \<times> bytes option"
  co_PutBody :: "'c \<Rightarrow> collectionKey \<Rightarrow> string \<Rightarrow> bytes \<Rightarrow> 'c"
  co_InvalidateCollection :: "'c \<Rightarrow> collectionKey \<Rightarrow> 'c"

type_synonym tag_entry = "string \<times> time \<times> (string, string) gomap"

text \<open>\<open>subcache\<close>: everything the second cache holds, the first holds as well.\<close>

definition subcache :: "('k \<Rightarrow> tag_entry option) \<Rightarrow> ('k \<Rightarrow> tag_entry option) \<Rightarrow> ('k \<Rightarrow> string \<Rightarrow> bytes option) \<Rightarrow>
    ('k \<Rightarrow> string \<Rightarrow> bytes option) \<Rightarrow> bool" where
  "subcache t t' b b' \<longleftrightarrow> (\<forall>k x. t' k = Some x \<longrightarrow> t k = Some x) \<and> (\<forall>k p x. b' k p = Some x \<longrightarrow> b k p = Some x)"

lemma subcache_refl: "subcache t t b b"
  by (simp add: subcache_def)

locale provider_cache =
  fixes ops :: "'c cache_ops" and ok :: "'c \<Rightarrow> bool" and ttl :: duration
    and tags :: "'c \<Rightarrow> collectionKey \<Rightarrow> tag_entry option"
    and body :: "'c \<Rightarrow> collectionKey \<Rightarrow> string \<Rightarrow> bytes option"
  assumes CTag: "ok c \<Longrightarrow> co_CTag ops c k = map_option fst (tags c k)"
    and GetETags: "ok c \<Longrightarrow> co_GetETags ops c k = (c', r) \<Longrightarrow>
        ok c' \<and> r = map_option (snd \<circ> snd) (tags c k) \<and> tags c' = tags c \<and> body c' = body c"
    and GetBody: "ok c \<Longrightarrow> co_GetBody ops c k p = (c', b) \<Longrightarrow>
        ok c' \<and> b = body c k p \<and> tags c' = tags c \<and> body c' = body c"
    and SetETags: "ok c \<Longrightarrow> gm_wf m \<Longrightarrow>
        ok (co_SetETags ops c now k t m) \<and>
        subcache ((tags c)(k \<mapsto> (t, now, m))) (tags (co_SetETags ops c now k t m)) (body c) (body (co_SetETags ops c now k t m))"
    and PutBody: "ok c \<Longrightarrow>
        ok (co_PutBody ops c k p x) \<and>
        subcache ((tags c)(k := Some (case tags c k of Some e \<Rightarrow> e | None \<Rightarrow> ([], zero_time, []))))
          (tags (co_PutBody ops c k p x)) ((body c)(k := (body c k)(p \<mapsto> x))) (body (co_PutBody ops c k p x))"
    and InvalidateCollection: "ok c \<Longrightarrow>
        ok (co_InvalidateCollection ops c k) \<and>
        subcache ((tags c)(k := None)) (tags (co_InvalidateCollection ops c k))
          ((body c)(k := Map.empty)) (body (co_InvalidateCollection ops c k))"
    and NeedsRefresh: "ok c \<Longrightarrow> \<not> co_NeedsRefresh ops c now k s \<Longrightarrow>
        \<exists>t at m. tags c k = Some (t, at, m) \<and> time_sub now at < ttl \<and> (s = [] \<or> s = t)"
    and tags_wf: "ok c \<Longrightarrow> tags c k = Some (t, at, m) \<Longrightarrow> gm_wf m"

subsection \<open>The session cache\<close>

definition session_cache :: "(Cache \<times> nat) cache_ops" where
  "session_cache =
     \<lparr>co_NeedsRefresh = (\<lambda>(c, n). NeedsRefresh c),
      co_CTag = (\<lambda>(c, n). Cache_CTag c),
      co_GetETags = (\<lambda>(c, n) k. case GetETags c k of (c, r) \<Rightarrow> ((c, n), r)),
      co_SetETags = (\<lambda>(c, n) now k t m. (the (SetETags c now k t m), n)),
      co_GetBody = (\<lambda>(c, n) k p. GetBody c n k p),
      co_PutBody = (\<lambda>(c, n) k p x. the (PutBody c n k p x)),
      co_InvalidateCollection = (\<lambda>(c, n) k. (InvalidateCollection k c, n))\<rparr>"

definition session_ok :: "duration \<Rightarrow> Cache \<times> nat \<Rightarrow> bool" where
  "session_ok ttl x \<longleftrightarrow> cache_inv (fst x) \<and> CollectionTTL (c_cfg (fst x)) = ttl"

definition tags_at :: "Cache \<Rightarrow> collectionKey \<Rightarrow> tag_entry option" where
  "tags_at c k = map_option (\<lambda>e. (ce_ctag e, ce_fetchedAt e, ce_etags e)) (gm_get (c_collections c) k)"

text \<open>Eviction only forgets.\<close>

definition shrunk :: "Cache \<Rightarrow> Cache \<Rightarrow> bool" where
  "shrunk c s \<longleftrightarrow> subcache (tags_at c) (tags_at s) (body_at c) (body_at s)"

lemma shrunk_refl: "shrunk c c"
  by (simp add: shrunk_def subcache_refl)

lemma shrunk_body: "shrunk c s \<Longrightarrow> shrunk c (evictOldestBody s)"
proof -
  assume s: "shrunk c s"
  have t: "tags_at (evictOldestBody s) = tags_at s"
    by (rule ext) (simp add: tags_at_def evictOldestBody_collections)
  have b: "body_at s k p = Some x" if "body_at (evictOldestBody s) k p = Some x" for k p x
    using that
    by (auto simp: evictOldestBody_def Let_def body_at_def bind_eq_Some_conv split: option.splits if_splits)
  show ?thesis using s t b by (auto simp: shrunk_def subcache_def)
qed

lemma shrunk_drop: "shrunk c s \<Longrightarrow> shrunk c (dropCollectionLocked k s)"
  by (auto simp: shrunk_def subcache_def tags_at_def body_at_def dropCollection_collections bind_eq_Some_conv split: if_splits)

lemma shrunk_collection: "shrunk c s \<Longrightarrow> shrunk c (evictOldestCollection s)"
  by (simp add: evictOldestCollection_def shrunk_drop)

lemma shrunk_thumb: "shrunk c s \<Longrightarrow> shrunk c (evictOldestThumb s)"
  by (simp add: shrunk_def tags_at_def body_at_def subcache_def)

lemma evictLocked_shrinks:
  assumes "cache_inv c" and "evictLocked c = Some c'"
  shows "shrunk c c'"
proof -
  let ?Q = "shrunk c"
  obtain c1 where 1: "evict_bodies c = Some c1" "cache_inv c1" "?Q c1"
    using bodies.drains_with [OF assms(1), where Q = ?Q] shrunk_refl shrunk_body by blast
  obtain c2 where 2: "evictThumbs c1 = Some c2" "cache_inv c2" "?Q c2"
    using thumbs.drains_with [OF 1(2), where Q = ?Q] 1(3) shrunk_thumb by blast
  obtain c3 where 3: "evict_collections c2 = Some c3" "cache_inv c3" "?Q c3"
    using cols.drains_with [OF 2(2), where Q = ?Q] 2(3) shrunk_collection by blast
  obtain c4 where 4: "evict_etags c3 = Some c4" "?Q c4"
    using etags.drains_with [OF 3(2), where Q = ?Q] 3(3) shrunk_collection by blast
  show ?thesis using assms(2) 1(1) 2(1) 3(1) 4 by (simp add: evictLocked_def)
qed

lemma SetETags_shrinks:
  assumes "cache_inv c" and "gm_wf m"
  shows "\<exists>c'. SetETags c now k t m = Some c' \<and> cache_inv c' \<and> c_cfg c' = c_cfg c \<and>
    subcache ((tags_at c)(k \<mapsto> (t, now, m))) (tags_at c') (body_at c) (body_at c')"
proof -
  let ?c1 = "c\<lparr>c_collections := gm_put k (ent_at c k\<lparr>ce_ctag := t, ce_fetchedAt := now, ce_etags := m\<rparr>) (c_collections c),
        c_order := touch_list k (order_with c k),
        c_etagCount := c_etagCount c + int (length m) - int (length (ce_etags (ent_at c k)))\<rparr>"
  have pre: "cache_inv ?c1" by (rule SetETags_pre [OF assms])
  obtain c' where c': "evictLocked ?c1 = Some c'" "cache_inv c'" "same_frame ?c1 c'"
    using evictLocked_ok [OF pre] by blast
  have "tags_at ?c1 = (tags_at c)(k \<mapsto> (t, now, m))" by (rule ext) (simp add: tags_at_def)
  moreover have "body_at ?c1 = body_at c"
    by (intro ext) (simp add: body_at_def ent_at_bodies)
  ultimately show ?thesis
    using c' evictLocked_shrinks [OF pre c'(1)] by (simp add: SetETags_eq shrunk_def same_frame_def)
qed

lemma PutBody_shrinks:
  assumes "cache_inv c"
  shows "\<exists>c' n'. PutBody c n k p x = Some (c', n') \<and> cache_inv c' \<and> c_cfg c' = c_cfg c \<and>
    subcache ((tags_at c)(k := Some (case tags_at c k of Some e \<Rightarrow> e | None \<Rightarrow> ([], zero_time, [])))) (tags_at c')
      ((body_at c)(k := (body_at c k)(p \<mapsto> x))) (body_at c')"
proof -
  obtain seq lc n' where p: "PutBody c n k p x = map_option (\<lambda>c. (c, n')) (evictLocked (put_body c k p x seq lc))"
    using PutBody_eq assms unfolding cache_inv_def by blast
  let ?c1 = "put_body c k p x seq lc"
  have pre: "cache_inv ?c1" by (rule put_body_inv [OF assms])
  obtain c' where c': "evictLocked ?c1 = Some c'" "cache_inv c'" "same_frame ?c1 c'"
    using evictLocked_ok [OF pre] by blast
  have t: "tags_at ?c1 = (tags_at c)(k := Some (case tags_at c k of Some e \<Rightarrow> e | None \<Rightarrow> ([], zero_time, [])))"
    by (rule ext) (simp add: tags_at_def put_body_def ent_at_def new_entry_def split: option.split)
  have b: "body_at ?c1 = (body_at c)(k := (body_at c k)(p \<mapsto> x))"
    by (intro ext) (simp add: put_body_def body_at_def ent_at_def new_entry_def split: option.split)
  have "c_cfg ?c1 = c_cfg c" by (simp add: put_body_def)
  then show ?thesis
    using p c' evictLocked_shrinks [OF pre c'(1)] t b by (simp add: shrunk_def same_frame_def)
qed

lemma touched_views [simp]:
  "tags_at (touch k c) = tags_at c" "body_at (touch k c) = body_at c" "c_cfg (touch k c) = c_cfg c"
  by (simp_all add: tags_at_def body_at_def touch_def fun_eq_iff)

lemma touchBody_views:
  assumes "touchBody k p c n = (c', n')"
  shows "tags_at c' = tags_at c \<and> body_at c' = body_at c \<and> c_cfg c' = c_cfg c"
proof (cases "find_first (same_body k p) (c_bodies c)")
  case None
  then show ?thesis using assms by (simp add: touchBody_def)
next
  case (Some ref)
  obtain s i n2 where "nextSeqLocked c n = (s, c\<lparr>c_localClock := i\<rparr>, n2)" by (rule nextSeqLocked_cases)
  then have "c' = c\<lparr>c_localClock := i, c_bodies := ref\<lparr>br_seq := s\<rparr> # remove_first (same_body k p) (c_bodies c)\<rparr>"
    using assms Some by (simp add: touchBody_def)
  then show ?thesis by (simp add: tags_at_def body_at_def fun_eq_iff)
qed

lemma GetBody_views:
  assumes "GetBody c n k p = ((c', n'), b)"
  shows "b = body_at c k p \<and> tags_at c' = tags_at c \<and> body_at c' = body_at c \<and> c_cfg c' = c_cfg c"
proof (cases "body_at c k p")
  case None
  then have "GetBody c n k p = ((c, n), None)"
    by (auto simp: GetBody_def body_at_def bind_eq_None_conv split: option.splits)
  then show ?thesis using assms None by simp
next
  case (Some x)
  obtain c1 n1 where t: "touchBody k p c n = (c1, n1)" by fastforce
  have "GetBody c n k p = ((touch k c1, n1), Some x)"
    using Some t by (auto simp: GetBody_def body_at_def bind_eq_Some_conv)
  then show ?thesis using assms Some touchBody_views [OF t] by auto
qed

interpretation sc: provider_cache session_cache "session_ok ttl" ttl "\<lambda>x. tags_at (fst x)" "\<lambda>x. body_at (fst x)" for ttl
proof
  fix c :: "Cache \<times> nat" and k p now t m x s c' r b at
  obtain c0 n where c: "c = (c0, n)" by (cases c)
  assume ok: "session_ok ttl c"
  then have inv: "cache_inv c0" and cfg: "CollectionTTL (c_cfg c0) = ttl" by (simp_all add: session_ok_def c)
  show "co_CTag session_cache c k = map_option fst (tags_at (fst c) k)"
    by (cases "gm_get (c_collections c0) k") (simp_all add: session_cache_def c Cache_CTag_def tags_at_def)
  show "co_GetETags session_cache c k = (c', r) \<Longrightarrow> session_ok ttl c' \<and> r = map_option (snd \<circ> snd) (tags_at (fst c) k) \<and>
      tags_at (fst c') = tags_at (fst c) \<and> body_at (fst c') = body_at (fst c)"
    using inv cfg touch_inv [OF inv]
    by (auto simp: session_cache_def c GetETags_def session_ok_def tags_at_def [of c0 k] split: option.splits)
  show "co_GetBody session_cache c k p = (c', b) \<Longrightarrow> session_ok ttl c' \<and> b = body_at (fst c) k p \<and>
      tags_at (fst c') = tags_at (fst c) \<and> body_at (fst c') = body_at (fst c)"
    using GetBody_ok [OF inv, of n k p] cfg GetBody_views [of c0 n k p "fst c'" "snd c'" b]
    by (cases c') (simp add: session_cache_def c session_ok_def)
  show "session_ok ttl (co_PutBody session_cache c k p x) \<and>
      subcache ((tags_at (fst c))(k := Some (case tags_at (fst c) k of Some e \<Rightarrow> e | None \<Rightarrow> ([], zero_time, []))))
        (tags_at (fst (co_PutBody session_cache c k p x))) ((body_at (fst c))(k := (body_at (fst c) k)(p \<mapsto> x)))
        (body_at (fst (co_PutBody session_cache c k p x)))"
    using PutBody_shrinks [OF inv, of n k p x] cfg by (auto simp: session_cache_def c session_ok_def)
  show "session_ok ttl (co_InvalidateCollection session_cache c k) \<and>
      subcache ((tags_at (fst c))(k := None)) (tags_at (fst (co_InvalidateCollection session_cache c k)))
        ((body_at (fst c))(k := Map.empty)) (body_at (fst (co_InvalidateCollection session_cache c k)))"
    using inv cfg dropCollection_inv [OF inv, of k]
    by (auto simp: session_cache_def c session_ok_def InvalidateCollection_def subcache_def tags_at_def body_at_def
        dropCollection_collections bind_eq_Some_conv)
  show "\<not> co_NeedsRefresh session_cache c now k s \<Longrightarrow>
      \<exists>t at m. tags_at (fst c) k = Some (t, at, m) \<and> time_sub now at < ttl \<and> (s = [] \<or> s = t)"
    using cfg by (auto simp: session_cache_def c NeedsRefresh_def tags_at_def split: option.splits if_splits)
  show "tags_at (fst c) k = Some (t, at, m) \<Longrightarrow> gm_wf m"
    using inv entry_at [of c0 k] by (auto simp: c tags_at_def cache_inv_def)
  assume "gm_wf m"
  then show "session_ok ttl (co_SetETags session_cache c now k t m) \<and>
      subcache ((tags_at (fst c))(k \<mapsto> (t, now, m))) (tags_at (fst (co_SetETags session_cache c now k t m)))
        (body_at (fst c)) (body_at (fst (co_SetETags session_cache c now k t m)))"
    using SetETags_shrinks [OF inv, of m now k t] cfg by (auto simp: session_cache_def c session_ok_def)
qed

end
