(* ===== verification/DavTransport.thy ===== *)
theory DavTransport
  imports DavGuard FilesPath
begin

text \<open>
  The DAV client, \<open>internal/dav/transport.go\<close>, \<open>multistatus.go\<close>, \<open>errors.go\<close> and the request bodies of
  \<open>caldav.go\<close> and \<open>carddav.go\<close>. The package net/http is one function that takes a request and the state of
  the world to an answer and the next state, so other clients of the server may act in every call. XML
  texts are written and read by arguments of the model; what a body asks for is kept as a value.
\<close>

subsection \<open>Names and answers\<close>

type_synonym xml_name = "string \<times> string"

definition NamespaceDAV :: string where "NamespaceDAV = ''DAV:''"
definition NamespaceCalDAV :: string where "NamespaceCalDAV = ''urn:ietf:params:xml:ns:caldav''"
definition NamespaceCardDAV :: string where "NamespaceCardDAV = ''urn:ietf:params:xml:ns:carddav''"
definition NamespaceCS :: string where "NamespaceCS = ''http://calendarserver.org/ns/''"

definition ResourceTypeName :: xml_name where "ResourceTypeName = (NamespaceDAV, ''resourcetype'')"
definition CollectionName :: xml_name where "CollectionName = (NamespaceDAV, ''collection'')"
definition GetCTagName :: xml_name where "GetCTagName = (NamespaceCS, ''getctag'')"
definition GetETagName :: xml_name where "GetETagName = (NamespaceDAV, ''getetag'')"
definition GetContentTypeName :: xml_name where "GetContentTypeName = (NamespaceDAV, ''getcontenttype'')"
definition AddressDataName :: xml_name where "AddressDataName = (NamespaceCardDAV, ''address-data'')"
definition CalendarDataName :: xml_name where "CalendarDataName = (NamespaceCalDAV, ''calendar-data'')"

record RawXMLValue =
  rx_Name :: xml_name
  rx_Content :: string

record PropStat =
  pt_Prop :: "RawXMLValue list"
  pt_Status :: "int option"

text \<open>A response keeps the paths of its hrefs and the codes of its status lines.\<close>

record Response =
  rs_Hrefs :: "string list"
  rs_PropStats :: "PropStat list"
  rs_Status :: "int option"

type_synonym MultiStatus = "Response list"

datatype dav_error =
    HTTPError int | ErrURL | ErrGuard guard_error | ErrNewRequest | ErrNetwork | ErrEncode | ErrXML
  | ErrDecode | ErrNoHref

definition StatusCode :: "dav_error \<Rightarrow> int" where
  "StatusCode e = (case e of HTTPError code \<Rightarrow> code | _ \<Rightarrow> 0)"

definition IsPreconditionFailed :: "dav_error \<Rightarrow> bool" where
  "IsPreconditionFailed e \<longleftrightarrow> StatusCode e = 412"

definition IsNotFound :: "dav_error \<Rightarrow> bool" where
  "IsNotFound e \<longleftrightarrow> (case e of HTTPError code \<Rightarrow> code = 404 | _ \<Rightarrow> False)"

definition resp_Path :: "Response \<Rightarrow> dav_error + string" where
  "resp_Path r = (case rs_Hrefs r of [] \<Rightarrow> Inl ErrNoHref | h # _ \<Rightarrow> Inr h)"

definition status_ok :: "int option \<Rightarrow> bool" where
  "status_ok s = (case s of Some code \<Rightarrow> code div 100 = 2 | None \<Rightarrow> False)"

definition OKProp :: "Response \<Rightarrow> dav_error + RawXMLValue list" where
  "OKProp r =
     (case find_first (\<lambda>ps. status_ok (pt_Status ps)) (rs_PropStats r) of
        Some ps \<Rightarrow> Inr (pt_Prop ps)
      | None \<Rightarrow> if status_ok (rs_Status r) then Inr [] else Inl (HTTPError 500))"

definition prop_Get :: "RawXMLValue list \<Rightarrow> xml_name \<Rightarrow> RawXMLValue option" where
  "prop_Get p name = find_first (\<lambda>raw. snd (rx_Name raw) \<noteq> [] \<and> rx_Name raw = name) p"

text \<open>\<open>DecodeProp\<close> into a type that is named \<open>name\<close>; \<open>decode\<close> is \<open>xml.Unmarshal\<close> into that type.\<close>

definition DecodeProp :: "xml_name \<Rightarrow> (RawXMLValue \<Rightarrow> 'v option) \<Rightarrow> Response \<Rightarrow> dav_error + 'v" where
  "DecodeProp name decode r =
     (case OKProp r of
        Inl e \<Rightarrow> Inl e
      | Inr p \<Rightarrow>
          (case prop_Get p name of
             None \<Rightarrow> Inl (HTTPError 404)
           | Some raw \<Rightarrow> (case decode raw of None \<Rightarrow> Inl ErrDecode | Some v \<Rightarrow> Inr v)))"

definition ResourceType_Is :: "xml_name list \<Rightarrow> xml_name \<Rightarrow> bool" where
  "ResourceType_Is raws name \<longleftrightarrow> list_ex (\<lambda>n. snd n \<noteq> [] \<and> (n = name \<or> snd n = snd name)) raws"

subsection \<open>Request bodies\<close>

record TimeRange =
  tm_Start :: "time option"
  tm_End :: "time option"

record CompFilter =
  cp_Name :: string
  cp_TimeRange :: "TimeRange option"
  cp_PropFilters :: "(string \<times> string) list"

datatype dav_body =
    PropFindBody "xml_name list"
  | AddressBookMultiget "xml_name list" "string list"
  | CalendarMultiget "xml_name list" "string list"
  | AddressBookQuery "xml_name list" string "(string \<times> string) list"
  | CalendarQuery "xml_name list" CompFilter

definition NewAddressBookMultiget :: "string list \<Rightarrow> xml_name list \<Rightarrow> dav_body" where
  "NewAddressBookMultiget hrefs props =
     AddressBookMultiget (if props = [] then [GetETagName, AddressDataName] else props) hrefs"

definition NewCalendarMultiget :: "string list \<Rightarrow> xml_name list \<Rightarrow> dav_body" where
  "NewCalendarMultiget hrefs props =
     CalendarMultiget (if props = [] then [GetETagName, CalendarDataName] else props) hrefs"

definition SearchedVCardProps :: "string list" where
  "SearchedVCardProps = [''FN'', ''N'', ''NICKNAME'', ''EMAIL'', ''TEL'', ''ORG'', ''NOTE'']"

definition NewAddressBookQuery :: "string \<Rightarrow> string list \<Rightarrow> dav_body" where
  "NewAddressBookQuery txt properties =
     (let properties = (if properties = [] then SearchedVCardProps else properties)
      in AddressBookQuery [GetETagName, AddressDataName] ''anyof'' (map (\<lambda>name. (name, txt)) properties))"

definition rawProps :: "xml_name list \<Rightarrow> xml_name list" where
  "rawProps props = (if props = [] then [GetETagName, CalendarDataName] else props)"

definition NewCalendarComponentQuery :: "string \<Rightarrow> time \<Rightarrow> time \<Rightarrow> xml_name list \<Rightarrow> dav_body" where
  "NewCalendarComponentQuery component start stop props =
     (let inner = \<lparr>cp_Name = component, cp_TimeRange = None, cp_PropFilters = []\<rparr>;
          inner = (if \<not> is_zero start \<or> \<not> is_zero stop
                   then inner\<lparr>cp_TimeRange := Some \<lparr>tm_Start = (if is_zero start then None else Some start),
                                                    tm_End = (if is_zero stop then None else Some stop)\<rparr>\<rparr>
                   else inner)
      in CalendarQuery (rawProps props) inner)"

definition NewCalendarQuery :: "time \<Rightarrow> time \<Rightarrow> xml_name list \<Rightarrow> dav_body" where
  "NewCalendarQuery start stop props = NewCalendarComponentQuery ''VEVENT'' start stop props"

definition NewCalendarTextQuery :: "string \<Rightarrow> string \<Rightarrow> string \<Rightarrow> xml_name list \<Rightarrow> dav_body" where
  "NewCalendarTextQuery component property txt props =
     CalendarQuery (rawProps props) \<lparr>cp_Name = component, cp_TimeRange = None, cp_PropFilters = [(property, txt)]\<rparr>"

subsection \<open>Requests\<close>

datatype Depth = DepthZero | DepthOne | DepthInfinity

fun Depth_String :: "Depth \<Rightarrow> string" where
  "Depth_String DepthZero = ''0''"
| "Depth_String DepthOne = ''1''"
| "Depth_String DepthInfinity = ''infinity''"

record dav_url = url +
  url_Path :: string

record http_request =
  rq_Method :: string
  rq_URL :: dav_url
  rq_Auth :: "(string \<times> string) option"
  rq_Headers :: "(string \<times> string) list"
  rq_Body :: "string option"

record http_response =
  rp_Status :: int
  rp_ETag :: string
  rp_ContentType :: string
  rp_Body :: string

record 's http =
  ht_Do :: "http_request \<Rightarrow> 's \<Rightarrow> http_response option \<times> 's"
  ht_lookup :: "'s \<Rightarrow> string \<Rightarrow> ip list option"
  ht_Parse :: "string \<Rightarrow> dav_url option"
  ht_URL_String :: "dav_url \<Rightarrow> string"
  ht_MediaType :: "string \<Rightarrow> string option"
  ht_Encode :: "dav_body \<Rightarrow> string option"
  ht_ParseMultiStatus :: "string \<Rightarrow> MultiStatus option"

record PutOptions =
  po_ContentType :: string
  po_IfMatch :: string
  po_IfNoneMatch :: bool

record byte_range =
  ra_Start :: int
  ra_End :: int

record Client =
  cl_base :: dav_url
  cl_guard :: Guard
  cl_user :: string
  cl_pass :: string
  cl_maxBody :: int

type_synonym ('s, 'a) call = "'s \<Rightarrow> (dav_error + 'a) \<times> 's"

definition path_Join2 :: "string \<Rightarrow> string \<Rightarrow> string" where
  "path_Join2 a b = (if a \<noteq> [] then path_Clean (a @ ''/'' @ b) else if b \<noteq> [] then path_Clean b else [])"

definition resolve :: "'s http \<Rightarrow> Client \<Rightarrow> string \<Rightarrow> dav_error + dav_url" where
  "resolve H c href =
     (if HasPrefix href ''http://'' \<or> HasPrefix href ''https://''
      then (case ht_Parse H href of None \<Rightarrow> Inl ErrURL | Some u \<Rightarrow> Inr u)
      else
        (let href = (if \<not> HasPrefix href ''/'' then path_Join2 (url_Path (cl_base c)) href else href)
         in Inr ((cl_base c)\<lparr>url_Path := href\<rparr>)))"

definition newRequest ::
  "net_env \<Rightarrow> 's http \<Rightarrow> Client \<Rightarrow> string \<Rightarrow> dav_url \<Rightarrow> string option \<Rightarrow> 's \<Rightarrow> dav_error + http_request" where
  "newRequest N H c method target body s =
     (case ValidateURL N (cl_guard c) (ht_lookup H s) (Some (url.truncate target)) of
        Some e \<Rightarrow> Inl (ErrGuard e)
      | None \<Rightarrow>
          (case ht_Parse H (ht_URL_String H target) of
             None \<Rightarrow> Inl ErrNewRequest
           | Some u \<Rightarrow>
               Inr \<lparr>rq_Method = method, rq_URL = u,
                    rq_Auth = (if cl_user c \<noteq> [] then Some (cl_user c, cl_pass c) else None),
                    rq_Headers = [], rq_Body = body\<rparr>))"

definition Header_Set :: "string \<Rightarrow> string \<Rightarrow> http_request \<Rightarrow> http_request" where
  "Header_Set name v r = r\<lparr>rq_Headers := gm_put name v (rq_Headers r)\<rparr>"

definition do_request :: "'s http \<Rightarrow> http_request \<Rightarrow> ('s, http_response) call" where
  "do_request H r s =
     (case ht_Do H r s of
        (None, s) \<Rightarrow> (Inl ErrNetwork, s)
      | (Some resp, s) \<Rightarrow>
          if rp_Status resp div 100 \<noteq> 2 then (Inl (HTTPError (rp_Status resp)), s) else (Inr resp, s))"

text \<open>\<open>send\<close> is the shared shape of the methods: resolve, build the request, set its headers, do it.\<close>

definition send ::
  "net_env \<Rightarrow> 's http \<Rightarrow> Client \<Rightarrow> string \<Rightarrow> string \<Rightarrow> string option \<Rightarrow> (http_request \<Rightarrow> http_request) \<Rightarrow> ('s, http_response) call" where
  "send N H c method href body headers s =
     (case resolve H c href of
        Inl e \<Rightarrow> (Inl e, s)
      | Inr target \<Rightarrow>
          (case newRequest N H c method target body s of
             Inl e \<Rightarrow> (Inl e, s)
           | Inr r \<Rightarrow> do_request H (headers r) s))"

definition multistatus_call ::
  "net_env \<Rightarrow> 's http \<Rightarrow> Client \<Rightarrow> string \<Rightarrow> string \<Rightarrow> Depth \<Rightarrow> dav_body \<Rightarrow> ('s, MultiStatus) call" where
  "multistatus_call N H c method href depth body s =
     (case resolve H c href of
        Inl e \<Rightarrow> (Inl e, s)
      | Inr _ \<Rightarrow>
          (case ht_Encode H body of
             None \<Rightarrow> (Inl ErrEncode, s)
           | Some raw \<Rightarrow>
               (case send N H c method href (Some raw)
                       (Header_Set ''Depth'' (Depth_String depth) \<circ>
                        Header_Set ''Content-Type'' ''text/xml; charset=\"utf-8\"'') s of
                  (Inl e, s) \<Rightarrow> (Inl e, s)
                | (Inr resp, s) \<Rightarrow>
                    if rp_Status resp \<noteq> 207 then (Inl (HTTPError (rp_Status resp)), s)
                    else
                      (case readLimited (rp_Body resp) (cl_maxBody c) of
                         Inl e \<Rightarrow> (Inl (ErrGuard e), s)
                       | Inr data \<Rightarrow>
                           (case ht_ParseMultiStatus H data of
                              None \<Rightarrow> (Inl ErrXML, s)
                            | Some ms \<Rightarrow> (Inr ms, s))))))"

definition PropFind :: "net_env \<Rightarrow> 's http \<Rightarrow> Client \<Rightarrow> string \<Rightarrow> Depth \<Rightarrow> xml_name list \<Rightarrow> ('s, MultiStatus) call" where
  "PropFind N H c href depth props = multistatus_call N H c ''PROPFIND'' href depth (PropFindBody props)"

definition dav_Report :: "net_env \<Rightarrow> 's http \<Rightarrow> Client \<Rightarrow> string \<Rightarrow> Depth \<Rightarrow> dav_body \<Rightarrow> ('s, MultiStatus) call" where
  "dav_Report N H c href depth body = multistatus_call N H c ''REPORT'' href depth body"

definition range_header :: "byte_range \<Rightarrow> string" where
  "range_header r =
     (if ra_End r > 0 then ''bytes='' @ dec_int (ra_Start r) @ ''-'' @ dec_int (ra_End r)
      else ''bytes='' @ dec_int (ra_Start r) @ ''-'')"

definition dav_get :: "net_env \<Rightarrow> 's http \<Rightarrow> Client \<Rightarrow> string \<Rightarrow> byte_range option \<Rightarrow> int \<Rightarrow> ('s, string \<times> string) call" where
  "dav_get N H c href rng m s =
     (case send N H c ''GET'' href None
             (\<lambda>r. case rng of None \<Rightarrow> r | Some g \<Rightarrow> Header_Set ''Range'' (range_header g) r) s of
        (Inl e, s) \<Rightarrow> (Inl e, s)
      | (Inr resp, s) \<Rightarrow>
          (let ctype = rp_ContentType resp;
               ctype = (if ctype \<noteq> [] then (case ht_MediaType H ctype of Some t \<Rightarrow> t | None \<Rightarrow> ctype) else ctype)
           in if m \<le> 0 then (Inr (rp_Body resp, ctype), s)
              else (Inr (limitedBody (rp_Body resp) m, ctype), s)))"

definition dav_Get :: "net_env \<Rightarrow> 's http \<Rightarrow> Client \<Rightarrow> string \<Rightarrow> byte_range option \<Rightarrow> ('s, string \<times> string) call" where
  "dav_Get N H c href rng = dav_get N H c href rng (cl_maxBody c)"

definition GetStream :: "net_env \<Rightarrow> 's http \<Rightarrow> Client \<Rightarrow> string \<Rightarrow> byte_range option \<Rightarrow> ('s, string \<times> string) call" where
  "GetStream N H c href rng = dav_get N H c href rng 0"

definition put_headers :: "PutOptions \<Rightarrow> http_request \<Rightarrow> http_request" where
  "put_headers opts r =
     (let r = (if po_ContentType opts \<noteq> [] then Header_Set ''Content-Type'' (po_ContentType opts) r else r);
          r = (if po_IfMatch opts \<noteq> [] then Header_Set ''If-Match'' (po_IfMatch opts) r else r);
          r = (if po_IfNoneMatch opts then Header_Set ''If-None-Match'' ''*'' r else r)
      in r)"

definition PutOpts :: "net_env \<Rightarrow> 's http \<Rightarrow> Client \<Rightarrow> string \<Rightarrow> string \<Rightarrow> PutOptions \<Rightarrow> ('s, string) call" where
  "PutOpts N H c href body opts s =
     (case send N H c ''PUT'' href (Some body) (put_headers opts) s of
        (Inl e, s) \<Rightarrow> (Inl e, s)
      | (Inr resp, s) \<Rightarrow> (Inr (rp_ETag resp), s))"

definition dav_Put :: "net_env \<Rightarrow> 's http \<Rightarrow> Client \<Rightarrow> string \<Rightarrow> string \<Rightarrow> string \<Rightarrow> ('s, string) call" where
  "dav_Put N H c href body ifMatch =
     PutOpts N H c href body \<lparr>po_ContentType = [], po_IfMatch = ifMatch, po_IfNoneMatch = False\<rparr>"

definition no_answer :: "(dav_error + http_response) \<times> 's \<Rightarrow> (dav_error + unit) \<times> 's" where
  "no_answer x = (case x of (Inl e, s) \<Rightarrow> (Inl e, s) | (Inr _, s) \<Rightarrow> (Inr (), s))"

definition dav_Delete :: "net_env \<Rightarrow> 's http \<Rightarrow> Client \<Rightarrow> string \<Rightarrow> string \<Rightarrow> ('s, unit) call" where
  "dav_Delete N H c href ifMatch s =
     no_answer (send N H c ''DELETE'' href None
       (\<lambda>r. if ifMatch \<noteq> [] then Header_Set ''If-Match'' ifMatch r else r) s)"

definition MkCol :: "net_env \<Rightarrow> 's http \<Rightarrow> Client \<Rightarrow> string \<Rightarrow> ('s, unit) call" where
  "MkCol N H c href s = no_answer (send N H c ''MKCOL'' href None (\<lambda>r. r) s)"

definition dav_Move :: "net_env \<Rightarrow> 's http \<Rightarrow> Client \<Rightarrow> string \<Rightarrow> string \<Rightarrow> bool \<Rightarrow> ('s, unit) call" where
  "dav_Move N H c src dst overwrite s =
     (case resolve H c src of
        Inl e \<Rightarrow> (Inl e, s)
      | Inr _ \<Rightarrow>
          (case resolve H c dst of
             Inl e \<Rightarrow> (Inl e, s)
           | Inr d \<Rightarrow>
               no_answer (send N H c ''MOVE'' src None
                 (\<lambda>r. (if \<not> overwrite then Header_Set ''Overwrite'' ''F'' else (\<lambda>r. r))
                        (Header_Set ''Destination'' (ht_URL_String H d) r)) s)))"

end
