(* ===== verification/ProviderObjects.thy ===== *)
theory ProviderObjects
  imports ProviderCache DavTransport ModelLoss ModelCalendar
begin

text \<open>
  The providers of contacts and calendars, \<open>internal/provider/contacts\<close> and \<open>internal/provider/calendar\<close>: listing
  a collection, reading objects in batches, and conditional writes. The two packages share their code but for
  the parser, the report and the media type, which are the record \<open>object_kind\<close> here. A call takes the state
  (the world with its DAV servers, the session cache and the registry of losses) and returns the next one.
\<close>

subsection \<open>Clients and providers\<close>

record 's client =
  ci_PropFind :: "string \<Rightarrow> Depth \<Rightarrow> xml_name list \<Rightarrow> ('s, MultiStatus) call"
  ci_Get :: "string \<Rightarrow> byte_range option \<Rightarrow> ('s, string \<times> string) call"
  ci_Delete :: "string \<Rightarrow> string \<Rightarrow> ('s, unit) call"
  ci_Report :: "string \<Rightarrow> Depth \<Rightarrow> dav_body \<Rightarrow> ('s, MultiStatus) call"
  ci_PutOpts :: "string \<Rightarrow> string \<Rightarrow> PutOptions \<Rightarrow> ('s, string) call"

definition dav_client :: "net_env \<Rightarrow> 's http \<Rightarrow> Client \<Rightarrow> 's client" where
  "dav_client N H c =
     \<lparr>ci_PropFind = PropFind N H c, ci_Get = dav_Get N H c, ci_Delete = dav_Delete N H c,
      ci_Report = dav_Report N H c, ci_PutOpts = PutOpts N H c\<rparr>"

record decoders =
  de_text :: "RawXMLValue \<Rightarrow> string option"
  de_types :: "RawXMLValue \<Rightarrow> xml_name list option"
  de_PathEscape :: "string \<Rightarrow> string"

record object_kind =
  kd_Parse :: "dav_lib \<Rightarrow> string \<Rightarrow> string \<Rightarrow> string \<Rightarrow> model_error + Object"
  kd_Data :: xml_name
  kd_Multiget :: "string list \<Rightarrow> dav_body"
  kd_Media :: string
  kd_Ext :: string

definition contacts_kind :: object_kind where
  "contacts_kind =
     \<lparr>kd_Parse = ParseVCard, kd_Data = AddressDataName,
      kd_Multiget = (\<lambda>paths. NewAddressBookMultiget paths [GetETagName, AddressDataName]),
      kd_Media = ''text/vcard; charset=utf-8'', kd_Ext = ''.vcf''\<rparr>"

definition calendar_kind :: object_kind where
  "calendar_kind =
     \<lparr>kd_Parse = ParseICal, kd_Data = CalendarDataName, kd_Multiget = (\<lambda>paths. NewCalendarMultiget paths []),
      kd_Media = ''text/calendar; charset=utf-8'', kd_Ext = ''.ics''\<rparr>"

record ('s, 'c) Provider =
  pv_kind :: object_kind
  pv_client :: "'s client"
  pv_accountID :: string
  pv_cache :: "'c cache_ops option"
  pv_batchSize :: nat
  pv_verify :: bool
  pv_lib :: dav_lib
  pv_dec :: decoders
  pv_Now :: "'s \<Rightarrow> time"

record ('s, 'c) pstate =
  st_world :: 's
  st_cache :: 'c
  st_losses :: "LossRegistry option"

datatype prov_error =
    PeCollectionRequired | PeObjectRequired | PeNoUID | PeNoPath | PePathRequired | PeNoVersion | PeWindow | PeText | PeComponent
  | PeDav dav_error | PeModel model_error
  | PeConflict string "Object option" "Object option"

type_synonym ('s, 'c, 'a) pcall = "('s, 'c) pstate \<Rightarrow> (prov_error + 'a) \<times> ('s, 'c) pstate"

record prov_options =
  op_BatchSize :: int
  op_SkipWriteVerification :: bool

definition DefaultBatchSize :: int where "DefaultBatchSize = 50"

definition prov_New ::
  "object_kind \<Rightarrow> 's client \<Rightarrow> string \<Rightarrow> 'c cache_ops option \<Rightarrow> prov_options \<Rightarrow> dav_lib \<Rightarrow> decoders \<Rightarrow> ('s \<Rightarrow> time) \<Rightarrow> ('s, 'c) Provider" where
  "prov_New k client account cache opts L dec now =
     \<lparr>pv_kind = k, pv_client = client, pv_accountID = account, pv_cache = cache,
      pv_batchSize = nat (if op_BatchSize opts \<le> 0 then DefaultBatchSize else op_BatchSize opts),
      pv_verify = (\<not> op_SkipWriteVerification opts), pv_lib = L, pv_dec = dec, pv_Now = now\<rparr>"

definition on_server :: "('s, 'a) call \<Rightarrow> ('s, 'c, 'a) pcall" where
  "on_server f st =
     (case f (st_world st) of
        (Inl e, w) \<Rightarrow> (Inl (PeDav e), st\<lparr>st_world := w\<rparr>)
      | (Inr x, w) \<Rightarrow> (Inr x, st\<lparr>st_world := w\<rparr>))"

definition normalizeCollection :: "string \<Rightarrow> string" where
  "normalizeCollection path =
     (let path = TrimSpace path
      in if path = [] then [] else if \<not> HasSuffix path ''/'' then path @ ''/'' else path)"

definition bodyKey :: "string \<Rightarrow> string \<Rightarrow> string" where
  "bodyKey objectPath etag = objectPath @ [CHR 0x00] @ etag"

definition cache_key :: "('s, 'c) Provider \<Rightarrow> string \<Rightarrow> collectionKey" where
  "cache_key p collection = \<lparr>ck_AccountID = pv_accountID p, ck_Path = collection\<rparr>"

definition cachedETags :: "('s, 'c) Provider \<Rightarrow> string \<Rightarrow> ('s, 'c) pstate \<Rightarrow> (string, string) gomap option \<times> ('s, 'c) pstate" where
  "cachedETags p collection st =
     (case pv_cache p of
        None \<Rightarrow> (None, st)
      | Some ops \<Rightarrow>
          (case co_GetETags ops (st_cache st) (cache_key p collection) of (c, r) \<Rightarrow> (r, st\<lparr>st_cache := c\<rparr>)))"

definition cachedCTag :: "('s, 'c) Provider \<Rightarrow> string \<Rightarrow> ('s, 'c) pstate \<Rightarrow> string" where
  "cachedCTag p collection st =
     (case pv_cache p of
        None \<Rightarrow> []
      | Some ops \<Rightarrow> (case co_CTag ops (st_cache st) (cache_key p collection) of Some t \<Rightarrow> t | None \<Rightarrow> []))"

definition setETags :: "('s, 'c) Provider \<Rightarrow> string \<Rightarrow> string \<Rightarrow> (string, string) gomap \<Rightarrow> ('s, 'c) pstate \<Rightarrow> ('s, 'c) pstate" where
  "setETags p collection ctag etags st =
     (case pv_cache p of
        None \<Rightarrow> st
      | Some ops \<Rightarrow>
          st\<lparr>st_cache := co_SetETags ops (st_cache st) (pv_Now p (st_world st)) (cache_key p collection) ctag etags\<rparr>)"

definition invalidate :: "('s, 'c) Provider \<Rightarrow> string \<Rightarrow> ('s, 'c) pstate \<Rightarrow> ('s, 'c) pstate" where
  "invalidate p collection st =
     (case pv_cache p of
        None \<Rightarrow> st
      | Some ops \<Rightarrow> st\<lparr>st_cache := co_InvalidateCollection ops (st_cache st) (cache_key p collection)\<rparr>)"

definition cachedBody :: "('s, 'c) Provider \<Rightarrow> string \<Rightarrow> string \<Rightarrow> string \<Rightarrow> ('s, 'c) pstate \<Rightarrow> bytes option \<times> ('s, 'c) pstate" where
  "cachedBody p collection objectPath etag st =
     (case pv_cache p of
        None \<Rightarrow> (None, st)
      | Some ops \<Rightarrow>
          if etag = [] then (None, st)
          else (case co_GetBody ops (st_cache st) (cache_key p collection) (bodyKey objectPath etag) of
                  (c, r) \<Rightarrow> (r, st\<lparr>st_cache := c\<rparr>)))"

definition putCachedBody :: "('s, 'c) Provider \<Rightarrow> string \<Rightarrow> string \<Rightarrow> string \<Rightarrow> bytes \<Rightarrow> ('s, 'c) pstate \<Rightarrow> ('s, 'c) pstate" where
  "putCachedBody p collection objectPath etag b st =
     (case pv_cache p of
        None \<Rightarrow> st
      | Some ops \<Rightarrow>
          if etag = [] then st
          else st\<lparr>st_cache := co_PutBody ops (st_cache st) (cache_key p collection) (bodyKey objectPath etag) b\<rparr>)"

subsection \<open>Listing\<close>

text \<open>The first response that has the property, trimmed; none is the empty string.\<close>

fun first_text :: "decoders \<Rightarrow> xml_name \<Rightarrow> MultiStatus \<Rightarrow> string" where
  "first_text D name [] = []"
| "first_text D name (r # rs) =
     (case DecodeProp name (de_text D) r of Inr t \<Rightarrow> TrimSpace t | Inl _ \<Rightarrow> first_text D name rs)"

definition fetchCTag :: "('s, 'c) Provider \<Rightarrow> string \<Rightarrow> ('s, 'c, string) pcall" where
  "fetchCTag p collection st =
     (case on_server (ci_PropFind (pv_client p) collection DepthZero [GetCTagName]) st of
        (Inl e, st) \<Rightarrow> (Inl e, st)
      | (Inr ms, st) \<Rightarrow> (Inr (first_text (pv_dec p) GetCTagName ms), st))"

fun etags_loop :: "decoders \<Rightarrow> string \<Rightarrow> MultiStatus \<Rightarrow> (string, string) gomap \<Rightarrow> (string, string) gomap" where
  "etags_loop D collection [] etags = etags"
| "etags_loop D collection (r # rs) etags =
     (case resp_Path r of
        Inl _ \<Rightarrow> etags_loop D collection rs etags
      | Inr path \<Rightarrow>
          if normalizeCollection path = collection then etags_loop D collection rs etags
          else if (case DecodeProp ResourceTypeName (de_types D) r of
                     Inr types \<Rightarrow> ResourceType_Is types CollectionName | Inl _ \<Rightarrow> False)
          then etags_loop D collection rs etags
          else
            (case DecodeProp GetETagName (de_text D) r of
               Inl _ \<Rightarrow> etags_loop D collection rs etags
             | Inr etag \<Rightarrow>
                 let v = TrimSpace etag
                 in if v = [] then etags_loop D collection rs etags
                    else etags_loop D collection rs (gm_put path v etags)))"

definition fetchETags :: "('s, 'c) Provider \<Rightarrow> string \<Rightarrow> ('s, 'c, (string, string) gomap) pcall" where
  "fetchETags p collection st =
     (case on_server (ci_PropFind (pv_client p) collection DepthOne [GetETagName, ResourceTypeName, GetContentTypeName]) st of
        (Inl e, st) \<Rightarrow> (Inl e, st)
      | (Inr ms, st) \<Rightarrow> (Inr (etags_loop (pv_dec p) collection ms []), st))"

record Listing =
  ls_Collection :: string
  ls_CTag :: string
  ls_ETags :: "(string, string) gomap"
  ls_FromCache :: bool

definition Listing_Paths :: "Listing option \<Rightarrow> string list" where
  "Listing_Paths l = (case l of None \<Rightarrow> [] | Some l \<Rightarrow> sort_strings (map fst (ls_ETags l)))"

definition fresh_list :: "('s, 'c) Provider \<Rightarrow> string \<Rightarrow> string \<Rightarrow> ('s, 'c, Listing) pcall" where
  "fresh_list p collection ctag st =
     (case fetchETags p collection st of
        (Inl e, st) \<Rightarrow> (Inl e, st)
      | (Inr etags, st) \<Rightarrow>
          (Inr \<lparr>ls_Collection = collection, ls_CTag = ctag, ls_ETags = etags, ls_FromCache = False\<rparr>,
           setETags p collection ctag etags st))"

definition prov_List :: "('s, 'c) Provider \<Rightarrow> string \<Rightarrow> ('s, 'c, Listing) pcall" where
  "prov_List p collection st =
     (let collection = normalizeCollection collection
      in if collection = [] then (Inl PeCollectionRequired, st)
         else
           (case cachedETags p collection st of
              (cached, st) \<Rightarrow>
                if cached \<noteq> None \<and>
                   (case pv_cache p of
                      None \<Rightarrow> False
                    | Some ops \<Rightarrow>
                        \<not> co_NeedsRefresh ops (st_cache st) (pv_Now p (st_world st)) (cache_key p collection) [])
                then (Inr \<lparr>ls_Collection = collection, ls_CTag = cachedCTag p collection st,
                           ls_ETags = the cached, ls_FromCache = True\<rparr>, st)
                else
                  (case fetchCTag p collection st of
                     (Inl e, st) \<Rightarrow> (Inl e, st)
                   | (Inr ctag, st) \<Rightarrow>
                       if cached \<noteq> None \<and> ctag \<noteq> [] \<and>
                          (case pv_cache p of
                             None \<Rightarrow> False
                           | Some ops \<Rightarrow> co_CTag ops (st_cache st) (cache_key p collection) = Some ctag)
                       then (Inr \<lparr>ls_Collection = collection, ls_CTag = ctag, ls_ETags = the cached, ls_FromCache = True\<rparr>,
                             setETags p collection ctag (the cached) st)
                       else fresh_list p collection ctag st)))"

subsection \<open>Reading\<close>

record MultigetResult =
  mr_Objects :: "Object list"
  mr_Failed :: "(string \<times> prov_error) list"

text \<open>One response of a report: a body that does not parse costs that object only.\<close>

fun batch_loop ::
  "('s, 'c) Provider \<Rightarrow> string \<Rightarrow> MultiStatus \<Rightarrow> Object list \<Rightarrow> (string \<times> prov_error) list \<Rightarrow> ('s, 'c) pstate \<Rightarrow>
     Object list \<times> (string \<times> prov_error) list \<times> ('s, 'c) pstate" where
  "batch_loop p collection [] objects failures st = (objects, failures, st)"
| "batch_loop p collection (r # rs) objects failures st =
     (case resp_Path r of
        Inl _ \<Rightarrow> batch_loop p collection rs objects failures st
      | Inr path \<Rightarrow>
          (case DecodeProp (kd_Data (pv_kind p)) (de_text (pv_dec p)) r of
             Inl e \<Rightarrow> batch_loop p collection rs objects (failures @ [(path, PeDav e)]) st
           | Inr data \<Rightarrow>
               let etag = (case DecodeProp GetETagName (de_text (pv_dec p)) r of Inr t \<Rightarrow> t | Inl _ \<Rightarrow> [])
               in (case kd_Parse (pv_kind p) (pv_lib p) path (TrimSpace etag) data of
                     Inl e \<Rightarrow> batch_loop p collection rs objects (failures @ [(path, PeModel e)]) st
                   | Inr ob \<Rightarrow>
                       batch_loop p collection rs (objects @ [ob]) failures
                         (putCachedBody p collection path (ob_ETag ob) data st))))"

definition multigetBatch ::
  "('s, 'c) Provider \<Rightarrow> string \<Rightarrow> string list \<Rightarrow> ('s, 'c, Object list \<times> (string \<times> prov_error) list) pcall" where
  "multigetBatch p collection paths st =
     (case on_server (ci_Report (pv_client p) collection DepthZero (kd_Multiget (pv_kind p) paths)) st of
        (Inl e, st) \<Rightarrow> (Inl e, st)
      | (Inr ms, st) \<Rightarrow>
          (case batch_loop p collection ms [] [] st of (objects, failures, st) \<Rightarrow> (Inr (objects, failures), st)))"

fun cached_loop ::
  "('s, 'c) Provider \<Rightarrow> string \<Rightarrow> (string, string) gomap \<Rightarrow> string list \<Rightarrow> (string, Object) gomap \<Rightarrow> string list \<Rightarrow>
     (string \<times> prov_error) list \<Rightarrow> ('s, 'c) pstate \<Rightarrow>
     (string, Object) gomap \<times> string list \<times> (string \<times> prov_error) list \<times> ('s, 'c) pstate" where
  "cached_loop p collection etags [] found wanted failed st = (found, wanted, failed, st)"
| "cached_loop p collection etags (path # paths) found wanted failed st =
     (if path = [] then cached_loop p collection etags paths found wanted failed st
      else
        (let etag = (case gm_get etags path of Some t \<Rightarrow> t | None \<Rightarrow> [])
         in case cachedBody p collection path etag st of
              (Some b, st) \<Rightarrow>
                (case kd_Parse (pv_kind p) (pv_lib p) path etag b of
                   Inl e \<Rightarrow> cached_loop p collection etags paths found wanted (failed @ [(path, PeModel e)]) st
                 | Inr ob \<Rightarrow> cached_loop p collection etags paths (gm_put path ob found) wanted failed st)
            | (None, st) \<Rightarrow> cached_loop p collection etags paths found (wanted @ [path]) failed st))"

text \<open>The batches: runs of \<open>pv_batchSize\<close> paths, which \<open>prov_New\<close> never leaves at 0.\<close>

function batches :: "nat \<Rightarrow> 'a list \<Rightarrow> 'a list list" where
  "batches n xs = (if xs = [] then [] else take (max 1 n) xs # batches n (drop (max 1 n) xs))"
  by pat_completeness auto
termination by (relation "measure (length \<circ> snd)") auto

declare batches.simps [simp del]

fun batches_loop ::
  "('s, 'c) Provider \<Rightarrow> string \<Rightarrow> string list list \<Rightarrow> (string, Object) gomap \<Rightarrow> (string \<times> prov_error) list \<Rightarrow>
     ('s, 'c, (string, Object) gomap \<times> (string \<times> prov_error) list) pcall" where
  "batches_loop p collection [] found failed st = (Inr (found, failed), st)"
| "batches_loop p collection (b # bs) found failed st =
     (case multigetBatch p collection b st of
        (Inl e, st) \<Rightarrow> (Inl e, st)
      | (Inr (objects, failures), st) \<Rightarrow>
          batches_loop p collection bs (fold (\<lambda>ob. gm_put (ob_Path ob) ob) objects found) (failed @ failures) st)"

definition prov_Multiget ::
  "('s, 'c) Provider \<Rightarrow> string \<Rightarrow> string list \<Rightarrow> (string, string) gomap \<Rightarrow> ('s, 'c, MultigetResult) pcall" where
  "prov_Multiget p collection paths etags st =
     (let collection = normalizeCollection collection
      in case cached_loop p collection etags paths [] [] [] st of
           (found, wanted, failed, st) \<Rightarrow>
             (case batches_loop p collection (batches (pv_batchSize p) wanted) found failed st of
                (Inl e, st) \<Rightarrow> (Inl e, st)
              | (Inr (found, failed), st) \<Rightarrow>
                  (Inr \<lparr>mr_Objects = List.map_filter (gm_get found) paths, mr_Failed = failed\<rparr>, st)))"

definition fetchObjectETag :: "('s, 'c) Provider \<Rightarrow> string \<Rightarrow> ('s, 'c, string) pcall" where
  "fetchObjectETag p objectPath st =
     (case on_server (ci_PropFind (pv_client p) objectPath DepthZero [GetETagName]) st of
        (Inl e, st) \<Rightarrow> (Inl e, st)
      | (Inr ms, st) \<Rightarrow> (Inr (first_text (pv_dec p) GetETagName ms), st))"

definition getDirect :: "('s, 'c) Provider \<Rightarrow> string \<Rightarrow> string \<Rightarrow> ('s, 'c, Object) pcall" where
  "getDirect p collection objectPath st =
     (case fetchObjectETag p objectPath st of
        (Inl e, st) \<Rightarrow> (Inl e, st)
      | (Inr etag, st) \<Rightarrow>
          (case on_server (ci_Get (pv_client p) objectPath None) st of
             (Inl e, st) \<Rightarrow> (Inl e, st)
           | (Inr (raw, _), st) \<Rightarrow>
               (case kd_Parse (pv_kind p) (pv_lib p) objectPath etag raw of
                  Inl e \<Rightarrow> (Inl (PeModel e), st)
                | Inr ob \<Rightarrow> (Inr ob, putCachedBody p collection objectPath (ob_ETag ob) raw st))))"

definition prov_Get :: "('s, 'c) Provider \<Rightarrow> string \<Rightarrow> string \<Rightarrow> ('s, 'c, Object) pcall" where
  "prov_Get p collection objectPath st =
     (let collection = normalizeCollection collection
      in if objectPath = [] then (Inl PePathRequired, st)
         else
           (case multigetBatch p collection [objectPath] st of
              (Inl _, st) \<Rightarrow> getDirect p collection objectPath st
            | (Inr (objects, failures), st) \<Rightarrow>
                (case find_first (\<lambda>ob. ob_Path ob = objectPath) objects of
                   Some ob \<Rightarrow> (Inr ob, st)
                 | None \<Rightarrow>
                     (case find_first (\<lambda>f. fst f = objectPath) failures of
                        Some f \<Rightarrow> (Inl (snd f), st)
                      | None \<Rightarrow> getDirect p collection objectPath st))))"

subsection \<open>Writing\<close>

record WriteResult =
  wr_Object :: Object
  wr_ETag :: string
  wr_Loss :: PropertyLoss
  wr_ReportLoss :: bool
  wr_Verified :: bool

definition IsConflict :: "prov_error \<Rightarrow> bool" where
  "IsConflict e \<longleftrightarrow> (case e of PeConflict _ _ _ \<Rightarrow> True | _ \<Rightarrow> False)"

definition conflict :: "('s, 'c) Provider \<Rightarrow> string \<Rightarrow> string \<Rightarrow> Object option \<Rightarrow> ('s, 'c, 'a) pcall" where
  "conflict p collection path local st =
     (case prov_Get p collection path (invalidate p collection st) of
        (Inr remote, st) \<Rightarrow> (Inl (PeConflict path local (Some remote)), st)
      | (Inl _, st) \<Rightarrow> (Inl (PeConflict path local None), st))"

definition prov_put :: "('s, 'c) Provider \<Rightarrow> string \<Rightarrow> string \<Rightarrow> Object \<Rightarrow> PutOptions \<Rightarrow> ('s, 'c, WriteResult) pcall" where
  "prov_put p collection path ob opts st =
     (case Marshal (pv_lib p) (Some ob) of
        Inl e \<Rightarrow> (Inl (PeModel e), st)
      | Inr body \<Rightarrow>
          (let sent = (ob_Clone ob)\<lparr>ob_Path := path\<rparr>
           in case on_server (ci_PutOpts (pv_client p) path body opts) st of
                (Inl (PeDav e), st) \<Rightarrow>
                  if IsPreconditionFailed e then conflict p collection path (Some sent) st
                  else (Inl (PeDav e), st)
              | (Inl e, st) \<Rightarrow> (Inl e, st)
              | (Inr etag, st) \<Rightarrow>
                  (let st = invalidate p collection st;
                       result = \<lparr>wr_Object = (ob_Clone sent)\<lparr>ob_ETag := TrimSpace etag\<rparr>, wr_ETag = TrimSpace etag,
                                 wr_Loss = no_loss, wr_ReportLoss = False, wr_Verified = False\<rparr>
                   in if \<not> pv_verify p then (Inr result, st)
                      else
                        (case prov_Get p collection path st of
                           (Inl _, st) \<Rightarrow> (Inr result, st)
                         | (Inr kept, st) \<Rightarrow>
                             (let result = result\<lparr>wr_Object := kept\<rparr>;
                                  result = (if ob_ETag kept \<noteq> [] then result\<lparr>wr_ETag := ob_ETag kept\<rparr> else result)
                              in case Compare (lb_U (pv_lib p)) (Some sent) (Some kept) of
                                   Inl _ \<Rightarrow> (Inr result, st)
                                 | Inr loss \<Rightarrow>
                                     (case Record (pv_accountID p) loss (pv_Now p (st_world st)) (st_losses st) of
                                        (losses, new) \<Rightarrow>
                                          (Inr (result\<lparr>wr_Verified := True, wr_Loss := loss, wr_ReportLoss := new\<rparr>),
                                           st\<lparr>st_losses := losses\<rparr>)))))))"

definition prov_Create :: "('s, 'c) Provider \<Rightarrow> string \<Rightarrow> Object option \<Rightarrow> ('s, 'c, WriteResult) pcall" where
  "prov_Create p collection o' st =
     (let collection = normalizeCollection collection
      in if collection = [] then (Inl PeCollectionRequired, st)
         else
           (case o' of
              None \<Rightarrow> (Inl PeObjectRequired, st)
            | Some ob \<Rightarrow>
                if ob_UID (pv_lib p) (Some ob) = [] then (Inl PeNoUID, st)
                else
                  (let path = (if ob_Path ob = []
                               then collection @ de_PathEscape (pv_dec p) (ob_UID (pv_lib p) (Some ob)) @ kd_Ext (pv_kind p)
                               else ob_Path ob)
                   in prov_put p collection path ob
                        \<lparr>po_ContentType = kd_Media (pv_kind p), po_IfMatch = [], po_IfNoneMatch = True\<rparr> st)))"

definition prov_Update :: "('s, 'c) Provider \<Rightarrow> string \<Rightarrow> Object option \<Rightarrow> ('s, 'c, WriteResult) pcall" where
  "prov_Update p collection o' st =
     (let collection = normalizeCollection collection
      in case o' of
           None \<Rightarrow> (Inl PeObjectRequired, st)
         | Some ob \<Rightarrow>
             if ob_Path ob = [] then (Inl PeNoPath, st)
             else if ob_ETag ob = [] then (Inl PeNoVersion, st)
             else prov_put p collection (ob_Path ob) ob
                    \<lparr>po_ContentType = kd_Media (pv_kind p), po_IfMatch = ob_ETag ob, po_IfNoneMatch = False\<rparr> st)"

definition prov_Delete :: "('s, 'c) Provider \<Rightarrow> string \<Rightarrow> string \<Rightarrow> string \<Rightarrow> ('s, 'c, unit) pcall" where
  "prov_Delete p collection objectPath etag st =
     (let collection = normalizeCollection collection
      in if objectPath = [] then (Inl PePathRequired, st)
         else if etag = [] then (Inl PeNoVersion, st)
         else
           (case on_server (ci_Delete (pv_client p) objectPath etag) st of
              (Inl (PeDav e), st) \<Rightarrow>
                if IsPreconditionFailed e then conflict p collection objectPath None st
                else (Inl (PeDav e), st)
            | (Inl e, st) \<Rightarrow> (Inl e, st)
            | (Inr _, st) \<Rightarrow> (Inr (), invalidate p collection st)))"

definition prov_LossReport :: "('s, 'c) Provider \<Rightarrow> ('s, 'c) pstate \<Rightarrow> LossReport" where
  "prov_LossReport p st = Report (pv_accountID p) (st_losses st)"

subsection \<open>Calendars\<close>

text \<open>The functions of \<open>internal/provider/calendar\<close> that repeat those of the contacts, on its own kind of object.\<close>

definition as_calendar :: "('s, 'c) Provider \<Rightarrow> ('s, 'c) Provider" where
  "as_calendar p = p\<lparr>pv_kind := calendar_kind\<rparr>"

definition calendar_List :: "('s, 'c) Provider \<Rightarrow> string \<Rightarrow> ('s, 'c, Listing) pcall" where
  "calendar_List p = prov_List (as_calendar p)"

definition calendar_fetchETags :: "('s, 'c) Provider \<Rightarrow> string \<Rightarrow> ('s, 'c, (string, string) gomap) pcall" where
  "calendar_fetchETags p = fetchETags (as_calendar p)"

definition calendar_Multiget ::
  "('s, 'c) Provider \<Rightarrow> string \<Rightarrow> string list \<Rightarrow> (string, string) gomap \<Rightarrow> ('s, 'c, MultigetResult) pcall" where
  "calendar_Multiget p = prov_Multiget (as_calendar p)"

definition calendar_multigetBatch ::
  "('s, 'c) Provider \<Rightarrow> string \<Rightarrow> string list \<Rightarrow> ('s, 'c, Object list \<times> (string \<times> prov_error) list) pcall" where
  "calendar_multigetBatch p = multigetBatch (as_calendar p)"

definition calendar_Get :: "('s, 'c) Provider \<Rightarrow> string \<Rightarrow> string \<Rightarrow> ('s, 'c, Object) pcall" where
  "calendar_Get p = prov_Get (as_calendar p)"

definition calendar_getDirect :: "('s, 'c) Provider \<Rightarrow> string \<Rightarrow> string \<Rightarrow> ('s, 'c, Object) pcall" where
  "calendar_getDirect p = getDirect (as_calendar p)"

definition calendar_put :: "('s, 'c) Provider \<Rightarrow> string \<Rightarrow> string \<Rightarrow> Object \<Rightarrow> PutOptions \<Rightarrow> ('s, 'c, WriteResult) pcall" where
  "calendar_put p = prov_put (as_calendar p)"

definition calendar_Create :: "('s, 'c) Provider \<Rightarrow> string \<Rightarrow> Object option \<Rightarrow> ('s, 'c, WriteResult) pcall" where
  "calendar_Create p = prov_Create (as_calendar p)"

definition calendar_Update :: "('s, 'c) Provider \<Rightarrow> string \<Rightarrow> Object option \<Rightarrow> ('s, 'c, WriteResult) pcall" where
  "calendar_Update p = prov_Update (as_calendar p)"

definition calendar_Delete :: "('s, 'c) Provider \<Rightarrow> string \<Rightarrow> string \<Rightarrow> string \<Rightarrow> ('s, 'c, unit) pcall" where
  "calendar_Delete p = prov_Delete (as_calendar p)"

definition calendar_conflict :: "('s, 'c) Provider \<Rightarrow> string \<Rightarrow> string \<Rightarrow> Object option \<Rightarrow> ('s, 'c, 'a) pcall" where
  "calendar_conflict p = conflict (as_calendar p)"

end
