(* ===== verification/ProviderWrites.thy ===== *)
theory ProviderWrites
  imports ProviderObjects
begin

text \<open>
  What the providers do to an account's objects, against what they may do: an abstract server keeps the list of
  the changes made at this client's request, each with the version it replaced, and answers conditional
  requests as RFC 7232 says. Reading changes nothing; a write makes one change at most, of the version the
  caller has read or of nothing at all, and it says truly whether it did.
\<close>

subsection \<open>The server the providers rely on\<close>

text \<open>\<open>allows r v\<close>: the conditions of the request hold of an object whose version is \<open>v\<close> (\<open>None\<close>: no object).\<close>

definition allows :: "http_request \<Rightarrow> string option \<Rightarrow> bool" where
  "allows r before \<longleftrightarrow>
     (\<forall>t. gm_get (rq_Headers r) ''If-Match'' = Some t \<longrightarrow> before = Some t) \<and>
     (gm_get (rq_Headers r) ''If-None-Match'' = Some ''*'' \<longrightarrow> before = None)"

definition conditional_server :: "'s http \<Rightarrow> ('s \<Rightarrow> string option list) \<Rightarrow> bool" where
  "conditional_server H changes \<longleftrightarrow>
     (\<forall>r s. (rq_Method r \<in> {''PROPFIND'', ''REPORT'', ''GET''} \<longrightarrow> changes (snd (ht_Do H r s)) = changes s) \<and>
       (rq_Method r \<in> {''PUT'', ''DELETE''} \<longrightarrow>
         (\<exists>new. changes (snd (ht_Do H r s)) = changes s @ new \<and> length new \<le> 1 \<and> list_all (allows r) new \<and>
            (\<forall>resp. fst (ht_Do H r s) = Some resp \<longrightarrow>
               (rp_Status resp div 100 = 2 \<longrightarrow> length new = 1) \<and> (rp_Status resp \<in> {405, 412} \<longrightarrow> new = [])))))"

definition quiet :: "('s \<Rightarrow> string option list) \<Rightarrow> ('s, 'a) call \<Rightarrow> bool" where
  "quiet changes f \<longleftrightarrow> (\<forall>s. changes (snd (f s)) = changes s)"

text \<open>
  \<open>one_change P refused old new x\<close>: the list grew by one change at most, of a version in \<open>P\<close>; by one if the
  call returned a result, by none if it was refused.
\<close>

definition one_change ::
  "(string option \<Rightarrow> bool) \<Rightarrow> ('e \<Rightarrow> bool) \<Rightarrow> string option list \<Rightarrow> string option list \<Rightarrow> ('e + 'a) \<Rightarrow> bool" where
  "one_change P refused old new x \<longleftrightarrow>
     (\<exists>extra. new = old @ extra \<and> length extra \<le> 1 \<and> list_all P extra \<and>
        (\<forall>e. x = Inl e \<longrightarrow> refused e \<longrightarrow> extra = []) \<and> (\<forall>y. x = Inr y \<longrightarrow> length extra = 1))"

text \<open>A refused precondition, or a method the object does not have: the server did nothing.\<close>

definition not_done :: "dav_error \<Rightarrow> bool" where
  "not_done e \<longleftrightarrow> IsPreconditionFailed e \<or> StatusCode e = 405"

definition careful :: "('s \<Rightarrow> string option list) \<Rightarrow> (string option \<Rightarrow> bool) \<Rightarrow> ('s, 'a) call \<Rightarrow> bool" where
  "careful changes P f \<longleftrightarrow> (\<forall>s. one_change P not_done (changes s) (changes (snd (f s))) (fst (f s)))"

subsection \<open>The client's methods\<close>

lemma headers_frame [simp]:
  "rq_Method (Header_Set n v r) = rq_Method r" "rq_Method (put_headers opts r) = rq_Method r"
  "rq_Headers (Header_Set n v r) = gm_put n v (rq_Headers r)"
  by (simp_all add: Header_Set_def put_headers_def Let_def)

lemma newRequest_made: "newRequest N H c m t b s = Inr r \<Longrightarrow> rq_Method r = m \<and> rq_Headers r = []"
  by (auto simp: newRequest_def split: option.splits)

lemma do_request_cases:
  "do_request H r s = (x, s') \<Longrightarrow> s' = snd (ht_Do H r s) \<and>
     (\<forall>resp. x = Inr resp \<longrightarrow> fst (ht_Do H r s) = Some resp \<and> rp_Status resp div 100 = 2) \<and>
     (\<forall>e. x = Inl e \<longrightarrow> not_done e \<longrightarrow> (\<exists>resp. fst (ht_Do H r s) = Some resp \<and> rp_Status resp \<in> {405, 412}))"
  by (auto simp: do_request_def not_done_def IsPreconditionFailed_def StatusCode_def split: prod.splits option.splits if_splits)

lemma send_quiet:
  assumes "conditional_server H changes" and "m \<in> {''PROPFIND'', ''REPORT'', ''GET''}" and "\<And>r. rq_Method (h r) = rq_Method r"
  shows "quiet changes (send N H c m href b h)"
  unfolding quiet_def
proof
  fix s
  show "changes (snd (send N H c m href b h s)) = changes s"
  proof (cases "resolve H c href")
    case (Inr u)
    show ?thesis
    proof (cases "newRequest N H c m u b s")
      case r: (Inr r)
      have "rq_Method (h r) \<in> {''PROPFIND'', ''REPORT'', ''GET''}" using assms(2,3) newRequest_made [OF r] by simp
      then have "changes (snd (ht_Do H (h r) s)) = changes s" using assms(1) unfolding conditional_server_def by blast
      moreover obtain x s' where d: "do_request H (h r) s = (x, s')" by fastforce
      moreover have "s' = snd (ht_Do H (h r) s)" using do_request_cases [OF d] by simp
      ultimately show ?thesis using Inr r by (simp add: send_def)
    qed (simp add: send_def Inr)
  qed (simp add: send_def)
qed

lemma one_change_none: "\<not> refused e \<Longrightarrow> one_change P refused xs xs (Inl e)" "one_change P refused xs xs (Inl e)"
  by (simp_all add: one_change_def)

lemma one_changeI:
  assumes "new = old @ extra" and "length extra \<le> 1" and "list_all P extra"
    and "\<And>e. x = Inl e \<Longrightarrow> refused e \<Longrightarrow> extra = []" and "\<And>y. x = Inr y \<Longrightarrow> length extra = 1"
  shows "one_change P refused old new x"
  using assms unfolding one_change_def by blast

lemma send_careful:
  assumes "conditional_server H changes" and "m \<in> {''PUT'', ''DELETE''}" and "\<And>r. rq_Method (h r) = rq_Method r"
    and "\<And>r v. rq_Headers r = [] \<Longrightarrow> allows (h r) v \<Longrightarrow> P v"
  shows "careful changes P (send N H c m href b h)"
  unfolding careful_def
proof
  fix s
  show "one_change P not_done (changes s) (changes (snd (send N H c m href b h s))) (fst (send N H c m href b h s))"
  proof (cases "resolve H c href")
    case (Inr u)
    show ?thesis
    proof (cases "newRequest N H c m u b s")
      case r: (Inr r)
      have m: "rq_Method (h r) \<in> {''PUT'', ''DELETE''}" and "rq_Headers r = []" using assms(2,3) newRequest_made [OF r] by simp_all
      then have P: "allows (h r) v \<Longrightarrow> P v" for v using assms(4) by blast
      obtain extra where extra: "changes (snd (ht_Do H (h r) s)) = changes s @ extra" "length extra \<le> 1" "list_all (allows (h r)) extra"
          "\<And>resp. fst (ht_Do H (h r) s) = Some resp \<Longrightarrow>
             (rp_Status resp div 100 = 2 \<longrightarrow> length extra = 1) \<and> (rp_Status resp \<in> {405, 412} \<longrightarrow> extra = [])"
        using assms(1) m unfolding conditional_server_def by blast
      obtain x s' where d: "do_request H (h r) s = (x, s')" by fastforce
      have "list_all P extra" using extra(3) P by (simp add: list_all_iff)
      moreover have "s' = snd (ht_Do H (h r) s)" using do_request_cases [OF d] by simp
      moreover have "not_done e \<Longrightarrow> extra = []" if "x = Inl e" for e
        using do_request_cases [OF d] extra(4) that by blast
      moreover have "length extra = 1" if "x = Inr y" for y
        using do_request_cases [OF d] extra(4) that by blast
      ultimately have "one_change P not_done (changes s) (changes s') x"
        using extra(1,2) by (intro one_changeI [of _ _ extra]) simp_all
      then show ?thesis using Inr r d by (simp add: send_def)
    qed (simp add: send_def Inr one_change_none)
  qed (simp add: send_def one_change_none)
qed

lemma multistatus_quiet:
  assumes "conditional_server H changes" and "m \<in> {''PROPFIND'', ''REPORT''}"
  shows "quiet changes (multistatus_call N H c m href d b)"
proof -
  have q: "quiet changes (send N H c m href (Some raw)
      (Header_Set ''Depth'' (Depth_String d) \<circ> Header_Set ''Content-Type'' ''text/xml; charset=\"utf-8\"''))" for raw
    using assms by (intro send_quiet) auto
  show ?thesis
    unfolding quiet_def
  proof
    fix s
    show "changes (snd (multistatus_call N H c m href d b s)) = changes s"
      unfolding multistatus_call_def using q [unfolded quiet_def, rule_format, of _ s]
      by (auto split: sum.split option.split prod.split) (metis snd_conv)+
  qed
qed

lemma get_quiet:
  assumes "conditional_server H changes"
  shows "quiet changes (dav_get N H c href rng m)"
proof -
  have q: "quiet changes (send N H c ''GET'' href None (\<lambda>r. case rng of None \<Rightarrow> r | Some g \<Rightarrow> Header_Set ''Range'' (range_header g) r))"
    using assms by (intro send_quiet) (auto split: option.split)
  show ?thesis
    unfolding quiet_def
  proof
    fix s
    show "changes (snd (dav_get N H c href rng m s)) = changes s"
      unfolding dav_get_def using q [unfolded quiet_def, rule_format, of s]
      by (auto simp: Let_def split: sum.split prod.split)
  qed
qed

subsection \<open>The providers' reads\<close>

definition client_ok :: "('s \<Rightarrow> string option list) \<Rightarrow> 's client \<Rightarrow> bool" where
  "client_ok changes cl \<longleftrightarrow>
     (\<forall>href d ps. quiet changes (ci_PropFind cl href d ps)) \<and> (\<forall>href d b. quiet changes (ci_Report cl href d b)) \<and>
     (\<forall>href g. quiet changes (ci_Get cl href g)) \<and>
     (\<forall>href b opts. careful changes (\<lambda>v. (po_IfMatch opts \<noteq> [] \<longrightarrow> v = Some (po_IfMatch opts)) \<and>
        (po_IfNoneMatch opts \<longrightarrow> v = None)) (ci_PutOpts cl href b opts)) \<and>
     (\<forall>href t. careful changes (\<lambda>v. t \<noteq> [] \<longrightarrow> v = Some t) (ci_Delete cl href t))"

lemma put_allows:
  assumes "rq_Headers r = []" "allows (put_headers opts r) v"
  shows "(po_IfMatch opts \<noteq> [] \<longrightarrow> v = Some (po_IfMatch opts)) \<and> (po_IfNoneMatch opts \<longrightarrow> v = None)"
  using assms by (auto simp: allows_def put_headers_def Let_def split: if_splits)

lemma careful_result:
  "careful changes P f \<Longrightarrow> careful changes P (\<lambda>s. case f s of (Inl e, s) \<Rightarrow> (Inl e, s) | (Inr x, s) \<Rightarrow> (Inr (g x), s))"
  unfolding careful_def one_change_def by (auto split: prod.split sum.split) (metis fst_conv snd_conv)+

lemma dav_client_ok:
  assumes "conditional_server H changes"
  shows "client_ok changes (dav_client N H c)"
proof -
  have put: "careful changes (\<lambda>v. (po_IfMatch opts \<noteq> [] \<longrightarrow> v = Some (po_IfMatch opts)) \<and>
        (po_IfNoneMatch opts \<longrightarrow> v = None)) (PutOpts N H c href b opts)" for href b opts
  proof -
    have "PutOpts N H c href b opts = (\<lambda>s. case send N H c ''PUT'' href (Some b) (put_headers opts) s of
        (Inl e, s) \<Rightarrow> (Inl e, s) | (Inr resp, s) \<Rightarrow> (Inr (rp_ETag resp), s))"
      by (rule ext) (simp add: PutOpts_def)
    moreover have "careful changes (\<lambda>v. (po_IfMatch opts \<noteq> [] \<longrightarrow> v = Some (po_IfMatch opts)) \<and> (po_IfNoneMatch opts \<longrightarrow> v = None))
        (send N H c ''PUT'' href (Some b) (put_headers opts))"
      using assms by (rule send_careful) (simp, simp, erule (1) put_allows)
    ultimately show ?thesis using careful_result by simp
  qed
  have del: "careful changes (\<lambda>v. t \<noteq> [] \<longrightarrow> v = Some t) (dav_Delete N H c href t)" for href t
  proof -
    let ?h = "\<lambda>r. if t \<noteq> [] then Header_Set ''If-Match'' t r else r"
    have "dav_Delete N H c href t = (\<lambda>s. case send N H c ''DELETE'' href None ?h s of
        (Inl e, s) \<Rightarrow> (Inl e, s) | (Inr resp, s) \<Rightarrow> (Inr ((\<lambda>_. ()) resp), s))"
      by (rule ext) (simp add: dav_Delete_def no_answer_def)
    moreover have "careful changes (\<lambda>v. t \<noteq> [] \<longrightarrow> v = Some t) (send N H c ''DELETE'' href None ?h)"
      using assms by (rule send_careful) (auto simp: allows_def)
    ultimately show ?thesis using careful_result by simp
  qed
  show ?thesis
    using assms put del multistatus_quiet [OF assms] get_quiet [OF assms]
    by (simp add: client_ok_def dav_client_def PropFind_def dav_Report_def dav_Get_def)
qed

lemma on_server_world:
  "st_world (snd (on_server f st)) = snd (f (st_world st))"
  by (simp add: on_server_def split: prod.split sum.split)

lemma cache_frames [simp]:
  "st_world (setETags p c t m st) = st_world st" "st_world (invalidate p c st) = st_world st"
  "st_world (putCachedBody p c o' t b st) = st_world st"
  "st_world (snd (cachedETags p c st)) = st_world st" "st_world (snd (cachedBody p c o' t st)) = st_world st"
  by (simp_all add: setETags_def invalidate_def putCachedBody_def cachedETags_def cachedBody_def split: option.split prod.split)

lemma batch_loop_world [simp]: "st_world (snd (snd (batch_loop p c ms obs fs st))) = st_world st"
  by (induction ms arbitrary: obs fs st) (auto simp: Let_def split: sum.split)

lemma cached_loop_world: "cached_loop p c e ps fo w fa st = (fo', w', fa', st') \<Longrightarrow> st_world st' = st_world st"
proof (induction p c e ps fo w fa st rule: cached_loop.induct)
  case (2 p c e q ps fo w fa st)
  obtain b st1 where b: "cachedBody p c q (case gm_get e q of Some t \<Rightarrow> t | None \<Rightarrow> []) st = (b, st1)" by fastforce
  then have "st_world st1 = st_world st" using cache_frames(5) by (metis snd_conv)
  then show ?case using 2 b by (auto simp: Let_def split: if_splits option.splits sum.splits)
qed simp

lemma cached_loop_frame [simp]: "st_world (snd (snd (snd (cached_loop p c e ps fo w fa st)))) = st_world st"
  using cached_loop_world by (metis prod.collapse)

definition unchanged :: "('s \<Rightarrow> string option list) \<Rightarrow> ('s, 'c, 'a) pcall \<Rightarrow> bool" where
  "unchanged changes g \<longleftrightarrow> (\<forall>st. changes (st_world (snd (g st))) = changes (st_world st))"

lemma unchangedD: "unchanged changes g \<Longrightarrow> changes (st_world (snd (g st))) = changes (st_world st)"
  unfolding unchanged_def by simp

lemma unchanged_bind:
  assumes "unchanged changes f" and "\<And>x. unchanged changes (g x)"
  shows "unchanged changes (\<lambda>st. case f st of (Inl e, st) \<Rightarrow> (Inl e, st) | (Inr x, st) \<Rightarrow> g x st)"
  using assms by (simp add: unchanged_def case_prod_beta split: sum.split)

lemma unchanged_done: "(\<And>st. st_world (h st) = st_world st) \<Longrightarrow> unchanged changes (\<lambda>st. (f st, h st))"
  by (simp add: unchanged_def)

lemma on_server_unchanged:
  assumes "client_ok changes cl"
  shows "unchanged changes (on_server (ci_PropFind cl h d ps))" "unchanged changes (on_server (ci_Report cl h d b))"
    "unchanged changes (on_server (ci_Get cl h g))"
  using assms by (simp_all add: unchanged_def on_server_world client_ok_def quiet_def)

lemma fetch_unchanged:
  assumes "client_ok changes (pv_client p)"
  shows "unchanged changes (fetchCTag p c)" "unchanged changes (fetchETags p c)" "unchanged changes (fetchObjectETag p c)"
  unfolding fetchCTag_def [abs_def] fetchETags_def [abs_def] fetchObjectETag_def [abs_def]
  by (intro unchanged_bind unchanged_done on_server_unchanged [OF assms]; simp)+

lemma fresh_unchanged: "client_ok changes (pv_client p) \<Longrightarrow> unchanged changes (fresh_list p c t)"
  unfolding fresh_list_def [abs_def] by (intro unchanged_bind unchanged_done fetch_unchanged) simp_all

lemma List_unchanged:
  assumes "client_ok changes (pv_client p)"
  shows "unchanged changes (prov_List p c)"
  unfolding unchanged_def prov_List_def Let_def
  by (simp add: fetch_unchanged(1) [OF assms, THEN unchangedD] fresh_unchanged [OF assms, THEN unchangedD] case_prod_beta split: sum.split)

lemma multigetBatch_unchanged:
  assumes "client_ok changes (pv_client p)"
  shows "unchanged changes (multigetBatch p c ps)"
  unfolding unchanged_def multigetBatch_def
  by (simp add: on_server_unchanged [OF assms, THEN unchangedD] case_prod_beta split: sum.split)

lemma batches_loop_unchanged:
  assumes "client_ok changes (pv_client p)"
  shows "unchanged changes (batches_loop p c bs found failed)"
  unfolding unchanged_def
proof
  fix st
  show "changes (st_world (snd (batches_loop p c bs found failed st))) = changes (st_world st)"
    by (induction bs arbitrary: found failed st)
      (simp_all add: multigetBatch_unchanged [OF assms, THEN unchangedD] case_prod_beta split: sum.split)
qed

lemma Multiget_unchanged:
  assumes "client_ok changes (pv_client p)"
  shows "unchanged changes (prov_Multiget p c ps e)"
  unfolding unchanged_def prov_Multiget_def Let_def
  by (simp add: batches_loop_unchanged [OF assms, THEN unchangedD] case_prod_beta split: sum.split)

lemma getDirect_unchanged:
  assumes "client_ok changes (pv_client p)"
  shows "unchanged changes (getDirect p c o')"
  unfolding unchanged_def getDirect_def
  by (simp add: fetch_unchanged(3) [OF assms, THEN unchangedD] on_server_unchanged(3) [OF assms, THEN unchangedD] case_prod_beta split: sum.split)

lemma Get_unchanged:
  assumes "client_ok changes (pv_client p)"
  shows "unchanged changes (prov_Get p c o')"
  unfolding unchanged_def prov_Get_def Let_def
  by (simp add: multigetBatch_unchanged [OF assms, THEN unchangedD] getDirect_unchanged [OF assms, THEN unchangedD] case_prod_beta split: sum.split option.split)

subsection \<open>The providers' writes\<close>

lemma conflict_unchanged:
  assumes "client_ok changes (pv_client p)"
  shows "unchanged changes (conflict p c o' l)"
  unfolding unchanged_def conflict_def
  by (simp add: Get_unchanged [OF assms, THEN unchangedD] case_prod_beta split: sum.split)

lemma conflict_result: "\<exists>r. fst (conflict p c o' l st) = Inl (PeConflict o' l r)"
  by (simp add: conflict_def case_prod_beta split: sum.split)

text \<open>A conditional request of the client, then whatever the provider reads: a refusal becomes a conflict.\<close>

lemma one_change_after:
  assumes "client_ok changes (pv_client p)" and "careful changes P f"
    and x: "\<And>y st'. on_server f st = (Inr y, st') \<Longrightarrow>
      changes (st_world (snd (g st))) = changes (st_world st') \<and> (\<exists>z. fst (g st) = Inr z)"
    and e: "\<And>e st'. on_server f st = (Inl (PeDav e), st') \<Longrightarrow>
      changes (st_world (snd (g st))) = changes (st_world st') \<and> (\<exists>z. fst (g st) = Inl z \<and> (IsConflict z \<longrightarrow> IsPreconditionFailed e))"
  shows "one_change P IsConflict (changes (st_world st)) (changes (st_world (snd (g st)))) (fst (g st))"
proof (cases "fst (f (st_world st))")
  case (Inl e0)
  then have s: "on_server f st = (Inl (PeDav e0), st\<lparr>st_world := snd (f (st_world st))\<rparr>)"
    by (simp add: on_server_def case_prod_beta)
  have "one_change P not_done (changes (st_world st)) (changes (snd (f (st_world st)))) (fst (f (st_world st)))"
    using assms(2) unfolding careful_def by simp
  then show ?thesis using Inl e [OF s] unfolding one_change_def not_done_def by auto
next
  case (Inr y)
  then have s: "on_server f st = (Inr y, st\<lparr>st_world := snd (f (st_world st))\<rparr>)"
    by (simp add: on_server_def case_prod_beta)
  have "one_change P not_done (changes (st_world st)) (changes (snd (f (st_world st)))) (fst (f (st_world st)))"
    using assms(2) unfolding careful_def by simp
  then show ?thesis using Inr x [OF s] unfolding one_change_def by auto
qed

lemma put_one_change:
  assumes "client_ok changes (pv_client p)"
  shows "one_change (\<lambda>v. (po_IfMatch opts \<noteq> [] \<longrightarrow> v = Some (po_IfMatch opts)) \<and> (po_IfNoneMatch opts \<longrightarrow> v = None))
    IsConflict (changes (st_world st)) (changes (st_world (snd (prov_put p c path ob opts st)))) (fst (prov_put p c path ob opts st))"
proof (cases "Marshal (pv_lib p) (Some ob)")
  case (Inl e)
  then show ?thesis by (simp add: prov_put_def one_change_def IsConflict_def)
next
  case (Inr body)
  show ?thesis
  proof (rule one_change_after [where f = "ci_PutOpts (pv_client p) path body opts", OF assms])
    show "careful changes (\<lambda>v. (po_IfMatch opts \<noteq> [] \<longrightarrow> v = Some (po_IfMatch opts)) \<and> (po_IfNoneMatch opts \<longrightarrow> v = None))
        (ci_PutOpts (pv_client p) path body opts)"
      using assms unfolding client_ok_def by blast
  next
    fix y st' assume s: "on_server (ci_PutOpts (pv_client p) path body opts) st = (Inr y, st')"
    show "changes (st_world (snd (prov_put p c path ob opts st))) = changes (st_world st') \<and> (\<exists>z. fst (prov_put p c path ob opts st) = Inr z)"
      by (simp add: prov_put_def Inr s Let_def Get_unchanged [OF assms, THEN unchangedD] case_prod_beta split: sum.split)
  next
    fix e st' assume s: "on_server (ci_PutOpts (pv_client p) path body opts) st = (Inl (PeDav e), st')"
    show "changes (st_world (snd (prov_put p c path ob opts st))) = changes (st_world st') \<and>
        (\<exists>z. fst (prov_put p c path ob opts st) = Inl z \<and> (IsConflict z \<longrightarrow> IsPreconditionFailed e))"
      using conflict_result [of p c path "Some ((ob_Clone ob)\<lparr>ob_Path := path\<rparr>)" st']
      by (auto simp add: prov_put_def Inr s Let_def conflict_unchanged [OF assms, THEN unchangedD] IsConflict_def)
  qed
qed

lemma one_change_mono: "one_change P r xs ys x \<Longrightarrow> (\<And>v. P v \<Longrightarrow> Q v) \<Longrightarrow> one_change Q r xs ys x"
  unfolding one_change_def by (metis list.pred_mono_strong)

lemma nothing_done: "\<not> IsConflict e \<Longrightarrow> one_change P IsConflict xs xs (Inl e)"
  by (simp add: one_change_def)

lemma Create_one_change:
  assumes "client_ok changes (pv_client p)"
  shows "one_change (\<lambda>v. v = None) IsConflict (changes (st_world st)) (changes (st_world (snd (prov_Create p c o' st))))
    (fst (prov_Create p c o' st))"
proof -
  have "one_change (\<lambda>v. v = None) IsConflict (changes (st_world st))
      (changes (st_world (snd (prov_put p c path ob \<lparr>po_ContentType = m, po_IfMatch = [], po_IfNoneMatch = True\<rparr> st))))
      (fst (prov_put p c path ob \<lparr>po_ContentType = m, po_IfMatch = [], po_IfNoneMatch = True\<rparr> st))" for c path ob m
    by (rule one_change_mono [OF put_one_change [OF assms]]) simp
  then show ?thesis by (simp add: prov_Create_def Let_def nothing_done IsConflict_def split: option.split)
qed

lemma Update_one_change:
  assumes "client_ok changes (pv_client p)"
  shows "one_change (\<lambda>v. v = Some (ob_ETag ob) \<and> ob_ETag ob \<noteq> []) IsConflict (changes (st_world st))
    (changes (st_world (snd (prov_Update p c (Some ob) st)))) (fst (prov_Update p c (Some ob) st))"
proof (cases "ob_Path ob = [] \<or> ob_ETag ob = []")
  case True
  then show ?thesis by (auto simp: prov_Update_def Let_def nothing_done IsConflict_def)
next
  case False
  then show ?thesis by (simp add: prov_Update_def Let_def one_change_mono [OF put_one_change [OF assms]])
qed

lemma Delete_one_change:
  assumes "client_ok changes (pv_client p)"
  shows "one_change (\<lambda>v. v = Some t \<and> t \<noteq> []) IsConflict (changes (st_world st))
    (changes (st_world (snd (prov_Delete p c o' t st)))) (fst (prov_Delete p c o' t st))"
proof (cases "o' = [] \<or> t = []")
  case True
  then show ?thesis by (auto simp: prov_Delete_def Let_def nothing_done IsConflict_def)
next
  case False
  have "careful changes (\<lambda>v. t \<noteq> [] \<longrightarrow> v = Some t) (ci_Delete (pv_client p) o' t)"
    using assms unfolding client_ok_def by blast
  then have "one_change (\<lambda>v. t \<noteq> [] \<longrightarrow> v = Some t) IsConflict (changes (st_world st))
      (changes (st_world (snd (prov_Delete p c o' t st)))) (fst (prov_Delete p c o' t st))"
  proof (rule one_change_after [OF assms])
    fix y st' assume s: "on_server (ci_Delete (pv_client p) o' t) st = (Inr y, st')"
    show "changes (st_world (snd (prov_Delete p c o' t st))) = changes (st_world st') \<and> (\<exists>z. fst (prov_Delete p c o' t st) = Inr z)"
      using False by (simp add: prov_Delete_def s Let_def)
  next
    fix e st' assume s: "on_server (ci_Delete (pv_client p) o' t) st = (Inl (PeDav e), st')"
    show "changes (st_world (snd (prov_Delete p c o' t st))) = changes (st_world st') \<and>
        (\<exists>z. fst (prov_Delete p c o' t st) = Inl z \<and> (IsConflict z \<longrightarrow> IsPreconditionFailed e))"
      using False conflict_result [of p "normalizeCollection c" o' None st']
      by (auto simp: prov_Delete_def s Let_def conflict_unchanged [OF assms, THEN unchangedD] IsConflict_def)
  qed
  then show ?thesis by (rule one_change_mono) (use False in simp)
qed

subsection \<open>No blind overwrite\<close>


text \<open>A server that keeps one object: its version, and the versions replaced so far.\<close>

definition one_object :: "(string option list \<times> string option) http" where
  "one_object =
     \<lparr>ht_Do = (\<lambda>r (log, cur).
        let answer = (\<lambda>code. Some \<lparr>rp_Status = code, rp_ETag = [], rp_ContentType = [], rp_Body = []\<rparr>)
        in if rq_Method r \<in> {''PUT'', ''DELETE''}
           then if (\<forall>t \<in> set_option (gm_get (rq_Headers r) ''If-Match''). cur = Some t) \<and>
                   (gm_get (rq_Headers r) ''If-None-Match'' = Some ''*'' \<longrightarrow> cur = None)
                then (answer 204, log @ [cur], if rq_Method r = ''PUT'' then Some ''next'' else None)
                else (answer 412, log, cur)
           else (answer 207, log, cur)),
      ht_lookup = (\<lambda>_ _. Some [[93, 184, 216, 34]]), ht_Parse = (\<lambda>_. Some \<lparr>url_Scheme = ''https'', url_Hostname = ''dav.example'', url_Path = ''/c/a''\<rparr>),
      ht_URL_String = (\<lambda>_. []), ht_MediaType = (\<lambda>_. None), ht_Encode = (\<lambda>_. Some []), ht_ParseMultiStatus = (\<lambda>_. Some [])\<rparr>"

lemma one_object_conditional: "conditional_server one_object fst"
  by (auto simp: conditional_server_def one_object_def Let_def allows_def)

definition demo_base :: dav_url where
  "demo_base = \<lparr>url_Scheme = ''https'', url_Hostname = ''dav.example'', url_Path = ''/''\<rparr>"

definition demo_provider :: "(string option list \<times> string option, unit) Provider" where
  "demo_provider =
     prov_New contacts_kind
       (dav_client demo_net one_object \<lparr>cl_base = demo_base, cl_guard = demo_guard, cl_user = [], cl_pass = [], cl_maxBody = 1000\<rparr>)
       ''acc'' None \<lparr>op_BatchSize = 0, op_SkipWriteVerification = False\<rparr> demo_lib
       \<lparr>de_text = (\<lambda>_. None), de_types = (\<lambda>_. None), de_PathEscape = (\<lambda>s. s)\<rparr> (\<lambda>_. 0)"


end
