(* ===== verification/ProviderQueries.thy ===== *)
theory ProviderQueries
  imports ProviderObjects "HOL-Library.Product_Lexorder"
begin

text \<open>
  Queries over a collection: the agenda of a calendar (\<open>Query\<close> of \<open>internal/provider/calendar/provider.go\<close>), its tasks and
  notes and the searches (\<open>query.go\<close>, \<open>internal/provider/contacts/search.go\<close>). A result set is cached as references
  to cached bodies under a key that ends in the collection's tag. JSON and the text form of times are parameters.
\<close>

subsection \<open>Keys and codecs\<close>

record cachedRef =
  cr_Path :: string
  cr_ETag :: string

record query_codec =
  qc_Format :: "time \<Rightarrow> string"
  qc_encode_refs :: "cachedRef list \<Rightarrow> bytes option"
  qc_decode_refs :: "bytes \<Rightarrow> cachedRef list option"
  qc_encode_occurrences :: "Occurrence list \<Rightarrow> bytes option"
  qc_decode_occurrences :: "bytes \<Rightarrow> Occurrence list option"

definition timeKey :: "query_codec \<Rightarrow> time \<Rightarrow> string" where
  "timeKey Q t = (if is_zero t then ''-'' else qc_Format Q t)"

definition componentKey :: "query_codec \<Rightarrow> string \<Rightarrow> time \<Rightarrow> time \<Rightarrow> string \<Rightarrow> string" where
  "componentKey Q component f t ctag =
     [CHR 0x01] @ ''comp'' @ [CHR 0x00] @ component @ [CHR 0x00] @ timeKey Q f @ [CHR 0x00] @ timeKey Q t @ [CHR 0x00] @ ctag"

definition rangeKey :: "query_codec \<Rightarrow> time \<Rightarrow> time \<Rightarrow> string \<Rightarrow> string" where
  "rangeKey Q f t ctag =
     [CHR 0x01] @ ''range'' @ [CHR 0x00] @ qc_Format Q f @ [CHR 0x00] @ qc_Format Q t @ [CHR 0x00] @ ctag"

definition sameETags :: "(string, string) gomap \<Rightarrow> (string, string) gomap \<Rightarrow> bool" where
  "sameETags a b \<longleftrightarrow>
     length a = length b \<and> list_all (\<lambda>(path, etag). (case gm_get b path of Some t \<Rightarrow> t | None \<Rightarrow> []) = etag) a"

definition sortObjects :: "Object list \<Rightarrow> Object list" where
  "sortObjects objects = sort_key ob_Path objects"

definition query_cached :: "('s, 'c) Provider \<Rightarrow> string \<Rightarrow> string \<Rightarrow> ('s, 'c) pstate \<Rightarrow> bytes option \<times> ('s, 'c) pstate" where
  "query_cached p collection key st =
     (case pv_cache p of
        None \<Rightarrow> (None, st)
      | Some ops \<Rightarrow> (case co_GetBody ops (st_cache st) (cache_key p collection) key of (c, r) \<Rightarrow> (r, st\<lparr>st_cache := c\<rparr>)))"

definition query_store :: "('s, 'c) Provider \<Rightarrow> string \<Rightarrow> string \<Rightarrow> bytes option \<Rightarrow> ('s, 'c) pstate \<Rightarrow> ('s, 'c) pstate" where
  "query_store p collection key raw st =
     (case (pv_cache p, raw) of
        (Some ops, Some raw) \<Rightarrow> st\<lparr>st_cache := co_PutBody ops (st_cache st) (cache_key p collection) key raw\<rparr>
      | _ \<Rightarrow> st)"

subsection \<open>The tag a result is cached under\<close>

text \<open>
  The tag and the versions as the cache knew them, then a listing; when the collection has moved on the cached
  bodies of the collection are dropped.
\<close>

definition refreshed_listing :: "('s, 'c) Provider \<Rightarrow> string \<Rightarrow> ('s, 'c, Listing) pcall" where
  "refreshed_listing p collection st =
     (case cachedETags p collection st of
        (previous, st) \<Rightarrow>
          (let previousCTag = cachedCTag p collection st
           in case prov_List p collection st of
                (Inl e, st) \<Rightarrow> (Inl e, st)
              | (Inr l, st) \<Rightarrow>
                  if previous \<noteq> None \<and> (previousCTag \<noteq> ls_CTag l \<or> \<not> sameETags (the previous) (ls_ETags l))
                  then (Inr l, setETags p collection (ls_CTag l) (ls_ETags l) (invalidate p collection st))
                  else (Inr l, st)))"

definition refreshedCTag :: "('s, 'c) Provider \<Rightarrow> string \<Rightarrow> ('s, 'c) pstate \<Rightarrow> string \<times> ('s, 'c) pstate" where
  "refreshedCTag p collection st =
     (if pv_cache p = None then (''notag'', st)
      else
        (case refreshed_listing p collection st of
           (Inl _, st) \<Rightarrow> (''notag'', st)
         | (Inr l, st) \<Rightarrow> if ls_CTag l = [] then (''notag'', st) else (ls_CTag l, st)))"

subsection \<open>Result sets\<close>

fun refs_loop ::
  "('s, 'c) Provider \<Rightarrow> string \<Rightarrow> cachedRef list \<Rightarrow> Object list \<Rightarrow> ('s, 'c) pstate \<Rightarrow> Object list option \<times> ('s, 'c) pstate" where
  "refs_loop p collection [] out st = (Some out, st)"
| "refs_loop p collection (r # rs) out st =
     (case cachedBody p collection (cr_Path r) (cr_ETag r) st of
        (None, st) \<Rightarrow> (None, st)
      | (Some b, st) \<Rightarrow>
          (case ParseICal (pv_lib p) (cr_Path r) (cr_ETag r) b of
             Inl _ \<Rightarrow> (None, st)
           | Inr ob \<Rightarrow> refs_loop p collection rs (out @ [ob]) st))"

definition cachedSet :: "query_codec \<Rightarrow> ('s, 'c) Provider \<Rightarrow> string \<Rightarrow> string \<Rightarrow> ('s, 'c) pstate \<Rightarrow> Object list option \<times> ('s, 'c) pstate" where
  "cachedSet Q p collection key st =
     (case query_cached p collection key st of
        (None, st) \<Rightarrow> (None, st)
      | (Some raw, st) \<Rightarrow>
          (case qc_decode_refs Q raw of None \<Rightarrow> (None, st) | Some refs \<Rightarrow> refs_loop p collection refs [] st))"

definition putCachedSet :: "query_codec \<Rightarrow> ('s, 'c) Provider \<Rightarrow> string \<Rightarrow> string \<Rightarrow> Object list \<Rightarrow> ('s, 'c) pstate \<Rightarrow> ('s, 'c) pstate" where
  "putCachedSet Q p collection key objects st =
     (if list_ex (\<lambda>ob. ob_ETag ob = []) objects then st
      else query_store p collection key
             (qc_encode_refs Q (map (\<lambda>ob. \<lparr>cr_Path = ob_Path ob, cr_ETag = ob_ETag ob\<rparr>) objects)) st)"

text \<open>The objects of a report that are of the component asked for; what does not parse is left out.\<close>

fun objectsFromReport ::
  "('s, 'c) Provider \<Rightarrow> string \<Rightarrow> string \<Rightarrow> MultiStatus \<Rightarrow> Object list \<Rightarrow> ('s, 'c) pstate \<Rightarrow> Object list \<times> ('s, 'c) pstate" where
  "objectsFromReport p collection component [] out st = (out, st)"
| "objectsFromReport p collection component (r # rs) out st =
     (case resp_Path r of
        Inl _ \<Rightarrow> objectsFromReport p collection component rs out st
      | Inr path \<Rightarrow>
          (case DecodeProp CalendarDataName (de_text (pv_dec p)) r of
             Inl _ \<Rightarrow> objectsFromReport p collection component rs out st
           | Inr data \<Rightarrow>
               let etag = (case DecodeProp GetETagName (de_text (pv_dec p)) r of Inr t \<Rightarrow> t | Inl _ \<Rightarrow> [])
               in (case ParseICal (pv_lib p) path (TrimSpace etag) data of
                     Inl _ \<Rightarrow> objectsFromReport p collection component rs out st
                   | Inr ob \<Rightarrow>
                       if component \<noteq> [] \<and> ob_Component (lb_U (pv_lib p)) (Some ob) \<noteq> component
                       then objectsFromReport p collection component rs out st
                       else objectsFromReport p collection component rs (out @ [ob])
                              (putCachedBody p collection path (ob_ETag ob) data st))))"

record ObjectSet =
  os_Collection :: string
  os_Component :: string
  os_Objects :: "Object list"
  os_FromCache :: bool

definition QueryComponent ::
  "query_codec \<Rightarrow> ('s, 'c) Provider \<Rightarrow> string \<Rightarrow> string \<Rightarrow> time \<Rightarrow> time \<Rightarrow> ('s, 'c, ObjectSet) pcall" where
  "QueryComponent Q p collection component f t st =
     (let collection = normalizeCollection collection
      in if collection = [] then (Inl PeCollectionRequired, st)
         else
           (let component = ToUpper (lb_U (pv_lib p)) (TrimSpace component)
            in if component = [] then (Inl PeComponent, st)
               else
                 (case refreshedCTag p collection st of
                    (ctag, st) \<Rightarrow>
                      (let key = componentKey Q component f t ctag
                       in case cachedSet Q p collection key st of
                            (Some objects, st) \<Rightarrow>
                              (Inr \<lparr>os_Collection = collection, os_Component = component, os_Objects = objects, os_FromCache = True\<rparr>, st)
                          | (None, st) \<Rightarrow>
                              (case on_server (ci_Report (pv_client p) collection DepthOne (NewCalendarComponentQuery component f t [])) st of
                                 (Inl e, st) \<Rightarrow> (Inl e, st)
                               | (Inr ms, st) \<Rightarrow>
                                   (case objectsFromReport p collection component ms [] st of
                                      (objects, st) \<Rightarrow>
                                        (let objects = sortObjects objects
                                         in (Inr \<lparr>os_Collection = collection, os_Component = component, os_Objects = objects,
                                                  os_FromCache = False\<rparr>,
                                             putCachedSet Q p collection key objects st))))))))"

subsection \<open>Searching\<close>

definition calendar_SearchProps :: "string list" where
  "calendar_SearchProps = [''SUMMARY'', ''DESCRIPTION'']"

definition searchResult :: "string \<Rightarrow> (string, Object) gomap \<Rightarrow> ObjectSet" where
  "searchResult collection found =
     \<lparr>os_Collection = collection, os_Component = [], os_Objects = sortObjects (map snd found), os_FromCache = False\<rparr>"

text \<open>The reports, one per component and property; \<open>cancelled\<close> is \<open>ctx.Err\<close>. The last component says whether the loop ran out.\<close>

fun search_loop ::
  "('s \<Rightarrow> bool) \<Rightarrow> ('s, 'c) Provider \<Rightarrow> string \<Rightarrow> string \<Rightarrow> (string \<times> string) list \<Rightarrow> (string, Object) gomap \<Rightarrow>
     prov_error option \<Rightarrow> ('s, 'c) pstate \<Rightarrow> (string, Object) gomap \<times> prov_error option \<times> bool \<times> ('s, 'c) pstate" where
  "search_loop cancelled p collection txt [] found firstErr st = (found, firstErr, True, st)"
| "search_loop cancelled p collection txt ((component, property) # qs) found firstErr st =
     (if cancelled (st_world st) then (found, firstErr, False, st)
      else
        (case on_server (ci_Report (pv_client p) collection DepthOne (NewCalendarTextQuery component property txt [])) st of
           (Inl e, st) \<Rightarrow>
             search_loop cancelled p collection txt qs found (if firstErr = None then Some e else firstErr) st
         | (Inr ms, st) \<Rightarrow>
             (case objectsFromReport p collection component ms [] st of
                (objects, st) \<Rightarrow>
                  search_loop cancelled p collection txt qs (fold (\<lambda>ob. gm_put (ob_Path ob) ob) objects found) firstErr st)))"

text \<open>The result, whether the search was cancelled, and the error of a search that found nothing.\<close>

definition calendar_Search ::
  "('s \<Rightarrow> bool) \<Rightarrow> ('s, 'c) Provider \<Rightarrow> string \<Rightarrow> string \<Rightarrow> string list \<Rightarrow> ('s, 'c, ObjectSet \<times> bool) pcall" where
  "calendar_Search cancelled p collection txt components st =
     (let collection = normalizeCollection collection
      in if collection = [] then (Inl PeCollectionRequired, st)
         else
           (let txt = TrimSpace txt
            in if txt = [] then (Inl PeText, st)
               else
                 (let components = (if components = [] then [''VEVENT'', ''VTODO'', ''VJOURNAL''] else components)
                  in case search_loop cancelled p collection txt
                            (concat (map (\<lambda>c. map (\<lambda>q. (c, q)) calendar_SearchProps) components)) [] None st of
                       (found, firstErr, ended, st) \<Rightarrow>
                         if \<not> ended then (Inr (searchResult collection found, True), st)
                         else
                           (case firstErr of
                              Some e \<Rightarrow> if found = [] then (Inl e, st) else (Inr (searchResult collection found, False), st)
                            | None \<Rightarrow> (Inr (searchResult collection found, False), st)))))"

fun cards_loop ::
  "('s, 'c) Provider \<Rightarrow> string \<Rightarrow> MultiStatus \<Rightarrow> Object list \<Rightarrow> ('s, 'c) pstate \<Rightarrow> Object list \<times> ('s, 'c) pstate" where
  "cards_loop p collection [] objects st = (objects, st)"
| "cards_loop p collection (r # rs) objects st =
     (case resp_Path r of
        Inl _ \<Rightarrow> cards_loop p collection rs objects st
      | Inr path \<Rightarrow>
          if normalizeCollection path = collection then cards_loop p collection rs objects st
          else
            (case DecodeProp AddressDataName (de_text (pv_dec p)) r of
               Inl _ \<Rightarrow> cards_loop p collection rs objects st
             | Inr data \<Rightarrow>
                 let etag = (case DecodeProp GetETagName (de_text (pv_dec p)) r of Inr t \<Rightarrow> t | Inl _ \<Rightarrow> [])
                 in (case ParseVCard (pv_lib p) path (TrimSpace etag) data of
                       Inl _ \<Rightarrow> cards_loop p collection rs objects st
                     | Inr ob \<Rightarrow> cards_loop p collection rs (objects @ [ob]) (putCachedBody p collection path (ob_ETag ob) data st))))"

definition contacts_Search :: "('s, 'c) Provider \<Rightarrow> string \<Rightarrow> string \<Rightarrow> ('s, 'c, ObjectSet) pcall" where
  "contacts_Search p collection txt st =
     (let collection = normalizeCollection collection
      in if collection = [] then (Inl PeCollectionRequired, st)
         else
           (let txt = TrimSpace txt
            in if txt = [] then (Inl PeText, st)
               else
                 (case on_server (ci_Report (pv_client p) collection DepthOne (NewAddressBookQuery txt [])) st of
                    (Inl e, st) \<Rightarrow> (Inl e, st)
                  | (Inr ms, st) \<Rightarrow>
                      (case cards_loop p collection ms [] st of
                         (objects, st) \<Rightarrow>
                           (Inr \<lparr>os_Collection = collection, os_Component = [], os_Objects = sortObjects objects, os_FromCache = False\<rparr>, st)))))"

subsection \<open>The agenda\<close>

record Agenda =
  ag_Collection :: string
  ag_From :: time
  ag_To :: time
  ag_Occurrences :: "Occurrence list"
  ag_FromCache :: bool

fun agenda_loop ::
  "dav_lib \<Rightarrow> decoders \<Rightarrow> time \<Rightarrow> time \<Rightarrow> string option \<Rightarrow> MultiStatus \<Rightarrow> Occurrence list \<Rightarrow> model_error + Occurrence list" where
  "agenda_loop L D f t loc [] occs = Inr occs"
| "agenda_loop L D f t loc (r # rs) occs =
     (case resp_Path r of
        Inl _ \<Rightarrow> agenda_loop L D f t loc rs occs
      | Inr path \<Rightarrow>
          (case DecodeProp CalendarDataName (de_text D) r of
             Inl _ \<Rightarrow> agenda_loop L D f t loc rs occs
           | Inr data \<Rightarrow>
               let etag = (case DecodeProp GetETagName (de_text D) r of Inr t \<Rightarrow> t | Inl _ \<Rightarrow> [])
               in (case ParseICal L path (TrimSpace etag) data of
                     Inl _ \<Rightarrow> agenda_loop L D f t loc rs occs
                   | Inr ob \<Rightarrow>
                       (case ExpandOccurrences L f t loc (Some ob) of
                          Inl e \<Rightarrow> Inl e
                        | Inr expanded \<Rightarrow> agenda_loop L D f t loc rs (occs @ expanded)))))"

definition sort_occurrences :: "Occurrence list \<Rightarrow> Occurrence list" where
  "sort_occurrences occs = sort_key (\<lambda>x. (oc_Start x, oc_Summary x)) occs"

definition agenda_Query ::
  "query_codec \<Rightarrow> string option \<Rightarrow> ('s, 'c) Provider \<Rightarrow> string \<Rightarrow> time \<Rightarrow> time \<Rightarrow> ('s, 'c, Agenda) pcall" where
  "agenda_Query Q loc p collection f t st =
     (let collection = normalizeCollection collection
      in if collection = [] then (Inl PeCollectionRequired, st)
         else if \<not> f < t then (Inl PeWindow, st)
         else
           (case (if pv_cache p = None then (Inr ''notag'', st)
                  else (case refreshed_listing p collection st of
                          (Inl e, st) \<Rightarrow> (Inl e, st)
                        | (Inr l, st) \<Rightarrow> (Inr (if ls_CTag l \<noteq> [] then ls_CTag l else ''notag''), st))) of
              (Inl e, st) \<Rightarrow> (Inl e, st)
            | (Inr ctag, st) \<Rightarrow>
                (let key = rangeKey Q f t ctag
                 in case query_cached p collection key st of
                      (hit, st) \<Rightarrow>
                        (case Option.bind hit (qc_decode_occurrences Q) of
                           Some occs \<Rightarrow>
                             (Inr \<lparr>ag_Collection = collection, ag_From = f, ag_To = t, ag_Occurrences = occs, ag_FromCache = True\<rparr>, st)
                         | None \<Rightarrow>
                             (case on_server (ci_Report (pv_client p) collection DepthOne (NewCalendarQuery f t [])) st of
                                (Inl e, st) \<Rightarrow> (Inl e, st)
                              | (Inr ms, st) \<Rightarrow>
                                  (case agenda_loop (pv_lib p) (pv_dec p) f t loc ms [] of
                                     Inl e \<Rightarrow> (Inl (PeModel e), st)
                                   | Inr occs \<Rightarrow>
                                       (let occs = sort_occurrences occs
                                        in (Inr \<lparr>ag_Collection = collection, ag_From = f, ag_To = t, ag_Occurrences = occs,
                                                 ag_FromCache = False\<rparr>,
                                            query_store p collection key (qc_encode_occurrences Q occs) st))))))))"

end
