(* ===== verification/ProviderListing.thy ===== *)
theory ProviderListing
  imports ProviderObjects
begin

text \<open>
  Whether a listing is current. The server is an abstract sequence of versions of one collection, each with
  its tag and its objects' tags; others may change it between any two requests. The cache may forget at any
  time. Listing reads the tag before the objects, and that order is what makes a cached listing trustworthy:
  when the tag has not moved, neither had the objects when they were read.
\<close>

subsection \<open>The collection on the server\<close>

record 's collection =
  col_path :: string
  col_version :: "'s \<Rightarrow> nat"
  col_ctag :: "nat \<Rightarrow> string"
  col_etags :: "nat \<Rightarrow> (string, string) gomap"

definition onward :: "('s \<Rightarrow> nat) \<Rightarrow> ('s, 'a) call \<Rightarrow> bool" where
  "onward ver f \<longleftrightarrow> (\<forall>s. ver s \<le> ver (snd (f s)))"

text \<open>
  What the provider relies on: versions only grow, a successful \<open>PROPFIND\<close> answers for one of the versions
  the collection had while it ran, and a tag, where the server gives one, names one version.
\<close>

definition versioned :: "decoders \<Rightarrow> 's client \<Rightarrow> 's collection \<Rightarrow> bool" where
  "versioned D cl x \<longleftrightarrow>
     (\<forall>h d ps. onward (col_version x) (ci_PropFind cl h d ps)) \<and> (\<forall>h d b. onward (col_version x) (ci_Report cl h d b)) \<and>
     (\<forall>h g. onward (col_version x) (ci_Get cl h g)) \<and> (\<forall>h b opts. onward (col_version x) (ci_PutOpts cl h b opts)) \<and>
     (\<forall>h t. onward (col_version x) (ci_Delete cl h t)) \<and>
     (\<forall>s s' ms. ci_PropFind cl (col_path x) DepthZero [GetCTagName] s = (Inr ms, s') \<longrightarrow>
        (\<exists>v. col_version x s \<le> v \<and> v \<le> col_version x s' \<and> first_text D GetCTagName ms = col_ctag x v)) \<and>
     (\<forall>s s' ms. ci_PropFind cl (col_path x) DepthOne [GetETagName, ResourceTypeName, GetContentTypeName] s = (Inr ms, s') \<longrightarrow>
        (\<exists>v. col_version x s \<le> v \<and> v \<le> col_version x s' \<and> etags_loop D (col_path x) ms [] = col_etags x v)) \<and>
     (\<forall>v w. col_ctag x v = col_ctag x w \<longrightarrow> col_ctag x v \<noteq> [] \<longrightarrow> v = w)"

text \<open>What a page sees of the cache entry: nothing, the placeholder of a stored body, or a listing put together from two readings.\<close>

definition truthful :: "'s collection \<Rightarrow> nat \<Rightarrow> tag_entry option \<Rightarrow> bool" where
  "truthful x now' e \<longleftrightarrow>
     (\<forall>t at m. e = Some (t, at, m) \<longrightarrow> (t = [] \<and> at = zero_time \<and> m = []) \<or>
        (\<exists>v w. v \<le> w \<and> w \<le> now' \<and> t = col_ctag x v \<and> m = col_etags x w))"

lemma truthful_mono: "truthful x n e \<Longrightarrow> n \<le> n' \<Longrightarrow> truthful x n' e"
  unfolding truthful_def by (auto intro: le_trans) (use le_trans in blast)+

lemma truthful_sub:
  "truthful x n (t k) \<Longrightarrow> subcache t t' b b' \<Longrightarrow> truthful x n (t' k)"
  by (simp add: truthful_def subcache_def)

lemma etags_loop_wf: "gm_wf m \<Longrightarrow> gm_wf (etags_loop D c ms m)"
  by (induction ms arbitrary: m) (auto simp: Let_def split: sum.split)

text \<open>A step of a run: one of the provider's operations, a change of the world by others, or the cache making room.\<close>

inductive provider_step ::
  "('c \<Rightarrow> 'c \<Rightarrow> bool) \<Rightarrow> ('s \<Rightarrow> nat) \<Rightarrow> ('s, 'c) Provider \<Rightarrow> ('s, 'c) pstate \<Rightarrow> ('s, 'c) pstate \<Rightarrow> bool"
  for forget :: "'c \<Rightarrow> 'c \<Rightarrow> bool" and ver :: "'s \<Rightarrow> nat" and p :: "('s, 'c) Provider"
where
  step_List: "provider_step forget ver p st (snd (prov_List p c st))"
| step_Multiget: "provider_step forget ver p st (snd (prov_Multiget p c ps e st))"
| step_Get: "provider_step forget ver p st (snd (prov_Get p c h st))"
| step_Create: "provider_step forget ver p st (snd (prov_Create p c ob st))"
| step_Update: "provider_step forget ver p st (snd (prov_Update p c ob st))"
| step_Delete: "provider_step forget ver p st (snd (prov_Delete p c h t st))"
| step_world: "ver (st_world st) \<le> ver w \<Longrightarrow> provider_step forget ver p st (st\<lparr>st_world := w\<rparr>)"
| step_forget: "forget (st_cache st) c \<Longrightarrow> provider_step forget ver p st (st\<lparr>st_cache := c\<rparr>)"

subsection \<open>What every operation keeps\<close>

context provider_cache begin

definition coherent :: "'s collection \<Rightarrow> collectionKey \<Rightarrow> ('s, 'c) pstate \<Rightarrow> bool" where
  "coherent x k st \<longleftrightarrow> ok (st_cache st) \<and> truthful x (col_version x (st_world st)) (tags (st_cache st) k)"

lemma coherent_losses [simp]: "coherent x k (st\<lparr>st_losses := l\<rparr>) = coherent x k st"
  by (simp add: coherent_def)

lemma coherent_server: "onward (col_version x) f \<Longrightarrow> coherent x k st \<Longrightarrow> coherent x k (snd (on_server f st))"
  by (auto simp: coherent_def on_server_def onward_def case_prod_beta elim: truthful_mono split: sum.split)

lemma coherent_cache:
  assumes "pv_cache p = Some ops" and "coherent x k st"
  shows "coherent x k (snd (cachedETags p c st))" "coherent x k (snd (cachedBody p c h t st))"
    "coherent x k (invalidate p c st)" "coherent x k (putCachedBody p c h t b st)"
proof -
  have ok: "ok (st_cache st)" and tr: "truthful x (col_version x (st_world st)) (tags (st_cache st) k)"
    using assms(2) by (simp_all add: coherent_def)
  obtain c1 r1 where e: "co_GetETags ops (st_cache st) (cache_key p c) = (c1, r1)" by fastforce
  show "coherent x k (snd (cachedETags p c st))"
    using GetETags [OF ok e] tr by (simp add: coherent_def cachedETags_def assms(1) e)
  obtain c2 r2 where b: "co_GetBody ops (st_cache st) (cache_key p c) (bodyKey h t) = (c2, r2)" by fastforce
  show "coherent x k (snd (cachedBody p c h t st))"
    using GetBody [OF ok b] tr ok by (simp add: coherent_def cachedBody_def assms(1) b)
  have "truthful x (col_version x (st_world st)) (((tags (st_cache st))(cache_key p c := None)) k)"
    using tr by (simp add: truthful_def)
  then have "truthful x (col_version x (st_world st)) (tags (co_InvalidateCollection ops (st_cache st) (cache_key p c)) k)"
    by (rule truthful_sub) (rule InvalidateCollection [OF ok, THEN conjunct2])
  then show "coherent x k (invalidate p c st)"
    using InvalidateCollection [OF ok, of "cache_key p c"] by (simp add: coherent_def invalidate_def assms(1))
  have "truthful x (col_version x (st_world st)) (((tags (st_cache st))(cache_key p c := Some (case tags (st_cache st) (cache_key p c) of
      Some e \<Rightarrow> e | None \<Rightarrow> ([], zero_time, [])))) k)"
    using tr by (auto simp: truthful_def split: option.split)
  then have "truthful x (col_version x (st_world st)) (tags (co_PutBody ops (st_cache st) (cache_key p c) (bodyKey h t) b) k)"
    by (rule truthful_sub) (rule PutBody [OF ok, THEN conjunct2])
  then show "coherent x k (putCachedBody p c h t b st)"
    using PutBody [OF ok, of "cache_key p c" "bodyKey h t" b] tr ok by (simp add: coherent_def putCachedBody_def assms(1))
qed

lemma coherent_batch_loop:
  assumes "pv_cache p = Some ops"
  shows "coherent x k st \<Longrightarrow> coherent x k (snd (snd (batch_loop p c ms obs fs st)))"
  by (induction ms arbitrary: obs fs st) (auto simp: Let_def coherent_cache(4) [OF assms] split: sum.split)

lemma coherent_cached_loop:
  assumes "pv_cache p = Some ops"
  shows "coherent x k st \<Longrightarrow> coherent x k (snd (snd (snd (cached_loop p c e ps fo w fa st))))"
proof (induction ps arbitrary: fo w fa st)
  case (Cons q ps)
  then show ?case using coherent_cache(2) [OF assms Cons.prems]
    by (simp add: Let_def case_prod_beta split: option.split sum.split)
qed simp

lemma coherent_multiget:
  assumes "pv_cache p = Some ops" and "versioned D (pv_client p) x" and "coherent x k st"
  shows "coherent x k (snd (multigetBatch p c ps st))"
proof -
  have "coherent x k (snd (on_server (ci_Report (pv_client p) h d b) st))" for h d b
    using assms(2,3) by (auto simp: versioned_def intro: coherent_server)
  then show ?thesis by (simp add: multigetBatch_def coherent_batch_loop [OF assms(1)] case_prod_beta split: sum.split)
qed

lemma coherent_batches:
  assumes "pv_cache p = Some ops" and "versioned D (pv_client p) x"
  shows "coherent x k st \<Longrightarrow> coherent x k (snd (batches_loop p c bs fo fa st))"
  by (induction bs arbitrary: fo fa st) (simp_all add: coherent_multiget [OF assms] case_prod_beta split: sum.split)

lemma coherent_Multiget:
  assumes "pv_cache p = Some ops" and "versioned D (pv_client p) x" and "coherent x k st"
  shows "coherent x k (snd (prov_Multiget p c ps e st))"
  by (simp add: prov_Multiget_def Let_def coherent_batches [OF assms(1,2)] coherent_cached_loop [OF assms(1,3)]
      case_prod_beta split: sum.split)

lemma coherent_Get:
  assumes "pv_cache p = Some ops" and "versioned D (pv_client p) x" and "coherent x k st"
  shows "coherent x k (snd (prov_Get p c h st))"
proof -
  have s: "coherent x k st' \<Longrightarrow> coherent x k (snd (on_server (ci_PropFind (pv_client p) h' d ps) st'))"
    "coherent x k st' \<Longrightarrow> coherent x k (snd (on_server (ci_Get (pv_client p) h' g) st'))" for st' h' d ps g
    using assms(2) by (auto simp: versioned_def intro: coherent_server)
  have "coherent x k st' \<Longrightarrow> coherent x k (snd (fetchObjectETag p h st'))" for st'
    by (simp add: fetchObjectETag_def s case_prod_beta split: sum.split)
  then have "coherent x k st' \<Longrightarrow> coherent x k (snd (getDirect p c h st'))" for st' c
    by (simp add: getDirect_def s coherent_cache(4) [OF assms(1)] case_prod_beta split: sum.split)
  then show ?thesis
    using assms(3) by (simp add: prov_Get_def Let_def coherent_multiget [OF assms(1,2)] case_prod_beta split: sum.split option.split)
qed

lemma coherent_conflict:
  assumes "pv_cache p = Some ops" and "versioned D (pv_client p) x" and "coherent x k st"
  shows "coherent x k (snd (conflict p c h l st))"
  using coherent_Get [OF assms(1,2) coherent_cache(3) [OF assms(1,3)]]
  by (simp add: conflict_def case_prod_beta split: sum.split)

lemma coherent_put:
  assumes "pv_cache p = Some ops" and "versioned D (pv_client p) x" and "coherent x k st"
  shows "coherent x k (snd (prov_put p c h ob opts st))"
proof -
  have s: "coherent x k (snd (on_server (ci_PutOpts (pv_client p) h b opts) st))" for b
    using assms(2,3) by (auto simp: versioned_def intro: coherent_server)
  show ?thesis
    using assms(3)
    by (simp add: prov_put_def Let_def s coherent_cache(3) [OF assms(1)] coherent_Get [OF assms(1,2)]
        coherent_conflict [OF assms(1,2)] case_prod_beta split: sum.split prov_error.split)
qed

lemma coherent_writes:
  assumes "pv_cache p = Some ops" and "versioned D (pv_client p) x" and "coherent x k st"
  shows "coherent x k (snd (prov_Create p c o' st))" "coherent x k (snd (prov_Update p c o' st))" "coherent x k (snd (prov_Delete p c h t st))"
proof -
  show "coherent x k (snd (prov_Create p c o' st))"
    by (simp add: prov_Create_def Let_def coherent_put [OF assms] assms(3) split: option.split)
  show "coherent x k (snd (prov_Update p c o' st))"
    by (simp add: prov_Update_def Let_def coherent_put [OF assms] assms(3) split: option.split)
  have s: "coherent x k (snd (on_server (ci_Delete (pv_client p) h t) st))"
    using assms(2,3) by (auto simp: versioned_def intro: coherent_server)
  show "coherent x k (snd (prov_Delete p c h t st))"
    using assms(3)
    by (simp add: prov_Delete_def Let_def s coherent_cache(3) [OF assms(1)] coherent_conflict [OF assms(1,2)]
        case_prod_beta split: sum.split prov_error.split)
qed

subsection \<open>Listing\<close>

text \<open>What a listing that was returned is: the collection during the call, or a cached listing within its time to live.\<close>

definition current :: "'s collection \<Rightarrow> collectionKey \<Rightarrow> ('s, 'c) Provider \<Rightarrow> ('s, 'c) pstate \<Rightarrow> ('s, 'c) pstate \<Rightarrow> Listing \<Rightarrow> bool" where
  "current x k p st st' l \<longleftrightarrow>
     (\<exists>v. col_version x (st_world st) \<le> v \<and> v \<le> col_version x (st_world st') \<and> ls_ETags l = col_etags x v) \<or>
     (ls_FromCache l \<and> st_world st' = st_world st \<and>
       (\<exists>t at. tags (st_cache st) k = Some (t, at, ls_ETags l) \<and> time_sub (pv_Now p (st_world st)) at < ttl) \<and>
       (\<exists>v \<le> col_version x (st_world st). ls_ETags l = col_etags x v))"

lemma coherent_set:
  assumes "pv_cache p = Some ops" and "coherent x k st" and "gm_wf m"
    and "cache_key p c = k \<Longrightarrow> \<exists>v w. v \<le> w \<and> w \<le> col_version x (st_world st) \<and> t = col_ctag x v \<and> m = col_etags x w"
  shows "coherent x k (setETags p c t m st)"
proof -
  let ?now = "pv_Now p (st_world st)"
  have ok: "ok (st_cache st)" and "truthful x (col_version x (st_world st)) (tags (st_cache st) k)"
    using assms(2) by (simp_all add: coherent_def)
  then have "truthful x (col_version x (st_world st)) (((tags (st_cache st))(cache_key p c \<mapsto> (t, ?now, m))) k)"
    using assms(4) by (auto simp: truthful_def)
  then have "truthful x (col_version x (st_world st)) (tags (co_SetETags ops (st_cache st) ?now (cache_key p c) t m) k)"
    by (rule truthful_sub) (rule SetETags [OF ok assms(3), THEN conjunct2])
  then show ?thesis using SetETags [OF ok assms(3)] by (simp add: coherent_def setETags_def assms(1))
qed

lemma fetchCTag_reads:
  assumes "versioned (pv_dec p) (pv_client p) x" and "fetchCTag p c st = (r, st')"
  shows "st_cache st' = st_cache st \<and> col_version x (st_world st) \<le> col_version x (st_world st') \<and>
    (c = col_path x \<longrightarrow> (\<forall>t. r = Inr t \<longrightarrow>
       (\<exists>v. col_version x (st_world st) \<le> v \<and> v \<le> col_version x (st_world st') \<and> t = col_ctag x v)))"
proof -
  obtain a w where f: "ci_PropFind (pv_client p) c DepthZero [GetCTagName] (st_world st) = (a, w)" by fastforce
  have "onward (col_version x) (ci_PropFind (pv_client p) c DepthZero [GetCTagName])"
    using assms(1) by (simp add: versioned_def)
  then have "col_version x (st_world st) \<le> col_version x w" using f unfolding onward_def by (metis snd_conv)
  moreover have "\<exists>v. col_version x (st_world st) \<le> v \<and> v \<le> col_version x w \<and> first_text (pv_dec p) GetCTagName ms = col_ctag x v"
    if "a = Inr ms" "c = col_path x" for ms
    using assms(1) f that unfolding versioned_def by blast
  ultimately show ?thesis using assms(2) f by (auto simp: fetchCTag_def on_server_def split: sum.splits)
qed

lemma fetchETags_reads:
  assumes "versioned (pv_dec p) (pv_client p) x" and "fetchETags p c st = (r, st')"
  shows "st_cache st' = st_cache st \<and> col_version x (st_world st) \<le> col_version x (st_world st') \<and> (\<forall>m. r = Inr m \<longrightarrow> gm_wf m) \<and>
    (c = col_path x \<longrightarrow> (\<forall>m. r = Inr m \<longrightarrow>
       (\<exists>v. col_version x (st_world st) \<le> v \<and> v \<le> col_version x (st_world st') \<and> m = col_etags x v)))"
proof -
  let ?ps = "[GetETagName, ResourceTypeName, GetContentTypeName]"
  obtain a w where f: "ci_PropFind (pv_client p) c DepthOne ?ps (st_world st) = (a, w)" by fastforce
  have "onward (col_version x) (ci_PropFind (pv_client p) c DepthOne ?ps)"
    using assms(1) by (simp add: versioned_def)
  then have "col_version x (st_world st) \<le> col_version x w" using f unfolding onward_def by (metis snd_conv)
  moreover have "\<exists>v. col_version x (st_world st) \<le> v \<and> v \<le> col_version x w \<and> etags_loop (pv_dec p) c ms [] = col_etags x v"
    if "a = Inr ms" "c = col_path x" for ms
    using assms(1) f that unfolding versioned_def by blast
  moreover have "gm_wf (etags_loop (pv_dec p) c ms [])" for ms by (rule etags_loop_wf) simp
  ultimately show ?thesis using assms(2) f by (auto simp: fetchETags_def on_server_def split: sum.splits)
qed

lemma fresh_list_reads:
  assumes "pv_cache p = Some ops" and "versioned (pv_dec p) (pv_client p) x" and "coherent x (cache_key p (col_path x)) st"
    and "c = col_path x \<Longrightarrow> \<exists>v \<le> col_version x (st_world st). ctag = col_ctag x v"
    and "fresh_list p c ctag st = (r, st')"
  shows "coherent x (cache_key p (col_path x)) st' \<and> col_version x (st_world st) \<le> col_version x (st_world st') \<and>
    (c = col_path x \<longrightarrow> (\<forall>l. r = Inr l \<longrightarrow>
       (\<exists>v. col_version x (st_world st) \<le> v \<and> v \<le> col_version x (st_world st') \<and> ls_ETags l = col_etags x v)))"
proof -
  let ?k = "cache_key p (col_path x)"
  obtain a st1 where f: "fetchETags p c st = (a, st1)" by fastforce
  note F = fetchETags_reads [OF assms(2) f]
  have coh: "coherent x ?k st1"
    using F assms(3) by (auto simp: coherent_def elim: truthful_mono)
  show ?thesis
  proof (cases a)
    case (Inl e)
    then show ?thesis using assms(5) f F coh by (auto simp: fresh_list_def)
  next
    case (Inr m)
    have "coherent x ?k (setETags p c ctag m st1)"
    proof (rule coherent_set [OF assms(1) coh])
      show "gm_wf m" using F Inr by blast
      assume "cache_key p c = ?k"
      then have c: "c = col_path x" by (simp add: cache_key_def)
      then obtain v where v: "v \<le> col_version x (st_world st)" "ctag = col_ctag x v" using assms(4) by blast
      obtain w where "col_version x (st_world st) \<le> w" "w \<le> col_version x (st_world st1)" "m = col_etags x w"
        using F Inr c by blast
      then show "\<exists>v w. v \<le> w \<and> w \<le> col_version x (st_world st1) \<and> ctag = col_ctag x v \<and> m = col_etags x w"
        using v by (blast intro: le_trans)
    qed
    then show ?thesis using assms(5) f F Inr by (auto simp: fresh_list_def setETags_def split: option.split)
  qed
qed

lemma cachedETags_reads:
  assumes "pv_cache p = Some ops" and "coherent x k st" and "cachedETags p c st = (m, st')"
  shows "coherent x k st'" and "st_world st' = st_world st" and "tags (st_cache st') = tags (st_cache st)" and "ok (st_cache st')"
    and "m = map_option (snd \<circ> snd) (tags (st_cache st) (cache_key p c))"
proof -
  have ok: "ok (st_cache st)" using assms(2) by (simp add: coherent_def)
  obtain c1 r1 where e: "co_GetETags ops (st_cache st) (cache_key p c) = (c1, r1)" by fastforce
  show "coherent x k st'" using coherent_cache(1) [OF assms(1,2), of c] assms(3) by simp
  show "st_world st' = st_world st" "tags (st_cache st') = tags (st_cache st)" "ok (st_cache st')"
    "m = map_option (snd \<circ> snd) (tags (st_cache st) (cache_key p c))"
    using assms(3) GetETags [OF ok e] by (auto simp: cachedETags_def assms(1) e)
qed

text \<open>A listing revalidated by its tag is the collection as it is: the tag names one version, read before the objects.\<close>

lemma same_tag_same_etags:
  assumes "versioned D cl x" and "truthful x n (Some (t, at, m))" and "t \<noteq> []" and "t = col_ctag x v" and "n \<le> v"
  shows "m = col_etags x v"
proof -
  obtain a b where ab: "a \<le> b" "b \<le> n" "t = col_ctag x a" "m = col_etags x b"
    using assms(2,3) unfolding truthful_def by blast
  then have "a = v" using assms(1,3,4) unfolding versioned_def by metis
  then show ?thesis using ab assms(5) by (metis le_antisym le_trans)
qed

lemma List_coherent:
  assumes "pv_cache p = Some ops" and "versioned (pv_dec p) (pv_client p) x" and "coherent x (cache_key p (col_path x)) st"
    and clock: "\<And>w. ttl \<le> time_sub (pv_Now p w) zero_time"
  shows "coherent x (cache_key p (col_path x)) (snd (prov_List p c0 st)) \<and>
    (normalizeCollection c0 = col_path x \<longrightarrow> (\<forall>l. fst (prov_List p c0 st) = Inr l \<longrightarrow>
       current x (cache_key p (col_path x)) p st (snd (prov_List p c0 st)) l))"
proof -
  let ?k = "cache_key p (col_path x)"
  define c where "c = normalizeCollection c0"
  have key: "cache_key p c = ?k \<longleftrightarrow> c = col_path x" by (simp add: cache_key_def)
  obtain cached st1 where e: "cachedETags p c st = (cached, st1)" by fastforce
  note E = cachedETags_reads [OF assms(1,3) e]
  obtain r st2 where t: "fetchCTag p c st1 = (r, st2)" by fastforce
  note T = fetchCTag_reads [OF assms(2) t]
  have coh2: "coherent x ?k st2" using T E(1) by (auto simp: coherent_def elim: truthful_mono)
  have tags2: "tags (st_cache st2) = tags (st_cache st)" using T E(3) by simp
  show ?thesis
  proof (cases "c = []")
    case True
    then show ?thesis using assms(3) by (simp add: prov_List_def c_def [symmetric])
  next
    case False
    let ?hit = "cached \<noteq> None \<and> \<not> co_NeedsRefresh ops (st_cache st1) (pv_Now p (st_world st1)) (cache_key p c) []"
    show ?thesis
    proof (cases ?hit)
      case True
      then obtain t' at m where m: "tags (st_cache st) (cache_key p c) = Some (t', at, m)"
          "time_sub (pv_Now p (st_world st)) at < ttl" "cached = Some m"
        using NeedsRefresh [OF E(4)] E(2,3,5) by fastforce
      have r: "prov_List p c0 st = (Inr \<lparr>ls_Collection = c, ls_CTag = cachedCTag p c st1, ls_ETags = m, ls_FromCache = True\<rparr>, st1)"
        using True \<open>c \<noteq> []\<close> m(3) by (simp add: prov_List_def c_def [symmetric] Let_def e assms(1))
      have "\<exists>v \<le> col_version x (st_world st). m = col_etags x v" if "c = col_path x"
      proof -
        have "truthful x (col_version x (st_world st)) (Some (t', at, m))" using assms(3) m(1) that by (simp add: coherent_def)
        moreover have "at \<noteq> zero_time" using m(2) clock [of "st_world st"] by auto
        ultimately show ?thesis unfolding truthful_def by auto
      qed
      then show ?thesis using r E(1,2) m(1,2) key by (auto simp: c_def [symmetric] current_def)
    next
      case no: False
      show ?thesis
      proof (cases r)
        case (Inl err)
        then have "prov_List p c0 st = (Inl err, st2)"
          using no \<open>c \<noteq> []\<close> by (auto simp: prov_List_def c_def [symmetric] Let_def e assms(1) t)
        then show ?thesis using coh2 by simp
      next
        case ctag: (Inr ctag)
        have v: "\<exists>v. col_version x (st_world st) \<le> v \<and> v \<le> col_version x (st_world st2) \<and> ctag = col_ctag x v" if "c = col_path x"
          using T that ctag E(2) by simp
        let ?same = "cached \<noteq> None \<and> ctag \<noteq> [] \<and> co_CTag ops (st_cache st2) (cache_key p c) = Some ctag"
        show ?thesis
        proof (cases ?same)
          case True
          have ok2: "ok (st_cache st2)" using coh2 by (simp add: coherent_def)
          obtain at m where m: "tags (st_cache st) (cache_key p c) = Some (ctag, at, m)" "cached = Some m"
            using True CTag [OF ok2] E(5) tags2 by fastforce
          have r: "prov_List p c0 st = (Inr \<lparr>ls_Collection = c, ls_CTag = ctag, ls_ETags = m, ls_FromCache = True\<rparr>, setETags p c ctag m st2)"
            using no True \<open>c \<noteq> []\<close> m(2) by (auto simp: prov_List_def c_def [symmetric] Let_def e assms(1) t ctag)
          have now': "\<exists>v. col_version x (st_world st) \<le> v \<and> v \<le> col_version x (st_world st2) \<and> ctag = col_ctag x v \<and> m = col_etags x v"
            if c: "c = col_path x"
          proof -
            have "truthful x (col_version x (st_world st)) (Some (ctag, at, m))" using assms(3) m(1) c by (simp add: coherent_def)
            then show ?thesis using v [OF c] same_tag_same_etags [OF assms(2)] True by blast
          qed
          have "gm_wf m" using tags_wf [OF ok2] m(1) tags2 by metis
          then have "coherent x ?k (setETags p c ctag m st2)"
            using now' key by (intro coherent_set [OF assms(1) coh2]) blast+
          moreover have "st_world (setETags p c ctag m st2) = st_world st2" by (simp add: setETags_def split: option.split)
          ultimately show ?thesis using r now' by (auto simp: c_def [symmetric] current_def)
        next
          case False
          obtain r3 st3 where f: "fresh_list p c ctag st2 = (r3, st3)" by fastforce
          have F: "coherent x ?k st3 \<and> col_version x (st_world st2) \<le> col_version x (st_world st3) \<and>
            (c = col_path x \<longrightarrow> (\<forall>l. r3 = Inr l \<longrightarrow>
               (\<exists>v. col_version x (st_world st2) \<le> v \<and> v \<le> col_version x (st_world st3) \<and> ls_ETags l = col_etags x v)))"
            using v by (intro fresh_list_reads [OF assms(1,2) coh2 _ f]) blast
          have r: "prov_List p c0 st = (r3, st3)"
            using no False \<open>c \<noteq> []\<close> f by (auto simp: prov_List_def c_def [symmetric] Let_def e assms(1) t ctag)
          have "col_version x (st_world st) \<le> col_version x (st_world st2)" using T E(2) by simp
          then have "\<exists>v. col_version x (st_world st) \<le> v \<and> v \<le> col_version x (st_world st3) \<and> ls_ETags l = col_etags x v"
            if "c = col_path x" "r3 = Inr l" for l
            using F that by (blast intro: le_trans)
          then show ?thesis using r F by (auto simp: c_def [symmetric] current_def)
        qed
      qed
    qed
  qed
qed

subsection \<open>Runs\<close>

lemma run_coherent:
  assumes p: "pv_cache p = Some ops" "versioned (pv_dec p) (pv_client p) x" "\<And>w. ttl \<le> time_sub (pv_Now p w) zero_time"
    and forget: "\<And>c c'. forget c c' \<Longrightarrow> ok c' \<and> (\<exists>b b'. subcache (tags c) (tags c') b b')"
    and "reaches (\<lambda>st. ok (st_cache st) \<and> tags (st_cache st) (cache_key p (col_path x)) = None) (provider_step forget (col_version x) p) st"
  shows "coherent x (cache_key p (col_path x)) st"
  using assms(5)
proof (induction rule: reaches.induct)
  case (reaches_start st)
  then show ?case by (simp add: coherent_def truthful_def)
next
  case (reaches_step st st')
  note I = reaches_step.IH
  show ?case
    using reaches_step.hyps(2)
  proof cases
    case (step_List c)
    then show ?thesis using List_coherent [OF p(1,2) I p(3)] by blast
  next
    case (step_world w)
    then show ?thesis using I by (auto simp: coherent_def elim: truthful_mono)
  next
    case (step_forget c)
    then show ?thesis using I forget [OF step_forget(2)] by (auto simp: coherent_def intro: truthful_sub)
  qed (simp_all add: coherent_Multiget [OF p(1,2) I] coherent_Get [OF p(1,2) I] coherent_writes [OF p(1,2) I])
qed

end

subsection \<open>On the session's cache\<close>


text \<open>A collection with one object, whose tags grow with each version.\<close>

definition demo_answer :: "string \<Rightarrow> xml_name \<Rightarrow> string \<Rightarrow> MultiStatus" where
  "demo_answer path name v =
     [\<lparr>rs_Hrefs = [path], rs_PropStats = [\<lparr>pt_Prop = [\<lparr>rx_Name = name, rx_Content = v\<rparr>], pt_Status = Some 200\<rparr>], rs_Status = None\<rparr>]"

definition demo_version :: "nat \<Rightarrow> string" where
  "demo_version n = replicate (Suc n) (CHR ''v'')"

definition demo_collection :: "nat collection" where
  "demo_collection = \<lparr>col_path = ''/c/'', col_version = (\<lambda>n. n), col_ctag = demo_version, col_etags = (\<lambda>n. [(''/c/x'', demo_version n)])\<rparr>"

definition demo_listing_client :: "nat client" where
  "demo_listing_client =
     \<lparr>ci_PropFind = (\<lambda>h d ps n. (Inr (if GetCTagName \<in> set ps then demo_answer ''/c/'' GetCTagName (demo_version n)
                                  else demo_answer ''/c/x'' GetETagName (demo_version n)), n)),
      ci_Get = (\<lambda>h g n. (Inl ErrNetwork, n)), ci_Delete = (\<lambda>h t n. (Inl ErrNetwork, n)),
      ci_Report = (\<lambda>h d b n. (Inl ErrNetwork, n)), ci_PutOpts = (\<lambda>h b opts n. (Inl ErrNetwork, n))\<rparr>"

definition demo_lister :: "(nat, Cache \<times> nat) Provider" where
  "demo_lister =
     prov_New contacts_kind demo_listing_client ''acc'' (Some session_cache) \<lparr>op_BatchSize = 0, op_SkipWriteVerification = False\<rparr>
       demo_lib \<lparr>de_text = (\<lambda>raw. Some (rx_Content raw)), de_types = (\<lambda>_. None), de_PathEscape = (\<lambda>s. s)\<rparr> (\<lambda>n. 1000 * hour + int n)"

definition demo_cfg :: CacheConfig where
  "demo_cfg = \<lparr>CollectionTTL = minute, MaxCollections = 0, MaxETagEntries = 0, MaxBodyBytes = 0, MaxProcessBytes = 0, MaxThumbBytes = 0,
     MaxThumbEntries = 0\<rparr>"

lemma demo_tight: "TrimSpace (demo_version n) = demo_version n"
  by (rule TrimSpace_tight) (simp_all add: demo_version_def IsSpace_def)

lemma demo_listing_versioned: "versioned (pv_dec demo_lister) demo_listing_client demo_collection"
proof -
  let ?D = "pv_dec demo_lister"
  have t: "TrimSpace ''/c/x'' = ''/c/x''" by (rule TrimSpace_tight) (simp_all add: IsSpace_def)
  have n: "normalizeCollection ''/c/x'' \<noteq> ''/c/''" by (simp add: normalizeCollection_def t Let_def)
  have d: "de_text ?D r = Some (rx_Content r)" "de_types ?D r = None" for r by (simp_all add: demo_lister_def prov_New_def)
  note defs = DecodeProp_def OKProp_def prop_Get_def status_ok_def demo_answer_def d GetCTagName_def GetETagName_def resp_Path_def
  have 1: "first_text ?D GetCTagName (demo_answer ''/c/'' GetCTagName (demo_version v)) = demo_version v" for v
    by (simp add: defs demo_tight)
  have 2: "etags_loop ?D ''/c/'' (demo_answer ''/c/x'' GetETagName (demo_version v)) [] = [(''/c/x'', demo_version v)]" for v
    using n by (simp add: defs demo_tight ResourceTypeName_def gm_put_def) (simp add: demo_version_def gm_put_def)
  have 3: "GetCTagName \<noteq> GetETagName" "GetCTagName \<noteq> ResourceTypeName" "GetCTagName \<noteq> GetContentTypeName"
    by (simp_all add: GetCTagName_def GetETagName_def ResourceTypeName_def GetContentTypeName_def NamespaceCS_def NamespaceDAV_def)
  have 4: "demo_version v = demo_version w \<longleftrightarrow> v = w" for v w by (simp add: demo_version_def replicate_eq_replicate)
  show ?thesis
    using 3 by (auto simp: versioned_def onward_def demo_listing_client_def demo_collection_def 1 2 4)
qed


end
