(* ===== verification/ProviderSets.thy ===== *)
theory ProviderSets
  imports ProviderQueries ProviderListing
begin

text \<open>
  Result sets in the cache: a set that comes back from the cache is the set that was read, object by object,
  whatever the cache evicted in between; and a set of a server without collection tags stays in the cache
  when another page has already read that the collection changed.
\<close>

subsection \<open>What a cache may answer\<close>

context provider_cache begin

text \<open>\<open>may c k key b\<close>: what the cache answers for the key, if it answers, is \<open>b\<close>.\<close>

definition may :: "'c \<Rightarrow> collectionKey \<Rightarrow> string \<Rightarrow> bytes \<Rightarrow> bool" where
  "may c k key b \<longleftrightarrow> (\<forall>x. body c k key = Some x \<longrightarrow> x = b)"

lemma may_forget: "may c k key b \<Longrightarrow> subcache t t' (body c) (body c') \<Longrightarrow> may c' k key b"
  by (auto simp: may_def subcache_def)

lemma PutBody_may:
  assumes "ok c"
  shows "may (co_PutBody ops c k key x) k key x"
    and "may c k key' b \<Longrightarrow> key' \<noteq> key \<Longrightarrow> may (co_PutBody ops c k key x) k key' b"
proof -
  have sub: "subcache t t' b b' \<Longrightarrow> b' k q = Some y \<Longrightarrow> b k q = Some y" for t t' :: "collectionKey \<Rightarrow> tag_entry option" and b b' q y
    unfolding subcache_def by blast
  have put: "((body c k)(key \<mapsto> x)) q = Some y" if "body (co_PutBody ops c k key x) k q = Some y" for q y
    using that sub [OF PutBody [OF assms, of k key x, THEN conjunct2], of q y] by simp
  show "may (co_PutBody ops c k key x) k key x" using put by (fastforce simp: may_def)
  show "may c k key' b \<Longrightarrow> key' \<noteq> key \<Longrightarrow> may (co_PutBody ops c k key x) k key' b"
    using put by (fastforce simp: may_def)
qed

text \<open>The bodies of the objects read so far are the ones under their keys.\<close>

definition body_read :: "('s, 'c) Provider \<Rightarrow> string \<Rightarrow> ('s, 'c) pstate \<Rightarrow> Object \<Rightarrow> bool" where
  "body_read p collection st ob \<longleftrightarrow>
     (\<exists>b. ParseICal (pv_lib p) (ob_Path ob) (ob_ETag ob) b = Inr ob \<and>
       (ob_ETag ob \<noteq> [] \<longrightarrow> may (st_cache st) (cache_key p collection) (bodyKey (ob_Path ob) (ob_ETag ob)) b))"

end

text \<open>A path without the separator of the keys, and not a key of a result set.\<close>

definition plain_path :: "string \<Rightarrow> bool" where
  "plain_path q \<longleftrightarrow> CHR 0x00 \<notin> set q \<and> (q = [] \<or> hd q \<noteq> CHR 0x01)"

lemma bodyKey_inject:
  assumes "plain_path p" "plain_path q" "bodyKey p t = bodyKey q u"
  shows "p = q"
proof -
  have w: "takeWhile (\<lambda>c. c \<noteq> CHR 0x00) (bodyKey x t) = x" if "plain_path x" for x t
    using that by (auto simp: bodyKey_def plain_path_def takeWhile_tail)
  show ?thesis using w [OF assms(1), of t] w [OF assms(2), of u] assms(3) by simp
qed

definition report_paths :: "MultiStatus \<Rightarrow> string list" where
  "report_paths ms = List.map_filter (\<lambda>r. case resp_Path r of Inr q \<Rightarrow> Some q | Inl _ \<Rightarrow> None) ms"

definition refs_of :: "Object list \<Rightarrow> cachedRef list" where
  "refs_of obs = map (\<lambda>ob. \<lparr>cr_Path = ob_Path ob, cr_ETag = ob_ETag ob\<rparr>) obs"

lemma report_paths_simps [simp]:
  "report_paths [] = []"
  "report_paths (r # rs) = (case resp_Path r of Inr q \<Rightarrow> q # report_paths rs | Inl _ \<Rightarrow> report_paths rs)"
  by (simp_all add: report_paths_def split: sum.split)

lemma ParseICal_names: "ParseICal L path etag b = Inr ob \<Longrightarrow> ob_Path ob = path \<and> ob_ETag ob = etag"
  by (auto simp: ParseICal_def split: if_splits option.splits)

context provider_cache begin

lemma put_keeps_read:
  assumes "pv_cache p = Some ops" and "ok (st_cache st)" and "body_read p c st ob" and "bodyKey (ob_Path ob) (ob_ETag ob) \<noteq> bodyKey q t"
  shows "body_read p c (putCachedBody p c q t b st) ob"
  using assms PutBody_may(2) [OF assms(2)] by (auto simp: body_read_def putCachedBody_def)

lemma put_ok: "pv_cache p = Some ops \<Longrightarrow> ok (st_cache st) \<Longrightarrow> ok (st_cache (putCachedBody p c q t b st))"
  using PutBody by (simp add: putCachedBody_def)

lemma put_reads:
  assumes "pv_cache p = Some ops" and "ok (st_cache st)" and "ParseICal (pv_lib p) q t b = Inr ob"
  shows "body_read p c (putCachedBody p c q (ob_ETag ob) b st) ob"
  using assms PutBody_may(1) [OF assms(2)] ParseICal_names [OF assms(3)] by (auto simp: body_read_def putCachedBody_def)

lemma objectsFromReport_bodies:
  assumes "pv_cache p = Some ops"
  shows "objectsFromReport p c cn rs out st = (obs, st') \<Longrightarrow> ok (st_cache st) \<Longrightarrow> list_all (body_read p c st) out \<Longrightarrow>
    distinct (report_paths rs) \<Longrightarrow> list_all plain_path (map ob_Path out @ report_paths rs) \<Longrightarrow>
    set (map ob_Path out) \<inter> set (report_paths rs) = {} \<Longrightarrow>
    ok (st_cache st') \<and> list_all (body_read p c st') obs \<and> list_all (plain_path \<circ> ob_Path) obs"
proof (induction rs arbitrary: out st)
  case (Cons r rs)
  show ?case
  proof (cases "\<exists>q data ob. resp_Path r = Inr q \<and> DecodeProp CalendarDataName (de_text (pv_dec p)) r = Inr data \<and>
      ParseICal (pv_lib p) q (TrimSpace (case DecodeProp GetETagName (de_text (pv_dec p)) r of Inr t \<Rightarrow> t | Inl _ \<Rightarrow> [])) data = Inr ob \<and>
      \<not> (cn \<noteq> [] \<and> ob_Component (lb_U (pv_lib p)) (Some ob) \<noteq> cn)")
    case True
    then obtain q data ob t where r: "resp_Path r = Inr q" "DecodeProp CalendarDataName (de_text (pv_dec p)) r = Inr data"
        "t = TrimSpace (case DecodeProp GetETagName (de_text (pv_dec p)) r of Inr t \<Rightarrow> t | Inl _ \<Rightarrow> [])"
        "ParseICal (pv_lib p) q t data = Inr ob" "\<not> (cn \<noteq> [] \<and> ob_Component (lb_U (pv_lib p)) (Some ob) \<noteq> cn)" by blast
    let ?st = "putCachedBody p c q (ob_ETag ob) data st"
    have n: "ob_Path ob = q" "ob_ETag ob = t" using ParseICal_names [OF r(4)] by simp_all
    have q: "plain_path q" "q \<notin> ob_Path ` set out" "list_all (plain_path \<circ> ob_Path) out" using Cons.prems(5,6) r(1)
      by (auto simp: list_all_iff)
    have "body_read p c ?st x" if "x \<in> set out" for x
    proof (rule put_keeps_read [OF assms Cons.prems(2)])
      show "body_read p c st x" using Cons.prems(3) that by (simp add: list_all_iff)
      have "plain_path (ob_Path x)" "ob_Path x \<noteq> q" using q(2,3) that by (auto simp: list_all_iff)
      then show "bodyKey (ob_Path x) (ob_ETag x) \<noteq> bodyKey q (ob_ETag ob)" using bodyKey_inject q(1) by blast
    qed
    then have all: "list_all (body_read p c ?st) (out @ [ob])"
      using put_reads [OF assms Cons.prems(2) r(4)] by (simp add: list_all_iff)
    have "objectsFromReport p c cn (r # rs) out st = objectsFromReport p c cn rs (out @ [ob]) ?st"
      using r by (auto simp: Let_def n)
    then show ?thesis
      using Cons.prems r(1) q n by (intro Cons.IH [of "out @ [ob]" ?st] all put_ok [OF assms]) (auto simp: list_all_iff)
  next
    case False
    then have "objectsFromReport p c cn (r # rs) out st = objectsFromReport p c cn rs out st"
      by (auto simp: Let_def split: sum.split)
    then show ?thesis using Cons.prems by (intro Cons.IH [of out st]) (auto split: sum.splits)
  qed
qed (auto simp: list_all_iff)

text \<open>A set that is read back by its references, after anything was forgotten, is the set whose references were stored.\<close>

lemma refs_loop_whole:
  assumes "pv_cache p = Some ops"
  shows "ok (st_cache st) \<Longrightarrow> list_all (body_read p c st) obs \<Longrightarrow> list_all (\<lambda>ob. ob_ETag ob \<noteq> []) obs \<Longrightarrow>
    refs_loop p c (map (\<lambda>ob. \<lparr>cr_Path = ob_Path ob, cr_ETag = ob_ETag ob\<rparr>) obs) out st = (Some xs, st') \<Longrightarrow> xs = out @ obs"
proof (induction obs arbitrary: out st)
  case (Cons ob obs)
  obtain c2 r2 where b: "co_GetBody ops (st_cache st) (cache_key p c) (bodyKey (ob_Path ob) (ob_ETag ob)) = (c2, r2)" by fastforce
  note G = GetBody [OF Cons.prems(1) b]
  have e: "ob_ETag ob \<noteq> []" using Cons.prems(3) by simp
  then have cb: "cachedBody p c (ob_Path ob) (ob_ETag ob) st = (r2, st\<lparr>st_cache := c2\<rparr>)"
    by (simp add: cachedBody_def assms b)
  then obtain x where x: "r2 = Some x" using Cons.prems(4) by (cases r2) simp_all
  obtain y where y: "ParseICal (pv_lib p) (ob_Path ob) (ob_ETag ob) y = Inr ob"
      "may (st_cache st) (cache_key p c) (bodyKey (ob_Path ob) (ob_ETag ob)) y"
    using Cons.prems(2) e by (auto simp: body_read_def)
  then have "x = y" using G x unfolding may_def by auto
  then have l: "refs_loop p c (map (\<lambda>ob. \<lparr>cr_Path = ob_Path ob, cr_ETag = ob_ETag ob\<rparr>) obs) (out @ [ob]) (st\<lparr>st_cache := c2\<rparr>) = (Some xs, st')"
    using Cons.prems(4) cb x y(1) by simp
  have "list_all (body_read p c (st\<lparr>st_cache := c2\<rparr>)) obs"
    using Cons.prems(2) G by (auto simp: list_all_iff body_read_def may_def)
  then show ?case using Cons.IH [OF _ _ _ l] G Cons.prems(3) by simp
qed simp

lemma set_survives:
  assumes p: "pv_cache p = Some ops" and codec: "\<exists>raw. qc_encode_refs Q (refs_of (sortObjects obs)) = Some raw \<and> qc_decode_refs Q raw = Some (refs_of (sortObjects obs))"
    and o': "objectsFromReport p c cn ms [] st = (obs, st1)" "ok (st_cache st)"
    and d: "distinct (report_paths ms)" "list_all plain_path (report_paths ms)" and e: "list_all (\<lambda>ob. ob_ETag ob \<noteq> []) obs"
    and key: "hd key = CHR 0x01" "key \<noteq> []"
    and st2: "ok (st_cache st2)" "subcache (tags (st_cache (putCachedSet Q p c key (sortObjects obs) st1))) (tags (st_cache st2))
      (body (st_cache (putCachedSet Q p c key (sortObjects obs) st1))) (body (st_cache st2))"
    and hit: "cachedSet Q p c key st2 = (Some xs, st3)"
  shows "xs = sortObjects obs"
proof -
  let ?refs = "refs_of (sortObjects obs)"
  let ?k = "cache_key p c"
  obtain raw where raw: "qc_encode_refs Q ?refs = Some raw" "qc_decode_refs Q raw = Some ?refs" using codec by blast
  have b1: "ok (st_cache st1)" "list_all (body_read p c st1) obs" "list_all (plain_path \<circ> ob_Path) obs"
    using objectsFromReport_bodies [OF p o'] d by simp_all
  have e': "list_all (\<lambda>ob. ob_ETag ob \<noteq> []) (sortObjects obs)" using e by (simp add: list_all_iff sortObjects_def)
  then have put: "putCachedSet Q p c key (sortObjects obs) st1 = st1\<lparr>st_cache := co_PutBody ops (st_cache st1) ?k key raw\<rparr>"
    using raw(1) p by (auto simp: putCachedSet_def query_store_def list_all_iff list_ex_iff refs_of_def)
  have "may (st_cache st2) ?k key raw"
    using may_forget [OF PutBody_may(1) [OF b1(1)]] st2(2) unfolding put by simp
  moreover obtain c4 r4 where g: "co_GetBody ops (st_cache st2) ?k key = (c4, r4)" by fastforce
  moreover note G = GetBody [OF st2(1) g]
  ultimately have r4: "r4 = None \<or> r4 = Some raw" unfolding may_def by (metis option.exhaust)
  have br: "body_read p c (st2\<lparr>st_cache := c4\<rparr>) ob" if ob: "ob \<in> set (sortObjects obs)" for ob
  proof -
    have "ob \<in> set obs" using ob by (simp add: sortObjects_def)
    then obtain y where y: "ParseICal (pv_lib p) (ob_Path ob) (ob_ETag ob) y = Inr ob"
        "ob_ETag ob \<noteq> [] \<longrightarrow> may (st_cache st1) ?k (bodyKey (ob_Path ob) (ob_ETag ob)) y" and "plain_path (ob_Path ob)"
      using b1(2,3) by (auto simp: list_all_iff body_read_def)
    then have "bodyKey (ob_Path ob) (ob_ETag ob) \<noteq> key"
      using key by (auto simp: bodyKey_def plain_path_def hd_append split: if_splits)
    then have "ob_ETag ob \<noteq> [] \<longrightarrow> may (st_cache st2) ?k (bodyKey (ob_Path ob) (ob_ETag ob)) y"
      using y(2) may_forget [OF PutBody_may(2) [OF b1(1)]] st2(2) unfolding put by simp
    then show ?thesis using y(1) G by (auto simp: body_read_def may_def)
  qed
  have q: "query_cached p c key st2 = (r4, st2\<lparr>st_cache := c4\<rparr>)" by (simp add: query_cached_def p g)
  then have "refs_loop p c ?refs [] (st2\<lparr>st_cache := c4\<rparr>) = (Some xs, st3)"
    using hit r4 raw(2) by (auto simp: cachedSet_def)
  then show ?thesis
    using refs_loop_whole [OF p, of "st2\<lparr>st_cache := c4\<rparr>" c "sortObjects obs" "[]" xs st3] br e' G
    by (simp add: list_all_iff refs_of_def)
qed

subsection \<open>The cache stays in order\<close>

lemma ok_server [simp]: "st_cache (snd (on_server f st)) = st_cache st"
  by (simp add: on_server_def case_prod_beta split: sum.split)

lemma ok_cachedETags:
  assumes "pv_cache p = Some ops" and "ok (st_cache st)" and "cachedETags p c st = (m, st')"
  shows "ok (st_cache st') \<and> (\<forall>x. m = Some x \<longrightarrow> gm_wf x)"
proof -
  obtain c1 r1 where e: "co_GetETags ops (st_cache st) (cache_key p c) = (c1, r1)" by fastforce
  show ?thesis using GetETags [OF assms(2) e] assms(1,3) tags_wf [OF assms(2)] by (auto simp: cachedETags_def e)
qed

lemma ok_set:
  assumes "pv_cache p = Some ops" and "ok (st_cache st)"
  shows "gm_wf m \<Longrightarrow> ok (st_cache (setETags p c t m st))" and "ok (st_cache (invalidate p c st))"
  using assms SetETags InvalidateCollection by (simp_all add: setETags_def invalidate_def)

lemma ok_cachedBody:
  assumes "pv_cache p = Some ops" and "ok (st_cache st)"
  shows "ok (st_cache (snd (cachedBody p c q t st)))"
proof -
  obtain c1 r1 where e: "co_GetBody ops (st_cache st) (cache_key p c) (bodyKey q t) = (c1, r1)" by fastforce
  show ?thesis using GetBody [OF assms(2) e] assms by (simp add: cachedBody_def e)
qed

lemma fetch_cache [simp]: "st_cache (snd (fetchCTag p c st)) = st_cache st" "st_cache (snd (fetchETags p c st)) = st_cache st"
  by (simp_all add: fetchCTag_def fetchETags_def case_prod_beta split: sum.split)

lemma fetchETags_wf: "fst (fetchETags p c st) = Inr m \<Longrightarrow> gm_wf m"
  by (auto simp: fetchETags_def case_prod_beta intro!: etags_loop_wf split: sum.splits)

lemma ok_fresh_list:
  assumes "pv_cache p = Some ops" and "ok (st_cache st)"
  shows "ok (st_cache (snd (fresh_list p c t st))) \<and> (\<forall>l. fst (fresh_list p c t st) = Inr l \<longrightarrow> gm_wf (ls_ETags l))"
proof (cases "fst (fetchETags p c st)")
  case (Inl e)
  then show ?thesis using assms by (simp add: fresh_list_def case_prod_beta)
next
  case (Inr m)
  then show ?thesis using assms fetchETags_wf [OF Inr] ok_set(1) [OF assms(1)] by (simp add: fresh_list_def case_prod_beta)
qed

lemma ok_List:
  assumes "pv_cache p = Some ops" and "ok (st_cache st)"
  shows "ok (st_cache (snd (prov_List p c st)))" and "fst (prov_List p c st) = Inr l \<Longrightarrow> gm_wf (ls_ETags l)"
proof -
  let ?c = "normalizeCollection c"
  obtain m st1 where e: "cachedETags p ?c st = (m, st1)" by fastforce
  note E = ok_cachedETags [OF assms e]
  have E1: "ok (st_cache st1)" and E2: "m = Some x \<Longrightarrow> gm_wf x" for x using E by blast+
  have f: "ok (st_cache (snd (fetchCTag p ?c st1)))" using E1 by simp
  have m: "m \<noteq> None \<Longrightarrow> gm_wf (the m)" using E2 by auto
  note F = ok_fresh_list [OF assms(1) f]
  note S = ok_set(1) [OF assms(1) f m]
  show "ok (st_cache (snd (prov_List p c st)))"
    unfolding prov_List_def Let_def e prod.case
    using E1 f F S assms(2) by (simp add: case_prod_beta split: sum.split)
  show "fst (prov_List p c st) = Inr l \<Longrightarrow> gm_wf (ls_ETags l)"
    unfolding prov_List_def Let_def e prod.case
    using m F by (auto simp add: case_prod_beta split: sum.splits if_splits)
qed

lemma ok_refreshedCTag:
  assumes "pv_cache p = Some ops" and "ok (st_cache st)"
  shows "ok (st_cache (snd (refreshedCTag p c st)))"
proof -
  obtain m st1 where e: "cachedETags p c st = (m, st1)" by fastforce
  obtain r st2 where l: "prov_List p c st1 = (r, st2)" by fastforce
  have "ok (st_cache st1)" using ok_cachedETags [OF assms(1,2) e] by blast
  then have "ok (st_cache st2) \<and> (\<forall>l. r = Inr l \<longrightarrow> gm_wf (ls_ETags l))"
    using ok_List [OF assms(1), of st1 c] l by simp
  then show ?thesis
    using ok_set [OF assms(1)] by (auto simp: refreshedCTag_def refreshed_listing_def Let_def e l assms(1) split: sum.split)
qed

lemma ok_refs_loop:
  assumes "pv_cache p = Some ops"
  shows "ok (st_cache st) \<Longrightarrow> ok (st_cache (snd (refs_loop p c rs out st)))"
proof (induction rs arbitrary: out st)
  case (Cons r rs)
  then show ?case using ok_cachedBody [OF assms Cons.prems, of c "cr_Path r" "cr_ETag r"]
    by (simp add: case_prod_beta split: option.split sum.split)
qed simp

lemma ok_cachedSet:
  assumes "pv_cache p = Some ops" and "ok (st_cache st)"
  shows "ok (st_cache (snd (cachedSet Q p c key st)))"
proof -
  obtain c1 r1 where e: "co_GetBody ops (st_cache st) (cache_key p c) key = (c1, r1)" by fastforce
  then show ?thesis using GetBody [OF assms(2) e] ok_refs_loop [OF assms(1)]
    by (simp add: cachedSet_def query_cached_def assms(1) case_prod_beta split: option.split)
qed

lemma QueryComponent_set_survives:
  assumes p: "pv_cache p = Some ops" and codec: "\<exists>raw. qc_encode_refs Q (refs_of (os_Objects s)) = Some raw \<and> qc_decode_refs Q raw = Some (refs_of (os_Objects s))"
    and report: "\<And>h d b w ms w'. ci_Report (pv_client p) h d b w = (Inr ms, w') \<Longrightarrow> distinct (report_paths ms) \<and> list_all plain_path (report_paths ms)"
    and st: "ok (st_cache st)" and q: "QueryComponent Q p c cn f t st = (Inr s, st1)" "\<not> os_FromCache s"
    and e: "list_all (\<lambda>ob. ob_ETag ob \<noteq> []) (os_Objects s)"
    and st2: "ok (st_cache st2)" "subcache (tags (st_cache st1)) (tags (st_cache st2)) (body (st_cache st1)) (body (st_cache st2))"
    and hit: "cachedSet Q p (os_Collection s) (componentKey Q (os_Component s) f t (fst (refreshedCTag p (os_Collection s) st))) st2 = (Some xs, st3)"
  shows "xs = os_Objects s"
proof -
  let ?c = "normalizeCollection c" and ?cn = "ToUpper (lb_U (pv_lib p)) (TrimSpace cn)"
  obtain ctag sa where a: "refreshedCTag p ?c st = (ctag, sa)" by fastforce
  let ?key = "componentKey Q ?cn f t ctag"
  obtain hit1 sb where b: "cachedSet Q p ?c ?key sa = (hit1, sb)" by fastforce
  obtain r sc where r: "on_server (ci_Report (pv_client p) ?c DepthOne (NewCalendarComponentQuery ?cn f t [])) sb = (r, sc)" by fastforce
  have ne: "?c \<noteq> []" "?cn \<noteq> []" and h: "hit1 = None" and "\<exists>ms. r = Inr ms"
    using q a b r by (auto simp: QueryComponent_def Let_def split: if_splits option.splits sum.splits)
  then obtain ms where ms: "r = Inr ms" by blast
  obtain obs sd where o': "objectsFromReport p ?c ?cn ms [] sc = (obs, sd)" by fastforce
  have s: "s = \<lparr>os_Collection = ?c, os_Component = ?cn, os_Objects = sortObjects obs, os_FromCache = False\<rparr>"
    "st1 = putCachedSet Q p ?c ?key (sortObjects obs) sd"
    using q a b r ne h ms o' by (simp_all add: QueryComponent_def Let_def)
  have "st_cache sc = st_cache sb" using ok_server [of _ sb] r by (metis snd_conv)
  then have ok: "ok (st_cache sc)"
    using ok_cachedSet [OF p, of sa Q ?c ?key] ok_refreshedCTag [OF p st, of ?c] a b by simp
  have rp: "distinct (report_paths ms) \<and> list_all plain_path (report_paths ms)"
    using r ms report by (auto simp: on_server_def case_prod_beta split: sum.splits) (metis prod.collapse)+
  have e': "list_all (\<lambda>ob. ob_ETag ob \<noteq> []) obs" using e unfolding s(1) by (simp add: sortObjects_def list_all_iff)
  have k: "hd ?key = CHR 0x01" "?key \<noteq> []" by (simp_all add: componentKey_def)
  have hit': "cachedSet Q p ?c ?key st2 = (Some xs, st3)" using hit unfolding s(1) by (simp add: a)
  show ?thesis
    using set_survives [OF p _ o' ok _ _ e' k st2(1) _ hit'] rp st2(2) codec unfolding s by simp
qed

subsection \<open>Sets without a tag\<close>

text \<open>
  On a server without collection tags the key of a set does not change with the collection. When another page
  has listed the collection meanwhile, the versions in the cache are already the new ones, nothing looks
  changed, and the set stored before is served although its members are gone from the listing.
\<close>

lemma sameETags_refl: "gm_wf m \<Longrightarrow> sameETags m m"
proof -
  assume m: "gm_wf m"
  have "gm_get m k = Some v" if "(k, v) \<in> set m" for k v using that m by (simp add: gm_wf_def)
  then show ?thesis by (auto simp: sameETags_def list_all_iff)
qed

lemma cachedSet_world: "st_world (snd (cachedSet Q p k key st)) = st_world st"
proof -
  have "st_world (snd (refs_loop p k rs out s)) = st_world s" for rs out s
    by (induction rs arbitrary: out s)
      (auto simp: cachedBody_def case_prod_beta split: option.split sum.split)
  then show ?thesis by (simp add: cachedSet_def query_cached_def case_prod_beta split: option.split)
qed

lemma untagged_set_stays:
  assumes p: "pv_cache p = Some ops" and ok: "ok (st_cache st)" and k: "normalizeCollection k = k" "k \<noteq> []"
    and name: "ToUpper (lb_U (pv_lib p)) (TrimSpace name) = cn" "cn \<noteq> []"
    and listed: "tags (st_cache st) (cache_key p k) = Some ([], at, m)"
    and fresh: "\<And>c. ok c \<Longrightarrow> tags c = tags (st_cache st) \<Longrightarrow> \<not> co_NeedsRefresh ops c (pv_Now p (st_world st)) (cache_key p k) []"
    and hit: "\<And>c. ok c \<Longrightarrow> body c = body (st_cache st) \<Longrightarrow>
      fst (cachedSet Q p k (componentKey Q cn f t ''notag'') (st\<lparr>st_cache := c\<rparr>)) = Some xs"
  shows "\<exists>s st'. QueryComponent Q p k name f t st = (Inr s, st') \<and> os_Objects s = xs \<and> os_FromCache s \<and> st_world st' = st_world st"
proof -
  let ?k = "cache_key p k"
  have get: "\<exists>c'. cachedETags p k (st\<lparr>st_cache := c\<rparr>) = (Some m, st\<lparr>st_cache := c'\<rparr>) \<and> ok c' \<and> tags c' = tags c \<and> body c' = body c"
    if "ok c" "tags c = tags (st_cache st)" for c
  proof -
    obtain c1 r1 where e: "co_GetETags ops c ?k = (c1, r1)" by fastforce
    show ?thesis using GetETags [OF that(1) e] that(2) listed by (intro exI [of _ c1]) (simp add: cachedETags_def p e)
  qed
  obtain c1 where c1: "cachedETags p k st = (Some m, st\<lparr>st_cache := c1\<rparr>)" "ok c1" "tags c1 = tags (st_cache st)" "body c1 = body (st_cache st)"
    using get [OF ok] by auto
  obtain c2 where c2: "cachedETags p k (st\<lparr>st_cache := c1\<rparr>) = (Some m, st\<lparr>st_cache := c2\<rparr>)" "ok c2" "tags c2 = tags c1" "body c2 = body c1"
    using get [OF c1(2,3)] by blast
  have ct: "cachedCTag p k (st\<lparr>st_cache := c\<rparr>) = []" if "ok c" "tags c = tags (st_cache st)" for c
    using CTag [OF that(1)] that(2) listed by (simp add: cachedCTag_def p)
  have t2: "tags c2 = tags (st_cache st)" using c1(3) c2(3) by simp
  have l: "prov_List p k (st\<lparr>st_cache := c1\<rparr>) = (Inr \<lparr>ls_Collection = k, ls_CTag = [], ls_ETags = m, ls_FromCache = True\<rparr>, st\<lparr>st_cache := c2\<rparr>)"
    using fresh [OF c2(2) t2] ct [OF c2(2) t2] k by (simp add: prov_List_def c2(1) p)
  have m: "sameETags m m" using tags_wf [OF ok listed] by (rule sameETags_refl)
  have r: "refreshedCTag p k st = (''notag'', st\<lparr>st_cache := c2\<rparr>)"
    using ct [OF c1(2,3)] m by (simp add: refreshedCTag_def refreshed_listing_def Let_def c1(1) l p)
  have "body c2 = body (st_cache st)" using c1(4) c2(4) by simp
  then have "fst (cachedSet Q p k (componentKey Q cn f t ''notag'') (st\<lparr>st_cache := c2\<rparr>)) = Some xs" by (rule hit [OF c2(2)])
  then obtain st3 where h: "cachedSet Q p k (componentKey Q cn f t ''notag'') (st\<lparr>st_cache := c2\<rparr>) = (Some xs, st3)" by (metis prod.collapse)
  then have "st_world st3 = st_world st" using cachedSet_world [of Q p k "componentKey Q cn f t ''notag''" "st\<lparr>st_cache := c2\<rparr>"] by simp
  then show ?thesis using h k name by (simp add: QueryComponent_def r Let_def)
qed

end

subsection \<open>On the session's cache\<close>


definition demo_task_client :: "unit client" where
  "demo_task_client =
     \<lparr>ci_PropFind = (\<lambda>h d ps w. (Inl ErrNetwork, w)), ci_Get = (\<lambda>h g w. (Inl ErrNetwork, w)), ci_Delete = (\<lambda>h t w. (Inl ErrNetwork, w)),
      ci_Report = (\<lambda>h d b w. (Inr [\<lparr>rs_Hrefs = [''/c/x''], rs_PropStats =
        [\<lparr>pt_Prop = [\<lparr>rx_Name = CalendarDataName, rx_Content = ''D''\<rparr>, \<lparr>rx_Name = GetETagName, rx_Content = ''v''\<rparr>], pt_Status = Some 200\<rparr>], rs_Status = None\<rparr>], w)),
      ci_PutOpts = (\<lambda>h b opts w. (Inl ErrNetwork, w))\<rparr>"

definition demo_task :: Object where
  "demo_task = \<lparr>ob_Path = ''/c/x'', ob_ETag = ''v'', ob_kind = KindICal, ob_card = None,
     ob_cal = Some (Component ''VCALENDAR'' [] [Some (Component ''VTODO'' [] [])])\<rparr>"

definition demo_tasks :: "(unit, Cache \<times> nat) Provider" where
  "demo_tasks =
     prov_New calendar_kind demo_task_client ''acc'' (Some session_cache) \<lparr>op_BatchSize = 0, op_SkipWriteVerification = False\<rparr>
       (demo_lib\<lparr>lb_decode_cal := \<lambda>_. Some (ob_cal demo_task)\<rparr>)
       \<lparr>de_text = (\<lambda>raw. Some (rx_Content raw)), de_types = (\<lambda>_. None), de_PathEscape = (\<lambda>s. s)\<rparr> (\<lambda>_. 1000 * hour)"

definition demo_codec :: query_codec where
  "demo_codec = \<lparr>qc_Format = (\<lambda>_. ''t''), qc_encode_refs = (\<lambda>_. Some ''r''), qc_decode_refs = (\<lambda>_. Some (refs_of [demo_task])),
     qc_encode_occurrences = (\<lambda>_. None), qc_decode_occurrences = (\<lambda>_. None)\<rparr>"

lemma demo_puts:
  assumes "k1 \<noteq> k2" "length x = 1" "length y = 1"
  shows "\<exists>c1 n1 c2 n2. PutBody (NewCache demo_cfg) 0 K k1 x = Some (c1, n1) \<and> PutBody c1 n1 K k2 y = Some (c2, n2) \<and>
    body_at c2 K k2 = Some y \<and> body_at c2 K k1 = Some x \<and> cache_inv c2 \<and> CollectionTTL (c_cfg c2) = minute"
proof -
  have a: "\<exists>c1 n1 c2 n2. PutBody (NewCache demo_cfg) 0 K k1 x = Some (c1, n1) \<and> PutBody c1 n1 K k2 y = Some (c2, n2) \<and>
    body_at c2 K k2 = Some y \<and> body_at c2 K k1 = Some x"
    using assms
    by (simp add: PutBody_def NewCache_def demo_cfg_def cc_withDefaults_def Let_def new_entry_def evictLocked_def
      evict_bodies.simps evictThumbs.simps evict_collections.simps evict_etags.simps nextSeqLocked_def touch_def gm_put_def body_at_def)
  have i: "cache_inv (NewCache demo_cfg)" by (rule NewCache_inv)
  have t: "CollectionTTL (c_cfg (NewCache demo_cfg)) = minute" by (simp add: NewCache_def cc_withDefaults_def demo_cfg_def minute_def Let_def)
  obtain c1 n1 c2 n2 where p: "PutBody (NewCache demo_cfg) 0 K k1 x = Some (c1, n1)" "PutBody c1 n1 K k2 y = Some (c2, n2)"
    "body_at c2 K k2 = Some y" "body_at c2 K k1 = Some x" using a by blast
  have "cache_inv c1 \<and> c_cfg c1 = c_cfg (NewCache demo_cfg)" using PutBody_shrinks [OF i, of 0 K k1 x] p(1) by auto
  then have "cache_inv c2 \<and> c_cfg c2 = c_cfg (NewCache demo_cfg)" using PutBody_shrinks [of c1 n1 K k2 y] p(2) by auto
  then show ?thesis using p t by auto
qed
lemma demo_task_query:
  "\<exists>s st1 xs st3. QueryComponent demo_codec demo_tasks ''/c/'' ''VTODO'' 0 0
       \<lparr>st_world = (), st_cache = (NewCache demo_cfg, 0), st_losses = None\<rparr> = (Inr s, st1) \<and> \<not> os_FromCache s \<and>
     os_Collection s = ''/c/'' \<and> os_Component s = ''VTODO'' \<and> os_Objects s = [demo_task] \<and>
     refreshedCTag demo_tasks ''/c/'' \<lparr>st_world = (), st_cache = (NewCache demo_cfg, 0), st_losses = None\<rparr> =
       (''notag'', \<lparr>st_world = (), st_cache = (NewCache demo_cfg, 0), st_losses = None\<rparr>) \<and>
     session_ok minute (st_cache st1) \<and>
     cachedSet demo_codec demo_tasks ''/c/'' (componentKey demo_codec ''VTODO'' 0 0 ''notag'') st1 = (Some xs, st3)"
proof -
  let ?st = "\<lparr>st_world = (), st_cache = (NewCache demo_cfg, 0), st_losses = None\<rparr> :: (unit, Cache \<times> nat) pstate"
  let ?k = "\<lparr>ck_AccountID = ''acc'', ck_Path = ''/c/''\<rparr>" and ?key = "componentKey demo_codec ''VTODO'' 0 0 ''notag''"
  have tr: "TrimSpace ''/c/'' = ''/c/''" "TrimSpace ''VTODO'' = ''VTODO''" "TrimSpace ''v'' = ''v''" "TrimSpace ''D'' = ''D''"
    by (rule TrimSpace_tight; simp add: IsSpace_def)+
  have up: "ToUpper ascii_unicode ''VTODO'' = ''VTODO''" by (rule ToUpper_plain) simp
  have nc: "normalizeCollection ''/c/'' = ''/c/''" by (simp add: normalizeCollection_def tr Let_def HasSuffix_def suffix_def)
  have kk: "bodyKey ''/c/x'' ''v'' \<noteq> ?key" by (simp add: bodyKey_def componentKey_def)
  obtain c1 n1 c2 n2 where c: "PutBody (NewCache demo_cfg) 0 ?k (bodyKey ''/c/x'' ''v'') ''D'' = Some (c1, n1)"
    "PutBody c1 n1 ?k ?key ''r'' = Some (c2, n2)" "body_at c2 ?k ?key = Some ''r''" "body_at c2 ?k (bodyKey ''/c/x'' ''v'') = Some ''D''"
    "cache_inv c2" "CollectionTTL (c_cfg c2) = minute"
    using demo_puts [OF kk, of "''D''" "''r''" ?k] by auto
  have U: "lb_U (pv_lib demo_tasks) = ascii_unicode" by (simp add: demo_tasks_def prov_New_def demo_lib_def)
  have parse: "ParseICal (pv_lib demo_tasks) ''/c/x'' ''v'' ''D'' = Inr demo_task"
    by (simp add: ParseICal_def tr demo_tasks_def prov_New_def demo_task_def)
  have task: "ob_Component ascii_unicode (Some demo_task) = ''VTODO''"
    by (simp add: ob_Component_def primaryComponent_def demo_task_def is_primary_def up)
  have key: "cache_key demo_tasks ''/c/'' = ?k" "pv_cache demo_tasks = Some session_cache" "pv_client demo_tasks = demo_task_client"
    by (simp_all add: cache_key_def demo_tasks_def prov_New_def)
  have none: "gm_get (c_collections (NewCache demo_cfg)) ?k = None" by (simp add: NewCache_def)
  have ref: "refreshedCTag demo_tasks ''/c/'' ?st = (''notag'', ?st)"
    by (simp add: refreshedCTag_def refreshed_listing_def cachedETags_def key session_cache_def GetETags_def none Let_def prov_List_def nc
      fetchCTag_def on_server_def demo_task_client_def)
  have miss: "cachedSet demo_codec demo_tasks ''/c/'' ?key ?st = (None, ?st)"
    by (simp add: cachedSet_def query_cached_def key session_cache_def GetBody_def none)
  let ?r = "\<lparr>rs_Hrefs = [''/c/x''], rs_PropStats = [\<lparr>pt_Prop = [\<lparr>rx_Name = CalendarDataName, rx_Content = ''D''\<rparr>,
      \<lparr>rx_Name = GetETagName, rx_Content = ''v''\<rparr>], pt_Status = Some 200\<rparr>], rs_Status = None\<rparr>"
  have rep: "on_server (ci_Report demo_task_client ''/c/'' DepthOne b) ?st = (Inr [?r], ?st)" for b
    by (simp add: on_server_def demo_task_client_def)
  have dec: "DecodeProp CalendarDataName (de_text (pv_dec demo_tasks)) ?r = Inr ''D''"
    "DecodeProp GetETagName (de_text (pv_dec demo_tasks)) ?r = Inr ''v''"
    by (simp_all add: DecodeProp_def OKProp_def status_ok_def prop_Get_def CalendarDataName_def GetETagName_def demo_tasks_def prov_New_def)
  have obs: "objectsFromReport demo_tasks ''/c/'' ''VTODO'' [?r] [] ?st = ([demo_task], ?st\<lparr>st_cache := (c1, n1)\<rparr>)"
    using parse task U tr(3)
    by (simp add: resp_Path_def dec putCachedBody_def key) (simp add: demo_task_def session_cache_def c(1))
  have tag: "ob_ETag demo_task = ''v''" "ob_Path demo_task = ''/c/x''" by (simp_all add: demo_task_def)
  have enc: "qc_encode_refs demo_codec rs = Some ''r''" "qc_decode_refs demo_codec x = Some (refs_of [demo_task])" for rs x
    by (simp_all add: demo_codec_def)
  have cop: "co_PutBody session_cache (c', n) k q x = the (PutBody c' n k q x)" "co_GetBody session_cache (c', n) k q = GetBody c' n k q"
    for c' n k q x by (simp_all add: session_cache_def)
  have put: "putCachedSet demo_codec demo_tasks ''/c/'' ?key [demo_task] (?st\<lparr>st_cache := (c1, n1)\<rparr>) = ?st\<lparr>st_cache := (c2, n2)\<rparr>"
    using c(2) by (simp add: putCachedSet_def query_store_def key tag enc cop)
  let ?s = "\<lparr>os_Collection = ''/c/'', os_Component = ''VTODO'', os_Objects = [demo_task], os_FromCache = False\<rparr>"
  have q: "QueryComponent demo_codec demo_tasks ''/c/'' ''VTODO'' 0 0 ?st = (Inr ?s, ?st\<lparr>st_cache := (c2, n2)\<rparr>)"
    using miss obs put by (simp add: QueryComponent_def nc tr up U ref rep sortObjects_def Let_def key)
  have hit: "\<exists>xs st3. cachedSet demo_codec demo_tasks ''/c/'' ?key (?st\<lparr>st_cache := (c2, n2)\<rparr>) = (Some xs, st3)"
  proof -
    obtain c3 n3 b3 where g: "GetBody c2 n2 ?k ?key = ((c3, n3), b3)" by (cases "GetBody c2 n2 ?k ?key") auto
    note G = GetBody_views [OF g]
    obtain c4 n4 b4 where g': "GetBody c3 n3 ?k (bodyKey ''/c/x'' ''v'') = ((c4, n4), b4)"
      by (cases "GetBody c3 n3 ?k (bodyKey ''/c/x'' ''v'')") auto
    note G' = GetBody_views [OF g']
    have "b3 = Some ''r''" "b4 = Some ''D''" using G G' c(3,4) by simp_all
    then show ?thesis
      using g g' parse by (simp add: cachedSet_def query_cached_def key cop enc refs_of_def cachedBody_def tag)
  qed
  show ?thesis using q hit ref c(5,6) by (auto simp: session_ok_def)
qed


end
