(* ===== verification/FilesProvider.thy ===== *)
theory FilesProvider
  imports ProviderObjects FilesPath "HOL-Library.Product_Lexorder"
begin

text \<open>
  The provider of files, \<open>internal/provider/files/files.go\<close>: directory listings and their place in the session cache,
  single members, downloads, uploads, folders, moves and removals. A call takes the state (the world with the
  server, the cache) and returns the next one; bodies are strings, so the rewinding of a reader is not modelled.
\<close>

subsection \<open>Names\<close>

definition nameOf :: "string \<Rightarrow> string" where
  "nameOf p =
     (let trimmed = TrimSuffix p ''/'';
          trimmed = (case LastIndex trimmed ''/'' of Some i \<Rightarrow> drop (i + 1) trimmed | None \<Rightarrow> trimmed)
      in case PathUnescape trimmed of Some decoded \<Rightarrow> decoded | None \<Rightarrow> trimmed)"

definition parentOf :: "string \<Rightarrow> string" where
  "parentOf target =
     (let trimmed = TrimSuffix target ''/''
      in case LastIndex trimmed ''/'' of Some i \<Rightarrow> take (i + 1) trimmed | None \<Rightarrow> ''/'')"

definition splitExt :: "string \<Rightarrow> string \<times> string" where
  "splitExt name = (TrimSuffix name (path_Ext name), path_Ext name)"

text \<open>\<open>mt\<close> is \<open>mime.TypeByExtension\<close>, \<open>mp\<close> the type of \<open>mime.ParseMediaType\<close>.\<close>

definition TypeForName :: "unicode \<Rightarrow> (string \<Rightarrow> string) \<Rightarrow> (string \<Rightarrow> string option) \<Rightarrow> string \<Rightarrow> string" where
  "TypeForName U mt mp name =
     (let ext = ToLower U (path_Ext name)
      in if ext = [] then []
         else if mt ext \<noteq> [] then (case mp (mt ext) of Some parsed \<Rightarrow> parsed | None \<Rightarrow> mt ext)
         else if ext = ''.md'' \<or> ext = ''.markdown'' then ''text/markdown''
         else if ext = ''.ics'' then ''text/calendar''
         else if ext = ''.vcf'' then ''text/vcard''
         else [])"

subsection \<open>Entries\<close>

record Entry =
  en_Path :: string
  en_Rel :: string
  en_Name :: string
  en_Dir :: bool
  en_Size :: int
  en_HasSize :: bool
  en_ContentType :: string
  en_ETag :: string
  en_ModTime :: time

record file_decoders = decoders +
  fd_TypeByExtension :: "string \<Rightarrow> string"
  fd_ParseMediaType :: "string \<Rightarrow> string option"
  fd_ParseTime :: "string \<Rightarrow> time option"
  fd_U :: unicode

definition GetContentLengthName :: xml_name where "GetContentLengthName = (NamespaceDAV, ''getcontentlength'')"
definition GetLastModifiedName :: xml_name where "GetLastModifiedName = (NamespaceDAV, ''getlastmodified'')"
definition DisplayNameName :: xml_name where "DisplayNameName = (NamespaceDAV, ''displayname'')"

definition listProps :: "xml_name list" where
  "listProps = [ResourceTypeName, DisplayNameName, GetContentLengthName, GetContentTypeName, GetETagName, GetLastModifiedName]"

text \<open>\<open>GetContentLength.Bytes\<close> and \<open>GetLastModified.Time\<close>; the layouts of the latter are in \<open>fd_ParseTime\<close>.\<close>

definition length_Bytes :: "string \<Rightarrow> int \<times> bool" where
  "length_Bytes s = (case ParseInt (TrimSpace s) of Some n \<Rightarrow> if n < 0 then (0, False) else (n, True) | None \<Rightarrow> (0, False))"

definition modified_Time :: "file_decoders \<Rightarrow> string \<Rightarrow> time option" where
  "modified_Time D s = (let raw = TrimSpace s in if raw = [] then None else fd_ParseTime D raw)"

text \<open>\<open>txt\<close> decodes a property of the response into its text.\<close>

definition entry_of :: "file_decoders \<Rightarrow> (xml_name \<Rightarrow> string option) \<Rightarrow> string \<Rightarrow> bool \<Rightarrow> Entry option" where
  "entry_of D txt entryPath dir =
     (let name = nameOf entryPath
      in if name = [] then None
         else
           (let size = (case txt GetContentLengthName of Some s \<Rightarrow> length_Bytes s | None \<Rightarrow> (0, False));
                ctype = (case txt GetContentTypeName of
                           Some s \<Rightarrow> (case fd_ParseMediaType D (TrimSpace s) of Some m \<Rightarrow> m | None \<Rightarrow> []) | None \<Rightarrow> [])
            in Some \<lparr>en_Path = (if dir then NormalizeDir entryPath else entryPath), en_Rel = [], en_Name = name, en_Dir = dir,
                     en_Size = fst size, en_HasSize = snd size,
                     en_ContentType =
                       (if ctype = [] \<and> \<not> dir then TypeForName (fd_U D) (fd_TypeByExtension D) (fd_ParseMediaType D) name else ctype),
                     en_ETag = (case txt GetETagName of Some s \<Rightarrow> TrimSpace s | None \<Rightarrow> []),
                     en_ModTime = (case Option.bind (txt GetLastModifiedName) (modified_Time D) of Some at \<Rightarrow> at | None \<Rightarrow> zero_time)\<rparr>))"

definition decodeEntry :: "file_decoders \<Rightarrow> Response \<Rightarrow> string \<Rightarrow> Entry option" where
  "decodeEntry D resp entryPath =
     (let txt = (\<lambda>name. case DecodeProp name (de_text D) resp of Inr t \<Rightarrow> Some t | Inl _ \<Rightarrow> None)
      in case DecodeProp ResourceTypeName (de_types D) resp of
           Inl e \<Rightarrow> if IsNotFound e then entry_of D txt entryPath False else None
         | Inr types \<Rightarrow> entry_of D txt entryPath (ResourceType_Is types CollectionName))"

definition sortEntries :: "unicode \<Rightarrow> Entry list \<Rightarrow> Entry list" where
  "sortEntries U entries = sort_key (\<lambda>e. (\<not> en_Dir e, ToLower U (en_Name e), en_Name e)) entries"

subsection \<open>The provider\<close>

record 's file_client =
  fc_PropFind :: "string \<Rightarrow> Depth \<Rightarrow> xml_name list \<Rightarrow> ('s, MultiStatus) call"
  fc_GetStream :: "string \<Rightarrow> byte_range option \<Rightarrow> ('s, string \<times> string) call"
  fc_PutOpts :: "string \<Rightarrow> string \<Rightarrow> PutOptions \<Rightarrow> ('s, string) call"
  fc_Delete :: "string \<Rightarrow> string \<Rightarrow> ('s, unit) call"
  fc_MkCol :: "string \<Rightarrow> ('s, unit) call"
  fc_Move :: "string \<Rightarrow> string \<Rightarrow> bool \<Rightarrow> ('s, unit) call"

definition dav_file_client :: "net_env \<Rightarrow> 's http \<Rightarrow> Client \<Rightarrow> 's file_client" where
  "dav_file_client N H c =
     \<lparr>fc_PropFind = PropFind N H c, fc_GetStream = GetStream N H c, fc_PutOpts = PutOpts N H c,
      fc_Delete = dav_Delete N H c, fc_MkCol = MkCol N H c, fc_Move = dav_Move N H c\<rparr>"

record files_Listing =
  fl_Root :: string
  fl_Rel :: string
  fl_Dir :: string
  fl_Entries :: "Entry list"
  fl_Truncated :: bool
  fl_FromCache :: bool

record ('s, 'c) FilesProvider =
  fp_client :: "'s file_client"
  fp_accountID :: string
  fp_cache :: "'c cache_ops option"
  fp_maxEntries :: nat
  fp_dec :: file_decoders
  fp_encode :: "files_Listing \<Rightarrow> bytes option"
  fp_decode :: "bytes \<Rightarrow> files_Listing option"
  fp_Now :: "'s \<Rightarrow> time"

datatype files_error =
    FePath path_error | FeDav dav_error | FeNotThere | FeFolder | FeNoName | FeCollection | FeExists | FeNotFolder
  | FeNoFreeName | FeAbsolute

type_synonym ('s, 'c, 'a) fcall = "'s \<times> 'c \<Rightarrow> (files_error + 'a) \<times> ('s \<times> 'c)"

definition DefaultMaxEntries :: int where "DefaultMaxEntries = 2000"

definition max_entries :: "int \<Rightarrow> nat" where
  "max_entries m = nat (if m \<le> 0 then DefaultMaxEntries else m)"

definition on_files :: "('s, 'a) call \<Rightarrow> ('s, 'c, 'a) fcall" where
  "on_files f st = (case f (fst st) of (Inl e, w) \<Rightarrow> (Inl (FeDav e), w, snd st) | (Inr x, w) \<Rightarrow> (Inr x, w, snd st))"

definition files_IsNotFound :: "files_error \<Rightarrow> bool" where
  "files_IsNotFound e \<longleftrightarrow> (case e of FeDav d \<Rightarrow> IsNotFound d | _ \<Rightarrow> False)"

definition isTaken :: "files_error \<Rightarrow> bool" where
  "isTaken e \<longleftrightarrow> (case e of FeExists \<Rightarrow> True | FeDav d \<Rightarrow> IsPreconditionFailed d \<or> StatusCode d = 405 | _ \<Rightarrow> False)"

definition files_key :: "('s, 'c) FilesProvider \<Rightarrow> string \<Rightarrow> collectionKey" where
  "files_key p dir = \<lparr>ck_AccountID = fp_accountID p, ck_Path = dir\<rparr>"

definition files_invalidate :: "('s, 'c) FilesProvider \<Rightarrow> string \<Rightarrow> 's \<times> 'c \<Rightarrow> 's \<times> 'c" where
  "files_invalidate p dir st =
     (case fp_cache p of
        None \<Rightarrow> st
      | Some ops \<Rightarrow> if dir \<noteq> [] then (fst st, co_InvalidateCollection ops (snd st) (files_key p dir)) else st)"

definition listingKey :: string where "listingKey = [CHR 0x01] @ ''listing''"

definition cachedListing :: "('s, 'c) FilesProvider \<Rightarrow> string \<Rightarrow> 's \<times> 'c \<Rightarrow> files_Listing option \<times> ('s \<times> 'c)" where
  "cachedListing p dir st =
     (case fp_cache p of
        None \<Rightarrow> (None, st)
      | Some ops \<Rightarrow>
          if co_NeedsRefresh ops (snd st) (fp_Now p (fst st)) (files_key p dir) [] then (None, st)
          else
            (case co_GetBody ops (snd st) (files_key p dir) listingKey of
               (c, raw) \<Rightarrow> (Option.bind raw (fp_decode p), fst st, c)))"

definition storeListing :: "('s, 'c) FilesProvider \<Rightarrow> string \<Rightarrow> (string, string) gomap \<Rightarrow> files_Listing \<Rightarrow> 's \<times> 'c \<Rightarrow> 's \<times> 'c" where
  "storeListing p dir etags l st =
     (case (fp_cache p, fp_encode p l) of
        (Some ops, Some raw) \<Rightarrow>
          (let c = co_SetETags ops (snd st) (fp_Now p (fst st)) (files_key p dir) [] etags
           in (fst st, co_PutBody ops c (files_key p dir) listingKey raw))
      | _ \<Rightarrow> st)"

subsection \<open>Listing and single members\<close>

text \<open>The loop over the responses: the entries, whether one was left out, and the versions.\<close>

fun entries_loop ::
  "('s, 'c) FilesProvider \<Rightarrow> string \<Rightarrow> string \<Rightarrow> MultiStatus \<Rightarrow> Entry list \<Rightarrow> (string, string) gomap \<Rightarrow>
     Entry list \<times> bool \<times> (string, string) gomap" where
  "entries_loop p dir clean [] entries etags = (entries, False, etags)"
| "entries_loop p dir clean (r # rs) entries etags =
     (case resp_Path r of
        Inl _ \<Rightarrow> entries_loop p dir clean rs entries etags
      | Inr entryPath \<Rightarrow>
          if NormalizeDir entryPath = dir then entries_loop p dir clean rs entries etags
          else
            (case decodeEntry (fp_dec p) r entryPath of
               None \<Rightarrow> entries_loop p dir clean rs entries etags
             | Some e \<Rightarrow>
                 if length entries \<ge> fp_maxEntries p then (entries, True, etags)
                 else
                   (let e = e\<lparr>en_Rel := files_Join clean (en_Name e)\<rparr>;
                        etags = (if en_ETag e \<noteq> [] then gm_put (en_Path e) (en_ETag e) etags else etags)
                    in entries_loop p dir clean rs (entries @ [e]) etags)))"

definition files_List :: "('s, 'c) FilesProvider \<Rightarrow> string \<Rightarrow> string \<Rightarrow> ('s, 'c, files_Listing) fcall" where
  "files_List p root rel st =
     (case Resolve root rel of
        Inl e \<Rightarrow> (Inl (FePath e), st)
      | Inr dir \<Rightarrow>
          (let dir = NormalizeDir dir;
               clean = (case CleanRelative rel of Inr c \<Rightarrow> c | Inl _ \<Rightarrow> [])
           in case cachedListing p dir st of
                (Some l, st) \<Rightarrow> (Inr (l\<lparr>fl_FromCache := True\<rparr>), st)
              | (None, st) \<Rightarrow>
                  (case on_files (fc_PropFind (fp_client p) dir DepthOne listProps) st of
                     (Inl e, st) \<Rightarrow> (Inl e, st)
                   | (Inr ms, st) \<Rightarrow>
                       (case entries_loop p dir clean ms [] [] of
                          (entries, truncated, etags) \<Rightarrow>
                            (let l = \<lparr>fl_Root = NormalizeDir root, fl_Rel = clean, fl_Dir = dir,
                                      fl_Entries = sortEntries (fd_U (fp_dec p)) entries, fl_Truncated = truncated, fl_FromCache = False\<rparr>
                             in (Inr l, storeListing p dir etags l st))))))"

fun stat_loop :: "('s, 'c) FilesProvider \<Rightarrow> string \<Rightarrow> MultiStatus \<Rightarrow> Entry option" where
  "stat_loop p root [] = None"
| "stat_loop p root (r # rs) =
     (case resp_Path r of
        Inl _ \<Rightarrow> stat_loop p root rs
      | Inr entryPath \<Rightarrow>
          (case decodeEntry (fp_dec p) r entryPath of
             None \<Rightarrow> stat_loop p root rs
           | Some e \<Rightarrow> Some (case Relative root entryPath of Inr clean \<Rightarrow> e\<lparr>en_Rel := clean\<rparr> | Inl _ \<Rightarrow> e)))"

definition files_stat :: "('s, 'c) FilesProvider \<Rightarrow> string \<Rightarrow> string \<Rightarrow> ('s, 'c, Entry) fcall" where
  "files_stat p root rel st =
     (case Resolve root rel of
        Inl e \<Rightarrow> (Inl (FePath e), st)
      | Inr target \<Rightarrow>
          (let target = (if HasSuffix rel ''/'' then NormalizeDir target else target)
           in case on_files (fc_PropFind (fp_client p) target DepthZero listProps) st of
                (Inl e, st) \<Rightarrow> (Inl e, st)
              | (Inr ms, st) \<Rightarrow> (case stat_loop p root ms of Some e \<Rightarrow> (Inr e, st) | None \<Rightarrow> (Inl FeNotThere, st))))"

definition files_Stat :: "('s, 'c) FilesProvider \<Rightarrow> string \<Rightarrow> string \<Rightarrow> ('s, 'c, Entry) fcall" where
  "files_Stat p root rel st =
     (case files_stat p root rel st of
        (Inr e, st) \<Rightarrow> (Inr e, st)
      | (Inl e, st) \<Rightarrow>
          if files_IsNotFound e \<and> \<not> HasSuffix rel ''/''
          then (case files_stat p root (rel @ ''/'') st of
                  (Inr asDir, st) \<Rightarrow> (Inr asDir, st)
                | (Inl _, st) \<Rightarrow> (Inl e, st))
          else (Inl e, st))"

subsection \<open>Downloads\<close>

record Download =
  dl_Body :: string
  dl_Name :: string
  dl_ContentType :: string

definition openPath :: "('s, 'c) FilesProvider \<Rightarrow> string \<Rightarrow> string \<Rightarrow> byte_range option \<Rightarrow> ('s, 'c, Download) fcall" where
  "openPath p target name rng st =
     (case on_files (fc_GetStream (fp_client p) target rng) st of
        (Inl e, st) \<Rightarrow> (Inl e, st)
      | (Inr (body, ctype), st) \<Rightarrow> (Inr \<lparr>dl_Body = body, dl_Name = name, dl_ContentType = ctype\<rparr>, st))"

definition files_Open :: "('s, 'c) FilesProvider \<Rightarrow> string \<Rightarrow> string \<Rightarrow> byte_range option \<Rightarrow> ('s, 'c, Download) fcall" where
  "files_Open p root rel rng st =
     (case Resolve root rel of
        Inl e \<Rightarrow> (Inl (FePath e), st)
      | Inr target \<Rightarrow> if HasSuffix target ''/'' then (Inl FeFolder, st) else openPath p target (Base rel) rng st)"

definition OpenAbsolute :: "('s, 'c) FilesProvider \<Rightarrow> string \<Rightarrow> byte_range option \<Rightarrow> ('s, 'c, Download) fcall" where
  "OpenAbsolute p target rng st =
     (if target = [] \<or> \<not> HasPrefix target ''/'' then (Inl FeAbsolute, st) else openPath p target (path_Base target) rng st)"

subsection \<open>Uploads\<close>

definition files_Upload ::
  "('s, 'c) FilesProvider \<Rightarrow> string \<Rightarrow> string \<Rightarrow> string \<Rightarrow> string \<Rightarrow> string \<Rightarrow> bool \<Rightarrow> ('s, 'c, string) fcall" where
  "files_Upload p root rel body contentType ifMatch create st =
     (case Resolve root rel of
        Inl e \<Rightarrow> (Inl (FePath e), st)
      | Inr target \<Rightarrow>
          if HasSuffix target ''/'' then (Inl FeNoName, st)
          else
            (case (if create \<and> ifMatch = [] then (case files_Stat p root rel st of (r, st) \<Rightarrow> (isl r, st)) else (True, st)) of
               (free, st) \<Rightarrow>
                 if \<not> free then (Inl FeExists, st)
                 else
                   (let contentType = (if contentType = []
                                       then TypeForName (fd_U (fp_dec p)) (fd_TypeByExtension (fp_dec p)) (fd_ParseMediaType (fp_dec p)) (Base rel)
                                       else contentType)
                    in case on_files (fc_PutOpts (fp_client p) target body
                              \<lparr>po_ContentType = contentType, po_IfMatch = ifMatch, po_IfNoneMatch = create \<and> ifMatch = []\<rparr>) st of
                         (Inl e, st) \<Rightarrow> (Inl e, st)
                       | (Inr etag, st) \<Rightarrow> (Inr (TrimSpace etag), files_invalidate p (parentOf target) st))))"

fun new_loop ::
  "('s, 'c) FilesProvider \<Rightarrow> string \<Rightarrow> string \<Rightarrow> string \<Rightarrow> string \<Rightarrow> string \<Rightarrow> nat list \<Rightarrow> ('s, 'c, string \<times> string) fcall" where
  "new_loop p root dirRel name body contentType [] st = (Inl FeNoFreeName, st)"
| "new_loop p root dirRel name body contentType (attempt # attempts) st =
     (let candidate = (if attempt > 0 then fst (splitExt name) @ ''-'' @ dec_nat (attempt + 1) @ snd (splitExt name) else name);
          rel = files_Join dirRel candidate
      in case Resolve root rel of
           Inl e \<Rightarrow> (Inl (FePath e), st)
         | Inr target \<Rightarrow>
             (case files_Upload p root rel body contentType [] True st of
                (Inr _, st) \<Rightarrow> (Inr (candidate, target), st)
              | (Inl e, st) \<Rightarrow>
                  if \<not> isTaken e then (Inl e, st) else new_loop p root dirRel name body contentType attempts st))"

definition UploadNew ::
  "('s, 'c) FilesProvider \<Rightarrow> string \<Rightarrow> string \<Rightarrow> string \<Rightarrow> string \<Rightarrow> string \<Rightarrow> ('s, 'c, string \<times> string) fcall" where
  "UploadNew p root dirRel filename body contentType st =
     (case CleanName filename of
        Inl e \<Rightarrow> (Inl (FePath e), st)
      | Inr name \<Rightarrow> new_loop p root dirRel name body contentType [0..<20] st)"

subsection \<open>Folders\<close>

definition MakeDir :: "('s, 'c) FilesProvider \<Rightarrow> string \<Rightarrow> string \<Rightarrow> ('s, 'c, unit) fcall" where
  "MakeDir p root rel st =
     (case Resolve root rel of
        Inl e \<Rightarrow> (Inl (FePath e), st)
      | Inr target \<Rightarrow>
          if NormalizeDir target = NormalizeDir root then (Inl FeNoName, st)
          else
            (case on_files (fc_MkCol (fp_client p) (NormalizeDir target)) st of
               (Inl e, st) \<Rightarrow> (Inl e, st)
             | (Inr _, st) \<Rightarrow> (Inr (), files_invalidate p (parentOf (NormalizeDir target)) st)))"

lemma TrimSpace_length: "length (TrimSpace s) \<le> length s"
proof -
  obtain us vs where "chunks s = us @ trim_list (\<lambda>(r, _). IsSpace r) (chunks s) @ vs"
    using trim_list_infix [of "chunks s" "\<lambda>(r, _). IsSpace r"] by blast
  then have "chunk_bytes (chunks s) = chunk_bytes us @ TrimSpace s @ chunk_bytes vs"
    unfolding TrimSpace_def by (metis chunk_bytes_simps(3))
  then have "length s = length (chunk_bytes us @ TrimSpace s @ chunk_bytes vs)" by simp
  then show ?thesis by simp
qed

lemma Join_filter_length: "length (Join [c] (filter P ws)) \<le> length (Join [c] ws)"
  by (induction ws) (auto simp: Join_Cons)

lemma CleanRelative_length: "CleanRelative rel = Inr clean \<Longrightarrow> length clean \<le> length rel"
proof -
  assume "CleanRelative rel = Inr clean"
  then have c: "clean = Join ''/'' (rel_segments rel)" by (rule rel_segments_ok)
  have "length clean \<le> length (Join ''/'' (Split_byte CHR ''/'' (TrimSpace rel)))"
    unfolding c rel_segments_def by (rule Join_filter_length)
  then show ?thesis using TrimSpace_length [of rel] by (simp add: Join_Split)
qed

lemma Parent_shorter: "CleanRelative rel = Inr clean \<Longrightarrow> Parent clean = (parent, ok) \<Longrightarrow> parent \<noteq> [] \<Longrightarrow> length parent < length rel"
proof -
  assume c: "CleanRelative rel = Inr clean" and p: "Parent clean = (parent, ok)" "parent \<noteq> []"
  obtain x where x: "CleanRelative clean = Inr x" using p by (cases "CleanRelative clean") (auto simp: Parent_def)
  obtain i where i: "LastIndex x ''/'' = Some i" "parent = take i x" using p x by (auto simp: Parent_def split: if_splits option.splits)
  have "x \<noteq> []" using i p(2) by auto
  then have "i < length x" using i(1) by (auto simp: LastIndex_def LastIndex_slash split: if_splits)
  then show ?thesis using i(2) CleanRelative_length [OF x] CleanRelative_length [OF c] by simp
qed

function EnsureDir :: "('s, 'c) FilesProvider \<Rightarrow> string \<Rightarrow> string \<Rightarrow> ('s, 'c, unit) fcall" where
  "EnsureDir p root rel st =
     (case CleanRelative rel of
        Inl e \<Rightarrow> (Inl (FePath e), st)
      | Inr clean \<Rightarrow>
          if clean = [] then (Inr (), st)
          else
            (case files_Stat p root clean st of
               (Inr entry, st) \<Rightarrow> if \<not> en_Dir entry then (Inl FeNotFolder, st) else (Inr (), st)
             | (Inl e, st) \<Rightarrow>
                 if \<not> files_IsNotFound e then (Inl e, st)
                 else
                   (case (case Parent clean of
                            (parent, ok) \<Rightarrow> if ok \<and> parent \<noteq> [] then EnsureDir p root parent st else (Inr (), st)) of
                      (Inl e, st) \<Rightarrow> (Inl e, st)
                    | (Inr _, st) \<Rightarrow>
                        (case MakeDir p root clean st of
                           (Inl e, st) \<Rightarrow> if isTaken e then (Inr (), st) else (Inl e, st)
                         | (Inr _, st) \<Rightarrow> (Inr (), st)))))"
  by pat_completeness auto
termination
  by (relation "measure (\<lambda>(p, root, rel, st). length rel)") (auto dest: Parent_shorter [OF _ sym])

declare EnsureDir.simps [simp del]

subsection \<open>Moving and removing\<close>

definition files_Move :: "('s, 'c) FilesProvider \<Rightarrow> string \<Rightarrow> string \<Rightarrow> string \<Rightarrow> bool \<Rightarrow> ('s, 'c, unit) fcall" where
  "files_Move p root fromRel toRel overwrite st =
     (case Resolve root fromRel of
        Inl e \<Rightarrow> (Inl (FePath e), st)
      | Inr src \<Rightarrow>
          (case Resolve root toRel of
             Inl e \<Rightarrow> (Inl (FePath e), st)
           | Inr dst \<Rightarrow>
               if NormalizeDir src = NormalizeDir root \<or> NormalizeDir dst = NormalizeDir root then (Inl FeCollection, st)
               else
                 (case on_files (fc_Move (fp_client p) src dst overwrite) st of
                    (Inl e, st) \<Rightarrow> (Inl e, st)
                  | (Inr _, st) \<Rightarrow>
                      (let st = files_invalidate p (parentOf dst) (files_invalidate p (parentOf src) st)
                       in case files_Stat p root fromRel st of
                            (Inr entry, st) \<Rightarrow> (Inr (), if en_Dir entry then files_invalidate p (NormalizeDir dst) st else st)
                          | (Inl _, st) \<Rightarrow> (Inr (), st)))))"

definition files_Rename :: "('s, 'c) FilesProvider \<Rightarrow> string \<Rightarrow> string \<Rightarrow> string \<Rightarrow> ('s, 'c, unit) fcall" where
  "files_Rename p root rel newName st =
     (case CleanName newName of
        Inl e \<Rightarrow> (Inl (FePath e), st)
      | Inr name \<Rightarrow> files_Move p root rel (files_Join (fst (Parent rel)) name) False st)"

definition files_Remove :: "('s, 'c) FilesProvider \<Rightarrow> string \<Rightarrow> string \<Rightarrow> string \<Rightarrow> ('s, 'c, unit) fcall" where
  "files_Remove p root rel ifMatch st =
     (case Resolve root rel of
        Inl e \<Rightarrow> (Inl (FePath e), st)
      | Inr target \<Rightarrow>
          if NormalizeDir target = NormalizeDir root then (Inl FeCollection, st)
          else
            (case on_files (fc_Delete (fp_client p) target ifMatch) st of
               (Inl e, st) \<Rightarrow> (Inl e, st)
             | (Inr _, st) \<Rightarrow> (Inr (), files_invalidate p (NormalizeDir target) (files_invalidate p (parentOf target) st))))"

definition files_Invalidate :: "('s, 'c) FilesProvider \<Rightarrow> string \<Rightarrow> string \<Rightarrow> 's \<times> 'c \<Rightarrow> 's \<times> 'c" where
  "files_Invalidate p root rel st =
     (case Resolve root rel of Inl _ \<Rightarrow> st | Inr target \<Rightarrow> files_invalidate p (NormalizeDir target) st)"

end
