(* ===== verification/FilesRequests.thy ===== *)
theory FilesRequests
  imports FilesProvider
begin

text \<open>
  Where the requests of the files provider go. An abstract server keeps the list of the methods and paths it was
  asked for; every one of them is below the collection, with no empty or dot segments, and what changes
  something is strictly below it. The one gap is the white space \<open>NormalizeDir\<close> trims from a path after it
  was checked.
\<close>

subsection \<open>Requests and places\<close>

definition logged :: "('s \<Rightarrow> (string \<times> string) list) \<Rightarrow> 's file_client \<Rightarrow> bool" where
  "logged requests cl \<longleftrightarrow>
     (\<forall>q d ps w. requests (snd (fc_PropFind cl q d ps w)) = requests w @ [(''PROPFIND'', q)]) \<and>
     (\<forall>q g w. requests (snd (fc_GetStream cl q g w)) = requests w @ [(''GET'', q)]) \<and>
     (\<forall>q b opts w. requests (snd (fc_PutOpts cl q b opts w)) = requests w @ [(''PUT'', q)]) \<and>
     (\<forall>q t w. requests (snd (fc_Delete cl q t w)) = requests w @ [(''DELETE'', q)]) \<and>
     (\<forall>q w. requests (snd (fc_MkCol cl q w)) = requests w @ [(''MKCOL'', q)]) \<and>
     (\<forall>q q' o' w. requests (snd (fc_Move cl q q' o' w)) = requests w @ [(''MOVE'', q), (''MOVE'', q')])"

text \<open>\<open>below r b q\<close>: \<open>q\<close> is a path under the collection \<open>r\<close>, or the collection itself unless \<open>b\<close>.\<close>

definition below :: "string \<Rightarrow> bool \<Rightarrow> string \<Rightarrow> bool" where
  "below r strictly q \<longleftrightarrow>
     (\<exists>ss. list_all seg_ok ss \<and> (strictly \<longrightarrow> ss \<noteq> []) \<and>
        (q = r @ Join ''/'' ss \<or> ss \<noteq> [] \<and> q = r @ Join ''/'' ss @ ''/''))"

definition allowed :: "string \<Rightarrow> bool \<Rightarrow> string \<times> string \<Rightarrow> bool" where
  "allowed r tidy x \<longleftrightarrow>
     (if fst x = ''PROPFIND'' then tidy \<longrightarrow> below r False (snd x)
      else if fst x = ''MKCOL'' then tidy \<longrightarrow> below r True (snd x) else below r True (snd x))"

text \<open>A relative path with no white space around its segments.\<close>

definition tidy :: "string \<Rightarrow> bool" where
  "tidy rel \<longleftrightarrow> list_all (\<lambda>s. TrimSpace s = s) (Split_byte CHR ''/'' rel)"

definition asks :: "('s \<Rightarrow> (string \<times> string) list) \<Rightarrow> (string \<times> string \<Rightarrow> bool) \<Rightarrow> 's \<times> 'c \<Rightarrow> 's \<times> 'c \<Rightarrow> bool" where
  "asks requests P st st' \<longleftrightarrow> (\<exists>new. requests (fst st') = requests (fst st) @ new \<and> list_all P new)"

lemma asks_nothing: "requests (fst st') = requests (fst st) \<Longrightarrow> asks requests P st st'"
  by (simp add: asks_def)

lemma asks_then: "asks requests P st st1 \<Longrightarrow> asks requests P st1 st2 \<Longrightarrow> asks requests P st st2"
  unfolding asks_def by (metis append.assoc list_all_append)

lemma asks_mono: "asks requests P st st' \<Longrightarrow> (\<And>x. P x \<Longrightarrow> Q x) \<Longrightarrow> asks requests Q st st'"
  unfolding asks_def by (metis list.pred_mono_strong)

lemma allowed_untidy: "allowed r True x \<Longrightarrow> allowed r t x"
  by (auto simp: allowed_def)

subsection \<open>Paths after normalising\<close>

definition ends_ok :: "string \<Rightarrow> bool" where
  "ends_ok s \<longleftrightarrow> chunks s = [] \<or> \<not> IsSpace (fst (hd (chunks s))) \<and> \<not> IsSpace (fst (last (chunks s)))"

lemma TrimSpace_ends: "TrimSpace s = s \<longleftrightarrow> ends_ok s"
proof
  assume "TrimSpace s = s"
  then have t: "trim_list (\<lambda>(r, _). IsSpace r) (chunks s) = chunks s" using chunks_TrimSpace [of s] by simp
  show "ends_ok s"
    using hd_trim_list [of "\<lambda>(r, _). IsSpace r" "chunks s"] last_trim_list [of "\<lambda>(r, _). IsSpace r" "chunks s"] t
    by (auto simp: ends_ok_def case_prod_beta)
next
  assume "ends_ok s"
  then have "trim_list (\<lambda>(r, _). IsSpace r) (chunks s) = chunks s" by (intro trim_list_id) (auto simp: ends_ok_def case_prod_beta)
  then show "TrimSpace s = s" by (simp add: TrimSpace_def)
qed

lemma ends_slash: "ends_ok s \<Longrightarrow> ends_ok t \<Longrightarrow> ends_ok (s @ CHR ''/'' # t)"
  using chunks_append_ascii [of "CHR ''/''" s t] by (auto simp: ends_ok_def IsSpace_def hd_append)

lemma ends_Join: "list_all ends_ok ss \<Longrightarrow> ends_ok (Join ''/'' ss)"
proof (induction ss)
  case (Cons s ss)
  then show ?case using ends_slash [of s "Join ''/'' ss"] by (simp add: Join_Cons)
qed (simp add: ends_ok_def)

lemma tidy_ends: "tidy rel \<longleftrightarrow> list_all ends_ok (Split_byte CHR ''/'' rel)"
  by (simp add: tidy_def TrimSpace_ends)

lemma tidy_slash: "tidy (rel @ ''/'') \<longleftrightarrow> tidy rel"
  using Split_byte_append [of "CHR ''/''" rel "[]"] Split_byte_plain [of "CHR ''/''" "[]"] by (simp add: tidy_def)

lemma tidy_clean: "tidy rel \<Longrightarrow> ends_ok (Join ''/'' (rel_segments rel))"
proof -
  assume t: "tidy rel"
  then have "TrimSpace rel = rel" using ends_Join [of "Split_byte CHR ''/'' rel"] by (simp add: tidy_ends Join_Split TrimSpace_ends)
  then show ?thesis using t by (intro ends_Join) (auto simp: rel_segments_def tidy_ends list_all_iff)
qed

lemma TrimSpace_below:
  assumes "r \<noteq> []" "hd r = CHR ''/''" "last r = CHR ''/''" "ends_ok j"
  shows "TrimSpace (r @ j) = r @ j"
proof (cases "length r = 1")
  case True
  then have "r = ''/''" using assms(2) by (cases r) auto
  then show ?thesis using ends_slash [of "[]" j] assms(4) by (simp add: TrimSpace_ends ends_ok_def)
next
  case False
  obtain q where q: "r = q @ ''/''" using assms(1,3) by (metis append_butlast_last_id)
  then obtain q' where q': "q = CHR ''/'' # q'" using assms(2) False by (cases q) auto
  have "ends_ok (([] @ CHR ''/'' # []) @ [])" using ends_slash [of "[]" "[]"] by (simp add: ends_ok_def)
  have c: "chunks (r @ j) = chunks q @ (47, ''/'') # chunks j" unfolding q using chunks_append_ascii [of "CHR ''/''" q j] by simp
  have "hd (chunks q) = (47, ''/'')" "chunks q \<noteq> []" unfolding q' using chunks_ascii_Cons [of "CHR ''/''" q'] by simp_all
  then have "ends_ok (r @ j)" using assms(4) c by (auto simp: ends_ok_def IsSpace_def)
  then show ?thesis by (simp add: TrimSpace_ends)
qed

lemma root_shape: "NormalizeDir root = r \<Longrightarrow> r \<noteq> [] \<Longrightarrow> hd r = CHR ''/'' \<and> last r = CHR ''/''"
  using NormalizeDir_slashes [of root] by auto

lemma NormalizeDir_root: "NormalizeDir root = r \<Longrightarrow> r \<noteq> [] \<Longrightarrow> NormalizeDir r = r"
  using root_shape [of root r] TrimSpace_below [of r "[]"]
  by (simp add: ends_ok_def NormalizeDir_def Let_def HasPrefix_slash HasSuffix_slash)

text \<open>What \<open>Resolve\<close> answers, and the directory it names.\<close>

lemma Resolve_below:
  assumes "NormalizeDir root = r" "r \<noteq> []" "Resolve root rel = Inr q"
  shows "list_all seg_ok (rel_segments rel)" "q = r @ Join ''/'' (rel_segments rel)"
    and "\<not> HasSuffix q ''/'' \<longrightarrow> below r True q" and "NormalizeDir q \<noteq> r \<longrightarrow> below r True q"
    and "tidy rel \<Longrightarrow> below r False (NormalizeDir q)" and "tidy rel \<Longrightarrow> NormalizeDir q \<noteq> r \<Longrightarrow> below r True (NormalizeDir q)"
proof -
  let ?ss = "rel_segments rel"
  have w: "''..'' \<notin> set ?ss" and q: "q = r @ Join ''/'' ?ss"
    using assms(3) Resolve_cases [OF assms(1,2), of rel] by (auto split: if_splits)
  then show s: "list_all seg_ok ?ss" and "q = r @ Join ''/'' ?ss"
    using Split_byte_parts by (auto simp: rel_segments_def list_all_iff seg_ok_def)
  note sh = root_shape [OF assms(1,2)]
  have dir: "NormalizeDir q = (if ?ss = [] then r else r @ Join ''/'' ?ss @ ''/'')" if "tidy rel"
  proof (cases "?ss = []")
    case True
    then show ?thesis using NormalizeDir_root [OF assms(1,2)] q by simp
  next
    case False
    have "TrimSpace q = q" using TrimSpace_below [of r] sh assms(2) tidy_clean [OF that] unfolding q by blast
    moreover have "last q \<noteq> CHR ''/''" "q \<noteq> []" "hd q = CHR ''/''" using Join_last [OF False s] sh assms(2) unfolding q by auto
    ultimately show ?thesis using False q by (simp add: NormalizeDir_def Let_def HasPrefix_slash HasSuffix_slash)
  qed
  have "below r True q" if "?ss \<noteq> []" using that s q by (auto simp: below_def)
  moreover have "?ss = [] \<Longrightarrow> HasSuffix q ''/''" using q sh assms(2) by (simp add: HasSuffix_slash)
  moreover have "?ss = [] \<Longrightarrow> NormalizeDir q = r" using q NormalizeDir_root [OF assms(1,2)] by simp
  ultimately show "\<not> HasSuffix q ''/'' \<longrightarrow> below r True q" "NormalizeDir q \<noteq> r \<longrightarrow> below r True q" by blast+
  show "below r False (NormalizeDir q)" if "tidy rel"
    unfolding dir [OF that] below_def using s by (cases "?ss = []") (auto intro: exI [of _ "[]"])
  show "below r True (NormalizeDir q)" if "tidy rel" "NormalizeDir q \<noteq> r"
    using that(2) s unfolding dir [OF that(1)] below_def by (cases "?ss = []") auto
qed

subsection \<open>Reading\<close>

lemma files_frames [simp]:
  "fst (files_invalidate p d st) = fst st" "fst (snd (cachedListing p d st)) = fst st" "fst (storeListing p d t l st) = fst st"
  by (simp_all add: files_invalidate_def cachedListing_def storeListing_def Let_def case_prod_beta split: option.split)

lemma asks_fst: "fst a = fst a' \<Longrightarrow> fst b = fst b' \<Longrightarrow> asks requests P a b = asks requests P a' b'"
  by (simp add: asks_def)

lemma asks_invalidate [simp]: "asks requests P st (files_invalidate p d st') = asks requests P st st'"
  by (simp add: asks_def)

lemma asks_refl [simp]: "asks requests P st st"
  by (simp add: asks_def)

lemma asks_files:
  assumes "\<And>w. requests (snd (f w)) = requests w @ xs" and "list_all P xs"
  shows "asks requests P st (snd (on_files f st))"
  using assms by (auto simp: asks_def on_files_def case_prod_beta split: sum.split)

lemma asks_client:
  assumes "logged requests cl"
  shows "P (''PROPFIND'', q) \<Longrightarrow> asks requests P st (snd (on_files (fc_PropFind cl q d ps) st))"
    and "P (''GET'', q) \<Longrightarrow> asks requests P st (snd (on_files (fc_GetStream cl q g) st))"
    and "P (''PUT'', q) \<Longrightarrow> asks requests P st (snd (on_files (fc_PutOpts cl q b opts) st))"
    and "P (''DELETE'', q) \<Longrightarrow> asks requests P st (snd (on_files (fc_Delete cl q t) st))"
    and "P (''MKCOL'', q) \<Longrightarrow> asks requests P st (snd (on_files (fc_MkCol cl q) st))"
    and "P (''MOVE'', q) \<Longrightarrow> P (''MOVE'', q') \<Longrightarrow> asks requests P st (snd (on_files (fc_Move cl q q' o') st))"
  using assms by (auto simp: logged_def intro!: asks_files)

lemma List_asks:
  assumes "logged requests (fp_client p)" and "NormalizeDir root = r" "r \<noteq> []"
  shows "asks requests (allowed r (tidy rel)) st (snd (files_List p root rel st))"
proof (cases "Resolve root rel")
  case (Inr q)
  note R = Resolve_below [OF assms(2,3) Inr]
  obtain l st1 where c: "cachedListing p (NormalizeDir q) st = (l, st1)" by (cases "cachedListing p (NormalizeDir q) st") auto
  have st1: "fst st1 = fst st" using files_frames(2) [of p "NormalizeDir q" st] c by simp
  have "asks requests (allowed r (tidy rel)) st1 (snd (on_files (fc_PropFind (fp_client p) (NormalizeDir q) DepthOne listProps) st1))"
    using R(5) by (intro asks_client(1) [OF assms(1)]) (simp add: allowed_def)
  then have "asks requests (allowed r (tidy rel)) st (snd (on_files (fc_PropFind (fp_client p) (NormalizeDir q) DepthOne listProps) st1))"
    using st1 by (simp add: asks_def)
  then show ?thesis using st1
    by (auto simp: files_List_def Inr Let_def c asks_def case_prod_beta split: option.split sum.split)
qed (simp add: files_List_def)

lemma stat_asks:
  assumes "logged requests (fp_client p)" and "NormalizeDir root = r" "r \<noteq> []"
  shows "asks requests (allowed r (tidy rel)) st (snd (files_stat p root rel st))"
proof (cases "Resolve root rel")
  case (Inr q)
  note R = Resolve_below [OF assms(2,3) Inr]
  let ?q = "if HasSuffix rel ''/'' then NormalizeDir q else q"
  have "below r False q" using R(1,2) by (auto simp: below_def)
  then have "asks requests (allowed r (tidy rel)) st (snd (on_files (fc_PropFind (fp_client p) ?q DepthZero listProps) st))"
    using R(5) by (intro asks_client(1) [OF assms(1)]) (simp add: allowed_def)
  moreover have "snd (files_stat p root rel st) = snd (on_files (fc_PropFind (fp_client p) ?q DepthZero listProps) st)"
    unfolding files_stat_def Inr Let_def by (simp add: case_prod_beta split: option.split sum.split)
  ultimately show ?thesis by simp
qed (simp add: files_stat_def)

lemma Stat_asks:
  assumes "logged requests (fp_client p)" and "NormalizeDir root = r" "r \<noteq> []"
  shows "asks requests (allowed r (tidy rel)) st (snd (files_Stat p root rel st))"
  using stat_asks [OF assms, of rel st] asks_then [OF stat_asks [OF assms, of rel st] stat_asks [OF assms, of "rel @ ''/''" "snd (files_stat p root rel st)", unfolded tidy_slash]]
  by (auto simp: files_Stat_def case_prod_beta split: sum.split)

lemma openPath_asks:
  assumes "logged requests (fp_client p)" and "P (''GET'', q)"
  shows "asks requests P st (snd (openPath p q n g st))"
proof -
  have "snd (openPath p q n g st) = snd (on_files (fc_GetStream (fp_client p) q g) st)"
    by (simp add: openPath_def case_prod_beta split: sum.split)
  then show ?thesis using asks_client(2) [where P = P and q = q and g = g, OF assms] by simp
qed

lemma Open_asks:
  assumes "logged requests (fp_client p)" and "NormalizeDir root = r" "r \<noteq> []"
  shows "asks requests (allowed r (tidy rel)) st (snd (files_Open p root rel g st))"
proof (cases "Resolve root rel")
  case (Inr q)
  show ?thesis
    using Resolve_below(3) [OF assms(2,3) Inr] openPath_asks [OF assms(1), of "allowed r (tidy rel)" q]
    by (simp add: files_Open_def Inr allowed_def)
qed (simp add: files_Open_def)

subsection \<open>Writing\<close>

lemma Upload_asks:
  assumes "logged requests (fp_client p)" and "NormalizeDir root = r" "r \<noteq> []"
  shows "asks requests (allowed r (tidy rel)) st (snd (files_Upload p root rel b ct im cr st))"
proof (cases "Resolve root rel")
  case (Inr q)
  show ?thesis
  proof (cases "HasSuffix q ''/''")
    case False
    have b: "below r True q" using Resolve_below(3) [OF assms(2,3) Inr] False by simp
    define x where "x = (if cr \<and> im = [] then (case files_Stat p root rel st of (a, st) \<Rightarrow> (isl a, st)) else (True, st))"
    obtain free st1 where x1: "x = (free, st1)" by (cases x)
    have s: "asks requests (allowed r (tidy rel)) st st1"
      using x1 Stat_asks [OF assms, of rel st] by (auto simp: x_def case_prod_beta split: if_splits)
    have put: "asks requests (allowed r (tidy rel)) st1 (snd (on_files (fc_PutOpts (fp_client p) q b opts) st1))" for opts
      using b by (intro asks_client(3) [OF assms(1)]) (simp add: allowed_def)
    show ?thesis
      using s asks_then [OF s put] False unfolding files_Upload_def Inr sum.case Let_def x_def [symmetric] x1
      by (simp add: case_prod_beta split: sum.split)
  qed (simp add: files_Upload_def Inr)
qed (simp add: files_Upload_def)

lemma MakeDir_asks:
  assumes "logged requests (fp_client p)" and "NormalizeDir root = r" "r \<noteq> []"
  shows "asks requests (allowed r (tidy rel)) st (snd (MakeDir p root rel st))"
proof (cases "Resolve root rel")
  case (Inr q)
  have "NormalizeDir q \<noteq> r \<Longrightarrow> asks requests (allowed r (tidy rel)) st (snd (on_files (fc_MkCol (fp_client p) (NormalizeDir q)) st))"
    using Resolve_below(6) [OF assms(2,3) Inr] by (intro asks_client(5) [OF assms(1)]) (simp add: allowed_def)
  then show ?thesis using assms(2) by (simp add: MakeDir_def Inr case_prod_beta split: sum.split)
qed (simp add: MakeDir_def)

lemma Remove_asks:
  assumes "logged requests (fp_client p)" and "NormalizeDir root = r" "r \<noteq> []"
  shows "asks requests (allowed r (tidy rel)) st (snd (files_Remove p root rel im st))"
proof (cases "Resolve root rel")
  case (Inr q)
  have "NormalizeDir q \<noteq> r \<Longrightarrow> asks requests (allowed r (tidy rel)) st (snd (on_files (fc_Delete (fp_client p) q im) st))"
    using Resolve_below(4) [OF assms(2,3) Inr] by (intro asks_client(4) [OF assms(1)]) (simp add: allowed_def)
  then show ?thesis using assms(2) by (simp add: files_Remove_def Inr case_prod_beta split: sum.split)
qed (simp add: files_Remove_def)

lemma Move_asks:
  assumes "logged requests (fp_client p)" and "NormalizeDir root = r" "r \<noteq> []"
  shows "asks requests (allowed r (tidy fr)) st (snd (files_Move p root fr tr ov st))"
proof (cases "Resolve root fr")
  case src: (Inr src)
  show ?thesis
  proof (cases "Resolve root tr")
    case dst: (Inr dst)
    show ?thesis
    proof (cases "NormalizeDir src = r \<or> NormalizeDir dst = r")
      case False
      let ?st1 = "snd (on_files (fc_Move (fp_client p) src dst ov) st)"
      have "asks requests (allowed r (tidy fr)) st ?st1"
        using False Resolve_below(4) [OF assms(2,3) src] Resolve_below(4) [OF assms(2,3) dst]
        by (intro asks_client(6) [OF assms(1)]) (simp_all add: allowed_def)
      moreover from this have "asks requests (allowed r (tidy fr)) st
          (snd (files_Stat p root fr (files_invalidate p (parentOf dst) (files_invalidate p (parentOf src) ?st1))))"
        by (intro asks_then [OF _ Stat_asks [OF assms]]) simp
      ultimately show ?thesis
        using False assms(2) by (simp add: files_Move_def src dst Let_def case_prod_beta split: sum.split)
    qed (use assms(2) in \<open>auto simp: files_Move_def src dst\<close>)
  qed (simp add: files_Move_def src)
qed (simp add: files_Move_def)

text \<open>A new upload and an ensured folder try more than one path; what they change is below the collection.\<close>

lemma allowed_weak: "allowed r t x \<Longrightarrow> allowed r False x"
  by (auto simp: allowed_def split: if_splits)

lemma new_loop_asks:
  assumes "logged requests (fp_client p)" and "NormalizeDir root = r" "r \<noteq> []"
  shows "asks requests (allowed r False) st (snd (new_loop p root dr n b ct as st))"
proof (induction "as" arbitrary: st)
  case (Cons a "as")
  let ?cand = "if a > 0 then fst (splitExt n) @ ''-'' @ dec_nat (a + 1) @ snd (splitExt n) else n"
  let ?rel = "files_Join dr ?cand"
  have up: "asks requests (allowed r False) st (snd (files_Upload p root ?rel b ct [] True st))"
    by (rule asks_mono [OF Upload_asks [OF assms]]) (rule allowed_weak)
  then have "asks requests (allowed r False) st (snd (new_loop p root dr n b ct as (snd (files_Upload p root ?rel b ct [] True st))))"
    by (rule asks_then) (rule Cons)
  then show ?case using up by (cases "a > 0") (simp_all add: Let_def case_prod_beta split: sum.split)
qed simp

lemma UploadNew_asks:
  assumes "logged requests (fp_client p)" and "NormalizeDir root = r" "r \<noteq> []"
  shows "asks requests (allowed r False) st (snd (UploadNew p root dr fname b ct st))"
  using new_loop_asks [OF assms] by (simp add: UploadNew_def split: sum.split)

lemma EnsureDir_asks:
  assumes "logged requests (fp_client p)" and "NormalizeDir root = r" "r \<noteq> []"
  shows "asks requests (allowed r False) st (snd (EnsureDir p root rel st))"
proof (induction "length rel" arbitrary: rel st rule: less_induct)
  case less
  show ?case
  proof (cases "CleanRelative rel")
    case (Inr clean)
    obtain x st1 where s: "files_Stat p root clean st = (x, st1)" by (cases "files_Stat p root clean st") auto
    have a1: "asks requests (allowed r False) st st1"
      using asks_mono [OF Stat_asks [OF assms, of clean st] allowed_weak] s by simp
    obtain par ok where par: "Parent clean = (par, ok)" by fastforce
    define y where "y = (if ok \<and> par \<noteq> [] then EnsureDir p root par st1 else (Inr (), st1))"
    have "asks requests (allowed r False) st1 (snd y)"
      using less [of par st1] Parent_shorter [OF Inr par] by (auto simp: y_def)
    then have a2: "asks requests (allowed r False) st (snd y)" by (rule asks_then [OF a1])
    have a3: "asks requests (allowed r False) st (snd (MakeDir p root clean (snd y)))"
      using asks_then [OF a2 asks_mono [OF MakeDir_asks [OF assms] allowed_weak]] .
    have "snd (EnsureDir p root rel st) \<in> {st, st1, snd y, snd (MakeDir p root clean (snd y))}"
      unfolding EnsureDir.simps [of p root rel st] Inr sum.case s prod.case par y_def [symmetric]
      by (simp add: case_prod_beta split: sum.split)
    then show ?thesis using a1 a2 a3 by auto
  qed (simp add: EnsureDir.simps [of p root rel st])
qed

lemma Rename_asks:
  assumes "logged requests (fp_client p)" and "NormalizeDir root = r" "r \<noteq> []"
  shows "asks requests (allowed r (tidy rel)) st (snd (files_Rename p root rel new st))"
  using Move_asks [OF assms] by (simp add: files_Rename_def split: sum.split)

subsection \<open>Every request stays inside\<close>


definition recorder :: "(string \<times> string) list file_client" where
  "recorder =
     \<lparr>fc_PropFind = (\<lambda>q d ps w. (Inr [], w @ [(''PROPFIND'', q)])), fc_GetStream = (\<lambda>q g w. (Inr ([], []), w @ [(''GET'', q)])),
      fc_PutOpts = (\<lambda>q b opts w. (Inr [], w @ [(''PUT'', q)])), fc_Delete = (\<lambda>q t w. (Inr (), w @ [(''DELETE'', q)])),
      fc_MkCol = (\<lambda>q w. (Inr (), w @ [(''MKCOL'', q)])), fc_Move = (\<lambda>q q' o' w. (Inr (), w @ [(''MOVE'', q), (''MOVE'', q')]))\<rparr>"

definition demo_files :: "((string \<times> string) list, unit) FilesProvider" where
  "demo_files =
     \<lparr>fp_client = recorder, fp_accountID = ''acc'', fp_cache = None, fp_maxEntries = max_entries 0,
      fp_dec = \<lparr>de_text = (\<lambda>_. None), de_types = (\<lambda>_. None), de_PathEscape = (\<lambda>s. s), fd_TypeByExtension = (\<lambda>_. []),
        fd_ParseMediaType = (\<lambda>_. None), fd_ParseTime = (\<lambda>_. None), fd_U = ascii_unicode\<rparr>,
      fp_encode = (\<lambda>_. None), fp_decode = (\<lambda>_. None), fp_Now = (\<lambda>_. 0)\<rparr>"

lemma recorder_logged: "logged (\<lambda>w. w) (fp_client demo_files)"
  by (simp add: logged_def demo_files_def recorder_def)

lemma demo_clean: "clean_root ''/dav/files/''"
  unfolding clean_root_def by (rule exI [of _ "[''dav'', ''files'']"]) (simp add: seg_ok_def)


subsection \<open>White space after the check\<close>

text \<open>
  A segment of two dots and a space passes the check, and \<open>NormalizeDir\<close> then trims the space: the request for
  the listing goes to the parent of the collection.
\<close>

lemma listing_leaves_the_collection:
  "snd (files_List demo_files ''/dav/files/'' ''.. /'' ([], ())) = ([(''PROPFIND'', ''/dav/files/../'')], ())"
proof -
  have ne: "''/dav/files/'' \<noteq> []" by simp
  have t: "TrimSpace ''.. /'' = ''.. /''" by (rule TrimSpace_tight) (simp_all add: IsSpace_def)
  have s: "rel_segments ''.. /'' = [''.. '']" by (simp add: rel_segments_def t)
  have q: "Resolve ''/dav/files/'' ''.. /'' = Inr ''/dav/files/.. ''"
    using Resolve_cases [OF demo_root ne, of "''.. /''"] demo_clean by (simp add: t s plain_byte_def)
  have c: "TrimSpace ''/dav/files/.. '' = ''/dav/files/..''"
    by (simp add: TrimSpace_def chunks_ascii_Cons trim_list_def dropWhile_end_def IsSpace_def)
  have n: "NormalizeDir ''/dav/files/.. '' = ''/dav/files/../''"
    by (simp add: NormalizeDir_def Let_def c HasPrefix_slash HasSuffix_slash)
  show ?thesis
    by (simp add: files_List_def q n cachedListing_def demo_files_def on_files_def recorder_def storeListing_def Let_def)
qed

end
