(* ===== verification/FilesWrites.thy ===== *)
theory FilesWrites
  imports ProviderWrites FilesProvider
begin

text \<open>
  What the files provider changes on a server that answers conditional requests: looking at files changes nothing,
  an upload that is to create a file never replaces one, and a replacement or a removal that names a version
  changes that version only.
\<close>

subsection \<open>The client of the files provider\<close>

definition files_one_change ::
  "('s \<Rightarrow> string option list) \<Rightarrow> (string option \<Rightarrow> bool) \<Rightarrow> (files_error \<Rightarrow> bool) \<Rightarrow> 's \<times> 'c \<Rightarrow> (files_error + 'a) \<times> 's \<times> 'c \<Rightarrow> bool" where
  "files_one_change changes P refused st x = one_change P refused (changes (fst st)) (changes (fst (snd x))) (fst x)"

lemma isTaken_dav [simp]: "isTaken (FeDav e) = not_done e"
  by (simp add: isTaken_def not_done_def)

lemma on_files_careful:
  assumes "careful changes P f"
  shows "files_one_change changes P isTaken st (on_files f st)"
  using assms [unfolded careful_def, rule_format, of "fst st"]
  by (auto simp: files_one_change_def on_files_def one_change_def split: prod.split sum.split)

lemma on_files_quiet: "quiet changes f \<Longrightarrow> changes (fst (snd (on_files f st))) = changes (fst st)"
  unfolding quiet_def on_files_def by (auto simp: case_prod_beta split: sum.split)

lemma files_client:
  assumes "conditional_server H changes" and "fp_client p = dav_file_client N H c"
  shows "quiet changes (fc_PropFind (fp_client p) q d ps)" and "quiet changes (fc_GetStream (fp_client p) q g)"
    and "careful changes (\<lambda>v. (po_IfMatch opts \<noteq> [] \<longrightarrow> v = Some (po_IfMatch opts)) \<and> (po_IfNoneMatch opts \<longrightarrow> v = None))
      (fc_PutOpts (fp_client p) q b opts)"
    and "careful changes (\<lambda>v. t \<noteq> [] \<longrightarrow> v = Some t) (fc_Delete (fp_client p) q t)"
  using dav_client_ok [OF assms(1), of N c] get_quiet [OF assms(1)] assms(2)
  by (simp_all add: client_ok_def dav_client_def dav_file_client_def GetStream_def)

subsection \<open>Reading and writing files\<close>

lemma files_reads:
  assumes "conditional_server H changes" and "fp_client p = dav_file_client N H c"
  shows "changes (fst (snd (files_List p root rel st))) = changes (fst st)"
    and "changes (fst (snd (files_stat p root rel st))) = changes (fst st)"
    and "changes (fst (snd (openPath p q n g st))) = changes (fst st)"
proof -
  note Q = on_files_quiet [OF files_client(1) [OF assms]] and G = on_files_quiet [OF files_client(2) [OF assms]]
  show "changes (fst (snd (files_List p root rel st))) = changes (fst st)"
  proof (cases "Resolve root rel")
    case (Inr q)
    obtain l st1 where c: "cachedListing p (NormalizeDir q) st = (l, st1)" by (cases "cachedListing p (NormalizeDir q) st") auto
    have "fst st1 = fst st" using arg_cong [OF c, of "\<lambda>x. fst (snd x)"]
      by (simp add: cachedListing_def case_prod_beta split: option.splits if_splits)
    then show ?thesis using Q [of "NormalizeDir q" DepthOne listProps st1]
      by (auto simp: files_List_def Inr Let_def c storeListing_def case_prod_beta split: option.split sum.split)
  qed (simp add: files_List_def)
  show "changes (fst (snd (files_stat p root rel st))) = changes (fst st)"
    using Q [of _ DepthZero listProps st] by (simp add: files_stat_def Let_def case_prod_beta split: option.split sum.split)
  show "changes (fst (snd (openPath p q n g st))) = changes (fst st)"
    using G [of q g st] by (simp add: openPath_def case_prod_beta split: sum.split)
qed

lemma Stat_reads:
  assumes "conditional_server H changes" and "fp_client p = dav_file_client N H c"
  shows "changes (fst (snd (files_Stat p root rel st))) = changes (fst st)"
  using files_reads(2) [OF assms] by (simp add: files_Stat_def case_prod_beta split: sum.split)

lemma files_one_change_none: "changes (fst (snd x)) = changes (fst st) \<Longrightarrow> isl (fst x) \<Longrightarrow> files_one_change changes P refused st x"
  by (cases "fst x") (simp_all add: files_one_change_def one_change_none)

lemma one_change_weaken:
  "one_change P R xs ys x \<Longrightarrow> (\<And>v. P v \<Longrightarrow> Q v) \<Longrightarrow> one_change Q R xs ys x"
  unfolding one_change_def by (metis list.pred_mono_strong)

text \<open>A request and what follows it in the cache.\<close>

lemma files_request_then:
  assumes "careful changes P f" and "changes (fst st1) = changes (fst st)"
  shows "files_one_change changes P isTaken st
    (case on_files f st1 of (Inl e, st) \<Rightarrow> (Inl e, st) | (Inr y, st) \<Rightarrow> (Inr (h y), files_invalidate p d st))"
    "files_one_change changes P isTaken st
    (case on_files f st1 of (Inl e, st) \<Rightarrow> (Inl e, st) | (Inr y, st) \<Rightarrow> (Inr (h y), files_invalidate p d (files_invalidate p d' st)))"
  using on_files_careful [OF assms(1), of st1] assms(2)
  by (auto simp: files_one_change_def files_invalidate_def one_change_def split: prod.split sum.split option.split)

lemma Upload_error: "fst (files_Upload p root rel b ct tag create st) \<noteq> Inl FeNoFreeName"
  by (auto simp: files_Upload_def on_files_def Let_def split: sum.split prod.split if_splits)

lemma Upload_one_change:
  assumes "conditional_server H changes" and "fp_client p = dav_file_client N H c"
  shows "files_one_change changes (\<lambda>v. (tag \<noteq> [] \<longrightarrow> v = Some tag) \<and> (create \<and> tag = [] \<longrightarrow> v = None)) isTaken st
    (files_Upload p root rel body ctype tag create st)" (is "files_one_change changes ?P _ _ _")
proof (cases "Resolve root rel")
  case (Inr q)
  show ?thesis
  proof (cases "HasSuffix q ''/''")
    case False
    define x where "x = (if create \<and> tag = [] then (case files_Stat p root rel st of (a, st) \<Rightarrow> (isl a, st)) else (True, st))"
    obtain free st1 where x1: "x = (free, st1)" by (cases x)
    have s: "changes (fst st1) = changes (fst st)"
      using x1 Stat_reads [OF assms, of root rel st] by (auto simp: x_def case_prod_beta split: if_splits)
    have tail: "files_one_change changes ?P isTaken st (case on_files (fc_PutOpts (fp_client p) q body \<lparr>po_ContentType = ct, po_IfMatch = tag, po_IfNoneMatch = create \<and> tag = []\<rparr>) st1 of
          (Inl e, st) \<Rightarrow> (Inl e, st) | (Inr etag, st) \<Rightarrow> (Inr (TrimSpace etag), files_invalidate p (parentOf q) st))" for ct
      by (rule files_request_then(1) [OF files_client(3) [OF assms, of "\<lparr>po_ContentType = ct, po_IfMatch = tag, po_IfNoneMatch = create \<and> tag = []\<rparr>"]
        s, unfolded PutOptions.select_convs])
    then show ?thesis
      unfolding files_Upload_def Inr sum.case Let_def x_def [symmetric] x1 using False s
      by (simp add: files_one_change_none)
  qed (simp add: files_Upload_def Inr files_one_change_none)
qed (simp add: files_Upload_def files_one_change_none)

lemma new_loop_one_change:
  assumes "conditional_server H changes" and "fp_client p = dav_file_client N H c"
  shows "files_one_change changes (\<lambda>v. v = None) (\<lambda>e. isTaken e \<or> e = FeNoFreeName) st (new_loop p root dr n b ct as st)"
proof (induction "as" arbitrary: st)
  case (Cons a "as")
  define cand where "cand = (if a > 0 then fst (splitExt n) @ ''-'' @ dec_nat (a + 1) @ snd (splitExt n) else n)"
  let ?rel = "files_Join dr cand"
  let ?up = "files_Upload p root ?rel b ct [] True st"
  obtain x st1 where up: "?up = (x, st1)" by (cases ?up)
  have ch: "one_change (\<lambda>v. v = None) isTaken (changes (fst st)) (changes (fst st1)) x"
    using one_change_weaken [OF Upload_one_change [OF assms, of "[]" True st root ?rel b ct, unfolded files_one_change_def],
        of "\<lambda>v. v = None"] up by simp
  have ne: "x \<noteq> Inl FeNoFreeName" using Upload_error [of p root ?rel b ct "[]" True st] up by simp
  show ?case
  proof (cases "Resolve root ?rel")
    case (Inr q)
    note [simp] = cand_def [symmetric]
    show ?thesis
    proof (cases x)
      case (Inl e)
      show ?thesis
      proof (cases "isTaken e")
        case True
        then have "changes (fst st1) = changes (fst st)" using ch Inl by (auto simp: one_change_def)
        then show ?thesis using Cons [of st1] True Inl up Inr by (simp add: files_one_change_def Let_def)
      next
        case False
        then show ?thesis using ch ne Inl up Inr by (auto simp: files_one_change_def Let_def one_change_def)
      qed
    next
      case (Inr y)
      then show ?thesis using ch up \<open>Resolve root ?rel = Inr q\<close> by (simp add: files_one_change_def Let_def one_change_def)
    qed
  qed (simp add: Let_def cand_def [symmetric] files_one_change_none)
qed (simp add: files_one_change_none)

lemma Remove_one_change:
  assumes "conditional_server H changes" and "fp_client p = dav_file_client N H c"
  shows "files_one_change changes (\<lambda>v. tag \<noteq> [] \<longrightarrow> v = Some tag) isTaken st (files_Remove p root rel tag st)"
proof (cases "Resolve root rel")
  case (Inr q)
  have "files_one_change changes (\<lambda>v. tag \<noteq> [] \<longrightarrow> v = Some tag) isTaken st
      (case on_files (fc_Delete (fp_client p) q tag) st of (Inl e, st) \<Rightarrow> (Inl e, st)
       | (Inr y, st) \<Rightarrow> (Inr (), files_invalidate p (NormalizeDir q) (files_invalidate p (parentOf q) st)))"
    by (rule files_request_then(2) [OF files_client(4) [OF assms, of tag] refl])
  then show ?thesis by (simp add: files_Remove_def Inr files_one_change_none)
qed (simp add: files_Remove_def files_one_change_none)

subsection \<open>Uploads never replace what they did not mean to\<close>


text \<open>The files provider on the server with one object: the second creation finds the name taken.\<close>

definition one_file :: "(string option list \<times> string option, unit) FilesProvider" where
  "one_file =
     \<lparr>fp_client = dav_file_client demo_net one_object
        \<lparr>cl_base = demo_base, cl_guard = demo_guard, cl_user = [], cl_pass = [], cl_maxBody = 1000\<rparr>,
      fp_accountID = ''acc'', fp_cache = None, fp_maxEntries = max_entries 0,
      fp_dec = \<lparr>de_text = (\<lambda>_. None), de_types = (\<lambda>_. None), de_PathEscape = (\<lambda>s. s), fd_TypeByExtension = (\<lambda>_. []),
        fd_ParseMediaType = (\<lambda>_. None), fd_ParseTime = (\<lambda>_. None), fd_U = ascii_unicode\<rparr>,
      fp_encode = (\<lambda>_. None), fp_decode = (\<lambda>_. None), fp_Now = (\<lambda>_. 0)\<rparr>"


end
