(* ===== verification/Spec2Isabelle.thy ===== *)
theory Spec2Isabelle
  imports RateLimit SessionManager FanoutRegistry StoreSecrets ModelLoss MergeCards FilesPath ModelImport ServerConfig ProviderWrites ProviderSets FilesRequests FilesWrites
begin

text \<open>
  Carrel is a self-hosted web front end for CalDAV, CardDAV and WebDAV accounts, written in Go. This
  library models the part of it that keeps state and secrets, from the sources under
  \<open>src/internal/\<close>, and proves what makes that part correct.

  \<^bold>\<open>The parts and how they interact.\<close> A login is throttled by \<open>internal/ratelimit\<close> and checked by
  \<open>internal/store\<close>, which keeps the users, invitations, settings and the log in one encrypted file and
  derives the user's data key with \<open>internal/crypto\<close>. A session of \<open>internal/session\<close> then holds the
  data key, a cache of what was read from the DAV servers and the drafts of unfinished forms. With the
  data key the store opens the user's secrets, an \<open>internal/account\<close> blob with the DAV accounts, the
  saved views and the decisions about duplicates. A screen that shows many accounts polls them through
  \<open>internal/fanout\<close>; each poll asks a provider (\<open>internal/provider\<close>), which reads and writes the records through
  the cache of the session and the client of \<open>internal/dav\<close>, whose connections pass the guard of \<open>dav/ssrf.go\<close>.
  The records are \<open>internal/model\<close> objects, imported ones as well, and \<open>internal/merge\<close> finds and merges
  duplicates. \<open>internal/config\<close> sets the limits of all of these.

  \<^bold>\<open>The theories.\<close> Definitions bear the names of the Go functions, with a prefix where two packages
  share a name; a part of a function that is a loop has its own definition with the suffix \<open>_loop\<close>.
  \<^item> \<open>Carrel_Prelude\<close>: time and durations, Go maps as association lists (\<open>gomap\<close>), search and update
    in slices, and the interfaces as locales: \<open>record_table\<close> (records found by key; interpreted on the
    users, the invitations and the accounts), \<open>invariant_system\<close> (a step relation with an invariant;
    interpreted on every component with state) and \<open>draining_loop\<close> (a loop that empties a pool;
    interpreted on the eviction of the cache budget).
  \<^item> \<open>Go_Encoding\<close>, \<open>Go_Strings\<close>, \<open>Go_Format\<close>: the functions of the Go standard library that the code uses
    on strings: hex and base64, UTF-8 decoding, trimming, case, formatting. The tables of the package
    unicode beyond ASCII are the parameter \<open>unicode\<close>.
  \<^item> \<open>RateLimit\<close> (\<open>ratelimit/ratelimit.go\<close>): the keys of attempts, the delays, blocking and pruning.
  \<^item> \<open>SessionCache\<close>, \<open>SessionBudget\<close> (\<open>session/cache.go\<close>, \<open>thumb.go\<close>, \<open>budget.go\<close>): the cache of one session
    and the budget all sessions share; \<open>SessionScratch\<close> (\<open>scratch.go\<close>): drafts and their files;
    \<open>SessionManager\<close> (\<open>session.go\<close>): sessions, their index by user and their data keys.
  \<^item> \<open>FanoutTask\<close>, \<open>FanoutRegistry\<close> (\<open>fanout/fanout.go\<close>, \<open>registry.go\<close>): one poll as a step relation over the
    critical sections of its goroutines, and the table of polls.
  \<^item> \<open>Crypto\<close> (\<open>crypto/*.go\<close>): sealing, wrapped keys, tokens, password verifiers, the escrow scheme and the
    server key file.
  \<^item> \<open>AccountViews\<close>, \<open>AccountDuplicates\<close>, \<open>Account\<close> (\<open>account/views.go\<close>, \<open>duplicates.go\<close>, \<open>blob.go\<close>).
  \<^item> \<open>StoreModel\<close> (\<open>store/model.go\<close>, \<open>audit.go\<close>), \<open>StoreCore\<close> (\<open>store.go\<close>, \<open>validate.go\<close>: transactions and the
    file), \<open>StoreUsers\<close> (\<open>users.go\<close>, \<open>register.go\<close>, \<open>email_change.go\<close>), \<open>StoreInvites\<close> (\<open>invites.go\<close>,
    \<open>settings.go\<close>, \<open>escrow.go\<close>), \<open>StoreAccounts\<close> (\<open>accounts.go\<close>, \<open>collections.go\<close>, \<open>duplicates.go\<close>).
  \<^item> \<open>StoreInvariant\<close>: the step relation over all methods of the store, the abstract changes and the proof
    that every method is a sequence of them; \<open>StoreCredentials\<close>: which password opens which key;
    \<open>StoreProperties\<close>, \<open>StoreSecrets\<close>: the properties of the store.
  \<^item> \<open>ModelFold\<close> (\<open>model/fold.go\<close>): the folding of long lines; \<open>ModelObject\<close> (\<open>object.go\<close>, \<open>patch.go\<close>, \<open>uid.go\<close>):
    vCard and iCalendar objects, their properties and patches; \<open>ModelLoss\<close> (\<open>loss.go\<close>, \<open>diff.go\<close>): what a server
    lost of a written object, and differences; \<open>ModelContact\<close> (\<open>contact.go\<close>, \<open>email.go\<close>) and \<open>ModelCalendar\<close>
    (\<open>event.go\<close>, \<open>todo.go\<close>, \<open>note.go\<close>, \<open>expand.go\<close>, \<open>related.go\<close>, \<open>attach.go\<close>): the views that screens show.
  \<^item> \<open>MergeNormalize\<close>, \<open>MergeScore\<close> (\<open>merge/normalize.go\<close>, \<open>fingerprint.go\<close>, \<open>score.go\<close>): fingerprints and
    scores of records; \<open>MergeCluster\<close> (\<open>cluster.go\<close>): the groups, by union-find; \<open>MergeCards\<close> (\<open>vcard.go\<close>,
    \<open>fields.go\<close>): the patch that merges cards and the row that shows a group.
  \<^item> \<open>FilesPath\<close> (\<open>provider/files/path.go\<close>): paths inside a collection; \<open>ModelImport\<close> (\<open>model/vcards.go\<close>, \<open>icals.go\<close>,
    \<open>import.go\<close>): imported files; \<open>DavGuard\<close> (\<open>dav/ssrf.go\<close>): the guard of outgoing connections; \<open>ServerConfig\<close>
    (\<open>config/config.go\<close>): the settings, where each comes from and how the limits reach the cache and the guard.
  \<^item> \<open>DavTransport\<close> (\<open>dav/transport.go\<close>, \<open>multistatus.go\<close>, \<open>caldav.go\<close>, \<open>carddav.go\<close>): requests and answers of the client;
    \<open>ProviderCache\<close>: the interface of the session cache as the locale \<open>provider_cache\<close>, interpreted on it;
    \<open>ProviderObjects\<close>, \<open>ProviderQueries\<close> (\<open>provider/contacts/*.go\<close>, \<open>provider/calendar/*.go\<close>): the operations of the
    providers; \<open>ProviderWrites\<close>, \<open>ProviderListing\<close>, \<open>ProviderSets\<close>: what they do to the server, and whether what
    they answer from the cache is true.
  \<^item> \<open>FilesProvider\<close> (\<open>provider/files/files.go\<close>): listings, downloads, uploads, folders, moves; \<open>FilesWrites\<close>: what they
    change on the server; \<open>FilesRequests\<close>: where their requests go.

  \<^bold>\<open>State and operations.\<close> A struct is a record, a mutex-protected section is one step, a pointer into a
  table is the record found by its key and written back by it, an error is a value of a sum type. Clock
  readings and random bytes are arguments; a Go map is an association list, so an iteration order is a
  list order and statements hold for every order. Times are nanoseconds as unbounded integers, the
  64-bit arithmetic of durations is written out (\<open>wrap64\<close>, \<open>time_sub\<close>); the parameters of Argon2id are
  words. The cryptographic primitives are the record \<open>primitives\<close> with the documented laws
  \<open>primitives_ok\<close>; \<open>encoding/json\<close> is a pair of functions and what is relied on is that a value reads
  back; the parsers of vCards and iCalendar objects are the record \<open>dav_lib\<close> with the laws \<open>lib_ok\<close>. All
  have concrete instances in the witnesses.

  \<^bold>\<open>What the lemmas show.\<close> Limiter: failed logins are delayed and blocked, and a success or time lifts
  it. Sessions: caches stay within their limits, return what was stored and only while it is fresh, and
  evict across sessions in the documented order; photo files are not left behind; keys live exactly as
  long as their session. Polls: a poll settles, its gate is safe and live, cancelling is final, results
  are merged, and the registry is bounded and cancels what it drops. Crypto: wrapped and deposited keys
  come back, verifiers accept their password, the server key is never replaced. Settings: they come from
  the environment, the file and the defaults in that order, and loaded limits are the ones kept. Requests:
  connections leave inside addresses alone and paths stay inside their collection. Providers: no version is
  overwritten that the caller has not read, a listing is current or younger than its time to live, and a
  cached result set is what was read. Files: an upload never replaces what it did not mean to, and every
  request stays inside its collection. Imports: every record ends up in one part. Accounts: views,
  decisions and accounts are kept as given. Store: transactions are atomic, the state stays well formed
  over every sequence of calls, every method refines an abstract contract, an administrator always
  remains, an invitation is used once, data keys survive a change of password and a recovery, and stored
  accounts are read back. Records: a patch touches what it names, the report of a write is exact and the
  registry of losses is the history, folding reads back, the expansion of a recurring event is exact.
  Duplicates: the distance is the edit distance, a suggestion needs a strong signal, the groups are the
  connected components of the pairs that reach the threshold, and merging cards only adds.

  \<^bold>\<open>Bounds and fuel.\<close> No operation needs fuel: loops are structural recursions, and the eviction loop of
  the cache budget is a \<open>partial_function\<close> that is proved to return whenever the invariant holds. The
  sequence number of the log and Go's \<open>int\<close> counters are unbounded integers; the counters are bounded by
  the invariants.

  \<^bold>\<open>Not modelled.\<close> The HTTP handlers and templates (\<open>internal/web\<close>), discovery, the decoding of XML, the Markdown renderer, photos, mail, the installation check and the desktop
  shell; in the modelled packages the locks themselves (a step is a critical section), the timing of
  \<open>decoyVerify\<close>, \<open>syncDir\<close> and \<open>fmt\<close> error texts, and labels of time zones and sizes.
\<close>

end
